(* ===== verification/Py_Prelude.thy ===== *)
theory Py_Prelude
  imports Complex_Main "HOL-Library.AList" "HOL-Library.Multiset" "HOL-Library.Sublist"
begin

text \<open>
  Shared vocabulary of the development: the exceptions the Python sources raise, results
  that are either an exception or a value, loops that stop at the first exception, Python
  indexing and slicing with negative indices, dictionaries as association lists in
  insertion order, decimal numerals, and the generic lemmas the component theories share.
\<close>

section \<open>Exceptions and results\<close>

datatype py_error =
    IndexError
  | KeyError
  | ValueError
  | AssertionError
  | AttributeError
  | TypeError
  | ZeroDivisionError
  | UnboundLocalError
  | OSError
  | PlainException
  | NameError
  | ImportError

type_synonym 'a result = "py_error + 'a"

named_theorems res_simps \<open>unfolding of results and of loops over them\<close>

fun res_bind :: "'e + 'a \<Rightarrow> ('a \<Rightarrow> 'e + 'b) \<Rightarrow> 'e + 'b" where
  "res_bind (Inl e) f = Inl e"
| "res_bind (Inr x) f = f x"

lemma res_bind_Inr_iff [res_simps]:
  "res_bind x f = Inr y \<longleftrightarrow> (\<exists>a. x = Inr a \<and> f a = Inr y)"
  by (cases x) auto

lemma res_bind_Inl_iff [res_simps]:
  "res_bind x f = Inl e \<longleftrightarrow> x = Inl e \<or> (\<exists>a. x = Inr a \<and> f a = Inl e)"
  by (cases x) auto

lemma res_bind_cong [fundef_cong]:
  "x = x' \<Longrightarrow> (\<And>a. x' = Inr a \<Longrightarrow> f a = f' a) \<Longrightarrow> res_bind x f = res_bind x' f'"
  by (cases x') auto

text \<open>A \<^verbatim>\<open>for\<close> loop whose body may raise: it stops at the first exception.\<close>

fun for_each :: "('a \<Rightarrow> 's \<Rightarrow> 'e + 's) \<Rightarrow> 'a list \<Rightarrow> 's \<Rightarrow> 'e + 's" where
  "for_each f [] s = Inr s"
| "for_each f (x # xs) s = res_bind (f x s) (for_each f xs)"

lemma for_each_append:
  "for_each f (xs @ ys) s = res_bind (for_each f xs s) (for_each f ys)"
proof (induction xs arbitrary: s)
  case (Cons x xs)
  then show ?case by (cases "f x s") auto
qed simp

lemma for_each_inv:
  assumes "for_each f xs s = Inr t" and "P s"
    and "\<And>x s s'. x \<in> set xs \<Longrightarrow> P s \<Longrightarrow> f x s = Inr s' \<Longrightarrow> P s'"
  shows "P t"
  using assms
proof (induction xs arbitrary: s)
  case (Cons x xs)
  from Cons.prems(1) obtain s' where "f x s = Inr s'" and "for_each f xs s' = Inr t"
    by (auto simp: res_simps)
  with Cons show ?case by (meson list.set_intros)
qed simp

lemma for_each_collect:
  "for_each (\<lambda>x acc. res_bind (f x) (\<lambda>y. Inr (acc @ [y]))) xs acc = Inr r \<longleftrightarrow> (\<exists>ys. map f xs = map Inr ys \<and> r = acc @ ys)"
proof (induction xs arbitrary: acc)
  case (Cons x xs)
  show ?case by (auto simp: res_simps Cons.IH Cons_eq_map_conv)
qed auto

section \<open>Python sequences\<close>

definition py_nth :: "'a list \<Rightarrow> int \<Rightarrow> 'a result" where
  "py_nth xs i =
     (let n = int (length xs); j = (if i < 0 then i + n else i)
      in if 0 \<le> j \<and> j < n then Inr (xs ! nat j) else Inl IndexError)"

text \<open>The bound of a slice, as Python clips it.\<close>

definition py_clip :: "'a list \<Rightarrow> int \<Rightarrow> nat" where
  "py_clip xs i =
     (let n = int (length xs); j = (if i < 0 then i + n else i) in nat (max 0 (min n j)))"

definition slice_to :: "'a list \<Rightarrow> int \<Rightarrow> 'a list" where
  "slice_to xs j = take (py_clip xs j) xs"

definition slice_from :: "'a list \<Rightarrow> int \<Rightarrow> 'a list" where
  "slice_from xs i = drop (py_clip xs i) xs"

definition py_slice :: "'a list \<Rightarrow> int \<Rightarrow> int \<Rightarrow> 'a list" where
  "py_slice xs i j = drop (py_clip xs i) (take (py_clip xs j) xs)"

lemma py_nth_nat [simp]: "i < length xs \<Longrightarrow> py_nth xs (int i) = Inr (xs ! i)"
  by (simp add: py_nth_def)

lemma py_nth_pred:
  assumes "0 < k" and "k \<le> length xs"
  shows "py_nth xs (int k - 1) = Inr (xs ! (k - 1))"
proof -
  have "int k - 1 = int (k - 1)" using assms(1) by linarith
  then show ?thesis using assms by (simp only: py_nth_nat)
qed

lemma py_nth_neg1 [simp]: "xs \<noteq> [] \<Longrightarrow> py_nth xs (- 1) = Inr (last xs)"
  by (simp add: py_nth_def last_conv_nth Let_def nat_diff_distrib Suc_le_eq)

lemma py_nth_Inr_set: "py_nth xs i = Inr x \<Longrightarrow> x \<in> set xs"
  by (auto simp: py_nth_def Let_def split: if_splits)

lemma py_clip_nat [simp]: "py_clip xs (int i) = min i (length xs)"
  by (simp add: py_clip_def min_def)

lemma py_clip_neg: "0 < i \<Longrightarrow> py_clip xs (- int i) = length xs - i"
  by (simp add: py_clip_def)

text \<open>Selecting from a list by a condition that is monotone in the index.\<close>

lemma filter_index_take: "(\<And>k. k < length xs \<Longrightarrow> P (xs ! k) \<longleftrightarrow> k < n) \<Longrightarrow> filter P xs = take n xs"
proof (induction xs arbitrary: n)
  case (Cons x xs)
  have hd: "P x \<longleftrightarrow> 0 < n" using Cons.prems [of 0] by simp
  have tl: "P (xs ! k) \<longleftrightarrow> k < n - 1" if "k < length xs" for k
    using Cons.prems [of "Suc k"] that by auto
  from Cons.IH [of "n - 1"] tl hd show ?case by (cases n) auto
qed simp

lemma filter_index_drop: "(\<And>k. k < length xs \<Longrightarrow> P (xs ! k) \<longleftrightarrow> n \<le> k) \<Longrightarrow> filter P xs = drop n xs"
proof (induction xs arbitrary: n)
  case (Cons x xs)
  have hd: "P x \<longleftrightarrow> n = 0" using Cons.prems [of 0] by simp
  have tl: "P (xs ! k) \<longleftrightarrow> n - 1 \<le> k" if "k < length xs" for k
    using Cons.prems [of "Suc k"] that by auto
  from Cons.IH [of "n - 1"] tl hd show ?case by (cases n) auto
qed simp

lemma sorted_le_last: "sorted xs \<Longrightarrow> x \<in> set xs \<Longrightarrow> x \<le> last xs"
  by (induction xs) auto

section \<open>Dictionaries\<close>

text \<open>
  A dictionary is the association list of its items in insertion order:
  \<open>AList.update\<close> stores a value (an existing key keeps its place, a new one goes to the
  end), \<open>AList.delete\<close> is \<^verbatim>\<open>del d[k]\<close> and \<open>map_of\<close> looks a key up.
\<close>

type_synonym ('k, 'v) dict = "('k \<times> 'v) list"

abbreviation dict_keys :: "('k, 'v) dict \<Rightarrow> 'k list" where
  "dict_keys d \<equiv> map fst d"

lemma map_of_update [simp]: "map_of (AList.update k v d) = (map_of d)(k \<mapsto> v)"
  by (simp add: update_conv')

lemma map_of_delete [simp]: "map_of (AList.delete k d) = (map_of d)(k := None)"
  by (simp add: delete_conv')

lemma map_of_eq_None_keys: "map_of d k = None \<longleftrightarrow> k \<notin> set (dict_keys d)"
  by (simp add: map_of_eq_None_iff)

lemma length_update_present [simp]:
  "k \<in> set (dict_keys d) \<Longrightarrow> length (AList.update k v d) = length d"
  by (induction d) auto

lemma dict_keys_update_present [simp]:
  "k \<in> set (dict_keys d) \<Longrightarrow> dict_keys (AList.update k v d) = dict_keys d"
  by (induction d) auto

lemma update_new_key: "k \<notin> set (dict_keys d) \<Longrightarrow> AList.update k v d = d @ [(k, v)]"
  by (induction d) auto

lemma length_delete_present:
  "map_of d k \<noteq> None \<Longrightarrow> length (AList.delete k d) < length d"
proof (induction d)
  case (Cons e d)
  have "length (AList.delete k d) \<le> length d" by (rule length_delete_le)
  with Cons show ?case by (cases e) (auto split: if_splits)
qed simp

lemma dict_empty_iff: "d = [] \<longleftrightarrow> (\<forall>k. map_of d k = None)"
  by (cases d) (auto split: if_splits intro!: exI)

text \<open>
  The order in which a dictionary lists its keys.  Python 2 promises no order, so the
  functions that iterate over a dictionary take the order as an argument: \<open>ko\<close> maps the
  keys in insertion order to the keys in iteration order, and all that is assumed of it is
  that it lists every key once.  Python 3.7 and later is \<open>ko = id\<close>.
\<close>

locale key_order =
  fixes ko :: "'a list \<Rightarrow> 'a list"
  assumes ko_perm: "mset (ko ks) = mset ks"
begin

lemma ko_set [simp]: "set (ko ks) = set ks"
  using ko_perm by (rule mset_eq_setD)

lemma ko_distinct [simp]: "distinct (ko ks) \<longleftrightarrow> distinct ks"
  using ko_perm by (rule mset_eq_imp_distinct_iff)

lemma ko_length [simp]: "length (ko ks) = length ks"
  using ko_perm by (rule mset_eq_length)

end

interpretation insertion_order: key_order id
  by unfold_locales simp

interpretation reverse_order: key_order rev
  by unfold_locales simp

section \<open>Decimal numerals\<close>

definition digit_char :: "nat \<Rightarrow> char" where
  "digit_char d = char_of (48 + d)"

definition digit_val :: "char \<Rightarrow> nat" where
  "digit_val c = of_char c - 48"

definition is_digit :: "char \<Rightarrow> bool" where
  "is_digit c \<longleftrightarrow> 48 \<le> (of_char c :: nat) \<and> (of_char c :: nat) \<le> 57"

fun show_nat :: "nat \<Rightarrow> string" where
  "show_nat n = (if n < 10 then [digit_char n] else show_nat (n div 10) @ [digit_char (n mod 10)])"

declare show_nat.simps [simp del]

definition show_int :: "int \<Rightarrow> string" where
  "show_int i = (if i < 0 then ''-'' @ show_nat (nat (- i)) else show_nat (nat i))"

definition read_nat :: "string \<Rightarrow> nat" where
  "read_nat s = foldl (\<lambda>n c. 10 * n + digit_val c) 0 s"

lemma digit_val_char [simp]: "d < 10 \<Longrightarrow> digit_val (digit_char d) = d"
  by (simp add: digit_val_def digit_char_def of_char_of)

lemma is_digit_char [simp]: "d < 10 \<Longrightarrow> is_digit (digit_char d)"
  by (simp add: is_digit_def digit_char_def of_char_of)

lemma show_nat_nonempty [simp]: "show_nat n \<noteq> []"
  by (subst show_nat.simps) simp

lemma show_nat_digits: "\<forall>c \<in> set (show_nat n). is_digit c"
proof (induction n rule: show_nat.induct)
  case (1 n)
  then show ?case by (subst show_nat.simps) auto
qed

lemma read_show_nat [simp]: "read_nat (show_nat n) = n"
proof (induction n rule: show_nat.induct)
  case (1 n)
  then show ?case
    by (subst show_nat.simps) (auto simp: read_nat_def)
qed

section \<open>Strings\<close>

abbreviation NL :: char where
  "NL \<equiv> CHR 0x0A"

abbreviation TAB :: char where
  "TAB \<equiv> CHR 0x09"

abbreviation QUOT :: char where
  "QUOT \<equiv> CHR 0x22"

abbreviation SQ :: char where
  "SQ \<equiv> CHR 0x27"

abbreviation SLASH :: char where
  "SLASH \<equiv> CHR ''/''"

text \<open>\<^verbatim>\<open>repr\<close> of a string without quotes, backslashes and control characters, such as the names of modules and C++ types.\<close>

definition repr_plain :: "string \<Rightarrow> string" where
  "repr_plain s = SQ # s @ [SQ]"

definition is_space :: "char \<Rightarrow> bool" where
  "is_space c \<longleftrightarrow> c \<in> {CHR '' '', TAB, NL, CHR 0x0B, CHR 0x0C, CHR 0x0D}"

lemma NL_space [simp]: "is_space NL"
  by (simp add: is_space_def)

text \<open>\<^verbatim>\<open>s.strip()\<close>, \<^verbatim>\<open>sep.join(parts)\<close>, \<^verbatim>\<open>s.split(c)\<close> and \<^verbatim>\<open>s.split(c, 1)\<close>
  for a one-character separator.\<close>

definition py_strip :: "string \<Rightarrow> string" where
  "py_strip s = rev (dropWhile is_space (rev (dropWhile is_space s)))"

fun py_join :: "string \<Rightarrow> string list \<Rightarrow> string" where
  "py_join sep [] = []"
| "py_join sep [x] = x"
| "py_join sep (x # y # ys) = x @ sep @ py_join sep (y # ys)"

fun py_split :: "char \<Rightarrow> string \<Rightarrow> string list" where
  "py_split c [] = [[]]"
| "py_split c (x # xs) =
     (if x = c then [] # py_split c xs
      else case py_split c xs of [] \<Rightarrow> [[x]] | p # ps \<Rightarrow> (x # p) # ps)"

definition py_split1 :: "char \<Rightarrow> string \<Rightarrow> string list" where
  "py_split1 c s =
     (case dropWhile (\<lambda>x. x \<noteq> c) s of
        [] \<Rightarrow> [s]
      | _ # rest \<Rightarrow> [takeWhile (\<lambda>x. x \<noteq> c) s, rest])"

text \<open>\<^verbatim>\<open>pat in s\<close>\<close>

definition has_infix :: "string \<Rightarrow> string \<Rightarrow> bool" where
  "has_infix pat s \<longleftrightarrow> (\<exists>suf \<in> set (suffixes s). prefix pat suf)"

lemma has_infix_iff: "has_infix pat s \<longleftrightarrow> (\<exists>a b. s = a @ pat @ b)"
proof
  assume "\<exists>a b. s = a @ pat @ b"
  then obtain a b where "s = a @ pat @ b" by blast
  then show "has_infix pat s" unfolding has_infix_def by (intro bexI [of _ "pat @ b"]) (simp_all add: in_set_suffixes suffix_def)
next
  assume "has_infix pat s"
  then obtain suf zs where "suf \<in> set (suffixes s)" "suf = pat @ zs" by (auto simp: has_infix_def prefix_def)
  then show "\<exists>a b. s = a @ pat @ b" by (auto simp: in_set_suffixes suffix_def)
qed

lemma py_split_nonempty [simp]: "py_split c s \<noteq> []"
  by (induction s) (auto split: list.splits)

lemma py_join_Cons: "ps \<noteq> [] \<Longrightarrow> py_join sep (p # ps) = p @ sep @ py_join sep ps"
  by (cases ps) auto

lemma py_join_split: "py_join [c] (py_split c s) = s"
proof (induction s)
  case (Cons x xs)
  obtain p ps where eq: "py_split c xs = p # ps"
    by (cases "py_split c xs") auto
  show ?case
  proof (cases ps)
    case Nil
    with Cons eq show ?thesis by auto
  next
    case (Cons q qs)
    with Cons.IH eq show ?thesis by auto
  qed
qed simp

lemma py_split_no_sep: "c \<notin> set s \<Longrightarrow> py_split c s = [s]"
  by (induction s) auto

section \<open>Paths\<close>

text \<open>\<^verbatim>\<open>os.path.join\<close> and \<^verbatim>\<open>os.path.basename\<close> on POSIX.\<close>

definition path_join :: "string \<Rightarrow> string \<Rightarrow> string" where
  "path_join a b =
     (if prefix ''/'' b then b
      else if a = [] \<or> last a = CHR ''/'' then a @ b else a @ ''/'' @ b)"

definition basename :: "string \<Rightarrow> string" where
  "basename p = rev (takeWhile (\<lambda>c. c \<noteq> CHR ''/'') (rev p))"

lemma basename_no_slash: "CHR ''/'' \<notin> set (basename p)"
  by (auto simp: basename_def dest: set_takeWhileD)

section \<open>Operations on a state\<close>

text \<open>
  An operation that reads and changes a state and may raise: also when it raises, the state is
  the one it leaves behind.
\<close>

type_synonym ('s, 'a) io = "'s \<Rightarrow> 'a result \<times> 's"

definition io_return :: "'a \<Rightarrow> ('s, 'a) io" where
  "io_return a = (\<lambda>s. (Inr a, s))"

definition io_raise :: "py_error \<Rightarrow> ('s, 'a) io" where
  "io_raise e = (\<lambda>s. (Inl e, s))"

definition io_modify :: "('s \<Rightarrow> 's) \<Rightarrow> ('s, unit) io" where
  "io_modify f = (\<lambda>s. (Inr (), f s))"

definition io_bind :: "('s, 'a) io \<Rightarrow> ('a \<Rightarrow> ('s, 'b) io) \<Rightarrow> ('s, 'b) io" where
  "io_bind m f = (\<lambda>s. case m s of (Inl e, s') \<Rightarrow> (Inl e, s') | (Inr a, s') \<Rightarrow> f a s')"

lemma io_bind_Inr [res_simps]:
  "io_bind m f s = (Inr b, t) \<longleftrightarrow> (\<exists>a s'. m s = (Inr a, s') \<and> f a s' = (Inr b, t))"
  by (auto simp: io_bind_def split: prod.splits sum.splits)

lemma io_bind_Inl [res_simps]:
  "io_bind m f s = (Inl e, t) \<longleftrightarrow>
     m s = (Inl e, t) \<or> (\<exists>a s'. m s = (Inr a, s') \<and> f a s' = (Inl e, t))"
  by (auto simp: io_bind_def split: prod.splits sum.splits)

lemma io_bind_run [simp]:
  "m s = (Inr a, s') \<Longrightarrow> io_bind m f s = f a s'"
  "m s = (Inl e, s') \<Longrightarrow> io_bind m f s = (Inl e, s')"
  by (simp_all add: io_bind_def)

lemma io_simps [simp]:
  "io_return a s = (Inr a, s)" "io_raise e s = (Inl e, s)" "io_modify f s = (Inr (), f s)"
  by (simp_all add: io_return_def io_raise_def io_modify_def)

text \<open>What holds of every outcome of a first operation, and then of the second.\<close>

lemma io_bind_inv:
  assumes "io_bind m f s = (r, t)" and "P s"
    and "\<And>r' s'. m s = (r', s') \<Longrightarrow> P s'"
    and "\<And>a s' r' t'. m s = (Inr a, s') \<Longrightarrow> P s' \<Longrightarrow> f a s' = (r', t') \<Longrightarrow> P t'"
  shows "P t"
  using assms by (fastforce simp: io_bind_def split: prod.splits sum.splits)

text \<open>A \<^verbatim>\<open>for\<close> loop over such operations, which an exception ends.\<close>

fun io_for :: "('a \<Rightarrow> ('s, unit) io) \<Rightarrow> 'a list \<Rightarrow> ('s, unit) io" where
  "io_for f [] = io_return ()"
| "io_for f (x # xs) = io_bind (f x) (\<lambda>_. io_for f xs)"

lemma io_bind_assoc: "io_bind (io_bind m f) g = io_bind m (\<lambda>a. io_bind (f a) g)"
  by (rule ext) (simp add: io_bind_def split: prod.split sum.split)

lemma io_bind_return: "io_bind (io_return a) f = f a" "io_bind m io_return = m"
  by (auto simp: io_bind_def fun_eq_iff io_return_def split: prod.split sum.split)

lemma io_for_append: "io_for f (xs @ ys) = io_bind (io_for f xs) (\<lambda>_. io_for f ys)"
  by (induction xs) (simp_all add: io_bind_assoc io_bind_return)

lemma io_for_inv:
  assumes "P s" and "\<And>x s. x \<in> set xs \<Longrightarrow> P s \<Longrightarrow> P (snd (f x s))"
  shows "P (snd (io_for f xs s))"
  using assms
proof (induction xs arbitrary: s)
  case (Cons x xs)
  obtain r s' where r: "f x s = (r, s')" by fastforce
  with Cons.prems have "P s'" by (metis list.set_intros(1) snd_conv)
  with Cons r show ?case by (cases r) (auto simp: io_bind_def)
qed simp

lemma io_for_succeeds:
  assumes "P s" and "\<And>x s. x \<in> set xs \<Longrightarrow> P s \<Longrightarrow> fst (f x s) = Inr () \<and> P (snd (f x s))"
  shows "fst (io_for f xs s) = Inr () \<and> P (snd (io_for f xs s))"
  using assms
proof (induction xs arbitrary: s)
  case (Cons x xs)
  obtain r s' where r: "f x s = (r, s')" by fastforce
  with Cons.prems(1) Cons.prems(2) [of x s] have "r = Inr ()" "P s'" by auto
  with Cons r show ?case by (simp add: io_bind_def)
qed simp

end
