(* ===== verification/Rad_Util.thy ===== *)
theory Rad_Util
  imports Py_Prelude
begin

text \<open>
  The sequence and dictionary utilities of \<^verbatim>\<open>bindings/python/rad_util.py\<close>, with the
  semantics of Python 2, for which the file is written: rotations, permutations,
  transposition, common prefixes and suffixes, duplicate removal, dictionary reversal and
  command line arguments.  The numeric utilities are in the theory \<open>Rad_Numbers\<close>.
\<close>

section \<open>Rotations\<close>

text \<open>\<^verbatim>\<open>is_rotated\<close>: every place where the head of the second sequence occurs in the
  first is tried as the start of a wrapped match.\<close>

definition is_rotated :: "'a list \<Rightarrow> 'a list \<Rightarrow> bool result" where
  "is_rotated seq1 seq2 =
     (if length seq1 \<noteq> length seq2 then Inr False
      else res_bind (py_nth seq2 0) (\<lambda>head_item.
        let start_indexes = filter (\<lambda>i. seq1 ! i = head_item) [0..<length seq1];
            double_seq1 = seq1 @ seq1
        in Inr (list_ex (\<lambda>i. take (length seq1) (drop i double_seq1) = seq2) start_indexes)))"

lemma window_rotate:
  "i < length xs \<Longrightarrow> take (length xs) (drop i (xs @ xs)) = rotate i xs"
  by (simp add: rotate_drop_take)

lemma rotate_lt: "i < length xs \<Longrightarrow> rotate i xs = drop i xs @ take i xs"
  by (simp add: rotate_drop_take)

lemma rotate_index_bound:
  assumes "ys = rotate n xs" and "xs \<noteq> []"
  shows "\<exists>i < length xs. ys = rotate i xs"
  using assms by (intro exI [of _ "n mod length xs"]) (simp add: rotate_conv_mod [symmetric])

lemma is_rotated_rotate:
  assumes "ys \<noteq> []"
  shows "is_rotated xs ys = Inr (\<exists>n. ys = rotate n xs)"
proof (cases "length xs = length ys")
  case False
  then have "\<not> (\<exists>n. ys = rotate n xs)" by auto
  with False show ?thesis by (simp add: is_rotated_def)
next
  case True
  with assms have ne: "xs \<noteq> []" by auto
  have hd0: "py_nth ys 0 = Inr (ys ! 0)"
    using py_nth_nat [of 0 ys] assms by simp
  have "list_ex (\<lambda>i. take (length xs) (drop i (xs @ xs)) = ys)
          (filter (\<lambda>i. xs ! i = ys ! 0) [0..<length xs]) \<longleftrightarrow> (\<exists>n. ys = rotate n xs)"
    (is "?L \<longleftrightarrow> ?R")
  proof
    assume ?L
    then obtain i where "i < length xs" and "take (length xs) (drop i (xs @ xs)) = ys"
      by (auto simp: list_ex_iff)
    then show ?R by (metis window_rotate)
  next
    assume ?R
    then obtain i where i: "i < length xs" and ys: "ys = rotate i xs"
      using rotate_index_bound ne by blast
    then have "xs ! i = ys ! 0" using ne by (simp add: nth_rotate)
    with i ys show ?L
      by (auto simp: list_ex_iff rotate_lt intro!: exI [of _ i])
  qed
  with True hd0 show ?thesis by (simp add: is_rotated_def)
qed

section \<open>Reversal and transposition\<close>

text \<open>\<^verbatim>\<open>reverse\<close>: a string is turned into a list, reversed in place and joined.\<close>

definition reverse_string :: "string \<Rightarrow> string" where
  "reverse_string input_string = rev input_string"

text \<open>\<^verbatim>\<open>transpose\<close>: \<^verbatim>\<open>zip(*matrix)\<close> stops at the shortest row.\<close>

definition transpose_matrix :: "'a list list \<Rightarrow> 'a list list" where
  "transpose_matrix matrix =
     (case matrix of
        [] \<Rightarrow> []
      | _ \<Rightarrow> map (\<lambda>j. map (\<lambda>row. row ! j) matrix) [0..<min_list (map length matrix)])"

lemma min_list_const: "xs \<noteq> [] \<Longrightarrow> \<forall>x \<in> set xs. x = (k::nat) \<Longrightarrow> min_list xs = k"
  by (subst min_list_Min) (auto intro!: Min_eqI)

lemma transpose_rect:
  assumes "matrix \<noteq> []" and "\<forall>row \<in> set matrix. length row = k"
  shows "transpose_matrix matrix = map (\<lambda>j. map (\<lambda>row. row ! j) matrix) [0..<k]"
proof -
  have "min_list (map length matrix) = k"
    using assms by (intro min_list_const) auto
  moreover have "transpose_matrix matrix =
      map (\<lambda>j. map (\<lambda>row. row ! j) matrix) [0..<min_list (map length matrix)]"
    using assms(1) by (cases matrix) (simp_all add: transpose_matrix_def)
  ultimately show ?thesis by simp
qed

lemma transpose_involutive:
  assumes "matrix \<noteq> []" and "\<forall>row \<in> set matrix. length row = k" and "0 < k"
  shows "transpose_matrix (transpose_matrix matrix) = matrix"
proof -
  let ?t = "map (\<lambda>j. map (\<lambda>row. row ! j) matrix) [0..<k]"
  have "transpose_matrix ?t = map (\<lambda>i. map (\<lambda>col. col ! i) ?t) [0..<length matrix]"
    using assms(3) by (intro transpose_rect) auto
  also have "\<dots> = matrix"
  proof (rule nth_equalityI)
    fix i
    assume "i < length (map (\<lambda>i. map (\<lambda>col. col ! i) ?t) [0..<length matrix])"
    then have i: "i < length matrix" by simp
    then have "length (matrix ! i) = k" using assms(2) by simp
    with i show "map (\<lambda>i. map (\<lambda>col. col ! i) ?t) [0..<length matrix] ! i = matrix ! i"
      by (auto intro!: nth_equalityI)
  qed simp
  finally show ?thesis using transpose_rect [OF assms(1,2)] by simp
qed

section \<open>Permutations\<close>

definition insert_at :: "nat \<Rightarrow> 'a \<Rightarrow> 'a list \<Rightarrow> 'a list" where
  "insert_at i x xs = take i xs @ x # drop i xs"

text \<open>\<^verbatim>\<open>permutations\<close>: the first item is inserted at every position of every permutation of
  the rest.\<close>

fun permutations :: "'a list \<Rightarrow> 'a list list" where
  "permutations (item # x # xs) =
     concat (map (\<lambda>sub_list. map (\<lambda>i. insert_at i item sub_list) [0..<length (item # x # xs)])
               (permutations (x # xs)))"
| "permutations input_list = [input_list]"

lemma mset_insert_at [simp]: "mset (insert_at i x xs) = add_mset x (mset xs)"
proof -
  have "mset xs = mset (take i xs) + mset (drop i xs)"
    by (metis append_take_drop_id mset_append)
  then show ?thesis by (simp add: insert_at_def)
qed

lemma permutations_mset: "ys \<in> set (permutations xs) \<Longrightarrow> mset ys = mset xs"
  by (induction xs arbitrary: ys rule: permutations.induct) auto

lemma permutations_complete: "mset ys = mset xs \<Longrightarrow> ys \<in> set (permutations xs)"
proof (induction xs arbitrary: ys rule: permutations.induct)
  case (1 item x xs)
  then have "item \<in> set ys" by (metis list.set_intros(1) set_mset_mset)
  then obtain us vs where ys: "ys = us @ item # vs" by (meson split_list)
  with "1.prems" have "mset (us @ vs) = mset (x # xs)" by simp
  then have "us @ vs \<in> set (permutations (x # xs))" by (rule "1.IH")
  moreover have "length us < length (item # x # xs)"
    using \<open>mset (us @ vs) = mset (x # xs)\<close> mset_eq_length by fastforce
  moreover have "ys = insert_at (length us) item (us @ vs)" by (simp add: ys insert_at_def)
  ultimately show ?case by (simp del: upt_Suc) (metis atLeastLessThan_iff imageI le0 length_Cons)
qed auto

lemma sum_list_const: "\<forall>x \<in> set xs. f x = (k::nat) \<Longrightarrow> sum_list (map f xs) = length xs * k"
  by (induction xs) auto

lemma permutations_length: "length (permutations xs) = fact (length xs)"
proof (induction xs rule: permutations.induct)
  case (1 item x xs)
  have "length (permutations (item # x # xs)) = length (permutations (x # xs)) * length (item # x # xs)"
    by (simp add: length_concat comp_def sum_list_triv)
  also have "\<dots> = fact (length (item # x # xs))" using 1 by simp
  finally show ?case .
qed auto

section \<open>Common prefix and suffix\<close>

fun common_prefix :: "'a list \<Rightarrow> 'a list \<Rightarrow> 'a list" where
  "common_prefix (x # xs) (y # ys) = (if x \<noteq> y then [] else x # common_prefix xs ys)"
| "common_prefix _ _ = []"

text \<open>\<^verbatim>\<open>find_common_fixes\<close>: the second loop compares \<^verbatim>\<open>s1[-i]\<close> and \<^verbatim>\<open>s2[-i]\<close> from the end.\<close>

definition find_common_fixes :: "'a list \<Rightarrow> 'a list \<Rightarrow> 'a list \<times> 'a list" where
  "find_common_fixes s1 s2 =
     (common_prefix s1 s2, rev (common_prefix (rev s1) (rev s2)))"

lemma common_prefix_iff: "prefix p (common_prefix xs ys) \<longleftrightarrow> prefix p xs \<and> prefix p ys"
proof (induction xs ys arbitrary: p rule: common_prefix.induct)
  case (1 x xs y ys)
  then show ?case by (cases p) auto
qed auto

lemma common_suffix_iff:
  "suffix p (rev (common_prefix (rev xs) (rev ys))) \<longleftrightarrow> suffix p xs \<and> suffix p ys"
  by (simp add: suffix_to_prefix common_prefix_iff)

section \<open>Removing duplicates, reversing a dictionary\<close>

text \<open>\<^verbatim>\<open>uniquify\<close>.  The flag \<open>hashable\<close> says whether every item can be a dictionary key; if
  not, the \<^verbatim>\<open>TypeError\<close> of the fast algorithm leads to the quadratic one, which starts
  anew.  \<open>ko\<close> is the iteration order of the dictionary.\<close>

fun uniquify_fast :: "'a list \<Rightarrow> ('a, int) dict \<Rightarrow> 'a list" where
  "uniquify_fast [] d = []"
| "uniquify_fast (x # xs) d =
     (if map_of d x = None then x # uniquify_fast xs (AList.update x 0 d) else uniquify_fast xs d)"

fun uniquify_slow :: "'a list \<Rightarrow> 'a list \<Rightarrow> 'a list" where
  "uniquify_slow [] result = result"
| "uniquify_slow (x # xs) result =
     uniquify_slow xs (if x \<notin> set result then result @ [x] else result)"

definition uniquify :: "('a list \<Rightarrow> 'a list) \<Rightarrow> bool \<Rightarrow> bool \<Rightarrow> 'a list \<Rightarrow> 'a list" where
  "uniquify ko hashable preserve_order s =
     (if hashable then
        (if preserve_order then uniquify_fast s []
         else ko (dict_keys (fold (\<lambda>x d. AList.update x (0::int) d) s [])))
      else uniquify_slow s [])"

definition first_occurrences :: "'a list \<Rightarrow> 'a list" where
  "first_occurrences xs = rev (remdups (rev xs))"

lemma first_occurrences_snoc:
  "first_occurrences (xs @ [x]) = first_occurrences xs @ (if x \<in> set xs then [] else [x])"
  by (simp add: first_occurrences_def)

lemma first_occurrences_Cons:
  "first_occurrences (x # xs) = x # filter (\<lambda>y. y \<noteq> x) (first_occurrences xs)"
proof (induction xs rule: rev_induct)
  case (snoc y xs)
  have "first_occurrences ((x # xs) @ [y]) =
      first_occurrences (x # xs) @ (if y \<in> set (x # xs) then [] else [y])"
    by (rule first_occurrences_snoc)
  with snoc show ?case by (auto simp: first_occurrences_snoc)
qed (simp add: first_occurrences_def)

lemma uniquify_fast_eq:
  "uniquify_fast xs d = filter (\<lambda>x. map_of d x = None) (first_occurrences xs)"
proof (induction xs arbitrary: d)
  case Nil
  then show ?case by (simp add: first_occurrences_def)
next
  case (Cons x xs)
  then show ?case by (auto simp: first_occurrences_Cons intro!: filter_cong)
qed

lemma uniquify_slow_eq:
  "uniquify_slow xs result = result @ filter (\<lambda>x. x \<notin> set result) (first_occurrences xs)"
proof (induction xs arbitrary: result)
  case Nil
  then show ?case by (simp add: first_occurrences_def)
next
  case (Cons x xs)
  then show ?case by (auto simp: first_occurrences_Cons intro!: filter_cong)
qed

lemma dict_keys_update: "dict_keys (AList.update k v d) =
    (if k \<in> set (dict_keys d) then dict_keys d else dict_keys d @ [k])"
  by (induction d) auto

lemma dict_keys_fold_update:
  "dict_keys (fold (\<lambda>x d. AList.update x v d) xs d) =
     dict_keys d @ filter (\<lambda>x. x \<notin> set (dict_keys d)) (first_occurrences xs)"
proof (induction xs arbitrary: d)
  case Nil
  then show ?case by (simp add: first_occurrences_def)
next
  case (Cons x xs)
  then show ?case
    by (auto simp: first_occurrences_Cons dict_keys_update simp del: set_map intro!: filter_cong)
qed

lemma uniquify_eq:
  "uniquify ko hashable preserve_order s =
     (if hashable \<and> \<not> preserve_order then ko (first_occurrences s) else first_occurrences s)"
  by (simp add: uniquify_def uniquify_fast_eq uniquify_slow_eq dict_keys_fold_update)

text \<open>\<^verbatim>\<open>reverse_dict\<close>; \<open>items\<close> are the items in iteration order.\<close>

definition reverse_dict :: "('k, 'v) dict \<Rightarrow> ('v, 'k) dict" where
  "reverse_dict items = fold (\<lambda>(key, v) result. AList.update v key result) items []"

lemma reverse_dict_lookup:
  assumes "distinct (map snd items)"
  shows "map_of (reverse_dict items) v = Some k \<longleftrightarrow> (k, v) \<in> set items"
  using assms
proof (induction items rule: rev_induct)
  case (snoc kv items)
  obtain k' v' where kv: "kv = (k', v')" by (cases kv)
  have "map_of (reverse_dict (items @ [kv])) = (map_of (reverse_dict items))(v' \<mapsto> k')"
    by (simp add: reverse_dict_def kv)
  moreover have "v' \<notin> snd ` set items" using snoc.prems kv by auto
  ultimately show ?case using snoc kv by (auto simp: rev_image_eqI)
qed (simp add: reverse_dict_def)

section \<open>Command line arguments\<close>

datatype arg_value = NoValue | StrValue string | ArgList "string list"

text \<open>\<^verbatim>\<open>get_args\<close>: an option with exactly one \<^verbatim>\<open>=\<close> has a value; one with none, or with more
  than one, is stored with the value \<^verbatim>\<open>None\<close>.\<close>

fun get_args_loop ::
  "string list \<Rightarrow> (string, arg_value) dict \<Rightarrow> string list \<Rightarrow> (string, arg_value) dict" where
  "get_args_loop [] d args = AList.update ''args'' (ArgList args) d"
| "get_args_loop (arg # argv) d args =
     (if prefix ''-'' arg then
        (let parts = py_split (CHR ''='') (dropWhile (\<lambda>c. c = CHR ''-'') arg)
         in if length parts = 2
            then get_args_loop argv (AList.update (hd parts) (StrValue (parts ! 1)) d) args
            else get_args_loop argv (AList.update (hd parts) NoValue d) args)
      else get_args_loop argv d (args @ [arg]))"

definition get_args :: "string list \<Rightarrow> (string, arg_value) dict" where
  "get_args argv = get_args_loop argv [] []"

lemma get_args_loop_positional:
  "map_of (get_args_loop argv d args) ''args'' =
     Some (ArgList (args @ filter (\<lambda>a. \<not> prefix ''-'' a) argv))"
  by (induction argv d args rule: get_args_loop.induct) (auto simp: Let_def)

lemma py_split_pair:
  "c \<notin> set k \<Longrightarrow> c \<notin> set v \<Longrightarrow> py_split c (k @ c # v) = [k, v]"
  by (induction k) (auto simp: py_split_no_sep)

lemma get_args_option:
  assumes "CHR ''='' \<notin> set k" and "CHR ''='' \<notin> set v" and "k \<noteq> []" and "hd k \<noteq> CHR ''-''"
    and "k \<noteq> ''args''"
  shows "map_of (get_args [''--'' @ k @ ''='' @ v]) k = Some (StrValue v)"
proof -
  have "dropWhile (\<lambda>c. c = CHR ''-'') (''--'' @ k @ ''='' @ v) = k @ CHR ''='' # v"
    using assms(3,4) by (cases k) auto
  with assms show ?thesis by (simp add: get_args_def py_split_pair)
qed

section \<open>Properties\<close>

text \<open>\<^verbatim>\<open>permutations\<close> lists every rearrangement of its argument, with repeated items
  and the empty list included, and nothing else, in a list of factorial length.\<close>

theorem permutations_exact:
  "set (permutations xs) = {ys. mset ys = mset xs} \<and> length (permutations xs) = fact (length xs)"
  by (auto simp: permutations_length dest: permutations_mset intro: permutations_complete)

text \<open>All three algorithms of \<^verbatim>\<open>uniquify\<close> remove exactly the duplicates; with
  \<^verbatim>\<open>preserve_order\<close>, and for unhashable items even without it, what remains are the first
  occurrences in their original order.\<close>

theorem uniquify_first_occurrences:
  assumes "key_order ko"
  shows "distinct (uniquify ko hashable preserve_order s) \<and>
         set (uniquify ko hashable preserve_order s) = set s \<and>
         (preserve_order \<or> \<not> hashable \<longrightarrow>
            uniquify ko hashable preserve_order s = rev (remdups (rev s)))"
  using assms
  by (auto simp: uniquify_eq key_order.ko_set key_order.ko_distinct first_occurrences_def)

theorem uniquify_first_occurrences_witness:
  "uniquify rev True True [3, 1, 3, 2, 1 :: nat] = [3, 1, 2] \<and>
   uniquify rev True False [3, 1, 3, 2, 1 :: nat] = [2, 1, 3] \<and>
   distinct (uniquify rev True False [3, 1, 3, 2, 1 :: nat])"
proof -
  have "distinct (uniquify rev True False [3, 1, 3, 2, 1 :: nat])"
    using uniquify_first_occurrences [OF reverse_order.key_order_axioms] by blast
  moreover have "uniquify rev True True [3, 1, 3, 2, 1 :: nat] = [3, 1, 2] \<and>
      uniquify rev True False [3, 1, 3, 2, 1 :: nat] = [2, 1, 3]" by code_simp
  ultimately show ?thesis by blast
qed

end
