(* ===== verification/Topsort.thy ===== *)
theory Topsort
  imports Rad_Util
begin

text \<open>
  \<^verbatim>\<open>bindings/python/topsort.py\<close>: topological sorting of a list of (parent, child) pairs
  into one list (\<^verbatim>\<open>topsort\<close>) or into dependency levels (\<^verbatim>\<open>topsort_levels\<close>), and the
  enumeration of the simple cycles of a graph (\<^verbatim>\<open>find_cycles\<close>).  The dictionaries are
  association lists; a generator is the list of what it yields together with the exception
  that ends it, if any.
\<close>

section \<open>The dictionaries of parent counts and of children\<close>

datatype 'a topsort_error =
    Raised py_error
  | CycleError "'a list" "('a, int) dict" "('a, 'a list) dict"
  | LevelsCycleError "('a, int) dict" "('a, 'a list) dict"

type_synonym 'a counts = "('a, int) dict \<times> ('a, 'a list) dict"

fun ensure_key :: "'a \<Rightarrow> ('a, int) dict \<Rightarrow> ('a, int) dict" where
  "ensure_key x np = (if map_of np x = None then AList.update x 0 np else np)"

text \<open>The value a lookup reads: the count of a key (both keys of a pair are made present
  before they are read) and the children list that \<^verbatim>\<open>setdefault\<close> returns.\<close>

definition count_of :: "('a, int) dict \<Rightarrow> 'a \<Rightarrow> int" where
  "count_of np x = (case map_of np x of None \<Rightarrow> 0 | Some k \<Rightarrow> k)"

definition kids_of :: "('a, 'a list) dict \<Rightarrow> 'a \<Rightarrow> 'a list" where
  "kids_of ch p = (case map_of ch p of None \<Rightarrow> [] | Some cs \<Rightarrow> cs)"

fun count_pair :: "'a \<times> 'a \<Rightarrow> 'a counts \<Rightarrow> 'a counts" where
  "count_pair (parent, child) (np, ch) =
     (let np1 = ensure_key child (ensure_key parent np)
      in (AList.update child (count_of np1 child + 1) np1,
          AList.update parent (kids_of ch parent @ [child]) ch))"

definition count_pairs :: "('a \<times> 'a) list \<Rightarrow> 'a counts" where
  "count_pairs pairlist = fold count_pair pairlist ([], [])"

section \<open>\<^verbatim>\<open>topsort\<close>\<close>

text \<open>The inner loop over the children of a parent: the count of each child goes down by
  one, and a child whose count reaches zero joins the answer.\<close>

fun knock_down :: "'a list \<Rightarrow> ('a, int) dict \<Rightarrow> 'a list \<Rightarrow> (('a, int) dict \<times> 'a list) result" where
  "knock_down [] np answer = Inr (np, answer)"
| "knock_down (child # cs) np answer =
     (case map_of np child of
        None \<Rightarrow> Inl KeyError
      | Some k \<Rightarrow>
          knock_down cs (AList.update child (k - 1) np)
            (if k - 1 = 0 then answer @ [child] else answer))"

lemma knock_down_length: "knock_down cs np q = Inr (np', q') \<Longrightarrow> length np' = length np"
proof (induction cs arbitrary: np q)
  case (Cons c cs)
  then obtain k where k: "map_of np c = Some k" by (auto split: option.splits)
  then have "c \<in> set (dict_keys np)" by (metis map_of_eq_None_keys option.distinct(1))
  with Cons k show ?case by (auto split: option.splits)
qed simp

text \<open>
  The outer loop visits the answer while it grows: \<open>seen\<close> is the part already visited and
  \<open>todo\<close> the rest, so that \<^verbatim>\<open>answer\<close> is \<open>seen @ todo\<close> throughout.  Every round removes a key
  of \<^verbatim>\<open>num_parents\<close>.
\<close>

function topsort_loop ::
  "'a list \<Rightarrow> 'a list \<Rightarrow> ('a, int) dict \<Rightarrow> ('a, 'a list) dict
     \<Rightarrow> ('a list \<times> ('a, int) dict \<times> ('a, 'a list) dict) result" where
  "topsort_loop seen [] np ch = Inr (seen, np, ch)"
| "topsort_loop seen (parent # todo) np ch =
     (case map_of np parent of
        None \<Rightarrow> Inl KeyError
      | Some _ \<Rightarrow>
          (case map_of ch parent of
             None \<Rightarrow> topsort_loop (seen @ [parent]) todo (AList.delete parent np) ch
           | Some cs \<Rightarrow>
               (case knock_down cs (AList.delete parent np) todo of
                  Inl e \<Rightarrow> Inl e
                | Inr (np', todo') \<Rightarrow>
                    topsort_loop (seen @ [parent]) todo' np' (AList.delete parent ch))))"
  by pat_completeness auto
termination
  by (relation "measure (\<lambda>(seen, todo, np, ch). length np)")
    (auto simp: length_delete_present dest!: knock_down_length)

definition topsort :: "('a list \<Rightarrow> 'a list) \<Rightarrow> ('a \<times> 'a) list \<Rightarrow> 'a topsort_error + 'a list" where
  "topsort ko pairlist =
     (let (np, ch) = count_pairs pairlist;
          answer = filter (\<lambda>x. map_of np x = Some 0) (ko (dict_keys np))
      in case topsort_loop [] answer np ch of
           Inl e \<Rightarrow> Inl (Raised e)
         | Inr (answer', np', ch') \<Rightarrow>
             if np' \<noteq> [] then Inl (CycleError answer' np' ch') else Inr answer')"

section \<open>\<^verbatim>\<open>topsort_levels\<close>\<close>

fun dec_children :: "'a list \<Rightarrow> ('a, int) dict \<Rightarrow> ('a, int) dict result" where
  "dec_children [] np = Inr np"
| "dec_children (child # cs) np =
     (case map_of np child of
        None \<Rightarrow> Inl KeyError
      | Some k \<Rightarrow> dec_children cs (AList.update child (k - 1) np))"

fun clear_level :: "'a list \<Rightarrow> 'a counts \<Rightarrow> 'a counts result" where
  "clear_level [] (np, ch) = Inr (np, ch)"
| "clear_level (level_parent # ps) (np, ch) =
     (case map_of np level_parent of
        None \<Rightarrow> Inl KeyError
      | Some _ \<Rightarrow>
          (case map_of ch level_parent of
             None \<Rightarrow> clear_level ps (AList.delete level_parent np, ch)
           | Some cs \<Rightarrow>
               (case dec_children cs (AList.delete level_parent np) of
                  Inl e \<Rightarrow> Inl e
                | Inr np' \<Rightarrow> clear_level ps (np', AList.delete level_parent ch))))"

lemma dec_children_length: "dec_children cs np = Inr np' \<Longrightarrow> length np' = length np"
proof (induction cs arbitrary: np)
  case (Cons c cs)
  then obtain k where k: "map_of np c = Some k" by (auto split: option.splits)
  then have "c \<in> set (dict_keys np)" by (metis map_of_eq_None_keys option.distinct(1))
  with Cons k show ?case by (auto split: option.splits)
qed simp

lemma clear_level_length_le: "clear_level ps (np, ch) = Inr (np', ch') \<Longrightarrow> length np' \<le> length np"
proof (induction ps arbitrary: np ch)
  case (Cons p ps)
  have "length (AList.delete p np) \<le> length np" by (rule length_delete_le)
  with Cons show ?case
    by (fastforce split: option.splits sum.splits dest: dec_children_length)
qed simp

lemma clear_level_length:
  assumes "clear_level ps (np, ch) = Inr (np', ch')" and "ps \<noteq> []"
  shows "length np' < length np"
proof -
  obtain p qs where ps: "ps = p # qs" using assms(2) by (cases ps) auto
  with assms(1) have "map_of np p \<noteq> None" by (auto split: option.splits)
  then have "length (AList.delete p np) < length np" by (rule length_delete_present)
  with assms(1) ps show ?thesis
    by (fastforce split: option.splits sum.splits
        dest: dec_children_length clear_level_length_le)
qed

text \<open>The generator \<^verbatim>\<open>topsort_levels_core\<close>: the levels it yields and the exception it ends
  with (\<^verbatim>\<open>StopIteration\<close>, the normal end, is \<open>None\<close>).\<close>

function topsort_levels_core ::
  "('a list \<Rightarrow> 'a list) \<Rightarrow> ('a, int) dict \<Rightarrow> ('a, 'a list) dict
     \<Rightarrow> 'a list list \<times> 'a topsort_error option" where
  "topsort_levels_core ko np ch =
     (let level_parents = filter (\<lambda>x. map_of np x = Some 0) (ko (dict_keys np))
      in if level_parents = []
         then ([], if np \<noteq> [] then Some (LevelsCycleError np ch) else None)
         else case clear_level level_parents (np, ch) of
                Inl e \<Rightarrow> ([level_parents], Some (Raised e))
              | Inr (np', ch') \<Rightarrow>
                  (case topsort_levels_core ko np' ch' of
                     (ls, r) \<Rightarrow> (level_parents # ls, r)))"
  by pat_completeness auto
termination
  by (relation "measure (\<lambda>(ko, np, ch). length np)") (auto dest: clear_level_length)

declare topsort_levels_core.simps [simp del]

definition topsort_levels ::
  "('a list \<Rightarrow> 'a list) \<Rightarrow> ('a \<times> 'a) list \<Rightarrow> 'a list list \<times> 'a topsort_error option" where
  "topsort_levels ko pairlist = (case count_pairs pairlist of (np, ch) \<Rightarrow> topsort_levels_core ko np ch)"

section \<open>What the two dictionaries mean\<close>

text \<open>The nodes of the graph, the children of a node in input order, and the number of
  edges into a node from parents that are still to be accounted for.\<close>

definition nodes :: "('a \<times> 'a) list \<Rightarrow> 'a set" where
  "nodes E = fst ` set E \<union> snd ` set E"

definition children_of :: "('a \<times> 'a) list \<Rightarrow> 'a \<Rightarrow> 'a list" where
  "children_of E p = map snd (filter (\<lambda>e. fst e = p) E)"

definition indeg :: "('a \<times> 'a) list \<Rightarrow> 'a set \<Rightarrow> 'a \<Rightarrow> nat" where
  "indeg E D x = length (filter (\<lambda>e. snd e = x \<and> fst e \<notin> D) E)"

definition ready :: "('a \<times> 'a) list \<Rightarrow> 'a set \<Rightarrow> 'a set" where
  "ready E D = {x \<in> nodes E - D. indeg E D x = 0}"

definition count_inv ::
  "('a \<times> 'a) list \<Rightarrow> 'a set \<Rightarrow> ('a, int) dict \<Rightarrow> ('a, 'a list) dict \<Rightarrow> bool" where
  "count_inv E D np ch \<longleftrightarrow>
     distinct (dict_keys np) \<and>
     map_of np = (\<lambda>x. if x \<in> nodes E - D then Some (int (indeg E D x)) else None) \<and>
     map_of ch = (\<lambda>p. if p \<notin> D \<and> children_of E p \<noteq> [] then Some (children_of E p) else None) \<and>
     (\<forall>(q, c) \<in> set E. c \<in> D \<longrightarrow> q \<in> D)"

lemma count_inv_keys:
  assumes "count_inv E D np ch"
  shows "set (dict_keys np) = nodes E - D"
proof -
  have "dom (map_of np) = nodes E - D"
    using assms by (auto simp: count_inv_def dom_def split: if_splits)
  then show ?thesis by (simp add: dom_map_of_conv_image_fst)
qed

lemma finite_nodes [simp]: "finite (nodes E)"
  by (simp add: nodes_def)

lemma nodesI: "(p, c) \<in> set E \<Longrightarrow> p \<in> nodes E" "(p, c) \<in> set E \<Longrightarrow> c \<in> nodes E"
  by (force simp: nodes_def)+

lemma set_children_of: "set (children_of E p) = {c. (p, c) \<in> set E}"
  by (force simp: children_of_def)

lemma indeg_0_iff: "indeg E D x = 0 \<longleftrightarrow> (\<forall>q. (q, x) \<in> set E \<longrightarrow> q \<in> D)"
  by (force simp: indeg_def filter_empty_conv)

lemma indeg_insert: "p \<notin> D \<Longrightarrow> indeg E D x = indeg E (insert p D) x + count_list (children_of E p) x"
  unfolding indeg_def children_of_def by (induction E) auto

lemma indeg_insert_leaf: "children_of E p = [] \<Longrightarrow> indeg E (insert p D) x = indeg E D x"
  using indeg_insert [of p D E x] by (cases "p \<in> D") (auto simp: insert_absorb)

lemma ready_iff: "x \<in> ready E D \<longleftrightarrow> x \<in> nodes E \<and> x \<notin> D \<and> (\<forall>q. (q, x) \<in> set E \<longrightarrow> q \<in> D)"
  by (auto simp: ready_def indeg_0_iff)

lemma ready_mono: "x \<in> ready E D \<Longrightarrow> D \<subseteq> D' \<Longrightarrow> x \<notin> D' \<Longrightarrow> x \<in> ready E D'"
  by (auto simp: ready_iff)

lemma count_pairs_snoc: "count_pairs (E @ [e]) = count_pair e (count_pairs E)"
  by (simp add: count_pairs_def)

lemma ensure_key_map:
  "map_of (ensure_key x np) = (map_of np)(x := Some (count_of np x))"
  by (auto simp: count_of_def)

lemma ensure_key_distinct: "distinct (dict_keys np) \<Longrightarrow> distinct (dict_keys (ensure_key x np))"
  by (simp add: distinct_update)

declare ensure_key.simps [simp del]

lemma count_pair_maps:
  assumes "count_pair (p, c) (np, ch) = (np', ch')"
  shows "map_of np' = (\<lambda>x. if x = c then Some (count_of np c + 1)
                           else if x = p then Some (count_of np p) else map_of np x)"
    and "map_of ch' = (\<lambda>q. if q = p then Some (kids_of ch p @ [c]) else map_of ch q)"
proof -
  let ?np1 = "ensure_key c (ensure_key p np)"
  have "map_of ?np1 = (map_of np)(p := Some (count_of np p), c := Some (count_of np c))"
    by (auto simp: ensure_key_map count_of_def)
  moreover from this have "count_of ?np1 c = count_of np c"
    by (simp add: count_of_def)
  moreover have "np' = AList.update c (count_of ?np1 c + 1) ?np1"
    and ch': "ch' = AList.update p (kids_of ch p @ [c]) ch"
    using assms by (simp_all add: Let_def)
  ultimately show "map_of np' = (\<lambda>x. if x = c then Some (count_of np c + 1)
      else if x = p then Some (count_of np p) else map_of np x)"
    by (simp add: fun_eq_iff)
  show "map_of ch' = (\<lambda>q. if q = p then Some (kids_of ch p @ [c]) else map_of ch q)"
    by (simp add: ch' fun_eq_iff)
qed

lemma indeg_snoc: "indeg (E @ [(p, c)]) {} x = indeg E {} x + (if x = c then 1 else 0)"
  by (simp add: indeg_def)

lemma children_of_snoc:
  "children_of (E @ [(p, c)]) q = children_of E q @ (if q = p then [c] else [])"
  by (simp add: children_of_def)

lemma nodes_snoc: "nodes (E @ [(p, c)]) = insert p (insert c (nodes E))"
  by (auto simp: nodes_def)

lemma count_pairs_inv:
  assumes "count_pairs E = (np, ch)"
  shows "count_inv E {} np ch"
  using assms
proof (induction E arbitrary: np ch rule: rev_induct)
  case Nil
  then show ?case by (simp add: count_pairs_def count_inv_def nodes_def children_of_def)
next
  case (snoc e E)
  obtain p c where e: "e = (p, c)" by (cases e)
  obtain np0 ch0 where eq0: "count_pairs E = (np0, ch0)" by (cases "count_pairs E")
  from snoc.IH [OF eq0]
  have np0: "map_of np0 = (\<lambda>x. if x \<in> nodes E then Some (int (indeg E {} x)) else None)"
    and ch0: "map_of ch0 = (\<lambda>q. if children_of E q \<noteq> [] then Some (children_of E q) else None)"
    and d0: "distinct (dict_keys np0)"
    by (auto simp: count_inv_def)
  have "indeg E {} x = 0" if "x \<notin> nodes E" for x
    using that by (auto simp: indeg_0_iff dest: nodesI)
  then have cnt: "count_of np0 x = int (indeg E {} x)" for x
    by (auto simp: count_of_def np0)
  have kids: "kids_of ch0 q = children_of E q" for q
    by (auto simp: kids_of_def ch0)
  have step: "count_pair (p, c) (np0, ch0) = (np, ch)"
    using snoc.prems eq0 e by (simp add: count_pairs_snoc)
  have "distinct (dict_keys np)"
    using step d0 by (auto simp: Let_def intro!: distinct_update ensure_key_distinct)
  then show ?case
    unfolding e count_inv_def count_pair_maps [OF step] cnt kids
    by (auto simp: indeg_snoc children_of_snoc nodes_snoc fun_eq_iff np0 ch0)
qed

section \<open>Removing a node whose parents are all accounted for\<close>

lemma dec_children_spec:
  assumes "\<forall>c \<in> set cs. map_of np c \<noteq> None"
  shows "\<exists>np'. dec_children cs np = Inr np' \<and> dict_keys np' = dict_keys np \<and>
           map_of np' = (\<lambda>x. map_option (\<lambda>k. k - int (count_list cs x)) (map_of np x))"
  using assms
proof (induction cs arbitrary: np)
  case Nil
  then show ?case by (simp add: option.map_ident fun_eq_iff)
next
  case (Cons c cs)
  then obtain k where k: "map_of np c = Some k" by auto
  let ?np = "AList.update c (k - 1) np"
  have key: "c \<in> set (dict_keys np)"
    using k by (metis map_of_eq_None_keys option.distinct(1))
  from Cons.prems have "\<forall>x \<in> set cs. map_of ?np x \<noteq> None" by auto
  from Cons.IH [OF this] obtain np' where np':
    "dec_children cs ?np = Inr np'" "dict_keys np' = dict_keys ?np"
    "map_of np' = (\<lambda>x. map_option (\<lambda>k. k - int (count_list cs x)) (map_of ?np x))"
    by blast
  from np'(3) k have "map_of np' = (\<lambda>x. map_option (\<lambda>k. k - int (count_list (c # cs) x)) (map_of np x))"
    by (auto simp: fun_eq_iff)
  with np'(1,2) k key show ?case by simp
qed

lemma knock_down_spec:
  assumes "\<forall>c \<in> set cs. \<exists>k. map_of np c = Some k \<and> int (count_list cs c) \<le> k"
    and "dec_children cs np = Inr np'"
  shows "\<exists>new. knock_down cs np q = Inr (np', q @ new) \<and> distinct new \<and>
           set new = {c \<in> set cs. map_of np c = Some (int (count_list cs c))}"
  using assms
proof (induction cs arbitrary: np q)
  case Nil
  then show ?case by simp
next
  case (Cons c cs)
  then obtain k where k: "map_of np c = Some k" "int (count_list cs c) \<le> k - 1" by auto
  let ?np = "AList.update c (k - 1) np"
  have pre: "\<forall>x \<in> set cs. \<exists>j. map_of ?np x = Some j \<and> int (count_list cs x) \<le> j"
    using Cons.prems(1) k by (auto split: if_splits)
  have dec: "dec_children cs ?np = Inr np'" using Cons.prems(2) k(1) by simp
  obtain new where new: "knock_down cs ?np (if k - 1 = 0 then q @ [c] else q)
      = Inr (np', (if k - 1 = 0 then q @ [c] else q) @ new)" "distinct new"
    "set new = {x \<in> set cs. map_of ?np x = Some (int (count_list cs x))}"
    using Cons.IH [OF pre dec] by blast
  have other: "x \<in> set new \<longleftrightarrow> x \<in> set cs \<and> map_of np x = Some (int (count_list (c # cs) x))"
    if "x \<noteq> c" for x
    using that new(3) by simp
  have mine: "c \<in> set new \<longleftrightarrow> c \<in> set cs \<and> k = int (count_list (c # cs) c)"
    using new(3) k(1) by auto
  show ?case
  proof (cases "k - 1 = 0")
    case True
    with k(2) have cn: "c \<notin> set cs" by (simp add: count_list_0_iff)
    then have "c \<notin> set new" using mine by simp
    moreover
    have "x \<in> set (c # new) \<longleftrightarrow>
        x \<in> set (c # cs) \<and> map_of np x = Some (int (count_list (c # cs) x))" for x
      using other [of x] True cn k(1) by (cases "x = c") auto
    then have "set (c # new) = {x \<in> set (c # cs). map_of np x = Some (int (count_list (c # cs) x))}"
      by blast
    moreover have "knock_down (c # cs) np q = Inr (np', q @ c # new)"
      using True k(1) new(1) by simp
    ultimately show ?thesis using new(2) by (metis distinct.simps(2))
  next
    case False
    have "x \<in> set new \<longleftrightarrow>
        x \<in> set (c # cs) \<and> map_of np x = Some (int (count_list (c # cs) x))" for x
    proof (cases "x = c")
      case True
      show ?thesis
      proof (cases "c \<in> set cs")
        case False
        then have "count_list (c # cs) c = 1" by (simp add: count_list_0_iff)
        with \<open>k - 1 \<noteq> 0\<close> True mine False k(1) show ?thesis by auto
      qed (use True mine k(1) in auto)
    qed (use other [of x] in auto)
    then have "set new = {x \<in> set (c # cs). map_of np x = Some (int (count_list (c # cs) x))}"
      by blast
    moreover have "knock_down (c # cs) np q = Inr (np', q @ new)"
      using False k(1) new(1) by simp
    ultimately show ?thesis using new(2) by blast
  qed
qed

text \<open>Removing a ready node and, when it has children, counting their edges off keeps the
  invariant for the set of removed nodes.\<close>

lemma ready_children:
  assumes "count_inv E D np ch" and "p \<in> ready E D" and "c \<in> set (children_of E p)"
  shows "c \<in> nodes E - insert p D"
  using assms by (auto simp: count_inv_def ready_iff set_children_of dest: nodesI)

lemma remove_leaf:
  assumes inv: "count_inv E D np ch" and p: "p \<in> ready E D" and leaf: "map_of ch p = None"
  shows "count_inv E (insert p D) (AList.delete p np) ch"
proof -
  from p have "p \<notin> D" by (simp add: ready_iff)
  with inv leaf have "children_of E p = []" by (auto simp: count_inv_def split: if_splits)
  with inv p show ?thesis
    by (auto simp: count_inv_def indeg_insert_leaf ready_iff fun_eq_iff distinct_delete)
qed

lemma remove_parent:
  assumes inv: "count_inv E D np ch" and p: "p \<in> ready E D" and kids: "map_of ch p = Some cs"
  shows "cs = children_of E p"
    and "\<forall>c \<in> set cs. map_of (AList.delete p np) c = Some (int (indeg E (insert p D) c) + int (count_list cs c))"
    and "\<exists>np'. dec_children cs (AList.delete p np) = Inr np' \<and>
           count_inv E (insert p D) np' (AList.delete p ch)"
proof -
  have pD: "p \<notin> D" using p by (simp add: ready_iff)
  show cs: "cs = children_of E p"
    using inv kids by (auto simp: count_inv_def split: if_splits)
  have np: "map_of (AList.delete p np) =
      (\<lambda>x. if x \<in> nodes E - insert p D then Some (int (indeg E D x)) else None)"
    using inv by (auto simp: count_inv_def fun_eq_iff)
  then show "\<forall>c \<in> set cs. map_of (AList.delete p np) c =
      Some (int (indeg E (insert p D) c) + int (count_list cs c))"
    using ready_children [OF inv p] pD by (auto simp: cs indeg_insert)
  then have "\<forall>c \<in> set cs. map_of (AList.delete p np) c \<noteq> None" by auto
  from dec_children_spec [OF this] obtain np' where np':
    "dec_children cs (AList.delete p np) = Inr np'"
    "dict_keys np' = dict_keys (AList.delete p np)"
    "map_of np' = (\<lambda>x. map_option (\<lambda>k. k - int (count_list cs x)) (map_of (AList.delete p np) x))"
    by blast
  have "map_of np' = (\<lambda>x. if x \<in> nodes E - insert p D then Some (int (indeg E (insert p D) x)) else None)"
    unfolding np'(3) np using pD by (auto simp: fun_eq_iff cs indeg_insert)
  moreover have "distinct (dict_keys np')"
    using inv by (simp add: np'(2) count_inv_def distinct_delete)
  ultimately have "count_inv E (insert p D) np' (AList.delete p ch)"
    using inv p by (auto simp: count_inv_def ready_iff fun_eq_iff)
  with np'(1) show "\<exists>np'. dec_children cs (AList.delete p np) = Inr np' \<and>
      count_inv E (insert p D) np' (AList.delete p ch)" by blast
qed

section \<open>Correctness of \<^verbatim>\<open>topsort\<close>\<close>

text \<open>A list is in dependency order when every parent of an element stands before it.\<close>

definition topo_order :: "('a \<times> 'a) list \<Rightarrow> 'a list \<Rightarrow> bool" where
  "topo_order E xs \<longleftrightarrow>
     (\<forall>us x vs. xs = us @ x # vs \<longrightarrow> (\<forall>q. (q, x) \<in> set E \<longrightarrow> q \<in> set us))"

lemma topo_order_Nil [simp]: "topo_order E []"
  by (simp add: topo_order_def)

lemma topo_order_snoc:
  assumes "topo_order E xs" and "\<And>q. (q, x) \<in> set E \<Longrightarrow> q \<in> set xs"
  shows "topo_order E (xs @ [x])"
  unfolding topo_order_def
proof (intro allI impI)
  fix us y vs q
  assume eq: "xs @ [x] = us @ y # vs" and q: "(q, y) \<in> set E"
  show "q \<in> set us"
  proof (cases vs rule: rev_cases)
    case Nil
    with eq q assms(2) show ?thesis by auto
  next
    case (snoc vs' z)
    with eq have "xs = us @ y # vs'" by auto
    with assms(1) q show ?thesis by (auto simp: topo_order_def)
  qed
qed

lemma topo_order_acyclic:
  assumes "topo_order E xs" and "nodes E \<subseteq> set xs" and "distinct xs"
  shows "acyclic (set E)"
proof -
  define idx where "idx x = length (takeWhile (\<lambda>y. y \<noteq> x) xs)" for x
  have idx_split: "idx x = length us" if "xs = us @ x # vs" for us x vs
    using that assms(3) by (auto simp: idx_def takeWhile_append)
  have "idx p < idx c" if e: "(p, c) \<in> set E" for p c
  proof -
    from e assms(2) have "c \<in> set xs" by (auto dest: nodesI)
    then obtain us vs where c: "xs = us @ c # vs" by (meson split_list)
    with assms(1) e have "p \<in> set us" by (auto simp: topo_order_def)
    then obtain ws zs where "us = ws @ p # zs" by (meson split_list)
    with c have "idx p = length ws" using idx_split [of ws p "zs @ c # vs"] by simp
    with \<open>us = ws @ p # zs\<close> show ?thesis using idx_split [OF c] by simp
  qed
  then have "set E \<subseteq> measure idx" by auto
  then show ?thesis by (rule acyclic_subset [OF wf_acyclic [OF wf_measure]])
qed

text \<open>A finite set of nodes each of which has a parent in the set holds a cycle.\<close>

lemma stuck_cyclic:
  assumes "R \<noteq> {}" and "\<And>x. x \<in> R \<Longrightarrow> \<exists>p \<in> R. (p, x) \<in> set E"
  shows "\<not> acyclic (set E)"
proof
  assume "acyclic (set E)"
  then have "wf (set E)" by (simp add: finite_acyclic_wf)
  then obtain x where "x \<in> R" and "\<And>p. (p, x) \<in> set E \<Longrightarrow> p \<notin> R"
    using assms(1) by (metis wfE_min ex_in_conv)
  with assms(2) show False by blast
qed

lemma no_ready_cyclic:
  assumes "ready E D = {}" and "\<not> nodes E \<subseteq> D"
  shows "\<not> acyclic (set E)"
proof (rule stuck_cyclic [of "nodes E - D"])
  show "nodes E - D \<noteq> {}" using assms(2) by blast
  fix x
  assume "x \<in> nodes E - D"
  with assms(1) have "x \<notin> ready E D" and x: "x \<in> nodes E" "x \<notin> D" by auto
  then show "\<exists>p \<in> nodes E - D. (p, x) \<in> set E"
    unfolding ready_iff by (auto dest: nodesI)
qed

text \<open>What the loop keeps, and what it leaves when nothing is left to visit.\<close>

definition visit_inv ::
  "('a \<times> 'a) list \<Rightarrow> 'a list \<Rightarrow> 'a list \<Rightarrow> ('a, int) dict \<Rightarrow> ('a, 'a list) dict \<Rightarrow> bool" where
  "visit_inv E seen todo np ch \<longleftrightarrow>
     count_inv E (set seen) np ch \<and> distinct (seen @ todo) \<and>
     set todo = ready E (set seen) \<and> topo_order E seen \<and> set seen \<subseteq> nodes E"

lemma visit_inv_keys: "visit_inv E seen todo np ch \<Longrightarrow> set (dict_keys np) = nodes E - set seen"
  using count_inv_keys by (metis visit_inv_def)

lemma visit_step_leaf:
  assumes inv: "visit_inv E seen (p # todo) np ch" and leaf: "map_of ch p = None"
  shows "visit_inv E (seen @ [p]) todo (AList.delete p np) ch"
proof -
  from inv have p: "p \<in> ready E (set seen)" and ci: "count_inv E (set seen) np ch"
    by (auto simp: visit_inv_def)
  then have "p \<notin> set seen" by (simp add: ready_iff)
  with ci leaf have "children_of E p = []" by (auto simp: count_inv_def split: if_splits)
  then have "ready E (insert p (set seen)) = ready E (set seen) - {p}"
    by (auto simp: ready_def indeg_insert_leaf)
  with inv p remove_leaf [OF ci p leaf] show ?thesis
    by (auto simp: visit_inv_def ready_iff intro!: topo_order_snoc)
qed

lemma visit_step_parent:
  assumes inv: "visit_inv E seen (p # todo) np ch" and kids: "map_of ch p = Some cs"
  shows "\<exists>np' todo'. knock_down cs (AList.delete p np) todo = Inr (np', todo') \<and>
           visit_inv E (seen @ [p]) todo' np' (AList.delete p ch)"
proof -
  from inv have p: "p \<in> ready E (set seen)" and ci: "count_inv E (set seen) np ch"
    by (auto simp: visit_inv_def)
  then have ps: "p \<notin> set seen" by (simp add: ready_iff)
  note rp = remove_parent [OF ci p kids]
  from rp(3) obtain np' where np': "dec_children cs (AList.delete p np) = Inr np'"
    "count_inv E (insert p (set seen)) np' (AList.delete p ch)" by blast
  have "\<forall>c \<in> set cs. \<exists>k. map_of (AList.delete p np) c = Some k \<and> int (count_list cs c) \<le> k"
    using rp(2) by auto
  from knock_down_spec [OF this np'(1), of todo] obtain new where new:
    "knock_down cs (AList.delete p np) todo = Inr (np', todo @ new)" "distinct new"
    "set new = {c \<in> set cs. map_of (AList.delete p np) c = Some (int (count_list cs c))}"
    by blast
  let ?Z = "{c \<in> set cs. indeg E (insert p (set seen)) c = 0}"
  have nw: "set new = ?Z"
    unfolding new(3) using rp(2) by auto
  have rd: "ready E (insert p (set seen)) = (ready E (set seen) - {p}) \<union> ?Z"
    using ready_children [OF ci p] ps
    by (auto simp: rp(1) ready_def indeg_0_iff set_children_of)
  have d1: "set cs \<inter> ready E (set seen) = {}"
    using ps by (auto simp: rp(1) ready_iff set_children_of)
  have d2: "set cs \<inter> insert p (set seen) = {}"
    using ready_children [OF ci p] by (auto simp: rp(1))
  have dist: "distinct (seen @ p # todo)" and todo: "set (p # todo) = ready E (set seen)"
    and topo: "topo_order E seen" and sub: "set seen \<subseteq> nodes E"
    using inv by (auto simp: visit_inv_def)
  from dist todo have td: "set todo = ready E (set seen) - {p}" by auto
  then have "set (todo @ new) = ready E (set (seen @ [p]))"
    using nw rd by simp
  moreover have "set new \<inter> (set seen \<union> {p} \<union> set todo) = {}"
    using nw d1 d2 td by blast
  with dist new(2) have "distinct ((seen @ [p]) @ todo @ new)"
    by (simp add: Int_Un_distrib Int_commute)
  moreover have "topo_order E (seen @ [p])"
    using topo p by (intro topo_order_snoc) (auto simp: ready_iff)
  ultimately have "visit_inv E (seen @ [p]) (todo @ new) np' (AList.delete p ch)"
    using np'(2) sub p by (simp add: visit_inv_def ready_iff)
  with new(1) show ?thesis by blast
qed

lemma topsort_loop_spec:
  assumes "visit_inv E seen todo np ch"
  shows "\<exists>ans np' ch'. topsort_loop seen todo np ch = Inr (ans, np', ch') \<and> visit_inv E ans [] np' ch'"
  using assms
proof (induction seen todo np ch rule: topsort_loop.induct)
  case (1 seen np ch)
  then show ?case by simp
next
  case (2 seen p todo np ch)
  have "map_of np p \<noteq> None"
    using "2.prems" by (auto simp: visit_inv_def count_inv_def ready_def)
  then obtain k where k: "map_of np p = Some k" by auto
  show ?case
  proof (cases "map_of ch p")
    case None
    from "2.IH"(1) [OF k None visit_step_leaf [OF "2.prems" None]] k None
    show ?thesis by simp
  next
    case (Some cs)
    from visit_step_parent [OF "2.prems" Some] obtain np' todo' where st:
      "knock_down cs (AList.delete p np) todo = Inr (np', todo')"
      "visit_inv E (seen @ [p]) todo' np' (AList.delete p ch)" by blast
    from "2.IH"(2) [OF k Some st(1) refl st(2)] k Some st(1) show ?thesis by simp
  qed
qed

text \<open>The run of \<^verbatim>\<open>topsort\<close>: the loop never raises \<^verbatim>\<open>KeyError\<close>, and what is left in
  \<^verbatim>\<open>num_parents\<close> decides between the answer and \<^verbatim>\<open>CycleError\<close>.\<close>

lemma topsort_run:
  assumes "key_order ko"
  shows "\<exists>ans np ch. visit_inv E ans [] np ch \<and> (np = [] \<longleftrightarrow> acyclic (set E)) \<and>
           topsort ko E = (if np = [] then Inr ans else Inl (CycleError ans np ch))"
proof -
  note ko = key_order.ko_set [OF assms] key_order.ko_distinct [OF assms]
  obtain np0 ch0 where cp: "count_pairs E = (np0, ch0)" by (cases "count_pairs E")
  note ci = count_pairs_inv [OF cp]
  let ?answer = "filter (\<lambda>x. map_of np0 x = Some 0) (ko (dict_keys np0))"
  have keys: "set (dict_keys np0) = nodes E" using count_inv_keys [OF ci] by simp
  have "visit_inv E [] ?answer np0 ch0"
    using ci keys by (auto simp: visit_inv_def count_inv_def ready_def ko)
  from topsort_loop_spec [OF this] obtain ans np ch where run:
    "topsort_loop [] ?answer np0 ch0 = Inr (ans, np, ch)" "visit_inv E ans [] np ch"
    by blast
  have left: "np = [] \<longleftrightarrow> nodes E \<subseteq> set ans"
    using visit_inv_keys [OF run(2)] by (metis Diff_eq_empty_iff list.map_disc_iff set_empty)
  have "np = [] \<longleftrightarrow> acyclic (set E)"
    using run(2) left topo_order_acyclic [of E ans] no_ready_cyclic [of E "set ans"]
    by (auto simp: visit_inv_def)
  with run cp show ?thesis by (auto simp: topsort_def)
qed

section \<open>Correctness of \<^verbatim>\<open>topsort_levels\<close>\<close>

lemma clear_level_spec:
  assumes "count_inv E D np ch" and "set ps \<subseteq> ready E D" and "distinct ps"
  shows "\<exists>np' ch'. clear_level ps (np, ch) = Inr (np', ch') \<and> count_inv E (D \<union> set ps) np' ch'"
  using assms
proof (induction ps arbitrary: D np ch)
  case Nil
  then show ?case by simp
next
  case (Cons p ps)
  then have p: "p \<in> ready E D" by simp
  then have k: "map_of np p = Some 0"
    using Cons.prems(1) by (auto simp: count_inv_def ready_def)
  have rest: "set ps \<subseteq> ready E (insert p D)"
    using Cons.prems(2,3) by (auto intro: ready_mono [of _ E D] simp: ready_iff)
  show ?case
  proof (cases "map_of ch p")
    case None
    from Cons.IH [OF remove_leaf [OF Cons.prems(1) p None] rest] Cons.prems(3) k None
    show ?thesis by simp
  next
    case (Some cs)
    from remove_parent(3) [OF Cons.prems(1) p Some] obtain np' where
      "dec_children cs (AList.delete p np) = Inr np'" and
      "count_inv E (insert p D) np' (AList.delete p ch)" by blast
    with Cons.IH [OF this(2) rest] Cons.prems(3) k Some show ?thesis by simp
  qed
qed

text \<open>The levels after the nodes of \<open>D\<close> are gone: each level is the set of nodes that are
  ready once all earlier levels are.\<close>

fun levels_from :: "('a \<times> 'a) list \<Rightarrow> 'a set \<Rightarrow> 'a list list \<Rightarrow> bool" where
  "levels_from E D [] \<longleftrightarrow> ready E D = {}"
| "levels_from E D (l # ls) \<longleftrightarrow>
     l \<noteq> [] \<and> distinct l \<and> set l = ready E D \<and> levels_from E (D \<union> set l) ls"

lemma levels_core_spec:
  assumes "key_order ko" and "count_inv E D np ch"
    and "topsort_levels_core ko np ch = (ls, r)"
  shows "levels_from E D ls \<and> (r = None \<longleftrightarrow> nodes E \<subseteq> D \<union> set (concat ls)) \<and>
           (r \<noteq> None \<longrightarrow> (\<exists>np' ch'. r = Some (LevelsCycleError np' ch')))"
  using assms
proof (induction ko np ch arbitrary: D ls r rule: topsort_levels_core.induct)
  case (1 ko np ch)
  note ko = key_order.ko_set [OF "1.prems"(1)] key_order.ko_distinct [OF "1.prems"(1)]
  note ci = "1.prems"(2)
  let ?l = "filter (\<lambda>x. map_of np x = Some 0) (ko (dict_keys np))"
  note keys = count_inv_keys [OF ci]
  have l: "set ?l = ready E D" "distinct ?l"
    using ci keys by (auto simp: count_inv_def ready_def ko)
  show ?case
  proof (cases "?l = []")
    case True
    then have "ready E D = {}" using l(1) by simp
    moreover have "np = [] \<longleftrightarrow> nodes E \<subseteq> D"
      using keys by (metis Diff_eq_empty_iff list.map_disc_iff set_empty)
    moreover have "ls = []" "r = (if np \<noteq> [] then Some (LevelsCycleError np ch) else None)"
      using "1.prems"(3) True by (simp_all add: topsort_levels_core.simps [of ko np ch] Let_def)
    ultimately show ?thesis by simp
  next
    case False
    from clear_level_spec [OF ci _ l(2)] l(1) obtain np' ch' where st:
      "clear_level ?l (np, ch) = Inr (np', ch')" "count_inv E (D \<union> set ?l) np' ch'" by blast
    obtain ls' r' where rec: "topsort_levels_core ko np' ch' = (ls', r')"
      by (cases "topsort_levels_core ko np' ch'")
    have eq: "ls = ?l # ls'" "r = r'"
      using "1.prems"(3) False st(1) rec
      by (auto simp: topsort_levels_core.simps [of ko np ch] Let_def)
    from "1.IH" [OF refl False st(1) refl "1.prems"(1) st(2) rec] show ?thesis
      unfolding eq using False l by (auto simp: Un_assoc)
  qed
qed

lemma levels_from_disjoint:
  "levels_from E D ls \<Longrightarrow> distinct (concat ls) \<and> set (concat ls) \<subseteq> nodes E - D"
proof (induction ls arbitrary: D)
  case (Cons l ls)
  then show ?case by (fastforce simp: ready_def)
qed simp

lemma levels_from_final: "levels_from E D ls \<Longrightarrow> ready E (D \<union> set (concat ls)) = {}"
proof (induction ls arbitrary: D)
  case (Cons l ls)
  then have "ready E ((D \<union> set l) \<union> set (concat ls)) = {}" by (intro Cons.IH) auto
  then show ?case by (simp add: Un_assoc)
qed simp

lemma levels_from_nth:
  assumes "levels_from E D ls" and "i < length ls"
  shows "ls ! i \<noteq> []" and "set (ls ! i) = ready E (D \<union> set (concat (take i ls)))"
  using assms
proof (induction ls arbitrary: D i)
  case (Cons l ls)
  { case 1 with Cons.IH(1) show ?case by (cases i) auto }
  { case 2 with Cons.IH(2) show ?case by (cases i) (auto simp: Un_assoc) }
qed simp_all

lemma topo_order_append:
  assumes "topo_order E xs" and "\<And>x q. x \<in> set ys \<Longrightarrow> (q, x) \<in> set E \<Longrightarrow> q \<in> set xs"
  shows "topo_order E (xs @ ys)"
  using assms(2)
proof (induction ys rule: rev_induct)
  case (snoc y ys)
  from snoc.prems have "topo_order E (xs @ ys)"
    by (intro snoc.IH) auto
  moreover have "\<And>q. (q, y) \<in> set E \<Longrightarrow> q \<in> set (xs @ ys)" using snoc.prems by force
  ultimately have "topo_order E ((xs @ ys) @ [y])" by (rule topo_order_snoc)
  then show ?case by simp
qed (simp add: assms(1))

lemma levels_from_topo:
  "levels_from E (set seen) ls \<Longrightarrow> topo_order E seen \<Longrightarrow> topo_order E (seen @ concat ls)"
proof (induction ls arbitrary: seen)
  case (Cons l ls)
  then have "topo_order E (seen @ l)"
    by (intro topo_order_append) (auto simp: ready_iff)
  moreover have "levels_from E (set (seen @ l)) ls" using Cons.prems(1) by auto
  ultimately have "topo_order E ((seen @ l) @ concat ls)" by (intro Cons.IH)
  then show ?case by simp
qed simp

lemma levels_from_parent:
  assumes "levels_from E D ls" and "i < length ls" and "x \<in> set (ls ! i)" and "0 < i"
  shows "\<exists>q \<in> set (ls ! (i - 1)). (q, x) \<in> set E"
proof -
  obtain j where i: "i = Suc j" using assms(4) by (cases i) auto
  let ?D = "D \<union> set (concat (take j ls))"
  have tk: "D \<union> set (concat (take i ls)) = ?D \<union> set (ls ! j)"
    using assms(2) i by (simp add: take_Suc_conv_app_nth Un_assoc)
  have x: "x \<in> ready E (?D \<union> set (ls ! j))"
    using levels_from_nth(2) [OF assms(1,2)] assms(3) tk by simp
  have prev: "set (ls ! j) = ready E ?D"
    using levels_from_nth(2) [OF assms(1), of j] assms(2) i by simp
  with x have "x \<notin> ready E ?D" by (auto simp: ready_iff)
  with x obtain q where "(q, x) \<in> set E" "q \<notin> ?D" by (auto simp: ready_iff)
  with x have "q \<in> set (ls ! j)" by (auto simp: ready_iff)
  with \<open>(q, x) \<in> set E\<close> i show ?thesis by auto
qed

lemma levels_run:
  assumes "key_order ko" and "topsort_levels ko E = (ls, r)"
  shows "levels_from E {} ls" and "r = None \<longleftrightarrow> acyclic (set E)"
    and "r = None \<Longrightarrow> set (concat ls) = nodes E"
proof -
  obtain np ch where cp: "count_pairs E = (np, ch)" by (cases "count_pairs E")
  with assms(2) have "topsort_levels_core ko np ch = (ls, r)" by (simp add: topsort_levels_def)
  note spec = levels_core_spec [OF assms(1) count_pairs_inv [OF cp] this, simplified]
  then show lf: "levels_from E {} ls" by blast
  show "r = None \<Longrightarrow> set (concat ls) = nodes E"
    using spec levels_from_disjoint [OF lf] by auto
  show "r = None \<longleftrightarrow> acyclic (set E)"
  proof
    assume "acyclic (set E)"
    then show "r = None"
      using no_ready_cyclic [OF levels_from_final [OF lf]] spec by auto
  next
    assume "r = None"
    then have "nodes E \<subseteq> set (concat ls)" using spec by simp
    moreover have "topo_order E (concat ls)"
      using levels_from_topo [of E "[]" ls] lf by simp
    ultimately show "acyclic (set E)"
      using levels_from_disjoint [OF lf] by (intro topo_order_acyclic) blast+
  qed
qed

section \<open>Properties\<close>

text \<open>C1. What \<^verbatim>\<open>topsort\<close> does with any pairs, whatever the iteration order of the dictionary: it returns an
  answer exactly when the relation has no cycle, and the answer has each element of the pairs exactly once, every
  parent before its children; otherwise it raises \<^verbatim>\<open>CycleError\<close>.\<close>

theorem topsort_sorts:
  assumes "key_order ko"
  shows "((\<exists>ans. topsort ko E = Inr ans) \<longleftrightarrow> acyclic (set E)) \<and>
    (case topsort ko E of
       Inr ans \<Rightarrow> distinct ans \<and> set ans = nodes E \<and> topo_order E ans
     | Inl e \<Rightarrow> \<exists>ans np ch. e = CycleError ans np ch)"
proof -
  obtain ans np ch where run: "visit_inv E ans [] np ch" "np = [] \<longleftrightarrow> acyclic (set E)"
    "topsort ko E = (if np = [] then Inr ans else Inl (CycleError ans np ch))"
    using topsort_run [OF assms, of E] by blast
  have "np = [] \<Longrightarrow> set ans = nodes E"
    using visit_inv_keys [OF run(1)] run(1) by (auto simp: visit_inv_def)
  with run show ?thesis by (auto simp: visit_inv_def)
qed

theorem topsort_sorts_witness:
  "topsort id [(1, 2), (3, 4), (5, 6), (1, 3), (1, 5), (1, 6), (2, 5 :: nat)] = Inr [1, 2, 3, 5, 4, 6] \<and>
   topo_order [(1, 2), (3, 4), (5, 6), (1, 3), (1, 5), (1, 6), (2, 5 :: nat)] [1, 2, 3, 5, 4, 6] \<and>
   \<not> acyclic (set [(1, 2), (2, 3), (3, 2 :: nat)])"
proof -
  have 1: "topsort id [(1, 2), (3, 4), (5, 6), (1, 3), (1, 5), (1, 6), (2, 5 :: nat)] = Inr [1, 2, 3, 5, 4, 6]" by code_simp
  have 2: "case topsort id [(1, 2), (2, 3), (3, 2 :: nat)] of Inl e \<Rightarrow> True | Inr ans \<Rightarrow> False" by code_simp
  note sorts = topsort_sorts [OF insertion_order.key_order_axioms]
  show ?thesis
    using 1 2 sorts [of "[(1, 2), (3, 4), (5, 6), (1, 3), (1, 5), (1, 6), (2, 5 :: nat)]"] sorts [of "[(1, 2), (2, 3), (3, 2 :: nat)]"]
    by (auto split: sum.splits)
qed

text \<open>C35. \<^verbatim>\<open>topsort\<close> on a cyclic relation: it never raises \<^verbatim>\<open>KeyError\<close>; it raises
  \<^verbatim>\<open>CycleError\<close>, whose first argument is a correctly ordered part of the elements and whose
  second has exactly the remaining ones as keys, each of which has a parent among them.\<close>

theorem topsort_reports_cycle:
  assumes "key_order ko" and "\<not> acyclic (set E)"
  shows "\<exists>ans np ch. topsort ko E = Inl (CycleError ans np ch) \<and>
           topo_order E ans \<and> set (dict_keys np) = nodes E - set ans \<and> np \<noteq> [] \<and>
           (\<forall>x \<in> set (dict_keys np). \<exists>p \<in> set (dict_keys np). (p, x) \<in> set E)"
proof -
  obtain ans np ch where run: "visit_inv E ans [] np ch" "np = [] \<longleftrightarrow> acyclic (set E)"
    "topsort ko E = (if np = [] then Inr ans else Inl (CycleError ans np ch))"
    using topsort_run [OF assms(1), of E] by blast
  have "ready E (set ans) = {}" using run(1) by (simp add: visit_inv_def)
  then have "\<exists>p \<in> nodes E - set ans. (p, x) \<in> set E" if "x \<in> nodes E - set ans" for x
    using that ready_iff [of x E "set ans"] by (auto dest: nodesI)
  then have "\<forall>x \<in> set (dict_keys np). \<exists>p \<in> set (dict_keys np). (p, x) \<in> set E"
    unfolding visit_inv_keys [OF run(1)] by blast
  moreover have "topo_order E ans" using run(1) by (simp add: visit_inv_def)
  ultimately show ?thesis using run(2,3) assms(2) visit_inv_keys [OF run(1)] by simp
qed

theorem topsort_reports_cycle_witness:
  "topsort id [(1, 2), (2, 3), (3, 2 :: nat)] = Inl (CycleError [1] [(2, 1), (3, 1)] [(2, [3]), (3, [2])]) \<and>
   (\<exists>ans np ch. topsort id [(1, 2), (2, 3), (3, 2 :: nat)] = Inl (CycleError ans np ch) \<and>
      topo_order [(1, 2), (2, 3), (3, 2)] ans \<and>
      set (dict_keys np) = nodes [(1, 2), (2, 3), (3, 2)] - set ans \<and> np \<noteq> [] \<and>
      (\<forall>x \<in> set (dict_keys np). \<exists>p \<in> set (dict_keys np). (p, x) \<in> set [(1, 2), (2, 3), (3, 2)]))"
proof
  have "(2, 2) \<in> (set [(1, 2), (2, 3), (3, 2 :: nat)])\<^sup>+"
    by (rule trancl_into_trancl [OF r_into_trancl]) auto
  then have "\<not> acyclic (set [(1, 2), (2, 3), (3, 2 :: nat)])" by (auto simp: acyclic_def)
  then show "\<exists>ans np ch. topsort id [(1, 2), (2, 3), (3, 2 :: nat)] = Inl (CycleError ans np ch) \<and>
      topo_order [(1, 2), (2, 3), (3, 2)] ans \<and>
      set (dict_keys np) = nodes [(1, 2), (2, 3), (3, 2)] - set ans \<and> np \<noteq> [] \<and>
      (\<forall>x \<in> set (dict_keys np). \<exists>p \<in> set (dict_keys np). (p, x) \<in> set [(1, 2), (2, 3), (3, 2)])"
    by (rule topsort_reports_cycle [OF insertion_order.key_order_axioms])
qed code_simp

text \<open>C28. \<^verbatim>\<open>topsort_levels\<close> yields the dependency levels: no level is empty, no element
  occurs twice, the parents of an element of level \<open>i\<close> all lie in earlier levels and, for
  \<open>i > 0\<close>, one of them in level \<open>i - 1\<close>; the generator ends normally exactly when the
  relation is acyclic, and then every element has been yielded.\<close>

theorem topsort_levels_by_depth:
  assumes "key_order ko" and "topsort_levels ko E = (ls, r)"
  shows "distinct (concat ls) \<and> (r = None \<longleftrightarrow> acyclic (set E)) \<and>
         (r = None \<longrightarrow> set (concat ls) = nodes E) \<and>
         (\<forall>i < length ls. ls ! i \<noteq> [] \<and>
            (\<forall>x \<in> set (ls ! i).
               (\<forall>q. (q, x) \<in> set E \<longrightarrow> (\<exists>j < i. q \<in> set (ls ! j))) \<and>
               (0 < i \<longrightarrow> (\<exists>q \<in> set (ls ! (i - 1)). (q, x) \<in> set E))))"
proof -
  note run = levels_run [OF assms]
  have "\<exists>j < i. q \<in> set (ls ! j)"
    if "i < length ls" "x \<in> set (ls ! i)" "(q, x) \<in> set E" for i x q
  proof -
    have "x \<in> ready E (set (concat (take i ls)))"
      using levels_from_nth(2) [OF run(1) that(1)] that(2) by simp
    then have "q \<in> set (concat (take i ls))" using that(3) by (auto simp: ready_iff)
    then obtain l where l: "l \<in> set (take i ls)" "q \<in> set l" by auto
    then obtain j where "j < i" "l = ls ! j" by (auto simp: in_set_conv_nth)
    with l(2) show ?thesis by auto
  qed
  moreover have "\<exists>q \<in> set (ls ! (i - 1)). (q, x) \<in> set E"
    if i: "i < length ls" "x \<in> set (ls ! i)" "0 < i" for i x
    using levels_from_parent [OF run(1) i] .
  ultimately show ?thesis
    using run levels_from_disjoint [OF run(1)] levels_from_nth(1) [OF run(1)] by auto
qed

theorem topsort_levels_by_depth_witness:
  "topsort_levels id [(1, 2), (3, 4), (5, 6), (1, 3), (1, 5), (1, 6), (2, 5 :: nat)]
     = ([[1], [2, 3], [4, 5], [6]], None) \<and> distinct (concat [[1], [2, 3], [4, 5], [6 :: nat]])"
proof -
  have run: "topsort_levels id [(1, 2), (3, 4), (5, 6), (1, 3), (1, 5), (1, 6), (2, 5 :: nat)]
     = ([[1], [2, 3], [4, 5], [6]], None)" by code_simp
  from run topsort_levels_by_depth [OF insertion_order.key_order_axioms run] show ?thesis by blast
qed

text \<open>\<^verbatim>\<open>topsort\<close> and \<^verbatim>\<open>topsort_levels\<close> agree: the one returns an answer exactly when the
  other ends normally, and then the levels hold the same elements, even when the two are
  run with different iteration orders of the dictionary.\<close>

theorem topsort_levels_agree:
  assumes "key_order ko" and "key_order ko'" and "topsort_levels ko' E = (ls, r)"
  shows "(r = None \<longleftrightarrow> (\<exists>ans. topsort ko E = Inr ans)) \<and>
         (\<forall>ans. topsort ko E = Inr ans \<longrightarrow> mset (concat ls) = mset ans)"
proof -
  note run = levels_run [OF assms(2,3)]
  obtain ans np ch where ts: "visit_inv E ans [] np ch" "np = [] \<longleftrightarrow> acyclic (set E)"
    "topsort ko E = (if np = [] then Inr ans else Inl (CycleError ans np ch))"
    using topsort_run [OF assms(1), of E] by blast
  have "mset (concat ls) = mset ans" if "np = []"
  proof -
    have "set ans = nodes E"
      using that visit_inv_keys [OF ts(1)] ts(1) by (auto simp: visit_inv_def)
    moreover have "set (concat ls) = nodes E" using run(2,3) ts(2) that by blast
    ultimately show ?thesis
      using ts(1) levels_from_disjoint [OF run(1)]
      by (intro set_eq_iff_mset_eq_distinct [THEN iffD1]) (simp_all add: visit_inv_def)
  qed
  with ts(2,3) run(2) show ?thesis by auto
qed

theorem topsort_levels_agree_witness:
  "topsort rev [(1, 2), (1, 3), (2, 4 :: nat)] = Inr [1, 2, 3, 4] \<and>
   mset (concat [[1], [3, 2], [4]]) = mset [1, 2, 3, 4 :: nat]"
proof -
  have t: "topsort rev [(1, 2), (1, 3), (2, 4 :: nat)] = Inr [1, 2, 3, 4]" by code_simp
  have l: "topsort_levels rev [(1, 2), (1, 3), (2, 4 :: nat)] = ([[1], [3, 2], [4]], None)" by code_simp
  from t topsort_levels_agree [OF reverse_order.key_order_axioms reverse_order.key_order_axioms l]
  show ?thesis by blast
qed

end
