(* ===== verification/Find_Cycles.thy ===== *)
theory Find_Cycles
  imports Topsort "HOL-Library.Multiset_Order"
begin

text \<open>
  \<^verbatim>\<open>find_cycles\<close> of \<^verbatim>\<open>bindings/python/topsort.py\<close>: a depth-first walk over all simple
  paths, on an explicit stack of paths.  The generator is modelled by the list of the cycles
  it yields.  The stack is written top first: the head is the end of the Python list
  \<^verbatim>\<open>paths\<close>, where \<^verbatim>\<open>append\<close> and \<^verbatim>\<open>pop\<close> work.
\<close>

section \<open>The walk\<close>

record 'a walk =
  paths :: "'a list list"
  visited_nodes :: "'a set"
  cycles :: "'a list list"

fun is_dup :: "'a list \<Rightarrow> 'a list list \<Rightarrow> bool result" where
  "is_dup cycle [] = Inr False"
| "is_dup cycle (other_cycle # cs) =
     res_bind (is_rotated other_cycle cycle) (\<lambda>b. if b then Inr True else is_dup cycle cs)"

fun visit_children :: "'a list \<Rightarrow> 'a list \<Rightarrow> 'a walk \<Rightarrow> 'a walk result" where
  "visit_children path [] s = Inr s"
| "visit_children path (child # cs) s =
     (if child \<in> set path then
        (let cycle = dropWhile (\<lambda>x. x \<noteq> child) path
         in res_bind (is_dup cycle (cycles s)) (\<lambda>d.
              visit_children path cs (if d then s else s\<lparr>cycles := cycles s @ [cycle]\<rparr>)))
      else
        visit_children path cs
          (s\<lparr>paths := (path @ [child]) # paths s, visited_nodes := insert child (visited_nodes s)\<rparr>))"

lemma visit_children_paths:
  "visit_children path cs s = Inr s' \<Longrightarrow>
     \<exists>new. paths s' = new @ paths s \<and>
       (\<forall>p \<in> set new. \<exists>c \<in> set cs. c \<notin> set path \<and> p = path @ [c])"
proof (induction cs arbitrary: s)
  case Nil
  then show ?case by simp
next
  case (Cons c cs)
  show ?case
  proof (cases "c \<in> set path")
    case True
    with Cons.prems obtain t where "visit_children path cs t = Inr s'" and t: "paths t = paths s"
      by (auto simp: res_simps Let_def split: if_splits)
    from Cons.IH [OF this(1)] show ?thesis unfolding t by (metis list.set_intros(2))
  next
    case False
    then have "visit_children path cs (s\<lparr>paths := (path @ [c]) # paths s,
        visited_nodes := insert c (visited_nodes s)\<rparr>) = Inr s'"
      using Cons.prems by simp
    from Cons.IH [OF this] obtain new where
      "paths s' = new @ (path @ [c]) # paths s"
      "\<forall>p \<in> set new. \<exists>c \<in> set cs. c \<notin> set path \<and> p = path @ [c]" by auto
    with False show ?thesis by (intro exI [of _ "new @ [path @ [c]]"]) auto
  qed
qed

text \<open>
  Termination: every path that a visit pushes has one more of the finitely many children
  than the path it pops, so the multiset of the numbers of children still missing from the
  stacked paths decreases.
\<close>

definition all_children :: "('a, 'a list) dict \<Rightarrow> 'a set" where
  "all_children G = (\<Union>(_, cs) \<in> set G. set cs)"

definition stack_weight :: "('a, 'a list) dict \<Rightarrow> 'a list list \<Rightarrow> nat multiset" where
  "stack_weight G ps = mset (map (\<lambda>p. card (all_children G - set p)) ps)"

lemma finite_all_children [simp]: "finite (all_children G)"
  by (auto simp: all_children_def)

lemma all_childrenI: "map_of G p = Some cs \<Longrightarrow> c \<in> set cs \<Longrightarrow> c \<in> all_children G"
  by (auto simp: all_children_def dest: map_of_SomeD)

lemma stack_weight_pop: "stack_weight G ps < stack_weight G (p # ps)"
  by (simp add: stack_weight_def)

lemma stack_weight_push:
  assumes "map_of G parent = Some cs"
    and "\<forall>q \<in> set new. \<exists>c \<in> set cs. c \<notin> set p \<and> q = p @ [c]"
  shows "stack_weight G (new @ ps) < stack_weight G (p # ps)"
proof -
  let ?w = "\<lambda>p. card (all_children G - set p)"
  have "?w q < ?w p" if "q \<in> set new" for q
  proof -
    from that assms(2) obtain c where c: "c \<in> set cs" "c \<notin> set p" "q = p @ [c]"
      by metis
    moreover have "c \<in> all_children G" using assms(1) c(1) by (rule all_childrenI)
    ultimately have "all_children G - set q \<subset> all_children G - set p" by auto
    then show ?thesis by (intro psubset_card_mono) auto
  qed
  then have "mset (map ?w new) < {#?w p#}"
    by (intro ex_gt_imp_less_multiset exI [of _ "?w p"]) auto
  then have "mset (map ?w new) + mset (map ?w ps) < {#?w p#} + mset (map ?w ps)"
    by (rule add_strict_right_mono)
  then show ?thesis by (simp add: stack_weight_def)
qed

function search :: "('a, 'a list) dict \<Rightarrow> 'a walk \<Rightarrow> 'a walk result" where
  "search G s =
     (case paths s of
        [] \<Rightarrow> Inr s
      | path # rest \<Rightarrow>
          res_bind (py_nth path (- 1)) (\<lambda>parent.
            case map_of G parent of
              None \<Rightarrow> search G (s\<lparr>paths := rest\<rparr>)
            | Some children \<Rightarrow>
                res_bind (visit_children path children (s\<lparr>paths := rest\<rparr>)) (search G)))"
  by pat_completeness auto
termination
proof (relation "inv_image {(x, y). x < y} (\<lambda>(G, s). stack_weight G (paths s))", goal_cases)
  case 1
  show ?case by (rule wf_inv_image) (rule wf)
next
  case (2 G s path rest)
  then show ?case by (simp add: stack_weight_pop)
next
  case (3 G s path rest a x2 s')
  then have "visit_children path x2 (s\<lparr>paths := rest\<rparr>) = Inr s'" by simp
  from visit_children_paths [OF this] obtain new where "paths s' = new @ rest"
    "\<forall>q \<in> set new. \<exists>c \<in> set x2. c \<notin> set path \<and> q = path @ [c]" by auto
  with 3 show ?case by (simp add: stack_weight_push)
qed

declare search.simps [simp del]

fun walk_roots :: "('a, 'a list) dict \<Rightarrow> 'a list \<Rightarrow> 'a walk \<Rightarrow> 'a walk result" where
  "walk_roots G [] s = Inr s"
| "walk_roots G (parent # ks) s =
     (if parent \<in> visited_nodes s then walk_roots G ks s
      else res_bind (search G (s\<lparr>paths := [[parent]]\<rparr>)) (walk_roots G ks))"

definition find_cycles :: "('a list \<Rightarrow> 'a list) \<Rightarrow> ('a, 'a list) dict \<Rightarrow> 'a list list result" where
  "find_cycles ko parent_children =
     res_bind (walk_roots parent_children (ko (dict_keys parent_children))
                 \<lparr>paths = [], visited_nodes = {}, cycles = []\<rparr>)
       (\<lambda>s. Inr (cycles s))"

section \<open>Simple paths and simple cycles\<close>

definition edge :: "('a, 'a list) dict \<Rightarrow> 'a \<Rightarrow> 'a \<Rightarrow> bool" where
  "edge G a b \<longleftrightarrow> (\<exists>cs. map_of G a = Some cs \<and> b \<in> set cs)"

definition simple_path :: "('a, 'a list) dict \<Rightarrow> 'a list \<Rightarrow> bool" where
  "simple_path G p \<longleftrightarrow> p \<noteq> [] \<and> distinct p \<and> successively (edge G) p"

definition simple_cycle :: "('a, 'a list) dict \<Rightarrow> 'a list \<Rightarrow> bool" where
  "simple_cycle G c \<longleftrightarrow> simple_path G c \<and> edge G (last c) (hd c)"

definition same_cycle :: "'a list \<Rightarrow> 'a list \<Rightarrow> bool" where
  "same_cycle c d \<longleftrightarrow> (\<exists>n. d = rotate n c)"

definition found :: "'a walk \<Rightarrow> 'a list \<Rightarrow> bool" where
  "found s c \<longleftrightarrow> (\<exists>y \<in> set (cycles s). same_cycle y c)"

lemma simple_path_snoc:
  "simple_path G p \<Longrightarrow> edge G (last p) c \<Longrightarrow> c \<notin> set p \<Longrightarrow> simple_path G (p @ [c])"
  by (auto simp: simple_path_def successively_append_iff)

lemma simple_path_suffix:
  "simple_path G (us @ vs) \<Longrightarrow> vs \<noteq> [] \<Longrightarrow> simple_path G vs"
  by (auto simp: simple_path_def successively_append_iff)

lemma simple_path_prefix:
  "simple_path G (us @ vs) \<Longrightarrow> us \<noteq> [] \<Longrightarrow> simple_path G us"
  by (auto simp: simple_path_def successively_append_iff)

lemma dropWhile_split:
  assumes "distinct p" and "p = us @ c # vs"
  shows "dropWhile (\<lambda>x. x \<noteq> c) p = c # vs"
  using assms by (induction us arbitrary: p) auto

lemma closing_edge_cycle:
  assumes "simple_path G p" and "edge G (last p) c" and "c \<in> set p"
  shows "simple_cycle G (dropWhile (\<lambda>x. x \<noteq> c) p)"
proof -
  from assms(3) obtain us vs where p: "p = us @ c # vs" by (meson split_list)
  with assms(1) have "dropWhile (\<lambda>x. x \<noteq> c) p = c # vs"
    by (intro dropWhile_split) (auto simp: simple_path_def)
  moreover have "simple_path G (c # vs)"
    using assms(1) unfolding p by (rule simple_path_suffix) simp
  moreover have "edge G (last (c # vs)) c" using assms(2) unfolding p by simp
  ultimately show ?thesis by (simp add: simple_cycle_def)
qed

lemma simple_cycle_nonempty: "simple_cycle G c \<Longrightarrow> c \<noteq> []"
  by (simp add: simple_cycle_def simple_path_def)

lemma same_cycle_refl [simp]: "same_cycle c c"
  unfolding same_cycle_def by (rule exI [of _ 0]) simp

lemma same_cycle_trans: "same_cycle a b \<Longrightarrow> same_cycle b c \<Longrightarrow> same_cycle a c"
  unfolding same_cycle_def by (metis rotate_rotate)

text \<open>A cycle may be read from any of its nodes on.\<close>

lemma simple_cycle_from:
  assumes "simple_cycle G c" and "v \<in> set c"
  shows "\<exists>d. simple_cycle G d \<and> hd d = v \<and> same_cycle d c \<and> set d = set c"
proof -
  from assms(2) obtain us vs where c: "c = us @ v # vs" by (meson split_list)
  let ?d = "(v # vs) @ us"
  have "simple_cycle G ?d"
  proof (cases "us = []")
    case True
    with assms(1) c show ?thesis by simp
  next
    case False
    have "successively (edge G) (v # vs)" "successively (edge G) us"
      "edge G (last (v # vs)) (hd us)" "edge G (last us) v" "distinct ?d"
      using assms(1) False unfolding c
      by (auto simp: simple_cycle_def simple_path_def successively_append_iff)
    then have "successively (edge G) ?d" "distinct ?d" "edge G (last ?d) (hd ?d)"
      using False by (simp_all add: successively_append_iff del: append_Cons)
    then show ?thesis by (simp add: simple_cycle_def simple_path_def)
  qed
  moreover have "same_cycle ?d c"
    unfolding same_cycle_def c
    by (rule exI [of _ "length (v # vs)"]) (metis append_Cons rotate_append)
  ultimately show ?thesis by (intro exI [of _ ?d]) (auto simp: c)
qed

section \<open>What the walk keeps\<close>

definition walk_ok :: "('a, 'a list) dict \<Rightarrow> 'a walk \<Rightarrow> bool" where
  "walk_ok G s \<longleftrightarrow>
     (\<forall>p \<in> set (paths s). simple_path G p) \<and>
     (\<forall>c \<in> set (cycles s). simple_cycle G c) \<and>
     sorted_wrt (\<lambda>c d. \<not> same_cycle c d) (cycles s)"

definition grows :: "'a walk \<Rightarrow> 'a walk \<Rightarrow> bool" where
  "grows s s' \<longleftrightarrow> set (cycles s) \<subseteq> set (cycles s') \<and> visited_nodes s \<subseteq> visited_nodes s'"

lemma grows_refl [simp]: "grows s s"
  by (simp add: grows_def)

lemma grows_trans: "grows s t \<Longrightarrow> grows t u \<Longrightarrow> grows s u"
  by (auto simp: grows_def)

lemma found_grows: "found s c \<Longrightarrow> grows s s' \<Longrightarrow> found s' c"
  by (auto simp: found_def grows_def)

lemma is_dup_spec: "cycle \<noteq> [] \<Longrightarrow> is_dup cycle cs = Inr (\<exists>d \<in> set cs. same_cycle d cycle)"
  by (induction cs) (auto simp: is_rotated_rotate same_cycle_def)

text \<open>One round of the inner loop: every child either closes a cycle that is then known,
  or extends the path on the stack.\<close>

lemma visit_children_spec:
  assumes "simple_path G path" and "\<forall>c \<in> set cs. edge G (last path) c" and "walk_ok G s"
  shows "\<exists>s'. visit_children path cs s = Inr s' \<and> walk_ok G s' \<and> grows s s' \<and>
           (\<forall>c \<in> set cs. if c \<in> set path then found s' (dropWhile (\<lambda>x. x \<noteq> c) path)
                          else path @ [c] \<in> set (paths s')) \<and>
           set (paths s) \<subseteq> set (paths s') \<and>
           set (paths s') \<subseteq> set (paths s) \<union> {path @ [c] |c. c \<in> set cs} \<and>
           visited_nodes s' \<subseteq> visited_nodes s \<union> set cs"
  using assms(2,3)
proof (induction cs arbitrary: s)
  case Nil
  then show ?case by simp
next
  case (Cons c cs)
  let ?cycle = "dropWhile (\<lambda>x. x \<noteq> c) path"
  define t where "t =
     (if c \<in> set path
      then (if \<exists>d \<in> set (cycles s). same_cycle d ?cycle then s else s\<lparr>cycles := cycles s @ [?cycle]\<rparr>)
      else s\<lparr>paths := (path @ [c]) # paths s, visited_nodes := insert c (visited_nodes s)\<rparr>)"
  have cyc: "simple_cycle G ?cycle" if "c \<in> set path"
    using assms(1) Cons.prems(1) that by (intro closing_edge_cycle) auto
  then have "?cycle \<noteq> []" if "c \<in> set path"
    using that simple_cycle_nonempty by blast
  then have step: "visit_children path (c # cs) s = visit_children path cs t"
    by (auto simp: t_def is_dup_spec Let_def)
  have ok: "walk_ok G t"
  proof (cases "c \<in> set path")
    case True
    with cyc Cons.prems(2) show ?thesis by (auto simp: t_def walk_ok_def sorted_wrt_append)
  next
    case False
    with Cons.prems assms(1) show ?thesis by (auto simp: t_def walk_ok_def intro: simple_path_snoc)
  qed
  have gt: "grows s t" by (auto simp: t_def grows_def)
  have ft: "c \<in> set path \<Longrightarrow> found t ?cycle"
    by (auto simp: t_def found_def)
  have pt: "set (paths t) = set (paths s) \<union> (if c \<in> set path then {} else {path @ [c]})"
    and vt: "visited_nodes t \<subseteq> insert c (visited_nodes s)"
    by (auto simp: t_def)
  from Cons.IH [OF _ ok] Cons.prems(1) obtain s' where s':
    "visit_children path cs t = Inr s'" "walk_ok G s'" "grows t s'"
    "\<forall>c \<in> set cs. if c \<in> set path then found s' (dropWhile (\<lambda>x. x \<noteq> c) path)
                  else path @ [c] \<in> set (paths s')"
    "set (paths t) \<subseteq> set (paths s')"
    "set (paths s') \<subseteq> set (paths t) \<union> {path @ [c] |c. c \<in> set cs}"
    "visited_nodes s' \<subseteq> visited_nodes t \<union> set cs" by auto
  have "if c \<in> set path then found s' ?cycle else path @ [c] \<in> set (paths s')"
    using ft found_grows [OF _ s'(3)] s'(5) pt by auto
  moreover have "grows s s'" using gt s'(3) by (rule grows_trans)
  moreover have "set (paths s') \<subseteq> set (paths s) \<union> {path @ [d] |d. d \<in> set (c # cs)}"
    using s'(6) pt by (auto split: if_splits)
  moreover have "visited_nodes s' \<subseteq> visited_nodes s \<union> set (c # cs)"
    using s'(7) vt by auto
  moreover have "set (paths s) \<subseteq> set (paths s')" using s'(5) pt by auto
  ultimately show ?case using s'(1,2,4) step by auto
qed

section \<open>The whole search\<close>

text \<open>Every simple path that extends a stacked path has been walked: each edge that closes
  a cycle on it is accounted for.\<close>

definition walked :: "('a, 'a list) dict \<Rightarrow> 'a walk \<Rightarrow> 'a list \<Rightarrow> bool" where
  "walked G s q \<longleftrightarrow> (\<forall>c \<in> set q. edge G (last q) c \<longrightarrow> found s (dropWhile (\<lambda>x. x \<noteq> c) q))"

definition edge_closed :: "('a, 'a list) dict \<Rightarrow> 'a set \<Rightarrow> bool" where
  "edge_closed G R \<longleftrightarrow> (\<forall>a \<in> R. \<forall>b. edge G a b \<longrightarrow> b \<in> R)"

lemma walked_grows: "walked G s q \<Longrightarrow> grows s s' \<Longrightarrow> walked G s' q"
  by (auto simp: walked_def intro: found_grows)

lemma prefix_extend_cases:
  assumes "prefix p q" and "simple_path G q" and "p \<noteq> []"
  obtains "q = p" | c where "edge G (last p) c" and "c \<notin> set p" and "prefix (p @ [c]) q"
proof (cases "q = p")
  case False
  with assms(1) obtain zs where "q = p @ zs" "zs \<noteq> []"
    by (auto simp: prefix_def)
  then obtain c w where q: "q = p @ c # w" by (cases zs) auto
  with assms(2,3) have "edge G (last p) c" "c \<notin> set p"
    by (auto simp: simple_path_def successively_append_iff)
  then show ?thesis using that(2) [of c] q by (simp add: prefix_def)
qed (use that in blast)

definition searched :: "('a, 'a list) dict \<Rightarrow> 'a walk \<Rightarrow> 'a walk \<Rightarrow> bool" where
  "searched G s s' \<longleftrightarrow>
     walk_ok G s' \<and> grows s s' \<and>
     (\<forall>p \<in> set (paths s). \<forall>q. prefix p q \<and> simple_path G q \<longrightarrow> walked G s' q) \<and>
     (\<forall>R. edge_closed G R \<and> (\<forall>p \<in> set (paths s). set p \<subseteq> R) \<and> visited_nodes s \<subseteq> R
           \<longrightarrow> visited_nodes s' \<subseteq> R)"

lemma searchedI:
  assumes "walk_ok G s'" and "grows s s'"
    and "\<And>p q. p \<in> set (paths s) \<Longrightarrow> prefix p q \<Longrightarrow> simple_path G q \<Longrightarrow> walked G s' q"
    and "\<And>R. edge_closed G R \<Longrightarrow> \<forall>p \<in> set (paths s). set p \<subseteq> R \<Longrightarrow> visited_nodes s \<subseteq> R \<Longrightarrow>
           visited_nodes s' \<subseteq> R"
  shows "searched G s s'"
  using assms by (simp add: searched_def)

lemma searchedD:
  assumes "searched G s s'"
  shows "walk_ok G s'" and "grows s s'"
    and "\<And>p q. p \<in> set (paths s) \<Longrightarrow> prefix p q \<Longrightarrow> simple_path G q \<Longrightarrow> walked G s' q"
    and "\<And>R. edge_closed G R \<Longrightarrow> \<forall>p \<in> set (paths s). set p \<subseteq> R \<Longrightarrow> visited_nodes s \<subseteq> R \<Longrightarrow>
           visited_nodes s' \<subseteq> R"
  using assms by (simp_all add: searched_def)

lemma search_spec:
  assumes "walk_ok G s"
  shows "\<exists>s'. search G s = Inr s' \<and> searched G s s'"
  using assms
proof (induction G s rule: search.induct)
  case (1 G s)
  show ?case
  proof (cases "paths s")
    case Nil
    with "1.prems" show ?thesis by (simp add: search.simps [of G s] searched_def)
  next
    case (Cons path rest)
    have sp: "simple_path G path" using "1.prems" Cons by (simp add: walk_ok_def)
    then have ne: "path \<noteq> []" by (simp add: simple_path_def)
    then have par: "py_nth path (- 1) = Inr (last path)" by simp
    let ?s1 = "s\<lparr>paths := rest\<rparr>"
    have ok1: "walk_ok G ?s1" using "1.prems" Cons by (simp add: walk_ok_def)
    show ?thesis
    proof (cases "map_of G (last path)")
      case None
      have "walked G s' path" for s' using None by (simp add: walked_def edge_def)
      moreover have "\<not> edge G (last path) c" for c using None by (simp add: edge_def)
      ultimately have ext: "walked G s' q" if "prefix path q" "simple_path G q" for s' q
        using that ne by (metis prefix_extend_cases)
      have "search G s = search G ?s1"
        using Cons par None by (simp add: search.simps [of G s])
      moreover from "1.IH"(1) [OF Cons par None ok1] obtain s' where
        s': "search G ?s1 = Inr s'" "searched G ?s1 s'" by blast
      moreover have "searched G s s'"
      proof (rule searchedI)
        show "walk_ok G s'" using s'(2) by (rule searchedD)
        show "grows s s'" using searchedD(2) [OF s'(2)] by (simp add: grows_def)
        show "walked G s' q" if "p \<in> set (paths s)" "prefix p q" "simple_path G q" for p q
          using that ext searchedD(3) [OF s'(2), of p q] Cons by auto
        show "visited_nodes s' \<subseteq> R"
          if "edge_closed G R" "\<forall>p \<in> set (paths s). set p \<subseteq> R" "visited_nodes s \<subseteq> R" for R
          using that searchedD(4) [OF s'(2), of R] Cons by simp
      qed
      ultimately show ?thesis by auto
    next
      case (Some cs)
      then have ed: "edge G (last path) c \<longleftrightarrow> c \<in> set cs" for c by (simp add: edge_def)
      then have "\<forall>c \<in> set cs. edge G (last path) c" by blast
      from visit_children_spec [OF sp this ok1] obtain t where t:
        "visit_children path cs ?s1 = Inr t" "walk_ok G t" "grows ?s1 t"
        "\<forall>c \<in> set cs. if c \<in> set path then found t (dropWhile (\<lambda>x. x \<noteq> c) path)
                      else path @ [c] \<in> set (paths t)"
        "set rest \<subseteq> set (paths t)"
        "set (paths t) \<subseteq> set rest \<union> {path @ [c] |c. c \<in> set cs}"
        "visited_nodes t \<subseteq> visited_nodes s \<union> set cs" by auto
      from "1.IH"(2) [OF Cons par Some t(1) t(2)] obtain s' where
        s': "search G t = Inr s'" "searched G t s'" by blast
      note post = searchedD [OF s'(2)]
      have run: "search G s = Inr s'"
        using Cons par Some t(1) s'(1) by (simp add: search.simps [of G s])
      have here: "walked G s' path"
        unfolding walked_def using t(4) ed found_grows [OF _ post(2)] by auto
      have ext: "walked G s' q" if "prefix path q" "simple_path G q" for q
        using that(1,2) ne
      proof (cases rule: prefix_extend_cases)
        case (2 c)
        then have "path @ [c] \<in> set (paths t)" using t(4) ed by auto
        then show ?thesis using post(3) 2(3) that(2) by blast
      qed (use here in simp)
      have "searched G s s'"
      proof (rule searchedI)
        show "walk_ok G s'" by (rule post)
        show "grows s s'" using t(3) post(2) by (auto simp: grows_def)
        show "walked G s' q" if "p \<in> set (paths s)" "prefix p q" "simple_path G q" for p q
          using that ext post(3) [of p q] t(5) Cons by auto
        show "visited_nodes s' \<subseteq> R"
          if R: "edge_closed G R" "\<forall>p \<in> set (paths s). set p \<subseteq> R" "visited_nodes s \<subseteq> R" for R
        proof (rule post(4) [OF R(1)])
          have "last path \<in> R" using R(2) Cons ne by auto
          then have "set cs \<subseteq> R" using R(1) ed by (auto simp: edge_closed_def)
          moreover have "set path \<subseteq> R" "\<forall>p \<in> set rest. set p \<subseteq> R" using R(2) Cons by auto
          ultimately have "\<forall>p \<in> set rest \<union> {path @ [c] |c. c \<in> set cs}. set p \<subseteq> R" by auto
          with t(6) show "\<forall>p \<in> set (paths t). set p \<subseteq> R" by blast
          show "visited_nodes t \<subseteq> R" using t(7) R(3) \<open>set cs \<subseteq> R\<close> by auto
        qed
      qed
      with run show ?thesis by blast
    qed
  qed
qed

text \<open>A node is covered when it can be reached from a root all of whose simple paths have
  been walked.\<close>

definition reach :: "('a, 'a list) dict \<Rightarrow> 'a \<Rightarrow> 'a \<Rightarrow> bool" where
  "reach G = (edge G)\<^sup>*\<^sup>*"

definition covered :: "('a, 'a list) dict \<Rightarrow> 'a walk \<Rightarrow> 'a \<Rightarrow> bool" where
  "covered G s v \<longleftrightarrow>
     (\<exists>r. reach G r v \<and> (\<forall>q. simple_path G q \<and> hd q = r \<longrightarrow> walked G s q))"

lemma covered_grows: "covered G s v \<Longrightarrow> grows s s' \<Longrightarrow> covered G s' v"
  by (meson covered_def walked_grows)

lemma covered_closed: "edge_closed G {v. covered G s v}"
  unfolding edge_closed_def covered_def reach_def
  by (blast intro: rtranclp.rtrancl_into_rtrancl)

lemma walk_roots_spec:
  assumes "walk_ok G s" and "\<forall>v \<in> visited_nodes s. covered G s v"
  shows "\<exists>s'. walk_roots G ks s = Inr s' \<and> walk_ok G s' \<and> grows s s' \<and>
           (\<forall>v \<in> set ks. covered G s' v)"
  using assms
proof (induction ks arbitrary: s)
  case Nil
  then show ?case by simp
next
  case (Cons r ks)
  show ?case
  proof (cases "r \<in> visited_nodes s")
    case True
    with Cons.IH [OF Cons.prems] Cons.prems(2) show ?thesis
      using covered_grows by fastforce
  next
    case False
    have "walk_ok G (s\<lparr>paths := [[r]]\<rparr>)"
      using Cons.prems(1) by (simp add: walk_ok_def simple_path_def)
    from search_spec [OF this] obtain t where t1:
      "search G (s\<lparr>paths := [[r]]\<rparr>) = Inr t" "searched G (s\<lparr>paths := [[r]]\<rparr>) t" by blast
    note t = t1(1) searchedD(1) [OF t1(2)] searchedD(2) [OF t1(2), unfolded grows_def, simplified,
        folded grows_def] searchedD(3,4) [OF t1(2), simplified]
    have "prefix [r] q" if "simple_path G q" "hd q = r" for q
      using that by (cases q) (auto simp: simple_path_def)
    then have cr: "covered G t r"
      unfolding covered_def reach_def using t(4) by (intro exI [of _ r]) auto
    have "visited_nodes s \<subseteq> {v. covered G t v}"
      using Cons.prems(2) covered_grows [OF _ t(3)] by auto
    then have "\<forall>v \<in> visited_nodes t. covered G t v"
      using t(5) [OF covered_closed] cr by auto
    from Cons.IH [OF t(2) this] obtain s' where
      "walk_roots G ks t = Inr s'" "walk_ok G s'" "grows t s'" "\<forall>v \<in> set ks. covered G s' v"
      by blast
    with False t(1,3) cr show ?thesis
      by (auto intro: grows_trans covered_grows)
  qed
qed

text \<open>The shortest way from a node into a cycle meets the cycle at its end only.\<close>

lemma simple_path_into:
  assumes "reach G r v" and "v \<in> C"
  shows "\<exists>q. simple_path G q \<and> hd q = r \<and> last q \<in> C \<and> set (butlast q) \<inter> C = {}"
  using assms unfolding reach_def
proof (induction rule: converse_rtranclp_induct)
  case base
  then show ?case by (intro exI [of _ "[v]"]) (simp add: simple_path_def)
next
  case (step r r')
  then obtain q where q: "simple_path G q" "hd q = r'" "last q \<in> C" "set (butlast q) \<inter> C = {}"
    by blast
  show ?case
  proof (cases "r \<in> C")
    case True
    then show ?thesis by (intro exI [of _ "[r]"]) (simp add: simple_path_def)
  next
    case rC: False
    show ?thesis
    proof (cases "r \<in> set q")
      case True
      then obtain us vs where eq: "q = us @ r # vs" by (meson split_list)
      with q(1) have "simple_path G (r # vs)" by (auto intro: simple_path_suffix)
      moreover have "set (butlast (r # vs)) \<inter> C = {}"
        using q(4) unfolding eq by (auto simp: butlast_append split: if_splits)
      ultimately show ?thesis using q(3) unfolding eq
        by (intro exI [of _ "r # vs"]) auto
    next
      case False
      have "q \<noteq> []" using q(1) by (simp add: simple_path_def)
      with False q step.hyps(1) have "simple_path G (r # q)"
        by (auto simp: simple_path_def successively_Cons)
      with q rC \<open>q \<noteq> []\<close> show ?thesis by (intro exI [of _ "r # q"]) auto
    qed
  qed
qed

lemma covered_cycle_found:
  assumes cov: "covered G s v" and cyc: "simple_cycle G c" and v: "v \<in> set c"
  shows "found s c"
proof -
  from cov obtain r where r: "reach G r v" "\<And>q. simple_path G q \<Longrightarrow> hd q = r \<Longrightarrow> walked G s q"
    by (auto simp: covered_def)
  from simple_path_into [OF r(1) v] obtain q where
    q: "simple_path G q" "hd q = r" "last q \<in> set c" "set (butlast q) \<inter> set c = {}" by blast
  from simple_cycle_from [OF cyc q(3)] obtain d where
    d: "simple_cycle G d" "hd d = last q" "same_cycle d c" "set d = set c" by blast
  obtain w where dw: "d = last q # w"
    using d(1,2) simple_cycle_nonempty by (metis list.collapse)
  have qb: "q = butlast q @ [last q]" using q(1) by (simp add: simple_path_def)
  let ?p = "butlast q @ d"
  have sp: "simple_path G ?p"
  proof -
    have "distinct (butlast q)" using q(1) by (simp add: simple_path_def distinct_butlast)
    moreover have "successively (edge G) (butlast q)"
      "butlast q \<noteq> [] \<Longrightarrow> edge G (last (butlast q)) (last q)"
      using q(1) qb by (metis simple_path_def successively_append_iff list.sel(1) list.discI)+
    ultimately show ?thesis
      using d q(4) by (auto simp: simple_path_def simple_cycle_def successively_append_iff)
  qed
  have "hd ?p = r"
    using q(2) d(2) qb by (metis hd_append2 append_Nil list.sel(1))
  with sp r(2) have wk: "walked G s ?p" by blast
  have "last ?p = last d" using dw by simp
  then have "edge G (last ?p) (last q)" using d(1,2) by (simp add: simple_cycle_def)
  moreover have "last q \<in> set ?p" using dw by simp
  ultimately have "found s (dropWhile (\<lambda>x. x \<noteq> last q) ?p)"
    using wk by (simp add: walked_def)
  moreover have "dropWhile (\<lambda>x. x \<noteq> last q) ?p = d"
    using sp dw dropWhile_split [of ?p "butlast q" "last q" w] by (simp add: simple_path_def)
  ultimately show ?thesis using d(3) by (auto simp: found_def intro: same_cycle_trans)
qed

lemma find_cycles_run:
  assumes "key_order ko"
  shows "\<exists>s. find_cycles ko G = Inr (cycles s) \<and> walk_ok G s \<and>
           (\<forall>c. simple_cycle G c \<longrightarrow> found s c)"
proof -
  have "walk_ok G \<lparr>paths = [], visited_nodes = {}, cycles = []\<rparr>" by (simp add: walk_ok_def)
  from walk_roots_spec [OF this] obtain s where s:
    "walk_roots G (ko (dict_keys G)) \<lparr>paths = [], visited_nodes = {}, cycles = []\<rparr> = Inr s"
    "walk_ok G s" "\<forall>v \<in> set (ko (dict_keys G)). covered G s v" by auto
  have "found s c" if "simple_cycle G c" for c
  proof -
    from that have c: "c \<noteq> []" "edge G (last c) (hd c)"
      using simple_cycle_nonempty by (auto simp: simple_cycle_def)
    then have "last c \<in> set (dict_keys G)"
      by (auto simp: edge_def dest!: map_of_SomeD intro: rev_image_eqI)
    then have "covered G s (last c)" using s(3) key_order.ko_set [OF assms] by blast
    then show ?thesis using that c(1) by (auto intro: covered_cycle_found)
  qed
  with s(1,2) show ?thesis by (auto simp: find_cycles_def)
qed

section \<open>Properties\<close>

text \<open>C3. Soundness of \<^verbatim>\<open>find_cycles\<close>: whatever the iteration order of the dictionary, the
  generator raises nothing, every list it yields is a simple cycle of the graph (each item a
  parent of the next and the last a parent of the first), and it never yields two rotations
  of the same cycle.\<close>

theorem find_cycles_sound:
  assumes "key_order ko"
  shows "\<exists>cs. find_cycles ko G = Inr cs \<and> (\<forall>c \<in> set cs. simple_cycle G c) \<and>
           (\<forall>i j. i < j \<and> j < length cs \<longrightarrow> \<not> same_cycle (cs ! i) (cs ! j))"
  using find_cycles_run [OF assms, of G]
  by (auto simp: walk_ok_def sorted_wrt_iff_nth_less)

theorem find_cycles_sound_witness:
  "find_cycles id [(1, [2, 3]), (2, [4]), (3, [4]), (4, [1, 2])]
     = Inr [[1, 3, 4], [4, 2], [1, 2, 4 :: nat]] \<and>
   (\<exists>cs. find_cycles id [(1, [2, 3]), (2, [4]), (3, [4]), (4, [1, 2 :: nat])] = Inr cs \<and>
      (\<forall>c \<in> set cs. simple_cycle [(1, [2, 3]), (2, [4]), (3, [4]), (4, [1, 2 :: nat])] c) \<and>
      (\<forall>i j. i < j \<and> j < length cs \<longrightarrow> \<not> same_cycle (cs ! i) (cs ! j)))"
  by (rule conjI, code_simp, rule find_cycles_sound [OF insertion_order.key_order_axioms])

text \<open>C2. Completeness of \<^verbatim>\<open>find_cycles\<close>: although a node that an earlier walk has reached is
  skipped as a starting point, every simple cycle of the graph is yielded, up to rotation.\<close>

theorem find_cycles_complete:
  assumes "key_order ko" and "simple_cycle G c"
  shows "\<exists>cs. find_cycles ko G = Inr cs \<and> (\<exists>d \<in> set cs. same_cycle d c)"
  using find_cycles_run [OF assms(1), of G] assms(2)
  by (auto simp: found_def)

theorem find_cycles_complete_witness:
  "simple_cycle [(1, [2]), (2, [3]), (3, [2, 1 :: nat])] [3, 1, 2] \<and>
   (\<exists>cs. find_cycles id [(1, [2]), (2, [3]), (3, [2, 1])] = Inr cs \<and>
      (\<exists>d \<in> set cs. same_cycle d [3, 1, 2 :: nat]))"
proof -
  have c: "simple_cycle [(1, [2]), (2, [3]), (3, [2, 1 :: nat])] [3, 1, 2]"
    by (simp add: simple_cycle_def simple_path_def edge_def)
  with find_cycles_complete [OF insertion_order.key_order_axioms c] show ?thesis by blast
qed

end
