(* ===== verification/Shell_Parse.thy ===== *)
theory Shell_Parse
  imports Py_Prelude
begin

text \<open>
  The command-line parser of \<^verbatim>\<open>waf-tools/shellcmd.py\<close>: \<^verbatim>\<open>Pipeline.parse\<close> turns the words of a
  command line into a list of commands, \<^verbatim>\<open>cd\<close> nodes and operators.  Splitting a string into
  words is \<^verbatim>\<open>shlex.split\<close>, a library function; the parser is modelled on the list of words,
  which it also accepts directly.
\<close>

section \<open>The nodes of a pipeline\<close>

datatype redirect = RPipe | RStdout | RFile string

record command =
  name :: string
  argv :: "string list"
  stdin :: "redirect option"
  stdout :: "redirect option"
  stderr :: "redirect option"
  env_vars :: "(string, string) dict option"

datatype node = NCommand command | NChdir "string option" | NPipe | NAnd | NOr

definition new_command :: "string \<Rightarrow> command" where
  "new_command nm = \<lparr>name = nm, argv = [nm], stdin = None, stdout = None, stderr = None, env_vars = None\<rparr>"

text \<open>\<^verbatim>\<open>get_abbreviated_command\<close>: its last branch tests for \<^verbatim>\<open>And\<close> a second time, so an \<^verbatim>\<open>Or\<close> prints
  nothing.\<close>

definition abbreviate :: "node \<Rightarrow> string list" where
  "abbreviate n =
     (case n of
        NCommand c \<Rightarrow> [name c]
      | NChdir d \<Rightarrow> [''cd '' @ (case d of None \<Rightarrow> ''None'' | Some s \<Rightarrow> s)]
      | NPipe \<Rightarrow> [''|'']
      | NAnd \<Rightarrow> [''&&'']
      | NOr \<Rightarrow> [])"

definition get_abbreviated_command :: "node list \<Rightarrow> string" where
  "get_abbreviated_command pl = py_join '' '' (concat (map abbreviate pl))"

lemma abbreviated_or_lost:
  "get_abbreviated_command [NCommand (new_command ''a''), NOr, NCommand (new_command ''b'')] = ''a b''"
  by code_simp

section \<open>Environment assignments\<close>

text \<open>The regular expression \<^verbatim>\<open>^([a-zA-Z0-9_]+)=(\S+)$\<close>; the final \<^verbatim>\<open>$\<close> also matches before a
  trailing newline.\<close>

definition is_word_char :: "char \<Rightarrow> bool" where
  "is_word_char c \<longleftrightarrow>
     (let n = (of_char c :: nat) in
        (97 \<le> n \<and> n \<le> 122) \<or> (65 \<le> n \<and> n \<le> 90) \<or> (48 \<le> n \<and> n \<le> 57) \<or> n = 95)"

definition env_var_match :: "string \<Rightarrow> (string \<times> string) option" where
  "env_var_match token =
     (let key = takeWhile is_word_char token in
      case dropWhile is_word_char token of
        [] \<Rightarrow> None
      | c # v \<Rightarrow>
          let v' = (if v \<noteq> [] \<and> last v = NL then butlast v else v) in
          if key \<noteq> [] \<and> c = CHR ''='' \<and> v' \<noteq> [] \<and> list_all (\<lambda>x. \<not> is_space x) v'
          then Some (key, v') else None)"

section \<open>The parser\<close>

datatype pstate = BEGIN | COMMAND | CHDIR | STDERR | STDOUT | STDIN

record parser =
  state :: pstate
  current_command :: "node option"
  env :: "(string, string) dict"
  pipeline :: "node list"

definition parser_init :: parser where
  "parser_init = \<lparr>state = BEGIN, current_command = None, env = [], pipeline = []\<rparr>"

definition commit_command :: "parser \<Rightarrow> parser result" where
  "commit_command p =
     (case current_command p of
        None \<Rightarrow> Inl AssertionError
      | Some n \<Rightarrow> Inr (p\<lparr>pipeline := pipeline p @ [n], current_command := None\<rparr>))"

definition commit_op :: "node \<Rightarrow> parser \<Rightarrow> parser result" where
  "commit_op op p =
     res_bind (commit_command p) (\<lambda>q. Inr (q\<lparr>pipeline := pipeline q @ [op], state := BEGIN\<rparr>))"

text \<open>An update of the command being parsed, which has to be a \<^verbatim>\<open>Command\<close>.\<close>

definition with_command :: "parser \<Rightarrow> (command \<Rightarrow> command result) \<Rightarrow> parser result" where
  "with_command p f =
     (case current_command p of
        Some (NCommand c) \<Rightarrow> res_bind (f c) (\<lambda>c'. Inr (p\<lparr>current_command := Some (NCommand c')\<rparr>))
      | _ \<Rightarrow> Inl AttributeError)"

definition assert_unset :: "'a option \<Rightarrow> 'b \<Rightarrow> 'b result" where
  "assert_unset x v = (if x = None then Inr v else Inl AssertionError)"

definition parse_begin :: "string \<Rightarrow> parser \<Rightarrow> parser result" where
  "parse_begin token p =
     (case env_var_match token of
        Some (k, v) \<Rightarrow> Inr (p\<lparr>env := AList.update k v (env p)\<rparr>)
      | None \<Rightarrow>
          if current_command p \<noteq> None then Inl AssertionError
          else if token = ''cd''
          then if env p = [] then Inr (p\<lparr>current_command := Some (NChdir None), state := CHDIR\<rparr>)
               else Inl AssertionError
          else if env p = []
          then Inr (p\<lparr>current_command := Some (NCommand (new_command token)), state := COMMAND\<rparr>)
          else Inr (p\<lparr>current_command := Some (NCommand ((new_command token)\<lparr>env_vars := Some (env p)\<rparr>)),
                      env := [], state := COMMAND\<rparr>))"

definition parse_command :: "string \<Rightarrow> parser \<Rightarrow> parser result" where
  "parse_command token p =
     (if token = ''>'' then Inr (p\<lparr>state := STDOUT\<rparr>)
      else if token = ''2>'' then Inr (p\<lparr>state := STDERR\<rparr>)
      else if token = ''2>&1''
      then with_command p (\<lambda>c. assert_unset (stderr c) (c\<lparr>stderr := Some RStdout\<rparr>))
      else if token = ''<'' then Inr (p\<lparr>state := STDIN\<rparr>)
      else if token = ''|''
      then res_bind (with_command p (\<lambda>c. assert_unset (stdout c) (c\<lparr>stdout := Some RPipe\<rparr>))) (commit_op NPipe)
      else if token = ''&&'' then commit_op NAnd p
      else if token = ''||'' then commit_op NOr p
      else with_command p (\<lambda>c. Inr (c\<lparr>argv := argv c @ [token]\<rparr>)))"

definition parse_chdir :: "string \<Rightarrow> parser \<Rightarrow> parser result" where
  "parse_chdir token p =
     (if token = ''&&'' then commit_op NAnd p
      else case current_command p of
             Some (NChdir d) \<Rightarrow> res_bind (assert_unset d token) (\<lambda>t.
                                  Inr (p\<lparr>current_command := Some (NChdir (Some t))\<rparr>))
           | _ \<Rightarrow> Inl AttributeError)"

text \<open>The word after a redirection operator.\<close>

definition parse_redirect :: "(command \<Rightarrow> command result) \<Rightarrow> parser \<Rightarrow> parser result" where
  "parse_redirect f p = res_bind (with_command p f) (\<lambda>q. Inr (q\<lparr>state := COMMAND\<rparr>))"

definition parse_step :: "string \<Rightarrow> parser \<Rightarrow> parser result" where
  "parse_step token p =
     (case state p of
        BEGIN \<Rightarrow> parse_begin token p
      | COMMAND \<Rightarrow> parse_command token p
      | CHDIR \<Rightarrow> parse_chdir token p
      | STDOUT \<Rightarrow> parse_redirect (\<lambda>c. assert_unset (stdout c) (c\<lparr>stdout := Some (RFile token)\<rparr>)) p
      | STDERR \<Rightarrow> parse_redirect (\<lambda>c. assert_unset (stderr c) (c\<lparr>stderr := Some (RFile token)\<rparr>)) p
      | STDIN \<Rightarrow> parse_redirect (\<lambda>c. assert_unset (stdin c) (c\<lparr>stdin := Some (RFile token)\<rparr>)) p)"

definition parse :: "string list \<Rightarrow> node list result" where
  "parse tokens =
     res_bind (for_each parse_step tokens parser_init) (\<lambda>p.
     res_bind (commit_command p) (\<lambda>q. Inr (pipeline q)))"

section \<open>Well-formed pipelines\<close>

definition piped_out :: "command \<Rightarrow> bool" where
  "piped_out c \<longleftrightarrow> stdout c = Some RPipe"

text \<open>The commands the parser builds: the name is the first argument, standard input and output
  are files, except for the pipe of a command in front of a \<^verbatim>\<open>|\<close>, and only standard error is ever
  joined with standard output.\<close>

definition command_ok :: "command \<Rightarrow> bool" where
  "command_ok c \<longleftrightarrow> argv c \<noteq> [] \<and> hd (argv c) = name c \<and>
     (case stdin c of Some r \<Rightarrow> r \<noteq> RPipe \<and> r \<noteq> RStdout | None \<Rightarrow> True) \<and>
     stdout c \<noteq> Some RStdout \<and> stderr c \<noteq> Some RPipe \<and> env_vars c \<noteq> Some []"

fun wf_pipeline :: "node list \<Rightarrow> bool" where
  "wf_pipeline [NCommand c] \<longleftrightarrow> command_ok c \<and> \<not> piped_out c"
| "wf_pipeline [NChdir d] \<longleftrightarrow> True"
| "wf_pipeline (NCommand c # op # rest) \<longleftrightarrow>
     command_ok c \<and> (op = NPipe \<and> piped_out c \<or> (op = NAnd \<or> op = NOr) \<and> \<not> piped_out c) \<and> wf_pipeline rest"
| "wf_pipeline (NChdir d # op # rest) \<longleftrightarrow> op = NAnd \<and> wf_pipeline rest"
| "wf_pipeline _ \<longleftrightarrow> False"

text \<open>What has been committed while parsing: complete up to an operator.\<close>

fun wf_prefix :: "node list \<Rightarrow> bool" where
  "wf_prefix [] \<longleftrightarrow> True"
| "wf_prefix (NCommand c # op # rest) \<longleftrightarrow>
     command_ok c \<and> (op = NPipe \<and> piped_out c \<or> (op = NAnd \<or> op = NOr) \<and> \<not> piped_out c) \<and> wf_prefix rest"
| "wf_prefix (NChdir d # op # rest) \<longleftrightarrow> op = NAnd \<and> wf_prefix rest"
| "wf_prefix _ \<longleftrightarrow> False"

lemma wf_prefix_append: "wf_prefix xs \<Longrightarrow> wf_prefix (xs @ ys) \<longleftrightarrow> wf_prefix ys"
  by (induction xs rule: wf_prefix.induct) auto

lemma wf_pipeline_append: "wf_prefix xs \<Longrightarrow> wf_pipeline (xs @ ys) \<longleftrightarrow> wf_pipeline ys"
  by (induction xs rule: wf_prefix.induct) auto

definition parser_ok :: "parser \<Rightarrow> bool" where
  "parser_ok p \<longleftrightarrow> wf_prefix (pipeline p) \<and>
     (case current_command p of
        None \<Rightarrow> state p = BEGIN
      | Some (NCommand c) \<Rightarrow> command_ok c \<and> \<not> piped_out c \<and> state p \<notin> {BEGIN, CHDIR}
      | Some (NChdir d) \<Rightarrow> state p = CHDIR
      | _ \<Rightarrow> False)"

lemma commit_op_ok:
  assumes "commit_op op p = Inr q" and "wf_prefix (pipeline p)"
    and "\<And>n. current_command p = Some n \<Longrightarrow> wf_prefix [n, op]"
  shows "parser_ok q"
  using assms by (auto simp: commit_op_def commit_command_def parser_ok_def wf_prefix_append
      split: option.splits)

lemma with_command_cases:
  assumes "with_command p f = Inr q"
  obtains c c' where "current_command p = Some (NCommand c)" and "f c = Inr c'"
    and "q = p\<lparr>current_command := Some (NCommand c')\<rparr>"
  using assms by (auto simp: with_command_def res_simps split: option.splits node.splits)

lemma assert_unset_iff [simp]: "assert_unset x v = Inr w \<longleftrightarrow> x = None \<and> w = v"
  by (auto simp: assert_unset_def)

lemma new_command_ok [simp]: "command_ok (new_command t)" "\<not> piped_out (new_command t)"
  "command_ok (new_command t\<lparr>env_vars := Some e\<rparr>) \<longleftrightarrow> e \<noteq> []" "\<not> piped_out (new_command t\<lparr>env_vars := Some e\<rparr>)"
  by (simp_all add: new_command_def command_ok_def piped_out_def)

lemma parse_begin_ok:
  assumes "parser_ok p" and "state p = BEGIN" and "parse_begin token p = Inr q"
  shows "parser_ok q"
  using assms by (auto simp: parse_begin_def parser_ok_def split: option.splits node.splits if_splits)

lemma parse_command_ok:
  assumes "parser_ok p" and "state p = COMMAND" and "parse_command token p = Inr q"
  shows "parser_ok q"
proof -
  obtain c where c: "current_command p = Some (NCommand c)" "command_ok c" "\<not> piped_out c" "wf_prefix (pipeline p)"
    using assms(1,2) by (auto simp: parser_ok_def split: option.splits node.splits)
  have op: "parser_ok q" if "commit_op op p = Inr q" "op = NAnd \<or> op = NOr" for op
    by (rule commit_op_ok [OF that(1) c(4)]) (use c that(2) in auto)
  have pipe: "parser_ok q" if "commit_op NPipe (p\<lparr>current_command := Some (NCommand (c\<lparr>stdout := Some RPipe\<rparr>))\<rparr>) = Inr q"
    by (rule commit_op_ok [OF that]) (use c in \<open>auto simp: command_ok_def piped_out_def\<close>)
  show ?thesis
  proof (cases "token \<in> {''|'', ''&&'', ''||''}")
    case True
    then show ?thesis
      using assms(3) c(1) op pipe
      by (auto simp: parse_command_def res_simps elim!: with_command_cases)
  next
    case False
    then show ?thesis
      using assms(2,3) c
      by (auto simp: parse_command_def parser_ok_def command_ok_def piped_out_def
          split: if_splits elim!: with_command_cases)
  qed
qed

lemma parse_chdir_ok:
  assumes "parser_ok p" and "state p = CHDIR" and "parse_chdir token p = Inr q"
  shows "parser_ok q"
proof -
  obtain d where d: "current_command p = Some (NChdir d)" "wf_prefix (pipeline p)"
    using assms(1,2) by (auto simp: parser_ok_def split: option.splits node.splits)
  have "parser_ok q" if "commit_op NAnd p = Inr q"
    by (rule commit_op_ok [OF that d(2)]) (use d in auto)
  then show ?thesis
    using assms(2,3) d by (auto simp: parse_chdir_def parser_ok_def res_simps split: if_splits)
qed

lemma parse_redirect_ok:
  assumes "parser_ok p" and "state p \<in> {STDOUT, STDERR, STDIN}" and "parse_step token p = Inr q"
  shows "parser_ok q"
proof -
  obtain c where c: "current_command p = Some (NCommand c)" "command_ok c" "\<not> piped_out c" "wf_prefix (pipeline p)"
    using assms(1,2) by (auto simp: parser_ok_def split: option.splits node.splits)
  show ?thesis
    using assms(2,3) c
    by (auto simp: parse_step_def parse_redirect_def parser_ok_def command_ok_def piped_out_def res_simps
        elim!: with_command_cases)
qed

lemma parse_step_ok: "parser_ok p \<Longrightarrow> parse_step token p = Inr q \<Longrightarrow> parser_ok q"
  using parse_begin_ok [of p token q] parse_command_ok [of p token q] parse_chdir_ok [of p token q]
    parse_redirect_ok [of p token q]
  by (cases "state p") (simp_all add: parse_step_def)

lemma parse_wf:
  assumes "parse tokens = Inr pl"
  shows "wf_pipeline pl"
proof -
  from assms obtain p q where p: "for_each parse_step tokens parser_init = Inr p"
    and q: "commit_command p = Inr q" "pl = pipeline q"
    by (auto simp: parse_def res_simps)
  have "parser_ok p"
  proof (rule for_each_inv [OF p])
    show "parser_ok parser_init" by (simp add: parser_init_def parser_ok_def)
  qed (rule parse_step_ok)
  moreover obtain n where "current_command p = Some n" "pl = pipeline p @ [n]"
    using q by (auto simp: commit_command_def split: option.splits)
  ultimately show ?thesis
    by (auto simp: parser_ok_def wf_pipeline_append split: node.splits)
qed

text \<open>C36. Whatever words \<^verbatim>\<open>parse\<close> accepts, it returns a well-formed pipeline: commands or \<^verbatim>\<open>cd\<close>
  nodes alternate with operators and end the list, a command writes to a pipe exactly when a
  \<^verbatim>\<open>|\<close> follows it, a \<^verbatim>\<open>cd\<close> is only followed by \<^verbatim>\<open>&&\<close>, and every command has a name and no
  empty environment.\<close>

theorem parse_well_formed:
  assumes "parse tokens = Inr pl"
  shows "wf_pipeline pl"
  using assms by (rule parse_wf)

theorem parse_well_formed_witness:
  "\<exists>pl. parse [''./foo.py'', ''2>&1'', ''<'', ''xxx'', ''|'', ''cat'', ''&&'', ''ls''] = Inr pl \<and> wf_pipeline pl"
proof -
  obtain pl where "parse [''./foo.py'', ''2>&1'', ''<'', ''xxx'', ''|'', ''cat'', ''&&'', ''ls''] = Inr pl"
    by (cases "parse [''./foo.py'', ''2>&1'', ''<'', ''xxx'', ''|'', ''cat'', ''&&'', ''ls'']") (code_simp, blast)
  then show ?thesis using parse_well_formed by blast
qed

section \<open>Printing a pipeline and parsing it again\<close>

definition operators :: "string list" where
  "operators = [''>'', ''2>'', ''2>&1'', ''<'', ''|'', ''&&'', ''||'']"

definition unparse_env :: "(string, string) dict \<Rightarrow> string list" where
  "unparse_env e = map (\<lambda>(k, v). k @ ''='' @ v) e"

definition unparse_redirects :: "command \<Rightarrow> string list" where
  "unparse_redirects c =
     (case stdin c of Some (RFile f) \<Rightarrow> [''<'', f] | _ \<Rightarrow> []) @
     (case stdout c of Some (RFile f) \<Rightarrow> [''>'', f] | _ \<Rightarrow> []) @
     (case stderr c of Some (RFile f) \<Rightarrow> [''2>'', f] | Some RStdout \<Rightarrow> [''2>&1''] | _ \<Rightarrow> [])"

definition unparse_command :: "command \<Rightarrow> string list" where
  "unparse_command c =
     (case env_vars c of None \<Rightarrow> [] | Some e \<Rightarrow> unparse_env e) @ argv c @ unparse_redirects c"

fun unparse_node :: "node \<Rightarrow> string list" where
  "unparse_node (NCommand c) = unparse_command c"
| "unparse_node (NChdir None) = [''cd'']"
| "unparse_node (NChdir (Some d)) = [''cd'', d]"
| "unparse_node NPipe = [''|'']"
| "unparse_node NAnd = [''&&'']"
| "unparse_node NOr = [''||'']"

definition unparse :: "node list \<Rightarrow> string list" where
  "unparse pl = concat (map unparse_node pl)"

text \<open>The words that survive: names that are no assignment and no \<^verbatim>\<open>cd\<close>, arguments that are no
  operator, assignments of different variables.\<close>

definition printable_env :: "(string, string) dict \<Rightarrow> bool" where
  "printable_env e \<longleftrightarrow> distinct (dict_keys e) \<and>
     (\<forall>(k, v) \<in> set e. k \<noteq> [] \<and> list_all is_word_char k \<and> v \<noteq> [] \<and> list_all (\<lambda>x. \<not> is_space x) v)"

definition printable_command :: "command \<Rightarrow> bool" where
  "printable_command c \<longleftrightarrow> env_var_match (name c) = None \<and> name c \<noteq> ''cd'' \<and>
     set (tl (argv c)) \<inter> set operators = {} \<and>
     (case env_vars c of None \<Rightarrow> True | Some e \<Rightarrow> printable_env e)"

fun printable_node :: "node \<Rightarrow> bool" where
  "printable_node (NCommand c) \<longleftrightarrow> printable_command c"
| "printable_node (NChdir d) \<longleftrightarrow> d \<noteq> Some ''&&''"
| "printable_node n \<longleftrightarrow> True"

lemma equals_not_word [simp]: "\<not> is_word_char (CHR ''='')"
  by (simp add: is_word_char_def)

lemma env_var_match_print:
  assumes "k \<noteq> []" and "list_all is_word_char k" and "v \<noteq> []" and "list_all (\<lambda>x. \<not> is_space x) v"
  shows "env_var_match (k @ ''='' @ v) = Some (k, v)"
proof -
  have tw: "takeWhile is_word_char (k @ ''='' @ v) = k" "dropWhile is_word_char (k @ ''='' @ v) = ''='' @ v"
    using assms(2) by (simp_all add: list_all_iff takeWhile_append2 dropWhile_append2)
  have "last v \<noteq> NL" using assms(3,4) by (metis NL_space last_in_set list_all_iff)
  then show ?thesis using assms unfolding env_var_match_def tw Let_def by simp
qed

lemma env_var_match_sound:
  assumes "env_var_match token = Some (k, v)"
  shows "k \<noteq> []" and "list_all is_word_char k" and "v \<noteq> []" and "list_all (\<lambda>x. \<not> is_space x) v"
  using assms by (auto simp: env_var_match_def Let_def list_all_iff dest: set_takeWhileD
      split: list.splits if_splits)

lemma printable_env_update:
  assumes "printable_env e" and "env_var_match token = Some (k, v)"
  shows "printable_env (AList.update k v e)"
proof -
  have "distinct (dict_keys (AList.update k v e))"
    using assms(1) by (auto simp: printable_env_def intro: distinct_update)
  moreover have "set (AList.update k v e) \<subseteq> insert (k, v) (set e)"
    by (induction e) auto
  ultimately show ?thesis
    using assms(1) env_var_match_sound [OF assms(2)] unfolding printable_env_def by blast
qed

text \<open>Parsing keeps everything printable.\<close>

definition parser_printable :: "parser \<Rightarrow> bool" where
  "parser_printable p \<longleftrightarrow> list_all printable_node (pipeline p) \<and> printable_env (env p) \<and>
     (case current_command p of
        Some (NCommand c) \<Rightarrow> argv c \<noteq> [] \<and> printable_command c
      | Some n \<Rightarrow> printable_node n
      | None \<Rightarrow> True)"

lemma commit_op_printable:
  assumes "commit_op op p = Inr q" and "parser_printable p" and "printable_node op"
  shows "parser_printable q"
  using assms by (auto simp: commit_op_def commit_command_def parser_printable_def
      split: option.splits node.splits)

lemma parse_begin_printable:
  assumes "parser_printable p" and "parse_begin token p = Inr q"
  shows "parser_printable q"
proof (cases "env_var_match token")
  case (Some kv)
  obtain k v where "kv = (k, v)" by (cases kv)
  with Some assms show ?thesis
    using printable_env_update [of "env p" token k v]
    by (auto simp: parse_begin_def parser_printable_def)
next
  case None
  with assms show ?thesis
    by (auto simp: parse_begin_def parser_printable_def printable_command_def new_command_def
        printable_env_def split: if_splits)
qed

lemma with_command_printable:
  assumes "parser_printable p" and "with_command p f = Inr q"
    and "\<And>c c'. f c = Inr c' \<Longrightarrow> argv c \<noteq> [] \<Longrightarrow> printable_command c \<Longrightarrow> argv c' \<noteq> [] \<and> printable_command c'"
  shows "parser_printable q"
proof -
  obtain c c' where "current_command p = Some (NCommand c)" "f c = Inr c'"
    "q = p\<lparr>current_command := Some (NCommand c')\<rparr>" using assms(2) by (rule with_command_cases)
  then show ?thesis using assms(1,3) by (auto simp: parser_printable_def)
qed

lemma parser_printable_state [simp]: "parser_printable (p\<lparr>state := st\<rparr>) \<longleftrightarrow> parser_printable p"
  by (simp add: parser_printable_def)

lemma redirect_printable:
  assumes "with_command p f = Inr q" and "parser_printable p"
    and "\<And>c c'. f c = Inr c' \<Longrightarrow> name c' = name c \<and> argv c' = argv c \<and> env_vars c' = env_vars c"
  shows "parser_printable q"
  by (rule with_command_printable [OF assms(2,1)]) (simp add: assms(3) printable_command_def)

lemma parse_redirect_printable:
  assumes "parse_redirect f p = Inr q" and "parser_printable p"
    and "\<And>c c'. f c = Inr c' \<Longrightarrow> name c' = name c \<and> argv c' = argv c \<and> env_vars c' = env_vars c"
  shows "parser_printable q"
  using assms(1) redirect_printable [OF _ assms(2,3)] by (auto simp: parse_redirect_def res_simps)

lemma parse_chdir_printable:
  assumes "parser_printable p" and "parse_chdir token p = Inr q"
  shows "parser_printable q"
proof (cases "token = ''&&''")
  case True
  with assms show ?thesis using commit_op_printable [of NAnd p q] by (simp add: parse_chdir_def)
next
  case False
  with assms(2) obtain d where "current_command p = Some (NChdir d)"
    "q = p\<lparr>current_command := Some (NChdir (Some token))\<rparr>"
    by (auto simp: parse_chdir_def res_simps split: option.splits node.splits)
  with False assms(1) show ?thesis by (simp add: parser_printable_def)
qed

lemma parse_command_printable:
  assumes "parser_printable p" and "parse_command token p = Inr q"
  shows "parser_printable q"
proof -
  have arg: "parser_printable q'" if "with_command p (\<lambda>c. Inr (c\<lparr>argv := argv c @ [token]\<rparr>)) = Inr q'"
    "token \<notin> set operators" for q'
    by (rule with_command_printable [OF assms(1) that(1)]) (use that(2) in \<open>auto simp: printable_command_def\<close>)
  consider "token \<in> {''>'', ''2>'', ''<''}" | "token = ''2>&1''" | "token = ''|''" | "token \<in> {''&&'', ''||''}"
    | "token \<notin> set operators" by (auto simp: operators_def)
  then show ?thesis
  proof cases
    case 1
    with assms show ?thesis by (auto simp: parse_command_def)
  next
    case 2
    with assms(2) have "with_command p (\<lambda>c. assert_unset (stderr c) (c\<lparr>stderr := Some RStdout\<rparr>)) = Inr q"
      by (simp add: parse_command_def)
    then show ?thesis using assms(1) by (rule redirect_printable) simp
  next
    case 3
    with assms(2) obtain q' where q': "with_command p (\<lambda>c. assert_unset (stdout c) (c\<lparr>stdout := Some RPipe\<rparr>)) = Inr q'"
      "commit_op NPipe q' = Inr q" by (auto simp: parse_command_def res_simps)
    have "parser_printable q'" using q'(1) assms(1) by (rule redirect_printable) simp
    with q'(2) show ?thesis by (rule commit_op_printable) simp
  next
    case 4
    with assms show ?thesis by (auto simp: parse_command_def intro: commit_op_printable)
  next
    case 5
    with assms(2) show ?thesis by (intro arg) (auto simp: parse_command_def operators_def)
  qed
qed

lemma parse_step_printable:
  assumes "parser_printable p" and "parse_step token p = Inr q"
  shows "parser_printable q"
proof -
  show ?thesis
    using assms parse_begin_printable [OF assms(1)] parse_command_printable [OF assms(1)]
      parse_chdir_printable [OF assms(1)]
    by (cases "state p") (auto simp: parse_step_def elim!: parse_redirect_printable)
qed

lemma parse_printable:
  assumes "parse tokens = Inr pl"
  shows "list_all printable_node pl"
proof -
  from assms obtain p q where p: "for_each parse_step tokens parser_init = Inr p"
    and q: "commit_command p = Inr q" "pl = pipeline q"
    by (auto simp: parse_def res_simps)
  have "parser_printable p"
  proof (rule for_each_inv [OF p])
    show "parser_printable parser_init" by (simp add: parser_init_def parser_printable_def printable_env_def)
  qed (rule parse_step_printable)
  with q show ?thesis
    by (auto simp: parser_printable_def commit_command_def split: option.splits node.splits)
qed

text \<open>Reading back the printed pieces of a command.\<close>

lemma parse_env_back:
  assumes "state p = BEGIN" and "distinct (dict_keys (env p @ e))"
    and "\<forall>(k, v) \<in> set e. k \<noteq> [] \<and> list_all is_word_char k \<and> v \<noteq> [] \<and> list_all (\<lambda>x. \<not> is_space x) v"
  shows "for_each parse_step (unparse_env e) p = Inr (p\<lparr>env := env p @ e\<rparr>)"
  using assms
proof (induction e arbitrary: p)
  case (Cons kv e)
  obtain k v where kv: "kv = (k, v)" by (cases kv)
  have new: "AList.update k v (env p) = env p @ [(k, v)]"
    using Cons.prems(2) by (intro update_new_key) (simp add: kv)
  have "env_var_match (k @ ''='' @ v) = Some (k, v)"
    using Cons.prems(3) by (intro env_var_match_print) (auto simp: kv)
  then have "parse_step (k @ ''='' @ v) p = Inr (p\<lparr>env := env p @ [(k, v)]\<rparr>)"
    using Cons.prems(1) by (simp add: parse_step_def parse_begin_def new)
  with Cons.IH [of "p\<lparr>env := env p @ [(k, v)]\<rparr>"] Cons.prems show ?case
    by (simp add: unparse_env_def kv)
qed (simp add: unparse_env_def)

lemma parse_args_back:
  assumes "state p = COMMAND" and "current_command p = Some (NCommand c)" and "set args \<inter> set operators = {}"
  shows "for_each parse_step args p = Inr (p\<lparr>current_command := Some (NCommand (c\<lparr>argv := argv c @ args\<rparr>))\<rparr>)"
  using assms
proof (induction args arbitrary: p c)
  case (Cons a args)
  have "parse_step a p = Inr (p\<lparr>current_command := Some (NCommand (c\<lparr>argv := argv c @ [a]\<rparr>))\<rparr>)"
    using Cons.prems by (auto simp: parse_step_def parse_command_def with_command_def operators_def)
  with Cons show ?case by simp
qed simp

lemma parse_redirects_back:
  assumes "state p = COMMAND" and "current_command p = Some (NCommand d)"
    and "stdin d = None" and "stdout d = None" and "stderr d = None" and "command_ok c"
  shows "for_each parse_step (unparse_redirects c) p = Inr (p\<lparr>current_command :=
     Some (NCommand (d\<lparr>stdin := stdin c, stdout := (if piped_out c then None else stdout c), stderr := stderr c\<rparr>))\<rparr>)"
proof -
  have i: "stdin c = None \<or> (\<exists>f. stdin c = Some (RFile f))"
    using assms(6) by (cases "stdin c"; cases "the (stdin c)") (auto simp: command_ok_def)
  have o: "stdout c = None \<or> stdout c = Some RPipe \<or> (\<exists>f. stdout c = Some (RFile f))"
    using assms(6) by (cases "stdout c"; cases "the (stdout c)") (auto simp: command_ok_def)
  have e: "stderr c = None \<or> stderr c = Some RStdout \<or> (\<exists>f. stderr c = Some (RFile f))"
    using assms(6) by (cases "stderr c"; cases "the (stderr c)") (auto simp: command_ok_def)
  note unf = unparse_redirects_def parse_step_def parse_command_def parse_redirect_def with_command_def
    assert_unset_def piped_out_def
  have 1: "for_each parse_step (case stdin c of Some (RFile f) \<Rightarrow> [''<'', f] | _ \<Rightarrow> []) p
      = Inr (p\<lparr>current_command := Some (NCommand (d\<lparr>stdin := stdin c\<rparr>))\<rparr>)"
    using i assms(1-5) by (auto simp: unf)
  have 2: "for_each parse_step (case stdout c of Some (RFile f) \<Rightarrow> [''>'', f] | _ \<Rightarrow> [])
      (p\<lparr>current_command := Some (NCommand (d\<lparr>stdin := stdin c\<rparr>))\<rparr>)
      = Inr (p\<lparr>current_command := Some (NCommand (d\<lparr>stdin := stdin c, stdout := (if piped_out c then None else stdout c)\<rparr>))\<rparr>)"
    using o assms(1-5) by (auto simp: unf)
  have 3: "for_each parse_step
      (case stderr c of Some (RFile f) \<Rightarrow> [''2>'', f] | Some RStdout \<Rightarrow> [''2>&1''] | _ \<Rightarrow> [])
      (p\<lparr>current_command := Some (NCommand (d\<lparr>stdin := stdin c, stdout := x\<rparr>))\<rparr>)
      = Inr (p\<lparr>current_command := Some (NCommand (d\<lparr>stdin := stdin c, stdout := x, stderr := stderr c\<rparr>))\<rparr>)" for x
    using e assms(1-5) by (auto simp: unf)
  show ?thesis
    unfolding unparse_redirects_def for_each_append 1 2 3 res_bind.simps ..
qed

definition unpiped :: "command \<Rightarrow> command" where
  "unpiped c = (if piped_out c then c\<lparr>stdout := None\<rparr> else c)"

lemma parse_command_back:
  assumes "state p = BEGIN" and "current_command p = None" and "env p = []"
    and "command_ok c" and "printable_command c"
  shows "for_each parse_step (unparse_command c) p
     = Inr (p\<lparr>state := COMMAND, current_command := Some (NCommand (unpiped c))\<rparr>)"
proof -
  let ?e = "case env_vars c of None \<Rightarrow> [] | Some e \<Rightarrow> e"
  have 1: "for_each parse_step (case env_vars c of None \<Rightarrow> [] | Some e \<Rightarrow> unparse_env e) p = Inr (p\<lparr>env := ?e\<rparr>)"
    using parse_env_back [of p ?e] assms
    by (cases "env_vars c") (auto simp: printable_command_def printable_env_def)
  obtain args where av: "argv c = name c # args"
    using assms(4) by (cases "argv c") (auto simp: command_ok_def)
  let ?n = "(new_command (name c))\<lparr>env_vars := env_vars c\<rparr>"
  have 2: "parse_step (name c) (p\<lparr>env := ?e\<rparr>) = Inr (p\<lparr>state := COMMAND, current_command := Some (NCommand ?n)\<rparr>)"
    using assms by (cases "env_vars c")
      (auto simp: parse_step_def parse_begin_def printable_command_def command_ok_def new_command_def)
  have 3: "for_each parse_step args (p\<lparr>state := COMMAND, current_command := Some (NCommand ?n)\<rparr>)
      = Inr (p\<lparr>state := COMMAND, current_command := Some (NCommand (?n\<lparr>argv := argv c\<rparr>))\<rparr>)"
    using parse_args_back [of "p\<lparr>state := COMMAND, current_command := Some (NCommand ?n)\<rparr>" ?n args] assms(5) av
    by (simp add: printable_command_def new_command_def)
  have 4: "for_each parse_step (unparse_redirects c)
      (p\<lparr>state := COMMAND, current_command := Some (NCommand (?n\<lparr>argv := argv c\<rparr>))\<rparr>)
      = Inr (p\<lparr>state := COMMAND, current_command := Some (NCommand (unpiped c))\<rparr>)"
    using parse_redirects_back [OF _ _ _ _ _ assms(4),
        of "p\<lparr>state := COMMAND, current_command := Some (NCommand (?n\<lparr>argv := argv c\<rparr>))\<rparr>" "?n\<lparr>argv := argv c\<rparr>"]
    by (simp add: new_command_def unpiped_def)
  show ?thesis
    unfolding unparse_command_def for_each_append 1 res_bind.simps av for_each.simps 2 3 4 by (simp add: 4 flip: av)
qed

definition parser_at :: "node list \<Rightarrow> parser" where
  "parser_at done_nodes = parser_init\<lparr>pipeline := done_nodes\<rparr>"

lemma parse_node_op_back:
  assumes "wf_prefix [n, op]" and "printable_node n"
  shows "for_each parse_step (unparse_node n @ unparse_node op) (parser_at pre) = Inr (parser_at (pre @ [n, op]))"
proof (cases n)
  case (NCommand c)
  have cmd: "command_ok c" "printable_command c" using assms NCommand by auto
  note bk = parse_command_back [of "parser_at pre" c, OF _ _ _ cmd]
  consider "op = NPipe" "piped_out c" | "op = NAnd \<or> op = NOr" "\<not> piped_out c" using assms NCommand by auto
  then show ?thesis
    using bk NCommand
    by cases (auto simp: for_each_append parser_at_def parser_init_def parse_step_def parse_command_def with_command_def
        assert_unset_def commit_op_def commit_command_def unpiped_def piped_out_def)
next
  case (NChdir d)
  then show ?thesis
    using assms by (cases d) (auto simp: parser_at_def parser_init_def parse_step_def parse_begin_def parse_chdir_def
        env_var_match_def is_word_char_def assert_unset_def commit_op_def commit_command_def)
qed (use assms in auto)

lemma parse_last_back:
  assumes "wf_pipeline [n]" and "printable_node n"
  shows "\<exists>p. for_each parse_step (unparse_node n) (parser_at pre) = Inr p \<and>
     commit_command p = Inr (p\<lparr>pipeline := pre @ [n], current_command := None\<rparr>)"
proof (cases n)
  case (NCommand c)
  with assms have c: "command_ok c" "\<not> piped_out c" "printable_command c" by auto
  then show ?thesis
    using parse_command_back [of "parser_at pre" c] NCommand
    by (simp add: parser_at_def parser_init_def commit_command_def unpiped_def)
next
  case (NChdir d)
  then show ?thesis
    using assms by (cases d) (auto simp: parser_at_def parser_init_def parse_step_def parse_begin_def parse_chdir_def
        env_var_match_def is_word_char_def assert_unset_def commit_command_def)
qed (use assms in auto)

lemma parse_unparse_from:
  assumes "wf_pipeline pl" and "list_all printable_node pl"
  shows "res_bind (for_each parse_step (unparse pl) (parser_at pre)) (\<lambda>p.
     res_bind (commit_command p) (\<lambda>q. Inr (pipeline q))) = Inr (pre @ pl)"
  using assms
proof (induction pl arbitrary: pre rule: length_induct)
  case (1 pl)
  obtain n rest where pl: "pl = n # rest" using 1(2) by (cases pl) auto
  show ?case
  proof (cases rest)
    case Nil
    with 1 parse_last_back [of n pre] show ?thesis by (auto simp: pl unparse_def)
  next
    case (Cons op rest')
    have wf: "wf_prefix [n, op]" "wf_pipeline rest'" using 1(2) by (cases n; auto simp: pl Cons)+
    have "unparse pl = (unparse_node n @ unparse_node op) @ unparse rest'" by (simp add: pl Cons unparse_def)
    then have "for_each parse_step (unparse pl) (parser_at pre)
        = for_each parse_step (unparse rest') (parser_at (pre @ [n, op]))"
      using parse_node_op_back [OF wf(1), of pre] 1(3) pl by (simp only: for_each_append) simp
    then show ?thesis using 1(1) 1(3) wf(2) by (simp add: pl Cons)
  qed
qed

text \<open>C25. Printing and parsing again: whatever words \<^verbatim>\<open>parse\<close> accepted, writing its pipeline out
  (assignments, arguments, redirections and operators, in a fixed order) gives words from which
  \<^verbatim>\<open>parse\<close> rebuilds exactly the same pipeline.\<close>

theorem parse_unparse:
  assumes "parse tokens = Inr pl"
  shows "parse (unparse pl) = Inr pl"
  using parse_unparse_from [OF parse_wf [OF assms] parse_printable [OF assms], of "[]"]
  by (simp add: parse_def parser_at_def parser_init_def)

theorem parse_unparse_witness:
  "parse [''A=1'', ''foo'', ''<'', ''in'', ''x''] = Inr
     [NCommand \<lparr>name = ''foo'', argv = [''foo'', ''x''], stdin = Some (RFile ''in''), stdout = None,
        stderr = None, env_vars = Some [(''A'', ''1'')]\<rparr>]
   \<and> parse (unparse [NCommand \<lparr>name = ''foo'', argv = [''foo'', ''x''], stdin = Some (RFile ''in''), stdout = None,
        stderr = None, env_vars = Some [(''A'', ''1'')]\<rparr>]) = Inr
     [NCommand \<lparr>name = ''foo'', argv = [''foo'', ''x''], stdin = Some (RFile ''in''), stdout = None,
        stderr = None, env_vars = Some [(''A'', ''1'')]\<rparr>]"
proof -
  have 1: "parse [''A=1'', ''foo'', ''<'', ''in'', ''x''] = Inr
     [NCommand \<lparr>name = ''foo'', argv = [''foo'', ''x''], stdin = Some (RFile ''in''), stdout = None,
        stderr = None, env_vars = Some [(''A'', ''1'')]\<rparr>]"
    by code_simp
  with parse_unparse [OF 1] show ?thesis by simp
qed

end
