(* ===== verification/Shell_Run.thy ===== *)
theory Shell_Run
  imports Shell_Parse
begin

text \<open>
  Running a pipeline: \<^verbatim>\<open>Pipeline.run\<close> of \<^verbatim>\<open>waf-tools/shellcmd.py\<close>.  The operating system is a
  parameter: which of the successive \<^verbatim>\<open>open\<close> and \<^verbatim>\<open>Popen\<close> calls succeed, and the exit code of each
  process started.  What the code does to it is recorded as a trace of events.
\<close>

record world =
  can_open :: "nat \<Rightarrow> bool"
  can_spawn :: "nat \<Rightarrow> bool"
  exit_code :: "nat \<Rightarrow> int"

datatype handle = HDevNull | HFile nat | HPipe | HStdout | HOutput nat

record process =
  p_argv :: "string list"
  p_stdin :: "handle option"
  p_stdout :: "handle option"
  p_stderr :: "handle option"
  p_env :: "(string, string) dict option"
  p_cwd :: "string option"

datatype event =
    EOpen nat string bool
  | EClose nat
  | ESpawn nat process
  | EWait nat
  | EPrint string

record runner =
  files_to_close :: "handle list"
  piped_commands :: "nat list"
  display :: "string list"
  in_pipe :: bool
  cwd :: string
  next_file :: nat
  next_proc :: nat
  trace :: "event list"

definition runner_init :: runner where
  "runner_init = \<lparr>files_to_close = [], piped_commands = [], display = [], in_pipe = False,
     cwd = ''.'', next_file = 0, next_proc = 0, trace = []\<rparr>"

section \<open>The steps of a run\<close>

definition open_file :: "world \<Rightarrow> string \<Rightarrow> bool \<Rightarrow> (runner, handle) io" where
  "open_file w filename write = (\<lambda>s.
     if can_open w (next_file s)
     then (Inr (HFile (next_file s)),
           s\<lparr>next_file := next_file s + 1, trace := trace s @ [EOpen (next_file s) filename write]\<rparr>)
     else (Inl OSError, s\<lparr>next_file := next_file s + 1\<rparr>))"

definition open_out_file :: "world \<Rightarrow> string \<Rightarrow> (runner, handle) io" where
  "open_out_file w filename =
     (if filename = ''NUL:'' \<or> filename = ''/dev/null'' then io_return HDevNull
      else open_file w filename True)"

definition to_close :: "handle \<Rightarrow> (runner, unit) io" where
  "to_close h = io_modify (\<lambda>s. s\<lparr>files_to_close := files_to_close s @ [h]\<rparr>)"

definition show_if :: "bool \<Rightarrow> string \<Rightarrow> (runner, unit) io" where
  "show_if verbose text = io_modify (\<lambda>s. if verbose then s\<lparr>display := display s @ [text]\<rparr> else s)"

definition words_shown :: "command \<Rightarrow> string" where
  "words_shown cmd =
     (case env_vars cmd of
        Some (e # es) \<Rightarrow> py_join '' '' (map (\<lambda>(k, v). k @ ''='' @ v) (e # es)) @ '' '' @ py_join '' '' (argv cmd)
      | _ \<Rightarrow> py_join '' '' (argv cmd))"

text \<open>The three redirections.  A command behind a pipe reads from it, whatever its own input
  redirection says.\<close>

definition open_stdin :: "world \<Rightarrow> bool \<Rightarrow> command \<Rightarrow> (runner, handle option) io" where
  "open_stdin w verbose cmd = (\<lambda>s.
     if in_pipe s
     then (case piped_commands s of
             [] \<Rightarrow> (Inl IndexError, s)
           | _ \<Rightarrow> (Inr (Some (HOutput (last (piped_commands s)))), s))
     else case stdin cmd of
            None \<Rightarrow> (Inr None, s)
          | Some (RFile f) \<Rightarrow>
              io_bind (open_file w f False) (\<lambda>h.
              io_bind (show_if verbose (''< '' @ f)) (\<lambda>_.
              io_bind (to_close h) (\<lambda>_. io_return (Some h)))) s
          | Some _ \<Rightarrow> (Inl TypeError, s))"

definition open_stdout :: "world \<Rightarrow> bool \<Rightarrow> command \<Rightarrow> (runner, handle option) io" where
  "open_stdout w verbose cmd =
     (case stdout cmd of
        None \<Rightarrow> io_return None
      | Some RPipe \<Rightarrow> io_return (Some HPipe)
      | Some (RFile f) \<Rightarrow>
          io_bind (open_out_file w f) (\<lambda>h.
          io_bind (to_close h) (\<lambda>_.
          io_bind (show_if verbose (''> '' @ f)) (\<lambda>_. io_return (Some h))))
      | Some RStdout \<Rightarrow> io_raise TypeError)"

definition open_stderr :: "world \<Rightarrow> bool \<Rightarrow> command \<Rightarrow> (runner, handle option) io" where
  "open_stderr w verbose cmd =
     (case stderr cmd of
        None \<Rightarrow> io_return None
      | Some RPipe \<Rightarrow> io_return (Some HPipe)
      | Some RStdout \<Rightarrow> io_bind (show_if verbose ''2>&1'') (\<lambda>_. io_return (Some HStdout))
      | Some (RFile f) \<Rightarrow>
          io_bind (open_out_file w f) (\<lambda>h.
          io_bind (to_close h) (\<lambda>_.
          io_bind (show_if verbose (''2> '' @ f)) (\<lambda>_. io_return (Some h)))))"

definition popen :: "world \<Rightarrow> process \<Rightarrow> (runner, nat) io" where
  "popen w p = (\<lambda>s.
     if can_spawn w (next_proc s)
     then (Inr (next_proc s),
           s\<lparr>next_proc := next_proc s + 1, piped_commands := piped_commands s @ [next_proc s],
             trace := trace s @ [ESpawn (next_proc s) p]\<rparr>)
     else (Inl OSError, s\<lparr>next_proc := next_proc s + 1\<rparr>))"

definition start_command :: "world \<Rightarrow> bool \<Rightarrow> command \<Rightarrow> (runner, nat) io" where
  "start_command w verbose cmd =
     io_bind (show_if verbose (words_shown cmd)) (\<lambda>_.
     io_bind (open_stdin w verbose cmd) (\<lambda>i.
     io_bind (open_stdout w verbose cmd) (\<lambda>ou.
     io_bind (open_stderr w verbose cmd) (\<lambda>e. (\<lambda>s.
       popen w \<lparr>p_argv = argv cmd, p_stdin = i, p_stdout = ou, p_stderr = e,
                p_env = (if env_vars cmd = Some [] then None else env_vars cmd),
                p_cwd = (if cwd s = ''.'' then None else Some (cwd s))\<rparr> s)))))"

text \<open>\<^verbatim>\<open>_exec_piped_commands\<close> waits for every process; when one failed, the code of the last counts.\<close>

definition pipe_status :: "int list \<Rightarrow> int" where
  "pipe_status retvals = (if \<exists>r \<in> set retvals. r \<noteq> 0 then last retvals else 0)"

definition exec_piped_commands :: "world \<Rightarrow> (runner, int) io" where
  "exec_piped_commands w = (\<lambda>s.
     (Inr (pipe_status (map (exit_code w) (piped_commands s))),
      s\<lparr>trace := trace s @ map EWait (piped_commands s)\<rparr>))"

text \<open>Every file is closed, but not the shared handle on \<^verbatim>\<open>/dev/null\<close>.\<close>

definition file_ids :: "handle list \<Rightarrow> nat list" where
  "file_ids hs = concat (map (\<lambda>h. case h of HFile n \<Rightarrow> [n] | _ \<Rightarrow> []) hs)"

definition close_files :: "(runner, unit) io" where
  "close_files = io_modify (\<lambda>s.
     s\<lparr>files_to_close := [], trace := trace s @ map EClose (file_ids (files_to_close s))\<rparr>)"

definition print_if :: "bool \<Rightarrow> string \<Rightarrow> (runner, unit) io" where
  "print_if verbose text = io_modify (\<lambda>s. if verbose then s\<lparr>trace := trace s @ [EPrint text]\<rparr> else s)"

definition show_status :: "runner \<Rightarrow> int \<Rightarrow> string" where
  "show_status s c = py_join '' '' (display s) @ '': exit code '' @ show_int c"

text \<open>The end of a pipeline in front of \<^verbatim>\<open>&&\<close> or \<^verbatim>\<open>||\<close>.  In verbose mode the message refers to
  \<^verbatim>\<open>retval\<close>, which is only bound at the end of the line.\<close>

definition new_segment :: "(runner, unit) io" where
  "new_segment = io_modify (\<lambda>s. s\<lparr>in_pipe := False, piped_commands := [], display := []\<rparr>)"

definition finish_segment :: "world \<Rightarrow> bool \<Rightarrow> (runner, int) io" where
  "finish_segment w verbose =
     io_bind (exec_piped_commands w) (\<lambda>c.
     io_bind close_files (\<lambda>_.
       if verbose then io_raise UnboundLocalError else io_return c))"

definition finish_line :: "world \<Rightarrow> bool \<Rightarrow> (runner, int) io" where
  "finish_line w verbose =
     io_bind (exec_piped_commands w) (\<lambda>c.
     io_bind (\<lambda>s. print_if verbose (show_status s c) s) (\<lambda>_.
     io_bind close_files (\<lambda>_. io_return c)))"

definition change_dir :: "bool \<Rightarrow> string \<Rightarrow> (runner, unit) io" where
  "change_dir verbose d = (\<lambda>s.
     show_if verbose (''cd '' @ d @ '' &&'') (s\<lparr>cwd := path_join (cwd s) d\<rparr>))"

fun run_loop :: "world \<Rightarrow> bool \<Rightarrow> node list \<Rightarrow> (runner, int option) io" where
  "run_loop w verbose [] = io_return None"
| "run_loop w verbose [NChdir d] = io_raise IndexError"
| "run_loop w verbose (NChdir d # next_op # rest) =
     (if next_op = NAnd
      then case d of
             None \<Rightarrow> io_raise TypeError
           | Some dir \<Rightarrow> io_bind (change_dir verbose dir) (\<lambda>_. run_loop w verbose rest)
      else io_raise AssertionError)"
| "run_loop w verbose [NCommand cmd] =
     io_bind (start_command w verbose cmd) (\<lambda>_.
     io_bind (finish_line w verbose) (\<lambda>c. io_return (Some c)))"
| "run_loop w verbose (NCommand cmd # next_node # rest) =
     io_bind (start_command w verbose cmd) (\<lambda>_.
       case next_node of
         NPipe \<Rightarrow>
           io_bind (io_modify (\<lambda>s. s\<lparr>in_pipe := True, display := display s @ [''|'']\<rparr>)) (\<lambda>_.
             run_loop w verbose rest)
       | NOr \<Rightarrow>
           io_bind (finish_segment w verbose) (\<lambda>c.
             if c = 0 then io_return (Some c)
             else io_bind new_segment (\<lambda>_. run_loop w verbose rest))
       | NAnd \<Rightarrow>
           io_bind (finish_segment w verbose) (\<lambda>c.
             if c \<noteq> 0 then io_return (Some c)
             else io_bind new_segment (\<lambda>_. run_loop w verbose rest))
       | _ \<Rightarrow> run_loop w verbose rest)"
| "run_loop w verbose (_ # rest) = io_raise AssertionError"

definition run :: "world \<Rightarrow> bool \<Rightarrow> node list \<Rightarrow> int option result \<times> runner" where
  "run w verbose pl = run_loop w verbose pl runner_init"

lemma run_trailing_cd: "run w verbose [NChdir d] = (Inl IndexError, runner_init)"
  by (simp add: run_def)

section \<open>Nothing is left open\<close>

definition opened :: "event list \<Rightarrow> nat list" where
  "opened t = concat (map (\<lambda>e. case e of EOpen n _ _ \<Rightarrow> [n] | _ \<Rightarrow> []) t)"

definition closed :: "event list \<Rightarrow> nat list" where
  "closed t = concat (map (\<lambda>e. case e of EClose n \<Rightarrow> [n] | _ \<Rightarrow> []) t)"

definition spawned :: "event list \<Rightarrow> nat list" where
  "spawned t = concat (map (\<lambda>e. case e of ESpawn n _ \<Rightarrow> [n] | _ \<Rightarrow> []) t)"

definition waited :: "event list \<Rightarrow> nat list" where
  "waited t = concat (map (\<lambda>e. case e of EWait n \<Rightarrow> [n] | _ \<Rightarrow> []) t)"

lemma trace_append [simp]:
  "opened (s @ t) = opened s @ opened t" "closed (s @ t) = closed s @ closed t"
  "spawned (s @ t) = spawned s @ spawned t" "waited (s @ t) = waited s @ waited t"
  by (simp_all add: opened_def closed_def spawned_def waited_def)

lemma trace_Cons [simp]:
  "opened (e # t) = (case e of EOpen n _ _ \<Rightarrow> [n] | _ \<Rightarrow> []) @ opened t"
  "closed (e # t) = (case e of EClose n \<Rightarrow> [n] | _ \<Rightarrow> []) @ closed t"
  "spawned (e # t) = (case e of ESpawn n _ \<Rightarrow> [n] | _ \<Rightarrow> []) @ spawned t"
  "waited (e # t) = (case e of EWait n \<Rightarrow> [n] | _ \<Rightarrow> []) @ waited t"
  by (simp_all add: opened_def closed_def spawned_def waited_def)

lemma trace_Nil [simp]: "opened [] = []" "closed [] = []" "spawned [] = []" "waited [] = []"
  by (simp_all add: opened_def closed_def spawned_def waited_def)

lemma trace_waits [simp]:
  "opened (map EWait ns) = []" "closed (map EWait ns) = []"
  "spawned (map EWait ns) = []" "waited (map EWait ns) = ns"
  by (induction ns) (simp_all add: opened_def closed_def spawned_def waited_def)

lemma trace_closes [simp]:
  "opened (map EClose ns) = []" "closed (map EClose ns) = ns"
  "spawned (map EClose ns) = []" "waited (map EClose ns) = []"
  by (induction ns) (simp_all add: opened_def closed_def spawned_def waited_def)

text \<open>The books of a run: every file opened has been closed or waits to be, every process started
  has been waited for or belongs to the pipeline being built.\<close>

definition books_ok :: "runner \<Rightarrow> bool" where
  "books_ok s \<longleftrightarrow>
     opened (trace s) = closed (trace s) @ file_ids (files_to_close s) \<and>
     spawned (trace s) = waited (trace s) @ piped_commands s"

lemma file_ids_append [simp]: "file_ids (hs @ ks) = file_ids hs @ file_ids ks"
  by (simp add: file_ids_def)

lemma file_ids_single [simp]: "file_ids [h] = (case h of HFile n \<Rightarrow> [n] | _ \<Rightarrow> [])"
  by (simp add: file_ids_def)

lemma file_ids_Nil [simp]: "file_ids [] = []"
  by (simp add: file_ids_def)

lemmas step_defs = open_file_def open_out_file_def to_close_def show_if_def io_bind_def io_return_def
  io_raise_def io_modify_def

lemma show_if_books: "show_if v text s = (r, t) \<Longrightarrow> books_ok s \<Longrightarrow> books_ok t"
  by (auto simp: show_if_def io_modify_def books_ok_def)

lemma open_stdin_books: "open_stdin w v cmd s = (r, t) \<Longrightarrow> books_ok s \<Longrightarrow> books_ok t"
  by (auto simp: open_stdin_def step_defs books_ok_def
      split: if_splits option.splits redirect.splits list.splits)

lemma open_stdout_books: "open_stdout w v cmd s = (r, t) \<Longrightarrow> books_ok s \<Longrightarrow> books_ok t"
  by (auto simp: open_stdout_def step_defs books_ok_def split: if_splits option.splits redirect.splits)

lemma open_stderr_books: "open_stderr w v cmd s = (r, t) \<Longrightarrow> books_ok s \<Longrightarrow> books_ok t"
  by (auto simp: open_stderr_def step_defs books_ok_def split: if_splits option.splits redirect.splits)

lemma popen_books: "popen w p s = (r, t) \<Longrightarrow> books_ok s \<Longrightarrow> books_ok t"
  by (auto simp: popen_def books_ok_def split: if_splits)

lemma start_command_books:
  assumes "start_command w v cmd s = (r, t)" and "books_ok s"
  shows "books_ok t"
  using assms unfolding start_command_def
  by (elim io_bind_inv) (blast intro: show_if_books open_stdin_books open_stdout_books open_stderr_books popen_books
      elim!: io_bind_inv)+

text \<open>After the processes of a segment have been waited for, nothing is outstanding.\<close>

definition settled :: "runner \<Rightarrow> bool" where
  "settled s \<longleftrightarrow> opened (trace s) = closed (trace s) \<and> spawned (trace s) = waited (trace s) \<and> files_to_close s = []"

lemma finish_segment_settled:
  assumes "finish_segment w v s = (r, t)" and "books_ok s"
  shows "settled t" and "r = (if v then Inl UnboundLocalError else Inr (pipe_status (map (exit_code w) (piped_commands s))))"
  using assms by (auto simp: finish_segment_def exec_piped_commands_def close_files_def step_defs books_ok_def settled_def
      split: if_splits)

lemma finish_line_settled:
  assumes "finish_line w v s = (r, t)" and "books_ok s"
  shows "settled t" and "r = Inr (pipe_status (map (exit_code w) (piped_commands s)))"
  using assms by (auto simp: finish_line_def exec_piped_commands_def close_files_def print_if_def step_defs books_ok_def
      settled_def split: if_splits)

lemma new_segment_books: "new_segment s = (r, t) \<Longrightarrow> settled s \<Longrightarrow> books_ok t"
  by (auto simp: new_segment_def io_modify_def books_ok_def settled_def)

text \<open>An operation leaves the books in order, whatever its outcome.\<close>

definition keeps_books :: "(runner, 'a) io \<Rightarrow> bool" where
  "keeps_books m \<longleftrightarrow> (\<forall>s r t. m s = (r, t) \<longrightarrow> books_ok s \<longrightarrow> books_ok t)"

text \<open>When a line returns a value its last segment has been settled, and so has the one in front of
  an operator that fails in verbose mode.\<close>

lemma settled_books: "settled s \<Longrightarrow> books_ok (s\<lparr>piped_commands := []\<rparr>)"
  by (simp add: settled_def books_ok_def)

definition outcome_settled :: "int option result \<Rightarrow> runner \<Rightarrow> bool" where
  "outcome_settled r t \<longleftrightarrow>
     (case r of Inr (Some _) \<Rightarrow> True | Inl e \<Rightarrow> e = UnboundLocalError | Inr None \<Rightarrow> False) \<longrightarrow> settled t"

lemma start_command_no_unbound:
  assumes "start_command w v cmd s = (Inl e, t)"
  shows "e \<noteq> UnboundLocalError"
proof -
  have "\<not> open_stdin w v cmd s = (Inl UnboundLocalError, t)" for s t
    by (auto simp: open_stdin_def step_defs split: if_splits option.splits redirect.splits list.splits)
  moreover have "\<not> open_stdout w v cmd s = (Inl UnboundLocalError, t)" for s t
    by (auto simp: open_stdout_def step_defs split: if_splits option.splits redirect.splits)
  moreover have "\<not> open_stderr w v cmd s = (Inl UnboundLocalError, t)" for s t
    by (auto simp: open_stderr_def step_defs split: if_splits option.splits redirect.splits)
  moreover have "\<not> popen w p s = (Inl UnboundLocalError, t)" for p s t
    by (simp add: popen_def)
  moreover have "\<not> show_if v x s = (Inl UnboundLocalError, t)" for x s t
    by (simp add: show_if_def)
  ultimately show ?thesis using assms by (auto simp: start_command_def io_bind_Inl)
qed

lemma change_dir_run:
  "\<exists>s'. change_dir v d s = (Inr (), s') \<and> (books_ok s \<longrightarrow> books_ok s')
     \<and> s' = s\<lparr>cwd := path_join (cwd s) d, display := display s'\<rparr>"
  by (auto simp: change_dir_def show_if_def books_ok_def)

lemma run_loop_settled:
  "run_loop w v pl s = (r, t) \<Longrightarrow> books_ok s \<Longrightarrow> outcome_settled r t"
proof (induction w v pl arbitrary: s r t rule: run_loop.induct)
  case (3 w v d next_op rest)
  show ?case
  proof (cases d)
    case (Some dir)
    obtain s' where "change_dir v dir s = (Inr (), s')" "books_ok s'"
      using change_dir_run [of v dir s] 3(3) by blast
    with 3 Some show ?thesis by (auto simp: outcome_settled_def split: if_splits)
  qed (use 3 in \<open>auto simp: outcome_settled_def split: if_splits\<close>)
next
  case (4 w v cmd)
  obtain x s1 where st: "start_command w v cmd s = (x, s1)" by fastforce
  note b1 = start_command_books [OF st 4(2)]
  obtain y s2 where fi: "finish_line w v s1 = (y, s2)" by fastforce
  note f = finish_line_settled [OF fi b1]
  show ?case
    using 4(1) st fi f start_command_no_unbound [of w v cmd s _ s1]
    by (cases x) (auto simp: outcome_settled_def)
next
  case (5 w v cmd next_node rest)
  obtain x s1 where st: "start_command w v cmd s = (x, s1)" by fastforce
  note b1 = start_command_books [OF st 5(7)]
  show ?case
  proof (cases x)
    case (Inl e)
    then show ?thesis
      using 5(6) st start_command_no_unbound [of w v cmd s e s1] by (auto simp: outcome_settled_def)
  next
    case (Inr p)
    obtain y s2 where fi: "finish_segment w v s1 = (y, s2)" by fastforce
    note f = finish_segment_settled [OF fi b1]
    obtain s3 where ns: "new_segment s2 = (Inr (), s3)" by (simp add: new_segment_def)
    note b3 = new_segment_books [OF ns f(1)]
    have pipe: "books_ok (s1\<lparr>in_pipe := True, display := display s1 @ [''|'']\<rparr>)"
      using b1 by (simp add: books_ok_def)
    show ?thesis
      using 5 st Inr fi f ns b1 b3 pipe
      by (cases next_node) (auto simp: outcome_settled_def split: if_splits)
  qed
qed (auto simp: outcome_settled_def io_return_def io_raise_def)

lemma runner_init_books: "books_ok runner_init"
  by (simp add: books_ok_def runner_init_def)

text \<open>C19. No leaks on the normal path: when \<^verbatim>\<open>run\<close> returns an exit code, whatever the pipeline and
  whatever the processes return, every file it opened has been closed, in the same order and once,
  and every process it started has been waited for; the same holds when it fails in verbose mode.\<close>

theorem run_settles:
  assumes "run w verbose pl = (r, t)" and "r = Inr (Some c) \<or> r = Inl UnboundLocalError"
  shows "opened (trace t) = closed (trace t) \<and> spawned (trace t) = waited (trace t)"
  using run_loop_settled [OF assms(1) [unfolded run_def] runner_init_books] assms(2)
  by (auto simp: outcome_settled_def settled_def)

definition calm_world :: world where
  "calm_world = \<lparr>can_open = (\<lambda>_. True), can_spawn = (\<lambda>_. True), exit_code = (\<lambda>_. 0)\<rparr>"

definition demo_line :: "node list" where
  "demo_line = [NCommand ((new_command ''a'')\<lparr>stdin := Some (RFile ''x''), stdout := Some RPipe\<rparr>), NPipe,
     NCommand ((new_command ''b'')\<lparr>stdout := Some (RFile ''y'')\<rparr>), NAnd, NCommand (new_command ''c'')]"

theorem run_settles_witness:
  "\<exists>r t. run calm_world False demo_line = (r, t) \<and> r = Inr (Some 0) \<and> opened (trace t) = [0, 1]
     \<and> opened (trace t) = closed (trace t) \<and> spawned (trace t) = waited (trace t)"
proof -
  obtain r t where rt: "run calm_world False demo_line = (r, t)" by fastforce
  have "fst (run calm_world False demo_line) = Inr (Some 0)"
    "opened (trace (snd (run calm_world False demo_line))) = [0, 1]" by code_simp+
  with rt have "r = Inr (Some 0)" "opened (trace t) = [0, 1]" by simp_all
  moreover from this have "opened (trace t) = closed (trace t) \<and> spawned (trace t) = waited (trace t)"
    using run_settles [OF rt] by blast
  ultimately show ?thesis using rt by blast
qed

text \<open>When a command cannot be started the files opened for it stay open.\<close>

lemma run_leaks_on_failed_spawn:
  "case run (calm_world\<lparr>can_spawn := (\<lambda>_. False)\<rparr>) False
     [NCommand ((new_command ''a'')\<lparr>stdin := Some (RFile ''x'')\<rparr>)] of
     (r, t) \<Rightarrow> r = Inl OSError \<and> opened (trace t) = [0] \<and> closed (trace t) = []"
  by code_simp

section \<open>The exit code of a line\<close>

text \<open>
  A line is a list of segments, each with the number of commands it pipes together and the operator
  that follows.  \<open>chain\<close> is the value of the line given the status of each segment.
\<close>

fun segments :: "node list \<Rightarrow> (nat \<times> node option) list" where
  "segments (NChdir d # op # rest) = segments rest"
| "segments [NCommand c] = [(1, None)]"
| "segments (NCommand c # op # rest) =
     (if op = NPipe
      then case segments rest of [] \<Rightarrow> [] | (k, o') # others \<Rightarrow> (Suc k, o') # others
      else (1, Some op) # segments rest)"
| "segments _ = []"

fun statuses :: "(nat \<Rightarrow> int) \<Rightarrow> nat \<Rightarrow> (nat \<times> node option) list \<Rightarrow> (int \<times> node option) list" where
  "statuses f n [] = []"
| "statuses f n ((k, op) # others) = (pipe_status (map f [n..<n + k]), op) # statuses f (n + k) others"

fun chain :: "(int \<times> node option) list \<Rightarrow> int" where
  "chain ((c, Some op) # others) =
     (if op = NAnd \<and> c \<noteq> 0 \<or> op = NOr \<and> c = 0 then c else chain others)"
| "chain [(c, None)] = c"
| "chain _ = 0"

text \<open>Lines that can be run: well-formed, ending in a command, every \<^verbatim>\<open>cd\<close> with a directory.\<close>

definition runnable :: "node list \<Rightarrow> bool" where
  "runnable pl \<longleftrightarrow> wf_pipeline pl \<and> (case last pl of NCommand _ \<Rightarrow> True | _ \<Rightarrow> False) \<and> NChdir None \<notin> set pl"

definition willing :: "world \<Rightarrow> bool" where
  "willing w \<longleftrightarrow> (\<forall>n. can_open w n) \<and> (\<forall>n. can_spawn w n)"

text \<open>The runner between two commands: \<open>n\<close> processes so far, of which those from \<open>m\<close> on belong to the
  segment being built.\<close>

definition between :: "runner \<Rightarrow> nat \<Rightarrow> nat \<Rightarrow> bool" where
  "between s m n \<longleftrightarrow> piped_commands s = [m..<n] \<and> next_proc s = n \<and> m \<le> n \<and> (in_pipe s \<longleftrightarrow> m < n)"

lemma open_out_file_runs:
  assumes "\<forall>n. can_open w n"
  shows "\<exists>h s'. open_out_file w f s = (Inr h, s') \<and> piped_commands s' = piped_commands s
     \<and> next_proc s' = next_proc s \<and> in_pipe s' = in_pipe s"
  using assms by (auto simp: open_out_file_def open_file_def)

lemma start_command_runs:
  assumes "willing w" and "command_ok cmd" and "between s m n"
  shows "\<exists>k s'. start_command w v cmd s = (Inr k, s') \<and> piped_commands s' = [m..<Suc n]
     \<and> next_proc s' = Suc n \<and> in_pipe s' = in_pipe s"
proof -
  define s0 where "s0 = (if v then s\<lparr>display := display s @ [words_shown cmd]\<rparr> else s)"
  have s0: "show_if v (words_shown cmd) s = (Inr (), s0)" "between s0 m n" "in_pipe s0 = in_pipe s"
    using assms(3) by (simp_all add: s0_def show_if_def between_def)
  let ?same = "\<lambda>a b. piped_commands b = piped_commands a \<and> next_proc b = next_proc a \<and> in_pipe b = in_pipe a"
  have "\<exists>i s1. open_stdin w v cmd s0 = (Inr i, s1) \<and> ?same s0 s1"
    using assms(1,2) s0(2)
    by (auto simp: open_stdin_def open_file_def to_close_def show_if_def willing_def command_ok_def between_def
        split: option.splits redirect.splits list.splits)
  then obtain i s1 where s1: "open_stdin w v cmd s0 = (Inr i, s1)" "?same s0 s1" by blast
  have "\<exists>ou s2. open_stdout w v cmd s1 = (Inr ou, s2) \<and> ?same s1 s2"
    using assms(1,2)
    by (auto simp: open_stdout_def open_out_file_def open_file_def to_close_def show_if_def willing_def command_ok_def
        split: option.splits redirect.splits)
  then obtain ou s2 where s2: "open_stdout w v cmd s1 = (Inr ou, s2)" "?same s1 s2" by blast
  have "\<exists>e s3. open_stderr w v cmd s2 = (Inr e, s3) \<and> ?same s2 s3"
    using assms(1,2)
    by (auto simp: open_stderr_def open_out_file_def open_file_def to_close_def show_if_def willing_def command_ok_def
        split: option.splits redirect.splits)
  then obtain e s3 where s3: "open_stderr w v cmd s2 = (Inr e, s3)" "?same s2 s3" by blast
  have "next_proc s3 = n" "piped_commands s3 = [m..<n]" "in_pipe s3 = in_pipe s"
    using s0 s1(2) s2(2) s3(2) by (simp_all add: between_def)
  then show ?thesis
    using assms(1,3) s0(1) s1(1) s2(1) s3(1)
    by (simp add: start_command_def popen_def willing_def between_def)
qed

lemma finish_line_runs:
  "\<exists>t. finish_line w v s = (Inr (pipe_status (map (exit_code w) (piped_commands s))), t)"
  by (simp add: finish_line_def exec_piped_commands_def print_if_def close_files_def)

lemma finish_segment_runs:
  "\<exists>t. finish_segment w False s = (Inr (pipe_status (map (exit_code w) (piped_commands s))), t)
     \<and> next_proc t = next_proc s"
  by (simp add: finish_segment_def exec_piped_commands_def close_files_def)

lemma segments_nonempty: "runnable pl \<Longrightarrow> segments pl \<noteq> []"
  by (induction pl rule: segments.induct)
    (auto simp: runnable_def split: list.splits node.splits if_splits)

text \<open>The statuses of a line whose first segment already has the processes from \<open>m\<close> to \<open>n\<close>.\<close>

definition statuses_from :: "(nat \<Rightarrow> int) \<Rightarrow> nat \<Rightarrow> nat \<Rightarrow> (nat \<times> node option) list \<Rightarrow> (int \<times> node option) list" where
  "statuses_from f m n segs =
     (case segs of [] \<Rightarrow> [] | (k, op) # others \<Rightarrow> statuses f m ((n - m + k, op) # others))"

lemma runnable_step:
  assumes "runnable (a # op # rest)"
  shows "runnable rest" and "a = NChdir d \<Longrightarrow> op = NAnd \<and> d \<noteq> None"
    and "a = NCommand c \<Longrightarrow> command_ok c \<and> (op = NPipe \<or> op = NAnd \<or> op = NOr)"
proof -
  have wf: "wf_pipeline rest" using assms by (cases a; cases rest) (auto simp: runnable_def)
  then have "rest \<noteq> []" by auto
  with wf assms show "runnable rest" by (simp add: runnable_def)
  show "a = NChdir d \<Longrightarrow> op = NAnd \<and> d \<noteq> None" using assms by (cases d) (auto simp: runnable_def)
  show "a = NCommand c \<Longrightarrow> command_ok c \<and> (op = NPipe \<or> op = NAnd \<or> op = NOr)"
    using assms by (auto simp: runnable_def)
qed

lemma run_loop_chain:
  assumes "willing w" and "runnable pl" and "between s m n"
  shows "\<exists>t. run_loop w False pl s = (Inr (Some (chain (statuses_from (exit_code w) m n (segments pl)))), t)"
  using assms(2,3)
proof (induction pl arbitrary: s m n rule: segments.induct)
  case (1 d op rest)
  note r = runnable_step [OF 1(2)]
  obtain dir where d: "d = Some dir" "op = NAnd" using r(2) by blast
  obtain s' where s': "change_dir False dir s = (Inr (), s')" "s' = s\<lparr>cwd := path_join (cwd s) dir, display := display s'\<rparr>"
    using change_dir_run by blast
  have "between (s\<lparr>cwd := p, display := q\<rparr>) m n" for p q using 1(3) by (simp add: between_def)
  then have "between s' m n" using s'(2) by metis
  with 1(1) r(1) s'(1) d show ?case by simp
next
  case (2 c)
  have "command_ok c" using 2(1) by (simp add: runnable_def)
  from start_command_runs [OF assms(1) this 2(2), of False]
  obtain k s1 where s1: "start_command w False c s = (Inr k, s1)" "piped_commands s1 = [m..<Suc n]" by blast
  moreover obtain t where "finish_line w False s1 = (Inr (pipe_status (map (exit_code w) (piped_commands s1))), t)"
    using finish_line_runs by blast
  moreover have "m + (n - m + 1) = Suc n" using 2(2) by (simp add: between_def)
  ultimately show ?case by (simp add: statuses_from_def)
next
  case (3 c op rest)
  note r = runnable_step [OF 3(3)]
  have cmd: "command_ok c" and op: "op = NPipe \<or> op = NAnd \<or> op = NOr" using r(3) by auto
  obtain k o' others where seg: "segments rest = (k, o') # others"
    using segments_nonempty [OF r(1)] by (cases "segments rest") auto
  have mn: "m \<le> n" "m + (n - m + Suc j) = Suc n + j" "Suc n - m = Suc (n - m)" for j
    using 3(4) by (auto simp: between_def)
  from start_command_runs [OF assms(1) cmd 3(4), of False]
  obtain x s1 where s1: "start_command w False c s = (Inr x, s1)" "piped_commands s1 = [m..<Suc n]"
    "next_proc s1 = Suc n" by blast
  show ?case
  proof (cases "op = NPipe")
    case True
    have "between (s1\<lparr>in_pipe := True, display := display s1 @ [''|'']\<rparr>) m (Suc n)"
      using s1 mn(1) by (simp add: between_def)
    from 3(1) [OF True r(1) this] s1(1) True seg mn show ?thesis
      by (auto simp: statuses_from_def simp del: upt_Suc)
  next
    case False
    obtain s2 where s2: "finish_segment w False s1 = (Inr (pipe_status (map (exit_code w) [m..<Suc n])), s2)"
      "next_proc s2 = Suc n" using finish_segment_runs [of w s1] s1 by auto
    have "between (s2\<lparr>in_pipe := False, piped_commands := [], display := []\<rparr>) (Suc n) (Suc n)"
      using s2(2) by (simp add: between_def)
    from 3(2) [OF False r(1) this] obtain t where t:
      "run_loop w False rest (s2\<lparr>in_pipe := False, piped_commands := [], display := []\<rparr>)
       = (Inr (Some (chain (statuses (exit_code w) (Suc n) (segments rest)))), t)"
      by (auto simp: statuses_from_def seg)
    have "segments (NCommand c # op # rest) = (1, Some op) # segments rest" using False by simp
    then show ?thesis
      using s1(1) s2(1) t op False mn(2) [of 0]
      by (auto simp: statuses_from_def new_segment_def simp del: upt_Suc)
  qed
qed (auto simp: runnable_def)

text \<open>C9. The exit code of a line: when files can be opened and commands started, running any
  well-formed line that ends in a command returns, and its exit code is that of the chain of its
  segments.  A segment has the status 0 when all its processes succeed and otherwise that of its
  last process; \<^verbatim>\<open>&&\<close> ends the line after a failing segment and \<^verbatim>\<open>||\<close> after a successful one.\<close>

theorem run_exit_code:
  assumes "willing w" and "runnable pl"
  shows "fst (run w False pl) = Inr (Some (chain (statuses (exit_code w) 0 (segments pl))))"
proof -
  have "between runner_init 0 0" by (simp add: between_def runner_init_def)
  from run_loop_chain [OF assms this] obtain t where
    "run_loop w False pl runner_init = (Inr (Some (chain (statuses_from (exit_code w) 0 0 (segments pl)))), t)" by blast
  then show ?thesis
    by (cases "segments pl") (auto simp: run_def statuses_from_def)
qed

theorem run_exit_code_witness:
  "fst (run (calm_world\<lparr>exit_code := (\<lambda>n. if n = 0 then 3 else 0)\<rparr>) False demo_line)
     = Inr (Some (chain (statuses (\<lambda>n. if n = 0 then 3 else 0) 0 (segments demo_line))))"
  using run_exit_code [of "calm_world\<lparr>exit_code := (\<lambda>n. if n = 0 then 3 else 0)\<rparr>" demo_line]
  by (simp add: calm_world_def willing_def runnable_def demo_line_def command_ok_def new_command_def piped_out_def)

text \<open>The shell's reading of the same line: operators have equal precedence and associate to the
  left, so a segment that is skipped does not end the line.\<close>

fun shell_from :: "int \<Rightarrow> node option \<Rightarrow> (int \<times> node option) list \<Rightarrow> int" where
  "shell_from st op [] = st"
| "shell_from st op ((c, op') # others) =
     shell_from (if op = Some NAnd \<and> st \<noteq> 0 \<or> op = Some NOr \<and> st = 0 then st else c) op' others"

definition shell_chain :: "(int \<times> node option) list \<Rightarrow> int" where
  "shell_chain segs = (case segs of [] \<Rightarrow> 0 | (c, op) # others \<Rightarrow> shell_from c op others)"

definition homogeneous :: "node \<Rightarrow> (int \<times> node option) list \<Rightarrow> bool" where
  "homogeneous op segs \<longleftrightarrow> segs \<noteq> [] \<and> snd (last segs) = None \<and> (\<forall>x \<in> set (butlast segs). snd x = Some op)"

lemma homogeneous_Cons:
  "homogeneous op ((c, o') # others) \<longleftrightarrow>
     (if others = [] then o' = None else o' = Some op \<and> homogeneous op others)"
  by (auto simp: homogeneous_def)

lemma shell_from_skip:
  assumes "others \<noteq> []" and "homogeneous op others" and "op = NAnd \<and> st \<noteq> 0 \<or> op = NOr \<and> st = 0"
  shows "shell_from st (Some op) others = st"
  using assms by (induction others) (auto simp: homogeneous_Cons split: if_splits)

lemma chain_shell:
  assumes "homogeneous op segs" and "op = NAnd \<or> op = NOr"
  shows "chain segs = shell_chain segs"
  using assms(1)
proof (induction segs)
  case (Cons x others)
  obtain c o' where x: "x = (c, o')" by fastforce
  show ?case
  proof (cases others)
    case Nil
    with Cons show ?thesis by (simp add: x homogeneous_Cons shell_chain_def)
  next
    case (Cons y ys)
    obtain c2 o2 where y: "y = (c2, o2)" by fastforce
    have h: "o' = Some op" "homogeneous op others" using Cons.prems Cons by (auto simp: x homogeneous_Cons)
    show ?thesis
    proof (cases "op = NAnd \<and> c \<noteq> 0 \<or> op = NOr \<and> c = 0")
      case True
      then show ?thesis using h shell_from_skip [OF _ h(2) True] Cons by (auto simp: x shell_chain_def)
    next
      case False
      have "chain ((c, Some op) # others) = chain others" using False by auto
      also have "\<dots> = shell_chain others" using Cons.IH h(2) by simp
      also have "\<dots> = shell_from c (Some op) others"
        using False by (auto simp: Cons y shell_chain_def)
      finally show ?thesis by (simp add: x h shell_chain_def)
    qed
  qed
qed (simp add: homogeneous_def)

lemma chain_shell_mixed:
  "chain [(1, Some NAnd), (0, Some NOr), (0, None)] = 1"
  "shell_chain [(1, Some NAnd), (0, Some NOr), (0, None)] = 0"
  by code_simp+

text \<open>On lines that use only \<^verbatim>\<open>&&\<close>, or only \<^verbatim>\<open>||\<close>, the exit code is the one a shell gives to the
  same statuses.\<close>

theorem run_like_shell:
  assumes "willing w" and "runnable pl"
    and "homogeneous op (statuses (exit_code w) 0 (segments pl))" and "op = NAnd \<or> op = NOr"
  shows "fst (run w False pl) = Inr (Some (shell_chain (statuses (exit_code w) 0 (segments pl))))"
proof -
  have "between runner_init 0 0" by (simp add: between_def runner_init_def)
  from run_loop_chain [OF assms(1,2) this] obtain t where
    "run_loop w False pl runner_init = (Inr (Some (chain (statuses_from (exit_code w) 0 0 (segments pl)))), t)" by blast
  then show ?thesis
    using chain_shell [OF assms(3,4)] by (cases "segments pl") (auto simp: run_def statuses_from_def)
qed

theorem run_like_shell_witness:
  "fst (run calm_world False demo_line)
     = Inr (Some (shell_chain (statuses (exit_code calm_world) 0 (segments demo_line))))"
  by (rule run_like_shell [of _ _ NAnd])
    (simp_all add: calm_world_def willing_def runnable_def demo_line_def command_ok_def new_command_def piped_out_def
      homogeneous_def pipe_status_def)

section \<open>Verbose runs\<close>

lemma finish_segment_verbose: "\<exists>t. finish_segment w True s = (Inl UnboundLocalError, t)"
  by (simp add: finish_segment_def exec_piped_commands_def close_files_def)

lemma run_loop_verbose:
  assumes "willing w" and "runnable pl" and "between s m n"
  shows "\<exists>t. run_loop w True pl s =
     (if length (segments pl) = 1 then Inr (Some (chain (statuses_from (exit_code w) m n (segments pl))))
      else Inl UnboundLocalError, t)"
  using assms(2,3)
proof (induction pl arbitrary: s m n rule: segments.induct)
  case (1 d op rest)
  note r = runnable_step [OF 1(2)]
  obtain dir where d: "d = Some dir" "op = NAnd" using r(2) by blast
  obtain s' where s': "change_dir True dir s = (Inr (), s')" "s' = s\<lparr>cwd := path_join (cwd s) dir, display := display s'\<rparr>"
    using change_dir_run by blast
  have "between (s\<lparr>cwd := p, display := q\<rparr>) m n" for p q using 1(3) by (simp add: between_def)
  then have b: "between s' m n" using s'(2) by metis
  show ?case using 1(1) [OF r(1) b] s'(1) d by auto
next
  case (2 c)
  have "command_ok c" using 2(1) by (simp add: runnable_def)
  from start_command_runs [OF assms(1) this 2(2), of True]
  obtain k s1 where s1: "start_command w True c s = (Inr k, s1)" "piped_commands s1 = [m..<Suc n]" by blast
  moreover obtain t where "finish_line w True s1 = (Inr (pipe_status (map (exit_code w) (piped_commands s1))), t)"
    using finish_line_runs by blast
  moreover have "m + (n - m + 1) = Suc n" using 2(2) by (simp add: between_def)
  ultimately show ?case by (simp add: statuses_from_def)
next
  case (3 c op rest)
  note r = runnable_step [OF 3(3)]
  have cmd: "command_ok c" and op: "op = NPipe \<or> op = NAnd \<or> op = NOr" using r(3) by auto
  obtain k o' others where seg: "segments rest = (k, o') # others"
    using segments_nonempty [OF r(1)] by (cases "segments rest") auto
  have mn: "m \<le> n" "m + (n - m + Suc j) = Suc n + j" "Suc n - m = Suc (n - m)" for j
    using 3(4) by (auto simp: between_def)
  from start_command_runs [OF assms(1) cmd 3(4), of True]
  obtain x s1 where s1: "start_command w True c s = (Inr x, s1)" "piped_commands s1 = [m..<Suc n]"
    "next_proc s1 = Suc n" by blast
  show ?case
  proof (cases "op = NPipe")
    case True
    have "between (s1\<lparr>in_pipe := True, display := display s1 @ [''|'']\<rparr>) m (Suc n)"
      using s1 mn(1) by (simp add: between_def)
    from 3(1) [OF True r(1) this] s1(1) True seg mn show ?thesis
      by (auto simp: statuses_from_def simp del: upt_Suc)
  next
    case False
    obtain s2 where "finish_segment w True s1 = (Inl UnboundLocalError, s2)"
      using finish_segment_verbose by blast
    then show ?thesis using s1(1) op False seg by auto
  qed
qed (auto simp: runnable_def)

text \<open>Verbose mode: a line without \<^verbatim>\<open>&&\<close> and \<^verbatim>\<open>||\<close> behind a command returns the same exit code as
  without it; on any other line the message about the first operator refers to an unbound variable,
  and the run fails with \<^verbatim>\<open>UnboundLocalError\<close> whatever the processes returned.\<close>

theorem run_verbose:
  assumes "willing w" and "runnable pl"
  shows "fst (run w True pl) = (if length (segments pl) = 1 then fst (run w False pl) else Inl UnboundLocalError)"
proof -
  have b: "between runner_init 0 0" by (simp add: between_def runner_init_def)
  from run_loop_verbose [OF assms b] run_loop_chain [OF assms b] show ?thesis
    by (auto simp: run_def)
qed

theorem run_verbose_witness:
  "fst (run calm_world True demo_line)
     = (if length (segments demo_line) = 1 then fst (run calm_world False demo_line) else Inl UnboundLocalError)
   \<and> length (segments demo_line) = 2"
  using run_verbose [of calm_world demo_line]
  by (simp add: calm_world_def willing_def runnable_def demo_line_def command_ok_def new_command_def piped_out_def)

end
