(* ===== verification/Style_Patch.thy ===== *)
theory Style_Patch
  imports Py_Prelude
begin

text \<open>
  The unified diffs of \<^verbatim>\<open>utils/check-style.py\<close>: the classes \<^verbatim>\<open>PatchChunkLine\<close>, \<^verbatim>\<open>PatchChunk\<close> and
  \<^verbatim>\<open>Patch\<close>, writing them, parsing them, and \<^verbatim>\<open>remove_trailing_whitespace_changes\<close>.  A file being
  written is the list of the lines written to it, each with its newline.
\<close>

section \<open>Patches\<close>

datatype line_type = NoType | Src | Dst | Both

record chunk_line =
  ltype :: line_type
  ltext :: string

definition new_line :: chunk_line where
  "new_line = \<lparr>ltype = NoType, ltext = []\<rparr>"

definition set_src :: "string \<Rightarrow> chunk_line \<Rightarrow> chunk_line" where
  "set_src s l = l\<lparr>ltype := Src, ltext := s\<rparr>"

definition set_dst :: "string \<Rightarrow> chunk_line \<Rightarrow> chunk_line" where
  "set_dst s l = l\<lparr>ltype := Dst, ltext := s\<rparr>"

definition set_both :: "string \<Rightarrow> chunk_line \<Rightarrow> chunk_line" where
  "set_both s l = l\<lparr>ltype := Both, ltext := s\<rparr>"

definition append_to_line :: "string \<Rightarrow> chunk_line \<Rightarrow> chunk_line" where
  "append_to_line s l = l\<lparr>ltext := ltext l @ s\<rparr>"

definition is_src :: "chunk_line \<Rightarrow> bool" where
  "is_src l \<longleftrightarrow> ltype l = Src \<or> ltype l = Both"

definition is_dst :: "chunk_line \<Rightarrow> bool" where
  "is_dst l \<longleftrightarrow> ltype l = Dst \<or> ltype l = Both"

definition write_line :: "chunk_line \<Rightarrow> string list result" where
  "write_line l =
     (case ltype l of
        Src \<Rightarrow> Inr [''-'' @ ltext l @ [NL]]
      | Dst \<Rightarrow> Inr [''+'' @ ltext l @ [NL]]
      | Both \<Rightarrow> Inr ['' '' @ ltext l @ [NL]]
      | NoType \<Rightarrow> Inl PlainException)"

record chunk =
  clines :: "chunk_line list"
  src_pos :: nat
  dst_pos :: nat

definition new_chunk :: "nat \<Rightarrow> nat \<Rightarrow> chunk" where
  "new_chunk s d = \<lparr>clines = [], src_pos = s, dst_pos = d\<rparr>"

definition add_line :: "chunk_line \<Rightarrow> chunk \<Rightarrow> chunk" where
  "add_line l c = c\<lparr>clines := clines c @ [l]\<rparr>"

text \<open>\<^verbatim>\<open>chunk.src()\<close> and \<^verbatim>\<open>chunk.dst()\<close> list references to the line objects of the chunk: they
  are given by their positions in it.\<close>

definition src_ix :: "chunk \<Rightarrow> nat list" where
  "src_ix c = filter (\<lambda>i. is_src (clines c ! i)) [0..<length (clines c)]"

definition dst_ix :: "chunk \<Rightarrow> nat list" where
  "dst_ix c = filter (\<lambda>i. is_dst (clines c ! i)) [0..<length (clines c)]"

definition src_len :: "chunk \<Rightarrow> nat" where
  "src_len c = length (src_ix c)"

definition dst_len :: "chunk \<Rightarrow> nat" where
  "dst_len c = length (dst_ix c)"

definition chunk_header :: "chunk \<Rightarrow> string" where
  "chunk_header c = ''@@ -'' @ show_nat (src_pos c) @ '','' @ show_nat (src_len c) @ '' +'' @
     show_nat (dst_pos c) @ '','' @ show_nat (dst_len c) @ '' @@'' @ [NL]"

definition write_chunk :: "chunk \<Rightarrow> string list result" where
  "write_chunk c =
     for_each (\<lambda>l out. res_bind (write_line l) (\<lambda>w. Inr (out @ w))) (clines c) [chunk_header c]"

record patch =
  psrc :: string
  pdst :: string
  chunks :: "chunk list"

definition new_patch :: patch where
  "new_patch = \<lparr>psrc = [], pdst = [], chunks = []\<rparr>"

definition write_patch :: "patch \<Rightarrow> string list result" where
  "write_patch p =
     for_each (\<lambda>c out. res_bind (write_chunk c) (\<lambda>w. Inr (out @ w))) (chunks p)
       [''--- '' @ psrc p @ [NL], ''+++ '' @ pdst p @ [NL]]"

section \<open>Parsing\<close>

text \<open>A pattern \<^verbatim>\<open>^prefix(.*)$\<close>: the rest of the line, which a dot matches up to a newline, and \<^verbatim>\<open>$\<close>
  may stand before the last one.\<close>

definition match_rest :: "string \<Rightarrow> string \<Rightarrow> string option" where
  "match_rest p line =
     (if prefix p line
      then let r = drop (length p) line;
               r' = (if r \<noteq> [] \<and> last r = NL then butlast r else r)
           in if NL \<in> set r' then None else Some r'
      else None)"

definition eat :: "string \<Rightarrow> string \<Rightarrow> string option" where
  "eat p s = (if prefix p s then Some (drop (length p) s) else None)"

definition eat_number :: "string \<Rightarrow> (nat \<times> string) option" where
  "eat_number s =
     (let ds = takeWhile is_digit s
      in if ds = [] then None else Some (read_nat ds, dropWhile is_digit s))"

text \<open>\<^verbatim>\<open>^@@ -([0-9]+),([0-9]+) \+([0-9]+),([0-9]+) @@\<close>: the two positions.\<close>

definition match_chunk_start :: "string \<Rightarrow> (nat \<times> nat) option" where
  "match_chunk_start line =
     Option.bind (eat ''@@ -'' line) (\<lambda>s1.
     Option.bind (eat_number s1) (\<lambda>(sp, s2).
     Option.bind (eat '','' s2) (\<lambda>s3.
     Option.bind (eat_number s3) (\<lambda>(_, s4).
     Option.bind (eat '' +'' s4) (\<lambda>s5.
     Option.bind (eat_number s5) (\<lambda>(dp, s6).
     Option.bind (eat '','' s6) (\<lambda>s7.
     Option.bind (eat_number s7) (\<lambda>(_, s8).
     Option.bind (eat '' @@'' s8) (\<lambda>_. Some (sp, dp))))))))))"

text \<open>
  The local variables of \<^verbatim>\<open>parse_patchset\<close>: \<^verbatim>\<open>current_patch\<close> is \<^verbatim>\<open>None\<close> or the last patch, and
  \<^verbatim>\<open>current_chunk\<close>, unbound at first, is a chunk of some patch, not always the last.
\<close>

record reader =
  patchset :: "patch list"
  cur_chunk :: "(nat \<times> nat) option"

definition reader_init :: reader where
  "reader_init = \<lparr>patchset = [], cur_chunk = None\<rparr>"

definition update_last :: "(patch \<Rightarrow> patch) \<Rightarrow> reader \<Rightarrow> reader result" where
  "update_last f r =
     (if patchset r = [] then Inl AttributeError
      else Inr (r\<lparr>patchset := butlast (patchset r) @ [f (last (patchset r))]\<rparr>))"

definition start_chunk :: "nat \<Rightarrow> nat \<Rightarrow> reader \<Rightarrow> reader result" where
  "start_chunk sp dp r =
     res_bind (update_last (\<lambda>p. p\<lparr>chunks := chunks p @ [new_chunk sp dp]\<rparr>) r) (\<lambda>r'.
       Inr (r'\<lparr>cur_chunk := Some (length (patchset r') - 1, length (chunks (last (patchset r'))) - 1)\<rparr>))"

definition add_to_chunk :: "chunk_line \<Rightarrow> reader \<Rightarrow> reader result" where
  "add_to_chunk l r =
     (case cur_chunk r of
        None \<Rightarrow> Inl UnboundLocalError
      | Some (i, j) \<Rightarrow>
          let p = patchset r ! i
          in Inr (r\<lparr>patchset := (patchset r)[i := p\<lparr>chunks := (chunks p)[j := add_line l (chunks p ! j)]\<rparr>]\<rparr>))"

definition parse_line :: "string \<Rightarrow> reader \<Rightarrow> reader result" where
  "parse_line line r =
     (case match_rest ''--- '' line of
        Some f \<Rightarrow> Inr (r\<lparr>patchset := patchset r @ [new_patch\<lparr>psrc := f\<rparr>]\<rparr>)
      | None \<Rightarrow>
     (case match_rest ''+++ '' line of
        Some f \<Rightarrow> update_last (\<lambda>p. p\<lparr>pdst := f\<rparr>) r
      | None \<Rightarrow>
     (case match_chunk_start line of
        Some (sp, dp) \<Rightarrow> start_chunk sp dp r
      | None \<Rightarrow>
     (case match_rest ''-'' line of
        Some t \<Rightarrow> add_to_chunk (set_src t new_line) r
      | None \<Rightarrow>
     (case match_rest ''+'' line of
        Some t \<Rightarrow> add_to_chunk (set_dst t new_line) r
      | None \<Rightarrow>
     (case match_rest '' '' line of
        Some t \<Rightarrow> add_to_chunk (set_both t new_line) r
      | None \<Rightarrow> Inl PlainException))))))"

definition parse_patchset :: "string list \<Rightarrow> patch list result" where
  "parse_patchset lines =
     res_bind (for_each parse_line lines reader_init) (\<lambda>r. Inr (patchset r))"

text \<open>\<^verbatim>\<open>difflib\<close> leaves the count out of a header when it is 1; such a header is rejected.\<close>

lemma parse_short_header:
  "parse_patchset [''--- a'' @ [NL], ''+++ b'' @ [NL], ''@@ -1 +1 @@'' @ [NL]] = Inl PlainException"
  by code_simp

text \<open>A removed line that starts with two dashes and a blank is taken for a file header, and one in
  front of any file header is an error.\<close>

lemma parse_dashes:
  "parse_patchset [''--- a'' @ [NL], ''+++ b'' @ [NL], ''@@ -1,1 +1,0 @@'' @ [NL], ''--- x'' @ [NL]]
     = Inr [\<lparr>psrc = ''a'', pdst = ''b'', chunks = [new_chunk 1 1]\<rparr>, \<lparr>psrc = ''x'', pdst = [], chunks = []\<rparr>]"
  "parse_patchset [''-x'' @ [NL]] = Inl UnboundLocalError"
  "parse_patchset [''+++ b'' @ [NL]] = Inl AttributeError"
  by code_simp+

section \<open>Writing and parsing again\<close>

text \<open>Patches that can be written: no newline in a name or a line, every line with a type, and no
  removed or added line that looks like a file header once its mark is put in front.\<close>

definition line_ok :: "chunk_line \<Rightarrow> bool" where
  "line_ok l \<longleftrightarrow> ltype l \<noteq> NoType \<and> NL \<notin> set (ltext l) \<and>
     \<not> (ltype l = Src \<and> prefix ''-- '' (ltext l)) \<and> \<not> (ltype l = Dst \<and> prefix ''++ '' (ltext l))"

definition patch_ok :: "patch \<Rightarrow> bool" where
  "patch_ok p \<longleftrightarrow> NL \<notin> set (psrc p) \<and> NL \<notin> set (pdst p) \<and>
     (\<forall>c \<in> set (chunks p). list_all line_ok (clines c))"

definition write_patches :: "patch list \<Rightarrow> string list result" where
  "write_patches ps = for_each (\<lambda>p out. res_bind (write_patch p) (\<lambda>w. Inr (out @ w))) ps []"

lemma for_each_output:
  assumes "\<And>x. x \<in> set xs \<Longrightarrow> f x = Inr (g x)"
  shows "for_each (\<lambda>x out. res_bind (f x) (\<lambda>w. Inr (out @ w))) xs out = Inr (out @ concat (map g xs))"
  using assms by (induction xs arbitrary: out) auto

definition line_text :: "chunk_line \<Rightarrow> string" where
  "line_text l = (case ltype l of Src \<Rightarrow> ''-'' | Dst \<Rightarrow> ''+'' | _ \<Rightarrow> '' '') @ ltext l @ [NL]"

lemma write_line_ok: "line_ok l \<Longrightarrow> write_line l = Inr [line_text l]"
  by (cases "ltype l") (auto simp: write_line_def line_text_def line_ok_def)

definition chunk_text :: "chunk \<Rightarrow> string list" where
  "chunk_text c = chunk_header c # map line_text (clines c)"

lemma write_chunk_ok:
  assumes "list_all line_ok (clines c)"
  shows "write_chunk c = Inr (chunk_text c)"
proof -
  have "write_line l = Inr [line_text l]" if "l \<in> set (clines c)" for l
    using assms that by (intro write_line_ok) (simp add: list_all_iff)
  from for_each_output [of _ _ "\<lambda>l. [line_text l]", OF this] show ?thesis
    by (simp add: write_chunk_def chunk_text_def)
qed

definition patch_text :: "patch \<Rightarrow> string list" where
  "patch_text p = (''--- '' @ psrc p @ [NL]) # (''+++ '' @ pdst p @ [NL]) # concat (map chunk_text (chunks p))"

lemma write_patch_ok: "patch_ok p \<Longrightarrow> write_patch p = Inr (patch_text p)"
  using for_each_output [of "chunks p" write_chunk chunk_text] write_chunk_ok
  by (simp add: write_patch_def patch_text_def patch_ok_def)

lemma write_patches_ok: "list_all patch_ok ps \<Longrightarrow> write_patches ps = Inr (concat (map patch_text ps))"
  using for_each_output [of ps write_patch patch_text "[]"] write_patch_ok
  by (simp add: write_patches_def list_all_iff)

lemma match_rest_own: "NL \<notin> set t \<Longrightarrow> match_rest p (p @ t @ [NL]) = Some t"
  by (simp add: match_rest_def)

lemma match_rest_other: "\<not> prefix p line \<Longrightarrow> match_rest p line = None"
  by (simp add: match_rest_def)

lemma eat_own [simp]: "eat p (p @ s) = Some s"
  by (simp add: eat_def)

lemma eat_number_shown:
  assumes "c \<in> {CHR '','', CHR '' ''}"
  shows "eat_number (show_nat n @ c # s) = Some (n, c # s)"
proof -
  have "\<not> is_digit c" using assms by (auto simp: is_digit_def)
  then have "takeWhile is_digit (show_nat n @ c # s) = show_nat n" "dropWhile is_digit (show_nat n @ c # s) = c # s"
    using show_nat_digits by (simp_all add: takeWhile_append2 dropWhile_append2)
  then show ?thesis by (simp add: eat_number_def)
qed

lemma match_chunk_header: "match_chunk_start (chunk_header c) = Some (src_pos c, dst_pos c)"
proof -
  note num = eat_number_shown [of "CHR '',''"] eat_number_shown [of "CHR '' ''"]
  have "eat ''@@ -'' (chunk_header c) = Some (show_nat (src_pos c) @ CHR '','' # show_nat (src_len c) @ CHR '' '' #
     ''+'' @ show_nat (dst_pos c) @ CHR '','' # show_nat (dst_len c) @ CHR '' '' # ''@@'' @ [NL])"
    by (simp add: chunk_header_def eat_def)
  moreover have "eat '','' (CHR '','' # s) = Some s" "eat '' +'' (CHR '' '' # ''+'' @ s) = Some s"
    "eat '' @@'' (CHR '' '' # ''@@'' @ s) = Some s" for s by (simp_all add: eat_def)
  ultimately show ?thesis by (simp add: match_chunk_start_def num)
qed

lemma prefix_mark:
  assumes "NL \<notin> set p"
  shows "prefix (m # p) (m # t @ [NL]) \<longleftrightarrow> prefix p t"
  using assms by (auto simp: prefix_append prefix_Cons dest: set_mono_prefix)

lemma parse_line_line:
  assumes "line_ok l"
  shows "parse_line (line_text l) r = add_to_chunk l r"
proof -
  have nl: "NL \<notin> set (ltext l)" using assms by (simp add: line_ok_def)
  have hd: "match_chunk_start (c # s) = None" if "c \<noteq> CHR ''@''" for c s
    using that by (auto simp: match_chunk_start_def eat_def)
  have own: "match_rest [c] (c # ltext l @ [NL]) = Some (ltext l)" for c
    using match_rest_own [OF nl, of "[c]"] by simp
  have other: "match_rest (d # p) (c # s) = None" if "c \<noteq> d" for c d p s
    using that by (intro match_rest_other) auto
  have eta: "ltype l = Src \<Longrightarrow> set_src (ltext l) new_line = l" "ltype l = Dst \<Longrightarrow> set_dst (ltext l) new_line = l"
    "ltype l = Both \<Longrightarrow> set_both (ltext l) new_line = l"
    by (cases l, simp add: set_src_def set_dst_def set_both_def new_line_def)+
  consider "ltype l = Src" | "ltype l = Dst" | "ltype l = Both"
    using assms by (cases "ltype l") (auto simp: line_ok_def)
  then show ?thesis
  proof cases
    case 1
    then have "\<not> prefix ''--- '' (CHR ''-'' # ltext l @ [NL])"
      using assms prefix_mark [of "''-- ''" "CHR ''-''" "ltext l"] by (auto simp: line_ok_def)
    with 1 show ?thesis
      by (simp add: line_text_def parse_line_def match_rest_other hd own other eta)
  next
    case 2
    then have "\<not> prefix ''+++ '' (CHR ''+'' # ltext l @ [NL])"
      using assms prefix_mark [of "''++ ''" "CHR ''+''" "ltext l"] by (auto simp: line_ok_def)
    with 2 show ?thesis
      by (simp add: line_text_def parse_line_def match_rest_other hd own other eta)
  next
    case 3
    then show ?thesis
      by (simp add: line_text_def parse_line_def hd own other eta)
  qed
qed

text \<open>The reader in the middle of a patch: complete patches \<open>ps\<close>, then one with the chunks \<open>cs\<close>.\<close>

definition in_patch :: "patch list \<Rightarrow> patch \<Rightarrow> chunk list \<Rightarrow> reader \<Rightarrow> bool" where
  "in_patch ps p cs r \<longleftrightarrow> patchset r = ps @ [p\<lparr>chunks := cs\<rparr>] \<and>
     (cs \<noteq> [] \<longrightarrow> cur_chunk r = Some (length ps, length cs - 1))"

lemma parse_lines:
  assumes "list_all line_ok ls" and "in_patch ps p (cs @ [c]) r"
  shows "\<exists>r'. for_each parse_line (map line_text ls) r = Inr r' \<and>
     in_patch ps p (cs @ [c\<lparr>clines := clines c @ ls\<rparr>]) r'"
  using assms
proof (induction ls arbitrary: c r)
  case (Cons l ls)
  have add: "add_to_chunk l r = Inr (r\<lparr>patchset := ps @ [p\<lparr>chunks := cs @ [add_line l c]\<rparr>]\<rparr>)"
    using Cons.prems(2) by (simp add: add_to_chunk_def in_patch_def)
  have "in_patch ps p (cs @ [add_line l c]) (r\<lparr>patchset := ps @ [p\<lparr>chunks := cs @ [add_line l c]\<rparr>]\<rparr>)"
    using Cons.prems(2) by (simp add: in_patch_def)
  from Cons.IH [OF _ this] Cons.prems(1) add show ?case
    by (simp add: parse_line_line add_line_def)
qed auto

lemma parse_chunk:
  assumes "list_all line_ok (clines c)" and "in_patch ps p cs r"
  shows "\<exists>r'. for_each parse_line (chunk_text c) r = Inr r' \<and> in_patch ps p (cs @ [c]) r'"
proof -
  have none: "match_rest ''--- '' (chunk_header c) = None" "match_rest ''+++ '' (chunk_header c) = None"
    by (simp_all add: match_rest_def chunk_header_def)
  let ?n = "new_chunk (src_pos c) (dst_pos c)"
  let ?r = "r\<lparr>patchset := ps @ [p\<lparr>chunks := cs @ [?n]\<rparr>], cur_chunk := Some (length ps, length cs)\<rparr>"
  have "parse_line (chunk_header c) r = Inr ?r"
    using assms(2) none
    by (simp add: parse_line_def match_chunk_header start_chunk_def update_last_def in_patch_def)
  moreover have "in_patch ps p (cs @ [?n]) ?r" by (simp add: in_patch_def)
  from parse_lines [OF assms(1) this] obtain r' where
    "for_each parse_line (map line_text (clines c)) ?r = Inr r'"
    "in_patch ps p (cs @ [?n\<lparr>clines := clines ?n @ clines c\<rparr>]) r'" by blast
  moreover have "?n\<lparr>clines := clines ?n @ clines c\<rparr> = c" by (simp add: new_chunk_def)
  ultimately show ?thesis by (simp add: chunk_text_def)
qed

lemma parse_chunks:
  assumes "\<forall>c \<in> set ds. list_all line_ok (clines c)" and "in_patch ps p cs r"
  shows "\<exists>r'. for_each parse_line (concat (map chunk_text ds)) r = Inr r' \<and> in_patch ps p (cs @ ds) r'"
  using assms
proof (induction ds arbitrary: cs r)
  case (Cons d ds)
  obtain r1 where "for_each parse_line (chunk_text d) r = Inr r1" "in_patch ps p (cs @ [d]) r1"
    using parse_chunk [of d ps p cs r] Cons.prems by auto
  with Cons.IH [of "cs @ [d]" r1] Cons.prems(1) show ?case by (simp add: for_each_append)
qed auto

lemma parse_patch:
  assumes "patch_ok p" and "patchset r = ps"
  shows "\<exists>r'. for_each parse_line (patch_text p) r = Inr r' \<and> patchset r' = ps @ [p]"
proof -
  have nl: "NL \<notin> set (psrc p)" "NL \<notin> set (pdst p)" using assms(1) by (simp_all add: patch_ok_def)
  let ?r1 = "r\<lparr>patchset := ps @ [new_patch\<lparr>psrc := psrc p\<rparr>]\<rparr>"
  let ?r2 = "r\<lparr>patchset := ps @ [p\<lparr>chunks := []\<rparr>]\<rparr>"
  have 1: "parse_line (''--- '' @ psrc p @ [NL]) r = Inr ?r1"
    using assms(2) match_rest_own [OF nl(1), of "''--- ''"] by (simp add: parse_line_def)
  have "match_rest ''--- '' (''+++ '' @ pdst p @ [NL]) = None" by (simp add: match_rest_def)
  moreover have "new_patch\<lparr>psrc := psrc p, pdst := pdst p\<rparr> = p\<lparr>chunks := []\<rparr>" by (simp add: new_patch_def)
  ultimately have 2: "parse_line (''+++ '' @ pdst p @ [NL]) ?r1 = Inr ?r2"
    using match_rest_own [OF nl(2), of "''+++ ''"] by (simp add: parse_line_def update_last_def)
  have "in_patch ps p [] ?r2" by (simp add: in_patch_def)
  then obtain r' where r': "for_each parse_line (concat (map chunk_text (chunks p))) ?r2 = Inr r'" "in_patch ps p (chunks p) r'"
    using parse_chunks [of "chunks p" ps p "[]" ?r2] assms(1) by (auto simp: patch_ok_def)
  have "for_each parse_line (patch_text p) r = Inr r'"
    unfolding patch_text_def for_each.simps 1 2 res_bind.simps r'(1) ..
  with r'(2) show ?thesis by (simp add: in_patch_def)
qed

lemma parse_patches:
  assumes "list_all patch_ok ps" and "patchset r = qs"
  shows "\<exists>r'. for_each parse_line (concat (map patch_text ps)) r = Inr r' \<and> patchset r' = qs @ ps"
  using assms
proof (induction ps arbitrary: qs r)
  case (Cons p ps)
  obtain r1 where "for_each parse_line (patch_text p) r = Inr r1" "patchset r1 = qs @ [p]"
    using parse_patch [of p r qs] Cons.prems by auto
  with Cons.IH [of r1 "qs @ [p]"] Cons.prems(1) show ?case by (auto simp: for_each_append)
qed auto

text \<open>C20. Patches survive writing and parsing: when no file name or line contains a newline, every
  line has a type, and no removed line starts with two dashes and a blank nor an added one with two
  plus signs and a blank, \<^verbatim>\<open>write\<close> succeeds and \<^verbatim>\<open>parse_patchset\<close> reads the same patches back.\<close>

theorem write_parse_patches:
  assumes "list_all patch_ok ps"
  shows "\<exists>out. write_patches ps = Inr out \<and> parse_patchset out = Inr ps"
proof -
  obtain r where "for_each parse_line (concat (map patch_text ps)) reader_init = Inr r" "patchset r = ps"
    using parse_patches [OF assms, of reader_init "[]"] by (auto simp: reader_init_def)
  then show ?thesis using write_patches_ok [OF assms] by (simp add: parse_patchset_def)
qed

theorem write_parse_patches_witness:
  "\<exists>out. write_patches [\<lparr>psrc = ''a.cc'', pdst = ''b.cc'',
       chunks = [\<lparr>clines = [\<lparr>ltype = Src, ltext = ''x ''\<rparr>, \<lparr>ltype = Dst, ltext = ''x''\<rparr>, \<lparr>ltype = Both, ltext = []\<rparr>],
                  src_pos = 12, dst_pos = 12\<rparr>]\<rparr>] = Inr out
     \<and> parse_patchset out = Inr [\<lparr>psrc = ''a.cc'', pdst = ''b.cc'',
       chunks = [\<lparr>clines = [\<lparr>ltype = Src, ltext = ''x ''\<rparr>, \<lparr>ltype = Dst, ltext = ''x''\<rparr>, \<lparr>ltype = Both, ltext = []\<rparr>],
                  src_pos = 12, dst_pos = 12\<rparr>]\<rparr>]"
  by (rule write_parse_patches) (simp add: patch_ok_def line_ok_def)

section \<open>Reverting changes of trailing blanks\<close>

text \<open>The pattern \<^verbatim>\<open>^(.*)([ \t]+)$\<close>: the first group is greedy, so the second is always a single
  blank.\<close>

definition is_blank :: "char \<Rightarrow> bool" where
  "is_blank c \<longleftrightarrow> c = CHR '' '' \<or> c = TAB"

definition whitespace_match :: "string \<Rightarrow> (string \<times> string) option" where
  "whitespace_match s =
     (if s \<noteq> [] \<and> is_blank (last s) \<and> NL \<notin> set s then Some (butlast s, [last s]) else None)"

text \<open>The loop over the pairs \<^verbatim>\<open>src[i]\<close>, \<^verbatim>\<open>dst[i]\<close>: it reads and changes the lines in place, and
  raises when there are fewer destination lines; the exception ends the whole pass.\<close>

definition revert_pair :: "nat \<Rightarrow> nat \<Rightarrow> chunk_line list \<Rightarrow> chunk_line list" where
  "revert_pair s d ls =
     (case whitespace_match (ltext (ls ! s)) of
        None \<Rightarrow> ls
      | Some (g1, g2) \<Rightarrow> if g1 = ltext (ls ! d) then ls[d := append_to_line g2 (ls ! d)] else ls)"

fun revert_pairs :: "nat list \<Rightarrow> nat list \<Rightarrow> chunk_line list \<Rightarrow> chunk_line list \<times> bool" where
  "revert_pairs [] ds ls = (ls, True)"
| "revert_pairs (s # ss) [] ls = (ls, False)"
| "revert_pairs (s # ss) (d # ds) ls =
     revert_pairs ss ds (revert_pair s d ls)"

definition revert_chunk :: "chunk \<Rightarrow> chunk \<times> bool" where
  "revert_chunk c =
     (let (ls, ok) = revert_pairs (src_ix c) (dst_ix c) (clines c) in (c\<lparr>clines := ls\<rparr>, ok))"

fun revert_chunks :: "chunk list \<Rightarrow> chunk list \<times> bool" where
  "revert_chunks [] = ([], True)"
| "revert_chunks (c # cs) =
     (let (c', ok) = revert_chunk c
      in if ok then let (cs', ok') = revert_chunks cs in (c' # cs', ok') else (c' # cs, False))"

fun revert_patches :: "patch list \<Rightarrow> patch list" where
  "revert_patches [] = []"
| "revert_patches (p # ps) =
     (let (cs, ok) = revert_chunks (chunks p)
      in if ok then p\<lparr>chunks := cs\<rparr> # revert_patches ps else p\<lparr>chunks := cs\<rparr> # ps)"

definition remove_trailing_whitespace_changes :: "string list \<Rightarrow> patch list result" where
  "remove_trailing_whitespace_changes lines =
     res_bind (parse_patchset lines) (\<lambda>ps. Inr (revert_patches ps))"

text \<open>What the pass may do: a line keeps its text or, as a destination line, gains one blank at its
  end; everything else stays.\<close>

definition line_kept :: "chunk_line \<Rightarrow> chunk_line \<Rightarrow> bool" where
  "line_kept l l' \<longleftrightarrow> ltype l' = ltype l \<and>
     (ltext l' = ltext l \<or> is_dst l \<and> (\<exists>b. is_blank b \<and> ltext l' = ltext l @ [b]))"

definition chunk_kept :: "chunk \<Rightarrow> chunk \<Rightarrow> bool" where
  "chunk_kept c c' \<longleftrightarrow> src_pos c' = src_pos c \<and> dst_pos c' = dst_pos c \<and>
     list_all2 line_kept (clines c) (clines c')"

definition patch_kept :: "patch \<Rightarrow> patch \<Rightarrow> bool" where
  "patch_kept p p' \<longleftrightarrow> psrc p' = psrc p \<and> pdst p' = pdst p \<and> list_all2 chunk_kept (chunks p) (chunks p')"

lemma line_kept_refl [simp]: "line_kept l l"
  by (simp add: line_kept_def)

lemma chunk_kept_refl [simp]: "chunk_kept c c"
  by (simp add: chunk_kept_def list_all2_refl)

lemma patch_kept_refl [simp]: "patch_kept p p"
  by (simp add: patch_kept_def list_all2_refl)

lemma whitespace_match_Some:
  assumes "whitespace_match s = Some (g1, g2)"
  shows "\<exists>b. is_blank b \<and> g2 = [b] \<and> s = g1 @ [b]"
  using assms by (auto simp: whitespace_match_def split: if_splits)

lemma revert_pair_props:
  shows "length (revert_pair s d ls) = length ls"
    and "i \<noteq> d \<Longrightarrow> revert_pair s d ls ! i = ls ! i"
    and "d < length ls \<Longrightarrow> is_dst (ls ! d) \<Longrightarrow> line_kept (ls ! d) (revert_pair s d ls ! d)"
proof -
  show "length (revert_pair s d ls) = length ls" "i \<noteq> d \<Longrightarrow> revert_pair s d ls ! i = ls ! i"
    by (simp_all add: revert_pair_def split: option.split)
  show "line_kept (ls ! d) (revert_pair s d ls ! d)" if "d < length ls" "is_dst (ls ! d)"
  proof (cases "whitespace_match (ltext (ls ! s))")
    case (Some g)
    obtain g1 g2 where g: "g = (g1, g2)" by fastforce
    from Some whitespace_match_Some obtain b where "is_blank b" "g2 = [b]" unfolding g by blast
    with Some that show ?thesis
      by (auto simp: revert_pair_def g line_kept_def append_to_line_def)
  qed (simp add: revert_pair_def)
qed

lemma revert_pairs_kept:
  assumes "distinct ds" and "\<forall>d \<in> set ds. d < length ls \<and> is_dst (ls ! d)"
  shows "length (fst (revert_pairs ss ds ls)) = length ls \<and>
     (\<forall>i. i \<notin> set ds \<longrightarrow> fst (revert_pairs ss ds ls) ! i = ls ! i) \<and>
     (\<forall>i \<in> set ds. line_kept (ls ! i) (fst (revert_pairs ss ds ls) ! i))"
  using assms
proof (induction ss ds ls rule: revert_pairs.induct)
  case (3 s ss d ds ls)
  let ?ls = "revert_pair s d ls"
  note p = revert_pair_props [where s = s and d = d and ls = ls]
  have d: "d \<notin> set ds" "d < length ls" "is_dst (ls ! d)" using 3(2,3) by auto
  have same: "?ls ! i = ls ! i" if "i \<in> set ds" for i
    using that d(1) by (intro revert_pair_props(2)) auto
  have "\<forall>e \<in> set ds. e < length ?ls \<and> is_dst (?ls ! e)" using 3(3) p(1) same by simp
  with 3(1) 3(2) have IH: "length (fst (revert_pairs ss ds ?ls)) = length ?ls"
    "\<And>i. i \<notin> set ds \<Longrightarrow> fst (revert_pairs ss ds ?ls) ! i = ?ls ! i"
    "\<And>i. i \<in> set ds \<Longrightarrow> line_kept (?ls ! i) (fst (revert_pairs ss ds ?ls) ! i)"
    by auto
  have "fst (revert_pairs ss ds ?ls) ! i = ls ! i" if "i \<notin> set (d # ds)" for i
    using that IH(2) [of i] revert_pair_props(2) [of i d s ls] by simp
  moreover have "line_kept (ls ! i) (fst (revert_pairs ss ds ?ls) ! i)" if "i \<in> set (d # ds)" for i
    using that IH(2) [OF d(1)] IH(3) [of i] same [of i] p(3) [OF d(2,3)] d(1) by auto
  ultimately show ?case unfolding revert_pairs.simps using IH(1) p(1) by simp
qed auto

lemma dst_ix_props: "distinct (dst_ix c)" "\<forall>d \<in> set (dst_ix c). d < length (clines c) \<and> is_dst (clines c ! d)"
  by (auto simp: dst_ix_def)

lemma revert_chunk_kept: "chunk_kept c (fst (revert_chunk c))"
proof -
  let ?ls = "fst (revert_pairs (src_ix c) (dst_ix c) (clines c))"
  note k = revert_pairs_kept [OF dst_ix_props, of "src_ix c" c]
  have "list_all2 line_kept (clines c) ?ls"
  proof (rule list_all2_all_nthI)
    show "line_kept (clines c ! i) (?ls ! i)" for i
      using k by (cases "i \<in> set (dst_ix c)") auto
  qed (use k in simp)
  then show ?thesis by (simp add: revert_chunk_def chunk_kept_def case_prod_unfold Let_def)
qed

lemma revert_chunks_kept: "list_all2 chunk_kept cs (fst (revert_chunks cs))"
proof (induction cs)
  case (Cons c cs)
  then show ?case
    using revert_chunk_kept [of c] by (simp add: case_prod_unfold Let_def list_all2_refl)
qed simp

lemma revert_patches_kept: "list_all2 patch_kept ps (revert_patches ps)"
proof (induction ps)
  case (Cons p ps)
  then show ?case
    using revert_chunks_kept [of "chunks p"]
    by (simp add: case_prod_unfold Let_def list_all2_refl patch_kept_def)
qed simp

text \<open>\<^verbatim>\<open>remove_trailing_whitespace_changes\<close> raises exactly when its input cannot be parsed, and
  otherwise changes nothing but text at the ends of lines: patches, chunks, positions and line
  types stay, a removed line keeps its text, and an added or context line keeps it or gains exactly
  one blank.\<close>

theorem remove_trailing_bounded:
  "case parse_patchset lines of
     Inl e \<Rightarrow> remove_trailing_whitespace_changes lines = Inl e
   | Inr ps \<Rightarrow> \<exists>ps'. remove_trailing_whitespace_changes lines = Inr ps' \<and> list_all2 patch_kept ps ps'"
  using revert_patches_kept
  by (auto simp: remove_trailing_whitespace_changes_def split: sum.split)

text \<open>The pairs of a chunk without context lines: nothing a pair reads is changed by another.\<close>

lemma revert_pairs_aligned:
  assumes "length ss \<le> length ds" and "distinct ds" and "set ss \<inter> set ds = {}"
    and "\<forall>d \<in> set ds. d < length ls"
  shows "snd (revert_pairs ss ds ls) \<and>
     (\<forall>k < length ss. fst (revert_pairs ss ds ls) ! (ds ! k) = revert_pair (ss ! k) (ds ! k) ls ! (ds ! k)) \<and>
     (\<forall>i. i \<notin> set (take (length ss) ds) \<longrightarrow> fst (revert_pairs ss ds ls) ! i = ls ! i)"
  using assms
proof (induction ss ds ls rule: revert_pairs.induct)
  case (3 s ss d ds ls)
  let ?ls = "revert_pair s d ls"
  let ?r = "fst (revert_pairs ss ds ?ls)"
  have len: "length ?ls = length ls" by (rule revert_pair_props(1))
  have IH: "snd (revert_pairs ss ds ?ls)"
    "\<And>k. k < length ss \<Longrightarrow> ?r ! (ds ! k) = revert_pair (ss ! k) (ds ! k) ?ls ! (ds ! k)"
    "\<And>i. i \<notin> set (take (length ss) ds) \<Longrightarrow> ?r ! i = ?ls ! i"
    using 3(1) 3(2-5) len by auto
  have same: "?ls ! i = ls ! i" if "i \<noteq> d" for i using that by (rule revert_pair_props(2))
  have first: "?r ! d = ?ls ! d"
    using 3(3) by (intro IH(3)) (auto dest: in_set_takeD)
  have later: "?r ! (ds ! k) = revert_pair (ss ! k) (ds ! k) ls ! (ds ! k)" if k: "k < length ss" for k
  proof -
    have kd: "k < length ds" using k 3(2) by simp
    have ne: "ss ! k \<noteq> d" "ds ! k \<noteq> d" using 3(3,4) k kd nth_mem by auto
    have "revert_pair (ss ! k) (ds ! k) ?ls ! (ds ! k) = revert_pair (ss ! k) (ds ! k) ls ! (ds ! k)"
      unfolding revert_pair_def [of "ss ! k"] using same [OF ne(1)] same [OF ne(2)] len 3(5) kd
      by (auto split: option.splits)
    then show ?thesis using IH(2) [OF k] by simp
  qed
  have "?r ! ((d # ds) ! k) = revert_pair ((s # ss) ! k) ((d # ds) ! k) ls ! ((d # ds) ! k)"
    if "k < length (s # ss)" for k
    using that first later by (cases k) auto
  moreover have "?r ! i = ls ! i" if "i \<notin> set (take (length (s # ss)) (d # ds))" for i
    using that IH(3) [of i] same [of i] by simp
  ultimately show ?case unfolding revert_pairs.simps using IH(1) by blast
qed auto

lemma revert_pair_text:
  assumes "d < length ls" and "NL \<notin> set (ltext (ls ! s))"
  shows "ltext (revert_pair s d ls ! d) =
     (if \<exists>b. is_blank b \<and> ltext (ls ! s) = ltext (ls ! d) @ [b] then ltext (ls ! s) else ltext (ls ! d))"
proof (cases "\<exists>b. is_blank b \<and> ltext (ls ! s) = ltext (ls ! d) @ [b]")
  case True
  then obtain b where b: "is_blank b" "ltext (ls ! s) = ltext (ls ! d) @ [b]" by blast
  then have "whitespace_match (ltext (ls ! s)) = Some (ltext (ls ! d), [b])"
    using assms(2) by (simp add: whitespace_match_def)
  with True b assms(1) show ?thesis by (simp add: revert_pair_def append_to_line_def)
next
  case False
  then have eq: "revert_pair s d ls = ls"
    by (auto simp: revert_pair_def dest: whitespace_match_Some split: option.splits)
  show ?thesis unfolding eq using False by (simp only: if_False)
qed

text \<open>In a chunk without context lines that has at least as many added as removed lines, the pass
  completes, and the \<open>k\<close>-th added line is turned back into the \<open>k\<close>-th removed line exactly when the
  two differ by one final blank; all other lines keep their text.\<close>

theorem revert_chunk_aligned:
  assumes "\<forall>l \<in> set (clines c). ltype l \<noteq> Both \<and> NL \<notin> set (ltext l)" and "src_len c \<le> dst_len c"
  shows "snd (revert_chunk c) \<and>
     (\<forall>k < src_len c. ltext (clines (fst (revert_chunk c)) ! (dst_ix c ! k)) =
        (let s = ltext (clines c ! (src_ix c ! k)); d = ltext (clines c ! (dst_ix c ! k))
         in if \<exists>b. is_blank b \<and> s = d @ [b] then s else d)) \<and>
     (\<forall>i. i \<notin> set (take (src_len c) (dst_ix c)) \<longrightarrow> clines (fst (revert_chunk c)) ! i = clines c ! i)"
proof -
  have "set (src_ix c) \<inter> set (dst_ix c) = {}"
    using assms(1) by (fastforce simp: src_ix_def dst_ix_def is_src_def is_dst_def)
  note a = revert_pairs_aligned [OF _ dst_ix_props(1) this, of "clines c"]
  have tx: "ltext (revert_pair (src_ix c ! k) (dst_ix c ! k) (clines c) ! (dst_ix c ! k)) =
      (let s = ltext (clines c ! (src_ix c ! k)); d = ltext (clines c ! (dst_ix c ! k))
       in if \<exists>b. is_blank b \<and> s = d @ [b] then s else d)" if k: "k < src_len c" for k
  proof -
    have "src_ix c ! k \<in> set (src_ix c)" "dst_ix c ! k \<in> set (dst_ix c)"
      using k assms(2) by (simp_all add: src_len_def dst_len_def)
    then have "src_ix c ! k < length (clines c)" "dst_ix c ! k < length (clines c)"
      by (auto simp: src_ix_def dst_ix_def)
    then show ?thesis using revert_pair_text [of "dst_ix c ! k" "clines c" "src_ix c ! k"] assms(1) by (simp add: Let_def)
  qed
  have "fst (revert_chunk c) = c\<lparr>clines := fst (revert_pairs (src_ix c) (dst_ix c) (clines c))\<rparr>"
    "snd (revert_chunk c) = snd (revert_pairs (src_ix c) (dst_ix c) (clines c))"
    by (simp_all add: revert_chunk_def case_prod_unfold Let_def)
  with a assms(2) tx show ?thesis by (simp add: src_len_def dst_len_def dst_ix_props(2))
qed

theorem revert_chunk_aligned_witness:
  "let c = \<lparr>clines = [\<lparr>ltype = Src, ltext = ''x ''\<rparr>, \<lparr>ltype = Dst, ltext = ''x''\<rparr>], src_pos = 1, dst_pos = 1\<rparr>
   in snd (revert_chunk c) \<and>
     (\<forall>k < src_len c. ltext (clines (fst (revert_chunk c)) ! (dst_ix c ! k)) =
        (let s = ltext (clines c ! (src_ix c ! k)); d = ltext (clines c ! (dst_ix c ! k))
         in if \<exists>b. is_blank b \<and> s = d @ [b] then s else d)) \<and>
     (\<forall>i. i \<notin> set (take (src_len c) (dst_ix c)) \<longrightarrow> clines (fst (revert_chunk c)) ! i = clines c ! i)"
  unfolding Let_def [of "\<lparr>clines = _, src_pos = _, dst_pos = _\<rparr>"]
  by (rule revert_chunk_aligned) (simp_all add: src_len_def dst_len_def src_ix_def dst_ix_def is_src_def is_dst_def)

text \<open>Two trailing blanks are not restored; a context line may be changed on both sides when the
  lines are shifted; and a chunk that loses lines ends the pass for all that follow.\<close>

lemma remove_trailing_limits:
  "remove_trailing_whitespace_changes [''--- a'', ''+++ b'', ''@@ -1,1 +1,1 @@'', ''-x  '', ''+x'']
     = parse_patchset [''--- a'', ''+++ b'', ''@@ -1,1 +1,1 @@'', ''-x  '', ''+x'']"
  "remove_trailing_whitespace_changes [''--- a'', ''+++ b'', ''@@ -1,3 +1,2 @@'', ''-r'', '' y '', '' y'']
     = parse_patchset [''--- a'', ''+++ b'', ''@@ -1,3 +1,2 @@'', ''-r'', '' y '', '' y '']"
  "remove_trailing_whitespace_changes [''--- a'', ''+++ b'', ''@@ -1,1 +1,0 @@'', ''-r'', ''@@ -5,1 +4,1 @@'', ''-x '', ''+x'']
     = parse_patchset [''--- a'', ''+++ b'', ''@@ -1,1 +1,0 @@'', ''-r'', ''@@ -5,1 +4,1 @@'', ''-x '', ''+x'']"
  by code_simp+

end
