(* ===== verification/Style_Check.thy ===== *)
theory Style_Check
  imports Style_Patch
begin

text \<open>
  The driver of \<^verbatim>\<open>utils/check-style.py\<close>: the uncrustify configuration, indenting a file, comparing
  files with their indented form and the exit code.  The programs and libraries it calls
  (uncrustify, patch, \<^verbatim>\<open>difflib\<close>) are parameters; a file is the list of its lines.
\<close>

section \<open>The configuration file\<close>

definition config_level0 :: "string list" where
  "config_level0 =
    [[], ''sp_func_proto_paren=Add'', ''sp_func_def_paren=Add'', ''sp_func_call_paren=Add'',
     ''sp_after_semi_for=Ignore'', ''sp_before_sparen=Ignore'', ''sp_before_ellipsis=Remove'',
     ''sp_type_func=Ignore'', ''sp_after_type=Ignore'', ''nl_class_leave_one_liners=True'',
     ''nl_enum_leave_one_liners=True'', ''nl_func_leave_one_liners=True'',
     ''nl_assign_leave_one_liners=True'', ''nl_collapse_empty_body=True'',
     ''nl_getset_leave_one_liners=True'', ''nl_if_leave_one_liners=True'',
     ''nl_fdef_brace=Ignore'', ''# finally, indentation configuration'', ''indent_with_tabs=0'',
     ''indent_namespace=false'', ''indent_columns=2'', ''indent_brace=2'',
     ''indent_case_brace=indent_columns'', ''indent_class=true'', ''indent_class_colon=True'',
     ''indent_switch_case=indent_columns'', ''# alignment'', ''indent_align_assign=False'',
     ''align_left_shift=True'', ''# comment reformating disabled'',
     ''cmt_reflow_mode=1 # do not touch comments at all'',
     ''cmt_indent_multi=False # really, do not touch them'',
     ''disable_processing_cmt= '' @ [QUOT] @ '' *NS_CHECK_STYLE_OFF*'' @ [QUOT],
     ''enable_processing_cmt=  '' @ [QUOT] @ '' *NS_CHECK_STYLE_ON*'' @ [QUOT]]"

definition config_level1 :: "string list" where
  "config_level1 =
    [[], ''# extra spaces here and there'', ''sp_brace_typedef=Add'', ''sp_enum_assign=Add'',
     ''sp_before_sparen=Add'', ''sp_after_semi_for=Add'', ''sp_arith=Add'', ''sp_assign=Add'',
     ''sp_compare=Add'', ''sp_func_class_paren=Add'', ''sp_after_type=Add'',
     ''sp_type_func=Add'', ''sp_angle_paren=Add'']"

definition config_level2 :: "string list" where
  "config_level2 =
    [[], ''nl_if_brace=Add'', ''nl_brace_else=Add'', ''nl_elseif_brace=Add'',
     ''nl_else_brace=Add'', ''nl_while_brace=Add'', ''nl_do_brace=Add'', ''nl_for_brace=Add'',
     ''nl_brace_while=Add'', ''nl_switch_brace=Add'', ''nl_after_case=True'',
     ''nl_namespace_brace=ignore'', ''nl_after_brace_open=True'',
     ''nl_class_leave_one_liners=False'', ''nl_enum_leave_one_liners=False'',
     ''nl_func_leave_one_liners=False'', ''nl_if_leave_one_liners=False'',
     ''nl_class_colon=Ignore'', ''nl_before_access_spec=2'', ''nl_after_access_spec=0'',
     ''indent_access_spec=-indent_columns'', ''nl_after_semicolon=True'',
     ''pos_class_colon=Lead'', ''pos_class_comma=Trail'', ''indent_constr_colon=true'',
     ''pos_bool=Lead'', ''nl_class_init_args=Add'', ''nl_template_class=Add'',
     ''nl_class_brace=Add'', ''# does not work very well'', ''nl_func_type_name=Ignore'',
     ''nl_func_scope_name=Ignore'', ''nl_func_type_name_class=Ignore'',
     ''nl_func_proto_type_name=Ignore'', ''# function'' @ [CHR 0x5C] @ ''n('',
     ''nl_func_paren=Remove'', ''nl_fdef_brace=Add'', ''nl_struct_brace=Add'',
     ''nl_enum_brace=Add'', ''nl_union_brace=Add'', ''mod_full_brace_do=Add'',
     ''mod_full_brace_for=Add'', ''mod_full_brace_if=Add'', ''mod_full_brace_while=Add'',
     ''mod_full_brace_for=Add'', ''mod_remove_extra_semicolon=True'', ''# max code width'',
     ''#code_width=128'', ''#ls_for_split_full=True'', ''#ls_func_split_full=True'',
     ''nl_cpp_lambda_leave_one_liners=True'']"

definition uncrustify_config_file :: "int \<Rightarrow> string list" where
  "uncrustify_config_file level =
     config_level0 @ (if level \<ge> 1 then config_level1 else []) @ (if level \<ge> 2 then config_level2 else [])"

lemma config_levels_accumulate:
  "l \<le> m \<Longrightarrow> prefix (uncrustify_config_file l) (uncrustify_config_file m)"
  by (auto simp: uncrustify_config_file_def)

section \<open>Indenting a file\<close>

record tools =
  uncrustify :: "string list \<Rightarrow> string list option \<Rightarrow> string list option"
  unified_diff :: "string list \<Rightarrow> string list \<Rightarrow> string \<Rightarrow> string \<Rightarrow> string list"
  apply_patch :: "string list \<Rightarrow> string list \<Rightarrow> string list"
  temp_name :: string

type_synonym files = "string \<Rightarrow> string list option"

text \<open>
  \<^verbatim>\<open>indent\<close> returns the lines of the output file.  \<open>uncrustify\<close> maps the configuration and the
  source to its output, or to nothing when it is not installed.  The diff is a generator: in debug
  mode writing it to the initial diff file uses it up, and nothing is left for the pass below.
\<close>

definition indent :: "tools \<Rightarrow> files \<Rightarrow> string \<Rightarrow> bool \<Rightarrow> int \<Rightarrow> string list result" where
  "indent t fs source debug level =
     (case uncrustify t (uncrustify_config_file level) (fs source) of
        None \<Rightarrow> Inl PlainException
      | Some output \<Rightarrow>
     (case fs source of
        None \<Rightarrow> Inl OSError
      | Some src \<Rightarrow>
          let diff = unified_diff t src output source (temp_name t);
              diff_left = (if debug then [] else diff)
          in res_bind (if level < 3
                       then res_bind (remove_trailing_whitespace_changes diff_left) (\<lambda>patchset.
                              case patchset of [] \<Rightarrow> Inr [] | p # _ \<Rightarrow> write_patch p)
                       else Inr diff_left) (\<lambda>final_diff.
             Inr (apply_patch t final_diff src))))"

section \<open>Checking files\<close>

definition indent_all :: "tools \<Rightarrow> files \<Rightarrow> bool \<Rightarrow> int \<Rightarrow> string list \<Rightarrow> (string \<times> string list) list result" where
  "indent_all t fs debug level names =
     for_each (\<lambda>f output. res_bind (indent t fs f debug level) (\<lambda>dst. Inr (output @ [(f, dst)]))) names []"

definition copy_all :: "(string \<times> string list) list \<Rightarrow> files \<Rightarrow> files" where
  "copy_all output fs = foldl (\<lambda>g (src, dst). g(src \<mapsto> dst)) fs output"

definition report :: "tools \<Rightarrow> files \<Rightarrow> bool \<Rightarrow> (string \<times> string list) list \<Rightarrow> string list" where
  "report t fs diff failed =
     (if \<not> diff
      then (''Found '' @ show_nat (length failed) @ '' badly indented files:'') #
           map (\<lambda>(src, dst). ''  '' @ src) failed
      else concat (map (\<lambda>(src, dst). unified_diff t (case fs src of None \<Rightarrow> [] | Some s \<Rightarrow> s) dst src (temp_name t)) failed))"

text \<open>\<^verbatim>\<open>indent_files\<close>: the verdict, the lines printed and the files left behind.\<close>

definition indent_files ::
    "tools \<Rightarrow> files \<Rightarrow> string list \<Rightarrow> bool \<Rightarrow> bool \<Rightarrow> int \<Rightarrow> bool \<Rightarrow> (bool \<times> string list \<times> files) result" where
  "indent_files t fs names diff debug level inplace =
     res_bind (indent_all t fs debug level names) (\<lambda>output.
       if inplace then Inr (True, [], copy_all output fs)
       else let failed = filter (\<lambda>(src, dst). fs src \<noteq> Some dst) output
            in if failed \<noteq> [] then Inr (False, report t fs diff failed, fs) else Inr (True, [], fs))"

text \<open>\<^verbatim>\<open>git_modified_files\<close>, from the lines printed by the two git commands.\<close>

definition git_modified_files :: "string list \<Rightarrow> string \<Rightarrow> string list" where
  "git_modified_files diff_lines root_dir =
     map (\<lambda>filename. butlast root_dir @ ''/'' @ py_strip filename)
       (filter (\<lambda>item. suffix ''.h'' item \<or> suffix ''.cc'' item) (map py_strip diff_lines))"

record options =
  opt_debug :: bool
  opt_level :: int
  opt_git :: bool
  opt_file :: string
  opt_diff :: bool
  opt_in_place :: bool

text \<open>The exit code, the lines printed and the files left by the program; an exception of any kind
  ends it with exit code 1.\<close>

definition check_style_main ::
    "tools \<Rightarrow> files \<Rightarrow> string list \<Rightarrow> string \<Rightarrow> options \<Rightarrow> int \<times> string list \<times> files" where
  "check_style_main t fs git_lines git_root opt =
     (let finish = (\<lambda>r. case r of
                          Inl e \<Rightarrow> (1, [], fs)
                        | Inr (ok, out, fs') \<Rightarrow> (if ok then 0 else 1, out, fs'));
          check = (\<lambda>names. finish (indent_files t fs names (opt_diff opt) (opt_debug opt) (opt_level opt) (opt_in_place opt)))
      in if opt_git opt then check (git_modified_files git_lines git_root)
         else if opt_file opt \<noteq> []
         then if fs (opt_file opt) = None then (1, [''file '' @ opt_file opt @ '' does not exist''], fs)
              else check [opt_file opt]
         else (1, [], fs))"

section \<open>What the exit code says\<close>

lemma indent_all_iff:
  "indent_all t fs debug level names = Inr output \<longleftrightarrow>
     length output = length names \<and>
     (\<forall>i < length names. fst (output ! i) = names ! i \<and> indent t fs (names ! i) debug level = Inr (snd (output ! i)))"
proof -
  have "for_each (\<lambda>f output. res_bind (indent t fs f debug level) (\<lambda>dst. Inr (output @ [(f, dst)]))) names acc = Inr output
     \<longleftrightarrow> (\<exists>new. output = acc @ new \<and> length new = length names \<and>
          (\<forall>i < length names. fst (new ! i) = names ! i \<and> indent t fs (names ! i) debug level = Inr (snd (new ! i))))"
    for acc
  proof (induction names arbitrary: acc)
    case (Cons f names)
    show ?case
    proof (cases "indent t fs f debug level")
      case (Inl e)
      then show ?thesis by (auto simp: length_Suc_conv)
    next
      case (Inr dst)
      show ?thesis (is "?l \<longleftrightarrow> ?r")
      proof
        assume ?l
        with Cons.IH Inr obtain new where n: "output = (acc @ [(f, dst)]) @ new" "length new = length names"
          "\<forall>i < length names. fst (new ! i) = names ! i \<and> indent t fs (names ! i) debug level = Inr (snd (new ! i))"
          by auto
        with Inr show ?r by (intro exI [of _ "(f, dst) # new"]) (auto simp: nth_Cons split: nat.split)
      next
        assume ?r
        then obtain new where n: "output = acc @ new" "length new = Suc (length names)"
          "\<forall>i < Suc (length names). fst (new ! i) = (f # names) ! i \<and>
             indent t fs ((f # names) ! i) debug level = Inr (snd (new ! i))" by auto
        then obtain x more_new where x: "new = x # more_new" by (auto simp: length_Suc_conv)
        have "x = (f, dst)" using n(3) [rule_format, of 0] x Inr by (cases x) simp
        moreover have "fst (more_new ! i) = names ! i \<and> indent t fs (names ! i) debug level = Inr (snd (more_new ! i))"
          if "i < length names" for i using n(3) [rule_format, of "Suc i"] x that by simp
        ultimately show ?l using Cons.IH [of "acc @ [(f, dst)]"] Inr n(1,2) x by auto
      qed
    qed
  qed auto
  from this [of "[]"] show ?thesis by (simp add: indent_all_def)
qed

lemma indent_files_ok:
  "(\<exists>out fs'. indent_files t fs names diff debug level False = Inr (True, out, fs')) \<longleftrightarrow>
     (\<forall>f \<in> set names. \<exists>src. fs f = Some src \<and> indent t fs f debug level = Inr src)"
proof (cases "indent_all t fs debug level names")
  case (Inl e)
  have "\<not> (\<forall>f \<in> set names. \<exists>src. fs f = Some src \<and> indent t fs f debug level = Inr src)"
  proof
    assume "\<forall>f \<in> set names. \<exists>src. fs f = Some src \<and> indent t fs f debug level = Inr src"
    then have "indent_all t fs debug level names = Inr (map (\<lambda>f. (f, the (fs f))) names)"
      unfolding indent_all_iff by (fastforce simp: all_set_conv_all_nth)
    with Inl show False by simp
  qed
  with Inl show ?thesis by (simp add: indent_files_def)
next
  case (Inr outs)
  then have out: "length outs = length names"
    "\<And>i. i < length names \<Longrightarrow> fst (outs ! i) = names ! i \<and> indent t fs (names ! i) debug level = Inr (snd (outs ! i))"
    by (auto simp: indent_all_iff)
  have "(filter (\<lambda>(src, dst). fs src \<noteq> Some dst) outs = []) \<longleftrightarrow> (\<forall>i < length names. fs (names ! i) = Some (snd (outs ! i)))"
    using out by (auto simp: filter_empty_conv all_set_conv_all_nth case_prod_unfold)
  also have "\<dots> \<longleftrightarrow> (\<forall>f \<in> set names. \<exists>src. fs f = Some src \<and> indent t fs f debug level = Inr src)"
    unfolding all_set_conv_all_nth using out(2) by auto
  finally show ?thesis using Inr by (auto simp: indent_files_def Let_def)
qed

lemma indent_files_same: "indent_files t fs names diff debug level False = Inr (ok, out, fs') \<Longrightarrow> fs' = fs"
  by (auto simp: indent_files_def res_simps Let_def split: if_splits)

lemma check_style_exit:
  assumes "\<not> opt_in_place opt"
    and "names = (if opt_git opt then git_modified_files git_lines git_root else [opt_file opt])"
  shows "fst (check_style_main t fs git_lines git_root opt) = 0 \<longleftrightarrow>
      (opt_git opt \<or> opt_file opt \<noteq> []) \<and>
      (\<forall>f \<in> set names. \<exists>src. fs f = Some src \<and> indent t fs f (opt_debug opt) (opt_level opt) = Inr src)"
    and "snd (snd (check_style_main t fs git_lines git_root opt)) = fs"
proof -
  let ?r = "\<lambda>ns. indent_files t fs ns (opt_diff opt) (opt_debug opt) (opt_level opt) False"
  let ?fin = "\<lambda>r. case r of Inl e \<Rightarrow> (1 :: int, [], fs) | Inr (ok, out, fs') \<Rightarrow> (if ok then 0 else 1, out, fs')"
  have fin: "fst (?fin (?r ns)) = 0 \<longleftrightarrow>
      (\<forall>f \<in> set ns. \<exists>src. fs f = Some src \<and> indent t fs f (opt_debug opt) (opt_level opt) = Inr src)" for ns
    unfolding indent_files_ok [symmetric, of _ _ _ _ _ "opt_diff opt"]
    by (auto split: sum.splits prod.splits)
  have same: "snd (snd (?fin (?r ns))) = fs" for ns
    using indent_files_same [of t fs ns] by (auto split: sum.splits prod.splits)
  show "fst (check_style_main t fs git_lines git_root opt) = 0 \<longleftrightarrow>
      (opt_git opt \<or> opt_file opt \<noteq> []) \<and>
      (\<forall>f \<in> set names. \<exists>src. fs f = Some src \<and> indent t fs f (opt_debug opt) (opt_level opt) = Inr src)"
  proof (cases "opt_git opt")
    case True
    then show ?thesis using assms fin [of names] by (simp add: check_style_main_def Let_def)
  next
    case False
    show ?thesis
    proof (cases "opt_file opt = [] \<or> fs (opt_file opt) = None")
      case True
      with False show ?thesis using assms(2) by (auto simp: check_style_main_def Let_def)
    next
      case False2: False
      with False have "check_style_main t fs git_lines git_root opt = ?fin (?r names)"
        using assms by (auto simp: check_style_main_def Let_def)
      with False2 show ?thesis using fin [of names] by simp
    qed
  qed
  show "snd (snd (check_style_main t fs git_lines git_root opt)) = fs"
    using assms(1) same [of "git_modified_files git_lines git_root"] same [of "[opt_file opt]"]
    unfolding check_style_main_def Let_def
    by (cases "opt_git opt"; cases "opt_file opt = []"; cases "fs (opt_file opt) = None") simp_all
qed

text \<open>The exit code of a check that does not work in place: it is 0 exactly when every file named
  by git, or the one file named by the option, exists and equals its indented form; no file is
  changed.  With neither option the exit code is 1.\<close>

theorem check_style_exit_code:
  assumes "\<not> opt_in_place opt"
    and "names = (if opt_git opt then git_modified_files git_lines git_root else [opt_file opt])"
  shows "(fst (check_style_main t fs git_lines git_root opt) = 0 \<longleftrightarrow>
      (opt_git opt \<or> opt_file opt \<noteq> []) \<and>
      (\<forall>f \<in> set names. \<exists>src. fs f = Some src \<and> indent t fs f (opt_debug opt) (opt_level opt) = Inr src)) \<and>
    snd (snd (check_style_main t fs git_lines git_root opt)) = fs"
  using check_style_exit [OF assms] by blast

text \<open>An example: a formatter that drops final blanks, a diff that lists both files whole, and a
  patch program that takes the added lines.\<close>

definition demo_tools :: tools where
  "demo_tools = \<lparr>
     uncrustify = (\<lambda>cfg src. map_option (map (\<lambda>l. rev (dropWhile is_blank (rev l)))) src),
     unified_diff = (\<lambda>a b f g. if a = b then []
        else [''--- '' @ f, ''+++ '' @ g, ''@@ -1,2 +1,2 @@''] @ map (\<lambda>l. ''-'' @ l) a @ map (\<lambda>l. ''+'' @ l) b),
     apply_patch = (\<lambda>d src. if d = [] then src
        else concat (map (\<lambda>l. if prefix ''+'' l \<and> \<not> prefix ''+++'' l then [butlast (tl l)] else []) d)),
     temp_name = ''tmp''\<rparr>"

definition demo_options :: options where
  "demo_options = \<lparr>opt_debug = False, opt_level = 0, opt_git = False, opt_file = ''a.cc'', opt_diff = False,
     opt_in_place = False\<rparr>"

definition demo_files :: files where
  "demo_files = (\<lambda>f. if f = ''a.cc'' then Some [''x  '', ''y''] else None)"

theorem check_style_exit_code_witness:
  "(fst (check_style_main demo_tools demo_files [] [] demo_options) = 0 \<longleftrightarrow>
      (opt_git demo_options \<or> opt_file demo_options \<noteq> []) \<and>
      (\<forall>f \<in> set [''a.cc'']. \<exists>src. demo_files f = Some src \<and>
         indent demo_tools demo_files f (opt_debug demo_options) (opt_level demo_options) = Inr src)) \<and>
   snd (snd (check_style_main demo_tools demo_files [] [] demo_options)) = demo_files"
proof -
  have 1: "\<not> opt_in_place demo_options"
    "[''a.cc''] = (if opt_git demo_options then git_modified_files [] [] else [opt_file demo_options])"
    by (simp_all add: demo_options_def)
  show ?thesis using check_style_exit_code [OF 1, of demo_tools demo_files] by blast
qed

lemma demo_badly_indented: "fst (check_style_main demo_tools demo_files [] [] demo_options) = 1"
  by code_simp

text \<open>In debug mode the check always passes: the diff has been used up by the debugging output, so
  the final diff is empty.  Provided that patching with an empty diff changes nothing and
  uncrustify is installed, every existing file equals its indented form, whatever uncrustify makes
  of it, and checking one file ends with exit code 0.\<close>

theorem check_style_debug_passes:
  assumes "\<forall>x. apply_patch t [] x = x" and "\<forall>cfg src. uncrustify t cfg src \<noteq> None"
    and "fs f = Some src" and "f \<noteq> []"
    and "opt_debug opt" and "\<not> opt_git opt" and "opt_file opt = f" and "\<not> opt_in_place opt"
  shows "indent t fs f True level = Inr src \<and> fst (check_style_main t fs git_lines git_root opt) = 0"
proof -
  have "parse_patchset [] = Inr []" by (simp add: parse_patchset_def reader_init_def)
  then have indent: "indent t fs f True lv = Inr src" for lv
  proof -
    obtain ls where "uncrustify t (uncrustify_config_file lv) (fs f) = Some ls" using assms(2) by fastforce
    then show ?thesis
      using \<open>parse_patchset [] = Inr []\<close> assms(1,3) by (simp add: indent_def remove_trailing_whitespace_changes_def)
  qed
  then have "\<exists>out fs'. indent_files t fs [f] (opt_diff opt) True (opt_level opt) False = Inr (True, out, fs')"
    unfolding indent_files_ok using assms(3) by simp
  then show ?thesis
    using indent assms(3-) by (auto simp: check_style_main_def Let_def)
qed

theorem check_style_debug_passes_witness:
  "indent demo_tools demo_files ''a.cc'' True 0 = Inr [''x  '', ''y''] \<and>
   fst (check_style_main (demo_tools\<lparr>uncrustify := (\<lambda>_ _. Some [])\<rparr>) demo_files [] [] (demo_options\<lparr>opt_debug := True\<rparr>)) = 0"
proof -
  let ?t = "demo_tools\<lparr>uncrustify := (\<lambda>_ _. Some [])\<rparr>"
  have "indent ?t demo_files ''a.cc'' True 0 = Inr [''x  '', ''y''] \<and>
      fst (check_style_main ?t demo_files [] [] (demo_options\<lparr>opt_debug := True\<rparr>)) = 0"
    by (rule check_style_debug_passes) (simp_all add: demo_tools_def demo_files_def demo_options_def)
  moreover have "indent demo_tools demo_files ''a.cc'' True 0 = Inr [''x  '', ''y'']" by code_simp
  ultimately show ?thesis by blast
qed

end
