(* ===== verification/Rad_Numbers.thy ===== *)
theory Rad_Numbers
  imports Rad_Util
begin

text \<open>
  The numeric utilities of \<^verbatim>\<open>bindings/python/rad_util.py\<close>, with the arithmetic of Python 2:
  \<^verbatim>\<open>/\<close> on two integers is floor division.  Python integers are \<open>int\<close>; floats are idealised
  to exact rationals, so rounding errors are not modelled.
\<close>

section \<open>Binary strings\<close>

definition hex2bin :: "nat \<Rightarrow> string" where
  "hex2bin d =
     [''0000'', ''0001'', ''0010'', ''0011'', ''0100'', ''0101'', ''0110'', ''0111'',
      ''1000'', ''1001'', ''1010'', ''1011'', ''1100'', ''1101'', ''1110'', ''1111''] ! d"

text \<open>The digits of \<^verbatim>\<open>hex(i)\<close> for a non-negative \<open>i\<close>, most significant first.\<close>

fun hex_digits :: "nat \<Rightarrow> nat list" where
  "hex_digits n = (if n < 16 then [n] else hex_digits (n div 16) @ [n mod 16])"

declare hex_digits.simps [simp del]

text \<open>\<^verbatim>\<open>int2bin\<close>.  For a negative number \<^verbatim>\<open>hex(i)[2:]\<close> starts with an \<^verbatim>\<open>x\<close>, which the table
  does not hold.\<close>

definition int2bin :: "int \<Rightarrow> int \<Rightarrow> string result" where
  "int2bin i n =
     (if i < 0 then Inl KeyError
      else let res = concat (map hex2bin (hex_digits (nat i)))
           in if CHR ''1'' \<in> set (slice_to res (- n)) then Inl ValueError
              else let res' = slice_from res (- n)
                   in Inr (replicate (nat (n - int (length res'))) (CHR ''0'') @ res'))"

text \<open>The value of a string of binary digits, and \<^verbatim>\<open>int(s, 2)\<close>: blanks around the number, a
  sign and a \<^verbatim>\<open>0b\<close> prefix are accepted.\<close>

definition bin_val :: "string \<Rightarrow> nat" where
  "bin_val s = foldl (\<lambda>v c. 2 * v + (if c = CHR ''1'' then 1 else 0)) 0 s"

definition is_bin :: "string \<Rightarrow> bool" where
  "is_bin s \<longleftrightarrow> list_all (\<lambda>c. c = CHR ''0'' \<or> c = CHR ''1'') s"

definition bin2int :: "string \<Rightarrow> int result" where
  "bin2int bin_string =
     (let s = py_strip bin_string;
          (neg, t) = (case s of
                        c # r \<Rightarrow> if c = CHR ''-'' then (True, r) else if c = CHR ''+'' then (False, r) else (False, s)
                      | [] \<Rightarrow> (False, s));
          u = (if prefix ''0b'' t \<or> prefix ''0B'' t then drop 2 t else t)
      in if u \<noteq> [] \<and> is_bin u then Inr (if neg then - int (bin_val u) else int (bin_val u))
         else Inl ValueError)"

lemma is_bin_drop: "is_bin s \<Longrightarrow> is_bin (drop k s)"
  by (auto simp: is_bin_def list_all_iff dest: in_set_dropD)

lemma is_bin_pad: "is_bin s \<Longrightarrow> is_bin (replicate k (CHR ''0'') @ s)"
  by (induction k) (auto simp: is_bin_def)

lemma bin_val_fold:
  "foldl (\<lambda>v c. 2 * v + (if c = CHR ''1'' then 1 else 0)) a s = a * 2 ^ length s + bin_val s"
proof (induction s arbitrary: a rule: rev_induct)
  case (snoc c s)
  have "bin_val (s @ [c]) = 2 * bin_val s + (if c = CHR ''1'' then 1 else 0)"
    by (simp add: bin_val_def)
  with snoc.IH [of a] show ?case by (simp add: algebra_simps)
qed (simp add: bin_val_def)

lemma bin_val_append: "bin_val (us @ vs) = bin_val us * 2 ^ length vs + bin_val vs"
  using bin_val_fold [of "bin_val us" vs] by (simp add: bin_val_def)

lemma bin_val_Cons: "bin_val (c # s) = (if c = CHR ''1'' then 2 ^ length s else 0) + bin_val s"
  using bin_val_append [of "[c]" s] by (simp add: bin_val_def)

lemma bin_val_Nil [simp]: "bin_val [] = 0"
  by (simp add: bin_val_def)

lemma bin_val_bound: "bin_val s < 2 ^ length s"
  by (induction s) (auto simp: bin_val_Cons)

lemma bin_val_zero_iff: "bin_val s = 0 \<longleftrightarrow> CHR ''1'' \<notin> set s"
  by (induction s) (auto simp: bin_val_Cons)

lemma bin_val_replicate_0 [simp]: "bin_val (replicate k (CHR ''0'') @ s) = bin_val s"
  by (induction k) (auto simp: bin_val_Cons)

lemma hex2bin_all: "list_all (\<lambda>d. length (hex2bin d) = 4 \<and> bin_val (hex2bin d) = d \<and> is_bin (hex2bin d)) [0..<16]"
  by code_simp

lemma hex2bin_props:
  assumes "d < 16"
  shows "length (hex2bin d) = 4" and "bin_val (hex2bin d) = d" and "is_bin (hex2bin d)"
  using hex2bin_all assms by (auto simp: list_all_iff)

lemma hex_digits_less: "\<forall>d \<in> set (hex_digits n). d < 16"
proof (induction n rule: hex_digits.induct)
  case (1 n)
  then show ?case by (subst hex_digits.simps) auto
qed

lemma hex_digits_nonempty [simp]: "hex_digits n \<noteq> []"
  by (subst hex_digits.simps) simp

lemma bin_val_hex: "bin_val (concat (map hex2bin (hex_digits n))) = n"
proof (induction n rule: hex_digits.induct)
  case (1 n)
  show ?case
  proof (cases "n < 16")
    case True
    then show ?thesis by (simp add: hex_digits.simps [of n] hex2bin_props)
  next
    case False
    with 1 have "bin_val (concat (map hex2bin (hex_digits (n div 16)))) = n div 16" by simp
    with False show ?thesis
      by (simp add: hex_digits.simps [of n] bin_val_append hex2bin_props)
  qed
qed

lemma is_bin_hex: "is_bin (concat (map hex2bin (hex_digits n)))"
  using hex_digits_less [of n] hex2bin_props(3) by (fastforce simp: is_bin_def list_all_iff)

lemma hex_nonempty: "concat (map hex2bin (hex_digits n)) \<noteq> []"
proof -
  obtain d ds where "hex_digits n = d # ds" by (cases "hex_digits n") auto
  moreover from this have "length (hex2bin d) = 4"
    using hex_digits_less [of n] hex2bin_props(1) by auto
  ultimately show ?thesis by auto
qed

text \<open>Cutting a binary string to its last \<open>n\<close> digits loses nothing exactly when its value
  is below \<open>2 ^ n\<close>.\<close>

lemma cut_value:
  assumes "is_bin s"
  shows "CHR ''1'' \<notin> set (take (length s - n) s) \<longleftrightarrow> bin_val s < 2 ^ n"
proof -
  let ?us = "take (length s - n) s" and ?vs = "drop (length s - n) s"
  have split: "bin_val s = bin_val ?us * 2 ^ length ?vs + bin_val ?vs"
    using bin_val_append [of ?us ?vs] by simp
  show ?thesis
  proof (cases "n \<le> length s")
    case True
    then have len: "length ?vs = n" by simp
    have "bin_val ?vs < 2 ^ n" using bin_val_bound [of ?vs] len by simp
    moreover have "2 ^ n \<le> bin_val s" if "bin_val ?us \<noteq> 0"
    proof -
      have "1 * 2 ^ n \<le> bin_val ?us * 2 ^ n" using that by (intro mult_le_mono1) simp
      then show ?thesis unfolding split len mult_1 by (rule trans_le_add1)
    qed
    ultimately have "bin_val s < 2 ^ n \<longleftrightarrow> bin_val ?us = 0"
      using split len by (metis add_0 mult_0 not_le)
    then show ?thesis by (simp add: bin_val_zero_iff)
  next
    case False
    have "bin_val s < 2 ^ length s" by (rule bin_val_bound)
    also have "\<dots> \<le> 2 ^ n" using False by (intro power_increasing) auto
    finally show ?thesis using False by simp
  qed
qed

lemma bin2int_bin:
  assumes "is_bin s" and "s \<noteq> []"
  shows "bin2int s = Inr (int (bin_val s))"
proof -
  have sp: "\<not> is_space c" if "c = CHR ''0'' \<or> c = CHR ''1''" for c
    using that by (auto simp: is_space_def)
  have all: "\<forall>c \<in> set s. c = CHR ''0'' \<or> c = CHR ''1''"
    using assms(1) by (simp add: is_bin_def list_all_iff)
  have dw: "dropWhile is_space t = t" if "\<forall>c \<in> set t. c = CHR ''0'' \<or> c = CHR ''1''" for t
    using that sp by (cases t) auto
  have "py_strip s = s"
    using dw [OF all] dw [of "rev s"] all by (simp add: py_strip_def)
  moreover obtain c r where s: "s = c # r" using assms(2) by (cases s) auto
  moreover have "\<not> prefix ''0b'' s"
  proof
    assume "prefix ''0b'' s"
    then have "CHR ''b'' \<in> set s" by (auto simp: prefix_def)
    then show False using all by fastforce
  qed
  moreover have "\<not> prefix ''0B'' s"
  proof
    assume "prefix ''0B'' s"
    then have "CHR ''B'' \<in> set s" by (auto simp: prefix_def)
    then show False using all by fastforce
  qed
  moreover have "c = CHR ''0'' \<or> c = CHR ''1''" using all s by simp
  then have "c \<noteq> CHR ''-''" "c \<noteq> CHR ''+''" by auto
  ultimately show ?thesis
    using assms unfolding bin2int_def Let_def by (simp only: list.case if_False prod.case) simp
qed

lemma int2bin_in_range:
  assumes "0 \<le> i" and "i < 2 ^ n" and "0 < n"
  shows "\<exists>s. int2bin i (int n) = Inr s \<and> length s = n \<and> is_bin s \<and> bin_val s = nat i"
proof -
  let ?r = "concat (map hex2bin (hex_digits (nat i)))"
  let ?s = "replicate (n - length (drop (length ?r - n) ?r)) (CHR ''0'') @ drop (length ?r - n) ?r"
  have clip: "py_clip ?r (- int n) = length ?r - n"
    using assms(3) by (rule py_clip_neg)
  have ok: "CHR ''1'' \<notin> set (take (length ?r - n) ?r)"
    using cut_value [OF is_bin_hex, of "nat i" n] assms(1,2) bin_val_hex [of "nat i"]
    by (simp add: nat_less_numeral_power_cancel_iff)
  have "nat (int n - int (length (drop (length ?r - n) ?r))) = n - length (drop (length ?r - n) ?r)"
    by linarith
  moreover have "\<not> i < 0" using assms(1) by simp
  ultimately have "int2bin i (int n) = Inr ?s"
    using ok by (simp only: int2bin_def slice_to_def slice_from_def clip Let_def if_False)
  moreover have "length ?s = n" by simp
  moreover have "is_bin ?s"
    by (intro is_bin_pad is_bin_drop is_bin_hex)
  moreover have "bin_val ?r = bin_val (take (length ?r - n) ?r) * 2 ^ length (drop (length ?r - n) ?r)
      + bin_val (drop (length ?r - n) ?r)"
    using bin_val_append [of "take (length ?r - n) ?r" "drop (length ?r - n) ?r"] by simp
  then have "bin_val ?s = nat i"
    using ok by (simp add: bin_val_hex bin_val_zero_iff [symmetric])
  ultimately show ?thesis by blast
qed

lemma int2bin_too_large:
  assumes "2 ^ n \<le> i" and "0 < n"
  shows "int2bin i (int n) = Inl ValueError"
proof -
  let ?r = "concat (map hex2bin (hex_digits (nat i)))"
  have "0 \<le> i" using assms(1) by (meson order_trans zero_le_numeral zero_le_power)
  moreover have "\<not> nat i < 2 ^ n" using assms(1) by (simp add: nat_less_numeral_power_cancel_iff)
  then have "CHR ''1'' \<in> set (take (length ?r - n) ?r)"
    using cut_value [OF is_bin_hex, of "nat i" n] bin_val_hex [of "nat i"] by auto
  ultimately show ?thesis
    using py_clip_neg [OF assms(2), of ?r] by (simp add: int2bin_def slice_to_def Let_def)
qed

text \<open>Conversion to and from fixed-width binary strings: for a positive width \<open>n\<close> and a
  non-negative \<open>i\<close>, \<^verbatim>\<open>int2bin\<close> returns exactly \<open>n\<close> binary digits, which \<^verbatim>\<open>bin2int\<close> reads back as
  \<open>i\<close>, when \<open>i < 2 ^ n\<close>, and raises \<^verbatim>\<open>ValueError\<close> otherwise.\<close>

theorem int2bin_roundtrip:
  assumes "0 < n" and "0 \<le> i"
  shows "if i < 2 ^ n
         then \<exists>s. int2bin i (int n) = Inr s \<and> length s = n \<and> is_bin s \<and> bin2int s = Inr i
         else int2bin i (int n) = Inl ValueError"
proof (cases "i < 2 ^ n")
  case True
  from int2bin_in_range [OF assms(2) True assms(1)]
  obtain s where s: "int2bin i (int n) = Inr s" "length s = n" "is_bin s" "bin_val s = nat i" by blast
  with assms have "bin2int s = Inr i" using bin2int_bin [of s] by auto
  with s True show ?thesis by auto
next
  case False
  then show ?thesis using int2bin_too_large [of n i] assms(1) by simp
qed

theorem int2bin_roundtrip_witness:
  "(\<exists>s. int2bin 123 (int 8) = Inr s \<and> length s = 8 \<and> is_bin s \<and> bin2int s = Inr 123)
   \<and> int2bin 15 (int 2) = Inl ValueError"
  using int2bin_roundtrip [of 8 123] int2bin_roundtrip [of 2 15] by simp

text \<open>\<^verbatim>\<open>lsb\<close>: for a negative \<open>n\<close> the mask \<^verbatim>\<open>2 ** n - 1\<close> is a float, which \<^verbatim>\<open>&\<close> refuses.\<close>

unbundle bit_operations_syntax

definition lsb :: "int \<Rightarrow> int \<Rightarrow> int result" where
  "lsb x n = (if n < 0 then Inl TypeError else Inr (x AND (2 ^ nat n - 1)))"

lemma lsb_mod: "lsb x (int n) = Inr (x mod 2 ^ n)"
  by (simp add: lsb_def flip: mask_eq_exp_minus_1 take_bit_eq_mask take_bit_eq_mod)

definition gray_encode :: "int \<Rightarrow> int" where
  "gray_encode i = i XOR (drop_bit 1 i)"

lemma bit_gray: "bit (gray_encode i) k \<longleftrightarrow> bit i k \<noteq> bit i (Suc k)"
  by (simp add: gray_encode_def bit_xor_iff bit_drop_bit_eq)

text \<open>Counting up by one flips a block of trailing digits.\<close>

lemma xor_succ_mask: "0 \<le> (i::int) \<Longrightarrow> \<exists>k. i XOR (i + 1) = mask (Suc k)"
proof (induction "nat i" arbitrary: i rule: less_induct)
  case less
  show ?case
  proof (cases "even i")
    case True
    then obtain j where i: "i = 2 * j" by (elim evenE)
    have "i XOR (i + 1) = mask (Suc 0)"
      unfolding i by (subst xor_rec) simp
    then show ?thesis ..
  next
    case False
    then obtain j where i: "i = 2 * j + 1" by (elim oddE)
    have "0 \<le> j" "nat j < nat i" using less.prems i by auto
    then obtain k where k: "j XOR (j + 1) = mask (Suc k)" using less.hyps by blast
    have "i XOR (i + 1) = 1 + 2 * (j XOR (j + 1))"
      unfolding i by (subst xor_rec) (simp add: add.commute)
    then have "i XOR (i + 1) = mask (Suc (Suc k))"
      unfolding k by (simp add: mask_eq_exp_minus_1)
    then show ?thesis ..
  qed
qed

lemma mask_xor_half: "mask (Suc k) XOR drop_bit 1 (mask (Suc k)) = (2 ^ k :: int)"
  by (rule bit_eqI) (auto simp: bit_xor_iff bit_drop_bit_eq bit_mask_iff bit_exp_iff)

text \<open>Gray codes of consecutive numbers differ in exactly one binary digit: for every
  non-negative \<open>i\<close> the exclusive or of the codes of \<open>i\<close> and \<open>i + 1\<close> is a power of two.\<close>

theorem gray_encode_adjacent:
  assumes "0 \<le> i"
  shows "\<exists>k. gray_encode i XOR gray_encode (i + 1) = 2 ^ k"
proof -
  obtain k where k: "i XOR (i + 1) = mask (Suc k)" using xor_succ_mask [OF assms] by blast
  have "gray_encode i XOR gray_encode (i + 1) = (i XOR (i + 1)) XOR drop_bit 1 (i XOR (i + 1))"
    by (simp add: gray_encode_def drop_bit_xor ac_simps)
  then show ?thesis unfolding k mask_xor_half by blast
qed

theorem gray_encode_adjacent_witness: "\<exists>k. gray_encode 7 XOR gray_encode (7 + 1) = 2 ^ k"
  by (rule gray_encode_adjacent) simp

text \<open>Distinct numbers have distinct codes, as their digits are determined from the top down.\<close>

lemma gray_encode_inj:
  assumes "0 \<le> i" and "0 \<le> j" and "gray_encode i = gray_encode j"
  shows "i = j"
proof -
  define n where "n = nat (max i j)"
  have "max i j = int n" using assms(1,2) by (simp add: n_def max_def)
  moreover have "int n < 2 ^ n" by (rule of_nat_less_two_power)
  ultimately have "k < 2 ^ n" if "k \<le> max i j" for k :: int using that by linarith
  then have n: "i < 2 ^ n" "j < 2 ^ n" by simp_all
  have step: "bit i k = bit j k" if "bit i (Suc k) = bit j (Suc k)" for k
    using that assms(3) bit_gray [of i k] bit_gray [of j k] by auto
  have top: "\<not> bit i k \<and> \<not> bit j k" if "n \<le> k" for k
    using n that assms(1,2) by (metis bit_take_bit_iff leD take_bit_int_eq_self)
  have "bit i (n - m) = bit j (n - m)" for m
  proof (induction m)
    case (Suc m)
    show ?case
    proof (cases "m < n")
      case True
      then have "Suc (n - Suc m) = n - m" by simp
      then show ?thesis using step [of "n - Suc m"] Suc by simp
    qed (use Suc in simp)
  qed (simp add: top)
  then have "bit i k = bit j k" for k
    using top [of k] by (metis diff_diff_cancel nat_le_linear)
  then show ?thesis by (simp add: bit_eq_iff)
qed

section \<open>Counting in binary\<close>

text \<open>
  \<^verbatim>\<open>binary_range\<close> keeps the digits of its counter, least significant first, in \<open>v\<close>, and the
  carries in \<open>toggle\<close>.  The inner \<^verbatim>\<open>while\<close> is \<open>bump\<close>; the outer one stops when the carry leaves
  the last digit.
\<close>

function bump :: "nat \<Rightarrow> nat \<Rightarrow> string \<Rightarrow> nat list \<Rightarrow> string \<times> nat list" where
  "bump bits i v toggle =
     (if i < bits \<and> toggle ! i = 1
      then if v ! i = CHR ''0''
           then bump bits (Suc i) (v[i := CHR ''1'']) (toggle[Suc i := 0])
           else bump bits (Suc i) (v[i := CHR ''0'']) (toggle[Suc i := 1])
      else (v, toggle))"
  by pat_completeness auto
termination by (relation "measure (\<lambda>(bits, i, _, _). bits - i)") auto

declare bump.simps [simp del]

partial_function (option) binary_range_loop ::
    "nat \<Rightarrow> string \<Rightarrow> nat list \<Rightarrow> string list \<Rightarrow> string list option" where
  "binary_range_loop bits v toggle l =
     (if toggle ! bits \<noteq> 1
      then let (v', toggle') = bump bits 0 v (1 # replicate bits 0)
           in binary_range_loop bits v' toggle' (l @ [rev v])
      else Some l)"

definition binary_range :: "nat \<Rightarrow> string list option" where
  "binary_range bits = binary_range_loop bits (replicate bits (CHR ''0'')) (1 # replicate bits 0) []"

lemma bump_carry:
  assumes "length v = bits" and "is_bin v" and "i \<le> bits"
    and "length toggle = Suc bits" and "toggle ! i \<in> {0, 1}" and "\<forall>j > i. j \<le> bits \<longrightarrow> toggle ! j = 0"
  shows "length (fst (bump bits i v toggle)) = bits \<and> is_bin (fst (bump bits i v toggle))
    \<and> snd (bump bits i v toggle) ! bits \<in> {0, 1}
    \<and> bin_val (rev (fst (bump bits i v toggle))) + 2 ^ bits * snd (bump bits i v toggle) ! bits
      = bin_val (rev v) + 2 ^ i * toggle ! i"
  using assms
proof (induction "bits - i" arbitrary: i v toggle)
  case 0
  then have "i = bits" by simp
  with 0 show ?case by (simp add: bump.simps [of bits bits])
next
  case (Suc k)
  then have i: "i < bits" by simp
  show ?case
  proof (cases "toggle ! i = 1")
    case False
    then have "toggle ! i = 0" "toggle ! bits = 0" using Suc.prems i by auto
    then show ?thesis using Suc.prems by (simp add: bump.simps [of bits i])
  next
    case True
    let ?c = "v ! i = CHR ''0''"
    let ?v = "v[i := (if ?c then CHR ''1'' else CHR ''0'')]" and ?t = "toggle[Suc i := (if ?c then 0 else 1)]"
    have rec: "bump bits i v toggle = bump bits (Suc i) ?v ?t"
      using i True by (simp add: bump.simps [of bits i])
    have bv: "is_bin ?v"
      using Suc.prems(2) by (auto simp: is_bin_def list_all_iff dest!: set_update_subset_insert [THEN subsetD])
    have vi: "v ! i = CHR ''0'' \<or> v ! i = CHR ''1''"
      using Suc.prems(1,2) i by (simp add: is_bin_def list_all_length)
    have split: "v = take i v @ v ! i # drop (Suc i) v"
      using i Suc.prems(1) by (simp add: id_take_nth_drop)
    have upd: "?v = take i v @ (if ?c then CHR ''1'' else CHR ''0'') # drop (Suc i) v"
      using i Suc.prems(1) by (simp add: upd_conv_take_nth_drop)
    have len: "length (take i v) = i" using i Suc.prems(1) by simp
    have val: "bin_val (rev (take i v @ c # drop (Suc i) v)) = bin_val (rev (drop (Suc i) v)) * 2 ^ Suc i
        + (if c = CHR ''1'' then 2 ^ i else 0) + bin_val (rev (take i v))" for c
      using len by (simp add: bin_val_append bin_val_Cons)
    have "bin_val (rev ?v) + 2 ^ Suc i * ?t ! Suc i = bin_val (rev v) + 2 ^ i * toggle ! i"
    proof -
      have "bin_val (rev v) = bin_val (rev (drop (Suc i) v)) * 2 ^ Suc i
        + (if v ! i = CHR ''1'' then 2 ^ i else 0) + bin_val (rev (take i v))"
        using val [of "v ! i"] split by metis
      moreover have "?t ! Suc i = (if ?c then 0 else 1)" using i Suc.prems(4) by simp
      ultimately show ?thesis unfolding upd val using vi True by auto
    qed
    moreover have "\<forall>j > Suc i. j \<le> bits \<longrightarrow> ?t ! j = 0" using Suc.prems(6) by simp
    moreover have "?t ! Suc i \<in> {0, 1}" using i Suc.prems(4) by simp
    ultimately show ?thesis
      unfolding rec using Suc.hyps(1) [of "Suc i" ?v ?t] Suc.hyps(2) Suc.prems(1,4) bv i by simp
  qed
qed

lemma bump_start:
  assumes "length v = bits" and "is_bin v" and "bump bits 0 v (1 # replicate bits 0) = (v', toggle')"
  shows "length v' = bits" and "is_bin v'" and "toggle' ! bits \<in> {0, 1}"
    and "bin_val (rev v') + 2 ^ bits * toggle' ! bits = Suc (bin_val (rev v))"
  using bump_carry [of v bits 0 "1 # replicate bits 0"] assms by (auto simp: nth_Cons')

lemma bin_val_inject:
  assumes "is_bin s" and "is_bin t" and "length s = length t" and "bin_val s = bin_val t"
  shows "s = t"
  using assms
proof (induction s arbitrary: t rule: rev_induct)
  case (snoc c s)
  then obtain d u where t: "t = u @ [d]" by (cases t rule: rev_cases) auto
  have "2 * bin_val s + (if c = CHR ''1'' then 1 else 0) = 2 * bin_val u + (if d = CHR ''1'' then 1 else 0)"
    using snoc.prems(4) by (simp add: t bin_val_def)
  then have "bin_val s = bin_val u \<and> (c = CHR ''1'' \<longleftrightarrow> d = CHR ''1'')"
    by (cases "c = CHR ''1''"; cases "d = CHR ''1''") (auto, presburger+)
  with snoc show ?case by (auto simp: t is_bin_def)
qed simp

lemma int2bin_unique:
  assumes "is_bin s" and "length s = n" and "0 < n"
  shows "int2bin (int (bin_val s)) (int n) = Inr s"
proof -
  have "bin_val s < 2 ^ n" using bin_val_bound [of s] assms(2) by simp
  then have "int (bin_val s) < 2 ^ n" by (metis of_nat_less_iff of_nat_numeral of_nat_power)
  from int2bin_in_range [OF _ this assms(3)]
  obtain t where t: "int2bin (int (bin_val s)) (int n) = Inr t" "length t = n" "is_bin t" "bin_val t = bin_val s"
    by auto
  then have "t = s" using bin_val_inject [of t s] assms by simp
  with t show ?thesis by simp
qed

lemma binary_range_loop_counts:
  assumes "length v = n" and "is_bin v" and "0 < n" and "toggle ! n \<noteq> 1"
  shows "\<exists>ss. binary_range_loop n v toggle l = Some (l @ ss) \<and>
     map Inr ss = map (\<lambda>k. int2bin (int k) (int n)) [bin_val (rev v)..<2 ^ n]"
  using assms
proof (induction "2 ^ n - bin_val (rev v)" arbitrary: v toggle l rule: less_induct)
  case less
  let ?m = "bin_val (rev v)"
  have m: "?m < 2 ^ n" using bin_val_bound [of "rev v"] less.prems(1) by simp
  obtain v' toggle' where b: "bump n 0 v (1 # replicate n 0) = (v', toggle')"
    by (cases "bump n 0 v (1 # replicate n 0)") auto
  note v' = bump_start [OF less.prems(1,2) b]
  have unfold: "binary_range_loop n v toggle l = binary_range_loop n v' toggle' (l @ [rev v])"
    using less.prems(4) b by (simp add: binary_range_loop.simps [of n v toggle l])
  have "is_bin (rev v)" using less.prems(2) by (simp add: is_bin_def)
  then have here: "int2bin (int ?m) (int n) = Inr (rev v)"
    using int2bin_unique [of "rev v" n] less.prems(1,3) by simp
  show ?case
  proof (cases "toggle' ! n = 1")
    case True
    then have "Suc ?m = 2 ^ n"
      using v'(4) m by simp
    then have upt: "[?m..<2 ^ n] = [?m]" by (metis lessI less_irrefl upt_rec)
    show ?thesis
      unfolding unfold upt using True here
      by (auto simp: binary_range_loop.simps [of n v' toggle'] intro!: exI [of _ "[rev v]"])
  next
    case False
    then have nx: "bin_val (rev v') = Suc ?m" using v'(3,4) by simp
    have "2 ^ n - bin_val (rev v') < 2 ^ n - ?m" using m nx by simp
    from less.hyps [OF this v'(1,2) less.prems(3) False, of "l @ [rev v]"]
    obtain ss where ss: "binary_range_loop n v' toggle' (l @ [rev v]) = Some ((l @ [rev v]) @ ss)"
      "map Inr ss = map (\<lambda>k. int2bin (int k) (int n)) [Suc ?m..<2 ^ n]" unfolding nx by blast
    have "map Inr (rev v # ss) = map (\<lambda>k. int2bin (int k) (int n)) [?m..<2 ^ n]"
      using ss(2) here m by (simp add: upt_conv_Cons)
    then show ?thesis unfolding unfold ss(1) by (intro exI [of _ "rev v # ss"]) simp
  qed
qed

text \<open>The loop of \<^verbatim>\<open>binary_range\<close> ends, and lists the \<open>n\<close>-digit binary strings of the numbers
  from 0 to \<open>2 ^ n - 1\<close> in order, each the one \<^verbatim>\<open>int2bin\<close> gives, for every positive width \<open>n\<close>.\<close>

theorem binary_range_complete:
  assumes "0 < n"
  shows "\<exists>ss. binary_range n = Some ss \<and>
     map Inr ss = map (\<lambda>k. int2bin (int k) (int n)) [0..<2 ^ n]"
proof -
  have zero: "is_bin (replicate n (CHR ''0''))" by (simp add: is_bin_def list_all_iff)
  have "bin_val (rev (replicate n (CHR ''0''))) = 0"
    using bin_val_replicate_0 [of n "[]"] by simp
  moreover have "(1 # replicate n (0::nat)) ! n \<noteq> 1" using assms by (simp add: nth_Cons')
  ultimately show ?thesis
    using binary_range_loop_counts [OF _ zero assms, of "1 # replicate n 0" "[]"]
    by (simp add: binary_range_def)
qed

theorem binary_range_complete_witness:
  "\<exists>ss. binary_range 3 = Some ss \<and> map Inr ss = map (\<lambda>k. int2bin (int k) (int 3)) [0..<2 ^ 3]"
  by (rule binary_range_complete) simp

end
