(* ===== verification/Rad_Arith.thy ===== *)
theory Rad_Arith
  imports Rad_Numbers
begin

text \<open>
  The arithmetic utilities of \<^verbatim>\<open>bindings/python/rad_util.py\<close>: greatest common factors and
  fractions, quantiles, polygon areas, progressions, rounding to a grid, unit prefixes.
  Where the code treats integers and floats differently (\<^verbatim>\<open>/\<close> is floor division on two
  integers of Python 2) a number carries its type; elsewhere a number is its exact value.
\<close>

section \<open>Python 2 numbers\<close>

datatype py_num = PyInt int | PyFloat rat

fun value_of :: "py_num \<Rightarrow> rat" where
  "value_of (PyInt i) = of_int i"
| "value_of (PyFloat q) = q"

definition rat_mod :: "rat \<Rightarrow> rat \<Rightarrow> rat" where
  "rat_mod a b = a - b * of_int \<lfloor>a / b\<rfloor>"

fun num_div :: "py_num \<Rightarrow> py_num \<Rightarrow> py_num result" where
  "num_div (PyInt a) (PyInt b) = (if b = 0 then Inl ZeroDivisionError else Inr (PyInt (a div b)))"
| "num_div a b = (if value_of b = 0 then Inl ZeroDivisionError else Inr (PyFloat (value_of a / value_of b)))"

fun num_mod :: "py_num \<Rightarrow> py_num \<Rightarrow> py_num result" where
  "num_mod (PyInt a) (PyInt b) = (if b = 0 then Inl ZeroDivisionError else Inr (PyInt (a mod b)))"
| "num_mod a b = (if value_of b = 0 then Inl ZeroDivisionError else Inr (PyFloat (rat_mod (value_of a) (value_of b))))"

fun num_mult :: "py_num \<Rightarrow> py_num \<Rightarrow> py_num" where
  "num_mult (PyInt a) (PyInt b) = PyInt (a * b)"
| "num_mult a b = PyFloat (value_of a * value_of b)"

text \<open>\<^verbatim>\<open>int(x)\<close> cuts the fraction off, towards zero.\<close>

definition trunc :: "rat \<Rightarrow> int" where
  "trunc q = (if 0 \<le> q then \<lfloor>q\<rfloor> else \<lceil>q\<rceil>)"

lemma rat_mod_multiples:
  assumes "u \<noteq> 0" and "q \<noteq> 0"
  shows "rat_mod (of_int p * u) (of_int q * u) = of_int (p mod q) * u"
proof -
  have "(of_int p * u) / (of_int q * u) = (of_int p / of_int q :: rat)" using assms(1) by simp
  then have "\<lfloor>(of_int p * u) / (of_int q * u)\<rfloor> = p div q" by (simp add: floor_divide_of_int_eq)
  then show ?thesis
    by (simp add: rat_mod_def minus_div_mult_eq_mod [symmetric] algebra_simps)
qed

section \<open>Greatest common factors and fractions\<close>

partial_function (option) gcf_loop :: "rat \<Rightarrow> rat \<Rightarrow> rat \<Rightarrow> rat option" where
  "gcf_loop epsilon result remainder =
     (if remainder \<noteq> 0 \<and> abs remainder > epsilon
      then gcf_loop epsilon remainder (rat_mod result remainder)
      else Some (abs result))"

definition gcf :: "rat \<Rightarrow> rat \<Rightarrow> rat \<Rightarrow> rat option" where
  "gcf a b epsilon = gcf_loop epsilon (max a b) (min a b)"

definition default_epsilon :: rat where
  "default_epsilon = 1 / 10 ^ 16"

definition rad_lcm :: "rat \<Rightarrow> rat \<Rightarrow> rat option" where
  "rad_lcm a b =
     (case gcf a b default_epsilon of
        None \<Rightarrow> None
      | Some denom \<Rightarrow> Some (if denom = 0 then 0 else a * (b / denom)))"

definition reduce_fraction :: "rat \<times> rat \<Rightarrow> (rat \<times> rat) result option" where
  "reduce_fraction fraction =
     (case gcf (fst fraction) (snd fraction) default_epsilon of
        None \<Rightarrow> None
      | Some g \<Rightarrow>
          let common_factor = abs g
          in Some (if common_factor = 0 then Inl ZeroDivisionError
                   else Inr (fst fraction / common_factor, snd fraction / common_factor)))"

lemma gcf_loop_multiples:
  assumes "u \<noteq> 0" and "epsilon < abs u"
  shows "gcf_loop epsilon (of_int p * u) (of_int q * u) = Some (of_int (gcd p q) * abs u)"
proof (induction "nat (abs q)" arbitrary: p q rule: less_induct)
  case less
  show ?case
  proof (cases "q = 0")
    case True
    then show ?thesis by (simp add: gcf_loop.simps [of epsilon _ 0] abs_mult)
  next
    case False
    have "1 * abs u \<le> abs (of_int q :: rat) * abs u"
      using False by (intro mult_right_mono) (auto simp flip: of_int_abs)
    with assms(2) have "epsilon < abs (of_int q) * abs u" by linarith
    then have "of_int q * u \<noteq> 0 \<and> abs (of_int q * u) > epsilon"
      using assms(1) False by (simp add: abs_mult)
    then have "gcf_loop epsilon (of_int p * u) (of_int q * u)
        = gcf_loop epsilon (of_int q * u) (of_int (p mod q) * u)"
      by (simp add: gcf_loop.simps [of epsilon "of_int p * u" "of_int q * u"]
          rat_mod_multiples [OF assms(1) False])
    also have "\<dots> = Some (of_int (gcd q (p mod q)) * abs u)"
      using False abs_mod_less [of q p] by (intro less) simp
    finally show ?thesis by (simp add: gcd_red_int [symmetric] gcd.commute)
  qed
qed

text \<open>Greatest common factors: on two integer multiples \<open>p * u\<close> and \<open>q * u\<close> of a unit \<open>u\<close>
  whose magnitude exceeds the tolerance, the loop of \<^verbatim>\<open>gcf\<close> ends with \<open>gcd p q\<close> times the
  magnitude of \<open>u\<close>.  With the unit 1 these are the integers.\<close>

theorem gcf_multiples:
  assumes "u \<noteq> 0" and "epsilon < abs u"
  shows "gcf (of_int p * u) (of_int q * u) epsilon = Some (of_int (gcd p q) * abs u)"
  using gcf_loop_multiples [OF assms, of p q] gcf_loop_multiples [OF assms, of q p]
  by (simp add: gcf_def max_def min_def gcd.commute)

theorem gcf_multiples_witness:
  "gcf (of_int 12 * 1) (of_int 34 * 1) default_epsilon = Some (of_int (gcd 12 34) * abs 1)
   \<and> gcf (of_int 27 * (1 / 2)) (of_int 8 * (1 / 2)) default_epsilon = Some (of_int (gcd 27 8) * abs (1 / 2))"
  using gcf_multiples [of 1 default_epsilon 12 34] gcf_multiples [of "1 / 2" default_epsilon 27 8]
  by (simp add: default_epsilon_def)

lemma gcf_ints: "gcf (of_int a) (of_int b) default_epsilon = Some (of_int (gcd a b))"
  using gcf_loop_multiples [of 1 default_epsilon a b] gcf_loop_multiples [of 1 default_epsilon b a]
  by (simp add: gcf_def max_def min_def gcd.commute default_epsilon_def)

lemma of_int_divide_exact: "(g::int) dvd a \<Longrightarrow> (of_int a / of_int g :: rat) = of_int (a div g)"
  by (cases "g = 0") (auto elim!: dvdE)

text \<open>On integers the least common multiple comes with the product of the signs.\<close>

lemma rad_lcm_ints: "rad_lcm (of_int a) (of_int b) = Some (of_int (sgn (a * b) * lcm a b))"
proof (cases "gcd a b = 0")
  case False
  let ?g = "gcd a b"
  have "?g * (sgn (a * b) * lcm a b) = sgn (a * b) * abs (a * b)"
    using prod_gcd_lcm_int [of a b] by (simp add: abs_mult mult.left_commute)
  also have "\<dots> = ?g * (a * (b div ?g))"
    by (simp add: sgn_mult_abs mult.left_commute)
  finally have "?g = 0 \<or> sgn (a * b) * lcm a b = a * (b div ?g)"
    using mult_left_cancel by blast
  then have "sgn (a * b) * lcm a b = a * (b div ?g)" using False by satx
  then show ?thesis
    using False by (simp add: rad_lcm_def gcf_ints of_int_divide_exact)
qed (use gcf_ints [of a b] in \<open>simp add: rad_lcm_def\<close>)

text \<open>\<^verbatim>\<open>reduce_fraction\<close> on integers: \<^verbatim>\<open>(0, 0)\<close> raises \<^verbatim>\<open>ZeroDivisionError\<close>; otherwise the
  result is two coprime integers in the same proportion as the arguments, whose signs are
  kept.\<close>

theorem reduce_fraction_lowest_terms:
  "\<exists>r. reduce_fraction (of_int n, of_int d) = Some r \<and>
    (if n = 0 \<and> d = 0 then r = Inl ZeroDivisionError
     else \<exists>n' d'. r = Inr (of_int n', of_int d') \<and> coprime n' d' \<and> n' * d = n * d' \<and>
            sgn n' = sgn n \<and> sgn d' = sgn d)"
proof (cases "n = 0 \<and> d = 0")
  case True
  then show ?thesis using gcf_ints [of 0 0] by (simp add: reduce_fraction_def)
next
  case False
  let ?g = "gcd n d"
  have g: "0 < ?g" using False by (simp add: less_le)
  obtain n' d' where nd: "n = n' * ?g" "d = d' * ?g" "coprime n' d'"
    using gcd_coprime_exists [of n d] False by auto
  have div: "n div ?g = n'" "d div ?g = d'"
    using nd(1,2) g by (metis nonzero_mult_div_cancel_right less_irrefl)+
  have "reduce_fraction (of_int n, of_int d) = Some (Inr (of_int (n div ?g), of_int (d div ?g)))"
    using False by (simp add: reduce_fraction_def gcf_ints of_int_divide_exact Let_def)
  then have "reduce_fraction (of_int n, of_int d) = Some (Inr (of_int n', of_int d'))"
    unfolding div .
  moreover have "n' * d = n * d'" using nd(1,2) by (metis mult.assoc mult.commute)
  moreover have "sgn n' = sgn n" "sgn d' = sgn d"
    using nd(1,2) g by (metis mult.right_neutral sgn_mult sgn_pos)+
  ultimately show ?thesis using False nd(3) by auto
qed

section \<open>Quantiles\<close>

text \<open>\<^verbatim>\<open>quantile\<close> interpolates between two neighbours of the sorted list.\<close>

definition quantile :: "rat list \<Rightarrow> rat \<Rightarrow> rat result" where
  "quantile l p =
     (let l_sort = sort l;
          n = int (length l);
          r = 1 + of_int (n - 1) * p;
          i = trunc r;
          f = r - of_int i
      in if i < n
         then res_bind (py_nth l_sort (i - 1)) (\<lambda>x.
              res_bind (py_nth l_sort i) (\<lambda>y. Inr ((1 - f) * x + f * y)))
         else py_nth l_sort (i - 1))"

text \<open>\<^verbatim>\<open>trim\<close> first computes a median, which it does not use but which raises
  \<^verbatim>\<open>IndexError\<close> on an empty list.\<close>

definition trim_median :: "rat list \<Rightarrow> rat result" where
  "trim_median l_sort =
     (let index = length l_sort div 2
      in if even (length l_sort)
         then res_bind (py_nth l_sort (int index)) (\<lambda>x.
              res_bind (py_nth l_sort (int index - 1)) (\<lambda>y. Inr ((x + y) / 2)))
         else py_nth l_sort (int index))"

definition trim :: "rat list \<Rightarrow> rat list result" where
  "trim l =
     (let l_sort = sort l
      in res_bind (trim_median l_sort) (\<lambda>median.
         res_bind (quantile l_sort (1 / 4)) (\<lambda>q1.
         res_bind (quantile l_sort (3 / 4)) (\<lambda>q3.
           let iqr_extra = (q3 - q1) * (3 / 2)
           in Inr (filter (\<lambda>x. q1 - iqr_extra \<le> x \<and> x \<le> q3 + iqr_extra) l_sort)))))"

text \<open>Where the quantile lies: at the position \<open>k\<close> of the sorted list or between it and the
  next.\<close>

lemma quantile_between:
  assumes "l \<noteq> []" and "0 \<le> p" and "p \<le> 1"
  defines "k \<equiv> nat \<lfloor>of_int (int (length l) - 1) * p\<rfloor>"
  shows "\<exists>q. quantile l p = Inr q \<and> k < length l \<and> sort l ! k \<le> q
     \<and> q \<le> sort l ! min (Suc k) (length l - 1)"
proof -
  let ?n = "int (length l)" and ?s = "sort l"
  let ?t = "of_int (?n - 1) * p :: rat"
  have n: "1 \<le> ?n" using assms(1) by (cases l) auto
  have t0: "0 \<le> ?t" using n assms(2) by simp
  have "?t \<le> of_int (?n - 1) * 1" using n assms(3) by (intro mult_left_mono) auto
  then have t1: "\<lfloor>?t\<rfloor> \<le> ?n - 1" using floor_mono by fastforce
  have k: "int k = \<lfloor>?t\<rfloor>" using t0 by (simp add: k_def)
  have tr: "trunc (1 + ?t) = int k + 1" using t0 k by (simp add: trunc_def)
  have klen: "k < length l" using t1 k n by linarith
  have srt: "sorted ?s" by simp
  show ?thesis
  proof (cases "int k + 1 < ?n")
    case True
    let ?f = "1 + ?t - of_int (int k + 1)"
    have f: "0 \<le> ?f" "?f \<le> 1" using k of_int_floor_le [of ?t] floor_correct [of ?t] by linarith+
    have nx: "py_nth ?s (int k + 1) = Inr (?s ! Suc k)"
      using True py_nth_nat [of "Suc k" ?s] by (simp add: add.commute)
    have ord: "?s ! k \<le> ?s ! Suc k" using True by (intro sorted_nth_mono [OF srt]) auto
    have q: "quantile l p = Inr ((1 - ?f) * ?s ! k + ?f * ?s ! Suc k)"
      unfolding quantile_def Let_def tr using True klen nx by simp
    have "(1 - ?f) * ?s ! k + ?f * ?s ! Suc k = ?s ! k + ?f * (?s ! Suc k - ?s ! k)"
      by (simp add: algebra_simps)
    moreover have "0 \<le> ?f * (?s ! Suc k - ?s ! k)" using f(1) ord by simp
    moreover have "?f * (?s ! Suc k - ?s ! k) \<le> ?s ! Suc k - ?s ! k"
      using f(2) ord mult_right_mono [of ?f 1 "?s ! Suc k - ?s ! k"] by simp
    ultimately have "?s ! k \<le> (1 - ?f) * ?s ! k + ?f * ?s ! Suc k"
      "(1 - ?f) * ?s ! k + ?f * ?s ! Suc k \<le> ?s ! Suc k" by linarith+
    moreover have "min (Suc k) (length l - 1) = Suc k" using True by simp
    ultimately show ?thesis unfolding q using klen by simp
  next
    case False
    then have "k = length l - 1" using klen by simp
    then have "min (Suc k) (length l - 1) = k" by simp
    then show ?thesis unfolding quantile_def Let_def tr using False klen by simp
  qed
qed

lemma quantile_bounds:
  assumes "l \<noteq> []" and "0 \<le> p" and "p \<le> 1"
  obtains q where "quantile l p = Inr q" and "Min (set l) \<le> q" and "q \<le> Max (set l)"
proof -
  let ?k = "nat \<lfloor>of_int (int (length l) - 1) * p\<rfloor>"
  obtain q where q: "quantile l p = Inr q" "?k < length l" "sort l ! ?k \<le> q"
    "q \<le> sort l ! min (Suc ?k) (length l - 1)" using quantile_between [OF assms] by blast
  have "sort l ! ?k \<in> set l" "sort l ! min (Suc ?k) (length l - 1) \<in> set l"
    using q(2) nth_mem [of _ "sort l"] by auto
  then have "Min (set l) \<le> sort l ! ?k" "sort l ! min (Suc ?k) (length l - 1) \<le> Max (set l)" by auto
  with q that show ?thesis by fastforce
qed

lemma sorted_position:
  assumes "y \<in> set l"
  shows "\<exists>i < length l. y = sort l ! i"
proof -
  have "y \<in> set (sort l)" using assms by simp
  then obtain i where "i < length (sort l)" "sort l ! i = y" unfolding in_set_conv_nth by blast
  then show ?thesis by auto
qed

lemma quantile_ends:
  assumes "l \<noteq> []"
  shows "quantile l 0 = Inr (sort l ! 0)" and "quantile l 1 = Inr (sort l ! (length l - 1))"
proof -
  have n: "0 < length l" using assms by simp
  have "trunc 1 = 1" by (simp add: trunc_def)
  moreover have "py_nth (sort l) 0 = Inr (sort l ! 0)" using n py_nth_nat [of 0 "sort l"] by simp
  moreover obtain y where "1 < int (length l) \<longrightarrow> py_nth (sort l) 1 = Inr y"
    using py_nth_nat [of 1 "sort l"] by auto
  ultimately show "quantile l 0 = Inr (sort l ! 0)"
    by (cases "1 < int (length l)") (simp_all add: quantile_def)
  have "trunc (1 + of_int (int (length l) - 1)) = int (length l)" using n by (simp add: trunc_def)
  moreover have "py_nth (sort l) (int (length l) - 1) = Inr (sort l ! (length l - 1))"
    using n by (intro py_nth_pred) simp_all
  ultimately show "quantile l 1 = Inr (sort l ! (length l - 1))"
    unfolding quantile_def Let_def mult_1_right by (simp only: less_irrefl if_False)
qed

text \<open>Quantiles: for a non-empty list and \<open>0 \<le> p \<le> 1\<close>, \<^verbatim>\<open>quantile\<close> returns a value; it lies
  between the two neighbouring elements of the sorted list at position \<open>(n - 1) * p\<close>, and for
  \<open>p = 0\<close> and \<open>p = 1\<close> it is the least and the greatest element.\<close>

theorem quantile_interpolates:
  assumes "l \<noteq> []" and "0 \<le> p" and "p \<le> 1"
  shows "(\<exists>q. quantile l p = Inr q
          \<and> sort l ! nat \<lfloor>of_int (int (length l) - 1) * p\<rfloor> \<le> q
          \<and> q \<le> sort l ! min (Suc (nat \<lfloor>of_int (int (length l) - 1) * p\<rfloor>)) (length l - 1))
     \<and> quantile l 0 = Inr (Min (set l)) \<and> quantile l 1 = Inr (Max (set l))"
proof -
  have least: "sort l ! 0 = Min (set l)"
  proof (rule Min_eqI [symmetric])
    show "sort l ! 0 \<in> set l" using assms(1) nth_mem [of 0 "sort l"] by simp
    show "sort l ! 0 \<le> y" if "y \<in> set l" for y
      using sorted_position [OF that] sorted_nth_mono [of "sort l" 0] by auto
  qed simp
  have greatest: "sort l ! (length l - 1) = Max (set l)"
  proof (rule Max_eqI [symmetric])
    show "sort l ! (length l - 1) \<in> set l" using assms(1) nth_mem [of "length l - 1" "sort l"] by simp
    show "y \<le> sort l ! (length l - 1)" if "y \<in> set l" for y
    proof -
      obtain i where "i < length l" "y = sort l ! i" using sorted_position \<open>y \<in> set l\<close> by blast
      then show ?thesis using sorted_nth_mono [of "sort l" i "length l - 1"] by simp
    qed
  qed simp
  show ?thesis
    unfolding quantile_ends [OF assms(1)] least greatest using quantile_between [OF assms] by (intro conjI refl) auto
qed

theorem quantile_interpolates_witness:
  "(\<exists>q. quantile [3, 1, 2] (1 / 2) = Inr q
          \<and> sort [3, 1, 2] ! nat \<lfloor>of_int (int (length [3, 1, 2 :: rat]) - 1) * (1 / 2 :: rat)\<rfloor> \<le> q
          \<and> q \<le> sort [3, 1, 2] ! min (Suc (nat \<lfloor>of_int (int (length [3, 1, 2 :: rat]) - 1) * (1 / 2 :: rat)\<rfloor>))
                  (length [3, 1, 2 :: rat] - 1))
     \<and> quantile [3, 1, 2] 0 = Inr (Min (set [3, 1, 2])) \<and> quantile [3, 1, 2] 1 = Inr (Max (set [3, 1, 2]))"
  by (rule quantile_interpolates) simp_all

lemma trim_empty: "trim [] = Inl IndexError"
  by (simp add: trim_def trim_median_def py_nth_def)

lemma trim_median_defined:
  assumes "l \<noteq> []"
  obtains m where "trim_median l = Inr m"
proof (cases "even (length l)")
  case True
  let ?h = "length l div 2"
  have n: "0 < length l" using assms by simp
  have "0 < ?h" using True n by presburger
  then have "py_nth l (int ?h - 1) = Inr (l ! (?h - 1))" by (rule py_nth_pred) simp
  moreover have "py_nth l (int ?h) = Inr (l ! ?h)" using n by (intro py_nth_nat) simp
  ultimately have "trim_median l = Inr ((l ! ?h + l ! (?h - 1)) / 2)"
    unfolding trim_median_def Let_def using True by (simp only: if_True res_bind.simps)
  then show thesis by (rule that)
next
  case False
  have "py_nth l (int (length l div 2)) = Inr (l ! (length l div 2))"
    using assms by (intro py_nth_nat) simp
  with False have "trim_median l = Inr (l ! (length l div 2))"
    unfolding trim_median_def Let_def by (simp only: if_False)
  then show thesis by (rule that)
qed

lemma trim_filters:
  assumes "l \<noteq> []"
  obtains q1 q3 where "quantile l (1 / 4) = Inr q1" and "quantile l (3 / 4) = Inr q3"
    and "trim l = Inr (filter (\<lambda>x. q1 - (q3 - q1) * (3 / 2) \<le> x \<and> x \<le> q3 + (q3 - q1) * (3 / 2)) (sort l))"
proof -
  obtain q1 where q1: "quantile l (1 / 4) = Inr q1" using quantile_bounds [OF assms, of "1 / 4"] by auto
  obtain q3 where q3: "quantile l (3 / 4) = Inr q3" using quantile_bounds [OF assms, of "3 / 4"] by auto
  have srt: "quantile (sort l) p = quantile l p" for p by (simp add: quantile_def sorted_sort_id)
  have "sort l \<noteq> []" using assms by (metis length_0_conv length_sort)
  from trim_median_defined [OF this] obtain m where m: "trim_median (sort l) = Inr m" .
  have "trim l = Inr (filter (\<lambda>x. q1 - (q3 - q1) * (3 / 2) \<le> x \<and> x \<le> q3 + (q3 - q1) * (3 / 2)) (sort l))"
    unfolding trim_def Let_def m srt q1 q3 res_bind.simps by (rule refl)
  then show thesis by (rule that [OF q1 q3])
qed

lemma trim_sublist:
  assumes "trim l = Inr t"
  shows "sorted t" and "mset t \<subseteq># mset l"
proof -
  have "l \<noteq> []" using assms trim_empty by auto
  from trim_filters [OF this] obtain P where t: "t = filter P (sort l)"
    unfolding assms sum.inject by blast
  then show "sorted t" unfolding t by (intro sorted_wrt_filter sorted_sort)
  show "mset t \<subseteq># mset l"
    unfolding t mset_filter mset_sort by (rule multiset_filter_subset)
qed

section \<open>Progressions and grids\<close>

partial_function (option) float_range_loop :: "rat \<Rightarrow> rat \<Rightarrow> rat \<Rightarrow> rat list \<Rightarrow> rat list option" where
  "float_range_loop cur stop step l =
     (if cur < stop then float_range_loop (cur + step) stop step (l @ [cur]) else Some l)"

definition float_range :: "rat \<Rightarrow> rat option \<Rightarrow> rat option \<Rightarrow> rat list option" where
  "float_range start stop step =
     (let (start', stop') = (case stop of None \<Rightarrow> (0, start) | Some q \<Rightarrow> (start, q));
          step' = (case step of None \<Rightarrow> 1 | Some q \<Rightarrow> q)
      in float_range_loop start' stop' step' [])"

lemma float_range_loop_progression:
  assumes "0 < step"
  shows "float_range_loop cur stop step l =
     Some (l @ map (\<lambda>k. cur + of_nat k * step) [0..<nat \<lceil>(stop - cur) / step\<rceil>])"
proof (induction "nat \<lceil>(stop - cur) / step\<rceil>" arbitrary: cur l)
  case 0
  then have "(stop - cur) / step \<le> 0" by simp
  then have "\<not> cur < stop" using assms by (simp add: divide_le_0_iff)
  then show ?case by (simp add: float_range_loop.simps [of cur] flip: 0)
next
  case (Suc m)
  have "(stop - (cur + step)) / step = (stop - cur) / step - 1"
    using assms by (simp add: diff_divide_distrib add_divide_distrib)
  then have "\<lceil>(stop - (cur + step)) / step\<rceil> = \<lceil>(stop - cur) / step\<rceil> - 1" by simp
  then have m: "m = nat \<lceil>(stop - (cur + step)) / step\<rceil>" using Suc.hyps(2) by linarith
  have "0 < (stop - cur) / step" using Suc.hyps(2) by (intro zero_less_ceiling [THEN iffD1]) linarith
  then have "cur < stop" using assms by (simp add: zero_less_divide_iff)
  then have "float_range_loop cur stop step l = float_range_loop (cur + step) stop step (l @ [cur])"
    by (simp add: float_range_loop.simps [of cur])
  also have "\<dots> = Some ((l @ [cur]) @ map (\<lambda>k. cur + step + of_nat k * step) [0..<m])"
    unfolding m by (rule Suc.hyps(1) [OF m])
  also have "map (\<lambda>k. cur + step + of_nat k * step) [0..<m] = map (\<lambda>k. cur + of_nat k * step) [Suc 0..<Suc m]"
    by (simp add: map_Suc_upt [symmetric] algebra_simps del: upt_Suc)
  finally show ?case by (simp add: Suc.hyps(2) [symmetric] upt_conv_Cons del: upt_Suc)
qed

lemma float_range_loop_ends:
  "float_range_loop cur stop step l = Some r \<Longrightarrow> \<not> (cur < stop \<and> step \<le> 0)"
  by (rule float_range_loop.raw_induct
      [where P = "\<lambda>cur stop step l r. \<not> (cur < stop \<and> step \<le> 0)", rotated])
    (assumption, force split: if_splits)

text \<open>\<^verbatim>\<open>float_range\<close>: the loop ends exactly when the step is positive or the start is not
  below the stop.  With a positive step the list is the arithmetic progression
  \<open>start + k * step\<close> of the \<open>k\<close> with \<open>0 \<le> k < (stop - start) / step\<close>.\<close>

theorem float_range_progression:
  "(float_range start (Some stop) (Some step) \<noteq> None \<longleftrightarrow> 0 < step \<or> stop \<le> start) \<and>
   (0 < step \<longrightarrow> float_range start (Some stop) (Some step)
      = Some (map (\<lambda>k. start + of_nat k * step) [0..<nat \<lceil>(stop - start) / step\<rceil>]))"
proof -
  have "float_range_loop start stop step [] = Some []" if "stop \<le> start"
    using that by (simp add: float_range_loop.simps [of start])
  moreover have "float_range_loop start stop step [] = None" if "\<not> (0 < step \<or> stop \<le> start)"
    using float_range_loop_ends [of start stop step "[]"] that
    by (cases "float_range_loop start stop step []") (simp_all add: not_less not_le)
  ultimately show ?thesis
    using float_range_loop_progression [of step start stop "[]"]
    by (cases "0 < step"; cases "stop \<le> start") (simp_all add: float_range_def)
qed

theorem float_range_progression_witness:
  "0 < (1 / 2 :: rat) \<and> float_range 0 (Some 1) (Some (1 / 2))
      = Some (map (\<lambda>k. 0 + of_nat k * (1 / 2)) [0..<nat \<lceil>(1 - 0) / (1 / 2) :: rat\<rceil>])"
  using float_range_progression [of 0 1 "1 / 2"] by simp

text \<open>
  \<^verbatim>\<open>round_grid\<close>: the variable \<^verbatim>\<open>add_one\<close> is only bound in mode 0, and in modes 1 and -1 when the
  value is off the grid.
\<close>

definition round_grid :: "py_num \<Rightarrow> py_num \<Rightarrow> int \<Rightarrow> py_num result" where
  "round_grid val grid mode =
     res_bind (num_mod val grid) (\<lambda>off_grid.
     res_bind (if mode = 0 then Inr (if value_of off_grid \<ge> value_of grid / 2 then 1 else 0)
               else if mode = 1 \<and> value_of off_grid \<noteq> 0 then Inr 1
               else if mode = - 1 \<and> value_of off_grid \<noteq> 0 then Inr 0
               else Inl UnboundLocalError) (\<lambda>add_one.
     res_bind (num_div val grid) (\<lambda>q.
       Inr (num_mult (PyInt (trunc (value_of q) + add_one)) grid))))"

lemma value_of_mult [simp]: "value_of (num_mult a b) = value_of a * value_of b"
  by (cases "(a, b)" rule: num_mult.cases) simp_all

lemma num_div_trunc:
  assumes "0 \<le> value_of v" and "0 < value_of g"
  obtains q where "num_div v g = Inr q" and "trunc (value_of q) = \<lfloor>value_of v / value_of g\<rfloor>"
proof (cases "(v, g)" rule: num_div.cases)
  case (1 a b)
  with assms that show thesis by (simp add: trunc_def floor_divide_of_int_eq)
qed (use assms that in \<open>simp_all add: trunc_def\<close>)

lemma num_mod_value:
  assumes "value_of g \<noteq> 0"
  obtains r where "num_mod v g = Inr r" and "value_of r = rat_mod (value_of v) (value_of g)"
proof (cases "(v, g)" rule: num_mod.cases)
  case (1 a b)
  with assms that show thesis using rat_mod_multiples [of 1 b a] by simp
qed (use assms that in simp_all)

lemma rat_mod_bounds:
  assumes "0 < g"
  shows "0 \<le> rat_mod v g" and "rat_mod v g < g"
proof -
  have "of_int \<lfloor>v / g\<rfloor> * g \<le> v" using floor_divide_lower [OF assms] .
  then show "0 \<le> rat_mod v g" by (simp add: rat_mod_def mult.commute)
  have "v < (of_int \<lfloor>v / g\<rfloor> + 1) * g" using floor_divide_upper [OF assms] .
  then show "rat_mod v g < g" by (simp add: rat_mod_def algebra_simps)
qed

text \<open>Rounding a non-negative value to a positive grid.  The result is always an integer
  multiple of the grid; in mode 0 it is at most half a grid step away; in modes 1 and -1 it is
  the next multiple above and below a value off the grid, and a value that already lies on the
  grid raises \<^verbatim>\<open>UnboundLocalError\<close> instead of being returned.\<close>

theorem round_grid_nonneg:
  assumes "0 \<le> value_of v" and "0 < value_of g"
  shows "(\<exists>r k. round_grid v g 0 = Inr r \<and> value_of r = of_int k * value_of g
            \<and> abs (value_of r - value_of v) \<le> value_of g / 2)
     \<and> (if rat_mod (value_of v) (value_of g) = 0
        then round_grid v g 1 = Inl UnboundLocalError \<and> round_grid v g (- 1) = Inl UnboundLocalError
        else \<exists>up down k. round_grid v g 1 = Inr up \<and> round_grid v g (- 1) = Inr down
            \<and> value_of down = of_int k * value_of g \<and> value_of up = of_int (k + 1) * value_of g
            \<and> value_of down < value_of v \<and> value_of v < value_of up)"
proof -
  let ?v = "value_of v" and ?g = "value_of g"
  let ?k = "\<lfloor>?v / ?g\<rfloor>"
  obtain q where q: "num_div v g = Inr q" "trunc (value_of q) = ?k"
    using num_div_trunc [OF assms] .
  obtain m where m: "num_mod v g = Inr m" "value_of m = rat_mod ?v ?g"
    using num_mod_value [of g v] assms(2) by auto
  have v: "?v = of_int ?k * ?g + rat_mod ?v ?g" by (simp add: rat_mod_def)
  note b = rat_mod_bounds [OF assms(2), of ?v]
  have near: "\<exists>r k. round_grid v g 0 = Inr r \<and> value_of r = of_int k * ?g \<and> abs (value_of r - ?v) \<le> ?g / 2"
  proof (cases "?g / 2 \<le> rat_mod ?v ?g")
    case True
    then have "round_grid v g 0 = Inr (num_mult (PyInt (?k + 1)) g)" by (simp add: round_grid_def m q)
    moreover have "abs (of_int (?k + 1) * ?g - ?v) \<le> ?g / 2" using True b v by (simp add: algebra_simps)
    ultimately show ?thesis by (intro exI [of _ "num_mult (PyInt (?k + 1)) g"] exI [of _ "?k + 1"]) simp
  next
    case False
    then have "round_grid v g 0 = Inr (num_mult (PyInt ?k) g)" by (simp add: round_grid_def m q)
    moreover have "abs (of_int ?k * ?g - ?v) \<le> ?g / 2" using False b v by simp
    ultimately show ?thesis by (intro exI [of _ "num_mult (PyInt ?k) g"] exI [of _ ?k]) simp
  qed
  have off: "\<exists>up down k. round_grid v g 1 = Inr up \<and> round_grid v g (- 1) = Inr down
      \<and> value_of down = of_int k * ?g \<and> value_of up = of_int (k + 1) * ?g
      \<and> value_of down < ?v \<and> ?v < value_of up" if "rat_mod ?v ?g \<noteq> 0"
  proof -
    have "round_grid v g 1 = Inr (num_mult (PyInt (?k + 1)) g)"
      "round_grid v g (- 1) = Inr (num_mult (PyInt ?k) g)" using that by (simp_all add: round_grid_def m q)
    moreover have "of_int ?k * ?g < ?v" using b(1) that v by linarith
    moreover have "?v < of_int (?k + 1) * ?g" using b(2) v by (simp add: algebra_simps)
    ultimately show ?thesis
      by (intro exI [of _ "num_mult (PyInt (?k + 1)) g"] exI [of _ "num_mult (PyInt ?k) g"] exI [of _ ?k]) simp
  qed
  have on: "round_grid v g 1 = Inl UnboundLocalError \<and> round_grid v g (- 1) = Inl UnboundLocalError"
    if "rat_mod ?v ?g = 0" using that by (simp add: round_grid_def m q)
  show ?thesis using near off on by presburger
qed

theorem round_grid_nonneg_witness:
  "(\<exists>r k. round_grid (PyFloat (15 / 2)) (PyInt 5) 0 = Inr r
        \<and> value_of r = of_int k * value_of (PyInt 5)
        \<and> abs (value_of r - value_of (PyFloat (15 / 2))) \<le> value_of (PyInt 5) / 2)
     \<and> (if rat_mod (value_of (PyFloat (15 / 2))) (value_of (PyInt 5)) = 0
        then round_grid (PyFloat (15 / 2)) (PyInt 5) 1 = Inl UnboundLocalError
           \<and> round_grid (PyFloat (15 / 2)) (PyInt 5) (- 1) = Inl UnboundLocalError
        else \<exists>up down k. round_grid (PyFloat (15 / 2)) (PyInt 5) 1 = Inr up
            \<and> round_grid (PyFloat (15 / 2)) (PyInt 5) (- 1) = Inr down
            \<and> value_of down = of_int k * value_of (PyInt 5) \<and> value_of up = of_int (k + 1) * value_of (PyInt 5)
            \<and> value_of down < value_of (PyFloat (15 / 2)) \<and> value_of (PyFloat (15 / 2)) < value_of up)"
  by (rule round_grid_nonneg) simp_all

text \<open>A negative float is cut towards zero before the step is added: -7.5 on a grid of 5 rounds
  to 0, though -5 and -10 are nearer.  The integer -7 rounds to -5.\<close>

lemma round_grid_negative:
  "round_grid (PyFloat (- 15 / 2)) (PyInt 5) 0 = Inr (PyInt 0)"
  "round_grid (PyInt (- 7)) (PyInt 5) 0 = Inr (PyInt (- 5))"
  by code_simp+

section \<open>Polygons\<close>

text \<open>\<^verbatim>\<open>polygon_area\<close> overwrites the list it is given: the second component is the list the
  caller is left with.\<close>

type_synonym 'a point = "'a \<times> 'a"

definition scale_points :: "int \<Rightarrow> py_num point list \<Rightarrow> int point list" where
  "scale_points precision points =
     map (\<lambda>(x, y). (trunc (value_of x * of_int precision), trunc (value_of y * of_int precision))) points"

definition close_polygon :: "int point list \<Rightarrow> int point list result" where
  "close_polygon points =
     (if points = [] then Inl IndexError
      else Inr (if last points \<noteq> hd points then points @ [hd points] else points))"

fun shoelace :: "int point list \<Rightarrow> int" where
  "shoelace (p # q # ps) = fst q * snd p - snd q * fst p + shoelace (q # ps)"
| "shoelace ps = 0"

definition polygon_area :: "py_num point list \<Rightarrow> int \<Rightarrow> (rat \<times> int point list) result" where
  "polygon_area points_list precision =
     res_bind (close_polygon (scale_points precision points_list)) (\<lambda>points.
       let area = abs (shoelace points div 2)
       in if precision = 0 then Inl ZeroDivisionError
          else Inr (of_int area / of_int (precision ^ 2), points))"

lemma polygon_area_empty: "polygon_area [] precision = Inl IndexError"
  by (simp add: polygon_area_def scale_points_def close_polygon_def)

lemma polygon_area_closes:
  "polygon_area ps precision = Inr (a, qs) \<Longrightarrow> qs \<noteq> [] \<and> last qs = hd qs"
  by (auto simp: polygon_area_def close_polygon_def res_simps Let_def split: if_splits)

text \<open>The division by two rounds down before the sign is dropped, so with precision 1 the same
  triangle has area 0 or 1 depending on its orientation; and a second call on the list the first
  one left behind scales the points again.\<close>

lemma polygon_area_orientation:
  "polygon_area [(PyInt 0, PyInt 0), (PyInt 1, PyInt 0), (PyInt 0, PyInt 1)] 1
     = Inr (1, [(0, 0), (1, 0), (0, 1), (0, 0)])"
  "polygon_area [(PyInt 0, PyInt 0), (PyInt 0, PyInt 1), (PyInt 1, PyInt 0)] 1
     = Inr (0, [(0, 0), (0, 1), (1, 0), (0, 0)])"
  by code_simp+

text \<open>The shoelace sum does not depend on where a closed polygon lies.\<close>

lemma shoelace_translate:
  assumes "ps \<noteq> []"
  shows "shoelace (map (\<lambda>(x, y). (x + a, y + b)) ps)
    = shoelace ps + b * (fst (last ps) - fst (hd ps)) - a * (snd (last ps) - snd (hd ps))"
  using assms
proof (induction ps rule: shoelace.induct)
  case (1 p q ps)
  then show ?case by (cases p; cases q) (simp add: algebra_simps)
qed simp_all

lemma shoelace_rectangle:
  "shoelace [(x, y), (x + w, y), (x + w, y + h), (x, y + h), (x, y)] = - 2 * (w * h)"
  by (simp add: algebra_simps)

lemma polygon_area_rectangle:
  assumes "0 \<le> w" and "0 < h"
  shows "\<exists>qs. polygon_area [(PyInt x, PyInt y), (PyInt (x + w), PyInt y), (PyInt (x + w), PyInt (y + h)),
            (PyInt x, PyInt (y + h))] 1 = Inr (of_int (w * h), qs)"
proof -
  have tr: "trunc (of_int i) = i" for i by (simp add: trunc_def)
  have "trunc (of_int a + of_int b) = a + b" for a b using tr [of "a + b"] by simp
  moreover have "- (2 * z) div 2 = - z" for z :: int by presburger
  ultimately show ?thesis
    using assms shoelace_rectangle [of x y w h]
    by (simp add: polygon_area_def scale_points_def close_polygon_def tr Let_def)
qed

section \<open>Random vectors\<close>

text \<open>\<^verbatim>\<open>random_vec\<close>; the value of the \<open>k\<close>-th call of \<^verbatim>\<open>random.random\<close> is \<open>draws k\<close>.\<close>

definition random_vec :: "(nat \<Rightarrow> rat) \<Rightarrow> nat \<Rightarrow> int option \<Rightarrow> string result" where
  "random_vec draws bits max_value =
     res_bind (for_each (\<lambda>k vec. res_bind (int2bin (trunc (2 ^ 10 * draws k)) 10) (\<lambda>s. Inr (vec @ s)))
                 [0..<bits div 10 + 1] []) (\<lambda>vec.
     res_bind (case max_value of
                 None \<Rightarrow> Inr vec
               | Some m \<Rightarrow>
                   if m \<noteq> 0 \<and> m < 2 ^ bits - 1
                   then res_bind (bin2int vec) (\<lambda>x.
                        if (2 :: int) ^ bits - 1 = 0 then Inl ZeroDivisionError
                        else int2bin (x div (2 ^ bits - 1) * m) (int bits))
                   else Inr vec) (\<lambda>vec'.
     Inr (slice_to vec' (int bits))))"

text \<open>Without a maximum, \<^verbatim>\<open>random_vec\<close> returns exactly \<open>bits\<close> binary digits, whatever numbers
  in [0, 1) the generator draws.\<close>

lemma random_vec_digits:
  assumes "\<And>k. 0 \<le> draws k \<and> draws k < 1"
  shows "\<exists>s. random_vec draws bits None = Inr s \<and> length s = bits \<and> is_bin s"
proof -
  have block: "\<exists>s. int2bin (trunc (2 ^ 10 * draws k)) 10 = Inr s \<and> length s = 10 \<and> is_bin s" for k
  proof -
    have "0 \<le> trunc (2 ^ 10 * draws k)" "trunc (2 ^ 10 * draws k) < 2 ^ 10"
      using assms [of k] by (simp_all add: trunc_def floor_less_iff)
    from int2bin_in_range [OF this] show ?thesis by auto
  qed
  have loop: "\<exists>vec. for_each (\<lambda>k vec. res_bind (int2bin (trunc (2 ^ 10 * draws k)) 10) (\<lambda>s. Inr (vec @ s)))
      ks acc = Inr (acc @ vec) \<and> length vec = 10 * length ks \<and> is_bin vec" for ks acc
  proof (induction ks arbitrary: acc)
    case (Cons k ks)
    obtain s where s: "int2bin (trunc (2 ^ 10 * draws k)) 10 = Inr s" "length s = 10" "is_bin s"
      using block by blast
    from Cons.IH [of "acc @ s"] s show ?case by (fastforce simp: is_bin_def)
  qed (simp add: is_bin_def)
  obtain vec where vec: "for_each (\<lambda>k vec. res_bind (int2bin (trunc (2 ^ 10 * draws k)) 10) (\<lambda>s. Inr (vec @ s)))
      [0..<bits div 10 + 1] [] = Inr vec" "length vec = 10 * (bits div 10 + 1)" "is_bin vec"
    using loop [of "[0..<bits div 10 + 1]" "[]"] by auto
  have "bits \<le> length vec" unfolding vec(2) by presburger
  moreover have "is_bin (take bits vec)" using vec(3) by (auto simp: is_bin_def list_all_iff dest: in_set_takeD)
  ultimately show ?thesis using vec(1) by (simp add: random_vec_def slice_to_def)
qed

text \<open>With a maximum, the whole drawn vector, which has at least as many digits as asked for, is
  divided by \<^verbatim>\<open>2 ** bits - 1\<close> as an integer, so the scaled number may not fit.\<close>

lemma random_vec_overflows: "random_vec (\<lambda>k. 1023 / 1024) 5 (Some 30) = Inl ValueError"
  by code_simp

section \<open>Unit prefixes\<close>

definition si_prefixes :: "(py_num \<times> string \<times> string) list" where
  "si_prefixes =
     [(PyFloat (10 ^ 24), ''Y'', ''yotta''), (PyFloat (10 ^ 21), ''Z'', ''zetta''),
      (PyFloat (10 ^ 18), ''E'', ''exa''), (PyFloat (10 ^ 15), ''P'', ''peta''),
      (PyFloat (10 ^ 12), ''T'', ''tera''), (PyFloat (10 ^ 9), ''G'', ''giga''),
      (PyFloat (10 ^ 6), ''M'', ''mega''), (PyFloat (10 ^ 3), ''k'', ''kilo''),
      (PyFloat (1 / 10 ^ 3), ''m'', ''milli''), (PyFloat (1 / 10 ^ 6), ''u'', ''micro''),
      (PyFloat (1 / 10 ^ 9), ''n'', ''nano''), (PyFloat (1 / 10 ^ 12), ''p'', ''pico''),
      (PyFloat (1 / 10 ^ 15), ''f'', ''femto''), (PyFloat (1 / 10 ^ 18), ''a'', ''atto''),
      (PyFloat (1 / 10 ^ 21), ''z'', ''zepto''), (PyFloat (1 / 10 ^ 24), ''y'', ''yocto'')]"

definition extra_prefixes :: "(py_num \<times> string \<times> string) list" where
  "extra_prefixes =
     [(PyFloat (10 ^ 2), ''h'', ''hecto''), (PyFloat 10, ''da'', ''deka''),
      (PyFloat (1 / 10), ''d'', ''deci''), (PyFloat (1 / 10 ^ 2), ''c'', ''centi'')]"

definition bin_prefixes :: "(py_num \<times> string \<times> string) list" where
  "bin_prefixes =
     [(PyInt (2 ^ 10), ''K'', ''kilo''), (PyInt (2 ^ 20), ''M'', ''mega''),
      (PyInt (2 ^ 30), ''G'', ''mega''), (PyInt (2 ^ 40), ''T'', ''tera''),
      (PyInt (2 ^ 50), ''P'', ''peta''), (PyInt (2 ^ 60), ''E'', ''exa'')]"

text \<open>The table with the entry for unity, in the order of the sorted multipliers.\<close>

definition unit_prefixes :: "bool \<Rightarrow> string \<Rightarrow> (py_num \<times> string \<times> string) list" where
  "unit_prefixes use_extra_prefixes mode =
     sort_key (\<lambda>(m, _). value_of m)
       ((if mode = ''bin'' then bin_prefixes
         else si_prefixes @ (if use_extra_prefixes then extra_prefixes else []))
        @ [(PyInt 1, [], [])])"

fun mult_search :: "rat list \<Rightarrow> rat \<Rightarrow> nat \<Rightarrow> nat option" where
  "mult_search (lower_mult # upper_mult # ms) v i =
     (if lower_mult \<le> v \<and> v < upper_mult then Some i
      else mult_search (upper_mult # ms) v (Suc i))"
| "mult_search ms v i = None"

definition mult_index :: "rat list \<Rightarrow> rat \<Rightarrow> nat option" where
  "mult_index multipliers v =
     (if v < hd multipliers then Some 0
      else if v \<ge> last multipliers then Some (length multipliers - 1)
      else mult_search multipliers v 0)"

text \<open>
  \<^verbatim>\<open>nice_units\<close>.  \<open>rnd\<close> stands for \<^verbatim>\<open>round\<close>, and \<open>fmt c k x\<close> for \<open>x\<close> formatted with
  precision \<open>k\<close> and conversion \<open>c\<close>.
\<close>

definition nice_units ::
    "(rat \<Rightarrow> int \<Rightarrow> rat) \<Rightarrow> (char \<Rightarrow> int \<Rightarrow> py_num \<Rightarrow> string) \<Rightarrow> py_num \<Rightarrow> int \<Rightarrow> int option
       \<Rightarrow> string \<Rightarrow> string \<Rightarrow> bool \<Rightarrow> bool \<Rightarrow> string \<Rightarrow> string result" where
  "nice_units rnd fmt val dp sigfigs unit_suffix space use_extra_prefixes use_full_name mode =
     (let table = unit_prefixes use_extra_prefixes mode;
          multipliers = map fst table
      in case mult_index (map value_of multipliers) (value_of val) of
           None \<Rightarrow> Inl UnboundLocalError
         | Some mult_i \<Rightarrow>
             res_bind (num_div val (multipliers ! mult_i)) (\<lambda>new_value.
             res_bind (if mult_i < length multipliers - 1
                       then num_div (multipliers ! (mult_i + 1)) (multipliers ! mult_i)
                       else Inr (PyInt 0)) (\<lambda>ratio.
             let bump = (sigfigs = None \<and> mult_i < length multipliers - 1 \<and>
                         rnd (value_of new_value) dp = rnd (value_of ratio) dp);
                 idx = (if bump then mult_i + 1 else mult_i)
             in res_bind (num_div val (multipliers ! idx)) (\<lambda>scaled.
                let names = snd (table ! idx);
                    str_value = (case sigfigs of
                                   None \<Rightarrow> fmt (CHR ''f'') dp scaled
                                 | Some k \<Rightarrow> fmt (CHR ''g'') k scaled)
                in Inr (str_value @ space @ (if use_full_name then snd names else fst names) @ unit_suffix)))))"

lemma mult_search_found:
  assumes "ms \<noteq> []" and "hd ms \<le> v" and "v < last ms"
  shows "\<exists>k. mult_search ms v i = Some (i + k) \<and> Suc k < length ms \<and> ms ! k \<le> v \<and> v < ms ! Suc k"
  using assms
proof (induction ms v i rule: mult_search.induct)
  case (1 lo hi ms v i)
  show ?case
  proof (cases "v < hi")
    case True
    with 1 show ?thesis by (auto intro!: exI [of _ 0])
  next
    case False
    with 1 obtain k where "mult_search (hi # ms) v (Suc i) = Some (Suc i + k)" "Suc k < length (hi # ms)"
      "(hi # ms) ! k \<le> v" "v < (hi # ms) ! Suc k" by auto
    with False show ?thesis by (intro exI [of _ "Suc k"]) simp
  qed
qed auto

text \<open>On a sorted list the index is that of the greatest multiplier not above the value, or 0.\<close>

lemma mult_index_greatest:
  assumes "sorted ms" and "ms \<noteq> []"
  obtains k where "mult_index ms v = Some k" and "k < length ms"
    and "if \<exists>m \<in> set ms. m \<le> v then ms ! k \<le> v \<and> (\<forall>m \<in> set ms. m \<le> v \<longrightarrow> m \<le> ms ! k)
         else k = 0"
proof -
  have least: "hd ms \<le> m" if "m \<in> set ms" for m
    using assms that by (cases ms) auto
  have greatest: "m \<le> last ms" if "m \<in> set ms" for m
  proof -
    obtain j where "j < length ms" "m = ms ! j" using \<open>m \<in> set ms\<close> by (metis in_set_conv_nth)
    then show ?thesis using sorted_nth_mono [OF assms(1), of j "length ms - 1"] assms(2)
      by (simp add: last_conv_nth)
  qed
  consider "v < hd ms" | "hd ms \<le> v" "last ms \<le> v" | "hd ms \<le> v" "v < last ms" by linarith
  then show thesis
  proof cases
    case 1
    then have "\<not> (\<exists>m \<in> set ms. m \<le> v)" using least by fastforce
    with 1 assms(2) show thesis by (intro that [of 0]) (simp_all add: mult_index_def)
  next
    case 2
    have "last ms = ms ! (length ms - 1)" using assms(2) by (rule last_conv_nth)
    with 2 assms(2) greatest show thesis
      by (intro that [of "length ms - 1"]) (auto simp: mult_index_def)
  next
    case 3
    from mult_search_found [OF assms(2) this, of 0]
    obtain k where k: "mult_search ms v 0 = Some k" "Suc k < length ms" "ms ! k \<le> v" "v < ms ! Suc k" by auto
    have top: "m \<le> ms ! k" if m: "m \<in> set ms" "m \<le> v" for m
    proof -
      obtain j where j: "j < length ms" "m = ms ! j" using m(1) by (metis in_set_conv_nth)
      have "j \<le> k"
      proof (rule ccontr)
        assume "\<not> j \<le> k"
        then have "ms ! Suc k \<le> ms ! j" using sorted_nth_mono [OF assms(1), of "Suc k" j] j(1) by simp
        then show False using j(2) m(2) k(4) by simp
      qed
      then show ?thesis using sorted_nth_mono [OF assms(1), of j k] j k(2) by simp
    qed
    have "\<exists>m \<in> set ms. m \<le> v" using k(2,3) nth_mem [of k ms] by auto
    with k 3 top show thesis by (intro that [of k]) (auto simp: mult_index_def)
  qed
qed

lemma unit_prefixes_positive: "p \<in> set (unit_prefixes extra mode) \<Longrightarrow> 0 < value_of (fst p)"
  by (auto simp: unit_prefixes_def bin_prefixes_def si_prefixes_def extra_prefixes_def split: if_splits)

lemma num_div_defined: "value_of b \<noteq> 0 \<Longrightarrow> \<exists>q. num_div a b = Inr q"
  by (cases "(a, b)" rule: num_div.cases) auto

text \<open>The prefix of a value: with a number of significant figures given, \<^verbatim>\<open>nice_units\<close> always
  returns; it divides the value by the greatest multiplier of its table that does not exceed the
  value, and prints the prefix of that multiplier.  When every multiplier exceeds the value, which
  includes zero and every negative value, it uses the smallest multiplier.\<close>

theorem nice_units_prefix:
  "\<exists>m short full q. (m, short, full) \<in> set (unit_prefixes extra mode) \<and> num_div val m = Inr q
     \<and> nice_units rnd fmt val dp (Some k) unit_suffix space extra use_full mode
         = Inr (fmt (CHR ''g'') k q @ space @ (if use_full then full else short) @ unit_suffix)
     \<and> (if \<exists>p \<in> set (unit_prefixes extra mode). value_of (fst p) \<le> value_of val
        then value_of m \<le> value_of val \<and>
             \<not> (\<exists>p \<in> set (unit_prefixes extra mode). value_of m < value_of (fst p) \<and> value_of (fst p) \<le> value_of val)
        else \<not> (\<exists>p \<in> set (unit_prefixes extra mode). value_of (fst p) < value_of m))"
proof -
  let ?t = "unit_prefixes extra mode" and ?v = "value_of val"
  let ?ms = "map value_of (map fst ?t)"
  have ne: "?t \<noteq> []" by (simp add: unit_prefixes_def flip: length_greater_0_conv)
  have "?ms = map (\<lambda>(m, _). value_of m) ?t" by (simp add: case_prod_beta')
  then have srt: "sorted ?ms" by (simp only: unit_prefixes_def sorted_sort_key)
  from mult_index_greatest [OF srt, of ?v] ne obtain i where i: "mult_index ?ms ?v = Some i" "i < length ?t"
    and best: "if \<exists>m \<in> set ?ms. m \<le> ?v then ?ms ! i \<le> ?v \<and> (\<forall>m \<in> set ?ms. m \<le> ?v \<longrightarrow> m \<le> ?ms ! i) else i = 0"
    by auto
  obtain m short full where e: "?t ! i = (m, short, full)" by (cases "?t ! i") auto
  then have mem: "(m, short, full) \<in> set ?t" using i(2) nth_mem by metis
  have mi: "map fst ?t ! i = m" "?ms ! i = value_of m" using i(2) e by simp_all
  obtain q where q: "num_div val m = Inr q"
    using num_div_defined [of m val] unit_prefixes_positive [OF mem] by auto
  obtain r where r: "num_div (fst (?t ! Suc i)) m = Inr r"
    using num_div_defined [of m] unit_prefixes_positive [OF mem] by auto
  have "nice_units rnd fmt val dp (Some k) unit_suffix space extra use_full mode
      = Inr (fmt (CHR ''g'') k q @ space @ (if use_full then full else short) @ unit_suffix)"
    unfolding nice_units_def Let_def i(1) option.case using i(2) by (auto simp: mi(1) q e r)
  moreover have low: "\<not> (\<exists>p \<in> set ?t. value_of (fst p) < value_of m)" if "i = 0"
    using that srt mi(2) ne by (cases ?t) auto
  have "if \<exists>p \<in> set ?t. value_of (fst p) \<le> ?v
      then value_of m \<le> ?v \<and> \<not> (\<exists>p \<in> set ?t. value_of m < value_of (fst p) \<and> value_of (fst p) \<le> ?v)
      else \<not> (\<exists>p \<in> set ?t. value_of (fst p) < value_of m)"
    using best low unfolding mi(2) set_map image_image
    by (cases "\<exists>p \<in> set ?t. value_of (fst p) \<le> ?v") (simp_all add: not_less, meson not_less)
  ultimately show ?thesis using mem q by metis
qed

text \<open>A negative value gets the smallest prefix of the table, and \<^verbatim>\<open>2 ** 30\<close> is spelt out as mega.\<close>

lemma nice_units_negative:
  "nice_units (\<lambda>x _. x) (\<lambda>_ _ _. ''v'') (PyInt (- 5)) 0 None [] '' '' False True ''si'' = Inr ''v yocto''"
  "nice_units (\<lambda>x _. x) (\<lambda>_ _ _. ''v'') (PyInt (2 ^ 31)) 0 None [] '' '' False True ''bin'' = Inr ''v mega''"
  by code_simp+

definition pt2str :: "('a \<Rightarrow> string) \<Rightarrow> 'a \<times> 'a \<Rightarrow> string" where
  "pt2str str point = ''('' @ str (fst point) @ '', '' @ str (snd point) @ '')''"

end
