(* ===== verification/Test_Report.thy ===== *)
theory Test_Report
  imports Py_Prelude
begin

text \<open>
  The reports of \<^verbatim>\<open>test.py\<close>: the XML results of a test run translated to text and to HTML
  (\<^verbatim>\<open>read_test\<close>, \<^verbatim>\<open>node_to_text\<close>, \<^verbatim>\<open>translate_to_text\<close>, \<^verbatim>\<open>translate_to_html\<close>).  The parsed XML file
  is an element tree; a file being written is the list of the strings written to it.
\<close>

section \<open>Element trees\<close>

datatype xml = Elem (tag: string) (attrs: "(string \<times> string) list") (content: "string option") (subs: "xml list")

definition find_sub :: "string \<Rightarrow> xml \<Rightarrow> xml option" where
  "find_sub t x = find (\<lambda>c. tag c = t) (subs x)"

definition find_all :: "string \<Rightarrow> xml \<Rightarrow> xml list" where
  "find_all t x = filter (\<lambda>c. tag c = t) (subs x)"

text \<open>\<^verbatim>\<open>x.find(t).text\<close>, and \<^verbatim>\<open>%s\<close> of a value that may be \<^verbatim>\<open>None\<close>.\<close>

definition sub_text :: "string \<Rightarrow> xml \<Rightarrow> string option result" where
  "sub_text t x = (case find_sub t x of None \<Rightarrow> Inl AttributeError | Some c \<Rightarrow> Inr (content c))"

definition shown :: "string option \<Rightarrow> string" where
  "shown s = (case s of None \<Rightarrow> ''None'' | Some t \<Rightarrow> t)"

definition quoted :: "string \<Rightarrow> string" where
  "quoted s = [QUOT] @ s @ [QUOT]"

record test_info =
  result :: "string option"
  tname :: "string option"
  reason :: "string option"
  time_real :: "string option"

definition read_test :: "xml \<Rightarrow> test_info result" where
  "read_test test =
     res_bind (sub_text ''Result'' test) (\<lambda>r.
     res_bind (sub_text ''Name'' test) (\<lambda>n.
       Inr \<lparr>result = r, tname = n,
            reason = (case find_sub ''Reason'' test of None \<Rightarrow> Some [] | Some c \<Rightarrow> content c),
            time_real = (case find_sub ''Time'' test of
                           None \<Rightarrow> Some [] | Some c \<Rightarrow> map_of (attrs c) ''real'')\<rparr>))"

section \<open>The text report\<close>

definition reason_shown :: "test_info \<Rightarrow> string" where
  "reason_shown i =
     (case reason i of
        None \<Rightarrow> ''None''
      | Some r \<Rightarrow> if r \<noteq> [] then '' ('' @ r @ '')'' else r)"

definition test_line :: "string \<Rightarrow> test_info \<Rightarrow> string" where
  "test_line test_type i =
     shown (result i) @ '': Test '' @ test_type @ '' '' @ quoted (shown (tname i)) @ '' ('' @
     shown (time_real i) @ '')'' @ reason_shown i @ [NL]"

definition detail_fields :: "(string \<times> string) list" where
  "detail_fields =
     [(''Message'', ''      Message:   ''), (''Condition'', ''      Condition: ''),
      (''Actual'', ''      Actual:    ''), (''Limit'', ''      Limit:     ''),
      (''File'', ''      File:      ''), (''Line'', ''      Line:      '')]"

definition detail_lines :: "xml \<Rightarrow> string list result" where
  "detail_lines details =
     for_each (\<lambda>(t, label) out. res_bind (sub_text t details) (\<lambda>s. Inr (out @ [label @ shown s @ [NL]])))
       detail_fields [''    Details:'' @ [NL]]"

text \<open>The lines written for one test, without the tests inside it.\<close>

definition test_lines :: "string \<Rightarrow> xml \<Rightarrow> string list result" where
  "test_lines test_type test =
     res_bind (read_test test) (\<lambda>i.
       for_each (\<lambda>d out. res_bind (detail_lines d) (\<lambda>w. Inr (out @ w)))
         (find_all ''FailureDetails'' test) [test_line test_type i])"

fun node_to_text :: "string \<Rightarrow> xml \<Rightarrow> string list result"
  and cases_to_text :: "xml list \<Rightarrow> string list result" where
  "node_to_text test_type (Elem t a c cs) =
     res_bind (test_lines test_type (Elem t a c cs)) (\<lambda>here.
     res_bind (cases_to_text cs) (\<lambda>below. Inr (here @ below)))"
| "cases_to_text [] = Inr []"
| "cases_to_text (x # xs) =
     (if tag x = ''Test''
      then res_bind (node_to_text ''Case'' x) (\<lambda>w. res_bind (cases_to_text xs) (\<lambda>ws. Inr (w @ ws)))
      else cases_to_text xs)"

definition example_line :: "xml \<Rightarrow> string list result" where
  "example_line example =
     res_bind (sub_text ''Result'' example) (\<lambda>r.
     res_bind (sub_text ''Name'' example) (\<lambda>n.
       let t = (case find_sub ''Time'' example of None \<Rightarrow> Some [] | Some c \<Rightarrow> map_of (attrs c) ''real'')
       in Inr [shown r @ '': Example '' @ quoted (shown n) @ '' ('' @ shown t @ '')'' @ [NL]]))"

definition write_each :: "('a \<Rightarrow> string list result) \<Rightarrow> 'a list \<Rightarrow> string list \<Rightarrow> string list result" where
  "write_each f xs out = for_each (\<lambda>x out. res_bind (f x) (\<lambda>w. Inr (out @ w))) xs out"

definition translate_to_text :: "xml \<Rightarrow> string list result" where
  "translate_to_text et =
     res_bind (write_each (node_to_text ''Suite'') (find_all ''Test'' et) [])
       (write_each example_line (find_all ''Example'' et))"

text \<open>The tests of a tree in document order, each with the word the report uses for it.\<close>

fun tests_of :: "string \<Rightarrow> xml \<Rightarrow> (string \<times> xml) list"
  and cases_of :: "xml list \<Rightarrow> (string \<times> xml) list" where
  "tests_of test_type (Elem t a c cs) = (test_type, Elem t a c cs) # cases_of cs"
| "cases_of [] = []"
| "cases_of (x # xs) = (if tag x = ''Test'' then tests_of ''Case'' x @ cases_of xs else cases_of xs)"

lemma write_each_Nil [simp]: "write_each f [] out = Inr out"
  by (simp add: write_each_def)

lemma write_each_Cons: "write_each f (x # xs) out = res_bind (f x) (\<lambda>w. write_each f xs (out @ w))"
  by (cases "f x") (simp_all add: write_each_def)

lemma write_each_append: "write_each f (xs @ ys) out = res_bind (write_each f xs out) (write_each f ys)"
  by (simp add: write_each_def [abs_def] for_each_append)

lemma write_each_start: "write_each f xs out = res_bind (write_each f xs []) (\<lambda>w. Inr (out @ w))"
proof (induction xs arbitrary: out)
  case (Cons x xs)
  show ?case
  proof (cases "f x")
    case (Inr w)
    with Cons.IH [of "out @ w"] Cons.IH [of w] show ?thesis
      by (cases "write_each f xs []") (simp_all add: write_each_Cons)
  qed (simp add: write_each_Cons)
qed simp

lemma node_to_text_preorder:
  "node_to_text test_type x = write_each (\<lambda>(ty, n). test_lines ty n) (tests_of test_type x) []"
  "cases_to_text xs = write_each (\<lambda>(ty, n). test_lines ty n) (cases_of xs) []"
proof (induction test_type x and xs rule: node_to_text_cases_to_text.induct)
  case (1 test_type t a c cs)
  let ?f = "\<lambda>(ty, n). test_lines ty n"
  show ?case
  proof (cases "test_lines test_type (Elem t a c cs)")
    case (Inr w)
    then show ?thesis using 1 write_each_start [of ?f "cases_of cs" w] by (simp add: write_each_Cons)
  qed (simp add: write_each_Cons)
next
  case (3 x xs)
  let ?f = "\<lambda>(ty, n). test_lines ty n"
  show ?case
  proof (cases "tag x = ''Test''")
    case True
    note node = 3(1) [OF True]
    show ?thesis
    proof (cases "node_to_text ''Case'' x")
      case (Inr w)
      from 3(2) [OF True Inr] have "cases_to_text xs = write_each ?f (cases_of xs) []" .
      with True Inr node show ?thesis
        by (simp add: write_each_append write_each_start [of ?f "cases_of xs" w])
    qed (use True node in \<open>simp add: write_each_append\<close>)
  qed (use 3(3) in simp)
qed simp

text \<open>The text report lists every test: it is the concatenation, over all suites of the document
  and all cases nested in them to any depth, in document order, of the lines of one test, followed
  by a line for each example; it fails exactly when one of these does.\<close>

theorem text_report_lists_tests:
  "translate_to_text et =
     res_bind (write_each (\<lambda>(ty, n). test_lines ty n) (concat (map (tests_of ''Suite'') (find_all ''Test'' et))) [])
       (write_each example_line (find_all ''Example'' et))"
proof -
  let ?f = "\<lambda>(ty, n). test_lines ty n"
  have "write_each (node_to_text ''Suite'') xs out = write_each ?f (concat (map (tests_of ''Suite'') xs)) out" for xs out
  proof (induction xs arbitrary: out)
    case (Cons x xs)
    have "write_each ?f (tests_of ''Suite'' x) out = res_bind (node_to_text ''Suite'' x) (\<lambda>w. Inr (out @ w))"
      unfolding node_to_text_preorder by (rule write_each_start)
    then show ?case
      by (cases "node_to_text ''Suite'' x") (simp_all add: write_each_Cons write_each_append Cons.IH)
  qed simp
  then show ?thesis by (simp add: translate_to_text_def)
qed

section \<open>The HTML report\<close>

definition html_line :: "string \<Rightarrow> string" where
  "html_line s = s @ [NL]"

definition cell :: "string option \<Rightarrow> string" where
  "cell s = html_line (''<td>'' @ shown s @ ''</td>'')"

definition colored_cell :: "string \<Rightarrow> string option \<Rightarrow> string" where
  "colored_cell c s = html_line (''<td style='' @ quoted (''color:'' @ c) @ ''>'' @ shown s @ ''</td>'')"

definition row_start :: string where "row_start = html_line ''<tr>''"

definition row_end :: string where "row_end = html_line ''</tr>''"

definition suite_title :: "test_info \<Rightarrow> string" where
  "suite_title i =
     (let title = shown (result i) @ '': '' @ shown (tname i) @ '' ('' @ shown (time_real i) @ '')''
      in if result i = Some ''PASS'' then html_line (''<h3 style='' @ quoted ''color:green'' @ ''>'' @ title @ ''</h3>'')
         else if result i = Some ''SKIP''
         then html_line (''<h3 style='' @ quoted ''color:#ff6600'' @ ''>'' @ title @ '' ('' @ shown (reason i) @ '')</h3>'')
         else html_line (''<h3 style='' @ quoted ''color:red'' @ ''>'' @ title @ ''</h3>''))"

definition failure_cell :: "xml \<Rightarrow> string list result" where
  "failure_cell details =
     res_bind (for_each (\<lambda>(t, label, sep) out. res_bind (sub_text t details) (\<lambda>s.
                 Inr (out @ [''<b>'' @ label @ '': </b>'' @ shown s @ sep])))
       [(''Message'', ''Message'', '', ''), (''Condition'', ''Condition'', '', ''), (''Actual'', ''Actual'', '', ''),
        (''Limit'', ''Limit'', '', ''), (''File'', ''File'', '', ''), (''Line'', ''Line'', [])] [''<td>''])
       (\<lambda>out. Inr (out @ [html_line ''</td>'']))"

text \<open>The rows of a failed case: the first one shows the case; every row ends with a second
  \<^verbatim>\<open></td>\<close> where the end of the row should be.\<close>

fun failure_rows :: "test_info \<Rightarrow> bool \<Rightarrow> xml list \<Rightarrow> string list result" where
  "failure_rows i first_row [] = Inr []"
| "failure_rows i first_row (d # ds) =
     res_bind (failure_cell d) (\<lambda>w.
     res_bind (failure_rows i False ds) (\<lambda>ws.
       Inr ([row_start] @
            (if first_row then [colored_cell ''red'' (result i), cell (tname i), cell (time_real i)]
             else [cell (Some []), cell (Some []), cell (Some [])]) @
            w @ [html_line ''</td>''] @ ws)))"

definition html_case :: "xml \<Rightarrow> string list result" where
  "html_case case_node =
     res_bind (read_test case_node) (\<lambda>i.
       if result i = Some ''FAIL'' then failure_rows i True (find_all ''FailureDetails'' case_node)
       else Inr [row_start, colored_cell ''green'' (result i), cell (tname i), cell (time_real i),
                 cell (reason i), row_end])"

definition html_suite :: "xml \<Rightarrow> string list result" where
  "html_suite suite =
     res_bind (read_test suite) (\<lambda>i.
       let start = [suite_title i, html_line (''<table border='' @ quoted ''1'' @ ''>''), html_line ''<th> Result </th>'']
       in if result i = Some ''CRASH'' \<or> result i = Some ''SKIP'' \<or> result i = Some ''VALGR''
          then Inr (start @ [row_start,
                 colored_cell (if result i = Some ''SKIP'' then ''#ff6600'' else ''red'') (result i),
                 row_end, html_line ''</table>''])
          else res_bind (write_each html_case (find_all ''Test'' suite)
                 (start @ [html_line ''<th>Test Case Name</th>'', html_line ''<th> Time </th>''] @
                  (if result i = Some ''FAIL'' then [html_line ''<th>Failure Details</th>''] else [])))
                 (\<lambda>out. Inr (out @ [html_line ''</table>''])))"

definition html_example :: "xml \<Rightarrow> string list result" where
  "html_example example =
     res_bind (read_test example) (\<lambda>i.
       Inr [row_start,
            if result i = Some ''PASS'' then colored_cell ''green'' (result i)
            else if result i = Some ''SKIP''
            then html_line (''<td style='' @ quoted ''color:#ff6600'' @ ''>'' @ shown (result i) @ ''</fd>'')
            else colored_cell ''red'' (result i),
            cell (tname i), cell (time_real i), cell (reason i), row_end])"

definition translate_to_html :: "xml \<Rightarrow> string list result" where
  "translate_to_html et =
     res_bind (write_each html_suite (find_all ''Test'' et)
       [html_line ''<html>'', html_line ''<body>'',
        html_line ''<center><h1>ns-3 Test Results</h1></center>'', html_line ''<h2>Test Suites</h2>'']) (\<lambda>out.
     res_bind (write_each html_example (find_all ''Example'' et)
       (out @ [html_line ''<h2>Examples</h2>'', html_line (''<table border='' @ quoted ''1'' @ ''>''),
               html_line ''<th> Result </th>'', html_line ''<th>Example Name</th>'',
               html_line ''<th>Elapsed Time</th>'', html_line ''<th>Details</th>''])) (\<lambda>out'.
       Inr (out' @ [html_line ''</table>'', html_line ''</body>'', html_line ''</html>''])))"

section \<open>Rows of the HTML tables\<close>

definition starts :: "string list \<Rightarrow> nat" where
  "starts out = count_list out row_start"

definition ends :: "string list \<Rightarrow> nat" where
  "ends out = count_list out row_end"

lemma starts_ends_simps [simp]:
  "starts [] = 0" "ends [] = 0"
  "starts (x # xs) = (if x = row_start then 1 else 0) + starts xs"
  "ends (x # xs) = (if x = row_end then 1 else 0) + ends xs"
  "starts (xs @ ys) = starts xs + starts ys" "ends (xs @ ys) = ends xs + ends ys"
  by (simp_all add: starts_def ends_def)

lemma row_distinct [simp]:
  "row_start \<noteq> row_end" "row_end \<noteq> row_start"
  "cell s \<noteq> row_start" "cell s \<noteq> row_end" "colored_cell c s \<noteq> row_start" "colored_cell c s \<noteq> row_end"
  "suite_title i \<noteq> row_start" "suite_title i \<noteq> row_end"
  by (simp_all add: row_start_def row_end_def cell_def colored_cell_def suite_title_def html_line_def Let_def)

lemma html_line_row [simp]:
  "html_line s = row_start \<longleftrightarrow> s = ''<tr>''" "html_line s = row_end \<longleftrightarrow> s = ''</tr>''"
  by (simp_all add: row_start_def row_end_def html_line_def)

text \<open>The rows a case or a suite leaves open: one for every failure detail of a failed case.\<close>

definition unclosed_case :: "xml \<Rightarrow> nat" where
  "unclosed_case c =
     (if sub_text ''Result'' c = Inr (Some ''FAIL'') then length (find_all ''FailureDetails'' c) else 0)"

definition unclosed_suite :: "xml \<Rightarrow> nat" where
  "unclosed_suite s =
     (case sub_text ''Result'' s of
        Inr r \<Rightarrow> if r = Some ''CRASH'' \<or> r = Some ''SKIP'' \<or> r = Some ''VALGR'' then 0
                else sum_list (map unclosed_case (find_all ''Test'' s))
      | Inl _ \<Rightarrow> 0)"

lemma read_test_result: "read_test x = Inr i \<Longrightarrow> sub_text ''Result'' x = Inr (result i)"
  by (auto simp: read_test_def res_simps)

lemma write_each_balance:
  assumes "write_each f xs out = Inr out'" and "\<And>x w. x \<in> set xs \<Longrightarrow> f x = Inr w \<Longrightarrow> starts w = ends w + k x"
  shows "starts out' + ends out = ends out' + starts out + sum_list (map k xs)"
  using assms
proof (induction xs arbitrary: out)
  case (Cons x xs)
  then obtain w where w: "f x = Inr w" "write_each f xs (out @ w) = Inr out'"
    by (auto simp: write_each_Cons res_simps)
  from Cons.IH [OF w(2)] Cons.prems(2) w(1) show ?case by fastforce
qed simp

lemma failure_cell_rows:
  assumes "failure_cell d = Inr w"
  shows "starts w = 0" and "ends w = 0"
  using assms by (auto simp: failure_cell_def res_simps row_start_def row_end_def html_line_def)

lemma failure_rows_balance:
  "failure_rows i first ds = Inr w \<Longrightarrow> starts w = ends w + length ds"
proof (induction ds arbitrary: first w)
  case (Cons d ds)
  then obtain v ws where v: "failure_cell d = Inr v" "failure_rows i False ds = Inr ws"
    and w: "starts w = starts v + starts ws + 1" "ends w = ends v + ends ws"
    by (auto simp: res_simps)
  from Cons.IH [OF v(2)] failure_cell_rows [OF v(1)] w show ?case by simp
qed simp

lemma html_case_balance:
  assumes "html_case c = Inr w"
  shows "starts w = ends w + unclosed_case c"
proof -
  obtain i where i: "read_test c = Inr i" using assms by (auto simp: html_case_def res_simps)
  note r = read_test_result [OF i]
  show ?thesis
  proof (cases "result i = Some ''FAIL''")
    case True
    with assms i have "failure_rows i True (find_all ''FailureDetails'' c) = Inr w" by (simp add: html_case_def)
    from failure_rows_balance [OF this] show ?thesis using True r by (simp add: unclosed_case_def)
  next
    case False
    with assms i have "w = [row_start, colored_cell ''green'' (result i), cell (tname i), cell (time_real i),
      cell (reason i), row_end]" by (simp add: html_case_def)
    with False r show ?thesis by (simp add: unclosed_case_def)
  qed
qed

lemma html_suite_balance:
  assumes "html_suite s = Inr w"
  shows "starts w = ends w + unclosed_suite s"
proof -
  obtain i where i: "read_test s = Inr i" using assms by (auto simp: html_suite_def res_simps)
  note r = read_test_result [OF i]
  show ?thesis
  proof (cases "result i = Some ''CRASH'' \<or> result i = Some ''SKIP'' \<or> result i = Some ''VALGR''")
    case True
    with assms i r show ?thesis by (auto simp: html_suite_def unclosed_suite_def Let_def)
  next
    case False
    with assms i obtain out start where out: "write_each html_case (find_all ''Test'' s) start = Inr out"
      "w = out @ [html_line ''</table>'']" "starts start = 0" "ends start = 0"
      by (auto simp: html_suite_def Let_def res_simps split: if_splits)
    from write_each_balance [OF out(1), of unclosed_case] html_case_balance
    have "starts out = ends out + sum_list (map unclosed_case (find_all ''Test'' s))"
      using out(3,4) by simp
    with False r out(2) show ?thesis by (simp add: unclosed_suite_def)
  qed
qed

lemma html_example_balance: "html_example e = Inr w \<Longrightarrow> starts w = ends w"
  by (auto simp: html_example_def res_simps split: if_splits)

text \<open>The rows of the HTML report: whenever it is written, there are more \<^verbatim>\<open><tr>\<close> than \<^verbatim>\<open></tr>\<close>,
  by exactly one for every failure detail of a failed case in a suite that did not crash; the report
  is balanced only when there is none.\<close>

theorem html_report_rows:
  assumes "translate_to_html et = Inr out"
  shows "starts out = ends out + sum_list (map unclosed_suite (find_all ''Test'' et))"
proof -
  from assms obtain mid out' where o: "write_each html_suite (find_all ''Test'' et) [html_line ''<html>'', html_line ''<body>'',
        html_line ''<center><h1>ns-3 Test Results</h1></center>'', html_line ''<h2>Test Suites</h2>''] = Inr mid"
    "write_each html_example (find_all ''Example'' et)
       (mid @ [html_line ''<h2>Examples</h2>'', html_line (''<table border='' @ quoted ''1'' @ ''>''),
               html_line ''<th> Result </th>'', html_line ''<th>Example Name</th>'',
               html_line ''<th>Elapsed Time</th>'', html_line ''<th>Details</th>'']) = Inr out'"
    "out = out' @ [html_line ''</table>'', html_line ''</body>'', html_line ''</html>'']"
    by (auto simp: translate_to_html_def res_simps)
  have 1: "starts mid = ends mid + sum_list (map unclosed_suite (find_all ''Test'' et))"
    using write_each_balance [OF o(1), of unclosed_suite] html_suite_balance by simp
  have "starts out' + ends mid = ends out' + starts mid"
    using write_each_balance [OF o(2), of "\<lambda>_. 0"] html_example_balance by (simp add: quoted_def)
  with 1 show ?thesis by (simp add: o(3))
qed

definition demo_results :: xml where
  "demo_results =
     (let leaf = (\<lambda>t s. Elem t [] (Some s) [])
      in Elem ''Results'' [] None
           [Elem ''Test'' [] None [leaf ''Result'' ''FAIL'', leaf ''Name'' ''suite'',
              Elem ''Test'' [] None [leaf ''Result'' ''FAIL'', leaf ''Name'' ''case'',
                Elem ''FailureDetails'' [] None [leaf ''Message'' ''m'', leaf ''Condition'' ''c'', leaf ''Actual'' ''1'',
                  leaf ''Limit'' ''2'', leaf ''File'' ''f'', leaf ''Line'' ''3'']]],
            Elem ''Example'' [] None [leaf ''Result'' ''SKIP'', leaf ''Name'' ''ex'']])"

theorem html_report_rows_witness:
  "\<exists>out. translate_to_html demo_results = Inr out \<and> starts out = ends out + 1"
proof -
  obtain out where out: "translate_to_html demo_results = Inr out"
    by (cases "translate_to_html demo_results") (code_simp, blast)
  have "sum_list (map unclosed_suite (find_all ''Test'' demo_results)) = 1" by code_simp
  with html_report_rows [OF out] out show ?thesis by auto
qed

end
