(* ===== verification/Test_Jobs.thy ===== *)
theory Test_Jobs
  imports Py_Prelude
begin

text \<open>
  The work of \<^verbatim>\<open>test.py\<close> before anything is run: the environment (\<^verbatim>\<open>make_paths\<close>), the examples to
  run (\<^verbatim>\<open>parse_examples_to_run_file\<close>), the command of a job (\<^verbatim>\<open>run_job_synchronously\<close>), the
  \<^verbatim>\<open>Job\<close> class, and the part of \<^verbatim>\<open>run_tests\<close> that selects suites and examples and turns them
  into jobs.  What is read from files, printed by other programs or decided by \<^verbatim>\<open>eval\<close>,
  \<^verbatim>\<open>fnmatch\<close> and the path functions of the library is a parameter.
\<close>

section \<open>Configuration and options\<close>

text \<open>The globals set from the build configuration.\<close>

record config =
  APPNAME :: string
  VERSION :: string
  BUILD_PROFILE :: string
  NS3_BASEDIR :: string
  NS3_BUILDDIR :: string
  NS3_MODULE_PATH :: "string list"
  PYTHON :: "string list"
  NSC_ENABLED :: bool
  ENABLE_EXAMPLES :: bool
  ENABLE_PYTHON_BINDINGS :: bool

record test_options =
  buildpath :: string
  constrain :: string
  example :: string
  pyexample :: string
  suite :: string
  fullness :: string
  valgrind :: bool
  multiple :: bool
  update_data :: bool
  process_limit :: int

definition build_profile_suffix :: "config \<Rightarrow> string" where
  "build_profile_suffix c = (if BUILD_PROFILE c = ''release'' then [] else ''-'' @ BUILD_PROFILE c)"

definition program_name :: "config \<Rightarrow> string \<Rightarrow> string" where
  "program_name c name = APPNAME c @ VERSION c @ ''-'' @ name @ build_profile_suffix c"

definition core_kinds :: "string list" where
  "core_kinds = [''core'', ''performance'', ''system'', ''unit'']"

definition core_valgrind_skip_tests :: "string list" where
  "core_valgrind_skip_tests =
     [''ns3-tcp-cwnd'', ''nsc-tcp-loss'', ''ns3-tcp-interoperability'', ''routing-click'',
      ''lte-rr-ff-mac-scheduler'', ''lte-tdmt-ff-mac-scheduler'', ''lte-fdmt-ff-mac-scheduler'',
      ''lte-pf-ff-mac-scheduler'', ''lte-tta-ff-mac-scheduler'', ''lte-fdbet-ff-mac-scheduler'',
      ''lte-ttbet-ff-mac-scheduler'', ''lte-fdtbfq-ff-mac-scheduler'', ''lte-tdtbfq-ff-mac-scheduler'',
      ''lte-pss-ff-mac-scheduler'']"

definition core_nsc_missing_skip_tests :: "string list" where
  "core_nsc_missing_skip_tests = [''ns3-tcp-cwnd'', ''nsc-tcp-loss'', ''ns3-tcp-interoperability'']"

section \<open>The environment\<close>

text \<open>\<^verbatim>\<open>make_paths\<close>.  The variable \<^verbatim>\<open>PYTHONPATH\<close> is overwritten before the value it had is looked at.\<close>

definition extend_path :: "string \<Rightarrow> char \<Rightarrow> string list \<Rightarrow> (string, string) dict \<Rightarrow> (string, string) dict" where
  "extend_path var sep paths environ =
     (let old = (case map_of environ var of None \<Rightarrow> [] | Some v \<Rightarrow> v)
      in AList.update var (old @ concat (map (\<lambda>p. sep # p) paths)) environ)"

definition make_paths :: "config \<Rightarrow> string \<Rightarrow> (string, string) dict \<Rightarrow> (string, string) dict" where
  "make_paths c platform environ =
     (let have_PYTHONPATH = (map_of environ ''PYTHONPATH'' \<noteq> None);
          pypath = path_join (path_join (NS3_BUILDDIR c) ''bindings'') ''python'';
          environ1 = AList.update ''PYTHONPATH'' pypath environ;
          environ2 = (if \<not> have_PYTHONPATH then AList.update ''PYTHONPATH'' pypath environ1
                      else AList.update ''PYTHONPATH'' (pypath @ '':'' @ pypath) environ1)
      in if platform = ''darwin'' then extend_path ''DYLD_LIBRARY_PATH'' (CHR '':'') (NS3_MODULE_PATH c) environ2
         else if platform = ''win32'' then extend_path ''PATH'' (CHR '';'') (NS3_MODULE_PATH c) environ2
         else if platform = ''cygwin'' then extend_path ''PATH'' (CHR '':'') (NS3_MODULE_PATH c) environ2
         else extend_path ''LD_LIBRARY_PATH'' (CHR '':'') (NS3_MODULE_PATH c) environ2)"

text \<open>The environment on platforms other than Darwin and Windows: the library path keeps its value and gets every
  module path appended in order; \<^verbatim>\<open>PYTHONPATH\<close> loses the user's value, and names the directory of
  the bindings once if it was unset and twice if it was set; no other variable changes.\<close>

theorem make_paths_linux:
  assumes "platform \<notin> {''darwin'', ''win32'', ''cygwin''}"
  shows "map_of (make_paths c platform environ) var =
     (let pypath = path_join (path_join (NS3_BUILDDIR c) ''bindings'') ''python'' in
      if var = ''LD_LIBRARY_PATH''
      then Some ((case map_of environ var of None \<Rightarrow> [] | Some v \<Rightarrow> v) @ concat (map (\<lambda>p. CHR '':'' # p) (NS3_MODULE_PATH c)))
      else if var = ''PYTHONPATH''
      then Some (if map_of environ var = None then pypath else pypath @ '':'' @ pypath)
      else map_of environ var)"
proof -
  have plat: "platform \<noteq> ''darwin''" "platform \<noteq> ''win32''" "platform \<noteq> ''cygwin''" using assms by simp_all
  have neq: "''LD_LIBRARY_PATH'' \<noteq> ''PYTHONPATH''" by simp
  show ?thesis
  proof (cases "var = ''LD_LIBRARY_PATH''")
    case True
    then show ?thesis using plat neq by (simp add: make_paths_def extend_path_def Let_def)
  next
    case False
    then show ?thesis using plat neq by (simp add: make_paths_def extend_path_def Let_def)
  qed
qed

theorem make_paths_linux_witness:
  "map_of (make_paths \<lparr>APPNAME = ''ns'', VERSION = ''3'', BUILD_PROFILE = ''debug'', NS3_BASEDIR = ''/b'', NS3_BUILDDIR = ''/b/build'',
       NS3_MODULE_PATH = [''/m''], PYTHON = [''python3''], NSC_ENABLED = False, ENABLE_EXAMPLES = True, ENABLE_PYTHON_BINDINGS = True\<rparr>
     ''linux'' [(''PYTHONPATH'', ''/home/me'')]) ''PYTHONPATH'' = Some ''/b/build/bindings/python:/b/build/bindings/python''"
proof -
  have 1: "''linux'' \<notin> {''darwin'', ''win32'', ''cygwin''}" by simp
  show ?thesis unfolding make_paths_linux [OF 1] by code_simp
qed

section \<open>Examples to run\<close>

type_synonym cpp_entry = "string \<times> string \<times> string"
type_synonym example_lists = "(string \<times> string \<times> string \<times> string) list \<times> string list \<times> (string \<times> string) list"

text \<open>The name of an example and its arguments: \<^verbatim>\<open>s.split(' ', 1)\<close>.\<close>

definition split_example :: "string \<Rightarrow> string \<times> string option" where
  "split_example s =
     (case py_split1 (CHR '' '') s of
        name # args # _ \<Rightarrow> (name, Some args)
      | name # _ \<Rightarrow> (name, None)
      | [] \<Rightarrow> ([], None))"

definition with_args :: "string \<Rightarrow> string option \<Rightarrow> string" where
  "with_args s args = (case args of None \<Rightarrow> s | Some a \<Rightarrow> s @ '' '' @ a)"

record file_system =
  path_exists :: "string \<Rightarrow> bool"
  relpath :: "string \<Rightarrow> string \<Rightarrow> string"
  cpp_examples :: "string \<Rightarrow> cpp_entry list"
  python_examples :: "string \<Rightarrow> (string \<times> string) list"

definition add_cpp_example :: "config \<Rightarrow> file_system \<Rightarrow> string \<Rightarrow> cpp_entry \<Rightarrow> example_lists \<Rightarrow> example_lists" where
  "add_cpp_example c fs cpp_executable_dir entry found =
     (let (example_name_original, do_run, do_valgrind_run) = entry;
          (example_tests, names, python_tests) = found;
          (example_name, args) = split_example example_name_original;
          example_path = path_join cpp_executable_dir (program_name c example_name);
          shown_name = path_join (relpath fs cpp_executable_dir (NS3_BUILDDIR c)) example_name
      in if path_exists fs example_path
         then (example_tests @ [(with_args shown_name args, with_args example_path args, do_run, do_valgrind_run)],
               names @ [example_name_original], python_tests)
         else found)"

definition add_python_example :: "file_system \<Rightarrow> string \<Rightarrow> string \<times> string \<Rightarrow> example_lists \<Rightarrow> example_lists" where
  "add_python_example fs python_script_dir entry found =
     (let (example_tests, names, python_tests) = found;
          (example_name, args) = split_example (fst entry);
          example_path = path_join python_script_dir example_name
      in if path_exists fs example_path
         then (example_tests, names, python_tests @ [(with_args example_path args, snd entry)])
         else found)"

definition parse_examples_to_run_file ::
    "config \<Rightarrow> file_system \<Rightarrow> string \<Rightarrow> string \<Rightarrow> string \<Rightarrow> example_lists \<Rightarrow> example_lists" where
  "parse_examples_to_run_file c fs path cpp_executable_dir python_script_dir found =
     (if path_exists fs path
      then fold (add_python_example fs python_script_dir) (python_examples fs path)
             (fold (add_cpp_example c fs cpp_executable_dir) (cpp_examples fs path) found)
      else found)"

text \<open>The three loops over example directories, modules and contributed modules.\<close>

definition module_examples :: "config \<Rightarrow> file_system \<Rightarrow> string \<Rightarrow> string \<Rightarrow> example_lists \<Rightarrow> example_lists" where
  "module_examples c fs base modul =
     (let directory = path_join base (drop 4 modul);
          example_directory = path_join directory ''examples''
      in parse_examples_to_run_file c fs (path_join (path_join directory ''test'') ''examples-to-run.py'')
           (path_join (NS3_BUILDDIR c) example_directory) example_directory)"

definition directory_examples :: "config \<Rightarrow> file_system \<Rightarrow> string \<Rightarrow> example_lists \<Rightarrow> example_lists" where
  "directory_examples c fs directory =
     (let example_directory = path_join ''examples'' directory
      in parse_examples_to_run_file c fs (path_join example_directory ''examples-to-run.py'')
           (path_join (NS3_BUILDDIR c) example_directory) example_directory)"

definition all_examples :: "config \<Rightarrow> file_system \<Rightarrow> string list \<Rightarrow> string list \<Rightarrow> string list \<Rightarrow> example_lists" where
  "all_examples c fs directories modules contributed =
     fold (module_examples c fs ''contrib'') contributed
       (fold (module_examples c fs ''src'') modules
         (fold (directory_examples c fs) directories ([], [], [])))"

text \<open>Every example that is listed was found: its path without arguments exists.\<close>

definition examples_exist :: "file_system \<Rightarrow> example_lists \<Rightarrow> bool" where
  "examples_exist fs found \<longleftrightarrow>
     (\<forall>(_, p, _, _) \<in> set (fst found). \<exists>q args. p = with_args q args \<and> path_exists fs q) \<and>
     (\<forall>(p, _) \<in> set (snd (snd found)). \<exists>q args. p = with_args q args \<and> path_exists fs q) \<and>
     length (fst found) = length (fst (snd found))"

lemma add_cpp_example_exist: "examples_exist fs found \<Longrightarrow> examples_exist fs (add_cpp_example c fs d e found)"
  by (auto simp: add_cpp_example_def examples_exist_def Let_def split: prod.splits)

lemma add_python_example_exist: "examples_exist fs found \<Longrightarrow> examples_exist fs (add_python_example fs d e found)"
  by (auto simp: add_python_example_def examples_exist_def Let_def split: prod.splits)

lemma fold_inv: "P s \<Longrightarrow> (\<And>x s. P s \<Longrightarrow> P (f x s)) \<Longrightarrow> P (fold f xs s)"
  by (induction xs arbitrary: s) auto

lemma parse_examples_exist:
  "examples_exist fs found \<Longrightarrow> examples_exist fs (parse_examples_to_run_file c fs p d e found)"
  unfolding parse_examples_to_run_file_def
  by (auto intro!: fold_inv add_cpp_example_exist add_python_example_exist)

lemma all_examples_exist: "examples_exist fs (all_examples c fs ds ms cs)"
proof -
  have start: "examples_exist fs ([], [], [])" by (simp add: examples_exist_def)
  have dir: "examples_exist fs (directory_examples c fs d l)" if "examples_exist fs l" for d l
    using parse_examples_exist [OF that] by (simp add: directory_examples_def Let_def)
  have mod: "examples_exist fs (module_examples c fs b m l)" if "examples_exist fs l" for b m l
    using parse_examples_exist [OF that] by (simp add: module_examples_def Let_def)
  show ?thesis
    unfolding all_examples_def by (rule fold_inv, rule fold_inv, rule fold_inv, rule start) (fact dir mod)+
qed

section \<open>Jobs\<close>

record job =
  is_break :: bool
  is_skip :: bool
  skip_reason :: string
  is_example :: bool
  is_pyexample :: bool
  shell_command :: string
  display_name :: string
  basedir :: string
  tempdir :: string
  job_cwd :: string
  tmp_file_name :: string
  returncode :: int
  elapsed_time :: rat
  build_path :: string

definition new_job :: job where
  "new_job = \<lparr>is_break = False, is_skip = False, skip_reason = [], is_example = False, is_pyexample = False,
     shell_command = [], display_name = [], basedir = [], tempdir = [], job_cwd = [], tmp_file_name = [],
     returncode = 0, elapsed_time = 0, build_path = []\<rparr>"

definition set_is_break :: "bool \<Rightarrow> job \<Rightarrow> job" where "set_is_break v j = j\<lparr>is_break := v\<rparr>"
definition set_is_skip :: "bool \<Rightarrow> job \<Rightarrow> job" where "set_is_skip v j = j\<lparr>is_skip := v\<rparr>"
definition set_skip_reason :: "string \<Rightarrow> job \<Rightarrow> job" where "set_skip_reason v j = j\<lparr>skip_reason := v\<rparr>"
definition set_is_example :: "bool \<Rightarrow> job \<Rightarrow> job" where "set_is_example v j = j\<lparr>is_example := v\<rparr>"
definition set_is_pyexample :: "bool \<Rightarrow> job \<Rightarrow> job" where "set_is_pyexample v j = j\<lparr>is_pyexample := v\<rparr>"
definition set_shell_command :: "string \<Rightarrow> job \<Rightarrow> job" where "set_shell_command v j = j\<lparr>shell_command := v\<rparr>"
definition set_build_path :: "string \<Rightarrow> job \<Rightarrow> job" where "set_build_path v j = j\<lparr>build_path := v\<rparr>"
definition set_display_name :: "string \<Rightarrow> job \<Rightarrow> job" where "set_display_name v j = j\<lparr>display_name := v\<rparr>"
definition set_basedir :: "string \<Rightarrow> job \<Rightarrow> job" where "set_basedir v j = j\<lparr>basedir := v\<rparr>"
definition set_tempdir :: "string \<Rightarrow> job \<Rightarrow> job" where "set_tempdir v j = j\<lparr>tempdir := v\<rparr>"
definition set_cwd :: "string \<Rightarrow> job \<Rightarrow> job" where "set_cwd v j = j\<lparr>job_cwd := v\<rparr>"
definition set_tmp_file_name :: "string \<Rightarrow> job \<Rightarrow> job" where "set_tmp_file_name v j = j\<lparr>tmp_file_name := v\<rparr>"
definition set_returncode :: "int \<Rightarrow> job \<Rightarrow> job" where "set_returncode v j = j\<lparr>returncode := v\<rparr>"
definition set_elapsed_time :: "rat \<Rightarrow> job \<Rightarrow> job" where "set_elapsed_time v j = j\<lparr>elapsed_time := v\<rparr>"

lemmas job_setters = set_is_break_def set_is_skip_def set_skip_reason_def set_is_example_def set_is_pyexample_def
  set_shell_command_def set_build_path_def set_display_name_def set_basedir_def set_tempdir_def set_cwd_def
  set_tmp_file_name_def set_returncode_def set_elapsed_time_def

text \<open>The command of \<^verbatim>\<open>run_job_synchronously\<close>.\<close>

definition job_command :: "config \<Rightarrow> string \<Rightarrow> bool \<Rightarrow> bool \<Rightarrow> string \<Rightarrow> string result" where
  "job_command c command use_valgrind is_python path =
     (let suppressions_path = path_join (NS3_BASEDIR c) ''testpy.supp''
      in res_bind (if is_python
                   then res_bind (py_nth (PYTHON c) 0) (\<lambda>py. Inr (py @ '' '' @ path_join (NS3_BASEDIR c) command))
                   else if path \<noteq> [] then Inr (path_join path command)
                   else Inr (path_join (NS3_BUILDDIR c) command)) (\<lambda>path_cmd.
         Inr (if use_valgrind
              then ''valgrind --suppressions='' @ suppressions_path @
                   '' --leak-check=full --show-reachable=yes --error-exitcode=2 --errors-for-leak-kinds=all '' @ path_cmd
              else path_cmd)))"

text \<open>What running a command in a directory gives: its return code, whether each of the two outputs
  can be decoded, and the time.\<close>

type_synonym outcome = "int \<times> bool \<times> bool \<times> rat"

definition run_job_synchronously ::
    "config \<Rightarrow> (string \<Rightarrow> string \<Rightarrow> outcome) \<Rightarrow> string \<Rightarrow> string \<Rightarrow> bool \<Rightarrow> bool \<Rightarrow> string \<Rightarrow> (int \<times> rat) result" where
  "run_job_synchronously c shell command directory use_valgrind is_python path =
     res_bind (job_command c command use_valgrind is_python path) (\<lambda>cmd.
       let (code, out_ok, err_ok, t) = shell cmd directory
       in Inr (if out_ok \<and> err_ok then code else 1, t))"

end
