(* ===== verification/Test_Dispatch.thy ===== *)
theory Test_Dispatch
  imports Test_Jobs
begin

text \<open>
  The dispatching half of \<^verbatim>\<open>run_tests\<close> in \<^verbatim>\<open>test.py\<close>: which suites and examples are selected, the
  job made for each, the number of worker threads, and the order in which the jobs enter the
  input queue.
\<close>

section \<open>Selecting the suites\<close>

text \<open>What the selection asks others: the output of a test-runner command, \<^verbatim>\<open>fnmatch.filter\<close>, the
  value of a condition, which \<^verbatim>\<open>eval\<close> may fail to give, \<^verbatim>\<open>os.path.abspath\<close> and the current directory.\<close>

record surroundings =
  output_of :: "string \<Rightarrow> string"
  fnmatch_filter :: "string list \<Rightarrow> string \<Rightarrow> string list"
  eval_cond :: "string \<Rightarrow> bool result"
  abspath :: "string \<Rightarrow> string"
  getcwd :: string

definition runner_command :: "config \<Rightarrow> string \<Rightarrow> string" where
  "runner_command c arguments = path_join ''utils'' (program_name c ''test-runner'' @ arguments)"

definition waf_command :: "test_options \<Rightarrow> bool \<Rightarrow> bool \<Rightarrow> string" where
  "waf_command opt kinds list =
     (if kinds \<or> list \<or> constrain opt \<noteq> [] \<and> constrain opt \<in> set core_kinds
      then ''./waf --target=test-runner''
      else if example opt \<noteq> [] then ''./waf --target='' @ basename (example opt)
      else ''./waf'')"

text \<open>The suites and the flag \<^verbatim>\<open>single_suite\<close>; the left value is the code of \<^verbatim>\<open>sys.exit\<close>.\<close>

definition find_suites :: "config \<Rightarrow> surroundings \<Rightarrow> test_options \<Rightarrow> int + string list \<times> bool" where
  "find_suites c sr opt =
     (if suite opt \<noteq> []
      then let found = fnmatch_filter sr
                 (py_split NL (output_of sr (runner_command c '' --print-test-name-list''))) (suite opt)
           in if found = [] then Inl 2
              else Inr (py_split NL (py_join [NL] found), length found = 1)
      else if example opt = [] \<and> pyexample opt = []
      then Inr (py_split NL (output_of sr (runner_command c
                  ('' --print-test-name-list'' @
                   (if constrain opt \<noteq> [] then '' --test-type='' @ constrain opt else [])))), False)
      else Inr (py_split NL [], False))"

definition remove_performance :: "string list \<Rightarrow> string list \<Rightarrow> string list" where
  "remove_performance performance_test_list suite_list = fold remove1 performance_test_list suite_list"

definition suite_list :: "config \<Rightarrow> surroundings \<Rightarrow> test_options \<Rightarrow> int + string list" where
  "suite_list c sr opt =
     res_bind (find_suites c sr opt) (\<lambda>(suites, single_suite).
       Inr (if \<not> single_suite \<and> constrain opt \<noteq> ''performance''
            then remove_performance
                   (py_split NL (output_of sr (runner_command c '' --print-test-name-list --test-type=performance'')))
                   suites
            else suites))"

lemma remove_performance_set: "set (remove_performance ps xs) \<subseteq> set xs"
  unfolding remove_performance_def
proof (induction ps arbitrary: xs)
  case (Cons p ps)
  from Cons [of "remove1 p xs"] show ?case using set_remove1_subset [of p xs] by auto
qed simp

lemma remove_performance_distinct:
  assumes "distinct xs"
  shows "set (remove_performance ps xs) = set xs - set ps" and "distinct (remove_performance ps xs)"
  using assms unfolding remove_performance_def
  by (induction ps arbitrary: xs) auto

text \<open>Performance suites are not run by default: when neither one suite nor the kind
  \<^verbatim>\<open>performance\<close> was asked for and the test-runner lists no suite twice, the suites that remain are
  exactly those found that the test-runner does not list as performance tests.\<close>

theorem performance_suites_removed:
  assumes "find_suites c sr opt = Inr (suites, False)" and "distinct suites" and "constrain opt \<noteq> ''performance''"
  shows "\<exists>l. suite_list c sr opt = Inr l \<and> distinct l \<and>
     set l = set suites - set (py_split NL (output_of sr (runner_command c '' --print-test-name-list --test-type=performance'')))"
  using assms remove_performance_distinct [OF assms(2)] by (simp add: suite_list_def)

definition demo_config :: config where
  "demo_config = \<lparr>APPNAME = ''ns'', VERSION = ''3'', BUILD_PROFILE = ''debug'', NS3_BASEDIR = ''/b'', NS3_BUILDDIR = ''/b/build'',
     NS3_MODULE_PATH = [], PYTHON = [''python3''], NSC_ENABLED = False, ENABLE_EXAMPLES = True, ENABLE_PYTHON_BINDINGS = True\<rparr>"

definition demo_opt :: test_options where
  "demo_opt = \<lparr>buildpath = [], constrain = [], example = [], pyexample = [], suite = [], fullness = ''QUICK'',
     valgrind = False, multiple = False, update_data = False, process_limit = 0\<rparr>"

definition demo_surroundings :: surroundings where
  "demo_surroundings = \<lparr>
     output_of = (\<lambda>cmd. if suffix ''performance'' cmd then ''b'' else ''a'' @ [NL] @ ''b'' @ [NL] @ ''c''),
     fnmatch_filter = (\<lambda>names pat. filter (\<lambda>n. n = pat) names), eval_cond = (\<lambda>s. Inr (s = ''True'')), abspath = id,
     getcwd = ''/b''\<rparr>"

theorem performance_suites_removed_witness:
  "\<exists>l. suite_list demo_config demo_surroundings demo_opt = Inr l \<and> distinct l \<and> set l = {''a'', ''b'', ''c''} - {''b''}"
proof -
  have 1: "find_suites demo_config demo_surroundings demo_opt = Inr ([''a'', ''b'', ''c''], False)" by code_simp
  have 2: "py_split NL (output_of demo_surroundings (runner_command demo_config '' --print-test-name-list --test-type=performance'')) = [''b'']"
    by code_simp
  have "distinct [''a'', ''b'', ''c'']" "constrain demo_opt \<noteq> ''performance''" by (simp_all add: demo_opt_def)
  from performance_suites_removed [OF 1 this] show ?thesis unfolding 2 by simp
qed

section \<open>Worker threads\<close>

text \<open>The number of worker threads; \<open>processors\<close> is what the machine reports.\<close>

definition choose_processors :: "int \<Rightarrow> test_options \<Rightarrow> int" where
  "choose_processors processors opt =
     (if process_limit opt \<noteq> 0 \<and> \<not> processors < process_limit opt then process_limit opt else processors)"

lemma choose_processors_bounds:
  "choose_processors n opt \<le> max n (process_limit opt)"
  "1 \<le> n \<Longrightarrow> 0 \<le> process_limit opt \<Longrightarrow> 1 \<le> choose_processors n opt"
  by (auto simp: choose_processors_def)

text \<open>A negative limit on the jobs is taken at its word: there is no worker at all.\<close>

lemma negative_limit: "process_limit opt < 0 \<Longrightarrow> 0 \<le> n \<Longrightarrow> choose_processors n opt < 0"
  by (simp add: choose_processors_def)

section \<open>Making jobs\<close>

definition to_upper :: "string \<Rightarrow> string" where
  "to_upper s = map (\<lambda>c. if 97 \<le> (of_char c :: nat) \<and> (of_char c :: nat) \<le> 122 then char_of ((of_char c :: nat) - 32) else c) s"

definition skip_if :: "bool \<Rightarrow> string \<Rightarrow> job \<Rightarrow> job" where
  "skip_if b why j = (if b then set_skip_reason why (set_is_skip True j) else j)"

definition suite_job :: "config \<Rightarrow> surroundings \<Rightarrow> test_options \<Rightarrow> string \<Rightarrow> string \<Rightarrow> job" where
  "suite_job c sr opt dir test =
     (let j1 = set_tempdir dir (set_basedir (getcwd sr) (set_cwd (getcwd sr)
                 (set_tmp_file_name (path_join dir (test @ ''.xml'')) (set_display_name test
                   (set_is_pyexample False (set_is_example False new_job))))));
          multiple_arg = (if multiple opt then [] else '' --stop-on-failure'');
          fullness_arg = (if fullness opt \<noteq> [] then '' --fullness='' @ to_upper (fullness opt) else '' --fullness=QUICK'');
          j2 = set_shell_command (runner_command c ('' --test-name='' @ test @ multiple_arg @ fullness_arg)) j1
      in skip_if (\<not> NSC_ENABLED c \<and> test \<in> set core_nsc_missing_skip_tests) ''requires NSC''
           (skip_if (valgrind opt \<and> test \<in> set core_valgrind_skip_tests) ''crashes valgrind'' j2))"

definition example_job :: "surroundings \<Rightarrow> string \<Rightarrow> string \<Rightarrow> string \<Rightarrow> string \<Rightarrow> job" where
  "example_job sr dir shown_name command path =
     set_build_path path (set_shell_command command (set_tempdir dir (set_basedir (getcwd sr) (set_cwd dir
       (set_tmp_file_name [] (set_display_name shown_name (set_is_pyexample False (set_is_example True new_job))))))))"

definition pyexample_job :: "surroundings \<Rightarrow> string \<Rightarrow> string \<Rightarrow> job" where
  "pyexample_job sr dir test =
     set_build_path [] (set_shell_command test (set_tempdir dir (set_basedir (getcwd sr) (set_cwd dir
       (set_tmp_file_name [] (set_display_name test (set_is_pyexample True (set_is_example False new_job))))))))"

definition break_job :: job where
  "break_job = set_is_break True new_job"

section \<open>Dispatching\<close>

record dispatch =
  input_queue :: "job list"
  jobs :: nat
  total_tests :: nat

definition dispatch_init :: dispatch where
  "dispatch_init = \<lparr>input_queue = [], jobs = 0, total_tests = 0\<rparr>"

definition put_job :: "job \<Rightarrow> dispatch \<Rightarrow> dispatch" where
  "put_job j d = d\<lparr>input_queue := input_queue d @ [j], jobs := jobs d + 1, total_tests := total_tests d + 1\<rparr>"

definition dispatch_suites ::
    "config \<Rightarrow> surroundings \<Rightarrow> test_options \<Rightarrow> string \<Rightarrow> string list \<Rightarrow> dispatch \<Rightarrow> dispatch" where
  "dispatch_suites c sr opt dir suites d =
     fold (\<lambda>t d. if py_strip t \<noteq> [] then put_job (suite_job c sr opt dir (py_strip t)) d else d) suites d"

definition runnable_programs :: "string list \<Rightarrow> (string, string) dict" where
  "runnable_programs programs = fold (\<lambda>p d. AList.update (basename p) p d) programs []"

definition command_name :: "string \<Rightarrow> string" where
  "command_name test = basename (fst (split_example test))"

text \<open>One entry of the list of examples, one example named by the user (\<^verbatim>\<open>fnmatch.filter\<close> returns
  members of the list it is given, so the lookup succeeds), and one entry of the list of Python
  examples.\<close>

definition queue_example ::
    "surroundings \<Rightarrow> test_options \<Rightarrow> string \<Rightarrow> (string, string) dict
       \<Rightarrow> string \<times> string \<times> string \<times> string \<Rightarrow> dispatch \<Rightarrow> dispatch result" where
  "queue_example sr opt dir programs entry d =
     (let (name, test, do_run, do_valgrind_run) = entry in
      if map_of programs (command_name test) = None then Inr d
      else res_bind (eval_cond sr do_run) (\<lambda>run.
        if \<not> run then Inr d
        else res_bind (if valgrind opt then eval_cond sr do_valgrind_run else Inr True) (\<lambda>fit.
          Inr (put_job (skip_if (\<not> fit) ''skip in valgrind runs'' (example_job sr dir name test (buildpath opt))) d))))"

definition queue_named_example ::
    "surroundings \<Rightarrow> test_options \<Rightarrow> string \<Rightarrow> (string, string) dict \<Rightarrow> string \<Rightarrow> dispatch \<Rightarrow> dispatch" where
  "queue_named_example sr opt dir programs key d =
     (case map_of programs key of
        None \<Rightarrow> d
      | Some p \<Rightarrow> put_job (example_job sr dir (abspath sr p) (abspath sr p) (buildpath opt)) d)"

definition queue_pyexample ::
    "config \<Rightarrow> surroundings \<Rightarrow> test_options \<Rightarrow> string \<Rightarrow> string list \<Rightarrow> string \<times> string \<Rightarrow> dispatch \<Rightarrow> dispatch result" where
  "queue_pyexample c sr opt dir scripts entry d =
     (let (test, do_run) = entry in
      if command_name test \<notin> set scripts then Inr d
      else res_bind (eval_cond sr do_run) (\<lambda>run.
        Inr (if run
             then put_job (skip_if (\<not> ENABLE_PYTHON_BINDINGS c) ''requires Python bindings''
                            (skip_if (valgrind opt) ''skip in valgrind runs'' (pyexample_job sr dir test))) d
             else d)))"

text \<open>An exception of a condition ends the dispatching.\<close>

definition dispatch_examples ::
    "config \<Rightarrow> surroundings \<Rightarrow> test_options \<Rightarrow> string \<Rightarrow> (string, string) dict
       \<Rightarrow> (string \<times> string \<times> string \<times> string) list \<Rightarrow> dispatch \<Rightarrow> dispatch result" where
  "dispatch_examples c sr opt dir programs example_tests d =
     (if suite opt = [] \<and> example opt = [] \<and> pyexample opt = []
      then if (constrain opt = [] \<or> constrain opt = ''example'') \<and> ENABLE_EXAMPLES c
           then for_each (queue_example sr opt dir programs) example_tests d
           else Inr d
      else if example opt \<noteq> []
      then Inr (fold (queue_named_example sr opt dir programs)
             (fnmatch_filter sr (dict_keys programs) (program_name c (example opt))) d)
      else Inr d)"

definition dispatch_pyexamples ::
    "config \<Rightarrow> surroundings \<Rightarrow> test_options \<Rightarrow> string \<Rightarrow> string list
       \<Rightarrow> (string \<times> string) list \<Rightarrow> dispatch \<Rightarrow> dispatch result" where
  "dispatch_pyexamples c sr opt dir scripts python_tests d =
     (if suite opt = [] \<and> example opt = [] \<and> pyexample opt = []
      then if (constrain opt = [] \<or> constrain opt = ''pyexample'') \<and> ENABLE_EXAMPLES c
           then for_each (queue_pyexample c sr opt dir scripts) python_tests d
           else Inr d
      else if pyexample opt \<noteq> []
      then Inr (if basename (pyexample opt) \<in> set scripts
           then put_job (pyexample_job sr dir (pyexample opt)) d else d)
      else Inr d)"

definition dispatch_breaks :: "int \<Rightarrow> dispatch \<Rightarrow> dispatch" where
  "dispatch_breaks processors d = d\<lparr>input_queue := input_queue d @ replicate (nat processors) break_job\<rparr>"

definition dispatch_all ::
    "config \<Rightarrow> surroundings \<Rightarrow> test_options \<Rightarrow> string \<Rightarrow> string list \<Rightarrow> string list \<Rightarrow> example_lists \<Rightarrow> string list
       \<Rightarrow> int \<Rightarrow> dispatch result" where
  "dispatch_all c sr opt dir programs scripts examples suites processors =
     res_bind (dispatch_examples c sr opt dir (runnable_programs programs) (fst examples)
                (dispatch_suites c sr opt dir suites dispatch_init)) (\<lambda>d.
     res_bind (dispatch_pyexamples c sr opt dir scripts (snd (snd examples)) d) (\<lambda>d'.
       Inr (dispatch_breaks processors d')))"

lemma suite_job_fields [simp]:
  "is_break (suite_job c sr opt dir t) = False" "is_example (suite_job c sr opt dir t) = False"
  "is_pyexample (suite_job c sr opt dir t) = False" "display_name (suite_job c sr opt dir t) = t"
  by (simp_all add: suite_job_def skip_if_def job_setters new_job_def Let_def)

lemma skip_if_fields [simp]:
  "is_break (skip_if b why j) = is_break j" "is_example (skip_if b why j) = is_example j"
  "is_pyexample (skip_if b why j) = is_pyexample j" "display_name (skip_if b why j) = display_name j"
  "is_skip (skip_if b why j) \<longleftrightarrow> b \<or> is_skip j"
  by (simp_all add: skip_if_def job_setters)

lemma example_job_fields [simp]:
  "is_break (example_job sr dir n t p) = False" "is_example (example_job sr dir n t p) = True"
  "is_pyexample (example_job sr dir n t p) = False" "display_name (example_job sr dir n t p) = n"
  by (simp_all add: example_job_def job_setters new_job_def)

lemma pyexample_job_fields [simp]:
  "is_break (pyexample_job sr dir t) = False" "is_example (pyexample_job sr dir t) = False"
  "is_pyexample (pyexample_job sr dir t) = True" "display_name (pyexample_job sr dir t) = t"
  by (simp_all add: pyexample_job_def job_setters new_job_def)

text \<open>The counters agree with the queue, and no break job has been queued.\<close>

definition counted :: "dispatch \<Rightarrow> bool" where
  "counted d \<longleftrightarrow> jobs d = length (input_queue d) \<and> total_tests d = length (input_queue d) \<and>
     (\<forall>j \<in> set (input_queue d). \<not> is_break j)"

lemma put_job_counted: "counted d \<Longrightarrow> \<not> is_break j \<Longrightarrow> counted (put_job j d)"
  by (simp add: counted_def put_job_def)

lemma dispatch_suites_counted: "counted d \<Longrightarrow> counted (dispatch_suites c sr opt dir suites d)"
  unfolding dispatch_suites_def by (rule fold_inv) (auto intro: put_job_counted)

lemma dispatch_examples_counted:
  assumes "dispatch_examples c sr opt dir programs tests d = Inr d'" and "counted d"
  shows "counted d'"
proof -
  have "counted d2" if "queue_example sr opt dir programs e d1 = Inr d2" "counted d1" for e d1 d2
    using that by (auto simp: queue_example_def put_job_counted res_simps split: prod.splits if_splits)
  then have "counted d2" if "for_each (queue_example sr opt dir programs) tests d = Inr d2" for d2
    using for_each_inv [OF that, of counted] assms(2) by blast
  moreover have "counted (queue_named_example sr opt dir programs k d)" if "counted d" for k d
    using that by (simp add: queue_named_example_def put_job_counted split: option.split)
  then have "counted (fold (queue_named_example sr opt dir programs) ks d)" for ks
    using assms(2) by (simp add: fold_inv)
  ultimately show ?thesis using assms by (auto simp: dispatch_examples_def split: if_splits)
qed

lemma dispatch_pyexamples_counted:
  assumes "dispatch_pyexamples c sr opt dir scripts tests d = Inr d'" and "counted d"
  shows "counted d'"
proof -
  have "counted d2" if "queue_pyexample c sr opt dir scripts e d1 = Inr d2" "counted d1" for e d1 d2
    using that by (auto simp: queue_pyexample_def put_job_counted res_simps split: prod.splits if_splits)
  then have "counted d2" if "for_each (queue_pyexample c sr opt dir scripts) tests d = Inr d2" for d2
    using for_each_inv [OF that, of counted] assms(2) by blast
  then show ?thesis using assms by (auto simp: dispatch_pyexamples_def put_job_counted split: if_splits)
qed

text \<open>The input queue after dispatching: first all jobs to run, none of which is a break job, then
  one break job per worker; \<^verbatim>\<open>jobs\<close> and \<^verbatim>\<open>total_tests\<close> both count exactly the jobs to run, so the
  main thread waits for as many results as there are jobs.\<close>

theorem dispatch_queue_shape:
  assumes "dispatch_all c sr opt dir programs scripts examples suites processors = Inr d"
  shows "\<exists>work. input_queue d = work @ replicate (nat processors) break_job \<and> \<not> (\<exists>j \<in> set work. is_break j) \<and>
    is_break break_job \<and> jobs d = length work \<and> total_tests d = length work"
proof -
  obtain d1 d2 where d: "dispatch_examples c sr opt dir (runnable_programs programs) (fst examples)
        (dispatch_suites c sr opt dir suites dispatch_init) = Inr d1"
      "dispatch_pyexamples c sr opt dir scripts (snd (snd examples)) d1 = Inr d2" "d = dispatch_breaks processors d2"
    using assms by (auto simp: dispatch_all_def res_simps)
  have "counted dispatch_init" by (simp add: counted_def dispatch_init_def)
  then have "counted d2"
    using dispatch_pyexamples_counted [OF d(2)] dispatch_examples_counted [OF d(1)] dispatch_suites_counted by blast
  then show ?thesis
    using d(3) by (intro exI [of _ "input_queue d2"]) (auto simp: dispatch_breaks_def counted_def break_job_def job_setters)
qed

text \<open>A condition that cannot be evaluated is the only thing that stops the dispatching.\<close>

lemma dispatch_all_raises:
  assumes "dispatch_all c sr opt dir programs scripts examples suites processors = Inl e"
  shows "\<exists>cond. eval_cond sr cond = Inl e"
proof -
  have each: "\<exists>x s. f x s = Inl e" if "for_each f xs s0 = Inl e" for f :: "'a \<Rightarrow> dispatch \<Rightarrow> dispatch result" and xs s0
    using that by (induction xs arbitrary: s0) (auto simp: res_simps)
  have ex: "\<exists>cond. eval_cond sr cond = Inl e" if "for_each (queue_example sr opt dir programs) xs s0 = Inl e" for programs xs s0
    using each [OF that] by (auto simp: queue_example_def res_simps split: prod.splits if_splits)
  have py: "\<exists>cond. eval_cond sr cond = Inl e" if "for_each (queue_pyexample c sr opt dir scripts) xs s0 = Inl e" for xs s0
    using each [OF that] by (auto simp: queue_pyexample_def res_simps split: prod.splits if_splits)
  show ?thesis
    using assms ex py by (auto simp: dispatch_all_def dispatch_examples_def dispatch_pyexamples_def res_simps split: if_splits)
qed

lemma dispatch_suites_queue:
  "input_queue (dispatch_suites c sr opt dir suites d) =
     input_queue d @ map (suite_job c sr opt dir) (filter (\<lambda>t. t \<noteq> []) (map py_strip suites))"
  unfolding dispatch_suites_def by (induction suites arbitrary: d) (simp_all add: put_job_def)

text \<open>The jobs of the suites: one job for every suite whose name is not blank, in the order of the
  list and under its stripped name, asking the test-runner for exactly that suite; it is marked to be
  skipped exactly when it is on the valgrind list in a valgrind run, or on the NSC list and NSC is
  missing, and the reason given is the latter when both hold.\<close>

theorem dispatch_suites_exact:
  "map display_name (input_queue (dispatch_suites c sr opt dir suites dispatch_init))
      = filter (\<lambda>t. t \<noteq> []) (map py_strip suites)
   \<and> input_queue (dispatch_suites c sr opt dir suites dispatch_init)
      = map (suite_job c sr opt dir) (filter (\<lambda>t. t \<noteq> []) (map py_strip suites))
   \<and> (let j = suite_job c sr opt dir t;
          no_nsc = \<not> NSC_ENABLED c \<and> t \<in> set core_nsc_missing_skip_tests;
          no_valgrind = valgrind opt \<and> t \<in> set core_valgrind_skip_tests
      in shell_command j = runner_command c ('' --test-name='' @ t @ (if multiple opt then [] else '' --stop-on-failure'') @
             '' --fullness='' @ (if fullness opt = [] then ''QUICK'' else to_upper (fullness opt)))
         \<and> (is_skip j \<longleftrightarrow> no_valgrind \<or> no_nsc)
         \<and> skip_reason j = (if no_nsc then ''requires NSC'' else if no_valgrind then ''crashes valgrind'' else []))"
proof -
  have q: "input_queue (dispatch_suites c sr opt dir suites dispatch_init)
      = map (suite_job c sr opt dir) (filter (\<lambda>t. t \<noteq> []) (map py_strip suites))"
    by (simp add: dispatch_suites_queue dispatch_init_def)
  moreover have "map display_name (map (suite_job c sr opt dir) ts) = ts" for ts by (simp add: map_idI)
  moreover have "shell_command (suite_job c sr opt dir t) =
      runner_command c ('' --test-name='' @ t @ (if multiple opt then [] else '' --stop-on-failure'') @
             '' --fullness='' @ (if fullness opt = [] then ''QUICK'' else to_upper (fullness opt)))"
    by (simp add: suite_job_def skip_if_def job_setters Let_def)
  ultimately show ?thesis
    by (simp add: suite_job_def skip_if_def job_setters new_job_def Let_def)
qed

text \<open>A named example is run whatever its conditions, and a suite named with it is run as well.\<close>

lemma dispatch_suite_and_example:
  assumes "example opt \<noteq> []" and "set ks \<subseteq> set (dict_keys programs)"
    and "fnmatch_filter sr (dict_keys programs) (program_name c (example opt)) = ks"
  shows "\<exists>d'. dispatch_examples c sr opt dir programs tests d = Inr d' \<and> length (input_queue d') = length (input_queue d) + length ks"
proof -
  have "length (input_queue (fold (queue_named_example sr opt dir programs) ks d)) = length (input_queue d) + length ks"
    using assms(2)
  proof (induction ks arbitrary: d)
    case (Cons k ks)
    then obtain p where "map_of programs k = Some p" using map_of_eq_None_keys [of programs k] by auto
    then have "queue_named_example sr opt dir programs k d
        = put_job (example_job sr dir (abspath sr p) (abspath sr p) (buildpath opt)) d"
      by (simp add: queue_named_example_def)
    then show ?case using Cons by (simp add: put_job_def)
  qed simp
  then show ?thesis using assms(1,3) by (simp add: dispatch_examples_def)
qed

end
