(* ===== verification/Ns3rc.thy ===== *)
theory Ns3rc
  imports Py_Prelude
begin

text \<open>
  The configuration file \<^verbatim>\<open>.ns3rc\<close> as \<^verbatim>\<open>utils.py\<close> reads it: lists and booleans are looked up by name in its lines and
  evaluated.  A file is the list of its lines, \<open>files\<close> the files there are, and what \<^verbatim>\<open>eval\<close> makes of a text is a parameter.
\<close>

section \<open>Reading\<close>

type_synonym file_table = "string \<Rightarrow> string list option"

text \<open>The line before the first \<^verbatim>\<open>#\<close>, and \<^verbatim>\<open>s.split('=', 1)[1].strip()\<close>.\<close>

definition uncomment :: "string \<Rightarrow> string" where
  "uncomment line = (if CHR ''#'' \<in> set line then py_split1 CHR ''#'' line ! 0 else line)"

definition value_text :: "string \<Rightarrow> string result" where
  "value_text s = res_bind (py_nth (py_split1 CHR ''='' s) 1) (\<lambda>v. Inr (py_strip v))"

text \<open>The loop of \<^verbatim>\<open>get_list_from_file\<close>: \<open>text\<close> is \<^verbatim>\<open>list_string\<close>, \<open>multi\<close> is \<^verbatim>\<open>parsing_multiline_list\<close>.\<close>

fun list_lines :: "(string \<Rightarrow> string list result) \<Rightarrow> string \<Rightarrow> string \<Rightarrow> bool \<Rightarrow> string list \<Rightarrow> string list result" where
  "list_lines eval name acc multi [] = Inr []"
| "list_lines eval name acc multi (l # ls) =
     (let line = uncomment l in
      if has_infix name line \<or> multi then
        let acc = acc @ line in
        if CHR '']'' \<notin> set acc then list_lines eval name acc True ls
        else res_bind (value_text acc) eval
      else list_lines eval name acc multi ls)"

definition get_list_from_file :: "(string \<Rightarrow> string list result) \<Rightarrow> file_table \<Rightarrow> string \<Rightarrow> string \<Rightarrow> string list result" where
  "get_list_from_file eval files path name =
     (case files path of None \<Rightarrow> Inr [] | Some ls \<Rightarrow> list_lines eval name [] False ls)"

fun bool_lines :: "(string \<Rightarrow> bool result) \<Rightarrow> string \<Rightarrow> string list \<Rightarrow> bool option result" where
  "bool_lines eval name [] = Inr None"
| "bool_lines eval name (l # ls) =
     (let line = uncomment l in
      if has_infix name line then res_bind (value_text line) (\<lambda>v. res_bind (eval v) (\<lambda>b. Inr (Some b)))
      else bool_lines eval name ls)"

text \<open>Without the file, \<^verbatim>\<open>bool_found\<close> is read before it is assigned.\<close>

definition get_bool_from_file :: "(string \<Rightarrow> bool result) \<Rightarrow> file_table \<Rightarrow> string \<Rightarrow> string \<Rightarrow> bool \<Rightarrow> bool result" where
  "get_bool_from_file eval files path name value_if_missing =
     (case files path of
        None \<Rightarrow> Inl UnboundLocalError
      | Some ls \<Rightarrow> res_bind (bool_lines eval name ls) (\<lambda>found.
          case found of None \<Rightarrow> Inr value_if_missing | Some b \<Rightarrow> Inr b))"

record ns3_config =
  config_file_exists :: bool
  modules_enabled :: "string list"
  examples_enabled :: bool
  tests_enabled :: bool

definition default_config :: ns3_config where
  "default_config = \<lparr>config_file_exists = False, modules_enabled = [''all_modules''], examples_enabled = False, tests_enabled = False\<rparr>"

definition read_config_path ::
    "(string \<Rightarrow> string list result) \<Rightarrow> (string \<Rightarrow> bool result) \<Rightarrow> file_table \<Rightarrow> string \<Rightarrow> ns3_config result" where
  "read_config_path eval_list eval_bool files path =
     res_bind (get_list_from_file eval_list files path ''modules_enabled'') (\<lambda>modules.
     res_bind (get_bool_from_file eval_bool files path ''examples_enabled'' False) (\<lambda>examples.
     res_bind (get_bool_from_file eval_bool files path ''tests_enabled'' False) (\<lambda>tests.
     Inr \<lparr>config_file_exists = True, modules_enabled = (if modules = [] then [''all_modules''] else modules),
          examples_enabled = examples, tests_enabled = tests\<rparr>)))"

text \<open>\<open>home\<close> is \<^verbatim>\<open>os.path.expanduser('~/')\<close>.\<close>

definition read_config_file ::
    "(string \<Rightarrow> string list result) \<Rightarrow> (string \<Rightarrow> bool result) \<Rightarrow> file_table \<Rightarrow> string \<Rightarrow> ns3_config result" where
  "read_config_file eval_list eval_bool files home =
     (if files ''.ns3rc'' \<noteq> None then read_config_path eval_list eval_bool files ''.ns3rc''
      else if files (home @ ''.ns3rc'') \<noteq> None then read_config_path eval_list eval_bool files (home @ ''.ns3rc'')
      else Inr default_config)"

section \<open>What a lookup finds\<close>

lemma takeWhile_other: "c \<notin> set s \<Longrightarrow> takeWhile (\<lambda>x. x \<noteq> c) s = s"
  by (induction s) auto

lemma dropWhile_other: "c \<notin> set s \<Longrightarrow> dropWhile (\<lambda>x. x \<noteq> c) (s @ t) = dropWhile (\<lambda>x. x \<noteq> c) t"
  by (induction s) auto

lemma uncomment_take: "uncomment line = takeWhile (\<lambda>c. c \<noteq> CHR ''#'') line"
proof (cases "CHR ''#'' \<in> set line")
  case True
  then have "dropWhile (\<lambda>c. c \<noteq> CHR ''#'') line \<noteq> []" by (simp add: dropWhile_eq_Nil_conv)
  with True show ?thesis by (auto simp: uncomment_def py_split1_def split: list.split)
qed (simp add: uncomment_def takeWhile_other)

lemma value_text_eq: "CHR ''='' \<notin> set a \<Longrightarrow> value_text (a @ CHR ''='' # b) = Inr (py_strip b)"
  by (simp add: value_text_def py_split1_def py_nth_def dropWhile_other)

lemma value_text_none: "CHR ''='' \<notin> set s \<Longrightarrow> value_text s = Inl IndexError"
proof -
  assume "CHR ''='' \<notin> set s"
  then have none: "dropWhile (\<lambda>x. x \<noteq> CHR ''='') s = []" by (induction s) auto
  show ?thesis unfolding value_text_def py_split1_def none by (simp add: py_nth_def)
qed

lemma list_lines_skip:
  "\<forall>l \<in> set ls. \<not> has_infix name (uncomment l) \<Longrightarrow> list_lines eval name acc False (ls @ rest) = list_lines eval name acc False rest"
  by (induction ls) (simp_all add: Let_def)

lemma list_lines_block:
  "CHR '']'' \<notin> set (acc @ concat (map uncomment ls)) \<Longrightarrow>
     list_lines eval name acc True (ls @ rest) = list_lines eval name (acc @ concat (map uncomment ls)) True rest"
  by (induction ls arbitrary: acc) (simp_all add: Let_def)

text \<open>
  The list is read from the first line that mentions its name outside comments, on to the first closing bracket; what follows
  the first equals sign of that text is evaluated, comments left out.
\<close>

theorem list_found:
  assumes "files path = Some (before @ first # inner @ lst # rest)"
    and "\<forall>l \<in> set before. \<not> has_infix name (uncomment l)" "has_infix name (uncomment first)"
    and "CHR '']'' \<notin> set (concat (map uncomment (first # inner)))" "CHR '']'' \<in> set (uncomment lst)"
    and "concat (map uncomment (first # inner @ [lst])) = lhs @ CHR ''='' # value" "CHR ''='' \<notin> set lhs"
  shows "get_list_from_file eval files path name = eval (py_strip value)"
proof -
  have "get_list_from_file eval files path name = list_lines eval name (concat (map uncomment (first # inner))) True (lst # rest)"
    using assms(2-4) list_lines_block [of "uncomment first" inner eval name "lst # rest"]
    by (simp add: get_list_from_file_def assms(1) list_lines_skip Let_def)
  also have "\<dots> = res_bind (value_text (concat (map uncomment (first # inner @ [lst])))) eval"
    using assms(4,5) by (simp add: Let_def)
  finally show ?thesis unfolding assms(6) value_text_eq [OF assms(7)] by simp
qed

theorem list_found_witness:
  "get_list_from_file (\<lambda>t. Inr [t]) (\<lambda>p. Some [''# modules_enabled = x'', ''modules_enabled = [a, # first'', ''b]'', ''tests''])
     ''.ns3rc'' ''modules_enabled'' = Inr [''[a, b]'']"
  using list_found [of "\<lambda>p. Some [''# modules_enabled = x'', ''modules_enabled = [a, # first'', ''b]'', ''tests'']" "''.ns3rc''"
      "[''# modules_enabled = x'']" "''modules_enabled = [a, # first''" "[]" "''b]''" "[''tests'']" "''modules_enabled''"
      "''modules_enabled ''" "'' [a, b]''" "\<lambda>t. Inr [t]"]
  by (simp add: uncomment_take has_infix_def py_strip_def is_space_def)

text \<open>A list whose bracket is never closed is not found: the function gives no modules, and no error.\<close>

theorem list_unclosed:
  assumes "files path = Some ls" "CHR '']'' \<notin> set (concat (map uncomment ls))"
  shows "get_list_from_file eval files path name = Inr []"
proof -
  have "list_lines eval name acc multi ls = Inr []" if "CHR '']'' \<notin> set acc" for acc multi
    using that assms(2) by (induction ls arbitrary: acc multi) (auto simp: Let_def)
  then show ?thesis by (simp add: get_list_from_file_def assms(1))
qed

theorem list_unclosed_witness:
  "get_list_from_file (\<lambda>t. Inr [t]) (\<lambda>p. Some [''modules_enabled = [a,'', ''b # ]'']) ''.ns3rc'' ''modules_enabled'' = Inr []"
  using list_unclosed [of "\<lambda>p. Some [''modules_enabled = [a,'', ''b # ]'']" "''.ns3rc''"] by (simp add: uncomment_take)

lemma bool_lines_found:
  "bool_lines eval name ls =
     (case find (\<lambda>l. has_infix name (uncomment l)) ls of
        None \<Rightarrow> Inr None
      | Some l \<Rightarrow> res_bind (value_text (uncomment l)) (\<lambda>v. res_bind (eval v) (\<lambda>b. Inr (Some b))))"
  by (induction ls) (simp_all add: Let_def)

section \<open>The configuration\<close>

text \<open>
  The file in the working directory is used, else the one in the home directory, else the defaults: all modules, no examples,
  no tests.  A file without modules enables all of them, and an option its lines do not mention keeps its default; the missing
  assignment of \<^verbatim>\<open>get_bool_from_file\<close> is never met, since it is only called on a file that exists.
\<close>

definition bool_setting :: "(string \<Rightarrow> bool result) \<Rightarrow> string \<Rightarrow> string list \<Rightarrow> bool result" where
  "bool_setting eval name ls =
     (case find (\<lambda>l. has_infix name (uncomment l)) ls of
        None \<Rightarrow> Inr False
      | Some l \<Rightarrow> res_bind (value_text (uncomment l)) eval)"

theorem config_read:
  "read_config_file eval_list eval_bool files home =
     (case (files ''.ns3rc'', files (home @ ''.ns3rc'')) of
        (None, None) \<Rightarrow> Inr default_config
      | (here, there) \<Rightarrow>
          let ls = (case here of Some ls \<Rightarrow> ls | None \<Rightarrow> the there) in
          res_bind (list_lines eval_list ''modules_enabled'' [] False ls) (\<lambda>modules.
          res_bind (bool_setting eval_bool ''examples_enabled'' ls) (\<lambda>examples.
          res_bind (bool_setting eval_bool ''tests_enabled'' ls) (\<lambda>tests.
          Inr \<lparr>config_file_exists = True, modules_enabled = (if modules = [] then [''all_modules''] else modules),
               examples_enabled = examples, tests_enabled = tests\<rparr>))))"
proof -
  have setting: "res_bind (bool_lines eval_bool name ls) (\<lambda>found. case found of None \<Rightarrow> Inr False | Some b \<Rightarrow> Inr b) =
      bool_setting eval_bool name ls" for name ls
  proof (cases "find (\<lambda>l. has_infix name (uncomment l)) ls")
    case (Some l)
    then show ?thesis
      by (cases "value_text (uncomment l)"; cases "eval_bool (projr (value_text (uncomment l)))") (simp_all add: bool_lines_found bool_setting_def)
  qed (simp add: bool_lines_found bool_setting_def)
  have path: "read_config_path eval_list eval_bool files p =
      res_bind (list_lines eval_list ''modules_enabled'' [] False ls) (\<lambda>modules.
      res_bind (bool_setting eval_bool ''examples_enabled'' ls) (\<lambda>examples.
      res_bind (bool_setting eval_bool ''tests_enabled'' ls) (\<lambda>tests.
      Inr \<lparr>config_file_exists = True, modules_enabled = (if modules = [] then [''all_modules''] else modules),
           examples_enabled = examples, tests_enabled = tests\<rparr>)))" if "files p = Some ls" for p ls
    using that setting by (simp add: read_config_path_def get_list_from_file_def get_bool_from_file_def)
  show ?thesis
    unfolding read_config_file_def by (cases "files ''.ns3rc''"; cases "files (home @ ''.ns3rc'')") (simp_all add: path)
qed

lemma name_inside_other_name:
  "get_bool_from_file (\<lambda>t. Inr (t = ''True'')) (\<lambda>p. Some [''no_tests_enabled = True'', ''tests_enabled = False'']) p ''tests_enabled'' False = Inr True"
  by (simp add: get_bool_from_file_def bool_lines_found uncomment_take has_infix_def value_text_def py_split1_def py_nth_def py_strip_def is_space_def)

end
