(* ===== verification/Test_Setup.thy ===== *)
theory Test_Setup
  imports Test_Dispatch Ns3rc "HOL-Library.Char_ord" "HOL-Library.List_Lexorder"
begin

text \<open>
  The start of \<^verbatim>\<open>test.py\<close>: reading waf's lock file and configuration cache
  (\<^verbatim>\<open>read_waf_config\<close>), building with waf, the build status, and the options \<^verbatim>\<open>--kinds\<close> and
  \<^verbatim>\<open>--list\<close>, after which \<^verbatim>\<open>run_tests\<close> returns.  What \<^verbatim>\<open>eval\<close> and \<^verbatim>\<open>exec\<close> do with a text,
  the files there are and what other programs return are parameters.
\<close>

section \<open>Ways to stop\<close>

text \<open>\<^verbatim>\<open>run_tests\<close> may call \<^verbatim>\<open>sys.exit\<close>, raise, or return a value that \<^verbatim>\<open>main\<close> passes to \<^verbatim>\<open>sys.exit\<close>.\<close>

datatype stop = SysExit int | Raised py_error | Returned "int option"

fun process_status :: "stop \<Rightarrow> int" where
  "process_status (SysExit n) = n mod 256"
| "process_status (Raised e) = 1"
| "process_status (Returned None) = 0"
| "process_status (Returned (Some n)) = n mod 256"

fun raising :: "'a result \<Rightarrow> stop + 'a" where
  "raising (Inl e) = Inl (Raised e)"
| "raising (Inr x) = Inr x"

lemma raising_Inl_iff [simp]: "raising r = Inl e \<longleftrightarrow> (\<exists>x. r = Inl x \<and> e = Raised x)"
  by (cases r) auto

lemma raising_Inr_iff [simp]: "raising r = Inr x \<longleftrightarrow> r = Inr x"
  by (cases r) auto

section \<open>The configuration\<close>

definition interesting_config_items :: "string list" where
  "interesting_config_items =
     [''NS3_ENABLED_MODULES'', ''NS3_ENABLED_CONTRIBUTED_MODULES'', ''NS3_MODULE_PATH'', ''NSC_ENABLED'',
      ''ENABLE_REAL_TIME'', ''ENABLE_THREADING'', ''ENABLE_EXAMPLES'', ''ENABLE_TESTS'', ''EXAMPLE_DIRECTORIES'',
      ''ENABLE_PYTHON_BINDINGS'', ''NSCLICK'', ''ENABLE_BRITE'', ''ENABLE_OPENFLOW'', ''APPNAME'', ''BUILD_PROFILE'',
      ''VERSION'', ''PYTHON'', ''VALGRIND_FOUND'']"

text \<open>The globals of \<^verbatim>\<open>run_tests\<close> that the cache sets, as far as dispatching does not already have them.\<close>

record globals = config +
  EXAMPLE_DIRECTORIES :: "string list"
  NS3_ENABLED_MODULES :: "string list"
  NS3_ENABLED_CONTRIBUTED_MODULES :: "string list"

text \<open>
  What the start of \<^verbatim>\<open>test.py\<close> asks of others.  \<open>'g\<close> is the namespace of the module: \<open>run_line\<close> is
  \<^verbatim>\<open>exec(line, globals())\<close>, \<open>shown_value\<close> prints the value of a name, and \<open>names_of\<close> reads the names it is taken
  for granted that the cache sets.  \<open>wait_for\<close> is the return code of a command, \<open>runner\<close> what \<^verbatim>\<open>run_job_synchronously\<close>
  gives for a command of the test-runner: its return code and its standard output.
\<close>

record 'g machine =
  file_lines :: file_table
  platform :: string
  eval_str :: "string \<Rightarrow> string result"
  eval_strs :: "string \<Rightarrow> string list result"
  run_line :: "string \<Rightarrow> 'g \<Rightarrow> 'g result"
  shown_value :: "'g \<Rightarrow> string \<Rightarrow> string result"
  names_of :: "'g \<Rightarrow> globals"
  wait_for :: "string \<Rightarrow> int"
  runner :: "string \<Rightarrow> int \<times> string"
  example_files :: file_system

definition lock_lines :: "file_table \<Rightarrow> string \<Rightarrow> stop + string list" where
  "lock_lines files plat =
     (case files (''.lock-waf_'' @ plat @ ''_build'') of
        Some ls \<Rightarrow> Inr ls
      | None \<Rightarrow> (case files ''.lock-waf_linux2_build'' of Some ls \<Rightarrow> Inr ls | None \<Rightarrow> Inl (SysExit 2)))"

text \<open>\<^verbatim>\<open>key, val = line.split('=')\<close> takes exactly two parts.\<close>

definition lock_value :: "(string \<Rightarrow> string result) \<Rightarrow> string \<Rightarrow> string result" where
  "lock_value ev line = (case py_split (CHR ''='') line of [key, val] \<Rightarrow> ev (py_strip val) | _ \<Rightarrow> Inl ValueError)"

type_synonym lock_dirs = "string option \<times> string option"

definition lock_line :: "(string \<Rightarrow> string result) \<Rightarrow> string \<Rightarrow> lock_dirs \<Rightarrow> lock_dirs result" where
  "lock_line ev line ds =
     res_bind (if prefix ''top_dir ='' line then res_bind (lock_value ev line) (\<lambda>v. Inr (Some v, snd ds)) else Inr ds) (\<lambda>ds.
       if prefix ''out_dir ='' line then res_bind (lock_value ev line) (\<lambda>v. Inr (fst ds, Some v)) else Inr ds)"

definition read_lock :: "(string \<Rightarrow> string result) \<Rightarrow> string list \<Rightarrow> (string \<times> string) result" where
  "read_lock ev ls =
     res_bind (for_each (lock_line ev) ls (None, None)) (\<lambda>ds.
       case ds of (Some base, Some build) \<Rightarrow> Inr (base, build) | _ \<Rightarrow> Inl UnboundLocalError)"

text \<open>A line of the cache is executed once for every name it starts with.\<close>

definition cache_line :: "(string \<Rightarrow> 'g \<Rightarrow> 'g result) \<Rightarrow> string \<Rightarrow> 'g \<Rightarrow> 'g result" where
  "cache_line exec line g =
     for_each (\<lambda>item g. if prefix item line then exec line g else Inr g) interesting_config_items g"

definition cache_path :: "string \<Rightarrow> string" where
  "cache_path build = build @ ''/c4che/_cache.py''"

text \<open>The base and the build directory, the namespace, and with \<^verbatim>\<open>--verbose\<close> what is printed.\<close>

definition read_waf_config :: "'g machine \<Rightarrow> bool \<Rightarrow> 'g \<Rightarrow> stop + string \<times> string \<times> 'g \<times> string list" where
  "read_waf_config m verbose g =
     res_bind (lock_lines (file_lines m) (platform m)) (\<lambda>ls.
     res_bind (raising (read_lock (eval_str m) ls)) (\<lambda>(base, build).
     res_bind (raising (case file_lines m (cache_path build) of
                          None \<Rightarrow> Inl OSError
                        | Some cache \<Rightarrow> for_each (cache_line (run_line m)) cache g)) (\<lambda>g.
     res_bind (raising (if verbose
                        then for_each (\<lambda>item out. res_bind (shown_value m g item) (\<lambda>v.
                               Inr (out @ [item @ '' == '' @ v @ [NL]]))) interesting_config_items []
                        else Inr [])) (\<lambda>out.
     Inr (base, build, g, out)))))"

section \<open>What reading the configuration finds\<close>

lemma items_apart:
  "\<forall>i \<in> set interesting_config_items. \<forall>j \<in> set interesting_config_items. prefix i j \<longrightarrow> i = j"
  unfolding interesting_config_items_def by simp

lemma items_distinct: "distinct interesting_config_items"
  unfolding interesting_config_items_def by simp

lemma for_each_skip: "\<forall>x \<in> set xs. f x = Inr \<Longrightarrow> for_each f xs s = Inr s"
  by (induction xs) auto

lemma one_item:
  assumes "distinct items" and "\<forall>i \<in> set items. \<forall>j \<in> set items. prefix i j \<longrightarrow> i = j"
  shows "for_each (\<lambda>item g. if prefix item line then exec line g else Inr g) items g
    = (if \<exists>item \<in> set items. prefix item line then exec line g else Inr g)"
  using assms
proof (induction items)
  case (Cons i items)
  show ?case
  proof (cases "prefix i line")
    case True
    have "\<not> prefix j line" if "j \<in> set items" for j
      using Cons.prems that True prefix_same_cases [OF True] by (metis distinct.simps(2) list.set_intros)
    then have "for_each (\<lambda>item g. if prefix item line then exec line g else Inr g) items g' = Inr g'" for g'
      by (intro for_each_skip) auto
    then show ?thesis using True by (cases "exec line g") auto
  next
    case False
    with Cons show ?thesis by auto
  qed
qed simp

text \<open>No name is the beginning of another, so a line of the cache is executed at most once, although it is held against all
  names: reading the cache executes, in order, exactly the lines that start with one of the names.\<close>

theorem cache_lines_run_once:
  "for_each (cache_line exec) cache g
     = for_each exec (filter (\<lambda>l. \<exists>item \<in> set interesting_config_items. prefix item l) cache) g"
proof (induction cache arbitrary: g)
  case (Cons l cache)
  have "cache_line exec l g = (if \<exists>item \<in> set interesting_config_items. prefix item l then exec l g else Inr g)"
    unfolding cache_line_def by (rule one_item [OF items_distinct items_apart])
  then show ?case using Cons by (cases "exec l g") auto
qed simp

text \<open>What the lock file must look like for a directory to be read.\<close>

definition dir_line :: "string \<Rightarrow> string \<Rightarrow> string" where
  "dir_line key path = key @ ''_dir = '' @ repr_plain path @ [NL]"

lemma py_split_sep: "c \<notin> set a \<Longrightarrow> py_split c (a @ c # b) = a # py_split c b"
  by (induction a) auto

lemma py_split_some_sep: "c \<in> set s \<Longrightarrow> \<exists>a b ps. py_split c s = a # b # ps"
  by (induction s) (auto split: list.split)

lemma strip_quoted: "py_strip ('' '' @ repr_plain path @ [NL]) = repr_plain path"
  by (simp add: py_strip_def is_space_def repr_plain_def)

lemma lock_value_dir:
  assumes "\<And>p. ev (repr_plain p) = Inr p" and "CHR ''='' \<notin> set key"
  shows "lock_value ev (dir_line key path) = (if CHR ''='' \<in> set path then Inl ValueError else Inr path)"
proof -
  have split: "py_split (CHR ''='') (dir_line key path)
      = (key @ ''_dir '') # py_split (CHR ''='') ('' '' @ repr_plain path @ [NL])"
    using py_split_sep [of "CHR ''=''" "key @ ''_dir ''" "'' '' @ repr_plain path @ [NL]"] assms(2)
    by (simp add: dir_line_def)
  show ?thesis
  proof (cases "CHR ''='' \<in> set path")
    case True
    then obtain a b ps where "py_split (CHR ''='') ('' '' @ repr_plain path @ [NL]) = a # b # ps"
      using py_split_some_sep [of "CHR ''=''" "'' '' @ repr_plain path @ [NL]"] by (auto simp: repr_plain_def)
    with split True show ?thesis by (simp add: lock_value_def)
  next
    case False
    then have "CHR ''='' \<notin> set ('' '' @ repr_plain path @ [NL])" by (simp add: repr_plain_def)
    from py_split_no_sep [OF this] split False strip_quoted [of path] assms(1)
    show ?thesis by (simp add: lock_value_def)
  qed
qed

text \<open>The lines that matter, in order.\<close>

definition dir_lines :: "string list \<Rightarrow> string list" where
  "dir_lines ls = filter (\<lambda>l. prefix ''top_dir ='' l \<or> prefix ''out_dir ='' l) ls"

lemma lock_line_other: "\<not> prefix ''top_dir ='' l \<Longrightarrow> \<not> prefix ''out_dir ='' l \<Longrightarrow> lock_line ev l ds = Inr ds"
  by (simp add: lock_line_def)

lemma lock_lines_dirs: "for_each (lock_line ev) ls ds = for_each (lock_line ev) (dir_lines ls) ds"
proof (induction ls arbitrary: ds)
  case (Cons l ls)
  show ?case
  proof (cases "prefix ''top_dir ='' l \<or> prefix ''out_dir ='' l")
    case True
    then have "dir_lines (l # ls) = l # dir_lines ls" by (simp add: dir_lines_def)
    with Cons show ?thesis by (cases "lock_line ev l ds") simp_all
  next
    case False
    then have "dir_lines (l # ls) = dir_lines ls" by (simp add: dir_lines_def)
    with Cons False lock_line_other show ?thesis by simp
  qed
qed (simp add: dir_lines_def)

lemma lock_line_top: "lock_line ev (dir_line ''top'' p) ds = res_bind (lock_value ev (dir_line ''top'' p)) (\<lambda>v. Inr (Some v, snd ds))"
  by (cases "lock_value ev (dir_line ''top'' p)") (simp_all add: lock_line_def dir_line_def)

lemma lock_line_out: "lock_line ev (dir_line ''out'' p) ds = res_bind (lock_value ev (dir_line ''out'' p)) (\<lambda>v. Inr (fst ds, Some v))"
  by (cases "lock_value ev (dir_line ''out'' p)") (simp_all add: lock_line_def dir_line_def)

text \<open>The directories waf wrote are read back, wherever their lines stand, as long as neither path has an equals sign in it;
  with one, the lock file cannot be read.\<close>

theorem lock_read_back:
  assumes "\<And>p. ev (repr_plain p) = Inr p"
    and "dir_lines ls = [dir_line ''out'' build, dir_line ''top'' base] \<or> dir_lines ls = [dir_line ''top'' base, dir_line ''out'' build]"
  shows "read_lock ev ls
    = (if CHR ''='' \<in> set base \<or> CHR ''='' \<in> set build then Inl ValueError else Inr (base, build))"
proof -
  note v = lock_value_dir [of ev, OF assms(1)]
  from assms(2) show ?thesis
    by (elim disjE) (simp_all add: read_lock_def lock_lines_dirs [of ev ls] lock_line_top lock_line_out v)
qed

theorem lock_read_back_witness:
  "read_lock (\<lambda>s. Inr (butlast (tl s))) [''argv = 1'', dir_line ''out'' ''/a=b/build'', dir_line ''top'' ''/a=b''] = Inl ValueError"
proof -
  have 1: "(\<lambda>s. Inr (butlast (tl s))) (repr_plain p) = Inr p" for p by (simp add: repr_plain_def)
  have 2: "dir_lines [''argv = 1'', dir_line ''out'' ''/a=b/build'', dir_line ''top'' ''/a=b'']
      = [dir_line ''out'' ''/a=b/build'', dir_line ''top'' ''/a=b'']"
    by (simp add: dir_lines_def dir_line_def)
  show ?thesis using lock_read_back [of "\<lambda>s. Inr (butlast (tl s))", OF 1 disjI1 [OF 2]] by simp
qed


section \<open>Building\<close>

record main_options =
  verbose :: bool
  nowaf :: bool
  kinds :: bool
  list_tests :: bool

definition build_with_waf :: "'g machine \<Rightarrow> main_options \<Rightarrow> test_options \<Rightarrow> stop + unit" where
  "build_with_waf m mo opt =
     (if nowaf mo then Inr ()
      else let code = wait_for m (waf_command opt (kinds mo) (list_tests mo))
           in if code \<noteq> 0 then Inl (Returned (Some code)) else Inr ())"

text \<open>The programs and scripts that can be run.\<close>

definition read_build_status :: "'g machine \<Rightarrow> config \<Rightarrow> stop + string list \<times> string list" where
  "read_build_status m c =
     (let build_status_file = path_join (NS3_BUILDDIR c) ''build-status.py''
      in if file_lines m build_status_file = None then Inl (SysExit 2)
         else res_bind (raising (get_list_from_file (eval_strs m) (file_lines m) build_status_file ''ns3_runnable_programs''))
           (\<lambda>programs. res_bind (raising (get_list_from_file (eval_strs m) (file_lines m) build_status_file ''ns3_runnable_scripts''))
           (\<lambda>scripts. Inr (programs, scripts))))"

section \<open>Listing\<close>

text \<open>What \<^verbatim>\<open>print\<close> writes: \<open>standard_out\<close> is one string; the items are sorted with their blank lines in.\<close>

definition shown_items :: "string \<Rightarrow> string list" where
  "shown_items standard_out = filter (\<lambda>item. py_strip item \<noteq> []) (sort (py_split NL standard_out))"

definition listing :: "int \<times> string \<Rightarrow> string list \<Rightarrow> string list" where
  "listing run example_names =
     (if fst run \<noteq> 0
      then [''test.py error:  test-runner return code returned '' @ show_int (fst run) @ [NL],
            ''To debug, try running '' @ [SQ] @ ''./waf --run '' @ [QUOT] @ ''test-runner --print-test-name-list'' @ [QUOT, SQ, NL, NL]]
      else [''Test Type    Test Name'' @ [NL], ''---------    ---------'' @ [NL]]
        @ map (\<lambda>item. item @ [NL]) (shown_items (snd run))
        @ map (\<lambda>item. ''example      '' @ '' '' @ item @ [NL]) (sort example_names)
        @ [[NL]])"

definition list_arguments :: "test_options \<Rightarrow> string" where
  "list_arguments opt =
     '' --print-test-name-list --print-test-types'' @ (if constrain opt \<noteq> [] then '' --test-type='' @ constrain opt else [])"

text \<open>What \<^verbatim>\<open>--kinds\<close> and \<^verbatim>\<open>--list\<close> print; \<open>None\<close> when neither was given and the tests are run.\<close>

definition answer_options :: "'g machine \<Rightarrow> config \<Rightarrow> main_options \<Rightarrow> test_options \<Rightarrow> string list \<Rightarrow> string list option" where
  "answer_options m c mo opt example_names =
     (if kinds mo \<or> list_tests mo
      then Some ((if kinds mo then [snd (runner m (runner_command c '' --print-test-type-list'')) @ [NL]] else []) @
                 (if list_tests mo then listing (runner m (runner_command c (list_arguments opt))) example_names else []))
      else None)"

lemma sorted_filter_id: "sorted xs \<Longrightarrow> sorted (filter P xs)" for xs :: "string list"
  using sorted_filter [of id xs P] by simp

text \<open>The list of tests: every test the test-runner printed appears on a line of its own as often as it was printed, in
  alphabetical order of the lines; the examples that were found follow, in order too.\<close>

theorem listing_complete:
  "listing (0, standard_out) example_names
     = [''Test Type    Test Name'' @ [NL], ''---------    ---------'' @ [NL]]
       @ map (\<lambda>item. item @ [NL]) (shown_items standard_out)
       @ map (\<lambda>item. ''example       '' @ item @ [NL]) (sort example_names) @ [[NL]]
   \<and> sorted (shown_items standard_out)
   \<and> mset (shown_items standard_out) = {#item \<in># mset (py_split NL standard_out). py_strip item \<noteq> []#}"
  by (simp add: listing_def shown_items_def mset_filter sorted_filter_id)

section \<open>Up to the tests\<close>

record prepared =
  conf :: globals
  environ :: "(string, string) dict"
  programs :: "string list"
  scripts :: "string list"
  examples :: example_lists

definition find_examples :: "file_system \<Rightarrow> globals \<Rightarrow> example_lists" where
  "find_examples fs gl =
     all_examples (config.truncate gl) fs (EXAMPLE_DIRECTORIES gl) (NS3_ENABLED_MODULES gl) (NS3_ENABLED_CONTRIBUTED_MODULES gl)"

text \<open>From the start of \<^verbatim>\<open>run_tests\<close> to the choice of the suites: what was printed and how the program stops, or what the tests
  are run with.  Logging is switched off before any program but waf is started.\<close>

definition prepare ::
    "'g machine \<Rightarrow> main_options \<Rightarrow> test_options \<Rightarrow> (string, string) dict \<Rightarrow> 'g \<Rightarrow> stop \<times> string list + prepared" where
  "prepare m mo opt env g =
     (case read_waf_config m (verbose mo) g of
        Inl e \<Rightarrow> Inl (e, [])
      | Inr (base, build, g, out) \<Rightarrow>
          (let gl = (names_of m g)\<lparr>NS3_BASEDIR := base, NS3_BUILDDIR := build\<rparr>; c = config.truncate gl
           in case build_with_waf m mo opt of
                Inl e \<Rightarrow> Inl (e, out)
              | Inr _ \<Rightarrow>
                  (let env = make_paths c (platform m) env
                   in case read_build_status m c of
                        Inl e \<Rightarrow> Inl (e, out)
                      | Inr (ps, ss) \<Rightarrow>
                          (let found = find_examples (example_files m) gl; env = AList.update ''NS_LOG'' [] env
                           in case answer_options m c mo opt (fst (snd found)) of
                                Some shown \<Rightarrow> Inl (Returned None, out @ shown)
                              | None \<Rightarrow> Inr \<lparr>conf = gl, environ = env, programs = ps, scripts = ss, examples = found\<rparr>))))"


text \<open>How the start can stop the program.\<close>

lemma lock_lines_stops: "lock_lines files plat = Inl e \<Longrightarrow> e = SysExit 2"
  by (auto simp: lock_lines_def split: option.splits)

lemma read_waf_config_stops: "read_waf_config m v g = Inl e \<Longrightarrow> process_status e \<noteq> 0"
  unfolding read_waf_config_def by (auto simp: res_simps dest!: lock_lines_stops)

lemma read_build_status_stops: "read_build_status m c = Inl e \<Longrightarrow> process_status e \<noteq> 0"
  unfolding read_build_status_def Let_def by (auto simp: res_simps split: if_splits)

lemma build_stops:
  assumes "build_with_waf m mo opt = Inl e" and "\<bar>wait_for m (waf_command opt (kinds mo) (list_tests mo))\<bar> < 256"
  shows "process_status e \<noteq> 0"
proof -
  let ?n = "wait_for m (waf_command opt (kinds mo) (list_tests mo))"
  have "e = Returned (Some ?n)" "?n \<noteq> 0" using assms(1) by (auto simp: build_with_waf_def Let_def split: if_splits)
  moreover from this(2) assms(2) have "?n mod 256 \<noteq> 0" by presburger
  ultimately show ?thesis by simp
qed

lemma prepare_stops:
  assumes "prepare m mo opt env g = Inl (e, out)" and "\<bar>wait_for m (waf_command opt (kinds mo) (list_tests mo))\<bar> < 256"
    and "process_status e = 0"
  shows "kinds mo \<or> list_tests mo"
  using assms(1,3) read_waf_config_stops [of m "verbose mo" g] build_stops [OF _ assms(2)] read_build_status_stops [of m]
  by (fastforce simp: prepare_def Let_def answer_options_def split: sum.splits prod.splits option.splits if_splits)


lemma prepare_python:
  assumes "prepare m mo opt env g = Inr su"
  shows "\<exists>g'. PYTHON (conf su) = PYTHON (names_of m g')"
  using assms by (auto simp: prepare_def Let_def split: sum.splits prod.splits option.splits)

lemma find_suites_stops: "find_suites c sr opt = Inl n \<Longrightarrow> n = 2"
  by (auto simp: find_suites_def Let_def split: if_splits)

lemma suite_list_stops: "suite_list c sr opt = Inl n \<Longrightarrow> n = 2"
  by (auto simp: suite_list_def res_simps dest!: find_suites_stops)


section \<open>What the tests are run with\<close>

text \<open>The tests start with logging switched off, whatever the user's environment says, with the library and Python paths of
  \<^verbatim>\<open>make_paths\<close>, and with examples that are there; no list was asked for.\<close>

theorem prepared_environment:
  assumes "prepare m mo opt env g = Inr su"
  shows "map_of (environ su) ''NS_LOG'' = Some []
    \<and> (\<forall>var. var \<noteq> ''NS_LOG'' \<longrightarrow> map_of (environ su) var = map_of (make_paths (config.truncate (conf su)) (platform m) env) var)
    \<and> examples_exist (example_files m) (examples su) \<and> \<not> kinds mo \<and> \<not> list_tests mo"
proof -
  obtain base build g' out ps ss where su: "su = \<lparr>conf = (names_of m g')\<lparr>NS3_BASEDIR := base, NS3_BUILDDIR := build\<rparr>,
      environ = AList.update ''NS_LOG'' [] (make_paths (config.truncate ((names_of m g')\<lparr>NS3_BASEDIR := base, NS3_BUILDDIR := build\<rparr>)) (platform m) env),
      programs = ps, scripts = ss,
      examples = find_examples (example_files m) ((names_of m g')\<lparr>NS3_BASEDIR := base, NS3_BUILDDIR := build\<rparr>)\<rparr>"
    and no_list: "\<not> kinds mo" "\<not> list_tests mo"
    using assms by (auto simp: prepare_def Let_def answer_options_def split: sum.splits prod.splits option.splits if_splits)
  have "examples_exist (example_files m) (find_examples (example_files m) gl)" for gl
    unfolding find_examples_def by (rule all_examples_exist)
  with no_list show ?thesis unfolding su by simp
qed

text \<open>A list that was asked for ends the program with status 0 whatever the test-runner does: also when it crashes, which
  the code itself takes for an error.\<close>

theorem listing_hides_failure:
  assumes "prepare m mo opt env g = Inl (e, out)" and "process_status e = 0"
    and "\<bar>wait_for m (waf_command opt (kinds mo) (list_tests mo))\<bar> < 256"
  shows "\<exists>out'. prepare (m\<lparr>runner := r\<rparr>) mo opt env g = Inl (Returned None, out')"
proof -
  have asked: "kinds mo \<or> list_tests mo" by (rule prepare_stops [OF assms(1,3,2)])
  have same: "read_waf_config (m\<lparr>runner := r\<rparr>) v g = read_waf_config m v g" "build_with_waf (m\<lparr>runner := r\<rparr>) mo opt = build_with_waf m mo opt"
    "read_build_status (m\<lparr>runner := r\<rparr>) c = read_build_status m c" for v c
    by (simp_all add: read_waf_config_def build_with_waf_def read_build_status_def cong: if_cong option.case_cong)
  show ?thesis
    using assms(1,2) asked read_waf_config_stops [of m "verbose mo" g] build_stops [OF _ assms(3)] read_build_status_stops [of m]
    by (fastforce simp: prepare_def Let_def answer_options_def same split: sum.splits prod.splits option.splits if_splits)
qed

end
