(* ===== verification/Step_Systems.thy ===== *)
theory Step_Systems
  imports Main
begin

text \<open>
  Interfaces of state machines given by a step relation, shared by the models of threads: an
  invariant that every step keeps, and a rank that every step lowers.
\<close>

section \<open>Systems with an invariant\<close>

text \<open>A system: its steps, and an invariant that every step keeps.\<close>

locale step_system =
  fixes step :: "'s \<Rightarrow> 's \<Rightarrow> bool" and inv :: "'s \<Rightarrow> bool"
  assumes inv_step: "inv s \<Longrightarrow> step s t \<Longrightarrow> inv t"
begin

lemma run_inv: "inv s \<Longrightarrow> (step ^^ n) s t \<Longrightarrow> inv t"
  by (induction n arbitrary: t) (auto intro: inv_step)

lemma reach_inv: "step\<^sup>*\<^sup>* s t \<Longrightarrow> inv s \<Longrightarrow> inv t"
  by (induction rule: rtranclp_induct) (auto intro: inv_step)

end

section \<open>Systems whose every step makes progress\<close>

text \<open>
  What a system that must come to an end offers: an invariant kept by every step and a rank that every step
  decreases.  Then runs are bounded and end in a state that satisfies the invariant.
\<close>

locale ranked_steps = step_system step inv
  for step :: "'s \<Rightarrow> 's \<Rightarrow> bool" and inv :: "'s \<Rightarrow> bool" +
  fixes rank :: "'s \<Rightarrow> nat"
  assumes rank_step: "inv s \<Longrightarrow> step s t \<Longrightarrow> rank t < rank s"
begin

lemma run_bound: "inv s \<Longrightarrow> (step ^^ n) s t \<Longrightarrow> n + rank t \<le> rank s"
proof (induction n arbitrary: t)
  case (Suc n)
  then obtain u where u: "(step ^^ n) s u" "step u t" by auto
  then have "inv u" using Suc.prems(1) run_inv by blast
  with rank_step u(2) have "rank t < rank u" by blast
  moreover have "n + rank u \<le> rank s" using Suc.IH Suc.prems(1) u(1) by blast
  ultimately show ?case by simp
qed simp

lemma run_ends: "inv s \<Longrightarrow> \<exists>n t. (step ^^ n) s t \<and> \<not> (\<exists>u. step t u)"
proof (induction "rank s" arbitrary: s rule: less_induct)
  case less
  show ?case
  proof (cases "\<exists>u. step s u")
    case True
    then obtain u where u: "step s u" by blast
    then obtain n t where "(step ^^ n) u t" "\<not> (\<exists>v. step t v)"
      using less rank_step inv_step by meson
    then show ?thesis using u relpowp_Suc_I2 [of step s u n t] by blast
  next
    case False
    then show ?thesis by (intro exI [of _ 0] exI [of _ s]) auto
  qed
qed

end

end
