(* ===== verification/Test_Workers.thy ===== *)
theory Test_Workers
  imports Test_Dispatch Step_Systems
begin

text \<open>
  The worker threads of \<^verbatim>\<open>test.py\<close>: the class \<^verbatim>\<open>worker_thread\<close>, the two queues, the interrupt
  flag and the main thread that collects results, as a step relation in which any thread may
  move next.
\<close>

section \<open>The pool\<close>

datatype worker = Idle | Holding job | Running job | Exited

record pool =
  pending :: "job list"
  inq :: "job list"
  outq :: "job list"
  workers :: "worker list"
  thread_exit :: bool
  waiting :: nat
  results :: "job list"

definition pool_init :: "job list \<Rightarrow> nat \<Rightarrow> pool" where
  "pool_init work p =
     \<lparr>pending = work @ replicate p break_job, inq = [], outq = [], workers = replicate p Idle, thread_exit = False,
      waiting = length work, results = []\<rparr>"

text \<open>The pool as the program starts it: what the main thread is going to queue, and how many results it waits for.\<close>

definition pool_start :: "job list \<Rightarrow> nat \<Rightarrow> nat \<Rightarrow> pool" where
  "pool_start queue n p =
     \<lparr>pending = queue, inq = [], outq = [], workers = replicate p Idle, thread_exit = False, waiting = n, results = []\<rparr>"

lemma pool_start_init: "pool_start (work @ replicate p break_job) (length work) p = pool_init work p"
  by (simp add: pool_start_def pool_init_def)

text \<open>The main thread goes on to the end of the program when all is queued, it has all results and has joined all workers.\<close>

definition main_done :: "pool \<Rightarrow> bool" where
  "main_done s \<longleftrightarrow> pending s = [] \<and> waiting s = 0 \<and> (\<forall>w \<in> set (workers s). w = Exited)"

text \<open>What a worker does with a job it runs.\<close>

definition run_job :: "config \<Rightarrow> test_options \<Rightarrow> (string \<Rightarrow> string \<Rightarrow> outcome) \<Rightarrow> job \<Rightarrow> job result" where
  "run_job c opt shell j =
     res_bind (if is_example j \<or> is_pyexample j
               then run_job_synchronously c shell (shell_command j) (job_cwd j) (valgrind opt) (is_pyexample j) (build_path j)
               else run_job_synchronously c shell
                      (shell_command j @ '' --xml --tempdir='' @ tempdir j @ '' --out='' @ tmp_file_name j @ '' '' @
                       (if update_data opt then ''--update-data'' else []))
                      (job_cwd j) (valgrind opt) False []) (\<lambda>(code, t).
       Inr (set_elapsed_time t (set_returncode code j)))"

text \<open>
  One move of one thread.  The main thread queues the jobs, the workers already running, and the
  break jobs after them.  A worker gets a job; it leaves on a break job; when the interrupt flag
  is set it hands the job back as a break; a job to skip is handed back as it is; any other job is
  run and its result handed back.  An exception ends the thread.  Once all is
  queued the main thread takes the results it waits for.  An interrupt sets the flag.
\<close>

inductive pool_step :: "config \<Rightarrow> test_options \<Rightarrow> (string \<Rightarrow> string \<Rightarrow> outcome) \<Rightarrow> pool \<Rightarrow> pool \<Rightarrow> bool"
  for c :: config and opt :: test_options and shell :: "string \<Rightarrow> string \<Rightarrow> outcome" where
  put: "pool_step c opt shell s (s\<lparr>pending := q, inq := inq s @ [j]\<rparr>)"
    if "pending s = j # q"
| get: "pool_step c opt shell s (s\<lparr>inq := q, workers := (workers s)[i := Holding j]\<rparr>)"
    if "i < length (workers s)" "workers s ! i = Idle" "inq s = j # q"
| leave: "pool_step c opt shell s (s\<lparr>workers := (workers s)[i := Exited]\<rparr>)"
    if "i < length (workers s)" "workers s ! i = Holding j" "is_break j"
| bounce: "pool_step c opt shell s (s\<lparr>workers := (workers s)[i := Idle], outq := outq s @ [set_is_break True j]\<rparr>)"
    if "i < length (workers s)" "workers s ! i = Holding j" "\<not> is_break j" "thread_exit s"
| skip: "pool_step c opt shell s (s\<lparr>workers := (workers s)[i := Idle], outq := outq s @ [j]\<rparr>)"
    if "i < length (workers s)" "workers s ! i = Holding j" "\<not> is_break j" "\<not> thread_exit s" "is_skip j"
| launch: "pool_step c opt shell s (s\<lparr>workers := (workers s)[i := Running j]\<rparr>)"
    if "i < length (workers s)" "workers s ! i = Holding j" "\<not> is_break j" "\<not> thread_exit s" "\<not> is_skip j"
| finish: "pool_step c opt shell s (s\<lparr>workers := (workers s)[i := Idle], outq := outq s @ [r]\<rparr>)"
    if "i < length (workers s)" "workers s ! i = Running j" "run_job c opt shell j = Inr r"
| die: "pool_step c opt shell s (s\<lparr>workers := (workers s)[i := Exited]\<rparr>)"
    if "i < length (workers s)" "workers s ! i = Running j" "run_job c opt shell j = Inl e"
| collect: "pool_step c opt shell s (s\<lparr>outq := q, results := results s @ [j], waiting := n\<rparr>)"
    if "pending s = []" "waiting s = Suc n" "outq s = j # q"
| interrupt: "pool_step c opt shell s (s\<lparr>thread_exit := True\<rparr>)"
    if "\<not> thread_exit s"

inductive_cases pool_stepE: "pool_step c opt shell s t"

section \<open>The rank\<close>

fun worker_rank :: "worker \<Rightarrow> nat" where
  "worker_rank (Holding j) = 3"
| "worker_rank (Running j) = 2"
| "worker_rank Idle = 0"
| "worker_rank Exited = 0"

definition pool_rank :: "pool \<Rightarrow> nat" where
  "pool_rank s = 5 * length (pending s) + 4 * length (inq s) + sum_list (map worker_rank (workers s)) + length (outq s) +
     (if thread_exit s then 0 else 1)"

lemma sum_list_update_nat:
  "i < length xs \<Longrightarrow> sum_list (map f (xs[i := y])) + f (xs ! i) = sum_list (map f xs) + (f y :: nat)"
proof (induction xs arbitrary: i)
  case (Cons x xs)
  then show ?case by (cases i) (auto simp: algebra_simps)
qed simp

lemma pool_rank_step: "pool_step c opt shell s t \<Longrightarrow> pool_rank t < pool_rank s"
proof (induction rule: pool_step.induct)
  case (put s j q)
  then show ?case by (simp add: pool_rank_def)
next
  case (get i s j q)
  with sum_list_update_nat [OF get(1), of worker_rank "Holding j"] show ?case by (simp add: pool_rank_def)
next
  case (leave i s j)
  with sum_list_update_nat [OF leave(1), of worker_rank Exited] show ?case by (simp add: pool_rank_def)
next
  case (bounce i s j)
  with sum_list_update_nat [OF bounce(1), of worker_rank Idle] show ?case by (simp add: pool_rank_def)
next
  case (skip i s j)
  with sum_list_update_nat [OF skip(1), of worker_rank Idle] show ?case by (simp add: pool_rank_def)
next
  case (launch i s j)
  with sum_list_update_nat [OF launch(1), of worker_rank "Running j"] show ?case by (simp add: pool_rank_def)
next
  case (finish i s j r)
  with sum_list_update_nat [OF finish(1), of worker_rank Idle] show ?case by (simp add: pool_rank_def)
next
  case (die i s j e)
  with sum_list_update_nat [OF die(1), of worker_rank Exited] show ?case by (simp add: pool_rank_def)
next
  case (collect s n j q)
  then show ?case by (simp add: pool_rank_def)
next
  case (interrupt s)
  then show ?case by (simp add: pool_rank_def)
qed

section \<open>The invariant\<close>

text \<open>The jobs a worker has in hand, what stays of a job whatever happens to it, and the break jobs
  a worker has used up.\<close>

fun busy :: "worker \<Rightarrow> job multiset" where
  "busy (Holding j) = (if is_break j then {#} else {#j#})"
| "busy (Running j) = {#j#}"
| "busy Idle = {#}"
| "busy Exited = {#}"

fun spent :: "worker \<Rightarrow> nat" where
  "spent (Holding j) = (if is_break j then 1 else 0)"
| "spent Exited = 1"
| "spent (Running j) = 0"
| "spent Idle = 0"

definition core :: "job \<Rightarrow> job" where
  "core j = j\<lparr>is_break := False, returncode := 0, elapsed_time := 0\<rparr>"

definition in_hand :: "worker list \<Rightarrow> job multiset" where
  "in_hand ws = sum_list (map busy ws)"

definition spent_breaks :: "worker list \<Rightarrow> nat" where
  "spent_breaks ws = sum_list (map spent ws)"

text \<open>\<open>rest\<close> is the part of the jobs queued or to be queued in front of the \<open>k\<close> break jobs.\<close>

definition queues_ok :: "job list \<Rightarrow> nat \<Rightarrow> pool \<Rightarrow> job list \<Rightarrow> nat \<Rightarrow> bool" where
  "queues_ok work p s rest k \<longleftrightarrow>
     inq s @ pending s = rest @ replicate k break_job \<and> (\<forall>j \<in> set rest. \<not> is_break j) \<and>
     spent_breaks (workers s) + k = p \<and> (spent_breaks (workers s) > 0 \<longrightarrow> rest = []) \<and>
     image_mset core (mset (results s) + mset (outq s) + in_hand (workers s) + mset rest) = image_mset core (mset work)"

definition pool_ok :: "config \<Rightarrow> job list \<Rightarrow> nat \<Rightarrow> pool \<Rightarrow> bool" where
  "pool_ok c work p s \<longleftrightarrow> PYTHON c \<noteq> [] \<and> length (workers s) = p \<and>
     (\<exists>rest k. queues_ok work p s rest k) \<and> waiting s + length (results s) = length work \<and>
     (\<forall>j. Running j \<in> set (workers s) \<longrightarrow> \<not> is_break j)"

lemma sum_list_update_mset:
  "i < length xs \<Longrightarrow> sum_list (map f (xs[i := y])) + f (xs ! i) = sum_list (map f xs) + (f y :: 'a multiset)"
proof (induction xs arbitrary: i)
  case (Cons x xs)
  then show ?case by (cases i) (auto simp: ac_simps)
qed simp

lemma worker_update:
  assumes "i < length ws" and "ws ! i = old"
  shows "in_hand (ws[i := new]) + busy old = in_hand ws + busy new"
    and "spent_breaks (ws[i := new]) + spent old = spent_breaks ws + spent new"
  using sum_list_update_mset [OF assms(1), of busy new] sum_list_update_nat [OF assms(1), of spent new] assms(2)
  by (simp_all add: in_hand_def spent_breaks_def)

lemma running_update: "Running j \<in> set (ws[i := w]) \<Longrightarrow> Running j \<in> set ws \<or> Running j = w"
  using set_update_subset_insert [of ws i w] by auto

lemma core_simps [simp]: "core (set_is_break b j) = core j"
  by (simp add: core_def set_is_break_def)

lemma run_job_core: "run_job c opt shell j = Inr r \<Longrightarrow> core r = core j \<and> is_break r = is_break j"
  by (auto simp: run_job_def res_simps core_def set_elapsed_time_def set_returncode_def split: prod.splits)

lemma run_job_defined: "PYTHON c \<noteq> [] \<Longrightarrow> \<exists>r. run_job c opt shell j = Inr r"
proof -
  assume "PYTHON c \<noteq> []"
  then have "py_nth (PYTHON c) 0 = Inr (PYTHON c ! 0)" using py_nth_nat [of 0 "PYTHON c"] by simp
  then show ?thesis
    by (simp add: run_job_def run_job_synchronously_def job_command_def Let_def case_prod_unfold)
qed

lemma break_job_break [simp]: "is_break break_job"
  by (simp add: break_job_def set_is_break_def)

text \<open>A move that replaces one worker and adds \<open>out\<close> to the output queue keeps the queues in order
  when it neither loses nor invents a job.\<close>

lemma queues_ok_update:
  assumes "queues_ok work p s rest k" and "i < length (workers s)" and "workers s ! i = old"
    and "spent new = spent old" and "image_mset core (busy new + mset ou) = image_mset core (busy old)"
  shows "queues_ok work p (s\<lparr>workers := (workers s)[i := new], outq := outq s @ ou\<rparr>) rest k"
proof -
  note u = worker_update [OF assms(2,3), of new]
  have "image_mset core (in_hand ((workers s)[i := new])) + image_mset core (mset ou) + image_mset core (busy old)
      = image_mset core (in_hand (workers s)) + image_mset core (busy new) + image_mset core (mset ou)"
    using arg_cong [OF u(1), of "image_mset core"] by (simp add: ac_simps)
  also have "\<dots> = image_mset core (in_hand (workers s)) + image_mset core (busy old)"
    using assms(5) by (simp add: ac_simps)
  finally have hand: "image_mset core (in_hand (workers s))
      = image_mset core (in_hand ((workers s)[i := new])) + image_mset core (mset ou)" by simp
  have "spent_breaks ((workers s)[i := new]) = spent_breaks (workers s)" using assms(4) u(2) by simp
  then show ?thesis using assms(1) by (simp add: queues_ok_def hand ac_simps)
qed

lemma pool_ok_update:
  assumes "pool_ok c work p s" and "i < length (workers s)" and "workers s ! i = old"
    and "spent new = spent old" and "image_mset core (busy new + mset ou) = image_mset core (busy old)"
    and "\<And>j. new = Running j \<Longrightarrow> \<not> is_break j"
  shows "pool_ok c work p (s\<lparr>workers := (workers s)[i := new], outq := outq s @ ou\<rparr>)"
proof -
  obtain rest k where "queues_ok work p s rest k" using assms(1) by (auto simp: pool_ok_def)
  from queues_ok_update [OF this assms(2-5)] assms(1,6) show ?thesis
    by (auto simp: pool_ok_def dest!: running_update)
qed

lemma pool_get_ok:
  assumes "pool_ok c work p s" and "i < length (workers s)" and "workers s ! i = Idle" and "inq s = j # q"
  shows "pool_ok c work p (s\<lparr>inq := q, workers := (workers s)[i := Holding j]\<rparr>)"
proof -
  obtain rest k where rk: "queues_ok work p s rest k" using assms(1) by (auto simp: pool_ok_def)
  note u = worker_update [OF assms(2,3), of "Holding j"]
  let ?t = "s\<lparr>inq := q, workers := (workers s)[i := Holding j]\<rparr>"
  have "\<exists>rest' k'. queues_ok work p ?t rest' k'"
  proof (cases rest)
    case Nil
    with rk assms(4) obtain k' where "k = Suc k'" "j = break_job" "q @ pending s = replicate k' break_job"
      by (cases k) (auto simp: queues_ok_def)
    with rk u Nil show ?thesis by (intro exI [of _ "[]"] exI [of _ k']) (simp add: queues_ok_def)
  next
    case (Cons r rest')
    with rk assms(4) have "j = r" "q @ pending s = rest' @ replicate k break_job" "\<not> is_break j" "spent_breaks (workers s) = 0"
      by (auto simp: queues_ok_def)
    with rk u Cons show ?thesis by (intro exI [of _ rest'] exI [of _ k]) (simp add: queues_ok_def)
  qed
  with assms(1) show ?thesis by (auto simp: pool_ok_def dest!: running_update)
qed

lemma pool_ok_step:
  assumes "pool_ok c work p s" and "pool_step c opt shell s t"
  shows "pool_ok c work p t"
  using assms(2)
proof cases
  case (put j q)
  then show ?thesis using assms(1) by (simp add: pool_ok_def queues_ok_def)
next
  case (get i q j)
  then show ?thesis using pool_get_ok [OF assms(1)] by simp
next
  case (leave i j)
  then show ?thesis using pool_ok_update [OF assms(1), of i "Holding j" Exited "[]"] by simp
next
  case (bounce i j)
  then show ?thesis using pool_ok_update [OF assms(1), of i "Holding j" Idle "[set_is_break True j]"] by simp
next
  case (skip i j)
  then show ?thesis using pool_ok_update [OF assms(1), of i "Holding j" Idle "[j]"] by simp
next
  case (launch i j)
  then show ?thesis using pool_ok_update [OF assms(1), of i "Holding j" "Running j" "[]"] by simp
next
  case (finish i j r)
  then show ?thesis
    using pool_ok_update [OF assms(1), of i "Running j" Idle "[r]"] run_job_core [of c opt shell j r] by simp
next
  case (die i j e)
  then show ?thesis using run_job_defined [of c opt shell j] assms(1) by (simp add: pool_ok_def)
next
  case (collect n j q)
  then show ?thesis using assms(1) by (auto simp: pool_ok_def queues_ok_def ac_simps)
next
  case interrupt
  then show ?thesis using assms(1) by (simp add: pool_ok_def queues_ok_def)
qed

lemma pool_init_ok:
  assumes "PYTHON c \<noteq> []" and "\<forall>j \<in> set work. \<not> is_break j"
  shows "pool_ok c work p (pool_init work p)"
proof -
  have "sum_list (replicate p {#}) = ({#} :: job multiset)" by (induction p) auto
  then have "queues_ok work p (pool_init work p) work p"
    using assms(2) by (simp add: queues_ok_def pool_init_def spent_breaks_def in_hand_def sum_list_replicate)
  then show ?thesis using assms(1) by (auto simp: pool_ok_def pool_init_def)
qed

interpretation pool: ranked_steps "pool_step c opt shell" "pool_ok c work p" pool_rank for c opt shell work p
  by unfold_locales (rule pool_ok_step, assumption+, rule pool_rank_step)

section \<open>Runs end, with a result for every job\<close>

text \<open>A state in which no thread can move: an interrupt may still come.\<close>

definition stuck :: "config \<Rightarrow> test_options \<Rightarrow> (string \<Rightarrow> string \<Rightarrow> outcome) \<Rightarrow> pool \<Rightarrow> bool" where
  "stuck c opt shell s \<longleftrightarrow> (\<forall>t. pool_step c opt shell s t \<longrightarrow> t = s\<lparr>thread_exit := True\<rparr>)"

lemma stuck_workers:
  assumes "stuck c opt shell s" and "PYTHON c \<noteq> []" and "w \<in> set (workers s)"
  shows "w = Exited \<or> w = Idle \<and> inq s = []"
proof -
  obtain i where i: "i < length (workers s)" "workers s ! i = w" using assms(3) by (auto simp: in_set_conv_nth)
  have moved: False if "pool_step c opt shell s t" "workers t ! i \<noteq> w" for t
    using assms(1) that i by (auto simp: stuck_def)
  show ?thesis
  proof (cases w)
    case Idle
    show ?thesis
    proof (cases "inq s")
      case (Cons j q)
      from moved [OF pool_step.get [OF i(1) _ Cons]] i Idle show ?thesis by simp
    qed (simp add: Idle)
  next
    case (Holding j)
    then have h: "workers s ! i = Holding j" using i(2) by simp
    consider "is_break j" | "\<not> is_break j" "thread_exit s" | "\<not> is_break j" "\<not> thread_exit s" "is_skip j"
      | "\<not> is_break j" "\<not> thread_exit s" "\<not> is_skip j" by blast
    then show ?thesis
    proof cases
      case 1
      from moved [OF pool_step.leave [OF i(1) h this]] i(1) Holding show ?thesis by simp
    next
      case 2
      from moved [OF pool_step.bounce [OF i(1) h this]] i(1) Holding show ?thesis by simp
    next
      case 3
      from moved [OF pool_step.skip [OF i(1) h this]] i(1) Holding show ?thesis by simp
    next
      case 4
      from moved [OF pool_step.launch [OF i(1) h this]] i(1) Holding show ?thesis by simp
    qed
  next
    case (Running j)
    then have h: "workers s ! i = Running j" using i(2) by simp
    obtain r where "run_job c opt shell j = Inr r" using run_job_defined [OF assms(2)] by blast
    from moved [OF pool_step.finish [OF i(1) h this]] i(1) Running show ?thesis by simp
  qed simp
qed

lemma stuck_queued:
  assumes "stuck c opt shell s"
  shows "pending s = []"
proof (cases "pending s")
  case (Cons j q)
  have "s\<lparr>pending := q, inq := inq s @ [j]\<rparr> = s\<lparr>thread_exit := True\<rparr>"
    using pool_step.put [OF Cons, of c opt shell] assms by (simp add: stuck_def)
  then have "inq (s\<lparr>pending := q, inq := inq s @ [j]\<rparr>) = inq (s\<lparr>thread_exit := True\<rparr>)" by (rule arg_cong)
  then show ?thesis by simp
qed

lemma stuck_collects:
  assumes "stuck c opt shell s"
  shows "waiting s = 0 \<or> outq s = []"
proof (rule ccontr)
  assume "\<not> ?thesis"
  then obtain n j q where nq: "waiting s = Suc n" "outq s = j # q" by (cases "waiting s"; cases "outq s") auto
  from pool_step.collect [OF stuck_queued [OF assms] this, of c opt shell] assms have "s\<lparr>outq := q, results := results s @ [j], waiting := n\<rparr> = s\<lparr>thread_exit := True\<rparr>"
    by (simp add: stuck_def)
  then have "results (s\<lparr>outq := q, results := results s @ [j], waiting := n\<rparr>) = results (s\<lparr>thread_exit := True\<rparr>)"
    by (rule arg_cong)
  then show False by simp
qed

lemma all_exited:
  assumes "\<forall>w \<in> set ws. w = Exited"
  shows "spent_breaks ws = length ws" and "in_hand ws = {#}"
  using assms by (induction ws) (auto simp: spent_breaks_def in_hand_def)

lemma idle_not_spent: "Idle \<in> set ws \<Longrightarrow> spent_breaks ws < length ws"
proof (induction ws)
  case (Cons w ws)
  have "spent_breaks ws \<le> length ws" for ws
  proof (induction ws)
    case (Cons w ws)
    then show ?case by (cases w) (auto simp: spent_breaks_def)
  qed (simp add: spent_breaks_def)
  with Cons show ?case by (cases w) (auto simp: spent_breaks_def le_imp_less_Suc less_Suc_eq_le)
qed simp

lemma stuck_complete:
  assumes "stuck c opt shell s" and "pool_ok c work p s" and "0 < p"
  shows "waiting s = 0 \<and> pending s = [] \<and> inq s = [] \<and> outq s = [] \<and> set (workers s) = {Exited}
     \<and> image_mset core (mset (results s)) = image_mset core (mset work)"
proof -
  have py: "PYTHON c \<noteq> []" and len: "length (workers s) = p"
    and wait: "waiting s + length (results s) = length work" using assms(2) by (auto simp: pool_ok_def)
  obtain rest k where rk: "queues_ok work p s rest k" using assms(2) by (auto simp: pool_ok_def)
  note w = stuck_workers [OF assms(1) py] and queued = stuck_queued [OF assms(1)]
  have no_idle: "Idle \<notin> set (workers s)"
  proof
    assume idle: "Idle \<in> set (workers s)"
    then have "inq s = []" using w by blast
    then have "k = 0" using rk queued by (simp add: queues_ok_def)
    then have "spent_breaks (workers s) = p" using rk by (simp add: queues_ok_def)
    with idle_not_spent [OF idle] len show False by simp
  qed
  then have ex: "\<forall>w \<in> set (workers s). w = Exited" using w by blast
  note all = all_exited [OF ex]
  have "rest = []" "k = 0" using rk all(1) len assms(3) by (auto simp: queues_ok_def)
  then have inq: "inq s = []" "pending s = []" and
    tally: "image_mset core (mset (results s) + mset (outq s)) = image_mset core (mset work)"
    using rk all(2) by (auto simp: queues_ok_def)
  have "length (results s) + length (outq s) = length work"
    using arg_cong [OF tally, of size] by simp
  then have "length (outq s) = waiting s" using wait by simp
  then have "outq s = []" "waiting s = 0" using stuck_collects [OF assms(1)] by auto
  moreover have "set (workers s) = {Exited}" using ex len assms(3) by (cases "workers s") auto
  ultimately show ?thesis using inq tally by simp
qed

text \<open>When the workers have been joined no thread can move any more; and with workers the other way round.\<close>

lemma main_done_stuck:
  assumes "main_done s" and "pool_ok c work p s" and "0 < p"
  shows "stuck c opt shell s"
proof -
  have len: "length (workers s) = p" and wait: "length (results s) = length work"
    using assms(1,2) by (auto simp: pool_ok_def main_done_def)
  obtain rest k where rk: "queues_ok work p s rest k" using assms(2) by (auto simp: pool_ok_def)
  have ex: "\<forall>w \<in> set (workers s). w = Exited" "pending s = []" using assms(1) by (simp_all add: main_done_def)
  note all = all_exited [OF ex(1)]
  have "rest = []" "k = 0" using rk all(1) len assms(3) by (auto simp: queues_ok_def)
  then have inq: "inq s = []" and
    tally: "image_mset core (mset (results s) + mset (outq s)) = image_mset core (mset work)"
    using rk all(2) by (auto simp: queues_ok_def)
  have "length (results s) + length (outq s) = length work"
    using arg_cong [OF tally, of size] by simp
  then have "outq s = []" using wait by simp
  moreover have "i < length (workers s) \<Longrightarrow> workers s ! i = Exited" for i using ex(1) by simp
  ultimately show ?thesis
    using ex(2) inq assms(1) by (auto simp: stuck_def main_done_def simp del: nth_mem elim!: pool_stepE dest: nth_mem)
qed

lemma stuck_main_done:
  assumes "stuck c opt shell s" and "pool_ok c work p s" and "0 < p"
  shows "main_done s"
  using stuck_complete [OF assms] by (auto simp: main_done_def)

text \<open>C4. Testing ends and loses nothing: with at least one worker and an interpreter for the Python
  examples, whatever the threads do and whenever an interrupt comes, no run has more than five
  steps per job and worker plus one; and when no thread can move any more, the main thread has all
  its results, one for every job dispatched, both queues are empty and every worker has exited.\<close>

theorem pool_completes:
  assumes "PYTHON c \<noteq> []" and "\<forall>j \<in> set work. \<not> is_break j" and "0 < p"
    and "(pool_step c opt shell ^^ n) (pool_init work p) s"
  shows "n \<le> 5 * (length work + p) + 1 \<and>
     (stuck c opt shell s \<longrightarrow> waiting s = 0 \<and> pending s = [] \<and> inq s = [] \<and> outq s = [] \<and> set (workers s) = {Exited}
        \<and> image_mset core (mset (results s)) = image_mset core (mset work))"
proof -
  note ok = pool_init_ok [OF assms(1,2), of p]
  have "n + pool_rank s \<le> pool_rank (pool_init work p)" using pool.run_bound [OF ok assms(4)] .
  moreover have "pool_rank (pool_init work p) = 5 * (length work + p) + 1"
    by (simp add: pool_rank_def pool_init_def sum_list_replicate)
  moreover have "pool_ok c work p s" using pool.run_inv [OF ok assms(4)] .
  ultimately show ?thesis using stuck_complete [OF _ _ assms(3)] by auto
qed

theorem pool_completes_witness:
  "\<exists>n s. (pool_step demo_config demo_opt (\<lambda>_ _. (0, True, True, 1)) ^^ n) (pool_init [new_job, set_is_skip True new_job] 2) s
     \<and> n \<le> 5 * (2 + 2) + 1 \<and> waiting s = 0 \<and> length (results s) = 2"
proof -
  let ?shell = "\<lambda>_ _. (0, True, True, 1)" and ?work = "[new_job, set_is_skip True new_job]"
  have 1: "PYTHON demo_config \<noteq> []" "\<forall>j \<in> set ?work. \<not> is_break j" "(0::nat) < 2"
    by (simp_all add: demo_config_def new_job_def set_is_skip_def)
  obtain n s where ns: "(pool_step demo_config demo_opt ?shell ^^ n) (pool_init ?work 2) s"
    "\<not> (\<exists>u. pool_step demo_config demo_opt ?shell s u)"
    using pool.run_ends [OF pool_init_ok [OF 1(1,2)]] by blast
  have "stuck demo_config demo_opt ?shell s" using ns(2) by (auto simp: stuck_def)
  with pool_completes [OF 1 ns(1)] have fin: "n \<le> 5 * (2 + 2) + 1" "waiting s = 0"
    "image_mset core (mset (results s)) = image_mset core (mset ?work)" by auto
  have "length (results s) = 2" using arg_cong [OF fin(3), of size] by simp
  with ns(1) fin(1,2) show ?thesis by blast
qed

lemma no_workers_step:
  "pool_step c opt shell s t \<Longrightarrow> workers s = [] \<Longrightarrow> outq s = [] \<Longrightarrow>
   workers t = [] \<and> outq t = [] \<and> results t = results s \<and> waiting t = waiting s"
  by (auto elim!: pool_stepE)

text \<open>With no worker at all, as a negative limit on the jobs asks for, no run ever gives the main
  thread a result: it waits forever for all its jobs.\<close>

theorem pool_without_workers:
  assumes "(pool_step c opt shell ^^ n) (pool_init work 0) s"
  shows "workers s = [] \<and> outq s = [] \<and> results s = [] \<and> waiting s = length work"
  using assms
proof (induction n arbitrary: s)
  case (Suc n)
  then obtain u where "(pool_step c opt shell ^^ n) (pool_init work 0) u" "pool_step c opt shell u s" by auto
  with Suc.IH no_workers_step show ?case by metis
qed (simp add: pool_init_def)

theorem pool_without_workers_witness:
  "let s = (pool_init [new_job] 0)\<lparr>pending := [], inq := [new_job]\<rparr>
   in (pool_step demo_config demo_opt (\<lambda>_ _. (0, True, True, 1)) ^^ 1) (pool_init [new_job] 0) s
     \<and> workers s = [] \<and> outq s = [] \<and> results s = [] \<and> waiting s = length [new_job]"
proof -
  let ?s = "(pool_init [new_job] 0)\<lparr>pending := [], inq := [new_job]\<rparr>" and ?shell = "\<lambda>_ _. (0, True, True, 1)"
  have "pool_step demo_config demo_opt ?shell (pool_init [new_job] 0) ?s"
    using pool_step.put [of "pool_init [new_job] 0" new_job "[]" demo_config demo_opt ?shell] by (simp add: pool_init_def)
  then have 1: "(pool_step demo_config demo_opt ?shell ^^ 1) (pool_init [new_job] 0) ?s" by (simp only: relpowp_1)
  from 1 pool_without_workers [OF 1] show ?thesis by (simp only: Let_def simp_thms)
qed

section \<open>Interrupts\<close>

definition running :: "pool \<Rightarrow> job set" where
  "running s = {j. Running j \<in> set (workers s)}"

text \<open>After an interrupt no further job is started: every later step leaves the set of running
  jobs as it is or makes it smaller, and the flag stays set.\<close>

theorem interrupt_starts_nothing:
  assumes "(pool_step c opt shell ^^ n) s t" and "thread_exit s"
  shows "thread_exit t \<and> running t \<subseteq> running s"
  using assms
proof (induction n arbitrary: t)
  case (Suc n)
  then obtain u where u: "(pool_step c opt shell ^^ n) s u" "pool_step c opt shell u t" by auto
  with Suc have IH: "thread_exit u" "running u \<subseteq> running s" by auto
  have "thread_exit t \<and> running t \<subseteq> running u"
    using u(2) IH(1) by cases (auto simp: running_def dest!: running_update)
  with IH show ?case by blast
qed simp

theorem interrupt_starts_nothing_witness:
  "let s = (pool_init [new_job] 1)\<lparr>thread_exit := True, pending := [], inq := [new_job, break_job]\<rparr>; t = s\<lparr>inq := [break_job], workers := [Holding new_job]\<rparr>
   in (pool_step demo_config demo_opt (\<lambda>_ _. (0, True, True, 1)) ^^ 1) s t \<and> thread_exit t \<and> running t \<subseteq> running s"
proof -
  let ?s = "(pool_init [new_job] 1)\<lparr>thread_exit := True, pending := [], inq := [new_job, break_job]\<rparr>" and ?shell = "\<lambda>_ _. (0, True, True, 1)"
  let ?t = "?s\<lparr>inq := [break_job], workers := [Holding new_job]\<rparr>"
  have "pool_step demo_config demo_opt ?shell ?s ?t"
    using pool_step.get [of 0 ?s new_job "[break_job]" demo_config demo_opt ?shell] by (simp add: pool_init_def)
  then have 1: "(pool_step demo_config demo_opt ?shell ^^ 1) ?s ?t" by (simp only: relpowp_1)
  have "thread_exit ?s" by simp
  from 1 interrupt_starts_nothing [OF 1 this] show ?thesis by (simp only: Let_def simp_thms)
qed

section \<open>Uninterrupted runs\<close>

text \<open>The result of a job that is not interrupted.\<close>

definition job_result :: "config \<Rightarrow> test_options \<Rightarrow> (string \<Rightarrow> string \<Rightarrow> outcome) \<Rightarrow> job \<Rightarrow> job" where
  "job_result c opt shell j =
     (if is_skip j then j else case run_job c opt shell j of Inr r \<Rightarrow> r | Inl _ \<Rightarrow> j)"

text \<open>As long as no interrupt has come, the results together with those still to come are the results
  of the jobs dispatched.\<close>

definition calm :: "config \<Rightarrow> test_options \<Rightarrow> (string \<Rightarrow> string \<Rightarrow> outcome) \<Rightarrow> job list \<Rightarrow> pool \<Rightarrow> bool" where
  "calm c opt shell work s \<longleftrightarrow> (\<not> thread_exit s \<longrightarrow>
     (\<exists>rest k. inq s @ pending s = rest @ replicate k break_job \<and> (\<forall>j \<in> set rest. \<not> is_break j) \<and>
       mset (results s) + mset (outq s) + image_mset (job_result c opt shell) (in_hand (workers s) + mset rest)
         = image_mset (job_result c opt shell) (mset work)) \<and>
     (\<forall>j. Running j \<in> set (workers s) \<longrightarrow> \<not> is_skip j))"

lemma calm_update:
  assumes "calm c opt shell work s" and "i < length (workers s)" and "workers s ! i = old"
    and "image_mset (job_result c opt shell) (busy new) + mset ou = image_mset (job_result c opt shell) (busy old)"
    and "\<And>j. new = Running j \<Longrightarrow> \<not> is_skip j"
  shows "calm c opt shell work (s\<lparr>workers := (workers s)[i := new], outq := outq s @ ou\<rparr>)"
proof -
  let ?f = "job_result c opt shell" and ?ws = "(workers s)[i := new]"
  have "image_mset ?f (in_hand ?ws) + mset ou + image_mset ?f (busy old)
      = image_mset ?f (in_hand (workers s)) + (image_mset ?f (busy new) + mset ou)"
    using arg_cong [OF worker_update(1) [OF assms(2,3), of new], of "image_mset ?f"] by (simp add: ac_simps)
  then have "image_mset ?f (in_hand (workers s)) = image_mset ?f (in_hand ?ws) + mset ou"
    unfolding assms(4) by simp
  then show ?thesis
    using assms(1,5) by (fastforce simp: calm_def ac_simps dest!: running_update)
qed

lemma calmI:
  assumes "inq s @ pending s = rest @ replicate k break_job" and "\<forall>j \<in> set rest. \<not> is_break j"
    and "mset (results s) + mset (outq s) + image_mset (job_result c opt shell) (in_hand (workers s) + mset rest)
         = image_mset (job_result c opt shell) (mset work)"
    and "\<forall>j. Running j \<in> set (workers s) \<longrightarrow> \<not> is_skip j"
  shows "calm c opt shell work s"
  unfolding calm_def using assms by blast

lemma calm_get:
  assumes "calm c opt shell work s" and "i < length (workers s)" and "workers s ! i = Idle" and "inq s = j # q"
  shows "calm c opt shell work (s\<lparr>inq := q, workers := (workers s)[i := Holding j]\<rparr>)"
proof (cases "thread_exit s")
  case True
  then show ?thesis by (simp add: calm_def)
next
  case False
  let ?f = "job_result c opt shell" and ?t = "s\<lparr>inq := q, workers := (workers s)[i := Holding j]\<rparr>"
  obtain rest k where rk: "inq s @ pending s = rest @ replicate k break_job" "\<forall>j \<in> set rest. \<not> is_break j"
    "mset (results s) + mset (outq s) + image_mset ?f (in_hand (workers s) + mset rest) = image_mset ?f (mset work)"
    using assms(1) False by (auto simp: calm_def)
  note u = worker_update(1) [OF assms(2,3), of "Holding j"]
  have run: "\<forall>j'. Running j' \<in> set ((workers s)[i := Holding j]) \<longrightarrow> \<not> is_skip j'"
    using assms(1) False by (auto simp: calm_def dest!: running_update)
  show ?thesis
  proof (cases rest)
    case Nil
    with rk(1) assms(4) obtain k' where "k = Suc k'" "j = break_job" "q @ pending s = replicate k' break_job"
      by (cases k) auto
    with rk u Nil have "q @ pending s = [] @ replicate k' break_job \<and> (\<forall>j \<in> set []. \<not> is_break j) \<and>
      mset (results s) + mset (outq s) + image_mset ?f (in_hand ((workers s)[i := Holding j]) + mset []) = image_mset ?f (mset work)"
      by simp
    then show ?thesis using calmI [of ?t "[]" k'] run by simp
  next
    case (Cons r rest')
    with rk(1,2) assms(4) have "j = r" "q @ pending s = rest' @ replicate k break_job" "\<not> is_break j" by auto
    with rk u Cons have "q @ pending s = rest' @ replicate k break_job \<and> (\<forall>j \<in> set rest'. \<not> is_break j) \<and>
      mset (results s) + mset (outq s) + image_mset ?f (in_hand ((workers s)[i := Holding j]) + mset rest') = image_mset ?f (mset work)"
      by simp
    then show ?thesis using calmI [of ?t rest' k] run by simp
  qed
qed

lemma calm_step:
  assumes "calm c opt shell work s" and "pool_step c opt shell s t" and "PYTHON c \<noteq> []"
  shows "calm c opt shell work t"
  using assms(2)
proof cases
  case (put j q)
  then show ?thesis using assms(1) by (simp add: calm_def)
next
  case (get i q j)
  then show ?thesis using calm_get [OF assms(1)] by simp
next
  case (leave i j)
  then show ?thesis using calm_update [OF assms(1), of i "Holding j" Exited "[]"] by simp
next
  case (bounce i j)
  then show ?thesis by (simp add: calm_def)
next
  case (skip i j)
  then show ?thesis using calm_update [OF assms(1), of i "Holding j" Idle "[j]"] by (simp add: job_result_def)
next
  case (launch i j)
  then show ?thesis using calm_update [OF assms(1), of i "Holding j" "Running j" "[]"] by simp
next
  case (finish i j r)
  show ?thesis
  proof (cases "thread_exit s")
    case False
    then have "\<not> is_skip j" using assms(1) finish(2,3) nth_mem by (fastforce simp: calm_def)
    then show ?thesis
      using finish calm_update [OF assms(1), of i "Running j" Idle "[r]"] by (simp add: job_result_def)
  qed (simp add: calm_def finish(1))
next
  case (die i j e)
  then show ?thesis using run_job_defined [OF assms(3), of opt shell j] by simp
next
  case (collect n j q)
  then show ?thesis using assms(1) by (simp add: calm_def ac_simps)
next
  case interrupt
  then show ?thesis by (simp add: calm_def)
qed

lemma calm_run:
  assumes "(pool_step c opt shell ^^ n) s t" and "calm c opt shell work s" and "PYTHON c \<noteq> []"
  shows "calm c opt shell work t"
  using assms by (induction n arbitrary: t) (auto intro: calm_step)

lemma calm_init:
  assumes "\<forall>j \<in> set work. \<not> is_break j"
  shows "calm c opt shell work (pool_init work p)"
proof -
  have "sum_list (replicate p {#}) = ({#} :: job multiset)" by (induction p) auto
  with assms show ?thesis by (auto simp: calm_def pool_init_def in_hand_def)
qed

lemma calm_results:
  assumes "stuck c opt shell s" and "pool_ok c work p s" and "0 < p" and "calm c opt shell work s" and "\<not> thread_exit s"
  shows "mset (results s) = mset (map (job_result c opt shell) work)"
proof -
  from stuck_complete [OF assms(1-3)] have s: "pending s = []" "inq s = []" "outq s = []" "set (workers s) = {Exited}" by auto
  have "in_hand (workers s) = {#}" using all_exited(2) [of "workers s"] s(4) by simp
  then show ?thesis using s assms(4,5) by (auto simp: calm_def)
qed

text \<open>Without an interrupt the results do not depend on the schedule: whenever no thread can move
  any more, the results collected are, in some order, exactly what running each job by itself gives,
  a job to be skipped being handed back as it is.\<close>

theorem pool_results:
  assumes "PYTHON c \<noteq> []" and "\<forall>j \<in> set work. \<not> is_break j" and "0 < p"
    and "(pool_step c opt shell ^^ n) (pool_init work p) s" and "stuck c opt shell s" and "\<not> thread_exit s"
  shows "mset (results s) = mset (map (job_result c opt shell) work)"
proof -
  note init = pool_init_ok [OF assms(1,2), of p]
  have ok: "pool_ok c work p s" using pool.run_inv [OF init assms(4)] .
  have calm: "calm c opt shell work s" using calm_run [OF assms(4) calm_init [OF assms(2)] assms(1)] .
  show ?thesis by (rule calm_results [OF assms(5) ok assms(3) calm assms(6)])
qed

text \<open>A run of one worker on one job that is to be skipped.\<close>

definition demo_job :: job where
  "demo_job = set_is_skip True new_job"

definition demo_pool :: "job list \<Rightarrow> job list \<Rightarrow> job list \<Rightarrow> worker \<Rightarrow> nat \<Rightarrow> job list \<Rightarrow> pool" where
  "demo_pool pe i ou w n rs =
     \<lparr>pending = pe, inq = i, outq = ou, workers = [w], thread_exit = False, waiting = n, results = rs\<rparr>"

lemma one_more: "pool_step c opt shell s t \<Longrightarrow> (pool_step c opt shell ^^ n) t u \<Longrightarrow> (pool_step c opt shell ^^ Suc n) s u"
  by (rule relpowp_Suc_I2)

lemma one_job_run:
  assumes j: "\<not> is_break j" "is_skip j"
  shows "(pool_step c opt shell ^^ 7) (pool_init [j] 1) (demo_pool [] [] [] Exited 0 [j])"
proof -
  let ?step = "pool_step c opt shell" and ?b = break_job and ?j = j
  have init: "pool_init [?j] 1 = demo_pool [?j, ?b] [] [] Idle 1 []" by (simp add: pool_init_def demo_pool_def)
  have 1: "?step (demo_pool [?j, ?b] [] [] Idle 1 []) (demo_pool [?b] [?j] [] Idle 1 [])"
    using pool_step.put [of "demo_pool [?j, ?b] [] [] Idle 1 []" ?j "[?b]"] by (simp add: demo_pool_def)
  have 2: "?step (demo_pool [?b] [?j] [] Idle 1 []) (demo_pool [?b] [] [] (Holding ?j) 1 [])"
    using pool_step.get [of 0 "demo_pool [?b] [?j] [] Idle 1 []" ?j "[]"] by (simp add: demo_pool_def)
  have 3: "?step (demo_pool [?b] [] [] (Holding ?j) 1 []) (demo_pool [?b] [] [?j] Idle 1 [])"
    using pool_step.skip [of 0 "demo_pool [?b] [] [] (Holding ?j) 1 []" ?j] j by (simp add: demo_pool_def)
  have 4: "?step (demo_pool [?b] [] [?j] Idle 1 []) (demo_pool [] [?b] [?j] Idle 1 [])"
    using pool_step.put [of "demo_pool [?b] [] [?j] Idle 1 []" ?b "[]"] by (simp add: demo_pool_def)
  have 5: "?step (demo_pool [] [?b] [?j] Idle 1 []) (demo_pool [] [?b] [] Idle 0 [?j])"
    using pool_step.collect [of "demo_pool [] [?b] [?j] Idle 1 []" 0 ?j "[]"] by (simp add: demo_pool_def)
  have 6: "?step (demo_pool [] [?b] [] Idle 0 [?j]) (demo_pool [] [] [] (Holding ?b) 0 [?j])"
    using pool_step.get [of 0 "demo_pool [] [?b] [] Idle 0 [?j]" ?b "[]"] by (simp add: demo_pool_def)
  have 7: "?step (demo_pool [] [] [] (Holding ?b) 0 [?j]) (demo_pool [] [] [] Exited 0 [?j])"
    using pool_step.leave [of 0 "demo_pool [] [] [] (Holding ?b) 0 [?j]" ?b] by (simp add: demo_pool_def)
  have "(?step ^^ 0) (demo_pool [] [] [] Exited 0 [?j]) (demo_pool [] [] [] Exited 0 [?j])" by simp
  note run = one_more [OF 1 one_more [OF 2 one_more [OF 3 one_more [OF 4 one_more [OF 5 one_more [OF 6 one_more [OF 7 this]]]]]]]
  moreover have "Suc (Suc (Suc (Suc (Suc (Suc (Suc 0)))))) = 7" by simp
  ultimately show ?thesis by (simp only: init)
qed

lemma one_job_stuck: "stuck c opt shell (demo_pool [] [] [] Exited 0 js)"
  by (auto simp: stuck_def demo_pool_def elim!: pool_stepE)

lemma demo_run:
  "(pool_step demo_config demo_opt shell ^^ 7) (pool_init [demo_job] 1) (demo_pool [] [] [] Exited 0 [demo_job])"
  by (rule one_job_run) (simp_all add: demo_job_def new_job_def set_is_skip_def)

lemmas demo_stuck = one_job_stuck [of demo_config demo_opt _ "[demo_job]"]

theorem pool_results_witness:
  "let s = demo_pool [] [] [] Exited 0 [demo_job]; shell = \<lambda>_ _. (0, True, True, 1)
   in (pool_step demo_config demo_opt shell ^^ 7) (pool_init [demo_job] 1) s
     \<and> mset (results s) = mset (map (job_result demo_config demo_opt shell) [demo_job])"
proof -
  let ?s = "demo_pool [] [] [] Exited 0 [demo_job]" and ?shell = "\<lambda>_ _. (0, True, True, 1)"
  have 1: "PYTHON demo_config \<noteq> []" "\<forall>j \<in> set [demo_job]. \<not> is_break j" "(0::nat) < 1" "\<not> thread_exit ?s"
    by (simp_all add: demo_config_def demo_job_def new_job_def set_is_skip_def demo_pool_def)
  have "mset (results ?s) = mset (map (job_result demo_config demo_opt ?shell) [demo_job])"
    by (rule pool_results [OF 1(1-3) demo_run demo_stuck 1(4)])
  with demo_run show ?thesis by (simp only: Let_def simp_thms)
qed

end
