(* ===== verification/Test_Summary.thy ===== *)
theory Test_Summary
  imports Test_Workers Test_Report "HOL-Library.Char_ord" "HOL-Library.List_Lexorder"
begin

text \<open>
  The last part of \<^verbatim>\<open>run_tests\<close> in \<^verbatim>\<open>test.py\<close>: what the main thread does with the results it
  collects, the summary it prints, the reports it writes and the exit code.  Standard output and
  a file are lists of the strings written to them.
\<close>

section \<open>Colours and times\<close>

abbreviation ESC :: char where
  "ESC \<equiv> CHR 0x1B"

definition colors_lst :: "(string \<times> string) list" where
  "colors_lst =
     [(''BOLD'', ESC # ''[01;1m''), (''RED'', ESC # ''[01;31m''), (''GREEN'', ESC # ''[32m''), (''YELLOW'', ESC # ''[33m''),
      (''PINK'', ESC # ''[35m''), (''BLUE'', ESC # ''[01;34m''), (''CYAN'', ESC # ''[36m''), (''GREY'', ESC # ''[37m''),
      (''NORMAL'', ESC # ''[0m''), (''cursor_on'', ESC # ''[?25h''), (''cursor_off'', ESC # ''[?25l'')]"

definition get_color :: "bool \<Rightarrow> string \<Rightarrow> string" where
  "get_color use cl = (if use then (case map_of colors_lst cl of None \<Rightarrow> [] | Some s \<Rightarrow> s) else [])"

text \<open>\<^verbatim>\<open>%.3f\<close>: rounding to thousandths, ties to even.\<close>

definition half_even :: "rat \<Rightarrow> int" where
  "half_even x =
     (let f = \<lfloor>x\<rfloor>; d = x - of_int f
      in if d < 1 / 2 then f else if d > 1 / 2 then f + 1 else if even f then f else f + 1)"

definition show_fixed3 :: "rat \<Rightarrow> string" where
  "show_fixed3 t =
     (let n = nat (half_even (abs t * 1000)); m = n mod 1000
      in (if t < 0 then ''-'' else []) @ show_nat (n div 1000) @ ''.'' @
         [digit_char (m div 100), digit_char (m div 10 mod 10), digit_char (m mod 10)])"

section \<open>The status of a job\<close>

datatype status = PASS | FAIL | VALGR | CRASH | SKIP

fun status_name :: "status \<Rightarrow> string" where
  "status_name PASS = ''PASS''"
| "status_name FAIL = ''FAIL''"
| "status_name VALGR = ''VALGR''"
| "status_name CRASH = ''CRASH''"
| "status_name SKIP = ''SKIP''"

fun status_color :: "status \<Rightarrow> string" where
  "status_color PASS = ''GREEN''"
| "status_color FAIL = ''RED''"
| "status_color VALGR = ''CYAN''"
| "status_color CRASH = ''PINK''"
| "status_color SKIP = ''GREY''"

definition job_status :: "job \<Rightarrow> status" where
  "job_status j =
     (if is_skip j then SKIP
      else if returncode j = 0 then PASS
      else if returncode j = 1 then FAIL
      else if returncode j = 2 then VALGR
      else CRASH)"

section \<open>Collecting the results\<close>

record reporting =
  use_colors :: bool
  duration :: bool
  html_name :: string
  text_name :: string
  xml_name :: string
  retain :: bool
  enable_tests :: bool
  valgrind_found :: bool
  read_tmp :: "string \<Rightarrow> string option"
  parse_results :: "string list \<Rightarrow> xml result"

record summary =
  passed_tests :: nat
  failed_tests :: nat
  skipped_tests :: nat
  crashed_tests :: nat
  valgrind_errors :: nat
  failed_testnames :: "string list"
  skipped_testnames :: "string list"
  crashed_testnames :: "string list"
  valgrind_testnames :: "string list"
  printed :: "string list"
  xml_written :: "string list"

definition skip_name :: "job \<Rightarrow> string" where
  "skip_name j = display_name j @ '' ('' @ skip_reason j @ '')''"

definition count_job :: "job \<Rightarrow> summary \<Rightarrow> summary" where
  "count_job j s =
     (case job_status j of
        SKIP \<Rightarrow> s\<lparr>skipped_tests := skipped_tests s + 1, skipped_testnames := skipped_testnames s @ [skip_name j]\<rparr>
      | PASS \<Rightarrow> s\<lparr>passed_tests := passed_tests s + 1\<rparr>
      | FAIL \<Rightarrow> s\<lparr>failed_tests := failed_tests s + 1, failed_testnames := failed_testnames s @ [display_name j]\<rparr>
      | VALGR \<Rightarrow> s\<lparr>valgrind_errors := valgrind_errors s + 1, valgrind_testnames := valgrind_testnames s @ [display_name j]\<rparr>
      | CRASH \<Rightarrow> s\<lparr>crashed_tests := crashed_tests s + 1, crashed_testnames := crashed_testnames s @ [display_name j]\<rparr>)"

definition progress :: "summary \<Rightarrow> nat" where
  "progress s = passed_tests s + failed_tests s + skipped_tests s + crashed_tests s"

definition progress_line :: "reporting \<Rightarrow> test_options \<Rightarrow> nat \<Rightarrow> job \<Rightarrow> summary \<Rightarrow> string" where
  "progress_line rp opt tests j s =
     ''['' @ show_nat (progress s) @ ''/'' @ show_nat tests @ ''] '' @
     get_color (use_colors rp) (status_color (job_status j)) @ status_name (job_status j) @
     get_color (use_colors rp) ''NORMAL'' @
     (if duration rp \<or> constrain opt = ''performance'' then '' ('' @ show_fixed3 (elapsed_time j) @ '')'' else []) @
     '': '' @ (if is_example j \<or> is_pyexample j then ''Example'' else ''TestSuite'') @ '' '' @ display_name j @ [NL]"

definition example_xml :: "job \<Rightarrow> string list" where
  "example_xml j =
     [''<Example>'' @ [NL],
      ''  <Name>'' @ display_name j @ ''</Name>'' @ [NL],
      ''  <Result>'' @ status_name (job_status j) @ ''</Result>'' @ [NL],
      ''  <Time real='' @ [QUOT] @ show_fixed3 (elapsed_time j) @ [QUOT] @ ''/>'' @ [NL],
      ''</Example>'' @ [NL]]"

definition suite_xml :: "reporting \<Rightarrow> job \<Rightarrow> string list result" where
  "suite_xml rp j =
     (if is_skip j
      then Inr [''<Test>'' @ [NL], ''  <Name>'' @ display_name j @ ''</Name>'' @ [NL],
                ''  <Result>SKIP</Result>'' @ [NL], ''  <Reason>'' @ skip_reason j @ ''</Reason>'' @ [NL],
                ''</Test>'' @ [NL]]
      else if returncode j = 0 \<or> returncode j = 1 \<or> returncode j = 2
      then (case read_tmp rp (tmp_file_name j) of None \<Rightarrow> Inl OSError | Some s \<Rightarrow> Inr [s])
      else Inr [''<Test>'' @ [NL], ''  <Name>'' @ display_name j @ ''</Name>'' @ [NL],
                ''  <Result>CRASH</Result>'' @ [NL], ''</Test>'' @ [NL]])"

definition job_xml :: "reporting \<Rightarrow> job \<Rightarrow> string list result" where
  "job_xml rp j = (if is_example j \<or> is_pyexample j then Inr (example_xml j) else suite_xml rp j)"

definition collect_job :: "reporting \<Rightarrow> test_options \<Rightarrow> nat \<Rightarrow> job \<Rightarrow> summary \<Rightarrow> summary result" where
  "collect_job rp opt tests j s =
     (if is_break j then Inr s
      else let s1 = count_job j s;
               s2 = s1\<lparr>printed := printed s1 @ [progress_line rp opt tests j s1]\<rparr>
           in res_bind (job_xml rp j) (\<lambda>x. Inr (s2\<lparr>xml_written := xml_written s2 @ x\<rparr>)))"

definition summary_init :: summary where
  "summary_init =
     \<lparr>passed_tests = 0, failed_tests = 0, skipped_tests = 0, crashed_tests = 0, valgrind_errors = 0,
      failed_testnames = [], skipped_testnames = [], crashed_testnames = [], valgrind_testnames = [],
      printed = [], xml_written = [''<?xml version='' @ [QUOT] @ ''1.0'' @ [QUOT] @ ''?>'' @ [NL], ''<Results>'' @ [NL]]\<rparr>"

section \<open>The summary and the reports\<close>

definition name_list :: "string \<Rightarrow> string list \<Rightarrow> string list" where
  "name_list title names =
     (if names = [] then [] else [title @ [NL] @ ''    '' @ py_join ([NL] @ ''    '') (sort names) @ [NL]])"

definition summary_lines :: "nat \<Rightarrow> summary \<Rightarrow> string list" where
  "summary_lines tests s =
     [show_nat (passed_tests s) @ '' of '' @ show_nat tests @ '' tests passed ('' @ show_nat (passed_tests s) @ '' passed, '' @
      show_nat (skipped_tests s) @ '' skipped, '' @ show_nat (failed_tests s) @ '' failed, '' @
      show_nat (crashed_tests s) @ '' crashed, '' @ show_nat (valgrind_errors s) @ '' valgrind errors)'' @ [NL]] @
     name_list ''List of SKIPped tests:'' (skipped_testnames s) @
     name_list ''List of FAILed tests:'' (failed_testnames s) @
     name_list ''List of CRASHed tests:'' (crashed_testnames s) @
     name_list ''List of VALGR failures:'' (valgrind_testnames s)"

definition note_lines :: "config \<Rightarrow> test_options \<Rightarrow> reporting \<Rightarrow> string list" where
  "note_lines c opt rp =
     (if \<not> enable_tests rp \<or> \<not> ENABLE_EXAMPLES c
      then [[NL]] @
           (if enable_tests rp then []
            else [''***  Note: ns-3 tests are currently disabled. Enable them by adding'' @ [NL],
                  ''***  '' @ [QUOT] @ ''--enable-tests'' @ [QUOT] @ '' to ./waf configure or modifying your .ns3rc file.'' @ [NL], [NL]]) @
           (if ENABLE_EXAMPLES c then []
            else [''***  Note: ns-3 examples are currently disabled. Enable them by adding'' @ [NL],
                  ''***  '' @ [QUOT] @ ''--enable-examples'' @ [QUOT] @ '' to ./waf configure or modifying your .ns3rc file.'' @ [NL], [NL]])
      else []) @
     (if valgrind opt \<and> \<not> valgrind_found rp
      then [[NL], ''***  Note: you are trying to use valgrind, but valgrind could not be found'' @ [NL],
            ''***  on your machine.  All tests and examples will crash or be skipped.'' @ [NL], [NL]]
      else [])"

record test_run =
  exit_code :: int
  stdout :: "string list"
  files :: "(string \<times> string list) list"
  dir_removed :: bool

text \<open>One report: its progress message and its file, when it was asked for.\<close>

definition write_report ::
    "string \<Rightarrow> string \<Rightarrow> string \<Rightarrow> string list result \<Rightarrow> (string list \<times> (string \<times> string list) list) result" where
  "write_report message ext name report =
     (if name = [] then Inr ([], [])
      else res_bind report (\<lambda>w. Inr ([message, ''done.'' @ [NL]], [(name @ ext, w)])))"

definition write_reports :: "reporting \<Rightarrow> string list \<Rightarrow> (string list \<times> (string \<times> string list) list) result" where
  "write_reports rp xml_results =
     res_bind (write_report (''Writing results to html file '' @ html_name rp @ ''.html...'') ''.html'' (html_name rp)
                 (res_bind (parse_results rp xml_results) translate_to_html)) (\<lambda>(out1, f1).
     res_bind (write_report (''Writing results to text file '' @ [QUOT] @ text_name rp @ ''.txt'' @ [QUOT] @ ''...'') ''.txt'' (text_name rp)
                 (res_bind (parse_results rp xml_results) translate_to_text)) (\<lambda>(out2, f2).
     res_bind (write_report (''Writing results to xml file '' @ xml_name rp @ ''.xml...'') ''.xml'' (xml_name rp)
                 (Inr xml_results)) (\<lambda>(out3, f3).
       Inr ((if html_name rp = [] \<and> text_name rp = [] \<and> xml_name rp = [] then [] else [[NL]]) @ out1 @ out2 @ out3,
            f1 @ f2 @ f3))))"

definition finish_tests :: "config \<Rightarrow> test_options \<Rightarrow> reporting \<Rightarrow> nat \<Rightarrow> job list \<Rightarrow> test_run result" where
  "finish_tests c opt rp tests js =
     res_bind (for_each (collect_job rp opt tests) js summary_init) (\<lambda>s.
     res_bind (write_reports rp (xml_written s @ [''</Results>'' @ [NL]])) (\<lambda>(out, fs).
       Inr \<lparr>exit_code = (if passed_tests s + skipped_tests s = tests then 0 else 1),
            stdout = printed s @ summary_lines tests s @ out @ note_lines c opt rp,
            files = fs, dir_removed = (\<not> retain rp)\<rparr>))"

section \<open>What collecting computes\<close>

text \<open>The results with a given status, as far as they are results at all.\<close>

definition with_status :: "status \<Rightarrow> job list \<Rightarrow> job list" where
  "with_status st js = filter (\<lambda>j. \<not> is_break j \<and> job_status j = st) js"

lemma with_status_simps [simp]:
  "with_status st [] = []"
  "with_status st (j # js) = (if \<not> is_break j \<and> job_status j = st then j # with_status st js else with_status st js)"
  by (simp_all add: with_status_def)

lemma with_status_mset: "mset js = mset js' \<Longrightarrow> mset (with_status st js) = mset (with_status st js')"
  by (simp add: with_status_def)

lemma collect_job_cases:
  assumes "collect_job rp opt tests j s = Inr t"
  obtains "is_break j" "t = s"
  | x y where "\<not> is_break j" "job_xml rp j = Inr x"
      "t = (count_job j s)\<lparr>printed := y, xml_written := xml_written s @ x\<rparr>"
proof (cases "is_break j")
  case False
  have "xml_written (count_job j s) = xml_written s" by (simp add: count_job_def split: status.split)
  with False assms that(2) show thesis by (auto simp: collect_job_def Let_def res_simps)
qed (use assms that(1) in \<open>simp add: collect_job_def\<close>)

text \<open>\<open>t\<close> is \<open>s\<close> with the results \<open>js\<close> counted.\<close>

definition tallied :: "summary \<Rightarrow> job list \<Rightarrow> summary \<Rightarrow> bool" where
  "tallied s js t \<longleftrightarrow>
     passed_tests t = passed_tests s + length (with_status PASS js) \<and>
     failed_tests t = failed_tests s + length (with_status FAIL js) \<and>
     skipped_tests t = skipped_tests s + length (with_status SKIP js) \<and>
     crashed_tests t = crashed_tests s + length (with_status CRASH js) \<and>
     valgrind_errors t = valgrind_errors s + length (with_status VALGR js) \<and>
     failed_testnames t = failed_testnames s @ map display_name (with_status FAIL js) \<and>
     skipped_testnames t = skipped_testnames s @ map skip_name (with_status SKIP js) \<and>
     crashed_testnames t = crashed_testnames s @ map display_name (with_status CRASH js) \<and>
     valgrind_testnames t = valgrind_testnames s @ map display_name (with_status VALGR js)"

lemma tallied_step:
  assumes "collect_job rp opt tests j s = Inr u" and "tallied u js t"
  shows "tallied s (j # js) t"
  using assms by (cases rule: collect_job_cases) (simp_all add: tallied_def count_job_def split: status.splits)

lemma collect_tallied: "for_each (collect_job rp opt tests) js s = Inr t \<Longrightarrow> tallied s js t"
proof (induction js arbitrary: s)
  case (Cons j js)
  then obtain u where "collect_job rp opt tests j s = Inr u" "for_each (collect_job rp opt tests) js u = Inr t"
    by (auto simp: res_simps)
  with Cons.IH tallied_step show ?case by blast
qed (simp add: tallied_def)

text \<open>Collecting fails exactly when the file of a suite that came to an end is missing.\<close>

lemma job_xml_error: "job_xml rp j = Inl e \<Longrightarrow> e = OSError"
  by (auto simp: job_xml_def suite_xml_def split: if_splits option.splits)

lemma collect_outcome:
  "if \<exists>j \<in> set js. \<not> is_break j \<and> job_xml rp j = Inl OSError
   then for_each (collect_job rp opt tests) js s = Inl OSError
   else \<exists>t. for_each (collect_job rp opt tests) js s = Inr t"
proof (induction js arbitrary: s)
  case (Cons j js)
  show ?case
  proof (cases "collect_job rp opt tests j s")
    case (Inl e)
    then have "\<not> is_break j" "job_xml rp j = Inl e"
      by (auto simp: collect_job_def Let_def res_simps split: if_splits)
    with job_xml_error Inl show ?thesis by auto
  next
    case (Inr u)
    then have "is_break j \<or> job_xml rp j \<noteq> Inl OSError" by (cases rule: collect_job_cases) auto
    with Inr Cons.IH [of u] show ?thesis by (cases "\<exists>j \<in> set js. \<not> is_break j \<and> job_xml rp j = Inl OSError") auto
  qed
qed simp

lemma collect_succeeds:
  assumes "\<not> (\<exists>j \<in> set js. \<not> is_break j \<and> job_xml rp j = Inl OSError)"
  obtains t where "for_each (collect_job rp opt tests) js s = Inr t"
  using collect_outcome [of js rp opt tests s] assms by (meson)

section \<open>The exit code\<close>

lemma passed_and_skipped:
  "length (with_status PASS js) + length (with_status SKIP js) \<le> length js"
  "length (with_status PASS js) + length (with_status SKIP js) = length js \<longleftrightarrow>
     (\<forall>j \<in> set js. \<not> is_break j \<and> (is_skip j \<or> returncode j = 0))"
  by (induction js) (auto simp: job_status_def)

text \<open>The exit code of a test run: it is 0 when every result collected is a real result, skipped or
  with return code 0, and 1 otherwise, so also when a single job was handed back because of an
  interrupt, failed under valgrind, or crashed.\<close>

theorem exit_code_zero:
  assumes "finish_tests c opt rp (length js) js = Inr r"
  shows "exit_code r = (if \<forall>j \<in> set js. \<not> is_break j \<and> (is_skip j \<or> returncode j = 0) then 0 else 1)"
proof -
  obtain s where s: "for_each (collect_job rp opt (length js)) js summary_init = Inr s"
    and r: "exit_code r = (if passed_tests s + skipped_tests s = length js then 0 else 1)"
    using assms by (auto simp: finish_tests_def res_simps)
  have "passed_tests s + skipped_tests s = length (with_status PASS js) + length (with_status SKIP js)"
    using collect_tallied [OF s] by (simp add: tallied_def summary_init_def)
  with r passed_and_skipped(2) [of js] show ?thesis by presburger
qed

definition demo_reporting :: reporting where
  "demo_reporting = \<lparr>use_colors = True, duration = False, html_name = [], text_name = [], xml_name = ''x'', retain = False,
     enable_tests = True, valgrind_found = True, read_tmp = (\<lambda>f. if f = ''t.xml'' then Some ''<Test/>'' else None),
     parse_results = (\<lambda>_. Inl ValueError)\<rparr>"

definition demo_results_list :: "job list" where
  "demo_results_list =
     [set_tmp_file_name ''t.xml'' (set_display_name ''b'' new_job),
      set_is_example True (set_display_name ''a'' (set_returncode 2 new_job))]"

theorem exit_code_zero_witness:
  "\<exists>r. finish_tests demo_config demo_opt demo_reporting (length demo_results_list) demo_results_list = Inr r \<and> exit_code r = 1"
proof -
  obtain s where "for_each (collect_job demo_reporting demo_opt 2) demo_results_list summary_init = Inr s"
    using collect_outcome [of demo_results_list demo_reporting demo_opt 2 summary_init]
    by (auto simp: demo_results_list_def demo_reporting_def job_xml_def suite_xml_def new_job_def job_setters split: if_splits)
  then have s: "for_each (collect_job demo_reporting demo_opt (length demo_results_list)) demo_results_list summary_init = Inr s"
    by (simp add: demo_results_list_def numeral_2_eq_2)
  obtain out fs where w: "write_reports demo_reporting (xml_written s @ [''</Results>'' @ [NL]]) = Inr (out, fs)"
    by (simp add: write_reports_def write_report_def demo_reporting_def)
  have "\<exists>r. finish_tests demo_config demo_opt demo_reporting (length demo_results_list) demo_results_list = Inr r"
    unfolding finish_tests_def s res_bind.simps w by simp
  then obtain r where r: "finish_tests demo_config demo_opt demo_reporting (length demo_results_list) demo_results_list = Inr r"
    by blast
  with exit_code_zero [OF r] show ?thesis
    by (auto simp: demo_results_list_def job_setters new_job_def)
qed

section \<open>The schedule does not show\<close>

text \<open>What a user sees at the end: the summary, and whether the run succeeded.\<close>

definition verdict :: "reporting \<Rightarrow> test_options \<Rightarrow> nat \<Rightarrow> job list \<Rightarrow> (string list \<times> bool) result" where
  "verdict rp opt tests js =
     res_bind (for_each (collect_job rp opt tests) js summary_init) (\<lambda>s.
       Inr (summary_lines tests s, passed_tests s + skipped_tests s = tests))"

lemma sort_perm: "mset xs = mset ys \<Longrightarrow> sort xs = sort (ys :: string list)"
  by (metis sorted_list_of_multiset_mset)

lemma name_list_perm:
  assumes "mset xs = mset ys"
  shows "name_list title xs = name_list title ys"
proof -
  have "xs = [] \<longleftrightarrow> ys = []" using assms by (cases xs; cases ys) auto
  then show ?thesis using sort_perm [OF assms] by (simp add: name_list_def)
qed

lemma verdict_perm:
  assumes "mset js = mset js'"
  shows "verdict rp opt tests js = verdict rp opt tests js'"
proof (cases "\<exists>j \<in> set js. \<not> is_break j \<and> job_xml rp j = Inl OSError")
  case True
  moreover have "set js = set js'" using assms by (rule mset_eq_setD)
  ultimately show ?thesis
    using collect_outcome [of js rp opt tests summary_init] collect_outcome [of js' rp opt tests summary_init]
    by (simp add: verdict_def)
next
  case False
  moreover have "set js = set js'" using assms by (rule mset_eq_setD)
  ultimately have ok: "\<not> (\<exists>j \<in> set js. \<not> is_break j \<and> job_xml rp j = Inl OSError)"
    "\<not> (\<exists>j \<in> set js'. \<not> is_break j \<and> job_xml rp j = Inl OSError)" by simp_all
  obtain s where s: "for_each (collect_job rp opt tests) js summary_init = Inr s"
    using collect_succeeds [OF ok(1)] .
  obtain s' where s': "for_each (collect_job rp opt tests) js' summary_init = Inr s'"
    using collect_succeeds [OF ok(2)] .
  note t = collect_tallied [OF s] collect_tallied [OF s']
  note w = with_status_mset [OF assms]
  have len: "length (with_status st js) = length (with_status st js')" for st
    using arg_cong [OF w, of size] by simp
  have names: "mset (map f (with_status st js)) = mset (map f (with_status st js'))" for f :: "job \<Rightarrow> string" and st
    using w by simp
  have lines: "summary_lines tests s = summary_lines tests s'"
    using t by (simp add: summary_lines_def tallied_def len name_list_perm [OF names] summary_init_def)
  have "passed_tests s = passed_tests s' \<and> skipped_tests s = skipped_tests s'"
    using t by (simp add: tallied_def len summary_init_def)
  then show ?thesis unfolding verdict_def s s' res_bind.simps lines by simp
qed

text \<open>C5. The threads cannot be seen in the outcome: whatever the schedule and the number of workers, when
  an uninterrupted run is over the summary printed, the lists of names in it, the success of the run
  and also the exception for a missing results file are those of running the jobs one after another
  in the order they were dispatched.\<close>

theorem summary_schedule_independent:
  assumes "PYTHON c \<noteq> []" and "\<forall>j \<in> set work. \<not> is_break j" and "0 < p"
    and "(pool_step c opt shell ^^ n) (pool_init work p) s" and "stuck c opt shell s" and "\<not> thread_exit s"
  shows "verdict rp opt tests (results s) = verdict rp opt tests (map (job_result c opt shell) work)"
proof -
  note init = pool_init_ok [OF assms(1,2), of p]
  have ok: "pool_ok c work p s" using pool.run_inv [OF init assms(4)] .
  have calm: "calm c opt shell work s" using calm_run [OF assms(4) calm_init [OF assms(2)] assms(1)] .
  show ?thesis by (rule verdict_perm) (rule calm_results [OF assms(5) ok assms(3) calm assms(6)])
qed

theorem summary_schedule_independent_witness:
  "let s = demo_pool [] [] [] Exited 0 [demo_job]; shell = \<lambda>_ _. (0, True, True, 1)
   in (pool_step demo_config demo_opt shell ^^ 7) (pool_init [demo_job] 1) s
     \<and> verdict demo_reporting demo_opt 1 (results s)
       = verdict demo_reporting demo_opt 1 (map (job_result demo_config demo_opt shell) [demo_job])"
proof -
  let ?s = "demo_pool [] [] [] Exited 0 [demo_job]" and ?shell = "\<lambda>_ _. (0, True, True, 1)"
  have 1: "PYTHON demo_config \<noteq> []" "\<forall>j \<in> set [demo_job]. \<not> is_break j" "(0::nat) < 1" "\<not> thread_exit ?s"
    by (simp_all add: demo_config_def demo_job_def new_job_def set_is_skip_def demo_pool_def)
  have "verdict demo_reporting demo_opt 1 (results ?s)
      = verdict demo_reporting demo_opt 1 (map (job_result demo_config demo_opt ?shell) [demo_job])"
    by (rule summary_schedule_independent [OF 1(1-3) demo_run demo_stuck 1(4)])
  with demo_run show ?thesis by (simp only: Let_def simp_thms)
qed

text \<open>The progress count leaves the valgrind errors out, so after one of them it stays behind.\<close>

lemma progress_without_valgrind:
  assumes "for_each (collect_job rp opt tests) js summary_init = Inr s"
  shows "progress s + valgrind_errors s = length (filter (\<lambda>j. \<not> is_break j) js)"
proof -
  have "length (with_status PASS js) + length (with_status FAIL js) + length (with_status SKIP js) +
      length (with_status CRASH js) + length (with_status VALGR js) = length (filter (\<lambda>j. \<not> is_break j) js)"
    by (induction js) (auto simp: job_status_def)
  then show ?thesis
    using collect_tallied [OF assms] by (simp add: tallied_def progress_def summary_init_def)
qed

end
