(* ===== verification/Test_Main.thy ===== *)
theory Test_Main
  imports Test_Setup Test_Summary
begin

text \<open>
  \<^verbatim>\<open>test.py\<close> from its start to its exit status: \<^verbatim>\<open>main\<close> and \<^verbatim>\<open>run_tests\<close> composed of the
  start of \<open>Test_Setup\<close>, the dispatching of \<open>Test_Dispatch\<close>, the threads of \<open>Test_Workers\<close> and the summary of
  \<open>Test_Summary\<close>.
\<close>

section \<open>The whole program\<close>

definition output_dir :: "string \<Rightarrow> string" where
  "output_dir date_and_time = path_join ''testpy-output'' date_and_time"

text \<open>The choice of the suites and what is dispatched for a number of workers, and the jobs of it without the break jobs.\<close>

definition queue_of :: "surroundings \<Rightarrow> test_options \<Rightarrow> string \<Rightarrow> prepared \<Rightarrow> int \<Rightarrow> int + dispatch result" where
  "queue_of sr opt date_and_time su threads =
     (let c = config.truncate (conf su) in
      case suite_list c sr opt of
        Inl n \<Rightarrow> Inl n
      | Inr suites \<Rightarrow>
          Inr (dispatch_all c sr opt (output_dir date_and_time) (programs su) (scripts su) (examples su) suites threads))"

definition work_of :: "surroundings \<Rightarrow> test_options \<Rightarrow> string \<Rightarrow> prepared \<Rightarrow> int \<Rightarrow> stop + job list" where
  "work_of sr opt date_and_time su threads =
     (case queue_of sr opt date_and_time su threads of
        Inl n \<Rightarrow> Inl (SysExit n)
      | Inr (Inl e) \<Rightarrow> Inl (Raised e)
      | Inr (Inr d) \<Rightarrow> Inr (take (jobs d) (input_queue d)))"

text \<open>
  How the program stops in a state of the pool, if it does: when the main thread has queued everything, has all the results
  it waits for and has joined every worker.  An exception of the summary is raised before the workers are joined, but the
  interpreter waits for them as well, since they are no daemons.
\<close>

definition conclude :: "config \<Rightarrow> test_options \<Rightarrow> reporting \<Rightarrow> nat \<Rightarrow> pool \<Rightarrow> stop option" where
  "conclude c opt rp tests s =
     (if main_done s
      then Some (case finish_tests c opt rp tests (results s) of Inl e \<Rightarrow> Raised e | Inr r \<Rightarrow> Returned (Some (exit_code r)))
      else None)"

text \<open>
  A run of the program, whether it was interrupted, and how it stops.  After the start the jobs go through the worker
  threads, whose moves are not determined.  When the dispatching raises, the break jobs are never queued: with workers the
  program does not end, since they wait for jobs for ever.
\<close>

inductive test_py ::
    "'g machine \<Rightarrow> main_options \<Rightarrow> test_options \<Rightarrow> surroundings \<Rightarrow> reporting \<Rightarrow> (string \<Rightarrow> string \<Rightarrow> outcome)
       \<Rightarrow> string \<Rightarrow> int \<Rightarrow> (string, string) dict \<Rightarrow> 'g \<Rightarrow> bool \<Rightarrow> stop \<Rightarrow> bool"
  for m mo opt sr rp shell now threads env g where
  stopped: "test_py m mo opt sr rp shell now threads env g False e"
    if "prepare m mo opt env g = Inl (e, out)"
| no_suite: "test_py m mo opt sr rp shell now threads env g False (SysExit n)"
    if "prepare m mo opt env g = Inr su" "queue_of sr opt now su threads = Inl n"
| broken: "test_py m mo opt sr rp shell now threads env g False (Raised e)"
    if "prepare m mo opt env g = Inr su" "queue_of sr opt now su threads = Inr (Inl e)" "threads \<le> 0"
| tested: "test_py m mo opt sr rp shell now threads env g (thread_exit s) e"
    if "prepare m mo opt env g = Inr su" "queue_of sr opt now su threads = Inr (Inr d)"
      "(pool_step (config.truncate (conf su)) opt shell ^^ n) (pool_start (input_queue d) (jobs d) (nat threads)) s"
      "conclude (config.truncate (conf su)) opt rp (total_tests d) s = Some e"

inductive_cases test_pyE: "test_py m mo opt sr rp shell now threads env g i e"

text \<open>What is queued is the work and a break job for every worker.\<close>

lemma queue_of_start:
  assumes "queue_of sr opt now su threads = Inr (Inr d)"
  obtains work where "work_of sr opt now su threads = Inr work" "\<forall>j \<in> set work. \<not> is_break j"
    "input_queue d = work @ replicate (nat threads) break_job" "jobs d = length work" "total_tests d = length work"
    "pool_start (input_queue d) (jobs d) (nat threads) = pool_init work (nat threads)"
proof -
  obtain suites where "dispatch_all (config.truncate (conf su)) sr opt (output_dir now) (programs su) (scripts su) (examples su)
      suites threads = Inr d"
    using assms by (auto simp: queue_of_def Let_def split: sum.splits)
  from dispatch_queue_shape [OF this] obtain work where w: "input_queue d = work @ replicate (nat threads) break_job"
      "\<not> (\<exists>j \<in> set work. is_break j)" "jobs d = length work" "total_tests d = length work" by blast
  moreover have "work_of sr opt now su threads = Inr work" using assms w by (simp add: work_of_def)
  ultimately show ?thesis using that pool_start_init by metis
qed

lemma work_of_queue: "work_of sr opt now su threads = Inr work \<Longrightarrow> \<exists>d. queue_of sr opt now su threads = Inr (Inr d)"
  by (auto simp: work_of_def split: sum.splits)

section \<open>Results are what running the jobs gives\<close>

lemma work_no_breaks: "work_of sr opt now su threads = Inr work \<Longrightarrow> \<forall>j \<in> set work. \<not> is_break j"
  using work_of_queue [of sr opt now su threads work] by (auto elim!: queue_of_start)

text \<open>Whether a job passes: it is to be skipped, or running it returns 0.\<close>

definition passes :: "config \<Rightarrow> test_options \<Rightarrow> (string \<Rightarrow> string \<Rightarrow> outcome) \<Rightarrow> job \<Rightarrow> bool" where
  "passes c opt shell j \<longleftrightarrow> is_skip j \<or> (\<exists>r. run_job c opt shell j = Inr r \<and> returncode r = 0)"

lemma run_job_of_core:
  assumes "run_job c opt shell j = Inr r"
  shows "\<exists>r'. run_job c opt shell (core j) = Inr r' \<and> returncode r' = returncode r"
  using assms
  by (auto simp: run_job_def res_simps core_def set_elapsed_time_def set_returncode_def split: prod.splits if_splits)

lemma run_job_core_back:
  assumes "run_job c opt shell (core j) = Inr r"
  shows "\<exists>r'. run_job c opt shell j = Inr r' \<and> returncode r' = returncode r"
  using assms
  by (auto simp: run_job_def res_simps core_def set_elapsed_time_def set_returncode_def split: prod.splits if_splits)

lemma passes_core: "passes c opt shell (core j) \<longleftrightarrow> passes c opt shell j"
proof -
  have "is_skip (core j) = is_skip j" by (simp add: core_def)
  then show ?thesis unfolding passes_def using run_job_of_core run_job_core_back by metis
qed

text \<open>A result that was not handed back as a break is a job to be skipped or what running a job gave.\<close>

definition genuine :: "config \<Rightarrow> test_options \<Rightarrow> (string \<Rightarrow> string \<Rightarrow> outcome) \<Rightarrow> job \<Rightarrow> bool" where
  "genuine c opt shell r \<longleftrightarrow> is_break r \<or> is_skip r \<or> (\<exists>j. run_job c opt shell j = Inr r)"

definition results_genuine :: "config \<Rightarrow> test_options \<Rightarrow> (string \<Rightarrow> string \<Rightarrow> outcome) \<Rightarrow> pool \<Rightarrow> bool" where
  "results_genuine c opt shell s \<longleftrightarrow> (\<forall>r \<in> set (results s) \<union> set (outq s). genuine c opt shell r)"

lemma results_genuine_step:
  "results_genuine c opt shell s \<Longrightarrow> pool_step c opt shell s t \<Longrightarrow> results_genuine c opt shell t"
  by (erule pool_stepE) (auto simp: results_genuine_def genuine_def set_is_break_def)

interpretation results: step_system "pool_step c opt shell" "results_genuine c opt shell" for c opt shell
  by unfold_locales (rule results_genuine_step)

lemma genuine_passes:
  assumes "genuine c opt shell r" and "\<not> is_break r" and "is_skip r \<or> returncode r = 0"
  shows "passes c opt shell r"
proof (cases "is_skip r")
  case True
  then show ?thesis by (simp add: passes_def)
next
  case False
  with assms obtain j where j: "run_job c opt shell j = Inr r" "returncode r = 0" by (auto simp: genuine_def)
  then have "passes c opt shell j" by (auto simp: passes_def)
  moreover have "core r = core j" using run_job_core [OF j(1)] by simp
  ultimately show ?thesis using passes_core by metis
qed


section \<open>The exit status\<close>

lemma results_init: "results_genuine c opt shell (pool_init work p)"
  by (simp add: results_genuine_def pool_init_def)

lemma passed_all:
  assumes "PYTHON c \<noteq> []" and "\<forall>j \<in> set work. \<not> is_break j" and "0 < p"
    and "(pool_step c opt shell ^^ n) (pool_init work p) s" and "stuck c opt shell s"
    and "\<forall>r \<in> set (results s). \<not> is_break r \<and> (is_skip r \<or> returncode r = 0)"
  shows "\<forall>j \<in> set work. passes c opt shell j"
proof
  fix j assume j: "j \<in> set work"
  have ok: "pool_ok c work p s" using pool.run_inv [OF pool_init_ok [OF assms(1,2), of p] assms(4)] .
  have "image_mset core (mset (results s)) = image_mset core (mset work)" using stuck_complete [OF assms(5) ok assms(3)] by blast
  from arg_cong [OF this, of set_mset] have "core ` set (results s) = core ` set work" by simp
  then obtain r where r: "r \<in> set (results s)" "core r = core j" using j by (metis image_iff)
  have "genuine c opt shell r"
    using results.run_inv [OF results_init assms(4)] r(1) by (simp add: results_genuine_def)
  then have "passes c opt shell r" using genuine_passes assms(6) r(1) by blast
  then show "passes c opt shell j" using passes_core r(2) by metis
qed

text \<open>Without an interrupt, the other way round too.\<close>

lemma job_result_passes:
  assumes "PYTHON c \<noteq> []" and "\<not> is_break j"
  shows "\<not> is_break (job_result c opt shell j) \<and>
    (is_skip (job_result c opt shell j) \<or> returncode (job_result c opt shell j) = 0 \<longleftrightarrow> passes c opt shell j)"
proof (cases "is_skip j")
  case True
  then show ?thesis using assms(2) by (simp add: job_result_def passes_def)
next
  case False
  obtain r where r: "run_job c opt shell j = Inr r" using run_job_defined [OF assms(1)] by blast
  note core = run_job_core [OF r]
  have "is_skip (core r) = is_skip (core j)" using core by simp
  then have "\<not> is_skip r" using False by (simp add: core_def)
  with core False r assms(2) show ?thesis by (simp add: job_result_def passes_def)
qed

lemma calm_passed:
  assumes "PYTHON c \<noteq> []" and "\<forall>j \<in> set work. \<not> is_break j" and "0 < p"
    and "(pool_step c opt shell ^^ n) (pool_init work p) s" and "stuck c opt shell s" and "\<not> thread_exit s"
  shows "(\<forall>r \<in> set (results s). \<not> is_break r \<and> (is_skip r \<or> returncode r = 0)) \<longleftrightarrow> (\<forall>j \<in> set work. passes c opt shell j)"
proof -
  have ok: "pool_ok c work p s" using pool.run_inv [OF pool_init_ok [OF assms(1,2), of p] assms(4)] .
  have "mset (results s) = mset (map (job_result c opt shell) work)"
    by (rule calm_results [OF assms(5) ok assms(3) calm_run [OF assms(4) calm_init [OF assms(2)] assms(1)] assms(6)])
  from mset_eq_setD [OF this] have "set (results s) = job_result c opt shell ` set work" by simp
  then show ?thesis using job_result_passes [OF assms(1)] assms(2) by simp
qed

text \<open>Without workers there is only the run on no jobs.\<close>

lemma no_threads:
  assumes "(pool_step c opt shell ^^ n) (pool_init work 0) s" and "waiting s = 0"
  shows "work = [] \<and> results s = []"
  using pool_without_workers [OF assms(1)] assms(2) by simp

lemma results_counted:
  assumes "PYTHON c \<noteq> []" and "\<forall>j \<in> set work. \<not> is_break j"
    and "(pool_step c opt shell ^^ n) (pool_init work p) s" and "waiting s = 0"
  shows "length (results s) = length work"
  using pool.run_inv [OF pool_init_ok [OF assms(1,2), of p] assms(3)] assms(4) by (simp add: pool_ok_def)

lemma python_truncate [simp]: "PYTHON (config.truncate gl) = PYTHON gl"
  by (simp add: config.truncate_def)

lemma tested_passed:
  assumes "PYTHON c \<noteq> []" and "\<forall>j \<in> set work. \<not> is_break j"
    and "(pool_step c opt shell ^^ n) (pool_init work p) s" and "main_done s"
    and "finish_tests c opt rp (length work) (results s) = Inr r"
  shows "exit_code r = 0 \<Longrightarrow> \<forall>j \<in> set work. passes c opt shell j"
    and "\<not> thread_exit s \<Longrightarrow> exit_code r = (if \<forall>j \<in> set work. passes c opt shell j then 0 else 1)"
proof -
  have waiting: "waiting s = 0" using assms(4) by (simp add: main_done_def)
  have stuck: "stuck c opt shell s" if "0 < p"
    using main_done_stuck [OF assms(4) pool.run_inv [OF pool_init_ok [OF assms(1,2)] assms(3)] that] .
  note len = results_counted [OF assms(1-3) waiting]
  have code: "exit_code r = (if \<forall>j \<in> set (results s). \<not> is_break j \<and> (is_skip j \<or> returncode j = 0) then 0 else 1)"
    using exit_code_zero assms(5) len by metis
  show "\<forall>j \<in> set work. passes c opt shell j" if "exit_code r = 0"
  proof (cases p)
    case 0
    then show ?thesis using no_threads assms(3) waiting by (metis empty_iff list.set(1))
  next
    case (Suc q)
    then show ?thesis using passed_all [OF assms(1,2) _ assms(3) stuck] that code by (auto split: if_splits)
  qed
  show "exit_code r = (if \<forall>j \<in> set work. passes c opt shell j then 0 else 1)" if "\<not> thread_exit s"
  proof (cases p)
    case 0
    then have "work = [] \<and> results s = []" using no_threads assms(3) waiting by blast
    then show ?thesis using code by simp
  next
    case (Suc q)
    then show ?thesis using calm_passed [OF assms(1,2) _ assms(3) stuck that] code by simp
  qed
qed


lemma queue_of_stops: "queue_of sr opt now su threads = Inl n \<Longrightarrow> n = 2"
  by (auto simp: queue_of_def Let_def split: sum.splits dest!: suite_list_stops)

lemma finish_code: "finish_tests c opt rp tests js = Inr r \<Longrightarrow> exit_code r = 0 \<or> exit_code r = 1"
  by (auto simp: finish_tests_def res_simps split: if_splits)

section \<open>A run of the program\<close>

text \<open>A machine on which everything is in order; its test-runner knows one suite, which needs the missing NSC.\<close>

definition demo_globals :: globals where
  "demo_globals = config.extend demo_config
     \<lparr>EXAMPLE_DIRECTORIES = [], NS3_ENABLED_MODULES = [''ns3-core''], NS3_ENABLED_CONTRIBUTED_MODULES = []\<rparr>"

definition demo_machine :: "unit machine" where
  "demo_machine =
     \<lparr>file_lines = map_of
        [(''.lock-waf_linux_build'', [dir_line ''out'' ''/b/build'', dir_line ''top'' ''/b'']), (''/b/build/c4che/_cache.py'', []),
         (''/b/build/build-status.py'', [''ns3_runnable_programs = []'', ''ns3_runnable_scripts = []''])],
      platform = ''linux'', eval_str = (\<lambda>s. Inr (butlast (tl s))), eval_strs = (\<lambda>_. Inr []), run_line = (\<lambda>_. Inr),
      shown_value = (\<lambda>_ _. Inl NameError), names_of = (\<lambda>_. demo_globals), wait_for = (\<lambda>_. 0), runner = (\<lambda>_. (0, [])),
      example_files = \<lparr>path_exists = (\<lambda>_. False), relpath = (\<lambda>p _. p), cpp_examples = (\<lambda>_. []), python_examples = (\<lambda>_. [])\<rparr>\<rparr>"

definition demo_main :: main_options where
  "demo_main = \<lparr>verbose = False, nowaf = False, kinds = False, list_tests = False\<rparr>"

definition one_suite :: surroundings where
  "one_suite = \<lparr>output_of = (\<lambda>cmd. if suffix ''performance'' cmd then [] else ''ns3-tcp-cwnd''),
     fnmatch_filter = (\<lambda>names _. names), eval_cond = (\<lambda>_. Inr False), abspath = id, getcwd = ''/b''\<rparr>"

definition demo_prepared :: prepared where
  "demo_prepared = \<lparr>conf = demo_globals,
     environ = [(''PYTHONPATH'', ''/b/build/bindings/python''), (''LD_LIBRARY_PATH'', []), (''NS_LOG'', [])],
     programs = [], scripts = [], examples = ([], [], [])\<rparr>"

lemma demo_prepare: "prepare demo_machine demo_main demo_opt [] () = Inr demo_prepared"
  by code_simp

lemma demo_work:
  obtains j where "work_of one_suite demo_opt ''now'' demo_prepared 1 = Inr [j]" "is_skip j" "\<not> is_break j"
proof -
  have "case work_of one_suite demo_opt ''now'' demo_prepared 1 of Inr [j] \<Rightarrow> is_skip j \<and> \<not> is_break j | _ \<Rightarrow> False"
    by code_simp
  then show ?thesis using that by (auto split: sum.splits list.splits)
qed


lemma demo_truncate: "config.truncate (conf demo_prepared) = demo_config"
  by (simp add: demo_prepared_def demo_globals_def config.truncate_def config.extend_def demo_config_def)

lemma demo_finish:
  assumes "is_skip j"
  obtains r where "finish_tests demo_config demo_opt demo_reporting (length [j]) [j] = Inr r"
proof -
  have "\<not> (\<exists>i \<in> set [j]. \<not> is_break i \<and> job_xml demo_reporting i = Inl OSError)"
    using assms by (simp add: job_xml_def suite_xml_def)
  from collect_succeeds [OF this] obtain s where s: "for_each (collect_job demo_reporting demo_opt (length [j])) [j] summary_init = Inr s" .
  obtain out fs where w: "write_reports demo_reporting (xml_written s @ [''</Results>'' @ [NL]]) = Inr (out, fs)"
    by (simp add: write_reports_def write_report_def demo_reporting_def)
  show ?thesis using that unfolding finish_tests_def s res_bind.simps w by simp
qed

lemma demo_python: "PYTHON (conf demo_prepared) \<noteq> []"
  by (simp add: demo_prepared_def demo_globals_def config.extend_def demo_config_def)

text \<open>Its run is not interrupted and ends with the code 0.\<close>

lemma demo_test_py:
  "test_py demo_machine demo_main demo_opt one_suite demo_reporting (\<lambda>_ _. (0, True, True, 1)) ''now'' 1 [] () False (Returned (Some 0))"
proof -
  obtain j where j: "work_of one_suite demo_opt ''now'' demo_prepared 1 = Inr [j]" "is_skip j" "\<not> is_break j" by (rule demo_work)
  obtain r where r: "finish_tests demo_config demo_opt demo_reporting (length [j]) [j] = Inr r" using demo_finish [OF j(2)] .
  let ?s = "demo_pool [] [] [] Exited 0 [j]" and ?shell = "\<lambda>_ _. (0, True, True, 1)"
  have s: "thread_exit ?s = False" "waiting ?s = 0" "results ?s = [j]" by (simp_all add: demo_pool_def)
  obtain d where d: "queue_of one_suite demo_opt ''now'' demo_prepared 1 = Inr (Inr d)" using work_of_queue [OF j(1)] by blast
  then obtain work where "work_of one_suite demo_opt ''now'' demo_prepared 1 = Inr work" "total_tests d = length work"
      "pool_start (input_queue d) (jobs d) (nat 1) = pool_init work (nat 1)"
    by (rule queue_of_start)
  then have start: "total_tests d = length [j]" "pool_start (input_queue d) (jobs d) (nat 1) = pool_init [j] (nat 1)" using j(1) by simp_all
  have init: "(pool_step (config.truncate (conf demo_prepared)) demo_opt ?shell ^^ 7) (pool_init [j] (nat 1)) ?s"
    using one_job_run [OF j(3,2)] by simp
  have run: "(pool_step (config.truncate (conf demo_prepared)) demo_opt ?shell ^^ 7) (pool_start (input_queue d) (jobs d) (nat 1)) ?s"
    using init by (simp only: start)
  have fin: "finish_tests (config.truncate (conf demo_prepared)) demo_opt demo_reporting (length [j]) (results ?s) = Inr r"
    using r by (simp only: demo_truncate s)
  have breaks: "\<forall>i \<in> set [j]. \<not> is_break i" and py: "PYTHON (config.truncate (conf demo_prepared)) \<noteq> []"
    using j(3) demo_python by simp_all
  have all_done: "main_done ?s" by (simp add: main_done_def demo_pool_def)
  have "\<not> thread_exit ?s" using s(1) by simp
  from tested_passed(2) [OF py breaks init all_done fin this] have "exit_code r = 0" using j(2) by (simp add: passes_def)
  then have "conclude (config.truncate (conf demo_prepared)) demo_opt demo_reporting (total_tests d) ?s = Some (Returned (Some 0))"
    using all_done fin by (simp add: conclude_def start)
  from test_py.tested [OF demo_prepare d run this] show ?thesis by (simp only: s)
qed

text \<open>What the end of the tests says of the jobs.\<close>

lemma concluded:
  assumes "PYTHON (config.truncate (conf su)) \<noteq> []" and "queue_of sr opt now su threads = Inr (Inr d)"
    and "work_of sr opt now su threads = Inr work"
    and "(pool_step (config.truncate (conf su)) opt shell ^^ n) (pool_start (input_queue d) (jobs d) (nat threads)) s"
    and "conclude (config.truncate (conf su)) opt rp (total_tests d) s = Some e"
  shows "process_status e = 0 \<Longrightarrow> \<forall>j \<in> set work. passes (config.truncate (conf su)) opt shell j"
    and "e = Returned (Some code) \<Longrightarrow> \<not> thread_exit s \<Longrightarrow>
      code = (if \<forall>j \<in> set work. passes (config.truncate (conf su)) opt shell j then 0 else 1)"
proof -
  obtain work' where w: "work_of sr opt now su threads = Inr work'" "\<forall>j \<in> set work'. \<not> is_break j"
      "total_tests d = length work'" "pool_start (input_queue d) (jobs d) (nat threads) = pool_init work' (nat threads)"
    using queue_of_start [OF assms(2)] by metis
  then have eq: "work' = work" using assms(3) by simp
  note start = w(2-4) [unfolded eq]
  have all_done: "main_done s" using assms(5) by (simp add: conclude_def split: if_splits)
  note passed = tested_passed [OF assms(1) start(1) assms(4) [unfolded start(3)] all_done]
  note e = assms(5) [unfolded conclude_def start(2)]
  show "\<forall>j \<in> set work. passes (config.truncate (conf su)) opt shell j" if p0: "process_status e = 0"
  proof -
    obtain r where r: "finish_tests (config.truncate (conf su)) opt rp (length work) (results s) = Inr r" "e = Returned (Some (exit_code r))"
      using e all_done p0 by (auto split: sum.splits)
    then have "exit_code r = 0" using p0 finish_code [OF r(1)] by fastforce
    then show ?thesis using passed(1) [OF r(1)] by blast
  qed
  show "code = (if \<forall>j \<in> set work. passes (config.truncate (conf su)) opt shell j then 0 else 1)"
    if code: "e = Returned (Some code)" and calm: "\<not> thread_exit s"
  proof -
    obtain r where r: "finish_tests (config.truncate (conf su)) opt rp (length work) (results s) = Inr r" "code = exit_code r"
      using e all_done code by (auto split: sum.splits)
    then show ?thesis using passed(2) [OF r(1) calm] r(2) by simp
  qed
qed

section \<open>The program as a whole\<close>

text \<open>C6. An exit status of zero is never given in vain: whatever the machine does, whichever way the threads move and
  whether or not the run is interrupted, when \<^verbatim>\<open>test.py\<close> ends with status 0 and was not asked for a list, it got as far
  as the tests, and every job dispatched is one to be skipped or one that returns 0 when it is run.  That the return code
  of a child process is less than 256 in size is documented of \<^verbatim>\<open>subprocess\<close>.\<close>

theorem zero_status_means_passed:
  assumes "test_py m mo opt sr rp shell now threads env g interrupted e" and "process_status e = 0"
    and "\<not> kinds mo" and "\<not> list_tests mo"
    and "\<And>g. PYTHON (names_of m g) \<noteq> []" and "\<And>cmd. \<bar>wait_for m cmd\<bar> < 256"
  shows "\<exists>su work. prepare m mo opt env g = Inr su \<and> work_of sr opt now su threads = Inr work \<and>
     (\<forall>j \<in> set work. passes (config.truncate (conf su)) opt shell j)"
  using assms(1)
proof cases
  case (stopped out)
  then show ?thesis using prepare_stops [OF stopped(2) assms(6,2)] assms(3,4) by blast
next
  case (no_suite su n)
  then have "e = SysExit 2" using queue_of_stops by blast
  then show ?thesis using assms(2) by simp
next
  case (broken su err)
  then show ?thesis using assms(2) by simp
next
  case (tested su d n s)
  obtain g' where "PYTHON (conf su) = PYTHON (names_of m g')" using prepare_python [OF tested(2)] by blast
  then have py: "PYTHON (config.truncate (conf su)) \<noteq> []" using assms(5) [of g'] by simp
  obtain work where "work_of sr opt now su threads = Inr work" using queue_of_start [OF tested(3)] by metis
  with concluded(1) [OF py tested(3) this tested(4,5) assms(2)] tested(2) show ?thesis by blast
qed

theorem zero_status_means_passed_witness:
  "\<exists>e. test_py demo_machine demo_main demo_opt one_suite demo_reporting (\<lambda>_ _. (0, True, True, 1)) ''now'' 1 [] () False e \<and>
     process_status e = 0 \<and>
     (\<exists>su work. prepare demo_machine demo_main demo_opt [] () = Inr su \<and> work_of one_suite demo_opt ''now'' su 1 = Inr work \<and>
       (\<forall>j \<in> set work. passes (config.truncate (conf su)) demo_opt (\<lambda>_ _. (0, True, True, 1)) j))"
proof -
  have no_list: "\<not> kinds demo_main" "\<not> list_tests demo_main" by (simp_all add: demo_main_def)
  have machine: "PYTHON (names_of demo_machine g) \<noteq> []" "\<bar>wait_for demo_machine cmd\<bar> < 256" for g cmd
    by (simp_all add: demo_machine_def demo_globals_def config.extend_def demo_config_def)
  have zero: "process_status (Returned (Some 0)) = 0" by simp
  from zero_status_means_passed [OF demo_test_py zero no_list machine] demo_test_py zero show ?thesis by blast
qed

text \<open>C8. The verdict: when the tests were run without an interrupt and a summary was given, the code returned is 0 exactly when
  every job dispatched is to be skipped or returns 0, and 1 otherwise; neither the schedule nor the number of workers
  matters.\<close>

theorem verdict_of_jobs:
  assumes "prepare m mo opt env g = Inr su" and "work_of sr opt now su threads = Inr work" and "PYTHON (conf su) \<noteq> []"
    and "test_py m mo opt sr rp shell now threads env g False (Returned (Some code))"
  shows "code = (if \<forall>j \<in> set work. passes (config.truncate (conf su)) opt shell j then 0 else 1)"
  using assms(4)
proof cases
  case (tested su' d n s)
  then have eq: "su' = su" using assms(1) by simp
  have "PYTHON (config.truncate (conf su)) \<noteq> []" using assms(3) by simp
  from concluded(2) [OF this tested(3) [unfolded eq] assms(2) tested(4,5) [unfolded eq] refl] tested(1) show ?thesis by simp
qed (use assms(1) work_of_queue [OF assms(2)] in auto)

theorem verdict_of_jobs_witness:
  "\<exists>j. work_of one_suite demo_opt ''now'' demo_prepared 1 = Inr [j] \<and> passes demo_config demo_opt (\<lambda>_ _. (0, True, True, 1)) j"
proof -
  obtain j where j: "work_of one_suite demo_opt ''now'' demo_prepared 1 = Inr [j]" by (rule demo_work)
  from verdict_of_jobs [OF demo_prepare j demo_python demo_test_py]
  have "passes demo_config demo_opt (\<lambda>_ _. (0, True, True, 1)) j" by (simp add: demo_truncate split: if_splits)
  with j show ?thesis by blast
qed

text \<open>C7. Whether the program comes to an end, once it has jobs dispatched and an interpreter for the Python examples.  With a
  worker, or nothing to run, it does so whatever the threads do and whenever an interrupt comes: no run of the threads has
  more than five steps per job and worker plus one, and when none of them can move any more the main thread has all results,
  has joined every worker, and the program stops.  With no worker, as a negative limit on the jobs asks for, and something
  to run, no behaviour of the threads ever leads to an end.\<close>

theorem ends_with_workers:
  assumes "prepare m mo opt env g = Inr su" and "queue_of sr opt now su threads = Inr (Inr d)" and "PYTHON (conf su) \<noteq> []"
    and "c = config.truncate (conf su)" and "start = pool_start (input_queue d) (jobs d) (nat threads)"
  shows "if 0 < threads \<or> jobs d = 0
    then \<forall>n s. (pool_step c opt shell ^^ n) start s \<longrightarrow> n \<le> 5 * (jobs d + nat threads) + 1 \<and>
      (stuck c opt shell s \<longrightarrow> (\<exists>e. conclude c opt rp (total_tests d) s = Some e \<and>
        test_py m mo opt sr rp shell now threads env g (thread_exit s) e))
    else \<not> (\<exists>i e. test_py m mo opt sr rp shell now threads env g i e)"
proof -
  obtain work where w: "\<forall>j \<in> set work. \<not> is_break j" "jobs d = length work" "total_tests d = length work"
      "start = pool_init work (nat threads)"
    using queue_of_start [OF assms(2)] assms(5) by metis
  have "PYTHON c \<noteq> []" using assms(3,4) by simp
  note ok = pool_init_ok [OF this w(1), of "nat threads"]
  show ?thesis
  proof (cases "0 < threads \<or> jobs d = 0")
    case True
    have "n \<le> 5 * (jobs d + nat threads) + 1 \<and> (stuck c opt shell s \<longrightarrow> (\<exists>e. conclude c opt rp (total_tests d) s = Some e \<and>
        test_py m mo opt sr rp shell now threads env g (thread_exit s) e))"
      if run: "(pool_step c opt shell ^^ n) start s" for n s
    proof (intro conjI impI)
      have "n + pool_rank s \<le> pool_rank start" using pool.run_bound [OF ok] run w(4) by simp
      also have "pool_rank start = 5 * (jobs d + nat threads) + 1"
        by (simp add: w pool_rank_def pool_init_def sum_list_replicate)
      finally show "n \<le> 5 * (jobs d + nat threads) + 1" by simp
      assume stuck: "stuck c opt shell s"
      have "main_done s"
      proof (cases "0 < threads")
        case True
        then show ?thesis using stuck_main_done [OF stuck pool.run_inv [OF ok run [unfolded w(4)]]] by simp
      next
        case False
        then have "work = []" "nat threads = 0" using \<open>0 < threads \<or> jobs d = 0\<close> w(2) by simp_all
        then show ?thesis
          using pool_without_workers [of n c opt shell work s] stuck_queued [OF stuck] run w(4) by (simp add: main_done_def)
      qed
      then obtain e where e: "conclude c opt rp (total_tests d) s = Some e" by (simp add: conclude_def)
      from test_py.tested [OF assms(1,2) run [unfolded assms(4,5)] e [unfolded assms(4)]] e
      show "\<exists>e. conclude c opt rp (total_tests d) s = Some e \<and> test_py m mo opt sr rp shell now threads env g (thread_exit s) e" by blast
    qed
    with True show ?thesis by simp
  next
    case False
    have "\<not> test_py m mo opt sr rp shell now threads env g i e" for i e
    proof
      assume "test_py m mo opt sr rp shell now threads env g i e"
      then obtain n s where run: "(pool_step c opt shell ^^ n) start s" "conclude c opt rp (total_tests d) s = Some e"
        using assms by (cases rule: test_py.cases) auto
      have "waiting s = 0" using run(2) by (simp add: conclude_def main_done_def split: if_splits)
      then have "jobs d = 0" using pool_without_workers [of n c opt shell work s] run(1) w(2,4) False by simp
      with False show False by simp
    qed
    with False show ?thesis by auto
  qed
qed

theorem ends_with_workers_witness:
  "\<exists>n s e d. queue_of one_suite demo_opt ''now'' demo_prepared 1 = Inr (Inr d) \<and>
     (pool_step demo_config demo_opt (\<lambda>_ _. (0, True, True, 1)) ^^ n) (pool_start (input_queue d) (jobs d) 1) s \<and> n \<le> 5 * (jobs d + 1) + 1 \<and>
     test_py demo_machine demo_main demo_opt one_suite demo_reporting (\<lambda>_ _. (0, True, True, 1)) ''now'' 1 [] () (thread_exit s) e"
proof -
  let ?shell = "\<lambda>_ _. (0, True, True, 1)"
  obtain j where j: "work_of one_suite demo_opt ''now'' demo_prepared 1 = Inr [j]" "is_skip j" "\<not> is_break j" by (rule demo_work)
  obtain d where d: "queue_of one_suite demo_opt ''now'' demo_prepared 1 = Inr (Inr d)" using work_of_queue [OF j(1)] by blast
  then obtain work where "work_of one_suite demo_opt ''now'' demo_prepared 1 = Inr work"
      "pool_start (input_queue d) (jobs d) (nat 1) = pool_init work (nat 1)"
    by (rule queue_of_start)
  then have "pool_start (input_queue d) (jobs d) (nat 1) = pool_init [j] 1" using j(1) by simp
  with one_job_run [OF j(3,2)]
  have run: "(pool_step demo_config demo_opt ?shell ^^ 7) (pool_start (input_queue d) (jobs d) (nat 1)) (demo_pool [] [] [] Exited 0 [j])"
    by (simp only:)
  have n: "nat 1 = 1" "(0 :: int) < 1 \<or> jobs d = 0" by simp_all
  note all = ends_with_workers [OF demo_prepare d demo_python demo_truncate [symmetric] refl, of ?shell demo_reporting,
    simplified if_P [OF n(2)], rule_format, OF run]
  then obtain e where "test_py demo_machine demo_main demo_opt one_suite demo_reporting ?shell ''now'' 1 [] ()
      (thread_exit (demo_pool [] [] [] Exited 0 [j])) e"
    using one_job_stuck by blast
  moreover have "7 \<le> 5 * (jobs d + 1) + 1" using all by (simp only: n)
  ultimately show ?thesis using d run unfolding n(1) by blast
qed

end
