(* ===== verification/Flow_Stats.thy ===== *)
theory Flow_Stats
  imports Test_Summary
begin

text \<open>
  \<^verbatim>\<open>flow-monitor/examples/flowmon-parse-results.py\<close>: the XML file of the flow monitor read into flows with their bit rates,
  delays and losses, and the report printed of them.  The file is an element tree; numbers of Python's type \<^verbatim>\<open>float\<close> are
  computed exactly, and what \<^verbatim>\<open>float\<close> makes of a text is a parameter.
\<close>

section \<open>Numbers and attributes\<close>

definition py_int :: "string \<Rightarrow> int result" where
  "py_int s =
     (let t = py_strip s; d = (if t \<noteq> [] \<and> hd t \<in> {CHR ''+'', CHR ''-''} then tl t else t)
      in if d \<noteq> [] \<and> list_all is_digit d
         then Inr (if t \<noteq> [] \<and> hd t = CHR ''-'' then - int (read_nat d) else int (read_nat d))
         else Inl ValueError)"

text \<open>\<^verbatim>\<open>long\<close> of Python 2 also takes a letter \<^verbatim>\<open>L\<close> behind the digits.\<close>

definition py_long :: "string \<Rightarrow> int result" where
  "py_long s =
     (let t = py_strip s
      in if t \<noteq> [] \<and> last t \<in> {CHR ''L'', CHR ''l''} \<and> butlast t \<noteq> [] \<and> is_digit (last (butlast t)) then py_int (butlast t) else py_int t)"

text \<open>\<^verbatim>\<open>f(el.get(name))\<close>: all the functions used raise \<^verbatim>\<open>TypeError\<close> for a missing attribute.\<close>

definition of_attr :: "(string \<Rightarrow> 'a result) \<Rightarrow> string \<Rightarrow> xml \<Rightarrow> 'a result" where
  "of_attr f name x = (case map_of (attrs x) name of None \<Rightarrow> Inl TypeError | Some s \<Rightarrow> f s)"

text \<open>A time without its last four characters, which are \<^verbatim>\<open>.0ns\<close>.\<close>

definition cut_unit :: "string \<Rightarrow> string" where
  "cut_unit s = slice_to s (- 4)"

definition long_time :: "string \<Rightarrow> int result" where
  "long_time s = py_long (cut_unit s)"

definition parse_time_ns :: "string option \<Rightarrow> int result" where
  "parse_time_ns tm =
     (case tm of None \<Rightarrow> Inl AttributeError
      | Some s \<Rightarrow> if suffix ''ns'' s then long_time s else Inl ValueError)"

section \<open>Flows\<close>

record five_tuple =
  source_address :: "string option"
  destination_address :: "string option"
  source_port :: int
  destination_port :: int
  protocol :: int

record probe_stats =
  probe_id :: int
  packets :: int
  probe_bytes :: int
  delay_from_first_probe :: rat

record flow =
  flow_id :: int
  rx_duration :: rat
  hop_count :: rat
  delay_mean :: "rat option"
  packet_size_mean :: "rat option"
  rx_bitrate :: "rat option"
  tx_bitrate :: "rat option"
  packet_loss_ratio :: "rat option"
  interruptions :: "(rat \<times> rat \<times> int) list option"
  five_tuple :: "five_tuple option"
  probe_stats_unsorted :: "probe_stats list"

definition read_five_tuple :: "xml \<Rightarrow> five_tuple result" where
  "read_five_tuple x =
     res_bind (of_attr py_int ''sourcePort'' x) (\<lambda>sp.
     res_bind (of_attr py_int ''destinationPort'' x) (\<lambda>dp.
     res_bind (of_attr py_int ''protocol'' x) (\<lambda>p.
     Inr \<lparr>source_address = map_of (attrs x) ''sourceAddress'', destination_address = map_of (attrs x) ''destinationAddress'',
          source_port = sp, destination_port = dp, protocol = p\<rparr>)))"

definition read_histogram :: "(string \<Rightarrow> rat result) \<Rightarrow> xml \<Rightarrow> (rat \<times> rat \<times> int) list result" where
  "read_histogram float_of x =
     for_each (\<lambda>b bins. res_bind (of_attr float_of ''start'' b) (\<lambda>s. res_bind (of_attr float_of ''width'' b) (\<lambda>w.
       res_bind (of_attr py_int ''count'' b) (\<lambda>c. Inr (bins @ [(s, w, c)]))))) (find_all ''bin'' x) []"

text \<open>The number of seconds between two times in nanoseconds.\<close>

definition duration_of :: "string \<Rightarrow> string \<Rightarrow> xml \<Rightarrow> rat result" where
  "duration_of last_name first_name x =
     res_bind (of_attr long_time last_name x) (\<lambda>b. res_bind (of_attr long_time first_name x) (\<lambda>a.
       Inr (of_int (b - a) / 1000000000)))"

text \<open>\<^verbatim>\<open>long(bytes) * 8 / duration\<close>, or nothing for a duration that is not positive.\<close>

definition bitrate_of :: "string \<Rightarrow> rat \<Rightarrow> xml \<Rightarrow> rat option result" where
  "bitrate_of name d x =
     (if 0 < d then res_bind (of_attr py_long name x) (\<lambda>b. Inr (Some (of_int (b * 8) / d))) else Inr None)"

text \<open>A mean over the packets received, or nothing without one.\<close>

definition mean_of :: "(string \<Rightarrow> rat result) \<Rightarrow> string \<Rightarrow> rat \<Rightarrow> int \<Rightarrow> xml \<Rightarrow> rat option result" where
  "mean_of float_of name unit n x =
     (if n \<noteq> 0 then res_bind (of_attr float_of name x) (\<lambda>v. Inr (Some (v / of_int n * unit))) else Inr None)"

definition loss_of :: "rat \<Rightarrow> int \<Rightarrow> rat option result" where
  "loss_of lost rx =
     (if rx = 0 then Inr None else if of_int rx + lost = 0 then Inl ZeroDivisionError else Inr (Some (lost / (of_int rx + lost))))"

definition read_flow :: "(string \<Rightarrow> rat result) \<Rightarrow> xml \<Rightarrow> flow result" where
  "read_flow float_of x =
     res_bind (of_attr py_int ''flowId'' x) (\<lambda>i.
     res_bind (of_attr py_long ''rxPackets'' x) (\<lambda>rx.
     res_bind (of_attr py_long ''txPackets'' x) (\<lambda>tx.
     res_bind (duration_of ''timeLastTxPacket'' ''timeFirstTxPacket'' x) (\<lambda>tx_d.
     res_bind (duration_of ''timeLastRxPacket'' ''timeFirstRxPacket'' x) (\<lambda>rx_d.
     res_bind (if rx \<noteq> 0 then res_bind (of_attr float_of ''timesForwarded'' x) (\<lambda>v. Inr (v / of_int rx + 1)) else Inr (- 1000)) (\<lambda>hops.
     res_bind (mean_of (\<lambda>s. float_of (cut_unit s)) ''delaySum'' (1 / 1000000000) rx x) (\<lambda>delay.
     res_bind (mean_of float_of ''rxBytes'' 1 rx x) (\<lambda>psize.
     res_bind (bitrate_of ''rxBytes'' rx_d x) (\<lambda>rx_rate.
     res_bind (bitrate_of ''txBytes'' tx_d x) (\<lambda>tx_rate.
     res_bind (of_attr float_of ''lostPackets'' x) (\<lambda>lost.
     res_bind (loss_of lost rx) (\<lambda>loss.
     res_bind (case find_sub ''flowInterruptionsHistogram'' x of None \<Rightarrow> Inr None
               | Some h \<Rightarrow> res_bind (read_histogram float_of h) (\<lambda>bins. Inr (Some bins))) (\<lambda>hist.
     Inr \<lparr>flow_id = i, rx_duration = rx_d, hop_count = hops, delay_mean = delay, packet_size_mean = psize, rx_bitrate = rx_rate,
          tx_bitrate = tx_rate, packet_loss_ratio = loss, interruptions = hist, five_tuple = None,
          probe_stats_unsorted = []\<rparr>)))))))))))))"

text \<open>What a flow shows for its losses: a share between 0 and 1 when anything was received; a flow of which nothing arrived has no
  loss ratio at all, however many packets it lost, and neither delay nor receive rate of its own.\<close>

theorem loss_shown:
  assumes "read_flow float_of x = Inr f" and "of_attr py_long ''rxPackets'' x = Inr rx"
    and "of_attr float_of ''lostPackets'' x = Inr lost" and "0 \<le> rx" and "0 \<le> lost"
  shows "if rx = 0 then packet_loss_ratio f = None \<and> delay_mean f = None \<and> hop_count f = - 1000
     else \<exists>r. packet_loss_ratio f = Some r \<and> 0 \<le> r \<and> r < 1 \<and> (r = 0 \<longleftrightarrow> lost = 0) \<and> r * (of_int rx + lost) = lost"
proof (cases "rx = 0")
  case True
  then show ?thesis using assms(1,2) by (auto simp: read_flow_def res_simps loss_of_def mean_of_def)
next
  case False
  with assms(4) have rx: "(0 :: rat) < of_int rx" by simp
  then have pos: "0 < of_int rx + lost" using assms(5) by linarith
  have "loss_of lost rx = Inr (packet_loss_ratio f)" using assms(1-3) by (auto simp: read_flow_def res_simps)
  then have r: "packet_loss_ratio f = Some (lost / (of_int rx + lost))" using False pos by (auto simp: loss_of_def split: if_splits)
  have "0 \<le> lost / (of_int rx + lost)" using assms(5) pos by simp
  moreover have "lost / (of_int rx + lost) < 1" using pos rx by simp
  moreover have "lost / (of_int rx + lost) * (of_int rx + lost) = lost" using pos by simp
  moreover have "lost / (of_int rx + lost) = 0 \<longleftrightarrow> lost = 0" using pos by simp
  ultimately show ?thesis using r False by auto
qed


section \<open>A simulation\<close>

text \<open>\<^verbatim>\<open>flow_map\<close>: the flow an identifier stands for, by its place among the flows, whose objects it shares; the last one of an
  identifier is kept.\<close>

definition flow_map :: "flow list \<Rightarrow> (int, nat) dict" where
  "flow_map fs = fold (\<lambda>(k, f). AList.update (flow_id f) k) (zip [0..<length fs] fs) []"

definition find_path :: "string \<Rightarrow> string \<Rightarrow> xml \<Rightarrow> xml list" where
  "find_path outer inner x = concat (map (find_all inner) (find_all outer x))"

definition on_flow :: "(int, nat) dict \<Rightarrow> int \<Rightarrow> (flow \<Rightarrow> flow) \<Rightarrow> flow list \<Rightarrow> flow list result" where
  "on_flow m i g fs = (case map_of m i of None \<Rightarrow> Inl KeyError | Some k \<Rightarrow> Inr (fs[k := g (fs ! k)]))"

definition set_five_tuple :: "five_tuple \<Rightarrow> flow \<Rightarrow> flow" where
  "set_five_tuple t f = f\<lparr>five_tuple := Some t\<rparr>"

definition add_probe_stats :: "probe_stats \<Rightarrow> flow \<Rightarrow> flow" where
  "add_probe_stats s f = f\<lparr>probe_stats_unsorted := probe_stats_unsorted f @ [s]\<rparr>"

definition classify_flow :: "(int, nat) dict \<Rightarrow> xml \<Rightarrow> flow list \<Rightarrow> flow list result" where
  "classify_flow m x fs =
     res_bind (of_attr py_int ''flowId'' x) (\<lambda>i. res_bind (read_five_tuple x) (\<lambda>t. on_flow m i (set_five_tuple t) fs))"

definition read_probe_stats :: "int \<Rightarrow> xml \<Rightarrow> (int \<times> probe_stats) result" where
  "read_probe_stats probe x =
     res_bind (of_attr py_int ''flowId'' x) (\<lambda>i.
     res_bind (of_attr py_int ''packets'' x) (\<lambda>n.
     res_bind (of_attr py_long ''bytes'' x) (\<lambda>b.
     res_bind (if 0 < n then res_bind (parse_time_ns (map_of (attrs x) ''delayFromFirstProbeSum'')) (\<lambda>d. Inr (of_int d / of_int n))
               else Inr 0) (\<lambda>d.
     Inr (i, \<lparr>probe_id = probe, packets = n, probe_bytes = b, delay_from_first_probe = d\<rparr>)))))"

definition add_probe :: "(int, nat) dict \<Rightarrow> xml \<Rightarrow> flow list \<Rightarrow> flow list result" where
  "add_probe m x fs =
     res_bind (of_attr py_int ''index'' x) (\<lambda>probe.
       for_each (\<lambda>st fs. res_bind (read_probe_stats probe st) (\<lambda>(i, s). on_flow m i (add_probe_stats s) fs))
         (find_all ''FlowStats'' x) fs)"

text \<open>\<^verbatim>\<open>FlowClassifier_el, = ...\<close> takes exactly one element.\<close>

definition read_simulation :: "(string \<Rightarrow> rat result) \<Rightarrow> xml \<Rightarrow> flow list result" where
  "read_simulation float_of x =
     (case find_all ''Ipv4FlowClassifier'' x of
        [classifier] \<Rightarrow>
          res_bind (for_each (\<lambda>e fs. res_bind (read_flow float_of e) (\<lambda>f. Inr (fs @ [f]))) (find_path ''FlowStats'' ''Flow'' x) []) (\<lambda>fs.
          res_bind (for_each (classify_flow (flow_map fs)) (find_all ''Flow'' classifier) fs) (\<lambda>fs'.
          for_each (add_probe (flow_map fs)) (find_path ''FlowProbes'' ''FlowProbe'' x) fs'))
      | _ \<Rightarrow> Inl ValueError)"

section \<open>The report\<close>

text \<open>\<^verbatim>\<open>%.2f\<close>\<close>

definition show_fixed2 :: "rat \<Rightarrow> string" where
  "show_fixed2 t =
     (let n = nat (half_even (abs t * 100)); m = n mod 100
      in (if t < 0 then ''-'' else []) @ show_nat (n div 100) @ ''.'' @ [digit_char (m div 10), digit_char (m mod 10)])"

definition shown_rate :: "string \<Rightarrow> string \<Rightarrow> rat \<Rightarrow> rat option \<Rightarrow> string" where
  "shown_rate label unit k r =
     [TAB] @ label @ '': '' @ (case r of None \<Rightarrow> ''None'' | Some v \<Rightarrow> show_fixed2 (v * k) @ unit) @ [NL]"

definition protocol_name :: "int \<Rightarrow> string result" where
  "protocol_name p = (if p = 6 then Inr ''TCP'' else if p = 17 then Inr ''UDP'' else Inl KeyError)"

definition flow_lines :: "flow \<Rightarrow> string list result" where
  "flow_lines f =
     (case five_tuple f of None \<Rightarrow> Inl AttributeError
      | Some t \<Rightarrow> res_bind (protocol_name (protocol t)) (\<lambda>proto.
          Inr [''FlowID: '' @ show_int (flow_id f) @ '' ('' @ proto @ '' '' @ shown (source_address t) @ ''/'' @ show_int (source_port t) @
                 '' --> '' @ shown (destination_address t) @ ''/'' @ show_int (destination_port t) @ '')'' @ [NL],
               shown_rate ''TX bitrate'' '' kbit/s'' (1 / 1000) (tx_bitrate f),
               shown_rate ''RX bitrate'' '' kbit/s'' (1 / 1000) (rx_bitrate f),
               shown_rate ''Mean Delay'' '' ms'' 1000 (delay_mean f),
               shown_rate ''Packet Loss Ratio'' '' %'' 100 (packet_loss_ratio f)]))"

text \<open>The events of \<^verbatim>\<open>iterparse\<close>, and the elements that end at the outermost level and are named \<^verbatim>\<open>FlowMonitor\<close>.\<close>

datatype parse_event = Start_elem xml | End_elem xml

fun events_of :: "xml \<Rightarrow> parse_event list" where
  "events_of (Elem t as c xs) = [Start_elem (Elem t as c xs)] @ concat (map events_of xs) @ [End_elem (Elem t as c xs)]"

declare events_of.simps [simp del]

fun find_simulations :: "int \<Rightarrow> parse_event list \<Rightarrow> xml list" where
  "find_simulations level [] = []"
| "find_simulations level (Start_elem x # es) = find_simulations (level + 1) es"
| "find_simulations level (End_elem x # es) =
     (if level - 1 = 0 \<and> tag x = ''FlowMonitor'' then x # find_simulations (level - 1) es else find_simulations (level - 1) es)"

text \<open>All files are read before anything of them is printed.\<close>

definition flow_report :: "(string \<Rightarrow> rat result) \<Rightarrow> xml \<Rightarrow> string list result" where
  "flow_report float_of document =
     res_bind (for_each (\<lambda>x sims. res_bind (read_simulation float_of x) (\<lambda>fs. Inr (sims @ [fs])))
                 (find_simulations 0 (events_of document)) []) (\<lambda>sims.
     for_each (\<lambda>f out. res_bind (flow_lines f) (\<lambda>ls. Inr (out @ ls))) (concat sims) [])"

section \<open>What is reported\<close>

lemma find_inside:
  "0 < level \<Longrightarrow> find_simulations level (events_of x @ es) = find_simulations level es"
proof (induction x arbitrary: level es)
  case (Elem t as c xs)
  have "find_simulations l (concat (map events_of xs) @ es') = find_simulations l es'" if "0 < l" for l es'
    using that Elem.IH
  proof (induction xs)
    case (Cons y ys)
    then show ?case by simp
  qed simp
  with Elem.prems show ?case by (simp add: events_of.simps)
qed

lemma find_contents: "0 < level \<Longrightarrow> find_simulations level (concat (map events_of xs) @ es) = find_simulations level es"
  by (induction xs) (simp_all add: find_inside)

text \<open>A document holds one simulation when its outermost element is a flow monitor, and none otherwise: flow monitors further inside
  are not looked at.\<close>

theorem one_simulation: "find_simulations 0 (events_of x) = (if tag x = ''FlowMonitor'' then [x] else [])"
  by (cases x) (simp add: events_of.simps find_contents)


text \<open>A loop that appends what it reads.\<close>

lemma for_each_read:
  "for_each (\<lambda>e fs. res_bind (f e) (\<lambda>y. Inr (fs @ [y]))) xs acc = Inr ys \<longleftrightarrow> (\<exists>zs. ys = acc @ zs \<and> list_all2 (\<lambda>e y. f e = Inr y) xs zs)"
proof -
  have "map f xs = map Inr zs \<longleftrightarrow> list_all2 (\<lambda>e y. f e = Inr y) xs zs" for zs
    by (auto simp: list_eq_iff_nth_eq list_all2_conv_all_nth)
  then show ?thesis unfolding for_each_collect by auto
qed

definition ids_ok :: "(int, nat) dict \<Rightarrow> flow list \<Rightarrow> bool" where
  "ids_ok m fs \<longleftrightarrow> (\<forall>i k. map_of m i = Some k \<longleftrightarrow> k < length fs \<and> flow_id (fs ! k) = i)"

lemma flow_map_step:
  "distinct (map flow_id fs) \<Longrightarrow> length ks = length fs \<Longrightarrow>
   map_of (fold (\<lambda>(k, f). AList.update (flow_id f) k) (zip ks fs) d) i = Some k \<longleftrightarrow>
     (\<exists>n < length fs. flow_id (fs ! n) = i \<and> ks ! n = k) \<or> i \<notin> flow_id ` set fs \<and> map_of d i = Some k"
proof (induction fs arbitrary: ks d)
  case Nil
  then show ?case by simp
next
  case (Cons f fs)
  then obtain k0 ks' where ks: "ks = k0 # ks'" "length ks' = length fs" by (cases ks) auto
  have new: "flow_id f \<notin> flow_id ` set fs" and dist: "distinct (map flow_id fs)" using Cons.prems(1) by auto
  have "(\<exists>n < length (f # fs). flow_id ((f # fs) ! n) = i \<and> ks ! n = k)
      \<longleftrightarrow> flow_id f = i \<and> k0 = k \<or> (\<exists>n < length fs. flow_id (fs ! n) = i \<and> ks' ! n = k)"
    unfolding ks by (auto simp: less_Suc_eq_0_disj)
  moreover have "\<not> (\<exists>n < length fs. flow_id (fs ! n) = flow_id f \<and> ks' ! n = k)" using new by (metis image_eqI nth_mem)
  ultimately show ?case using Cons.IH [OF dist ks(2), of "AList.update (flow_id f) k0 d"] new unfolding ks by auto
qed

lemma flow_map_ok: "distinct (map flow_id fs) \<Longrightarrow> ids_ok (flow_map fs) fs"
  unfolding ids_ok_def flow_map_def using flow_map_step [of fs "[0..<length fs]" "[]"] by auto

text \<open>What stays of a flow when it is classified and probed.\<close>

definition bare :: "flow \<Rightarrow> flow" where
  "bare f = f\<lparr>five_tuple := None, probe_stats_unsorted := []\<rparr>"

lemma bare_simps [simp]: "bare (set_five_tuple t f) = bare f" "bare (add_probe_stats s f) = bare f"
  "five_tuple (add_probe_stats s f) = five_tuple f" "five_tuple (set_five_tuple t f) = Some t"
  by (simp_all add: bare_def set_five_tuple_def add_probe_stats_def)

lemma bare_fields: "flow_id (bare f) = flow_id f" "five_tuple (bare f) = None"
  by (simp_all add: bare_def)

lemma bare_id: "bare f = bare f' \<Longrightarrow> flow_id f = flow_id f'"
  using bare_fields(1) by metis

lemma map_update_same: "k < length xs \<longrightarrow> f y = f (xs ! k) \<Longrightarrow> map f (xs[k := y]) = map f xs"
  by (cases "k < length xs") (simp_all add: map_update list_update_same_conv list_update_beyond)

lemma on_flow_bare:
  assumes "on_flow m i g fs = Inr fs'" and "\<And>f. bare (g f) = bare f"
  shows "map bare fs' = map bare fs"
  using assms by (auto simp: on_flow_def intro!: map_update_same split: option.splits)

lemma map_bare_ids:
  assumes "map bare fs' = map bare fs"
  shows "map flow_id fs' = map flow_id fs"
proof -
  have "map flow_id xs = map flow_id (map bare xs)" for xs by (simp add: bare_fields)
  from this [of fs'] this [of fs] assms show ?thesis by simp
qed

lemma ids_ok_bare: "ids_ok m fs \<Longrightarrow> map bare fs' = map bare fs \<Longrightarrow> ids_ok m fs'"
  using map_bare_ids [of fs' fs] unfolding ids_ok_def by (metis length_map nth_map)

lemma classify_flow_step:
  assumes "classify_flow m x fs = Inr fs'" and "ids_ok m fs"
  shows "map bare fs' = map bare fs \<and>
    (\<forall>k < length fs. five_tuple (fs' ! k) \<noteq> None \<longleftrightarrow> five_tuple (fs ! k) \<noteq> None \<or> of_attr py_int ''flowId'' x = Inr (flow_id (fs ! k)))"
proof -
  obtain i t where i: "of_attr py_int ''flowId'' x = Inr i" and on: "on_flow m i (set_five_tuple t) fs = Inr fs'"
    using assms(1) by (auto simp: classify_flow_def res_simps)
  obtain j where j: "map_of m i = Some j" "fs' = fs[j := set_five_tuple t (fs ! j)]"
    using on by (auto simp: on_flow_def split: option.splits)
  have place: "map_of m i = Some k \<longleftrightarrow> k < length fs \<and> flow_id (fs ! k) = i" for k
    using assms(2) by (simp add: ids_ok_def)
  have "j < length fs" "flow_id (fs ! j) = i" and only: "\<And>k. k < length fs \<Longrightarrow> flow_id (fs ! k) = i \<Longrightarrow> k = j"
    using place [of j] j(1) place by (simp, simp, metis option.inject)
  moreover have "map bare fs' = map bare fs" by (rule on_flow_bare [OF on]) simp
  moreover have "five_tuple (fs' ! k) \<noteq> None \<longleftrightarrow> five_tuple (fs ! k) \<noteq> None \<or> i = flow_id (fs ! k)" if k: "k < length fs" for k
  proof (cases "k = j")
    case True
    then show ?thesis using calculation(1,2) j(2) by simp
  next
    case False
    then have "flow_id (fs ! k) \<noteq> i" using only [OF k] by blast
    then show ?thesis using False j(2) by simp
  qed
  ultimately show ?thesis by (simp add: i)
qed

lemma classify_flows:
  assumes "for_each (classify_flow m) xs fs = Inr fs'" and "ids_ok m fs"
  shows "map bare fs' = map bare fs \<and>
    (\<forall>k < length fs. five_tuple (fs' ! k) \<noteq> None \<longleftrightarrow>
       five_tuple (fs ! k) \<noteq> None \<or> (\<exists>x \<in> set xs. of_attr py_int ''flowId'' x = Inr (flow_id (fs ! k))))"
  using assms
proof (induction xs arbitrary: fs)
  case (Cons x xs)
  then obtain u where u: "classify_flow m x fs = Inr u" "for_each (classify_flow m) xs u = Inr fs'" by (auto simp: res_simps)
  note step = classify_flow_step [OF u(1) Cons.prems(2)]
  then have same: "map flow_id u = map flow_id fs" by (intro map_bare_ids) simp
  then have len: "length u = length fs" using map_eq_imp_length_eq by blast
  have "flow_id (u ! k) = flow_id (fs ! k)" if "k < length fs" for k using same len that by (metis nth_map)
  with Cons.IH [OF u(2) ids_ok_bare [OF Cons.prems(2)]] step len show ?case by auto
qed simp

lemma add_probe_same:
  assumes "add_probe m x fs = Inr fs'"
  shows "map bare fs' = map bare fs \<and> map five_tuple fs' = map five_tuple fs"
proof -
  obtain probe where "for_each (\<lambda>st fs. res_bind (read_probe_stats probe st) (\<lambda>(i, s). on_flow m i (add_probe_stats s) fs))
      (find_all ''FlowStats'' x) fs = Inr fs'" using assms by (auto simp: add_probe_def res_simps)
  then show ?thesis
  proof (rule for_each_inv [where P = "\<lambda>gs. map bare gs = map bare fs \<and> map five_tuple gs = map five_tuple fs"])
    fix st gs gs'
    assume same: "map bare gs = map bare fs \<and> map five_tuple gs = map five_tuple fs"
      and "res_bind (read_probe_stats probe st) (\<lambda>(i, s). on_flow m i (add_probe_stats s) gs) = Inr gs'"
    then obtain i s where on: "on_flow m i (add_probe_stats s) gs = Inr gs'" by (auto simp: res_simps)
    have "map bare gs' = map bare gs" by (rule on_flow_bare [OF on]) simp
    moreover have "map five_tuple gs' = map five_tuple gs"
      using on by (auto simp: on_flow_def intro!: map_update_same split: option.splits)
    ultimately show "map bare gs' = map bare fs \<and> map five_tuple gs' = map five_tuple fs" using same by simp
  qed simp
qed

lemma read_flow_bare: "read_flow float_of x = Inr f \<Longrightarrow> bare f = f"
  by (auto simp: read_flow_def res_simps bare_def)

text \<open>What is read of a simulation whose flows have different identifiers: one flow for every element, in order, with the numbers of
  that element, and exactly those flows have addresses whose identifier the classifier lists.  A flow without addresses is what
  makes the report fail.\<close>

theorem simulation_read:
  assumes "read_simulation float_of x = Inr fs" and "find_all ''Ipv4FlowClassifier'' x = [classifier]"
    and "distinct (map flow_id fs)"
  shows "list_all2 (\<lambda>e f. read_flow float_of e = Inr (bare f)) (find_path ''FlowStats'' ''Flow'' x) fs \<and>
    (\<forall>f \<in> set fs. five_tuple f \<noteq> None \<longleftrightarrow> (\<exists>e \<in> set (find_all ''Flow'' classifier). of_attr py_int ''flowId'' e = Inr (flow_id f)))"
proof -
  obtain gs hs where
    gs: "for_each (\<lambda>e fs. res_bind (read_flow float_of e) (\<lambda>f. Inr (fs @ [f]))) (find_path ''FlowStats'' ''Flow'' x) [] = Inr gs"
    and hs: "for_each (classify_flow (flow_map gs)) (find_all ''Flow'' classifier) gs = Inr hs"
    and fs: "for_each (add_probe (flow_map gs)) (find_path ''FlowProbes'' ''FlowProbe'' x) hs = Inr fs"
    using assms(1,2) by (auto simp: read_simulation_def res_simps)
  have read: "list_all2 (\<lambda>e f. read_flow float_of e = Inr f) (find_path ''FlowStats'' ''Flow'' x) gs"
    using gs unfolding for_each_read by simp
  then have plain: "\<forall>g \<in> set gs. bare g = g" using read_flow_bare by (fastforce simp: list_all2_conv_all_nth in_set_conv_nth)
  have probed: "map bare fs = map bare hs \<and> map five_tuple fs = map five_tuple hs"
    using fs by (rule for_each_inv [where P = "\<lambda>us. map bare us = map bare hs \<and> map five_tuple us = map five_tuple hs"])
      (auto dest: add_probe_same)
  have same: "map bare hs = map bare gs"
    using hs by (rule for_each_inv [where P = "\<lambda>us. map bare us = map bare gs"]) (auto simp: classify_flow_def res_simps dest: on_flow_bare)
  then have fg: "map bare fs = gs" using probed plain by (simp add: map_idI)
  have "map flow_id fs = map flow_id gs" using probed same by (intro map_bare_ids) simp
  then have "ids_ok (flow_map gs) gs" using assms(3) flow_map_ok by metis
  note classified = classify_flows [OF hs this]
  have len: "length fs = length gs" "length hs = length gs" using fg probed by (auto dest: map_eq_imp_length_eq)
  have tuple: "five_tuple (fs ! k) \<noteq> None \<longleftrightarrow> (\<exists>e \<in> set (find_all ''Flow'' classifier). of_attr py_int ''flowId'' e = Inr (flow_id (fs ! k)))"
    if k: "k < length fs" for k
  proof -
    have "five_tuple (fs ! k) = five_tuple (hs ! k)" using probed k len by (metis nth_map)
    moreover have "bare (fs ! k) = gs ! k" using fg k by (metis nth_map)
    then have "flow_id (gs ! k) = flow_id (fs ! k)" "five_tuple (gs ! k) = None" by (metis bare_fields)+
    ultimately show ?thesis using classified k len by simp
  qed
  have "list_all2 (\<lambda>e f. read_flow float_of e = Inr (bare f)) (find_path ''FlowStats'' ''Flow'' x) fs"
    using read fg by (auto simp: list_all2_conv_all_nth)
  moreover have "five_tuple f \<noteq> None \<longleftrightarrow> (\<exists>e \<in> set (find_all ''Flow'' classifier). of_attr py_int ''flowId'' e = Inr (flow_id f))"
    if f: "f \<in> set fs" for f
  proof -
    obtain k where "k < length fs" "f = fs ! k" using f by (metis in_set_conv_nth)
    then show ?thesis using tuple by simp
  qed
  ultimately show ?thesis by simp
qed

lemma flow_lines_iff: "(\<exists>ls. flow_lines f = Inr ls) \<longleftrightarrow> (\<exists>t. five_tuple f = Some t \<and> protocol t \<in> {6, 17})"
  by (auto simp: flow_lines_def protocol_name_def split: option.splits)

text \<open>The report of one simulation comes out exactly when every flow has addresses and is one of TCP or UDP; then it has five lines
  for each flow.\<close>

theorem report_complete:
  assumes "tag x = ''FlowMonitor''" and "read_simulation float_of x = Inr fs"
  shows "(\<exists>out. flow_report float_of x = Inr out) \<longleftrightarrow> (\<forall>f \<in> set fs. \<exists>t. five_tuple f = Some t \<and> protocol t \<in> {6, 17})"
    and "flow_report float_of x = Inr out \<Longrightarrow> length out = 5 * length fs"
proof -
  have report: "flow_report float_of x = for_each (\<lambda>f out. res_bind (flow_lines f) (\<lambda>ls. Inr (out @ ls))) fs []"
    using assms by (simp add: flow_report_def one_simulation)
  have ends: "(\<exists>out. for_each (\<lambda>f out. res_bind (flow_lines f) (\<lambda>ls. Inr (out @ ls))) fs acc = Inr out) \<longleftrightarrow>
      (\<forall>f \<in> set fs. \<exists>ls. flow_lines f = Inr ls)" for acc
  proof (induction fs arbitrary: acc)
    case (Cons f fs)
    then show ?case by (cases "flow_lines f") auto
  qed simp
  show "(\<exists>out. flow_report float_of x = Inr out) \<longleftrightarrow> (\<forall>f \<in> set fs. \<exists>t. five_tuple f = Some t \<and> protocol t \<in> {6, 17})"
    unfolding report ends flow_lines_iff by simp
  have "length out = length acc + 5 * length fs"
    if "for_each (\<lambda>f out. res_bind (flow_lines f) (\<lambda>ls. Inr (out @ ls))) fs acc = Inr out" for acc
    using that
  proof (induction fs arbitrary: acc)
    case (Cons f fs)
    then obtain ls where ls: "flow_lines f = Inr ls" "for_each (\<lambda>f out. res_bind (flow_lines f) (\<lambda>ls. Inr (out @ ls))) fs (acc @ ls) = Inr out"
      by (auto simp: res_simps)
    have "length ls = 5" using ls(1) by (auto simp: flow_lines_def res_simps split: option.splits)
    with Cons.IH [OF ls(2)] show ?case by simp
  qed simp
  then show "length out = 5 * length fs" if "flow_report float_of x = Inr out" using that report by fastforce
qed

end
