(* ===== verification/Grid_Data.thy ===== *)
theory Grid_Data
  imports Py_Prelude
begin

text \<open>
  The data of \<^verbatim>\<open>utils/grid.py\<close>, a viewer for time lines: ranges and events on time lines, their
  searches, bounds and colours.  The program is Python 2 (PyGTK, \<^verbatim>\<open>has_key\<close>, \<^verbatim>\<open>sort\<close> with a
  comparison), so \<^verbatim>\<open>/\<close> on integers is floor division.
\<close>

section \<open>Ranges and events\<close>

record data_range =
  rstart :: int
  rend :: int
  rvalue :: string

record 'v event =
  ev_at :: int
  evalue :: 'v

record timeline_ranges =
  tr_name :: string
  ranges :: "data_range list"

record 'v timeline_events =
  te_name :: string
  events :: "'v event list"

definition new_ranges :: "string \<Rightarrow> timeline_ranges" where
  "new_ranges n = \<lparr>tr_name = n, ranges = []\<rparr>"

definition new_events :: "string \<Rightarrow> 'v timeline_events" where
  "new_events n = \<lparr>te_name = n, events = []\<rparr>"

definition add_range :: "data_range \<Rightarrow> timeline_ranges \<Rightarrow> timeline_ranges" where
  "add_range r t = t\<lparr>ranges := ranges t @ [r]\<rparr>"

definition add_event :: "'v event \<Rightarrow> 'v timeline_events \<Rightarrow> 'v timeline_events" where
  "add_event e t = t\<lparr>events := events t @ [e]\<rparr>"

text \<open>\<^verbatim>\<open>list.sort\<close> is stable.\<close>

definition sort_ranges :: "timeline_ranges \<Rightarrow> timeline_ranges" where
  "sort_ranges t = t\<lparr>ranges := sort_key rstart (ranges t)\<rparr>"

definition sort_events :: "'v timeline_events \<Rightarrow> 'v timeline_events" where
  "sort_events t = t\<lparr>events := sort_key ev_at (events t)\<rparr>"

section \<open>Searching ranges\<close>

text \<open>The loop of \<^verbatim>\<open>TimelineDataRange.__search\<close>; the ends of the window may be fractions.\<close>

function search_ranges :: "data_range list \<Rightarrow> rat \<Rightarrow> int \<Rightarrow> int \<Rightarrow> int" where
  "search_ranges rs key l u =
     (if l \<le> u
      then let i = (l + u) div 2; r = rs ! nat i
           in if of_int (rstart r) \<le> key \<and> key \<le> of_int (rend r) then i
              else if key < of_int (rstart r) then search_ranges rs key l (i - 1)
              else search_ranges rs key (i + 1) u
      else - 1)"
  by pat_completeness auto
termination
  by (relation "measure (\<lambda>(rs, key, l, u). nat (u - l + 1))") auto

declare search_ranges.simps [simp del]

definition search_range :: "data_range list \<Rightarrow> rat \<Rightarrow> int" where
  "search_range rs key = search_ranges rs key 0 (int (length rs) - 1)"

definition get_ranges :: "rat \<Rightarrow> rat \<Rightarrow> timeline_ranges \<Rightarrow> data_range list" where
  "get_ranges start end t =
     (let rs = ranges t; s = search_range rs start; e = search_range rs end
      in if s = - 1 \<and> e = - 1 then []
         else if s = - 1 then py_slice rs 0 (e + 1)
         else if e = - 1 then py_slice rs s (int (length rs))
         else py_slice rs s (e + 1))"

definition get_ranges_bounds :: "rat \<Rightarrow> rat \<Rightarrow> timeline_ranges \<Rightarrow> int \<times> int" where
  "get_ranges_bounds start end t =
     (let rs = ranges t; s = search_range rs start; e = search_range rs end
      in if s = - 1 \<and> e = - 1 then (0, 0)
         else if s = - 1 then (0, e + 1)
         else if e = - 1 then (s, int (length rs))
         else (s, e + 1))"

text \<open>Ranges that do not overlap, in the order of time: what the search relies on.\<close>

definition in_order :: "data_range list \<Rightarrow> bool" where
  "in_order rs \<longleftrightarrow> (\<forall>r \<in> set rs. rstart r \<le> rend r) \<and> sorted_wrt (\<lambda>r r'. rend r < rstart r') rs"

definition holds_key :: "rat \<Rightarrow> data_range \<Rightarrow> bool" where
  "holds_key key r \<longleftrightarrow> of_int (rstart r) \<le> key \<and> key \<le> of_int (rend r)"

lemma search_ranges_found:
  assumes "0 \<le> l" and "u < int (length rs)"
  shows "search_ranges rs key l u = - 1 \<or>
    l \<le> search_ranges rs key l u \<and> search_ranges rs key l u \<le> u \<and> holds_key key (rs ! nat (search_ranges rs key l u))"
  using assms
proof (induction rs key l u rule: search_ranges.induct)
  case (1 rs key l u)
  let ?i = "(l + u) div 2"
  show ?case
  proof (cases "l \<le> u")
    case True
    then have i: "l \<le> ?i" "?i \<le> u" by linarith+
    consider "holds_key key (rs ! nat ?i)" | "\<not> holds_key key (rs ! nat ?i)" "key < of_int (rstart (rs ! nat ?i))"
      | "\<not> holds_key key (rs ! nat ?i)" "\<not> key < of_int (rstart (rs ! nat ?i))" by blast
    then show ?thesis
    proof cases
      case 1
      with True i show ?thesis by (subst (1 2 3 4) search_ranges.simps) (simp add: holds_key_def Let_def)
    next
      case 2
      then have "search_ranges rs key l u = search_ranges rs key l (?i - 1)"
        using True by (subst search_ranges.simps) (simp add: holds_key_def Let_def)
      with "1.IH"(1) [OF True refl refl] 2 "1.prems" i show ?thesis by (auto simp: holds_key_def)
    next
      case 3
      then have "search_ranges rs key l u = search_ranges rs key (?i + 1) u"
        using True by (subst search_ranges.simps) (auto simp: holds_key_def Let_def)
      with "1.IH"(2) [OF True refl refl] 3 "1.prems" i show ?thesis by (auto simp: holds_key_def)
    qed
  next
    case False
    then show ?thesis by (subst (1) search_ranges.simps) simp
  qed
qed

lemma in_order_nth:
  assumes "in_order rs" and "i < j" and "j < length rs"
  shows "rend (rs ! i) < rstart (rs ! j)"
  using assms by (auto simp: in_order_def sorted_wrt_iff_nth_less)

lemma in_order_range: "in_order rs \<Longrightarrow> i < length rs \<Longrightarrow> rstart (rs ! i) \<le> rend (rs ! i)"
  by (simp add: in_order_def)

lemma in_order_take: "in_order rs \<Longrightarrow> in_order (take n rs)"
  by (auto simp: in_order_def sorted_wrt_take dest: in_set_takeD)

lemma holds_key_order:
  assumes "in_order rs" and "i < length rs" and "j < length rs" and "holds_key key (rs ! j)"
  shows "key < of_int (rstart (rs ! i)) \<longleftrightarrow> j < i" and "of_int (rend (rs ! i)) < key \<longleftrightarrow> i < j"
proof -
  have less: "of_int (rend (rs ! a)) < (of_int (rstart (rs ! b)) :: rat)" if "a < b" "b < length rs" for a b
    using in_order_nth [OF assms(1) that] by simp
  have pos: "of_int (rstart (rs ! i)) \<le> (of_int (rend (rs ! i)) :: rat)" using in_order_range [OF assms(1,2)] by simp
  show "key < of_int (rstart (rs ! i)) \<longleftrightarrow> j < i"
    using less [of j i] less [of i j] pos assms(2-4) by (cases i j rule: linorder_cases) (auto simp: holds_key_def)
  show "of_int (rend (rs ! i)) < key \<longleftrightarrow> i < j"
    using less [of j i] less [of i j] pos assms(2-4) by (cases i j rule: linorder_cases) (auto simp: holds_key_def)
qed

lemma search_ranges_complete:
  assumes "in_order rs" and "0 \<le> l" and "u < int (length rs)" and "l \<le> int j" and "int j \<le> u"
    and "holds_key key (rs ! j)"
  shows "search_ranges rs key l u = int j"
  using assms
proof (induction rs key l u rule: search_ranges.induct)
  case (1 rs key l u)
  let ?i = "(l + u) div 2"
  have lu: "l \<le> u" using "1.prems" by linarith
  then have i: "l \<le> ?i" "?i \<le> u" by linarith+
  then have n: "nat ?i < length rs" "j < length rs" "int (nat ?i) = ?i" using "1.prems" by linarith+
  note ord = holds_key_order [OF "1.prems"(1) n(1,2) "1.prems"(6)]
  consider "nat ?i = j" | "j < nat ?i" | "nat ?i < j" by linarith
  then show ?case
  proof cases
    case 1
    with lu n "1.prems"(6) show ?thesis by (subst search_ranges.simps) (simp add: holds_key_def Let_def)
  next
    case 2
    then have "key < of_int (rstart (rs ! nat ?i))" using ord(1) by simp
    then have "search_ranges rs key l u = search_ranges rs key l (?i - 1)"
      using lu by (subst search_ranges.simps) (simp add: Let_def)
    with "1.IH"(1) [OF lu refl refl] ord 2 "1.prems" i n show ?thesis by auto
  next
    case 3
    then have "of_int (rend (rs ! nat ?i)) < key" using ord(2) by simp
    moreover have "\<not> key < of_int (rstart (rs ! nat ?i))" using ord(1) 3 by simp
    ultimately have "search_ranges rs key l u = search_ranges rs key (?i + 1) u"
      using lu by (subst search_ranges.simps) (simp add: Let_def)
    with "1.IH"(2) [OF lu refl refl] ord 3 "1.prems" i n show ?thesis by auto
  qed
qed

lemma search_range_hit: "in_order rs \<Longrightarrow> j < length rs \<Longrightarrow> holds_key key (rs ! j) \<Longrightarrow> search_range rs key = int j"
  unfolding search_range_def by (rule search_ranges_complete) auto

lemma search_range_miss:
  assumes "\<forall>r \<in> set rs. \<not> holds_key key r"
  shows "search_range rs key = - 1"
proof -
  let ?s = "search_ranges rs key 0 (int (length rs) - 1)"
  have "?s = - 1 \<or> 0 \<le> ?s \<and> ?s \<le> int (length rs) - 1 \<and> holds_key key (rs ! nat ?s)"
    by (rule search_ranges_found) auto
  then show ?thesis using assms nth_mem by (fastforce simp: search_range_def)
qed

lemma filter_until:
  assumes "in_order rs" and "i < length rs" and "holds_key key (rs ! i)"
  shows "filter (\<lambda>r. of_int (rstart r) \<le> key) rs = take (Suc i) rs"
  by (rule filter_index_take)
    (use holds_key_order(1) [OF assms(1) _ assms(2,3)] in \<open>simp flip: not_less\<close>, auto)

lemma filter_from:
  assumes "in_order rs" and "i < length rs" and "holds_key key (rs ! i)"
  shows "filter (\<lambda>r. key \<le> of_int (rend r)) rs = drop i rs"
  by (rule filter_index_drop)
    (use holds_key_order(2) [OF assms(1) _ assms(2,3)] in \<open>simp flip: not_less\<close>)

lemma get_ranges_both:
  assumes "in_order (ranges t)" and "start \<le> end" and "i < length (ranges t)" and "holds_key start (ranges t ! i)"
    and "j < length (ranges t)" and "holds_key end (ranges t ! j)"
  shows "get_ranges start end t = filter (\<lambda>r. start \<le> of_int (rend r) \<and> of_int (rstart r) \<le> end) (ranges t)"
proof -
  let ?rs = "ranges t"
  have "i \<le> j"
    using holds_key_order(1) [OF assms(1,3,5,6)] assms(2,4) by (auto simp: holds_key_def not_less)
  then have "filter (\<lambda>r. start \<le> of_int (rend r)) (take (Suc j) ?rs) = drop i (take (Suc j) ?rs)"
    using assms(3-5) by (intro filter_from in_order_take assms(1)) auto
  then have "filter (\<lambda>r. start \<le> of_int (rend r)) (filter (\<lambda>r. of_int (rstart r) \<le> end) ?rs) = drop i (take (Suc j) ?rs)"
    unfolding filter_until [OF assms(1,5,6)] .
  moreover have "get_ranges start end t = drop i (take (Suc j) ?rs)"
    using search_range_hit [OF assms(1,3,4)] search_range_hit [OF assms(1,5,6)] assms(3,5) py_clip_nat [of ?rs "Suc j"]
    by (simp add: get_ranges_def py_slice_def Let_def add.commute)
  ultimately show ?thesis by (simp add: conj_commute)
qed

lemma get_ranges_left:
  assumes "in_order (ranges t)" and "i < length (ranges t)" and "holds_key start (ranges t ! i)"
    and "\<forall>r \<in> set (ranges t). \<not> holds_key end r"
  shows "get_ranges start end t = filter (\<lambda>r. start \<le> of_int (rend r)) (ranges t)"
  using search_range_hit [OF assms(1-3)] search_range_miss [OF assms(4)] filter_from [OF assms(1-3)] assms(2)
  by (simp add: get_ranges_def py_slice_def)

lemma get_ranges_right:
  assumes "in_order (ranges t)" and "j < length (ranges t)" and "holds_key end (ranges t ! j)"
    and "\<forall>r \<in> set (ranges t). \<not> holds_key start r"
  shows "get_ranges start end t = filter (\<lambda>r. of_int (rstart r) \<le> end) (ranges t)"
  using search_range_hit [OF assms(1-3)] search_range_miss [OF assms(4)] filter_until [OF assms(1-3)] assms(2)
    py_clip_nat [of "ranges t" "Suc j"] py_clip_nat [of "ranges t" 0]
  by (simp add: get_ranges_def py_slice_def Let_def add.commute)

text \<open>The ranges shown in a window, of ranges that are in order and do not overlap: when an end of
  the window lies in a range, the ranges beyond that end are left out; when it lies in a gap, nothing
  is left out on that side; but when both ends lie in gaps no range is shown at all, also when there
  are ranges between them.\<close>

theorem get_ranges_exact:
  assumes "in_order (ranges t)" and "start \<le> end"
  shows "get_ranges start end t =
    (let a = \<exists>r \<in> set (ranges t). holds_key start r; b = \<exists>r \<in> set (ranges t). holds_key end r
     in if \<not> a \<and> \<not> b then []
        else filter (\<lambda>r. (a \<longrightarrow> start \<le> of_int (rend r)) \<and> (b \<longrightarrow> of_int (rstart r) \<le> end)) (ranges t))"
proof -
  let ?rs = "ranges t"
  let ?a = "\<exists>r \<in> set ?rs. holds_key start r" and ?b = "\<exists>r \<in> set ?rs. holds_key end r"
  have find: "\<exists>i < length ?rs. holds_key k (?rs ! i)" if "\<exists>r \<in> set ?rs. holds_key k r" for k
    using that by (auto simp: in_set_conv_nth)
  consider (both) ?a ?b | (left) ?a "\<not> ?b" | (right) "\<not> ?a" ?b | (none) "\<not> ?a" "\<not> ?b" by blast
  then show ?thesis
  proof cases
    case both
    with find get_ranges_both [OF assms] have "get_ranges start end t
        = filter (\<lambda>r. start \<le> of_int (rend r) \<and> of_int (rstart r) \<le> end) ?rs" by blast
    with both show ?thesis by (simp add: Let_def)
  next
    case left
    with find get_ranges_left [OF assms(1)] have "get_ranges start end t = filter (\<lambda>r. start \<le> of_int (rend r)) ?rs" by blast
    with left show ?thesis by (simp add: Let_def)
  next
    case right
    with find get_ranges_right [OF assms(1)] have "get_ranges start end t = filter (\<lambda>r. of_int (rstart r) \<le> end) ?rs" by blast
    with right show ?thesis by (simp add: Let_def)
  next
    case none
    then show ?thesis
      using search_range_miss [of ?rs start] search_range_miss [of ?rs "end"] by (simp add: get_ranges_def Let_def)
  qed
qed

definition demo_ranges :: timeline_ranges where
  "demo_ranges = \<lparr>tr_name = ''r'', ranges =
     [\<lparr>rstart = 0, rend = 5, rvalue = ''a''\<rparr>, \<lparr>rstart = 10, rend = 15, rvalue = ''b''\<rparr>, \<lparr>rstart = 20, rend = 25, rvalue = ''c''\<rparr>]\<rparr>"

theorem get_ranges_exact_witness:
  "map rvalue (get_ranges 3 12 demo_ranges) = [''a'', ''b''] \<and> get_ranges 7 17 demo_ranges = []"
proof -
  have 1: "in_order (ranges demo_ranges)" by (simp add: demo_ranges_def in_order_def)
  have 2: "(3::rat) \<le> 12" "(7::rat) \<le> 17" by simp_all
  show ?thesis
    unfolding get_ranges_exact [OF 1 2(1)] get_ranges_exact [OF 1 2(2)]
    by (simp add: demo_ranges_def holds_key_def)
qed

lemma get_ranges_bounds_slice:
  "get_ranges start end t = (case get_ranges_bounds start end t of (lo, hi) \<Rightarrow> py_slice (ranges t) lo hi)"
  by (simp add: get_ranges_def get_ranges_bounds_def Let_def py_slice_def)

section \<open>Searching events\<close>

text \<open>The loop of \<^verbatim>\<open>TimelineEvent.__search\<close>: an event at the time asked for, or the place of the
  first one after it.\<close>

function search_events :: "'v event list \<Rightarrow> rat \<Rightarrow> int \<Rightarrow> int \<Rightarrow> int" where
  "search_events es key l u =
     (if l \<le> u
      then let i = (l + u) div 2; t = of_int (ev_at (es ! nat i))
           in if key = t then i
              else if key < t then search_events es key l (i - 1)
              else search_events es key (i + 1) u
      else l)"
  by pat_completeness auto
termination
  by (relation "measure (\<lambda>(es, key, l, u). nat (u - l + 1))") auto

declare search_events.simps [simp del]

definition search_event :: "'v event list \<Rightarrow> rat \<Rightarrow> int" where
  "search_event es key = search_events es key 0 (int (length es) - 1)"

definition get_events :: "rat \<Rightarrow> rat \<Rightarrow> 'v timeline_events \<Rightarrow> 'v event list" where
  "get_events start end t =
     (let es = events t in py_slice es (search_event es start) (search_event es end + 1))"

definition get_events_bounds :: "rat \<Rightarrow> rat \<Rightarrow> 'v timeline_events \<Rightarrow> int \<times> int" where
  "get_events_bounds start end t =
     (let es = events t in (search_event es start, search_event es end + 1))"

definition strictly_timed :: "'v event list \<Rightarrow> bool" where
  "strictly_timed es \<longleftrightarrow> sorted_wrt (\<lambda>e e'. ev_at e < ev_at e') es"

definition earlier :: "'v event list \<Rightarrow> rat \<Rightarrow> nat" where
  "earlier es key = length (filter (\<lambda>e. of_int (ev_at e) < key) es)"

lemma earlier_index:
  assumes "strictly_timed es" and "k < length es"
  shows "of_int (ev_at (es ! k)) < key \<longleftrightarrow> k < earlier es key"
  using assms
proof (induction es arbitrary: k)
  case (Cons e es)
  have later: "ev_at e < ev_at e'" if "e' \<in> set es" for e' using Cons.prems(1) that by (simp add: strictly_timed_def)
  have rest: "strictly_timed es" using Cons.prems(1) by (simp add: strictly_timed_def)
  show ?case
  proof (cases "of_int (ev_at e) < key")
    case True
    then show ?thesis using Cons.IH [OF rest] Cons.prems(2) by (cases k) (simp_all add: earlier_def)
  next
    case False
    then have "\<not> of_int (ev_at e') < key" if "e' \<in> set es" for e'
      using later [OF that] by (meson dual_order.strict_trans of_int_less_iff)
    then have "\<not> of_int (ev_at e') < key" if "e' \<in> set (e # es)" for e' using False that by auto
    then have "earlier (e # es) key = 0" and "\<not> of_int (ev_at ((e # es) ! k)) < key"
      using nth_mem [OF Cons.prems(2)] by (simp_all add: earlier_def filter_empty_conv)
    then show ?thesis by simp
  qed
qed simp

lemma search_events_earlier:
  assumes "strictly_timed es" and "0 \<le> l" and "u < int (length es)" and "l \<le> int (earlier es key)" and "int (earlier es key) \<le> u + 1"
  shows "search_events es key l u = int (earlier es key)"
  using assms
proof (induction es key l u rule: search_events.induct)
  case (1 es key l u)
  let ?i = "(l + u) div 2" and ?n = "earlier es key"
  show ?case
  proof (cases "l \<le> u")
    case True
    then have i: "l \<le> ?i" "?i \<le> u" by linarith+
    then have k: "nat ?i < length es" "int (nat ?i) = ?i" using "1.prems" by linarith+
    note at = earlier_index [OF "1.prems"(1) k(1), of key]
    consider "key = of_int (ev_at (es ! nat ?i))" | "key < of_int (ev_at (es ! nat ?i))" | "of_int (ev_at (es ! nat ?i)) < key"
      by fastforce
    then show ?thesis
    proof cases
      case 1
      have "\<not> ?n < nat ?i"
      proof
        assume less: "?n < nat ?i"
        then have "ev_at (es ! ?n) < ev_at (es ! nat ?i)"
          using "1.prems"(1) k(1) by (simp add: strictly_timed_def sorted_wrt_iff_nth_less)
        then show False using earlier_index [OF "1.prems"(1), of ?n key] less k(1) 1 by simp
      qed
      moreover have "\<not> nat ?i < ?n" using at 1 by simp
      ultimately show ?thesis using True 1 k(2) by (subst search_events.simps) (simp add: Let_def)
    next
      case 2
      then have "search_events es key l u = search_events es key l (?i - 1)"
        using True by (subst search_events.simps) (simp add: Let_def)
      moreover have "\<not> nat ?i < ?n" using at 2 by simp
      then have "int ?n \<le> ?i" using k(2) by linarith
      ultimately show ?thesis using "1.IH"(1) [OF True refl refl] 2 "1.prems" i by simp
    next
      case 3
      then have "search_events es key l u = search_events es key (?i + 1) u"
        using True by (subst search_events.simps) (simp add: Let_def)
      moreover have "nat ?i < ?n" using at 3 by simp
      then have "?i < int ?n" using k(2) by linarith
      ultimately show ?thesis using "1.IH"(2) [OF True refl refl] 3 "1.prems" i by simp
    qed
  next
    case False
    then show ?thesis using "1.prems" by (subst search_events.simps) simp
  qed
qed

lemma earlier_le: "earlier es key \<le> length es"
  by (simp add: earlier_def)

lemma search_event_earlier: "strictly_timed es \<Longrightarrow> search_event es key = int (earlier es key)"
  unfolding search_event_def by (rule search_events_earlier) (use earlier_le [of es key] in auto)

lemma filter_earlier:
  assumes "strictly_timed es"
  shows "filter (\<lambda>e. of_int (ev_at e) < key) es = take (earlier es key) es"
    and "filter (\<lambda>e. key \<le> of_int (ev_at e)) es = drop (earlier es key) es"
  using earlier_index [OF assms] by (auto intro: filter_index_take filter_index_drop simp flip: not_less)

lemma earlier_mono: "start \<le> end \<Longrightarrow> earlier es start \<le> earlier es end"
  unfolding earlier_def by (induction es) auto

text \<open>The events shown in a window, of events at different times in order: those from the start
  up to but not including the end, and one more, the first at the end or after it.\<close>

theorem get_events_exact:
  assumes "strictly_timed (events t)" and "start \<le> end"
  shows "get_events start end t =
    filter (\<lambda>e. start \<le> of_int (ev_at e) \<and> of_int (ev_at e) < end) (events t) @
    take 1 (filter (\<lambda>e. end \<le> of_int (ev_at e)) (events t))"
proof -
  let ?es = "events t" and ?s = "earlier (events t) start" and ?e = "earlier (events t) end"
  have es: "strictly_timed (take ?e ?es)" using assms(1) by (simp add: strictly_timed_def sorted_wrt_take)
  have "earlier (take ?e ?es) start = ?s"
    using filter_earlier(1) [OF assms(1), of "end", symmetric] assms(2)
    by (auto simp: earlier_def intro!: arg_cong [where f = length] filter_cong)
  then have mid: "filter (\<lambda>e. start \<le> of_int (ev_at e) \<and> of_int (ev_at e) < end) ?es = drop ?s (take ?e ?es)"
    using filter_earlier(2) [OF es, of start] filter_earlier(1) [OF assms(1), of "end"]
    by (simp add: conj_commute flip: filter_filter)
  have "?s \<le> ?e" using earlier_mono [OF assms(2)] .
  then have "drop ?s (take (Suc ?e) ?es) = drop ?s (take ?e ?es) @ take 1 (drop ?e ?es)"
    using earlier_le [of ?es "end"] by (simp add: take_add [of ?e 1, simplified])
  moreover have "get_events start end t = drop ?s (take (Suc ?e) ?es)"
    using earlier_le [of ?es start] py_clip_nat [of ?es "Suc ?e"]
    by (simp add: get_events_def search_event_earlier [OF assms(1)] py_slice_def Let_def min_def add.commute)
  ultimately show ?thesis using mid filter_earlier(2) [OF assms(1), of "end"] by simp
qed

definition demo_events :: "int timeline_events" where
  "demo_events = \<lparr>te_name = ''e'', events = map (\<lambda>t. \<lparr>ev_at = t, evalue = 2 * t\<rparr>) [1, 4, 9, 16, 25]\<rparr>"

theorem get_events_exact_witness: "map ev_at (get_events 3 10 demo_events) = [4, 9, 16]"
proof -
  have 1: "strictly_timed (events demo_events)" by (simp add: demo_events_def strictly_timed_def)
  have 2: "(3::rat) \<le> 10" by simp
  show ?thesis unfolding get_events_exact [OF 1 2] by (simp add: demo_events_def)
qed

section \<open>Finding by name, or making\<close>

text \<open>
  \<^verbatim>\<open>Timelines.get\<close>, \<^verbatim>\<open>Timeline.get_range\<close>, \<^verbatim>\<open>get_event_str\<close> and \<^verbatim>\<open>get_event_int\<close> return the object of
  a list with a given name, adding a new one at the end if there is none; the callers then change
  the object in place.  Here the change \<open>f\<close> is applied to that place.
\<close>

fun on_named :: "('a \<Rightarrow> string) \<Rightarrow> (string \<Rightarrow> 'a) \<Rightarrow> string \<Rightarrow> ('a \<Rightarrow> 'a) \<Rightarrow> 'a list \<Rightarrow> 'a list" where
  "on_named name_of new k f [] = [f (new k)]"
| "on_named name_of new k f (x # xs) =
     (if name_of x = k then f x # xs else x # on_named name_of new k f xs)"

text \<open>What is found under a name, a new object if there is none.\<close>

definition named :: "('a \<Rightarrow> string) \<Rightarrow> (string \<Rightarrow> 'a) \<Rightarrow> string \<Rightarrow> 'a list \<Rightarrow> 'a" where
  "named name_of new k xs = (case find (\<lambda>x. name_of x = k) xs of None \<Rightarrow> new k | Some x \<Rightarrow> x)"

text \<open>The contract of such a list of named objects: a new object has its name.\<close>

locale registry =
  fixes name_of :: "'a \<Rightarrow> string" and new :: "string \<Rightarrow> 'a"
  assumes name_new [simp]: "name_of (new k) = k"
begin

lemma names_on_named:
  assumes "\<And>x. name_of (f x) = name_of x"
  shows "map name_of (on_named name_of new k f xs) =
     (if k \<in> set (map name_of xs) then map name_of xs else map name_of xs @ [k])"
  using assms by (induction xs) auto

lemma distinct_on_named:
  assumes "\<And>x. name_of (f x) = name_of x" and "distinct (map name_of xs)"
  shows "distinct (map name_of (on_named name_of new k f xs))"
  using assms(2) by (simp only: names_on_named [OF assms(1)]) simp

lemma named_on_named:
  assumes "\<And>x. name_of (f x) = name_of x"
  shows "named name_of new n (on_named name_of new k f xs) = (if n = k then f (named name_of new k xs) else named name_of new n xs)"
  using assms by (induction xs) (auto simp: named_def)

lemma named_map:
  assumes "\<And>x. name_of (f x) = name_of x" and "f (new n) = new n"
  shows "named name_of new n (map f xs) = f (named name_of new n xs)"
  using assms by (induction xs) (auto simp: named_def)

end

section \<open>Time lines\<close>

record timeline =
  tl_name :: string
  tl_ranges :: "timeline_ranges list"
  tl_event_str :: "string timeline_events list"
  tl_event_int :: "int timeline_events list"

definition new_timeline :: "string \<Rightarrow> timeline" where
  "new_timeline n = \<lparr>tl_name = n, tl_ranges = [], tl_event_str = [], tl_event_int = []\<rparr>"

interpretation timelines: registry tl_name new_timeline
  by unfold_locales (simp add: new_timeline_def)

interpretation range_lines: registry tr_name new_ranges
  by unfold_locales (simp add: new_ranges_def)

interpretation event_lines: registry te_name new_events
  by unfold_locales (simp add: new_events_def)

definition get_range :: "string \<Rightarrow> (timeline_ranges \<Rightarrow> timeline_ranges) \<Rightarrow> timeline \<Rightarrow> timeline" where
  "get_range n f t = t\<lparr>tl_ranges := on_named tr_name new_ranges n f (tl_ranges t)\<rparr>"

definition get_event_str :: "string \<Rightarrow> (string timeline_events \<Rightarrow> string timeline_events) \<Rightarrow> timeline \<Rightarrow> timeline" where
  "get_event_str n f t = t\<lparr>tl_event_str := on_named te_name new_events n f (tl_event_str t)\<rparr>"

definition get_event_int :: "string \<Rightarrow> (int timeline_events \<Rightarrow> int timeline_events) \<Rightarrow> timeline \<Rightarrow> timeline" where
  "get_event_int n f t = t\<lparr>tl_event_int := on_named te_name new_events n f (tl_event_int t)\<rparr>"

definition get_timeline :: "string \<Rightarrow> (timeline \<Rightarrow> timeline) \<Rightarrow> timeline list \<Rightarrow> timeline list" where
  "get_timeline n f ts = on_named tl_name new_timeline n f ts"

definition sort_timeline :: "timeline \<Rightarrow> timeline" where
  "sort_timeline t =
     t\<lparr>tl_ranges := map sort_ranges (tl_ranges t), tl_event_int := map sort_events (tl_event_int t),
       tl_event_str := map sort_events (tl_event_str t)\<rparr>"

definition sort_timelines :: "timeline list \<Rightarrow> timeline list" where
  "sort_timelines ts = map sort_timeline ts"

section \<open>Bounds\<close>

definition ranges_bounds :: "timeline_ranges \<Rightarrow> int \<times> int" where
  "ranges_bounds t = (if ranges t \<noteq> [] then (rstart (ranges t ! 0), rend (ranges t ! (length (ranges t) - 1))) else (0, 0))"

definition events_bounds :: "'v timeline_events \<Rightarrow> int \<times> int" where
  "events_bounds t = (if events t \<noteq> [] then (ev_at (events t ! 0), ev_at (last (events t))) else (0, 0))"

definition widen :: "int \<times> int \<Rightarrow> int \<times> int \<Rightarrow> int \<times> int" where
  "widen b lh = (if fst b < fst lh then fst b else fst lh, if snd b > snd lh then snd b else snd lh)"

definition timeline_bounds :: "timeline \<Rightarrow> int \<times> int" where
  "timeline_bounds t =
     fold widen (map events_bounds (tl_event_int t))
       (fold widen (map events_bounds (tl_event_str t)) (fold widen (map ranges_bounds (tl_ranges t)) (0, 0)))"

definition timelines_bounds :: "timeline list \<Rightarrow> int \<times> int" where
  "timelines_bounds ts = fold widen (map timeline_bounds ts) (0, 0)"

definition get_all_range_values :: "(string list \<Rightarrow> string list) \<Rightarrow> timeline list \<Rightarrow> string list" where
  "get_all_range_values ko ts =
     ko (dict_keys (fold (\<lambda>v d. AList.update v (1::int) d)
       (concat (map (\<lambda>t. concat (map (\<lambda>l. map rvalue (ranges l)) (tl_ranges t))) ts)) []))"

section \<open>Colours\<close>

text \<open>The list of default colours belongs to the class: it is used up from its end.\<close>

record color =
  red :: int
  green :: int
  blue :: int

definition rgb :: "int \<Rightarrow> int \<Rightarrow> int \<Rightarrow> color" where
  "rgb r g b = \<lparr>red = r, green = g, blue = b\<rparr>"

record colors =
  named_colors :: "(string, color) dict"
  default_colors :: "color list"

definition colors_init :: colors where
  "colors_init =
     \<lparr>named_colors = [],
      default_colors = [rgb 1 0 0, rgb 0 1 0, rgb 0 0 1, rgb 1 1 0, rgb 1 0 1, rgb 0 1 1]\<rparr>"

definition add_color :: "string \<Rightarrow> color \<Rightarrow> colors \<Rightarrow> colors" where
  "add_color n c s = s\<lparr>named_colors := AList.update n c (named_colors s)\<rparr>"

definition lookup_color :: "string \<Rightarrow> colors \<Rightarrow> (color \<times> colors) result" where
  "lookup_color n s =
     (case map_of (named_colors s) n of
        Some c \<Rightarrow> Inr (c, s)
      | None \<Rightarrow>
          if default_colors s = [] then Inl IndexError
          else Inr (last (default_colors s),
                    add_color n (last (default_colors s)) (s\<lparr>default_colors := butlast (default_colors s)\<rparr>)))"

text \<open>The colours of the legend, looked up one after another.\<close>

definition range_colors :: "string list \<Rightarrow> colors \<Rightarrow> (color list \<times> colors) result" where
  "range_colors range_values s =
     for_each (\<lambda>v (cs, s). res_bind (lookup_color v s) (\<lambda>(c, s'). Inr (cs @ [c], s'))) range_values ([], s)"

section \<open>Bounds are exact\<close>

text \<open>\<open>b\<close> bounds starts and ends, if there are any; \<open>spans\<close> is the same with zero included.\<close>

definition bnd :: "int set \<Rightarrow> int set \<Rightarrow> int \<times> int \<Rightarrow> bool" where
  "bnd S E b \<longleftrightarrow> (\<forall>x \<in> S. fst b \<le> x) \<and> (\<forall>x \<in> E. x \<le> snd b) \<and>
     (fst b = 0 \<or> fst b \<in> S) \<and> (snd b = 0 \<or> snd b \<in> E)"

definition spans :: "int set \<Rightarrow> int set \<Rightarrow> int \<times> int \<Rightarrow> bool" where
  "spans S E b \<longleftrightarrow> bnd S E b \<and> fst b \<le> 0 \<and> 0 \<le> snd b"

lemma spans_start: "spans {} {} (0, 0)"
  by (simp add: spans_def bnd_def)

lemma spans_widen: "bnd S E b \<Longrightarrow> spans S' E' lh \<Longrightarrow> spans (S \<union> S') (E \<union> E') (widen b lh)"
  by (auto simp: spans_def bnd_def widen_def)

lemma spans_fold:
  assumes "\<And>x. x \<in> set xs \<Longrightarrow> bnd (S x) (E x) (b x)" and "spans S' E' lh"
  shows "spans (\<Union>(S ` set xs) \<union> S') (\<Union>(E ` set xs) \<union> E') (fold widen (map b xs) lh)"
  using assms
proof (induction xs arbitrary: lh S' E')
  case (Cons x xs)
  have "spans (S x \<union> S') (E x \<union> E') (widen (b x) lh)"
    using Cons.prems by (intro spans_widen) auto
  from Cons.IH [OF _ this] Cons.prems(1) show ?case by (simp add: ac_simps)
qed simp

definition event_times :: "'v timeline_events \<Rightarrow> int set" where
  "event_times t = ev_at ` set (events t)"

definition starts_of :: "timeline \<Rightarrow> int set" where
  "starts_of t = \<Union>(event_times ` set (tl_event_int t)) \<union> (\<Union>(event_times ` set (tl_event_str t)) \<union>
     \<Union>((\<lambda>r. rstart ` set (ranges r)) ` set (tl_ranges t)))"

definition ends_of :: "timeline \<Rightarrow> int set" where
  "ends_of t = \<Union>(event_times ` set (tl_event_int t)) \<union> (\<Union>(event_times ` set (tl_event_str t)) \<union>
     \<Union>((\<lambda>r. rend ` set (ranges r)) ` set (tl_ranges t)))"

definition tidy :: "timeline \<Rightarrow> bool" where
  "tidy t \<longleftrightarrow> (\<forall>r \<in> set (tl_ranges t). in_order (ranges r)) \<and>
     (\<forall>e \<in> set (tl_event_int t). sorted (map ev_at (events e))) \<and>
     (\<forall>e \<in> set (tl_event_str t). sorted (map ev_at (events e)))"

lemma bnd_events:
  assumes "sorted (map ev_at (events e))"
  shows "bnd (event_times e) (event_times e) (events_bounds e)"
proof (cases "events e")
  case (Cons x xs)
  have "ev_at y \<le> ev_at (last (events e))" if "y \<in> set (events e)" for y
  proof -
    have "events e \<noteq> []" using Cons by simp
    then have "last (map ev_at (events e)) = ev_at (last (events e))" by (rule last_map)
    with sorted_le_last [OF assms, of "ev_at y"] that show ?thesis by simp
  qed
  moreover have "last (events e) \<in> set (events e)" using Cons by simp
  ultimately show ?thesis
    using assms Cons by (auto simp: bnd_def event_times_def events_bounds_def)
qed (simp add: bnd_def event_times_def events_bounds_def)

lemma bnd_ranges:
  assumes "in_order (ranges r)"
  shows "bnd (rstart ` set (ranges r)) (rend ` set (ranges r)) (ranges_bounds r)"
proof (cases "ranges r")
  case (Cons x xs)
  let ?rs = "ranges r" and ?n = "length (ranges r) - 1"
  have lo: "rstart (?rs ! 0) \<le> rstart (?rs ! i)" if "i < length ?rs" for i
    using in_order_nth [OF assms, of 0 i] in_order_range [OF assms, of 0] that Cons by (cases i) force+
  have hi: "rend (?rs ! i) \<le> rend (?rs ! ?n)" if "i < length ?rs" for i
    using in_order_nth [OF assms, of i ?n] in_order_range [OF assms, of ?n] that by (cases "i = ?n") force+
  have "0 < length ?rs" "?n < length ?rs" using Cons by simp_all
  then have "?rs ! 0 \<in> set ?rs" "?rs ! ?n \<in> set ?rs" by (blast intro: nth_mem)+
  moreover have "\<forall>y \<in> set ?rs. rstart (?rs ! 0) \<le> rstart y \<and> rend y \<le> rend (?rs ! ?n)"
    using lo hi by (metis in_set_conv_nth)
  moreover have "ranges_bounds r = (rstart (?rs ! 0), rend (?rs ! ?n))" using Cons by (simp add: ranges_bounds_def)
  ultimately show ?thesis by (simp add: bnd_def)
qed (simp add: bnd_def ranges_bounds_def)

lemma timeline_bounds_spans: "tidy t \<Longrightarrow> spans (starts_of t) (ends_of t) (timeline_bounds t)"
  unfolding starts_of_def ends_of_def timeline_bounds_def
  using spans_fold [OF bnd_ranges spans_start, of "tl_ranges t"]
  by (intro spans_fold) (auto simp: tidy_def intro: bnd_events)

text \<open>The time span shown: from the earliest start or event to the latest end or event, zero
  counted in, when the ranges of a line do not overlap and the lines are sorted.\<close>

theorem timelines_bounds_exact:
  assumes "\<forall>t \<in> set ts. tidy t"
  shows "timelines_bounds ts =
    (Min (insert 0 (\<Union>(starts_of ` set ts))), Max (insert 0 (\<Union>(ends_of ` set ts))))"
proof -
  have "spans (\<Union>(starts_of ` set ts) \<union> {}) (\<Union>(ends_of ` set ts) \<union> {}) (timelines_bounds ts)"
    unfolding timelines_bounds_def
    by (rule spans_fold) (use assms timeline_bounds_spans spans_start in \<open>auto simp: spans_def\<close>)
  moreover have "finite (\<Union>(starts_of ` set ts))" "finite (\<Union>(ends_of ` set ts))"
    by (simp_all add: starts_of_def ends_of_def event_times_def)
  ultimately show ?thesis
    by (intro prod_eqI) (auto simp: spans_def bnd_def intro!: Min_eqI [symmetric] Max_eqI [symmetric])
qed

definition demo_timeline :: timeline where
  "demo_timeline =
     \<lparr>tl_name = ''t'', tl_ranges = [demo_ranges], tl_event_str = [], tl_event_int = [demo_events]\<rparr>"

theorem timelines_bounds_exact_witness: "timelines_bounds [demo_timeline] = (0, 25) \<and> Max (insert 0 (ends_of demo_timeline)) = 25"
proof -
  have "\<forall>t \<in> set [demo_timeline]. tidy t"
    by (simp add: demo_timeline_def demo_ranges_def demo_events_def tidy_def in_order_def)
  from timelines_bounds_exact [OF this]
  have eq: "timelines_bounds [demo_timeline] = (Min (insert 0 (starts_of demo_timeline)), Max (insert 0 (ends_of demo_timeline)))"
    by simp
  have "timelines_bounds [demo_timeline] = (0, 25)"
    by (simp add: timelines_bounds_def timeline_bounds_def demo_timeline_def demo_ranges_def demo_events_def
        ranges_bounds_def events_bounds_def widen_def)
  with eq show ?thesis by simp
qed

section \<open>Colours are kept\<close>

lemma lookup_color_cases:
  assumes "lookup_color n s = Inr (c, s')"
  obtains "map_of (named_colors s) n = Some c" "s' = s"
  | "map_of (named_colors s) n = None" "default_colors s \<noteq> []" "c = last (default_colors s)"
      "named_colors s' = AList.update n c (named_colors s)" "default_colors s' = butlast (default_colors s)"
  using assms by (auto simp: lookup_color_def add_color_def split: option.splits if_splits)

lemma lookup_color_keeps:
  assumes "lookup_color n s = Inr (c, s')"
  shows "map_of (named_colors s') n = Some c" and "map_of (named_colors s) m = Some d \<Longrightarrow> map_of (named_colors s') m = Some d"
  using assms by (cases rule: lookup_color_cases; auto)+

definition fresh_names :: "string list \<Rightarrow> colors \<Rightarrow> bool" where
  "fresh_names ns s \<longleftrightarrow> distinct ns \<and> (\<forall>n \<in> set ns. map_of (named_colors s) n = None)"

lemma range_colors_fold:
  assumes "fresh_names ns s"
  shows "for_each (\<lambda>v (cs, s). res_bind (lookup_color v s) (\<lambda>(c, s'). Inr (cs @ [c], s'))) ns (cs0, s) =
    (if length ns \<le> length (default_colors s)
     then Inr (cs0 @ take (length ns) (rev (default_colors s)),
               \<lparr>named_colors = named_colors s @ zip ns (rev (default_colors s)),
                default_colors = take (length (default_colors s) - length ns) (default_colors s)\<rparr>)
     else Inl IndexError)"
  using assms
proof (induction ns arbitrary: s cs0)
  case (Cons n ns)
  have none: "map_of (named_colors s) n = None" using Cons.prems by (simp add: fresh_names_def)
  show ?case
  proof (cases "default_colors s" rule: rev_cases)
    case Nil
    then show ?thesis by (simp add: lookup_color_def none)
  next
    case (snoc ds d)
    let ?s = "\<lparr>named_colors = named_colors s @ [(n, d)], default_colors = ds\<rparr>"
    have "AList.update n d (named_colors s) = named_colors s @ [(n, d)]"
      using none by (intro update_new_key) (simp add: map_of_eq_None_keys)
    then have "lookup_color n s = Inr (d, ?s)"
      using snoc by (simp add: lookup_color_def add_color_def none)
    moreover have "fresh_names ns ?s"
      using Cons.prems by (auto simp: fresh_names_def map_add_def map_of_append split: option.splits)
    ultimately show ?thesis using Cons.IH [of ?s "cs0 @ [d]"] snoc by simp
  qed
qed simp

text \<open>The colours of a legend whose values have no colour in the file: the default colours are
  given out one by one from the end of the list, so different values get different colours; when there
  are more values than default colours left the program stops with an IndexError.\<close>

theorem range_colors_exact:
  assumes "distinct vs" and "\<forall>v \<in> set vs. map_of (named_colors s) v = None"
  shows "res_bind (range_colors vs s) (\<lambda>(cs, s'). Inr (cs, default_colors s')) =
    (if length vs \<le> length (default_colors s)
     then Inr (take (length vs) (rev (default_colors s)),
               take (length (default_colors s) - length vs) (default_colors s))
     else Inl IndexError)"
  using range_colors_fold [of vs s "[]"] assms by (simp add: range_colors_def fresh_names_def)

theorem range_colors_exact_witness:
  "res_bind (range_colors [''a'', ''b'', ''c'', ''d'', ''e'', ''f'', ''g''] colors_init) (\<lambda>(cs, s'). Inr (cs, default_colors s')) = Inl IndexError
   \<and> res_bind (range_colors [''a'', ''b''] colors_init) (\<lambda>(cs, s'). Inr (cs, default_colors s'))
     = Inr ([rgb 0 1 1, rgb 1 0 1], [rgb 1 0 0, rgb 0 1 0, rgb 0 0 1, rgb 1 1 0])"
proof -
  have 1: "distinct [''a'', ''b'', ''c'', ''d'', ''e'', ''f'', ''g'']" "distinct [''a'', ''b'']" by simp_all
  have 2: "\<forall>v \<in> set vs. map_of (named_colors colors_init) v = None" for vs :: "string list" by (simp add: colors_init_def)
  show ?thesis unfolding range_colors_exact [OF 1(1) 2] range_colors_exact [OF 1(2) 2] by (simp add: colors_init_def)
qed

end
