(* ===== verification/Grid_Read.thy ===== *)
theory Grid_Read
  imports Grid_Data
begin

text \<open>
  The input of \<^verbatim>\<open>utils/grid.py\<close>: the four kinds of lines \<^verbatim>\<open>read_data\<close> recognises with regular
  expressions, and the time lines and colours it builds from a file.
\<close>

section \<open>Lines\<close>

datatype entry =
    ERange string string string nat nat
  | EStr string string string nat
  | EInt string string nat nat
  | EColor string nat nat nat

text \<open>The pieces of the regular expressions: a literal, \<^verbatim>\<open>([^ ]+)\<close> with the blank after it,
  \<^verbatim>\<open>([0-9]+)\<close>, and two hexadecimal digits.  What follows a piece never begins with a character the
  piece could take, so the greedy match is the only one.\<close>

definition eat :: "string \<Rightarrow> string \<Rightarrow> string option" where
  "eat p s = (if take (length p) s = p then Some (drop (length p) s) else None)"

definition eat_word :: "string \<Rightarrow> (string \<times> string) option" where
  "eat_word s =
     (let w = takeWhile (\<lambda>c. c \<noteq> CHR '' '') s
      in if w = [] then None
         else case dropWhile (\<lambda>c. c \<noteq> CHR '' '') s of [] \<Rightarrow> None | _ # rest \<Rightarrow> Some (w, rest))"

definition eat_digits :: "string \<Rightarrow> (nat \<times> string) option" where
  "eat_digits s =
     (let w = takeWhile is_digit s in if w = [] then None else Some (read_nat w, dropWhile is_digit s))"

definition hex_val :: "char \<Rightarrow> nat option" where
  "hex_val c =
     (let n = of_char c :: nat
      in if 48 \<le> n \<and> n \<le> 57 then Some (n - 48)
         else if 97 \<le> n \<and> n \<le> 102 then Some (n - 87)
         else if 65 \<le> n \<and> n \<le> 70 then Some (n - 55)
         else None)"

fun eat_hex :: "string \<Rightarrow> (nat \<times> string) option" where
  "eat_hex (a # b # rest) =
     Option.bind (hex_val a) (\<lambda>x. Option.bind (hex_val b) (\<lambda>y. Some (16 * x + y, rest)))"
| "eat_hex _ = None"

definition match_range :: "string \<Rightarrow> entry option" where
  "match_range s =
     Option.bind (eat ''range '' s) (\<lambda>s.
     Option.bind (eat_word s) (\<lambda>(n, s).
     Option.bind (eat_word s) (\<lambda>(r, s).
     Option.bind (eat_word s) (\<lambda>(v, s).
     Option.bind (eat_digits s) (\<lambda>(a, s).
     Option.bind (eat '' '' s) (\<lambda>s.
     Option.bind (eat_digits s) (\<lambda>(b, s). Some (ERange n r v a b))))))))"

definition match_event_str :: "string \<Rightarrow> entry option" where
  "match_event_str s =
     Option.bind (eat ''event-str '' s) (\<lambda>s.
     Option.bind (eat_word s) (\<lambda>(n, s).
     Option.bind (eat_word s) (\<lambda>(r, s).
     Option.bind (eat_word s) (\<lambda>(v, s).
     Option.bind (eat_digits s) (\<lambda>(a, s). Some (EStr n r v a))))))"

definition match_event_int :: "string \<Rightarrow> entry option" where
  "match_event_int s =
     Option.bind (eat ''event-int '' s) (\<lambda>s.
     Option.bind (eat_word s) (\<lambda>(n, s).
     Option.bind (eat_word s) (\<lambda>(r, s).
     Option.bind (eat_digits s) (\<lambda>(v, s).
     Option.bind (eat '' '' s) (\<lambda>s.
     Option.bind (eat_digits s) (\<lambda>(a, s). Some (EInt n r v a)))))))"

definition match_color :: "string \<Rightarrow> entry option" where
  "match_color s =
     Option.bind (eat ''color '' s) (\<lambda>s.
     Option.bind (eat_word s) (\<lambda>(n, s).
     Option.bind (eat ''#'' s) (\<lambda>s.
     Option.bind (eat_hex s) (\<lambda>(r, s).
     Option.bind (eat_hex s) (\<lambda>(g, s).
     Option.bind (eat_hex s) (\<lambda>(b, s). Some (EColor n r g b)))))))"

definition parse_line :: "string \<Rightarrow> entry option" where
  "parse_line s =
     (case match_range s of Some e \<Rightarrow> Some e
      | None \<Rightarrow> (case match_event_str s of Some e \<Rightarrow> Some e
      | None \<Rightarrow> (case match_event_int s of Some e \<Rightarrow> Some e
      | None \<Rightarrow> match_color s)))"

section \<open>Reading\<close>

fun add_entry :: "entry \<Rightarrow> colors \<times> timeline list \<Rightarrow> colors \<times> timeline list" where
  "add_entry (ERange n r v a b) (cs, ts) =
     (cs, get_timeline n (get_range r (add_range \<lparr>rstart = int a, rend = int b, rvalue = v\<rparr>)) ts)"
| "add_entry (EStr n r v a) (cs, ts) =
     (cs, get_timeline n (get_event_str r (add_event \<lparr>ev_at = int a, evalue = v\<rparr>)) ts)"
| "add_entry (EInt n r v a) (cs, ts) =
     (cs, get_timeline n (get_event_int r (add_event \<lparr>ev_at = int a, evalue = int v\<rparr>)) ts)"
| "add_entry (EColor n r g b) (cs, ts) =
     (add_color n (rgb (int r div 255) (int g div 255) (int b div 255)) cs, ts)"

definition read_line :: "string \<Rightarrow> colors \<times> timeline list \<Rightarrow> colors \<times> timeline list" where
  "read_line s st = (case parse_line s of None \<Rightarrow> st | Some e \<Rightarrow> add_entry e st)"

definition read_data :: "string list \<Rightarrow> colors \<times> timeline list" where
  "read_data ls = (case fold read_line ls (colors_init, []) of (cs, ts) \<Rightarrow> (cs, sort_timelines ts))"

section \<open>Printed entries are read back\<close>

definition hex_digit :: "nat \<Rightarrow> char" where
  "hex_digit n = (if n < 10 then char_of (48 + n) else char_of (87 + n))"

definition show_hex :: "nat \<Rightarrow> string" where
  "show_hex n = [hex_digit (n div 16), hex_digit (n mod 16)]"

fun show_entry :: "entry \<Rightarrow> string" where
  "show_entry (ERange n r v a b) =
     ''range '' @ n @ '' '' @ r @ '' '' @ v @ '' '' @ show_nat a @ '' '' @ show_nat b @ [NL]"
| "show_entry (EStr n r v a) = ''event-str '' @ n @ '' '' @ r @ '' '' @ v @ '' '' @ show_nat a @ [NL]"
| "show_entry (EInt n r v a) = ''event-int '' @ n @ '' '' @ r @ '' '' @ show_nat v @ '' '' @ show_nat a @ [NL]"
| "show_entry (EColor n r g b) = ''color '' @ n @ '' #'' @ show_hex r @ show_hex g @ show_hex b @ [NL]"

definition word_ok :: "string \<Rightarrow> bool" where
  "word_ok w \<longleftrightarrow> w \<noteq> [] \<and> CHR '' '' \<notin> set w"

fun entry_ok :: "entry \<Rightarrow> bool" where
  "entry_ok (ERange n r v a b) \<longleftrightarrow> word_ok n \<and> word_ok r \<and> word_ok v"
| "entry_ok (EStr n r v a) \<longleftrightarrow> word_ok n \<and> word_ok r \<and> word_ok v"
| "entry_ok (EInt n r v a) \<longleftrightarrow> word_ok n \<and> word_ok r"
| "entry_ok (EColor n r g b) \<longleftrightarrow> word_ok n \<and> r < 256 \<and> g < 256 \<and> b < 256"

lemma eat_append [simp]: "eat p (p @ s) = Some s"
  by (simp add: eat_def)

lemma eat_word_append [simp]:
  assumes "word_ok w"
  shows "eat_word (w @ CHR '' '' # s) = Some (w, s)"
proof -
  have "\<forall>c \<in> set w. c \<noteq> CHR '' ''" using assms by (auto simp: word_ok_def)
  then have "takeWhile (\<lambda>c. c \<noteq> CHR '' '') (w @ CHR '' '' # s) = w"
    "dropWhile (\<lambda>c. c \<noteq> CHR '' '') (w @ CHR '' '' # s) = CHR '' '' # s"
    by (simp_all add: takeWhile_append2 dropWhile_append2)
  then show ?thesis using assms by (simp add: eat_word_def word_ok_def)
qed

lemma eat_digits_append [simp]:
  assumes "\<not> is_digit c"
  shows "eat_digits (show_nat n @ c # s) = Some (n, c # s)"
proof -
  have "takeWhile is_digit (show_nat n @ c # s) = show_nat n" "dropWhile is_digit (show_nat n @ c # s) = c # s"
    using show_nat_digits [of n] assms by (simp_all add: takeWhile_append2 dropWhile_append2)
  then show ?thesis by (simp add: eat_digits_def)
qed

lemma hex_val_digit: "n < 16 \<Longrightarrow> hex_val (hex_digit n) = Some n"
  by (simp add: hex_val_def hex_digit_def Let_def of_char_of)

lemma eat_hex_append [simp]: "n < 256 \<Longrightarrow> eat_hex (show_hex n @ s) = Some (n, s)"
  by (simp add: show_hex_def hex_val_digit)

lemma separators [simp]: "\<not> is_digit (CHR '' '')" "\<not> is_digit NL"
  by (simp_all add: is_digit_def)

lemma eat_pieces:
  "word_ok w \<Longrightarrow> eat_word (w @ '' '' @ s) = Some (w, s)"
  "word_ok w \<Longrightarrow> eat_word (w @ '' #'' @ s) = Some (w, ''#'' @ s)"
  "eat_digits (show_nat n @ '' '' @ s) = Some (n, '' '' @ s)"
  "eat_digits (show_nat n @ [NL]) = Some (n, [NL])"
  by simp_all

lemma other_prefixes:
  "eat ''range '' (''event-str '' @ s) = None" "eat ''range '' (''event-int '' @ s) = None"
  "eat ''range '' (''color '' @ s) = None" "eat ''event-str '' (''color '' @ s) = None"
  "eat ''event-int '' (''color '' @ s) = None" "eat ''event-str '' (''event-int '' @ s) = None"
  by (simp_all add: eat_def)

lemmas parse_defs = parse_line_def match_range_def match_event_str_def match_event_int_def match_color_def

lemma parse_show_entry: "entry_ok e \<Longrightarrow> parse_line (show_entry e) = Some e"
  by (cases e)
    (simp_all only: show_entry.simps entry_ok.simps parse_defs eat_append eat_pieces eat_hex_append other_prefixes
      bind.simps prod.case option.case)

text \<open>Printing and reading: a line printed for an entry, whose names and values are not empty and hold
  no blank and whose colour components are below 256, is recognised as that entry.\<close>

theorem parse_line_roundtrip:
  assumes "entry_ok e"
  shows "parse_line (show_entry e) = Some e"
  using assms by (rule parse_show_entry)

theorem parse_line_roundtrip_witness:
  "parse_line (show_entry (ERange ''n'' ''r'' ''v'' 3 12)) = Some (ERange ''n'' ''r'' ''v'' 3 12)
   \<and> parse_line (show_entry (EColor ''v'' 255 16 7)) = Some (EColor ''v'' 255 16 7)"
  by (intro conjI parse_line_roundtrip) (simp_all add: word_ok_def)

section \<open>What a file contains\<close>

text \<open>The contents of one line of one time line, and the records of the file meant for it.\<close>

definition range_contents :: "string \<Rightarrow> string \<Rightarrow> timeline list \<Rightarrow> data_range list" where
  "range_contents n r ts = ranges (named tr_name new_ranges r (tl_ranges (named tl_name new_timeline n ts)))"

definition str_contents :: "string \<Rightarrow> string \<Rightarrow> timeline list \<Rightarrow> string event list" where
  "str_contents n r ts = events (named te_name new_events r (tl_event_str (named tl_name new_timeline n ts)))"

definition int_contents :: "string \<Rightarrow> string \<Rightarrow> timeline list \<Rightarrow> int event list" where
  "int_contents n r ts = events (named te_name new_events r (tl_event_int (named tl_name new_timeline n ts)))"

fun range_records :: "string \<Rightarrow> string \<Rightarrow> entry \<Rightarrow> data_range list" where
  "range_records n r (ERange n' r' v a b) =
     (if n' = n \<and> r' = r then [\<lparr>rstart = int a, rend = int b, rvalue = v\<rparr>] else [])"
| "range_records n r _ = []"

fun str_records :: "string \<Rightarrow> string \<Rightarrow> entry \<Rightarrow> string event list" where
  "str_records n r (EStr n' r' v a) = (if n' = n \<and> r' = r then [\<lparr>ev_at = int a, evalue = v\<rparr>] else [])"
| "str_records n r _ = []"

fun int_records :: "string \<Rightarrow> string \<Rightarrow> entry \<Rightarrow> int event list" where
  "int_records n r (EInt n' r' v a) = (if n' = n \<and> r' = r then [\<lparr>ev_at = int a, evalue = int v\<rparr>] else [])"
| "int_records n r _ = []"

lemma getters_name [simp]:
  "tl_name (get_range k f t) = tl_name t" "tl_name (get_event_str k g t) = tl_name t"
  "tl_name (get_event_int k h t) = tl_name t" "tl_name (sort_timeline t) = tl_name t"
  by (simp_all add: get_range_def get_event_str_def get_event_int_def sort_timeline_def)

lemma line_names [simp]:
  "tr_name (add_range r l) = tr_name l" "te_name (add_event e l') = te_name l'"
  "tr_name (sort_ranges l) = tr_name l" "te_name (sort_events l') = te_name l'"
  by (simp_all add: add_range_def add_event_def sort_ranges_def sort_events_def)

lemma new_sorted [simp]:
  "sort_timeline (new_timeline n) = new_timeline n" "sort_ranges (new_ranges n) = new_ranges n"
  "sort_events (new_events n) = new_events n"
  by (simp_all add: sort_timeline_def new_timeline_def sort_ranges_def new_ranges_def sort_events_def new_events_def)

lemmas contents_defs = range_contents_def str_contents_def int_contents_def
lemmas getter_defs = get_timeline_def get_range_def get_event_str_def get_event_int_def

lemma contents_entry:
  assumes "add_entry e (cs, ts) = (cs', ts')"
  shows "range_contents n r ts' = range_contents n r ts @ range_records n r e"
    and "str_contents n r ts' = str_contents n r ts @ str_records n r e"
    and "int_contents n r ts' = int_contents n r ts @ int_records n r e"
  using assms
  by (cases e; force simp: contents_defs getter_defs timelines.named_on_named range_lines.named_on_named
      event_lines.named_on_named add_range_def add_event_def)+

definition entries_of :: "string list \<Rightarrow> entry list" where
  "entries_of ls = List.map_filter parse_line ls"

lemma contents_fold:
  assumes "fold read_line ls (cs, ts) = (cs', ts')"
  shows "range_contents n r ts' = range_contents n r ts @ concat (map (range_records n r) (entries_of ls)) \<and>
    str_contents n r ts' = str_contents n r ts @ concat (map (str_records n r) (entries_of ls)) \<and>
    int_contents n r ts' = int_contents n r ts @ concat (map (int_records n r) (entries_of ls))"
  using assms
proof (induction ls arbitrary: cs ts)
  case (Cons l ls)
  obtain cs1 ts1 where step: "read_line l (cs, ts) = (cs1, ts1)" by (cases "read_line l (cs, ts)")
  then have "fold read_line ls (cs1, ts1) = (cs', ts')" using Cons.prems by simp
  note IH = Cons.IH [OF this]
  show ?case
  proof (cases "parse_line l")
    case None
    with step IH show ?thesis by (simp add: read_line_def entries_of_def List.map_filter_simps)
  next
    case (Some e)
    with step have "add_entry e (cs, ts) = (cs1, ts1)" by (simp add: read_line_def)
    note c = contents_entry [OF this, of n r]
    from IH Some show ?thesis by (simp add: entries_of_def List.map_filter_simps c)
  qed
qed (simp add: entries_of_def List.map_filter_simps)

lemma contents_sorted:
  "range_contents n r (sort_timelines ts) = sort_key rstart (range_contents n r ts)"
  "str_contents n r (sort_timelines ts) = sort_key ev_at (str_contents n r ts)"
  "int_contents n r (sort_timelines ts) = sort_key ev_at (int_contents n r ts)"
proof -
  have t: "named tl_name new_timeline n (sort_timelines ts) = sort_timeline (named tl_name new_timeline n ts)"
    by (simp add: sort_timelines_def timelines.named_map)
  have r: "named tr_name new_ranges r (map sort_ranges ls) = sort_ranges (named tr_name new_ranges r ls)" for ls
    by (simp add: range_lines.named_map)
  have e: "named te_name new_events r (map sort_events ls) = sort_events (named te_name new_events r ls)"
    for ls :: "'v timeline_events list"
    by (simp add: event_lines.named_map)
  show "range_contents n r (sort_timelines ts) = sort_key rstart (range_contents n r ts)"
    "str_contents n r (sort_timelines ts) = sort_key ev_at (str_contents n r ts)"
    "int_contents n r (sort_timelines ts) = sort_key ev_at (int_contents n r ts)"
    unfolding contents_defs t
    by (simp_all add: sort_timeline_def r e) (simp_all add: sort_ranges_def sort_events_def)
qed

lemma names_distinct:
  "distinct (map tl_name ts) \<Longrightarrow> fold read_line ls (cs, ts) = (cs', ts') \<Longrightarrow> distinct (map tl_name ts')"
proof (induction ls arbitrary: cs ts)
  case (Cons l ls)
  obtain cs1 ts1 where step: "read_line l (cs, ts) = (cs1, ts1)" by (cases "read_line l (cs, ts)")
  have "distinct (map tl_name (get_timeline k f ts))" if "\<And>t. tl_name (f t) = tl_name t" for k f
    unfolding get_timeline_def using timelines.distinct_on_named [OF that Cons.prems(1)] .
  then have "distinct (map tl_name (snd (add_entry e (cs, ts))))" for e
    using Cons.prems(1) by (cases e) (simp_all del: distinct_map)
  then have "distinct (map tl_name (snd (read_line l (cs, ts))))"
    using Cons.prems(1) by (simp add: read_line_def del: distinct_map split: option.split)
  then have "distinct (map tl_name ts1)" unfolding step by simp
  then show ?case using Cons.IH Cons.prems(2) step by simp
qed simp

text \<open>What \<^verbatim>\<open>read_data\<close> makes of a file: every time line has its name once, and under each pair of
  names stand exactly the ranges, the string events and the integer events of the lines with these
  names, sorted by time, those of the same time in the order of the file; other lines are ignored.\<close>

theorem read_data_groups:
  "distinct (map tl_name (snd (read_data ls)))
   \<and> range_contents n r (snd (read_data ls)) = sort_key rstart (concat (map (range_records n r) (entries_of ls)))
   \<and> str_contents n r (snd (read_data ls)) = sort_key ev_at (concat (map (str_records n r) (entries_of ls)))
   \<and> int_contents n r (snd (read_data ls)) = sort_key ev_at (concat (map (int_records n r) (entries_of ls)))"
proof -
  obtain cs ts where f: "fold read_line ls (colors_init, []) = (cs, ts)" by (cases "fold read_line ls (colors_init, [])")
  have empty: "range_contents n r [] = []" "str_contents n r [] = []" "int_contents n r [] = []"
    by (simp_all add: contents_defs named_def new_timeline_def new_ranges_def new_events_def)
  have "distinct (map tl_name (sort_timelines ts))"
    using names_distinct [OF _ f] by (simp add: sort_timelines_def comp_def)
  then show ?thesis
    using contents_fold [OF f, of n r] by (simp add: read_data_def f contents_sorted empty)
qed

end
