(* ===== verification/Grid_Scale.thy ===== *)
theory Grid_Scale
  imports Grid_Data
begin

text \<open>
  The numbers of \<^verbatim>\<open>utils/grid.py\<close>, which mixes integers and floats and runs under Python 2, where \<^verbatim>\<open>/\<close> of two integers
  rounds down, and the class \<^verbatim>\<open>ScaleRenderer\<close>: the distance of the ticks and where they are drawn.
\<close>

section \<open>Numbers\<close>

text \<open>Integers, and floats as the rationals they stand for.\<close>

datatype num = PInt int | PFloat rat

fun val :: "num \<Rightarrow> rat" where
  "val (PInt i) = of_int i"
| "val (PFloat r) = r"

fun num_op :: "(int \<Rightarrow> int \<Rightarrow> int) \<Rightarrow> (rat \<Rightarrow> rat \<Rightarrow> rat) \<Rightarrow> num \<Rightarrow> num \<Rightarrow> num" where
  "num_op f g (PInt i) (PInt j) = PInt (f i j)"
| "num_op f g a b = PFloat (g (val a) (val b))"

definition num_add :: "num \<Rightarrow> num \<Rightarrow> num" where
  "num_add = num_op (+) (+)"

definition num_sub :: "num \<Rightarrow> num \<Rightarrow> num" where
  "num_sub = num_op (-) (-)"

definition num_mul :: "num \<Rightarrow> num \<Rightarrow> num" where
  "num_mul = num_op (*) (*)"

definition num_div :: "num \<Rightarrow> num \<Rightarrow> num result" where
  "num_div a b = (if val b = 0 then Inl ZeroDivisionError else Inr (num_op (div) (/) a b))"

definition num_mod :: "num \<Rightarrow> num \<Rightarrow> num result" where
  "num_mod a b =
     (if val b = 0 then Inl ZeroDivisionError
      else Inr (num_op (mod) (\<lambda>x y. x - y * of_int \<lfloor>x / y\<rfloor>) a b))"

definition num_max :: "num \<Rightarrow> num \<Rightarrow> num" where
  "num_max a b = (if val b > val a then b else a)"

definition num_min :: "num \<Rightarrow> num \<Rightarrow> num" where
  "num_min a b = (if val b < val a then b else a)"

text \<open>\<^verbatim>\<open>int(x)\<close> drops the fraction.\<close>

fun num_int :: "num \<Rightarrow> int" where
  "num_int (PInt i) = i"
| "num_int (PFloat r) = (if 0 \<le> r then \<lfloor>r\<rfloor> else \<lceil>r\<rceil>)"

lemma val_op [simp]:
  "val (num_add a b) = val a + val b" "val (num_sub a b) = val a - val b" "val (num_mul a b) = val a * val b"
  by (cases a; cases b; simp add: num_add_def num_sub_def num_mul_def)+

lemma val_max [simp]: "val (num_max a b) = max (val a) (val b)" "val (num_min a b) = min (val a) (val b)"
  by (auto simp: num_max_def num_min_def)

text \<open>Division is exact as soon as one side is a float.\<close>

fun is_float :: "num \<Rightarrow> bool" where
  "is_float (PInt i) = False"
| "is_float (PFloat r) = True"

lemma is_float_op [simp]:
  "is_float (num_add a b) = (is_float a \<or> is_float b)" "is_float (num_sub a b) = (is_float a \<or> is_float b)"
  "is_float (num_mul a b) = (is_float a \<or> is_float b)"
  by (cases a; cases b; simp add: num_add_def num_sub_def num_mul_def)+

lemma num_div_float:
  "is_float a \<or> is_float b \<Longrightarrow> val b \<noteq> 0 \<Longrightarrow> \<exists>q. num_div a b = Inr q \<and> val q = val a / val b \<and> is_float q"
  by (cases a; cases b; simp add: num_div_def)

lemma num_div_Inr: "num_div a b = Inr q \<Longrightarrow> is_float a \<or> is_float b \<Longrightarrow> val q = val a / val b \<and> is_float q \<and> val b \<noteq> 0"
  by (cases a; cases b; auto simp: num_div_def split: if_splits)

text \<open>\<^verbatim>\<open>range(i, j, s)\<close> for a step that is positive.\<close>

definition py_range :: "int \<Rightarrow> int \<Rightarrow> int \<Rightarrow> int list" where
  "py_range i j s = map (\<lambda>k. i + int k * s) [0..<nat ((j - i + s - 1) div s)]"

text \<open>What \<^verbatim>\<open>text_extents\<close> of cairo says of a text: the vertical bearing, the width and the height.\<close>

record extents =
  y_bearing :: rat
  t_width :: rat
  t_height :: rat

definition ALPHABET :: string where
  "ALPHABET = ''ABCDEFGHIJKLMNOPQRSTUVWXYZabcedefghijklmnopqrstuvwxyz0123456789''"

text \<open>Reading an attribute that is only set later.\<close>

definition attribute :: "'a option \<Rightarrow> 'a result" where
  "attribute a = (case a of None \<Rightarrow> Inl AttributeError | Some x \<Rightarrow> Inr x)"

section \<open>The scale\<close>

record scale =
  sc_top :: bool
  sc_bounds :: "(num \<times> num) option"
  sc_delta :: int
  sc_width :: num
  sc_height :: num
  sc_text_height :: rat

definition new_scale :: scale where
  "new_scale = \<lparr>sc_top = False, sc_bounds = None, sc_delta = 0, sc_width = PInt 0, sc_height = PInt 0, sc_text_height = 0\<rparr>"

definition set_bounds :: "num \<Rightarrow> num \<Rightarrow> scale \<Rightarrow> scale" where
  "set_bounds lo hi sc = sc\<lparr>sc_bounds := Some (lo, hi)\<rparr>"

definition set_top :: "scale \<Rightarrow> scale" where
  "set_top sc = sc\<lparr>sc_top := True\<rparr>"

definition set_bot :: "scale \<Rightarrow> scale" where
  "set_bot sc = sc\<lparr>sc_top := False\<rparr>"

definition get_position :: "num \<Rightarrow> scale \<Rightarrow> num result" where
  "get_position x sc =
     res_bind (attribute (sc_bounds sc)) (\<lambda>(lo, hi). num_div (num_mul (num_sub x lo) (sc_width sc)) (num_sub hi lo))"

text \<open>The loop starts with 1, so that its variable is positive.\<close>

function closest_power :: "rat \<Rightarrow> int \<Rightarrow> int" where
  "closest_power data_delta closest =
     (if 0 < closest \<and> of_int (closest * 10) < data_delta then closest_power data_delta (closest * 10) else closest)"
  by pat_completeness auto

termination
proof (relation "measure (\<lambda>(d, c). nat (\<lceil>d\<rceil> - c))")
  fix d :: rat and c :: int
  assume "0 < c \<and> of_int (c * 10) < d"
  moreover from this have "c * 10 < \<lceil>d\<rceil>" by linarith
  ultimately show "((d, c * 10), d, c) \<in> measure (\<lambda>(d, c). nat (\<lceil>d\<rceil> - c))" by simp
qed simp

declare closest_power.simps [simp del]

definition tick_delta :: "num \<Rightarrow> int result" where
  "tick_delta data_delta =
     (let closest = closest_power (val data_delta) 1 in
      res_bind (num_div data_delta (PInt closest)) (\<lambda>q.
        Inr (if val q = 0 then closest else if val q = 1 then closest div 10 else closest)))"

text \<open>The first tick is the first multiple of \<open>delta\<close> after \<open>lo\<close>, the last one the last before \<open>hi\<close>, which may be \<open>hi\<close>.\<close>

definition tick_ends :: "num \<Rightarrow> num \<Rightarrow> int \<Rightarrow> (num \<times> num) result" where
  "tick_ends lo hi delta =
     res_bind (num_mod lo (PInt delta)) (\<lambda>m.
       res_bind (num_mod hi (PInt delta)) (\<lambda>n. Inr (num_add (num_sub lo m) (PInt delta), num_sub hi n)))"

definition layout_scale :: "(string \<Rightarrow> extents) \<Rightarrow> num \<Rightarrow> scale \<Rightarrow> scale result" where
  "layout_scale ext width sc =
     res_bind (attribute (sc_bounds sc)) (\<lambda>(lo, hi).
       res_bind (tick_delta (num_sub hi lo)) (\<lambda>delta.
         res_bind (tick_ends lo hi delta) (\<lambda>_.
           Inr (sc\<lparr>sc_delta := delta, sc_width := width, sc_text_height := t_height (ext ALPHABET),
             sc_height := num_add (PFloat (t_height (ext ALPHABET))) (PInt 10)\<rparr>))))"

definition ticks :: "num \<Rightarrow> num \<Rightarrow> int \<Rightarrow> int list result" where
  "ticks lo hi delta =
     res_bind (tick_ends lo hi delta) (\<lambda>(s, e). Inr (py_range (num_int s) (num_int (num_add e (PInt delta))) delta))"

text \<open>
  A tick with its height, and the label with its place; small ticks have no label.  The heights are negative on the
  scale above its line.
\<close>

record tick =
  tick_x :: num
  tick_h :: int
  tick_label :: "(string \<times> num \<times> rat) option"

definition label_of :: "(string \<Rightarrow> extents) \<Rightarrow> bool \<Rightarrow> int \<Rightarrow> num \<Rightarrow> string \<times> num \<times> rat" where
  "label_of ext up x real_x =
     (let e = ext (show_int x); text_delta = (if up then t_height e + y_bearing e else - y_bearing e)
      in (show_int x, num_sub real_x (PFloat (t_width e / 2)), (10 + text_delta) * (if up then - 1 else 1)))"

definition draw_tick :: "(string \<Rightarrow> extents) \<Rightarrow> scale \<Rightarrow> bool \<Rightarrow> int \<Rightarrow> tick list \<Rightarrow> tick list result" where
  "draw_tick ext sc large x acc =
     res_bind (get_position (PInt x) sc) (\<lambda>real_x.
       Inr (acc @ [\<lparr>tick_x = real_x, tick_h = (if large then 5 else 3) * (if sc_top sc then - 1 else 1),
         tick_label = if large then Some (label_of ext (sc_top sc) x real_x) else None\<rparr>]))"

definition draw_scale :: "(string \<Rightarrow> extents) \<Rightarrow> scale \<Rightarrow> tick list result" where
  "draw_scale ext sc =
     res_bind (attribute (sc_bounds sc)) (\<lambda>(lo, hi).
       res_bind (ticks lo hi (sc_delta sc)) (\<lambda>xs.
         res_bind (for_each (draw_tick ext sc True) xs []) (\<lambda>drawn.
           let delta = sc_delta sc div 10 in
           if delta > 0 then res_bind (ticks lo hi delta) (\<lambda>ys. for_each (draw_tick ext sc False) ys drawn)
           else Inr drawn)))"

section \<open>The ticks\<close>

lemma le_div_iff_mult:
  fixes s :: int
  assumes "0 < s"
  shows "k \<le> a div s \<longleftrightarrow> k * s \<le> a"
proof
  assume "k \<le> a div s"
  then have "k * s \<le> (a div s) * s" using assms by simp
  also have "\<dots> \<le> a" using assms pos_mod_sign [OF assms, of a] div_mult_mod_eq [of a s] by linarith
  finally show "k * s \<le> a" .
next
  assume "k * s \<le> a"
  from zdiv_mono1 [OF this assms] assms show "k \<le> a div s" by simp
qed

lemma closest_power_bounds:
  "0 < c \<Longrightarrow> c = 1 \<or> of_int c < d \<Longrightarrow> \<exists>k. c = 10 ^ k \<Longrightarrow>
    (\<exists>k. closest_power d c = 10 ^ k) \<and> 0 < closest_power d c \<and>
    (closest_power d c = 1 \<or> of_int (closest_power d c) < d) \<and> d \<le> of_int (closest_power d c * 10)"
proof (induction d c rule: closest_power.induct)
  case (1 d c)
  show ?case
  proof (cases "of_int (c * 10) < d")
    case True
    obtain k where "c = 10 ^ k" using 1(4) by blast
    then have "c * 10 = 10 ^ Suc k" by simp
    then have "\<exists>k. c * 10 = 10 ^ k" by blast
    moreover have "of_int (c * 10) < d \<and> 0 < c" using True 1(2) by simp
    ultimately have "(\<exists>k. closest_power d (c * 10) = 10 ^ k) \<and> 0 < closest_power d (c * 10) \<and>
        (closest_power d (c * 10) = 1 \<or> of_int (closest_power d (c * 10)) < d) \<and> d \<le> of_int (closest_power d (c * 10) * 10)"
      by (intro 1(1)) auto
    moreover have "closest_power d c = closest_power d (c * 10)" using True 1(2) by (simp add: closest_power.simps [of d c])
    ultimately show ?thesis by simp
  next
    case False
    then show ?thesis using 1(2-4) by (simp add: closest_power.simps [of d c])
  qed
qed

lemma one_power: "\<exists>k. (1::int) = 10 ^ k"
  by (rule exI [of _ 0]) simp

lemma power10_div: "\<exists>k. (c::int) = 10 ^ k \<Longrightarrow> c \<noteq> 1 \<Longrightarrow> c = 10 * (c div 10) \<and> 0 < c div 10"
proof -
  assume "\<exists>k. c = 10 ^ k" and "c \<noteq> 1"
  then obtain k where "c = 10 ^ Suc k" by (metis not0_implies_Suc power_0)
  then show ?thesis by simp
qed

text \<open>The distance of the ticks for a span of \<open>d\<close> units: at least two and at most twenty fit in.\<close>

lemma tick_delta_int:
  assumes "0 < d"
  shows "\<exists>delta. tick_delta (PInt d) = Inr delta \<and> 0 \<le> delta \<and> (delta = 0 \<longleftrightarrow> d = 1) \<and> (d \<noteq> 1 \<longrightarrow> 2 * delta \<le> d \<and> d < 20 * delta)"
proof -
  let ?c = "closest_power (of_int d) 1"
  have c: "\<exists>k. ?c = 10 ^ k" "0 < ?c" "?c = 1 \<or> of_int ?c < (of_int d :: rat)" "(of_int d :: rat) \<le> of_int (?c * 10)"
    using closest_power_bounds [of 1 "of_int d", OF _ _ one_power] by simp_all
  then have le: "?c \<le> d" "d \<le> ?c * 10" and one: "?c = 1 \<or> ?c < d" using assms by (simp_all only: of_int_le_iff of_int_less_iff) auto
  then have q: "d div ?c \<noteq> 0" using c(2) by (simp add: pos_imp_zdiv_pos_iff [THEN iffD2, THEN less_imp_neq, symmetric])
  have t: "tick_delta (PInt d) = Inr (if d div ?c = 1 then ?c div 10 else ?c)"
    using c(2) q by (simp add: tick_delta_def num_div_def Let_def)
  show ?thesis
  proof (cases "d div ?c = 1")
    case True
    then have d: "d < 2 * ?c" using div_mult_mod_eq [of d ?c] pos_mod_bound [OF c(2), of d] by simp
    show ?thesis
    proof (cases "?c = 1")
      case True
      with d assms t show ?thesis by simp
    next
      case False
      from power10_div [OF c(1) False] one False d t True show ?thesis by auto
    qed
  next
    case False
    then have "2 \<le> d div ?c" using q pos_imp_zdiv_nonneg_iff [OF c(2), of d] assms by linarith
    then have "2 * ?c \<le> d" using c(2) by (metis mult.commute zle_iff_zadd le_div_iff_mult)
    then show ?thesis using t False c(2) le by auto
  qed
qed

lemma py_range_set: "0 < s \<Longrightarrow> set (py_range i j s) = {x. i \<le> x \<and> x < j \<and> s dvd x - i}"
proof (intro set_eqI iffI)
  fix x
  assume s: "0 < s" and "x \<in> set (py_range i j s)"
  then obtain k :: nat where k: "x = i + int k * s" "int k < (j - i + s - 1) div s" by (auto simp: py_range_def)
  then have "(int k + 1) * s \<le> j - i + s - 1" using s by (metis add1_zle_eq le_div_iff_mult)
  then have "x < j" using k(1) by (simp add: algebra_simps)
  then show "x \<in> {x. i \<le> x \<and> x < j \<and> s dvd x - i}" using k(1) s by simp
next
  fix x
  assume s: "0 < s" and "x \<in> {x. i \<le> x \<and> x < j \<and> s dvd x - i}"
  then obtain m where m: "x - i = s * m" "i \<le> x" "x < j" by (auto elim: dvdE)
  then have "0 \<le> m" using s by (metis diff_ge_0_iff_ge mult_le_0_iff not_le zero_le_mult_iff)
  have "(m + 1) * s \<le> j - i + s - 1" using m by (simp add: algebra_simps)
  then have "m < (j - i + s - 1) div s" using s by (metis add1_zle_eq le_div_iff_mult)
  then show "x \<in> set (py_range i j s)"
    using m(1) \<open>0 \<le> m\<close> by (auto simp: py_range_def image_iff algebra_simps intro!: bexI [of _ "nat m"])
qed

lemma py_range_length: "length (py_range i j s) = nat ((j - i + s - 1) div s)"
  by (simp add: py_range_def)

lemma py_range_sorted: "0 < s \<Longrightarrow> sorted_wrt (<) (py_range i j s)"
  by (auto simp: py_range_def sorted_wrt_map intro: sorted_wrt_mono_rel [OF _ sorted_wrt_upt])

section \<open>Both versions of the language\<close>

text \<open>
  The first line of \<^verbatim>\<open>grid.py\<close> asks for Python 3, although the modules and methods the file uses are those of Python 2.
  The scale itself runs under both, with another division: here is the distance of the ticks and the list of ticks for
  either, as \<^verbatim>\<open>layout\<close> and the first loop of \<^verbatim>\<open>draw\<close> compute them.  A step of 0 makes \<^verbatim>\<open>range\<close> raise.
\<close>

definition py_div :: "bool \<Rightarrow> num \<Rightarrow> num \<Rightarrow> num result" where
  "py_div py3 a b = (if \<not> py3 then num_div a b else if val b = 0 then Inl ZeroDivisionError else Inr (PFloat (val a / val b)))"

definition tick_step :: "bool \<Rightarrow> num \<Rightarrow> num result" where
  "tick_step py3 data_delta =
     (let closest = PInt (closest_power (val data_delta) 1) in
      res_bind (py_div py3 data_delta closest) (\<lambda>q.
        if val q = 0 then Inr closest else if val q = 1 then py_div py3 closest (PInt 10) else Inr closest))"

definition range_ticks :: "num \<Rightarrow> num \<Rightarrow> num \<Rightarrow> int list result" where
  "range_ticks lo hi delta =
     res_bind (num_mod lo delta) (\<lambda>m. res_bind (num_mod hi delta) (\<lambda>n.
       if num_int delta = 0 then Inl ValueError
       else Inr (py_range (num_int (num_add (num_sub lo m) delta)) (num_int (num_add (num_sub hi n) delta)) (num_int delta))))"

definition scale_ticks_of :: "bool \<Rightarrow> num \<Rightarrow> num \<Rightarrow> int list result" where
  "scale_ticks_of py3 lo hi = res_bind (tick_step py3 (num_sub hi lo)) (range_ticks lo hi)"

text \<open>Under Python 2 these are the definitions above.\<close>

lemma tick_step_2: "tick_step False d = res_bind (tick_delta d) (\<lambda>k. Inr (PInt k))"
  by (auto simp: tick_step_def tick_delta_def py_div_def num_div_def Let_def split: if_splits)

lemma range_ticks_2: "range_ticks lo hi (PInt k) = ticks lo hi k"
  by (simp add: range_ticks_def ticks_def tick_ends_def num_mod_def)

lemma multiple_between:
  fixes k :: int and r :: rat
  assumes "0 < delta"
  shows "of_int (k * delta) \<le> r \<longleftrightarrow> k \<le> \<lfloor>r / of_int delta\<rfloor>"
  using assms by (simp add: le_floor_iff pos_le_divide_eq)

lemma num_mod_floor:
  assumes "0 < delta"
  shows "\<exists>m. num_mod x (PInt delta) = Inr m \<and> num_int (num_add (num_sub x m) (PInt delta)) = (\<lfloor>val x / of_int delta\<rfloor> + 1) * delta"
proof (cases x)
  case (PInt i)
  have "\<lfloor>(of_int i :: rat) / of_int delta\<rfloor> = i div delta" by (rule floor_divide_of_int_eq)
  then show ?thesis
    using PInt assms by (simp add: num_mod_def num_add_def num_sub_def algebra_simps minus_mod_eq_mult_div)
next
  case (PFloat r)
  let ?k = "\<lfloor>r / of_int delta\<rfloor>"
  have "num_mod x (PInt delta) = Inr (PFloat (r - of_int delta * of_int ?k))" using PFloat assms by (simp add: num_mod_def)
  moreover have "r - (r - of_int delta * of_int ?k) + of_int delta = of_int ((?k + 1) * delta)" by (simp add: algebra_simps)
  ultimately show ?thesis using PFloat by (simp add: num_add_def num_sub_def del: of_int_mult of_int_add)
qed

lemma range_ticks_multiples:
  assumes "0 < delta" and "val lo \<le> val hi"
  shows "\<exists>xs. range_ticks lo hi (PInt delta) = Inr xs \<and> sorted_wrt (<) xs \<and>
    set xs = {x. val lo < of_int x \<and> of_int x \<le> val hi \<and> delta dvd x} \<and>
    int (length xs) = \<lfloor>val hi / of_int delta\<rfloor> - \<lfloor>val lo / of_int delta\<rfloor>"
proof -
  let ?a = "\<lfloor>val lo / of_int delta\<rfloor>" and ?b = "\<lfloor>val hi / of_int delta\<rfloor>"
  let ?xs = "py_range ((?a + 1) * delta) ((?b + 1) * delta) delta"
  obtain m n where mn: "num_mod lo (PInt delta) = Inr m" "num_int (num_add (num_sub lo m) (PInt delta)) = (?a + 1) * delta"
      "num_mod hi (PInt delta) = Inr n" "num_int (num_add (num_sub hi n) (PInt delta)) = (?b + 1) * delta"
    using num_mod_floor [OF assms(1)] by metis
  have 1: "range_ticks lo hi (PInt delta) = Inr ?xs"
    using mn assms(1) by (simp add: range_ticks_def)
  have "set ?xs = {x. val lo < of_int x \<and> of_int x \<le> val hi \<and> delta dvd x}"
  proof (intro set_eqI)
    fix x
    show "x \<in> set ?xs \<longleftrightarrow> x \<in> {x. val lo < of_int x \<and> of_int x \<le> val hi \<and> delta dvd x}"
    proof (cases "delta dvd x")
      case True
      then obtain k where k: "x = k * delta" by (metis dvdE mult.commute)
      have "delta dvd k * delta - (?a + 1) * delta" by simp
      then have "x \<in> set ?xs \<longleftrightarrow> ?a < k \<and> k \<le> ?b"
        using py_range_set [OF assms(1)] assms(1) unfolding k by auto
      then show ?thesis
        using multiple_between [OF assms(1), of k "val hi"] multiple_between [OF assms(1), of k "val lo"] unfolding k by auto
    next
      case False
      have "delta dvd (?a + 1) * delta" by simp
      then have "\<not> delta dvd x - (?a + 1) * delta" using False by (metis dvd_diff_right_iff dvd_minus_iff minus_diff_eq)
      then show ?thesis using py_range_set [OF assms(1)] False by simp
    qed
  qed
  moreover have "int (length ?xs) = ?b - ?a"
  proof -
    have "(?b + 1) * delta - (?a + 1) * delta + delta - 1 = (delta - 1) + delta * (?b - ?a)" by (simp add: algebra_simps)
    then have "((?b + 1) * delta - (?a + 1) * delta + delta - 1) div delta = ?b - ?a"
      using assms(1) by (simp only: div_mult_self2) simp
    moreover have "?a \<le> ?b" using assms by (simp add: floor_mono divide_right_mono)
    ultimately show ?thesis by (simp add: py_range_length)
  qed
  ultimately show ?thesis using 1 py_range_sorted [OF assms(1)] by blast
qed

text \<open>The distance fits less than twenty times and, but for spans below one, more than once into the span.\<close>

lemma tick_step_bounds:
  assumes "0 < val d" and "val d \<noteq> 1"
  shows "\<exists>delta. tick_step py3 d = Inr (PInt delta) \<and> 0 < delta \<and> val d < 20 * of_int delta \<and>
    (1 < val d \<longrightarrow> of_int delta < val d) \<and> (\<not> py3 \<and> \<not> is_float d \<longrightarrow> 2 * of_int delta \<le> val d)"
proof (cases "\<not> py3 \<and> \<not> is_float d")
  case True
  then obtain i where i: "d = PInt i" by (cases d) simp_all
  with assms have "0 < i" "i \<noteq> 1" by auto
  from tick_delta_int [OF this(1)] this(2) obtain delta where delta: "tick_delta d = Inr delta" "0 < delta" "2 * delta \<le> i" "i < 20 * delta"
    unfolding i by fastforce
  then have "(of_int i :: rat) < of_int (20 * delta)" "(of_int (2 * delta) :: rat) \<le> of_int i" "(of_int delta :: rat) < of_int i"
    by (simp_all only: of_int_less_iff of_int_le_iff)
  then show ?thesis using True delta(1,2) i by (simp add: tick_step_2)
next
  case False
  let ?c = "closest_power (val d) 1"
  have c: "0 < ?c" "?c = 1 \<or> of_int ?c < val d" "val d \<le> of_int (?c * 10)"
    using closest_power_bounds [of 1 "val d", OF _ _ one_power] by simp_all
  have q: "py_div py3 d (PInt ?c) = Inr (PFloat (val d / of_int ?c))"
    using False c(1) by (cases d) (auto simp: py_div_def num_div_def)
  have "val d / of_int ?c \<noteq> 1" "val d / of_int ?c \<noteq> 0" using c(1,2) assms by auto
  then have "tick_step py3 d = Inr (PInt ?c)" using q by (simp add: tick_step_def Let_def)
  moreover have "val d < 20 * of_int ?c" using c(1,3) by simp
  moreover have "1 < val d \<longrightarrow> of_int ?c < val d" using c(2) by auto
  ultimately show ?thesis using False c(1) by auto
qed

lemma tick_step_unit:
  assumes "val d = 1"
  shows "tick_step py3 d = Inr (if py3 then PFloat (1 / 10) else PInt 0)"
proof -
  have "closest_power 1 1 = 1" by (simp add: closest_power.simps [of 1 1])
  then show ?thesis using assms by (cases d) (simp_all add: tick_step_def py_div_def num_div_def)
qed

text \<open>C31. The ticks of a scale from \<open>lo\<close> to \<open>hi\<close>, integers or floats, under Python 2 and under Python 3.  Unless the span is
  exactly one unit they are the multiples of one distance between the ends, at most twenty of them; a span of more than
  one unit has a tick, and two when the bounds are integers of Python 2.  A span of one unit raises: under Python 2 the
  distance becomes 0, under Python 3 it becomes a tenth, which \<^verbatim>\<open>range\<close> is given as 0.\<close>

theorem scale_ticks:
  assumes "val lo < val hi" and "len = val hi - val lo"
  shows "if len = 1 then scale_ticks_of py3 lo hi = Inl (if py3 then ValueError else ZeroDivisionError)
    else \<exists>delta xs. tick_step py3 (num_sub hi lo) = Inr (PInt delta) \<and> scale_ticks_of py3 lo hi = Inr xs \<and> sorted_wrt (<) xs \<and>
      set xs = {x. val lo < of_int x \<and> of_int x \<le> val hi \<and> delta dvd x} \<and> length xs \<le> 20 \<and>
      (1 < len \<longrightarrow> 1 \<le> length xs) \<and> (\<not> py3 \<and> \<not> is_float lo \<and> \<not> is_float hi \<longrightarrow> 2 \<le> length xs)"
proof (cases "len = 1")
  case True
  then have "val (num_sub hi lo) = 1" using assms(2) by simp
  moreover have "num_int (PFloat (1 / 10)) = 0" by (simp add: floor_eq_iff)
  ultimately show ?thesis
    using True by (simp add: scale_ticks_of_def tick_step_unit) (simp add: range_ticks_def num_mod_def)
next
  case False
  then obtain delta where d: "tick_step py3 (num_sub hi lo) = Inr (PInt delta)" "0 < delta" "len < 20 * of_int delta"
      "1 < len \<longrightarrow> of_int delta < len" "\<not> py3 \<and> \<not> is_float (num_sub hi lo) \<longrightarrow> 2 * of_int delta \<le> len"
    using tick_step_bounds [of "num_sub hi lo" py3] assms by auto
  let ?a = "\<lfloor>val lo / of_int delta\<rfloor>" and ?b = "\<lfloor>val hi / of_int delta\<rfloor>"
  obtain xs where xs: "range_ticks lo hi (PInt delta) = Inr xs" "sorted_wrt (<) xs"
      "set xs = {x. val lo < of_int x \<and> of_int x \<le> val hi \<and> delta dvd x}" "int (length xs) = ?b - ?a"
    using range_ticks_multiples [OF d(2) less_imp_le [OF assms(1)]] by blast
  have hi: "val hi / of_int delta = val lo / of_int delta + len / of_int delta" using assms(2) by (simp add: add_divide_distrib [symmetric])
  have pos: "0 < (of_int delta :: rat)" using d(2) by simp
  have "len / of_int delta < 20" using d(3) pos by (simp add: pos_divide_less_eq)
  then have "?b \<le> ?a + 20" unfolding hi by linarith
  then have "length xs \<le> 20" using xs(4) by linarith
  moreover have "1 \<le> length xs" if "1 < len"
  proof -
    have "1 < len / of_int delta" using that d(4) pos by (simp add: pos_less_divide_eq)
    then have "?a + 1 \<le> ?b" unfolding hi by linarith
    then show ?thesis using xs(4) by linarith
  qed
  moreover have "2 \<le> length xs" if "\<not> py3 \<and> \<not> is_float lo \<and> \<not> is_float hi"
  proof -
    have "2 \<le> len / of_int delta" using that d(5) pos by (simp add: pos_le_divide_eq)
    then have "?a + 2 \<le> ?b" unfolding hi by linarith
    then show ?thesis using xs(4) by linarith
  qed
  ultimately show ?thesis using False d(1) xs(1-3) by (auto simp: scale_ticks_of_def)
qed

theorem scale_ticks_witness:
  "(\<exists>xs. scale_ticks_of False (PInt 0) (PInt 35) = Inr xs \<and> 2 \<le> length xs \<and> length xs \<le> 20) \<and>
   (\<exists>xs. scale_ticks_of False (PFloat 0) (PFloat 15) = Inr xs \<and> 1 \<le> length xs) \<and>
   scale_ticks_of True (PInt 4) (PInt 5) = Inl ValueError"
proof (intro conjI)
  have "val (PInt 0) < val (PInt 35)" "(35 :: rat) = val (PInt 35) - val (PInt 0)" by simp_all
  from scale_ticks [OF this, of False] show "\<exists>xs. scale_ticks_of False (PInt 0) (PInt 35) = Inr xs \<and> 2 \<le> length xs \<and> length xs \<le> 20"
    by (auto simp del: val.simps)
  have "val (PFloat 0) < val (PFloat 15)" "(15 :: rat) = val (PFloat 15) - val (PFloat 0)" by simp_all
  from scale_ticks [OF this, of False] show "\<exists>xs. scale_ticks_of False (PFloat 0) (PFloat 15) = Inr xs \<and> 1 \<le> length xs"
    by (auto simp del: val.simps)
  have "val (PInt 4) < val (PInt 5)" "(1 :: rat) = val (PInt 5) - val (PInt 4)" by simp_all
  from scale_ticks [OF this, of True] show "scale_ticks_of True (PInt 4) (PInt 5) = Inl ValueError" by simp
qed

text \<open>The scale is laid out with this distance, which fails for a span of one unit.\<close>

lemma layout_scale_step:
  assumes "sc_bounds sc = Some (lo, hi)" and "val lo < val hi"
  shows "layout_scale ext width sc =
    (if val hi - val lo = 1 then Inl ZeroDivisionError
     else res_bind (tick_step False (num_sub hi lo)) (\<lambda>delta.
       Inr (sc\<lparr>sc_delta := num_int delta, sc_width := width, sc_text_height := t_height (ext ALPHABET),
             sc_height := num_add (PFloat (t_height (ext ALPHABET))) (PInt 10)\<rparr>)))"
proof (cases "val hi - val lo = 1")
  case True
  then have "tick_step False (num_sub hi lo) = Inr (PInt 0)" by (simp add: tick_step_unit)
  then have "tick_delta (num_sub hi lo) = Inr 0" by (auto simp: tick_step_2 res_simps)
  then show ?thesis using True assms by (simp add: layout_scale_def attribute_def tick_ends_def num_mod_def)
next
  case False
  obtain delta where "tick_step False (num_sub hi lo) = Inr (PInt delta)" "0 < delta"
    using tick_step_bounds [of "num_sub hi lo" False] assms(2) False by auto
  moreover from this have "tick_delta (num_sub hi lo) = Inr delta" by (auto simp: tick_step_2 res_simps)
  ultimately show ?thesis using False assms by (simp add: layout_scale_def attribute_def tick_ends_def num_mod_def)
qed

end
