(* ===== verification/Grid_View.thy ===== *)
theory Grid_View
  imports Grid_Scale
begin

text \<open>
  The window of \<^verbatim>\<open>utils/grid.py\<close>: the legend, the rows of the time lines and what is drawn in them, the graphic with
  its range of time, and the GTK widget with zooming and dragging.  Sizes of texts are a parameter.  The calls that only
  set pens and fill shapes are not modelled; the shapes themselves are the results of the drawing functions.
\<close>

section \<open>The legend\<close>

record top_legend =
  legends :: "string list"
  legend_colors :: "color list"
  legend_width :: int
  legend_height :: rat

record pen =
  line_used :: rat
  total_height :: rat
  line_height :: rat

definition pen_init :: pen where
  "pen_init = \<lparr>line_used = 10, total_height = 10, line_height = 0\<rparr>"

definition item_width :: "extents \<Rightarrow> rat" where
  "item_width e = 10 + 10 + t_width e + 10"

definition item_height :: "extents \<Rightarrow> rat" where
  "item_height e = t_height e + 10"

text \<open>One turn of the loop that layout and drawing share.\<close>

definition place_item :: "int \<Rightarrow> extents \<Rightarrow> pen \<Rightarrow> pen" where
  "place_item width e p =
     (let lh = (if item_height e > line_height p then item_height e else line_height p) in
      if line_used p + item_width e > of_int width
      then \<lparr>line_used = 10 + item_width e, total_height = total_height p + lh, line_height = lh\<rparr>
      else p\<lparr>line_used := line_used p + item_width e, line_height := lh\<rparr>)"

definition layout_legend :: "(string \<Rightarrow> extents) \<Rightarrow> int \<Rightarrow> top_legend \<Rightarrow> top_legend" where
  "layout_legend ext width l =
     (let p = fold (\<lambda>t. place_item width (ext t)) (legends l) pen_init
      in l\<lparr>legend_width := width, legend_height := total_height p + line_height p\<rparr>)"

record legend_box =
  box_x :: rat
  box_y :: rat
  box_color :: color
  box_text :: string
  box_text_y :: rat

definition draw_item :: "(string \<Rightarrow> extents) \<Rightarrow> top_legend \<Rightarrow> string \<Rightarrow> pen \<times> legend_box list \<Rightarrow> (pen \<times> legend_box list) result" where
  "draw_item ext l t = (\<lambda>(p, boxes).
     let q = place_item (legend_width l) (ext t) p in
     res_bind (py_nth (legend_colors l) (int (length boxes))) (\<lambda>c.
       Inr (q, boxes @ [\<lparr>box_x = line_used q - item_width (ext t), box_y = total_height q, box_color = c, box_text = t,
         box_text_y = total_height q + t_height (ext t)\<rparr>])))"

definition draw_legend :: "(string \<Rightarrow> extents) \<Rightarrow> top_legend \<Rightarrow> legend_box list result" where
  "draw_legend ext l = res_bind (for_each (draw_item ext l) (legends l) (pen_init, [])) (\<lambda>(p, boxes). Inr boxes)"

section \<open>The time lines\<close>

record renderer =
  r_timelines :: "timeline list"
  r_start :: num
  r_end :: num
  left_width :: num
  right_width :: num
  text_height :: rat
  r_width :: num
  r_height :: rat

definition row_names :: "timeline \<Rightarrow> string list" where
  "row_names t = map tr_name (tl_ranges t) @ map te_name (tl_event_int t) @ map te_name (tl_event_str t)"

definition widest :: "(string \<Rightarrow> extents) \<Rightarrow> string list \<Rightarrow> num" where
  "widest ext names = fold (\<lambda>n w. num_max w (PFloat (t_width (ext n)))) names (PInt 0)"

definition layout_timelines :: "(string \<Rightarrow> extents) \<Rightarrow> num \<Rightarrow> renderer \<Rightarrow> renderer" where
  "layout_timelines ext width r =
     (let ts = r_timelines r; mth = t_height (ext ALPHABET);
          left_n = rat_of_nat (length ts);
          range_n = rat_of_nat (sum_list (map (\<lambda>t. length (tl_ranges t)) ts));
          event_n = rat_of_nat (sum_list (map (\<lambda>t. length (tl_event_int t) + length (tl_event_str t)) ts));
          right_n = range_n + event_n;
          left_height = left_n * mth + (left_n - 1) * 10;
          right_height = (right_n - 1) * 10 + right_n * mth;
          data_height = event_n * (mth + 5) + range_n * 10 + (right_n - 1) * 10
      in r\<lparr>left_width := widest ext (map tl_name ts), right_width := widest ext (concat (map row_names ts)),
           text_height := mth, r_width := width, r_height := max (max left_height right_height) data_height + 10\<rparr>)"

definition data_x_start :: "renderer \<Rightarrow> num" where
  "data_x_start r =
     num_add (num_add (num_add (num_add (PInt 5) (left_width r)) (PInt 10)) (right_width r)) (PInt 5)"

text \<open>Where a time is drawn in a row of the given width that starts at \<open>x\<close>.\<close>

definition time_x :: "renderer \<Rightarrow> num \<Rightarrow> num \<Rightarrow> num \<Rightarrow> int result" where
  "time_x r x width t =
     res_bind (num_div (num_mul (num_sub t (r_start r)) width) (num_sub (r_end r) (r_start r)))
       (\<lambda>q. Inr (num_int (num_add x q)))"

text \<open>Events that would be drawn over the one before are left out.\<close>

definition draw_event :: "renderer \<Rightarrow> num \<Rightarrow> num \<Rightarrow> 'v event \<Rightarrow> int \<times> (int \<times> 'v) list \<Rightarrow> (int \<times> (int \<times> 'v) list) result" where
  "draw_event r x width e = (\<lambda>(last_x, drawn).
     res_bind (time_x r x width (PInt (ev_at e))) (\<lambda>real_x.
       Inr (if real_x > last_x + 2 then (real_x, drawn @ [(real_x, evalue e)]) else (last_x, drawn))))"

definition draw_events :: "renderer \<Rightarrow> num \<Rightarrow> num \<Rightarrow> 'v timeline_events \<Rightarrow> (int \<times> 'v) list result" where
  "draw_events r x width t =
     (let (lo, hi) = get_events_bounds (val (r_start r)) (val (r_end r)) t in
      res_bind (for_each (draw_event r x width) (py_slice (events t) lo hi) (num_int x, [])) (\<lambda>(last_x, drawn). Inr drawn))"

record bar =
  bar_x :: int
  bar_width :: int
  bar_color :: color

definition draw_range ::
    "renderer \<Rightarrow> num \<Rightarrow> num \<Rightarrow> data_range \<Rightarrow> (int \<times> bar list) \<times> colors \<Rightarrow> ((int \<times> bar list) \<times> colors) result" where
  "draw_range r x width d = (\<lambda>((last_x, drawn), cs).
     let s = num_max (PInt (rstart d)) (r_start r); e = num_min (PInt (rend d)) (r_end r) in
     res_bind (time_x r x width s) (\<lambda>x_start.
     res_bind (time_x r x width e) (\<lambda>x_end.
       if x_end > last_x then
         res_bind (lookup_color (rvalue d) cs) (\<lambda>(c, cs').
           Inr ((x_end, drawn @ [\<lparr>bar_x = x_start, bar_width = x_end - x_start, bar_color = c\<rparr>]), cs'))
       else Inr ((last_x, drawn), cs))))"

definition draw_ranges :: "renderer \<Rightarrow> num \<Rightarrow> num \<Rightarrow> timeline_ranges \<Rightarrow> colors \<Rightarrow> (bar list \<times> colors) result" where
  "draw_ranges r x width t cs =
     (let (lo, hi) = get_ranges_bounds (val (r_start r)) (val (r_end r)) t in
      res_bind (for_each (draw_range r x width) (py_slice (ranges t) lo hi) ((num_int (num_sub x (PInt 1)), []), cs))
        (\<lambda>((last_x, drawn), cs'). Inr (drawn, cs')))"

text \<open>The rows in the order they are drawn, with their heights; every second one is grey.\<close>

datatype row_data = IntRow "(int \<times> int) list" | StrRow "(int \<times> string) list" | RangeRow "bar list"

record row =
  row_name :: string
  row_y :: rat
  row_grey :: bool
  row_data :: row_data

text \<open>What has been drawn so far: the rows, the texts and the lines, these with their extent.\<close>

record canvas =
  cur_y :: rat
  grey_background :: nat
  rows :: "row list"
  texts :: "(num \<times> rat \<times> string) list"
  rules :: "(num \<times> rat \<times> num \<times> rat) list"
  canvas_colors :: colors

definition put_text :: "(string \<Rightarrow> extents) \<Rightarrow> renderer \<Rightarrow> num \<Rightarrow> string \<Rightarrow> canvas \<Rightarrow> canvas" where
  "put_text ext r x t c = c\<lparr>texts := texts c @ [(x, cur_y c + text_height r - (t_height (ext t) + y_bearing (ext t)), t)]\<rparr>"

definition draw_line :: "num \<Rightarrow> rat \<Rightarrow> num \<Rightarrow> rat \<Rightarrow> canvas \<Rightarrow> canvas" where
  "draw_line x y width height c = c\<lparr>rules := rules c @ [(x, y, width, height)]\<rparr>"

definition right_x_start :: "renderer \<Rightarrow> num" where
  "right_x_start r = num_add (num_add (PInt 5) (left_width r)) (PInt 10)"

text \<open>One row: its name, its data, the step down and the line below.\<close>

definition add_row :: "(string \<Rightarrow> extents) \<Rightarrow> renderer \<Rightarrow> string \<Rightarrow> rat \<Rightarrow> row_data \<Rightarrow> canvas \<Rightarrow> canvas" where
  "add_row ext r n advance d c0 =
     (let c = put_text ext r (right_x_start r) n c0;
          c' = c\<lparr>rows := rows c @ [\<lparr>row_name = n, row_y = cur_y c, row_grey = (grey_background c mod 2 = 0), row_data = d\<rparr>],
                 grey_background := grey_background c + 1, cur_y := cur_y c + advance\<rparr>
      in draw_line (num_sub (right_x_start r) (PInt 5)) (cur_y c' - 5) (num_add (right_width r) (PInt 10)) 0 c')"

definition draw_timeline :: "(string \<Rightarrow> extents) \<Rightarrow> renderer \<Rightarrow> timeline \<Rightarrow> canvas \<Rightarrow> canvas result" where
  "draw_timeline ext r t c0 =
     (let x = data_x_start r; width = num_sub (r_width r) x; mth = text_height r in
      res_bind (for_each (\<lambda>l c. res_bind (draw_events r x width l) (\<lambda>d.
        Inr (add_row ext r (te_name l) (mth + 5 + 10) (IntRow d) c))) (tl_event_int t) (put_text ext r (PInt 5) (tl_name t) c0)) (\<lambda>c1.
      res_bind (for_each (\<lambda>l c. res_bind (draw_events r x width l) (\<lambda>d.
        Inr (add_row ext r (te_name l) (mth + 5 + 10) (StrRow d) c))) (tl_event_str t) c1) (\<lambda>c2.
      res_bind (for_each (\<lambda>l c. res_bind (draw_ranges r x width l (canvas_colors c)) (\<lambda>(d, cs).
        Inr (add_row ext r (tr_name l) (mth + 10) (RangeRow d) (c\<lparr>canvas_colors := cs\<rparr>)))) (tl_ranges t) c2) (\<lambda>c3.
      Inr (draw_line (PInt 0) (cur_y c3 - 5) (r_width r) 0 c3)))))"

definition draw_timelines :: "(string \<Rightarrow> extents) \<Rightarrow> renderer \<Rightarrow> colors \<Rightarrow> canvas result" where
  "draw_timelines ext r cs =
     (let c0 = \<lparr>cur_y = 5, grey_background = 1, rows = [], texts = [], rules = [], canvas_colors = cs\<rparr> in
      res_bind (for_each (draw_timeline ext r) (r_timelines r) (draw_line (PInt 0) 0 (r_width r) 0 c0)) (\<lambda>c.
        Inr (draw_line (num_add (num_add (right_x_start r) (right_width r)) (PInt 5)) 0 (PInt 0) (cur_y c - 5)
          (draw_line (num_add (num_add (PInt 5) (left_width r)) (PInt 5)) 0 (PInt 0) (cur_y c - 5) c))))"

section \<open>The graphic\<close>

record graphic =
  g_start :: num
  g_end :: num
  mid_scale :: scale
  bot_scale :: scale
  g_width :: int
  g_height :: int
  g_range :: "(num \<times> num) option"
  g_data :: renderer
  g_legend :: top_legend

definition new_graphic :: "int \<Rightarrow> int \<Rightarrow> renderer \<Rightarrow> top_legend \<Rightarrow> graphic" where
  "new_graphic start end data l =
     \<lparr>g_start = PFloat (of_int start), g_end = PFloat (of_int end), mid_scale = set_top new_scale,
      bot_scale = set_bot (set_bounds (PInt start) (PInt end) new_scale), g_width = 1, g_height = 1, g_range = None,
      g_data = data, g_legend = l\<rparr>"

definition mid_width :: "graphic \<Rightarrow> num" where
  "mid_width g = num_sub (PInt (g_width g)) (data_x_start (g_data g))"

definition layout_graphic :: "(string \<Rightarrow> extents) \<Rightarrow> int \<Rightarrow> int \<Rightarrow> (graphic, unit) io" where
  "layout_graphic ext width height g =
     (let g1 = g\<lparr>g_width := width, g_height := height, g_legend := layout_legend ext width (g_legend g),
            g_data := layout_timelines ext (PInt width) (g_data g)\<rparr> in
      case layout_scale ext (mid_width g1) (mid_scale g1) of
        Inl e \<Rightarrow> (Inl e, g1)
      | Inr m \<Rightarrow>
          (case layout_scale ext (PInt width) (bot_scale g1) of
             Inl e \<Rightarrow> (Inl e, g1\<lparr>mid_scale := m\<rparr>)
           | Inr b \<Rightarrow> (Inr (), g1\<lparr>mid_scale := m, bot_scale := b\<rparr>)))"

definition clamp_range :: "graphic \<Rightarrow> num \<Rightarrow> num \<Rightarrow> num \<times> num" where
  "clamp_range g start end =
     (num_max (g_start g) (num_min start end), num_min (g_end g) (num_max start end))"

definition set_range :: "(string \<Rightarrow> extents) \<Rightarrow> num \<Rightarrow> num \<Rightarrow> (graphic, unit) io" where
  "set_range ext start end g =
     (let (s, e) = clamp_range g start end in
      layout_graphic ext (g_width g) (g_height g)
        (g\<lparr>g_range := Some (s, e), g_data := (g_data g)\<lparr>r_start := s, r_end := e\<rparr>,
           mid_scale := set_bounds s e (mid_scale g)\<rparr>))"

definition get_range :: "graphic \<Rightarrow> (num \<times> num) result" where
  "get_range g = attribute (g_range g)"

text \<open>The data and the selected part of the lower scale, as left, top, width and height.\<close>

definition get_data_rectangle :: "graphic \<Rightarrow> num \<times> rat \<times> num \<times> rat" where
  "get_data_rectangle g =
     (data_x_start (g_data g), legend_height (g_legend g), mid_width g, r_height (g_data g))"

definition get_selection_rectangle :: "graphic \<Rightarrow> (num \<times> rat \<times> num \<times> rat) result" where
  "get_selection_rectangle g =
     res_bind (attribute (g_range g)) (\<lambda>(s, e).
     res_bind (get_position s (bot_scale g)) (\<lambda>x_start.
     res_bind (get_position e (bot_scale g)) (\<lambda>x_end.
       Inr (x_start, legend_height (g_legend g) + r_height (g_data g) + val (sc_height (mid_scale g)) + 20,
            num_sub x_end x_start, val (sc_height (bot_scale g)) + 20))))"

definition scale_data :: "num \<Rightarrow> graphic \<Rightarrow> num result" where
  "scale_data x g =
     res_bind (attribute (g_range g)) (\<lambda>(s, e).
     res_bind (num_div x (mid_width g)) (\<lambda>q. Inr (num_mul q (num_sub e s))))"

definition scale_selection :: "num \<Rightarrow> graphic \<Rightarrow> num result" where
  "scale_selection x g =
     res_bind (num_div x (PInt (g_width g))) (\<lambda>q. Inr (num_mul q (num_sub (g_end g) (g_start g))))"

text \<open>The range the program starts with; all of it is integer arithmetic.\<close>

definition default_range :: "int \<Rightarrow> int \<Rightarrow> int \<times> int" where
  "default_range lower upper =
     (let mid = (upper - lower) div 2; w = (upper - lower) div 10 in (mid - w div 2, mid + w div 2))"

definition main_graphic :: "(string \<Rightarrow> extents) \<Rightarrow> int \<Rightarrow> int \<Rightarrow> renderer \<Rightarrow> top_legend \<Rightarrow> unit result \<times> graphic" where
  "main_graphic ext lower upper data l =
     (let (lo, hi) = default_range lower upper
      in set_range ext (PInt lo) (PInt hi) (new_graphic lower upper data l))"

section \<open>The widget\<close>

datatype pointer = DefaultPointer | DoubleArrow | Fleur

text \<open>
  The attributes that only the handlers set are options.  \<^verbatim>\<open>__moving_right\<close> is a number because one line of the code
  assigns the width to it; a Boolean is 0 or 1.
\<close>

record widget =
  graph :: graphic
  moving_left :: bool
  moving_right :: int
  moving_both :: bool
  moving_top :: bool
  left_cur :: "num option"
  right_cur :: "num option"
  both_start :: "num option"
  both_cur :: "num option"
  top_start :: "num option"
  top_cur :: "num option"
  full_redraw :: bool
  widget_width :: "int option"
  pointer :: pointer

definition new_widget :: "graphic \<Rightarrow> widget" where
  "new_widget g =
     \<lparr>graph = g, moving_left = False, moving_right = 0, moving_both = False, moving_top = False, left_cur = None,
      right_cur = None, both_start = None, both_cur = None, top_start = None, top_cur = None, full_redraw = True,
      widget_width = None, pointer = DefaultPointer\<rparr>"

text \<open>Reading something of the widget, and changing the range of its graphic.\<close>

definition reading :: "(widget \<Rightarrow> 'a result) \<Rightarrow> (widget, 'a) io" where
  "reading f w = (f w, w)"

definition change_range :: "(string \<Rightarrow> extents) \<Rightarrow> num \<Rightarrow> num \<Rightarrow> (widget, unit) io" where
  "change_range ext start end w =
     (case set_range ext start end (graph w) of
        (Inl e, g) \<Rightarrow> (Inl e, w\<lparr>graph := g\<rparr>)
      | (Inr u, g) \<Rightarrow> (Inr (), w\<lparr>graph := g, full_redraw := True\<rparr>))"

definition set_smaller_zoom :: "(string \<Rightarrow> extents) \<Rightarrow> (widget, unit) io" where
  "set_smaller_zoom ext =
     io_bind (reading (get_range \<circ> graph)) (\<lambda>(s, e). change_range ext s (num_add s (num_mul (num_sub e s) (PInt 2))))"

definition set_bigger_zoom :: "(string \<Rightarrow> extents) \<Rightarrow> (widget, unit) io" where
  "set_bigger_zoom ext =
     io_bind (reading (get_range \<circ> graph)) (\<lambda>(s, e).
     io_bind (reading (\<lambda>w. num_div (num_sub e s) (PInt 2))) (\<lambda>h. change_range ext s (num_add s h)))"

definition size_allocate :: "(string \<Rightarrow> extents) \<Rightarrow> int \<Rightarrow> int \<Rightarrow> (widget, unit) io" where
  "size_allocate ext width height w =
     (case layout_graphic ext width height (graph w) of
        (Inl e, g) \<Rightarrow> (Inl e, w\<lparr>widget_width := Some width, graph := g\<rparr>)
      | (Inr u, g) \<Rightarrow> (Inr (), w\<lparr>widget_width := Some width, graph := g, full_redraw := True\<rparr>))"

text \<open>Strictly inside a stretch.\<close>

definition between :: "rat \<Rightarrow> rat \<Rightarrow> rat \<Rightarrow> bool" where
  "between c start len \<longleftrightarrow> start < c \<and> c < start + len"

definition button_press :: "rat \<Rightarrow> rat \<Rightarrow> (widget, bool) io" where
  "button_press ex ey =
     io_bind (reading (get_selection_rectangle \<circ> graph)) (\<lambda>(x, y, width, height) w.
       let (d_x, d_y, d_width, d_height) = get_data_rectangle (graph w) in
       if between ey y height \<and> \<bar>ex - val x\<bar> < 5 then (Inr True, w\<lparr>moving_left := True\<rparr>)
       else if between ey y height \<and> \<bar>ex - (val x + val width)\<bar> < 5 then (Inr True, w\<lparr>moving_right := 1\<rparr>)
       else if between ey y height \<and> between ex (val x) (val width)
       then (Inr True, w\<lparr>moving_both := True, both_start := Some (PFloat ex), both_cur := Some (PFloat ex)\<rparr>)
       else if between ey d_y d_height \<and> between ex (val d_x) (val d_width)
       then (Inr True, w\<lparr>moving_top := True, top_start := Some (PFloat ex), top_cur := Some (PFloat ex)\<rparr>)
       else (Inr False, w))"

definition button_release :: "(string \<Rightarrow> extents) \<Rightarrow> (widget, bool) io" where
  "button_release ext w =
     (if moving_left w then
        io_bind (reading (\<lambda>w. res_bind (attribute (left_cur w)) (\<lambda>c. scale_selection c (graph w)))) (\<lambda>left.
        io_bind (reading (get_range \<circ> graph)) (\<lambda>(_, right).
        io_bind (change_range ext left right) (\<lambda>_. io_return True))) (w\<lparr>moving_left := False\<rparr>)
      else if moving_right w \<noteq> 0 then
        io_bind (reading (\<lambda>w. res_bind (attribute (right_cur w)) (\<lambda>c. scale_selection c (graph w)))) (\<lambda>right.
        io_bind (reading (get_range \<circ> graph)) (\<lambda>(left, _).
        io_bind (change_range ext left right) (\<lambda>_. io_return True))) (w\<lparr>moving_right := 0\<rparr>)
      else if moving_both w then
        io_bind (reading (\<lambda>w. res_bind (attribute (both_cur w)) (\<lambda>c. res_bind (attribute (both_start w)) (\<lambda>s.
          scale_selection (num_sub c s) (graph w))))) (\<lambda>delta.
        io_bind (reading (get_range \<circ> graph)) (\<lambda>(left, right).
        io_bind (change_range ext (num_add left delta) (num_add right delta)) (\<lambda>_. io_return True))) (w\<lparr>moving_both := False\<rparr>)
      else (Inr False, w\<lparr>moving_top := False\<rparr>))"

text \<open>A motion while something is dragged; the areas to draw again are left out.\<close>

definition drag_left :: "num \<Rightarrow> num \<Rightarrow> rat \<Rightarrow> (widget, bool) io" where
  "drag_left x width ex w =
     (Inr True, w\<lparr>left_cur := Some (if ex \<le> 0 then PInt 0
        else if ex \<ge> val x + val width then num_add x width else PFloat ex)\<rparr>)"

definition drag_right :: "num \<Rightarrow> rat \<Rightarrow> (widget, bool) io" where
  "drag_right x ex =
     io_bind (reading (\<lambda>w. attribute (widget_width w))) (\<lambda>ww w.
       (Inr True, if ex \<ge> of_int ww then w\<lparr>moving_right := ww\<rparr>
         else w\<lparr>right_cur := Some (if ex < val x then x else PFloat ex)\<rparr>))"

definition drag_both :: "num \<Rightarrow> num \<Rightarrow> rat \<Rightarrow> (widget, bool) io" where
  "drag_both x width ex =
     io_bind (reading (\<lambda>w. attribute (widget_width w))) (\<lambda>ww.
     io_bind (reading (\<lambda>w. attribute (both_start w))) (\<lambda>start w.
       let cur_e = num_sub (PInt ww) (num_sub (num_add x width) start); cur_s = num_sub start x
       in (Inr True, w\<lparr>both_cur := Some (if ex < val cur_s then cur_s else if ex > val cur_e then cur_e else PFloat ex)\<rparr>)))"

definition drag_top :: "(string \<Rightarrow> extents) \<Rightarrow> rat \<Rightarrow> (widget, bool) io" where
  "drag_top ext ex =
     io_bind (reading (\<lambda>w. attribute (top_start w))) (\<lambda>start.
     io_bind (io_modify (\<lambda>w. w\<lparr>top_cur := Some (PFloat ex)\<rparr>)) (\<lambda>_.
     io_bind (reading (\<lambda>w. scale_data (num_sub start (PFloat ex)) (graph w))) (\<lambda>delta.
     io_bind (reading (get_range \<circ> graph)) (\<lambda>(left, right).
     io_bind (change_range ext (num_add left delta) (num_add right delta)) (\<lambda>_ w.
       (Inr True, w\<lparr>top_start := Some (PFloat ex)\<rparr>))))))"

definition motion_notify :: "(string \<Rightarrow> extents) \<Rightarrow> rat \<Rightarrow> rat \<Rightarrow> (widget, bool) io" where
  "motion_notify ext ex ey =
     io_bind (reading (get_selection_rectangle \<circ> graph)) (\<lambda>(x, y, width, height) w.
       let (d_x, d_y, d_width, d_height) = get_data_rectangle (graph w) in
       if moving_left w then drag_left x width ex w
       else if moving_right w \<noteq> 0 then drag_right x ex w
       else if moving_both w then drag_both x width ex w
       else if moving_top w then drag_top ext ex w
       else if between ey y height \<and> (\<bar>ex - val x\<bar> < 5 \<or> \<bar>ex - (val x + val width)\<bar> < 5)
       then (Inr True, w\<lparr>pointer := DoubleArrow\<rparr>)
       else if between ey y height \<and> between ex (val x) (val width) then (Inr True, w\<lparr>pointer := Fleur\<rparr>)
       else if between ey d_y d_height \<and> between ex (val d_x) (val d_width) then (Inr True, w\<lparr>pointer := Fleur\<rparr>)
       else (Inr False, w\<lparr>pointer := DefaultPointer\<rparr>))"

section \<open>The legend does not overlap\<close>

lemma place_item_line: "0 \<le> line_height p \<Longrightarrow> 0 \<le> line_height (place_item width e p) \<and>
    line_height p \<le> line_height (place_item width e p) \<and> item_height e \<le> line_height (place_item width e p)"
  by (simp add: place_item_def Let_def)

text \<open>
  Where the item \<open>t\<close> is after it was placed: on the same line as before and to the right of everything there, or below,
  at the left.
\<close>

lemma place_item_cases:
  "total_height (place_item width e p) = total_height p \<and> line_used (place_item width e p) = line_used p + item_width e \<and>
     line_used (place_item width e p) \<le> of_int width \<or>
   total_height (place_item width e p) = total_height p + line_height (place_item width e p) \<and>
     line_used (place_item width e p) = 10 + item_width e"
  by (auto simp: place_item_def Let_def)

definition apart :: "(string \<Rightarrow> extents) \<Rightarrow> legend_box \<Rightarrow> legend_box \<Rightarrow> bool" where
  "apart ext a b \<longleftrightarrow>
     box_y b = box_y a \<and> box_x a + item_width (ext (box_text a)) \<le> box_x b \<or>
     box_y a + item_height (ext (box_text a)) \<le> box_y b"

definition legend_inv :: "(string \<Rightarrow> extents) \<Rightarrow> int \<Rightarrow> pen \<times> legend_box list \<Rightarrow> bool" where
  "legend_inv ext width = (\<lambda>(p, boxes).
     0 \<le> line_height p \<and> 10 \<le> line_used p \<and> sorted_wrt (apart ext) boxes \<and>
     (\<forall>b \<in> set boxes. 10 \<le> box_x b \<and>
       (box_x b = 10 \<or> box_x b + item_width (ext (box_text b)) \<le> of_int width) \<and>
       item_height (ext (box_text b)) \<le> line_height p \<and>
       (box_y b = total_height p \<and> box_x b + item_width (ext (box_text b)) \<le> line_used p \<or>
        box_y b + item_height (ext (box_text b)) \<le> total_height p)))"

lemma draw_item_inv:
  assumes "legend_inv ext (legend_width l) st" and "draw_item ext l t st = Inr st'" and "\<And>t. 0 \<le> t_width (ext t)"
  shows "legend_inv ext (legend_width l) st'"
proof -
  obtain p boxes where st: "st = (p, boxes)" by fastforce
  define q where "q = place_item (legend_width l) (ext t) p"
  obtain c where st': "st' = (q, boxes @ [\<lparr>box_x = line_used q - item_width (ext t), box_y = total_height q, box_color = c,
      box_text = t, box_text_y = total_height q + t_height (ext t)\<rparr>])" (is "_ = (q, boxes @ [?b])")
    using assms(2) st by (auto simp: draw_item_def Let_def res_simps q_def)
  have inv: "0 \<le> line_height p" "10 \<le> line_used p" "sorted_wrt (apart ext) boxes"
    using assms(1) st by (auto simp: legend_inv_def)
  have line: "0 \<le> line_height q" "line_height p \<le> line_height q" "item_height (ext t) \<le> line_height q"
    using place_item_line [OF inv(1)] by (auto simp: q_def)
  have wide: "0 \<le> item_width (ext t)" using assms(3) [of t] by (simp add: item_width_def)
  have old: "10 \<le> box_x b" "box_x b = 10 \<or> box_x b + item_width (ext (box_text b)) \<le> of_int (legend_width l)"
      "item_height (ext (box_text b)) \<le> line_height p"
      "box_y b = total_height p \<and> box_x b + item_width (ext (box_text b)) \<le> line_used p \<or>
        box_y b + item_height (ext (box_text b)) \<le> total_height p" if "b \<in> set boxes" for b
    using assms(1) st that by (auto simp: legend_inv_def)
  from place_item_cases [of "legend_width l" "ext t" p, folded q_def] show ?thesis
  proof
    assume q: "total_height q = total_height p \<and> line_used q = line_used p + item_width (ext t) \<and> line_used q \<le> of_int (legend_width l)"
    have "apart ext b ?b" if "b \<in> set boxes" for b using old(4) [OF that] q by (auto simp: apart_def)
    moreover have "box_y b = total_height q \<and> box_x b + item_width (ext (box_text b)) \<le> line_used q \<or>
        box_y b + item_height (ext (box_text b)) \<le> total_height q" if "b \<in> set boxes" for b
      using old(4) [OF that] q wide by linarith
    ultimately show ?thesis
      using st' q inv line old(1,2,3) wide by (force simp: legend_inv_def sorted_wrt_append)
  next
    assume q: "total_height q = total_height p + line_height q \<and> line_used q = 10 + item_width (ext t)"
    have below: "box_y b + item_height (ext (box_text b)) \<le> total_height q" if "b \<in> set boxes" for b
      using old(3,4) [OF that] q line by linarith
    then have "apart ext b ?b" if "b \<in> set boxes" for b using that by (simp add: apart_def)
    then show ?thesis
      using st' q inv line old(1,2,3) wide below by (force simp: legend_inv_def sorted_wrt_append)
  qed
qed

lemma draw_items_pen:
  "for_each (draw_item ext l) ts (p, boxes) = Inr (q, bs) \<Longrightarrow>
    q = fold (\<lambda>t. place_item (legend_width l) (ext t)) ts p \<and> map box_text bs = map box_text boxes @ ts"
  by (induction ts arbitrary: p boxes) (auto simp: draw_item_def Let_def res_simps)

lemma legend_layout_inv:
  assumes "draw_legend ext (layout_legend ext width l) = Inr boxes" and "\<And>t. 0 \<le> t_width (ext t)"
  shows "\<exists>p. legend_inv ext width (p, boxes) \<and> map box_text boxes = legends l \<and>
    legend_height (layout_legend ext width l) = total_height p + line_height p"
proof -
  let ?l = "layout_legend ext width l"
  have w: "legend_width ?l = width" "legends ?l = legends l" by (simp_all add: layout_legend_def Let_def)
  obtain p where p: "for_each (draw_item ext ?l) (legends l) (pen_init, []) = Inr (p, boxes)"
    using assms(1) w(2) by (auto simp: draw_legend_def res_simps)
  have "legend_inv ext width (pen_init, [])" by (simp add: legend_inv_def pen_init_def)
  then have "legend_inv ext width (p, boxes)"
    by (rule for_each_inv [OF p]) (use draw_item_inv [of ext ?l] assms(2) w(1) in auto)
  moreover have "p = fold (\<lambda>t. place_item width (ext t)) (legends l) pen_init" "map box_text boxes = legends l"
    using draw_items_pen [OF p] w(1) by simp_all
  ultimately show ?thesis by (auto simp: layout_legend_def Let_def)
qed

section \<open>The rows\<close>

lemma for_each_rows:
  assumes "for_each f xs c = Inr d"
    and "\<And>x c d. x \<in> set xs \<Longrightarrow> f x c = Inr d \<Longrightarrow> cur_y d = cur_y c + h x"
  shows "cur_y d = cur_y c + sum_list (map h xs)"
  using assms
proof (induction xs arbitrary: c)
  case (Cons x xs)
  obtain c1 where c1: "f x c = Inr c1" "for_each f xs c1 = Inr d" using Cons.prems(1) by (auto simp: res_simps)
  have "cur_y d = cur_y c1 + sum_list (map h xs)" by (rule Cons.IH [OF c1(2)]) (use Cons.prems(2) in auto)
  moreover have "cur_y c1 = cur_y c + h x" using Cons.prems(2) c1(1) by simp
  ultimately show ?case by simp
qed simp

lemma cur_y_simps [simp]:
  "cur_y (put_text ext r x t c) = cur_y c" "cur_y (draw_line x y w h c) = cur_y c" "cur_y (add_row ext r n a d c) = cur_y c + a"
  by (simp_all add: put_text_def draw_line_def add_row_def Let_def)

definition event_rows :: "timeline \<Rightarrow> nat" where
  "event_rows t = length (tl_event_int t) + length (tl_event_str t)"

lemma draw_timeline_y:
  assumes "draw_timeline ext r t c = Inr d"
  shows "cur_y d = cur_y c + (of_nat (event_rows t) * (text_height r + 15) + of_nat (length (tl_ranges t)) * (text_height r + 10))"
proof -
  let ?events = "\<lambda>k l c. res_bind (draw_events r (data_x_start r) (num_sub (r_width r) (data_x_start r)) l)
      (\<lambda>d. Inr (add_row ext r (te_name l) (text_height r + 5 + 10) (k d) c))"
  obtain c1 c2 c3 where c: "for_each (?events IntRow) (tl_event_int t) (put_text ext r (PInt 5) (tl_name t) c) = Inr c1"
      "for_each (?events StrRow) (tl_event_str t) c1 = Inr c2"
      "for_each (\<lambda>l c. res_bind (draw_ranges r (data_x_start r) (num_sub (r_width r) (data_x_start r)) l (canvas_colors c))
        (\<lambda>(d, cs). Inr (add_row ext r (tr_name l) (text_height r + 10) (RangeRow d) (c\<lparr>canvas_colors := cs\<rparr>)))) (tl_ranges t) c2 = Inr c3"
      "cur_y d = cur_y c3"
    using assms by (auto simp: draw_timeline_def Let_def res_simps)
  have "cur_y c1 = cur_y c + of_nat (length (tl_event_int t)) * (text_height r + 15)"
    by (subst for_each_rows [OF c(1), where h = "\<lambda>_. text_height r + 15"]) (auto simp: res_simps sum_list_triv)
  moreover have "cur_y c2 = cur_y c1 + of_nat (length (tl_event_str t)) * (text_height r + 15)"
    by (subst for_each_rows [OF c(2), where h = "\<lambda>_. text_height r + 15"]) (auto simp: res_simps sum_list_triv)
  moreover have "cur_y c3 = cur_y c2 + of_nat (length (tl_ranges t)) * (text_height r + 10)"
    by (subst for_each_rows [OF c(3), where h = "\<lambda>_. text_height r + 10"]) (auto simp: res_simps sum_list_triv)
  ultimately show ?thesis using c(4) by (simp add: event_rows_def algebra_simps)
qed

lemma draw_timelines_y:
  assumes "draw_timelines ext r cs = Inr c"
  shows "cur_y c = 5 + of_nat (sum_list (map event_rows (r_timelines r))) * (text_height r + 15) +
    of_nat (sum_list (map (\<lambda>t. length (tl_ranges t)) (r_timelines r))) * (text_height r + 10)"
proof -
  obtain c1 where c1: "for_each (draw_timeline ext r) (r_timelines r) (draw_line (PInt 0) 0 (r_width r) 0
      \<lparr>cur_y = 5, grey_background = 1, rows = [], texts = [], rules = [], canvas_colors = cs\<rparr>) = Inr c1" "cur_y c = cur_y c1"
    using assms by (auto simp: draw_timelines_def Let_def res_simps)
  have "cur_y c = 5 + sum_list (map (\<lambda>t. of_nat (event_rows t) * (text_height r + 15) +
      of_nat (length (tl_ranges t)) * (text_height r + 10)) (r_timelines r))"
    using for_each_rows [OF c1(1) draw_timeline_y] c1(2) by simp
  also have "sum_list (map (\<lambda>t. of_nat (event_rows t) * (text_height r + 15) +
      of_nat (length (tl_ranges t)) * (text_height r + 10)) ts) =
    of_nat (sum_list (map event_rows ts)) * (text_height r + 15) +
    of_nat (sum_list (map (\<lambda>t. length (tl_ranges t)) ts)) * (text_height r + 10)" for ts
    by (induction ts) (simp_all add: algebra_simps)
  finally show ?thesis by simp
qed

section \<open>The range\<close>

lemma layout_scale_keeps: "layout_scale ext w sc = Inr sc' \<Longrightarrow> sc_bounds sc' = sc_bounds sc \<and> sc_width sc' = w"
  by (cases "sc_bounds sc") (auto simp: layout_scale_def attribute_def res_simps)

lemma layout_graphic_keeps:
  assumes "layout_graphic ext w h g = (u, g')"
  shows "g_range g' = g_range g" "g_start g' = g_start g" "g_end g' = g_end g" "g_width g' = w"
    "sc_bounds (bot_scale g') = sc_bounds (bot_scale g)" "r_start (g_data g') = r_start (g_data g)" "r_end (g_data g') = r_end (g_data g)"
    "sc_width (bot_scale g) = PInt w \<Longrightarrow> sc_width (bot_scale g') = PInt w"
proof -
  let ?g = "g\<lparr>g_width := w, g_height := h, g_legend := layout_legend ext w (g_legend g),
      g_data := layout_timelines ext (PInt w) (g_data g)\<rparr>"
  have data: "r_start (layout_timelines ext (PInt w) (g_data g)) = r_start (g_data g)"
      "r_end (layout_timelines ext (PInt w) (g_data g)) = r_end (g_data g)"
    by (simp_all add: layout_timelines_def Let_def)
  consider "g' = ?g" | m where "g' = ?g\<lparr>mid_scale := m\<rparr>"
    | m b where "g' = ?g\<lparr>mid_scale := m, bot_scale := b\<rparr>" "layout_scale ext (PInt w) (bot_scale g) = Inr b"
  proof (cases "layout_scale ext (mid_width ?g) (mid_scale g)")
    case (Inl e)
    then have "g' = ?g" using assms by (simp add: layout_graphic_def)
    then show ?thesis by (rule that(1))
  next
    case m: (Inr m)
    show ?thesis
    proof (cases "layout_scale ext (PInt w) (bot_scale g)")
      case (Inl e)
      with m have "g' = ?g\<lparr>mid_scale := m\<rparr>" using assms by (simp add: layout_graphic_def)
      then show ?thesis by (rule that(2))
    next
      case (Inr b)
      with m have "g' = ?g\<lparr>mid_scale := m, bot_scale := b\<rparr>" using assms by (simp add: layout_graphic_def)
      then show ?thesis using Inr by (rule that(3))
    qed
  qed
  note cases = this
  show "g_range g' = g_range g" "g_start g' = g_start g" "g_end g' = g_end g" "g_width g' = w"
    "r_start (g_data g') = r_start (g_data g)" "r_end (g_data g') = r_end (g_data g)"
    by (rule cases; simp add: data)+
  show "sc_bounds (bot_scale g') = sc_bounds (bot_scale g)"
    by (rule cases) (simp_all add: layout_scale_keeps)
  show "sc_width (bot_scale g) = PInt w \<Longrightarrow> sc_width (bot_scale g') = PInt w"
    by (rule cases) (simp_all add: layout_scale_keeps)
qed

lemma set_range_state:
  assumes "set_range ext s e g = (u, g')"
  shows "g_range g' = Some (clamp_range g s e)" "g_start g' = g_start g" "g_end g' = g_end g" "g_width g' = g_width g"
    "sc_bounds (bot_scale g') = sc_bounds (bot_scale g)" "(r_start (g_data g'), r_end (g_data g')) = clamp_range g s e"
    "sc_width (bot_scale g) = PInt (g_width g) \<Longrightarrow> sc_width (bot_scale g') = PInt (g_width g)"
  using layout_graphic_keeps [of ext "g_width g" "g_height g" _ u g'] assms
  by (auto simp: set_range_def split: prod.splits)

text \<open>A graphic of the times from \<open>S\<close> to \<open>E\<close> that was laid out.\<close>

definition shows_span :: "int \<Rightarrow> int \<Rightarrow> graphic \<Rightarrow> bool" where
  "shows_span S E g \<longleftrightarrow>
     S < E \<and> 0 < g_width g \<and> g_start g = PFloat (of_int S) \<and> g_end g = PFloat (of_int E) \<and>
     sc_bounds (bot_scale g) = Some (PInt S, PInt E) \<and> sc_width (bot_scale g) = PInt (g_width g)"

lemma shows_span_set_range: "shows_span S E g \<Longrightarrow> set_range ext s e g = (u, g') \<Longrightarrow> shows_span S E g'"
  using set_range_state [of ext s e g u g'] by (simp add: shows_span_def)

lemma position_float:
  assumes "shows_span S E g" and "is_float a"
  shows "\<exists>x. get_position a (bot_scale g) = Inr x \<and> is_float x \<and>
    val x = (val a - of_int S) * of_int (g_width g) / (of_int E - of_int S)"
proof -
  have "\<exists>q. num_div (num_mul (num_sub a (PInt S)) (PInt (g_width g))) (num_sub (PInt E) (PInt S)) = Inr q \<and>
      val q = val (num_mul (num_sub a (PInt S)) (PInt (g_width g))) / val (num_sub (PInt E) (PInt S)) \<and> is_float q"
    by (rule num_div_float) (use assms in \<open>simp_all add: shows_span_def\<close>)
  then show ?thesis using assms(1) by (auto simp: get_position_def shows_span_def attribute_def)
qed

lemma scale_selection_float:
  assumes "shows_span S E g"
  shows "\<exists>q. scale_selection c g = Inr q \<and> is_float q \<and>
    (is_float c \<or> val c = 0 \<longrightarrow> val q = val c / of_int (g_width g) * (of_int E - of_int S))"
proof (cases c)
  case (PInt i)
  then show ?thesis using assms by (simp add: scale_selection_def num_div_def shows_span_def)
next
  case (PFloat r)
  then show ?thesis using assms by (simp add: scale_selection_def num_div_def shows_span_def num_mul_def num_sub_def)
qed

section \<open>Dragging\<close>

text \<open>GTK calls a handler, prints its exception if there is one, and goes on.\<close>

definition callback :: "(widget, bool) io \<Rightarrow> widget \<Rightarrow> widget" where
  "callback m w = snd (m w)"

definition motions :: "(string \<Rightarrow> extents) \<Rightarrow> (rat \<times> rat) list \<Rightarrow> widget \<Rightarrow> widget" where
  "motions ext ms = fold (\<lambda>(ex, ey). callback (motion_notify ext ex ey)) ms"

definition drag :: "(string \<Rightarrow> extents) \<Rightarrow> rat \<Rightarrow> rat \<Rightarrow> (rat \<times> rat) list \<Rightarrow> widget \<Rightarrow> widget" where
  "drag ext px py ms w = callback (button_release ext) (motions ext ms (callback (button_press px py) w))"

definition idle :: "widget \<Rightarrow> bool" where
  "idle w \<longleftrightarrow> \<not> moving_left w \<and> moving_right w = 0 \<and> \<not> moving_both w \<and> \<not> moving_top w"

text \<open>
  A widget whose graphic shows the times from \<open>S\<close> to \<open>E\<close> and the range from \<open>a\<close> to \<open>b\<close> within.  The program starts with
  a range of integers; dragging makes floats of them.
\<close>

definition shows_range :: "int \<Rightarrow> int \<Rightarrow> num \<Rightarrow> num \<Rightarrow> widget \<Rightarrow> bool" where
  "shows_range S E a b w \<longleftrightarrow>
     shows_span S E (graph w) \<and> g_range (graph w) = Some (a, b) \<and>
     of_int S \<le> val a \<and> val a \<le> val b \<and> val b \<le> of_int E \<and> widget_width w = Some (g_width (graph w))"

definition shows_floats :: "int \<Rightarrow> int \<Rightarrow> num \<Rightarrow> num \<Rightarrow> widget \<Rightarrow> bool" where
  "shows_floats S E a b w \<longleftrightarrow> shows_range S E a b w \<and> is_float a \<and> is_float b"

text \<open>The pixel of a time on the lower scale.\<close>

definition pixel :: "int \<Rightarrow> int \<Rightarrow> int \<Rightarrow> rat \<Rightarrow> rat" where
  "pixel S E width t = (t - of_int S) * of_int width / (of_int E - of_int S)"

lemma pixel_mono: "S < E \<Longrightarrow> 0 < width \<Longrightarrow> t \<le> u \<Longrightarrow> pixel S E width t \<le> pixel S E width u"
  by (simp add: pixel_def divide_right_mono mult_right_mono)

lemma pixel_ends: "S < E \<Longrightarrow> pixel S E width (of_int S) = 0" "S < E \<Longrightarrow> pixel S E width (of_int E) = of_int width"
  by (simp_all add: pixel_def)

lemma pixel_shift:
  assumes "S < E" and "0 < width"
  shows "pixel S E width (t + d / of_int width * (of_int E - of_int S)) = pixel S E width t + d"
  using assms by (simp add: pixel_def field_simps)

lemma pixel_le_iff: "S < E \<Longrightarrow> 0 < width \<Longrightarrow> pixel S E width t \<le> pixel S E width u \<longleftrightarrow> t \<le> u"
  by (simp add: pixel_def divide_le_cancel)

text \<open>Where the end of a range is drawn: the position of an integer is rounded down.\<close>

definition place :: "int \<Rightarrow> int \<Rightarrow> int \<Rightarrow> num \<Rightarrow> rat" where
  "place S E width n = (if is_float n then pixel S E width (val n) else of_int \<lfloor>pixel S E width (val n)\<rfloor>)"

lemma place_bounds:
  "place S E width n \<le> pixel S E width (val n)" "pixel S E width (val n) < place S E width n + 1"
  "0 \<le> pixel S E width (val n) \<Longrightarrow> 0 \<le> place S E width n" "is_float n \<Longrightarrow> place S E width n = pixel S E width (val n)"
  by (simp_all add: place_def) linarith

lemma place_mono:
  assumes "pixel S E width (val a) \<le> pixel S E width (val b)"
  shows "place S E width a \<le> place S E width b + 1"
  using place_bounds(1) [of S E width a] place_bounds(2) [of S E width b] assms by linarith

lemma position_place:
  assumes "shows_span S E g"
  shows "\<exists>x. get_position a (bot_scale g) = Inr x \<and> val x = place S E (g_width g) a \<and> (is_float a \<longrightarrow> is_float x)"
proof (cases "is_float a")
  case True
  then show ?thesis using position_float [OF assms True] by (auto simp: place_def pixel_def)
next
  case False
  then obtain i where i: "a = PInt i" by (cases a) simp_all
  have "(of_int i - of_int S :: rat) * of_int (g_width g) / (of_int E - of_int S) = of_int ((i - S) * g_width g) / of_int (E - S)" by simp
  then have "\<lfloor>pixel S E (g_width g) (of_int i)\<rfloor> = (i - S) * g_width g div (E - S)"
    unfolding pixel_def by (simp only: floor_divide_of_int_eq)
  then show ?thesis
    using assms i by (simp add: get_position_def shows_span_def attribute_def num_div_def num_sub_def num_mul_def place_def)
qed

lemma selection_place:
  assumes "shows_range S E a b w"
  shows "\<exists>x y width height. get_selection_rectangle (graph w) = Inr (x, y, width, height) \<and>
    val x = place S E (g_width (graph w)) a \<and> val x + val width = place S E (g_width (graph w)) b \<and>
    (is_float a \<longrightarrow> is_float x \<and> is_float width)"
proof -
  have s: "shows_span S E (graph w)" "g_range (graph w) = Some (a, b)"
    using assms by (simp_all add: shows_range_def)
  obtain x x' where "get_position a (bot_scale (graph w)) = Inr x" "val x = place S E (g_width (graph w)) a" "is_float a \<longrightarrow> is_float x"
      "get_position b (bot_scale (graph w)) = Inr x'" "val x' = place S E (g_width (graph w)) b"
    using position_place [OF s(1)] by metis
  then show ?thesis using s(2) by (simp add: get_selection_rectangle_def attribute_def)
qed

lemma selection_rectangle:
  assumes "shows_floats S E a b w"
  shows "\<exists>x y width height. get_selection_rectangle (graph w) = Inr (x, y, width, height) \<and> is_float x \<and> is_float width \<and>
    val x = pixel S E (g_width (graph w)) (val a) \<and> val x + val width = pixel S E (g_width (graph w)) (val b)"
  using selection_place [of S E a b w] assms by (auto simp: shows_floats_def place_bounds(4))

text \<open>While a flag of the selection is set, motions change nothing but the place they remember.\<close>

definition clamp :: "rat \<Rightarrow> rat \<Rightarrow> rat \<Rightarrow> rat" where
  "clamp lo hi x = (if x < lo then lo else if x > hi then hi else x)"

definition dragging_both :: "widget \<Rightarrow> rat \<Rightarrow> rat \<Rightarrow> widget \<Rightarrow> bool" where
  "dragging_both w0 px c w \<longleftrightarrow>
     graph w = graph w0 \<and> widget_width w = widget_width w0 \<and> \<not> moving_left w \<and> moving_right w = 0 \<and> moving_both w \<and>
     \<not> moving_top w \<and> both_start w = Some (PFloat px) \<and> (\<exists>n. both_cur w = Some n \<and> is_float n \<and> val n = c)"

lemma motion_both:
  assumes "shows_range S E a b w0" and "dragging_both w0 px c w"
  shows "dragging_both w0 px
    (clamp (px - place S E (g_width (graph w0)) a) (of_int (g_width (graph w0)) - (place S E (g_width (graph w0)) b - px)) ex)
    (callback (motion_notify ext ex ey) w)"
proof -
  obtain x y wd h where r: "get_selection_rectangle (graph w0) = Inr (x, y, wd, h)"
      "val x = place S E (g_width (graph w0)) a" "val x + val wd = place S E (g_width (graph w0)) b"
    using selection_place [OF assms(1)] by blast
  have w: "graph w = graph w0" "\<not> moving_left w" "moving_right w = 0" "moving_both w" "both_start w = Some (PFloat px)"
      "widget_width w = Some (g_width (graph w0))"
    using assms by (simp_all add: dragging_both_def shows_range_def)
  have "callback (motion_notify ext ex ey) w = snd (drag_both x wd ex w)"
    using w r(1) by (simp add: callback_def motion_notify_def reading_def get_data_rectangle_def)
  also have "\<dots> = w\<lparr>both_cur := Some (if ex < val (num_sub (PFloat px) x) then num_sub (PFloat px) x
      else if ex > val (num_sub (PInt (g_width (graph w0))) (num_sub (num_add x wd) (PFloat px)))
      then num_sub (PInt (g_width (graph w0))) (num_sub (num_add x wd) (PFloat px)) else PFloat ex)\<rparr>"
    using w by (simp add: drag_both_def reading_def attribute_def Let_def)
  finally show ?thesis
    using assms(2) r(2,3) by (simp add: dragging_both_def clamp_def algebra_simps)
qed

lemma motions_both:
  assumes "shows_range S E a b w0" and "dragging_both w0 px c w"
  shows "dragging_both w0 px
    (if ms = [] then c else
      clamp (px - place S E (g_width (graph w0)) a) (of_int (g_width (graph w0)) - (place S E (g_width (graph w0)) b - px))
        (fst (last ms))) (motions ext ms w)"
  using assms(2)
proof (induction ms arbitrary: c w)
  case (Cons m ms)
  obtain ex ey where m: "m = (ex, ey)" by fastforce
  from Cons.IH [OF motion_both [OF assms(1) Cons.prems, of ex ext ey]] m show ?case by (cases "ms = []") (simp_all add: motions_def)
qed (simp add: motions_def)

lemma release_both:
  assumes "shows_range S E a b w0" and "dragging_both w0 px c w"
  shows "\<exists>a' b'. g_range (graph (callback (button_release ext) w)) = Some (a', b') \<and>
    val a' = max (of_int S) (val a + (c - px) / of_int (g_width (graph w0)) * (of_int E - of_int S)) \<and>
    val b' = min (of_int E) (val b + (c - px) / of_int (g_width (graph w0)) * (of_int E - of_int S)) \<and>
    idle (callback (button_release ext) w)"
proof -
  obtain n where w: "graph w = graph w0" "\<not> moving_left w" "moving_right w = 0" "moving_both w" "\<not> moving_top w"
      "both_start w = Some (PFloat px)" "both_cur w = Some n" "is_float n" "val n = c"
    using assms(2) by (auto simp: dragging_both_def)
  have s: "shows_span S E (graph w0)" "g_range (graph w0) = Some (a, b)" "val a \<le> val b"
    using assms(1) by (simp_all add: shows_range_def)
  obtain q where q: "scale_selection (num_sub n (PFloat px)) (graph w0) = Inr q"
      "val q = (c - px) / of_int (g_width (graph w0)) * (of_int E - of_int S)"
    using scale_selection_float [OF s(1), of "num_sub n (PFloat px)"] w(8,9) by auto
  let ?w = "w\<lparr>moving_both := False\<rparr>"
  obtain u g where g: "set_range ext (num_add a q) (num_add b q) (graph w0) = (u, g)" by fastforce
  have "callback (button_release ext) w = snd (io_bind (change_range ext (num_add a q) (num_add b q)) (\<lambda>_. io_return True) ?w)"
    using w q(1) s(2) by (simp add: callback_def button_release_def reading_def attribute_def get_range_def io_bind_def)
  also have "\<dots> = (case u of Inl e \<Rightarrow> ?w\<lparr>graph := g\<rparr> | Inr x \<Rightarrow> ?w\<lparr>graph := g, full_redraw := True\<rparr>)"
    using g w(1) by (simp add: io_bind_def change_range_def split: sum.splits)
  finally have fin: "graph (callback (button_release ext) w) = g" "idle (callback (button_release ext) w)"
    using w by (simp_all add: idle_def split: sum.splits)
  have "g_range g = Some (clamp_range (graph w0) (num_add a q) (num_add b q))" by (rule set_range_state(1) [OF g])
  then show ?thesis using fin s(1,3) q(2) by (simp add: clamp_range_def shows_span_def)
qed

text \<open>The same for the left edge; it is remembered only when the pointer moves.\<close>

definition dragging_left :: "widget \<Rightarrow> rat option \<Rightarrow> widget \<Rightarrow> bool" where
  "dragging_left w0 c w \<longleftrightarrow>
     graph w = graph w0 \<and> widget_width w = widget_width w0 \<and> moving_left w \<and> moving_right w = 0 \<and> \<not> moving_both w \<and>
     \<not> moving_top w \<and> (case c of None \<Rightarrow> left_cur w = left_cur w0 | Some x \<Rightarrow> \<exists>n. left_cur w = Some n \<and> val n = x \<and> (is_float n \<or> x = 0))"

lemma motion_left:
  assumes "shows_floats S E a b w0" and "dragging_left w0 c w"
  shows "dragging_left w0 (Some (if ex \<le> 0 then 0 else min ex (pixel S E (g_width (graph w0)) (val b))))
    (callback (motion_notify ext ex ey) w)"
proof -
  obtain x y wd h where r: "get_selection_rectangle (graph w0) = Inr (x, y, wd, h)"
      "val x + val wd = pixel S E (g_width (graph w0)) (val b)"
    using selection_rectangle [OF assms(1)] by blast
  have "is_float x" using selection_rectangle [OF assms(1)] r(1) by auto
  have "callback (motion_notify ext ex ey) w = snd (drag_left x wd ex w)"
    using assms(2) r(1) by (simp add: dragging_left_def callback_def motion_notify_def reading_def get_data_rectangle_def)
  then show ?thesis using assms(2) r(2) \<open>is_float x\<close> by (simp add: dragging_left_def drag_left_def)
qed

lemma motions_left:
  assumes "shows_floats S E a b w0" and "dragging_left w0 c w" and "ms \<noteq> []"
  shows "dragging_left w0 (Some (if fst (last ms) \<le> 0 then 0 else min (fst (last ms)) (pixel S E (g_width (graph w0)) (val b))))
    (motions ext ms w)"
  using assms(2,3)
proof (induction ms arbitrary: c w)
  case (Cons m ms)
  obtain ex ey where m: "m = (ex, ey)" by fastforce
  note step = motion_left [OF assms(1) Cons.prems(1), of ex ext ey]
  show ?case
  proof (cases "ms = []")
    case True
    then have "fst (last (m # ms)) = ex" "motions ext (m # ms) w = callback (motion_notify ext ex ey) w"
      using m by (simp_all add: motions_def)
    then show ?thesis using step by (simp only:)
  next
    case False
    then have "fst (last (m # ms)) = fst (last ms)" by simp
    moreover have "motions ext (m # ms) w = motions ext ms (callback (motion_notify ext ex ey) w)"
      using m by (simp add: motions_def)
    ultimately show ?thesis using Cons.IH [OF step False] by (simp only:)
  qed
qed simp

lemma press_left:
  assumes "shows_floats S E a b w" and "idle w" and "get_selection_rectangle (graph w) = Inr (x, y, width, height)"
    and "between py y height" and "\<bar>px - val x\<bar> < 5"
  shows "dragging_left w None (callback (button_press px py) w)"
  using assms
  by (simp add: callback_def button_press_def reading_def get_data_rectangle_def dragging_left_def idle_def io_bind_def)

section \<open>Properties\<close>

text \<open>
  Whatever range is asked for, the one set is its part within the span of the data; it is in order exactly when
  the range asked for meets that span, and otherwise its ends are exchanged.
\<close>

theorem set_range_clamps:
  assumes "shows_span S E g"
  shows "\<exists>a b. g_range (snd (set_range ext s e g)) = Some (a, b) \<and>
    val a = max (of_int S) (min (val s) (val e)) \<and> val b = min (of_int E) (max (val s) (val e)) \<and>
    (val a \<le> val b \<longleftrightarrow> min (val s) (val e) \<le> of_int E \<and> of_int S \<le> max (val s) (val e)) \<and>
    shows_span S E (snd (set_range ext s e g))"
proof -
  obtain u g' where g: "set_range ext s e g = (u, g')" by fastforce
  from assms shows_span_set_range [OF assms g] set_range_state(1) [OF g] g show ?thesis
    by (auto simp: clamp_range_def shows_span_def)
qed

text \<open>C30. Dragging the selected range, whether of integers, as the program starts with, or of floats: both ends move by the time
  that belongs to the way of the pointer, which counts as far as the drawn selection reaches the edges of the window.  The
  range stays within the data and the widget is idle again.  The length is kept exactly for a range that ends in a float;
  an integer end, whose place is rounded down, can lose less than the time of one pixel at the right edge.\<close>

theorem drag_moves_selection:
  assumes "shows_range S E a b w" and "idle w" and "get_selection_rectangle (graph w) = Inr (x, y, width, height)"
    and "between py y height" and "5 \<le> \<bar>px - val x\<bar>" and "5 \<le> \<bar>px - (val x + val width)\<bar>" and "between px (val x) (val width)"
    and "W = of_int (g_width (graph w))"
    and "way = (if ms = [] then 0 else clamp (- val x) (W - (val x + val width)) (fst (last ms) - px))"
    and "time = way / W * (of_int E - of_int S)"
  shows "\<exists>a' b'. g_range (graph (drag ext px py ms w)) = Some (a', b') \<and> idle (drag ext px py ms w) \<and>
    val a' = val a + time \<and> val b' = min (of_int E) (val b + time) \<and> of_int S \<le> val a' \<and>
    (if is_float b then val b' - val a' = val b - val a
     else val b - val a - (of_int E - of_int S) / W < val b' - val a' \<and> val b' - val a' \<le> val b - val a)"
proof -
  let ?w = "g_width (graph w)"
  let ?xa = "pixel S E ?w (val a)" and ?xb = "pixel S E ?w (val b)"
  have s: "S < E" "0 < ?w" "of_int S \<le> val a" "val a \<le> val b" "val b \<le> of_int E"
    using assms(1) by (simp_all add: shows_range_def shows_span_def)
  have r: "val x = place S E ?w a" "val x + val width = place S E ?w b"
    using selection_place [OF assms(1)] assms(3) by auto
  have "dragging_both w px px (callback (button_press px py) w)"
    using assms(2-7)
    by (simp add: callback_def button_press_def reading_def get_data_rectangle_def dragging_both_def idle_def io_bind_def)
  note motions_both [OF assms(1) this, of ms ext, folded r, folded assms(8)]
  then obtain c where c: "dragging_both w px c (motions ext ms (callback (button_press px py) w))"
      "c = (if ms = [] then px else clamp (px - val x) (W - (val x + val width - px)) (fst (last ms)))"
    by blast
  have in_: "0 \<le> ?xa" "?xb \<le> W"
    using pixel_mono [OF s(1,2,3)] pixel_mono [OF s(1,2,5)] pixel_ends [OF s(1), of ?w] assms(8) by simp_all
  have edges: "0 \<le> val x" "val x \<le> ?xa" "val x + val width \<le> ?xb" "?xb < val x + val width + 1"
    using in_(1) by (simp_all only: r(2) place_bounds) (simp_all only: r(1) place_bounds)
  have "0 < val width" using assms(7) by (simp add: between_def)
  then have way: "c - px = way" "- val x \<le> way" "way \<le> W - (val x + val width)"
    unfolding c(2) assms(9) using edges in_ by (auto simp: clamp_def)
  have shift: "pixel S E ?w (val a + time) = ?xa + way" "pixel S E ?w (val b + time) = ?xb + way"
    unfolding assms(10,8) by (rule pixel_shift [OF s(1,2)])+
  have left: "of_int S \<le> val a + time"
    using pixel_le_iff [OF s(1,2), of "of_int S" "val a + time"] shift(1) edges way(2) pixel_ends(1) [OF s(1), of ?w] by linarith
  have exact: "val b + time \<le> of_int E" if "is_float b"
    using pixel_le_iff [OF s(1,2), of "val b + time" "of_int E"] shift(2) way(3) pixel_ends(2) [OF s(1), of ?w] that assms(8) r(2)
    by (simp add: place_bounds(4))
  have near: "val b + time < of_int E + (of_int E - of_int S) / W"
  proof -
    have e: "(of_int E - of_int S :: rat) / W = 1 / of_int ?w * (of_int E - of_int S)" using assms(8) by simp
    have "pixel S E ?w (of_int E + (of_int E - of_int S) / W) = W + 1"
      unfolding e using pixel_shift [OF s(1,2), of "of_int E" 1] pixel_ends(2) [OF s(1), of ?w] assms(8) by simp
    then have "\<not> pixel S E ?w (of_int E + (of_int E - of_int S) / W) \<le> pixel S E ?w (val b + time)"
      using shift(2) way(3) edges by simp
    then show ?thesis by (simp only: pixel_le_iff [OF s(1,2)] not_le)
  qed
  obtain a' b' where ab: "g_range (graph (drag ext px py ms w)) = Some (a', b')" "idle (drag ext px py ms w)"
      "val a' = max (of_int S) (val a + time)" "val b' = min (of_int E) (val b + time)"
    using release_both [OF assms(1) c(1), of ext, folded assms(8), unfolded way(1), folded assms(10)] by (auto simp: drag_def)
  then have a': "val a' = val a + time" using left by simp
  have "0 < (of_int E - of_int S :: rat) / W" using s(1,2) assms(8) by simp
  then have "val b - val a - (of_int E - of_int S) / W < val b' - val a'" "val b' - val a' \<le> val b - val a"
    using near unfolding ab(4) a' by simp_all
  moreover have "is_float b \<Longrightarrow> val b' - val a' = val b - val a" using exact unfolding ab(4) a' by simp
  ultimately show ?thesis using ab a' left by auto
qed

text \<open>
  When the data starts at time 0, dragging the left edge of the selection puts it where the pointer was last, at most at
  the right edge, which stays.
\<close>

theorem left_edge_follows:
  assumes "shows_floats 0 E a b w" and "idle w" and "get_selection_rectangle (graph w) = Inr (x, y, width, height)"
    and "between py y height" and "\<bar>px - val x\<bar> < 5" and "ms \<noteq> []"
  shows "\<exists>a' b'. g_range (graph (drag ext px py ms w)) = Some (a', b') \<and> val b' = val b \<and> idle (drag ext px py ms w) \<and>
    pixel 0 E (g_width (graph w)) (val a') =
      (if fst (last ms) \<le> 0 then 0 else min (fst (last ms)) (pixel 0 E (g_width (graph w)) (val b)))"
proof -
  let ?W = "g_width (graph w)"
  let ?c = "if fst (last ms) \<le> 0 then 0 else min (fst (last ms)) (pixel 0 E ?W (val b))"
  define w1 where "w1 = motions ext ms (callback (button_press px py) w)"
  have s: "shows_span 0 E (graph w)" "g_range (graph w) = Some (a, b)" "0 < E" "0 < ?W" "0 \<le> val a" "val a \<le> val b" "val b \<le> of_int E"
    using assms(1) by (simp_all add: shows_floats_def shows_range_def shows_span_def)
  have "dragging_left w (Some ?c) w1"
    unfolding w1_def by (rule motions_left [OF assms(1) press_left [OF assms(1-5)] assms(6)])
  then obtain n where w1: "graph w1 = graph w" "moving_left w1" "moving_right w1 = 0" "\<not> moving_both w1" "\<not> moving_top w1"
      "left_cur w1 = Some n" "val n = ?c" "is_float n \<or> ?c = 0"
    by (auto simp: dragging_left_def)
  have c: "0 \<le> ?c" "?c \<le> pixel 0 E ?W (val b)"
    using pixel_mono [OF s(3,4), of 0 "val b"] pixel_ends(1) [OF s(3), of ?W] s(5,6) by (auto split: if_splits)
  obtain q where q: "scale_selection n (graph w) = Inr q" "val q = ?c / of_int ?W * of_int E"
    using that scale_selection_float [OF s(1), of n] w1(7,8) by auto
  let ?w = "w1\<lparr>moving_left := False\<rparr>"
  obtain u g where g: "set_range ext q b (graph w) = (u, g)" by fastforce
  have "callback (button_release ext) w1 = snd (io_bind (change_range ext q b) (\<lambda>_. io_return True) ?w)"
    using w1 q(1) s(2) by (simp add: callback_def button_release_def reading_def attribute_def get_range_def io_bind_def)
  also have "\<dots> = (case u of Inl e \<Rightarrow> ?w\<lparr>graph := g\<rparr> | Inr x \<Rightarrow> ?w\<lparr>graph := g, full_redraw := True\<rparr>)"
    using g w1(1) by (simp add: io_bind_def change_range_def split: sum.splits)
  finally have fin: "graph (drag ext px py ms w) = g" "idle (drag ext px py ms w)"
    using w1 by (simp_all add: idle_def drag_def w1_def split: sum.splits)
  have px: "pixel 0 E ?W (val q) = ?c" using pixel_shift [OF s(3,4), of 0 ?c] pixel_ends(1) [OF s(3), of ?W] q(2) by simp
  then have "0 \<le> val q" "val q \<le> val b"
    using c pixel_le_iff [OF s(3,4), of 0 "val q"] pixel_le_iff [OF s(3,4), of "val q" "val b"] pixel_ends(1) [OF s(3), of ?W]
    by simp_all
  then show ?thesis
    using set_range_state(1) [OF g] fin s(1,7) px by (simp add: clamp_range_def shows_span_def)
qed

text \<open>
  Before anything was dragged, a click on the left edge that does not move raises \<^verbatim>\<open>AttributeError\<close>, and so does
  dragging the right edge to the end of the window: the line for this case sets the flag and not the place.
\<close>

theorem edge_drag_errors:
  assumes "shows_floats S E a b w" and "idle w" and "get_selection_rectangle (graph w) = Inr (x, y, width, height)"
    and "between py y height"
  shows "(\<bar>px - val x\<bar> < 5 \<and> left_cur w = None \<longrightarrow>
      fst (button_release ext (callback (button_press px py) w)) = Inl AttributeError \<and> graph (drag ext px py [] w) = graph w) \<and>
    (5 \<le> \<bar>px - val x\<bar> \<and> \<bar>px - (val x + val width)\<bar> < 5 \<and> of_int (g_width (graph w)) \<le> ex \<and> right_cur w = None \<longrightarrow>
      fst (button_release ext (motions ext [(ex, ey)] (callback (button_press px py) w))) = Inl AttributeError \<and>
      graph (drag ext px py [(ex, ey)] w) = graph w)"
proof (intro conjI impI)
  assume "\<bar>px - val x\<bar> < 5 \<and> left_cur w = None"
  then have "dragging_left w None (callback (button_press px py) w)" "left_cur w = None"
    using press_left [OF assms(1-4)] by simp_all
  then have "button_release ext (callback (button_press px py) w) =
      (Inl AttributeError, (callback (button_press px py) w)\<lparr>moving_left := False\<rparr>)" "graph (callback (button_press px py) w) = graph w"
    by (simp_all add: button_release_def dragging_left_def reading_def attribute_def io_bind_def)
  then show "fst (button_release ext (callback (button_press px py) w)) = Inl AttributeError"
    "graph (drag ext px py [] w) = graph w"
    by (simp_all add: drag_def motions_def callback_def)
next
  assume p: "5 \<le> \<bar>px - val x\<bar> \<and> \<bar>px - (val x + val width)\<bar> < 5 \<and> of_int (g_width (graph w)) \<le> ex \<and> right_cur w = None"
  let ?w1 = "w\<lparr>moving_right := 1\<rparr>"
  let ?w2 = "w\<lparr>moving_right := g_width (graph w)\<rparr>"
  have W: "0 < g_width (graph w)" "widget_width w = Some (g_width (graph w))"
    using assms(1) by (simp_all add: shows_floats_def shows_range_def shows_span_def)
  have "callback (button_press px py) w = ?w1"
    using p assms(2-4) by (simp add: callback_def button_press_def reading_def get_data_rectangle_def io_bind_def)
  moreover have "motions ext [(ex, ey)] ?w1 = ?w2"
    using p assms(2,3) W
    by (simp add: motions_def callback_def motion_notify_def reading_def get_data_rectangle_def io_bind_def idle_def drag_right_def
        attribute_def)
  moreover have "button_release ext ?w2 = (Inl AttributeError, w\<lparr>moving_right := 0\<rparr>)"
    using p assms(2) W by (simp add: button_release_def idle_def reading_def attribute_def io_bind_def)
  ultimately show "fst (button_release ext (motions ext [(ex, ey)] (callback (button_press px py) w))) = Inl AttributeError"
    "graph (drag ext px py [(ex, ey)] w) = graph w"
    by (simp_all add: drag_def callback_def)
qed

text \<open>Zooming in and out again gives the same range.\<close>

theorem zoom_in_out:
  assumes "shows_floats S E a b w"
  shows "\<exists>a' b'. g_range (graph (snd (set_smaller_zoom ext (snd (set_bigger_zoom ext w))))) = Some (a', b') \<and>
    val a' = val a \<and> val b' = val b"
proof -
  have s: "shows_span S E (graph w)" "g_range (graph w) = Some (a, b)" "is_float a" "is_float b"
      "of_int S \<le> val a" "val a \<le> val b" "val b \<le> of_int E"
    using assms by (simp_all add: shows_floats_def shows_range_def)
  have change: "g_range (graph (snd (change_range ext p q v))) = Some (clamp_range (graph v) p q) \<and>
      shows_span S E (graph (snd (change_range ext p q v)))" if v: "shows_span S E (graph v)" for p q v
  proof -
    obtain u g where "set_range ext p q (graph v) = (u, g)" by fastforce
    with shows_span_set_range [OF v this] set_range_state(1) [OF this] show ?thesis
      by (cases u) (simp_all add: change_range_def)
  qed
  obtain h where h: "num_div (num_sub b a) (PInt 2) = Inr h" "val h = (val b - val a) / 2" "is_float h"
    using num_div_float [of "num_sub b a" "PInt 2"] s(3,4) by auto
  define w1 where "w1 = snd (set_bigger_zoom ext w)"
  have "w1 = snd (change_range ext a (num_add a h) w)"
    using s(2) h(1) by (simp add: w1_def set_bigger_zoom_def reading_def get_range_def attribute_def io_bind_def)
  with change [OF s(1), of a "num_add a h"]
  have 1: "g_range (graph w1) = Some (clamp_range (graph w) a (num_add a h))" "shows_span S E (graph w1)" by simp_all
  have mid: "val a + (val b - val a) / 2 \<le> of_int E" "val a \<le> val a + (val b - val a) / 2" using s(6,7) by (simp_all add: field_simps)
  obtain a1 b1 where r: "clamp_range (graph w) a (num_add a h) = (a1, b1)" "val a1 = val a" "val b1 = val a + (val b - val a) / 2"
    using s(1,5-7) h(2) mid by (simp add: clamp_range_def shows_span_def min_absorb2 min_absorb1 max_absorb2 max_absorb1)
  have "snd (set_smaller_zoom ext w1) = snd (change_range ext a1 (num_add a1 (num_mul (num_sub b1 a1) (PInt 2))) w1)"
    using 1(1) r(1) by (simp add: set_smaller_zoom_def reading_def get_range_def attribute_def io_bind_def)
  then have "g_range (graph (snd (set_smaller_zoom ext w1))) =
      Some (clamp_range (graph w1) a1 (num_add a1 (num_mul (num_sub b1 a1) (PInt 2))))"
    using change [OF 1(2)] by simp
  moreover have "val a + (val a + (val b - val a) / 2 - val a) * 2 = val b" by (simp add: field_simps)
  ultimately show ?thesis
    using 1(2) r(2,3) s(5-7) by (simp add: w1_def [symmetric] clamp_range_def shows_span_def min_absorb2 max_absorb2)
qed

text \<open>
  In the legend the items are side by side or below each other, never over one another, each at the left or ending
  within the width, and the height of the layout is enough for what is drawn.
\<close>

theorem legend_no_overlap:
  assumes "draw_legend ext (layout_legend ext width l) = Inr boxes" and "\<And>t. 0 \<le> t_width (ext t)"
  shows "map box_text boxes = legends l \<and> sorted_wrt (apart ext) boxes \<and>
    (\<forall>b \<in> set boxes. (box_x b = 10 \<or> 10 \<le> box_x b \<and> box_x b + item_width (ext (box_text b)) \<le> of_int width) \<and>
      box_y b + item_height (ext (box_text b)) \<le> legend_height (layout_legend ext width l))"
proof -
  obtain p where p: "legend_inv ext width (p, boxes)" "map box_text boxes = legends l"
      "legend_height (layout_legend ext width l) = total_height p + line_height p"
    using legend_layout_inv [OF assms] by blast
  then show ?thesis by (fastforce simp: legend_inv_def)
qed

text \<open>
  The rows drawn fit into the height of the layout exactly when there is at most one row of events or the text is not
  higher than the bars of the ranges by more than a bit: otherwise the last rows run into the scale below.
\<close>

theorem rows_fit_iff:
  assumes "draw_timelines ext (layout_timelines ext width r) cs = Inr c"
    and "ev = sum_list (map event_rows (r_timelines r))" and "rn = sum_list (map (\<lambda>t. length (tl_ranges t)) (r_timelines r))"
    and "length (r_timelines r) \<le> ev + rn" and "0 \<le> t_height (ext ALPHABET)"
  shows "cur_y c - 10 \<le> r_height (layout_timelines ext width r) \<longleftrightarrow>
    ev \<le> 1 \<or> of_nat rn * (t_height (ext ALPHABET) - 10) \<le> 5"
proof -
  let ?h = "t_height (ext ALPHABET)"
  let ?r = "layout_timelines ext width r"
  have r: "r_timelines ?r = r_timelines r" "text_height ?r = ?h" by (simp_all add: layout_timelines_def Let_def)
  have y: "cur_y c = 5 + of_nat ev * (?h + 15) + of_nat rn * (?h + 10)"
    using draw_timelines_y [OF assms(1)] r assms(2,3) by simp
  let ?left = "of_nat (length (r_timelines r)) * ?h + (of_nat (length (r_timelines r)) - 1) * 10"
  let ?right = "(of_nat rn + of_nat ev - 1) * 10 + (of_nat rn + of_nat ev) * ?h"
  let ?data = "of_nat ev * (?h + 5) + of_nat rn * 10 + (of_nat rn + of_nat ev - 1) * 10"
  have h: "r_height ?r = max (max ?left ?right) ?data + 10"
    unfolding assms(2,3) event_rows_def [abs_def] by (simp add: layout_timelines_def Let_def)
  have n: "(of_nat (length (r_timelines r)) :: rat) \<le> of_nat rn + of_nat ev" using assms(4) by (simp flip: of_nat_add)
  have "?left \<le> ?right"
  proof -
    have "of_nat (length (r_timelines r)) * ?h \<le> (of_nat rn + of_nat ev) * ?h" using n assms(5) by (rule mult_right_mono)
    then show ?thesis using n by simp
  qed
  then have "r_height ?r = max ?right ?data + 10" unfolding h by simp
  moreover have "cur_y c - 10 \<le> ?right + 10 \<longleftrightarrow> 5 * of_nat ev \<le> (5 :: rat)" unfolding y by (simp add: algebra_simps)
  moreover have "cur_y c - 10 \<le> ?data + 10 \<longleftrightarrow> of_nat rn * (?h - 10) \<le> 5" unfolding y by (simp add: algebra_simps)
  moreover have "5 * of_nat ev \<le> (5 :: rat) \<longleftrightarrow> ev \<le> 1" by simp
  ultimately show ?thesis by (simp only: le_max_iff_disj max_add_distrib_left)
qed

lemma default_range_order: "0 \<le> upper \<Longrightarrow> case default_range 0 upper of (lo, hi) \<Rightarrow> 0 \<le> lo \<and> lo \<le> hi \<and> hi \<le> upper"
proof -
  assume "0 \<le> upper"
  then have "upper div 10 div 2 \<le> upper div 2" "0 \<le> upper div 10 div 2" "upper div 2 + upper div 10 div 2 \<le> upper"
    by linarith+
  then show ?thesis by (simp add: default_range_def Let_def)
qed

text \<open>
  The range shown at first lies in the middle of data that starts at 0 and is empty exactly when the data spans fewer
  than twenty units; then every row with something in it raises \<^verbatim>\<open>ZeroDivisionError\<close>.
\<close>

theorem default_range_empty:
  assumes "0 \<le> upper"
  shows "(case default_range 0 upper of (lo, hi) \<Rightarrow> 0 \<le> lo \<and> lo \<le> hi \<and> hi \<le> upper \<and>
    (lo = hi \<longleftrightarrow> upper < 20) \<and> (\<forall>r. r_start r = PInt lo \<and> r_end r = PInt hi \<and> lo = hi \<longrightarrow> time_x r x width t = Inl ZeroDivisionError))"
proof -
  have "upper div 10 div 2 \<le> upper div 2" "0 \<le> upper div 10 div 2" "upper div 2 + upper div 10 div 2 \<le> upper"
    "upper div 10 div 2 = 0 \<longleftrightarrow> upper < 20"
    using assms by linarith+
  moreover have "time_x r x width t = Inl ZeroDivisionError" if "r_start r = PInt lo" "r_end r = PInt lo" for r lo
    using that by (simp add: time_x_def num_div_def)
  ultimately show ?thesis by (auto simp: default_range_def Let_def)
qed

section \<open>Witnesses\<close>

definition demo_ext :: "string \<Rightarrow> extents" where
  "demo_ext t = \<lparr>y_bearing = - 8, t_width = 20, t_height = 12\<rparr>"

definition demo_renderer :: renderer where
  "demo_renderer = \<lparr>r_timelines = [], r_start = PFloat 20, r_end = PFloat 60, left_width = PInt 0, right_width = PInt 0,
     text_height = 12, r_width = PInt 200, r_height = 30\<rparr>"

definition demo_graphic :: graphic where
  "demo_graphic = (new_graphic 0 100 demo_renderer \<lparr>legends = [], legend_colors = [], legend_width = 200, legend_height = 10\<rparr>)
     \<lparr>g_width := 200, g_range := Some (PFloat 20, PFloat 60),
      bot_scale := (set_bounds (PInt 0) (PInt 100) new_scale)\<lparr>sc_width := PInt 200\<rparr>\<rparr>"

definition demo_widget :: widget where
  "demo_widget = (new_widget demo_graphic)\<lparr>widget_width := Some 200\<rparr>"

lemmas demo_defs = demo_widget_def new_widget_def demo_graphic_def new_graphic_def demo_renderer_def set_bounds_def new_scale_def

lemma demo_span: "shows_span 0 100 demo_graphic"
  by (simp add: shows_span_def demo_defs)

lemma demo_range: "shows_floats 0 100 (PFloat 20) (PFloat 60) demo_widget"
  by (simp add: shows_floats_def shows_range_def shows_span_def demo_defs)

lemma demo_idle: "idle demo_widget"
  by (simp add: idle_def demo_defs)

lemma demo_rectangle: "get_selection_rectangle (graph demo_widget) = Inr (PFloat 40, 60, PFloat 80, 20)"
  by (simp add: get_selection_rectangle_def attribute_def get_position_def num_div_def num_mul_def num_sub_def set_top_def
      set_bot_def demo_defs)

lemma demo_width: "g_width (graph demo_widget) = 200"
  by (simp add: demo_defs)

theorem set_range_clamps_witness:
  "\<exists>a b. g_range (snd (set_range demo_ext (PInt 150) (PInt 50) demo_graphic)) = Some (a, b) \<and> val a = 50 \<and> val b = 100"
  using set_range_clamps [OF demo_span, of demo_ext "PInt 150" "PInt 50"] by auto

text \<open>The range of integers the program starts with for data from 0 to 100, in a window 97 pixels wide.\<close>

definition start_widget :: widget where
  "start_widget = demo_widget\<lparr>graph := demo_graphic\<lparr>g_width := 97, g_range := Some (PInt 45, PInt 55),
     bot_scale := (bot_scale demo_graphic)\<lparr>sc_width := PInt 97\<rparr>\<rparr>, widget_width := Some 97\<rparr>"

lemmas start_defs = start_widget_def demo_defs

theorem drag_moves_selection_witness:
  "(\<exists>a' b'. g_range (graph (drag demo_ext 80 70 [(90, 70), (100, 0)] demo_widget)) = Some (a', b') \<and> val a' = 30 \<and> val b' = 70) \<and>
   (\<exists>a' b'. g_range (graph (drag demo_ext 48 70 [(90, 70), (100, 0)] start_widget)) = Some (a', b') \<and>
      val a' = 8765 / 97 \<and> val b' = 100)"
proof
  have 1: "shows_range 0 100 (PFloat 20) (PFloat 60) demo_widget" using demo_range by (simp add: shows_floats_def)
  have "between 70 60 20" "5 \<le> \<bar>80 - val (PFloat 40)\<bar>" "5 \<le> \<bar>80 - (val (PFloat 40) + val (PFloat 80))\<bar>"
      "between 80 (val (PFloat 40)) (val (PFloat 80))"
    by (simp_all add: between_def)
  from drag_moves_selection [OF 1 demo_idle demo_rectangle this refl refl refl, of demo_ext "[(90, 70), (100, 0)]"]
  show "\<exists>a' b'. g_range (graph (drag demo_ext 80 70 [(90, 70), (100, 0)] demo_widget)) = Some (a', b') \<and> val a' = 30 \<and> val b' = 70"
    by (auto simp: demo_width clamp_def)
  have 2: "shows_range 0 100 (PInt 45) (PInt 55) start_widget" by (simp add: shows_range_def shows_span_def start_defs)
  have 3: "idle start_widget" by (simp add: idle_def start_defs)
  have 4: "get_selection_rectangle (graph start_widget) = Inr (PInt 43, 60, PInt 10, 20)"
    by (simp add: get_selection_rectangle_def attribute_def get_position_def num_div_def num_mul_def num_sub_def set_top_def
        set_bot_def start_defs)
  have "between 70 60 20" "5 \<le> \<bar>48 - val (PInt 43)\<bar>" "5 \<le> \<bar>48 - (val (PInt 43) + val (PInt 10))\<bar>"
      "between 48 (val (PInt 43)) (val (PInt 10))"
    by (simp_all add: between_def)
  from drag_moves_selection [OF 2 3 4 this refl refl refl, of demo_ext "[(90, 70), (100, 0)]"]
  show "\<exists>a' b'. g_range (graph (drag demo_ext 48 70 [(90, 70), (100, 0)] start_widget)) = Some (a', b') \<and> val a' = 8765 / 97 \<and> val b' = 100"
    by (auto simp: clamp_def start_defs)
qed

theorem left_edge_follows_witness:
  "\<exists>a' b'. g_range (graph (drag demo_ext 42 70 [(50, 70)] demo_widget)) = Some (a', b') \<and> val a' = 25 \<and> val b' = 60"
proof -
  have "between 70 60 20" "\<bar>42 - val (PFloat 40)\<bar> < 5" "[(50, 70)] \<noteq> ([] :: (rat \<times> rat) list)" by (simp_all add: between_def)
  from left_edge_follows [OF demo_range demo_idle demo_rectangle this, of demo_ext]
  show ?thesis by (auto simp: demo_width pixel_def)
qed

theorem edge_drag_errors_witness:
  "fst (button_release demo_ext (motions demo_ext [(200, 70)] (callback (button_press 121 70) demo_widget))) = Inl AttributeError"
proof -
  have "between 70 60 20" by (simp add: between_def)
  moreover have "right_cur demo_widget = None" by (simp add: demo_defs)
  ultimately show ?thesis
    using edge_drag_errors [OF demo_range demo_idle demo_rectangle, of 70 121 demo_ext 200 70] by (simp add: demo_width)
qed

theorem zoom_in_out_witness:
  "\<exists>a' b'. g_range (graph (snd (set_smaller_zoom demo_ext (snd (set_bigger_zoom demo_ext demo_widget))))) = Some (a', b') \<and>
    val a' = 20 \<and> val b' = 60"
  using zoom_in_out [OF demo_range, of demo_ext] by simp

definition demo_legend :: top_legend where
  "demo_legend = \<lparr>legends = [''rx'', ''tx'', ''idle''], legend_colors = [rgb 1 0 0, rgb 0 1 0, rgb 0 0 1], legend_width = 0,
     legend_height = 0\<rparr>"

theorem legend_no_overlap_witness:
  "\<exists>boxes. draw_legend demo_ext (layout_legend demo_ext 120 demo_legend) = Inr boxes \<and> sorted_wrt (apart demo_ext) boxes"
proof -
  have "\<exists>boxes. draw_legend demo_ext (layout_legend demo_ext 120 demo_legend) = Inr boxes"
    by (simp add: draw_legend_def layout_legend_def demo_legend_def draw_item_def place_item_def pen_init_def demo_ext_def
        item_height_def item_width_def py_nth_def Let_def)
  then obtain boxes where b: "draw_legend demo_ext (layout_legend demo_ext 120 demo_legend) = Inr boxes" ..
  have "0 \<le> t_width (demo_ext t)" for t by (simp add: demo_ext_def)
  from legend_no_overlap [OF b this] b show ?thesis by blast
qed

definition full_renderer :: renderer where
  "full_renderer = demo_renderer\<lparr>r_timelines := [\<lparr>tl_name = ''a'', tl_ranges = [new_ranges ''r''],
     tl_event_str = [new_events ''s''], tl_event_int = [new_events ''i'']\<rparr>]\<rparr>"

lemma draw_empty:
  "draw_events r x w (new_events n) = Inr []" "draw_ranges r x w (new_ranges n) cs = Inr ([], cs)"
proof -
  have "search_event [] k = 0" for k by (simp add: search_event_def search_events.simps [of _ _ 0 "- 1"])
  moreover have "search_range [] k = - 1" for k by (simp add: search_range_def search_ranges.simps [of _ _ 0 "- 1"])
  ultimately show "draw_events r x w (new_events n) = Inr []" "draw_ranges r x w (new_ranges n) cs = Inr ([], cs)"
    by (simp_all add: draw_events_def draw_ranges_def get_events_bounds_def get_ranges_bounds_def new_events_def new_ranges_def
        py_slice_def Let_def split_beta)
qed

theorem rows_fit_iff_witness:
  "\<exists>c. draw_timelines demo_ext (layout_timelines demo_ext (PInt 200) full_renderer) colors_init = Inr c \<and>
    cur_y c - 10 \<le> r_height (layout_timelines demo_ext (PInt 200) full_renderer)"
proof -
  let ?r = "layout_timelines demo_ext (PInt 200) full_renderer"
  have "\<exists>c. draw_timelines demo_ext ?r colors_init = Inr c"
    by (simp add: draw_timelines_def draw_timeline_def layout_timelines_def full_renderer_def demo_renderer_def draw_empty Let_def)
  then obtain c where c: "draw_timelines demo_ext ?r colors_init = Inr c" ..
  have "sum_list (map event_rows (r_timelines full_renderer)) = 2"
      "sum_list (map (\<lambda>t. length (tl_ranges t)) (r_timelines full_renderer)) = 1"
      "length (r_timelines full_renderer) = 1" "t_height (demo_ext ALPHABET) = 12"
    by (simp_all add: full_renderer_def event_rows_def demo_ext_def)
  with rows_fit_iff [OF c refl refl] c show ?thesis by auto
qed

theorem default_range_empty_witness: "default_range 0 19 = (9, 9) \<and> default_range 0 20 = (9, 11)"
  using default_range_empty [of 19] by (simp add: default_range_def)

end
