(* ===== verification/Grid_Frame.thy ===== *)
theory Grid_Frame
  imports Grid_View Grid_Read
begin

text \<open>
  What \<^verbatim>\<open>utils/grid.py\<close> draws around the parts of Grid_View, and the window: \<^verbatim>\<open>GraphicRenderer.draw\<close> as the sequence of
  its calls to the drawing library, the surface that \<^verbatim>\<open>GtkGraphicRenderer\<close> draws into and copies to the window, the
  buttons and the dialog of \<^verbatim>\<open>MainWindow\<close>, and \<^verbatim>\<open>main\<close>.  The library itself is not modelled: a surface is the list of the
  calls made on it.  A part that raises leaves out the calls and colours it had got to.
\<close>

section \<open>Calls to the drawing library\<close>

datatype call =
    NewContext
  | Save
  | Restore
  | SetRgb rat rat rat
  | OperatorSource
  | Rectangle rat rat rat rat
  | Fill
  | MoveTo rat rat
  | LineTo rat rat
  | RelLineTo rat rat
  | ClosePath
  | SetLineWidth rat
  | SetDash "rat list" rat
  | Stroke
  | StrokePreserve
  | Translate rat rat
  | Clip
  | SourceSurface int int "call list"
  | Paint
  | DrawLegend "legend_box list"
  | DrawTimelines canvas
  | DrawScale "tick list"

text \<open>The calls made so far, and the colours, which drawing adds to.\<close>

record painter =
  calls :: "call list"
  palette :: colors

definition emit :: "call list \<Rightarrow> (painter, unit) io" where
  "emit cs = io_modify (\<lambda>p. p\<lparr>calls := calls p @ cs\<rparr>)"

definition part :: "'a result \<Rightarrow> (painter, 'a) io" where
  "part r p = (r, p)"

definition draw_data :: "(string \<Rightarrow> extents) \<Rightarrow> renderer \<Rightarrow> (painter, canvas) io" where
  "draw_data ext r p =
     (case draw_timelines ext r (palette p) of
        Inl e \<Rightarrow> (Inl e, p)
      | Inr c \<Rightarrow> (Inr c, p\<lparr>palette := canvas_colors c\<rparr>))"

section \<open>The frame\<close>

definition background :: "rat \<Rightarrow> rat \<Rightarrow> call list" where
  "background width height = [Save, SetRgb 1 1 1, OperatorSource, Rectangle 0 0 width height, Fill]"

definition separation_line :: "rat \<Rightarrow> rat \<Rightarrow> call list" where
  "separation_line y width = [MoveTo 0 y, LineTo width y, ClosePath, SetLineWidth 2, SetRgb 0 0 0, Stroke]"

definition pane_line :: "rat \<Rightarrow> rat \<Rightarrow> rat \<Rightarrow> call list" where
  "pane_line x y height = [MoveTo x y, RelLineTo 0 (- height), ClosePath, SetRgb 0 0 0, SetLineWidth 2, Stroke]"

definition grey_area :: "call list" where
  "grey_area = [SetRgb 0 0 0, SetLineWidth 1, StrokePreserve, SetRgb (9 / 10) (9 / 10) (9 / 10), Fill]"

text \<open>The scale above spreads out what is selected below: the two ends are joined.\<close>

definition left_connection :: "rat \<Rightarrow> rat \<Rightarrow> rat \<Rightarrow> call list" where
  "left_connection x_start select_start y =
     [MoveTo 0 y, LineTo x_start y, LineTo select_start (y + 20), LineTo 0 (y + 20), LineTo 0 y] @ grey_area"

definition right_connection :: "rat \<Rightarrow> rat \<Rightarrow> rat \<Rightarrow> call list" where
  "right_connection width select_end y =
     [MoveTo width y, LineTo width (y + 20), LineTo select_end (y + 20), LineTo width y] @ grey_area"

definition unused_areas :: "rat \<Rightarrow> rat \<Rightarrow> rat \<Rightarrow> rat \<Rightarrow> rat \<Rightarrow> call list" where
  "unused_areas unused_start unused_end width y height =
     [Rectangle 0 y unused_start height, Rectangle unused_end y (width - unused_end) height,
      SetRgb (9 / 10) (9 / 10) (9 / 10), Fill]"

definition scale_border :: "rat \<Rightarrow> rat \<Rightarrow> rat \<Rightarrow> rat \<Rightarrow> rat \<Rightarrow> call list" where
  "scale_border unused_start unused_end width y height =
     [MoveTo unused_end y, LineTo width y, LineTo width (y + height), LineTo 0 (y + height), LineTo 0 y, LineTo unused_start y,
      ClosePath, SetLineWidth 2, SetRgb 0 0 0, Stroke,
      MoveTo unused_start y, LineTo unused_end y, ClosePath, SetLineWidth 1, SetRgb (9 / 10) (9 / 10) (9 / 10), Stroke]"

definition dot_borders :: "rat \<Rightarrow> rat \<Rightarrow> rat \<Rightarrow> rat \<Rightarrow> rat \<Rightarrow> call list" where
  "dot_borders unused_start unused_end width y height =
     [Save, MoveTo (max unused_start 2) y, RelLineTo 0 height, MoveTo (min unused_end (width - 2)) y, RelLineTo 0 height,
      SetDash [5] 0, SetRgb 0 0 0, SetLineWidth 1, Stroke, Restore]"

text \<open>Everything at and below the lower scale, for the ends of the selection.\<close>

definition selection_frame :: "rat \<Rightarrow> rat \<Rightarrow> rat \<Rightarrow> rat \<Rightarrow> rat \<Rightarrow> rat \<Rightarrow> call list" where
  "selection_frame x_start s e width y height =
     left_connection x_start s y @ right_connection width e y @
     unused_areas s e width (y + 20) height @ scale_border s e width (y + 20) height @ dot_borders s e width (y + 20) height"

definition draw_graphic :: "(string \<Rightarrow> extents) \<Rightarrow> graphic \<Rightarrow> (painter, unit) io" where
  "draw_graphic ext g =
     (let width = of_int (g_width g); top = legend_height (g_legend g); x_start = val (data_x_start (g_data g));
          mid = val (sc_height (mid_scale g)); used = top + r_height (g_data g) + mid in
      io_bind (emit (background width (of_int (g_height g)) @ [Save])) (\<lambda>_.
      io_bind (part (draw_legend ext (g_legend g))) (\<lambda>boxes.
      io_bind (emit ([DrawLegend boxes, Restore] @ separation_line top width @ [Save, Translate 0 top])) (\<lambda>_.
      io_bind (draw_data ext (g_data g)) (\<lambda>c.
      io_bind (emit [DrawTimelines c, Restore, Save, Translate x_start used]) (\<lambda>_.
      io_bind (part (draw_scale ext (mid_scale g))) (\<lambda>above.
      io_bind (emit ([DrawScale above, Restore] @ pane_line x_start used mid @ separation_line used width)) (\<lambda>_.
      io_bind (part (attribute (g_range g))) (\<lambda>(s, e).
      io_bind (part (get_position s (bot_scale g))) (\<lambda>select_start.
      io_bind (part (get_position e (bot_scale g))) (\<lambda>select_end.
      io_bind (emit (selection_frame x_start (val select_start) (val select_end) width used (val (sc_height (bot_scale g)) + 20) @
        [Save, Translate 0 (used + 20)])) (\<lambda>_.
      io_bind (part (draw_scale ext (bot_scale g))) (\<lambda>below.
      emit [DrawScale below, Restore])))))))))))))"

section \<open>The window\<close>

record surface =
  surf_width :: int
  surf_height :: int
  surf_calls :: "call list"

text \<open>A dialog for the name of a file: what the user has chosen, and whether it is on the screen.\<close>

record dialog =
  chosen :: "string option"
  dialog_shown :: bool

record screen =
  view :: widget
  buffer :: "surface option"
  screen_palette :: colors
  shown :: "call list"
  dialogs :: "dialog list"
  files :: "(string \<times> surface) list"

definition new_screen :: "graphic \<Rightarrow> colors \<Rightarrow> screen" where
  "new_screen g cs = \<lparr>view = new_widget g, buffer = None, screen_palette = cs, shown = [], dialogs = [], files = []\<rparr>"

definition of_screen :: "(screen \<Rightarrow> 'a result) \<Rightarrow> (screen, 'a) io" where
  "of_screen f s = (f s, s)"

definition put_shown :: "call list \<Rightarrow> (screen, unit) io" where
  "put_shown cs = io_modify (\<lambda>s. s\<lparr>shown := shown s @ cs\<rparr>)"

text \<open>Drawing into a surface that may already have been drawn into.\<close>

definition draw_into :: "(string \<Rightarrow> extents) \<Rightarrow> surface \<Rightarrow> (screen, unit) io" where
  "draw_into ext b s =
     (case draw_graphic ext (graph (view s)) \<lparr>calls = surf_calls b @ [NewContext], palette = screen_palette s\<rparr> of
        (r, p) \<Rightarrow> (r, s\<lparr>buffer := Some (b\<lparr>surf_calls := calls p\<rparr>), screen_palette := palette p\<rparr>))"

definition blank :: "graphic \<Rightarrow> surface" where
  "blank g = \<lparr>surf_width = g_width g, surf_height = g_height g, surf_calls = []\<rparr>"

definition refresh :: "(string \<Rightarrow> extents) \<Rightarrow> (screen, unit) io" where
  "refresh ext s =
     (if full_redraw (view s) then
        io_bind (draw_into ext (blank (graph (view s)))) (\<lambda>_.
        io_modify (\<lambda>s. s\<lparr>view := (view s)\<lparr>full_redraw := False\<rparr>\<rparr>)) s
      else (Inr (), s))"

text \<open>The lines at the edges being dragged.\<close>

definition edge_line :: "rat \<Rightarrow> rat \<Rightarrow> rat \<Rightarrow> call list" where
  "edge_line x y height = [MoveTo x y, RelLineTo 0 height, ClosePath]"

definition left_marker :: "rat \<Rightarrow> rat \<Rightarrow> widget \<Rightarrow> call list result" where
  "left_marker y height w =
     (if moving_left w then res_bind (attribute (left_cur w)) (\<lambda>c.
        Inr (edge_line (max (val c) 2) y height @ [SetLineWidth 1, SetRgb 0 0 0, Stroke]))
      else Inr [])"

definition right_marker :: "rat \<Rightarrow> rat \<Rightarrow> widget \<Rightarrow> call list result" where
  "right_marker y height w =
     (if moving_right w \<noteq> 0 then res_bind (attribute (right_cur w)) (\<lambda>c. res_bind (attribute (widget_width w)) (\<lambda>ww.
        Inr (edge_line (min (val c) (of_int (ww - 2))) y height @ [SetLineWidth 1, SetRgb 0 0 0, Stroke])))
      else Inr [])"

definition both_marker :: "rat \<Rightarrow> rat \<Rightarrow> rat \<Rightarrow> rat \<Rightarrow> widget \<Rightarrow> call list result" where
  "both_marker x y width height w =
     (if moving_both w then res_bind (attribute (both_cur w)) (\<lambda>c. res_bind (attribute (both_start w)) (\<lambda>b.
        let delta_x = val c - val b in
        Inr (edge_line (x + delta_x) y height @ edge_line (x + width + delta_x) y height @ [SetRgb 0 0 0, SetLineWidth 1, Stroke])))
      else Inr [])"

definition expose :: "(string \<Rightarrow> extents) \<Rightarrow> rat \<times> rat \<times> rat \<times> rat \<Rightarrow> (screen, bool) io" where
  "expose ext area =
     (let (ax, ay, aw, ah) = area in
      io_bind (refresh ext) (\<lambda>_.
      io_bind (put_shown [NewContext, Rectangle ax ay aw ah, Clip]) (\<lambda>_.
      io_bind (of_screen (attribute \<circ> buffer)) (\<lambda>b.
      io_bind (put_shown [SourceSurface (surf_width b) (surf_height b) (surf_calls b), Paint]) (\<lambda>_.
      io_bind (of_screen (get_selection_rectangle \<circ> graph \<circ> view)) (\<lambda>(x, y, width, height).
      io_bind (io_bind (of_screen (left_marker y height \<circ> view)) put_shown) (\<lambda>_.
      io_bind (io_bind (of_screen (right_marker y height \<circ> view)) put_shown) (\<lambda>_.
      io_bind (io_bind (of_screen (both_marker (val x) y (val width) height \<circ> view)) put_shown) (\<lambda>_.
      io_return False)))))))))"

text \<open>The picture is drawn over the buffer of the window, and the other surface is the one written.\<close>

definition output_png :: "(string \<Rightarrow> extents) \<Rightarrow> string option \<Rightarrow> (screen, unit) io" where
  "output_png ext filename =
     io_bind (of_screen (attribute \<circ> buffer)) (\<lambda>b.
     io_bind (draw_into ext b) (\<lambda>_ s.
       case filename of
         None \<Rightarrow> (Inl TypeError, s)
       | Some f \<Rightarrow> (Inr (), s\<lparr>files := files s @ [(f, blank (graph (view s)))]\<rparr>)))"

definition output_png_cb :: "(screen, unit) io" where
  "output_png_cb = io_modify (\<lambda>s. s\<lparr>dialogs := dialogs s @ [\<lparr>chosen = None, dialog_shown = True\<rparr>]\<rparr>)"

text \<open>The dialogs are not modal; the file name is always that of the last one.\<close>

definition dialog_response_cb :: "(string \<Rightarrow> extents) \<Rightarrow> nat \<Rightarrow> int \<Rightarrow> (screen, unit) io" where
  "dialog_response_cb ext i response =
     (if response = 1 then
        io_bind (of_screen (\<lambda>s. if dialogs s = [] then Inl AttributeError else Inr (chosen (last (dialogs s))))) (\<lambda>filename.
        io_bind (output_png ext filename) (\<lambda>_.
        io_modify (\<lambda>s. s\<lparr>dialogs := (dialogs s)[i := (dialogs s ! i)\<lparr>dialog_shown := False\<rparr>]\<rparr>)))
      else io_return ())"

section \<open>The main loop\<close>

text \<open>What GTK reports; a name chosen in a dialog is kept by the dialog.\<close>

datatype gtk_event =
    ButtonPress rat rat
  | ButtonRelease
  | Motion rat rat
  | SizeAllocate int int
  | Expose "rat \<times> rat \<times> rat \<times> rat"
  | ZoomOut
  | ZoomIn
  | OutputPng
  | Choose nat string
  | Response nat int

definition on_view :: "(widget, 'a) io \<Rightarrow> (screen, unit) io" where
  "on_view m s = (case m (view s) of (r, w) \<Rightarrow> (map_sum id (\<lambda>_. ()) r, s\<lparr>view := w\<rparr>))"

fun handle :: "(string \<Rightarrow> extents) \<Rightarrow> gtk_event \<Rightarrow> (screen, unit) io" where
  "handle ext (ButtonPress x y) = on_view (button_press x y)"
| "handle ext ButtonRelease = on_view (button_release ext)"
| "handle ext (Motion x y) = on_view (motion_notify ext x y)"
| "handle ext (SizeAllocate w h) = on_view (size_allocate ext w h)"
| "handle ext (Expose area) = io_bind (expose ext area) (\<lambda>_. io_return ())"
| "handle ext ZoomOut = on_view (set_smaller_zoom ext)"
| "handle ext ZoomIn = on_view (set_bigger_zoom ext)"
| "handle ext OutputPng = output_png_cb"
| "handle ext (Choose i f) = io_modify (\<lambda>s. s\<lparr>dialogs := (dialogs s)[i := (dialogs s ! i)\<lparr>chosen := Some f\<rparr>]\<rparr>)"
| "handle ext (Response i r) = dialog_response_cb ext i r"

text \<open>A handler that raises ends with a message, and the loop goes on.\<close>

definition main_loop :: "(string \<Rightarrow> extents) \<Rightarrow> gtk_event list \<Rightarrow> screen \<Rightarrow> screen" where
  "main_loop ext es s = fold (\<lambda>e. snd \<circ> handle ext e) es s"

text \<open>The program up to the loop, from the lines of its file.  The order of a dictionary's keys is a parameter.\<close>

definition set_legends :: "string list \<Rightarrow> color list \<Rightarrow> top_legend" where
  "set_legends range_values cs = \<lparr>legends = range_values, legend_colors = cs, legend_width = 0, legend_height = 0\<rparr>"

definition set_timelines :: "timeline list \<Rightarrow> renderer" where
  "set_timelines ts =
     \<lparr>r_timelines = ts, r_start = PInt 0, r_end = PInt 0, left_width = PInt 0, right_width = PInt 0, text_height = 0,
      r_width = PInt 0, r_height = 0\<rparr>"

definition grid_main :: "(string \<Rightarrow> extents) \<Rightarrow> (string list \<Rightarrow> string list) \<Rightarrow> string list \<Rightarrow> screen result" where
  "grid_main ext order lines =
     (let (cs, ts) = read_data lines; (lower, upper) = timelines_bounds ts; range_values = get_all_range_values order ts in
      res_bind (range_colors range_values cs) (\<lambda>(rc, cs').
        case main_graphic ext lower upper (set_timelines ts) (set_legends range_values rc) of
          (Inl e, g) \<Rightarrow> Inl e
        | (Inr u, g) \<Rightarrow> Inr (new_screen g cs')))"

section \<open>Drawing does not raise\<close>

lemma for_each_ok:
  assumes "I s" and "\<And>x s. x \<in> set xs \<Longrightarrow> I s \<Longrightarrow> \<exists>s'. f x s = Inr s' \<and> I s'"
  shows "\<exists>s'. for_each f xs s = Inr s' \<and> I s'"
  using assms
proof (induction xs arbitrary: s)
  case (Cons x xs)
  obtain s' where "f x s = Inr s'" "I s'" using Cons.prems by fastforce
  then show ?case using Cons.IH [of s'] Cons.prems(2) by auto
qed simp

lemma num_div_ok: "val b \<noteq> 0 \<Longrightarrow> \<exists>q. num_div a b = Inr q"
  by (simp add: num_div_def)

text \<open>A scale that was laid out for two different times.\<close>

definition scale_ready :: "num \<Rightarrow> num \<Rightarrow> scale \<Rightarrow> bool" where
  "scale_ready lo hi sc \<longleftrightarrow> sc_bounds sc = Some (lo, hi) \<and> val lo \<noteq> val hi \<and> 0 < sc_delta sc"

lemma get_position_ok: "scale_ready lo hi sc \<Longrightarrow> \<exists>q. get_position x sc = Inr q"
  by (simp add: scale_ready_def get_position_def attribute_def num_div_def)

lemma ticks_ok: "0 < delta \<Longrightarrow> \<exists>xs. ticks lo hi delta = Inr xs"
  by (simp add: ticks_def tick_ends_def num_mod_def)

lemma draw_scale_ok:
  assumes "scale_ready lo hi sc"
  shows "\<exists>ts. draw_scale ext sc = Inr ts"
proof -
  have tick: "\<exists>ts. draw_tick ext sc large x acc = Inr ts" for large x acc
    using get_position_ok [OF assms, of "PInt x"] by (auto simp: draw_tick_def)
  have draw: "\<exists>ts. for_each (draw_tick ext sc large) xs acc = Inr ts" for large xs acc
    using for_each_ok [of "\<lambda>_. True" acc xs "draw_tick ext sc large"] tick by simp
  obtain xs where xs: "ticks lo hi (sc_delta sc) = Inr xs" using ticks_ok assms by (force simp: scale_ready_def)
  obtain ts where "for_each (draw_tick ext sc True) xs [] = Inr ts" using draw by blast
  moreover have "\<exists>ys. 0 < sc_delta sc div 10 \<longrightarrow> ticks lo hi (sc_delta sc div 10) = Inr ys" using ticks_ok by fastforce
  ultimately show ?thesis
    using assms xs draw [of False] by (auto simp: draw_scale_def scale_ready_def attribute_def Let_def)
qed

lemma draw_legend_ok:
  assumes "length (legends l) \<le> length (legend_colors l)"
  shows "\<exists>boxes. draw_legend ext l = Inr boxes"
proof -
  have "\<exists>s'. for_each (draw_item ext l) ts (p, boxes) = Inr s'"
    if "length boxes + length ts \<le> length (legend_colors l)" for ts p boxes
    using that
  proof (induction ts arbitrary: p boxes)
    case (Cons t ts)
    then have "py_nth (legend_colors l) (int (length boxes)) = Inr (legend_colors l ! length boxes)" by (simp add: py_nth_def)
    then obtain q b where "draw_item ext l t (p, boxes) = Inr (q, boxes @ [b])" by (simp add: draw_item_def Let_def)
    with Cons show ?case by simp
  qed simp
  from this [of "[]" "legends l" pen_init] assms show ?thesis by (auto simp: draw_legend_def)
qed

text \<open>Every value of a range has a colour, so that drawing takes none.\<close>

definition colored :: "colors \<Rightarrow> timeline \<Rightarrow> bool" where
  "colored cs t \<longleftrightarrow> (\<forall>l \<in> set (tl_ranges t). \<forall>d \<in> set (ranges l). map_of (named_colors cs) (rvalue d) \<noteq> None)"

lemma set_py_slice: "x \<in> set (py_slice xs i j) \<Longrightarrow> x \<in> set xs"
  by (auto simp: py_slice_def dest: in_set_dropD in_set_takeD)

lemma time_x_ok: "val (r_start r) \<noteq> val (r_end r) \<Longrightarrow> \<exists>x'. time_x r x width t = Inr x'"
  by (simp add: time_x_def num_div_def)

lemma draw_events_ok:
  fixes l :: "'a timeline_events"
  assumes "val (r_start r) \<noteq> val (r_end r)"
  shows "\<exists>d. draw_events r x width l = Inr d"
proof -
  have "\<exists>s'. draw_event r x width e s = Inr s'" for e and s :: "int \<times> (int \<times> 'a) list"
    using time_x_ok [OF assms, of x width "PInt (ev_at e)"] by (auto simp: draw_event_def split_beta)
  then have "\<exists>s'. for_each (draw_event r x width) es s = Inr s'" for es and s :: "int \<times> (int \<times> 'a) list"
    using for_each_ok [of "\<lambda>_. True" s es "draw_event r x width"] by simp
  then obtain s' where "for_each (draw_event r x width)
      (py_slice (events l) (fst (get_events_bounds (val (r_start r)) (val (r_end r)) l)) (snd (get_events_bounds (val (r_start r)) (val (r_end r)) l)))
      (num_int x, []) = Inr s'"
    by blast
  then show ?thesis by (cases s') (simp add: draw_events_def split_beta)
qed

lemma draw_ranges_ok:
  assumes "val (r_start r) \<noteq> val (r_end r)" and "\<forall>d \<in> set (ranges l). map_of (named_colors cs) (rvalue d) \<noteq> None"
  shows "\<exists>d. draw_ranges r x width l cs = Inr (d, cs)"
proof -
  have step: "\<exists>s'. draw_range r x width d s = Inr s' \<and> snd s' = cs" if d: "d \<in> set (ranges l)" and s: "snd s = cs" for d s
  proof -
    obtain a b where "s = ((a, b), cs)" using s by (metis prod.collapse)
    moreover obtain c where "lookup_color (rvalue d) cs = Inr (c, cs)" using assms(2) d by (auto simp: lookup_color_def)
    moreover obtain p q where "time_x r x width (num_max (PInt (rstart d)) (r_start r)) = Inr p"
        "time_x r x width (num_min (PInt (rend d)) (r_end r)) = Inr q"
      using time_x_ok [OF assms(1)] by metis
    ultimately show ?thesis by (simp add: draw_range_def Let_def)
  qed
  have "\<exists>s'. for_each (draw_range r x width) (py_slice (ranges l) i j) s = Inr s' \<and> snd s' = cs" if "snd s = cs" for i j s
    using for_each_ok [of "\<lambda>s. snd s = cs" s "py_slice (ranges l) i j" "draw_range r x width", OF that step [OF set_py_slice]] .
  then obtain s' where "for_each (draw_range r x width)
      (py_slice (ranges l) (fst (get_ranges_bounds (val (r_start r)) (val (r_end r)) l)) (snd (get_ranges_bounds (val (r_start r)) (val (r_end r)) l)))
      ((num_int (num_sub x (PInt 1)), []), cs) = Inr s'" "snd s' = cs"
    by fastforce
  then show ?thesis by (cases s') (auto simp: draw_ranges_def split_beta)
qed

lemma canvas_colors_simps [simp]:
  "canvas_colors (put_text ext r x t c) = canvas_colors c" "canvas_colors (draw_line x y w h c) = canvas_colors c"
  "canvas_colors (add_row ext r n a d c) = canvas_colors c"
  by (simp_all add: put_text_def draw_line_def add_row_def Let_def)

lemma draw_timeline_ok:
  assumes "val (r_start r) \<noteq> val (r_end r)" and "colored cs t" and "canvas_colors c = cs"
  shows "\<exists>c'. draw_timeline ext r t c = Inr c' \<and> canvas_colors c' = cs"
proof -
  let ?x = "data_x_start r" and ?w = "num_sub (r_width r) (data_x_start r)"
  have ev: "\<exists>c'. for_each (\<lambda>l c. res_bind (draw_events r ?x ?w l) (\<lambda>d. Inr (add_row ext r (te_name l) h (k d) c))) ls c0 = Inr c' \<and>
      canvas_colors c' = cs" if "canvas_colors c0 = cs" for ls :: "'v timeline_events list" and h k c0
  proof (rule for_each_ok [where I = "\<lambda>c. canvas_colors c = cs", OF that])
    fix l :: "'v timeline_events" and c :: canvas
    assume "canvas_colors c = cs"
    moreover obtain d where "draw_events r ?x ?w l = Inr d" using draw_events_ok [OF assms(1)] by blast
    ultimately show "\<exists>c'. res_bind (draw_events r ?x ?w l) (\<lambda>d. Inr (add_row ext r (te_name l) h (k d) c)) = Inr c' \<and> canvas_colors c' = cs"
      by simp
  qed
  obtain c1 where c1: "for_each (\<lambda>l c. res_bind (draw_events r ?x ?w l) (\<lambda>d.
        Inr (add_row ext r (te_name l) (text_height r + 5 + 10) (IntRow d) c))) (tl_event_int t) (put_text ext r (PInt 5) (tl_name t) c) =
      Inr c1" "canvas_colors c1 = cs"
    using ev [of "put_text ext r (PInt 5) (tl_name t) c" "text_height r + 5 + 10" IntRow "tl_event_int t"] assms(3) by auto
  obtain c2 where c2: "for_each (\<lambda>l c. res_bind (draw_events r ?x ?w l) (\<lambda>d.
        Inr (add_row ext r (te_name l) (text_height r + 5 + 10) (StrRow d) c))) (tl_event_str t) c1 = Inr c2" "canvas_colors c2 = cs"
    using ev [of c1 "text_height r + 5 + 10" StrRow "tl_event_str t"] c1(2) by auto
  obtain c3 where "for_each (\<lambda>l c. res_bind (draw_ranges r ?x ?w l (canvas_colors c)) (\<lambda>(d, cs).
        Inr (add_row ext r (tr_name l) (text_height r + 10) (RangeRow d) (c\<lparr>canvas_colors := cs\<rparr>)))) (tl_ranges t) c2 = Inr c3 \<and>
      canvas_colors c3 = cs"
  proof (rule exE [OF for_each_ok [where I = "\<lambda>c. canvas_colors c = cs", OF c2(2)]])
    show "\<exists>s'. res_bind (draw_ranges r ?x ?w l (canvas_colors s)) (\<lambda>(d, cs).
        Inr (add_row ext r (tr_name l) (text_height r + 10) (RangeRow d) (s\<lparr>canvas_colors := cs\<rparr>))) = Inr s' \<and> canvas_colors s' = cs"
      if "l \<in> set (tl_ranges t)" "canvas_colors s = cs" for l s
      using draw_ranges_ok [OF assms(1), of l cs ?x ?w] assms(2) that by (auto simp: colored_def)
  qed
  with c1(1) c2(1) show ?thesis by (simp add: draw_timeline_def Let_def)
qed

lemma painter_simps [simp]:
  "emit cs p = (Inr (), p\<lparr>calls := calls p @ cs\<rparr>)" "part r p = (r, p)"
  by (simp_all add: emit_def part_def)

lemma io_bind_pass [simp]: "io_bind (\<lambda>s. (Inr a, f s)) k s = k a (f s)" "io_bind (emit cs) k p = k () (p\<lparr>calls := calls p @ cs\<rparr>)"
  "io_bind (part (Inr a)) k' p = k' a p"
  by (simp_all add: io_bind_def)

lemma draw_data_ok:
  assumes "val (r_start r) \<noteq> val (r_end r)" and "\<forall>t \<in> set (r_timelines r). colored (palette p) t"
  shows "\<exists>c. \<forall>q. palette q = palette p \<longrightarrow> draw_data ext r q = (Inr c, q)"
proof -
  let ?c0 = "draw_line (PInt 0) 0 (r_width r) 0
      \<lparr>cur_y = 5, grey_background = 1, rows = [], texts = [], rules = [], canvas_colors = palette p\<rparr>"
  have "\<exists>c. for_each (draw_timeline ext r) (r_timelines r) ?c0 = Inr c \<and> canvas_colors c = palette p"
    by (rule for_each_ok) (use draw_timeline_ok [OF assms(1)] assms(2) in auto)
  then have "\<exists>c. draw_timelines ext r (palette p) = Inr c \<and> canvas_colors c = palette p"
    by (auto simp: draw_timelines_def Let_def)
  then obtain c where "draw_timelines ext r (palette p) = Inr c" "canvas_colors c = palette p" by blast
  then show ?thesis by (intro exI [of _ c]) (auto simp: draw_data_def)
qed

text \<open>A graphic that has been laid out for a range that is not empty, with colours for its values.\<close>

definition frame_ready :: "colors \<Rightarrow> graphic \<Rightarrow> bool" where
  "frame_ready cs g \<longleftrightarrow>
     (\<exists>a b. g_range g = Some (a, b) \<and> scale_ready a b (mid_scale g) \<and> r_start (g_data g) = a \<and> r_end (g_data g) = b) \<and>
     (\<exists>lo hi. scale_ready lo hi (bot_scale g)) \<and> length (legends (g_legend g)) \<le> length (legend_colors (g_legend g)) \<and>
     (\<forall>t \<in> set (r_timelines (g_data g)). colored cs t)"

lemma draw_graphic_ok:
  assumes "frame_ready (palette p) g"
  shows "\<exists>p'. draw_graphic ext g p = (Inr (), p') \<and> palette p' = palette p"
proof -
  obtain a b lo hi where g: "g_range g = Some (a, b)" "scale_ready a b (mid_scale g)" "scale_ready lo hi (bot_scale g)"
      "val (r_start (g_data g)) \<noteq> val (r_end (g_data g))" "\<forall>t \<in> set (r_timelines (g_data g)). colored (palette p) t"
    using assms by (auto simp: frame_ready_def scale_ready_def)
  obtain boxes where "draw_legend ext (g_legend g) = Inr boxes" using draw_legend_ok assms unfolding frame_ready_def by metis
  moreover obtain above where "draw_scale ext (mid_scale g) = Inr above" using draw_scale_ok g(2) by blast
  moreover obtain below where "draw_scale ext (bot_scale g) = Inr below" using draw_scale_ok g(3) by blast
  moreover obtain x x' where "get_position a (bot_scale g) = Inr x" "get_position b (bot_scale g) = Inr x'"
    using get_position_ok [OF g(3)] by metis
  moreover obtain c where "draw_data ext (g_data g) q = (Inr c, q)" if "palette q = palette p" for q
    using draw_data_ok [OF g(4,5)] by blast
  ultimately show ?thesis using g(1) by (simp add: draw_graphic_def Let_def attribute_def)
qed

section \<open>What is drawn\<close>

definition frame_calls :: "graphic \<Rightarrow> legend_box list \<Rightarrow> canvas \<Rightarrow> tick list \<Rightarrow> tick list \<Rightarrow> rat \<Rightarrow> rat \<Rightarrow> call list" where
  "frame_calls g boxes c ups downs s e =
     (let width = of_int (g_width g); top = legend_height (g_legend g); x_start = val (data_x_start (g_data g));
          mid = val (sc_height (mid_scale g)); used = top + r_height (g_data g) + mid in
      background width (of_int (g_height g)) @ [Save, DrawLegend boxes, Restore] @ separation_line top width @
      [Save, Translate 0 top, DrawTimelines c, Restore, Save, Translate x_start used, DrawScale ups, Restore] @
      pane_line x_start used mid @ separation_line used width @
      selection_frame x_start s e width used (val (sc_height (bot_scale g)) + 20) @
      [Save, Translate 0 (used + 20), DrawScale downs, Restore])"

lemma draw_graphic_calls:
  assumes "draw_graphic ext g p = (Inr (), p')"
  obtains a b boxes c ups downs s e where "g_range g = Some (a, b)" and "get_position a (bot_scale g) = Inr s"
    and "get_position b (bot_scale g) = Inr e" and "calls p' = calls p @ frame_calls g boxes c ups downs (val s) (val e)"
proof -
  have data: "\<exists>p2. draw_data ext r q = (Inr c, p2) \<and> calls p2 = calls q" if "draw_data ext r q = (Inr c, p3)" for r q c p3
    using that by (auto simp: draw_data_def split: sum.splits)
  have data_calls: "draw_data ext r q = (Inr c, p3) \<Longrightarrow> calls p3 = calls q" for r q c p3
    using data by fastforce
  show ?thesis
    using assms
    by (auto simp: draw_graphic_def Let_def res_simps attribute_def frame_calls_def dest!: data_calls split: option.splits intro!: that)
qed

lemma frame_calls_selection:
  "\<exists>u v. frame_calls g boxes c ups downs s e = u @ selection_frame (val (data_x_start (g_data g))) s e (of_int (g_width g))
     (legend_height (g_legend g) + r_height (g_data g) + val (sc_height (mid_scale g))) (val (sc_height (bot_scale g)) + 20) @ v"
proof -
  let ?top = "legend_height (g_legend g)" and ?mid = "val (sc_height (mid_scale g))"
  let ?used = "?top + r_height (g_data g) + ?mid" and ?x = "val (data_x_start (g_data g))" and ?w = "of_int (g_width g)"
  let ?u = "background ?w (of_int (g_height g)) @ [Save, DrawLegend boxes, Restore] @ separation_line ?top ?w @
      [Save, Translate 0 ?top, DrawTimelines c, Restore, Save, Translate ?x ?used, DrawScale ups, Restore] @
      pane_line ?x ?used ?mid @ separation_line ?used ?w"
  show ?thesis
    by (rule exI [of _ ?u], rule exI [of _ "[Save, Translate 0 (?used + 20), DrawScale downs, Restore]"])
      (simp add: frame_calls_def Let_def)
qed

text \<open>
  The two grey areas of the lower scale and the selection between them tile the width of the window, and the lines from
  the upper scale end at the corners of the selection.
\<close>

theorem unused_areas_tile:
  assumes "shows_floats S E a b w" and "draw_graphic ext (graph w) p = (Inr (), p')"
  shows "\<exists>x y width height. get_selection_rectangle (graph w) = Inr (x, y, width, height) \<and>
    0 \<le> val x \<and> 0 \<le> val width \<and> val x + val width \<le> of_int (g_width (graph w)) \<and>
    (\<exists>u v. calls p' = u @ unused_areas (val x) (val x + val width) (of_int (g_width (graph w))) y height @ v) \<and>
    (\<exists>u v. calls p' = u @ left_connection (val (data_x_start (g_data (graph w)))) (val x) (y - 20) @
      right_connection (of_int (g_width (graph w))) (val x + val width) (y - 20) @ v)"
proof -
  let ?g = "graph w"
  obtain x y width height where r: "get_selection_rectangle ?g = Inr (x, y, width, height)" "val x = pixel S E (g_width ?g) (val a)"
      "val x + val width = pixel S E (g_width ?g) (val b)"
    using selection_rectangle [OF assms(1)] by blast
  have s: "S < E" "0 < g_width ?g" "of_int S \<le> val a" "val a \<le> val b" "val b \<le> of_int E"
    using assms(1) by (simp_all add: shows_floats_def shows_range_def shows_span_def)
  have "pixel S E (g_width ?g) (of_int S) \<le> pixel S E (g_width ?g) (val a)"
    "pixel S E (g_width ?g) (val a) \<le> pixel S E (g_width ?g) (val b)"
    "pixel S E (g_width ?g) (val b) \<le> pixel S E (g_width ?g) (of_int E)"
    using s by (simp_all add: pixel_mono)
  then have bounds: "0 \<le> val x" "0 \<le> val width" "val x + val width \<le> of_int (g_width ?g)"
    using r(2,3) s(1) by (simp_all add: pixel_ends)
  obtain a' b' boxes c ups downs s1 e1 where d: "g_range ?g = Some (a', b')" "get_position a' (bot_scale ?g) = Inr s1"
      "get_position b' (bot_scale ?g) = Inr e1" "calls p' = calls p @ frame_calls ?g boxes c ups downs (val s1) (val e1)"
    using draw_graphic_calls [OF assms(2)] .
  then have pos: "val s1 = val x" "val e1 = val x + val width"
      "y = legend_height (g_legend ?g) + r_height (g_data ?g) + val (sc_height (mid_scale ?g)) + 20" "height = val (sc_height (bot_scale ?g)) + 20"
    using r(1) by (auto simp: get_selection_rectangle_def attribute_def)
  obtain u v where "frame_calls ?g boxes c ups downs (val s1) (val e1) = u @ selection_frame (val (data_x_start (g_data ?g))) (val x)
      (val x + val width) (of_int (g_width ?g)) (y - 20) height @ v"
    using frame_calls_selection [of ?g boxes c ups downs "val s1" "val e1"] pos by auto
  then have eq: "calls p' = (calls p @ u) @ selection_frame (val (data_x_start (g_data ?g))) (val x) (val x + val width)
      (of_int (g_width ?g)) (y - 20) height @ v"
    using d(4) by simp
  then have "\<exists>u v. calls p' = u @ left_connection (val (data_x_start (g_data ?g))) (val x) (y - 20) @
      right_connection (of_int (g_width ?g)) (val x + val width) (y - 20) @ v"
    by (intro exI [of _ "calls p @ u"] exI [of _ "unused_areas (val x) (val x + val width) (of_int (g_width ?g)) y height @
      scale_border (val x) (val x + val width) (of_int (g_width ?g)) y height @
      dot_borders (val x) (val x + val width) (of_int (g_width ?g)) y height @ v"]) (simp add: selection_frame_def)
  moreover have "\<exists>u v. calls p' = u @ unused_areas (val x) (val x + val width) (of_int (g_width ?g)) y height @ v"
    by (rule exI [of _ "(calls p @ u) @ left_connection (val (data_x_start (g_data ?g))) (val x) (y - 20) @
      right_connection (of_int (g_width ?g)) (val x + val width) (y - 20)"]) (use eq in \<open>simp add: selection_frame_def\<close>)
  ultimately show ?thesis using r(1) bounds by blast
qed

text \<open>Drawing saves the state of the library once more than it restores it.\<close>

lemma saved_state_left:
  assumes "draw_graphic ext g p = (Inr (), p')"
  shows "\<exists>cs. calls p' = calls p @ cs \<and> count_list cs Save = count_list cs Restore + 1"
proof -
  obtain a b boxes c ups downs s e where "calls p' = calls p @ frame_calls g boxes c ups downs (val s) (val e)"
    using draw_graphic_calls [OF assms] by metis
  then show ?thesis
    by (auto simp: frame_calls_def Let_def background_def separation_line_def pane_line_def selection_frame_def left_connection_def
        right_connection_def unused_areas_def scale_border_def dot_borders_def grey_area_def)
qed

section \<open>The window shows the graphic\<close>

definition shows_frame :: "(string \<Rightarrow> extents) \<Rightarrow> graphic \<Rightarrow> surface \<Rightarrow> bool" where
  "shows_frame ext g b \<longleftrightarrow>
     surf_width b = g_width g \<and> surf_height b = g_height g \<and>
     (\<exists>cs p p'. draw_graphic ext g \<lparr>calls = cs @ [NewContext], palette = p\<rparr> = (Inr (), \<lparr>calls = surf_calls b, palette = p'\<rparr>))"

text \<open>Either the buffer is to be drawn again or it shows the graphic as it is.\<close>

definition up_to_date :: "(string \<Rightarrow> extents) \<Rightarrow> screen \<Rightarrow> bool" where
  "up_to_date ext s \<longleftrightarrow> full_redraw (view s) \<or> (\<exists>b. buffer s = Some b \<and> shows_frame ext (graph (view s)) b)"

text \<open>
  What the window relies on: a handler of the widget that returns asks for a new drawing, or leaves the graphic and the
  request as they were.
\<close>

locale redrawing =
  fixes handler :: "(widget, 'a) io"
  assumes redraws: "handler w = (Inr r, w') \<Longrightarrow> full_redraw w' \<or> graph w' = graph w \<and> full_redraw w' = full_redraw w"
begin

lemma keeps_up_to_date:
  assumes "on_view handler s = (Inr u, s')" and "up_to_date ext s"
  shows "up_to_date ext s'"
proof -
  obtain r w where r: "handler (view s) = (Inr r, w)" "s' = s\<lparr>view := w\<rparr>"
    using assms(1) by (cases "fst (handler (view s))") (auto simp: on_view_def split: prod.splits)
  show ?thesis using redraws [OF r(1)] assms(2) r(2) by (auto simp: up_to_date_def)
qed

end

text \<open>Handlers are made of steps that have this property.\<close>

definition redraw_safe :: "(widget, 'a) io \<Rightarrow> bool" where
  "redraw_safe m \<longleftrightarrow> (\<forall>w r w'. m w = (Inr r, w') \<longrightarrow> full_redraw w' \<or> graph w' = graph w \<and> full_redraw w' = full_redraw w)"

lemma redraw_safe_bind: "redraw_safe m \<Longrightarrow> (\<And>a. redraw_safe (f a)) \<Longrightarrow> redraw_safe (io_bind m f)"
  unfolding redraw_safe_def by (auto simp: res_simps) metis+

lemma redraw_safe_steps:
  "redraw_safe (reading f)" "redraw_safe (change_range ext a b)" "redraw_safe (io_return c)"
  "(\<And>w. graph (h w) = graph w \<and> full_redraw (h w) = full_redraw w) \<Longrightarrow> redraw_safe (\<lambda>w. (r w, h w))"
  "(\<And>w. graph (h w) = graph w \<and> full_redraw (h w) = full_redraw w) \<Longrightarrow> redraw_safe (io_modify h)"
  by (auto simp: redraw_safe_def reading_def change_range_def split: prod.splits sum.splits)

lemma redraw_safe_if: "redraw_safe m \<Longrightarrow> redraw_safe n \<Longrightarrow> redraw_safe (\<lambda>w. if P w then m w else n w)"
  by (auto simp: redraw_safe_def)

lemma redraw_safe_pair: "(\<And>a b. redraw_safe (f a b)) \<Longrightarrow> redraw_safe (case x of (a, b) \<Rightarrow> f a b)"
  by (cases x) simp

lemma redraw_safe_after: "redraw_safe m \<Longrightarrow> (\<And>w. graph (h w) = graph w \<and> full_redraw (h w) = full_redraw w) \<Longrightarrow> redraw_safe (\<lambda>w. m (h w))"
  unfolding redraw_safe_def by metis

lemmas redraw_safe_intros = redraw_safe_bind redraw_safe_steps redraw_safe_if redraw_safe_pair redraw_safe_after

text \<open>The handlers, each a sequence of such steps.\<close>

lemma button_press_safe: "redraw_safe (button_press x y)"
  unfolding button_press_def Let_def split_beta
  by (rule redraw_safe_bind, rule redraw_safe_steps) ((rule redraw_safe_if)?, rule redraw_safe_steps(4), simp)+

lemma button_release_safe: "redraw_safe (button_release ext)"
proof -
  note steps = redraw_safe_bind redraw_safe_pair redraw_safe_steps(1-3)
  show ?thesis
    unfolding button_release_def [abs_def]
    by (intro redraw_safe_if redraw_safe_after [where h = "moving_left_update (\<lambda>_. False)"]
        redraw_safe_after [where h = "moving_right_update (\<lambda>_. 0)"] redraw_safe_after [where h = "moving_both_update (\<lambda>_. False)"]
        redraw_safe_steps(4); (intro steps)?; simp)
qed

lemma drag_safe: "redraw_safe (drag_left x width ex)" "redraw_safe (drag_right x ex)" "redraw_safe (drag_both x width ex)"
    "redraw_safe (drag_top ext ex)"
proof -
  show "redraw_safe (drag_left x width ex)" "redraw_safe (drag_right x ex)" "redraw_safe (drag_both x width ex)"
    by (auto simp: redraw_safe_def drag_left_def drag_right_def drag_both_def reading_def io_bind_def Let_def
        split: prod.splits sum.splits if_splits)
  show "redraw_safe (drag_top ext ex)"
    unfolding drag_top_def by (intro redraw_safe_bind redraw_safe_pair redraw_safe_steps) simp_all
qed

lemma motion_notify_safe: "redraw_safe (motion_notify ext x y)"
  unfolding motion_notify_def Let_def split_beta
  by (intro redraw_safe_bind redraw_safe_if redraw_safe_steps) (simp_all add: drag_safe redraw_safe_steps)

lemma size_allocate_safe: "redraw_safe (size_allocate ext width height)"
  by (auto simp: redraw_safe_def size_allocate_def split: prod.splits sum.splits)

lemma zoom_safe: "redraw_safe (set_smaller_zoom ext)" "redraw_safe (set_bigger_zoom ext)"
  unfolding set_smaller_zoom_def set_bigger_zoom_def
  by (intro redraw_safe_bind redraw_safe_pair redraw_safe_steps)+

lemma redrawing_iff: "redrawing m \<longleftrightarrow> redraw_safe m"
  by (simp add: redrawing_def redraw_safe_def)

interpretation press: redrawing "button_press x y" for x y
  by (simp add: redrawing_iff button_press_safe)

interpretation release: redrawing "button_release ext" for ext
  by (simp add: redrawing_iff button_release_safe)

interpretation motion: redrawing "motion_notify ext x y" for ext x y
  by (simp add: redrawing_iff motion_notify_safe)

interpretation allocate: redrawing "size_allocate ext width height" for ext width height
  by (simp add: redrawing_iff size_allocate_safe)

interpretation zoom_out: redrawing "set_smaller_zoom ext" for ext
  by (simp add: redrawing_iff zoom_safe)

interpretation zoom_in: redrawing "set_bigger_zoom ext" for ext
  by (simp add: redrawing_iff zoom_safe)

lemmas handlers_keep = press.keeps_up_to_date release.keeps_up_to_date motion.keeps_up_to_date allocate.keeps_up_to_date
  zoom_out.keeps_up_to_date zoom_in.keeps_up_to_date

text \<open>Drawing into a surface of the right size makes it show the graphic.\<close>

lemma draw_into_shows:
  assumes "draw_into ext b s = (Inr u, s')" and "surf_width b = g_width (graph (view s))" and "surf_height b = g_height (graph (view s))"
  shows "\<exists>b'. buffer s' = Some b' \<and> shows_frame ext (graph (view s)) b'"
proof -
  obtain p where p: "draw_graphic ext (graph (view s)) \<lparr>calls = surf_calls b @ [NewContext], palette = screen_palette s\<rparr> = (Inr u, p)"
      "buffer s' = Some (b\<lparr>surf_calls := calls p\<rparr>)"
    using assms(1) by (auto simp: draw_into_def split: prod.splits)
  then have "draw_graphic ext (graph (view s)) \<lparr>calls = surf_calls b @ [NewContext], palette = screen_palette s\<rparr> =
      (Inr (), \<lparr>calls = surf_calls (b\<lparr>surf_calls := calls p\<rparr>), palette = palette p\<rparr>)"
    by simp
  with assms(2,3) have "shows_frame ext (graph (view s)) (b\<lparr>surf_calls := calls p\<rparr>)" unfolding shows_frame_def by auto
  with p(2) show ?thesis by blast
qed

lemma draw_into_view [simp]:
  "draw_into ext b s = (r, s') \<Longrightarrow> view s' = view s" "draw_into ext b s = (r, s') \<Longrightarrow> shown s' = shown s"
  by (auto simp: draw_into_def split: prod.splits)

lemma refresh_shows:
  assumes "refresh ext s = (Inr u, s')" and "up_to_date ext s"
  shows "\<exists>b. buffer s' = Some b \<and> shows_frame ext (graph (view s)) b" "graph (view s') = graph (view s)" "shown s' = shown s"
proof -
  show "\<exists>b. buffer s' = Some b \<and> shows_frame ext (graph (view s)) b"
  proof (cases "full_redraw (view s)")
    case True
    then obtain v s1 where s1: "draw_into ext (blank (graph (view s))) s = (Inr v, s1)" "buffer s' = buffer s1"
      using assms(1) by (auto simp: refresh_def res_simps)
    from draw_into_shows [OF s1(1)] s1(2) show ?thesis by (simp add: blank_def)
  next
    case False
    then show ?thesis using assms by (auto simp: refresh_def up_to_date_def)
  qed
  show "graph (view s') = graph (view s)" "shown s' = shown s"
    using assms(1) by (auto simp: refresh_def res_simps split: if_splits)
qed

lemma screen_simps:
  "io_bind (put_shown cs) k s = k () (s\<lparr>shown := shown s @ cs\<rparr>)"
  "io_bind (of_screen f) k' s = (case f s of Inl e \<Rightarrow> (Inl e, s) | Inr a \<Rightarrow> k' a s)"
  by (simp_all add: put_shown_def of_screen_def io_bind_def split: sum.split)

lemma shows_frame_size: "shows_frame ext g b \<Longrightarrow> surf_width b = g_width g" "shows_frame ext g b \<Longrightarrow> surf_height b = g_height g"
  by (simp_all add: shows_frame_def)

lemma marker_shown:
  assumes "io_bind (of_screen f) put_shown s = (Inr u, s')"
  shows "\<exists>ms. s' = s\<lparr>shown := shown s @ ms\<rparr>"
  using assms by (auto simp: res_simps of_screen_def put_shown_def)

lemma expose_paints:
  assumes "expose ext (ax, ay, aw, ah) s = (Inr r, s')" and "up_to_date ext s"
  shows "\<exists>b ms. buffer s' = Some b \<and> shows_frame ext (graph (view s)) b \<and> graph (view s') = graph (view s) \<and>
    shown s' = shown s @ [NewContext, Rectangle ax ay aw ah, Clip, SourceSurface (surf_width b) (surf_height b) (surf_calls b), Paint] @ ms"
proof -
  obtain u s1 where s1: "refresh ext s = (Inr u, s1)"
    using assms(1) by (auto simp: expose_def res_simps)
  obtain b where b: "buffer s1 = Some b" "shows_frame ext (graph (view s)) b" and keep: "graph (view s1) = graph (view s)" "shown s1 = shown s"
    using refresh_shows [OF s1 assms(2)] by blast
  let ?s2 = "s1\<lparr>shown := shown s1 @ [NewContext, Rectangle ax ay aw ah, Clip, SourceSurface (surf_width b) (surf_height b) (surf_calls b), Paint]\<rparr>"
  have "io_bind (of_screen (get_selection_rectangle \<circ> graph \<circ> view)) (\<lambda>(x, y, width, height).
      io_bind (io_bind (of_screen (left_marker y height \<circ> view)) put_shown) (\<lambda>_.
      io_bind (io_bind (of_screen (right_marker y height \<circ> view)) put_shown) (\<lambda>_.
      io_bind (io_bind (of_screen (both_marker (val x) y (val width) height \<circ> view)) put_shown) (\<lambda>_. io_return False)))) ?s2 =
      (Inr r, s')"
    using assms(1) s1 b(1) by (simp add: expose_def screen_simps attribute_def)
  then obtain x y width height s3 s4 u3 u4 u5 where
      "io_bind (of_screen (left_marker y height \<circ> view)) put_shown ?s2 = (Inr u3, s3)"
      "io_bind (of_screen (right_marker y height \<circ> view)) put_shown s3 = (Inr u4, s4)"
      "io_bind (of_screen (both_marker x y width height \<circ> view)) put_shown s4 = (Inr u5, s')"
    by (cases "get_selection_rectangle (graph (view ?s2))")
      (simp_all add: screen_simps split_beta io_bind_Inr [of _ "\<lambda>_. io_bind _ _"] io_bind_Inr [of _ "\<lambda>_. io_return _"], blast)
  then obtain m1 m2 m3 where "s' = ?s2\<lparr>shown := shown ?s2 @ m1 @ m2 @ m3\<rparr>"
    by (auto dest!: marker_shown)
  with b keep show ?thesis by auto
qed

lemma output_png_keeps:
  assumes "output_png ext filename s = (Inr u, s')" and "up_to_date ext s"
  shows "up_to_date ext s'"
proof -
  obtain b v s1 where b: "buffer s = Some b" "draw_into ext b s = (Inr v, s1)" "view s' = view s1" "buffer s' = buffer s1"
    using assms(1) by (auto simp: output_png_def res_simps of_screen_def attribute_def split: option.splits)
  then have view: "view s' = view s" by simp
  show ?thesis
  proof (cases "full_redraw (view s)")
    case True
    with view show ?thesis by (simp add: up_to_date_def)
  next
    case False
    with assms(2) b(1) have "shows_frame ext (graph (view s)) b" by (auto simp: up_to_date_def)
    then have "surf_width b = g_width (graph (view s))" "surf_height b = g_height (graph (view s))" by (simp_all add: shows_frame_def)
    from draw_into_shows [OF b(2) this] show ?thesis using view b(4) by (simp add: up_to_date_def)
  qed
qed

lemma up_to_date_dialogs [simp]: "up_to_date ext (s\<lparr>dialogs := ds\<rparr>) = up_to_date ext s"
  by (simp add: up_to_date_def)

lemma handle_keeps:
  assumes "handle ext e s = (Inr u, s')" and "up_to_date ext s"
  shows "up_to_date ext s'"
proof (cases e)
  case (Expose area)
  obtain ax ay aw ah where a: "area = (ax, ay, aw, ah)" by (cases area)
  with assms(1) Expose obtain r where "expose ext (ax, ay, aw, ah) s = (Inr r, s')" by (auto simp: res_simps)
  from expose_paints [OF this assms(2)] show ?thesis by (auto simp: up_to_date_def)
next
  case (Response i r)
  with assms show ?thesis
    by (auto simp: dialog_response_cb_def res_simps of_screen_def dest: output_png_keeps split: if_splits)
qed (use assms in \<open>auto simp: output_png_cb_def dest: handlers_keep\<close>)

lemma handles_keep:
  assumes "io_for (handle ext) es s = (Inr u, s')" and "up_to_date ext s"
  shows "up_to_date ext s'"
  using assms by (induction es arbitrary: s) (auto simp: res_simps dest: handle_keeps)

text \<open>C33. 
  As long as no handler raises, whatever the user did: when the window is exposed, what is painted is the buffer, and it
  shows the graphic as it is now, at its present size.
\<close>

theorem expose_shows_current:
  assumes "io_for (handle ext) es (new_screen g cs) = (Inr (), s)" and "expose ext (ax, ay, aw, ah) s = (Inr r, s')"
  shows "\<exists>b ms. shows_frame ext (graph (view s)) b \<and> graph (view s') = graph (view s) \<and>
    shown s' = shown s @ [NewContext, Rectangle ax ay aw ah, Clip,
      SourceSurface (g_width (graph (view s))) (g_height (graph (view s))) (surf_calls b), Paint] @ ms"
proof -
  have "up_to_date ext (new_screen g cs)" by (simp add: up_to_date_def new_screen_def new_widget_def)
  from expose_paints [OF assms(2) handles_keep [OF assms(1) this]] show ?thesis
    by (auto simp: shows_frame_size)
qed

lemma draw_graphic_appends:
  assumes "draw_graphic ext g p = (Inr (), p')"
  shows "\<exists>boxes c ups downs s e. calls p' = calls p @ frame_calls g boxes c ups downs s e"
  by (rule draw_graphic_calls [OF assms]) blast

text \<open>The picture that is written is empty: the drawing goes over the buffer of the window.\<close>

lemma picture_blank:
  assumes "output_png ext filename s = (Inr (), s')"
  shows "\<exists>f b b' cs. filename = Some f \<and> files s' = files s @ [(f, blank (graph (view s)))] \<and> surf_calls (blank (graph (view s))) = [] \<and>
    buffer s = Some b \<and> buffer s' = Some b' \<and> surf_calls b' = surf_calls b @ NewContext # Save # cs"
proof -
  obtain b v s1 f where b: "buffer s = Some b" "draw_into ext b s = (Inr v, s1)" "filename = Some f"
      "s' = s1\<lparr>files := files s1 @ [(f, blank (graph (view s1)))]\<rparr>"
    using assms by (auto simp: output_png_def res_simps of_screen_def attribute_def split: option.splits)
  obtain q p where q: "draw_graphic ext (graph (view s)) \<lparr>calls = surf_calls b @ [NewContext], palette = screen_palette s\<rparr> = (q, p)"
    by fastforce
  have p: "q = Inr v" "s1 = s\<lparr>buffer := Some (b\<lparr>surf_calls := calls p\<rparr>), screen_palette := palette p\<rparr>"
    using b(2) by (simp_all add: draw_into_def q)
  from q p(1) have "draw_graphic ext (graph (view s)) \<lparr>calls = surf_calls b @ [NewContext], palette = screen_palette s\<rparr> = (Inr (), p)" by simp
  from draw_graphic_appends [OF this] obtain boxes c ups downs e1 e2 where
      "calls p = (surf_calls b @ [NewContext]) @ frame_calls (graph (view s)) boxes c ups downs e1 e2"
    by (elim exE) (simp only: painter.simps)
  then obtain cs where "calls p = surf_calls b @ NewContext # Save # cs" by (simp add: frame_calls_def Let_def background_def)
  with b p(2) show ?thesis
    by (intro exI [of _ f] exI [of _ b] exI [of _ "b\<lparr>surf_calls := calls p\<rparr>"] exI [of _ cs]) (simp add: blank_def)
qed

section \<open>From the file to the first window\<close>

lemma tick_delta_pos:
  assumes "0 < val d" and "val d \<noteq> 1"
  shows "\<exists>delta. tick_delta d = Inr delta \<and> 0 < delta"
proof (cases d)
  case (PInt i)
  with assms have "0 < i" "i \<noteq> 1" by auto
  from tick_delta_int [OF this(1)] this(2) PInt show ?thesis by force
next
  case (PFloat r)
  let ?c = "closest_power r 1"
  have c: "\<exists>k. ?c = 10 ^ k" "0 < ?c" using closest_power_bounds [of 1 r, OF _ _ one_power] by simp_all
  have t: "tick_delta d = Inr (if r / of_int ?c = 1 then ?c div 10 else ?c)"
    using c(2) assms(1) PFloat by (simp add: tick_delta_def num_div_def Let_def)
  show ?thesis
  proof (cases "r / of_int ?c = 1")
    case True
    then have "r = of_int ?c" using c(2) by simp
    then have "?c \<noteq> 1" using assms(2) PFloat by auto
    with power10_div [OF c(1)] True t show ?thesis by simp
  next
    case False
    with t c(2) show ?thesis by simp
  qed
qed

lemma layout_scale_ready:
  assumes "sc_bounds sc = Some (a, b)" and "val a < val b" and "val b - val a \<noteq> 1"
  shows "\<exists>sc'. layout_scale ext width sc = Inr sc' \<and> scale_ready a b sc'"
proof -
  obtain delta where "tick_delta (num_sub b a) = Inr delta" "0 < delta"
    using tick_delta_pos [of "num_sub b a"] assms(2,3) by auto
  then show ?thesis
    using assms by (simp add: layout_scale_def attribute_def tick_ends_def num_mod_def scale_ready_def)
qed

text \<open>A graphic with a range and data, to be laid out.\<close>

definition prepared :: "colors \<Rightarrow> graphic \<Rightarrow> bool" where
  "prepared cs g \<longleftrightarrow>
     (\<exists>a b. g_range g = Some (a, b) \<and> sc_bounds (mid_scale g) = Some (a, b) \<and> r_start (g_data g) = a \<and> r_end (g_data g) = b \<and>
       val a < val b \<and> val b - val a \<noteq> 1) \<and>
     (\<exists>lo hi. sc_bounds (bot_scale g) = Some (lo, hi) \<and> val lo < val hi \<and> val hi - val lo \<noteq> 1) \<and>
     length (legends (g_legend g)) \<le> length (legend_colors (g_legend g)) \<and> (\<forall>t \<in> set (r_timelines (g_data g)). colored cs t)"

lemma layout_graphic_ready:
  assumes "prepared cs g"
  shows "\<exists>g'. layout_graphic ext width height g = (Inr (), g') \<and> prepared cs g' \<and> frame_ready cs g'"
proof -
  obtain a b lo hi where g: "g_range g = Some (a, b)" "sc_bounds (mid_scale g) = Some (a, b)" "r_start (g_data g) = a" "r_end (g_data g) = b"
      "val a < val b" "val b - val a \<noteq> 1" "sc_bounds (bot_scale g) = Some (lo, hi)" "val lo < val hi" "val hi - val lo \<noteq> 1"
    using assms by (auto simp: prepared_def)
  define g1 where "g1 = g\<lparr>g_width := width, g_height := height, g_legend := layout_legend ext width (g_legend g),
      g_data := layout_timelines ext (PInt width) (g_data g)\<rparr>"
  obtain m where m: "layout_scale ext (mid_width g1) (mid_scale g) = Inr m" "scale_ready a b m"
    using layout_scale_ready [OF g(2,5,6)] by blast
  obtain d where d: "layout_scale ext (PInt width) (bot_scale g) = Inr d" "scale_ready lo hi d"
    using layout_scale_ready [OF g(7-9)] by blast
  have data: "r_start (g_data g1) = a" "r_end (g_data g1) = b" "r_timelines (g_data g1) = r_timelines (g_data g)"
      "legends (g_legend g1) = legends (g_legend g)" "legend_colors (g_legend g1) = legend_colors (g_legend g)"
    using g(3,4) by (simp_all add: g1_def layout_timelines_def layout_legend_def Let_def)
  have "layout_graphic ext width height g = (Inr (), g1\<lparr>mid_scale := m, bot_scale := d\<rparr>)"
    unfolding layout_graphic_def Let_def g1_def [symmetric] using m(1) d(1) by (simp add: g1_def)
  moreover have "prepared cs (g1\<lparr>mid_scale := m, bot_scale := d\<rparr>)" "frame_ready cs (g1\<lparr>mid_scale := m, bot_scale := d\<rparr>)"
    using assms g m(2) d(2) data by (auto simp: prepared_def frame_ready_def scale_ready_def g1_def)
  ultimately show ?thesis by blast
qed

lemma layout_graphic_height: "layout_graphic ext width height g = (u, g') \<Longrightarrow> g_height g' = height"
  by (auto simp: layout_graphic_def Let_def split: sum.splits)

text \<open>The legend looks up every value of the data.\<close>

lemma range_colors_all:
  assumes "range_colors vs s = Inr (cs, s')"
  shows "length cs = length vs \<and> (\<forall>v \<in> set vs. map_of (named_colors s') v \<noteq> None)"
proof -
  have "length cs' = length cs + length vs \<and> (\<forall>v \<in> set vs \<union> dom (map_of (named_colors s)). map_of (named_colors s') v \<noteq> None)"
    if "for_each (\<lambda>v (cs, s). res_bind (lookup_color v s) (\<lambda>(c, s'). Inr (cs @ [c], s'))) vs (cs, s) = Inr (cs', s')" for vs cs s cs' s'
    using that
  proof (induction vs arbitrary: cs s)
    case (Cons v vs)
    obtain c s1 where v: "lookup_color v s = Inr (c, s1)" using Cons.prems by (auto simp: res_simps)
    with Cons.prems have "for_each (\<lambda>v (cs, s). res_bind (lookup_color v s) (\<lambda>(c, s'). Inr (cs @ [c], s'))) vs (cs @ [c], s1) = Inr (cs', s')"
      by simp
    from Cons.IH [OF this] have ih: "length cs' = Suc (length cs) + length vs"
        "\<forall>v \<in> set vs \<union> dom (map_of (named_colors s1)). map_of (named_colors s') v \<noteq> None"
      by simp_all
    have "v \<in> dom (map_of (named_colors s1))" "dom (map_of (named_colors s)) \<subseteq> dom (map_of (named_colors s1))"
      using lookup_color_keeps [OF v] by blast+
    then have "set (v # vs) \<union> dom (map_of (named_colors s)) \<subseteq> set vs \<union> dom (map_of (named_colors s1))" by auto
    then have "\<forall>u \<in> set (v # vs) \<union> dom (map_of (named_colors s)). map_of (named_colors s') u \<noteq> None" using ih(2) by blast
    with ih(1) show ?case by simp
  qed auto
  from this [of vs "[]" s cs s'] assms show ?thesis by (simp add: range_colors_def)
qed

lemma range_colors_error: "range_colors vs s = Inl e \<Longrightarrow> e = IndexError"
proof -
  have "for_each (\<lambda>v (cs, s). res_bind (lookup_color v s) (\<lambda>(c, s'). Inr (cs @ [c], s'))) vs (cs, s) = Inl e \<Longrightarrow> e = IndexError" for cs
    by (induction vs arbitrary: cs s) (auto simp: res_simps lookup_color_def split: option.splits if_splits)
  then show "range_colors vs s = Inl e \<Longrightarrow> e = IndexError" by (simp add: range_colors_def)
qed

lemma dict_keys_updates: "set (dict_keys (fold (\<lambda>v. AList.update v x) vs d)) = set (dict_keys d) \<union> set vs"
  by (induction vs arbitrary: d) (auto simp: dom_update)

lemma range_values_all:
  assumes "\<And>ks. set (order ks) = set ks" and "t \<in> set ts" and "l \<in> set (tl_ranges t)" and "d \<in> set (ranges l)"
  shows "rvalue d \<in> set (get_all_range_values order ts)"
  using assms(2-4) by (simp only: get_all_range_values_def assms(1) dict_keys_updates) auto

lemma no_marker: "f s = Inr [] \<Longrightarrow> io_bind (of_screen f) put_shown s = (Inr (), s)"
  by (simp add: screen_simps) (simp add: put_shown_def)

lemma expose_ok:
  assumes "frame_ready (screen_palette s) (graph (view s))" and "idle (view s)" and "full_redraw (view s)"
  shows "\<exists>s'. expose ext area s = (Inr False, s')"
proof -
  let ?g = "graph (view s)"
  obtain p where p: "draw_graphic ext ?g \<lparr>calls = surf_calls (blank ?g) @ [NewContext], palette = screen_palette s\<rparr> = (Inr (), p)"
    using draw_graphic_ok [of "\<lparr>calls = surf_calls (blank ?g) @ [NewContext], palette = screen_palette s\<rparr>" ?g ext] assms(1) by auto
  define b where "b = (blank ?g)\<lparr>surf_calls := calls p\<rparr>"
  define s1 where "s1 = s\<lparr>buffer := Some b, screen_palette := palette p, view := (view s)\<lparr>full_redraw := False\<rparr>\<rparr>"
  have "draw_into ext (blank ?g) s = (Inr (), s\<lparr>buffer := Some b, screen_palette := palette p\<rparr>)"
    using p by (simp add: draw_into_def b_def)
  then have refresh: "refresh ext s = (Inr (), s1)" using assms(3) by (simp add: refresh_def s1_def)
  have s1: "buffer s1 = Some b" "graph (view s1) = ?g" "idle (view s1)" using assms(2) by (simp_all add: s1_def idle_def)
  obtain a c lo hi where g: "g_range ?g = Some (a, c)" "scale_ready lo hi (bot_scale ?g)" using assms(1) by (auto simp: frame_ready_def)
  then obtain x x' where "get_position a (bot_scale ?g) = Inr x" "get_position c (bot_scale ?g) = Inr x'"
    using get_position_ok by metis
  then obtain y height where "get_selection_rectangle ?g = Inr (x, y, num_sub x' x, height)"
    using g(1) by (simp add: get_selection_rectangle_def attribute_def)
  then show ?thesis
    using refresh s1
    by (simp add: expose_def screen_simps(1) of_screen_def [of "attribute \<circ> buffer"] of_screen_def [of "get_selection_rectangle \<circ> graph \<circ> view"]
        attribute_def left_marker_def right_marker_def both_marker_def idle_def split_beta no_marker)
qed

lemma main_graphic_ok:
  assumes "20 \<le> upper" and "length vs \<le> length rc" and "\<forall>t \<in> set ts. colored cs t"
  shows "\<exists>g. main_graphic ext 0 upper (set_timelines ts) (set_legends vs rc) = (Inr (), g) \<and> prepared cs g"
proof -
  obtain lo hi where d: "default_range 0 upper = (lo, hi)" by fastforce
  have range: "0 \<le> lo" "lo + 1 < hi" "hi \<le> upper"
  proof -
    have "lo = upper div 2 - upper div 10 div 2" "hi = upper div 2 + upper div 10 div 2"
      using d by (simp_all add: default_range_def Let_def)
    moreover have "upper div 10 div 2 \<le> upper div 2" "1 \<le> upper div 10 div 2" "upper div 2 + upper div 10 div 2 \<le> upper"
      using assms(1) by linarith+
    ultimately show "0 \<le> lo" "lo + 1 < hi" "hi \<le> upper" by simp_all
  qed
  define g0 where "g0 = new_graphic 0 upper (set_timelines ts) (set_legends vs rc)"
  obtain a b where ab: "clamp_range g0 (PInt lo) (PInt hi) = (a, b)" "val a = of_int lo" "val b = of_int hi"
    using range by (simp add: clamp_range_def g0_def new_graphic_def max_absorb2 min_absorb2 max_absorb1 min_absorb1)
  define g1 where "g1 = g0\<lparr>g_range := Some (a, b), g_data := (g_data g0)\<lparr>r_start := a, r_end := b\<rparr>, mid_scale := set_bounds a b (mid_scale g0)\<rparr>"
  have "main_graphic ext 0 upper (set_timelines ts) (set_legends vs rc) = layout_graphic ext (g_width g0) (g_height g0) g1"
    using ab(1) by (simp add: main_graphic_def d set_range_def g0_def [symmetric] g1_def)
  moreover have "(of_int hi :: rat) - of_int lo \<noteq> 1" using range(2) by (simp flip: of_int_diff)
  then have "prepared cs g1"
    using range assms ab(2,3)
    by (simp add: prepared_def g1_def g0_def new_graphic_def set_bounds_def set_bot_def set_timelines_def set_legends_def)
  ultimately show ?thesis using layout_graphic_ready [of cs g1 ext "g_width g0" "g_height g0"] by auto
qed

lemma window_ok:
  assumes "prepared cs g"
  shows "\<exists>s1 s2 b. handle ext (SizeAllocate width height) (new_screen g cs) = (Inr (), s1) \<and> expose ext area s1 = (Inr False, s2) \<and>
    buffer s2 = Some b \<and> shows_frame ext (graph (view s1)) b \<and> surf_width b = width \<and> surf_height b = height"
proof -
  obtain g2 where g2: "layout_graphic ext width height g = (Inr (), g2)" "frame_ready cs g2"
    using layout_graphic_ready [OF assms] by blast
  define s where "s = new_screen g cs"
  define s1 where "s1 = s\<lparr>view := (view s)\<lparr>widget_width := Some width, graph := g2, full_redraw := True\<rparr>\<rparr>"
  have h: "handle ext (SizeAllocate width height) s = (Inr (), s1)"
    using g2(1) by (simp add: on_view_def size_allocate_def s1_def s_def new_screen_def new_widget_def)
  have "frame_ready (screen_palette s1) (graph (view s1))" "idle (view s1)" "full_redraw (view s1)"
    using g2(2) by (simp_all add: s1_def s_def new_screen_def new_widget_def idle_def)
  from expose_ok [OF this] obtain s2 where s2: "expose ext area s1 = (Inr False, s2)" by blast
  obtain ax ay aw ah where area: "area = (ax, ay, aw, ah)" by (cases area)
  have "up_to_date ext s1" using \<open>full_redraw (view s1)\<close> by (simp add: up_to_date_def)
  then obtain b where "buffer s2 = Some b" "shows_frame ext (graph (view s1)) b"
    using expose_paints [OF s2 [unfolded area]] by blast
  moreover have "g_width (graph (view s1)) = width" "g_height (graph (view s1)) = height"
    using layout_graphic_keeps(4) [OF g2(1)] layout_graphic_height [OF g2(1)] by (simp_all add: s1_def)
  ultimately show ?thesis using h s2 unfolding s_def by (auto simp: shows_frame_size)
qed

text \<open>C34. 
  Whatever the file, if its times start at 0 and span at least twenty units: the program starts unless the default
  colours run out, the window gets its size, and exposing it raises nothing and paints the graphic at that size.
\<close>

theorem first_window:
  assumes "\<And>ks. set (order ks) = set ks" and "timelines_bounds (snd (read_data lines)) = (0, upper)" and "20 \<le> upper"
  shows "grid_main ext order lines = Inl IndexError \<and>
      (\<exists>e. range_colors (get_all_range_values order (snd (read_data lines))) (fst (read_data lines)) = Inl e) \<or>
    (\<exists>s s1 s2 b. grid_main ext order lines = Inr s \<and> handle ext (SizeAllocate width height) s = (Inr (), s1) \<and>
      expose ext area s1 = (Inr False, s2) \<and> buffer s2 = Some b \<and> shows_frame ext (graph (view s1)) b \<and>
      surf_width b = width \<and> surf_height b = height)"
proof -
  let ?ts = "snd (read_data lines)" and ?vs = "get_all_range_values order (snd (read_data lines))"
  consider e where "range_colors ?vs (fst (read_data lines)) = Inl e"
    | rc cs where "range_colors ?vs (fst (read_data lines)) = Inr (rc, cs)"
    by (cases "range_colors ?vs (fst (read_data lines))") auto
  then show ?thesis
  proof cases
    case 1
    with range_colors_error [OF this] show ?thesis by (simp add: grid_main_def Let_def split_beta)
  next
    case 2
    have "\<forall>t \<in> set ?ts. colored cs t"
      using range_colors_all [OF 2] range_values_all [OF assms(1)] by (simp add: colored_def)
    then obtain g where "main_graphic ext 0 upper (set_timelines ?ts) (set_legends ?vs rc) = (Inr (), g)" "prepared cs g"
      using main_graphic_ok [OF assms(3), of ?vs rc ?ts cs ext] range_colors_all [OF 2] by auto
    with 2 assms(2) window_ok [of cs g ext width height area] show ?thesis by (simp add: grid_main_def Let_def split_beta)
  qed
qed

text \<open>The window of the program, once it has its size, is one in which dragging is understood: it shows a range of the data.\<close>

lemma layout_graphic_width:
  "layout_graphic ext width height g = (Inr (), g') \<Longrightarrow> sc_width (bot_scale g') = PInt width"
  by (auto simp: layout_graphic_def Let_def split: sum.splits dest: layout_scale_keeps)

lemma started_shows_range:
  assumes "20 \<le> upper" and "0 < width" and "main_graphic ext 0 upper data l = (Inr (), g)"
    and "size_allocate ext width height (new_widget g) = (Inr u, w)"
  shows "\<exists>a b. shows_range 0 upper a b w \<and> idle w"
proof -
  obtain lo hi where d: "default_range 0 upper = (lo, hi)" by fastforce
  let ?g0 = "new_graphic 0 upper data l"
  have g: "set_range ext (PInt lo) (PInt hi) ?g0 = (Inr (), g)" using assms(3) d by (simp add: main_graphic_def)
  obtain g' where w: "layout_graphic ext width height g = (Inr (), g')"
      "w = (new_widget g)\<lparr>widget_width := Some width, graph := g', full_redraw := True\<rparr>"
    using assms(4) by (auto simp: size_allocate_def new_widget_def split: prod.splits sum.splits)
  note keeps = layout_graphic_keeps [OF w(1)] and state = set_range_state [OF g]
  obtain a b where ab: "clamp_range ?g0 (PInt lo) (PInt hi) = (a, b)" by fastforce
  have "0 \<le> upper" using assms(1) by simp
  then have "0 \<le> lo" "lo \<le> hi" "hi \<le> upper" using default_range_order [of upper] d by simp_all
  then have "0 \<le> val a" "val a \<le> val b" "val b \<le> of_int upper"
    using ab by (auto simp: clamp_range_def new_graphic_def)
  then have "shows_range 0 upper a b w"
    using assms(1,2) keeps state ab layout_graphic_width [OF w(1)] w(2)
    by (simp add: shows_range_def shows_span_def new_graphic_def set_bounds_def set_bot_def new_scale_def new_widget_def)
  moreover have "idle w" using w(2) by (simp add: idle_def new_widget_def)
  ultimately show ?thesis by blast
qed

text \<open>Zooming in to one unit raises in the layout, when the range has changed, and the old picture stays.\<close>

lemma zoom_error_stale:
  assumes "shows_floats S E a b w" and "val b = val a + 2"
  shows "\<exists>w'. set_bigger_zoom ext w = (Inl ZeroDivisionError, w') \<and> full_redraw w' = full_redraw w \<and>
    (\<exists>a' b'. g_range (graph w') = Some (a', b') \<and> val a' = val a \<and> val b' = val a + 1)"
proof -
  have s: "shows_span S E (graph w)" "g_range (graph w) = Some (a, b)" "is_float a" "is_float b"
      "of_int S \<le> val a" "val a \<le> val b" "val b \<le> of_int E"
    using assms(1) by (simp_all add: shows_floats_def shows_range_def)
  obtain h where h: "num_div (num_sub b a) (PInt 2) = Inr h" "val h = 1"
    using num_div_float [of "num_sub b a" "PInt 2"] s(3,4) assms(2) by auto
  let ?e = "num_add a h"
  obtain a1 b1 where r: "clamp_range (graph w) a ?e = (a1, b1)" "val a1 = val a" "val b1 = val a + 1"
    using s h(2) assms(2) by (simp add: clamp_range_def shows_span_def min_absorb2 min_absorb1 max_absorb2 max_absorb1)
  have f: "tick_delta (num_sub b1 a1) = Inr 0"
  proof -
    have v: "val (num_sub b1 a1) = 1" using r(2,3) by simp
    have "closest_power 1 1 = 1" by (simp add: closest_power.simps [of 1 1])
    then show ?thesis using v by (cases "num_sub b1 a1") (simp_all add: tick_delta_def num_div_def)
  qed
  then have fail: "layout_scale ext width sc = Inl ZeroDivisionError" if "sc_bounds sc = Some (a1, b1)" for width sc
    using that by (simp add: layout_scale_def attribute_def tick_ends_def num_mod_def)
  have "\<exists>g'. set_range ext a ?e (graph w) = (Inl ZeroDivisionError, g')"
    using r(1) by (simp add: set_range_def layout_graphic_def Let_def fail set_bounds_def)
  then obtain g' where g': "set_range ext a ?e (graph w) = (Inl ZeroDivisionError, g')" ..
  have "set_bigger_zoom ext w = (Inl ZeroDivisionError, w\<lparr>graph := g'\<rparr>)"
    using s(2) h(1) g' by (simp add: set_bigger_zoom_def reading_def get_range_def attribute_def io_bind_def change_range_def)
  then show ?thesis using set_range_state(1) [OF g'] r by simp
qed

section \<open>Witnesses: the window\<close>

definition demo_lines :: "string list" where
  "demo_lines = [''event-str a e v 40'' @ [NL]]"

lemma demo_lines_read:
  "read_data demo_lines = (colors_init, [\<lparr>tl_name = ''a'', tl_ranges = [], tl_event_str = [\<lparr>te_name = ''e'', events = [\<lparr>ev_at = 40, evalue = ''v''\<rparr>]\<rparr>], tl_event_int = []\<rparr>])"
  by code_simp

lemma demo_prepared: "\<exists>g. prepared colors_init g"
  using main_graphic_ok [of 20 "[]" "[]" "[]"] by auto

theorem first_window_witness:
  "\<exists>s s1 s2 b. grid_main demo_ext id demo_lines = Inr s \<and> handle demo_ext (SizeAllocate 300 200) s = (Inr (), s1) \<and>
    expose demo_ext (0, 0, 300, 200) s1 = (Inr False, s2) \<and> buffer s2 = Some b \<and> surf_width b = 300"
proof -
  have "timelines_bounds (snd (read_data demo_lines)) = (0, 40)"
    unfolding demo_lines_read by code_simp
  moreover have "get_all_range_values id (snd (read_data demo_lines)) = []"
    unfolding demo_lines_read by (simp add: get_all_range_values_def)
  ultimately show ?thesis
    using first_window [of id demo_lines 40 demo_ext 300 200 "(0, 0, 300, 200)"] by (auto simp: range_colors_def)
qed

theorem expose_shows_current_witness:
  "\<exists>g s s' b. io_for (handle demo_ext) [SizeAllocate 300 200] (new_screen g colors_init) = (Inr (), s) \<and>
    expose demo_ext (0, 0, 300, 200) s = (Inr False, s') \<and> shows_frame demo_ext (graph (view s)) b \<and> SourceSurface 300 200 (surf_calls b) \<in> set (shown s')"
proof -
  obtain g where "prepared colors_init g" using demo_prepared by blast
  then obtain s1 s2 b where s: "handle demo_ext (SizeAllocate 300 200) (new_screen g colors_init) = (Inr (), s1)"
      "expose demo_ext (0, 0, 300, 200) s1 = (Inr False, s2)" "shows_frame demo_ext (graph (view s1)) b" "surf_width b = 300" "surf_height b = 200"
    using window_ok [of colors_init g demo_ext 300 200 "(0, 0, 300, 200)"] by blast
  then have "io_for (handle demo_ext) [SizeAllocate 300 200] (new_screen g colors_init) = (Inr (), s1)" by (simp add: io_bind_def)
  moreover have "g_width (graph (view s1)) = 300" "g_height (graph (view s1)) = 200" using s(3-5) by (simp_all add: shows_frame_def)
  ultimately show ?thesis using expose_shows_current [of demo_ext "[SizeAllocate 300 200]" g colors_init s1, OF _ s(2)] s(2) by fastforce
qed

end
