(* ===== verification/Viz_Simulation.thy ===== *)
theory Viz_Simulation
  imports Py_Prelude Step_Systems
begin

text \<open>
  The two threads of the visualizer (\<^verbatim>\<open>visualizer/core.py\<close>): \<^verbatim>\<open>SimulationThread.run\<close>, and the GTK thread
  with the callbacks that share the simulation lock, the \<^verbatim>\<open>go\<close> event and the update timer with it.  A state
  is a record, the steps of the two threads are the relations \<open>sim_step\<close> and \<open>view_step\<close>.
\<close>

section \<open>States\<close>

text \<open>Where the simulation thread stands in \<^verbatim>\<open>run\<close>; the constructors name what it does next.\<close>

datatype sim_pc = Test_quit | Wait_go | Clear_go | Test_quit_again | Acquire | Run_until | Post_update | Release | Gone

datatype owner = By_sim | By_view

text \<open>
  The callbacks that take the lock to read or change the simulation: \<^verbatim>\<open>update_model\<close>,
  \<^verbatim>\<open>set_nodes_of_interest\<close>, and those that change nothing kept here (tooltips, dragging, information windows).
\<close>

datatype viz_op = Update_model | Set_nodes "nat list" | Look

text \<open>
  The callbacks in progress, innermost first.  A timer callback that finds the lock taken (\<open>Timer_poll\<close>) runs the
  events pending before it tries again, so other callbacks start on top of it.
\<close>

datatype viz_frame =
    Timer_wait nat
  | Timer_poll nat
  | Timer_locked nat
  | Timer_done nat "string list"
  | Op_want viz_op
  | Op_locked viz_op
  | Quitting
  | Joining

text \<open>
  \<open>sources\<close> are the update timers alive in the event loop, \<open>timer_id\<close> is \<^verbatim>\<open>_update_timeout_id\<close>, \<open>posted\<close> counts the
  idle callbacks not yet run.  \<open>samples\<close> is what the simulator collected in its last run, given by the number of
  that run; \<open>kept\<close> is \<^verbatim>\<open>_last_transmissions\<close> before it is cut to its length.  \<open>bad_removes\<close>, \<open>dialogs\<close>, \<open>lost\<close> and
  \<open>produced\<close> record what the event loop complains about and what becomes of the pause messages.
\<close>

record viz =
  pc :: sim_pc
  lock :: "owner option"
  go :: bool
  quit_flag :: bool
  target_time :: rat
  pause_messages :: "string list"
  now :: rat
  runs :: nat
  samples :: nat
  interest :: "nat list"
  frames :: "viz_frame list"
  main_quit :: bool
  posted :: nat
  play :: bool
  speed :: rat
  sample_period :: rat
  interval :: int
  timer_id :: "nat option"
  sources :: "nat set"
  next_id :: nat
  shown :: rat
  kept :: "nat list"
  dialogs :: "string list list"
  lost :: "string list"
  produced :: "string list"
  bad_removes :: nat

definition SAMPLE_PERIOD :: rat where
  "SAMPLE_PERIOD = 1 / 10"

section \<open>The update timer\<close>

definition source_remove :: "nat \<Rightarrow> viz \<Rightarrow> viz" where
  "source_remove i s =
     (if i \<in> sources s then s\<lparr>sources := sources s - {i}\<rparr> else s\<lparr>bad_removes := Suc (bad_removes s)\<rparr>)"

definition remove_timer :: "viz \<Rightarrow> viz" where
  "remove_timer s = (case timer_id s of None \<Rightarrow> s | Some i \<Rightarrow> source_remove i s)"

definition start_update_timer :: "viz \<Rightarrow> viz" where
  "start_update_timer s =
     (let s' = remove_timer s; i = next_id s'
      in s'\<lparr>timer_id := Some i, sources := insert i (sources s'), next_id := Suc i,
            interval := \<lfloor>SAMPLE_PERIOD / min (speed s') 1 * 1000\<rfloor>\<rparr>)"

definition speed_changed :: "rat \<Rightarrow> viz \<Rightarrow> viz" where
  "speed_changed v s = start_update_timer (s\<lparr>speed := v, sample_period := SAMPLE_PERIOD * v\<rparr>)"

definition on_play_button_toggled :: "viz \<Rightarrow> viz" where
  "on_play_button_toggled s = (if play s then start_update_timer s else remove_timer s)"

text \<open>A toggle button calls its handler only when its state changes.\<close>

definition set_active :: "bool \<Rightarrow> viz \<Rightarrow> viz" where
  "set_active b s = (if play s = b then s else on_play_button_toggled (s\<lparr>play := b\<rparr>))"

section \<open>The simulation thread\<close>

text \<open>
  \<^verbatim>\<open>SimulatorRunUntil\<close> is the simulator's: it stops at the target time at the latest, earlier when a pause
  message comes or nothing is left to do, returns at once when the target has passed, and forgets the
  samples of the run before.
\<close>

inductive sim_step :: "viz \<Rightarrow> viz \<Rightarrow> bool"
  where
  test_quit: "sim_step s (s\<lparr>pc := (if quit_flag s then Gone else Wait_go)\<rparr>)"
    if "pc s = Test_quit"
| wait_go: "sim_step s (s\<lparr>pc := Clear_go\<rparr>)"
    if "pc s = Wait_go" "go s"
| clear_go: "sim_step s (s\<lparr>pc := Test_quit_again, go := False\<rparr>)"
    if "pc s = Clear_go"
| test_quit_again: "sim_step s (s\<lparr>pc := (if quit_flag s then Gone else Acquire)\<rparr>)"
    if "pc s = Test_quit_again"
| acquire: "sim_step s (s\<lparr>pc := Run_until, lock := Some By_sim\<rparr>)"
    if "pc s = Acquire" "lock s = None"
| run_until: "sim_step s (s\<lparr>pc := Post_update, now := t, runs := Suc (runs s), samples := Suc (runs s),
      pause_messages := pause_messages s @ msgs, produced := produced s @ msgs\<rparr>)"
    if "pc s = Run_until" "now s \<le> t" "t \<le> max (now s) (target_time s)"
| post_update: "sim_step s (s\<lparr>pc := Release, posted := Suc (posted s)\<rparr>)"
    if "pc s = Post_update"
| release: "sim_step s (s\<lparr>pc := Test_quit, lock := None\<rparr>)"
    if "pc s = Release"

inductive_cases sim_stepE: "sim_step s t"

section \<open>The GTK thread\<close>

text \<open>
  Callbacks start from the main loop, or from the loop of a polling timer callback when \<open>nested\<close> says that
  events may be pending there.  The event loop does not start a source that is being dispatched.
\<close>

fun timer_of :: "viz_frame \<Rightarrow> nat option" where
  "timer_of (Timer_wait i) = Some i"
| "timer_of (Timer_poll i) = Some i"
| "timer_of (Timer_locked i) = Some i"
| "timer_of (Timer_done i msgs) = Some i"
| "timer_of (Op_want opn) = None"
| "timer_of (Op_locked opn) = None"
| "timer_of Quitting = None"
| "timer_of Joining = None"

definition can_dispatch :: "bool \<Rightarrow> viz \<Rightarrow> bool" where
  "can_dispatch nested s =
     (case frames s of [] \<Rightarrow> \<not> main_quit s | Timer_poll i # fs \<Rightarrow> nested | _ \<Rightarrow> False)"

definition push :: "viz_frame \<Rightarrow> viz \<Rightarrow> viz" where
  "push f s = s\<lparr>frames := f # frames s\<rparr>"

definition pop :: "viz \<Rightarrow> viz" where
  "pop s = s\<lparr>frames := tl (frames s)\<rparr>"

definition quit_begin :: "viz \<Rightarrow> viz" where
  "quit_begin s = push Quitting ((remove_timer s)\<lparr>timer_id := None, quit_flag := True\<rparr>)"

fun op_effect :: "viz_op \<Rightarrow> viz \<Rightarrow> viz" where
  "op_effect Update_model s = s\<lparr>kept := kept s @ [samples s]\<rparr>"
| "op_effect (Set_nodes ns) s = s\<lparr>interest := ns\<rparr>"
| "op_effect Look s = s"

text \<open>The part of \<^verbatim>\<open>update_view_timeout\<close> under the lock, and what follows its release.\<close>

definition update_locked :: "viz \<Rightarrow> viz" where
  "update_locked s = s\<lparr>pause_messages := [], shown := now s, target_time := now s + sample_period s, lock := None\<rparr>"

definition after_update :: "nat \<Rightarrow> string list \<Rightarrow> viz \<Rightarrow> viz" where
  "after_update i msgs s =
     (let s1 = (if msgs \<noteq> [] then set_active False (s\<lparr>dialogs := dialogs s @ [msgs]\<rparr>) else s)
      in if \<not> play s1 then pop (s1\<lparr>timer_id := None, sources := sources s1 - {i}\<rparr>)
         else pop (s1\<lparr>go := True\<rparr>))"

inductive view_step :: "bool \<Rightarrow> viz \<Rightarrow> viz \<Rightarrow> bool"
  for nested :: bool
  where
  timer_fires: "view_step nested s (push (Timer_wait i) s)"
    if "can_dispatch nested s" "i \<in> sources s" "Some i \<notin> timer_of ` set (frames s)"
| idle_runs: "view_step nested s (push (Op_want Update_model) (s\<lparr>posted := n\<rparr>))"
    if "can_dispatch nested s" "posted s = Suc n"
| user_op: "view_step nested s (push (Op_want opn) s)"
    if "can_dispatch nested s" "opn \<noteq> Update_model"
| toggle: "view_step nested s (set_active (\<not> play s) s)"
    if "can_dispatch nested s"
| set_speed: "view_step nested s (speed_changed v s)"
    if "can_dispatch nested s" "1 / 100 \<le> v" "v \<le> 10"
| quit: "view_step nested s (quit_begin s)"
    if "can_dispatch nested s"
| quit_signal: "view_step nested s (s\<lparr>frames := Joining # fs, go := True\<rparr>)"
    if "frames s = Quitting # fs"
| joined: "view_step nested s (s\<lparr>frames := fs, main_quit := True\<rparr>)"
    if "frames s = Joining # fs" "pc s = Gone"
| timer_busy: "view_step nested s (s\<lparr>frames := Timer_poll i # fs\<rparr>)"
    if "frames s = Timer_wait i # fs" "lock s \<noteq> None"
| timer_retries: "view_step nested s (s\<lparr>frames := Timer_wait i # fs\<rparr>)"
    if "frames s = Timer_poll i # fs"
| timer_locks: "view_step nested s (s\<lparr>frames := Timer_locked i # fs, lock := Some By_view\<rparr>)"
    if "frames s = Timer_wait i # fs" "lock s = None"
| timer_updates: "view_step nested s ((update_locked s)\<lparr>frames := Timer_done i (pause_messages s) # fs\<rparr>)"
    if "frames s = Timer_locked i # fs"
| update_raises: "view_step nested s (s\<lparr>frames := fs, lock := None, shown := now s,
      pause_messages := [], lost := lost s @ pause_messages s, sources := sources s - {i}\<rparr>)"
    if "frames s = Timer_locked i # fs"
| timer_finishes: "view_step nested s (after_update i msgs s)"
    if "frames s = Timer_done i msgs # fs"
| op_locks: "view_step nested s (s\<lparr>frames := Op_locked opn # fs, lock := Some By_view\<rparr>)"
    if "frames s = Op_want opn # fs" "lock s = None"
| op_done: "view_step nested s (op_effect opn (s\<lparr>frames := fs, lock := None\<rparr>))"
    if "frames s = Op_locked opn # fs"

text \<open>The two threads interleave.\<close>

inductive viz_step :: "bool \<Rightarrow> viz \<Rightarrow> viz \<Rightarrow> bool"
  for nested :: bool
  where
  by_sim: "viz_step nested s t" if "sim_step s t"
| by_view: "viz_step nested s t" if "view_step nested s t"

text \<open>The state when \<^verbatim>\<open>start\<close> enters the main loop: setting the speed has started a timer.\<close>

definition viz_init :: "nat \<Rightarrow> viz" where
  "viz_init n =
    speed_changed 1 \<lparr>pc = Test_quit, lock = None, go = False, quit_flag = False, target_time = 0, pause_messages = [],
      now = 0, runs = 0, samples = 0, interest = [0..<n], frames = [], main_quit = False, posted = 0, play = False,
      speed = 1, sample_period = SAMPLE_PERIOD, interval = 0, timer_id = None, sources = {}, next_id = 0, shown = 0,
      kept = [], dialogs = [], lost = [], produced = [], bad_removes = 0\<rparr>"

section \<open>The lock\<close>

fun holds_lock :: "viz_frame \<Rightarrow> bool" where
  "holds_lock (Timer_locked i) = True"
| "holds_lock (Op_locked opn) = True"
| "holds_lock (Timer_wait i) = False"
| "holds_lock (Timer_poll i) = False"
| "holds_lock (Timer_done i msgs) = False"
| "holds_lock (Op_want opn) = False"
| "holds_lock Quitting = False"
| "holds_lock Joining = False"

definition sim_inside :: "viz \<Rightarrow> bool" where
  "sim_inside s \<longleftrightarrow> pc s = Run_until \<or> pc s = Post_update \<or> pc s = Release"

definition view_inside :: "viz \<Rightarrow> bool" where
  "view_inside s \<longleftrightarrow> (\<exists>f \<in> set (frames s). holds_lock f)"

text \<open>Only the innermost callback can hold the lock: those below it are polling timer callbacks.\<close>

definition lock_ok :: "viz \<Rightarrow> bool" where
  "lock_ok s \<longleftrightarrow> (lock s = Some By_sim \<longleftrightarrow> sim_inside s) \<and> (lock s = Some By_view \<longleftrightarrow> view_inside s) \<and>
     (\<forall>f \<in> set (tl (frames s)). \<exists>i. f = Timer_poll i)"

lemma timers_simps [simp]:
  "pc (remove_timer s) = pc s" "lock (remove_timer s) = lock s" "frames (remove_timer s) = frames s"
  "pc (start_update_timer s) = pc s" "lock (start_update_timer s) = lock s"
  "frames (start_update_timer s) = frames s"
  by (auto simp: remove_timer_def source_remove_def start_update_timer_def Let_def split: option.split)

lemma set_active_simps [simp]:
  "pc (set_active b s) = pc s" "lock (set_active b s) = lock s" "frames (set_active b s) = frames s"
  by (auto simp: set_active_def on_play_button_toggled_def)

lemma lock_ok_cong:
  "lock_ok s \<Longrightarrow> pc t = pc s \<Longrightarrow> lock t = lock s \<Longrightarrow> frames t = frames s \<Longrightarrow> lock_ok t"
  by (simp add: lock_ok_def sim_inside_def view_inside_def)

lemma can_dispatch_frames:
  assumes "can_dispatch nested s"
  shows "frames s = [] \<or> (\<exists>i fs. frames s = Timer_poll i # fs)"
  using assms by (auto simp: can_dispatch_def split: list.splits viz_frame.splits)

lemma lock_ok_push:
  assumes "lock_ok s" "can_dispatch nested s" "\<not> holds_lock f" "pc t = pc s" "lock t = lock s" "frames t = frames s"
  shows "lock_ok (push f t)"
  using can_dispatch_frames [OF assms(2)] assms(1,3-)
  by (auto simp: lock_ok_def sim_inside_def view_inside_def push_def)

lemma sim_step_lock: "sim_step s t \<Longrightarrow> lock_ok s \<Longrightarrow> lock_ok t"
  by (induction rule: sim_step.induct) (auto simp: lock_ok_def sim_inside_def view_inside_def)

text \<open>Below a callback there are only polling timer callbacks, which do not hold the lock.\<close>

lemma lock_ok_top:
  assumes "lock_ok s" "frames s = f # fs"
  shows "view_inside s = holds_lock f" and "\<And>g. g \<in> set fs \<Longrightarrow> \<not> holds_lock g"
    and "\<forall>g \<in> set fs. \<exists>i. g = Timer_poll i"
proof -
  show 1: "\<forall>g \<in> set fs. \<exists>i. g = Timer_poll i" using assms by (simp add: lock_ok_def)
  then show 2: "\<And>g. g \<in> set fs \<Longrightarrow> \<not> holds_lock g" by fastforce
  show "view_inside s = holds_lock f" using assms(2) 2 by (auto simp: view_inside_def)
qed

lemma in_set_tl: "x \<in> set (tl xs) \<Longrightarrow> x \<in> set xs"
  by (cases xs) auto

text \<open>A move of the innermost callback keeps the invariant when the lock says whether it is inside.\<close>

lemma lock_ok_replace:
  assumes "lock_ok s" "frames s = f # fs" "pc t = pc s" "frames t = g # fs"
    and "lock t = (if holds_lock g then Some By_view else if holds_lock f then None else lock s)"
    and "holds_lock g \<Longrightarrow> holds_lock f \<or> lock s = None"
  shows "lock_ok t"
  using lock_ok_top [OF assms(1,2)] assms
  by (auto simp: lock_ok_def sim_inside_def view_inside_def)

lemma lock_ok_pop:
  assumes "lock_ok s" "frames s = f # fs" "pc t = pc s" "frames t = fs"
    and "lock t = (if holds_lock f then None else lock s)"
  shows "lock_ok t"
  using lock_ok_top [OF assms(1,2)] assms
  by (auto simp: lock_ok_def sim_inside_def view_inside_def dest: in_set_tl)

lemma op_effect_simps [simp]:
  "pc (op_effect opn s) = pc s" "lock (op_effect opn s) = lock s" "frames (op_effect opn s) = frames s"
  by (cases opn; simp)+

lemma after_update_simps:
  "pc (after_update i msgs s) = pc s" "lock (after_update i msgs s) = lock s"
  "frames (after_update i msgs s) = tl (frames s)"
  by (simp_all add: after_update_def pop_def Let_def)

lemma view_step_lock: "view_step nested s t \<Longrightarrow> lock_ok s \<Longrightarrow> lock_ok t"
proof (induction rule: view_step.induct)
  case (timer_fires s i)
  then show ?case by (intro lock_ok_push) auto
next
  case (idle_runs s n)
  then show ?case by (intro lock_ok_push) auto
next
  case (user_op s opn)
  then show ?case by (intro lock_ok_push) auto
next
  case (toggle s)
  then show ?case using lock_ok_cong [of s] by simp
next
  case (set_speed s v)
  then show ?case using lock_ok_cong [of s] by (simp add: speed_changed_def)
next
  case (quit s)
  then show ?case unfolding quit_begin_def by (intro lock_ok_push) auto
next
  case (quit_signal s fs)
  show ?case by (rule lock_ok_replace [of s Quitting fs]) (use quit_signal in auto)
next
  case (joined s fs)
  show ?case by (rule lock_ok_pop [of s Joining fs]) (use joined in auto)
next
  case (timer_busy s i fs)
  show ?case by (rule lock_ok_replace [of s "Timer_wait i" fs]) (use timer_busy in auto)
next
  case (timer_retries s i fs)
  show ?case by (rule lock_ok_replace [of s "Timer_poll i" fs]) (use timer_retries in auto)
next
  case (timer_locks s i fs)
  show ?case by (rule lock_ok_replace [of s "Timer_wait i" fs]) (use timer_locks in auto)
next
  case (timer_updates s i fs)
  show ?case by (rule lock_ok_replace [of s "Timer_locked i" fs]) (use timer_updates in \<open>auto simp: update_locked_def\<close>)
next
  case (update_raises s i fs)
  show ?case by (rule lock_ok_pop [of s "Timer_locked i" fs]) (use update_raises in auto)
next
  case (timer_finishes s i msgs fs)
  show ?case by (rule lock_ok_pop [of s "Timer_done i msgs" fs]) (use timer_finishes in \<open>auto simp: after_update_simps\<close>)
next
  case (op_locks s opn fs)
  show ?case by (rule lock_ok_replace [of s "Op_want opn" fs]) (use op_locks in auto)
next
  case (op_done s opn fs)
  show ?case by (rule lock_ok_pop [of s "Op_locked opn" fs]) (use op_done in auto)
qed

interpretation viz_lock: step_system "viz_step nested" lock_ok for nested
  by unfold_locales (auto elim: viz_step.cases dest: sim_step_lock view_step_lock)

lemma lock_ok_init: "lock_ok (viz_init n)"
  by (simp add: lock_ok_def viz_init_def speed_changed_def sim_inside_def view_inside_def)

lemma lock_ok_tl: "lock_ok s \<Longrightarrow> f \<in> set (tl (frames s)) \<Longrightarrow> \<not> holds_lock f"
  by (fastforce simp: lock_ok_def)

text \<open>C10. 
  The simulator and the callbacks that look at it exclude each other, and the innermost callback is the only one that can
  hold the lock, however the callbacks nest.
\<close>

theorem viz_mutual_exclusion:
  assumes "(viz_step nested)\<^sup>*\<^sup>* (viz_init n) s"
  shows "\<not> (sim_inside s \<and> view_inside s) \<and>
    lock s = (if sim_inside s then Some By_sim else if view_inside s then Some By_view else None) \<and>
    (\<forall>f \<in> set (tl (frames s)). \<not> holds_lock f)"
proof -
  have ok: "lock_ok s" using viz_lock.reach_inv [OF assms lock_ok_init] .
  have "lock s = None \<or> lock s = Some By_sim \<or> lock s = Some By_view"
    by (metis option.exhaust owner.exhaust)
  with ok show ?thesis using lock_ok_tl [OF ok] unfolding lock_ok_def by auto
qed

section \<open>Time\<close>

text \<open>The times the view shows, the simulator has reached and is to run to, and the speeds.\<close>

definition time_ok :: "viz \<Rightarrow> bool" where
  "time_ok s \<longleftrightarrow> shown s \<le> now s \<and> now s \<le> target_time s \<and> target_time s \<le> shown s + 1 \<and>
     1 / 100 \<le> speed s \<and> speed s \<le> 10 \<and> sample_period s = SAMPLE_PERIOD * speed s \<and>
     100 \<le> interval s \<and> interval s \<le> 10000"

lemma timer_interval:
  assumes "1 / 100 \<le> v"
  shows "100 \<le> \<lfloor>SAMPLE_PERIOD / min v 1 * 1000\<rfloor>" and "\<lfloor>SAMPLE_PERIOD / min v 1 * 1000\<rfloor> \<le> 10000"
proof -
  have "0 < min v 1" "min v 1 \<le> 1" using assms by auto
  then have "100 \<le> SAMPLE_PERIOD / min v 1 * 1000" by (simp add: SAMPLE_PERIOD_def field_simps)
  then show "100 \<le> \<lfloor>SAMPLE_PERIOD / min v 1 * 1000\<rfloor>" by linarith
  have "SAMPLE_PERIOD / min v 1 * 1000 \<le> 10000"
    using assms \<open>0 < min v 1\<close> by (simp add: SAMPLE_PERIOD_def field_simps min_def)
  then show "\<lfloor>SAMPLE_PERIOD / min v 1 * 1000\<rfloor> \<le> 10000" by linarith
qed

lemma time_remove_timer [simp]: "time_ok (remove_timer s) = time_ok s"
  by (auto simp: time_ok_def remove_timer_def source_remove_def split: option.split)

lemma time_start_timer: "time_ok s \<Longrightarrow> time_ok (start_update_timer s)"
  using timer_interval [of "speed s"] time_remove_timer [of s]
  by (auto simp: time_ok_def start_update_timer_def Let_def remove_timer_def source_remove_def split: option.split)

lemma time_ok_cong:
  "time_ok s \<Longrightarrow> shown t = shown s \<Longrightarrow> now t = now s \<Longrightarrow> target_time t = target_time s \<Longrightarrow>
   speed t = speed s \<Longrightarrow> sample_period t = sample_period s \<Longrightarrow> interval t = interval s \<Longrightarrow> time_ok t"
  by (simp add: time_ok_def)

lemma time_set_active: "time_ok s \<Longrightarrow> time_ok (set_active b s)"
  using time_start_timer [of "s\<lparr>play := b\<rparr>"] time_ok_cong [of s "s\<lparr>play := b\<rparr>"]
  by (cases b) (auto simp: set_active_def on_play_button_toggled_def)

lemma time_speed_changed:
  assumes "time_ok s" "1 / 100 \<le> v" "v \<le> 10"
  shows "time_ok (speed_changed v s)"
  unfolding speed_changed_def
  by (rule time_start_timer) (use assms in \<open>auto simp: time_ok_def SAMPLE_PERIOD_def\<close>)

lemma time_update_locked: "time_ok s \<Longrightarrow> time_ok (update_locked s)"
  by (auto simp: time_ok_def update_locked_def SAMPLE_PERIOD_def)

lemma time_after_update:
  assumes "time_ok s"
  shows "time_ok (after_update i msgs s)"
proof -
  have 1: "time_ok (s\<lparr>dialogs := dialogs s @ [msgs]\<rparr>)" using time_ok_cong [OF assms] by simp
  have pop: "time_ok (pop (t\<lparr>timer_id := a, sources := b\<rparr>)) \<and> time_ok (pop (t\<lparr>go := True\<rparr>))"
    if "time_ok t" for t a b using time_ok_cong [OF that] by (simp add: pop_def)
  show ?thesis
    unfolding after_update_def Let_def using pop [OF assms] pop [OF time_set_active [OF 1]] by auto
qed

lemma sim_step_time: "sim_step s t \<Longrightarrow> time_ok s \<Longrightarrow> time_ok t"
  by (induction rule: sim_step.induct) (auto simp: time_ok_def)

lemma view_step_time: "view_step nested s t \<Longrightarrow> time_ok s \<Longrightarrow> time_ok t"
proof (induction rule: view_step.induct)
  case (timer_updates s i fs)
  then show ?case using time_ok_cong [OF time_update_locked [of s]] by simp
next
  case (op_done s opn fs)
  then show ?case using time_ok_cong [of s] by (cases opn) auto
next
  case (quit s)
  then show ?case using time_ok_cong [of "remove_timer s"] by (simp add: quit_begin_def push_def)
next
  case (update_raises s i fs)
  then show ?case by (auto simp: time_ok_def)
qed (auto intro: time_set_active time_speed_changed time_after_update time_ok_cong simp: push_def)

interpretation viz_time: step_system "viz_step nested" time_ok for nested
  by unfold_locales (auto elim: viz_step.cases dest: sim_step_time view_step_time)

lemma time_ok_init: "time_ok (viz_init n)"
  by (simp add: viz_init_def speed_changed_def time_ok_def start_update_timer_def Let_def remove_timer_def
      SAMPLE_PERIOD_def)

text \<open>C29. 
  The simulator never runs past its target, and it is ahead of the time shown by one second of simulated time at
  most, whatever the speed; the update timer is set to intervals from 100 milliseconds to 10 seconds.
\<close>

theorem viz_time_bounds:
  assumes "(viz_step nested)\<^sup>*\<^sup>* (viz_init n) s"
  shows "shown s \<le> now s \<and> now s \<le> target_time s \<and> target_time s \<le> shown s + 1 \<and>
    100 \<le> interval s \<and> interval s \<le> 10000"
  using viz_time.reach_inv [OF assms time_ok_init] by (simp add: time_ok_def)

section \<open>Ends of the simulation thread\<close>

text \<open>
  Left alone, the simulation thread makes at most one more round per signal: the rank counts the steps to the
  next wait, and ten more when the signal is already set.
\<close>

fun pc_rank :: "sim_pc \<Rightarrow> nat" where
  "pc_rank Clear_go = 9"
| "pc_rank Test_quit_again = 8"
| "pc_rank Acquire = 7"
| "pc_rank Run_until = 6"
| "pc_rank Post_update = 5"
| "pc_rank Release = 4"
| "pc_rank Test_quit = 3"
| "pc_rank Wait_go = 0"
| "pc_rank Gone = 0"

definition sim_rank :: "viz \<Rightarrow> nat" where
  "sim_rank s = pc_rank (pc s) + (if go s \<and> pc s \<noteq> Clear_go \<and> pc s \<noteq> Gone then 10 else 0)"

lemma sim_rank_step: "sim_step s t \<Longrightarrow> pc s = Clear_go \<longrightarrow> go s \<Longrightarrow> sim_rank t < sim_rank s"
  by (induction rule: sim_step.induct) (auto simp: sim_rank_def)

lemma sim_rank_bound: "sim_rank s \<le> 18"
  by (cases "pc s") (auto simp: sim_rank_def)

text \<open>The signal is set when the thread is about to clear it, and from the moment the GTK thread joins.\<close>

definition quit_ok :: "viz \<Rightarrow> bool" where
  "quit_ok s \<longleftrightarrow> lock_ok s \<and> (pc s = Clear_go \<longrightarrow> go s) \<and> (Quitting \<in> set (frames s) \<longrightarrow> quit_flag s) \<and>
     (Joining \<in> set (frames s) \<longrightarrow> quit_flag s \<and> (pc s = Wait_go \<longrightarrow> go s))"

lemma timer_flags [simp]:
  "quit_flag (remove_timer s) = quit_flag s" "go (remove_timer s) = go s"
  "quit_flag (start_update_timer s) = quit_flag s" "go (start_update_timer s) = go s"
  by (auto simp: remove_timer_def source_remove_def start_update_timer_def Let_def split: option.split)

lemma set_active_flags [simp]: "quit_flag (set_active b s) = quit_flag s" "go (set_active b s) = go s"
  by (auto simp: set_active_def on_play_button_toggled_def)

lemma op_effect_flags [simp]: "quit_flag (op_effect opn s) = quit_flag s" "go (op_effect opn s) = go s"
  by (cases opn; simp)+

lemma after_update_flags:
  "quit_flag (after_update i msgs s) = quit_flag s" "go s \<longrightarrow> go (after_update i msgs s)"
  by (simp_all add: after_update_def pop_def Let_def)

lemma view_step_quit:
  assumes "view_step nested s t" "quit_ok s"
  shows "quit_ok t"
proof -
  have "lock_ok t" using view_step_lock [OF assms(1)] assms(2) by (simp add: quit_ok_def)
  with assms show ?thesis
  proof (induction rule: view_step.induct)
    case (timer_finishes s i msgs fs)
    then show ?case by (auto simp: quit_ok_def after_update_simps after_update_flags)
  qed (auto simp: quit_ok_def push_def quit_begin_def speed_changed_def update_locked_def)
qed

lemma sim_step_quit:
  assumes "sim_step s t" "quit_ok s"
  shows "quit_ok t"
proof -
  have "lock_ok t" using sim_step_lock [OF assms(1)] assms(2) by (simp add: quit_ok_def)
  with assms show ?thesis by (induction rule: sim_step.induct) (auto simp: quit_ok_def)
qed

interpretation viz_quit: step_system "viz_step nested" quit_ok for nested
  by unfold_locales (auto elim: viz_step.cases dest: sim_step_quit view_step_quit)

lemma sim_rank_quit: "quit_ok s \<Longrightarrow> sim_step s t \<Longrightarrow> sim_rank t < sim_rank s"
  by (rule sim_rank_step) (simp_all add: quit_ok_def)

interpretation sim_round: ranked_steps sim_step quit_ok sim_rank
  by unfold_locales (blast intro: sim_step_quit sim_rank_quit)+

lemma quit_ok_init: "quit_ok (viz_init n)"
  using lock_ok_init [of n] by (simp add: quit_ok_def viz_init_def speed_changed_def)

lemma sim_stops_at:
  assumes "\<not> (\<exists>u. sim_step s u)"
  shows "pc s = Gone \<or> pc s = Wait_go \<and> \<not> go s \<or> pc s = Acquire \<and> lock s \<noteq> None"
proof (cases "pc s")
  case Run_until
  then have "sim_step s (s\<lparr>pc := Post_update, now := now s, runs := Suc (runs s), samples := Suc (runs s),
      pause_messages := pause_messages s @ [], produced := produced s @ []\<rparr>)"
    by (intro sim_step.run_until) auto
  with assms show ?thesis by blast
qed (use assms sim_step.intros in blast)+

lemma sim_run_frames: "sim_step\<^sup>*\<^sup>* s t \<Longrightarrow> frames t = frames s"
  by (induction rule: rtranclp_induct) (auto elim: sim_stepE)

lemma sim_run_quit: "sim_step\<^sup>*\<^sup>* s t \<Longrightarrow> quit_ok s \<Longrightarrow> quit_ok t"
  by (rule sim_round.reach_inv)

lemma sim_end_lock:
  assumes "quit_ok t" "\<not> (\<exists>u. sim_step t u)"
  shows "lock t \<noteq> Some By_sim"
proof -
  have "\<not> sim_inside t" using sim_stops_at [OF assms(2)] by (elim disjE) (simp_all add: sim_inside_def)
  then show ?thesis using assms(1) by (simp add: quit_ok_def lock_ok_def)
qed

text \<open>C27. 
  Whatever has happened before, the simulation thread gives the lock back by itself: its runs without the
  GTK thread have 18 steps at most, and where they end it does not hold the lock.
\<close>

theorem sim_releases_lock:
  assumes "(viz_step nested)\<^sup>*\<^sup>* (viz_init n) s"
  shows "(\<forall>m t. (sim_step ^^ m) s t \<longrightarrow> m \<le> 18) \<and>
    (\<exists>m t. (sim_step ^^ m) s t \<and> \<not> (\<exists>u. sim_step t u)) \<and>
    (\<forall>t. sim_step\<^sup>*\<^sup>* s t \<and> \<not> (\<exists>u. sim_step t u) \<longrightarrow> lock t \<noteq> Some By_sim)"
proof -
  have ok: "quit_ok s" using viz_quit.reach_inv [OF assms quit_ok_init] .
  have "m \<le> 18" if "(sim_step ^^ m) s t" for m t
    using sim_round.run_bound [OF ok that] sim_rank_bound [of s] by simp
  moreover have "lock t \<noteq> Some By_sim" if "sim_step\<^sup>*\<^sup>* s t" "\<not> (\<exists>u. sim_step t u)" for t
    using sim_end_lock [OF sim_run_quit [OF that(1) ok] that(2)] .
  ultimately show ?thesis using sim_round.run_ends [OF ok] by blast
qed

lemma joining_sim_ends:
  assumes "quit_ok s" "frames s = Joining # fs" "sim_step\<^sup>*\<^sup>* s t" "\<not> (\<exists>u. sim_step t u)"
  shows "pc t = Gone"
proof -
  have ok: "quit_ok t" and fr: "frames t = Joining # fs"
    using sim_run_quit [OF assms(3,1)] sim_run_frames [OF assms(3)] assms(2) by auto
  then have "\<not> view_inside t" using lock_ok_top(1) [of t Joining fs] by (simp add: quit_ok_def)
  then have "lock t \<noteq> Some By_view" using ok by (simp add: quit_ok_def lock_ok_def)
  with sim_end_lock [OF ok assms(4)] have free: "lock t = None" by (metis option.exhaust owner.exhaust)
  have "pc t = Wait_go \<longrightarrow> go t" using ok fr by (simp add: quit_ok_def)
  with free show ?thesis using sim_stops_at [OF assms(4)] by blast
qed

lemma joining_view_waits:
  assumes "viz_step nested s t" "frames s = Joining # fs" "pc s \<noteq> Gone"
  shows "sim_step s t"
  using assms by (auto elim!: viz_step.cases view_step.cases simp: can_dispatch_def)

text \<open>C26. 
  When the window is closed the program ends: once \<^verbatim>\<open>_quit\<close> waits for the simulation thread, only that thread
  moves, within 18 steps, and it stops only by leaving \<^verbatim>\<open>run\<close>, which it can.
\<close>

theorem quit_returns:
  assumes "(viz_step nested)\<^sup>*\<^sup>* (viz_init n) s" "frames s = Joining # fs"
  shows "(\<forall>m t. (sim_step ^^ m) s t \<longrightarrow> m \<le> 18) \<and> (\<exists>t. sim_step\<^sup>*\<^sup>* s t \<and> pc t = Gone) \<and>
    (\<forall>t. sim_step\<^sup>*\<^sup>* s t \<and> \<not> (\<exists>u. sim_step t u) \<longrightarrow> pc t = Gone) \<and>
    (\<forall>t. pc s \<noteq> Gone \<and> viz_step nested s t \<longrightarrow> sim_step s t)"
proof -
  have ok: "quit_ok s" using viz_quit.reach_inv [OF assms(1) quit_ok_init] .
  have "m \<le> 18" if "(sim_step ^^ m) s t" for m t
    using sim_round.run_bound [OF ok that] sim_rank_bound [of s] by simp
  moreover obtain m t where "(sim_step ^^ m) s t" "\<not> (\<exists>u. sim_step t u)"
    using sim_round.run_ends [OF ok] by blast
  moreover have "pc t = Gone" if "sim_step\<^sup>*\<^sup>* s t" "\<not> (\<exists>u. sim_step t u)" for t
    using joining_sim_ends [OF ok assms(2) that] .
  ultimately show ?thesis using joining_view_waits [OF _ assms(2)] relpowp_imp_rtranclp [of m sim_step s t] by blast
qed

section \<open>Pause messages and model updates\<close>

text \<open>The messages a timer callback has taken and not yet shown, and the model updates under way.\<close>

fun in_hand_messages :: "viz_frame list \<Rightarrow> string list" where
  "in_hand_messages (Timer_done i msgs # fs) = msgs"
| "in_hand_messages fs = []"

definition updates_in_hand :: "viz_frame list \<Rightarrow> nat" where
  "updates_in_hand fs = length (filter (\<lambda>f. f = Op_want Update_model \<or> f = Op_locked Update_model) fs)"

definition messages_ok :: "viz \<Rightarrow> bool" where
  "messages_ok s \<longleftrightarrow> (\<forall>f \<in> set (tl (frames s)). \<exists>i. f = Timer_poll i) \<and>
     (lost s = [] \<longrightarrow> produced s = concat (dialogs s) @ in_hand_messages (frames s) @ pause_messages s)"

definition updates_ok :: "viz \<Rightarrow> bool" where
  "updates_ok s \<longleftrightarrow>
     length (kept s) + updates_in_hand (frames s) + posted s + (if pc s = Post_update then 1 else 0) = runs s"

lemma timer_records [simp]:
  "lost (remove_timer s) = lost s" "produced (remove_timer s) = produced s" "dialogs (remove_timer s) = dialogs s"
  "pause_messages (remove_timer s) = pause_messages s" "kept (remove_timer s) = kept s"
  "posted (remove_timer s) = posted s" "runs (remove_timer s) = runs s"
  by (auto simp: remove_timer_def source_remove_def split: option.split)

lemma start_timer_records [simp]:
  "lost (start_update_timer s) = lost s" "produced (start_update_timer s) = produced s"
  "dialogs (start_update_timer s) = dialogs s" "pause_messages (start_update_timer s) = pause_messages s"
  "kept (start_update_timer s) = kept s" "posted (start_update_timer s) = posted s"
  "runs (start_update_timer s) = runs s"
  by (auto simp: start_update_timer_def Let_def)

lemma set_active_records [simp]:
  "lost (set_active b s) = lost s" "produced (set_active b s) = produced s" "dialogs (set_active b s) = dialogs s"
  "pause_messages (set_active b s) = pause_messages s" "kept (set_active b s) = kept s"
  "posted (set_active b s) = posted s" "runs (set_active b s) = runs s"
  by (auto simp: set_active_def on_play_button_toggled_def)

lemma op_effect_records [simp]:
  "lost (op_effect opn s) = lost s" "produced (op_effect opn s) = produced s" "dialogs (op_effect opn s) = dialogs s"
  "pause_messages (op_effect opn s) = pause_messages s" "posted (op_effect opn s) = posted s"
  "runs (op_effect opn s) = runs s"
  "length (kept (op_effect opn s)) = length (kept s) + (if opn = Update_model then 1 else 0)"
  by (cases opn; simp)+

lemma after_update_records:
  "lost (after_update i msgs s) = lost s" "produced (after_update i msgs s) = produced s"
  "concat (dialogs (after_update i msgs s)) = concat (dialogs s) @ msgs"
  "pause_messages (after_update i msgs s) = pause_messages s" "kept (after_update i msgs s) = kept s"
  "posted (after_update i msgs s) = posted s" "runs (after_update i msgs s) = runs s"
  by (auto simp: after_update_def pop_def Let_def)

lemma in_hand_waiting: "\<forall>f \<in> set fs. \<exists>i. f = Timer_poll i \<Longrightarrow> in_hand_messages fs = []"
  by (cases fs) auto

lemma in_hand_dispatch: "can_dispatch nested s \<Longrightarrow> in_hand_messages (frames s) = []"
  using can_dispatch_frames [of nested s] by auto

lemma waiting_dispatch:
  "can_dispatch nested s \<Longrightarrow> \<forall>f \<in> set (tl (frames s)). \<exists>i. f = Timer_poll i \<Longrightarrow>
   \<forall>f \<in> set (frames s). \<exists>i. f = Timer_poll i"
  using can_dispatch_frames [of nested s] by auto

lemma waiting_tl: "\<forall>f \<in> set fs. P f \<Longrightarrow> \<forall>f \<in> set (tl fs). P f"
  by (cases fs) auto

lemma sim_step_messages: "sim_step s t \<Longrightarrow> messages_ok s \<Longrightarrow> messages_ok t"
  by (induction rule: sim_step.induct) (auto simp: messages_ok_def)

lemma messages_push:
  assumes "messages_ok s" "can_dispatch nested s" "frames t = f # frames s" "in_hand_messages [f] = []"
    and "lost t = lost s" "produced t = produced s" "dialogs t = dialogs s" "pause_messages t = pause_messages s"
  shows "messages_ok t"
proof -
  have "in_hand_messages (f # frames s) = []" using assms(4) by (cases f) auto
  then show ?thesis
    using assms waiting_dispatch [OF assms(2)] in_hand_dispatch [OF assms(2)] by (simp add: messages_ok_def)
qed

lemma messages_replace:
  assumes "messages_ok s" "frames s = f # fs" "frames t = fs \<or> (\<exists>g. frames t = g # fs \<and> in_hand_messages [g] = [])"
    and "lost t = lost s" "produced t = produced s"
    and "concat (dialogs t) = concat (dialogs s) @ in_hand_messages [f]" "pause_messages t = pause_messages s"
  shows "messages_ok t"
proof -
  have w: "\<forall>g \<in> set fs. \<exists>i. g = Timer_poll i" using assms(1,2) by (simp add: messages_ok_def)
  have "in_hand_messages (g # fs) = in_hand_messages [g]" for g by (cases g) auto
  then have "in_hand_messages (frames t) = []" and "in_hand_messages (f # fs) = in_hand_messages [f]"
    using assms(3) in_hand_waiting [OF w] by auto
  moreover have "\<forall>g \<in> set (tl (frames t)). \<exists>i. g = Timer_poll i" using assms(3) w waiting_tl [OF w] by auto
  ultimately show ?thesis using assms by (simp add: messages_ok_def)
qed

lemma view_step_messages: "view_step nested s t \<Longrightarrow> messages_ok s \<Longrightarrow> messages_ok t"
proof (induction rule: view_step.induct)
  case (timer_fires s i)
  then show ?case using messages_push [of s nested _ "Timer_wait i"] by (simp add: push_def)
next
  case (idle_runs s n)
  then show ?case using messages_push [of s nested _ "Op_want Update_model"] by (simp add: push_def)
next
  case (user_op s opn)
  then show ?case using messages_push [of s nested _ "Op_want opn"] by (simp add: push_def)
next
  case (quit s)
  then show ?case using messages_push [of s nested _ Quitting] by (simp add: push_def quit_begin_def)
next
  case (toggle s)
  then show ?case by (simp add: messages_ok_def)
next
  case (set_speed s v)
  then show ?case by (simp add: messages_ok_def speed_changed_def)
next
  case (timer_updates s i fs)
  then show ?case by (auto simp: messages_ok_def update_locked_def)
next
  case (update_raises s i fs)
  then have w: "\<forall>g \<in> set fs. \<exists>i. g = Timer_poll i" by (simp add: messages_ok_def)
  with update_raises show ?case using in_hand_waiting [OF w] waiting_tl [OF w] by (auto simp: messages_ok_def)
next
  case (timer_finishes s i msgs fs)
  show ?case
    by (rule messages_replace [of s "Timer_done i msgs" fs])
      (use timer_finishes in \<open>simp_all add: after_update_simps after_update_records\<close>)
next
  case (op_done s opn fs)
  show ?case by (rule messages_replace [of s "Op_locked opn" fs]) (use op_done in simp_all)
next
  case (op_locks s opn fs)
  show ?case by (rule messages_replace [of s "Op_want opn" fs]) (use op_locks in simp_all)
next
  case (timer_busy s i fs)
  show ?case by (rule messages_replace [of s "Timer_wait i" fs]) (use timer_busy in simp_all)
next
  case (timer_retries s i fs)
  show ?case by (rule messages_replace [of s "Timer_poll i" fs]) (use timer_retries in simp_all)
next
  case (timer_locks s i fs)
  show ?case by (rule messages_replace [of s "Timer_wait i" fs]) (use timer_locks in simp_all)
next
  case (joined s fs)
  show ?case by (rule messages_replace [of s Joining fs]) (use joined in simp_all)
next
  case (quit_signal s fs)
  show ?case by (rule messages_replace [of s Quitting fs]) (use quit_signal in simp_all)
qed

interpretation viz_messages: step_system "viz_step nested" messages_ok for nested
  by unfold_locales (auto elim: viz_step.cases dest: sim_step_messages view_step_messages)

lemma messages_ok_init: "messages_ok (viz_init n)"
  by (simp add: messages_ok_def viz_init_def speed_changed_def)

lemma updates_in_hand_simps [simp]:
  "updates_in_hand [] = 0"
  "updates_in_hand (f # fs) = updates_in_hand fs + (if f = Op_want Update_model \<or> f = Op_locked Update_model then 1 else 0)"
  by (simp_all add: updates_in_hand_def)

lemma sim_step_updates: "sim_step s t \<Longrightarrow> updates_ok s \<Longrightarrow> updates_ok t"
  by (induction rule: sim_step.induct) (auto simp: updates_ok_def)

lemma view_step_updates: "view_step nested s t \<Longrightarrow> updates_ok s \<Longrightarrow> updates_ok t"
proof (induction rule: view_step.induct)
  case (timer_finishes s i msgs fs)
  then show ?case by (simp add: updates_ok_def after_update_simps after_update_records)
next
  case (op_done s opn fs)
  then show ?case by (cases opn) (auto simp: updates_ok_def)
qed (auto simp: updates_ok_def push_def quit_begin_def speed_changed_def update_locked_def)

interpretation viz_updates: step_system "viz_step nested" updates_ok for nested
  by unfold_locales (auto elim: viz_step.cases dest: sim_step_updates view_step_updates)

text \<open>C32. 
  Unless drawing fails, every pause message of the simulator is shown once, in order; and there is exactly one update
  of the model for each run of the simulator, done, under way or posted.
\<close>

theorem viz_messages_once:
  assumes "(viz_step nested)\<^sup>*\<^sup>* (viz_init n) s"
  shows "(lost s = [] \<longrightarrow>
      produced s = concat (dialogs s) @ in_hand_messages (frames s) @ pause_messages s) \<and>
    length (kept s) + updates_in_hand (frames s) + posted s + (if pc s = Post_update then 1 else 0) = runs s"
proof -
  have "updates_ok (viz_init n)" by (simp add: updates_ok_def viz_init_def speed_changed_def)
  then show ?thesis
    using viz_messages.reach_inv [OF assms messages_ok_init] viz_updates.reach_inv [OF assms]
    by (simp add: messages_ok_def updates_ok_def)
qed

section \<open>The update timers\<close>

text \<open>
  When no event is handled while a timer callback waits, callbacks do not nest and there is at most one
  update timer, the one \<^verbatim>\<open>_update_timeout_id\<close> names.
\<close>

definition single_timer :: "viz \<Rightarrow> bool" where
  "single_timer s \<longleftrightarrow> length (frames s) \<le> 1 \<and> sources s \<subseteq> set_option (timer_id s) \<and>
     (\<forall>f \<in> set (frames s). \<forall>i. timer_of f = Some i \<longrightarrow> timer_id s = Some i)"

lemma remove_timer_sources: "sources s \<subseteq> set_option (timer_id s) \<Longrightarrow> sources (remove_timer s) = {}"
  by (auto simp: remove_timer_def source_remove_def split: option.splits)

lemma remove_timer_id [simp]: "timer_id (remove_timer s) = timer_id s"
  by (auto simp: remove_timer_def source_remove_def split: option.split)

lemma start_timer_sources:
  "sources s \<subseteq> set_option (timer_id s) \<Longrightarrow>
   sources (start_update_timer s) \<subseteq> set_option (timer_id (start_update_timer s))"
  using remove_timer_sources [of s] by (simp add: start_update_timer_def Let_def)

lemma set_active_sources:
  "sources s \<subseteq> set_option (timer_id s) \<Longrightarrow> sources (set_active b s) \<subseteq> set_option (timer_id (set_active b s))"
  using remove_timer_sources [of "s\<lparr>play := b\<rparr>"] start_timer_sources [of "s\<lparr>play := b\<rparr>"]
  by (auto simp: set_active_def on_play_button_toggled_def)

lemma set_active_false: "timer_id (set_active False s) = timer_id s \<and> sources (set_active False s) \<subseteq> sources s"
  by (auto simp: set_active_def on_play_button_toggled_def remove_timer_def source_remove_def split: option.split)

lemma single_after_update:
  assumes "single_timer s" "frames s = Timer_done i msgs # fs"
  shows "single_timer (after_update i msgs s)"
proof -
  have id: "timer_id s = Some i" and fs: "fs = []" and src: "sources s \<subseteq> {i}"
    using assms by (auto simp: single_timer_def)
  have off: "sources (set_active False (s\<lparr>dialogs := d\<rparr>)) \<subseteq> {i}" "timer_id (set_active False (s\<lparr>dialogs := d\<rparr>)) = Some i"
    for d using set_active_false [of "s\<lparr>dialogs := d\<rparr>"] src id by auto
  show ?thesis using off [of "dialogs s @ [msgs]"] src id fs assms(2)
    by (auto simp: single_timer_def after_update_def pop_def Let_def)
qed

lemma dispatch_flat: "can_dispatch False s \<longleftrightarrow> frames s = [] \<and> \<not> main_quit s"
  by (auto simp: can_dispatch_def split: list.splits viz_frame.splits)

lemma sim_step_single: "sim_step s t \<Longrightarrow> single_timer s \<Longrightarrow> single_timer t"
  by (induction rule: sim_step.induct) (auto simp: single_timer_def)

lemma view_step_single: "view_step False s t \<Longrightarrow> single_timer s \<Longrightarrow> single_timer t"
proof (induction rule: view_step.induct)
  case (toggle s)
  then show ?case using set_active_sources [of s] by (simp add: single_timer_def dispatch_flat)
next
  case (set_speed s v)
  then show ?case
    using start_timer_sources [of "s\<lparr>speed := v, sample_period := SAMPLE_PERIOD * v\<rparr>"]
    by (simp add: single_timer_def dispatch_flat speed_changed_def)
next
  case (quit s)
  then show ?case using remove_timer_sources [of s]
    by (simp add: single_timer_def dispatch_flat quit_begin_def push_def)
next
  case (timer_finishes s i msgs fs)
  then show ?case using single_after_update by blast
next
  case (op_done s opn fs)
  then show ?case by (cases opn) (auto simp: single_timer_def)
qed (auto simp: single_timer_def dispatch_flat push_def update_locked_def)

interpretation viz_flat: step_system "viz_step False" single_timer
  by unfold_locales (auto elim: viz_step.cases dest: sim_step_single view_step_single)

lemma single_timer_init: "single_timer (viz_init n)"
  using start_timer_sources
  by (simp add: single_timer_def viz_init_def speed_changed_def start_update_timer_def remove_timer_def)

lemma flat_single_timer:
  assumes "(viz_step False)\<^sup>*\<^sup>* (viz_init n) s"
  shows "length (frames s) \<le> 1 \<and> sources s \<subseteq> set_option (timer_id s)"
  using viz_flat.reach_inv [OF assms single_timer_init] by (simp add: single_timer_def)

section \<open>Rounds of the two threads\<close>

lemma run_sim: "sim_step\<^sup>*\<^sup>* s t \<Longrightarrow> (viz_step nested)\<^sup>*\<^sup>* s t"
  by (induction rule: rtranclp_induct) (auto intro: rtranclp.rtrancl_into_rtrancl by_sim)

lemma run_view: "view_step nested s t \<Longrightarrow> (viz_step nested)\<^sup>*\<^sup>* s t"
  by (blast intro: by_view)

lemma then_sim: "(viz_step nested)\<^sup>*\<^sup>* r s \<Longrightarrow> sim_step\<^sup>*\<^sup>* s t \<Longrightarrow> (viz_step nested)\<^sup>*\<^sup>* r t"
  by (blast intro: rtranclp_trans run_sim)

lemma then_view: "(viz_step nested)\<^sup>*\<^sup>* r s \<Longrightarrow> view_step nested s t \<Longrightarrow> (viz_step nested)\<^sup>*\<^sup>* r t"
  by (blast intro: rtranclp_trans run_view)

text \<open>A signalled simulation thread gets to the simulator, and from there back to its wait.\<close>

lemma sim_starts:
  assumes "pc s = Wait_go" "go s" "\<not> quit_flag s" "lock s = None"
  shows "sim_step\<^sup>*\<^sup>* s (s\<lparr>pc := Run_until, go := False, lock := Some By_sim\<rparr>)"
proof -
  have 1: "sim_step s (s\<lparr>pc := Clear_go\<rparr>)" using assms sim_step.wait_go by simp
  have 2: "sim_step (s\<lparr>pc := Clear_go\<rparr>) (s\<lparr>pc := Test_quit_again, go := False\<rparr>)"
    using sim_step.clear_go [of "s\<lparr>pc := Clear_go\<rparr>"] by simp
  have 3: "sim_step (s\<lparr>pc := Test_quit_again, go := False\<rparr>) (s\<lparr>pc := Acquire, go := False\<rparr>)"
    using sim_step.test_quit_again [of "s\<lparr>pc := Test_quit_again, go := False\<rparr>"] assms by (cases s) simp
  have 4: "sim_step (s\<lparr>pc := Acquire, go := False\<rparr>) (s\<lparr>pc := Run_until, go := False, lock := Some By_sim\<rparr>)"
    using sim_step.acquire [of "s\<lparr>pc := Acquire, go := False\<rparr>"] assms by (cases s) simp
  from 1 2 3 4 show ?thesis by (meson converse_rtranclp_into_rtranclp rtranclp.rtrancl_refl)
qed

lemma sim_finishes:
  assumes "pc s = Run_until" "\<not> quit_flag s" "now s \<le> t" "t \<le> max (now s) (target_time s)"
  shows "sim_step\<^sup>*\<^sup>* s (s\<lparr>pc := Wait_go, lock := None, now := t, runs := Suc (runs s), samples := Suc (runs s),
    posted := Suc (posted s)\<rparr>)"
proof -
  let ?s = "s\<lparr>pc := Post_update, now := t, runs := Suc (runs s), samples := Suc (runs s)\<rparr>"
  have 1: "sim_step s ?s" using sim_step.run_until [OF assms(1,3,4), of "[]"] by simp
  have 2: "sim_step ?s (?s\<lparr>pc := Release, posted := Suc (posted s)\<rparr>)"
    using sim_step.post_update [of ?s] by simp
  have 3: "sim_step (?s\<lparr>pc := Release, posted := Suc (posted s)\<rparr>)
      (?s\<lparr>pc := Test_quit, posted := Suc (posted s), lock := None\<rparr>)"
    using sim_step.release [of "?s\<lparr>pc := Release, posted := Suc (posted s)\<rparr>"] by (cases s) simp
  have 4: "sim_step (?s\<lparr>pc := Test_quit, posted := Suc (posted s), lock := None\<rparr>)
      (?s\<lparr>pc := Wait_go, posted := Suc (posted s), lock := None\<rparr>)"
    using sim_step.test_quit [of "?s\<lparr>pc := Test_quit, posted := Suc (posted s), lock := None\<rparr>"] assms
    by (cases s) simp
  from 1 2 3 4 have "sim_step\<^sup>*\<^sup>* s (?s\<lparr>pc := Wait_go, posted := Suc (posted s), lock := None\<rparr>)"
    by (meson converse_rtranclp_into_rtranclp rtranclp.rtrancl_refl)
  moreover have "?s\<lparr>pc := Wait_go, posted := Suc (posted s), lock := None\<rparr> = s\<lparr>pc := Wait_go, lock := None, now := t,
      runs := Suc (runs s), samples := Suc (runs s), posted := Suc (posted s)\<rparr>" by (cases s) simp
  ultimately show ?thesis by metis
qed

text \<open>A timer callback that gets the lock, without messages: what it leaves behind.\<close>

lemma timer_callback:
  assumes "frames s = Timer_wait i # fs" "lock s = None" "pause_messages s = []"
  shows "(viz_step nested)\<^sup>*\<^sup>* s (after_update i []
    (s\<lparr>frames := Timer_done i [] # fs, shown := now s, target_time := now s + sample_period s\<rparr>))"
proof -
  let ?l = "s\<lparr>frames := Timer_locked i # fs, lock := Some By_view\<rparr>"
  let ?d = "s\<lparr>frames := Timer_done i [] # fs, shown := now s, target_time := now s + sample_period s\<rparr>"
  have 1: "view_step nested s ?l" using view_step.timer_locks [OF assms(1,2)] by simp
  have 2: "view_step nested ?l ?d"
    using view_step.timer_updates [of ?l i fs nested] assms by (cases s) (simp add: update_locked_def)
  have 3: "view_step nested ?d (after_update i [] ?d)" using view_step.timer_finishes [of ?d i "[]" fs nested] by simp
  from 1 2 3 show ?thesis by (meson converse_rtranclp_into_rtranclp rtranclp.rtrancl_refl by_view)
qed

text \<open>An update of the model taken from the idle queue.\<close>

lemma model_update:
  assumes "frames s = []" "\<not> main_quit s" "posted s = Suc n" "lock s = None"
  shows "(viz_step nested)\<^sup>*\<^sup>* s (s\<lparr>posted := n, kept := kept s @ [samples s]\<rparr>)"
proof -
  let ?w = "s\<lparr>posted := n, frames := [Op_want Update_model]\<rparr>"
  let ?l = "s\<lparr>posted := n, frames := [Op_locked Update_model], lock := Some By_view\<rparr>"
  let ?t = "s\<lparr>posted := n, kept := kept s @ [samples s]\<rparr>"
  have 1: "view_step nested s ?w"
    using view_step.idle_runs [of nested s n] assms by (cases s) (simp add: push_def can_dispatch_def)
  have 2: "view_step nested ?w ?l" using view_step.op_locks [of ?w Update_model "[]" nested] assms by simp
  have 3: "view_step nested ?l ?t"
    using view_step.op_done [of ?l Update_model "[]" nested] assms by (cases s) simp
  from 1 2 3 show ?thesis by (meson converse_rtranclp_into_rtranclp rtranclp.rtrancl_refl by_view)
qed

section \<open>What nesting and priorities can do\<close>

text \<open>The state after the play button was pressed, and after the first update was drawn and the simulator started.\<close>

definition playing :: "nat \<Rightarrow> viz" where
  "playing n = (viz_init n)\<lparr>pc := Wait_go, play := True, timer_id := Some 1, sources := {1}, next_id := 2\<rparr>"

definition simulating :: "nat \<Rightarrow> viz" where
  "simulating n = (playing n)\<lparr>pc := Run_until, lock := Some By_sim, target_time := 1 / 10, frames := [Timer_wait 1]\<rparr>"

lemmas init_simps = playing_def simulating_def viz_init_def speed_changed_def start_update_timer_def remove_timer_def
  SAMPLE_PERIOD_def Let_def numeral_2_eq_2 numeral_3_eq_3

lemma playing_reached: "(viz_step nested)\<^sup>*\<^sup>* (viz_init n) (playing n)"
proof -
  have "sim_step (viz_init n) ((viz_init n)\<lparr>pc := Wait_go\<rparr>)"
    using sim_step.test_quit [of "viz_init n"] by (simp add: init_simps)
  moreover have "view_step nested ((viz_init n)\<lparr>pc := Wait_go\<rparr>) (playing n)"
    using view_step.toggle [of nested "(viz_init n)\<lparr>pc := Wait_go\<rparr>"]
    by (simp add: init_simps can_dispatch_def set_active_def on_play_button_toggled_def source_remove_def)
  ultimately show ?thesis by (meson converse_rtranclp_into_rtranclp rtranclp.rtrancl_refl by_view by_sim)
qed

lemma fire:
  assumes "frames s = []" "\<not> main_quit s" "i \<in> sources s"
  shows "view_step nested s (s\<lparr>frames := [Timer_wait i]\<rparr>)"
  using view_step.timer_fires [of nested s i] assms by (simp add: can_dispatch_def push_def)

lemma simulating_reached: "(viz_step nested)\<^sup>*\<^sup>* (viz_init n) (simulating n)"
proof -
  let ?w = "(playing n)\<lparr>frames := [Timer_wait 1]\<rparr>" and ?g = "(playing n)\<lparr>go := True, target_time := 1 / 10\<rparr>"
  have 1: "(viz_step nested)\<^sup>*\<^sup>* (viz_init n) ?w"
    by (rule then_view [OF playing_reached fire]) (simp_all add: init_simps)
  have 2: "(viz_step nested)\<^sup>*\<^sup>* ?w ?g"
    using timer_callback [of ?w 1 "[]" nested] by (simp add: init_simps after_update_def pop_def)
  have 3: "sim_step\<^sup>*\<^sup>* ?g ((simulating n)\<lparr>frames := []\<rparr>)"
    using sim_starts [of ?g] by (simp add: init_simps)
  have 4: "view_step nested ((simulating n)\<lparr>frames := []\<rparr>) (simulating n)"
    using fire [of "(simulating n)\<lparr>frames := []\<rparr>" 1 nested] by (simp add: init_simps)
  show ?thesis by (rule then_view [OF then_sim [OF rtranclp_trans [OF 1 2] 3] 4])
qed

text \<open>
  Two update timers.  While the timer callback polls for the lock, play is switched off, which leaves the identifier of
  the removed timer behind, and the speed is changed, which starts a new timer.  When the callback gets the
  lock it finds play off and clears \<^verbatim>\<open>_update_timeout_id\<close>, so the new timer is no longer known, and the next
  press of play starts another one beside it.
\<close>

lemma nested_events:
  "(viz_step True)\<^sup>*\<^sup>* (viz_init n)
    ((simulating n)\<lparr>play := False, timer_id := Some 2, sources := {2}, next_id := 3, bad_removes := 1\<rparr>)"
proof -
  let ?r = "(simulating n)\<lparr>play := False, timer_id := Some 2, sources := {2}, next_id := 3, bad_removes := 1\<rparr>"
  let ?p = "(simulating n)\<lparr>frames := [Timer_poll 1]\<rparr>"
  let ?o = "?p\<lparr>play := False, sources := {}\<rparr>"
  let ?v = "?r\<lparr>frames := [Timer_poll 1]\<rparr>"
  have 1: "view_step True (simulating n) ?p"
    using view_step.timer_busy [of "simulating n" 1 "[]" True] by (simp add: init_simps)
  have 2: "view_step True ?p ?o"
    using view_step.toggle [of True ?p]
    by (simp add: init_simps can_dispatch_def set_active_def on_play_button_toggled_def source_remove_def)
  have 3: "view_step True ?o ?v"
    using view_step.set_speed [of True ?o 1] by (simp add: init_simps can_dispatch_def source_remove_def)
  have 4: "view_step True ?v ?r" using view_step.timer_retries [of ?v 1 "[]" True] by (simp add: init_simps)
  show ?thesis by (rule then_view [OF then_view [OF then_view [OF then_view [OF simulating_reached 1] 2] 3] 4])
qed

lemma two_timers_reached:
  "\<exists>s. (viz_step True)\<^sup>*\<^sup>* (viz_init n) s \<and> frames s = [] \<and> play s \<and> \<not> quit_flag s \<and>
     sources s = {2, 3} \<and> timer_id s = Some 3 \<and> bad_removes s = 1"
proof -
  let ?r = "(simulating n)\<lparr>play := False, timer_id := Some 2, sources := {2}, next_id := 3, bad_removes := 1\<rparr>"
  let ?f = "?r\<lparr>pc := Wait_go, lock := None, now := 1 / 10, runs := 1, samples := 1, posted := 1\<rparr>"
  let ?o = "?f\<lparr>frames := [], shown := 1 / 10, target_time := 1 / 5, timer_id := None\<rparr>"
  let ?t = "?o\<lparr>play := True, timer_id := Some 3, sources := {2, 3}, next_id := 4\<rparr>"
  have 1: "sim_step\<^sup>*\<^sup>* ?r ?f" using sim_finishes [of ?r "1 / 10"] by (simp add: init_simps)
  have 2: "(viz_step True)\<^sup>*\<^sup>* ?f ?o"
    using timer_callback [of ?f 1 "[]" True] by (simp add: init_simps after_update_def pop_def)
  have 3: "view_step True ?o ?t"
    using view_step.toggle [of True ?o]
    by (simp add: init_simps can_dispatch_def set_active_def on_play_button_toggled_def source_remove_def
        insert_commute eval_nat_numeral)
  have "(viz_step True)\<^sup>*\<^sup>* (viz_init n) ?t"
    by (rule then_view [OF rtranclp_trans [OF then_sim [OF nested_events 1] 2] 3])
  then show ?thesis by (intro exI [of _ ?t]) (simp add: init_simps)
qed

text \<open>
  As long as no event is handled while a timer callback waits there is at most one update timer, the one
  \<^verbatim>\<open>_update_timeout_id\<close> names; with such events two timers can run side by side while the simulation plays.
\<close>

theorem update_timers:
  "(\<forall>s. (viz_step False)\<^sup>*\<^sup>* (viz_init n) s \<longrightarrow> length (frames s) \<le> 1 \<and> sources s \<subseteq> set_option (timer_id s)) \<and>
   (\<exists>s. (viz_step True)\<^sup>*\<^sup>* (viz_init n) s \<and> frames s = [] \<and> play s \<and> \<not> quit_flag s \<and>
     sources s = {2, 3} \<and> timer_id s = Some 3 \<and> bad_removes s = 1)"
  using flat_single_timer two_timers_reached by blast

text \<open>
  Lost samples.  A timer callback that waited for the lock is next in line when the simulator releases it, before
  the posted update of the model.  It starts the next run, which forgets the samples of the first, and then
  both updates collect the samples of the second.
\<close>

theorem samples_lost:
  "\<exists>s. (viz_step False)\<^sup>*\<^sup>* (viz_init n) s \<and> frames s = [] \<and> posted s = 0 \<and> runs s = 2 \<and> kept s = [2, 2]"
proof -
  let ?r = "simulating n"
  let ?f = "?r\<lparr>pc := Wait_go, lock := None, now := 1 / 10, runs := 1, samples := 1, posted := 1\<rparr>"
  let ?o = "?f\<lparr>frames := [], shown := 1 / 10, target_time := 1 / 5, go := True\<rparr>"
  let ?g = "?o\<lparr>pc := Run_until, go := False, lock := Some By_sim\<rparr>"
  let ?h = "?g\<lparr>pc := Wait_go, lock := None, now := 1 / 5, runs := 2, samples := 2, posted := 2\<rparr>"
  let ?k = "?h\<lparr>posted := 1, kept := [2]\<rparr>"
  have 1: "sim_step\<^sup>*\<^sup>* ?r ?f" using sim_finishes [of ?r "1 / 10"] by (simp add: init_simps)
  have 2: "(viz_step False)\<^sup>*\<^sup>* ?f ?o"
    using timer_callback [of ?f 1 "[]" False] by (simp add: init_simps after_update_def pop_def)
  have 3: "sim_step\<^sup>*\<^sup>* ?o ?g" using sim_starts [of ?o] by (simp add: init_simps)
  have 4: "sim_step\<^sup>*\<^sup>* ?g ?h" using sim_finishes [of ?g "1 / 5"] by (simp add: init_simps)
  have 5: "(viz_step False)\<^sup>*\<^sup>* ?h ?k"
    using model_update [of ?h 1 False] by (simp add: init_simps)
  have 6: "(viz_step False)\<^sup>*\<^sup>* ?k (?k\<lparr>posted := 0, kept := [2, 2]\<rparr>)"
    using model_update [of ?k 0 False] by (simp add: init_simps)
  have "(viz_step False)\<^sup>*\<^sup>* (viz_init n) ?g"
    by (rule then_sim [OF rtranclp_trans [OF then_sim [OF simulating_reached 1] 2] 3])
  from rtranclp_trans [OF then_sim [OF this 4] rtranclp_trans [OF 5 6]]
  show ?thesis by (intro exI [of _ "?k\<lparr>posted := 0, kept := [2, 2]\<rparr>"]) (simp add: init_simps)
qed

section \<open>Witnesses\<close>

theorem viz_mutual_exclusion_witness:
  "lock (simulating 2) = Some By_sim \<and> \<not> (sim_inside (simulating 2) \<and> view_inside (simulating 2))"
  using viz_mutual_exclusion [OF simulating_reached [where nested = True and n = 2]]
  by (simp add: sim_inside_def init_simps)

theorem viz_time_bounds_witness: "now (simulating 2) \<le> target_time (simulating 2) \<and> target_time (simulating 2) \<le> 1"
  using viz_time_bounds [OF simulating_reached [where nested = True and n = 2]] by (simp add: init_simps)

theorem sim_releases_lock_witness: "\<exists>m t. (sim_step ^^ m) (simulating 2) t \<and> \<not> (\<exists>u. sim_step t u)"
  using sim_releases_lock [OF simulating_reached [where nested = True and n = 2]] by blast

definition closing :: "nat \<Rightarrow> viz" where
  "closing n = (viz_init n)\<lparr>timer_id := None, sources := {}, quit_flag := True, frames := [Joining], go := True\<rparr>"

lemma closing_reached: "(viz_step nested)\<^sup>*\<^sup>* (viz_init n) (closing n)"
proof -
  let ?q = "(viz_init n)\<lparr>timer_id := None, sources := {}, quit_flag := True, frames := [Quitting]\<rparr>"
  have 1: "view_step nested (viz_init n) ?q"
    using view_step.quit [of nested "viz_init n"]
    by (simp add: init_simps can_dispatch_def quit_begin_def push_def source_remove_def)
  have 2: "view_step nested ?q (closing n)"
    using view_step.quit_signal [of ?q "[]" nested] by (simp add: init_simps closing_def)
  show ?thesis by (rule then_view [OF run_view [OF 1] 2])
qed

theorem quit_returns_witness: "\<exists>t. sim_step\<^sup>*\<^sup>* (closing 2) t \<and> pc t = Gone"
  using quit_returns [OF closing_reached [where nested = True and n = 2], of "[]"] by (simp add: closing_def)

theorem viz_messages_once_witness: "produced (simulating 2) = [] \<and> runs (simulating 2) = 0"
  using viz_messages_once [OF simulating_reached [where nested = True and n = 2]] by (simp add: init_simps)

theorem update_timers_witness: "length (frames (simulating 2)) \<le> 1 \<and> sources (simulating 2) \<subseteq> {1}"
  using conjunct1 [OF update_timers [of 2]] simulating_reached [where nested = False and n = 2]
  by (auto simp: init_simps)

end
