(* ===== verification/Viz_View.thy ===== *)
theory Viz_View
  imports Py_Prelude
begin

text \<open>
  What the visualizer window shows and how it reacts (class \<^verbatim>\<open>Visualizer\<close> of \<^verbatim>\<open>visualizer/core.py\<close>): the window of
  samples, the averages over it, the arrows for transmissions and drops, selection, panning, dragging and scaling.
\<close>

section \<open>The window of samples\<close>

record transmission =
  transmitter :: nat
  receiver :: nat
  tx_bytes :: nat

record drop =
  drop_transmitter :: nat
  drop_bytes :: nat

text \<open>\<^verbatim>\<open>while len(samples) > smooth_factor: samples.pop(0)\<close>\<close>

fun trim_front :: "nat \<Rightarrow> 'a list \<Rightarrow> 'a list" where
  "trim_front k [] = []"
| "trim_front k (x # xs) = (if k < length (x # xs) then trim_front k xs else x # xs)"

definition push_sample :: "nat \<Rightarrow> 'a \<Rightarrow> 'a list \<Rightarrow> 'a list" where
  "push_sample k x xs = trim_front k (xs @ [x])"

record samples =
  last_transmissions :: "transmission list list"
  last_drops :: "drop list list"

definition smooth_factor :: "rat \<Rightarrow> nat" where
  "smooth_factor smoothing = nat \<lfloor>smoothing * 10\<rfloor>"

definition do_simulation_periodic_update ::
    "rat \<Rightarrow> transmission list \<Rightarrow> drop list \<Rightarrow> samples \<Rightarrow> samples" where
  "do_simulation_periodic_update smoothing ts ds s =
     s\<lparr>last_transmissions := push_sample (smooth_factor smoothing) ts (last_transmissions s),
       last_drops := push_sample (smooth_factor smoothing) ds (last_drops s)\<rparr>"

section \<open>Averages\<close>

text \<open>One entry of the dictionaries \<^verbatim>\<open>transmissions_average\<close> and \<^verbatim>\<open>drops_average\<close>: bytes and number of packets.\<close>

definition add_bytes :: "'k \<Rightarrow> nat \<Rightarrow> ('k, nat \<times> nat) dict \<Rightarrow> ('k, nat \<times> nat) dict" where
  "add_bytes key b d = (let (bytes, n) = (case map_of d key of None \<Rightarrow> (0, 0) | Some p \<Rightarrow> p)
     in AList.update key (bytes + b, n + 1) d)"

definition transmissions_average :: "transmission list list \<Rightarrow> (nat \<times> nat, nat \<times> nat) dict" where
  "transmissions_average sets =
     fold (fold (\<lambda>t. add_bytes (transmitter t, receiver t) (tx_bytes t))) sets []"

definition drops_average :: "drop list list \<Rightarrow> (nat, nat \<times> nat) dict" where
  "drops_average sets = fold (fold (\<lambda>d. add_bytes (drop_transmitter d) (drop_bytes d))) sets []"

section \<open>Arrows\<close>

type_synonym point = "real \<times> real"

text \<open>The nodes that have a view, with their positions on the canvas; a new one is at the origin.\<close>

type_synonym vnodes = "(nat, point) dict"

definition get_node :: "nat \<Rightarrow> vnodes \<Rightarrow> vnodes" where
  "get_node i ns = (case map_of ns i of None \<Rightarrow> AList.update i (0, 0) ns | Some p \<Rightarrow> ns)"

definition get_position :: "vnodes \<Rightarrow> nat \<Rightarrow> point" where
  "get_position ns i = (case map_of ns i of None \<Rightarrow> (0, 0) | Some p \<Rightarrow> p)"

record arrow_line =
  line_width :: real
  start_point :: point
  end_point :: point
  kbps :: real
  rightwards :: bool

text \<open>A pool of canvas items, given by numbers: those in the list, those visible, and what each was last set to.\<close>

record arrow_pool =
  arrows :: "nat list"
  visible :: "nat set"
  lines_drawn :: "(nat, arrow_line) dict"
  next_item :: nat

definition hide_all :: "arrow_pool \<Rightarrow> arrow_pool" where
  "hide_all p = p\<lparr>visible := visible p - set (arrows p)\<rparr>"

text \<open>\<^verbatim>\<open>old_arrows.pop()\<close>, or a new item when the list is empty; the list is changed in place.\<close>

definition take_arrow :: "arrow_pool \<Rightarrow> nat \<times> arrow_pool" where
  "take_arrow p =
     (if arrows p = [] then (next_item p, p\<lparr>next_item := Suc (next_item p)\<rparr>)
      else (last (arrows p), p\<lparr>arrows := butlast (arrows p)\<rparr>))"

text \<open>An item is made visible before its line is computed, which may raise.\<close>

definition draw_arrow :: "arrow_line result \<Rightarrow> (arrow_pool, nat) io" where
  "draw_arrow l p =
     (let (a, p1) = take_arrow p; p2 = p1\<lparr>visible := insert a (visible p1)\<rparr>
      in case l of Inl e \<Rightarrow> (Inl e, p2) | Inr line \<Rightarrow> (Inr a, p2\<lparr>lines_drawn := AList.update a line (lines_drawn p2)\<rparr>))"

text \<open>\<^verbatim>\<open>math.log\<close> raises for zero.\<close>

definition width_of :: "nat \<Rightarrow> nat \<Rightarrow> real \<Rightarrow> real \<Rightarrow> real result" where
  "width_of bytes n period k =
     (if bytes = 0 then Inl ValueError else Inr (max (1 / 10) (ln (real bytes / real n / period) * k)))"

definition rate_of :: "nat \<Rightarrow> nat \<Rightarrow> real \<Rightarrow> real" where
  "rate_of bytes n period = real (bytes * 8) / 1000 / real n / period"

definition line_angle :: "point \<Rightarrow> point \<Rightarrow> real" where
  "line_angle p q = Arg (Complex (fst q - fst p) (snd q - snd p))"

definition transmission_line :: "real \<Rightarrow> real \<Rightarrow> vnodes \<Rightarrow> (nat \<times> nat) \<times> (nat \<times> nat) \<Rightarrow> arrow_line result" where
  "transmission_line period k ns = (\<lambda>((tx, rx), (bytes, n)).
     res_bind (width_of bytes n period k) (\<lambda>w.
       let p = get_position ns tx; q = get_position ns rx; a = line_angle p q in
       Inr \<lparr>line_width = w, start_point = p, end_point = q, kbps = rate_of bytes n period,
         rightwards = (- (pi / 2) \<le> a \<and> a \<le> pi / 2)\<rparr>))"

definition drop_line :: "real \<Rightarrow> real \<Rightarrow> real \<Rightarrow> vnodes \<Rightarrow> nat \<times> (nat \<times> nat) \<Rightarrow> arrow_line result" where
  "drop_line period k edge_y ns = (\<lambda>(tx, (bytes, n)).
     res_bind (width_of bytes n period k) (\<lambda>w.
       let p = get_position ns tx in
       Inr \<lparr>line_width = w, start_point = p, end_point = (fst p, edge_y), kbps = rate_of bytes n period,
         rightwards = True\<rparr>))"

text \<open>
  The loops over the averages: the views of the nodes named are looked up or made, then an arrow is drawn.  \<open>ids\<close>
  are the nodes an entry names and \<open>line\<close> its line.
\<close>

fun draw_entries :: "('e \<Rightarrow> nat list) \<Rightarrow> (vnodes \<Rightarrow> 'e \<Rightarrow> arrow_line result) \<Rightarrow> 'e list \<Rightarrow>
    (vnodes \<times> arrow_pool, nat list) io" where
  "draw_entries ids line [] s = (Inr [], s)"
| "draw_entries ids line (e # es) (ns, p) =
     (let ns' = fold get_node (ids e) ns in
      case draw_arrow (line ns' e) p of
        (Inl x, p') \<Rightarrow> (Inl x, (ns', p'))
      | (Inr a, p') \<Rightarrow>
          (case draw_entries ids line es (ns', p') of
             (Inl x, s) \<Rightarrow> (Inl x, s)
           | (Inr new, s) \<Rightarrow> (Inr (a # new), s)))"

text \<open>\<^verbatim>\<open>self._transmission_arrows = new_arrows + old_arrows\<close> is reached only when no line raised.\<close>

definition update_arrows :: "('e \<Rightarrow> nat list) \<Rightarrow> (vnodes \<Rightarrow> 'e \<Rightarrow> arrow_line result) \<Rightarrow> 'e list \<Rightarrow>
    (vnodes \<times> arrow_pool, unit) io" where
  "update_arrows ids line es = (\<lambda>(ns, p).
     case draw_entries ids line es (ns, hide_all p) of
       (Inl x, s) \<Rightarrow> (Inl x, s)
     | (Inr new, (ns', p')) \<Rightarrow> (Inr (), (ns', p'\<lparr>arrows := new @ arrows p'\<rparr>)))"

definition update_transmissions_view ::
    "real \<Rightarrow> real \<Rightarrow> transmission list list \<Rightarrow> (vnodes \<times> arrow_pool, unit) io" where
  "update_transmissions_view period node_size sets =
     update_arrows (\<lambda>((tx, rx), _). [tx, rx]) (transmission_line period (node_size / 5)) (transmissions_average sets)"

definition update_drops_view ::
    "real \<Rightarrow> real \<Rightarrow> real \<Rightarrow> drop list list \<Rightarrow> (vnodes \<times> arrow_pool, unit) io" where
  "update_drops_view period node_size edge_y sets =
     update_arrows (\<lambda>(tx, _). [tx]) (drop_line period (node_size / 5) edge_y) (drops_average sets)"

section \<open>The window of samples: its content\<close>

definition last_of :: "nat \<Rightarrow> 'a list \<Rightarrow> 'a list" where
  "last_of k xs = drop (length xs - k) xs"

lemma trim_front_last: "trim_front k xs = last_of k xs"
  by (induction xs) (auto simp: last_of_def Suc_diff_le not_less)

lemma last_of_length [simp]: "length (last_of k xs) = min k (length xs)"
  by (simp add: last_of_def)

lemma last_of_append: "last_of k (last_of k xs @ ys) = last_of k (xs @ ys)"
  by (cases "length xs \<le> k") (simp_all add: last_of_def drop_append add.commute)

lemma push_sample_last: "push_sample k x xs = last_of k (xs @ [x])"
  by (simp add: push_sample_def trim_front_last)

lemma push_samples: "xs \<noteq> [] \<Longrightarrow> fold (push_sample k) xs ys = last_of k (ys @ xs)"
proof (induction xs arbitrary: ys)
  case (Cons x xs)
  then show ?case
    by (cases "xs = []") (simp_all add: push_sample_last last_of_append)
qed simp

lemma periodic_updates_split:
  "fold (\<lambda>(t, d). do_simulation_periodic_update r t d) xs s =
    s\<lparr>last_transmissions := fold (push_sample (smooth_factor r)) (map fst xs) (last_transmissions s),
      last_drops := fold (push_sample (smooth_factor r)) (map snd xs) (last_drops s)\<rparr>"
  by (induction xs arbitrary: s) (auto simp: do_simulation_periodic_update_def)

text \<open>
  After any number of periodic updates at one smoothing factor the window holds the last samples collected, in
  order and as many as the factor says, whatever it held before and at whatever factor.
\<close>

theorem sample_window:
  assumes "xs \<noteq> []"
  shows "last_transmissions (fold (\<lambda>(t, d). do_simulation_periodic_update smoothing t d) xs s) =
      last_of (nat \<lfloor>smoothing * 10\<rfloor>) (last_transmissions s @ map fst xs) \<and>
    last_drops (fold (\<lambda>(t, d). do_simulation_periodic_update smoothing t d) xs s) =
      last_of (nat \<lfloor>smoothing * 10\<rfloor>) (last_drops s @ map snd xs)"
  using assms by (simp add: periodic_updates_split push_samples smooth_factor_def)

section \<open>Averages: sums over the window\<close>

lemma fold_sets: "fold (fold g) sets d = fold g (concat sets) d"
  by (induction sets arbitrary: d) auto

definition tally :: "('a \<Rightarrow> bool) \<Rightarrow> ('a \<Rightarrow> nat) \<Rightarrow> 'a list \<Rightarrow> (nat \<times> nat) option" where
  "tally P b xs = (let ys = filter P xs in if ys = [] then None else Some (sum_list (map b ys), length ys))"

lemma map_of_add_bytes:
  "map_of (add_bytes key b d) k = (if k = key then
     Some (case map_of d key of None \<Rightarrow> (b, 1) | Some (s, n) \<Rightarrow> (s + b, n + 1)) else map_of d k)"
  by (auto simp: add_bytes_def Let_def split: option.split prod.split)

lemma tally_snoc:
  "tally P b (xs @ [x]) = (if P x then
     Some (case tally P b xs of None \<Rightarrow> (b x, 1) | Some (s, n) \<Rightarrow> (s + b x, n + 1)) else tally P b xs)"
  by (auto simp: tally_def Let_def)

lemma fold_add_bytes:
  "map_of (fold (\<lambda>x. add_bytes (f x) (b x)) xs []) k = tally (\<lambda>x. f x = k) b xs"
proof (induction xs rule: rev_induct)
  case (snoc x xs)
  then show ?case by (auto simp: map_of_add_bytes tally_snoc)
qed (simp add: tally_def)

lemma add_bytes_distinct: "distinct (dict_keys d) \<Longrightarrow> distinct (dict_keys (add_bytes key b d))"
  by (auto simp: add_bytes_def Let_def distinct_update split: option.split prod.split)

lemma fold_add_bytes_distinct:
  "distinct (dict_keys d) \<Longrightarrow> distinct (dict_keys (fold (\<lambda>x. add_bytes (f x) (b x)) xs d))"
  by (induction xs arbitrary: d) (auto simp: add_bytes_distinct)

text \<open>
  The averages are the sums and the numbers of packets over the whole window, for each pair of nodes and each node that
  occurs in it, and for no other.
\<close>

theorem averages_are_sums:
  "distinct (dict_keys (transmissions_average sets)) \<and> distinct (dict_keys (drops_average dsets)) \<and>
   map_of (transmissions_average sets) (i, j) =
     tally (\<lambda>t. transmitter t = i \<and> receiver t = j) tx_bytes (concat sets) \<and>
   map_of (drops_average dsets) i = tally (\<lambda>d. drop_transmitter d = i) drop_bytes (concat dsets)"
  by (simp add: transmissions_average_def drops_average_def fold_sets fold_add_bytes fold_add_bytes_distinct)

lemma average_positive:
  assumes "\<And>t. t \<in> set (concat sets) \<Longrightarrow> 0 < tx_bytes t" "(key, (bytes, n)) \<in> set (transmissions_average sets)"
  shows "0 < bytes" and "0 < n"
proof -
  have "map_of (transmissions_average sets) key = Some (bytes, n)"
    using assms(2) by (simp add: transmissions_average_def fold_sets fold_add_bytes_distinct)
  then have t: "tally (\<lambda>t. (transmitter t, receiver t) = key) tx_bytes (concat sets) = Some (bytes, n)"
    by (simp add: transmissions_average_def fold_sets fold_add_bytes)
  define ys where "ys = filter (\<lambda>t. (transmitter t, receiver t) = key) (concat sets)"
  have ys: "ys \<noteq> []" "bytes = sum_list (map tx_bytes ys)" "n = length ys"
    using t by (auto simp: tally_def ys_def Let_def split: if_splits)
  then obtain y zs where "ys = y # zs" by (cases ys) auto
  moreover have "y \<in> set (concat sets)" using \<open>ys = y # zs\<close> ys_def
    by (metis filter_is_subset list.set_intros(1) subsetD)
  ultimately show "0 < bytes" "0 < n" using ys(2,3) assms(1) [of y] by auto
qed

section \<open>The arrows drawn\<close>

definition pool_ok :: "arrow_pool \<Rightarrow> bool" where
  "pool_ok p \<longleftrightarrow> distinct (arrows p) \<and> (\<forall>a \<in> set (arrows p). a < next_item p) \<and> (\<forall>a \<in> visible p. a < next_item p)"

text \<open>One arrow: it comes from the list or is new, and is the only item that changes.\<close>

lemma take_arrow_ok:
  assumes "take_arrow p = (a, q)" "pool_ok p"
  shows "a < next_item q" and "a \<notin> set (arrows q)" and "distinct (arrows q)"
    and "\<forall>b \<in> set (arrows q). b < next_item q" and "set (arrows q) = set (arrows p) - {a}"
    and "a \<in> set (arrows p) \<or> a = next_item p" and "visible q = visible p" and "lines_drawn q = lines_drawn p"
    and "next_item p \<le> next_item q" and "Suc (length (arrows q)) = max 1 (length (arrows p))"
proof -
  have "set (arrows p) = insert a (set (arrows q)) \<and> a \<notin> set (arrows q) \<and> a < next_item p \<and> a \<in> set (arrows p)"
    if "arrows p \<noteq> []"
  proof -
    have eq: "arrows p = arrows q @ [a]" using assms(1) that by (auto simp: take_arrow_def)
    then have "a \<in> set (arrows p)" by simp
    moreover have "a \<notin> set (arrows q)" using assms(2) eq by (simp add: pool_ok_def)
    ultimately show ?thesis using assms(2) eq by (auto simp: pool_ok_def)
  qed
  then show "a < next_item q" "a \<notin> set (arrows q)" "set (arrows q) = set (arrows p) - {a}"
    "a \<in> set (arrows p) \<or> a = next_item p"
    using assms by (auto simp: take_arrow_def pool_ok_def split: if_splits)
  show "distinct (arrows q)" "visible q = visible p" "lines_drawn q = lines_drawn p" "next_item p \<le> next_item q"
    using assms by (auto simp: take_arrow_def pool_ok_def distinct_butlast split: if_splits)
  show "\<forall>b \<in> set (arrows q). b < next_item q"
    using assms by (fastforce simp: take_arrow_def pool_ok_def split: if_splits dest: in_set_butlastD)
  show "Suc (length (arrows q)) = max 1 (length (arrows p))"
    using assms by (cases "arrows p") (auto simp: take_arrow_def split: if_splits)
qed

lemma draw_arrow_ok:
  assumes "draw_arrow l p = (r, q)" "pool_ok p"
  shows "pool_ok q" and "next_item p \<le> next_item q"
    and "\<exists>a. visible q = insert a (visible p) \<and> a \<notin> set (arrows q) \<and> set (arrows q) = set (arrows p) - {a} \<and>
      (a \<in> set (arrows p) \<or> a = next_item p) \<and> Suc (length (arrows q)) = max 1 (length (arrows p)) \<and>
      (\<forall>x. l = Inl x \<longrightarrow> r = Inl x) \<and>
      (\<forall>line. l = Inr line \<longrightarrow> r = Inr a \<and> lines_drawn q = AList.update a line (lines_drawn p))"
proof -
  obtain a p1 where t: "take_arrow p = (a, p1)" by fastforce
  note ok = take_arrow_ok [OF t assms(2)]
  have q: "arrows q = arrows p1" "visible q = insert a (visible p1)" "next_item q = next_item p1"
    "\<forall>x. l = Inl x \<longrightarrow> r = Inl x"
    "\<forall>line. l = Inr line \<longrightarrow> r = Inr a \<and> lines_drawn q = AList.update a line (lines_drawn p1)"
    using assms(1) t by (auto simp: draw_arrow_def Let_def split: sum.splits)
  show "pool_ok q" using ok q assms(2) by (fastforce simp: pool_ok_def)
  show "next_item p \<le> next_item q" using ok q by simp
  show "\<exists>a. visible q = insert a (visible p) \<and> a \<notin> set (arrows q) \<and> set (arrows q) = set (arrows p) - {a} \<and>
      (a \<in> set (arrows p) \<or> a = next_item p) \<and> Suc (length (arrows q)) = max 1 (length (arrows p)) \<and>
      (\<forall>x. l = Inl x \<longrightarrow> r = Inl x) \<and>
      (\<forall>line. l = Inr line \<longrightarrow> r = Inr a \<and> lines_drawn q = AList.update a line (lines_drawn p))"
    using ok q by (intro exI [of _ a]) auto
qed

text \<open>Views of nodes are only added, so the places of those that exist do not change.\<close>

lemma get_node_known: "map_of ns j = Some p \<Longrightarrow> map_of (get_node i ns) j = Some p"
  by (auto simp: get_node_def split: option.split)

lemma get_position_get_node [simp]: "get_position (get_node i ns) j = get_position ns j"
  by (auto simp: get_position_def get_node_def split: option.split)

lemma get_position_get_nodes [simp]: "get_position (fold get_node is ns) j = get_position ns j"
  by (induction "is" arbitrary: ns) auto

lemma get_node_keys [simp]: "dom (map_of (get_node i ns)) = insert i (dom (map_of ns))"
  by (auto simp: get_node_def split: option.split)

lemma get_nodes_keys [simp]: "dom (map_of (fold get_node is ns)) = set is \<union> dom (map_of ns)"
  by (induction "is" arbitrary: ns) auto

lemma map_of_lines_other:
  "a \<noteq> b \<Longrightarrow> map_of (AList.update a l d) b = map_of d b"
  by simp

text \<open>What a loop leaves alone, whether it raises or not.\<close>

definition pool_grows :: "arrow_pool \<Rightarrow> arrow_pool \<Rightarrow> bool" where
  "pool_grows p q \<longleftrightarrow> pool_ok q \<and> next_item p \<le> next_item q \<and> set (arrows q) \<subseteq> set (arrows p) \<and>
     visible p \<subseteq> visible q \<and>
     (\<forall>b. b \<notin> set (arrows p) \<and> b < next_item p \<longrightarrow>
        (b \<in> visible q \<longleftrightarrow> b \<in> visible p) \<and> map_of (lines_drawn q) b = map_of (lines_drawn p) b)"

lemma pool_grows_refl: "pool_ok p \<Longrightarrow> pool_grows p p"
  by (simp add: pool_grows_def)

lemma pool_grows_trans:
  assumes "pool_grows p q" "pool_grows q r"
  shows "pool_grows p r"
proof -
  have "b \<notin> set (arrows q) \<and> b < next_item q" if "b \<notin> set (arrows p) \<and> b < next_item p" for b
    using assms(1) that unfolding pool_grows_def by (meson less_le_trans subsetD)
  with assms show ?thesis unfolding pool_grows_def by (metis order_trans)
qed

lemma draw_arrow_grows:
  assumes "draw_arrow l p = (r, q)" "pool_ok p"
  shows "pool_grows p q"
proof -
  obtain a where a: "visible q = insert a (visible p)" "set (arrows q) = set (arrows p) - {a}"
    "a \<in> set (arrows p) \<or> a = next_item p" "\<forall>line. l = Inr line \<longrightarrow> lines_drawn q = AList.update a line (lines_drawn p)"
    using draw_arrow_ok(3) [OF assms] by blast
  have "\<forall>x. l = Inl x \<longrightarrow> lines_drawn q = lines_drawn p"
    using assms(1) by (auto simp: draw_arrow_def Let_def take_arrow_def split: if_splits)
  with a(4) have l: "map_of (lines_drawn q) b = map_of (lines_drawn p) b" if "b \<noteq> a" for b
    using that by (cases l) auto
  have "b \<noteq> a" if "b \<notin> set (arrows p)" "b < next_item p" for b using that a(3) by auto
  with l show ?thesis unfolding pool_grows_def using draw_arrow_ok(1,2) [OF assms] a(1,2) by (simp add: subset_insertI)
qed

lemma draw_entries_cases:
  assumes "draw_entries ids line (e # es) (ns, p) = (r, s)"
  obtains (bad) x q where "draw_arrow (line (fold get_node (ids e) ns) e) p = (Inl x, q)" "r = Inl x"
      "s = (fold get_node (ids e) ns, q)"
    | (later) a q x where "draw_arrow (line (fold get_node (ids e) ns) e) p = (Inr a, q)"
      "draw_entries ids line es (fold get_node (ids e) ns, q) = (Inl x, s)" "r = Inl x"
    | (good) a q new where "draw_arrow (line (fold get_node (ids e) ns) e) p = (Inr a, q)"
      "draw_entries ids line es (fold get_node (ids e) ns, q) = (Inr new, s)" "r = Inr (a # new)"
  using assms by (auto simp: Let_def split: prod.splits sum.splits)

lemma draw_entries_grows:
  "draw_entries ids line es (ns, p) = (r, (ns', p')) \<Longrightarrow> pool_ok p \<Longrightarrow> pool_grows p p'"
proof (induction es arbitrary: ns p r)
  case (Cons e es)
  from Cons.prems(1) show ?case
  proof (cases rule: draw_entries_cases)
    case (bad x q)
    then show ?thesis using draw_arrow_grows Cons.prems(2) by auto
  next
    case (later a q x)
    then show ?thesis
      using pool_grows_trans [OF draw_arrow_grows Cons.IH] draw_arrow_ok(1) Cons.prems(2) by blast
  next
    case (good a q new)
    then show ?thesis
      using pool_grows_trans [OF draw_arrow_grows Cons.IH] draw_arrow_ok(1) Cons.prems(2) by blast
  qed
qed (auto simp: pool_grows_refl)

text \<open>What a loop that does not raise has drawn: one arrow for each entry, with its line.\<close>

definition entries_drawn :: "arrow_line result list \<Rightarrow> arrow_pool \<Rightarrow> nat list \<Rightarrow> arrow_pool \<Rightarrow> bool" where
  "entries_drawn ls p new q \<longleftrightarrow>
     distinct new \<and> set new \<inter> set (arrows q) = {} \<and>
     (\<forall>a \<in> set new. a < next_item q \<and> (a \<in> set (arrows p) \<or> next_item p \<le> a)) \<and>
     visible q = visible p \<union> set new \<and> length new + length (arrows q) = max (length ls) (length (arrows p)) \<and>
     list_all2 (\<lambda>l a. \<exists>line. l = Inr line \<and> map_of (lines_drawn q) a = Some line) ls new"

lemma entries_drawn_Cons:
  assumes d: "draw_arrow (Inr l) p = (Inr a, q)" and "pool_ok p" and r: "entries_drawn ls q new p'" "pool_grows q p'"
  shows "entries_drawn (Inr l # ls) p (a # new) p'"
proof -
  have a: "visible q = insert a (visible p)" "a \<notin> set (arrows q)" "set (arrows q) = set (arrows p) - {a}"
    "a \<in> set (arrows p) \<or> a = next_item p" "Suc (length (arrows q)) = max 1 (length (arrows p))"
    "lines_drawn q = AList.update a l (lines_drawn p)"
    using draw_arrow_ok(3) [OF d assms(2)] by auto
  have le: "next_item p \<le> next_item q" using draw_arrow_ok(2) [OF d assms(2)] .
  have lt: "a < next_item q" using draw_arrow_ok(1) [OF d assms(2)] a(1) by (simp add: pool_ok_def)
  with r(2) a(2) have keep: "map_of (lines_drawn p') a = Some l" "a < next_item p'" "a \<notin> set (arrows p')"
    using a(6) unfolding pool_grows_def by auto
  have new: "a \<notin> set new" using r(1) a(2) lt unfolding entries_drawn_def by auto
  have "length new + length (arrows p') = max (length ls) (length (arrows q))"
    using r(1) by (simp add: entries_drawn_def)
  then have len: "length (a # new) + length (arrows p') = max (length (Inr l # ls)) (length (arrows p))"
    using a(5) by simp
  have ids: "\<forall>b \<in> set (a # new). b < next_item p' \<and> (b \<in> set (arrows p) \<or> next_item p \<le> b)"
    using r(1) a(3,4) le keep(2) unfolding entries_drawn_def by auto
  show ?thesis using r(1) a(1) new keep len ids unfolding entries_drawn_def by auto
qed

text \<open>Lines depend on the positions of the nodes only, which a new view of a node does not change.\<close>

definition stable :: "(vnodes \<Rightarrow> 'e \<Rightarrow> arrow_line result) \<Rightarrow> bool" where
  "stable line \<longleftrightarrow> (\<forall>i ns e. line (get_node i ns) e = line ns e)"

lemma draw_entries_drawn:
  assumes "stable line"
  shows "draw_entries ids line es (ns, p) = (Inr new, (ns', p')) \<Longrightarrow> pool_ok p \<Longrightarrow>
    entries_drawn (map (line ns) es) p new p' \<and> ns' = fold get_node (concat (map ids es)) ns"
proof (induction es arbitrary: ns p new)
  case Nil
  then show ?case by (simp add: entries_drawn_def)
next
  case (Cons e es)
  have same: "line (fold get_node is ns) = line ns" for "is" ns
    by (induction "is" arbitrary: ns) (use assms in \<open>auto simp: stable_def fun_eq_iff\<close>)
  from Cons.prems(1) show ?case
  proof (cases rule: draw_entries_cases)
    case (good a q rest)
    then have d: "draw_arrow (line ns e) p = (Inr a, q)" by (simp add: same)
    then obtain l where l: "line ns e = Inr l" by (cases "line ns e") (auto simp: draw_arrow_def Let_def split: prod.splits)
    have ok: "pool_ok q" using draw_arrow_ok(1) [OF d Cons.prems(2)] .
    have "entries_drawn (map (line ns) es) q rest p'" and "ns' = fold get_node (concat (map ids (e # es))) ns"
      using Cons.IH [OF good(2) ok] by (simp_all add: same)
    then show ?thesis
      using entries_drawn_Cons [OF d [unfolded l] Cons.prems(2) _ draw_entries_grows [OF good(2) ok]] good(3) l by simp
  qed auto
qed

text \<open>And when it raises: the arrow it was about to draw is visible and no longer in the list.\<close>

lemma draw_entries_raises:
  assumes "stable line"
  shows "draw_entries ids line es (ns, p) = (Inl x, (ns', p')) \<Longrightarrow> pool_ok p \<Longrightarrow>
    (\<exists>e \<in> set es. line ns e = Inl x) \<and> (\<exists>a. a \<in> visible p' \<and> a \<notin> set (arrows p'))"
proof (induction es arbitrary: ns p)
  case (Cons e es)
  have same: "line (fold get_node is ns) = line ns" for "is" ns
    by (induction "is" arbitrary: ns) (use assms in \<open>auto simp: stable_def fun_eq_iff\<close>)
  from Cons.prems(1) show ?case
  proof (cases rule: draw_entries_cases)
    case (bad y q)
    then have "line ns e = Inl x"
      using same by (cases "line ns e") (auto simp: draw_arrow_def Let_def split: prod.splits)
    moreover have "\<exists>a. a \<in> visible q \<and> a \<notin> set (arrows q)" using draw_arrow_ok(3) [OF bad(1) Cons.prems(2)] by auto
    ultimately show ?thesis using bad by auto
  next
    case (later a q y)
    then show ?thesis using Cons.IH [of "fold get_node (ids e) ns" q] draw_arrow_ok(1) Cons.prems(2) by (auto simp: same)
  qed auto
qed simp

lemma transmission_line_same: "stable (transmission_line period k)"
  by (auto simp: stable_def transmission_line_def fun_eq_iff)

lemma drop_line_same: "stable (drop_line period k y)"
  by (auto simp: stable_def drop_line_def fun_eq_iff)

lemma hide_all_ok: "pool_ok p \<Longrightarrow> pool_ok (hide_all p)"
  by (auto simp: pool_ok_def hide_all_def)

lemma update_arrows_draws:
  assumes "stable line" and "pool_ok p" and "visible p \<subseteq> set (arrows p)"
    and "\<And>e x. e \<in> set es \<Longrightarrow> line ns e \<noteq> Inl x"
  shows "\<exists>p'. update_arrows ids line es (ns, p) = (Inr (), (fold get_node (concat (map ids es)) ns, p')) \<and>
    pool_ok p' \<and> visible p' = set (take (length es) (arrows p')) \<and> card (visible p') = length es \<and>
    length (arrows p') = max (length es) (length (arrows p)) \<and>
    list_all2 (\<lambda>e a. \<exists>l. line ns e = Inr l \<and> map_of (lines_drawn p') a = Some l) es (take (length es) (arrows p'))"
proof -
  obtain r ns' q where d: "draw_entries ids line es (ns, hide_all p) = (r, (ns', q))" by (metis prod.exhaust)
  have ok: "pool_ok (hide_all p)" using hide_all_ok assms(2) .
  obtain new where new: "r = Inr new"
    using draw_entries_raises [OF assms(1), of ids es ns "hide_all p"] d ok assms(4)
    by (cases r) blast+
  have drawn: "entries_drawn (map (line ns) es) (hide_all p) new q" and ns': "ns' = fold get_node (concat (map ids es)) ns"
    using draw_entries_drawn [OF assms(1) d [unfolded new] ok] by auto
  have g: "pool_ok q" using draw_entries_grows [OF d ok] by (simp add: pool_grows_def)
  have len: "length new = length es" using drawn list_all2_lengthD unfolding entries_drawn_def by fastforce
  have vis: "visible q = set new" using drawn assms(3) by (auto simp: entries_drawn_def hide_all_def)
  have card: "card (set new) = length es" using drawn len distinct_card by (fastforce simp: entries_drawn_def)
  have "pool_ok (q\<lparr>arrows := new @ arrows q\<rparr>)" using g drawn by (auto simp: pool_ok_def entries_drawn_def)
  moreover have "list_all2 (\<lambda>e a. \<exists>l. line ns e = Inr l \<and> map_of (lines_drawn q) a = Some l) es new"
    using drawn by (simp add: entries_drawn_def list_all2_map1)
  moreover have "length new + length (arrows q) = max (length es) (length (arrows p))"
    using drawn by (simp add: entries_drawn_def hide_all_def)
  ultimately show ?thesis using d new ns' len vis card
    by (intro exI [of _ "q\<lparr>arrows := new @ arrows q\<rparr>"]) (simp add: update_arrows_def)
qed

lemma transmission_line_ok: "0 < bytes \<Longrightarrow> transmission_line period k ns (key, (bytes, n)) \<noteq> Inl x"
  by (cases key) (simp add: transmission_line_def width_of_def Let_def)

text \<open>C37. 
  When every packet has a size, as many arrows are visible after an update as there are pairs of nodes in the window,
  each with the width, ends and rate of its pair; the pool grows to the largest number needed so far and never shrinks.
\<close>

theorem transmissions_drawn:
  assumes "\<And>t. t \<in> set (concat sets) \<Longrightarrow> 0 < tx_bytes t" and "pool_ok p" and "visible p \<subseteq> set (arrows p)"
  shows "\<exists>ns' p'. update_transmissions_view period node_size sets (ns, p) = (Inr (), (ns', p')) \<and>
    pool_ok p' \<and> visible p' \<subseteq> set (arrows p') \<and> card (visible p') = length (transmissions_average sets) \<and>
    length (arrows p') = max (length (transmissions_average sets)) (length (arrows p)) \<and>
    list_all2 (\<lambda>e a. \<exists>l. transmission_line period (node_size / 5) ns e = Inr l \<and> map_of (lines_drawn p') a = Some l)
      (transmissions_average sets) (take (length (transmissions_average sets)) (arrows p'))"
proof -
  have ok: "transmission_line period (node_size / 5) ns e \<noteq> Inl x" if "e \<in> set (transmissions_average sets)" for e x
  proof -
    obtain key bytes n where e: "e = (key, (bytes, n))" by (metis prod.exhaust)
    then have "0 < bytes" using average_positive(1) [OF assms(1)] that by blast
    then show ?thesis by (simp add: e transmission_line_ok)
  qed
  obtain p' where u: "update_transmissions_view period node_size sets (ns, p) =
      (Inr (), (fold get_node (concat (map (\<lambda>((tx, rx), _). [tx, rx]) (transmissions_average sets))) ns, p'))"
    "pool_ok p'" "visible p' = set (take (length (transmissions_average sets)) (arrows p'))"
    "card (visible p') = length (transmissions_average sets)"
    "length (arrows p') = max (length (transmissions_average sets)) (length (arrows p))"
    "list_all2 (\<lambda>e a. \<exists>l. transmission_line period (node_size / 5) ns e = Inr l \<and> map_of (lines_drawn p') a = Some l)
      (transmissions_average sets) (take (length (transmissions_average sets)) (arrows p'))"
    using update_arrows_draws [OF transmission_line_same assms(2,3) ok]
    unfolding update_transmissions_view_def by meson
  moreover have "visible p' \<subseteq> set (arrows p')" using u(3) set_take_subset by metis
  ultimately show ?thesis by blast
qed

lemma update_arrows_keeps_leak:
  assumes "update_arrows ids line es (ns, p) = (r, (ns', p'))" "pool_ok p" "a \<in> visible p" "a \<notin> set (arrows p)"
    and "stable line"
  shows "pool_ok p' \<and> a \<in> visible p' \<and> a \<notin> set (arrows p')"
proof -
  obtain r1 ns1 q where d: "draw_entries ids line es (ns, hide_all p) = (r1, (ns1, q))" by (metis prod.exhaust)
  have ok: "pool_ok (hide_all p)" using hide_all_ok assms(2) .
  have g: "pool_grows (hide_all p) q" using draw_entries_grows [OF d ok] .
  have a: "a \<in> visible (hide_all p)" "a \<notin> set (arrows (hide_all p))" "a < next_item (hide_all p)"
    using assms(2-4) by (auto simp: hide_all_def pool_ok_def)
  have q: "pool_ok q" "a \<in> visible q" "a \<notin> set (arrows q)" using g a by (auto simp: pool_grows_def)
  show ?thesis
  proof (cases r1)
    case (Inl x)
    then show ?thesis using assms(1) d q by (auto simp: update_arrows_def)
  next
    case (Inr new)
    then have drawn: "entries_drawn (map (line ns) es) (hide_all p) new q"
      using draw_entries_drawn [OF assms(5) d [unfolded Inr] ok] by blast
    then have "a \<notin> set new" using a(2,3) unfolding entries_drawn_def by fastforce
    moreover have "p' = q\<lparr>arrows := new @ arrows q\<rparr>" using assms(1) d Inr by (simp add: update_arrows_def)
    ultimately show ?thesis using q drawn by (auto simp: pool_ok_def entries_drawn_def)
  qed
qed

text \<open>A transmission without bytes: the update raises, and the arrow in hand stays visible for ever.\<close>

theorem empty_transmission_leaks:
  assumes "(key, (0, n)) \<in> set (transmissions_average sets)" and "pool_ok p"
    and "update_transmissions_view period node_size sets (ns, p) = (r, (ns', p'))"
  shows "r = Inl ValueError \<and> (\<exists>a. a \<in> visible p' \<and> a \<notin> set (arrows p') \<and>
    (\<forall>sets2 r2 ns2 p2. update_transmissions_view period node_size sets2 (ns', p') = (r2, (ns2, p2)) \<longrightarrow>
      a \<in> visible p2 \<and> a \<notin> set (arrows p2)))"
proof -
  let ?line = "transmission_line period (node_size / 5)" and ?es = "transmissions_average sets"
  let ?ids = "\<lambda>((tx, rx), _). [tx, rx] :: nat list"
  obtain r1 ns1 q where d: "draw_entries ?ids ?line ?es (ns, hide_all p) = (r1, (ns1, q))" by (metis prod.exhaust)
  have ok: "pool_ok (hide_all p)" using hide_all_ok assms(2) .
  have only: "?line ns e = Inl x \<Longrightarrow> x = ValueError" for e x
    by (cases e) (auto simp: transmission_line_def width_of_def Let_def split: if_splits prod.splits)
  have raise: "?line ns (key, (0, n)) = Inl ValueError"
    by (cases key) (simp add: transmission_line_def width_of_def)
  have "\<exists>x. r1 = Inl x"
  proof (cases r1)
    case (Inr new)
    then have "list_all2 (\<lambda>l a. \<exists>line. l = Inr line \<and> map_of (lines_drawn q) a = Some line) (map (?line ns) ?es) new"
      using draw_entries_drawn [OF transmission_line_same d [unfolded Inr] ok] by (simp add: entries_drawn_def)
    then have "\<exists>l. ?line ns (key, (0, n)) = Inr l" using assms(1)
      by (auto simp: list_all2_map1 list_all2_conv_all_nth in_set_conv_nth)
    with raise show ?thesis by simp
  qed simp
  then obtain x where x: "r1 = Inl x" ..
  have "\<exists>e \<in> set ?es. ?line ns e = Inl x" and leak: "\<exists>a. a \<in> visible q \<and> a \<notin> set (arrows q)"
    using draw_entries_raises [OF transmission_line_same d [unfolded x] ok] by auto
  then have v: "x = ValueError" using only by blast
  have p': "r = Inl ValueError" "p' = q" using assms(3) d x v by (auto simp: update_transmissions_view_def update_arrows_def)
  have okq: "pool_ok p'" using draw_entries_grows [OF d ok] p' by (simp add: pool_grows_def)
  then show ?thesis using p' leak update_arrows_keeps_leak [OF _ okq _ _ transmission_line_same]
    unfolding update_transmissions_view_def by blast
qed

text \<open>The label of an arrow is written from left to right exactly when the receiver is not to the left.\<close>

lemma line_angle_right: "- (pi / 2) \<le> line_angle p q \<and> line_angle p q \<le> pi / 2 \<longleftrightarrow> fst p \<le> fst q"
proof -
  define z where "z = Complex (fst q - fst p) (snd q - snd p)"
  have b: "- pi < Arg z" "Arg z \<le> pi" using Arg_bounded [of z] by auto
  have re: "fst q - fst p = cmod z * cos (Arg z)" using rcis_cmod_Arg [of z] z_def
    by (metis Re_rcis complex.sel(1))
  have "0 \<le> cos (Arg z)" if "- (pi / 2) \<le> Arg z" "Arg z \<le> pi / 2" using cos_ge_zero that by blast
  moreover have "cos (Arg z) < 0" if "\<not> (- (pi / 2) \<le> Arg z \<and> Arg z \<le> pi / 2)"
  proof (cases "Arg z > pi / 2")
    case True
    then show ?thesis using cos_monotone_0_pi [of "pi / 2" "Arg z"] b by simp
  next
    case False
    then show ?thesis using cos_monotone_0_pi [of "pi / 2" "- Arg z"] b that by simp
  qed
  moreover have "cmod z = 0 \<Longrightarrow> Arg z = 0" by (simp add: Arg_zero)
  ultimately show ?thesis unfolding line_angle_def z_def [symmetric] using re
    by (metis Arg_zero cos_zero diff_ge_0_iff_ge less_eq_real_def mult_nonneg_nonneg mult_pos_neg norm_ge_zero
        not_less pi_half_ge_zero neg_le_0_iff_le zero_less_norm_iff)
qed

section \<open>Selection and nodes of interest\<close>

datatype show_mode = All_nodes | No_nodes | Selected_node

text \<open>What \<^verbatim>\<open>select_node\<close> is given: a simulator node, a number, a view of a node, nothing, or anything else.\<close>

datatype node_arg = Sim_node nat | Number nat | View nat | Nothing | Something_else

record selection =
  mode :: show_mode
  selected_node :: "nat option"
  marked :: "nat set"
  of_interest :: "nat list"

definition set_show_transmissions_mode :: "nat \<Rightarrow> show_mode \<Rightarrow> selection \<Rightarrow> selection" where
  "set_show_transmissions_mode n m s =
     s\<lparr>mode := m, of_interest :=
       (case m of All_nodes \<Rightarrow> [0..<n] | No_nodes \<Rightarrow> []
        | Selected_node \<Rightarrow> (case selected_node s of None \<Rightarrow> [] | Some i \<Rightarrow> [i]))\<rparr>"

text \<open>\<open>known\<close> are the nodes that have a view; views of other nodes are not made here.\<close>

definition resolve_node :: "nat set \<Rightarrow> node_arg \<Rightarrow> nat option result" where
  "resolve_node known arg =
     (case arg of
        Sim_node i \<Rightarrow> if i \<in> known then Inr (Some i) else Inl KeyError
      | Number i \<Rightarrow> if i \<in> known then Inr (Some i) else Inl KeyError
      | View i \<Rightarrow> Inr (Some i)
      | Nothing \<Rightarrow> Inr None
      | Something_else \<Rightarrow> Inl TypeError)"

definition select_node :: "nat set \<Rightarrow> node_arg \<Rightarrow> selection \<Rightarrow> selection result" where
  "select_node known arg s =
     res_bind (resolve_node known arg) (\<lambda>node.
       if node = selected_node s then Inr s
       else
         let s1 = (case selected_node s of None \<Rightarrow> s | Some i \<Rightarrow> s\<lparr>marked := marked s - {i}\<rparr>);
             s2 = s1\<lparr>selected_node := node\<rparr>;
             s3 = (case node of None \<Rightarrow> s2 | Some i \<Rightarrow> s2\<lparr>marked := insert i (marked s2)\<rparr>)
         in Inr (if mode s3 = Selected_node
                 then s3\<lparr>of_interest := (case node of None \<Rightarrow> [] | Some i \<Rightarrow> [i])\<rparr> else s3))"

definition selection_init :: "nat \<Rightarrow> selection" where
  "selection_init n = set_show_transmissions_mode n All_nodes
     \<lparr>mode = All_nodes, selected_node = None, marked = {}, of_interest = []\<rparr>"

text \<open>The two ways the user changes it, and what holds after any number of them.\<close>

datatype selection_event = Set_mode show_mode | Select node_arg

fun change_selection :: "nat \<Rightarrow> nat set \<Rightarrow> selection_event \<Rightarrow> selection \<Rightarrow> selection result" where
  "change_selection n known (Set_mode m) s = Inr (set_show_transmissions_mode n m s)"
| "change_selection n known (Select arg) s = select_node known arg s"

definition selection_ok :: "nat \<Rightarrow> selection \<Rightarrow> bool" where
  "selection_ok n s \<longleftrightarrow> marked s = set_option (selected_node s) \<and>
     of_interest s = (case mode s of All_nodes \<Rightarrow> [0..<n] | No_nodes \<Rightarrow> []
       | Selected_node \<Rightarrow> (case selected_node s of None \<Rightarrow> [] | Some i \<Rightarrow> [i]))"

lemma select_node_ok:
  assumes "select_node known arg s = Inr t" "selection_ok n s"
  shows "selection_ok n t"
proof -
  obtain node where "resolve_node known arg = Inr node" using assms(1) by (auto simp: select_node_def res_simps)
  with assms show ?thesis
    by (cases "node = selected_node s"; cases node; cases "selected_node s"; cases "mode s")
      (simp_all add: select_node_def Let_def selection_ok_def, safe, simp_all)
qed

lemma set_mode_ok: "selection_ok n s \<Longrightarrow> selection_ok n (set_show_transmissions_mode n m s)"
  by (cases m) (simp_all add: selection_ok_def set_show_transmissions_mode_def)

lemma selection_event_ok: "change_selection n known e s = Inr t \<Longrightarrow> selection_ok n s \<Longrightarrow> selection_ok n t"
  using select_node_ok set_mode_ok by (cases e) auto

lemma selection_events_ok:
  "for_each (change_selection n known) es s = Inr t \<Longrightarrow> selection_ok n s \<Longrightarrow> selection_ok n t"
  by (rule for_each_inv [where P = "selection_ok n"]) (auto intro: selection_event_ok)

text \<open>
  The node highlighted is the one selected, and the simulator watches exactly the nodes the mode asks for: all, none, or
  the selected one.  Only unknown nodes and wrong arguments raise.
\<close>

theorem selection_watched:
  assumes "for_each (change_selection n known) es (selection_init n) = Inr s"
  shows "marked s = set_option (selected_node s) \<and>
    set (of_interest s) = (case mode s of All_nodes \<Rightarrow> {0..<n} | No_nodes \<Rightarrow> {} | Selected_node \<Rightarrow> set_option (selected_node s))"
proof -
  have "selection_ok n (selection_init n)"
    by (simp add: selection_ok_def selection_init_def set_show_transmissions_mode_def)
  from selection_events_ok [OF assms this] have "selection_ok n s" .
  then show ?thesis by (cases "mode s"; cases "selected_node s") (simp_all add: selection_ok_def)
qed

theorem selection_watched_witness:
  "of_interest \<lparr>mode = Selected_node, selected_node = Some 1, marked = {1}, of_interest = [1]\<rparr> = [1] \<and>
   marked \<lparr>mode = Selected_node, selected_node = Some 1, marked = {1}, of_interest = [1]\<rparr> = {1}"
  using selection_watched [of 2 "{0, 1}" "[Set_mode Selected_node, Select (Number 1)]"
      "\<lparr>mode = Selected_node, selected_node = Some 1, marked = {1}, of_interest = [1]\<rparr>"]
  by (simp add: selection_init_def set_show_transmissions_mode_def select_node_def resolve_node_def)

section \<open>Panning\<close>

text \<open>A scroll bar's adjustment: it keeps its value inside its range.\<close>

record adjustment =
  adj_value :: rat
  adj_lower :: rat
  adj_upper :: rat
  adj_page :: rat

definition set_value :: "rat \<Rightarrow> adjustment \<Rightarrow> adjustment" where
  "set_value v a = a\<lparr>adj_value := max (adj_lower a) (min v (max (adj_lower a) (adj_upper a - adj_page a)))\<rparr>"

record panning_state =
  initial_mouse_pos :: "rat \<times> rat"
  initial_canvas_pos :: "rat \<times> rat"
  motion_signal :: nat

text \<open>\<open>handlers\<close> are the motion handlers connected to the canvas, each of them \<^verbatim>\<open>_panning_motion\<close>.\<close>

record panning =
  panning_state :: "panning_state option"
  hadj :: adjustment
  vadj :: adjustment
  handlers :: "nat list"
  next_handler :: nat

definition begin_panning :: "rat \<times> rat \<Rightarrow> panning \<Rightarrow> panning" where
  "begin_panning pos s =
     s\<lparr>panning_state := Some \<lparr>initial_mouse_pos = pos, initial_canvas_pos = (adj_value (hadj s), adj_value (vadj s)),
         motion_signal = next_handler s\<rparr>,
       handlers := handlers s @ [next_handler s], next_handler := Suc (next_handler s)\<rparr>"

definition end_panning :: "panning \<Rightarrow> panning" where
  "end_panning s = (case panning_state s of None \<Rightarrow> s
     | Some p \<Rightarrow> s\<lparr>panning_state := None, handlers := filter (\<lambda>h. h \<noteq> motion_signal p) (handlers s)\<rparr>)"

definition panning_motion :: "rat \<times> rat \<Rightarrow> panning \<Rightarrow> panning result" where
  "panning_motion pos s = (case panning_state s of None \<Rightarrow> Inl AssertionError
     | Some p \<Rightarrow>
         let dx = fst pos - fst (initial_mouse_pos p); dy = snd pos - snd (initial_mouse_pos p) in
         Inr (s\<lparr>hadj := set_value (fst (initial_canvas_pos p) - dx) (hadj s),
                vadj := set_value (snd (initial_canvas_pos p) - dy) (vadj s)\<rparr>))"

text \<open>A motion of the pointer runs a handler when there is one; it ends the emission unless it raises.\<close>

definition pointer_moves :: "rat \<times> rat \<Rightarrow> panning \<Rightarrow> panning result" where
  "pointer_moves pos s = (if handlers s = [] then Inr s else panning_motion pos s)"

fun canvas_button_press :: "nat \<Rightarrow> rat \<times> rat \<Rightarrow> panning \<Rightarrow> panning \<times> bool" where
  "canvas_button_press button pos s = (if button = 2 then (begin_panning pos s, True) else (s, False))"

fun canvas_button_release :: "nat \<Rightarrow> panning \<Rightarrow> panning \<times> bool" where
  "canvas_button_release button s = (if button = 2 then (end_panning s, True) else (s, False))"

definition panned :: "panning_state \<Rightarrow> rat \<times> rat \<Rightarrow> panning \<Rightarrow> panning" where
  "panned p m s = s\<lparr>hadj := set_value (fst (initial_canvas_pos p) - (fst m - fst (initial_mouse_pos p))) (hadj s),
     vadj := set_value (snd (initial_canvas_pos p) - (snd m - snd (initial_mouse_pos p))) (vadj s)\<rparr>"

lemma panned_simps [simp]:
  "panning_state (panned p m s) = panning_state s" "handlers (panned p m s) = handlers s"
  by (simp_all add: panned_def)

lemma pointer_moves_pan:
  "panning_state s = Some p \<Longrightarrow> handlers s \<noteq> [] \<Longrightarrow> pointer_moves m s = Inr (panned p m s)"
  by (simp add: pointer_moves_def panning_motion_def panned_def Let_def)

lemma moves_while_panning:
  assumes "panning_state s = Some p" "handlers s \<noteq> []" "for_each pointer_moves ms s = Inr t"
  shows "panning_state t = Some p \<and> handlers t = handlers s \<and>
    hadj t = (if ms = [] then hadj s
      else set_value (fst (initial_canvas_pos p) - (fst (last ms) - fst (initial_mouse_pos p))) (hadj s)) \<and>
    vadj t = (if ms = [] then vadj s
      else set_value (snd (initial_canvas_pos p) - (snd (last ms) - snd (initial_mouse_pos p))) (vadj s))"
  using assms
proof (induction ms arbitrary: s)
  case (Cons m ms)
  have "for_each pointer_moves ms (panned p m s) = Inr t" using Cons.prems by (simp add: pointer_moves_pan)
  from Cons.IH [OF _ _ this] show ?case using Cons.prems(1,2) by (auto simp: panned_def set_value_def)
qed simp

lemma moves_defined:
  "panning_state s = Some p \<Longrightarrow> handlers s \<noteq> [] \<Longrightarrow> \<exists>t. for_each pointer_moves ms s = Inr t"
proof (induction ms arbitrary: s)
  case (Cons m ms)
  then show ?case by (simp add: pointer_moves_pan)
qed auto

text \<open>
  A pan moves the canvas with the pointer, from where it was when the button went down, and leaves no handler
  behind.  A second press before the release does leave one, and then every later motion raises.
\<close>

theorem panning_follows_pointer:
  assumes "panning_state s = None" and "handlers s = []" and "ms \<noteq> []"
  shows "(\<exists>t. for_each pointer_moves ms (begin_panning m0 s) = Inr t \<and>
      handlers (end_panning t) = [] \<and> panning_state (end_panning t) = None \<and>
      hadj t = set_value (adj_value (hadj s) - (fst (last ms) - fst m0)) (hadj s) \<and>
      vadj t = set_value (adj_value (vadj s) - (snd (last ms) - snd m0)) (vadj s)) \<and>
    pointer_moves m (end_panning (begin_panning m1 (begin_panning m0 s))) = Inl AssertionError"
proof -
  have b: "panning_state (begin_panning m0 s) = Some \<lparr>initial_mouse_pos = m0,
      initial_canvas_pos = (adj_value (hadj s), adj_value (vadj s)), motion_signal = next_handler s\<rparr>"
    "handlers (begin_panning m0 s) = [next_handler s]" "hadj (begin_panning m0 s) = hadj s"
    "vadj (begin_panning m0 s) = vadj s"
    using assms by (simp_all add: begin_panning_def)
  obtain t where t: "for_each pointer_moves ms (begin_panning m0 s) = Inr t" using moves_defined [OF b(1)] b(2) by fastforce
  have "pointer_moves m (end_panning (begin_panning m1 (begin_panning m0 s))) = Inl AssertionError"
    using assms by (simp add: begin_panning_def end_panning_def pointer_moves_def panning_motion_def)
  then show ?thesis
    using moves_while_panning [OF b(1) _ t] b(2-4) t assms(3) by (auto simp: end_panning_def)
qed

section \<open>Dragging nodes\<close>

definition PIXELS_PER_METER :: rat where
  "PIXELS_PER_METER = 3"

definition transform_distance_simulation_to_canvas :: "rat \<Rightarrow> rat" where
  "transform_distance_simulation_to_canvas d = d * PIXELS_PER_METER"

definition transform_point_simulation_to_canvas :: "rat \<times> rat \<Rightarrow> rat \<times> rat" where
  "transform_point_simulation_to_canvas p = (fst p * PIXELS_PER_METER, snd p * PIXELS_PER_METER)"

definition transform_distance_canvas_to_simulation :: "rat \<Rightarrow> rat" where
  "transform_distance_canvas_to_simulation d = d / PIXELS_PER_METER"

definition transform_point_canvas_to_simulation :: "rat \<times> rat \<Rightarrow> rat \<times> rat" where
  "transform_point_canvas_to_simulation p = (fst p / PIXELS_PER_METER, snd p / PIXELS_PER_METER)"

record node_drag_state =
  canvas_0 :: "rat \<times> rat"
  sim_0 :: "rat \<times> rat"
  drag_signal :: nat

text \<open>
  \<open>mobility\<close> holds the positions of the nodes that have a mobility model, \<open>on_canvas\<close> those of the views, and
  \<open>node_handlers\<close> the motion handlers connected, with the node each is for.
\<close>

record dragging =
  mobility :: "(nat, rat \<times> rat) dict"
  on_canvas :: "(nat, rat \<times> rat) dict"
  node_drag_state :: "node_drag_state option"
  node_handlers :: "(nat \<times> nat) list"
  next_signal :: nat

definition begin_node_drag :: "nat \<Rightarrow> rat \<times> rat \<Rightarrow> dragging \<Rightarrow> dragging" where
  "begin_node_drag node p s =
     (case map_of (mobility s) node of None \<Rightarrow> s
      | Some pos \<Rightarrow>
          if node_drag_state s \<noteq> None then s
          else s\<lparr>node_drag_state := Some \<lparr>canvas_0 = p, sim_0 = pos, drag_signal = next_signal s\<rparr>,
                 node_handlers := (node, next_signal s) # node_handlers s, next_signal := Suc (next_signal s)\<rparr>)"

definition node_drag_motion :: "nat \<Rightarrow> rat \<times> rat \<Rightarrow> dragging \<Rightarrow> dragging \<times> bool" where
  "node_drag_motion node p s =
     (case (map_of (mobility s) node, node_drag_state s) of
        (Some pos, Some d) \<Rightarrow>
          let dx = fst p - fst (canvas_0 d); dy = snd p - snd (canvas_0 d);
              q = (fst (sim_0 d) + transform_distance_canvas_to_simulation dx,
                   snd (sim_0 d) + transform_distance_canvas_to_simulation dy)
          in (s\<lparr>mobility := AList.update node q (mobility s),
                on_canvas := AList.update node (transform_point_simulation_to_canvas q) (on_canvas s)\<rparr>, True)
      | _ \<Rightarrow> (s, False))"

definition end_node_drag :: "nat \<Rightarrow> dragging \<Rightarrow> dragging" where
  "end_node_drag node s =
     (case node_drag_state s of None \<Rightarrow> s
      | Some d \<Rightarrow> s\<lparr>node_handlers := filter (\<lambda>h. h \<noteq> (node, drag_signal d)) (node_handlers s), node_drag_state := None\<rparr>)"

definition drag_moves :: "nat \<Rightarrow> (rat \<times> rat) list \<Rightarrow> dragging \<Rightarrow> dragging" where
  "drag_moves node ps s = fold (\<lambda>p s. fst (node_drag_motion node p s)) ps s"

lemma scale_back: "(a + b / 3) * 3 = 3 * a + (b :: rat)"
  by simp

lemma drag_moves_last:
  assumes "map_of (mobility s) node = Some pos" "node_drag_state s = Some d" "ps \<noteq> []"
  shows "map_of (mobility (drag_moves node ps s)) node =
      Some (fst (sim_0 d) + (fst (last ps) - fst (canvas_0 d)) / 3, snd (sim_0 d) + (snd (last ps) - snd (canvas_0 d)) / 3) \<and>
    map_of (on_canvas (drag_moves node ps s)) node =
      Some (3 * fst (sim_0 d) + (fst (last ps) - fst (canvas_0 d)), 3 * snd (sim_0 d) + (snd (last ps) - snd (canvas_0 d))) \<and>
    node_drag_state (drag_moves node ps s) = Some d \<and> node_handlers (drag_moves node ps s) = node_handlers s \<and>
    (\<forall>k. k \<noteq> node \<longrightarrow> map_of (mobility (drag_moves node ps s)) k = map_of (mobility s) k)"
  using assms
proof (induction ps arbitrary: s pos)
  case (Cons p ps)
  obtain t b where t: "node_drag_motion node p s = (t, b)" by fastforce
  have m: "map_of (mobility t) node = Some (fst (sim_0 d) + (fst p - fst (canvas_0 d)) / 3,
      snd (sim_0 d) + (snd p - snd (canvas_0 d)) / 3)"
    and o: "map_of (on_canvas t) node = Some (3 * fst (sim_0 d) + (fst p - fst (canvas_0 d)),
      3 * snd (sim_0 d) + (snd p - snd (canvas_0 d)))"
    and d: "node_drag_state t = Some d" "node_handlers t = node_handlers s"
    and k: "\<forall>k. k \<noteq> node \<longrightarrow> map_of (mobility t) k = map_of (mobility s) k"
    using t Cons.prems(1,2)
    by (auto simp: node_drag_motion_def Let_def transform_distance_canvas_to_simulation_def
        transform_point_simulation_to_canvas_def PIXELS_PER_METER_def scale_back)
  have step: "drag_moves node (p # ps) s = drag_moves node ps t" using t by (simp add: drag_moves_def)
  show ?case
  proof (cases "ps = []")
    case True
    then have "drag_moves node (p # ps) s = t" using t by (simp add: drag_moves_def)
    then show ?thesis using m o d k True by simp
  next
    case False
    from Cons.IH [OF m d(1) False] show ?thesis using step k d False by simp
  qed
qed simp

text \<open>
  A drag moves the node on the canvas by exactly the way of the pointer and in the simulation by a third of it, moves no
  other node, and leaves neither state nor handler behind; a node without mobility cannot be dragged.
\<close>

theorem drag_moves_node:
  assumes "node_drag_state s = None" and "ps \<noteq> []" and "\<forall>h \<in> set (node_handlers s). snd h < next_signal s"
  shows "(map_of (mobility s) node = None \<longrightarrow>
      end_node_drag node (drag_moves node ps (begin_node_drag node p0 s)) = s) \<and>
    (\<forall>x y. map_of (mobility s) node = Some (x, y) \<longrightarrow>
      (let t = end_node_drag node (drag_moves node ps (begin_node_drag node p0 s)) in
        map_of (mobility t) node = Some (x + (fst (last ps) - fst p0) / 3, y + (snd (last ps) - snd p0) / 3) \<and>
        map_of (on_canvas t) node = Some (3 * x + (fst (last ps) - fst p0), 3 * y + (snd (last ps) - snd p0)) \<and>
        (\<forall>k. k \<noteq> node \<longrightarrow> map_of (mobility t) k = map_of (mobility s) k) \<and>
        node_drag_state t = None \<and> node_handlers t = node_handlers s))"
proof (intro conjI impI allI)
  assume none: "map_of (mobility s) node = None"
  have "fst (node_drag_motion node p s) = s" for p using none by (simp add: node_drag_motion_def)
  then have "drag_moves node ps s = s" by (induction ps) (auto simp: drag_moves_def)
  then show "end_node_drag node (drag_moves node ps (begin_node_drag node p0 s)) = s"
    using none assms(1) by (simp add: begin_node_drag_def end_node_drag_def)
next
  fix x y
  assume some: "map_of (mobility s) node = Some (x, y)"
  let ?d = "\<lparr>canvas_0 = p0, sim_0 = (x, y), drag_signal = next_signal s\<rparr>"
  have b: "map_of (mobility (begin_node_drag node p0 s)) node = Some (x, y)"
    "node_drag_state (begin_node_drag node p0 s) = Some ?d" "mobility (begin_node_drag node p0 s) = mobility s"
    "node_handlers (begin_node_drag node p0 s) = (node, next_signal s) # node_handlers s"
    using some assms(1) by (simp_all add: begin_node_drag_def)
  have "filter (\<lambda>h. h \<noteq> (node, next_signal s)) (node_handlers s) = node_handlers s"
    using assms(3) by (auto simp: filter_id_conv)
  then show "let t = end_node_drag node (drag_moves node ps (begin_node_drag node p0 s)) in
        map_of (mobility t) node = Some (x + (fst (last ps) - fst p0) / 3, y + (snd (last ps) - snd p0) / 3) \<and>
        map_of (on_canvas t) node = Some (3 * x + (fst (last ps) - fst p0), 3 * y + (snd (last ps) - snd p0)) \<and>
        (\<forall>k. k \<noteq> node \<longrightarrow> map_of (mobility t) k = map_of (mobility s) k) \<and>
        node_drag_state t = None \<and> node_handlers t = node_handlers s"
    using drag_moves_last [OF b(1,2) assms(2)] b(3,4) by (simp add: end_node_drag_def Let_def)
qed

section \<open>Scaling to the nodes\<close>

text \<open>
  \<open>to_px\<close> is the canvas' conversion to pixels at its current scale; after the zoom is set, the page shows its size
  over the zoom.  The result is the value \<^verbatim>\<open>zoom\<close> is set to and
  the point the canvas is scrolled to, \<open>None\<close> when the view is left alone.
\<close>

text \<open>The zoom's adjustment goes from 0.01 to 10 with a page of 1, which \<^verbatim>\<open>set_value\<close> keeps free at the upper end.\<close>

definition zoom_value :: "rat \<Rightarrow> rat" where
  "zoom_value z = max (1 / 100) (min z 9)"

definition autoscale_view :: "(rat \<times> rat \<Rightarrow> rat \<times> rat) \<Rightarrow> rat \<Rightarrow> rat \<Rightarrow> (rat \<times> rat) list \<Rightarrow> (rat \<times> (rat \<times> rat)) option" where
  "autoscale_view to_px page_w page_h ps =
     (if ps = [] then None
      else
        let min_x = Min (set (map fst ps)); min_y = Min (set (map snd ps));
            max_x = Max (set (map fst ps)); max_y = Max (set (map snd ps));
            (min_x_px, min_y_px) = to_px (min_x, min_y); (max_x_px, max_y_px) = to_px (max_x, max_y);
            new_dx = 3 / 2 * (max_x_px - min_x_px); new_dy = 3 / 2 * (max_y_px - min_y_px)
        in if new_dx = 0 \<or> new_dy = 0 then None
           else let zoom = zoom_value (min (page_w / new_dx) (page_h / new_dy));
                    width = page_w / zoom; height = page_h / zoom;
                    center_x = (min_x + max_x) / 2; center_y = (min_y + max_y) / 2
                in Some (zoom, (center_x - width / 2, center_y - height / 2)))"

text \<open>A span that the page is to show with half of it to spare is inside the page.\<close>

lemma span_fits:
  assumes "lo \<le> x" "x \<le> hi" "lo < hi" "0 < z" "z \<le> page / (3 / 2 * (hi - lo))" "0 < page"
  shows "(lo + hi) / 2 - page / z / 2 \<le> x \<and> x \<le> (lo + hi) / 2 - page / z / 2 + page / (z :: rat)"
proof -
  have "z * (3 / 2 * (hi - lo)) \<le> page" using assms(3,5) by (simp add: field_simps)
  then have w: "3 / 2 * (hi - lo) \<le> page / z" using assms(4) by (simp add: field_simps)
  define width where "width = page / z"
  have "3 / 2 * hi - 3 / 2 * lo \<le> width" using w by (simp add: width_def algebra_simps)
  then show ?thesis unfolding width_def [symmetric] using assms(1-3) by (simp add: field_simps)
qed

text \<open>
  At full scale, scaling shows every node inside the window, unless the zoom is at its lower limit.
\<close>

theorem autoscale_shows_all:
  assumes "autoscale_view (\<lambda>(x, y). (x - bx, y - by)) page_w page_h ps = Some (zoom, (sx, sy))"
    and "0 < page_w" and "0 < page_h" and "1 / 100 < zoom" and "(x, y) \<in> set ps"
  shows "sx \<le> x \<and> x \<le> sx + page_w / zoom \<and> sy \<le> y \<and> y \<le> sy + page_h / zoom \<and> zoom \<le> 9"
proof -
  let ?a = "Min (set (map fst ps))" and ?b = "Max (set (map fst ps))"
  let ?c = "Min (set (map snd ps))" and ?d = "Max (set (map snd ps))"
  have ne: "ps \<noteq> []" using assms(5) by auto
  have "x \<in> set (map fst ps)" "y \<in> set (map snd ps)" using assms(5) by force+
  then have xs: "?a \<le> x" "x \<le> ?b" and ys: "?c \<le> y" "y \<le> ?d" by auto
  have d: "?b - ?a \<noteq> 0" "?d - ?c \<noteq> 0"
    and z: "zoom = zoom_value (min (page_w / (3 / 2 * (?b - ?a))) (page_h / (3 / 2 * (?d - ?c))))"
    and l: "sx = (?a + ?b) / 2 - page_w / zoom / 2" and t: "sy = (?c + ?d) / 2 - page_h / zoom / 2"
    using assms(1) ne by (auto simp: autoscale_view_def Let_def split: if_splits)
  have lt: "?a < ?b" "?c < ?d" using d xs ys by linarith+
  have "zoom \<le> page_w / (3 / 2 * (?b - ?a))" "zoom \<le> page_h / (3 / 2 * (?d - ?c))" "zoom \<le> 9"
    using z assms(4) unfolding zoom_value_def by linarith+
  then show ?thesis
    using span_fits [OF xs lt(1), of zoom page_w] span_fits [OF ys lt(2), of zoom page_h] assms(2-4) l t by simp
qed

section \<open>Witnesses\<close>

theorem sample_window_witness:
  "last_transmissions (fold (\<lambda>(t, d). do_simulation_periodic_update (1 / 5) t d)
    [([\<lparr>transmitter = 0, receiver = 1, tx_bytes = 5\<rparr>], []), ([], []), ([], [])]
    \<lparr>last_transmissions = [], last_drops = []\<rparr>) = [[], []]"
  using conjunct1 [OF sample_window [of "[([\<lparr>transmitter = 0, receiver = 1, tx_bytes = 5\<rparr>], []), ([], []), ([], [])]"
      "1 / 5" "\<lparr>last_transmissions = [], last_drops = []\<rparr>"]]
  by (simp add: last_of_def)

definition empty_pool :: arrow_pool where
  "empty_pool = \<lparr>arrows = [], visible = {}, lines_drawn = [], next_item = 0\<rparr>"

theorem transmissions_drawn_witness:
  "\<exists>ns' p'. update_transmissions_view (1 / 10) 1 [[\<lparr>transmitter = 0, receiver = 1, tx_bytes = 5\<rparr>]] ([], empty_pool) =
     (Inr (), (ns', p')) \<and> length (arrows p') = 1"
  using transmissions_drawn [of "[[\<lparr>transmitter = 0, receiver = 1, tx_bytes = 5\<rparr>]]" empty_pool "1 / 10" 1 "[]"]
  by (fastforce simp: empty_pool_def pool_ok_def transmissions_average_def add_bytes_def)

theorem empty_transmission_leaks_witness:
  "\<exists>r s. update_transmissions_view (1 / 10) 1 [[\<lparr>transmitter = 0, receiver = 1, tx_bytes = 0\<rparr>]] ([], empty_pool) = (r, s) \<and>
     r = Inl ValueError"
proof -
  obtain r ns' p' where u: "update_transmissions_view (1 / 10) 1 [[\<lparr>transmitter = 0, receiver = 1, tx_bytes = 0\<rparr>]]
      ([], empty_pool) = (r, (ns', p'))" by (metis prod.exhaust)
  have "((0, 1), (0, 1)) \<in> set (transmissions_average [[\<lparr>transmitter = 0, receiver = 1, tx_bytes = 0\<rparr>]])"
    by (simp add: transmissions_average_def add_bytes_def)
  from empty_transmission_leaks [OF this _ u] u show ?thesis by (simp add: empty_pool_def pool_ok_def)
qed

definition still :: panning where
  "still = \<lparr>panning_state = None, hadj = \<lparr>adj_value = 5, adj_lower = 0, adj_upper = 20, adj_page = 10\<rparr>,
     vadj = \<lparr>adj_value = 0, adj_lower = 0, adj_upper = 20, adj_page = 10\<rparr>, handlers = [], next_handler = 0\<rparr>"

theorem panning_follows_pointer_witness:
  "\<exists>t. for_each pointer_moves [(3, 0), (4, 0)] (begin_panning (1, 0) still) = Inr t \<and> adj_value (hadj t) = 2"
  using conjunct1 [OF panning_follows_pointer [of still "[(3, 0), (4, 0)]" "(1, 0)" "(0, 0)" "(0, 0)"]]
  by (fastforce simp: still_def set_value_def)

definition one_node :: dragging where
  "one_node = \<lparr>mobility = [(7, (1, 2))], on_canvas = [(7, (3, 6))], node_drag_state = None, node_handlers = [],
     next_signal = 0\<rparr>"

theorem drag_moves_node_witness:
  "map_of (mobility (end_node_drag 7 (drag_moves 7 [(6, 0)] (begin_node_drag 7 (0, 0) one_node)))) 7 = Some (3, 2)"
  using drag_moves_node [of one_node "[(6, 0)]" 7 "(0, 0)"] by (simp add: one_node_def Let_def)

theorem autoscale_shows_all_witness:
  "autoscale_view (\<lambda>(x, y). (x - 0, y - 0)) 300 300 [(0, 0), (100, 100)] = Some (2, (- 25, - 25)) \<and>
   (100::rat) \<le> - 25 + 300 / 2"
proof -
  have a: "autoscale_view (\<lambda>(x, y). (x - 0, y - 0)) 300 300 [(0, 0), (100, 100)] = Some (2, (- 25, - 25))"
    by (simp add: autoscale_view_def zoom_value_def Let_def)
  then show ?thesis using autoscale_shows_all [OF a, of 100 100] by simp
qed

end
