(* ===== verification/Viz_Scene.thy ===== *)
theory Viz_Scene
  imports Py_Prelude "HOL-Library.Word"
begin

text \<open>
  What the visualizer window is made of: the look of nodes (class \<^verbatim>\<open>Node\<close> of \<^verbatim>\<open>visualizer/core.py\<close>), the images behind
  them (\<^verbatim>\<open>svgitem.py\<close>), the axes (\<^verbatim>\<open>hud.py\<close>), and the plugins and device traits (\<^verbatim>\<open>base.py\<close>).
\<close>

unbundle bit_operations_syntax

section \<open>Images\<close>

text \<open>An image with its natural size (\<open>handle_width\<close>, \<open>handle_height\<close>), the sizes asked for, and the size in use.\<close>

record svg_item =
  svg_x :: rat
  svg_y :: rat
  scale_x :: rat
  scale_y :: rat
  handle_width :: rat
  handle_height :: rat
  svg_width :: rat
  svg_height :: rat
  custom_width :: "rat option"
  custom_height :: "rat option"

definition new_svg_item :: "rat \<Rightarrow> rat \<Rightarrow> rat \<times> rat \<Rightarrow> svg_item" where
  "new_svg_item x y h = \<lparr>svg_x = x, svg_y = y, scale_x = 1, scale_y = 1, handle_width = fst h, handle_height = snd h,
     svg_width = fst h, svg_height = snd h, custom_width = None, custom_height = None\<rparr>"

definition size_changed :: "svg_item \<Rightarrow> svg_item" where
  "size_changed s =
     (case (custom_width s, custom_height s) of
        (None, None) \<Rightarrow>
          s\<lparr>svg_width := handle_width s, svg_height := handle_height s, scale_x := 1, scale_y := 1\<rparr>
      | (Some w, None) \<Rightarrow>
          let sx = w / handle_width s in
          s\<lparr>svg_width := w, scale_x := sx, scale_y := sx, svg_height := handle_height s * sx\<rparr>
      | (None, Some h) \<Rightarrow>
          let sy = h / handle_height s in
          s\<lparr>svg_height := h, scale_y := sy, scale_x := sy, svg_width := handle_width s * sy\<rparr>
      | (Some w, Some h) \<Rightarrow>
          s\<lparr>svg_width := w, svg_height := h, scale_x := w / handle_width s, scale_y := h / handle_height s\<rparr>)"

datatype svg_property = Prop_x | Prop_y | Prop_width | Prop_height | Prop_other

fun svg_set_property :: "svg_property \<Rightarrow> rat \<Rightarrow> svg_item \<Rightarrow> svg_item result" where
  "svg_set_property Prop_x v s = Inr (s\<lparr>svg_x := v\<rparr>)"
| "svg_set_property Prop_y v s = Inr (s\<lparr>svg_y := v\<rparr>)"
| "svg_set_property Prop_width v s = Inr (size_changed (s\<lparr>custom_width := Some v\<rparr>))"
| "svg_set_property Prop_height v s = Inr (size_changed (s\<lparr>custom_height := Some v\<rparr>))"
| "svg_set_property Prop_other v s = Inl AttributeError"

text \<open>Reading the width sets the size in use back to the natural one.\<close>

fun svg_get_property :: "svg_property \<Rightarrow> svg_item \<Rightarrow> (rat \<times> svg_item) result" where
  "svg_get_property Prop_x s = Inr (svg_x s, s)"
| "svg_get_property Prop_y s = Inr (svg_y s, s)"
| "svg_get_property Prop_width s =
     (let s' = s\<lparr>svg_width := handle_width s, svg_height := handle_height s\<rparr> in Inr (svg_width s', s'))"
| "svg_get_property Prop_height s = Inr (svg_height s, s)"
| "svg_get_property Prop_other s = Inl AttributeError"

definition svg_bounds :: "svg_item \<Rightarrow> rat \<times> rat \<times> rat \<times> rat" where
  "svg_bounds s = (svg_x s, svg_y s, svg_x s + svg_width s, svg_y s + svg_height s)"

definition svg_is_item_at :: "rat \<Rightarrow> rat \<Rightarrow> svg_item \<Rightarrow> bool" where
  "svg_is_item_at x y s =
     (if (x < svg_x s \<or> x > svg_x s + svg_width s) \<or> (y < svg_y s \<or> y > svg_y s + svg_height s) then False else True)"

section \<open>Nodes\<close>

text \<open>
  A node: what it is to look like, and the canvas items as they were last set: the ellipse, and the label's
  text and place when there is one.
\<close>

record vnode =
  node_size :: rat
  node_color :: "32 word"
  is_selected :: bool
  is_highlighted :: bool
  node_label :: "string option"
  node_svg :: "svg_item option"
  svg_align :: "rat \<times> rat"
  node_center :: "rat \<times> rat"
  ellipse_radius :: rat
  ellipse_fill :: "32 word"
  ellipse_line :: rat
  ellipse_yellow :: bool
  label_item :: "(string \<times> (rat \<times> rat)) option"
  canvas_bounds :: "rat \<times> rat \<times> rat \<times> rat"

definition grow_bounds :: "rat \<times> rat \<Rightarrow> rat \<times> rat \<times> rat \<times> rat \<Rightarrow> rat \<times> rat \<times> rat \<times> rat" where
  "grow_bounds p b = (case b of (min_x, min_y, max_x, max_y) \<Rightarrow>
     (min (fst p) min_x, min (snd p) min_y, max (fst p) max_x, max (snd p) max_y))"

definition update_svg_position :: "rat \<times> rat \<Rightarrow> vnode \<Rightarrow> vnode" where
  "update_svg_position p n = (case node_svg n of None \<Rightarrow> n
     | Some s \<Rightarrow> n\<lparr>node_svg := Some (s\<lparr>svg_x := fst p - (1 - fst (svg_align n)) * svg_width s,
         svg_y := snd p - (1 - snd (svg_align n)) * svg_height s\<rparr>)\<rparr>)"

definition set_position :: "rat \<times> rat \<Rightarrow> vnode \<Rightarrow> vnode" where
  "set_position p n =
     (let n1 = update_svg_position p (n\<lparr>node_center := p\<rparr>);
          n2 = (case label_item n1 of None \<Rightarrow> n1
                | Some (lbl, q) \<Rightarrow> n1\<lparr>label_item := Some (lbl, (fst p, snd p + node_size n * 3))\<rparr>)
      in n2\<lparr>canvas_bounds := grow_bounds p (canvas_bounds n2)\<rparr>)"

definition update_appearance :: "vnode \<Rightarrow> vnode" where
  "update_appearance n =
     (let r = node_size n * 3; alpha = (if node_svg n \<noteq> None then 0x80 else 0xff);
          n1 = n\<lparr>ellipse_radius := r, ellipse_fill := (node_color n AND 0xffffff00) OR alpha,
                 ellipse_line := (if is_selected n then r * (3 / 10) else r * (15 / 100)),
                 ellipse_yellow := is_highlighted n\<rparr>
      in case node_label n of
           None \<Rightarrow> n1
         | Some lbl \<Rightarrow>
             set_position (node_center n1) (n1\<lparr>label_item :=
               Some (lbl, case label_item n1 of None \<Rightarrow> (0, 0) | Some (t, q) \<Rightarrow> q)\<rparr>))"

definition new_node :: "rat \<times> rat \<times> rat \<times> rat \<Rightarrow> vnode" where
  "new_node b = update_appearance \<lparr>node_size = 1, node_color = 0x808080ff, is_selected = False, is_highlighted = False,
     node_label = None, node_svg = None, svg_align = (0, 0), node_center = (0, 0), ellipse_radius = 0, ellipse_fill = 0,
     ellipse_line = 0, ellipse_yellow = False, label_item = None, canvas_bounds = b\<rparr>"

text \<open>A color is given as a number, or by a name that the toolkit resolves to three 16 bit components.\<close>

definition rgb_color :: "16 word \<Rightarrow> 16 word \<Rightarrow> 16 word \<Rightarrow> 32 word" where
  "rgb_color r g b = push_bit 24 (ucast (drop_bit 8 r)) OR push_bit 16 (ucast (drop_bit 8 g)) OR
     push_bit 8 (ucast (drop_bit 8 b)) OR 0xff"

definition set_color :: "32 word \<Rightarrow> vnode \<Rightarrow> vnode" where
  "set_color c n = update_appearance (n\<lparr>node_color := c\<rparr>)"

definition set_size :: "rat \<Rightarrow> vnode \<Rightarrow> vnode" where
  "set_size v n = update_appearance (n\<lparr>node_size := v\<rparr>)"

definition set_selected :: "bool \<Rightarrow> vnode \<Rightarrow> vnode" where
  "set_selected b n = update_appearance (n\<lparr>is_selected := b\<rparr>)"

definition set_highlighted :: "bool \<Rightarrow> vnode \<Rightarrow> vnode" where
  "set_highlighted b n = update_appearance (n\<lparr>is_highlighted := b\<rparr>)"

text \<open>\<^verbatim>\<open>basestring\<close> is a name of Python 2 only.\<close>

definition set_label :: "bool \<Rightarrow> string \<Rightarrow> vnode \<Rightarrow> vnode result" where
  "set_label python3 lbl n = (if python3 then Inl NameError else Inr (update_appearance (n\<lparr>node_label := Some lbl\<rparr>)))"

text \<open>\<open>handle\<close> is the natural size of the image, \<open>None\<close> when the module for images could not be imported.\<close>

definition set_svg_icon ::
    "(rat \<times> rat) option \<Rightarrow> rat option \<Rightarrow> rat option \<Rightarrow> rat \<times> rat \<Rightarrow> vnode \<Rightarrow> vnode result" where
  "set_svg_icon handle w h align n =
     (if w = None \<and> h = None then Inl ValueError
      else case handle of None \<Rightarrow> Inl AttributeError
      | Some nat_size \<Rightarrow>
          let s0 = new_svg_item (fst (node_center n)) (snd (node_center n)) nat_size;
              s1 = (case w of None \<Rightarrow> s0 | Some v \<Rightarrow> size_changed (s0\<lparr>custom_width := Some (v * 3)\<rparr>));
              s2 = (case h of None \<Rightarrow> s1 | Some v \<Rightarrow> size_changed (s1\<lparr>custom_height := Some (v * 3)\<rparr>))
          in Inr (update_appearance (update_svg_position (node_center n) (n\<lparr>node_svg := Some s2, svg_align := align\<rparr>))))"

section \<open>Images keep their scale\<close>

definition svg_ok :: "svg_item \<Rightarrow> bool" where
  "svg_ok s \<longleftrightarrow> 0 < handle_width s \<and> 0 < handle_height s \<and>
     svg_width s = scale_x s * handle_width s \<and> svg_height s = scale_y s * handle_height s \<and>
     (custom_width s = None \<or> custom_height s = None \<longrightarrow> scale_x s = scale_y s) \<and>
     (\<forall>w. custom_width s = Some w \<longrightarrow> svg_width s = w) \<and> (\<forall>h. custom_height s = Some h \<longrightarrow> svg_height s = h)"

lemma size_changed_ok: "0 < handle_width s \<Longrightarrow> 0 < handle_height s \<Longrightarrow> svg_ok (size_changed s)"
  by (cases "custom_width s"; cases "custom_height s") (simp_all add: svg_ok_def size_changed_def Let_def)

lemma svg_set_property_ok: "svg_set_property p v s = Inr t \<Longrightarrow> svg_ok s \<Longrightarrow> svg_ok t"
proof (cases p)
  case Prop_width
  assume "svg_set_property p v s = Inr t" "svg_ok s"
  with Prop_width show ?thesis using size_changed_ok [of "s\<lparr>custom_width := Some v\<rparr>"] by (auto simp: svg_ok_def)
next
  case Prop_height
  assume "svg_set_property p v s = Inr t" "svg_ok s"
  with Prop_height show ?thesis using size_changed_ok [of "s\<lparr>custom_height := Some v\<rparr>"] by (auto simp: svg_ok_def)
qed (auto simp: svg_ok_def)

lemma new_svg_ok: "0 < fst h \<Longrightarrow> 0 < snd h \<Longrightarrow> svg_ok (new_svg_item x y h)"
  by (simp add: svg_ok_def new_svg_item_def)

text \<open>
  However the properties of an image are set, it is painted in the size it is said to have: its size is its natural size
  times the scale, and with one of the two sizes given the proportions are kept.
\<close>

theorem svg_scale_kept:
  assumes "for_each (\<lambda>(p, v). svg_set_property p v) es (new_svg_item x y h) = Inr s" and "0 < fst h" and "0 < snd h"
  shows "svg_width s = scale_x s * fst h \<and> svg_height s = scale_y s * snd h \<and>
    (custom_width s = None \<or> custom_height s = None \<longrightarrow> svg_width s * snd h = svg_height s * fst h)"
proof -
  let ?P = "\<lambda>s. svg_ok s \<and> handle_width s = fst h \<and> handle_height s = snd h"
  have keep: "handle_width t = handle_width s \<and> handle_height t = handle_height s" if "svg_set_property p v s = Inr t" for p v s t
    using that by (cases p; cases "custom_width s"; cases "custom_height s") (auto simp: size_changed_def Let_def)
  have "?P s"
  proof (rule for_each_inv [OF assms(1)])
    show "?P (new_svg_item x y h)" using new_svg_ok assms(2,3) by (simp add: new_svg_item_def)
    show "?P s'" if r: "?P r" and step: "(case e of (p, v) \<Rightarrow> svg_set_property p v) r = Inr s'" for e r s'
    proof -
      obtain p v where e: "svg_set_property p v r = Inr s'" using step by (cases e) auto
      show ?thesis using keep [OF e] svg_set_property_ok [OF e] r by auto
    qed
  qed
  then show ?thesis by (auto simp: svg_ok_def)
qed

theorem svg_scale_kept_witness:
  "svg_width (size_changed ((new_svg_item 0 0 (20, 10))\<lparr>custom_width := Some 60\<rparr>)) * 10 =
   svg_height (size_changed ((new_svg_item 0 0 (20, 10))\<lparr>custom_width := Some 60\<rparr>)) * 20"
  using svg_scale_kept [of "[(Prop_width, 60)]" 0 0 "(20, 10)"
      "size_changed ((new_svg_item 0 0 (20, 10))\<lparr>custom_width := Some 60\<rparr>)"]
  by (simp add: new_svg_item_def size_changed_def)

text \<open>Reading the width of a scaled image breaks this: the size is then the natural one and the scale stays.\<close>

lemma svg_read_width_resets:
  "svg_ok s \<Longrightarrow> scale_x s \<noteq> 1 \<Longrightarrow> svg_get_property Prop_width s = Inr (v, t) \<Longrightarrow>
   v = handle_width s \<and> svg_width t \<noteq> scale_x t * handle_width t"
  by (auto simp: svg_ok_def Let_def)

section \<open>Nodes look like what they are\<close>

definition look_ok :: "vnode \<Rightarrow> bool" where
  "look_ok n \<longleftrightarrow> ellipse_radius n = node_size n * 3 \<and>
     ellipse_fill n = (node_color n AND 0xffffff00) OR (if node_svg n \<noteq> None then 0x80 else 0xff) \<and>
     ellipse_line n = ellipse_radius n * (if is_selected n then 3 / 10 else 15 / 100) \<and>
     ellipse_yellow n = is_highlighted n \<and>
     label_item n = (case node_label n of None \<Rightarrow> None
       | Some lbl \<Rightarrow> Some (lbl, (fst (node_center n), snd (node_center n) + node_size n * 3))) \<and>
     (\<forall>s. node_svg n = Some s \<longrightarrow> svg_x s = fst (node_center n) - (1 - fst (svg_align n)) * svg_width s \<and>
        svg_y s = snd (node_center n) - (1 - snd (svg_align n)) * svg_height s)"

text \<open>What may be out of date before the look is updated: everything but the places of the image and the absent label.\<close>

definition svg_placed :: "vnode \<Rightarrow> bool" where
  "svg_placed n \<longleftrightarrow> (node_label n = None \<longrightarrow> label_item n = None) \<and>
     (\<forall>s. node_svg n = Some s \<longrightarrow> svg_x s = fst (node_center n) - (1 - fst (svg_align n)) * svg_width s \<and>
        svg_y s = snd (node_center n) - (1 - snd (svg_align n)) * svg_height s)"

lemma look_placed: "look_ok n \<Longrightarrow> svg_placed n"
  by (auto simp: look_ok_def svg_placed_def)

lemma update_appearance_ok:
  assumes "svg_placed n"
  shows "look_ok (update_appearance n)"
proof (cases "node_label n")
  case None
  with assms show ?thesis by (auto simp: update_appearance_def Let_def look_ok_def svg_placed_def)
next
  case (Some lbl)
  then show ?thesis
    by (cases "node_svg n") (simp_all add: update_appearance_def Let_def set_position_def update_svg_position_def look_ok_def)
qed

lemma set_position_ok: "look_ok n \<Longrightarrow> look_ok (set_position p n)"
  by (cases "node_label n"; cases "node_svg n")
    (simp_all add: set_position_def update_svg_position_def look_ok_def Let_def)

lemma placed_change:
  "look_ok n \<Longrightarrow> svg_placed (n\<lparr>node_color := c\<rparr>)" "look_ok n \<Longrightarrow> svg_placed (n\<lparr>node_size := v\<rparr>)"
  "look_ok n \<Longrightarrow> svg_placed (n\<lparr>is_selected := b\<rparr>)" "look_ok n \<Longrightarrow> svg_placed (n\<lparr>is_highlighted := b\<rparr>)"
  "look_ok n \<Longrightarrow> svg_placed (n\<lparr>node_label := Some lbl\<rparr>)"
  by (auto simp: look_ok_def svg_placed_def)

lemma set_svg_icon_ok:
  assumes "set_svg_icon handle w h align n = Inr m" "look_ok n"
  shows "look_ok m"
proof -
  obtain s where "m = update_appearance (update_svg_position (node_center n) (n\<lparr>node_svg := Some s, svg_align := align\<rparr>))"
    using assms(1) by (auto simp: set_svg_icon_def Let_def split: if_splits option.splits)
  moreover have "svg_placed (update_svg_position (node_center n) (n\<lparr>node_svg := Some s, svg_align := align\<rparr>))"
    using assms(2) by (auto simp: svg_placed_def update_svg_position_def look_ok_def)
  ultimately show ?thesis using update_appearance_ok by simp
qed

text \<open>The operations on a node, as events.\<close>

datatype node_event =
    Set_color "32 word" | Set_size rat | Set_selected bool | Set_highlighted bool | Set_label string
  | Set_position "rat \<times> rat" | Set_svg_icon "(rat \<times> rat) option" "rat option" "rat option" "rat \<times> rat"

fun change_node :: "bool \<Rightarrow> node_event \<Rightarrow> vnode \<Rightarrow> vnode result" where
  "change_node py3 (Set_color c) n = Inr (set_color c n)"
| "change_node py3 (Set_size v) n = Inr (set_size v n)"
| "change_node py3 (Set_selected b) n = Inr (set_selected b n)"
| "change_node py3 (Set_highlighted b) n = Inr (set_highlighted b n)"
| "change_node py3 (Set_label lbl) n = set_label py3 lbl n"
| "change_node py3 (Set_position p) n = Inr (set_position p n)"
| "change_node py3 (Set_svg_icon h w v align) n = set_svg_icon h w v align n"

lemma node_event_ok: "change_node py3 e n = Inr m \<Longrightarrow> look_ok n \<Longrightarrow> look_ok m"
  by (cases e) (auto simp: set_color_def set_size_def set_selected_def set_highlighted_def set_label_def
      update_appearance_ok placed_change set_position_ok set_svg_icon_ok split: if_splits)

lemma new_node_ok: "look_ok (new_node b)"
  unfolding new_node_def by (rule update_appearance_ok) (simp add: svg_placed_def)

text \<open>
  After any operations on a node its canvas items show its state: size, color with the alpha of the image, thickness
  for selection, yellow for the pointer, label and image in their places.
\<close>

theorem node_looks:
  assumes "for_each (change_node py3) es (new_node b) = Inr n"
  shows "ellipse_radius n = node_size n * 3 \<and>
     ellipse_fill n = (node_color n AND 0xffffff00) OR (if node_svg n \<noteq> None then 0x80 else 0xff) \<and>
     ellipse_line n = ellipse_radius n * (if is_selected n then 3 / 10 else 15 / 100) \<and>
     ellipse_yellow n = is_highlighted n \<and>
     label_item n = (case node_label n of None \<Rightarrow> None
       | Some lbl \<Rightarrow> Some (lbl, (fst (node_center n), snd (node_center n) + node_size n * 3)))"
proof -
  have "look_ok n" by (rule for_each_inv [OF assms, where P = look_ok]) (blast intro: new_node_ok node_event_ok)+
  then show ?thesis by (simp add: look_ok_def)
qed

text \<open>The fill color keeps the three colors and replaces the alpha.\<close>

lemma fill_color_parts:
  "drop_bit 8 (((c :: 32 word) AND 0xffffff00) OR a) = drop_bit 8 c OR drop_bit 8 a"
  "((c AND 0xffffff00) OR a) AND 0xff = a AND 0xff"
proof -
  have m: "(0xffffff00 :: 32 word) = NOT (mask 8)" "(0xff :: 32 word) = mask 8" by (simp_all add: mask_eq_exp_minus_1)
  show "drop_bit 8 ((c AND 0xffffff00) OR a) = drop_bit 8 c OR drop_bit 8 a"
    unfolding m by (rule bit_eqI) (auto simp: bit_simps dest: bit_imp_le_length)
  show "((c AND 0xffffff00) OR a) AND 0xff = a AND 0xff"
    unfolding m by (rule bit_eqI) (auto simp: bit_simps)
qed

theorem node_looks_witness:
  "ellipse_fill (set_color 0x11223344 (new_node (0, 0, 1, 1))) = 0x112233ff"
proof -
  have "for_each (change_node True) [Set_color 0x11223344] (new_node (0, 0, 1, 1)) =
      Inr (set_color 0x11223344 (new_node (0, 0, 1, 1)))" by simp
  from node_looks [OF this] show ?thesis
    by (simp add: set_color_def update_appearance_def new_node_def Let_def)
qed

section \<open>Device traits and plugins\<close>

record net_traits =
  is_wireless :: "bool option"
  is_virtual :: bool

definition new_traits :: "bool option \<Rightarrow> bool \<Rightarrow> net_traits result" where
  "new_traits wireless virt =
     (if virt \<or> wireless \<noteq> None then Inr \<lparr>is_wireless = wireless, is_virtual = virt\<rparr> else Inl AssertionError)"

definition netdevice_traits :: "(string, net_traits) dict" where
  "netdevice_traits =
    [(''PointToPointNetDevice'', \<lparr>is_wireless = Some False, is_virtual = False\<rparr>),
     (''CsmaNetDevice'', \<lparr>is_wireless = Some False, is_virtual = False\<rparr>),
     (''WifiNetDevice'', \<lparr>is_wireless = Some True, is_virtual = False\<rparr>),
     (''BridgeNetDevice'', \<lparr>is_wireless = None, is_virtual = True\<rparr>),
     (''LoopbackNetDevice'', \<lparr>is_wireless = Some False, is_virtual = True\<rparr>),
     (''MeshPointDevice'', \<lparr>is_wireless = None, is_virtual = True\<rparr>),
     (''SubscriberStationNetDevice'', \<lparr>is_wireless = Some True, is_virtual = False\<rparr>),
     (''BaseStationNetDevice'', \<lparr>is_wireless = Some True, is_virtual = False\<rparr>),
     (''LteUeNetDevice'', \<lparr>is_wireless = Some True, is_virtual = False\<rparr>),
     (''LteEnbNetDevice'', \<lparr>is_wireless = Some True, is_virtual = False\<rparr>)]"

text \<open>The table and the device types warned about; an unknown type is entered as wireless.\<close>

type_synonym traits_table = "(string, net_traits) dict \<times> string list"

definition lookup_netdevice_traits :: "string \<Rightarrow> traits_table \<Rightarrow> net_traits \<times> traits_table" where
  "lookup_netdevice_traits ty s = (case s of (table, warned) \<Rightarrow>
     (case map_of table ty of
        Some t \<Rightarrow> (t, s)
      | None \<Rightarrow>
          let t = \<lparr>is_wireless = Some True, is_virtual = False\<rparr> in (t, (AList.update ty t table, warned @ [ty]))))"

record plugins =
  plugin_list :: "string list"
  plugin_modules :: "(string, string) dict"
  plugins_loaded :: bool
  sys_path :: "string list"
  complaints :: "string list"

text \<open>\<open>os.path.splitext\<close> of a file name: the last dot starts the extension, unless only dots come before it.\<close>

definition splitext :: "string \<Rightarrow> string \<times> string" where
  "splitext name =
     (let ext = rev (takeWhile (\<lambda>c. c \<noteq> CHR ''.'') (rev name));
          stem = butlast (take (length name - length ext) name)
      in if CHR ''.'' \<notin> set name \<or> (\<forall>c \<in> set stem. c = CHR ''.'') then (name, '''') else (stem, CHR ''.'' # ext))"

text \<open>What the import of a plugin gives: a failure, or a module with or without a function \<^verbatim>\<open>register\<close>.\<close>

datatype plugin_import = Import_error | Module bool

definition register_plugin :: "string \<Rightarrow> plugins \<Rightarrow> plugins" where
  "register_plugin name s =
     s\<lparr>plugin_list := plugin_list s @ [name], plugin_modules := AList.update name name (plugin_modules s)\<rparr>"

definition load_plugin :: "(string \<Rightarrow> plugin_import) \<Rightarrow> string \<Rightarrow> plugins \<Rightarrow> plugins" where
  "load_plugin import_module filename s =
     (case splitext filename of (name, ext) \<Rightarrow>
        if ext \<noteq> ''.py'' then s
        else case import_module name of
            Import_error \<Rightarrow> s\<lparr>complaints := complaints s @ [filename]\<rparr>
          | Module False \<Rightarrow> s\<lparr>complaints := complaints s @ [name]\<rparr>
          | Module True \<Rightarrow> register_plugin name s)"

definition load_plugins :: "(string \<Rightarrow> plugin_import) \<Rightarrow> string \<Rightarrow> string list \<Rightarrow> plugins \<Rightarrow> plugins" where
  "load_plugins import_module plugins_dir files s =
     (if plugins_loaded s then s
      else let old_path = sys_path s;
               s1 = s\<lparr>plugins_loaded := True, sys_path := plugins_dir # sys_path s\<rparr>
           in (fold (load_plugin import_module) files s1)\<lparr>sys_path := old_path\<rparr>)"

lemma load_plugin_simps [simp]:
  "plugins_loaded (load_plugin imp f s) = plugins_loaded s"
  "plugin_list (load_plugin imp f s) = plugin_list s @
     (case splitext f of (name, ext) \<Rightarrow> if ext = ''.py'' \<and> imp name = Module True then [name] else [])"
  by (auto simp: load_plugin_def register_plugin_def split: prod.split plugin_import.split bool.split)

lemma load_plugin_fold:
  "plugins_loaded (fold (load_plugin imp) files s) = plugins_loaded s \<and>
   plugin_list (fold (load_plugin imp) files s) = plugin_list s @
     map (fst \<circ> splitext) (filter (\<lambda>f. snd (splitext f) = ''.py'' \<and> imp (fst (splitext f)) = Module True) files)"
  by (induction files arbitrary: s) (auto simp: case_prod_unfold)

text \<open>
  Loading registers the Python files that can be imported and have a \<^verbatim>\<open>register\<close> function, in the order of the directory,
  leaves the path of modules as it was, and a second call does nothing.
\<close>

theorem plugins_loaded_once:
  assumes "\<not> plugins_loaded s"
  shows "plugin_list (load_plugins imp dir files s) = plugin_list s @
      map (fst \<circ> splitext) (filter (\<lambda>f. snd (splitext f) = ''.py'' \<and> imp (fst (splitext f)) = Module True) files) \<and>
    sys_path (load_plugins imp dir files s) = sys_path s \<and>
    load_plugins imp2 dir2 files2 (load_plugins imp dir files s) = load_plugins imp dir files s"
  using assms by (simp add: load_plugins_def Let_def load_plugin_fold)

theorem plugins_loaded_once_witness:
  "plugin_list (load_plugins (\<lambda>n. if n = ''olsr'' then Module True else Import_error) ''plugins'' [''a.pyc'', ''olsr.py'', ''x.py'']
     \<lparr>plugin_list = [], plugin_modules = [], plugins_loaded = False, sys_path = [], complaints = []\<rparr>) = [''olsr'']"
  using plugins_loaded_once [of "\<lparr>plugin_list = [], plugin_modules = [], plugins_loaded = False, sys_path = [],
      complaints = []\<rparr>" "\<lambda>n. if n = ''olsr'' then Module True else Import_error" "''plugins''" "[''a.pyc'', ''olsr.py'', ''x.py'']"]
  by (simp add: splitext_def Let_def)

section \<open>The axes\<close>

definition rint :: "real \<Rightarrow> real" where
  "rint x = of_int \<lfloor>x + 1 / 2\<rfloor>"

text \<open>One round of the search for a division: \<open>d\<close> is the length a fifth of the axis has.\<close>

definition division_of :: "real \<Rightarrow> real" where
  "division_of d =
     (let dv = 10 powr rint (log 10 d) in
      if \<bar>dv / 2 - d\<bar> < \<bar>dv - d\<bar> then dv / 2 else if \<bar>dv * 2 - d\<bar> < \<bar>dv - d\<bar> then dv * 2 else dv)"

text \<open>The state of the loop: the number of divisions, the first place and the division.\<close>

definition division_round :: "real \<Rightarrow> real \<Rightarrow> real \<Rightarrow> nat \<Rightarrow> real \<times> real \<times> real \<Rightarrow> real \<times> real \<times> real" where
  "division_round xi dx d n = (\<lambda>(ndiv, _).
     let dv = division_of d; x0 = dv * of_int \<lceil>xi / dv\<rceil> - dv;
         text_width = dx / 5 / 2; ndiv' = (if n > 1 then rint (dx / text_width) else ndiv)
     in (ndiv', x0, dv))"

definition compute_divisions :: "real \<Rightarrow> real \<Rightarrow> (real \<times> real) result" where
  "compute_divisions xi xf =
     (if \<not> xi < xf then Inl AssertionError
      else let dx = xf - xi; d = dx / 5 in
           case fold (division_round xi dx d) [0..<5] (5, 0, 0) of (_, (x0, dv)) \<Rightarrow> Inr (x0, dv))"

text \<open>The places of the ticks; the loop does not end when the division is not positive.\<close>

partial_function (option) tick_loop :: "real \<Rightarrow> real \<Rightarrow> real \<Rightarrow> real list option" where
  "tick_loop x dv xf =
     (if x < xf then Option.bind (tick_loop (x + dv) dv xf) (\<lambda>xs. Some (x # xs)) else Some [])"

text \<open>The labels, reused from the front; \<open>visible_labels\<close> are those shown.\<close>

record axes =
  labels :: "nat list"
  visible_labels :: "nat set"
  next_label :: nat

fun get_labels :: "nat \<Rightarrow> nat list \<Rightarrow> nat \<Rightarrow> nat list \<times> nat list \<times> nat" where
  "get_labels 0 unused nxt = ([], unused, nxt)"
| "get_labels (Suc k) [] nxt = (case get_labels k [] (Suc nxt) of (ls, u, m) \<Rightarrow> (nxt # ls, u, m))"
| "get_labels (Suc k) (l # unused) nxt = (case get_labels k unused nxt of (ls, u, m) \<Rightarrow> (l # ls, u, m))"

definition show_labels :: "nat \<Rightarrow> axes \<Rightarrow> axes" where
  "show_labels k a =
     (case get_labels k (labels a) (next_label a) of (ls, unused, m) \<Rightarrow>
        a\<lparr>labels := ls @ unused, visible_labels := (visible_labels a - set (labels a)) \<union> set ls, next_label := m\<rparr>)"

text \<open>The ticks of the two axes of a view from \<open>(x1, y1)\<close> to \<open>(x2, y2)\<close>.\<close>

definition axis_ticks :: "real \<Rightarrow> real \<Rightarrow> real list option result" where
  "axis_ticks lo hi = res_bind (compute_divisions (lo / 3) (hi / 3)) (\<lambda>(x0, dv). Inr (tick_loop x0 dv (hi / 3)))"

lemma powr_round:
  assumes "0 < d"
  shows "10 powr rint (log 10 d) \<le> sqrt 10 * d" and "d \<le> sqrt 10 * 10 powr rint (log 10 d)"
proof -
  have r: "log 10 d - 1 / 2 \<le> rint (log 10 d)" "rint (log 10 d) \<le> log 10 d + 1 / 2"
    unfolding rint_def by linarith+
  have s: "10 powr (1 / 2 :: real) = sqrt 10" by (simp add: powr_half_sqrt)
  have l: "10 powr log 10 d = d" using assms by simp
  have "10 powr rint (log 10 d) \<le> 10 powr (log 10 d + 1 / 2)" using r by simp
  then show "10 powr rint (log 10 d) \<le> sqrt 10 * d" using s l by (simp add: powr_add mult.commute)
  have "10 powr log 10 d \<le> 10 powr (rint (log 10 d) + 1 / 2)" using r by simp
  then show "d \<le> sqrt 10 * 10 powr rint (log 10 d)" using s l by (simp add: powr_add mult.commute)
qed

lemma sqrt10: "sqrt 10 \<le> 3163 / 1000"
  by (rule real_le_lsqrt) (simp_all add: power2_eq_square)

lemma division_bounds:
  assumes "0 < d"
  shows "63 / 100 * d \<le> division_of d" and "division_of d \<le> 1582 / 1000 * d"
proof -
  define p where "p = 10 powr rint (log 10 d)"
  have pos: "0 < p" by (simp add: p_def)
  have "sqrt 10 * d \<le> 3163 / 1000 * d" "sqrt 10 * p \<le> 3163 / 1000 * p"
    using mult_right_mono [OF sqrt10, of d] mult_right_mono [OF sqrt10, of p] assms pos by linarith+
  then have p: "p \<le> 3163 / 1000 * d" "d \<le> 3163 / 1000 * p" "0 < p"
    using powr_round [OF assms, folded p_def] pos by linarith+
  show "63 / 100 * d \<le> division_of d" "division_of d \<le> 1582 / 1000 * d"
    using p assms unfolding division_of_def p_def [symmetric] Let_def by (auto simp: abs_if split: if_splits)
qed

lemma tick_loop_ends:
  assumes "0 < dv"
  shows "\<exists>n. tick_loop x dv xf = Some (map (\<lambda>i. x + real i * dv) [0..<n]) \<and>
    xf \<le> x + real n * dv \<and> (0 < n \<longrightarrow> x + real (n - 1) * dv < xf)"
proof (induction "nat \<lceil>(xf - x) / dv\<rceil>" arbitrary: x rule: less_induct)
  case less
  show ?case
  proof (cases "x < xf")
    case False
    then show ?thesis by (intro exI [of _ 0]) (simp add: tick_loop.simps [of x])
  next
    case True
    have "(xf - (x + dv)) / dv = (xf - x) / dv - 1" using assms by (simp add: field_simps)
    moreover have "0 < (xf - x) / dv" using True assms by simp
    ultimately have "nat \<lceil>(xf - (x + dv)) / dv\<rceil> < nat \<lceil>(xf - x) / dv\<rceil>" by linarith
    from less [OF this] obtain n where n: "tick_loop (x + dv) dv xf = Some (map (\<lambda>i. x + dv + real i * dv) [0..<n])"
      "xf \<le> x + dv + real n * dv" "0 < n \<longrightarrow> x + dv + real (n - 1) * dv < xf" by blast
    have "x # map (\<lambda>i. x + dv + real i * dv) [0..<n] = map (\<lambda>i. x + real i * dv) [0..<Suc n]"
      by (simp add: map_upt_Suc algebra_simps del: upt_Suc)
    then have "tick_loop x dv xf = Some (map (\<lambda>i. x + real i * dv) [0..<Suc n])"
      using n(1) True by (simp add: tick_loop.simps [of x] del: upt_Suc)
    moreover have "x + real (Suc n - 1) * dv < xf" using n(3) True by (cases n) (auto simp: algebra_simps)
    ultimately show ?thesis using n(2) by (intro exI [of _ "Suc n"]) (simp add: algebra_simps del: upt_Suc)
  qed
qed

lemma divisions_fold:
  "xi < xf \<Longrightarrow> compute_divisions xi xf =
    (let dv = division_of ((xf - xi) / 5) in Inr (dv * of_int \<lceil>xi / dv\<rceil> - dv, dv))"
  by (simp add: compute_divisions_def division_round_def upt_rec Let_def)

lemma first_tick:
  assumes "0 < dv"
  shows "dv * of_int \<lceil>x / dv\<rceil> - dv < x" and "x \<le> dv * of_int \<lceil>x / dv\<rceil>"
proof -
  have c: "of_int \<lceil>x / dv\<rceil> - 1 < x / dv" "x / dv \<le> of_int \<lceil>x / dv\<rceil>" by linarith+
  then have "(of_int \<lceil>x / dv\<rceil> - 1) * dv < x" "x \<le> of_int \<lceil>x / dv\<rceil> * dv"
    using assms by (simp_all only: pos_divide_le_eq pos_less_divide_eq)
  then show "dv * of_int \<lceil>x / dv\<rceil> - dv < x" "x \<le> dv * of_int \<lceil>x / dv\<rceil>"
    by (simp_all add: algebra_simps)
qed

lemma tick_count:
  assumes "0 < d" "63 / 100 * d \<le> dv" "dv \<le> 1582 / 1000 * d" "x0 < xi" "xi \<le> x0 + dv" "xf = xi + 5 * d"
    and "xf \<le> x0 + real n * dv" "0 < n \<longrightarrow> x0 + real (n - 1) * dv < xf"
  shows "4 \<le> n \<and> n \<le> 9"
proof (intro conjI; rule ccontr)
  have dv: "0 < dv" using assms(1,2) by linarith
  assume "\<not> 4 \<le> n"
  then have "real n * dv \<le> 3 * dv" using dv by (intro mult_right_mono) auto
  then show False using assms by linarith
next
  have dv: "0 < dv" using assms(1,2) by linarith
  assume "\<not> n \<le> 9"
  then have "9 * dv \<le> real (n - 1) * dv" using dv by (intro mult_right_mono) auto
  then show False using assms \<open>\<not> n \<le> 9\<close> by linarith
qed

text \<open>
  The axis of any view that is not empty has from four to nine ticks, evenly spaced and the whole view long: the first
  lies before its start and the last less than a division before its end.
\<close>

theorem axis_tick_count:
  assumes "lo < hi"
  shows "\<exists>x0 dv n. axis_ticks lo hi = Inr (Some (map (\<lambda>i. x0 + real i * dv) [0..<n])) \<and> 4 \<le> n \<and> n \<le> 9 \<and>
    x0 < lo / 3 \<and> lo / 3 \<le> x0 + dv \<and> x0 + real (n - 1) * dv < hi / 3 \<and> hi / 3 \<le> x0 + real n * dv"
proof -
  define d where "d = (hi / 3 - lo / 3) / 5"
  define dv where "dv = division_of d"
  define x0 where "x0 = dv * of_int \<lceil>(lo / 3) / dv\<rceil> - dv"
  have d: "0 < d" using assms by (simp add: d_def)
  have b: "63 / 100 * d \<le> dv" "dv \<le> 1582 / 1000 * d" using division_bounds [OF d] by (simp_all add: dv_def)
  then have pos: "0 < dv" using d by linarith
  have c: "compute_divisions (lo / 3) (hi / 3) = Inr (x0, dv)"
    using divisions_fold [of "lo / 3" "hi / 3"] assms by (simp add: Let_def x0_def dv_def d_def)
  obtain n where n: "tick_loop x0 dv (hi / 3) = Some (map (\<lambda>i. x0 + real i * dv) [0..<n])"
    "hi / 3 \<le> x0 + real n * dv" "0 < n \<longrightarrow> x0 + real (n - 1) * dv < hi / 3" using tick_loop_ends [OF pos] by blast
  have x: "x0 < lo / 3" "lo / 3 \<le> x0 + dv" using first_tick [OF pos, of "lo / 3"] by (simp_all add: x0_def)
  have "hi / 3 = lo / 3 + 5 * d" by (simp add: d_def diff_divide_distrib)
  from tick_count [OF d b x this n(2,3)] have "4 \<le> n" "n \<le> 9" by auto
  then show ?thesis using n c x by (intro exI [of _ x0] exI [of _ dv] exI [of _ n]) (simp add: axis_ticks_def)
qed

theorem axis_tick_count_witness: "\<exists>xs. axis_ticks 0 30 = Inr (Some xs) \<and> 4 \<le> length xs \<and> length xs \<le> 9"
  using axis_tick_count [of 0 30] by fastforce

text \<open>Labels are reused in order; as many are shown as there are ticks.\<close>

lemma get_labels_take:
  "get_labels k ls nxt = (take k ls @ [nxt..<nxt + (k - length ls)], drop k ls, nxt + (k - length ls))"
proof (induction k ls nxt rule: get_labels.induct)
  case (2 k nxt)
  then show ?case by (simp add: upt_conv_Cons)
qed simp_all

lemma labels_shown:
  assumes "visible_labels a \<subseteq> set (labels a)"
  shows "visible_labels (show_labels k a) = set (take k (labels (show_labels k a)))"
    and "length (labels (show_labels k a)) = max k (length (labels a))"
  using assms by (auto simp: show_labels_def get_labels_take max_def)

end
