(* ===== verification/Viz_Topology.thy ===== *)
theory Viz_Topology
  imports Viz_Scene
begin

text \<open>
  The scan of the simulated network (\<^verbatim>\<open>Visualizer.scan_topology\<close> of \<^verbatim>\<open>visualizer/core.py\<close>): views of nodes and channels, the
  links between them, and the graph whose layout gives the places of the nodes that have none.
\<close>

section \<open>The network and the scene\<close>

text \<open>The simulator's side: nodes with their devices, and the nodes whose devices are on a channel.\<close>

record sim_device =
  device_type :: string
  device_channel :: "nat option"

record sim_node =
  node_mobility :: "(rat \<times> rat) option"
  node_devices :: "sim_device list"

record network =
  node_list :: "sim_node list"
  channel_nodes :: "nat \<Rightarrow> nat list"

datatype link_end = To_node nat | To_channel nat

record scene =
  view_nodes :: "(nat, rat \<times> rat) dict"
  view_channels :: "(nat, rat \<times> rat) dict"
  links :: "(nat \<times> link_end) list"
  graph_nodes :: "string list"
  graph_edges :: "(string \<times> string) list"
  traits :: traits_table

definition scene_init :: scene where
  "scene_init = \<lparr>view_nodes = [], view_channels = [], links = [], graph_nodes = [], graph_edges = [],
     traits = (netdevice_traits, [])\<rparr>"

definition node_name :: "nat \<Rightarrow> string" where
  "node_name i = ''Node '' @ show_nat i"

definition channel_name :: "nat \<Rightarrow> string" where
  "channel_name c = ''Channel '' @ show_nat c"

definition mobility_of :: "network \<Rightarrow> nat \<Rightarrow> (rat \<times> rat) option" where
  "mobility_of w i = (if i < length (node_list w) then node_mobility (node_list w ! i) else None)"

section \<open>Operations on the scene\<close>

definition scene_get_node :: "nat \<Rightarrow> scene \<Rightarrow> scene" where
  "scene_get_node i s = (case map_of (view_nodes s) i of None \<Rightarrow> s\<lparr>view_nodes := AList.update i (0, 0) (view_nodes s)\<rparr> | Some p \<Rightarrow> s)"

definition scene_get_channel :: "nat \<Rightarrow> scene \<Rightarrow> scene" where
  "scene_get_channel c s = (case map_of (view_channels s) c of
     None \<Rightarrow> s\<lparr>view_channels := AList.update c (0, 0) (view_channels s)\<rparr> | Some p \<Rightarrow> s)"

definition create_link :: "nat \<Rightarrow> link_end \<Rightarrow> scene \<Rightarrow> scene" where
  "create_link i e s = s\<lparr>links := links s @ [(i, e)]\<rparr>"

definition graph_add_node :: "string \<Rightarrow> scene \<Rightarrow> scene" where
  "graph_add_node n s = s\<lparr>graph_nodes := (if n \<in> set (graph_nodes s) then graph_nodes s else graph_nodes s @ [n])\<rparr>"

text \<open>Adding an edge to the graph adds its ends.\<close>

definition graph_add_edge :: "string \<Rightarrow> string \<Rightarrow> scene \<Rightarrow> scene" where
  "graph_add_edge a b s =
     (let s1 = graph_add_node b (graph_add_node a s) in s1\<lparr>graph_edges := graph_edges s1 @ [(a, b)]\<rparr>)"

text \<open>\<^verbatim>\<open>REPRESENT_CHANNELS_AS_NODES\<close> is set: a channel with more than two devices gets a view of its own.\<close>

definition REPRESENT_CHANNELS_AS_NODES :: bool where
  "REPRESENT_CHANNELS_AS_NODES = True"

definition link_other :: "network \<Rightarrow> nat \<Rightarrow> nat \<Rightarrow> scene \<Rightarrow> scene" where
  "link_other w i j s =
     (let s1 = scene_get_node j s in
      if j = i then s1
      else
        let s2 = (if mobility_of w i = None \<and> mobility_of w j = None
                  then graph_add_edge (node_name i) (node_name j) s1 else s1)
        in create_link i (To_node j) s2)"

definition link_channel :: "network \<Rightarrow> nat \<Rightarrow> nat \<Rightarrow> scene \<Rightarrow> scene" where
  "link_channel w i c s =
     (let s1 = (if mobility_of w i = None then graph_add_edge (node_name i) (channel_name c) s else s)
      in create_link i (To_channel c) (scene_get_channel c s1))"

definition scan_device :: "network \<Rightarrow> nat \<Rightarrow> sim_device \<Rightarrow> scene \<Rightarrow> scene result" where
  "scan_device w i dev s =
     (let (t, table) = lookup_netdevice_traits (device_type dev) (traits s); s1 = s\<lparr>traits := table\<rparr> in
      if is_wireless t = Some True then Inr s1
      else if is_virtual t then Inr s1
      else case device_channel dev of
          None \<Rightarrow> Inl AttributeError
        | Some c \<Rightarrow>
            if length (channel_nodes w c) > 2 then
              (if REPRESENT_CHANNELS_AS_NODES then Inr (link_channel w i c s1)
               else Inr (fold (link_other w i) (channel_nodes w c) s1))
            else Inr (fold (link_other w i) (channel_nodes w c) s1))"

definition scan_node :: "network \<Rightarrow> nat \<Rightarrow> scene \<Rightarrow> scene result" where
  "scan_node w i s =
     (let s1 = scene_get_node i s;
          s2 = (case mobility_of w i of
                  Some p \<Rightarrow> s1\<lparr>view_nodes := AList.update i (fst p * 3, snd p * 3) (view_nodes s1)\<rparr>
                | None \<Rightarrow> graph_add_node (node_name i) s1)
      in for_each (scan_device w i) (node_devices (node_list w ! i)) s2)"

text \<open>The places that the layout gives; the kind and number of a graph node are read back from its name.\<close>

definition place_node :: "(string \<Rightarrow> rat \<times> rat) \<Rightarrow> string \<Rightarrow> scene \<Rightarrow> scene result" where
  "place_node layout name s =
     (case py_split CHR '' '' name of
        [kind, number] \<Rightarrow>
          if kind = ''Node'' then
            (case map_of (view_nodes s) (read_nat number) of None \<Rightarrow> Inl KeyError
             | Some p \<Rightarrow> Inr (s\<lparr>view_nodes := AList.update (read_nat number) (layout name) (view_nodes s)\<rparr>))
          else if kind = ''Channel'' then
            (case map_of (view_channels s) (read_nat number) of None \<Rightarrow> Inl KeyError
             | Some p \<Rightarrow> Inr (s\<lparr>view_channels := AList.update (read_nat number) (layout name) (view_channels s)\<rparr>))
          else Inl UnboundLocalError
      | _ \<Rightarrow> Inl ValueError)"

definition scan_topology :: "(string list \<Rightarrow> (string \<times> string) list \<Rightarrow> string \<Rightarrow> rat \<times> rat) \<Rightarrow> network \<Rightarrow> scene \<Rightarrow> scene result" where
  "scan_topology layout w s =
     res_bind (for_each (scan_node w) [0..<length (node_list w)] s) (\<lambda>s1.
       for_each (place_node (layout (graph_nodes s1) (graph_edges s1))) (graph_nodes s1) s1)"

section \<open>Links\<close>

definition wired :: "traits_table \<Rightarrow> string \<Rightarrow> bool" where
  "wired tb ty = (case map_of (fst tb) ty of None \<Rightarrow> False | Some t \<Rightarrow> is_wireless t \<noteq> Some True \<and> \<not> is_virtual t)"

definition device_links :: "traits_table \<Rightarrow> network \<Rightarrow> nat \<Rightarrow> sim_device \<Rightarrow> (nat \<times> link_end) list" where
  "device_links tb w i dev =
     (if wired tb (device_type dev) then
        (case device_channel dev of None \<Rightarrow> []
         | Some c \<Rightarrow> if length (channel_nodes w c) > 2 then [(i, To_channel c)]
                     else map (\<lambda>j. (i, To_node j)) (filter (\<lambda>j. j \<noteq> i) (channel_nodes w c)))
      else [])"

lemma lookup_wired:
  assumes "lookup_netdevice_traits ty tb = (t, tb')"
  shows "wired tb' = wired tb" and "wired tb ty \<longleftrightarrow> is_wireless t \<noteq> Some True \<and> \<not> is_virtual t"
proof -
  obtain table warned where tb: "tb = (table, warned)" by (cases tb)
  have "wired tb' = wired tb \<and> (wired tb ty \<longleftrightarrow> is_wireless t \<noteq> Some True \<and> \<not> is_virtual t)"
  proof (cases "map_of table ty")
    case None
    then have t: "t = \<lparr>is_wireless = Some True, is_virtual = False\<rparr>" "tb' = (AList.update ty t table, warned @ [ty])"
      using assms tb by (auto simp: lookup_netdevice_traits_def Let_def)
    then have "wired tb' x = wired tb x" for x using None tb by (cases "x = ty") (simp_all add: wired_def)
    then show ?thesis using t None tb by (simp add: wired_def fun_eq_iff)
  next
    case (Some u)
    then show ?thesis using assms tb by (auto simp: lookup_netdevice_traits_def wired_def)
  qed
  then show "wired tb' = wired tb" "wired tb ty \<longleftrightarrow> is_wireless t \<noteq> Some True \<and> \<not> is_virtual t" by auto
qed

lemma scene_simps [simp]:
  "links (scene_get_node i s) = links s" "traits (scene_get_node i s) = traits s"
  "view_channels (scene_get_node i s) = view_channels s" "graph_nodes (scene_get_node i s) = graph_nodes s"
  "links (scene_get_channel c s) = links s" "traits (scene_get_channel c s) = traits s"
  "view_nodes (scene_get_channel c s) = view_nodes s" "graph_nodes (scene_get_channel c s) = graph_nodes s"
  "links (create_link i e s) = links s @ [(i, e)]" "traits (create_link i e s) = traits s"
  "view_nodes (create_link i e s) = view_nodes s" "view_channels (create_link i e s) = view_channels s"
  "graph_nodes (create_link i e s) = graph_nodes s"
  "links (graph_add_node n s) = links s" "traits (graph_add_node n s) = traits s"
  "view_nodes (graph_add_node n s) = view_nodes s" "view_channels (graph_add_node n s) = view_channels s"
  "links (graph_add_edge a b s) = links s" "traits (graph_add_edge a b s) = traits s"
  "view_nodes (graph_add_edge a b s) = view_nodes s" "view_channels (graph_add_edge a b s) = view_channels s"
  by (auto simp: scene_get_node_def scene_get_channel_def create_link_def graph_add_node_def graph_add_edge_def Let_def
      split: option.split)

lemma graph_nodes_add [simp]:
  "set (graph_nodes (graph_add_node n s)) = insert n (set (graph_nodes s))"
  "set (graph_nodes (graph_add_edge a b s)) = insert a (insert b (set (graph_nodes s)))"
  by (auto simp: graph_add_node_def graph_add_edge_def Let_def)

lemma graph_nodes_distinct [simp]:
  "distinct (graph_nodes (graph_add_node n s)) \<longleftrightarrow> distinct (graph_nodes s)"
  "distinct (graph_nodes (graph_add_edge a b s)) \<longleftrightarrow> distinct (graph_nodes s)"
  by (auto simp: graph_add_node_def graph_add_edge_def Let_def)

lemma link_others_links:
  "links (fold (link_other w i) js s) = links s @ map (\<lambda>j. (i, To_node j)) (filter (\<lambda>j. j \<noteq> i) js) \<and>
   traits (fold (link_other w i) js s) = traits s"
  by (induction js arbitrary: s) (auto simp: link_other_def Let_def)

lemma scan_device_links:
  assumes "scan_device w i dev s = Inr t"
  shows "links t = links s @ device_links (traits s) w i dev" and "wired (traits t) = wired (traits s)"
proof -
  obtain tr tb where l: "lookup_netdevice_traits (device_type dev) (traits s) = (tr, tb)"
    by (cases "lookup_netdevice_traits (device_type dev) (traits s)")
  note w = lookup_wired [OF l]
  show "links t = links s @ device_links (traits s) w i dev"
    using assms l w(2) link_others_links [of w i _ "s\<lparr>traits := tb\<rparr>"]
    by (auto simp: scan_device_def device_links_def Let_def REPRESENT_CHANNELS_AS_NODES_def link_channel_def
        split: if_splits option.splits)
  show "wired (traits t) = wired (traits s)"
    using assms l w(1) link_others_links [of w i _ "s\<lparr>traits := tb\<rparr>"]
    by (auto simp: scan_device_def Let_def REPRESENT_CHANNELS_AS_NODES_def link_channel_def
        split: if_splits option.splits)
qed

lemma device_links_cong: "wired tb = wired tb' \<Longrightarrow> device_links tb = device_links tb'"
  by (simp add: device_links_def fun_eq_iff)

lemma scan_devices_links:
  "for_each (scan_device w i) ds s = Inr t \<Longrightarrow>
   links t = links s @ concat (map (device_links (traits s) w i) ds) \<and> wired (traits t) = wired (traits s)"
proof (induction ds arbitrary: s)
  case (Cons d ds)
  then obtain u where u: "scan_device w i d s = Inr u" "for_each (scan_device w i) ds u = Inr t" by (auto simp: res_simps)
  note st = scan_device_links [OF u(1)]
  from Cons.IH [OF u(2)] st device_links_cong [OF st(2)] show ?case by simp
qed simp

definition node_links :: "network \<Rightarrow> traits_table \<Rightarrow> nat \<Rightarrow> (nat \<times> link_end) list" where
  "node_links w tb i = concat (map (device_links tb w i) (node_devices (node_list w ! i)))"

lemma scan_node_links:
  assumes "scan_node w i s = Inr t"
  shows "links t = links s @ node_links w (traits s) i" and "wired (traits t) = wired (traits s)"
  using scan_devices_links [OF assms [unfolded scan_node_def Let_def]]
  by (auto simp: node_links_def split: option.split)

lemma scan_nodes_links:
  "for_each (scan_node w) is s = Inr t \<Longrightarrow>
   links t = links s @ concat (map (node_links w (traits s)) is) \<and> wired (traits t) = wired (traits s)"
proof (induction "is" arbitrary: s)
  case (Cons i "is")
  then obtain u where u: "scan_node w i s = Inr u" "for_each (scan_node w) is u = Inr t" by (auto simp: res_simps)
  note st = scan_node_links [OF u(1)]
  have "node_links w (traits u) = node_links w (traits s)"
    by (rule ext) (simp add: node_links_def device_links_cong [OF st(2)])
  with Cons.IH [OF u(2)] st show ?case by simp
qed simp

section \<open>Names\<close>

lemma show_nat_no_space: "CHR '' '' \<notin> set (show_nat n)"
  using show_nat_digits [of n] by (auto simp: is_digit_def)

lemma split_node_name [simp]: "py_split CHR '' '' (node_name i) = [''Node'', show_nat i]"
  using py_split_no_sep [OF show_nat_no_space [of i]] by (simp add: node_name_def)

lemma split_channel_name [simp]: "py_split CHR '' '' (channel_name c) = [''Channel'', show_nat c]"
  using py_split_no_sep [OF show_nat_no_space [of c]] by (simp add: channel_name_def)

lemma names_inj [simp]:
  "node_name i = node_name j \<longleftrightarrow> i = j" "channel_name i = channel_name j \<longleftrightarrow> i = j" "node_name i \<noteq> channel_name j"
  by (auto simp: node_name_def channel_name_def dest: arg_cong [where f = read_nat])

section \<open>The scan succeeds\<close>

definition network_ok :: "network \<Rightarrow> traits_table \<Rightarrow> bool" where
  "network_ok w tb \<longleftrightarrow> (\<forall>n \<in> set (node_list w). \<forall>d \<in> set (node_devices n). wired tb (device_type d) \<longrightarrow>
     (\<exists>c. device_channel d = Some c \<and> (\<forall>j \<in> set (channel_nodes w c). j < length (node_list w))))"

text \<open>What holds when the nodes before \<open>i\<close> have been visited.\<close>

definition scene_ok :: "network \<Rightarrow> nat \<Rightarrow> scene \<Rightarrow> bool" where
  "scene_ok w i s \<longleftrightarrow>
     {..<i} \<subseteq> dom (map_of (view_nodes s)) \<and> dom (map_of (view_nodes s)) \<subseteq> {..<length (node_list w)} \<and>
     (\<forall>nm \<in> set (graph_nodes s).
        (\<exists>k \<in> dom (map_of (view_nodes s)). nm = node_name k \<and> mobility_of w k = None) \<or>
        (\<exists>c \<in> dom (map_of (view_channels s)). nm = channel_name c)) \<and>
     (\<forall>k < i. mobility_of w k = None \<longrightarrow> node_name k \<in> set (graph_nodes s)) \<and>
     (\<forall>k < i. \<forall>p. mobility_of w k = Some p \<longrightarrow> map_of (view_nodes s) k = Some (fst p * 3, snd p * 3))"

lemma get_node_view: "map_of (view_nodes (scene_get_node j s)) =
    (case map_of (view_nodes s) j of None \<Rightarrow> (map_of (view_nodes s))(j \<mapsto> (0, 0)) | Some p \<Rightarrow> map_of (view_nodes s))"
  by (auto simp: scene_get_node_def split: option.split)

lemma get_node_dom [simp]: "dom (map_of (view_nodes (scene_get_node j s))) = insert j (dom (map_of (view_nodes s)))"
  by (auto simp: get_node_view split: option.splits)

lemma get_node_keeps: "k \<in> dom (map_of (view_nodes s)) \<Longrightarrow>
    map_of (view_nodes (scene_get_node j s)) k = map_of (view_nodes s) k"
  by (auto simp: get_node_view split: option.splits)

lemma get_channel_dom [simp]:
  "dom (map_of (view_channels (scene_get_channel c s))) = insert c (dom (map_of (view_channels s)))"
  by (auto simp: scene_get_channel_def split: option.splits)

lemma scene_ok_get_node: "scene_ok w i s \<Longrightarrow> j < length (node_list w) \<Longrightarrow> scene_ok w i (scene_get_node j s)"
  by (auto simp: scene_ok_def get_node_keeps subset_iff)

lemma scene_ok_link: "scene_ok w i (create_link k e s) = scene_ok w i s"
  by (simp add: scene_ok_def)

lemma scene_ok_traits: "scene_ok w i (s\<lparr>traits := tb\<rparr>) = scene_ok w i s"
  by (simp add: scene_ok_def)

lemma scene_ok_edge:
  assumes "scene_ok w i s"
    and "\<And>nm. nm \<in> {a, b} \<Longrightarrow> (\<exists>k \<in> dom (map_of (view_nodes s)). nm = node_name k \<and> mobility_of w k = None) \<or>
      (\<exists>c \<in> dom (map_of (view_channels s)). nm = channel_name c)"
  shows "scene_ok w i (graph_add_edge a b s)"
  using assms(1) assms(2) [of a] assms(2) [of b] unfolding scene_ok_def by simp

lemma scene_ok_get_channel: "scene_ok w i s \<Longrightarrow> scene_ok w i (scene_get_channel c s)"
  unfolding scene_ok_def by (simp, blast)

lemma scene_ok_link_other:
  assumes "scene_ok w (Suc i) s" "i < length (node_list w)" "j < length (node_list w)"
  shows "scene_ok w (Suc i) (link_other w i j s)"
proof -
  have ok: "scene_ok w (Suc i) (scene_get_node j s)" using scene_ok_get_node assms by blast
  have "i \<in> dom (map_of (view_nodes s))" using assms(1) unfolding scene_ok_def by (meson lessThan_iff lessI subsetD)
  then have "scene_ok w (Suc i) (graph_add_edge (node_name i) (node_name j) (scene_get_node j s))"
    if "mobility_of w i = None" "mobility_of w j = None"
    using that by (intro scene_ok_edge ok) auto
  then show ?thesis using ok by (cases "j = i") (simp_all add: link_other_def Let_def scene_ok_link)
qed

lemma scene_ok_link_others:
  "scene_ok w (Suc i) s \<Longrightarrow> i < length (node_list w) \<Longrightarrow> \<forall>j \<in> set js. j < length (node_list w) \<Longrightarrow>
   scene_ok w (Suc i) (fold (link_other w i) js s)"
  by (induction js arbitrary: s) (auto intro: scene_ok_link_other)

lemma scene_ok_link_channel:
  assumes "scene_ok w (Suc i) s" "i < length (node_list w)"
  shows "scene_ok w (Suc i) (link_channel w i c s)"
proof -
  have i: "i \<in> dom (map_of (view_nodes s))" using assms(1) unfolding scene_ok_def by (meson lessThan_iff lessI subsetD)
  have "link_channel w i c s = create_link i (To_channel c) (if mobility_of w i = None
      then graph_add_edge (node_name i) (channel_name c) (scene_get_channel c s) else scene_get_channel c s)"
    by (cases s) (auto simp: link_channel_def scene_get_channel_def graph_add_edge_def graph_add_node_def Let_def
        split: option.split)
  moreover have "scene_ok w (Suc i) (graph_add_edge (node_name i) (channel_name c) (scene_get_channel c s))"
    if "mobility_of w i = None"
    using that i by (intro scene_ok_edge scene_ok_get_channel assms(1)) auto
  ultimately show ?thesis using scene_ok_get_channel [OF assms(1)] by (simp add: scene_ok_link)
qed

lemma scan_device_succeeds:
  assumes "scene_ok w (Suc i) s" "i < length (node_list w)"
    and "wired (traits s) (device_type d) \<longrightarrow>
      (\<exists>c. device_channel d = Some c \<and> (\<forall>j \<in> set (channel_nodes w c). j < length (node_list w)))"
  shows "\<exists>t. scan_device w i d s = Inr t \<and> scene_ok w (Suc i) t"
proof -
  obtain tr tb where l: "lookup_netdevice_traits (device_type d) (traits s) = (tr, tb)"
    by (cases "lookup_netdevice_traits (device_type d) (traits s)")
  let ?s = "s\<lparr>traits := tb\<rparr>"
  have ok: "scene_ok w (Suc i) ?s" using assms(1) by (simp add: scene_ok_traits)
  show ?thesis
  proof (cases "wired (traits s) (device_type d)")
    case False
    then show ?thesis using l lookup_wired(2) [OF l] ok by (auto simp: scan_device_def Let_def)
  next
    case True
    then obtain c where c: "device_channel d = Some c" "\<forall>j \<in> set (channel_nodes w c). j < length (node_list w)"
      using assms(3) by blast
    have "scan_device w i d s = Inr (if length (channel_nodes w c) > 2 then link_channel w i c ?s
        else fold (link_other w i) (channel_nodes w c) ?s)"
      using l lookup_wired(2) [OF l] True c(1) by (simp add: scan_device_def Let_def REPRESENT_CHANNELS_AS_NODES_def)
    then show ?thesis
      using scene_ok_link_channel [OF ok assms(2)] scene_ok_link_others [OF ok assms(2) c(2)] by simp
  qed
qed

lemma scan_devices_succeed:
  assumes "i < length (node_list w)"
  shows "scene_ok w (Suc i) s \<Longrightarrow>
    \<forall>d \<in> set ds. wired (traits s) (device_type d) \<longrightarrow>
      (\<exists>c. device_channel d = Some c \<and> (\<forall>j \<in> set (channel_nodes w c). j < length (node_list w))) \<Longrightarrow>
    \<exists>t. for_each (scan_device w i) ds s = Inr t \<and> scene_ok w (Suc i) t"
proof (induction ds arbitrary: s)
  case (Cons d ds)
  have "wired (traits s) (device_type d) \<longrightarrow>
      (\<exists>c. device_channel d = Some c \<and> (\<forall>j \<in> set (channel_nodes w c). j < length (node_list w)))"
    using Cons.prems(2) by simp
  then obtain u where u: "scan_device w i d s = Inr u" "scene_ok w (Suc i) u"
    using scan_device_succeeds [OF Cons.prems(1) assms] by blast
  then show ?case using Cons scan_device_links(2) [OF u(1)] by simp
qed auto

lemma scene_ok_visit:
  assumes "scene_ok w i s" "i < length (node_list w)"
  shows "scene_ok w (Suc i) (case mobility_of w i of
      Some p \<Rightarrow> (scene_get_node i s)\<lparr>view_nodes := AList.update i (fst p * 3, snd p * 3) (view_nodes (scene_get_node i s))\<rparr>
    | None \<Rightarrow> graph_add_node (node_name i) (scene_get_node i s))"
proof (cases "mobility_of w i")
  case None
  have "scene_ok w i (scene_get_node i s)" using scene_ok_get_node assms by blast
  then show ?thesis using None by (auto simp: scene_ok_def less_Suc_eq lessThan_Suc)
next
  case (Some p)
  have "scene_ok w i (scene_get_node i s)" using scene_ok_get_node assms by blast
  then show ?thesis using Some assms(2) by (auto simp: scene_ok_def less_Suc_eq lessThan_Suc)
qed

lemma scan_node_succeeds:
  assumes "scene_ok w i s" "i < length (node_list w)" "network_ok w (traits s)"
  shows "\<exists>t. scan_node w i s = Inr t \<and> scene_ok w (Suc i) t \<and> network_ok w (traits t)"
proof -
  let ?v = "case mobility_of w i of
      Some p \<Rightarrow> (scene_get_node i s)\<lparr>view_nodes := AList.update i (fst p * 3, snd p * 3) (view_nodes (scene_get_node i s))\<rparr>
    | None \<Rightarrow> graph_add_node (node_name i) (scene_get_node i s)"
  have tr: "traits ?v = traits s" by (auto split: option.split)
  have devs: "\<forall>d \<in> set (node_devices (node_list w ! i)). wired (traits ?v) (device_type d) \<longrightarrow>
      (\<exists>c. device_channel d = Some c \<and> (\<forall>j \<in> set (channel_nodes w c). j < length (node_list w)))"
    unfolding tr using assms(2,3) nth_mem unfolding network_ok_def by blast
  obtain t where t: "for_each (scan_device w i) (node_devices (node_list w ! i)) ?v = Inr t" "scene_ok w (Suc i) t"
    using scan_devices_succeed [OF assms(2) scene_ok_visit [OF assms(1,2)] devs] by blast
  then have s: "scan_node w i s = Inr t" by (simp add: scan_node_def Let_def)
  have "network_ok w (traits t)" using assms(3) scan_node_links(2) [OF s] by (simp add: network_ok_def)
  with s t(2) show ?thesis by blast
qed

lemma scan_nodes_succeed:
  assumes "scene_ok w 0 s" "network_ok w (traits s)" "k \<le> length (node_list w)"
  shows "\<exists>t. for_each (scan_node w) [0..<k] s = Inr t \<and> scene_ok w k t \<and> network_ok w (traits t)"
  using assms(3)
proof (induction k)
  case (Suc k)
  then obtain t where "for_each (scan_node w) [0..<k] s = Inr t" "scene_ok w k t" "network_ok w (traits t)" by auto
  with scan_node_succeeds [of w k t] Suc.prems show ?case by (auto simp: for_each_append)
qed (use assms in auto)

section \<open>Placing the nodes\<close>

text \<open>What placing does to a scene whose graph names only views that exist.\<close>

definition placed_at :: "(string \<Rightarrow> rat \<times> rat) \<Rightarrow> string list \<Rightarrow> scene \<Rightarrow> scene \<Rightarrow> bool" where
  "placed_at L names s t \<longleftrightarrow> links t = links s \<and> graph_nodes t = graph_nodes s \<and> graph_edges t = graph_edges s \<and>
     dom (map_of (view_channels t)) = dom (map_of (view_channels s)) \<and>
     (\<forall>k. map_of (view_nodes t) k =
        (if node_name k \<in> set names then Some (L (node_name k)) else map_of (view_nodes s) k))"

lemma place_node_known:
  assumes "(\<exists>k \<in> dom (map_of (view_nodes s)). nm = node_name k) \<or> (\<exists>c \<in> dom (map_of (view_channels s)). nm = channel_name c)"
  shows "\<exists>t. place_node L nm s = Inr t \<and> placed_at L [nm] s t"
  using assms by (auto simp: place_node_def placed_at_def)

lemma place_nodes_known:
  assumes "\<forall>nm \<in> set names. (\<exists>k \<in> dom (map_of (view_nodes s)). nm = node_name k) \<or>
      (\<exists>c \<in> dom (map_of (view_channels s)). nm = channel_name c)"
  shows "\<exists>t. for_each (place_node L) names s = Inr t \<and> placed_at L names s t"
  using assms
proof (induction names arbitrary: s)
  case (Cons nm names)
  then obtain u where u: "place_node L nm s = Inr u" "placed_at L [nm] s u"
    using place_node_known [of s nm L] by auto
  then have d: "dom (map_of (view_nodes s)) \<subseteq> dom (map_of (view_nodes u))"
    "dom (map_of (view_channels u)) = dom (map_of (view_channels s))" by (auto simp: placed_at_def split: if_splits)
  have "\<forall>m \<in> set names. (\<exists>k \<in> dom (map_of (view_nodes u)). m = node_name k) \<or>
      (\<exists>c \<in> dom (map_of (view_channels u)). m = channel_name c)"
    using Cons.prems d by simp blast
  from Cons.IH [OF this] obtain t where t: "for_each (place_node L) names u = Inr t" "placed_at L names u t" by blast
  have "placed_at L (nm # names) s t" using u(2) t(2) by (auto simp: placed_at_def)
  with u t show ?case by auto
qed (simp add: placed_at_def)

text \<open>C11. 
  The scan of a network whose wired devices are on channels succeeds.  Every node then has a view, at three times its
  position when it has one and where the layout puts it otherwise; and each wired device has one link for every
  other node on its channel, or one to the channel when that has more than two devices.
\<close>

theorem scan_shows_network:
  assumes "network_ok w (netdevice_traits, [])"
  shows "\<exists>s. scan_topology layout w scene_init = Inr s \<and>
    dom (map_of (view_nodes s)) = {..<length (node_list w)} \<and>
    (\<forall>i < length (node_list w). map_of (view_nodes s) i = Some (case mobility_of w i of
        Some p \<Rightarrow> (fst p * 3, snd p * 3)
      | None \<Rightarrow> layout (graph_nodes s) (graph_edges s) (node_name i))) \<and>
    links s = concat (map (node_links w (netdevice_traits, [])) [0..<length (node_list w)])"
proof -
  have "scene_ok w 0 scene_init" by (simp add: scene_ok_def scene_init_def)
  moreover have "network_ok w (traits scene_init)" using assms by (simp add: scene_init_def)
  ultimately obtain u where u: "for_each (scan_node w) [0..<length (node_list w)] scene_init = Inr u"
    "scene_ok w (length (node_list w)) u" using scan_nodes_succeed by blast
  have l: "links u = concat (map (node_links w (netdevice_traits, [])) [0..<length (node_list w)])"
    using scan_nodes_links [OF u(1)] by (simp add: scene_init_def)
  let ?L = "layout (graph_nodes u) (graph_edges u)"
  have "\<forall>nm \<in> set (graph_nodes u). (\<exists>k \<in> dom (map_of (view_nodes u)). nm = node_name k) \<or>
      (\<exists>c \<in> dom (map_of (view_channels u)). nm = channel_name c)" using u(2) by (fastforce simp: scene_ok_def)
  then obtain s where s: "for_each (place_node ?L) (graph_nodes u) u = Inr s" "placed_at ?L (graph_nodes u) u s"
    using place_nodes_known by blast
  have dom: "dom (map_of (view_nodes u)) = {..<length (node_list w)}" using u(2) by (auto simp: scene_ok_def)
  have named: "node_name k \<in> set (graph_nodes u) \<longleftrightarrow> k < length (node_list w) \<and> mobility_of w k = None" for k
    using u(2) dom unfolding scene_ok_def by (metis lessThan_iff names_inj(1,3))
  have place: "map_of (view_nodes s) k = (if node_name k \<in> set (graph_nodes u) then Some (?L (node_name k))
      else map_of (view_nodes u) k)" for k using s(2) by (simp add: placed_at_def)
  have "map_of (view_nodes s) i = Some (case mobility_of w i of Some p \<Rightarrow> (fst p * 3, snd p * 3) | None \<Rightarrow> ?L (node_name i))"
    if "i < length (node_list w)" for i
    using that place [of i] named [of i] u(2) by (auto simp: scene_ok_def split: option.split)
  moreover have "dom (map_of (view_nodes s)) = {..<length (node_list w)}"
    using place named dom by (auto simp: dom_def set_eq_iff)
  moreover have "scan_topology layout w scene_init = Inr s" using u(1) s(1) by (simp add: scan_topology_def)
  moreover have "graph_nodes s = graph_nodes u" "graph_edges s = graph_edges u" "links s = links u"
    using s(2) by (simp_all add: placed_at_def)
  ultimately show ?thesis using l by (intro exI [of _ s]) (simp cong: option.case_cong)
qed

text \<open>A channel between two nodes is linked from both, so its line is drawn twice.\<close>

lemma point_to_point_twice:
  assumes "channel_nodes w c = [i, j]" "i \<noteq> j" "wired tb ty"
  shows "device_links tb w i \<lparr>device_type = ty, device_channel = Some c\<rparr> = [(i, To_node j)]"
    and "device_links tb w j \<lparr>device_type = ty, device_channel = Some c\<rparr> = [(j, To_node i)]"
  using assms by (auto simp: device_links_def)

definition two_nodes :: network where
  "two_nodes = \<lparr>node_list =
     [\<lparr>node_mobility = Some (1, 2), node_devices = [\<lparr>device_type = ''PointToPointNetDevice'', device_channel = Some 4\<rparr>]\<rparr>,
      \<lparr>node_mobility = None, node_devices = [\<lparr>device_type = ''PointToPointNetDevice'', device_channel = Some 4\<rparr>]\<rparr>],
     channel_nodes = (\<lambda>c. [0, 1])\<rparr>"

theorem scan_shows_network_witness:
  "\<exists>s. scan_topology (\<lambda>ns es n. (7, 7)) two_nodes scene_init = Inr s \<and> map_of (view_nodes s) 0 = Some (3, 6) \<and>
     map_of (view_nodes s) 1 = Some (7, 7) \<and> links s = [(0, To_node 1), (1, To_node 0)]"
proof -
  have "network_ok two_nodes (netdevice_traits, [])" by (simp add: network_ok_def two_nodes_def)
  from scan_shows_network [OF this, of "\<lambda>ns es n. (7, 7)"] show ?thesis
    by (auto simp: two_nodes_def mobility_of_def node_links_def device_links_def wired_def netdevice_traits_def
        less_Suc_eq numeral_2_eq_2)
qed

end
