(* ===== verification/Viz_Links.thy ===== *)
theory Viz_Links
  imports Viz_Topology Viz_View
begin

text \<open>
  The links the visualizer draws: \<^verbatim>\<open>WiredLink\<close> and the lists of links of \<^verbatim>\<open>Node\<close> and \<^verbatim>\<open>Channel\<close>
  (\<^verbatim>\<open>visualizer/core.py\<close>), and the links between wifi stations and their access points, with the monitor that keeps them
  (\<^verbatim>\<open>plugins/wifi_intrastructure_link.py\<close>).  Links are objects that the lists of several ends share, so they live in a store:
  an object is its index in \<open>link_objects\<close>.
\<close>

section \<open>State\<close>

text \<open>
  \<open>drawn\<close> is the line last given to the canvas items of the link, \<open>visible\<close> the visibility of its group.
  \<open>end_links\<close> are the attributes \<^verbatim>\<open>links\<close>; \<open>stations\<close> has for every station its device, its node and its link.
\<close>

record view_link =
  wireless :: bool
  node1 :: "link_end option"
  node2 :: "link_end option"
  drawn :: "((rat \<times> rat) \<times> (rat \<times> rat)) option"
  visible :: bool
  destroyed :: bool

record link_scene =
  end_position :: "link_end \<Rightarrow> rat \<times> rat"
  end_links :: "link_end \<Rightarrow> nat list"
  link_objects :: "view_link list"
  access_points :: "(string, nat) dict"
  stations :: "(nat \<times> nat \<times> nat) list"

definition link_scene_init :: link_scene where
  "link_scene_init = \<lparr>end_position = (\<lambda>e. (0, 0)), end_links = (\<lambda>e. []), link_objects = [], access_points = [], stations = []\<rparr>"

definition change_link :: "nat \<Rightarrow> (view_link \<Rightarrow> view_link) \<Rightarrow> link_scene \<Rightarrow> link_scene" where
  "change_link i f s = s\<lparr>link_objects := (link_objects s)[i := f (link_objects s ! i)]\<rparr>"

definition change_links :: "link_end \<Rightarrow> (nat list \<Rightarrow> nat list) \<Rightarrow> link_scene \<Rightarrow> link_scene" where
  "change_links e f s = s\<lparr>end_links := (end_links s)(e := f (end_links s e))\<rparr>"

section \<open>Links of nodes and channels\<close>

text \<open>
  \<^verbatim>\<open>update_points\<close> of both classes: a wired link always has both ends, a wifi link without an access point returns at once.
\<close>

definition update_points :: "nat \<Rightarrow> (link_scene, unit) io" where
  "update_points i s =
     (case node2 (link_objects s ! i) of
        None \<Rightarrow> (Inr (), s)
      | Some b \<Rightarrow>
          (case node1 (link_objects s ! i) of
             None \<Rightarrow> (Inl AttributeError, s)
           | Some a \<Rightarrow> (Inr (), change_link i (\<lambda>l. l\<lparr>drawn := Some (end_position s a, end_position s b)\<rparr>) s)))"

definition set_end_position :: "link_end \<Rightarrow> rat \<times> rat \<Rightarrow> (link_scene, unit) io" where
  "set_end_position e p s =
     (let s1 = s\<lparr>end_position := (end_position s)(e := p)\<rparr> in io_for update_points (end_links s1 e) s1)"

definition add_link :: "link_end \<Rightarrow> nat \<Rightarrow> (link_scene, unit) io" where
  "add_link e i = io_modify (change_links e (\<lambda>is. is @ [i]))"

definition remove_link :: "link_end \<Rightarrow> nat \<Rightarrow> (link_scene, unit) io" where
  "remove_link e i s = (if i \<in> set (end_links s e) then (Inr (), change_links e (remove1 i) s) else (Inl ValueError, s))"

text \<open>\<^verbatim>\<open>create_link\<close>: the first end is a node; the line itself is drawn when an end is next moved.\<close>

definition new_wired_link :: "nat \<Rightarrow> link_end \<Rightarrow> (link_scene, unit) io" where
  "new_wired_link a b s =
     (let i = length (link_objects s);
          s1 = s\<lparr>link_objects := link_objects s @ [\<lparr>wireless = False, node1 = Some (To_node a), node2 = Some b, drawn = None,
                   visible = True, destroyed = False\<rparr>]\<rparr>
      in (Inr (), change_links b (\<lambda>is. is @ [i]) (change_links (To_node a) (\<lambda>is. is @ [i]) s1)))"

section \<open>Wifi links\<close>

definition set_ap :: "nat \<Rightarrow> link_end option \<Rightarrow> (link_scene, unit) io" where
  "set_ap i ap s =
     (if ap = node2 (link_objects s ! i) then (Inr (), s)
      else
        io_bind (case node2 (link_objects s ! i) of None \<Rightarrow> io_return () | Some old \<Rightarrow> remove_link old i) (\<lambda>_.
        io_bind (io_modify (change_link i (\<lambda>l. l\<lparr>node2 := ap\<rparr>))) (\<lambda>_.
        io_bind (case ap of
            None \<Rightarrow> io_modify (change_link i (\<lambda>l. l\<lparr>visible := False\<rparr>))
          | Some a \<Rightarrow> io_bind (add_link a i) (\<lambda>_. io_modify (change_link i (\<lambda>l. l\<lparr>visible := True\<rparr>)))) (\<lambda>_.
        update_points i))) s)"

definition new_wifi_link :: "nat \<Rightarrow> (link_scene, nat) io" where
  "new_wifi_link sta s =
     (let i = length (link_objects s);
          s1 = s\<lparr>link_objects := link_objects s @ [\<lparr>wireless = True, node1 = Some (To_node sta), node2 = None, drawn = None,
                   visible = True, destroyed = False\<rparr>]\<rparr>
      in io_bind (set_ap i None) (\<lambda>_. io_return i) s1)"

definition destroy_link :: "nat \<Rightarrow> (link_scene, unit) io" where
  "destroy_link i = io_modify (change_link i (\<lambda>l. l\<lparr>destroyed := True, node1 := None, node2 := None\<rparr>))"

text \<open>
  The devices of a node as the monitor sees them: a station with the number of its device, an access point with the
  text of its address, and all others.
\<close>

datatype wifi_device = Station nat | Access_point string | Other_device

definition scan_wifi_device :: "nat \<Rightarrow> wifi_device \<Rightarrow> (link_scene, unit) io" where
  "scan_wifi_device v dev =
     (case dev of
        Station d \<Rightarrow> io_bind (new_wifi_link v) (\<lambda>i. io_modify (\<lambda>s. s\<lparr>stations := stations s @ [(d, v, i)]\<rparr>))
      | Access_point bssid \<Rightarrow> io_modify (\<lambda>s. s\<lparr>access_points := AList.update bssid v (access_points s)\<rparr>)
      | Other_device \<Rightarrow> io_return ())"

definition scan_wifi_nodes :: "(nat \<times> wifi_device list) list \<Rightarrow> (link_scene, unit) io" where
  "scan_wifi_nodes nodes s =
     io_bind (io_for (\<lambda>(d, v, i). destroy_link i) (stations s)) (\<lambda>_.
     io_bind (io_modify (\<lambda>s. s\<lparr>access_points := [], stations := []\<rparr>)) (\<lambda>_.
     io_for (\<lambda>(v, devices). io_for (scan_wifi_device v) devices) nodes)) s"

text \<open>What the simulator says of a station's device: whether its link is up, and its BSSID.\<close>

definition NO_BSSID :: string where
  "NO_BSSID = ''00:00:00:00:00:00''"

definition update_station :: "(nat \<Rightarrow> bool \<times> string) \<Rightarrow> nat \<times> nat \<times> nat \<Rightarrow> (link_scene, unit) io" where
  "update_station sim = (\<lambda>(d, v, i) s.
     (let (up, bssid) = sim d in
      if \<not> up then set_ap i None s
      else if bssid = NO_BSSID then set_ap i None s
      else case map_of (access_points s) bssid of
             None \<Rightarrow> (Inl KeyError, s)
           | Some ap \<Rightarrow> set_ap i (Some (To_node ap)) s))"

definition monitor_periodic_update :: "(nat \<Rightarrow> bool \<times> string) \<Rightarrow> (link_scene, unit) io" where
  "monitor_periodic_update sim s = io_for (update_station sim) (stations s) s"

definition monitor_update_view :: "(link_scene, unit) io" where
  "monitor_update_view s = io_for (\<lambda>(d, v, i). update_points i) (stations s) s"

text \<open>
  \<^verbatim>\<open>_update_node_positions\<close> with the places of the nodes that have mobility, in simulation coordinates, and the part of
  \<^verbatim>\<open>update_view\<close> that moves links.
\<close>

definition update_node_positions :: "(nat \<times> (rat \<times> rat)) list \<Rightarrow> (link_scene, unit) io" where
  "update_node_positions mobile =
     io_for (\<lambda>(v, p). set_end_position (To_node v) (transform_point_simulation_to_canvas p)) mobile"

definition update_links_view :: "(nat \<times> (rat \<times> rat)) list \<Rightarrow> (link_scene, unit) io" where
  "update_links_view mobile = io_bind (update_node_positions mobile) (\<lambda>_. monitor_update_view)"

text \<open>All that happens to links.  An exception ends the handler it is in, not the program.\<close>

datatype link_event =
    Wire nat link_end
  | Move link_end "rat \<times> rat"
  | Scan "(nat \<times> wifi_device list) list"
  | Sample "nat \<Rightarrow> bool \<times> string"
  | Show "(nat \<times> (rat \<times> rat)) list"

fun link_event_op :: "link_event \<Rightarrow> (link_scene, unit) io" where
  "link_event_op (Wire a b) = new_wired_link a b"
| "link_event_op (Move e p) = set_end_position e p"
| "link_event_op (Scan nodes) = scan_wifi_nodes nodes"
| "link_event_op (Sample sim) = monitor_periodic_update sim"
| "link_event_op (Show mobile) = update_links_view mobile"

definition run_link_events :: "link_event list \<Rightarrow> link_scene \<Rightarrow> link_scene" where
  "run_link_events es s = fold (\<lambda>e s. snd (link_event_op e s)) es s"

section \<open>Redrawing\<close>

definition redrawn :: "(link_end \<Rightarrow> rat \<times> rat) \<Rightarrow> view_link \<Rightarrow> view_link" where
  "redrawn pos l =
     (case (node1 l, node2 l) of (Some a, Some b) \<Rightarrow> l\<lparr>drawn := Some (pos a, pos b)\<rparr> | _ \<Rightarrow> l)"

lemma redrawn_fields [simp]:
  "wireless (redrawn pos l) = wireless l" "node1 (redrawn pos l) = node1 l" "node2 (redrawn pos l) = node2 l"
  "visible (redrawn pos l) = visible l" "destroyed (redrawn pos l) = destroyed l" "redrawn pos (redrawn pos l) = redrawn pos l"
  by (auto simp: redrawn_def split: option.splits)

lemma redrawn_no_end [simp]: "node2 l = None \<Longrightarrow> redrawn pos l = l"
  by (simp add: redrawn_def split: option.split)

definition redraw :: "nat set \<Rightarrow> link_scene \<Rightarrow> link_scene" where
  "redraw I s = s\<lparr>link_objects :=
     map (\<lambda>i. if i \<in> I then redrawn (end_position s) (link_objects s ! i) else link_objects s ! i) [0..<length (link_objects s)]\<rparr>"

lemma redraw_fields [simp]:
  "end_position (redraw I s) = end_position s" "end_links (redraw I s) = end_links s"
  "access_points (redraw I s) = access_points s" "stations (redraw I s) = stations s"
  "length (link_objects (redraw I s)) = length (link_objects s)"
  "i < length (link_objects s) \<Longrightarrow> link_objects (redraw I s) ! i =
     (if i \<in> I then redrawn (end_position s) (link_objects s ! i) else link_objects s ! i)"
  by (simp_all add: redraw_def)

lemma redraw_redraw: "redraw I (redraw J s) = redraw (I \<union> J) s"
  by (cases s) (auto simp: redraw_def)

lemma redraw_none: "redraw {} s = s"
  by (cases s) (simp add: redraw_def map_nth)

definition ends_ok :: "view_link \<Rightarrow> bool" where
  "ends_ok l \<longleftrightarrow> (node1 l = None \<longrightarrow> node2 l = None)"

lemma update_points_redraw:
  assumes "i < length (link_objects s)" "ends_ok (link_objects s ! i)"
  shows "update_points i s = (Inr (), redraw {i} s)"
proof (cases "node2 (link_objects s ! i)")
  case None
  then have "redraw {i} s = s"
    by (cases s) (auto simp: redraw_def redrawn_def intro!: nth_equalityI split: option.split)
  with None show ?thesis by (simp add: update_points_def)
next
  case (Some b)
  with assms(2) obtain a where a: "node1 (link_objects s ! i) = Some a" by (auto simp: ends_ok_def)
  have "change_link i (\<lambda>l. l\<lparr>drawn := Some (end_position s a, end_position s b)\<rparr>) s = redraw {i} s"
    using assms(1) a Some by (cases s) (auto simp: redraw_def redrawn_def change_link_def nth_list_update intro!: nth_equalityI)
  with a Some show ?thesis by (simp add: update_points_def)
qed

lemma update_all_points:
  assumes "set is \<subseteq> {..<length (link_objects s)}" "\<And>i. i \<in> set is \<Longrightarrow> ends_ok (link_objects s ! i)"
  shows "io_for update_points is s = (Inr (), redraw (set is) s)"
  using assms
proof (induction "is" arbitrary: s)
  case (Cons i "is")
  have "update_points i s = (Inr (), redraw {i} s)" using Cons.prems by (intro update_points_redraw) auto
  moreover have "io_for update_points is (redraw {i} s) = (Inr (), redraw (set is) (redraw {i} s))"
    using Cons.prems by (intro Cons.IH) (auto simp: subset_eq ends_ok_def)
  ultimately show ?case by (simp add: redraw_redraw)
qed (simp add: redraw_none)

section \<open>What always holds\<close>

text \<open>
  A wired link is in the lists of both its ends, and once drawn it is drawn where they are; a live wifi link is once in
  the list of its access point and in no other, and nothing is seen of one without an access point; the stations' links are live, their own, and begin at the station.
\<close>

definition wired_ok :: "link_scene \<Rightarrow> nat \<Rightarrow> view_link \<Rightarrow> bool" where
  "wired_ok s i l \<longleftrightarrow> (\<exists>a b. node1 l = Some a \<and> node2 l = Some b \<and> i \<in> set (end_links s a) \<and> i \<in> set (end_links s b) \<and>
     drawn l \<in> {None, Some (end_position s a, end_position s b)})"

definition wifi_ok :: "link_scene \<Rightarrow> nat \<Rightarrow> view_link \<Rightarrow> bool" where
  "wifi_ok s i l \<longleftrightarrow> node1 l \<noteq> None \<and> (\<forall>e. count_list (end_links s e) i = (if node2 l = Some e then 1 else 0)) \<and>
     (if node2 l = None then visible l \<longrightarrow> drawn l = None else visible l)"

definition link_ok :: "link_scene \<Rightarrow> nat \<Rightarrow> view_link \<Rightarrow> bool" where
  "link_ok s i l \<longleftrightarrow> (if destroyed l then wireless l \<and> node1 l = None \<and> node2 l = None
     else if wireless l then wifi_ok s i l else wired_ok s i l)"

definition stations_ok :: "link_scene \<Rightarrow> bool" where
  "stations_ok s \<longleftrightarrow> distinct (map (snd \<circ> snd) (stations s)) \<and>
     (\<forall>(d, v, i) \<in> set (stations s). i < length (link_objects s) \<and> wireless (link_objects s ! i) \<and>
        \<not> destroyed (link_objects s ! i) \<and> node1 (link_objects s ! i) = Some (To_node v))"

definition link_scene_ok :: "link_scene \<Rightarrow> bool" where
  "link_scene_ok s \<longleftrightarrow> (\<forall>i < length (link_objects s). link_ok s i (link_objects s ! i)) \<and>
     (\<forall>e. set (end_links s e) \<subseteq> {..<length (link_objects s)}) \<and> stations_ok s"

lemma link_scene_okD:
  assumes "link_scene_ok s"
  shows "i < length (link_objects s) \<Longrightarrow> link_ok s i (link_objects s ! i)"
    and "i \<in> set (end_links s e) \<Longrightarrow> i < length (link_objects s)" and "stations_ok s"
  using assms by (auto simp: link_scene_ok_def)

lemma stations_ok_keep:
  assumes "stations_ok s" "stations t = stations s" "length (link_objects t) \<ge> length (link_objects s)"
    and "\<And>i. i < length (link_objects s) \<Longrightarrow> wireless (link_objects t ! i) = wireless (link_objects s ! i) \<and>
      destroyed (link_objects t ! i) = destroyed (link_objects s ! i) \<and> node1 (link_objects t ! i) = node1 (link_objects s ! i)"
  shows "stations_ok t"
  using assms(1,3,4) unfolding stations_ok_def assms(2) by (fastforce simp: order.strict_trans2)

lemma stations_okD:
  "stations_ok s \<Longrightarrow> (d, v, i) \<in> set (stations s) \<Longrightarrow> i < length (link_objects s) \<and> wireless (link_objects s ! i) \<and>
     \<not> destroyed (link_objects s ! i) \<and> node1 (link_objects s ! i) = Some (To_node v)"
  by (auto simp: stations_ok_def)

lemma link_ok_ends: "link_ok s i l \<Longrightarrow> ends_ok l"
  by (auto simp: link_ok_def wired_ok_def wifi_ok_def ends_ok_def split: if_splits)

lemma link_ok_redrawn: "link_ok s i l \<Longrightarrow> link_ok s i (redrawn (end_position s) l)"
  by (auto simp: link_ok_def wired_ok_def wifi_ok_def redrawn_def split: if_splits option.splits)

lemma link_scene_ok_redraw:
  assumes "link_scene_ok s"
  shows "link_scene_ok (redraw I s)"
proof -
  have same: "link_ok (redraw I s) i l = link_ok s i l" for i l
    by (simp add: link_ok_def wired_ok_def wifi_ok_def)
  show ?thesis
    using assms stations_ok_keep [of s "redraw I s"] unfolding link_scene_ok_def same by (simp add: link_ok_redrawn)
qed

lemma update_points_ok:
  assumes "link_scene_ok s" "i < length (link_objects s)"
  shows "update_points i s = (Inr (), redraw {i} s)"
  using assms link_ok_ends link_scene_okD(1) by (intro update_points_redraw) blast+

text \<open>Moving an end redraws its links, so that the wired ones stay where they should.\<close>

lemma set_end_position_ok:
  assumes "link_scene_ok s"
  shows "set_end_position e p s =
      (Inr (), redraw (set (end_links s e)) (s\<lparr>end_position := (end_position s)(e := p)\<rparr>))"
    and "link_scene_ok (snd (set_end_position e p s))"
proof -
  let ?s = "s\<lparr>end_position := (end_position s)(e := p)\<rparr>"
  have "io_for update_points (end_links s e) ?s = (Inr (), redraw (set (end_links s e)) ?s)"
    using assms by (intro update_all_points) (auto intro: link_ok_ends link_scene_okD dest: link_scene_okD(2))
  then show eq: "set_end_position e p s = (Inr (), redraw (set (end_links s e)) ?s)"
    by (simp add: set_end_position_def)
  have "link_ok (redraw (set (end_links s e)) ?s) i (link_objects (redraw (set (end_links s e)) ?s) ! i)"
    if i: "i < length (link_objects s)" for i
  proof -
    have ok: "link_ok s i (link_objects s ! i)" by (rule link_scene_okD(1) [OF assms i])
    show ?thesis
    proof (cases "wireless (link_objects s ! i)")
      case True
      with ok i show ?thesis by (auto simp: link_ok_def wifi_ok_def split: if_splits)
    next
      case False
      then have "\<not> destroyed (link_objects s ! i)" "wired_ok s i (link_objects s ! i)" using ok by (auto simp: link_ok_def split: if_splits)
      then obtain a b where ab: "node1 (link_objects s ! i) = Some a" "node2 (link_objects s ! i) = Some b"
          "i \<in> set (end_links s a)" "i \<in> set (end_links s b)"
          "drawn (link_objects s ! i) \<in> {None, Some (end_position s a, end_position s b)}" by (auto simp: wired_ok_def)
      have "e \<in> {a, b} \<Longrightarrow> i \<in> set (end_links s e)" using ab(3,4) by auto
      define m where "m = link_objects (redraw (set (end_links s e)) ?s) ! i"
      have "drawn m \<in> {None, Some (end_position ?s a, end_position ?s b)}"
        unfolding m_def using \<open>e \<in> {a, b} \<Longrightarrow> _\<close>
        using i ab(1,2,5) by (cases "i \<in> set (end_links s e)") (auto simp: redrawn_def)
      moreover have "\<not> destroyed m" "\<not> wireless m" "node1 m = Some a" "node2 m = Some b"
        using i False \<open>\<not> destroyed _\<close> ab(1,2) by (simp_all add: m_def)
      ultimately show ?thesis unfolding m_def [symmetric] link_ok_def wired_ok_def using ab(3,4) by simp
    qed
  qed
  moreover have "stations_ok (redraw (set (end_links s e)) ?s)"
    by (rule stations_ok_keep [OF link_scene_okD(3) [OF assms]]) simp_all
  ultimately show "link_scene_ok (snd (set_end_position e p s))"
    using assms by (simp add: eq link_scene_ok_def)
qed

lemma set_end_position_succeeds:
  "link_scene_ok s \<Longrightarrow> fst (set_end_position e p s) = Inr () \<and> link_scene_ok (snd (set_end_position e p s))"
  by (metis set_end_position_ok fst_conv)

text \<open>What \<open>set_ap\<close> does to a station's live link: it never raises, and keeps the link in the right list.\<close>

definition attached :: "nat \<Rightarrow> link_end option \<Rightarrow> link_scene \<Rightarrow> link_scene" where
  "attached i ap s =
     (let old = node2 (link_objects s ! i);
          s1 = (case old of None \<Rightarrow> s | Some e \<Rightarrow> change_links e (remove1 i) s);
          s2 = (case ap of None \<Rightarrow> s1 | Some e \<Rightarrow> change_links e (\<lambda>is. is @ [i]) s1)
      in change_link i (\<lambda>l. redrawn (end_position s) (l\<lparr>node2 := ap, visible := (ap \<noteq> None)\<rparr>)) s2)"

lemma change_link_simps [simp]:
  "end_position (change_link i f s) = end_position s" "end_links (change_link i f s) = end_links s"
  "access_points (change_link i f s) = access_points s" "stations (change_link i f s) = stations s"
  "length (link_objects (change_link i f s)) = length (link_objects s)"
  "i < length (link_objects s) \<Longrightarrow> link_objects (change_link i f s) ! i = f (link_objects s ! i)"
  "j \<noteq> i \<Longrightarrow> link_objects (change_link i f s) ! j = link_objects s ! j"
  by (simp_all add: change_link_def)

lemma change_links_simps [simp]:
  "end_position (change_links e f s) = end_position s" "link_objects (change_links e f s) = link_objects s"
  "access_points (change_links e f s) = access_points s" "stations (change_links e f s) = stations s"
  "end_links (change_links e f s) = (end_links s)(e := f (end_links s e))"
  by (simp_all add: change_links_def)

lemma change_link_twice: "change_link i f (change_link i g s) = change_link i (f \<circ> g) s"
  by (cases "i < length (link_objects s)") (simp_all add: change_link_def list_update_beyond)

lemma change_link_links: "change_link i f (change_links e g s) = change_links e g (change_link i f s)"
  by (simp add: change_link_def change_links_def)

lemma update_points_change:
  assumes "node1 (link_objects s ! i) \<noteq> None"
  shows "update_points i s = (Inr (), change_link i (redrawn (end_position s)) s)"
  using assms by (cases s) (auto simp: update_points_def change_link_def redrawn_def split: option.splits)

lemma wifi_link_registered:
  assumes "link_scene_ok s" "i < length (link_objects s)" "wireless (link_objects s ! i)" "\<not> destroyed (link_objects s ! i)"
  shows "node1 (link_objects s ! i) \<noteq> None"
    and "count_list (end_links s e) i = (if node2 (link_objects s ! i) = Some e then 1 else 0)"
  using link_scene_okD(1) [OF assms(1,2)] assms(3,4) by (simp_all add: link_ok_def wifi_ok_def)

lemma set_ap_attaches:
  assumes "link_scene_ok s" "i < length (link_objects s)" "wireless (link_objects s ! i)" "\<not> destroyed (link_objects s ! i)"
  shows "set_ap i ap s = (Inr (), if ap = node2 (link_objects s ! i) then s else attached i ap s)"
proof (cases "ap = node2 (link_objects s ! i)")
  case False
  let ?old = "node2 (link_objects s ! i)"
  let ?s1 = "case ?old of None \<Rightarrow> s | Some e \<Rightarrow> change_links e (remove1 i) s"
  let ?s2 = "case ap of None \<Rightarrow> ?s1 | Some e \<Rightarrow> change_links e (\<lambda>is. is @ [i]) ?s1"
  let ?f = "\<lambda>l. l\<lparr>node2 := ap, visible := (ap \<noteq> None)\<rparr>"
  have "i \<in> set (end_links s e)" if "?old = Some e" for e
    using wifi_link_registered(2) [OF assms, of e] that by (metis count_list_0_iff zero_neq_one)
  then have 1: "(case ?old of None \<Rightarrow> io_return () | Some e \<Rightarrow> remove_link e i) s = (Inr (), ?s1)"
    by (auto simp: remove_link_def split: option.split)
  have objs: "link_objects ?s1 = link_objects s" "link_objects ?s2 = link_objects s" "end_position ?s2 = end_position s"
    by (auto split: option.split)
  have 2: "io_bind (io_modify (change_link i (\<lambda>l. l\<lparr>node2 := ap\<rparr>))) (\<lambda>_.
       case ap of None \<Rightarrow> io_modify (change_link i (\<lambda>l. l\<lparr>visible := False\<rparr>))
          | Some a \<Rightarrow> io_bind (add_link a i) (\<lambda>_. io_modify (change_link i (\<lambda>l. l\<lparr>visible := True\<rparr>)))) ?s1 =
     (Inr (), change_link i ?f ?s2)"
    by (cases ap) (simp_all add: add_link_def io_bind_def change_link_twice o_def change_link_links [symmetric])
  have n1: "node1 (link_objects (change_link i ?f ?s2) ! i) \<noteq> None"
    using assms(2) objs wifi_link_registered(1) [OF assms] by simp
  have "update_points i (change_link i ?f ?s2) = (Inr (), attached i ap s)"
    unfolding update_points_change [OF n1] change_link_twice attached_def Let_def by (simp only: change_link_simps objs o_def)
  then have "set_ap i ap s = (Inr (), attached i ap s)"
    using False 1 2 unfolding set_ap_def by (simp add: io_bind_def split: prod.splits sum.splits)
  with False show ?thesis by simp
qed (simp add: set_ap_def)

lemma count_list_remove1: "count_list (remove1 x xs) y = (if x = y then count_list xs y - 1 else count_list xs y)"
  by (induction xs) (auto simp: Suc_diff_1 count_list_0_iff intro: Suc_pred)

lemma link_ok_counts:
  assumes "end_position t = end_position s" "\<And>e. count_list (end_links t e) i = count_list (end_links s e) i"
  shows "link_ok t i l = link_ok s i l"
proof -
  have "i \<in> set (end_links t e) \<longleftrightarrow> i \<in> set (end_links s e)" for e
    using assms(2) by (metis count_list_0_iff)
  with assms show ?thesis by (simp add: link_ok_def wired_ok_def wifi_ok_def)
qed

lemma link_scene_ok_attached:
  assumes "link_scene_ok s" "i < length (link_objects s)" "wireless (link_objects s ! i)" "\<not> destroyed (link_objects s ! i)"
    and "ap \<noteq> node2 (link_objects s ! i)"
  shows "link_scene_ok (attached i ap s)"
proof -
  let ?t = "attached i ap s"
  note reg = wifi_link_registered [OF assms(1-4)]
  have same: "end_position ?t = end_position s" "stations ?t = stations s" "length (link_objects ?t) = length (link_objects s)"
      "\<And>j. j \<noteq> i \<Longrightarrow> link_objects ?t ! j = link_objects s ! j"
      "link_objects ?t ! i = redrawn (end_position s) ((link_objects s ! i)\<lparr>node2 := ap, visible := (ap \<noteq> None)\<rparr>)"
    using assms(2) by (auto simp: attached_def Let_def split: option.split)
  have counts: "count_list (end_links ?t e) j = (if j = i then (if ap = Some e then 1 else 0) else count_list (end_links s e) j)" for e j
    using reg(2) [of e] assms(5) by (auto simp: attached_def Let_def count_list_remove1 split: option.split)
  have "link_ok ?t j (link_objects ?t ! j)" if j: "j < length (link_objects s)" for j
  proof (cases "j = i")
    case True
    then show ?thesis using assms(3,4) reg(1) by (simp add: link_ok_def wifi_ok_def counts same(5))
  next
    case False
    with link_scene_okD(1) [OF assms(1) j] link_ok_counts [of ?t s j] show ?thesis by (simp add: counts same)
  qed
  moreover have "j < length (link_objects s)" if j: "j \<in> set (end_links ?t e)" for j e
  proof (cases "j = i")
    case False
    from j have "count_list (end_links ?t e) j \<noteq> 0" by (simp add: count_list_0_iff)
    with False have "j \<in> set (end_links s e)" by (simp add: counts count_list_0_iff)
    then show ?thesis by (rule link_scene_okD(2) [OF assms(1)])
  qed (simp add: assms(2))
  moreover have "stations_ok ?t"
  proof (rule stations_ok_keep [OF link_scene_okD(3) [OF assms(1)]])
    show "wireless (link_objects ?t ! j) = wireless (link_objects s ! j) \<and> destroyed (link_objects ?t ! j) = destroyed (link_objects s ! j) \<and>
        node1 (link_objects ?t ! j) = node1 (link_objects s ! j)" for j
      by (cases "j = i") (simp_all add: same)
  qed (simp_all add: same)
  ultimately show ?thesis by (auto simp: link_scene_ok_def same)
qed

lemma set_ap_ok:
  assumes "link_scene_ok s" "i < length (link_objects s)" "wireless (link_objects s ! i)" "\<not> destroyed (link_objects s ! i)"
  shows "fst (set_ap i ap s) = Inr ()" and "link_scene_ok (snd (set_ap i ap s))"
    and "stations (snd (set_ap i ap s)) = stations s" and "access_points (snd (set_ap i ap s)) = access_points s"
    and "end_position (snd (set_ap i ap s)) = end_position s"
    and "length (link_objects (snd (set_ap i ap s))) = length (link_objects s)"
    and "node2 (link_objects (snd (set_ap i ap s)) ! i) = ap"
    and "j \<noteq> i \<Longrightarrow> link_objects (snd (set_ap i ap s)) ! j = link_objects s ! j"
  using assms link_scene_ok_attached [OF assms, of ap]
  by (auto simp: set_ap_attaches [OF assms] attached_def Let_def split: option.split)

text \<open>Adding links.\<close>

lemma counts_beyond: "link_scene_ok s \<Longrightarrow> count_list (end_links s e) (length (link_objects s)) = 0"
  using link_scene_okD(2) by (fastforce simp: count_list_0_iff)

lemma new_wired_link_ok:
  assumes "link_scene_ok s"
  shows "fst (new_wired_link a b s) = Inr ()" and "link_scene_ok (snd (new_wired_link a b s))"
proof -
  let ?n = "length (link_objects s)" and ?t = "snd (new_wired_link a b s)"
  define w where "w = \<lparr>wireless = False, node1 = Some (To_node a), node2 = Some b, drawn = None, visible = True, destroyed = False\<rparr>"
  have t: "link_objects ?t = link_objects s @ [w]" "stations ?t = stations s" "end_position ?t = end_position s"
      "\<And>e. set (end_links ?t e) = set (end_links s e) \<union> (if e = b \<or> e = To_node a then {?n} else {})"
      "\<And>e j. j \<noteq> ?n \<Longrightarrow> count_list (end_links ?t e) j = count_list (end_links s e) j"
    by (auto simp: new_wired_link_def Let_def w_def)
  have "link_ok ?t j (link_objects ?t ! j)" if j: "j < Suc ?n" for j
  proof (cases "j = ?n")
    case True
    have "wired_ok ?t ?n w" unfolding wired_ok_def
      by (intro exI [of _ "To_node a"] exI [of _ b]) (simp add: t(4), simp add: w_def)
    with True show ?thesis by (simp add: t(1) link_ok_def) (simp add: w_def)
  next
    case False
    with j have "j < ?n" by simp
    with link_scene_okD(1) [OF assms this] link_ok_counts [of ?t s j] show ?thesis by (simp add: t nth_append)
  qed
  moreover have "stations_ok ?t"
    by (rule stations_ok_keep [OF link_scene_okD(3) [OF assms] t(2)]) (simp_all add: t(1) nth_append)
  ultimately show "link_scene_ok ?t"
    using assms by (fastforce simp: link_scene_ok_def t(1,4))
qed (simp add: new_wired_link_def Let_def)

lemma new_wifi_link_ok:
  fixes v :: nat
  assumes "link_scene_ok s"
  defines "w \<equiv> \<lparr>wireless = True, node1 = Some (To_node v), node2 = None, drawn = None, visible = True, destroyed = False\<rparr>"
  shows "new_wifi_link v s = (Inr (length (link_objects s)), s\<lparr>link_objects := link_objects s @ [w]\<rparr>)"
    and "link_scene_ok (s\<lparr>link_objects := link_objects s @ [w]\<rparr>)"
proof -
  show "new_wifi_link v s = (Inr (length (link_objects s)), s\<lparr>link_objects := link_objects s @ [w]\<rparr>)"
    by (simp add: new_wifi_link_def set_ap_def w_def Let_def io_bind_def)
  let ?t = "s\<lparr>link_objects := link_objects s @ [w]\<rparr>" and ?n = "length (link_objects s)"
  have same: "link_ok ?t j l = link_ok s j l" for j l by (rule link_ok_counts) simp_all
  have "link_ok s ?n w" by (simp add: link_ok_def wifi_ok_def w_def counts_beyond [OF assms(1)])
  moreover have "stations_ok ?t"
    by (rule stations_ok_keep [OF link_scene_okD(3) [OF assms(1)]]) (simp_all add: nth_append)
  ultimately show "link_scene_ok ?t"
    using assms(1) by (fastforce simp: link_scene_ok_def same nth_append less_Suc_eq)
qed

text \<open>The scan.\<close>

definition links_ok :: "link_scene \<Rightarrow> bool" where
  "links_ok s \<longleftrightarrow> (\<forall>i < length (link_objects s). link_ok s i (link_objects s ! i)) \<and>
     (\<forall>e. set (end_links s e) \<subseteq> {..<length (link_objects s)})"

lemma link_scene_ok_alt: "link_scene_ok s \<longleftrightarrow> links_ok s \<and> stations_ok s"
  by (auto simp: link_scene_ok_def links_ok_def)

lemma destroy_link_ok:
  assumes "links_ok s" "i < length (link_objects s)" "wireless (link_objects s ! i)"
  shows "links_ok (snd (destroy_link i s))"
proof -
  have "link_ok (snd (destroy_link i s)) j (link_objects (snd (destroy_link i s)) ! j)" if j: "j < length (link_objects s)" for j
  proof (cases "j = i")
    case True
    with assms(2,3) show ?thesis by (simp add: destroy_link_def link_ok_def)
  next
    case False
    have "link_ok s j (link_objects s ! j)" using assms(1) j by (simp add: links_ok_def)
    with False link_ok_counts [of "snd (destroy_link i s)" s j] show ?thesis by (simp add: destroy_link_def)
  qed
  with assms(1) show ?thesis by (simp add: links_ok_def destroy_link_def)
qed

lemma scan_wifi_device_ok:
  assumes "link_scene_ok s"
  shows "fst (scan_wifi_device v dev s) = Inr () \<and> link_scene_ok (snd (scan_wifi_device v dev s))"
proof (cases dev)
  case (Station d)
  let ?n = "length (link_objects s)"
  define w where "w = \<lparr>wireless = True, node1 = Some (To_node v), node2 = None, drawn = None, visible = True, destroyed = False\<rparr>"
  define t where "t = s\<lparr>link_objects := link_objects s @ [w]\<rparr>"
  have new: "new_wifi_link v s = (Inr ?n, t)" "link_scene_ok t"
    using new_wifi_link_ok [OF assms, of v] by (simp_all add: t_def w_def)
  have t: "link_objects t ! ?n = w" "length (link_objects t) = Suc ?n" "stations t = stations s" by (simp_all add: t_def)
  let ?u = "t\<lparr>stations := stations t @ [(d, v, ?n)]\<rparr>"
  have "links_ok ?u" using new(2) link_ok_counts [of ?u t] by (simp add: link_scene_ok_alt links_ok_def)
  moreover have "stations_ok ?u"
    using new(2) stations_okD [OF link_scene_okD(3) [OF assms]] unfolding link_scene_ok_alt stations_ok_def
    by (fastforce simp: t w_def)
  ultimately show ?thesis using new(1) Station by (simp add: scan_wifi_device_def link_scene_ok_alt)
next
  case (Access_point b)
  have "link_ok (s\<lparr>access_points := p\<rparr>) j l = link_ok s j l" for p j l by (rule link_ok_counts) simp_all
  with Access_point assms show ?thesis by (simp add: scan_wifi_device_def link_scene_ok_def stations_ok_def)
next
  case Other_device
  with assms show ?thesis by (simp add: scan_wifi_device_def)
qed

lemma scan_wifi_nodes_ok:
  assumes "link_scene_ok s"
  shows "fst (scan_wifi_nodes nodes s) = Inr () \<and> link_scene_ok (snd (scan_wifi_nodes nodes s))"
proof -
  let ?wifi = "\<lambda>t. \<forall>(d, v, i) \<in> set (stations s). i < length (link_objects t) \<and> wireless (link_objects t ! i)"
  let ?f = "\<lambda>(d :: nat, v :: nat, i). destroy_link i"
  have step: "fst (?f x t) = Inr () \<and> links_ok (snd (?f x t)) \<and> ?wifi (snd (?f x t))"
    if "x \<in> set (stations s)" "links_ok t \<and> ?wifi t" for x t
  proof -
    obtain d v i where x: "x = (d, v, i)" by (cases x)
    with that have i: "i < length (link_objects t)" "wireless (link_objects t ! i)" by auto
    have "wireless (link_objects (snd (destroy_link i t)) ! j) = wireless (link_objects t ! j)" for j
      using i by (cases "j = i") (simp_all add: destroy_link_def)
    moreover have "length (link_objects (snd (destroy_link i t))) = length (link_objects t)" by (simp add: destroy_link_def)
    moreover have "fst (destroy_link i t) = Inr ()" by (simp add: destroy_link_def)
    ultimately show ?thesis using that destroy_link_ok [OF _ i] by (simp add: x)
  qed
  have "links_ok s \<and> ?wifi s" using assms stations_okD by (fastforce simp: link_scene_ok_alt)
  then have "fst (io_for ?f (stations s) s) = Inr () \<and> links_ok (snd (io_for ?f (stations s) s)) \<and> ?wifi (snd (io_for ?f (stations s) s))"
    by (rule io_for_succeeds [where P = "\<lambda>t. links_ok t \<and> ?wifi t"]) (rule step)
  then obtain t where t: "io_for ?f (stations s) s = (Inr (), t)" "links_ok t"
    by (cases "io_for ?f (stations s) s") auto
  let ?t = "t\<lparr>access_points := [], stations := []\<rparr>"
  have "link_ok ?t j l = link_ok t j l" for j l by (rule link_ok_counts) simp_all
  with t(2) have ok: "link_scene_ok ?t" by (simp add: link_scene_ok_alt links_ok_def stations_ok_def)
  have inner: "fst (io_for (scan_wifi_device v) devices u) = Inr () \<and> link_scene_ok (snd (io_for (scan_wifi_device v) devices u))"
    if "link_scene_ok u" for v devices u
    using that by (rule io_for_succeeds) (rule scan_wifi_device_ok)
  let ?g = "\<lambda>(v, devices). io_for (scan_wifi_device v) devices"
  have "fst (io_for ?g nodes ?t) = Inr () \<and> link_scene_ok (snd (io_for ?g nodes ?t))"
    using ok by (rule io_for_succeeds) (simp only: inner split: prod.split, simp)
  with t(1) show ?thesis by (simp add: scan_wifi_nodes_def)
qed

text \<open>The periodic update, the update of the view, and all events.\<close>

lemma update_station_ok:
  assumes "link_scene_ok s" "(d, v, i) \<in> set (stations s)"
  shows "link_scene_ok (snd (update_station sim (d, v, i) s))"
    and "stations (snd (update_station sim (d, v, i) s)) = stations s"
  using stations_okD [OF link_scene_okD(3) [OF assms(1)] assms(2)] set_ap_ok [OF assms(1)] assms(1)
  by (auto simp: update_station_def Let_def split: prod.split option.split)

lemma monitor_periodic_update_ok:
  assumes "link_scene_ok s"
  shows "link_scene_ok (snd (monitor_periodic_update sim s))"
  using io_for_inv [of "\<lambda>t. link_scene_ok t \<and> stations t = stations s" s "stations s" "update_station sim"] assms update_station_ok
  by (fastforce simp: monitor_periodic_update_def)

lemma monitor_update_view_ok:
  assumes "link_scene_ok s"
  shows "monitor_update_view s = (Inr (), redraw (set (map (snd \<circ> snd) (stations s))) s)"
proof -
  have for_map: "io_for (\<lambda>(d, v, i). update_points i) ts = io_for update_points (map (snd \<circ> snd) ts)" for ts :: "(nat \<times> nat \<times> nat) list"
    by (induction ts) (auto split: prod.split)
  have "io_for update_points (map (snd \<circ> snd) (stations s)) s = (Inr (), redraw (set (map (snd \<circ> snd) (stations s))) s)"
    using assms stations_okD [OF link_scene_okD(3) [OF assms]]
    by (intro update_all_points) (auto intro: link_ok_ends [OF link_scene_okD(1) [OF assms]])
  then show ?thesis by (simp add: monitor_update_view_def for_map)
qed

lemma update_node_positions_ok:
  assumes "link_scene_ok s"
  shows "fst (update_node_positions mobile s) = Inr () \<and> link_scene_ok (snd (update_node_positions mobile s))"
  using assms unfolding update_node_positions_def
  by (intro io_for_succeeds) (simp_all add: set_end_position_succeeds split: prod.split)

lemma update_links_view_ok:
  assumes "link_scene_ok s"
  shows "fst (update_links_view mobile s) = Inr () \<and> link_scene_ok (snd (update_links_view mobile s))"
proof -
  obtain t where t: "update_node_positions mobile s = (Inr (), t)" "link_scene_ok t"
    using update_node_positions_ok [OF assms] by (metis prod.collapse)
  then show ?thesis by (simp add: update_links_view_def monitor_update_view_ok link_scene_ok_redraw)
qed

lemma link_event_ok: "link_scene_ok s \<Longrightarrow> link_scene_ok (snd (link_event_op e s))"
  by (cases e) (simp_all add: new_wired_link_ok set_end_position_succeeds scan_wifi_nodes_ok monitor_periodic_update_ok update_links_view_ok)

lemma link_scene_ok_init: "link_scene_ok link_scene_init"
  by (simp add: link_scene_ok_def link_scene_init_def stations_ok_def)

lemma link_scene_ok_run: "link_scene_ok s \<Longrightarrow> link_scene_ok (run_link_events es s)"
  unfolding run_link_events_def by (induction es arbitrary: s) (simp_all add: link_event_ok)

section \<open>Properties\<close>

text \<open>
  Wired links follow their ends: after anything that happened, a wired link that was ever drawn is drawn between
  the current places of its ends, and moving one of its ends draws it.
\<close>

theorem wired_links_follow:
  assumes "s = run_link_events es link_scene_init" "i < length (link_objects s)" "\<not> wireless (link_objects s ! i)"
  shows "\<exists>a b. node1 (link_objects s ! i) = Some a \<and> node2 (link_objects s ! i) = Some b \<and>
    drawn (link_objects s ! i) \<in> {None, Some (end_position s a, end_position s b)} \<and>
    drawn (link_objects (snd (set_end_position a p s)) ! i) = Some (p, if a = b then p else end_position s b) \<and>
    drawn (link_objects (snd (set_end_position b p s)) ! i) = Some (if a = b then p else end_position s a, p)"
proof -
  have ok: "link_scene_ok s" unfolding assms(1) by (rule link_scene_ok_run [OF link_scene_ok_init])
  have "wired_ok s i (link_objects s ! i)" using link_scene_okD(1) [OF ok assms(2)] assms(3) by (auto simp: link_ok_def split: if_splits)
  then obtain a b where ab: "node1 (link_objects s ! i) = Some a" "node2 (link_objects s ! i) = Some b"
      "i \<in> set (end_links s a)" "i \<in> set (end_links s b)"
      "drawn (link_objects s ! i) \<in> {None, Some (end_position s a, end_position s b)}" by (auto simp: wired_ok_def)
  have "drawn (link_objects (snd (set_end_position e p s)) ! i) = Some (((end_position s)(e := p)) a, ((end_position s)(e := p)) b)"
    if "i \<in> set (end_links s e)" for e
    using assms(2) ab(1,2) that by (simp add: set_end_position_ok(1) [OF ok] redrawn_def)
  from this [OF ab(3)] this [OF ab(4)] ab show ?thesis by auto
qed

text \<open>C18. A station's link is in the list of its access point, once, and in no other list; it is seen exactly then.\<close>

theorem station_links_registered:
  assumes "s = run_link_events es link_scene_init" "(d, v, i) \<in> set (stations s)"
  shows "node1 (link_objects s ! i) = Some (To_node v) \<and>
    count_list (end_links s e) i = (if node2 (link_objects s ! i) = Some e then 1 else 0) \<and>
    (if node2 (link_objects s ! i) = None then visible (link_objects s ! i) \<longrightarrow> drawn (link_objects s ! i) = None
     else visible (link_objects s ! i))"
proof -
  have ok: "link_scene_ok s" unfolding assms(1) by (rule link_scene_ok_run [OF link_scene_ok_init])
  note st = stations_okD [OF link_scene_okD(3) [OF ok] assms(2)]
  then have "wifi_ok s i (link_objects s ! i)" using link_scene_okD(1) [OF ok, of i] by (simp add: link_ok_def)
  with st show ?thesis by (simp add: wifi_ok_def)
qed

text \<open>The access point a station should be linked to, if the monitor can tell.\<close>

definition associated :: "(string, nat) dict \<Rightarrow> bool \<times> string \<Rightarrow> link_end option result" where
  "associated aps st = (let (up, bssid) = st in
     if \<not> up \<or> bssid = NO_BSSID then Inr None
     else case map_of aps bssid of None \<Rightarrow> Inl KeyError | Some ap \<Rightarrow> Inr (Some (To_node ap)))"

lemma update_station_alt:
  "update_station sim (d, v, i) s = (case associated (access_points s) (sim d) of Inl e \<Rightarrow> (Inl e, s) | Inr ap \<Rightarrow> set_ap i ap s)"
  by (auto simp: update_station_def associated_def Let_def split: prod.split option.split)

lemma update_stations:
  assumes "link_scene_ok s" "set sts \<subseteq> set (stations s)" "distinct (map (snd \<circ> snd) sts)"
    and "\<forall>(d, v, i) \<in> set sts. associated (access_points s) (sim d) = Inr (ap_of i)"
  shows "\<exists>t. io_for (update_station sim) sts s = (Inr (), t) \<and> link_scene_ok t \<and> stations t = stations s \<and>
      access_points t = access_points s \<and> end_position t = end_position s \<and> length (link_objects t) = length (link_objects s) \<and>
      (\<forall>(d, v, i) \<in> set sts. node2 (link_objects t ! i) = ap_of i) \<and>
      (\<forall>j. j \<notin> set (map (snd \<circ> snd) sts) \<longrightarrow> link_objects t ! j = link_objects s ! j)"
  using assms
proof (induction sts arbitrary: s)
  case (Cons x sts)
  obtain d v i where x: "x = (d, v, i)" by (cases x)
  have st: "i < length (link_objects s)" "wireless (link_objects s ! i)" "\<not> destroyed (link_objects s ! i)"
    using stations_okD [OF link_scene_okD(3) [OF Cons.prems(1)], of d v i] Cons.prems(2) x by auto
  note ok = set_ap_ok [OF Cons.prems(1) st, where ap = "ap_of i"]
  define u where "u = snd (set_ap i (ap_of i) s)"
  have first: "update_station sim x s = (Inr (), u)"
    using Cons.prems(4) ok(1) by (simp add: x u_def update_station_alt prod_eq_iff)
  have "\<exists>t. io_for (update_station sim) sts u = (Inr (), t) \<and> link_scene_ok t \<and> stations t = stations u \<and>
      access_points t = access_points u \<and> end_position t = end_position u \<and> length (link_objects t) = length (link_objects u) \<and>
      (\<forall>(d, v, i) \<in> set sts. node2 (link_objects t ! i) = ap_of i) \<and>
      (\<forall>j. j \<notin> set (map (snd \<circ> snd) sts) \<longrightarrow> link_objects t ! j = link_objects u ! j)"
    using Cons.prems ok(2-6) by (intro Cons.IH) (auto simp: u_def)
  then obtain t where t: "io_for (update_station sim) sts u = (Inr (), t)" "link_scene_ok t" "stations t = stations u"
      "access_points t = access_points u" "end_position t = end_position u" "length (link_objects t) = length (link_objects u)"
      "\<forall>(d, v, i) \<in> set sts. node2 (link_objects t ! i) = ap_of i"
      "\<forall>j. j \<notin> set (map (snd \<circ> snd) sts) \<longrightarrow> link_objects t ! j = link_objects u ! j" by blast
  have "node2 (link_objects t ! i) = ap_of i" using Cons.prems(3) t(8) ok(7) by (simp add: x u_def)
  moreover have "\<forall>j. j \<notin> set (map (snd \<circ> snd) (x # sts)) \<longrightarrow> link_objects t ! j = link_objects s ! j"
    using t(8) ok(8) by (auto simp: x u_def)
  ultimately show ?case
    using t(1-7) ok(3-6) first by (intro exI [of _ t]) (simp add: x u_def)
qed simp

text \<open>Moving ends changes nothing but where they are and where their links are drawn.\<close>

definition same_links :: "link_scene \<Rightarrow> link_scene \<Rightarrow> bool" where
  "same_links s t \<longleftrightarrow> stations t = stations s \<and> access_points t = access_points s \<and> end_links t = end_links s \<and>
     length (link_objects t) = length (link_objects s) \<and>
     (\<forall>i < length (link_objects s). node1 (link_objects t ! i) = node1 (link_objects s ! i) \<and>
        node2 (link_objects t ! i) = node2 (link_objects s ! i) \<and> visible (link_objects t ! i) = visible (link_objects s ! i))"

lemma same_links_trans: "same_links s t \<Longrightarrow> same_links t u \<Longrightarrow> same_links s u"
  by (simp add: same_links_def)

lemma set_end_position_same:
  assumes "link_scene_ok s"
  shows "same_links s (snd (set_end_position e p s))"
  by (simp add: set_end_position_ok(1) [OF assms] same_links_def)

lemma update_node_positions_same:
  assumes "link_scene_ok s"
  shows "same_links s (snd (update_node_positions mobile s))"
proof -
  let ?f = "\<lambda>(v, p). set_end_position (To_node v) (transform_point_simulation_to_canvas p)"
  have step: "link_scene_ok (snd (?f x t)) \<and> same_links s (snd (?f x t))" if "link_scene_ok t \<and> same_links s t" for x t
  proof -
    obtain v p where x: "x = (v, p)" by (cases x)
    from that show ?thesis
      unfolding x prod.case using set_end_position_succeeds set_end_position_same same_links_trans by blast
  qed
  have "link_scene_ok s \<and> same_links s s" using assms by (simp add: same_links_def)
  then have "link_scene_ok (snd (io_for ?f mobile s)) \<and> same_links s (snd (io_for ?f mobile s))"
    by (rule io_for_inv) (rule step)
  then show ?thesis by (simp add: update_node_positions_def)
qed

lemma update_node_positions_places:
  assumes "link_scene_ok s" "distinct (map fst mobile)" "(v, p) \<in> set mobile"
  shows "end_position (snd (update_node_positions mobile s)) (To_node v) = transform_point_simulation_to_canvas p"
  using assms
proof (induction mobile arbitrary: s)
  case (Cons x mobile)
  obtain w q where x: "x = (w, q)" by (cases x)
  let ?s = "snd (set_end_position (To_node w) (transform_point_simulation_to_canvas q) s)"
  have s: "set_end_position (To_node w) (transform_point_simulation_to_canvas q) s = (Inr (), ?s)" "link_scene_ok ?s"
    using set_end_position_succeeds [OF Cons.prems(1)] by (auto simp: prod_eq_iff)
  then have run: "update_node_positions (x # mobile) s = update_node_positions mobile ?s"
    by (simp add: update_node_positions_def x)
  have stays: "end_position (snd (update_node_positions ms t)) (To_node w) = end_position t (To_node w)"
    if "link_scene_ok t" "w \<notin> fst ` set ms" for ms t
    using that
  proof (induction ms arbitrary: t)
    case (Cons y ms)
    obtain u r where y: "y = (u, r)" by (cases y)
    let ?t = "snd (set_end_position (To_node u) (transform_point_simulation_to_canvas r) t)"
    have t: "set_end_position (To_node u) (transform_point_simulation_to_canvas r) t = (Inr (), ?t)" "link_scene_ok ?t"
      using set_end_position_succeeds [OF Cons.prems(1)] by (auto simp: prod_eq_iff)
    have "end_position ?t (To_node w) = end_position t (To_node w)"
      using Cons.prems(2) by (simp add: set_end_position_ok(1) [OF Cons.prems(1)] y)
    with t Cons show ?case by (simp add: update_node_positions_def y)
  qed (simp add: update_node_positions_def)
  show ?case
  proof (cases "v = w")
    case True
    then have "p = q" "w \<notin> fst ` set mobile" using Cons.prems(2,3) by (force simp: x)+
    with True run stays [OF s(2), of mobile] show ?thesis by (simp add: set_end_position_ok(1) [OF Cons.prems(1)])
  next
    case False
    with Cons.prems(2,3) run Cons.IH [OF s(2)] show ?thesis by (simp add: x)
  qed
qed simp

lemma distinct_links_function: "distinct (map (snd \<circ> snd) sts) \<Longrightarrow> \<exists>f. \<forall>(d, v, i) \<in> set sts. f i = g d"
  for sts :: "(nat \<times> nat \<times> nat) list" and g :: "nat \<Rightarrow> 'a"
proof -
  assume dist: "distinct (map (snd \<circ> snd) sts)"
  have fst: "map fst (map (\<lambda>(d, v, i). (i, d)) sts) = map (snd \<circ> snd) sts" by auto
  have "map_of (map (\<lambda>(d, v, i). (i, d)) sts) i = Some d" if "(d, v, i) \<in> set sts" for d v i
    using that dist by (intro map_of_is_SomeI) (auto simp: fst simp del: map_map intro: image_eqI [of _ _ "(d, v, i)"])
  then show ?thesis by (intro exI [of _ "\<lambda>i. g (the (map_of (map (\<lambda>(d, v, i). (i, d)) sts) i))"]) auto
qed

text \<open>C15. 
  If every station is down, without a BSSID or at a known one, the next sample links each to the access point of its
  BSSID, and the next update of the view draws each such link between the places of its ends.
\<close>

theorem associations_shown:
  assumes "s = run_link_events es link_scene_init" "t = run_link_events [Sample sim, Show mobile] s"
    and "\<forall>(d, v, i) \<in> set (stations s). \<exists>ap. associated (access_points s) (sim d) = Inr ap" "distinct (map fst mobile)"
  shows "stations t = stations s \<and> (\<forall>(v, p) \<in> set mobile. end_position t (To_node v) = transform_point_simulation_to_canvas p) \<and> (\<forall>(d, v, i) \<in> set (stations s). Inr (node2 (link_objects t ! i)) = associated (access_points s) (sim d) \<and>
      (\<forall>ap. node2 (link_objects t ! i) = Some ap \<longrightarrow> visible (link_objects t ! i) \<and>
         drawn (link_objects t ! i) = Some (end_position t (To_node v), end_position t ap)))"
proof -
  have ok: "link_scene_ok s" unfolding assms(1) by (rule link_scene_ok_run [OF link_scene_ok_init])
  note st = stations_okD [OF link_scene_okD(3) [OF ok]]
  have dist: "distinct (map (snd \<circ> snd) (stations s))" using link_scene_okD(3) [OF ok] by (simp add: stations_ok_def)
  obtain f where f: "\<forall>(d, v, i) \<in> set (stations s). f i = associated (access_points s) (sim d)"
    using distinct_links_function [OF dist, of "\<lambda>d. associated (access_points s) (sim d)"] by blast
  define ap_of where "ap_of i = (case f i of Inl e \<Rightarrow> None | Inr ap \<Rightarrow> ap)" for i
  have ap: "associated (access_points s) (sim d) = Inr (ap_of i)" if "(d, v, i) \<in> set (stations s)" for d v i
    using assms(3) f that by (fastforce simp: ap_of_def)
  obtain u where u: "monitor_periodic_update sim s = (Inr (), u)" "link_scene_ok u" "stations u = stations s"
      "length (link_objects u) = length (link_objects s)" "\<forall>(d, v, i) \<in> set (stations s). node2 (link_objects u ! i) = ap_of i"
    using update_stations [OF ok order_refl dist, of sim ap_of] ap unfolding monitor_periodic_update_def by blast
  define w where "w = snd (update_node_positions mobile u)"
  have w: "update_node_positions mobile u = (Inr (), w)" "link_scene_ok w" "same_links u w"
    using update_node_positions_ok [OF u(2)] update_node_positions_same [OF u(2)] by (auto simp: w_def prod_eq_iff)
  have t: "t = redraw (set (map (snd \<circ> snd) (stations s))) w"
    using u(1) w(1) monitor_update_view_ok [OF w(2)] w(3) u(3)
    by (simp add: assms(2) run_link_events_def update_links_view_def same_links_def)
  have final: "Inr (node2 (link_objects t ! i)) = associated (access_points s) (sim d) \<and>
      (\<forall>ap. node2 (link_objects t ! i) = Some ap \<longrightarrow> visible (link_objects t ! i) \<and>
         drawn (link_objects t ! i) = Some (end_position t (To_node v), end_position t ap))"
    if i: "(d, v, i) \<in> set (stations s)" for d v i
  proof -
    have len: "i < length (link_objects u)" "i < length (link_objects w)" using st [OF i] u(4) w(3) by (simp_all add: same_links_def)
    have "(d, v, i) \<in> set (stations w)" using i u(3) w(3) by (simp add: same_links_def)
    note sw = stations_okD [OF link_scene_okD(3) [OF w(2)] this]
    have n2: "node2 (link_objects w ! i) = ap_of i" using w(3) u(5) i len by (fastforce simp: same_links_def)
    have mem: "i \<in> set (map (snd \<circ> snd) (stations s))" using i by force
    have "link_ok w i (link_objects w ! i)" by (rule link_scene_okD(1) [OF w(2) len(2)])
    then have "node2 (link_objects w ! i) \<noteq> None \<longrightarrow> visible (link_objects w ! i)"
      using sw by (simp add: link_ok_def wifi_ok_def)
    with mem n2 sw len ap [OF i] show ?thesis by (cases "ap_of i") (simp_all add: t redrawn_def)
  qed
  have "stations t = stations s" using u(3) w(3) by (simp add: t same_links_def)
  moreover have "end_position t (To_node v) = transform_point_simulation_to_canvas p" if "(v, p) \<in> set mobile" for v p
    using update_node_positions_places [OF u(2) assms(4) that] by (simp add: t w_def)
  ultimately show ?thesis using final by blast
qed

text \<open>
  A station at a BSSID that no access point has ends the update with a \<^verbatim>\<open>KeyError\<close>: the stations after it keep
  the access points they had.
\<close>

theorem unknown_bssid_stops:
  assumes "link_scene_ok s" "stations s = xs @ (d, v, i) # ys"
    and "\<forall>(d, v, i) \<in> set xs. \<exists>ap. associated (access_points s) (sim d) = Inr ap"
    and "associated (access_points s) (sim d) = Inl KeyError"
  shows "fst (monitor_periodic_update sim s) = Inl KeyError \<and>
    (\<forall>(d, v, i) \<in> set xs. Inr (node2 (link_objects (snd (monitor_periodic_update sim s)) ! i)) = associated (access_points s) (sim d)) \<and>
    (\<forall>(d', v', j) \<in> set ((d, v, i) # ys). link_objects (snd (monitor_periodic_update sim s)) ! j = link_objects s ! j)"
proof -
  have dist: "distinct (map (snd \<circ> snd) (stations s))" using link_scene_okD(3) [OF assms(1)] by (simp add: stations_ok_def)
  then have dx: "distinct (map (snd \<circ> snd) xs)" by (simp add: assms(2))
  obtain f where f: "\<forall>(d, v, i) \<in> set xs. f i = associated (access_points s) (sim d)"
    using distinct_links_function [OF dx, of "\<lambda>d. associated (access_points s) (sim d)"] by blast
  define ap_of where "ap_of i = (case f i of Inl e \<Rightarrow> None | Inr ap \<Rightarrow> ap)" for i
  have ap: "associated (access_points s) (sim d) = Inr (ap_of i)" if "(d, v, i) \<in> set xs" for d v i
    using assms(3) f that by (fastforce simp: ap_of_def)
  have sub: "set xs \<subseteq> set (stations s)" by (auto simp: assms(2))
  obtain u where u: "io_for (update_station sim) xs s = (Inr (), u)" "access_points u = access_points s"
      "\<forall>(d, v, i) \<in> set xs. node2 (link_objects u ! i) = ap_of i"
      "\<forall>j. j \<notin> set (map (snd \<circ> snd) xs) \<longrightarrow> link_objects u ! j = link_objects s ! j"
    using update_stations [OF assms(1) sub dx, of sim ap_of] ap by blast
  have "update_station sim (d, v, i) u = (Inl KeyError, u)" using assms(4) by (simp add: update_station_alt u(2))
  then have run: "monitor_periodic_update sim s = (Inl KeyError, u)"
    using u(1) by (simp add: monitor_periodic_update_def assms(2) io_for_append)
  have "j \<notin> set (map (snd \<circ> snd) xs)" if "(d', v', j) \<in> set ((d, v, i) # ys)" for d' v' j
  proof -
    have "j \<in> set (map (snd \<circ> snd) ((d, v, i) # ys))" using that by force
    with dist show ?thesis by (auto simp: assms(2))
  qed
  with u(3,4) ap show ?thesis by (fastforce simp: run)
qed

lemma destroy_all:
  "end_links (snd (io_for (\<lambda>(d, v, i). destroy_link i) sts s)) = end_links s \<and>
   length (link_objects (snd (io_for (\<lambda>(d, v, i). destroy_link i) sts s))) = length (link_objects s) \<and>
   fst (io_for (\<lambda>(d, v, i). destroy_link i) sts s) = Inr () \<and>
   (\<forall>j < length (link_objects s). j \<in> set (map (snd \<circ> snd) sts) \<or> destroyed (link_objects s ! j) \<longrightarrow>
      destroyed (link_objects (snd (io_for (\<lambda>(d, v, i). destroy_link i) sts s)) ! j))"
  for sts :: "(nat \<times> nat \<times> nat) list"
proof (induction sts arbitrary: s)
  case (Cons x sts)
  obtain d v i where x: "x = (d, v, i)" by (cases x)
  let ?s = "snd (destroy_link i s)"
  have s: "destroy_link i s = (Inr (), ?s)" "end_links ?s = end_links s" "length (link_objects ?s) = length (link_objects s)"
    by (simp_all add: destroy_link_def change_link_def)
  have "destroyed (link_objects ?s ! j)" if "j < length (link_objects s)" "j = i \<or> destroyed (link_objects s ! j)" for j
    using that by (cases "j = i") (simp_all add: destroy_link_def)
  note s = s this
  show ?case using Cons.IH [of ?s] s by (auto simp: x)
qed simp

lemma scan_wifi_device_adds:
  "end_links (snd (scan_wifi_device v dev s)) = end_links s \<and> length (link_objects s) \<le> length (link_objects (snd (scan_wifi_device v dev s))) \<and>
   (\<forall>j < length (link_objects s). link_objects (snd (scan_wifi_device v dev s)) ! j = link_objects s ! j)"
  by (cases dev) (simp_all add: scan_wifi_device_def new_wifi_link_def set_ap_def Let_def io_bind_def nth_append)

text \<open>
  A scan destroys the links of the stations but leaves them in the lists of their access points, which therefore only
  grow; moving the access point still visits them.
\<close>

theorem rescan_leaves_links:
  assumes "s = run_link_events es link_scene_init"
  shows "end_links (snd (scan_wifi_nodes nodes s)) = end_links s \<and>
    (\<forall>(d, v, i) \<in> set (stations s). destroyed (link_objects (snd (scan_wifi_nodes nodes s)) ! i))"
proof -
  have ok: "link_scene_ok s" unfolding assms(1) by (rule link_scene_ok_run [OF link_scene_ok_init])
  define t where "t = snd (io_for (\<lambda>(d, v, i). destroy_link i) (stations s) s)"
  have t: "io_for (\<lambda>(d, v, i). destroy_link i) (stations s) s = (Inr (), t)" "end_links t = end_links s"
      "length (link_objects t) = length (link_objects s)"
      "\<And>j. j < length (link_objects s) \<Longrightarrow> j \<in> set (map (snd \<circ> snd) (stations s)) \<Longrightarrow> destroyed (link_objects t ! j)"
    using destroy_all [of "stations s" s] by (simp_all add: t_def prod_eq_iff)
  define u where "u = t\<lparr>access_points := [], stations := []\<rparr>"
  let ?P = "\<lambda>w. end_links w = end_links u \<and> length (link_objects u) \<le> length (link_objects w) \<and>
      (\<forall>j < length (link_objects u). link_objects w ! j = link_objects u ! j)"
  have dev: "?P (snd (scan_wifi_device v x w))" if "?P w" for v x w
    using that scan_wifi_device_adds [of v x w] by (metis order_trans order_less_le_trans)
  have devs: "?P (snd (io_for (scan_wifi_device v) xs w))" if "?P w" for v xs w
    using that by (rule io_for_inv) (rule dev)
  have "?P (snd (io_for (\<lambda>(v, devices). io_for (scan_wifi_device v) devices) nodes u))"
  proof (rule io_for_inv [where P = ?P])
    show "?P (snd ((\<lambda>(v, devices). io_for (scan_wifi_device v) devices) x w))" if "?P w" for x w
      using devs [OF that] by (cases x) simp
  qed simp
  moreover have "snd (scan_wifi_nodes nodes s) = snd (io_for (\<lambda>(v, devices). io_for (scan_wifi_device v) devices) nodes u)"
    using t(1) by (simp add: scan_wifi_nodes_def u_def)
  moreover have "i < length (link_objects s) \<and> i \<in> set (map (snd \<circ> snd) (stations s))" if "(d, v, i) \<in> set (stations s)" for d v i
    using stations_okD [OF link_scene_okD(3) [OF ok] that] that by force
  ultimately show ?thesis using t(2-4) by (fastforce simp: u_def)
qed

text \<open>Two stations, an access point and a wired node.\<close>

definition small_cell :: "link_event list" where
  "small_cell = [Wire 0 (To_node 3), Move (To_node 3) (6, 9),
     Scan [(0, [Access_point ''00:00:00:00:00:01'', Other_device]), (1, [Station 1]), (2, [Station 2])],
     Sample (\<lambda>d. (d = 1, ''00:00:00:00:00:01''))]"

lemma small_cell_run:
  "run_link_events small_cell link_scene_init =
     \<lparr>end_position = (\<lambda>e. (0, 0))(To_node 3 := (6, 9)),
      end_links = (\<lambda>e. [])(To_node 0 := [0, 1], To_node 3 := [0]),
      link_objects =
        [\<lparr>wireless = False, node1 = Some (To_node 0), node2 = Some (To_node 3), drawn = Some ((0, 0), (6, 9)), visible = True, destroyed = False\<rparr>,
         \<lparr>wireless = True, node1 = Some (To_node 1), node2 = Some (To_node 0), drawn = Some ((0, 0), (0, 0)), visible = True, destroyed = False\<rparr>,
         \<lparr>wireless = True, node1 = Some (To_node 2), node2 = None, drawn = None, visible = True, destroyed = False\<rparr>],
      access_points = [(''00:00:00:00:00:01'', 0)], stations = [(1, 1, 1), (2, 2, 2)]\<rparr>"
  by (simp add: small_cell_def run_link_events_def link_scene_init_def new_wired_link_def set_end_position_def update_points_def
      scan_wifi_nodes_def scan_wifi_device_def new_wifi_link_def set_ap_def monitor_periodic_update_def update_station_def NO_BSSID_def
      Let_def io_bind_def change_link_def change_links_def add_link_def fun_eq_iff)

theorem wired_links_follow_witness:
  "drawn (link_objects (snd (set_end_position (To_node 0) (3, 4) (run_link_events small_cell link_scene_init))) ! 0) =
     Some ((3, 4), (6, 9))"
  using wired_links_follow [OF refl, of 0 small_cell "(3, 4)"] by (simp add: small_cell_run)

theorem station_links_registered_witness:
  "count_list (end_links (run_link_events small_cell link_scene_init) (To_node 0)) 1 = 1"
  using station_links_registered [OF refl, of 1 1 1 small_cell "To_node 0"] by (simp add: small_cell_run)

theorem associations_shown_witness:
  "drawn (link_objects (run_link_events [Sample (\<lambda>d. (d = 1, ''00:00:00:00:00:01'')), Show [(0, (1, 2)), (1, (3, 5))]]
     (run_link_events small_cell link_scene_init)) ! 1) = Some ((9, 15), (3, 6))"
proof -
  let ?sim = "\<lambda>d. (d = 1, ''00:00:00:00:00:01'') :: bool \<times> string"
  have sts: "\<forall>(d, v, i) \<in> set (stations (run_link_events small_cell link_scene_init)).
      \<exists>ap. associated (access_points (run_link_events small_cell link_scene_init)) (?sim d) = Inr ap"
    by (simp add: small_cell_run associated_def NO_BSSID_def)
  show ?thesis
    using associations_shown [OF refl refl sts, of "[(0, (1, 2)), (1, (3, 5))]"]
    by (simp add: small_cell_run associated_def NO_BSSID_def transform_point_simulation_to_canvas_def PIXELS_PER_METER_def)
qed

theorem unknown_bssid_stops_witness:
  "node2 (link_objects (snd (monitor_periodic_update (\<lambda>d. (True, [CHR ''x''])) (run_link_events small_cell link_scene_init))) ! 1) =
     Some (To_node 0)"
  using unknown_bssid_stops [of "run_link_events small_cell link_scene_init" "[]" 1 1 1 "[(2, 2, 2)]" "\<lambda>d. (True, [CHR ''x''])"]
    link_scene_ok_run [OF link_scene_ok_init, of small_cell]
  by (simp add: small_cell_run associated_def NO_BSSID_def)

theorem rescan_leaves_links_witness:
  "end_links (snd (scan_wifi_nodes [] (run_link_events small_cell link_scene_init))) (To_node 0) = [0, 1]"
  using rescan_leaves_links [OF refl, of "[]" small_cell] by (simp add: small_cell_run)

end
