(* ===== verification/Viz_Windows.thy ===== *)
theory Viz_Windows
  imports Viz_Links
begin

text \<open>
  The information windows of the visualizer: the plugins \<^verbatim>\<open>interface_statistics.py\<close>, \<^verbatim>\<open>ipv4_routing_table.py\<close>,
  \<^verbatim>\<open>olsr.py\<close> and \<^verbatim>\<open>show_last_packets.py\<close> with the tables they fill, and their registry in
  \<^verbatim>\<open>visualizer/core.py\<close>, whose \<^verbatim>\<open>update_view\<close> updates them.  What the simulator's objects answer is given
  to the operations; addresses, times and packets are the texts they print as.
\<close>

section \<open>Interface statistics\<close>

record raw_stats =
  transmittedPackets :: int
  transmittedBytes :: int
  receivedPackets :: int
  receivedBytes :: int

record netdev_stats =
  txPackets :: int
  txBytes :: int
  rxPackets :: int
  rxBytes :: int
  txPacketRate :: rat
  rxPacketRate :: rat
  txBitRate :: rat
  rxBitRate :: rat

definition NODE_STATISTICS_MEMORY :: nat where
  "NODE_STATISTICS_MEMORY = 10"

text \<open>\<^verbatim>\<open>node_statistics\<close> has for each node the last samples, each with one entry for every interface.\<close>

type_synonym statistics = "(nat, raw_stats list list) dict"

definition collect_node :: "nat \<times> raw_stats list \<Rightarrow> statistics \<Rightarrow> statistics" where
  "collect_node = (\<lambda>(node, sample) st.
     let raw = (case map_of st node of None \<Rightarrow> [] | Some l \<Rightarrow> l)
     in AList.update node (push_sample NODE_STATISTICS_MEMORY sample raw) st)"

definition collect_statistics :: "(nat \<times> raw_stats list) list \<Rightarrow> statistics \<Rightarrow> statistics" where
  "collect_statistics samples st = fold collect_node samples st"

definition interface_rates :: "rat \<Rightarrow> raw_stats list \<Rightarrow> nat \<times> raw_stats \<Rightarrow> netdev_stats result" where
  "interface_rates k before = (\<lambda>(iface, now).
     res_bind (py_nth before (int iface)) (\<lambda>old. Inr
       \<lparr>txPackets = transmittedPackets now, txBytes = transmittedBytes now,
        rxPackets = receivedPackets now, rxBytes = receivedBytes now,
        txPacketRate = of_int (transmittedPackets now - transmittedPackets old) / k,
        rxPacketRate = of_int (receivedPackets now - receivedPackets old) / k,
        txBitRate = of_int ((transmittedBytes now - transmittedBytes old) * 8) / k,
        rxBitRate = of_int ((receivedBytes now - receivedBytes old) * 8) / k\<rparr>))"

fun map_result :: "('a \<Rightarrow> 'e + 'b) \<Rightarrow> 'a list \<Rightarrow> 'e + 'b list" where
  "map_result f [] = Inr []"
| "map_result f (x # xs) = res_bind (f x) (\<lambda>y. res_bind (map_result f xs) (\<lambda>ys. Inr (y # ys)))"

definition get_interface_statistics :: "rat \<Rightarrow> nat \<Rightarrow> statistics \<Rightarrow> netdev_stats list result" where
  "get_interface_statistics sample_period node st =
     (case map_of st node of
        None \<Rightarrow> Inr []
      | Some raw \<Rightarrow>
          if length raw < NODE_STATISTICS_MEMORY then Inr []
          else if length raw \<noteq> NODE_STATISTICS_MEMORY then Inl AssertionError
          else map_result (interface_rates (sample_period * (of_nat NODE_STATISTICS_MEMORY - 1)) (hd raw))
                 (enumerate 0 (last raw)))"

section \<open>Tables\<close>

text \<open>A row is appended first and then set.\<close>

datatype table_row =
    Stats_row string netdev_stats
  | Route_row string string string string int
  | Olsr_row string string string nat
  | Packet_row string string string string

type_synonym table = "table_row option list"

definition append_row :: "(table, unit) io" where
  "append_row = io_modify (\<lambda>t. t @ [None])"

definition set_row :: "table_row result \<Rightarrow> (table, unit) io" where
  "set_row r t = (case r of Inl e \<Rightarrow> (Inl e, t) | Inr row \<Rightarrow> (Inr (), butlast t @ [Some row]))"

definition fill_rows :: "('a \<Rightarrow> table_row result) \<Rightarrow> 'a list \<Rightarrow> (table, unit) io" where
  "fill_rows f xs = io_for (\<lambda>x. io_bind append_row (\<lambda>_. set_row (f x))) xs"

definition clear_table :: "(table, unit) io" where
  "clear_table = io_modify (\<lambda>t. [])"

definition interface_name :: "string \<Rightarrow> nat \<Rightarrow> string" where
  "interface_name name i = (if name = [] then ''(interface '' @ show_nat i @ '')'' else name)"

text \<open>The name of the device of an interface of the IP stack; no device is the loopback.\<close>

definition ip_interface_name :: "(nat \<Rightarrow> string option) \<Rightarrow> nat \<Rightarrow> string" where
  "ip_interface_name dev i = (case dev i of None \<Rightarrow> ''lo'' | Some name \<Rightarrow> interface_name name i)"

definition update_statistics_table ::
    "(nat \<Rightarrow> string) \<Rightarrow> netdev_stats list result \<Rightarrow> (table, unit) io" where
  "update_statistics_table name stats t =
     (case stats of
        Inl e \<Rightarrow> (Inl e, t)
      | Inr ss \<Rightarrow> io_bind clear_table (\<lambda>_. fill_rows (\<lambda>(i, s). Inr (Stats_row (interface_name (name i) i) s)) (enumerate 0 ss)) t)"

section \<open>Routing tables\<close>

record route =
  dest :: string
  gateway :: string
  out_interface :: nat

text \<open>
  The routing protocol of a node: a static or global one with its routes, a list of them with priorities, or another.
\<close>

datatype routing =
    Static_routing "route list"
  | Global_routing "route list"
  | List_routing "(routing \<times> int) list"
  | Other_routing

definition listed_protocol :: "routing \<times> int \<Rightarrow> (route list \<times> string \<times> int) list" where
  "listed_protocol = (\<lambda>(r, prio). case r of
       Static_routing rs \<Rightarrow> [(rs, ''static'', prio)]
     | Global_routing rs \<Rightarrow> [(rs, ''global'', prio)]
     | _ \<Rightarrow> [])"

definition routing_protocols :: "routing \<Rightarrow> (route list \<times> string \<times> int) list" where
  "routing_protocols r = (case r of
       Static_routing rs \<Rightarrow> [(rs, ''static'', 0)]
     | List_routing ps \<Rightarrow> concat (map listed_protocol ps)
     | _ \<Rightarrow> [])"

text \<open>The IP stack of a node: its devices and its routing protocol.\<close>

record ip_stack =
  net_device :: "nat \<Rightarrow> string option"
  protocol :: "routing option"

definition update_routing_table :: "ip_stack option \<Rightarrow> (table, unit) io" where
  "update_routing_table ipv4 t =
     (case ipv4 of
        None \<Rightarrow> (Inl AttributeError, t)
      | Some ip \<Rightarrow>
          (case protocol ip of
             None \<Rightarrow> (Inr (), t)
           | Some r \<Rightarrow>
               if routing_protocols r = [] then (Inr (), t)
               else io_bind clear_table (\<lambda>_.
                 io_for (\<lambda>(rs, kind, prio). fill_rows (\<lambda>rt. Inr (Route_row (dest rt) (gateway rt)
                     (ip_interface_name (net_device ip) (out_interface rt)) kind prio)) rs) (routing_protocols r)) t))"

record olsr_entry =
  destAddr :: string
  nextAddr :: string
  olsr_interface :: nat
  distance :: nat

definition update_olsr_table :: "olsr_entry list option \<Rightarrow> ip_stack option \<Rightarrow> (table, unit) io" where
  "update_olsr_table olsr ipv4 t =
     (case olsr of
        None \<Rightarrow> (Inr (), t)
      | Some entries \<Rightarrow>
          io_bind clear_table (\<lambda>_. fill_rows (\<lambda>e.
            (case ipv4 of
               None \<Rightarrow> Inl AttributeError
             | Some ip \<Rightarrow> Inr (Olsr_row (destAddr e) (nextAddr e)
                 (ip_interface_name (net_device ip) (olsr_interface e)) (distance e)))) entries) t)"

section \<open>Last packets\<close>

text \<open>A sample: its time, the index and name of its device if it has one, the size and contents of the packet.\<close>

record packet_sample =
  sample_time :: string
  sample_device :: "(nat \<times> string) option"
  packet_size :: nat
  packet_text :: string

definition packet_row :: "packet_sample \<Rightarrow> table_row" where
  "packet_row p = Packet_row (sample_time p)
     (case sample_device p of None \<Rightarrow> ''(unknown)'' | Some (i, name) \<Rightarrow> interface_name name i)
     (show_nat (packet_size p)) (packet_text p)"

definition update_packet_list :: "packet_sample list \<Rightarrow> (table, unit) io" where
  "update_packet_list ps = io_bind clear_table (\<lambda>_. fill_rows (\<lambda>p. Inr (packet_row p)) ps)"

section \<open>The packet filter\<close>

text \<open>
  The types registered with the simulator are numbered; \<open>parent\<close> is \<^verbatim>\<open>GetParent\<close> where \<^verbatim>\<open>HasParent\<close> holds.
  The loop up the chain of parents ends when it reaches one of the two base types or a type without a parent.
\<close>

partial_function (option) header_or_trailer :: "nat set \<Rightarrow> (nat \<Rightarrow> nat option) \<Rightarrow> nat \<Rightarrow> bool option" where
  "header_or_trailer bases parent t =
     (if t \<in> bases then Some True
      else case parent t of None \<Rightarrow> Some False | Some p \<Rightarrow> header_or_trailer bases parent p)"

record type_config =
  config_name :: string
  config_type :: nat
  config_selected :: bool

fun packet_filter_list ::
    "nat \<Rightarrow> nat \<Rightarrow> (nat \<Rightarrow> nat option) \<Rightarrow> (nat \<Rightarrow> string) \<Rightarrow> nat list \<Rightarrow> type_config list option" where
  "packet_filter_list header trailer parent name [] = Some []"
| "packet_filter_list header trailer parent name (t # ts) =
     (case header_or_trailer {header, trailer} parent t of
        None \<Rightarrow> None
      | Some good \<Rightarrow>
          (case packet_filter_list header trailer parent name ts of
             None \<Rightarrow> None
           | Some cs \<Rightarrow>
               Some (if \<not> good \<or> t \<in> {header, trailer} then cs
                     else \<lparr>config_name = name t, config_type = t, config_selected = True\<rparr> # cs)))"

datatype capture_mode = Filter_headers_AND | Filter_headers_OR

record capture_options =
  capture_mode :: capture_mode
  num_last_packets :: nat
  capture_headers :: "nat list"

text \<open>\<open>sent\<close> are the options last given to the simulator for the node.\<close>

record packet_filter =
  filter_list :: "type_config list"
  op_and :: bool
  sent :: "capture_options option"

definition update_capture_options :: "packet_filter \<Rightarrow> packet_filter" where
  "update_capture_options w = w\<lparr>sent := Some
     \<lparr>capture_mode = (if op_and w then Filter_headers_AND else Filter_headers_OR), num_last_packets = 100,
      capture_headers = map config_type (filter config_selected (filter_list w))\<rparr>\<rparr>"

definition new_packet_filter :: "type_config list \<Rightarrow> packet_filter" where
  "new_packet_filter cs = update_capture_options \<lparr>filter_list = cs, op_and = False, sent = None\<rparr>"

definition select_all :: "bool \<Rightarrow> packet_filter \<Rightarrow> packet_filter" where
  "select_all b w = update_capture_options (w\<lparr>filter_list := map (\<lambda>c. c\<lparr>config_selected := b\<rparr>) (filter_list w)\<rparr>)"

text \<open>The events of the widgets: both buttons, a cell of the list edited, and a radio button made active.\<close>

datatype filter_event = Select_all | Select_none | Cell_edited nat bool | Radio_AND | Radio_OR

definition set_op_and :: "bool \<Rightarrow> packet_filter \<Rightarrow> packet_filter" where
  "set_op_and b w = (if op_and w = b then w else update_capture_options (w\<lparr>op_and := b\<rparr>))"

fun on_filter_event :: "filter_event \<Rightarrow> packet_filter \<Rightarrow> packet_filter" where
  "on_filter_event Select_all w = select_all True w"
| "on_filter_event Select_none w = select_all False w"
| "on_filter_event (Cell_edited k b) w =
     update_capture_options (w\<lparr>filter_list := (filter_list w)[k := (filter_list w ! k)\<lparr>config_selected := b\<rparr>]\<rparr>)"
| "on_filter_event Radio_AND w = set_op_and True w"
| "on_filter_event Radio_OR w = set_op_and False w"

section \<open>The windows and the view\<close>

text \<open>What the simulator answers in one update of the view.\<close>

record simulator =
  node_samples :: "nat \<Rightarrow> nat \<Rightarrow> string"
  ip_of :: "nat \<Rightarrow> ip_stack option"
  olsr_of :: "nat \<Rightarrow> olsr_entry list option"
  packets_of :: "nat \<Rightarrow> packet_sample list \<times> packet_sample list \<times> packet_sample list"
  mobile_nodes :: "(nat \<times> (rat \<times> rat)) list"

datatype window_kind = Statistics_window | Routing_window | Olsr_window | Packets_window

text \<open>The last packets have three tables, the others use the first.\<close>

record info_window =
  window_kind :: window_kind
  window_node :: nat
  table1 :: table
  table2 :: table
  table3 :: table

record viewer =
  info_windows :: "nat list"
  window_of :: "nat \<Rightarrow> info_window"
  node_statistics :: statistics
  link_view :: link_scene
  view_updates :: nat

definition on_table1 :: "nat \<Rightarrow> (table, unit) io \<Rightarrow> (viewer, unit) io" where
  "on_table1 w f v = (let (r, t) = f (table1 (window_of v w))
     in (r, v\<lparr>window_of := (window_of v)(w := (window_of v w)\<lparr>table1 := t\<rparr>)\<rparr>))"

definition on_table2 :: "nat \<Rightarrow> (table, unit) io \<Rightarrow> (viewer, unit) io" where
  "on_table2 w f v = (let (r, t) = f (table2 (window_of v w))
     in (r, v\<lparr>window_of := (window_of v)(w := (window_of v w)\<lparr>table2 := t\<rparr>)\<rparr>))"

definition on_table3 :: "nat \<Rightarrow> (table, unit) io \<Rightarrow> (viewer, unit) io" where
  "on_table3 w f v = (let (r, t) = f (table3 (window_of v w))
     in (r, v\<lparr>window_of := (window_of v)(w := (window_of v w)\<lparr>table3 := t\<rparr>)\<rparr>))"

definition update_window :: "rat \<Rightarrow> simulator \<Rightarrow> nat \<Rightarrow> (viewer, unit) io" where
  "update_window sample_period sim w v =
     (let n = window_node (window_of v w) in
      case window_kind (window_of v w) of
        Statistics_window \<Rightarrow>
          on_table1 w (update_statistics_table (node_samples sim n) (get_interface_statistics sample_period n (node_statistics v))) v
      | Routing_window \<Rightarrow> on_table1 w (update_routing_table (ip_of sim n)) v
      | Olsr_window \<Rightarrow> on_table1 w (update_olsr_table (olsr_of sim n) (ip_of sim n)) v
      | Packets_window \<Rightarrow>
          (let (tx, rx, dropped) = packets_of sim n in
           io_bind (on_table1 w (update_packet_list tx)) (\<lambda>_.
           io_bind (on_table2 w (update_packet_list rx)) (\<lambda>_.
           on_table3 w (update_packet_list dropped))) v))"

text \<open>\<^verbatim>\<open>add_information_window\<close>, and the handler of a window's close button, which removes it.\<close>

definition add_information_window :: "rat \<Rightarrow> simulator \<Rightarrow> nat \<Rightarrow> (viewer, unit) io" where
  "add_information_window sample_period sim w =
     io_bind (io_modify (\<lambda>v. v\<lparr>info_windows := info_windows v @ [w]\<rparr>)) (\<lambda>_. update_window sample_period sim w)"

definition remove_information_window :: "nat \<Rightarrow> (viewer, unit) io" where
  "remove_information_window w v =
     (if w \<in> set (info_windows v) then (Inr (), v\<lparr>info_windows := remove1 w (info_windows v)\<rparr>) else (Inl ValueError, v))"

definition on_links :: "(link_scene, unit) io \<Rightarrow> (viewer, unit) io" where
  "on_links f v = (let (r, l) = f (link_view v) in (r, v\<lparr>link_view := l\<rparr>))"

text \<open>
  \<^verbatim>\<open>update_view\<close>: the nodes, the windows, then transmissions and drops, of which only the outcome \<open>drawing\<close> matters
  here, and the signal by which the monitor of wifi links draws its links; \<open>view_updates\<close> counts the emissions of that signal.
\<close>

definition update_view :: "rat \<Rightarrow> simulator \<Rightarrow> unit result \<Rightarrow> (viewer, unit) io" where
  "update_view sample_period sim drawing =
     io_bind (on_links (update_node_positions (mobile_nodes sim))) (\<lambda>_.
     io_bind (\<lambda>v. io_for (update_window sample_period sim) (info_windows v) v) (\<lambda>_.
     io_bind (\<lambda>v. (drawing, v)) (\<lambda>_.
     io_bind (io_modify (\<lambda>v. v\<lparr>view_updates := Suc (view_updates v)\<rparr>)) (\<lambda>_.
     on_links monitor_update_view))))"

section \<open>Statistics over the window\<close>

definition node_column :: "nat \<Rightarrow> (nat \<times> raw_stats list) list list \<Rightarrow> raw_stats list list" where
  "node_column n hist = map snd (filter (\<lambda>p. fst p = n) (concat hist))"

definition rates :: "rat \<Rightarrow> raw_stats \<Rightarrow> raw_stats \<Rightarrow> netdev_stats" where
  "rates k old now =
     \<lparr>txPackets = transmittedPackets now, txBytes = transmittedBytes now,
      rxPackets = receivedPackets now, rxBytes = receivedBytes now,
      txPacketRate = of_int (transmittedPackets now - transmittedPackets old) / k,
      rxPacketRate = of_int (receivedPackets now - receivedPackets old) / k,
      txBitRate = of_int ((transmittedBytes now - transmittedBytes old) * 8) / k,
      rxBitRate = of_int ((receivedBytes now - receivedBytes old) * 8) / k\<rparr>"

lemma node_column_snoc: "map snd (filter (\<lambda>p. fst p = n) (xs @ [(m, l)])) =
    map snd (filter (\<lambda>p. fst p = n) xs) @ (if m = n then [l] else [])"
  by simp

lemma collect_nodes:
  "map_of (fold collect_node xs []) n =
     (if map snd (filter (\<lambda>p. fst p = n) xs) = [] then None else Some (last_of 10 (map snd (filter (\<lambda>p. fst p = n) xs))))"
proof (induction xs rule: rev_induct)
  case (snoc x xs)
  obtain m l where x: "x = (m, l)" by (cases x)
  have step: "map_of (collect_node (m, l) st) n =
      (if m = n then Some (push_sample 10 l (case map_of st n of None \<Rightarrow> [] | Some r \<Rightarrow> r)) else map_of st n)" for st m l
    by (auto simp: collect_node_def NODE_STATISTICS_MEMORY_def Let_def)
  have single: "last_of 10 [l] = [l]" by (simp add: last_of_def)
  show ?case
  proof (cases "m = n")
    case True
    have "map_of (fold collect_node (xs @ [x]) []) n =
        Some (push_sample 10 l (last_of 10 (map snd (filter (\<lambda>p. fst p = n) xs))))"
      using True by (simp add: x step snoc.IH) (simp add: last_of_def)
    with True show ?thesis unfolding x node_column_snoc by (simp add: push_sample_last last_of_append)
  next
    case False
    then have "map_of (fold collect_node (xs @ [x]) []) n = map_of (fold collect_node xs []) n" by (simp add: x step)
    with False snoc.IH show ?thesis unfolding x node_column_snoc by simp
  qed
qed simp

lemma collect_statistics_window:
  "map_of (fold collect_statistics hist []) n =
     (if node_column n hist = [] then None else Some (last_of 10 (node_column n hist)))"
proof -
  have "fold collect_statistics hist st = fold collect_node (concat hist) st" for st
    by (induction hist arbitrary: st) (simp_all add: collect_statistics_def)
  then show ?thesis by (simp only: collect_nodes node_column_def)
qed

lemma map_result_Inr: "(\<And>x. x \<in> set xs \<Longrightarrow> f x = Inr (g x)) \<Longrightarrow> map_result f xs = Inr (map g xs)"
  by (induction xs) auto

lemma map_result_Inl:
  assumes "\<forall>x \<in> set xs. \<forall>e'. f x = Inl e' \<longrightarrow> e' = e" "\<exists>x \<in> set xs. f x = Inl e"
  shows "map_result f xs = Inl e"
  using assms
proof (induction xs)
  case (Cons y xs)
  show ?case
  proof (cases "f y")
    case (Inl e')
    with Cons.prems(1) show ?thesis by simp
  next
    case (Inr z)
    with Cons have "map_result f xs = Inl e" by simp
    with Inr show ?thesis by simp
  qed
qed simp

lemma interface_rates_cases:
  "interface_rates k before (i, now) = (if i < length before then Inr (rates k (before ! i) now) else Inl IndexError)"
  by (simp add: interface_rates_def rates_def py_nth_def Let_def)

text \<open>
  What a window of statistics gets: nothing until there are ten samples of the node, then for each interface the counts
  of the last sample and their growth since the tenth last, over nine periods.  When the node has more interfaces than it had
  then, the reading of the statistics fails.
\<close>

theorem interface_statistics:
  "get_interface_statistics p n (fold collect_statistics hist []) =
     (let c = node_column n hist; old = c ! (length c - 10); now = last c in
      if length c < 10 then Inr []
      else if length old < length now then Inl IndexError
      else Inr (map2 (rates (9 * p)) old now))"
proof -
  define c where "c = node_column n hist"
  show ?thesis
  proof (cases "length c < 10")
    case True
    then show ?thesis
      by (simp add: get_interface_statistics_def collect_statistics_window c_def [symmetric] NODE_STATISTICS_MEMORY_def)
  next
    case False
    define old where "old = c ! (length c - 10)"
    define now where "now = last c"
    let ?f = "interface_rates (p * 9) old"
    have ends: "hd (last_of 10 c) = old" "last (last_of 10 c) = now" "length (last_of 10 c) = 10" "c \<noteq> []"
      using False by (auto simp: last_of_def hd_drop_conv_nth old_def now_def)
    then have get: "get_interface_statistics p n (fold collect_statistics hist []) = map_result ?f (enumerate 0 now)"
      by (simp add: get_interface_statistics_def collect_statistics_window c_def [symmetric] NODE_STATISTICS_MEMORY_def)
    show ?thesis
    proof (cases "length old < length now")
      case True
      have "map_result ?f (enumerate 0 now) = Inl IndexError"
      proof (rule map_result_Inl)
        have "(length old, now ! length old) \<in> set (enumerate 0 now)" using True by (simp add: in_set_enumerate_eq)
        then show "\<exists>x \<in> set (enumerate 0 now). ?f x = Inl IndexError"
          by (intro bexI [of _ "(length old, now ! length old)"]) (simp_all add: interface_rates_cases)
      qed (auto simp: interface_rates_cases split: if_splits)
      with True False get show ?thesis by (simp add: c_def [symmetric] old_def now_def Let_def)
    next
      case le: False
      have "map_result ?f (enumerate 0 now) = Inr (map (\<lambda>(i, x). rates (p * 9) (old ! i) x) (enumerate 0 now))"
        using le by (intro map_result_Inr) (auto simp: interface_rates_cases in_set_enumerate_eq)
      also have "map (\<lambda>(i, x). rates (p * 9) (old ! i) x) (enumerate 0 now) = map2 (rates (9 * p)) old now"
        using le by (intro nth_equalityI) (auto simp: nth_enumerate_eq mult.commute)
      finally show ?thesis using le False get by (simp add: c_def [symmetric] old_def now_def Let_def)
    qed
  qed
qed

section \<open>What the tables show\<close>

lemma fill_rows_succeeds: "(\<And>x. x \<in> set xs \<Longrightarrow> f x = Inr (g x)) \<Longrightarrow> fill_rows f xs t = (Inr (), t @ map (Some \<circ> g) xs)"
  by (induction xs arbitrary: t) (auto simp: fill_rows_def append_row_def set_row_def io_bind_def)

lemma fill_rows_fails: "f x = Inl e \<Longrightarrow> fill_rows f (x # xs) t = (Inl e, t @ [None])"
  by (simp add: fill_rows_def append_row_def set_row_def io_bind_def)

text \<open>
  The routing table of a node with an IP stack lists the routes of its static and global protocols, in order and with their
  priorities; without any such protocol the table is left as it was, with the routes of an earlier protocol if there was one.
\<close>

definition protocol_rows :: "ip_stack \<Rightarrow> routing \<Rightarrow> table_row list" where
  "protocol_rows ip r = concat (map (\<lambda>(rs, kind, prio).
     map (\<lambda>rt. Route_row (dest rt) (gateway rt) (ip_interface_name (net_device ip) (out_interface rt)) kind prio) rs)
     (routing_protocols r))"

theorem routing_table_rows:
  "update_routing_table (Some ip) t =
     (Inr (), case protocol ip of None \<Rightarrow> t
              | Some r \<Rightarrow> if routing_protocols r = [] then t else map Some (protocol_rows ip r))"
proof -
  let ?row = "\<lambda>kind prio rt. Route_row (dest rt) (gateway rt) (ip_interface_name (net_device ip) (out_interface rt)) kind prio"
  have rows: "io_for (\<lambda>(rs, kind, prio). fill_rows (\<lambda>rt. Inr (?row kind prio rt)) rs) ps t =
      (Inr (), t @ map Some (concat (map (\<lambda>(rs, kind, prio). map (?row kind prio) rs) ps)))" for ps t
  proof (induction ps arbitrary: t)
    case (Cons x ps)
    obtain rs kind prio where x: "x = (rs, kind, prio)" by (cases x)
    have "fill_rows (\<lambda>rt. Inr (?row kind prio rt)) rs t = (Inr (), t @ map (Some \<circ> ?row kind prio) rs)"
      by (rule fill_rows_succeeds) simp
    with Cons.IH show ?case by (simp add: x)
  qed simp
  show ?thesis
    by (cases "protocol ip") (simp_all add: update_routing_table_def protocol_rows_def clear_table_def io_bind_def rows)
qed

section \<open>What the packet filter offers and sends\<close>

fun ancestor :: "(nat \<Rightarrow> nat option) \<Rightarrow> nat \<Rightarrow> nat \<Rightarrow> nat option" where
  "ancestor parent 0 t = Some t"
| "ancestor parent (Suc k) t = (case parent t of None \<Rightarrow> None | Some p \<Rightarrow> ancestor parent k p)"

definition descends :: "(nat \<Rightarrow> nat option) \<Rightarrow> nat set \<Rightarrow> nat \<Rightarrow> bool" where
  "descends parent bases t \<longleftrightarrow> (\<exists>k. \<exists>b \<in> bases. ancestor parent k t = Some b)"

lemma descends_step:
  "t \<notin> bases \<Longrightarrow> descends parent bases t \<longleftrightarrow> (\<exists>p. parent t = Some p \<and> descends parent bases p)"
proof
  assume "t \<notin> bases" "descends parent bases t"
  then obtain k b where k: "ancestor parent k t = Some b" "b \<in> bases" by (auto simp: descends_def)
  with \<open>t \<notin> bases\<close> show "\<exists>p. parent t = Some p \<and> descends parent bases p"
    by (cases k) (auto simp: descends_def split: option.splits)
next
  assume "\<exists>p. parent t = Some p \<and> descends parent bases p"
  then obtain p k b where "parent t = Some p" "ancestor parent k p = Some b" "b \<in> bases" by (auto simp: descends_def)
  then show "descends parent bases t" unfolding descends_def by (intro exI [of _ "Suc k"] bexI [of _ b]) simp_all
qed

lemma header_or_trailer_result:
  "ancestor parent k t = None \<Longrightarrow> header_or_trailer bases parent t = Some (descends parent bases t)"
proof (induction k arbitrary: t)
  case (Suc k)
  show ?case
  proof (cases "t \<in> bases")
    case True
    then have "descends parent bases t" unfolding descends_def by (intro exI [of _ 0]) auto
    with True show ?thesis by (simp add: header_or_trailer.simps)
  next
    case False
    show ?thesis
    proof (cases "parent t")
      case None
      with False show ?thesis by (simp add: header_or_trailer.simps descends_step)
    next
      case (Some p)
      with Suc.prems have "header_or_trailer bases parent p = Some (descends parent bases p)" by (simp add: Suc.IH)
      with False Some show ?thesis by (simp add: header_or_trailer.simps [of bases parent t] descends_step)
    qed
  qed
qed simp

text \<open>
  When every chain of parents ends, the loop over the registered types ends, and the list offers exactly the
  descendants of the two base types, without these, all selected.
\<close>

theorem filter_offers_headers:
  assumes "\<forall>t \<in> set types. \<exists>k. ancestor parent k t = None"
  shows "packet_filter_list header trailer parent name types =
    Some (map (\<lambda>t. \<lparr>config_name = name t, config_type = t, config_selected = True\<rparr>)
      (filter (\<lambda>t. t \<notin> {header, trailer} \<and> descends parent {header, trailer} t) types))"
  using assms
proof (induction types)
  case (Cons t types)
  from Cons.prems obtain k where "ancestor parent k t = None" by auto
  then have "header_or_trailer {header, trailer} parent t = Some (descends parent {header, trailer} t)"
    by (rule header_or_trailer_result)
  with Cons show ?case by simp
qed simp

theorem filter_offers_headers_witness:
  "packet_filter_list 1 2 (\<lambda>t. if t \<in> {0, 1, 2} then None else Some (t - 2)) show_nat [0, 1, 2, 3, 4, 5, 6] =
    Some (map (\<lambda>t. \<lparr>config_name = show_nat t, config_type = t, config_selected = True\<rparr>) [3, 4, 5, 6])"
proof -
  let ?p = "\<lambda>t :: nat. if t \<in> {0, 1, 2} then None else Some (t - 2)"
  have chains: "\<forall>t \<in> set [0, 1, 2, 3, 4, 5, 6 :: nat]. \<exists>k. ancestor ?p k t = None"
    by (auto intro: exI [of _ "Suc (Suc (Suc (Suc 0)))"])
  have d: "descends ?p {1, 2} 3" "descends ?p {1, 2} 4" "descends ?p {1, 2} 5" "descends ?p {1, 2} 6" "\<not> descends ?p {1, 2} 0"
    by (simp_all add: descends_step) (simp_all add: descends_def exI [of _ "0 :: nat"])
  show ?thesis using filter_offers_headers [OF chains, of 1 2 show_nat] d by simp
qed

text \<open>
  The simulator always has the options the dialog shows: the mode of the buttons and the selected types, in order.
\<close>

theorem filter_sent_current:
  "let w = fold on_filter_event es (new_packet_filter cs) in
     sent w = Some \<lparr>capture_mode = (if op_and w then Filter_headers_AND else Filter_headers_OR), num_last_packets = 100,
       capture_headers = map config_type (filter config_selected (filter_list w))\<rparr> \<and>
     map config_type (filter_list w) = map config_type cs"
proof -
  define current where "current w \<longleftrightarrow>
      sent w = Some \<lparr>capture_mode = (if op_and w then Filter_headers_AND else Filter_headers_OR), num_last_packets = 100,
        capture_headers = map config_type (filter config_selected (filter_list w))\<rparr> \<and>
      map config_type (filter_list w) = map config_type cs" for w :: packet_filter
  have step: "current (on_filter_event e w)" if "current w" for e w
  proof (cases e)
    case (Cell_edited k b)
    have "map config_type ((filter_list w)[k := (filter_list w ! k)\<lparr>config_selected := b\<rparr>]) = map config_type (filter_list w)"
      by (cases "k < length (filter_list w)") (auto simp: map_update list_update_beyond list_update_same_conv)
    with that Cell_edited show ?thesis by (simp add: current_def update_capture_options_def)
  qed (use that in \<open>auto simp: current_def update_capture_options_def select_all_def set_op_and_def o_def\<close>)
  have "current (new_packet_filter cs)" by (simp add: current_def new_packet_filter_def update_capture_options_def)
  then have "current (fold on_filter_event es (new_packet_filter cs))"
    by (induction es arbitrary: cs rule: rev_induct) (simp_all add: step)
  then show ?thesis by (simp add: current_def Let_def)
qed

section \<open>Windows in the view\<close>

text \<open>What an update makes of a window's tables.\<close>

definition refreshed :: "rat \<Rightarrow> simulator \<Rightarrow> statistics \<Rightarrow> info_window \<Rightarrow> unit result \<times> info_window" where
  "refreshed p sim st win = (let n = window_node win in
     case window_kind win of
       Statistics_window \<Rightarrow> (let (r, t) = update_statistics_table (node_samples sim n) (get_interface_statistics p n st) (table1 win)
         in (r, win\<lparr>table1 := t\<rparr>))
     | Routing_window \<Rightarrow> (let (r, t) = update_routing_table (ip_of sim n) (table1 win) in (r, win\<lparr>table1 := t\<rparr>))
     | Olsr_window \<Rightarrow> (let (r, t) = update_olsr_table (olsr_of sim n) (ip_of sim n) (table1 win) in (r, win\<lparr>table1 := t\<rparr>))
     | Packets_window \<Rightarrow> (let (tx, rx, dropped) = packets_of sim n; rows = map (Some \<circ> packet_row)
         in (Inr (), win\<lparr>table1 := rows tx, table2 := rows rx, table3 := rows dropped\<rparr>)))"

lemma update_packet_list_rows: "update_packet_list ps t = (Inr (), map (Some \<circ> packet_row) ps)"
  using fill_rows_succeeds [of ps "\<lambda>p. Inr (packet_row p)" packet_row "[]"]
  by (simp add: update_packet_list_def clear_table_def io_bind_def)

lemma update_window_refreshes:
  "update_window p sim w v = (fst (refreshed p sim (node_statistics v) (window_of v w)),
     v\<lparr>window_of := (window_of v)(w := snd (refreshed p sim (node_statistics v) (window_of v w)))\<rparr>)"
  by (cases "window_kind (window_of v w)")
    (simp_all add: update_window_def refreshed_def on_table1_def on_table2_def on_table3_def update_packet_list_rows
       io_bind_def Let_def split: prod.split)

definition refresh_all :: "rat \<Rightarrow> simulator \<Rightarrow> nat set \<Rightarrow> viewer \<Rightarrow> viewer" where
  "refresh_all p sim W v = v\<lparr>window_of := (\<lambda>w. if w \<in> W then snd (refreshed p sim (node_statistics v) (window_of v w)) else window_of v w)\<rparr>"

lemma refresh_windows:
  assumes "distinct ws" "\<forall>w \<in> set ws. fst (refreshed p sim (node_statistics v) (window_of v w)) = Inr ()"
  shows "io_for (update_window p sim) ws v = (Inr (), refresh_all p sim (set ws) v)"
  using assms
proof (induction ws arbitrary: v)
  case Nil
  then show ?case by (simp add: refresh_all_def)
next
  case (Cons w ws)
  let ?v = "v\<lparr>window_of := (window_of v)(w := snd (refreshed p sim (node_statistics v) (window_of v w)))\<rparr>"
  have "io_for (update_window p sim) ws ?v = (Inr (), refresh_all p sim (set ws) ?v)" using Cons.prems by (intro Cons.IH) auto
  moreover have "refresh_all p sim (set ws) ?v = refresh_all p sim (set (w # ws)) v"
    using Cons.prems(1) by (cases v) (auto simp: refresh_all_def fun_eq_iff)
  ultimately show ?case using Cons.prems(2) update_window_refreshes [of p sim w v] by (simp add: io_bind_def)
qed

text \<open>
  When no window raises, an update of the view shows in every window what the simulator answers now, and draws
  the links of the stations.
\<close>

theorem view_shows_windows:
  assumes "distinct (info_windows v)" "link_scene_ok (link_view v)"
    and "\<forall>w \<in> set (info_windows v). fst (refreshed p sim (node_statistics v) (window_of v w)) = Inr ()"
  shows "\<exists>u. update_view p sim (Inr ()) v = (Inr (), u) \<and> view_updates u = Suc (view_updates v) \<and> info_windows u = info_windows v \<and>
    (\<forall>w. window_of u w = (if w \<in> set (info_windows v) then snd (refreshed p sim (node_statistics v) (window_of v w)) else window_of v w)) \<and>
    (Inr (), link_view u) = update_links_view (mobile_nodes sim) (link_view v)"
proof -
  obtain l where l: "update_node_positions (mobile_nodes sim) (link_view v) = (Inr (), l)" "link_scene_ok l"
    using update_node_positions_ok [OF assms(2)] by (metis prod.collapse)
  let ?v = "v\<lparr>link_view := l\<rparr>"
  have win: "io_for (update_window p sim) (info_windows v) ?v = (Inr (), refresh_all p sim (set (info_windows v)) ?v)"
    using assms(1,3) by (intro refresh_windows) auto
  obtain m where m: "monitor_update_view l = (Inr (), m)" using monitor_update_view_ok [OF l(2)] by blast
  let ?u = "(refresh_all p sim (set (info_windows v)) ?v)\<lparr>view_updates := Suc (view_updates v), link_view := m\<rparr>"
  have "update_view p sim (Inr ()) v = (Inr (), ?u)"
    using l(1) win m by (simp add: update_view_def on_links_def io_bind_def refresh_all_def)
  then show ?thesis
    using l(1) m by (intro exI [of _ ?u]) (simp add: refresh_all_def update_links_view_def)
qed

lemma update_view_raises:
  assumes "info_windows v = ws @ w # rest" "distinct (info_windows v)" "link_scene_ok (link_view v)"
    and "\<forall>w \<in> set ws. fst (refreshed p sim (node_statistics v) (window_of v w)) = Inr ()"
    and "fst (refreshed p sim (node_statistics v) (window_of v w)) = Inl e"
  shows "update_view p sim drawing v = (Inl e,
    v\<lparr>link_view := snd (update_node_positions (mobile_nodes sim) (link_view v)),
      window_of := (\<lambda>x. if x \<in> insert w (set ws) then snd (refreshed p sim (node_statistics v) (window_of v x)) else window_of v x)\<rparr>)"
proof -
  obtain l where l: "update_node_positions (mobile_nodes sim) (link_view v) = (Inr (), l)" "link_scene_ok l"
    using update_node_positions_ok [OF assms(3)] by (metis prod.collapse)
  let ?v = "v\<lparr>link_view := l\<rparr>"
  let ?u = "refresh_all p sim (set ws) ?v"
  have "io_for (update_window p sim) ws ?v = (Inr (), ?u)" using assms(1,2,4) by (intro refresh_windows) auto
  moreover have "window_of ?u w = window_of v w" "node_statistics ?u = node_statistics v"
    using assms(1,2) by (auto simp: refresh_all_def)
  then have "update_window p sim w ?u = (Inl e, ?u\<lparr>window_of := (window_of ?u)(w := snd (refreshed p sim (node_statistics v) (window_of v w)))\<rparr>)"
    using assms(5) by (simp only: update_window_refreshes)
  ultimately have "io_for (update_window p sim) (info_windows v) ?v =
      (Inl e, ?u\<lparr>window_of := (window_of ?u)(w := snd (refreshed p sim (node_statistics v) (window_of v w)))\<rparr>)"
    by (simp add: assms(1) io_for_append)
  then have "update_view p sim drawing v =
      (Inl e, ?u\<lparr>window_of := (window_of ?u)(w := snd (refreshed p sim (node_statistics v) (window_of v w)))\<rparr>)"
    using l(1) by (simp add: update_view_def on_links_def io_bind_def)
  also have "?u\<lparr>window_of := (window_of ?u)(w := snd (refreshed p sim (node_statistics v) (window_of v w)))\<rparr> =
      v\<lparr>link_view := l, window_of := (\<lambda>x. if x \<in> insert w (set ws) then snd (refreshed p sim (node_statistics v) (window_of v x)) else window_of v x)\<rparr>"
    by (cases v) (auto simp: refresh_all_def fun_eq_iff)
  finally show ?thesis by (simp add: l(1))
qed

text \<open>
  A window that raises ends the update of the view: the windows after it keep what they showed, and the signal
  is not emitted, so that the links of the stations are not drawn.
\<close>

theorem raising_window_stops_view:
  assumes "info_windows v = ws @ w # rest" "distinct (info_windows v)" "link_scene_ok (link_view v)"
    and "\<forall>w \<in> set ws. fst (refreshed p sim (node_statistics v) (window_of v w)) = Inr ()"
    and "fst (refreshed p sim (node_statistics v) (window_of v w)) = Inl e"
  shows "fst (update_view p sim drawing v) = Inl e \<and>
    (\<forall>r \<in> set rest. window_of (snd (update_view p sim drawing v)) r = window_of v r) \<and>
    view_updates (snd (update_view p sim drawing v)) = view_updates v \<and>
    link_view (snd (update_view p sim drawing v)) = snd (update_node_positions (mobile_nodes sim) (link_view v))"
  using update_view_raises [OF assms, of drawing] assms(1,2) by auto

text \<open>
  The menu of every node offers its routing table.  For a node without an IP stack the window fails while it is opened,
  but is already registered: from then on every update of the view fails.
\<close>

theorem routing_window_without_stack:
  assumes "window_kind (window_of v w) = Routing_window" "ip_of sim (window_node (window_of v w)) = None"
    and "w \<notin> set (info_windows v)" "distinct (info_windows v)" "link_scene_ok (link_view v)"
    and "\<forall>w \<in> set (info_windows v). fst (refreshed p sim (node_statistics v) (window_of v w)) = Inr ()"
  shows "fst (add_information_window p sim w v) = Inl AttributeError \<and>
    info_windows (snd (add_information_window p sim w v)) = info_windows v @ [w] \<and>
    fst (update_view p sim drawing (snd (add_information_window p sim w v))) = Inl AttributeError"
proof -
  have r: "refreshed p sim (node_statistics v) (window_of v w) = (Inl AttributeError, window_of v w)"
    using assms(1,2) by (simp add: refreshed_def update_routing_table_def Let_def)
  let ?v = "v\<lparr>info_windows := info_windows v @ [w]\<rparr>"
  have add: "add_information_window p sim w v = (Inl AttributeError, ?v)"
    using r update_window_refreshes [of p sim w ?v] by (cases v) (simp add: add_information_window_def io_bind_def)
  have "fst (update_view p sim drawing ?v) = Inl AttributeError"
    using update_view_raises [of ?v "info_windows v" w "[]" p sim AttributeError drawing] assms(3-6) r by simp
  with add show ?thesis by simp
qed

text \<open>A node without a stack, one with a route, and the windows for them.\<close>

definition two_windows :: viewer where
  "two_windows = \<lparr>info_windows = [1],
     window_of = (\<lambda>w. \<lparr>window_kind = Routing_window, window_node = w, table1 = [], table2 = [], table3 = []\<rparr>),
     node_statistics = [], link_view = link_scene_init, view_updates = 0\<rparr>"

definition one_stack :: simulator where
  "one_stack = \<lparr>node_samples = (\<lambda>n i. []),
     ip_of = (\<lambda>n. if n = 1 then Some \<lparr>net_device = Map.empty,
        protocol = Some (Static_routing [\<lparr>dest = ''10.1.1.0'', gateway = ''0.0.0.0'', out_interface = 1\<rparr>])\<rparr> else None),
     olsr_of = (\<lambda>n. None), packets_of = (\<lambda>n. ([], [], [])), mobile_nodes = []\<rparr>"

lemma two_windows_refreshed:
  "refreshed p one_stack st (window_of two_windows w) =
     (if w = 1 then (Inr (), (window_of two_windows 1)\<lparr>table1 := [Some (Route_row ''10.1.1.0'' ''0.0.0.0'' ''lo'' ''static'' 0)]\<rparr>)
      else (Inl AttributeError, window_of two_windows w))"
  by (simp add: refreshed_def two_windows_def one_stack_def update_routing_table_def routing_protocols_def clear_table_def io_bind_def
      fill_rows_def append_row_def set_row_def ip_interface_name_def Let_def)

lemma two_windows_simps [simp]:
  "info_windows two_windows = [1]" "link_view two_windows = link_scene_init" "view_updates two_windows = 0"
  "window_kind (window_of two_windows w) = Routing_window" "window_node (window_of two_windows w) = w"
  by (simp_all add: two_windows_def)

theorem view_shows_windows_witness:
  "\<exists>u. update_view 1 one_stack (Inr ()) two_windows = (Inr (), u) \<and>
     table1 (window_of u 1) = [Some (Route_row ''10.1.1.0'' ''0.0.0.0'' ''lo'' ''static'' 0)]"
proof -
  have "\<exists>u. update_view 1 one_stack (Inr ()) two_windows = (Inr (), u) \<and> view_updates u = Suc 0 \<and> info_windows u = [1] \<and>
    (\<forall>w. window_of u w = (if w \<in> {1} then snd (refreshed 1 one_stack (node_statistics two_windows) (window_of two_windows w)) else window_of two_windows w)) \<and>
    (Inr (), link_view u) = update_links_view (mobile_nodes one_stack) link_scene_init"
    using view_shows_windows [of two_windows 1 one_stack] by (simp add: link_scene_ok_init two_windows_refreshed)
  then show ?thesis by (auto simp: two_windows_refreshed)
qed

theorem raising_window_stops_view_witness:
  "fst (update_view 1 one_stack (Inr ()) (two_windows\<lparr>info_windows := [1, 2, 3]\<rparr>)) = Inl AttributeError"
  using raising_window_stops_view [of "two_windows\<lparr>info_windows := [1, 2, 3]\<rparr>" "[1]" 2 "[3]" 1 one_stack AttributeError "Inr ()"]
  by (simp add: link_scene_ok_init two_windows_refreshed)

theorem routing_window_without_stack_witness:
  "fst (update_view 1 one_stack (Inr ()) (snd (add_information_window 1 one_stack 2 two_windows))) = Inl AttributeError"
proof -
  have "ip_of one_stack 2 = None" by (simp add: one_stack_def)
  then show ?thesis
    using routing_window_without_stack [of two_windows 2 one_stack 1 "Inr ()"]
    by (simp add: link_scene_ok_init two_windows_refreshed)
qed

end
