(* ===== verification/Viz_Mouse.thy ===== *)
theory Viz_Mouse
  imports Viz_View Viz_Topology
begin

text \<open>
  What the user does to the visualizer window besides running the simulation (\<^verbatim>\<open>visualizer/core.py\<close>): mouse buttons on nodes
  and on the canvas, scrolling, centring and following nodes, tooltips, snapshots, and the hooks run when it starts.
\<close>

section \<open>Buttons\<close>

text \<open>The parts of the window the buttons act on; \<open>menus\<close> are the nodes whose menu was opened.\<close>

record mouse =
  picked :: selection
  drags :: dragging
  menus :: "nat list"

text \<open>Each handler says whether it took the event; \<^verbatim>\<open>select_node\<close> is given a view or nothing, so it does not raise.\<close>

definition root_button_press :: "nat \<Rightarrow> mouse \<Rightarrow> (mouse \<times> bool) result" where
  "root_button_press button m =
     (if button = 1 then res_bind (select_node {} Nothing (picked m)) (\<lambda>s. Inr (m\<lparr>picked := s\<rparr>, True)) else Inr (m, False))"

definition node_button_press :: "nat \<Rightarrow> rat \<times> rat \<Rightarrow> nat \<Rightarrow> mouse \<Rightarrow> (mouse \<times> bool) result" where
  "node_button_press button pos node m =
     (if button = 1 then res_bind (select_node {} (View node) (picked m)) (\<lambda>s. Inr (m\<lparr>picked := s\<rparr>, True))
      else if button = 3 then Inr (m\<lparr>menus := menus m @ [node]\<rparr>, True)
      else if button = 2 then Inr (m\<lparr>drags := begin_node_drag node pos (drags m)\<rparr>, True)
      else Inr (m, False))"

definition node_button_release :: "nat \<Rightarrow> nat \<Rightarrow> mouse \<Rightarrow> mouse \<times> bool" where
  "node_button_release button node m =
     (if button = 2 then (m\<lparr>drags := end_node_drag node (drags m)\<rparr>, True) else (m, False))"

text \<open>A click of the first button selects what is under the pointer, a node or nothing, and neither handler raises or
  touches what the other buttons are for.\<close>

theorem click_selects:
  assumes "selection_ok n (picked m)"
  shows "\<exists>s. node_button_press 1 pos node m = Inr (m\<lparr>picked := s\<rparr>, True) \<and> selected_node s = Some node \<and> marked s = {node}
      \<and> selection_ok n s"
    and "\<exists>s. root_button_press 1 m = Inr (m\<lparr>picked := s\<rparr>, True) \<and> selected_node s = None \<and> marked s = {} \<and> selection_ok n s"
proof -
  have pick: "\<exists>s. select_node {} arg (picked m) = Inr s \<and> selected_node s = i \<and> marked s = set_option i \<and> selection_ok n s"
    if arg: "resolve_node {} arg = Inr i" for arg i
  proof -
    have "\<exists>s. select_node {} arg (picked m) = Inr s \<and> selected_node s = i"
      unfolding select_node_def arg res_bind.simps Let_def by (simp split: option.split)
    then obtain s where s: "select_node {} arg (picked m) = Inr s" "selected_node s = i" by blast
    from select_node_ok [OF s(1) assms] have "selection_ok n s" .
    with s show ?thesis by (auto simp: selection_ok_def)
  qed
  show "\<exists>s. node_button_press 1 pos node m = Inr (m\<lparr>picked := s\<rparr>, True) \<and> selected_node s = Some node \<and> marked s = {node}
      \<and> selection_ok n s"
    using pick [of "View node" "Some node"] by (auto simp: node_button_press_def resolve_node_def)
  show "\<exists>s. root_button_press 1 m = Inr (m\<lparr>picked := s\<rparr>, True) \<and> selected_node s = None \<and> marked s = {} \<and> selection_ok n s"
    using pick [of Nothing None] by (auto simp: root_button_press_def resolve_node_def)
qed

section \<open>Scrolling\<close>

datatype scroll = Scroll_up | Scroll_down | Scroll_other

text \<open>The new zoom, and whether the event was taken.\<close>

fun canvas_scroll_event :: "scroll \<Rightarrow> rat \<Rightarrow> rat \<times> bool" where
  "canvas_scroll_event Scroll_up zoom = (zoom_value (zoom * (5 / 4)), True)"
| "canvas_scroll_event Scroll_down zoom = (zoom_value (zoom / (5 / 4)), True)"
| "canvas_scroll_event Scroll_other zoom = (zoom, False)"

definition scrolled :: "scroll list \<Rightarrow> rat \<Rightarrow> rat" where
  "scrolled es zoom = fold (\<lambda>e z. fst (canvas_scroll_event e z)) es zoom"

lemma zoom_value_range: "1 / 100 \<le> zoom_value z \<and> zoom_value z \<le> 9"
  by (simp add: zoom_value_def)

lemma zoom_value_id: "1 / 100 \<le> z \<Longrightarrow> z \<le> 9 \<Longrightarrow> zoom_value z = z"
  by (simp add: zoom_value_def)

text \<open>However the wheel is turned the zoom stays within its limits, and a turn is taken back by the opposite turn unless it
  met a limit.\<close>

theorem scrolling_bounded:
  assumes "1 / 100 \<le> zoom" and "zoom \<le> 9"
  shows "1 / 100 \<le> scrolled es zoom \<and> scrolled es zoom \<le> 9
    \<and> (zoom * (5 / 4) \<le> 9 \<longrightarrow> scrolled [Scroll_up, Scroll_down] zoom = zoom)
    \<and> (1 / 100 \<le> zoom / (5 / 4) \<longrightarrow> scrolled [Scroll_down, Scroll_up] zoom = zoom)"
proof -
  have "1 / 100 \<le> fst (canvas_scroll_event e z) \<and> fst (canvas_scroll_event e z) \<le> 9" if "1 / 100 \<le> z \<and> z \<le> 9" for e z
    using that zoom_value_range by (cases e) simp_all
  then have "1 / 100 \<le> scrolled es z \<and> scrolled es z \<le> 9" if "1 / 100 \<le> z \<and> z \<le> 9" for z
    using that unfolding scrolled_def by (induction es arbitrary: z) auto
  moreover have "scrolled [Scroll_up, Scroll_down] zoom = zoom" if "zoom * (5 / 4) \<le> 9"
  proof -
    have "zoom_value (zoom * (5 / 4)) = zoom * (5 / 4)" using that assms by (intro zoom_value_id) auto
    then show ?thesis using assms by (simp add: scrolled_def zoom_value_id)
  qed
  moreover have "scrolled [Scroll_down, Scroll_up] zoom = zoom" if "1 / 100 \<le> zoom / (5 / 4)"
  proof -
    have "zoom_value (zoom / (5 / 4)) = zoom / (5 / 4)" using that assms by (intro zoom_value_id) auto
    then show ?thesis using assms by (simp add: scrolled_def zoom_value_id)
  qed
  ultimately show ?thesis using assms by blast
qed

section \<open>Centring and following a node\<close>

text \<open>The places of the views and the two scroll bars; \<open>to_px\<close> is the canvas' conversion to pixels.\<close>

record view =
  places :: "(nat, rat \<times> rat) dict"
  hbar :: adjustment
  vbar :: adjustment

definition center_at :: "(rat \<times> rat \<Rightarrow> rat \<times> rat) \<Rightarrow> rat \<times> rat \<Rightarrow> view \<Rightarrow> view" where
  "center_at to_px p v =
     (let (px, py) = to_px p
      in v\<lparr>hbar := set_value (px - adj_page (hbar v) / 2) (hbar v), vbar := set_value (py - adj_page (vbar v) / 2) (vbar v)\<rparr>)"

text \<open>\<^verbatim>\<open>center_on_node\<close>: unlike for \<^verbatim>\<open>select_node\<close>, \<^verbatim>\<open>None\<close> is a wrong argument.\<close>

definition center_on_node :: "(rat \<times> rat \<Rightarrow> rat \<times> rat) \<Rightarrow> node_arg \<Rightarrow> view \<Rightarrow> view result" where
  "center_on_node to_px arg v =
     res_bind (resolve_node (set (dict_keys (places v))) arg) (\<lambda>node.
       case node of None \<Rightarrow> Inl TypeError
       | Some i \<Rightarrow> (case map_of (places v) i of None \<Rightarrow> Inl KeyError | Some p \<Rightarrow> Inr (center_at to_px p v)))"

text \<open>\<^verbatim>\<open>set_follow_node\<close> turns only simulator nodes into views, so a number is kept and is no node of the window.\<close>

definition set_follow_node :: "nat set \<Rightarrow> node_arg \<Rightarrow> nat option result" where
  "set_follow_node known arg =
     (case arg of Sim_node i \<Rightarrow> if i \<in> known then Inr (Some i) else Inl KeyError
      | View i \<Rightarrow> Inr (Some i)
      | _ \<Rightarrow> Inr None)"

text \<open>\<^verbatim>\<open>_update_node_positions\<close> for one node with mobility and its place in the simulation.\<close>

definition move_node :: "(rat \<times> rat \<Rightarrow> rat \<times> rat) \<Rightarrow> nat option \<Rightarrow> nat \<times> (rat \<times> rat) \<Rightarrow> view \<Rightarrow> view" where
  "move_node to_px follow = (\<lambda>(i, pos) v.
     let p = transform_point_simulation_to_canvas pos; v' = v\<lparr>places := AList.update i p (places v)\<rparr>
     in if follow = Some i then center_at to_px p v' else v')"

definition move_nodes :: "(rat \<times> rat \<Rightarrow> rat \<times> rat) \<Rightarrow> nat option \<Rightarrow> (nat \<times> (rat \<times> rat)) list \<Rightarrow> view \<Rightarrow> view" where
  "move_nodes to_px follow mobile v = fold (move_node to_px follow) mobile v"

text \<open>A point is shown by a scroll bar when it is on the page.\<close>

definition on_page :: "rat \<Rightarrow> adjustment \<Rightarrow> bool" where
  "on_page x a \<longleftrightarrow> adj_value a \<le> x \<and> x \<le> adj_value a + adj_page a"

definition in_range :: "rat \<Rightarrow> adjustment \<Rightarrow> bool" where
  "in_range x a \<longleftrightarrow> adj_lower a \<le> x \<and> x \<le> adj_upper a \<and> 0 \<le> adj_page a"

lemma set_value_shows: "in_range x a \<Longrightarrow> on_page x (set_value (x - adj_page a / 2) a)"
  unfolding in_range_def on_page_def set_value_def by (simp add: max_def min_def)

lemma set_value_limits [simp]:
  "adj_lower (set_value v a) = adj_lower a" "adj_upper (set_value v a) = adj_upper a" "adj_page (set_value v a) = adj_page a"
  by (simp_all add: set_value_def)

lemma move_nodes_other:
  "\<forall>(i, p) \<in> set mobile. follow \<noteq> Some i \<Longrightarrow> hbar (move_nodes to_px follow mobile v) = hbar v \<and> vbar (move_nodes to_px follow mobile v) = vbar v"
  unfolding move_nodes_def by (induction mobile arbitrary: v) (auto simp: move_node_def Let_def)

lemma move_nodes_append: "move_nodes to_px follow (xs @ ys) v = move_nodes to_px follow ys (move_nodes to_px follow xs v)"
  by (simp add: move_nodes_def)

text \<open>Following: after an update the node followed is in the window, wherever it moved on the canvas and whatever the other
  nodes do.\<close>

theorem followed_node_shown:
  assumes "distinct (map fst mobile)" and "(i, pos) \<in> set mobile"
    and "to_px (transform_point_simulation_to_canvas pos) = (px, py)" and "in_range px (hbar v)" and "in_range py (vbar v)"
  shows "on_page px (hbar (move_nodes to_px (Some i) mobile v)) \<and> on_page py (vbar (move_nodes to_px (Some i) mobile v))"
proof -
  obtain xs ys where m: "mobile = xs @ (i, pos) # ys" using assms(2) by (meson split_list)
  have others: "\<forall>(j, p) \<in> set xs. Some i \<noteq> Some j" "\<forall>(j, p) \<in> set ys. Some i \<noteq> Some j"
    using assms(1) unfolding m by force+
  define u where "u = move_nodes to_px (Some i) xs v"
  have u: "hbar u = hbar v" "vbar u = vbar v" using move_nodes_other [OF others(1)] by (simp_all add: u_def)
  define w where "w = move_node to_px (Some i) (i, pos) u"
  have w: "hbar w = set_value (px - adj_page (hbar v) / 2) (hbar v)" "vbar w = set_value (py - adj_page (vbar v) / 2) (vbar v)"
    using assms(3) u by (simp_all add: w_def move_node_def center_at_def Let_def)
  have "move_nodes to_px (Some i) mobile v = move_nodes to_px (Some i) ys w"
    unfolding m move_nodes_append u_def w_def by (simp add: move_nodes_def)
  then show ?thesis
    using move_nodes_other [OF others(2), of to_px w] w set_value_shows [OF assms(4)] set_value_shows [OF assms(5)] by simp
qed


section \<open>Tooltips\<close>

text \<open>What the simulator says of a node: its name, its mobility model, whether it has the two protocols, and its devices.
  The addresses of a device are \<open>None\<close> when the protocol has no interface for it, and pairs with masks or prefixes
  otherwise.\<close>

record tip_device =
  dev_name :: string
  dev_type :: string
  ipv4_addresses :: "(string \<times> string) list option"
  ipv6_addresses :: "(string \<times> string) list option"
  mac_address :: string

record tip_node =
  sim_name :: string
  mobility_model :: "string option"
  has_ipv4 :: bool
  has_ipv6 :: bool
  tip_devices :: "tip_device list"

definition address_lines :: "string \<Rightarrow> bool \<Rightarrow> (string \<times> string) list option \<Rightarrow> string list" where
  "address_lines title present found =
     (case found of Some ads \<Rightarrow> if present then [''    <b>'' @ title @ '' Addresses:</b> '' @
            py_join ''; '' (map (\<lambda>(a, m). a @ ''/'' @ m) ads)] else []
      | None \<Rightarrow> [])"

definition device_title :: "nat \<Rightarrow> string" where
  "device_title i = ''  <u>NetDevice '' @ show_nat i @ '':</u>''"

definition device_lines :: "tip_node \<Rightarrow> nat \<Rightarrow> tip_device \<Rightarrow> string list" where
  "device_lines n i d =
     [[], device_title i] @
     (if dev_name d \<noteq> [] then [''    <b>Name:</b> '' @ dev_name d] else []) @
     [''    <b>Type:</b> '' @ dev_type d] @
     address_lines ''IPv4'' (has_ipv4 n) (ipv4_addresses d) @
     address_lines ''IPv6'' (has_ipv6 n) (ipv6_addresses d) @
     [''    <b>MAC Address:</b> '' @ mac_address d]"

text \<open>\<open>extra\<close> is what the plugins append when asked by the signal.\<close>

definition tooltip_lines :: "(nat \<Rightarrow> string list) \<Rightarrow> nat \<Rightarrow> tip_node \<Rightarrow> string list" where
  "tooltip_lines extra i n =
     [''<b><u>Node '' @ show_nat i @ ''</u></b>'' @ (if sim_name n \<noteq> [] then '' <b>('' @ sim_name n @ '')</b>'' else []), []] @
     extra i @
     (case mobility_model n of Some t \<Rightarrow> [''  <b>Mobility Model</b>: '' @ t] | None \<Rightarrow> []) @
     concat (map (\<lambda>(k, d). device_lines n k d) (zip [0..<length (tip_devices n)] (tip_devices n)))"

definition tooltip_query :: "(nat \<Rightarrow> string list) \<Rightarrow> nat \<Rightarrow> tip_node \<Rightarrow> string" where
  "tooltip_query extra i n = py_join [NL] (tooltip_lines extra i n)"

text \<open>An item of the canvas with the object it stands for, if any, and its parent.\<close>

datatype canvas_item = Canvas_item "nat option" "canvas_item option"

fun tooltip_object :: "canvas_item option \<Rightarrow> nat option" where
  "tooltip_object None = None"
| "tooltip_object (Some (Canvas_item (Some obj) parent)) = Some obj"
| "tooltip_object (Some (Canvas_item None parent)) = tooltip_object parent"

text \<open>The items from one up to the root.\<close>

fun item_chain :: "canvas_item option \<Rightarrow> nat option list" where
  "item_chain None = []"
| "item_chain (Some (Canvas_item obj parent)) = obj # item_chain parent"

text \<open>The tooltip is that of the nearest object around the item under the pointer; there is none exactly when no item up to the
  root stands for an object.\<close>

theorem tooltip_of_nearest:
  "tooltip_object item = (case dropWhile (\<lambda>x. x = None) (item_chain item) of [] \<Rightarrow> None | x # _ \<Rightarrow> x)"
  by (induction item rule: tooltip_object.induct) simp_all

lemma device_lines_titles:
  "filter (prefix ''  <u>NetDevice '') (device_lines n i d) = [device_title i]"
  by (simp add: device_lines_def device_title_def address_lines_def split: option.split)

text \<open>The tooltip of a node names its devices once each, in order, as long as the plugins add no such lines themselves.\<close>

theorem tooltip_names_devices:
  assumes "\<forall>l \<in> set (extra i). \<not> prefix ''  <u>NetDevice '' l"
  shows "filter (prefix ''  <u>NetDevice '') (tooltip_lines extra i n) = map device_title [0..<length (tip_devices n)]"
proof -
  have devices: "filter (prefix ''  <u>NetDevice '') (concat (map (\<lambda>(k, d). device_lines n k d) (zip ks ds))) = map device_title ks"
    if "length ks = length ds" for ks ds
    using that by (induction ks ds rule: list_induct2) (simp_all add: device_lines_titles)
  have "filter (prefix ''  <u>NetDevice '') (extra i) = []" using assms by (simp add: filter_empty_conv)
  then show ?thesis using devices [of "[0..<length (tip_devices n)]" "tip_devices n"]
    by (cases "mobility_model n") (simp_all add: tooltip_lines_def)
qed

section \<open>Snapshots\<close>

datatype surface = PS_surface | PDF_surface | SVG_surface

text \<open>Nothing without a file name, a message about the extension, or a page of a size and the translation it is drawn
  with.\<close>

datatype snapshot = No_snapshot | Unknown_extension string | Snapshot surface string "rat \<times> rat" "rat \<times> rat"

definition to_lower :: "string \<Rightarrow> string" where
  "to_lower s = map (\<lambda>c. if 65 \<le> (of_char c :: nat) \<and> (of_char c :: nat) \<le> 90 then char_of ((of_char c :: nat) + 32) else c) s"

definition take_screenshot :: "(rat \<times> rat \<Rightarrow> rat \<times> rat) \<Rightarrow> view \<Rightarrow> string option \<Rightarrow> snapshot" where
  "take_screenshot from_px v name =
     (case name of None \<Rightarrow> No_snapshot
      | Some file_name \<Rightarrow>
          let (bx1, by1) = from_px (adj_value (hbar v), adj_value (vbar v));
              (bx2, by2) = from_px (adj_value (hbar v) + adj_page (hbar v), adj_value (vbar v) + adj_page (vbar v));
              page = (bx2 - bx1, by2 - by1); extension = to_lower (snd (splitext file_name))
          in if extension = ''.eps'' then Snapshot PS_surface file_name page (- bx1, - by1)
             else if extension = ''.pdf'' then Snapshot PDF_surface file_name page (- bx1, - by1)
             else if extension = ''.svg'' then Snapshot SVG_surface file_name page (- bx1, - by1)
             else Unknown_extension extension)"

text \<open>A snapshot shows exactly the part of the canvas that is in the window: its corners come to lie on the corners of the
  page.  Every other extension is turned down, and says so.\<close>

theorem snapshot_of_window:
  assumes "from_px (adj_value (hbar v), adj_value (vbar v)) = (x1, y1)"
    and "from_px (adj_value (hbar v) + adj_page (hbar v), adj_value (vbar v) + adj_page (vbar v)) = (x2, y2)"
    and "take_screenshot from_px v (Some name) = r" and "ext = to_lower (snd (splitext name))"
  shows "if ext \<in> {''.eps'', ''.pdf'', ''.svg''}
     then \<exists>kind w h dx dy. r = Snapshot kind name (w, h) (dx, dy) \<and> (x1 + dx, y1 + dy) = (0, 0) \<and> (x2 + dx, y2 + dy) = (w, h)
     else r = Unknown_extension ext"
  using assms(1,2) unfolding assms(3) [symmetric] assms(4) take_screenshot_def by simp

section \<open>Hooks\<close>

text \<open>The hooks to run once the visualizer is there: the one \<^verbatim>\<open>set_bounds\<close> adds, and those of the user.\<close>

datatype hook = Bounds_hook "rat \<times> rat" "rat \<times> rat" | User_hook nat

definition add_initialization_hook :: "hook \<Rightarrow> hook list \<Rightarrow> hook list" where
  "add_initialization_hook h hooks = hooks @ [h]"

definition set_bounds :: "rat \<Rightarrow> rat \<Rightarrow> rat \<Rightarrow> rat \<Rightarrow> hook list \<Rightarrow> hook list result" where
  "set_bounds x1 y1 x2 y2 hooks =
     (if \<not> x1 < x2 then Inl AssertionError
      else if \<not> y1 < y2 then Inl AssertionError
      else Inr (add_initialization_hook (Bounds_hook (x1, y1) (x2, y2)) hooks))"

datatype start_event = Complain | Run_simulator | Load_plugins | New_visualizer | Queue_hook hook | Enable_printing | Start_visualizer

definition start :: "bool \<Rightarrow> bool \<Rightarrow> hook list \<Rightarrow> start_event list result" where
  "start has_instance imports_ok hooks =
     (if has_instance then Inl AssertionError
      else if \<not> imports_ok then Inr [Complain, Run_simulator]
      else Inr ([Load_plugins, New_visualizer] @ map Queue_hook hooks @ [Enable_printing, Start_visualizer]))"

text \<open>What a hook does to the bounds of the canvas; \<open>user\<close> is what the user's hooks do.\<close>

fun run_hook :: "(nat \<Rightarrow> (rat \<times> rat) \<times> (rat \<times> rat) \<Rightarrow> (rat \<times> rat) \<times> (rat \<times> rat)) \<Rightarrow> hook \<Rightarrow>
    (rat \<times> rat) \<times> (rat \<times> rat) \<Rightarrow> (rat \<times> rat) \<times> (rat \<times> rat)" where
  "run_hook user (Bounds_hook p q) b = (transform_point_simulation_to_canvas p, transform_point_simulation_to_canvas q)"
| "run_hook user (User_hook k) b = user k b"

definition run_hooks :: "(nat \<Rightarrow> (rat \<times> rat) \<times> (rat \<times> rat) \<Rightarrow> (rat \<times> rat) \<times> (rat \<times> rat)) \<Rightarrow> hook list \<Rightarrow>
    (rat \<times> rat) \<times> (rat \<times> rat) \<Rightarrow> (rat \<times> rat) \<times> (rat \<times> rat)" where
  "run_hooks user hooks b = fold (run_hook user) hooks b"

text \<open>The bounds asked for last are those of the canvas, unless hooks of the user that follow change them; they are never
  empty.\<close>

theorem last_bounds_kept:
  assumes "set_bounds x1 y1 x2 y2 hooks = Inr hooks'" and "\<And>k b. user k b = b"
  shows "run_hooks user (hooks' @ map User_hook ks) b = ((3 * x1, 3 * y1), (3 * x2, 3 * y2)) \<and> 3 * x1 < 3 * x2 \<and> 3 * y1 < 3 * y2"
proof -
  have "fold (run_hook user) (map User_hook ks) b = b" for b
    using assms(2) by (induction ks) auto
  moreover have "x1 < x2" "y1 < y2" "hooks' = hooks @ [Bounds_hook (x1, y1) (x2, y2)]"
    using assms(1) by (auto simp: set_bounds_def add_initialization_hook_def split: if_splits)
  ultimately show ?thesis
    by (simp add: run_hooks_def transform_point_simulation_to_canvas_def PIXELS_PER_METER_def mult.commute)
qed

section \<open>Images\<close>

text \<open>\<^verbatim>\<open>rsvg_handle_factory\<close>: the handles cached, and the files loaded so far.\<close>

definition rsvg_handle_factory :: "(string \<Rightarrow> 'h) \<Rightarrow> string \<Rightarrow> (string, 'h) dict \<times> string list \<Rightarrow> 'h \<times> (string, 'h) dict \<times> string list" where
  "rsvg_handle_factory load name s =
     (case map_of (fst s) name of
        Some h \<Rightarrow> (h, s)
      | None \<Rightarrow> let h = load name in (h, AList.update name h (fst s), snd s @ [name]))"

definition handles_ok :: "(string \<Rightarrow> 'h) \<Rightarrow> (string, 'h) dict \<times> string list \<Rightarrow> bool" where
  "handles_ok load s \<longleftrightarrow> dict_keys (fst s) = snd s \<and> distinct (snd s) \<and> (\<forall>(n, h) \<in> set (fst s). h = load n)"

lemma rsvg_step:
  assumes "handles_ok load s" and "rsvg_handle_factory load name s = (h, t)"
  shows "handles_ok load t \<and> h = load name \<and> set (snd t) = insert name (set (snd s))"
proof (cases "map_of (fst s) name")
  case None
  then have new: "name \<notin> set (dict_keys (fst s))" by (simp add: map_of_eq_None_iff)
  have t: "h = load name" "t = (fst s @ [(name, load name)], snd s @ [name])"
    using assms(2) None update_new_key [OF new] by (auto simp: rsvg_handle_factory_def Let_def)
  then show ?thesis using assms(1) new by (auto simp: handles_ok_def)
next
  case (Some h')
  then have "h = h'" "t = s" "(name, h') \<in> set (fst s)" using assms(2) map_of_SomeD by (auto simp: rsvg_handle_factory_def)
  moreover have "name \<in> set (dict_keys (fst s))" using calculation(3) by force
  then have "name \<in> set (snd s)" using assms(1) unfolding handles_ok_def by metis
  ultimately show ?thesis using assms(1) by (auto simp: handles_ok_def)
qed

text \<open>Whatever images are asked for, every file is loaded at most once, and each request gets the image of its file.\<close>

theorem images_loaded_once:
  "handles_ok load (fold (\<lambda>n s. snd (rsvg_handle_factory load n s)) names ([], []))
    \<and> set (snd (fold (\<lambda>n s. snd (rsvg_handle_factory load n s)) names ([], []))) = set names"
proof -
  have "handles_ok load (fold (\<lambda>n s. snd (rsvg_handle_factory load n s)) names s)
    \<and> set (snd (fold (\<lambda>n s. snd (rsvg_handle_factory load n s)) names s)) = set names \<union> set (snd s)"
    if "handles_ok load s" for s
    using that
  proof (induction names arbitrary: s)
    case (Cons n names)
    obtain h t where t: "rsvg_handle_factory load n s = (h, t)" by (cases "rsvg_handle_factory load n s")
    from rsvg_step [OF Cons.prems t] Cons.IH [of t] t show ?case by auto
  qed simp
  from this [of "([], [])"] show ?thesis by (simp add: handles_ok_def)
qed

end
