(* ===== verification/Viz_Console.thy ===== *)
theory Viz_Console
  imports Py_Prelude
begin

text \<open>
  The console of the visualizer (\<^verbatim>\<open>visualizer/ipython_view.py\<close>): completion and history of \<^verbatim>\<open>IterableIPShell\<close>, the
  text buffer and the keys of \<^verbatim>\<open>ConsoleView\<close>, and \<^verbatim>\<open>IPythonView\<close> that joins them.  What IPython completes, runs and
  prompts is a parameter.
\<close>

section \<open>Completion\<close>

definition is_complete_sep :: "char \<Rightarrow> bool" where
  "is_complete_sep c \<longleftrightarrow> is_space c \<or> c \<in> set ''{}[]()''"

text \<open>\<^verbatim>\<open>complete_sep.split(line)[-1]\<close>\<close>

definition last_word :: "string \<Rightarrow> string" where
  "last_word line = rev (takeWhile (\<lambda>c. \<not> is_complete_sep c) (rev line))"

definition common_prefix :: "string \<Rightarrow> string \<Rightarrow> string" where
  "common_prefix s t = (case find (\<lambda>i. \<not> prefix (take (Suc i) s) t) [0..<length s] of None \<Rightarrow> s | Some i \<Rightarrow> take i s)"

fun reduce_prefix :: "string list \<Rightarrow> string" where
  "reduce_prefix [] = []"
| "reduce_prefix (x # xs) = fold (\<lambda>y acc. common_prefix acc y) xs x"

text \<open>The completed line and the possibilities.\<close>

definition complete_line :: "(string \<Rightarrow> string list) \<Rightarrow> string \<Rightarrow> string \<times> string list" where
  "complete_line matches_of line =
     (let word = last_word line; matches = (if word \<noteq> [] then matches_of word else []);
          common = reduce_prefix matches
      in if matches = [] then (line, [])
         else (slice_to line (- int (length word)) @ (if common = [] then [last line] else common), matches))"

lemma common_prefix_prefix: "prefix (common_prefix s t) s \<and> prefix (common_prefix s t) t"
proof (cases "find (\<lambda>i. \<not> prefix (take (Suc i) s) t) [0..<length s]")
  case None
  then have all: "prefix (take (Suc i) s) t" if "i < length s" for i using that by (auto simp: find_None_iff)
  have "prefix s t"
  proof (cases s)
    case (Cons c cs)
    from all [of "length cs"] show ?thesis using Cons by simp
  qed simp
  with None show ?thesis by (simp add: common_prefix_def)
next
  case (Some i)
  then have i: "i < length s" and before: "\<And>j. j < i \<Longrightarrow> prefix (take (Suc j) s) t"
    by (auto simp: find_Some_iff)
  have "prefix (take i s) t"
  proof (cases i)
    case (Suc j)
    with before [of j] show ?thesis by simp
  qed simp
  with Some show ?thesis by (simp add: common_prefix_def take_is_prefix)
qed

lemma common_prefix_greatest:
  assumes "prefix r s" and "prefix r t"
  shows "prefix r (common_prefix s t)"
proof (cases "find (\<lambda>i. \<not> prefix (take (Suc i) s) t) [0..<length s]")
  case None
  with assms show ?thesis by (simp add: common_prefix_def)
next
  case (Some i)
  then have "i < length s" "\<not> prefix (take (Suc i) s) t" by (auto simp: find_Some_iff)
  moreover have "r = take (length r) s" using assms(1) by (auto simp: prefix_def)
  moreover have "prefix (take (Suc i) s) (take (length r) s)" if "Suc i \<le> length r"
    using that by (metis min.absorb1 take_is_prefix take_take)
  ultimately have "length r \<le> i" using assms(2) by (metis not_less_eq_eq prefix_order.trans)
  then have "prefix r (take i s)" using assms(1) by (metis \<open>r = take (length r) s\<close> min.absorb1 take_is_prefix take_take)
  with Some show ?thesis by (simp add: common_prefix_def)
qed

lemma reduce_prefix_prefix: "x \<in> set xs \<Longrightarrow> prefix (reduce_prefix xs) x"
proof (cases xs)
  case (Cons y ys)
  have "prefix (fold (\<lambda>y acc. common_prefix acc y) ys a) a \<and> (\<forall>z \<in> set ys. prefix (fold (\<lambda>y acc. common_prefix acc y) ys a) z)" for a
  proof (induction ys arbitrary: a)
    case (Cons z zs)
    then show ?case using common_prefix_prefix [of a z] by (auto intro: prefix_order.trans)
  qed simp
  then show "x \<in> set xs \<Longrightarrow> prefix (reduce_prefix xs) x" using Cons by auto
qed simp

lemma reduce_prefix_greatest:
  assumes "\<forall>x \<in> set xs. prefix r x" and "xs \<noteq> []"
  shows "prefix r (reduce_prefix xs)"
proof (cases xs)
  case (Cons y ys)
  have "prefix r (fold (\<lambda>y acc. common_prefix acc y) ys a)" if "prefix r a" "\<forall>z \<in> set ys. prefix r z" for a
    using that by (induction ys arbitrary: a) (auto intro: common_prefix_greatest)
  with Cons assms(1) show ?thesis by simp
qed (use assms in simp)

lemma last_word_split: "\<exists>stem. line = stem @ last_word line"
  unfolding last_word_def by (metis rev_append rev_rev_ident takeWhile_dropWhile_id)

text \<open>Completion adds to the line what all possibilities have in common and never goes beyond any of them, as long as they all begin
  with the word typed.  When they have nothing in common, as with a magic command beside a variable, the word typed is
  replaced by its last character.\<close>

theorem completion_extends:
  assumes "line = stem @ last_word line" and "last_word line \<noteq> []" and "matches_of (last_word line) = ms" and "ms \<noteq> []"
  shows "(\<forall>m \<in> set ms. prefix (last_word line) m) \<longrightarrow>
      prefix line (fst (complete_line matches_of line)) \<and> (\<forall>m \<in> set ms. prefix (fst (complete_line matches_of line)) (stem @ m))"
    and "reduce_prefix ms = [] \<longrightarrow> fst (complete_line matches_of line) = stem @ [last (last_word line)]"
proof -
  have stem: "slice_to line (- int (length (last_word line))) = stem"
  proof -
    have "py_clip line (- int (length (last_word line))) = length stem"
      using py_clip_neg [of "length (last_word line)" line] assms(1,2) by (metis add_diff_cancel_right' length_append length_greater_0_conv)
    then show ?thesis unfolding slice_to_def using assms(1) by (metis append_eq_conv_conj)
  qed
  have completed: "fst (complete_line matches_of line) = stem @ (if reduce_prefix ms = [] then [last line] else reduce_prefix ms)"
    using assms(2-4) stem by (simp add: complete_line_def Let_def)
  have last_char: "last line = last (last_word line)" using assms(1,2) by (metis last_appendR)
  show "reduce_prefix ms = [] \<longrightarrow> fst (complete_line matches_of line) = stem @ [last (last_word line)]"
    by (simp add: completed last_char)
  show "(\<forall>m \<in> set ms. prefix (last_word line) m) \<longrightarrow>
      prefix line (fst (complete_line matches_of line)) \<and> (\<forall>m \<in> set ms. prefix (fst (complete_line matches_of line)) (stem @ m))"
  proof
    assume "\<forall>m \<in> set ms. prefix (last_word line) m"
    from reduce_prefix_greatest [OF this assms(4)] have w: "prefix (last_word line) (reduce_prefix ms)" .
    then have "reduce_prefix ms \<noteq> []" using assms(2) by auto
    then have "fst (complete_line matches_of line) = stem @ reduce_prefix ms" by (simp add: completed)
    moreover have "prefix line (stem @ reduce_prefix ms)" using assms(1) w by (metis same_prefix_prefix)
    ultimately show "prefix line (fst (complete_line matches_of line)) \<and> (\<forall>m \<in> set ms. prefix (fst (complete_line matches_of line)) (stem @ m))"
      using reduce_prefix_prefix by simp
  qed
qed

section \<open>History\<close>

text \<open>\<^verbatim>\<open>In\<close> and \<^verbatim>\<open>history_level\<close>; the first entry of \<^verbatim>\<open>In\<close> is empty.\<close>

definition get_history :: "string list \<Rightarrow> int \<Rightarrow> string" where
  "get_history inputs level =
     (case py_nth inputs level of Inl e \<Rightarrow> [] | Inr s \<Rightarrow> rev (dropWhile (\<lambda>c. c = NL) (rev (dropWhile (\<lambda>c. c = NL) s))))"

definition history_back :: "string list \<Rightarrow> int \<Rightarrow> string \<times> int" where
  "history_back inputs level =
     (let l = (if get_history inputs (level - 1) = [] then level else level - 1) in (get_history inputs l, l))"

definition history_forward :: "string list \<Rightarrow> int \<Rightarrow> string \<times> int" where
  "history_forward inputs level = (let l = (if level < 0 then level + 1 else level) in (get_history inputs l, l))"

lemma get_history_entry:
  assumes "k < length cmds" and "\<forall>c \<in> set cmds. c \<noteq> [] \<and> hd c \<noteq> NL \<and> last c \<noteq> NL"
  shows "get_history ([] # cmds) (- int (Suc k)) = rev cmds ! k"
proof -
  have "py_nth ([] # cmds) (- int (Suc k)) = Inr (cmds ! (length cmds - Suc k))"
    using assms(1) by (auto simp: py_nth_def Let_def nat_diff_distrib nth_Cons')
  moreover have "cmds ! (length cmds - Suc k) \<in> set cmds" using assms(1) by simp
  then have c: "cmds ! (length cmds - Suc k) \<noteq> []" "hd (cmds ! (length cmds - Suc k)) \<noteq> NL" "last (cmds ! (length cmds - Suc k)) \<noteq> NL"
    using assms(2) by auto
  have strip: "rev (dropWhile (\<lambda>c. c = NL) (rev (dropWhile (\<lambda>c. c = NL) s))) = s" if "s \<noteq> []" "hd s \<noteq> NL" "last s \<noteq> NL" for s
  proof -
    have "dropWhile (\<lambda>c. c = NL) s = s" using that(1,2) by (cases s) auto
    moreover have "dropWhile (\<lambda>c. c = NL) (rev s) = rev s" using that(1,3) by (cases "rev s") (auto simp: hd_rev [symmetric])
    ultimately show ?thesis by simp
  qed
  ultimately show ?thesis using strip [OF c] assms(1) by (simp add: get_history_def rev_nth)
qed

lemma get_history_front: "get_history ([] # cmds) (- int (Suc (length cmds))) = []"
  by (simp add: get_history_def py_nth_def Let_def)

text \<open>Going back \<open>k\<close> times shows the command that many places from the end, stops at the first one, and going forward as often comes
  back to the empty line.\<close>

theorem history_walk:
  assumes "\<forall>c \<in> set cmds. c \<noteq> [] \<and> hd c \<noteq> NL \<and> last c \<noteq> NL"
  shows "((\<lambda>l. snd (history_back ([] # cmds) l)) ^^ k) 0 = - int (min k (length cmds))"
    and "0 < k \<Longrightarrow> k \<le> length cmds \<Longrightarrow> fst (history_back ([] # cmds) (- int (k - 1))) = rev cmds ! (k - 1)"
    and "((\<lambda>l. snd (history_forward ([] # cmds) l)) ^^ k) (- int k) = 0"
proof -
  show "((\<lambda>l. snd (history_back ([] # cmds) l)) ^^ k) 0 = - int (min k (length cmds))"
  proof (induction k)
    case (Suc k)
    show ?case
    proof (cases "k < length cmds")
      case True
      have "rev cmds ! k \<in> set cmds" using True by (metis length_rev nth_mem set_rev)
      then have "get_history ([] # cmds) (- int (Suc k)) \<noteq> []" using get_history_entry [OF True assms] assms by auto
      moreover have "- int (min k (length cmds)) - 1 = - int (Suc k)" "min (Suc k) (length cmds) = Suc k" using True by simp_all
      ultimately have "snd (history_back ([] # cmds) (- int (min k (length cmds)))) = - int (min (Suc k) (length cmds))"
        by (simp only: history_back_def Let_def if_False snd_conv)
      then show ?thesis by (simp only: funpow.simps o_apply Suc.IH)
    next
      case False
      then have "- int (min k (length cmds)) - 1 = - int (Suc (length cmds))" "min k (length cmds) = min (Suc k) (length cmds)" by simp_all
      then have "snd (history_back ([] # cmds) (- int (min k (length cmds)))) = - int (min (Suc k) (length cmds))"
        using get_history_front [of cmds] by (simp only: history_back_def Let_def simp_thms if_True snd_conv)
      then show ?thesis by (simp only: funpow.simps o_apply Suc.IH)
    qed
  qed simp
  show "fst (history_back ([] # cmds) (- int (k - 1))) = rev cmds ! (k - 1)" if k: "0 < k" "k \<le> length cmds"
  proof -
    have lt: "k - 1 < length cmds" using k by simp
    have "rev cmds ! (k - 1) \<in> set cmds" using lt by (metis length_rev nth_mem set_rev)
    then have "get_history ([] # cmds) (- int (Suc (k - 1))) \<noteq> []" using get_history_entry [OF lt assms] assms by auto
    moreover have "- int (k - 1) - 1 = - int (Suc (k - 1))" by simp
    ultimately show ?thesis using get_history_entry [OF lt assms] by (simp only: history_back_def Let_def if_False fst_conv)
  qed
  show "((\<lambda>l. snd (history_forward ([] # cmds) l)) ^^ k) (- int k) = 0"
  proof (induction k)
    case (Suc k)
    have "snd (history_forward ([] # cmds) (- int (Suc k))) = - int k" by (simp add: history_forward_def Let_def)
    then show ?case using Suc by (simp add: funpow_swap1 funpow_Suc_right del: funpow.simps)
  qed simp
qed


section \<open>Coloured text\<close>

text \<open>The pattern \<open>\x01?\x1b\[(.*?)m\x02?\<close> at the start of a text: the code between the bracket and the first \<^verbatim>\<open>m\<close>, which must be on
  the same line, and what follows.\<close>

definition match_color :: "string \<Rightarrow> (string \<times> string) option" where
  "match_color s =
     (let t = (if s \<noteq> [] \<and> hd s = CHR 0x01 then tl s else s)
      in if length t < 2 \<or> t ! 0 \<noteq> CHR 0x1B \<or> t ! 1 \<noteq> CHR ''['' then None
         else let code = takeWhile (\<lambda>c. c \<noteq> CHR ''m'' \<and> c \<noteq> NL) (drop 2 t); v = drop (length code) (drop 2 t)
              in if v = [] \<or> hd v \<noteq> CHR ''m'' then None
                 else Some (code, if tl v \<noteq> [] \<and> hd (tl v) = CHR 0x02 then tl (tl v) else tl v))"

lemma match_color_shorter: "match_color s = Some (code, rest) \<Longrightarrow> length rest < length s"
proof -
  assume m: "match_color s = Some (code, rest)"
  define t where "t = (if s \<noteq> [] \<and> hd s = CHR 0x01 then tl s else s)"
  define v where "v = drop (length (takeWhile (\<lambda>c. c \<noteq> CHR ''m'' \<and> c \<noteq> NL) (drop 2 t))) (drop 2 t)"
  have t: "\<not> length t < 2" and rest: "rest = (if tl v \<noteq> [] \<and> hd (tl v) = CHR 0x02 then tl (tl v) else tl v)"
    using m unfolding match_color_def Let_def t_def [symmetric] v_def [symmetric] by (auto split: if_splits)
  have "length rest \<le> length v" unfolding rest by simp
  also have "length v \<le> length t - 2" unfolding v_def by simp
  also have "\<dots> < length t" using t by simp
  also have "length t \<le> length s" by (simp add: t_def)
  finally show ?thesis .
qed

text \<open>\<^verbatim>\<open>color_pat.split(text)\<close>: the text before the first code, and every code with the text after it.\<close>

function split_colors :: "string \<Rightarrow> string \<times> (string \<times> string) list" where
  "split_colors s =
     (case match_color s of
        Some (code, rest) \<Rightarrow> (case split_colors rest of (seg, more) \<Rightarrow> ([], (code, seg) # more))
      | None \<Rightarrow> (case s of [] \<Rightarrow> ([], []) | c # cs \<Rightarrow> (case split_colors cs of (seg, more) \<Rightarrow> (c # seg, more))))"
  by pat_completeness auto
termination
  by (relation "measure length") (auto dest: match_color_shorter)

declare split_colors.simps [simp del]

text \<open>\<^verbatim>\<open>segments.index(tag)\<close>, and the loop of \<^verbatim>\<open>_write\<close> over the codes: what is inserted with each.\<close>

definition py_index :: "'a \<Rightarrow> 'a list \<Rightarrow> nat result" where
  "py_index x xs = (case find (\<lambda>i. xs ! i = x) [0..<length xs] of None \<Rightarrow> Inl ValueError | Some i \<Rightarrow> Inr i)"

fun insert_segments :: "string list \<Rightarrow> string list \<Rightarrow> (string \<times> string) list result" where
  "insert_segments [] segments = Inr []"
| "insert_segments (code # codes) segments =
     res_bind (py_index code segments) (\<lambda>i.
     res_bind (py_nth segments (int i + 1)) (\<lambda>seg.
     res_bind (insert_segments codes (take i segments @ drop (Suc i) segments)) (\<lambda>rest. Inr ((seg, code) # rest))))"

definition colored :: "string \<Rightarrow> (string \<times> string option) list result" where
  "colored s =
     (case split_colors s of (seg, more) \<Rightarrow>
        res_bind (insert_segments (map fst more) (concat (map (\<lambda>(code, t). [code, t]) more))) (\<lambda>parts.
          Inr ((seg, None) # map (\<lambda>(t, code). (t, Some code)) parts)))"

lemma py_index_front: "x \<notin> set xs \<Longrightarrow> py_index x (xs @ x # ys) = Inr (length xs)"
proof -
  assume x: "x \<notin> set xs"
  have "find (\<lambda>i. (xs @ x # ys) ! i = x) [0..<length (xs @ x # ys)] = Some (length xs)"
    unfolding find_Some_iff using x by (intro exI [of _ "length xs"]) (auto simp: nth_append)
  then show ?thesis by (simp add: py_index_def)
qed

lemma insert_segments_right:
  assumes "set (shown @ map snd more) \<inter> set (map fst more) = {}"
  shows "insert_segments (map fst more) (shown @ concat (map (\<lambda>(code, t). [code, t]) more)) = Inr (map (\<lambda>(code, t). (t, code)) more)"
  using assms
proof (induction more arbitrary: shown)
  case (Cons m more)
  obtain code t where m: "m = (code, t)" by fastforce
  let ?rest = "concat (map (\<lambda>(code, t). [code, t]) more)"
  have "code \<notin> set shown" using Cons.prems m by auto
  then have i: "py_index code (shown @ code # t # ?rest) = Inr (length shown)" by (rule py_index_front)
  have n: "py_nth (shown @ code # t # ?rest) (int (length shown) + 1) = Inr t"
    using py_nth_nat [of "Suc (length shown)" "shown @ code # t # ?rest"] by (simp add: nth_append add.commute)
  have "insert_segments (map fst more) ((shown @ [t]) @ ?rest) = Inr (map (\<lambda>(code, t). (t, code)) more)"
    by (rule Cons.IH) (use Cons.prems m in auto)
  then show ?case using i n m by simp
qed simp

text \<open>Coloured text is shown part by part, each with the colour of the code before it, as long as no part is spelled like a code.\<close>

theorem colors_shown:
  assumes "split_colors s = (seg, more)" and "set (map snd more) \<inter> set (map fst more) = {}"
  shows "colored s = Inr ((seg, None) # map (\<lambda>(code, t). (t, Some code)) more)"
  using insert_segments_right [of "[]" more] assms by (simp add: colored_def comp_def case_prod_unfold)

text \<open>Otherwise it is not: a green nought before the code that ends the colour takes that code for text, and what
  follows is lost.\<close>

definition green_nought :: string where
  "green_nought = [CHR 0x1B] @ ''[0;32m0'' @ [CHR 0x1B] @ ''[0m done''"

theorem nought_lost: "colored green_nought = Inr [([], None), (''0'', Some ''0;32''), (''0'', Some ''0'')]"
  by code_simp

section \<open>The text buffer\<close>

text \<open>Characters with the mark whether the user may change them, the start of the command line, and the two ends of the
  selection.\<close>

record console =
  chars :: "(char \<times> bool) list"
  line_start :: nat
  cursor :: nat
  bound :: nat

text \<open>Marks at the end of the buffer move with what is inserted there, but for \<open>line_start\<close>, whose gravity is to the left.\<close>

definition insert_end :: "(char \<times> bool) list \<Rightarrow> console \<Rightarrow> console" where
  "insert_end cs b =
     (let n = length (chars b); move = (\<lambda>k. if k = n then n + length cs else k)
      in b\<lparr>chars := chars b @ cs, cursor := move (cursor b), bound := move (bound b)\<rparr>)"

text \<open>\<open>write_text\<close> is \<^verbatim>\<open>_write\<close> for the text without its codes.\<close>

definition write_text :: "string \<Rightarrow> bool \<Rightarrow> console \<Rightarrow> console" where
  "write_text text editable b = insert_end (map (\<lambda>c. (c, editable)) text) b"

definition show_prompt :: "string \<Rightarrow> console \<Rightarrow> console" where
  "show_prompt prompt b = (let b1 = write_text prompt False b in b1\<lparr>line_start := length (chars b1)\<rparr>)"

text \<open>\<^verbatim>\<open>forward_to_line_end\<close>: from the end of a line on to the end of the next one.\<close>

definition line_end :: "char list \<Rightarrow> nat \<Rightarrow> nat" where
  "line_end cs k =
     (let rest = drop k cs
      in if rest \<noteq> [] \<and> hd rest = NL then k + 1 + length (takeWhile (\<lambda>c. c \<noteq> NL) (tl rest))
         else k + length (takeWhile (\<lambda>c. c \<noteq> NL) rest))"

definition delete_range :: "nat \<Rightarrow> nat \<Rightarrow> console \<Rightarrow> console" where
  "delete_range i j b =
     (let move = (\<lambda>k. if k \<le> i then k else if k \<le> j then i else k - (j - i))
      in b\<lparr>chars := take i (chars b) @ drop j (chars b), line_start := move (line_start b), cursor := move (cursor b),
           bound := move (bound b)\<rparr>)"

definition change_line :: "string \<Rightarrow> console \<Rightarrow> console" where
  "change_line text b = write_text text True (delete_range (line_start b) (line_end (map fst (chars b)) (line_start b)) b)"

definition get_current_line :: "console \<Rightarrow> string" where
  "get_current_line b = map fst (drop (line_start b) (chars b))"

definition protect_line :: "console \<Rightarrow> console" where
  "protect_line b =
     (let i = line_start b; j = line_end (map fst (chars b)) i
      in b\<lparr>chars := take i (chars b) @ map (\<lambda>(c, e). (c, False)) (drop i (take j (chars b))) @ drop j (chars b)\<rparr>)"

definition insert_at_cursor :: "string \<Rightarrow> console \<Rightarrow> console" where
  "insert_at_cursor text b =
     b\<lparr>chars := take (cursor b) (chars b) @ map (\<lambda>c. (c, True)) text @ drop (cursor b) (chars b),
       cursor := cursor b + length text, bound := cursor b + length text\<rparr>"

text \<open>\<open>indent\<close> is the indentation asked for, if any.\<close>

definition show_returned :: "string \<Rightarrow> string \<Rightarrow> string option \<Rightarrow> console \<Rightarrow> console" where
  "show_returned prompt text indent b =
     (let b1 = write_text (NL # text) False (protect_line b);
          b2 = show_prompt prompt (if text \<noteq> [] then write_text [NL] False b1 else b1);
          b3 = b2\<lparr>line_start := length (chars b2), cursor := length (chars b2), bound := length (chars b2)\<rparr>
      in case indent of None \<Rightarrow> b3 | Some i \<Rightarrow> insert_at_cursor i b3)"

section \<open>Keys\<close>

text \<open>A key with the text it stands for; \<open>Home\<close> says whether Control or Alt, and whether Shift is held.\<close>

datatype key = Home bool bool | Left_key | Key string

text \<open>\<open>on_key_press\<close>: the marks after it, and whether it keeps the key from going further.\<close>

definition on_key_press :: "key \<Rightarrow> console \<Rightarrow> console \<times> bool" where
  "on_key_press k b =
     (let start = line_start b in
      case k of
        Home ctrl shift \<Rightarrow>
          if ctrl then (b, False)
          else if shift then (b\<lparr>cursor := start\<rparr>, True)
          else (b\<lparr>cursor := start, bound := start\<rparr>, True)
      | Left_key \<Rightarrow>
          (let i = cursor b - 1 in (b, i < length (chars b) \<and> \<not> snd (chars b ! i)))
      | Key text \<Rightarrow>
          if text = [] then (b, False)
          else if start \<le> cursor b \<and> start \<le> bound b then (b, False)
          else if cursor b < start \<and> bound b < start then (b\<lparr>cursor := start, bound := start\<rparr>, False)
          else if cursor b < bound b then (b\<lparr>cursor := start\<rparr>, False)
          else if bound b < cursor b then (b\<lparr>bound := start\<rparr>, False)
          else (b, False))"

text \<open>What the text view then does with a key that is text: the selection is replaced.\<close>

definition insert_typed :: "string \<Rightarrow> console \<Rightarrow> console" where
  "insert_typed text b =
     (let i = min (cursor b) (bound b); j = max (cursor b) (bound b)
      in insert_at_cursor text ((delete_range i j b)\<lparr>cursor := i, bound := i\<rparr>))"

definition type_text :: "string \<Rightarrow> console \<Rightarrow> console" where
  "type_text text b = (if text = [] then b else insert_typed text (fst (on_key_press (Key text) b)))"

text \<open>The console is in order when everything before the command line is protected and the rest is not.\<close>

definition console_ok :: "console \<Rightarrow> bool" where
  "console_ok b \<longleftrightarrow> line_start b \<le> length (chars b) \<and> cursor b \<le> length (chars b) \<and> bound b \<le> length (chars b) \<and>
     (\<forall>c \<in> set (take (line_start b) (chars b)). \<not> snd c) \<and> (\<forall>c \<in> set (drop (line_start b) (chars b)). snd c)"


lemma line_end_last:
  assumes "NL \<notin> set (drop k cs)" and "k \<le> length cs"
  shows "line_end cs k = length cs"
proof -
  define rest where "rest = drop k cs"
  have no: "NL \<notin> set rest" and len: "length cs = k + length rest" using assms by (simp_all add: rest_def)
  have "takeWhile (\<lambda>c. c \<noteq> NL) rest = rest" unfolding takeWhile_eq_all_conv using no by metis
  moreover have "\<not> (rest \<noteq> [] \<and> hd rest = NL)" using no by (metis hd_in_set)
  ultimately show ?thesis unfolding line_end_def Let_def rest_def [symmetric] len by (simp only: if_False)
qed

lemma insert_typed_result:
  assumes "line_start b \<le> cursor b" "line_start b \<le> bound b" "cursor b \<le> length (chars b)" "bound b \<le> length (chars b)"
  shows "chars (insert_typed t b) = take (min (cursor b) (bound b)) (chars b) @ map (\<lambda>c. (c, True)) t @ drop (max (cursor b) (bound b)) (chars b)
    \<and> line_start (insert_typed t b) = line_start b \<and> cursor (insert_typed t b) = min (cursor b) (bound b) + length t
    \<and> bound (insert_typed t b) = min (cursor b) (bound b) + length t"
  using assms by (simp add: insert_typed_def insert_at_cursor_def delete_range_def Let_def)

lemma insert_typed_ok:
  assumes "console_ok b" "line_start b \<le> cursor b" "line_start b \<le> bound b"
  shows "console_ok (insert_typed t b) \<and> line_start (insert_typed t b) = line_start b
    \<and> take (line_start b) (chars (insert_typed t b)) = take (line_start b) (chars b)"
proof -
  let ?i = "min (cursor b) (bound b)" and ?j = "max (cursor b) (bound b)"
  have len: "cursor b \<le> length (chars b)" "bound b \<le> length (chars b)" using assms(1) by (auto simp: console_ok_def)
  note r = insert_typed_result [OF assms(2,3) len, of t]
  have i: "line_start b \<le> ?i" "?i \<le> length (chars b)" using assms(2,3) len by auto
  have front: "take (line_start b) (chars (insert_typed t b)) = take (line_start b) (chars b)"
    using r i by (simp add: min_def)
  have "drop (line_start b) (chars (insert_typed t b))
      = drop (line_start b) (take ?i (chars b)) @ map (\<lambda>c. (c, True)) t @ drop ?j (chars b)"
    using r i by simp
  moreover have "set (drop (line_start b) (take ?i (chars b))) \<subseteq> set (drop (line_start b) (chars b))"
    by (metis drop_take set_take_subset)
  moreover have "set (drop ?j (chars b)) \<subseteq> set (drop (line_start b) (chars b))"
    by (rule set_drop_subset_set_drop) (use assms(2) in linarith)
  ultimately have rear: "\<forall>c \<in> set (drop (line_start b) (chars (insert_typed t b))). snd c"
    using assms(1) by (auto simp: console_ok_def)
  have "length (chars (insert_typed t b)) = ?i + length t + (length (chars b) - ?j)" using r i by (simp add: min_def)
  then have "line_start b \<le> length (chars (insert_typed t b))" "?i + length t \<le> length (chars (insert_typed t b))"
    using i(1) by linarith+
  moreover have e: "line_start (insert_typed t b) = line_start b" "cursor (insert_typed t b) = ?i + length t"
    "bound (insert_typed t b) = ?i + length t" using r by blast+
  moreover have "\<forall>c \<in> set (take (line_start b) (chars b)). \<not> snd c" using assms(1) by (simp add: console_ok_def)
  ultimately have "console_ok (insert_typed t b)" unfolding console_ok_def e front using rear by blast
  with e(1) front show ?thesis by blast
qed

text \<open>Typing goes into the command line wherever the cursor and the selection were: nothing before it changes, and the console
  stays in order.\<close>

theorem typing_in_command_line:
  assumes "console_ok b"
  shows "console_ok (type_text t b) \<and> line_start (type_text t b) = line_start b
    \<and> take (line_start b) (chars (type_text t b)) = take (line_start b) (chars b)"
proof (cases "t = []")
  case True
  then show ?thesis using assms by (simp add: type_text_def)
next
  case False
  define u where "u = fst (on_key_press (Key t) b)"
  have u: "chars u = chars b" "line_start u = line_start b" "console_ok u" "line_start u \<le> cursor u" "line_start u \<le> bound u"
    using assms False by (auto simp: u_def on_key_press_def Let_def console_ok_def)
  show ?thesis using insert_typed_ok [OF u(3-5), of t] False by (simp add: type_text_def u_def [symmetric] u(1,2))
qed

text \<open>Replacing the command line replaces all of it, and nothing else, when it is a single line.\<close>

theorem line_changed:
  assumes "console_ok b" and "NL \<notin> set (get_current_line b)"
  shows "get_current_line (change_line t b) = t \<and> console_ok (change_line t b)
    \<and> take (line_start b) (chars (change_line t b)) = take (line_start b) (chars b) \<and> line_start (change_line t b) = line_start b"
proof -
  have start: "line_start b \<le> length (chars b)" using assms(1) by (simp add: console_ok_def)
  have "line_end (map fst (chars b)) (line_start b) = length (chars b)"
    using line_end_last [of "line_start b" "map fst (chars b)"] assms(2) start by (simp add: get_current_line_def drop_map)
  then have c: "change_line t b = write_text t True (delete_range (line_start b) (length (chars b)) b)" by (simp add: change_line_def)
  have chars: "chars (change_line t b) = take (line_start b) (chars b) @ map (\<lambda>c. (c, True)) t"
    and ls: "line_start (change_line t b) = line_start b"
    unfolding c using start by (simp_all add: write_text_def insert_end_def delete_range_def Let_def)
  have "cursor (change_line t b) \<le> length (chars (change_line t b))" "bound (change_line t b) \<le> length (chars (change_line t b))"
    unfolding c using start assms(1) by (auto simp: write_text_def insert_end_def delete_range_def Let_def console_ok_def)
  then show ?thesis using chars ls start assms(1) by (auto simp: get_current_line_def console_ok_def comp_def)
qed

text \<open>After a command everything shown is protected, the output stands between the old command line and the new prompt, and the
  new command line holds the indentation.\<close>

theorem returned_shown:
  assumes "console_ok b" and "NL \<notin> set (get_current_line b)"
  shows "console_ok (show_returned prompt text indent b)
    \<and> get_current_line (show_returned prompt text indent b) = (case indent of None \<Rightarrow> [] | Some i \<Rightarrow> i)
    \<and> map fst (chars (show_returned prompt text indent b)) = map fst (chars b) @ NL # text @ (if text \<noteq> [] then [NL] else []) @ prompt
        @ (case indent of None \<Rightarrow> [] | Some i \<Rightarrow> i)"
proof -
  have start: "line_start b \<le> length (chars b)" using assms(1) by (simp add: console_ok_def)
  have "line_end (map fst (chars b)) (line_start b) = length (chars b)"
    using line_end_last [of "line_start b" "map fst (chars b)"] assms(2) start by (simp add: get_current_line_def drop_map)
  then have prot: "chars (protect_line b) = take (line_start b) (chars b) @ map (\<lambda>(c, e). (c, False)) (drop (line_start b) (chars b))"
    by (simp add: protect_line_def Let_def)
  have old: "map fst (chars (protect_line b)) = map fst (chars b)" "\<forall>c \<in> set (chars (protect_line b)). \<not> snd c"
  proof -
    have "map fst (chars (protect_line b)) = map fst (take (line_start b) (chars b)) @ map fst (drop (line_start b) (chars b))"
      unfolding prot by (simp add: comp_def case_prod_unfold)
    then show "map fst (chars (protect_line b)) = map fst (chars b)" by (metis append_take_drop_id map_append)
    show "\<forall>c \<in> set (chars (protect_line b)). \<not> snd c" unfolding prot using assms(1) by (auto simp: console_ok_def)
  qed
  define all where "all = chars (protect_line b) @ map (\<lambda>c. (c, False)) (NL # text @ (if text \<noteq> [] then [NL] else []) @ prompt)"
  define b3 where "b3 = (let b1 = write_text (NL # text) False (protect_line b);
          b2 = show_prompt prompt (if text \<noteq> [] then write_text [NL] False b1 else b1)
      in b2\<lparr>line_start := length (chars b2), cursor := length (chars b2), bound := length (chars b2)\<rparr>)"
  have b3: "chars b3 = all" "line_start b3 = length all" "cursor b3 = length all" "bound b3 = length all"
    by (auto simp: b3_def all_def write_text_def show_prompt_def insert_end_def Let_def)
  have ret: "show_returned prompt text indent b = (case indent of None \<Rightarrow> b3 | Some i \<Rightarrow> insert_at_cursor i b3)"
    unfolding show_returned_def b3_def Let_def by (rule refl)
  have result: "chars (show_returned prompt text indent b) = all @ map (\<lambda>c. (c, True)) (case indent of None \<Rightarrow> [] | Some i \<Rightarrow> i)"
    "line_start (show_returned prompt text indent b) = length all"
    "cursor (show_returned prompt text indent b) = length all + length (case indent of None \<Rightarrow> [] | Some i \<Rightarrow> i)"
    "bound (show_returned prompt text indent b) = length all + length (case indent of None \<Rightarrow> [] | Some i \<Rightarrow> i)"
    unfolding ret using b3 by (cases indent, simp_all add: insert_at_cursor_def)+
  have shown: "\<forall>c \<in> set all. \<not> snd c" using old(2) by (auto simp: all_def)
  show ?thesis using result shown old(1) by (simp add: console_ok_def get_current_line_def comp_def all_def)
qed

section \<open>The keys of the shell\<close>

datatype console_op = Write string bool | Show_prompt string | Change_line string | Show_returned string

text \<open>What IPython does: completion, and running a command line, \<open>None\<close> standing for an interrupt; the result is the output, the
  next prompt, the indentation and the list of inputs.\<close>

record shell =
  matches :: "string \<Rightarrow> string list"
  run_line :: "string option \<Rightarrow> string \<times> string \<times> string option \<times> string list"

record ipython_view =
  screen :: console
  inputs :: "string list"
  level :: int
  prompt_text :: string
  indent_text :: "string option"

datatype shell_key = Interrupt | Return_key | Up_key | Down_key | Tab_key | Other_key

text \<open>Operations on the screen are put off with \<^verbatim>\<open>idle_add\<close> and run after the handler, in order.\<close>

fun run_op :: "console_op \<Rightarrow> ipython_view \<Rightarrow> ipython_view" where
  "run_op (Write t e) v = v\<lparr>screen := write_text t e (screen v)\<rparr>"
| "run_op (Show_prompt p) v = v\<lparr>screen := show_prompt p (screen v)\<rparr>"
| "run_op (Change_line t) v = v\<lparr>screen := change_line t (screen v)\<rparr>"
| "run_op (Show_returned t) v = v\<lparr>screen := show_returned (prompt_text v) t (indent_text v) (screen v)\<rparr>"

definition process_line :: "shell \<Rightarrow> string option \<Rightarrow> ipython_view \<Rightarrow> console_op list \<times> ipython_view" where
  "process_line sh line v =
     (let (out, prompt, indent, ins) = run_line sh line
      in ([Show_returned (rev (dropWhile (\<lambda>c. c = NL) (rev (dropWhile (\<lambda>c. c = NL) out))))],
          v\<lparr>inputs := ins, level := 0, prompt_text := prompt, indent_text := indent\<rparr>))"

text \<open>\<open>slice\<close> is only assigned when there is more than one possibility.\<close>

definition complete_ops :: "shell \<Rightarrow> ipython_view \<Rightarrow> console_op list result" where
  "complete_ops sh v =
     (let line = get_current_line (screen v); (completed, possibilities) = complete_line (matches sh) line;
          ops = (if 1 < length possibilities
                 then [Write [NL] False] @ map (\<lambda>s. Write (s @ [NL]) False) possibilities @ [Show_prompt (prompt_text v)] else [])
      in if completed \<noteq> [] then Inr (ops @ [Change_line completed])
         else if 1 < length possibilities then Inr (ops @ [Change_line line]) else Inl UnboundLocalError)"

definition on_key_press_extend :: "shell \<Rightarrow> shell_key \<Rightarrow> ipython_view \<Rightarrow> (console_op list \<times> ipython_view \<times> bool) result" where
  "on_key_press_extend sh k v =
     (case k of
        Interrupt \<Rightarrow> (let (ops, w) = process_line sh None v in Inr (ops, w, True))
      | Return_key \<Rightarrow> (let (ops, w) = process_line sh (Some (get_current_line (screen v))) v in Inr (ops, w, True))
      | Up_key \<Rightarrow> (let (t, l) = history_back (inputs v) (level v) in Inr ([Change_line t], v\<lparr>level := l\<rparr>, True))
      | Down_key \<Rightarrow> (let (t, l) = history_forward (inputs v) (level v) in Inr ([Change_line t], v\<lparr>level := l\<rparr>, True))
      | Tab_key \<Rightarrow>
          if py_strip (get_current_line (screen v)) = [] then Inr ([], v, False)
          else res_bind (complete_ops sh v) (\<lambda>ops. Inr (ops, v, True))
      | Other_key \<Rightarrow> Inr ([], v, False))"

definition key_pressed :: "shell \<Rightarrow> shell_key \<Rightarrow> ipython_view \<Rightarrow> ipython_view result" where
  "key_pressed sh k v = res_bind (on_key_press_extend sh k v) (\<lambda>(ops, w, handled). Inr (fold run_op ops w))"

lemma slice_back_nonempty: "line \<noteq> [] \<Longrightarrow> fst (complete_line f line) \<noteq> []"
  by (auto simp: complete_line_def Let_def)

text \<open>No key of the shell raises, the variable \<^verbatim>\<open>slice\<close> included: a line that is not blank is never completed to nothing.\<close>

theorem keys_never_raise: "\<exists>w. key_pressed sh k v = Inr w"
proof (cases k)
  case Tab_key
  let ?line = "get_current_line (screen v)"
  show ?thesis
  proof (cases "py_strip ?line = []")
    case True
    then show ?thesis using Tab_key by (simp add: key_pressed_def on_key_press_extend_def)
  next
    case False
    then have "?line \<noteq> []" by (auto simp: py_strip_def)
    then have "fst (complete_line (matches sh) ?line) \<noteq> []" by (rule slice_back_nonempty)
    then obtain ops where "complete_ops sh v = Inr ops" by (auto simp: complete_ops_def Let_def case_prod_unfold)
    then show ?thesis using Tab_key False by (simp add: key_pressed_def on_key_press_extend_def)
  qed
qed (simp_all add: key_pressed_def on_key_press_extend_def case_prod_unfold Let_def)

end
