(* ===== verification/Port_Tests.thy ===== *)
theory Port_Tests
  imports Py_Prelude
begin

text \<open>
  The scripts \<^verbatim>\<open>utils/tests/test-test.py\<close> and \<^verbatim>\<open>test-waf.py\<close>, which try the options of \<^verbatim>\<open>test.py\<close> and of waf one after the
  other, and the class both use (\<^verbatim>\<open>TestBase.py\<close>).  What a command returns is a parameter.
\<close>

section \<open>Running the cases\<close>

text \<open>\<^verbatim>\<open>cmd.replace(sys.executable, '')\<close>: \<open>n\<close> characters of an occurrence are still to be left out.\<close>

fun erase_from :: "string \<Rightarrow> nat \<Rightarrow> string \<Rightarrow> string" where
  "erase_from pat n [] = []"
| "erase_from pat (Suc n) (c # cs) = erase_from pat n cs"
| "erase_from pat 0 (c # cs) =
     (if pat \<noteq> [] \<and> prefix pat (c # cs) then erase_from pat (length pat - 1) cs else c # erase_from pat 0 cs)"

definition case_string :: "string \<Rightarrow> string \<Rightarrow> string" where
  "case_string executable cmd = erase_from executable 0 cmd"

text \<open>The options that matter here: listing only, and commands of the user's own.\<close>

record port_options =
  list_cmds :: bool
  custom :: "string option"

text \<open>What a run does: the commands called, the cases that failed, and the value returned.\<close>

record port_run =
  called :: "string list"
  failed_cases :: "string list"
  port_passed :: nat
  final_return :: "int option"

definition run_case :: "string \<Rightarrow> (string \<Rightarrow> int) \<Rightarrow> string \<Rightarrow> port_run \<Rightarrow> port_run" where
  "run_case executable call cmd r =
     (let r1 = r\<lparr>called := called r @ [cmd]\<rparr>
      in if call cmd = 0 then r1\<lparr>port_passed := port_passed r1 + 1\<rparr>
         else r1\<lparr>final_return := Some 1, failed_cases := failed_cases r1 @ [case_string executable cmd]\<rparr>)"

definition runtests :: "string \<Rightarrow> (string \<Rightarrow> int) \<Rightarrow> port_options \<Rightarrow> string list \<Rightarrow> port_run" where
  "runtests executable call opt cmds =
     (if list_cmds opt then \<lparr>called = [], failed_cases = [], port_passed = 0, final_return = None\<rparr>
      else fold (run_case executable call) cmds \<lparr>called = [], failed_cases = [], port_passed = 0, final_return = Some 0\<rparr>)"

lemma run_cases:
  "fold (run_case executable call) cmds r =
     r\<lparr>called := called r @ cmds, failed_cases := failed_cases r @ map (case_string executable) (filter (\<lambda>c. call c \<noteq> 0) cmds),
       port_passed := port_passed r + length (filter (\<lambda>c. call c = 0) cmds),
       final_return := (if \<exists>c \<in> set cmds. call c \<noteq> 0 then Some 1 else final_return r)\<rparr>"
  by (induction cmds arbitrary: r) (simp_all add: run_case_def Let_def)

text \<open>Every command is run once, in order and whatever the others return; the cases listed as failed are those that did not return
  0, and the value returned is 0 when there is none and 1 otherwise.  With \<^verbatim>\<open>-c\<close> nothing is run.\<close>

theorem every_case_run:
  "(list_cmds opt \<longrightarrow> called (runtests exe call opt cmds) = [] \<and> final_return (runtests exe call opt cmds) = None) \<and>
   (\<not> list_cmds opt \<longrightarrow>
      called (runtests exe call opt cmds) = cmds \<and>
      failed_cases (runtests exe call opt cmds) = map (case_string exe) (filter (\<lambda>c. call c \<noteq> 0) cmds) \<and>
      port_passed (runtests exe call opt cmds) + length (failed_cases (runtests exe call opt cmds)) = length cmds \<and>
      final_return (runtests exe call opt cmds) = Some (if \<forall>c \<in> set cmds. call c = 0 then 0 else 1))"
  by (simp add: runtests_def run_cases sum_length_filter_compl)

text \<open>\<^verbatim>\<open>set_workdir\<close>: where the script goes on, as the parts of a path, innermost first; \<open>None\<close> is \<^verbatim>\<open>sys.exit(1)\<close>.  One of the two files is
  enough.\<close>

definition set_workdir :: "string list \<Rightarrow> string list \<Rightarrow> string list option" where
  "set_workdir dir_files cwd =
     (if ''VERSION'' \<notin> set dir_files \<and> ''waf'' \<notin> set dir_files
      then (case cwd of a # b # rest \<Rightarrow> if a = ''tests'' \<and> b = ''utils'' then Some rest else None | _ \<Rightarrow> None)
      else Some cwd)"

section \<open>The options of \<^verbatim>\<open>test.py\<close>\<close>

text \<open>Neighbouring literals are one: there is no comma before \<^verbatim>\<open>'-g'\<close> in the source.\<close>

definition test_cases :: "string list" where
  "test_cases =
     ['''', ''-h'', ''--help'', ''-b build/'', ''--buildpath=build/'', ''-c performance'', ''--constrain=performance'',
      ''-d'', ''--duration'', ''-e socket-options-ipv6'', ''--example=socket-options-ipv6'', ''-u'', ''--update-data'',
      ''-f EXTENSIVE --fullness=EXTENSIVE-g'', ''--grind'', ''-l'', ''--list'', ''-m'', ''--multiple'', ''-n'', ''--nowaf'',
      ''-p first'', ''--pyexample=first'', ''-r'', ''--retain'', ''-s ns3-tcp-interoperability'',
      ''--suite=ns3-tcp-interoperability'', ''-t t_opt.txt'', ''--text=t_opt.txt && rm -rf t_opt.txt'', ''-v'',
      ''--verbose'', ''-w t_opt.html && rm -rf t_opt.html'', ''--web=t_opt.html && rm -rf t_opt.html'',
      ''--html=t_opt.html && rm -rf t_opt.html'', ''-x t_opt.xml && rm -rf t_opt.xml'',
      ''--xml=t_opt.xml && rm -rf t_opt.xml'']"

definition test_commands :: "string \<Rightarrow> string list" where
  "test_commands exe =
     map (\<lambda>opt. exe @ '' waf configure --enable-tests --enable-examples'' @ '' && '' @ exe @ '' test.py '' @ opt @ '' && '' @ exe @ '' waf clean'')
       test_cases"

section \<open>The commands of waf\<close>

definition config_test_cases :: "string list" where
  "config_test_cases =
     [''--enable-gcov'', ''--enable-sudo'', ''--enable-sudo'', ''--enable-tests'', ''--disable-tests'',
      ''--enable-examples'', ''--disable-examples'', ''--doxygen-no-build'', ''--enable-static'', ''--enable-mpi'',
      ''--enable-rpath'', ''--enable-modules=build/utils/test-runner.cc.1.o'', ''--boost-static'', ''--boost-mt'',
      ''--boost-linkage_autodetect'', ''--boost-python=33'', ''--disable-gtk'', ''--int64x64=cairo'', ''--disable-pthread'',
      ''--force-planetlab'', ''--nopyc'', ''--nopyo'', ''--disable-python'', ''--apiscan=all'',
      ''--with-python=/usr/bin/python2.7'', ''-o test_out && rm -rf test_out'', ''--out=test_out && rm -rf test_out'',
      ''-t test_top && rm -rf test_top'', ''--top=test_top && rm -rf test_top'', ''--download'', ''--check-c-compiler=gc'',
      ''--check-cxx-compiler=g++'']"

definition basic_test_cases :: "string list" where
  "basic_test_cases =
     [''--version'', ''-h'', ''--help'']"

definition build_test_cases :: "string list" where
  "build_test_cases =
     [''-j10'', ''--jobs=10'', ''-d optimized'', ''-d debug'', ''-d release'', ''--build-profile optimized'',
      ''--build-profile debug'', ''--build-profile release'', ''-p'', ''--progress'']"

definition step_test_cases :: "string list" where
  "step_test_cases =
     [''--files='' @ [QUOT] @ ''*/main.c,*/test/main.o'' @ [QUOT]]"

definition install_test_cases :: "string list" where
  "install_test_cases =
     [''-f'', ''--force'', ''--prefix=./test-prefix && rm -rf ./test-prefix'', ''--exec-prefix=.'',
      ''--bindir=./test-prefix/bin --sbindir=./test-prefix/sbin --libexecdir=./test-prefix/libexec --sysconfdir=./test-prefix/etc --sharedstatedir=./test-prefix/com --localstatedir=./test-prefix/var --libdir=./test-prefix/lib --includedir=./test-prefix/include --oldincludedir=./test-prefix/usr/include --datarootdir=./test-prefix/share --datadir=./test-prefix/share_root --infodir=./test-prefix/info --localedir=./test-prefix/locale --mandir=./test-prefix/man --docdir=./test-prefix/doc/package --htmldir=./test-prefix/doc --dvidir=./test-prefix/doc --pdfdir=./test-prefix/doc --psdir=./test-prefix/doc && rm -rf ./test-prefix'']"

definition common_test_cases :: "string list" where
  "common_test_cases =
     ['''', ''-k'', ''--keep'', ''-v'', ''--verbose'', ''--nocache'', ''--zones=task_gen'', ''--zones=deps'',
      ''--zones=tasks'', ''--no-task-lines'']"

text \<open>\<^verbatim>\<open>replace\<close>: what comes before and after every command, joined by \<^verbatim>\<open>&&\<close>.\<close>

definition surround :: "string option \<Rightarrow> string option \<Rightarrow> string list \<Rightarrow> string list" where
  "surround pre post cmds =
     map (\<lambda>c. (case pre of None \<Rightarrow> [] | Some p \<Rightarrow> p @ '' && '') @ c @ (case post of None \<Rightarrow> [] | Some p \<Rightarrow> '' && '' @ p)) cmds"

definition test_case_mappings :: "(string, string list) dict" where
  "test_case_mappings = [(''basic'', basic_test_cases), (''configure'', config_test_cases), (''build'', build_test_cases),
     (''step'', step_test_cases), (''install'', install_test_cases)]"

definition basic_runs :: "string \<Rightarrow> string list" where
  "basic_runs waf = [waf @ '' configure && '' @ waf @ '' build && '' @ waf @ '' --run scratch/myfirst'',
     waf @ '' configure && '' @ waf @ '' build && '' @ waf @ '' --pyrun scratch/myfirst.py'']"

definition plain_commands :: "string \<Rightarrow> string \<Rightarrow> string list" where
  "plain_commands waf cmd =
     (if cmd = ''basic'' then [] else map (\<lambda>opt. waf @ '' '' @ cmd @ '' '' @ opt) common_test_cases) @
     (case map_of test_case_mappings cmd of None \<Rightarrow> [] | Some cases \<Rightarrow> map (\<lambda>opt. waf @ '' '' @ cmd @ '' '' @ opt) cases) @
     (if cmd = ''basic'' then basic_runs waf else [])"

definition commands_of :: "string \<Rightarrow> string \<Rightarrow> string list" where
  "commands_of waf cmd =
     (let cs = plain_commands waf cmd; configure = Some (waf @ '' configure''); distclean = Some (waf @ '' distclean'')
      in if cmd = ''build'' then surround configure (Some (waf @ '' clean'')) cs @
              [waf @ '' configure --enable-gcov && '' @ waf @ '' build --lcov-report && '' @ waf @ '' clean'']
         else if cmd = ''configure'' then surround None distclean cs
         else if cmd = ''distcheck'' then surround (Some (waf @ '' dist'')) (Some ''rm -rf ns-3*.tar.bz2'') cs
         else if cmd = ''docs'' then surround configure distclean cs
         else if cmd = ''install'' then surround configure (Some (waf @ '' uninstall'')) cs
         else if cmd = ''list'' then surround configure distclean cs
         else if cmd = ''shell'' then surround configure distclean cs
         else if cmd = ''step'' then surround configure distclean cs
         else if cmd = ''uninstall'' then surround (Some (waf @ '' install'')) None cs
         else cs)"

definition waf_commands :: "string \<Rightarrow> port_options \<Rightarrow> string list" where
  "waf_commands exe opt =
     (let cmds = (case custom opt of None \<Rightarrow> [''basic'', ''build'', ''configure'', ''step'', ''clean'', ''dist'', ''list'']
                  | Some s \<Rightarrow> if s = [] then [''basic'', ''build'', ''configure'', ''step'', ''clean'', ''dist'', ''list''] else py_split (CHR '','') s)
      in concat (map (commands_of (exe @ '' waf'')) cmds))"

section \<open>What is tried\<close>

text \<open>The option \<^verbatim>\<open>-g\<close> is not tried by itself, and the case it has grown together with asks for a fullness that does not exist; all
  the other documented pairs of options are there.\<close>

theorem grind_not_tried:
  "''-g'' \<notin> set test_cases \<and> ''-f EXTENSIVE --fullness=EXTENSIVE-g'' \<in> set test_cases \<and> ''--grind'' \<in> set test_cases \<and>
   length (test_commands exe) = length test_cases \<and> distinct test_cases"
  by (simp add: test_cases_def test_commands_def)

lemma surround_form:
  "c \<in> set (surround (Some p) (Some q) cs) \<Longrightarrow> \<exists>d \<in> set cs. c = p @ '' && '' @ d @ '' && '' @ q"
  by (auto simp: surround_def)

lemma suffix_third: "suffix (w @ t) (w @ a @ w @ b @ w @ t)"
  unfolding suffix_def by (intro exI [of _ "w @ a @ w @ b"]) simp

text \<open>Whatever is tried of a command that needs a configured tree comes after a configuration and is followed by a clean-up, in one
  line joined by \<^verbatim>\<open>&&\<close>, so a failure leaves the clean-up out.\<close>

theorem tried_configured:
  assumes "cmd \<in> {''docs'', ''list'', ''shell'', ''step'', ''build''}" and "c \<in> set (commands_of waf cmd)"
  shows "prefix (waf @ '' configure'') c \<and> suffix (if cmd = ''build'' then waf @ '' clean'' else waf @ '' distclean'') c"
proof (cases "cmd = ''build''")
  case True
  then have "c \<in> set (surround (Some (waf @ '' configure'')) (Some (waf @ '' clean'')) (plain_commands waf cmd)) \<or>
      c = waf @ '' configure --enable-gcov && '' @ waf @ '' build --lcov-report && '' @ waf @ '' clean''"
    using assms(2) unfolding commands_of_def Let_def by (simp only: simp_thms if_True set_append Un_iff list.set insert_iff empty_iff)
  then show ?thesis
  proof
    assume "c \<in> set (surround (Some (waf @ '' configure'')) (Some (waf @ '' clean'')) (plain_commands waf cmd))"
    from surround_form [OF this] show ?thesis using True by (auto simp: suffix_def)
  next
    assume c: "c = waf @ '' configure --enable-gcov && '' @ waf @ '' build --lcov-report && '' @ waf @ '' clean''"
    have "prefix (waf @ '' configure'') c" unfolding c by simp
    moreover have "suffix (waf @ '' clean'') c" unfolding c by (rule suffix_third)
    ultimately show ?thesis using True by simp
  qed
next
  case False
  then have "c \<in> set (surround (Some (waf @ '' configure'')) (Some (waf @ '' distclean'')) (plain_commands waf cmd))"
    using assms by (auto simp: commands_of_def Let_def)
  from surround_form [OF this] show ?thesis using False by (auto simp: suffix_def)
qed

end
