(* ===== verification/Module_Templates.thy ===== *)
theory Module_Templates
  imports Py_Prelude
begin

text \<open>
  The templates of \<^verbatim>\<open>create-module.py\<close>, line by line, and \<^verbatim>\<open>str.format\<close> as far as they use it: fields by name, with an
  optional \<open>!r\<close>, and doubled braces.
\<close>

section \<open>Formatting\<close>

datatype template_part = Literal char | Field string bool

fun field_end :: "string \<Rightarrow> (string \<times> string) option" where
  "field_end [] = None"
| "field_end (c # cs) = (if c = CHR ''}'' then Some ([], cs)
     else case field_end cs of None \<Rightarrow> None | Some (f, rest) \<Rightarrow> Some (c # f, rest))"

lemma field_end_shorter: "field_end cs = Some (f, rest) \<Longrightarrow> length rest < length cs"
  by (induction cs arbitrary: f) (auto split: if_splits option.splits)

definition field_of :: "string \<Rightarrow> template_part" where
  "field_of f = (if drop (length f - 2) f = ''!r'' then Field (take (length f - 2) f) True else Field f False)"

text \<open>A brace that is neither doubled nor part of a field is an error.\<close>

function parse_template :: "string \<Rightarrow> template_part list result" where
  "parse_template [] = Inr []"
| "parse_template (c # cs) =
     (if c = CHR ''{'' then
        (case cs of
           [] \<Rightarrow> Inl ValueError
         | d # ds \<Rightarrow>
             if d = CHR ''{'' then res_bind (parse_template ds) (\<lambda>ps. Inr (Literal c # ps))
             else case field_end cs of
                 None \<Rightarrow> Inl ValueError
               | Some (f, rest) \<Rightarrow> res_bind (parse_template rest) (\<lambda>ps. Inr (field_of f # ps)))
      else if c = CHR ''}'' then
        (case cs of
           [] \<Rightarrow> Inl ValueError
         | d # ds \<Rightarrow> if d = CHR ''}'' then res_bind (parse_template ds) (\<lambda>ps. Inr (Literal c # ps)) else Inl ValueError)
      else res_bind (parse_template cs) (\<lambda>ps. Inr (Literal c # ps)))"
  by pat_completeness auto

termination
  by (relation "measure length") (auto simp del: field_end.simps dest!: field_end_shorter)

fun fill_template :: "(string, string) dict \<Rightarrow> template_part list \<Rightarrow> string result" where
  "fill_template args [] = Inr []"
| "fill_template args (Literal c # ps) = res_bind (fill_template args ps) (\<lambda>s. Inr (c # s))"
| "fill_template args (Field f r # ps) =
     (case map_of args f of
        None \<Rightarrow> Inl KeyError
      | Some v \<Rightarrow> res_bind (fill_template args ps) (\<lambda>s. Inr ((if r then repr_plain v else v) @ s)))"

definition str_format :: "string \<Rightarrow> (string, string) dict \<Rightarrow> string result" where
  "str_format template args = res_bind (parse_template template) (fill_template args)"

definition fields_of :: "template_part list \<Rightarrow> string list" where
  "fields_of ps = concat (map (\<lambda>p. case p of Literal c \<Rightarrow> [] | Field f r \<Rightarrow> [f]) ps)"

section \<open>The templates\<close>

definition WSCRIPT_TEMPLATE :: string where
  \<open>WSCRIPT_TEMPLATE = py_join [NL]
  [''# -*- Mode: python; py-indent-offset: 4; indent-tabs-mode: nil; coding: utf-8; -*-'',
   '''',
   ''# def options(opt):'',
   ''#     pass'',
   '''',
   ''# def configure(conf):'',
   ''#     conf.check_nonfatal(header_name='' @ [SQ] @ ''stdint.h'' @ [SQ] @ '', define_name='' @ [SQ] @ ''HAVE_STDINT_H'' @ [SQ] @ '')'',
   '''',
   ''def build(bld):'',
   ''    module = bld.create_ns3_module({MODULE!r}, ['' @ [SQ] @ ''core'' @ [SQ] @ ''])'',
   ''    module.source = ['',
   ''        '' @ [SQ] @ ''model/{MODULE}.cc'' @ [SQ] @ '','',
   ''        '' @ [SQ] @ ''helper/{MODULE}-helper.cc'' @ [SQ] @ '','',
   ''        ]'',
   '''',
   ''    module_test = bld.create_ns3_module_test_library('' @ [SQ] @ ''{MODULE}'' @ [SQ] @ '')'',
   ''    module_test.source = ['',
   ''        '' @ [SQ] @ ''test/{MODULE}-test-suite.cc'' @ [SQ] @ '','',
   ''        ]'',
   ''    # Tests encapsulating example programs should be listed here'',
   ''    if (bld.env['' @ [SQ] @ ''ENABLE_EXAMPLES'' @ [SQ] @ '']):'',
   ''        module_test.source.extend(['',
   ''        #    '' @ [SQ] @ ''test/{MODULE}-examples-test-suite.cc'' @ [SQ] @ '','',
   ''             ])'',
   '''',
   ''    headers = bld(features='' @ [SQ] @ ''ns3header'' @ [SQ] @ '')'',
   ''    headers.module = {MODULE!r}'',
   ''    headers.source = ['',
   ''        '' @ [SQ] @ ''model/{MODULE}.h'' @ [SQ] @ '','',
   ''        '' @ [SQ] @ ''helper/{MODULE}-helper.h'' @ [SQ] @ '','',
   ''        ]'',
   '''',
   ''    if bld.env.ENABLE_EXAMPLES:'',
   ''        bld.recurse('' @ [SQ] @ ''examples'' @ [SQ] @ '')'',
   '''',
   ''    # bld.ns3_python_bindings()'',
   '''',
   '''']\<close>

definition MODEL_CC_TEMPLATE :: string where
  \<open>MODEL_CC_TEMPLATE = py_join [NL]
  [''/* -*- Mode:C++; c-file-style:"gnu"; indent-tabs-mode:nil; -*- */'',
   '''',
   ''#include "{MODULE}.h"'',
   '''',
   ''namespace ns3 {{'',
   '''',
   ''/* ... */'',
   '''',
   '''',
   ''}}'',
   '''',
   '''']\<close>

definition MODEL_H_TEMPLATE :: string where
  \<open>MODEL_H_TEMPLATE = py_join [NL]
  [''/* -*- Mode:C++; c-file-style:"gnu"; indent-tabs-mode:nil; -*- */'',
   ''#ifndef {INCLUDE_GUARD}'',
   ''#define {INCLUDE_GUARD}'',
   '''',
   ''namespace ns3 {{'',
   '''',
   ''/* ... */'',
   '''',
   ''}}'',
   '''',
   ''#endif /* {INCLUDE_GUARD} */'',
   '''',
   '''']\<close>

definition HELPER_CC_TEMPLATE :: string where
  \<open>HELPER_CC_TEMPLATE = py_join [NL]
  [''/* -*- Mode:C++; c-file-style:"gnu"; indent-tabs-mode:nil; -*- */'',
   '''',
   ''#include "{MODULE}-helper.h"'',
   '''',
   ''namespace ns3 {{'',
   '''',
   ''/* ... */'',
   '''',
   '''',
   ''}}'',
   '''',
   '''']\<close>

definition HELPER_H_TEMPLATE :: string where
  \<open>HELPER_H_TEMPLATE = py_join [NL]
  [''/* -*- Mode:C++; c-file-style:"gnu"; indent-tabs-mode:nil; -*- */'',
   ''#ifndef {INCLUDE_GUARD}'',
   ''#define {INCLUDE_GUARD}'',
   '''',
   ''#include "ns3/{MODULE}.h"'',
   '''',
   ''namespace ns3 {{'',
   '''',
   ''/* ... */'',
   '''',
   ''}}'',
   '''',
   ''#endif /* {INCLUDE_GUARD} */'',
   '''',
   '''']\<close>

definition EXAMPLES_WSCRIPT_TEMPLATE :: string where
  \<open>EXAMPLES_WSCRIPT_TEMPLATE = py_join [NL]
  [''# -*- Mode: python; py-indent-offset: 4; indent-tabs-mode: nil; coding: utf-8; -*-'',
   '''',
   ''def build(bld):'',
   ''    obj = bld.create_ns3_program('' @ [SQ] @ ''{MODULE}-example'' @ [SQ] @ '', [{MODULE!r}])'',
   ''    obj.source = '' @ [SQ] @ ''{MODULE}-example.cc'' @ [SQ],
   '''',
   '''']\<close>

definition EXAMPLE_CC_TEMPLATE :: string where
  \<open>EXAMPLE_CC_TEMPLATE = py_join [NL]
  [''/* -*- Mode:C++; c-file-style:"gnu"; indent-tabs-mode:nil; -*- */'',
   '''',
   ''#include "ns3/core-module.h"'',
   ''#include "ns3/{MODULE}-helper.h"'',
   '''',
   ''using namespace ns3;'',
   '''',
   '''',
   ''int '',
   ''main (int argc, char *argv[])'',
   ''{{'',
   ''  bool verbose = true;'',
   '''',
   ''  CommandLine cmd (__FILE__);'',
   ''  cmd.AddValue ("verbose", "Tell application to log if true", verbose);'',
   '''',
   ''  cmd.Parse (argc,argv);'',
   '''',
   ''  /* ... */'',
   '''',
   ''  Simulator::Run ();'',
   ''  Simulator::Destroy ();'',
   ''  return 0;'',
   ''}}'',
   '''',
   '''',
   '''']\<close>

definition TEST_CC_TEMPLATE :: string where
  \<open>TEST_CC_TEMPLATE = py_join [NL]
  [''/* -*- Mode:C++; c-file-style:"gnu"; indent-tabs-mode:nil; -*- */'',
   '''',
   ''// Include a header file from your module to test.'',
   ''#include "ns3/{MODULE}.h"'',
   '''',
   ''// An essential include is test.h'',
   ''#include "ns3/test.h"'',
   '''',
   ''// Do not put your test classes in namespace ns3.  You may find it useful'',
   ''// to use the using directive to access the ns3 namespace directly'',
   ''using namespace ns3;'',
   '''',
   ''// This is an example TestCase.'',
   ''class {CAPITALIZED}TestCase1 : public TestCase'',
   ''{{'',
   ''public:'',
   ''  {CAPITALIZED}TestCase1 ();'',
   ''  virtual ~{CAPITALIZED}TestCase1 ();'',
   '''',
   ''private:'',
   ''  virtual void DoRun (void);'',
   ''}};'',
   '''',
   ''// Add some help text to this case to describe what it is intended to test'',
   ''{CAPITALIZED}TestCase1::{CAPITALIZED}TestCase1 ()'',
   ''  : TestCase ("{CAPITALIZED} test case (does nothing)")'',
   ''{{'',
   ''}}'',
   '''',
   ''// This destructor does nothing but we include it as a reminder that'',
   ''// the test case should clean up after itself'',
   ''{CAPITALIZED}TestCase1::~{CAPITALIZED}TestCase1 ()'',
   ''{{'',
   ''}}'',
   '''',
   ''//'',
   ''// This method is the pure virtual method from class TestCase that every'',
   ''// TestCase must implement'',
   ''//'',
   ''void'',
   ''{CAPITALIZED}TestCase1::DoRun (void)'',
   ''{{'',
   ''  // A wide variety of test macros are available in src/core/test.h'',
   ''  NS_TEST_ASSERT_MSG_EQ (true, true, "true doesn'' @ [SQ] @ ''t equal true for some reason");'',
   ''  // Use this one for floating point comparisons'',
   ''  NS_TEST_ASSERT_MSG_EQ_TOL (0.01, 0.01, 0.001, "Numbers are not equal within tolerance");'',
   ''}}'',
   '''',
   ''// The TestSuite class names the TestSuite, identifies what type of TestSuite,'',
   ''// and enables the TestCases to be run.  Typically, only the constructor for'',
   ''// this class must be defined'',
   ''//'',
   ''class {CAPITALIZED}TestSuite : public TestSuite'',
   ''{{'',
   ''public:'',
   ''  {CAPITALIZED}TestSuite ();'',
   ''}};'',
   '''',
   ''{CAPITALIZED}TestSuite::{CAPITALIZED}TestSuite ()'',
   ''  : TestSuite ("{MODULE}", UNIT)'',
   ''{{'',
   ''  // TestDuration for TestCase can be QUICK, EXTENSIVE or TAKES_FOREVER'',
   ''  AddTestCase (new {CAPITALIZED}TestCase1, TestCase::QUICK);'',
   ''}}'',
   '''',
   ''// Do not forget to allocate an instance of this TestSuite'',
   ''static {CAPITALIZED}TestSuite s{COMPOUND}TestSuite;'',
   '''',
   '''']\<close>

definition DOC_RST_TEMPLATE :: string where
  \<open>DOC_RST_TEMPLATE = py_join [NL]
  [''Example Module Documentation'',
   ''----------------------------'',
   '''',
   ''.. include:: replace.txt'',
   ''.. highlight:: cpp'',
   '''',
   ''.. heading hierarchy:'',
   ''   ------------- Chapter'',
   ''   ************* Section (#.#)'',
   ''   ============= Subsection (#.#.#)'',
   ''   ############# Paragraph (no number)'',
   '''',
   ''This is a suggested outline for adding new module documentation to |ns3|.'',
   ''See ``src/click/doc/click.rst`` for an example.'',
   '''',
   ''The introductory paragraph is for describing what this code is trying to'',
   ''model.'',
   '''',
   ''For consistency (italicized formatting), please use |ns3| to refer to'',
   ''ns-3 in the documentation (and likewise, |ns2| for ns-2).  These macros'',
   ''are defined in the file ``replace.txt``.'',
   '''',
   ''Model Description'',
   ''*****************'',
   '''',
   ''The source code for the new module lives in the directory ``{MODULE_DIR}``.'',
   '''',
   ''Add here a basic description of what is being modeled.'',
   '''',
   ''Design'',
   ''======'',
   '''',
   ''Briefly describe the software design of the model and how it fits into '',
   ''the existing ns-3 architecture. '',
   '''',
   ''Scope and Limitations'',
   ''====================='',
   '''',
   ''What can the model do?  What can it not do?  Please use this section to'',
   ''describe the scope and limitations of the model.'',
   '''',
   ''References'',
   ''=========='',
   '''',
   ''Add academic citations here, such as if you published a paper on this'',
   ''model, or if readers should read a particular specification or other work.'',
   '''',
   ''Usage'',
   ''*****'',
   '''',
   ''This section is principally concerned with the usage of your model, using'',
   ''the public API.  Focus first on most common usage patterns, then go'',
   ''into more advanced topics.'',
   '''',
   ''Building New Module'',
   ''==================='',
   '''',
   ''Include this subsection only if there are special build instructions or'',
   ''platform limitations.'',
   '''',
   ''Helpers'',
   ''======='',
   '''',
   ''What helper API will users typically use?  Describe it here.'',
   '''',
   ''Attributes'',
   ''=========='',
   '''',
   ''What classes hold attributes, and what are the key ones worth mentioning?'',
   '''',
   ''Output'',
   ''======'',
   '''',
   ''What kind of data does the model generate?  What are the key trace'',
   ''sources?   What kind of logging output can be enabled?'',
   '''',
   ''Advanced Usage'',
   ''=============='',
   '''',
   ''Go into further details (such as using the API outside of the helpers)'',
   ''in additional sections, as needed.'',
   '''',
   ''Examples'',
   ''========'',
   '''',
   ''What examples using this new code are available?  Describe them here.'',
   '''',
   ''Troubleshooting'',
   ''==============='',
   '''',
   ''Add any tips for avoiding pitfalls, etc.'',
   '''',
   ''Validation'',
   ''**********'',
   '''',
   ''Describe how the model has been tested/validated.  What tests run in the'',
   ''test suite?  How much API and code is covered by the tests?  Again, '',
   ''references to outside published work may help here.'',
   '''']\<close>

section \<open>Every template can be filled in\<close>

lemma field_end_append: "field_end a = Some (f, rest) \<Longrightarrow> field_end (a @ b) = Some (f, rest @ b)"
  by (induction a arbitrary: f) (auto split: if_splits option.splits)

lemma parse_template_append:
  "parse_template a = Inr ps \<Longrightarrow> parse_template b = Inr qs \<Longrightarrow> parse_template (a @ b) = Inr (ps @ qs)"
proof (induction a arbitrary: ps rule: parse_template.induct)
  case (2 c cs)
  note IH = 2 and prems = "2.prems"
  show ?case
  proof (cases "c = CHR ''{'' \<or> c = CHR ''}''")
    case False
    then obtain rs where "parse_template cs = Inr rs" "ps = Literal c # rs" using prems(1) by (auto simp: res_simps)
    with IH(4) [OF _ _ _ prems(2)] False show ?thesis by auto
  next
    case True
    then obtain d ds where cs: "cs = d # ds" using prems(1) by (cases cs) (auto split: if_splits)
    show ?thesis
    proof (cases "c = d")
      case True
      then obtain rs where "parse_template ds = Inr rs" "ps = Literal c # rs"
        using prems(1) cs \<open>c = CHR ''{'' \<or> c = CHR ''}''\<close> by (auto simp: res_simps)
      moreover from this have "parse_template (ds @ b) = Inr (rs @ qs)"
        using IH(1) [OF _ cs _ _ prems(2)] IH(3) [OF _ _ cs _ _ prems(2)] True \<open>c = CHR ''{'' \<or> c = CHR ''}''\<close> by auto
      ultimately show ?thesis using True cs \<open>c = CHR ''{'' \<or> c = CHR ''}''\<close> by auto
    next
      case False
      then have c: "c = CHR ''{''" "d \<noteq> CHR ''{''" using prems(1) cs True by (auto split: if_splits)
      then obtain f rest rs where f: "field_end cs = Some (f, rest)" "parse_template rest = Inr rs" "ps = field_of f # rs"
        using prems(1) cs by (auto simp: res_simps simp del: field_end.simps split: option.splits prod.splits)
      then have "parse_template (rest @ b) = Inr (rs @ qs)" using IH(2) [OF c(1) cs c(2) f(1) refl _ prems(2)] by auto
      with f c cs field_end_append [OF f(1), of b] show ?thesis by (simp del: field_end.simps)
    qed
  qed
qed simp

definition template_ok :: "string list \<Rightarrow> string \<Rightarrow> bool" where
  "template_ok keys template =
     (case parse_template template of Inl e \<Rightarrow> False | Inr ps \<Rightarrow> \<forall>f \<in> set (fields_of ps). f \<in> set keys)"

lemma template_ok_append: "template_ok keys a \<Longrightarrow> template_ok keys b \<Longrightarrow> template_ok keys (a @ b)"
  using parse_template_append [of a _ b] by (fastforce simp: template_ok_def fields_of_def split: sum.splits)

text \<open>The lines of a template can be checked one by one.\<close>

lemma template_ok_lines: "list_all (template_ok keys) ls \<Longrightarrow> template_ok keys (py_join [NL] ls)"
proof (induction "[NL]" ls rule: py_join.induct)
  case (3 x y ys)
  have "template_ok keys [NL]" by (simp add: template_ok_def fields_of_def)
  with 3 have "template_ok keys (x @ [NL] @ py_join [NL] (y # ys))" by (intro template_ok_append) auto
  then show ?case by simp
qed (simp_all add: template_ok_def fields_of_def)

lemma format_ok:
  assumes "template_ok keys template" and "set keys \<subseteq> dom (map_of args)"
  shows "\<exists>s. str_format template args = Inr s"
proof -
  have "\<exists>s. fill_template args ps = Inr s" if "set (fields_of ps) \<subseteq> dom (map_of args)" for ps
    using that
  proof (induction args ps rule: fill_template.induct)
    case (3 args f r ps)
    then show ?case by (auto simp: fields_of_def)
  qed (auto simp: fields_of_def)
  moreover obtain ps where "parse_template template = Inr ps" "set (fields_of ps) \<subseteq> set keys"
    using assms(1) by (auto simp: template_ok_def split: sum.splits)
  ultimately show ?thesis using assms(2) by (auto simp: str_format_def)
qed

lemma wscript_ok: "template_ok [''MODULE''] WSCRIPT_TEMPLATE"
  unfolding WSCRIPT_TEMPLATE_def by (rule template_ok_lines) code_simp

lemma model_cc_ok: "template_ok [''MODULE''] MODEL_CC_TEMPLATE"
  unfolding MODEL_CC_TEMPLATE_def by (rule template_ok_lines) code_simp

lemma model_h_ok: "template_ok [''MODULE'', ''INCLUDE_GUARD''] MODEL_H_TEMPLATE"
  unfolding MODEL_H_TEMPLATE_def by (rule template_ok_lines) code_simp

lemma helper_cc_ok: "template_ok [''MODULE''] HELPER_CC_TEMPLATE"
  unfolding HELPER_CC_TEMPLATE_def by (rule template_ok_lines) code_simp

lemma helper_h_ok: "template_ok [''MODULE'', ''INCLUDE_GUARD''] HELPER_H_TEMPLATE"
  unfolding HELPER_H_TEMPLATE_def by (rule template_ok_lines) code_simp

lemma examples_wscript_ok: "template_ok [''MODULE''] EXAMPLES_WSCRIPT_TEMPLATE"
  unfolding EXAMPLES_WSCRIPT_TEMPLATE_def by (rule template_ok_lines) code_simp

lemma example_cc_ok: "template_ok [''MODULE''] EXAMPLE_CC_TEMPLATE"
  unfolding EXAMPLE_CC_TEMPLATE_def by (rule template_ok_lines) code_simp

lemma test_cc_ok: "template_ok [''MODULE'', ''CAPITALIZED'', ''COMPOUND''] TEST_CC_TEMPLATE"
  unfolding TEST_CC_TEMPLATE_def by (rule template_ok_lines) code_simp

lemma doc_rst_ok: "template_ok [''MODULE'', ''MODULE_DIR''] DOC_RST_TEMPLATE"
  unfolding DOC_RST_TEMPLATE_def by (rule template_ok_lines) code_simp

lemmas templates_ok = wscript_ok model_cc_ok model_h_ok helper_cc_ok helper_h_ok examples_wscript_ok example_cc_ok test_cc_ok doc_rst_ok

end
