(* ===== verification/Module_Create.thy ===== *)
theory Module_Create
  imports Module_Templates
begin

text \<open>
  The module generator \<^verbatim>\<open>utils/create-module.py\<close>: the functions that write the files of a new module, the module made
  or undone as a whole, and the command line with its checks of names and projects.
\<close>

section \<open>Files and directories\<close>

text \<open>Paths are lists of parts from the working directory.\<close>

type_synonym path = "string list"

record fs =
  dirs :: "path set"
  files :: "path \<Rightarrow> string option"

text \<open>What the operating system refuses.\<close>

record system =
  cannot_make :: "path \<Rightarrow> bool"
  cannot_write :: "path \<Rightarrow> bool"
  cannot_remove :: "path \<Rightarrow> bool"

definition path_exists :: "path \<Rightarrow> fs \<Rightarrow> bool" where
  "path_exists p s \<longleftrightarrow> p \<in> dirs s \<or> files s p \<noteq> None"

definition mkdir_one :: "system \<Rightarrow> path \<Rightarrow> (fs, unit) io" where
  "mkdir_one w p s =
     (if path_exists p s \<or> p = [] \<or> butlast p \<notin> dirs s \<or> cannot_make w p then (Inl OSError, s)
      else (Inr (), s\<lparr>dirs := insert p (dirs s)\<rparr>))"

text \<open>\<^verbatim>\<open>Path.mkdir(parents=True)\<close>: missing parents are made first, from the outermost.\<close>

function make_dirs :: "system \<Rightarrow> bool \<Rightarrow> path \<Rightarrow> (fs, unit) io" where
  "make_dirs w exist_ok p s =
     (if path_exists p s then (if exist_ok \<and> p \<in> dirs s then (Inr (), s) else (Inl OSError, s))
      else if p = [] then (Inl OSError, s)
      else if butlast p \<in> dirs s then mkdir_one w p s
      else (case make_dirs w True (butlast p) s of
              (Inl e, t) \<Rightarrow> (Inl e, t)
            | (Inr _, t) \<Rightarrow> mkdir_one w p t))"
  by pat_completeness auto

termination
  by (relation "measure (\<lambda>(w, e, p, s). length p)") auto

declare make_dirs.simps [simp del]

definition rmtree :: "system \<Rightarrow> path \<Rightarrow> (fs, unit) io" where
  "rmtree w p s =
     (if cannot_remove w p then (Inl OSError, s)
      else (Inr (), \<lparr>dirs = {q \<in> dirs s. \<not> prefix p q}, files = (\<lambda>q. if prefix p q then None else files s q)\<rparr>))"

text \<open>The file is opened, and so made empty, before the template is filled in.\<close>

definition create_file :: "system \<Rightarrow> path \<Rightarrow> string \<Rightarrow> (string, string) dict \<Rightarrow> (fs, unit) io" where
  "create_file w p template args s =
     (if p = [] \<or> butlast p \<notin> dirs s \<or> p \<in> dirs s \<or> cannot_write w p then (Inl OSError, s)
      else let s1 = s\<lparr>files := (files s)(p := Some [])\<rparr> in
           case str_format template args of
             Inl e \<Rightarrow> (Inl e, s1)
           | Inr text_out \<Rightarrow> (Inr (), s1\<lparr>files := (files s1)(p := Some text_out)\<rparr>))"

section \<open>Names\<close>

definition is_lower_char :: "char \<Rightarrow> bool" where
  "is_lower_char c \<longleftrightarrow> 97 \<le> (of_char c :: nat) \<and> (of_char c :: nat) \<le> 122"

definition is_upper_char :: "char \<Rightarrow> bool" where
  "is_upper_char c \<longleftrightarrow> 65 \<le> (of_char c :: nat) \<and> (of_char c :: nat) \<le> 90"

definition upper_char :: "char \<Rightarrow> char" where
  "upper_char c = (if is_lower_char c then char_of (of_char c - 32 :: nat) else c)"

definition lower_char :: "char \<Rightarrow> char" where
  "lower_char c = (if is_upper_char c then char_of (of_char c + 32 :: nat) else c)"

definition py_upper :: "string \<Rightarrow> string" where
  "py_upper = map upper_char"

fun capitalize :: "string \<Rightarrow> string" where
  "capitalize [] = []"
| "capitalize (c # cs) = upper_char c # map lower_char cs"

definition dash_to_underscore :: "string \<Rightarrow> string" where
  "dash_to_underscore = map (\<lambda>c. if c = CHR ''-'' then CHR ''_'' else c)"

text \<open>\<^verbatim>\<open>Path.with_suffix\<close> on the last part: a suffix starts at its last dot, unless that is its first or last character.\<close>

definition with_suffix :: "string \<Rightarrow> string \<Rightarrow> string" where
  "with_suffix suf name =
     (let tail_part = rev (takeWhile (\<lambda>c. c \<noteq> CHR ''.'') (rev name)); i = length name - length tail_part
      in if CHR ''.'' \<in> set name \<and> 1 < i \<and> tail_part \<noteq> [] then take (i - 1) name @ suf else name @ suf)"

section \<open>The files of a module\<close>

definition make_wscript :: "system \<Rightarrow> path \<Rightarrow> string \<Rightarrow> (fs, bool) io" where
  "make_wscript w d n =
     io_bind (create_file w (d @ [''wscript'']) WSCRIPT_TEMPLATE [(''MODULE'', n)]) (\<lambda>_. io_return True)"

definition make_model :: "system \<Rightarrow> path \<Rightarrow> string \<Rightarrow> (fs, bool) io" where
  "make_model w d n =
     io_bind (make_dirs w False (d @ [''model''])) (\<lambda>_.
     io_bind (create_file w (d @ [''model'', with_suffix ''.cc'' n]) MODEL_CC_TEMPLATE [(''MODULE'', n)]) (\<lambda>_.
     io_bind (create_file w (d @ [''model'', with_suffix ''.h'' n]) MODEL_H_TEMPLATE
       [(''MODULE'', n), (''INCLUDE_GUARD'', py_upper (dash_to_underscore n) @ ''_H'')]) (\<lambda>_. io_return True)))"

definition make_test :: "system \<Rightarrow> path \<Rightarrow> string \<Rightarrow> (fs, bool) io" where
  "make_test w d n =
     io_bind (make_dirs w False (d @ [''test''])) (\<lambda>_.
     let parts = py_split CHR ''-'' n in
     io_bind (create_file w (d @ [''test'', with_suffix ''.cc'' (n @ ''-test-suite'')]) TEST_CC_TEMPLATE
       [(''MODULE'', n), (''CAPITALIZED'', concat (map capitalize parts)),
        (''COMPOUND'', concat (map (\<lambda>(i, x). if 0 < i then capitalize x else x) (enumerate 0 parts)))])
     (\<lambda>_. io_return True))"

definition make_helper :: "system \<Rightarrow> path \<Rightarrow> string \<Rightarrow> (fs, bool) io" where
  "make_helper w d n =
     io_bind (make_dirs w False (d @ [''helper''])) (\<lambda>_.
     io_bind (create_file w (d @ [''helper'', with_suffix ''.cc'' (n @ ''-helper'')]) HELPER_CC_TEMPLATE [(''MODULE'', n)]) (\<lambda>_.
     io_bind (create_file w (d @ [''helper'', with_suffix ''.h'' (n @ ''-helper'')]) HELPER_H_TEMPLATE
       [(''MODULE'', n), (''INCLUDE_GUARD'', py_upper (dash_to_underscore n) @ ''_HELPER_H'')]) (\<lambda>_. io_return True)))"

definition make_examples :: "system \<Rightarrow> path \<Rightarrow> string \<Rightarrow> (fs, bool) io" where
  "make_examples w d n =
     io_bind (make_dirs w False (d @ [''examples''])) (\<lambda>_.
     io_bind (create_file w (d @ [''examples'', ''wscript'']) EXAMPLES_WSCRIPT_TEMPLATE [(''MODULE'', n)]) (\<lambda>_.
     io_bind (create_file w (d @ [''examples'', with_suffix ''.cc'' (n @ ''-example'')]) EXAMPLE_CC_TEMPLATE
       [(''MODULE'', n)]) (\<lambda>_. io_return True)))"

definition make_doc :: "system \<Rightarrow> path \<Rightarrow> string \<Rightarrow> (fs, bool) io" where
  "make_doc w d n =
     io_bind (make_dirs w False (d @ [''doc''])) (\<lambda>_.
     io_bind (create_file w (d @ [''doc'', n @ ''.rst'']) DOC_RST_TEMPLATE
       [(''MODULE'', n), (''MODULE_DIR'', py_join ''/'' d)]) (\<lambda>_. io_return True))"

text \<open>\<^verbatim>\<open>all(...)\<close> stops at the first function that does not return true.\<close>

fun all_of :: "('s, bool) io list \<Rightarrow> ('s, bool) io" where
  "all_of [] = io_return True"
| "all_of (m # ms) = io_bind m (\<lambda>b. if b then all_of ms else io_return False)"

definition make_functions :: "system \<Rightarrow> path \<Rightarrow> string \<Rightarrow> (fs, bool) io list" where
  "make_functions w d n = [make_wscript w d n, make_model w d n, make_test w d n, make_helper w d n,
     make_examples w d n, make_doc w d n]"

definition module_body :: "system \<Rightarrow> path \<Rightarrow> string \<Rightarrow> (fs, unit) io" where
  "module_body w d n =
     io_bind (make_dirs w False d) (\<lambda>_.
     io_bind (all_of (make_functions w d n)) (\<lambda>success. if success then io_return () else io_raise ValueError))"

definition make_module :: "system \<Rightarrow> path \<Rightarrow> string \<Rightarrow> (fs, bool) io" where
  "make_module w modpath n s =
     (let d = modpath @ [n] in
      if path_exists d s then (Inr False, s)
      else case module_body w d n s of
          (Inr _, t) \<Rightarrow> (Inr True, t)
        | (Inl e, t) \<Rightarrow>
            if path_exists d t then
              (case rmtree w d t of (Inl e', u) \<Rightarrow> (Inl e', u) | (Inr _, u) \<Rightarrow> (Inr False, u))
            else (Inr False, t))"

section \<open>What the operations touch\<close>

definition fs_ok :: "fs \<Rightarrow> bool" where
  "fs_ok s \<longleftrightarrow> [] \<in> dirs s \<and> (\<forall>p. p \<noteq> [] \<and> path_exists p s \<longrightarrow> butlast p \<in> dirs s) \<and> (\<forall>p \<in> dirs s. files s p = None)"

text \<open>A step that only adds, and only at or below \<open>d\<close>.\<close>

definition adds_below :: "path \<Rightarrow> fs \<Rightarrow> fs \<Rightarrow> bool" where
  "adds_below d s t \<longleftrightarrow> dirs s \<subseteq> dirs t \<and> (\<forall>p. \<not> prefix d p \<longrightarrow> files t p = files s p \<and> (p \<in> dirs t \<longleftrightarrow> p \<in> dirs s))"

lemma adds_below_refl [simp]: "adds_below d s s"
  by (simp add: adds_below_def)

lemma adds_below_trans: "adds_below d s t \<Longrightarrow> adds_below d t u \<Longrightarrow> adds_below d s u"
  by (auto simp: adds_below_def)

lemma mkdir_one_ok: "mkdir_one w p s = (Inr (), t) \<Longrightarrow> t = s\<lparr>dirs := insert p (dirs s)\<rparr> \<and> p \<notin> dirs s \<and> files s p = None"
  by (auto simp: mkdir_one_def path_exists_def split: if_splits)

lemma mkdir_one_fails: "mkdir_one w p s = (Inl e, t) \<Longrightarrow> t = s"
  by (auto simp: mkdir_one_def split: if_splits)

lemma make_dirs_parent:
  assumes "butlast p \<in> dirs s" "p \<noteq> []"
  shows "make_dirs w False p s = mkdir_one w p s"
  using assms by (subst make_dirs.simps) (simp add: mkdir_one_def)

lemma make_dirs_below_parent:
  assumes "butlast p \<in> dirs s" "p \<noteq> []" "prefix d p" "make_dirs w False p s = (r, t)"
  shows "adds_below d s t"
  using assms(3,4) unfolding make_dirs_parent [OF assms(1,2)]
  by (auto simp: mkdir_one_def adds_below_def split: if_splits)

lemma create_file_below: "create_file w p template args s = (r, t) \<Longrightarrow> prefix d p \<Longrightarrow> adds_below d s t"
  by (auto simp: create_file_def Let_def adds_below_def split: if_splits sum.splits)

text \<open>The functions that make the parts of a module work below its directory, when that exists.\<close>

definition works_below :: "path \<Rightarrow> (fs, 'a) io \<Rightarrow> bool" where
  "works_below d m \<longleftrightarrow> (\<forall>s r t. d \<in> dirs s \<and> m s = (r, t) \<longrightarrow> adds_below d s t)"

lemma works_below_bind:
  "works_below d m \<Longrightarrow> (\<And>a. works_below d (f a)) \<Longrightarrow> works_below d (io_bind m f)"
  unfolding works_below_def
proof (intro allI impI)
  fix s r t
  assume m: "\<forall>s r t. d \<in> dirs s \<and> m s = (r, t) \<longrightarrow> adds_below d s t"
    and f: "\<And>a. \<forall>s r t. d \<in> dirs s \<and> f a s = (r, t) \<longrightarrow> adds_below d s t"
    and s: "d \<in> dirs s \<and> io_bind m f s = (r, t)"
  obtain r1 u where u: "m s = (r1, u)" by fastforce
  then have a: "adds_below d s u" using m s by blast
  then have "d \<in> dirs u" using s by (auto simp: adds_below_def)
  then show "adds_below d s t" using u s f adds_below_trans [OF a] a
    by (cases r1) (auto simp: io_bind_def)
qed

lemma works_below_simps [simp]: "works_below d (io_return a)" "works_below d (io_raise e)"
  by (auto simp: works_below_def io_return_def io_raise_def)

lemma works_below_file [simp]: "works_below d (create_file w (d @ p) template args)"
  using create_file_below by (auto simp: works_below_def)

lemma works_below_dir [simp]: "works_below d (make_dirs w False (d @ [x]))"
  using make_dirs_below_parent [of "d @ [x]" _ d] by (auto simp: works_below_def)

lemma works_below_all_of: "\<forall>m \<in> set ms. works_below d m \<Longrightarrow> works_below d (all_of ms)"
  by (induction ms) (auto intro: works_below_bind)

lemma make_functions_below: "works_below d (all_of (make_functions w d n))"
  by (rule works_below_all_of)
    (auto simp: make_functions_def make_wscript_def make_model_def make_test_def make_helper_def make_examples_def
      make_doc_def Let_def intro!: works_below_bind)

text \<open>Making a directory with its parents adds only parents, outermost first.\<close>

lemma make_dirs_adds:
  "make_dirs w e p s = (r, t) \<Longrightarrow> files t = files s \<and> dirs s \<subseteq> dirs t \<and> (\<forall>q \<in> dirs t. q \<in> dirs s \<or> prefix q p) \<and>
    (r = Inr () \<longrightarrow> p \<in> dirs t) \<and> (r \<noteq> Inr () \<longrightarrow> (\<forall>q \<in> dirs t. q \<in> dirs s \<or> strict_prefix q p))"
proof (induction w e p s arbitrary: r t rule: make_dirs.induct)
  case (1 w e p s)
  show ?case
  proof (cases "path_exists p s \<or> p = [] \<or> butlast p \<in> dirs s")
    case True
    with 1(2) show ?thesis
      by (auto simp: make_dirs.simps [of w e p] mkdir_one_def path_exists_def split: if_splits)
  next
    case False
    obtain r1 u where u: "make_dirs w True (butlast p) s = (r1, u)" by fastforce
    have ih: "files u = files s" "dirs s \<subseteq> dirs u" "\<forall>q \<in> dirs u. q \<in> dirs s \<or> prefix q (butlast p)"
      using 1(1) [OF _ _ _ u] False by auto
    have pre: "strict_prefix q p" if "prefix q (butlast p)" for q
      using that False by (metis append_butlast_last_id prefix_order.le_less_trans prefix_snocD strict_prefixI' prefix_order.le_less)
    have q: "\<forall>q \<in> dirs u. q \<in> dirs s \<or> strict_prefix q p" using ih(3) pre by blast
    have t: "t = u \<or> t = u\<lparr>dirs := insert p (dirs u)\<rparr>" "r = Inr () \<longrightarrow> p \<in> dirs t" "r \<noteq> Inr () \<longrightarrow> t = u"
      using 1(2) False u by (auto simp: make_dirs.simps [of w e p] mkdir_one_def split: sum.splits if_splits)
    then show ?thesis using ih(1,2) q by (auto simp: strict_prefix_def)
  qed
qed

section \<open>A module is made as a whole or not at all\<close>

lemma nothing_below:
  assumes "fs_ok s" "\<not> path_exists d s" "prefix d q"
  shows "\<not> path_exists q s"
proof -
  obtain r where "q = d @ r" using assms(3) by (auto simp: prefix_def)
  moreover have "\<not> path_exists (d @ r) s"
  proof (induction r rule: rev_induct)
    case (snoc x r)
    then have "d @ r \<notin> dirs s" by (simp add: path_exists_def)
    then show ?case using assms(1) unfolding fs_ok_def
      by (metis append_assoc butlast_snoc snoc_eq_iff_butlast)
  qed (use assms(2) in simp)
  ultimately show ?thesis by simp
qed

lemma module_body_cases:
  assumes "module_body w d n s = (r, t)"
  obtains (no_dir) e where "make_dirs w False d s = (Inl e, t)" "r = Inl e"
  | (work) u where "make_dirs w False d s = (Inr (), u)" "adds_below d u t"
proof (cases "make_dirs w False d s")
  case (Pair r1 u)
  show ?thesis
  proof (cases r1)
    case (Inl e)
    then show ?thesis using no_dir assms Pair by (simp add: module_body_def io_bind_def)
  next
    case (Inr a)
    have "works_below d (io_bind (all_of (make_functions w d n)) (\<lambda>b. if b then io_return () else io_raise ValueError))"
      by (rule works_below_bind [OF make_functions_below]) simp
    moreover have "d \<in> dirs u" using make_dirs_adds Pair Inr by fastforce
    ultimately have "adds_below d u t"
      using assms Pair Inr unfolding works_below_def by (fastforce simp: module_body_def io_bind_def)
    then show ?thesis using work Pair Inr by simp
  qed
qed

lemma make_module_undone:
  assumes "fs_ok s" and "make_module w modpath n s = (Inr False, t)"
  shows "files t = files s \<and> dirs s \<subseteq> dirs t \<and> (\<forall>q \<in> dirs t. q \<in> dirs s \<or> prefix q modpath)"
proof (cases "path_exists (modpath @ [n]) s")
  case True
  then show ?thesis using assms(2) by (simp add: make_module_def Let_def)
next
  case False
  let ?d = "modpath @ [n]"
  obtain r1 u where b: "module_body w ?d n s = (r1, u)" by fastforce
  have none: "files s q = None \<and> q \<notin> dirs s" if "prefix ?d q" for q
    using nothing_below [OF assms(1) False that] by (simp add: path_exists_def)
  from b show ?thesis
  proof (cases rule: module_body_cases)
    case (no_dir e)
    then have u: "files u = files s" "dirs s \<subseteq> dirs u" "\<forall>q \<in> dirs u. q \<in> dirs s \<or> strict_prefix q ?d"
      using make_dirs_adds [OF no_dir(1)] by auto
    then have "\<not> path_exists ?d u" using none [of ?d] by (auto simp: path_exists_def)
    then have "t = u" using assms(2) False b no_dir(2) by (simp add: make_module_def Let_def)
    then show ?thesis using u by (auto simp: strict_prefix_def)
  next
    case (work v)
    have v: "files v = files s" "dirs s \<subseteq> dirs v" "\<forall>q \<in> dirs v. q \<in> dirs s \<or> prefix q ?d" "?d \<in> dirs v"
      using make_dirs_adds [OF work(1)] by auto
    have "?d \<in> dirs u" using v(4) work(2) by (auto simp: adds_below_def)
    then have "path_exists ?d u" by (simp add: path_exists_def)
    then have "rmtree w ?d u = (Inr (), t)"
      using assms(2) False b by (auto simp: make_module_def Let_def split: sum.splits prod.splits)
    then have t: "dirs t = {q \<in> dirs u. \<not> prefix ?d q}" "files t = (\<lambda>q. if prefix ?d q then None else files u q)"
      by (auto simp: rmtree_def split: if_splits)
    have "files t = files s" using t(2) work(2) v(1) none by (auto simp: fun_eq_iff adds_below_def)
    moreover have "dirs s \<subseteq> dirs t" using t(1) v(2) work(2) none by (auto simp: adds_below_def)
    moreover have "\<forall>q \<in> dirs t. q \<in> dirs s \<or> prefix q modpath"
      using t(1) v(3) work(2) by (auto simp: adds_below_def)
    ultimately show ?thesis by blast
  qed
qed

text \<open>The parts of a module: each works below its own name and succeeds when nothing is there and nothing is refused.\<close>

definition part_runs :: "path \<Rightarrow> string \<times> path list \<Rightarrow> (fs, bool) io \<Rightarrow> bool" where
  "part_runs d xF m \<longleftrightarrow> (\<forall>s. d \<in> dirs s \<and> (\<forall>q. prefix (d @ [fst xF]) q \<longrightarrow> \<not> path_exists q s) \<longrightarrow>
     (\<exists>t. m s = (Inr True, t) \<and> adds_below (d @ [fst xF]) s t \<and> dom (files t) = dom (files s) \<union> set (snd xF)))"

lemma parts_run:
  assumes "list_all2 (part_runs d) xs ms" "distinct (map fst xs)"
  shows "d \<in> dirs s \<Longrightarrow> \<forall>x \<in> fst ` set xs. \<forall>q. prefix (d @ [x]) q \<longrightarrow> \<not> path_exists q s \<Longrightarrow>
    \<exists>t. all_of ms s = (Inr True, t) \<and> dom (files t) = dom (files s) \<union> set (concat (map snd xs))"
  using assms
proof (induction arbitrary: s rule: list_all2_induct)
  case Nil
  then show ?case by simp
next
  case (Cons x xs m ms)
  have "\<forall>q. prefix (d @ [fst x]) q \<longrightarrow> \<not> path_exists q s" using Cons.prems(2) by simp
  then obtain t where t: "m s = (Inr True, t)" "adds_below (d @ [fst x]) s t" "dom (files t) = dom (files s) \<union> set (snd x)"
    using Cons.hyps(1) Cons.prems(1) unfolding part_runs_def by blast
  have "\<not> path_exists q t" if "y \<in> fst ` set xs" "prefix (d @ [y]) q" for y q
  proof -
    have "fst x \<notin> fst ` set xs" using Cons.prems(3) by simp
    then have "y \<noteq> fst x" using that(1) by blast
    then have "\<not> prefix (d @ [fst x]) q" using that(2) by (auto simp: prefix_def)
    then show ?thesis using t(2) Cons.prems(2) that by (auto simp: adds_below_def path_exists_def)
  qed
  moreover have "d \<in> dirs t" using t(2) Cons.prems(1) by (auto simp: adds_below_def)
  ultimately obtain u where "all_of ms t = (Inr True, u)" "dom (files u) = dom (files t) \<union> set (concat (map snd xs))"
    using Cons.IH [of t] Cons.prems(3) by auto
  then show ?case using t(1,3) by (auto simp: Un_assoc)
qed

definition permits :: "system \<Rightarrow> bool" where
  "permits w \<longleftrightarrow> (\<forall>p. \<not> cannot_make w p \<and> \<not> cannot_write w p)"

lemma create_file_runs:
  assumes "permits w" "d \<in> dirs s" "d @ [x] \<notin> dirs s" "template_ok keys template" "set keys \<subseteq> dom (map_of args)"
  shows "\<exists>c. create_file w (d @ [x]) template args s = (Inr (), s\<lparr>files := (files s)(d @ [x] := Some c)\<rparr>)"
  using assms format_ok [OF assms(4,5)] by (auto simp: create_file_def permits_def Let_def)

text \<open>The five parts that are directories: the directory and then files in it.\<close>

fun write_files :: "system \<Rightarrow> path \<Rightarrow> (string \<times> string \<times> (string, string) dict) list \<Rightarrow> (fs, bool) io" where
  "write_files w d [] = io_return True"
| "write_files w d ((x, template, args) # fs) = io_bind (create_file w (d @ [x]) template args) (\<lambda>_. write_files w d fs)"

lemma write_files_run:
  assumes "permits w"
  shows "\<forall>(x, template, args) \<in> set fs. \<exists>keys. template_ok keys template \<and> set keys \<subseteq> dom (map_of args) \<Longrightarrow>
    d \<in> dirs s \<Longrightarrow> \<forall>x. d @ [x] \<notin> dirs s \<Longrightarrow>
    \<exists>t. write_files w d fs s = (Inr True, t) \<and> dirs t = dirs s \<and> (\<forall>p. \<not> prefix d p \<longrightarrow> files t p = files s p) \<and>
      dom (files t) = dom (files s) \<union> set (map (\<lambda>(x, r). d @ [x]) fs)"
proof (induction fs arbitrary: s)
  case (Cons f fs)
  obtain x template args where f: "f = (x, template, args)" by (cases f)
  then obtain keys where k: "template_ok keys template" "set keys \<subseteq> dom (map_of args)" using Cons.prems(1) by auto
  obtain c where c: "create_file w (d @ [x]) template args s = (Inr (), s\<lparr>files := (files s)(d @ [x] := Some c)\<rparr>)"
    using create_file_runs [OF assms Cons.prems(2) _ k] Cons.prems(3) by blast
  let ?s = "s\<lparr>files := (files s)(d @ [x] := Some c)\<rparr>"
  have "\<exists>t. write_files w d fs ?s = (Inr True, t) \<and> dirs t = dirs ?s \<and>
      (\<forall>p. \<not> prefix d p \<longrightarrow> files t p = files ?s p) \<and>
      dom (files t) = dom (files ?s) \<union> set (map (\<lambda>(x, r). d @ [x]) fs)"
    by (rule Cons.IH) (use Cons.prems in simp_all)
  then obtain t where t: "write_files w d fs ?s = (Inr True, t)" "dirs t = dirs ?s"
    "\<forall>p. \<not> prefix d p \<longrightarrow> files t p = files ?s p"
    "dom (files t) = dom (files ?s) \<union> set (map (\<lambda>(x, r). d @ [x]) fs)" by blast
  have "\<forall>p. \<not> prefix d p \<longrightarrow> files t p = files s p" using t(3) by auto
  moreover have "dom (files ?s) = insert (d @ [x]) (dom (files s))" by auto
  ultimately show ?case using c f t by (intro exI [of _ t]) simp
qed auto

lemma directory_part_runs:
  assumes "permits w" "\<forall>(x, template, args) \<in> set fs. \<exists>keys. template_ok keys template \<and> set keys \<subseteq> dom (map_of args)"
    and "m = io_bind (make_dirs w False (d @ [x])) (\<lambda>_. write_files w (d @ [x]) fs)"
  shows "part_runs d (x, map (\<lambda>(y, r). d @ [x, y]) fs) m"
  unfolding part_runs_def
proof (intro allI impI)
  fix s
  assume s: "d \<in> dirs s \<and> (\<forall>q. prefix (d @ [fst (x, map (\<lambda>(y, r). d @ [x, y]) fs)]) q \<longrightarrow> \<not> path_exists q s)"
  then have free: "\<not> path_exists (d @ [x]) s" "\<forall>y. d @ [x, y] \<notin> dirs s" by (auto simp: path_exists_def)
  let ?s = "s\<lparr>dirs := insert (d @ [x]) (dirs s)\<rparr>"
  have mk: "make_dirs w False (d @ [x]) s = (Inr (), ?s)"
    using s free(1) assms(1) make_dirs_parent [of "d @ [x]" s w] by (simp add: mkdir_one_def permits_def)
  obtain t where t: "write_files w (d @ [x]) fs ?s = (Inr True, t)" "dirs t = dirs ?s"
    "\<forall>p. \<not> prefix (d @ [x]) p \<longrightarrow> files t p = files ?s p"
    "dom (files t) = dom (files ?s) \<union> set (map (\<lambda>(y, r). (d @ [x]) @ [y]) fs)"
    using write_files_run [OF assms(1,2), of "d @ [x]" ?s] free(2) by auto
  then show "\<exists>t. m s = (Inr True, t) \<and> adds_below (d @ [fst (x, map (\<lambda>(y, r). d @ [x, y]) fs)]) s t \<and>
      dom (files t) = dom (files s) \<union> set (snd (x, map (\<lambda>(y, r). d @ [x, y]) fs))"
    using mk assms(3) by (intro exI [of _ t]) (auto simp: adds_below_def)
qed

lemma with_suffix_plain [simp]: "CHR ''.'' \<notin> set n \<Longrightarrow> with_suffix suf n = n @ suf"
  by (simp add: with_suffix_def Let_def)

lemma wscript_runs:
  assumes "permits w"
  shows "part_runs d (''wscript'', [d @ [''wscript'']]) (make_wscript w d n)"
  unfolding part_runs_def
proof (intro allI impI)
  fix s
  assume s: "d \<in> dirs s \<and> (\<forall>q. prefix (d @ [fst (''wscript'', [d @ [''wscript'']])]) q \<longrightarrow> \<not> path_exists q s)"
  then have "d @ [''wscript''] \<notin> dirs s" by (auto simp: path_exists_def)
  then obtain c where "create_file w (d @ [''wscript'']) WSCRIPT_TEMPLATE [(''MODULE'', n)] s =
      (Inr (), s\<lparr>files := (files s)(d @ [''wscript''] := Some c)\<rparr>)"
    using create_file_runs [OF assms _ _ wscript_ok] s by fastforce
  then show "\<exists>t. make_wscript w d n s = (Inr True, t) \<and> adds_below (d @ [fst (''wscript'', [d @ [''wscript'']])]) s t \<and>
      dom (files t) = dom (files s) \<union> set (snd (''wscript'', [d @ [''wscript'']]))"
    by (auto simp: make_wscript_def adds_below_def)
qed

definition module_parts :: "path \<Rightarrow> string \<Rightarrow> (string \<times> path list) list" where
  "module_parts d n =
    [(''wscript'', [d @ [''wscript'']]),
     (''model'', [d @ [''model'', n @ ''.cc''], d @ [''model'', n @ ''.h'']]),
     (''test'', [d @ [''test'', n @ ''-test-suite.cc'']]),
     (''helper'', [d @ [''helper'', n @ ''-helper.cc''], d @ [''helper'', n @ ''-helper.h'']]),
     (''examples'', [d @ [''examples'', ''wscript''], d @ [''examples'', n @ ''-example.cc'']]),
     (''doc'', [d @ [''doc'', n @ ''.rst'']])]"

lemma all_args_ok:
  "template_ok keys a \<Longrightarrow> set keys \<subseteq> K \<Longrightarrow> \<exists>keys. template_ok keys a \<and> set keys \<subseteq> K"
  by blast

lemma functions_run:
  assumes "permits w" "CHR ''.'' \<notin> set n"
  shows "list_all2 (part_runs d) (module_parts d n) (make_functions w d n)"
proof -
  have "part_runs d (''model'', map (\<lambda>(y, r). d @ [''model'', y]) [(n @ ''.cc'', MODEL_CC_TEMPLATE, [(''MODULE'', n)]),
      (n @ ''.h'', MODEL_H_TEMPLATE, [(''MODULE'', n), (''INCLUDE_GUARD'', py_upper (dash_to_underscore n) @ ''_H'')])])
      (make_model w d n)"
    by (rule directory_part_runs [OF assms(1)])
      (auto simp: make_model_def assms(2) intro: all_args_ok [OF model_cc_ok] all_args_ok [OF model_h_ok])
  moreover have "part_runs d (''test'', map (\<lambda>(y, r). d @ [''test'', y]) [(n @ ''-test-suite.cc'', TEST_CC_TEMPLATE,
      [(''MODULE'', n), (''CAPITALIZED'', concat (map capitalize (py_split CHR ''-'' n))), (''COMPOUND'',
        concat (map (\<lambda>(i, x). if 0 < i then capitalize x else x) (enumerate 0 (py_split CHR ''-'' n))))])])
      (make_test w d n)"
    by (rule directory_part_runs [OF assms(1)])
      (auto simp: make_test_def Let_def assms(2) intro: all_args_ok [OF test_cc_ok])
  moreover have "part_runs d (''helper'', map (\<lambda>(y, r). d @ [''helper'', y])
      [(n @ ''-helper.cc'', HELPER_CC_TEMPLATE, [(''MODULE'', n)]), (n @ ''-helper.h'', HELPER_H_TEMPLATE,
        [(''MODULE'', n), (''INCLUDE_GUARD'', py_upper (dash_to_underscore n) @ ''_HELPER_H'')])]) (make_helper w d n)"
    by (rule directory_part_runs [OF assms(1)])
      (auto simp: make_helper_def assms(2) intro: all_args_ok [OF helper_cc_ok] all_args_ok [OF helper_h_ok])
  moreover have "part_runs d (''examples'', map (\<lambda>(y, r). d @ [''examples'', y])
      [(''wscript'', EXAMPLES_WSCRIPT_TEMPLATE, [(''MODULE'', n)]),
       (n @ ''-example.cc'', EXAMPLE_CC_TEMPLATE, [(''MODULE'', n)])]) (make_examples w d n)"
    by (rule directory_part_runs [OF assms(1)])
      (auto simp: make_examples_def assms(2) intro: all_args_ok [OF examples_wscript_ok] all_args_ok [OF example_cc_ok])
  moreover have "part_runs d (''doc'', map (\<lambda>(y, r). d @ [''doc'', y])
      [(n @ ''.rst'', DOC_RST_TEMPLATE, [(''MODULE'', n), (''MODULE_DIR'', py_join ''/'' d)])]) (make_doc w d n)"
    by (rule directory_part_runs [OF assms(1)]) (auto simp: make_doc_def intro: all_args_ok [OF doc_rst_ok])
  ultimately show ?thesis
    using wscript_runs [OF assms(1)] by (simp add: module_parts_def make_functions_def)
qed

lemma mkdir_one_runs:
  assumes "permits w" "fs_ok s" "p \<noteq> []" "butlast p \<in> dirs s" "\<not> path_exists p s"
  shows "\<exists>t. mkdir_one w p s = (Inr (), t) \<and> fs_ok t"
  using assms by (auto simp: mkdir_one_def permits_def fs_ok_def path_exists_def split: if_splits)

lemma make_dirs_runs:
  "permits w \<Longrightarrow> fs_ok s \<Longrightarrow> \<not> path_exists p s \<or> e \<and> p \<in> dirs s \<Longrightarrow> \<forall>q. strict_prefix q p \<longrightarrow> files s q = None \<Longrightarrow>
    \<exists>t. make_dirs w e p s = (Inr (), t) \<and> fs_ok t"
proof (induction w e p s rule: make_dirs.induct)
  case (1 w e p s)
  show ?case
  proof (cases "path_exists p s")
    case True
    then show ?thesis using 1(2-4) by (simp add: make_dirs.simps [of w True p])
  next
    case False
    then have p: "p \<noteq> []" using 1(3) by (auto simp: fs_ok_def path_exists_def)
    show ?thesis
    proof (cases "butlast p \<in> dirs s")
      case True
      then show ?thesis
        using mkdir_one_runs [OF 1(2,3) p True False] False p by (simp add: make_dirs.simps [of _ e p])
    next
      case missing: False
      have up: "strict_prefix (butlast p) p" using p by (metis append_butlast_last_id strict_prefixI')
      then have "\<not> path_exists (butlast p) s" using 1(5) missing by (simp add: path_exists_def)
      moreover have "\<forall>q. strict_prefix q (butlast p) \<longrightarrow> files s q = None"
        using 1(5) up by (meson prefix_order.less_trans)
      ultimately obtain t where t: "make_dirs w True (butlast p) s = (Inr (), t)" "fs_ok t"
        using 1(1) [OF False p missing 1(2,3)] by blast
      have a: "files t = files s" "\<forall>q \<in> dirs t. q \<in> dirs s \<or> prefix q (butlast p)" "butlast p \<in> dirs t"
        using make_dirs_adds [OF t(1)] by auto
      have "\<not> prefix p (butlast p)" using p prefix_length_le [of p "butlast p"] by (cases p) auto
      then have "\<not> path_exists p t" using False a(1,2) by (auto simp: path_exists_def)
      then show ?thesis
        using mkdir_one_runs [OF 1(2) t(2) p a(3)] t(1) False missing p by (simp add: make_dirs.simps [of _ e p])
    qed
  qed
qed

text \<open>C21. 
  When the module is not made, because it exists or because something fails on the way, nothing is left of it: the files
  are as before, and only directories above the module may be new.
\<close>

theorem failed_module_undone:
  assumes "fs_ok s" and "make_module w modpath n s = (Inr False, t)"
  shows "files t = files s \<and> dirs s \<subseteq> dirs t \<and> (\<forall>q \<in> dirs t. q \<in> dirs s \<or> prefix q modpath)"
  using make_module_undone [OF assms] .

text \<open>C22. 
  When nothing is in the way and the system permits it the module is made, with exactly its nine files, and
  no other file changes.
\<close>

theorem module_made:
  assumes "permits w" and "fs_ok s" and "\<not> path_exists (modpath @ [n]) s"
    and "\<forall>q. strict_prefix q (modpath @ [n]) \<longrightarrow> files s q = None" and "CHR ''.'' \<notin> set n"
  shows "\<exists>t. make_module w modpath n s = (Inr True, t) \<and>
    dom (files t) = dom (files s) \<union> (\<lambda>f. modpath @ n # f) ` {[''wscript''], [''model'', n @ ''.cc''], [''model'', n @ ''.h''],
      [''test'', n @ ''-test-suite.cc''], [''helper'', n @ ''-helper.cc''], [''helper'', n @ ''-helper.h''],
      [''examples'', ''wscript''], [''examples'', n @ ''-example.cc''], [''doc'', n @ ''.rst'']} \<and>
    (\<forall>p. files s p \<noteq> None \<longrightarrow> files t p = files s p)"
proof -
  let ?d = "modpath @ [n]"
  obtain u where u: "make_dirs w False ?d s = (Inr (), u)" "fs_ok u"
    using make_dirs_runs [OF assms(1,2) _ assms(4)] assms(3) by blast
  have a: "files u = files s" "?d \<in> dirs u" "\<forall>q \<in> dirs u. q \<in> dirs s \<or> prefix q ?d" using make_dirs_adds [OF u(1)] by auto
  have below: "\<not> path_exists q s" if "prefix ?d q" for q using nothing_below [OF assms(2,3) that] .
  have "\<not> path_exists q u" if "prefix (?d @ [x]) q" for x q
  proof -
    have "\<not> path_exists q s" using below that by (auto simp: prefix_def)
    moreover have "\<not> prefix q ?d" using that by (auto simp: prefix_def)
    ultimately show ?thesis using a(1,3) by (auto simp: path_exists_def)
  qed
  then obtain t where t: "all_of (make_functions w ?d n) u = (Inr True, t)"
    "dom (files t) = dom (files u) \<union> set (concat (map snd (module_parts ?d n)))"
    using parts_run [OF functions_run [OF assms(1,5)] _ a(2)] by (auto simp: module_parts_def)
  have "adds_below ?d u t" using make_functions_below t(1) a(2) unfolding works_below_def by blast
  then have keep: "files t p = files s p" if "files s p \<noteq> None" for p
    using that below [of p] a(1) by (auto simp: adds_below_def path_exists_def)
  have "make_module w modpath n s = (Inr True, t)"
    using u(1) t(1) assms(3) by (simp add: make_module_def module_body_def Let_def)
  then show ?thesis using t(2) a(1) keep by (intro exI [of _ t]) (auto simp: module_parts_def)
qed

section \<open>The command line\<close>

text \<open>What ends the reading of the arguments: a usage error, after which the exit code is 2, or an exception.\<close>

datatype stop = Usage | Raised py_error

definition is_name_char :: "char \<Rightarrow> bool" where
  "is_name_char c \<longleftrightarrow> is_lower_char c \<or> is_upper_char c \<or> is_digit c \<or> c = CHR ''_'' \<or> c = CHR ''-''"

text \<open>\<open>^(\w|-)+$\<close> for ASCII names; the end of the pattern also matches before a final newline.\<close>

definition allowed_name :: "string \<Rightarrow> bool" where
  "allowed_name s =
     (let t = (if s \<noteq> [] \<and> last s = NL then butlast s else s) in t \<noteq> [] \<and> list_all is_name_char t)"

definition strip_sep :: "string \<Rightarrow> string" where
  "strip_sep s = rev (dropWhile (\<lambda>c. c = CHR ''/'') (rev (dropWhile (\<lambda>c. c = CHR ''/'') s)))"

text \<open>The parts of a \<^verbatim>\<open>Path\<close> without its root: empty parts and single dots are dropped.\<close>

definition path_parts :: "string \<Rightarrow> string list" where
  "path_parts s = filter (\<lambda>p. p \<noteq> [] \<and> p \<noteq> ''.'') (py_split CHR ''/'' s)"

text \<open>An absolute project path is taken relative to the root, which fails for the root of exactly two slashes.\<close>

definition project_parts :: "string \<Rightarrow> stop + string list" where
  "project_parts project =
     (if take 2 project = ''//'' \<and> take 3 project \<noteq> ''///'' then Inl (Raised ValueError)
      else let parts = path_parts project in if list_all allowed_name parts then Inr parts else Inl Usage)"

definition add_module ::
    "path option \<Rightarrow> string \<Rightarrow> (path \<times> string) list \<Rightarrow> stop + (path \<times> string) list" where
  "add_module project name0 acc =
     (let name = strip_sep name0; parts = path_parts name in
      if name = [] then Inr acc
      else if length parts > 2 then Inr acc
      else case parts of
          [] \<Rightarrow> Inl (Raised IndexError)
        | p # rest \<Rightarrow>
            if p = ''src'' \<and> project \<noteq> None then Inl Usage
            else
              let modpath = (if p = ''src'' then [''src''] else [''contrib'']);
                  parts' = (if p = ''src'' \<or> p = ''contrib'' then rest else parts);
                  modpath' = (case project of None \<Rightarrow> modpath | Some pp \<Rightarrow> ''contrib'' # pp)
              in case parts' of
                   [] \<Rightarrow> Inl (Raised IndexError)
                 | modname # _ \<Rightarrow> if allowed_name modname then Inr (acc @ [(modpath', modname)]) else Inr acc)"

definition modules_of :: "string \<Rightarrow> string list \<Rightarrow> stop + (path \<times> string) list" where
  "modules_of project names =
     res_bind (if project = [] then Inr None else res_bind (project_parts project) (\<lambda>pp. Inr (Some pp)))
       (\<lambda>pp. for_each (add_module pp) names [])"

definition create_main :: "system \<Rightarrow> string \<Rightarrow> string list \<Rightarrow> fs \<Rightarrow> nat \<times> fs" where
  "create_main w project names s =
     (if [''src''] \<notin> dirs s \<or> [''contrib''] \<notin> dirs s then (2, s)
      else case modules_of project names of
          Inl Usage \<Rightarrow> (2, s)
        | Inl (Raised e) \<Rightarrow> (1, s)
        | Inr mods \<Rightarrow>
            (case all_of (map (\<lambda>(p, n). make_module w p n) mods) s of
               (Inl e, t) \<Rightarrow> (1, t)
             | (Inr b, t) \<Rightarrow> (0, t)))"

lemma strip_plain: "s \<noteq> [] \<Longrightarrow> hd s \<noteq> CHR ''/'' \<Longrightarrow> last s \<noteq> CHR ''/'' \<Longrightarrow> strip_sep s = s"
proof -
  assume s: "s \<noteq> []" "hd s \<noteq> CHR ''/''" "last s \<noteq> CHR ''/''"
  have 1: "dropWhile (\<lambda>c. c = CHR ''/'') s = s" using s by (cases s) auto
  have "dropWhile (\<lambda>c. c = CHR ''/'') (rev s) = rev s" using s by (cases s rule: rev_cases) auto
  then show ?thesis using 1 by (simp add: strip_sep_def)
qed

lemma py_split_append: "c \<notin> set a \<Longrightarrow> py_split c (a @ c # b) = a # py_split c b"
  by (induction a) auto

definition plain_part :: "string \<Rightarrow> bool" where
  "plain_part p \<longleftrightarrow> p \<noteq> [] \<and> p \<noteq> ''.'' \<and> CHR ''/'' \<notin> set p"

lemma allowed_plain:
  assumes "allowed_name p"
  shows "plain_part p" and "CHR ''.'' \<notin> set p"
proof -
  have c: "is_name_char c \<Longrightarrow> c \<noteq> CHR ''/'' \<and> c \<noteq> CHR ''.''" for c
    by (auto simp: is_name_char_def is_lower_char_def is_upper_char_def is_digit_def)
  have "p \<noteq> []" using assms by (auto simp: allowed_name_def Let_def)
  then obtain q x where p: "p = q @ [x]" by (cases p rule: rev_cases) auto
  then have q: "list_all is_name_char q" "is_name_char x \<or> x = NL \<and> q \<noteq> []"
    using assms by (auto simp: allowed_name_def Let_def split: if_splits)
  then have "CHR ''/'' \<notin> set p \<and> CHR ''.'' \<notin> set p" using p c by (auto simp: list_all_iff)
  then show "CHR ''.'' \<notin> set p" "plain_part p" using p by (auto simp: plain_part_def)
qed

lemma plain_parts:
  assumes "plain_part p"
  shows "path_parts p = [p]" and "strip_sep p = p"
proof -
  have "hd p \<noteq> CHR ''/''" "last p \<noteq> CHR ''/''" using assms hd_in_set [of p] last_in_set [of p] unfolding plain_part_def by metis+
  then show "path_parts p = [p]" "strip_sep p = p"
    using assms strip_plain [of p] by (auto simp: plain_part_def path_parts_def py_split_no_sep)
qed

lemma plain_parts2:
  assumes "plain_part p" "plain_part q"
  shows "path_parts (p @ CHR ''/'' # q) = [p, q]" and "strip_sep (p @ CHR ''/'' # q) = p @ CHR ''/'' # q"
proof -
  show "path_parts (p @ CHR ''/'' # q) = [p, q]"
    using assms by (simp add: plain_part_def path_parts_def py_split_append py_split_no_sep)
  have "last (p @ CHR ''/'' # q) \<noteq> CHR ''/''" using assms(2) last_in_set [of q] unfolding plain_part_def by (metis last_appendR last_ConsR list.distinct(1))
  moreover have "hd (p @ CHR ''/'' # q) \<noteq> CHR ''/''" using assms by (cases p) (auto simp: plain_part_def)
  ultimately show "strip_sep (p @ CHR ''/'' # q) = p @ CHR ''/'' # q" by (intro strip_plain) auto
qed

text \<open>
  Where a name goes without a project: \<open>src/x\<close> to the sources, \<open>x\<close> and \<open>contrib/x\<close> to the contributions.  A name of two
  parts that starts otherwise is cut to its first part, and the names \<open>src\<close> and \<open>contrib\<close> alone raise.
\<close>

theorem module_places:
  assumes "allowed_name x" and "plain_part y" and "x \<noteq> ''src''" and "x \<noteq> ''contrib''"
  shows "add_module None x acc = Inr (acc @ [([''contrib''], x)]) \<and>
    add_module None (''src/'' @ x) acc = Inr (acc @ [([''src''], x)]) \<and>
    add_module None (''contrib/'' @ x) acc = Inr (acc @ [([''contrib''], x)]) \<and>
    add_module None (x @ ''/'' @ y) acc = Inr (acc @ [([''contrib''], x)]) \<and>
    add_module None ''src'' acc = Inl (Raised IndexError) \<and> add_module None ''contrib'' acc = Inl (Raised IndexError)"
proof -
  have x: "plain_part x" using allowed_plain [OF assms(1)] by simp
  have s: "plain_part ''src''" "plain_part ''contrib''" by (simp_all add: plain_part_def)
  have "x \<noteq> []" using x by (simp add: plain_part_def)
  then show ?thesis
    using plain_parts [OF x] plain_parts2 [OF s(1) x] plain_parts2 [OF s(2) x] plain_parts2 [OF x assms(2)]
      plain_parts [OF s(1)] plain_parts [OF s(2)] assms
    by (simp add: add_module_def Let_def)
qed

text \<open>
  A module that cannot be made, here because it exists, ends the run without the modules named after it, and the exit
  code is still 0.
\<close>

theorem failure_exits_zero:
  assumes "[''src''] \<in> dirs s" and "[''contrib''] \<in> dirs s" and "modules_of project names = Inr ((p, n) # mods)"
    and "path_exists (p @ [n]) s"
  shows "create_main w project names s = (0, s)"
proof -
  have "make_module w p n s = (Inr False, s)" using assms(4) by (simp add: make_module_def Let_def)
  then show ?thesis using assms(1-3) by (simp add: create_main_def io_bind_def)
qed

section \<open>Witnesses\<close>

definition permissive :: system where
  "permissive = \<lparr>cannot_make = (\<lambda>p. False), cannot_write = (\<lambda>p. False), cannot_remove = (\<lambda>p. False)\<rparr>"

definition tree :: fs where
  "tree = \<lparr>dirs = {[], [''src''], [''contrib'']}, files = Map.empty\<rparr>"

lemma tree_ok: "fs_ok tree"
  by (auto simp: fs_ok_def tree_def path_exists_def)

theorem module_made_witness:
  "\<exists>t. make_module permissive [''contrib''] ''net'' tree = (Inr True, t) \<and> files t [''contrib'', ''net'', ''doc'', ''net.rst''] \<noteq> None"
proof -
  have 1: "permits permissive" by (simp add: permits_def permissive_def)
  have 2: "\<not> path_exists ([''contrib''] @ [''net'']) tree" by (simp add: path_exists_def tree_def)
  have 3: "\<forall>q. strict_prefix q ([''contrib''] @ [''net'']) \<longrightarrow> files tree q = None" by (simp add: tree_def)
  have 4: "CHR ''.'' \<notin> set ''net''" by simp
  obtain t where "make_module permissive [''contrib''] ''net'' tree = (Inr True, t)"
    "[''contrib'', ''net'', ''doc'', ''net.rst''] \<in> dom (files t)"
    using module_made [OF 1 tree_ok 2 3 4] by (elim exE conjE) simp_all
  then show ?thesis by (auto simp: dom_def)
qed

theorem failed_module_undone_witness:
  "\<exists>t. make_module (permissive\<lparr>cannot_write := (\<lambda>p. p = [''contrib'', ''net'', ''wscript''])\<rparr>) [''contrib''] ''net'' tree =
     (Inr False, t) \<and> files t = Map.empty"
proof -
  let ?w = "permissive\<lparr>cannot_write := (\<lambda>p. p = [''contrib'', ''net'', ''wscript''])\<rparr>"
  have "fst (make_module ?w [''contrib''] ''net'' tree) = Inr False"
    by (simp add: make_module_def module_body_def make_functions_def make_wscript_def create_file_def Let_def
        make_dirs.simps [of _ False "[''contrib'', ''net'']"] mkdir_one_def path_exists_def tree_def permissive_def
        rmtree_def io_bind_def)
  then obtain t where t: "make_module ?w [''contrib''] ''net'' tree = (Inr False, t)"
    by (cases "make_module ?w [''contrib''] ''net'' tree") auto
  from failed_module_undone [OF tree_ok t] t show ?thesis by (auto simp: tree_def)
qed

theorem module_places_witness:
  "add_module None ''lte/model'' [] = Inr [([''contrib''], ''lte'')]"
  using module_places [of "''lte''" "''model''" "[]"]
  by (simp add: allowed_name_def is_name_char_def is_lower_char_def plain_part_def Let_def)

definition used_tree :: fs where
  "used_tree = \<lparr>dirs = {[], [''src''], [''contrib''], [''contrib'', ''net'']}, files = Map.empty\<rparr>"

theorem failure_exits_zero_witness:
  "create_main permissive '''' [''net'', ''new''] used_tree = (0, used_tree)"
proof -
  have 1: "[''src''] \<in> dirs used_tree" and 2: "[''contrib''] \<in> dirs used_tree"
    and 3: "path_exists ([''contrib''] @ [''net'']) used_tree"
    by (simp_all add: used_tree_def path_exists_def)
  have "modules_of '''' [''net'', ''new''] = Inr [([''contrib''], ''net''), ([''contrib''], ''new'')]" by code_simp
  from failure_exits_zero [OF 1 2 this 3] show ?thesis .
qed

end
