(* ===== verification/Version_Info.thy ===== *)
theory Version_Info
  imports Py_Prelude
begin

text \<open>
  The version information of \<^verbatim>\<open>waf-tools/versioning.py\<close>: the two regular expressions, the task that reads the version
  from git and stores it, and the configuration that looks for a repository or a stored version.  What git answers and
  whether the cache can be written are parameters; a \<^verbatim>\<open>ConfigSet\<close> is a dictionary, and storing and loading one keeps
  it, as waf promises.  Digits are ASCII.
\<close>

section \<open>The regular expressions\<close>

text \<open>\<open>ns-(\d+)\.(\d+)(?:.(\d+))?(?:-(RC.+))?.*\<close>: the groups are greedy and the end matches everything, so nothing is given back.\<close>

definition digits_of :: "string \<Rightarrow> string \<times> string" where
  "digits_of s = (takeWhile is_digit s, dropWhile is_digit s)"

text \<open>The third number follows a dot that is not escaped in the expression: any character but a newline will do.\<close>

definition patch_group :: "string \<Rightarrow> string option \<times> string" where
  "patch_group s =
     (case s of
        [] \<Rightarrow> (None, s)
      | c # cs \<Rightarrow> if c \<noteq> NL \<and> fst (digits_of cs) \<noteq> [] then (Some (fst (digits_of cs)), snd (digits_of cs)) else (None, s))"

definition rc_group :: "string \<Rightarrow> string option" where
  "rc_group s =
     (if take 3 s = ''-RC'' \<and> drop 3 s \<noteq> [] \<and> hd (drop 3 s) \<noteq> NL
      then Some (''RC'' @ takeWhile (\<lambda>c. c \<noteq> NL) (drop 3 s)) else None)"

definition match_version :: "string \<Rightarrow> (string \<times> string \<times> string option \<times> string option) option" where
  "match_version s =
     (if take 3 s \<noteq> ''ns-'' then None
      else let (major, r1) = digits_of (drop 3 s) in
        if major = [] \<or> r1 = [] \<or> hd r1 \<noteq> CHR ''.'' then None
        else let (minor, r2) = digits_of (tl r1) in
          if minor = [] then None
          else let (patch, r3) = patch_group r2 in Some (major, minor, patch, rc_group r3))"

text \<open>\<open>(.+)-(\d+)-(g[a-fA-F0-9]+)(?:-(dirty))?\<close>: the first group is the longest for which the rest fits.\<close>

definition is_hex :: "char \<Rightarrow> bool" where
  "is_hex c \<longleftrightarrow> is_digit c \<or> 97 \<le> (of_char c :: nat) \<and> (of_char c :: nat) \<le> 102 \<or> 65 \<le> (of_char c :: nat) \<and> (of_char c :: nat) \<le> 70"

definition describe_tail :: "string \<Rightarrow> (string \<times> string \<times> bool) option" where
  "describe_tail s =
     (if s = [] \<or> hd s \<noteq> CHR ''-'' then None
      else let (n, r1) = digits_of (tl s); h = takeWhile is_hex (drop 2 r1); r2 = dropWhile is_hex (drop 2 r1) in
        if n = [] \<or> take 2 r1 \<noteq> ''-g'' \<or> h = [] then None
        else Some (n, CHR ''g'' # h, take 6 r2 = ''-dirty''))"

fun match_describe :: "string \<Rightarrow> (string \<times> string \<times> string \<times> bool) option" where
  "match_describe [] = None"
| "match_describe (c # cs) =
     (if c = NL then None
      else case match_describe cs of
          Some (t, r) \<Rightarrow> Some (c # t, r)
        | None \<Rightarrow> (case describe_tail cs of None \<Rightarrow> None | Some r \<Rightarrow> Some ([c], r)))"

section \<open>Git\<close>

text \<open>What a command gives: its output, its error output when it fails, or nothing when it cannot be started.\<close>

datatype git_out = Out string | Failed string | NotRun

record git =
  git_found :: bool
  describe_long :: git_out
  describe_ns3 :: git_out
  toplevel :: git_out
  describe_any_ns3 :: git_out

type_synonym fields = "(string, string) dict"

text \<open>The handler of a failed command reads the error output of the exception, which not every exception has.\<close>

definition command_output :: "git_out \<Rightarrow> string result" where
  "command_output g = (case g of Out s \<Rightarrow> Inr s | Failed e \<Rightarrow> Inl PlainException | NotRun \<Rightarrow> Inl AttributeError)"

definition in_quotes :: "string \<Rightarrow> string" where
  "in_quotes s = QUOT # s @ [QUOT]"

definition parse_version_tag :: "string \<Rightarrow> fields \<Rightarrow> bool \<times> fields" where
  "parse_version_tag tag fs =
     (let safe_tag = py_strip tag in
      case match_version safe_tag of
        None \<Rightarrow> (False, fs)
      | Some (major, minor, patch, rc) \<Rightarrow>
          (True, AList.update ''VERSION_RELEASE_CANDIDATE'' (in_quotes (case rc of None \<Rightarrow> [] | Some r \<Rightarrow> r))
             (AList.update ''VERSION_PATCH'' (case patch of None \<Rightarrow> ''0'' | Some p \<Rightarrow> p)
             (AList.update ''VERSION_MINOR'' minor
             (AList.update ''VERSION_MAJOR'' major
             (AList.update ''VERSION_TAG'' (in_quotes safe_tag) fs))))))"

definition find_closest_tag :: "git \<Rightarrow> fields \<Rightarrow> fields result" where
  "find_closest_tag g fs =
     res_bind (command_output (describe_long g)) (\<lambda>out.
       case match_describe out of
         None \<Rightarrow> Inl ValueError
       | Some (tag, n, h, dirty) \<Rightarrow>
           Inr (snd (parse_version_tag tag
             (AList.update ''VERSION_DIRTY_FLAG'' (if dirty then ''1'' else ''0'')
             (AList.update ''VERSION_COMMIT_HASH'' (in_quotes h)
             (AList.update ''VERSION_TAG_DISTANCE'' n
             (AList.update ''CLOSEST_TAG'' (in_quotes tag) fs)))))))"

definition find_closest_ns3_tag :: "git \<Rightarrow> fields \<Rightarrow> fields result" where
  "find_closest_ns3_tag g fs =
     res_bind (command_output (describe_ns3 g)) (\<lambda>out.
       let (ok, fs') = parse_version_tag (py_strip out) fs in if ok then Inr fs' else Inl ValueError)"

section \<open>The task\<close>

text \<open>The environment of the build and the stored version, if there is one.\<close>

record build_state =
  env :: fields
  version_cache :: "fields option"

definition merge_fields :: "fields \<Rightarrow> fields \<Rightarrow> fields" where
  "merge_fields fs e = foldl (\<lambda>e (k, v). AList.update k v e) e fs"

definition version_fields :: "git \<Rightarrow> fields result" where
  "version_fields g =
     res_bind (find_closest_tag g [])
       (\<lambda>fs. if map_of fs ''VERSION_TAG'' = None then find_closest_ns3_tag g fs else Inr fs)"

definition run_version_task :: "git \<Rightarrow> bool \<Rightarrow> build_state \<Rightarrow> nat \<times> build_state" where
  "run_version_task g storable s =
     (case version_fields g of
        Inl e \<Rightarrow> (1, s)
      | Inr fs \<Rightarrow> if storable then (0, s\<lparr>version_cache := Some fs, env := merge_fields fs (env s)\<rparr>) else (1, s))"

text \<open>The tasks that write the header, and which must run after which.\<close>

datatype version_task = SubstTask | VersionTask

definition generate_version_defines :: "bool \<Rightarrow> version_task list \<times> (version_task \<times> version_task) list" where
  "generate_version_defines have_ns3_repo =
     (if have_ns3_repo then ([SubstTask, VersionTask], [(SubstTask, VersionTask)]) else ([SubstTask], []))"

section \<open>Configuration\<close>

definition nonempty_output :: "git_out \<Rightarrow> bool" where
  "nonempty_output g = (case g of Out s \<Rightarrow> py_strip s \<noteq> [] | _ \<Rightarrow> False)"

definition check_git_repo :: "git \<Rightarrow> bool" where
  "check_git_repo g = (git_found g \<and> nonempty_output (toplevel g))"

definition check_git_repo_has_ns3_tags :: "git \<Rightarrow> bool" where
  "check_git_repo_has_ns3_tags g = nonempty_output (describe_any_ns3 g)"

text \<open>The flags are stored as Python stores them; \<open>None\<close> is the end of the configuration by \<^verbatim>\<open>fatal\<close>.\<close>

definition flag :: "bool \<Rightarrow> string" where
  "flag b = (if b then ''True'' else ''False'')"

definition configure_version :: "git \<Rightarrow> bool \<Rightarrow> build_state \<Rightarrow> build_state option" where
  "configure_version g enabled s =
     (if \<not> enabled then Some s
      else
        let has_git_repo = check_git_repo g;
            has_ns3_tags = (has_git_repo \<and> check_git_repo_has_ns3_tags g);
            s1 = s\<lparr>env := AList.update ''HAVE_NS3_REPO'' (flag has_ns3_tags)
                     (AList.update ''HAVE_GIT_REPO'' (flag has_git_repo) (env s))\<rparr>
        in if has_ns3_tags then Some s1
           else case version_cache s of
               None \<Rightarrow> None
             | Some fs \<Rightarrow> Some (s1\<lparr>env := merge_fields fs (env s1)\<rparr>))"

section \<open>Reading what git prints\<close>

lemma digits_of_append [simp]:
  assumes "list_all is_digit n" and "s = [] \<or> \<not> is_digit (hd s)"
  shows "digits_of (n @ s) = (n, s)"
  using assms by (cases s) (auto simp: digits_of_def list_all_iff takeWhile_append2 dropWhile_append2)

lemma match_describe_skip:
  assumes "match_describe s = None" and "describe_tail s = None" and "CHR ''-'' \<notin> set x"
  shows "match_describe (x @ s) = None"
  using assms(3)
proof (induction x)
  case (Cons c x)
  have "describe_tail (x @ s) = None" using assms(2) Cons.prems by (cases x) (auto simp: describe_tail_def)
  with Cons show ?case by simp
qed (simp add: assms)

lemma match_describe_longest:
  assumes "match_describe s = None" and "describe_tail s = Some r" and "NL \<notin> set tag" and "tag \<noteq> []"
  shows "match_describe (tag @ s) = Some (tag, r)"
  using assms(3,4)
proof (induction tag)
  case (Cons c tag)
  then show ?case using assms(1,2) by (cases tag) auto
qed simp

definition dirty_mark :: "bool \<Rightarrow> string" where
  "dirty_mark d = (if d then ''-dirty'' else [])"

text \<open>What \<^verbatim>\<open>git describe --tags --dirty --long\<close> prints.\<close>

definition described :: "string \<Rightarrow> string \<Rightarrow> string \<Rightarrow> bool \<Rightarrow> string" where
  "described tag n h d = tag @ ''-'' @ n @ ''-g'' @ h @ dirty_mark d @ [NL]"

lemma no_dash_hex: "list_all is_hex h \<Longrightarrow> CHR ''-'' \<notin> set h"
  by (auto simp: list_all_iff is_hex_def is_digit_def)

lemma no_dash_digits: "list_all is_digit h \<Longrightarrow> CHR ''-'' \<notin> set h"
  by (auto simp: list_all_iff is_digit_def)

lemma takeWhile_hex:
  assumes "list_all is_hex h"
  shows "takeWhile is_hex (h @ dirty_mark d @ [NL]) = h" "dropWhile is_hex (h @ dirty_mark d @ [NL]) = dirty_mark d @ [NL]"
  using assms by (auto simp: list_all_iff takeWhile_append2 dropWhile_append2 dirty_mark_def is_hex_def is_digit_def)

lemma match_described:
  assumes "tag \<noteq> []" "NL \<notin> set tag" "n \<noteq> []" "list_all is_digit n" "h \<noteq> []" "list_all is_hex h"
  shows "match_describe (described tag n h d) = Some (tag, n, CHR ''g'' # h, d)"
proof -
  let ?s2 = "dirty_mark d @ [NL]"
  let ?s1 = "''-g'' @ h @ ?s2"
  have 2: "match_describe ?s2 = None" "describe_tail ?s2 = None"
    by (cases d; simp add: dirty_mark_def describe_tail_def digits_of_def is_digit_def)+
  have "match_describe ((CHR ''g'' # h) @ ?s2) = None"
    by (rule match_describe_skip [OF 2]) (use no_dash_hex [OF assms(6)] in simp)
  then have 1: "match_describe ?s1 = None" "describe_tail ?s1 = None"
    by (simp_all add: describe_tail_def digits_of_def is_digit_def)
  have "match_describe (n @ ?s1) = None" by (rule match_describe_skip [OF 1 no_dash_digits [OF assms(4)]])
  moreover have "describe_tail (n @ ?s1) = None"
    using assms(3,4) by (cases n) (auto simp: describe_tail_def is_digit_def)
  ultimately have 0: "match_describe (''-'' @ n @ ?s1) = None" by simp
  have t: "describe_tail (''-'' @ n @ ?s1) = Some (n, CHR ''g'' # h, d)"
    using assms(3,5) digits_of_append [OF assms(4), of ?s1] takeWhile_hex [OF assms(6), of d]
    by (cases d) (simp_all add: describe_tail_def is_digit_def dirty_mark_def)
  show ?thesis using match_describe_longest [OF 0 t assms(2,1)] by (simp add: described_def)
qed

text \<open>The tag of a release, with its optional parts.\<close>

definition release_tag :: "string \<Rightarrow> string \<Rightarrow> string option \<Rightarrow> string option \<Rightarrow> string" where
  "release_tag major minor patch rc =
     ''ns-'' @ major @ ''.'' @ minor @ (case patch of None \<Rightarrow> [] | Some p \<Rightarrow> ''.'' @ p) @
     (case rc of None \<Rightarrow> [] | Some x \<Rightarrow> ''-RC'' @ x)"

definition release_ok :: "string \<Rightarrow> string \<Rightarrow> string option \<Rightarrow> string option \<Rightarrow> bool" where
  "release_ok major minor patch rc \<longleftrightarrow>
     major \<noteq> [] \<and> list_all is_digit major \<and> minor \<noteq> [] \<and> list_all is_digit minor \<and>
     (case patch of None \<Rightarrow> True | Some p \<Rightarrow> p \<noteq> [] \<and> list_all is_digit p) \<and>
     (case rc of None \<Rightarrow> True | Some x \<Rightarrow> x \<noteq> [] \<and> list_all (\<lambda>c. \<not> is_space c) x)"

lemma rc_group_rc:
  assumes "case rc of None \<Rightarrow> True | Some x \<Rightarrow> x \<noteq> [] \<and> list_all (\<lambda>c. \<not> is_space c) x"
  shows "rc_group (case rc of None \<Rightarrow> [] | Some x \<Rightarrow> ''-RC'' @ x) = map_option (\<lambda>x. ''RC'' @ x) rc"
proof (cases rc)
  case (Some x)
  then have "\<forall>c \<in> set x. c \<noteq> NL" "x \<noteq> []" using assms by (auto simp: list_all_iff is_space_def)
  then have "takeWhile (\<lambda>c. c \<noteq> NL) x = x" "hd x \<noteq> NL" by (simp_all add: takeWhile_eq_all_conv)
  then show ?thesis using Some \<open>x \<noteq> []\<close> by (simp add: rc_group_def)
qed (simp add: rc_group_def)

lemma match_release:
  assumes "release_ok major minor patch rc"
  shows "match_version (release_tag major minor patch rc) = Some (major, minor, patch, map_option (\<lambda>x. ''RC'' @ x) rc)"
proof -
  let ?r = "case rc of None \<Rightarrow> [] | Some x \<Rightarrow> ''-RC'' @ x"
  let ?p = "case patch of None \<Rightarrow> [] | Some p \<Rightarrow> ''.'' @ p"
  have ok: "major \<noteq> []" "list_all is_digit major" "minor \<noteq> []" "list_all is_digit minor"
    "\<And>p. patch = Some p \<Longrightarrow> p \<noteq> [] \<and> list_all is_digit p" "rc_group ?r = map_option (\<lambda>x. ''RC'' @ x) rc"
    using assms rc_group_rc [of rc] by (auto simp: release_ok_def)
  have r: "?r = [] \<or> \<not> is_digit (hd ?r)" by (cases rc) (simp_all add: is_digit_def)
  have p: "?p @ ?r = [] \<or> \<not> is_digit (hd (?p @ ?r))" using r by (cases patch) (simp_all add: is_digit_def)
  have "patch_group (?p @ ?r) = (patch, ?r)"
  proof (cases patch)
    case None
    then show ?thesis by (cases rc) (simp_all add: patch_group_def digits_of_def is_digit_def)
  next
    case (Some q)
    then show ?thesis using ok(5) [OF Some] digits_of_append [of q, OF _ r] by (simp add: patch_group_def)
  qed
  moreover have "digits_of (major @ ''.'' @ minor @ ?p @ ?r) = (major, ''.'' @ minor @ ?p @ ?r)"
    by (rule digits_of_append [OF ok(2)]) (simp add: is_digit_def)
  moreover have "digits_of (minor @ ?p @ ?r) = (minor, ?p @ ?r)" by (rule digits_of_append [OF ok(4) p])
  ultimately show ?thesis using ok(1,3,6) by (simp add: release_tag_def match_version_def)
qed

lemma strip_no_space: "list_all (\<lambda>c. \<not> is_space c) s \<Longrightarrow> py_strip s = s"
proof -
  have self: "dropWhile is_space t = t" if "\<forall>c \<in> set t. \<not> is_space c" for t using that by (cases t) auto
  assume "list_all (\<lambda>c. \<not> is_space c) s"
  then show ?thesis using self [of s] self [of "rev s"] by (simp add: py_strip_def list_all_iff)
qed

lemma release_tag_plain:
  assumes "release_ok major minor patch rc"
  shows "list_all (\<lambda>c. \<not> is_space c) (release_tag major minor patch rc)"
proof -
  have "\<not> is_space c" if "is_digit c" for c using that by (auto simp: is_digit_def is_space_def)
  then show ?thesis
    using assms by (auto simp: release_tag_def release_ok_def list_all_iff is_space_def split: option.splits)
qed

section \<open>What the fields are\<close>

definition version_keys :: "string list" where
  "version_keys = [''CLOSEST_TAG'', ''VERSION_TAG_DISTANCE'', ''VERSION_COMMIT_HASH'', ''VERSION_DIRTY_FLAG'', ''VERSION_TAG'',
     ''VERSION_MAJOR'', ''VERSION_MINOR'', ''VERSION_PATCH'', ''VERSION_RELEASE_CANDIDATE'']"

lemma parse_tag_keys:
  "snd (parse_version_tag tag fs) = fs' \<Longrightarrow> dict_keys fs = take 4 version_keys \<Longrightarrow>
    dict_keys fs' = (if fst (parse_version_tag tag fs) then version_keys else take 4 version_keys)"
  by (auto simp: parse_version_tag_def version_keys_def Let_def update_keys split: option.splits prod.splits)

lemma closest_tag_keys:
  assumes "find_closest_tag g [] = Inr fs"
  shows "dict_keys fs = (if map_of fs ''VERSION_TAG'' = None then take 4 version_keys else version_keys)"
proof -
  obtain tag n h d where fs: "fs = snd (parse_version_tag tag
      [(''CLOSEST_TAG'', in_quotes tag), (''VERSION_TAG_DISTANCE'', n), (''VERSION_COMMIT_HASH'', in_quotes h),
       (''VERSION_DIRTY_FLAG'', if d then ''1'' else ''0'')])" (is "fs = snd (parse_version_tag tag ?fs)")
    using assms by (auto simp: find_closest_tag_def res_simps split: option.splits)
  have "dict_keys ?fs = take 4 version_keys" by (simp add: version_keys_def)
  from parse_tag_keys [OF fs [symmetric] this] show ?thesis
    by (auto simp: map_of_eq_None_keys version_keys_def split: if_splits)
qed

lemma version_fields_keys:
  assumes "version_fields g = Inr fs"
  shows "dict_keys fs = version_keys"
proof -
  obtain fs1 where 1: "find_closest_tag g [] = Inr fs1"
    and 2: "(if map_of fs1 ''VERSION_TAG'' = None then find_closest_ns3_tag g fs1 else Inr fs1) = Inr fs"
    using assms by (auto simp: version_fields_def res_simps)
  show ?thesis
  proof (cases "map_of fs1 ''VERSION_TAG'' = None")
    case True
    then obtain out where "(let (ok, fs') = parse_version_tag (py_strip out) fs1 in if ok then Inr fs' else Inl ValueError) = Inr fs"
      using 2 by (auto simp: find_closest_ns3_tag_def res_simps)
    then obtain tag where t: "parse_version_tag tag fs1 = (True, fs)"
      by (cases "parse_version_tag (py_strip out) fs1") (auto split: if_splits)
    have "dict_keys fs1 = take 4 version_keys" using closest_tag_keys [OF 1] True by simp
    from parse_tag_keys [OF _ this, of tag fs] t show ?thesis by simp
  next
    case False
    then have "fs1 = fs" using 2 by (simp only: if_False sum.inject)
    with closest_tag_keys [OF 1] False show ?thesis by (simp only: if_False)
  qed
qed

lemma map_of_merge: "map_of (merge_fields fs e) k = (case map_of (rev fs) k of None \<Rightarrow> map_of e k | Some v \<Rightarrow> Some v)"
proof (induction fs arbitrary: e)
  case (Cons x fs)
  have "merge_fields (x # fs) e = merge_fields fs (AList.update (fst x) (snd x) e)" by (simp add: merge_fields_def split_beta)
  then show ?case by (simp add: Cons.IH map_add_def split: option.splits)
qed (simp add: merge_fields_def)

lemma version_keys_distinct: "distinct version_keys"
  by (simp add: version_keys_def)

lemma map_of_rev_keys: "distinct (dict_keys fs) \<Longrightarrow> map_of (rev fs) k = map_of fs k"
proof (induction fs)
  case (Cons x fs)
  then have "fst x \<notin> dom (map_of fs)" by (simp add: dom_map_of_conv_image_fst)
  with Cons show ?case by (auto simp: map_add_def split: option.splits)
qed simp

lemma merged_version:
  assumes "dict_keys fs = version_keys"
  shows "map_of (merge_fields fs e) k = (if k \<in> set version_keys then map_of fs k else map_of e k)"
proof -
  have "map_of (merge_fields fs e) k = (case map_of fs k of None \<Rightarrow> map_of e k | Some v \<Rightarrow> Some v)"
    by (simp only: map_of_merge map_of_rev_keys [OF version_keys_distinct [folded assms]])
  moreover have "map_of fs k = None \<longleftrightarrow> k \<notin> set version_keys" by (simp only: map_of_eq_None_keys assms)
  ultimately show ?thesis by (auto split: option.splits)
qed

section \<open>Properties\<close>

text \<open>
  The task stores a version or leaves everything as it was: with code 0 the environment has the nine fields of the
  version, which are exactly what the cache has, and nothing else changed; with any other code nothing changed.
\<close>

theorem version_task_atomic:
  "run_version_task g storable s = (c, t) \<longrightarrow>
     (if c = 0 then \<exists>fs. version_fields g = Inr fs \<and> dict_keys fs = version_keys \<and> version_cache t = Some fs \<and>
        (\<forall>k. map_of (env t) k = (if k \<in> set version_keys then map_of fs k else map_of (env s) k))
      else t = s)"
proof (cases "version_fields g")
  case (Inl e)
  then show ?thesis by (auto simp: run_version_task_def)
next
  case (Inr fs)
  note k = version_fields_keys [OF Inr]
  have "map_of (merge_fields fs (env s)) x = (if x \<in> set version_keys then map_of fs x else map_of (env s) x)" for x
    by (rule merged_version [OF k])
  with Inr k show ?thesis by (auto simp: run_version_task_def)
qed

text \<open>C23. 
  At a checkout that git describes by the tag of a release, the task gives the numbers of that release, its candidate,
  the distance, the commit and whether the tree is dirty.
\<close>

theorem release_version:
  assumes "release_ok major minor patch rc" and "n \<noteq> []" and "list_all is_digit n" and "h \<noteq> []" and "list_all is_hex h"
    and "describe_long g = Out (described (release_tag major minor patch rc) n h d)"
  shows "fst (run_version_task g True s) = 0 \<and>
    map (map_of (env (snd (run_version_task g True s)))) version_keys =
      map Some [in_quotes (release_tag major minor patch rc), n, in_quotes (CHR ''g'' # h), if d then ''1'' else ''0'',
        in_quotes (release_tag major minor patch rc), major, minor, case patch of None \<Rightarrow> ''0'' | Some p \<Rightarrow> p,
        in_quotes (case rc of None \<Rightarrow> [] | Some x \<Rightarrow> ''RC'' @ x)]"
proof -
  let ?tag = "release_tag major minor patch rc"
  have plain: "list_all (\<lambda>c. \<not> is_space c) ?tag" by (rule release_tag_plain [OF assms(1)])
  have "?tag \<noteq> []" by (simp add: release_tag_def)
  moreover have "NL \<notin> set ?tag" using plain by (metis NL_space list_all_iff)
  ultimately have m: "match_describe (described ?tag n h d) = Some (?tag, n, CHR ''g'' # h, d)"
    using assms(2-5) by (intro match_described)
  let ?described = "[(''CLOSEST_TAG'', in_quotes ?tag), (''VERSION_TAG_DISTANCE'', n),
      (''VERSION_COMMIT_HASH'', in_quotes (CHR ''g'' # h)), (''VERSION_DIRTY_FLAG'', if d then ''1'' else ''0'')]"
  let ?fs = "?described @ [(''VERSION_TAG'', in_quotes ?tag), (''VERSION_MAJOR'', major), (''VERSION_MINOR'', minor),
      (''VERSION_PATCH'', case patch of None \<Rightarrow> ''0'' | Some p \<Rightarrow> p),
      (''VERSION_RELEASE_CANDIDATE'', in_quotes (case rc of None \<Rightarrow> [] | Some x \<Rightarrow> ''RC'' @ x))]"
  have rc: "(case map_option (\<lambda>x. ''RC'' @ x) rc of None \<Rightarrow> [] | Some r \<Rightarrow> r) = (case rc of None \<Rightarrow> [] | Some x \<Rightarrow> ''RC'' @ x)"
    by (cases rc) simp_all
  have pv: "parse_version_tag ?tag ?described = (True, ?fs)"
    unfolding parse_version_tag_def Let_def strip_no_space [OF plain] match_release [OF assms(1)] option.case prod.case rc
    by simp
  have "find_closest_tag g [] = Inr (snd (parse_version_tag ?tag ?described))"
    unfolding find_closest_tag_def assms(6) command_output_def git_out.case res_bind.simps m option.case prod.case
    by (cases d) simp_all
  then have "find_closest_tag g [] = Inr ?fs" unfolding pv snd_conv .
  then have v: "version_fields g = Inr ?fs" by (simp add: version_fields_def version_keys_def)
  have keys: "dict_keys ?fs = version_keys" by (simp add: version_keys_def)
  have look: "map_of (merge_fields ?fs (env s)) k = map_of ?fs k" if "k \<in> set version_keys" for k
    using merged_version [OF keys, of "env s" k] that by simp
  have "map (map_of (merge_fields ?fs (env s))) version_keys = map (map_of ?fs) version_keys"
    using look by (rule map_cong [OF refl])
  also have "map (map_of ?fs) version_keys = map Some (map snd ?fs)" by (simp add: version_keys_def)
  finally show ?thesis using v by (simp add: run_version_task_def version_keys_def)
qed

text \<open>C24. 
  A version stored by the task is found again where there is no repository: the configuration of a copy of the tree with
  that cache succeeds and has the same nine fields.
\<close>

theorem cache_restores_version:
  assumes "run_version_task g storable s = (0, t)" and "\<not> (check_git_repo g' \<and> check_git_repo_has_ns3_tags g')"
  shows "\<exists>u. configure_version g' True (t\<lparr>env := e\<rparr>) = Some u \<and> map_of (env u) ''HAVE_NS3_REPO'' = Some ''False'' \<and>
    (\<forall>k \<in> set version_keys. map_of (env u) k = map_of (env t) k)"
proof -
  obtain fs where fs: "version_fields g = Inr fs" and t: "t = s\<lparr>version_cache := Some fs, env := merge_fields fs (env s)\<rparr>"
    using assms(1) by (auto simp: run_version_task_def split: sum.splits if_splits)
  note keys = version_fields_keys [OF fs]
  let ?e = "AList.update ''HAVE_NS3_REPO'' (flag False)
      (AList.update ''HAVE_GIT_REPO'' (flag (check_git_repo g')) e)"
  have "configure_version g' True (t\<lparr>env := e\<rparr>) = Some (t\<lparr>env := merge_fields fs ?e\<rparr>)"
    using assms(2) t by (auto simp: configure_version_def Let_def)
  moreover have "''HAVE_NS3_REPO'' \<notin> set version_keys" by (simp add: version_keys_def)
  ultimately show ?thesis using t by (simp add: merged_version [OF keys] flag_def)
qed

text \<open>
  Configuring fails exactly when the version is wanted and there is neither a repository with a tag of a release nor a
  stored version.
\<close>

theorem configure_fails_iff:
  "configure_version g enabled s = None \<longleftrightarrow>
     enabled \<and> \<not> (check_git_repo g \<and> check_git_repo_has_ns3_tags g) \<and> version_cache s = None"
  by (auto simp: configure_version_def Let_def split: option.splits)

text \<open>The third number may follow any character, so what comes after a dash is taken for a patch level.\<close>

lemma dash_is_patch: "match_version ''ns-3.30-5'' = Some (''3'', ''30'', Some ''5'', None)"
  by code_simp

section \<open>Witnesses\<close>

definition some_git :: git where
  "some_git = \<lparr>git_found = True, describe_long = Out (described (release_tag ''3'' ''30'' None (Some ''1'')) ''12'' ''0a1f'' True),
     describe_ns3 = NotRun, toplevel = Out ''/ns3'', describe_any_ns3 = Out ''ns-3.30''\<rparr>"

theorem release_version_witness:
  "map_of (env (snd (run_version_task some_git True \<lparr>env = [], version_cache = None\<rparr>))) ''VERSION_MINOR'' = Some ''30''"
proof -
  have 1: "release_ok ''3'' ''30'' None (Some ''1'')" by code_simp
  have 2: "list_all is_digit ''12''" by code_simp
  have 3: "list_all is_hex ''0a1f''" by code_simp
  from release_version [OF 1 _ 2 _ 3, of some_git True "\<lparr>env = [], version_cache = None\<rparr>"]
  show ?thesis by (simp add: some_git_def version_keys_def)
qed

theorem cache_restores_version_witness:
  "\<exists>u. configure_version (some_git\<lparr>git_found := False\<rparr>) True
      ((snd (run_version_task some_git True \<lparr>env = [], version_cache = None\<rparr>))\<lparr>env := []\<rparr>) = Some u \<and>
    map_of (env u) ''HAVE_NS3_REPO'' = Some ''False''"
proof -
  let ?s = "\<lparr>env = [], version_cache = None\<rparr>"
  have "fst (run_version_task some_git True ?s) = 0" by code_simp
  then have "run_version_task some_git True ?s = (0, snd (run_version_task some_git True ?s))" by (simp add: prod_eq_iff)
  from cache_restores_version [OF this, of "some_git\<lparr>git_found := False\<rparr>" "[]"]
  show ?thesis by (auto simp: check_git_repo_def)
qed

end
