(* ===== verification/Shlex.thy ===== *)
theory Shlex
  imports Py_Prelude
begin

text \<open>
  How command lines are split into words: \<^verbatim>\<open>shlex.split\<close>, as far as the build uses it (\<^verbatim>\<open>waf-tools/shellcmd.py\<close>,
  \<^verbatim>\<open>wutils.py\<close>), and the doubling of backslashes by which \<^verbatim>\<open>wutils.py\<close> keeps them in command templates.
\<close>

section \<open>The lexer\<close>

text \<open>
  \<^verbatim>\<open>shlex.split\<close> in POSIX mode.  The states of the lexer: between words, in a word, in quotes, and after a
  backslash in a word or in double quotes; \<open>tok\<close> is the word so far.
\<close>

datatype lex_state = Between | In_word | In_quotes char | Escaped lex_state

definition is_blank :: "char \<Rightarrow> bool" where
  "is_blank c \<longleftrightarrow> c \<in> {CHR '' '', TAB, NL, CHR 0x0D}"

abbreviation BS :: char where "BS \<equiv> CHR 0x5C"

fun lex_words :: "lex_state \<Rightarrow> string \<Rightarrow> string \<Rightarrow> string list result" where
  "lex_words Between tok [] = Inr []"
| "lex_words In_word tok [] = Inr [tok]"
| "lex_words (In_quotes q) tok [] = Inl ValueError"
| "lex_words (Escaped st) tok [] = Inl ValueError"
| "lex_words Between tok (c # cs) =
     (if is_blank c then lex_words Between [] cs
      else if c = BS then lex_words (Escaped In_word) [] cs
      else if c = QUOT \<or> c = SQ then lex_words (In_quotes c) [] cs
      else lex_words In_word [c] cs)"
| "lex_words In_word tok (c # cs) =
     (if is_blank c then res_bind (lex_words Between [] cs) (\<lambda>ws. Inr (tok # ws))
      else if c = QUOT \<or> c = SQ then lex_words (In_quotes c) tok cs
      else if c = BS then lex_words (Escaped In_word) tok cs
      else lex_words In_word (tok @ [c]) cs)"
| "lex_words (In_quotes q) tok (c # cs) =
     (if c = q then lex_words In_word tok cs
      else if c = BS \<and> q = QUOT then lex_words (Escaped (In_quotes q)) tok cs
      else lex_words (In_quotes q) (tok @ [c]) cs)"
| "lex_words (Escaped st) tok (c # cs) =
     lex_words st (tok @ (case st of In_quotes q \<Rightarrow> if c \<noteq> BS \<and> c \<noteq> q then [BS, c] else [c] | _ \<Rightarrow> [c])) cs"

definition shlex_split :: "string \<Rightarrow> string list result" where
  "shlex_split s = lex_words Between [] s"

text \<open>\<^verbatim>\<open>tmpl.replace('\\', '\\\\')\<close>\<close>

definition double_backslashes :: "string \<Rightarrow> string" where
  "double_backslashes s = concat (map (\<lambda>c. if c = BS then [BS, BS] else [c]) s)"

section \<open>Quoting and splitting\<close>

lemma not_blank_quote [simp]: "\<not> is_blank QUOT" "\<not> is_blank SQ" "\<not> is_blank BS" "is_blank CHR '' ''"
  by (simp_all add: is_blank_def)

text \<open>A word in single quotes, each single quote of its own closed, put in double quotes and reopened.\<close>

definition quote_char :: "char \<Rightarrow> string" where
  "quote_char c = (if c = SQ then [SQ, QUOT, SQ, QUOT, SQ] else [c])"

definition quote_word :: "string \<Rightarrow> string" where
  "quote_word w = [SQ] @ concat (map quote_char w) @ [SQ]"

lemma lex_quoted_chars: "lex_words (In_quotes SQ) tok (concat (map quote_char w) @ rest) = lex_words (In_quotes SQ) (tok @ w) rest"
  by (induction w arbitrary: tok) (simp_all add: quote_char_def)

lemma lex_quoted_word: "lex_words Between tok (quote_word w @ rest) = lex_words In_word w rest"
  by (simp add: quote_word_def lex_quoted_chars)

lemma lex_between_tok: "lex_words Between tok s = lex_words Between [] s"
  by (cases s) simp_all

lemma lex_quoted_words: "shlex_split (py_join '' '' (map quote_word ws)) = Inr ws"
proof -
  have "lex_words Between tok (py_join '' '' (map quote_word ws)) = Inr ws" for tok
  proof (induction ws arbitrary: tok)
    case (Cons w ws)
    show ?case
    proof (cases ws)
      case Nil
      with lex_quoted_word [of tok w "[]"] show ?thesis by simp
    next
      case (Cons v vs)
      then have "lex_words Between tok (py_join '' '' (map quote_word (w # ws))) =
          lex_words In_word w ('' '' @ py_join '' '' (map quote_word ws))"
        using lex_quoted_word [of tok w "'' '' @ py_join '' '' (map quote_word ws)"] by simp
      with Cons.IH show ?thesis by simp
    qed
  qed simp
  then show ?thesis by (simp add: shlex_split_def)
qed

text \<open>Whatever the words are, quoting them and joining them by blanks gives a line that splits into them again.\<close>

theorem shlex_split_quoted: "shlex_split (py_join '' '' (map quote_word ws)) = Inr ws"
  by (rule lex_quoted_words)

fun blank_words :: "string \<Rightarrow> string \<Rightarrow> string list" where
  "blank_words tok [] = (if tok = [] then [] else [tok])"
| "blank_words tok (c # cs) =
     (if is_blank c then (if tok = [] then [] else [tok]) @ blank_words [] cs else blank_words (tok @ [c]) cs)"

lemma lex_doubled:
  assumes "QUOT \<notin> set s" "SQ \<notin> set s"
  shows "tok \<noteq> [] \<Longrightarrow> lex_words In_word tok (double_backslashes s) = Inr (blank_words tok s)"
    and "lex_words Between [] (double_backslashes s) = Inr (blank_words [] s)"
proof -
  have "(tok \<noteq> [] \<longrightarrow> lex_words In_word tok (double_backslashes s) = Inr (blank_words tok s)) \<and>
      lex_words Between [] (double_backslashes s) = Inr (blank_words [] s)"
    using assms
  proof (induction s arbitrary: tok)
    case (Cons c s)
    then show ?case by (cases "c = BS") (auto simp: double_backslashes_def)
  qed (simp add: double_backslashes_def)
  then show "tok \<noteq> [] \<Longrightarrow> lex_words In_word tok (double_backslashes s) = Inr (blank_words tok s)"
    and "lex_words Between [] (double_backslashes s) = Inr (blank_words [] s)" by auto
qed

text \<open>A filled template without quotes is split at its blanks, and backslashes in it stay as they are.\<close>

theorem template_words:
  assumes "QUOT \<notin> set s" "SQ \<notin> set s"
  shows "shlex_split (double_backslashes s) = Inr (blank_words [] s)"
  unfolding shlex_split_def by (rule lex_doubled(2) [OF assms])

theorem template_words_witness: "shlex_split (double_backslashes [CHR ''a'', BS, CHR ''b'', CHR '' '', CHR ''c'']) = Inr [[CHR ''a'', BS, CHR ''b''], ''c'']"
  using template_words [of "[CHR ''a'', BS, CHR ''b'', CHR '' '', CHR ''c'']"] by (simp add: is_blank_def)

lemma single_quotes_double: "shlex_split (double_backslashes [SQ, BS, SQ]) = Inr [[BS, BS]]"
  by (simp add: shlex_split_def double_backslashes_def)

end
