(* ===== verification/Waf_Run.thy ===== *)
theory Waf_Run
  imports Rad_Util Shlex
begin

text \<open>
  Running programs of the build (\<^verbatim>\<open>wutils.py\<close>): the command template, the search for the program in the tree, the environment
  of the process, the ways to run it (plain, under gdb or valgrind) and what its exit code becomes.  The operator
  \<^verbatim>\<open>%\<close> of strings is modelled as far as the file uses it.
\<close>

section \<open>Errors\<close>

datatype run_error =
    No_such_program string "string list"
  | Conflicting_options string string
  | No_valgrind
  | Signalled "string list" string
  | Exited "string list" int
  | Raised py_error
  | Other_conversion

type_synonym 'a run_result = "run_error + 'a"

definition lift_error :: "'a result \<Rightarrow> 'a run_result" where
  "lift_error r = (case r of Inl e \<Rightarrow> Inl (Raised e) | Inr a \<Rightarrow> Inr a)"

section \<open>Templates\<close>

text \<open>
  \<^verbatim>\<open>template % (arg,)\<close>: \<^verbatim>\<open>%s\<close> takes the argument and \<^verbatim>\<open>%%\<close> is a percent sign; an argument too many or too
  few is a \<^verbatim>\<open>TypeError\<close>, a trailing \<^verbatim>\<open>%\<close> a \<^verbatim>\<open>ValueError\<close>.  Other conversions are told apart but not carried out.
\<close>

fun format_with :: "string list \<Rightarrow> string \<Rightarrow> string run_result" where
  "format_with args [] = (if args = [] then Inr [] else Inl (Raised TypeError))"
| "format_with args [c] = (if c = CHR ''%'' then Inl (Raised ValueError)
     else if args = [] then Inr [c] else Inl (Raised TypeError))"
| "format_with args (c # d # cs) =
     (if c \<noteq> CHR ''%'' then res_bind (format_with args (d # cs)) (\<lambda>r. Inr (c # r))
      else if d = CHR ''%'' then res_bind (format_with args cs) (\<lambda>r. Inr (d # r))
      else if d = CHR ''s'' then
        (case args of [] \<Rightarrow> Inl (Raised TypeError) | a # as \<Rightarrow> res_bind (format_with as cs) (\<lambda>r. Inr (a @ r)))
      else Inl Other_conversion)"

definition py_percent :: "string \<Rightarrow> string \<Rightarrow> string run_result" where
  "py_percent template arg = format_with [arg] template"

section \<open>The command template and the search for the program\<close>

text \<open>The options of the command line that the file reads; a template that is missing or empty counts as \<^verbatim>\<open>%s\<close>.\<close>

record run_options =
  command_template :: "string option"
  valgrind :: bool
  gdb :: bool
  cwd_launch :: "string option"

definition get_command_template :: "run_options \<Rightarrow> string list \<Rightarrow> string" where
  "get_command_template opts args =
     foldl (\<lambda>cmd arg. cmd @ '' '' @ arg)
       (case command_template opts of None \<Rightarrow> ''%s'' | Some t \<Rightarrow> if t = [] then ''%s'' else t) args"

text \<open>\<^verbatim>\<open>relpath\<close> on absolute paths.\<close>

fun common_parts :: "string list \<Rightarrow> string list \<Rightarrow> nat" where
  "common_parts (x # xs) (y # ys) = (if x = y then Suc (common_parts xs ys) else 0)"
| "common_parts _ _ = 0"

definition relpath_parts :: "string list \<Rightarrow> string list \<Rightarrow> string list" where
  "relpath_parts start path =
     (let i = common_parts start path in replicate (length start - i) ''..'' @ drop i path)"

definition join_parts :: "string list \<Rightarrow> string" where
  "join_parts ps = (case ps of [] \<Rightarrow> ''.'' | p # ps \<Rightarrow> foldl path_join p ps)"

definition relpath :: "string \<Rightarrow> string \<Rightarrow> string run_result" where
  "relpath path start =
     (if path = [] then Inl (Raised ValueError)
      else Inr (join_parts (relpath_parts (py_split CHR ''/'' start) (py_split CHR ''/'' path))))"

text \<open>
  A task generator of the build: its name and target, the absolute paths of its directory in the source tree and in the
  build tree, and of the program it makes.
\<close>

record task_gen =
  gen_name :: string
  is_ns3_program :: bool
  src_dir :: string
  bld_dir :: string
  program_path :: string

definition program_names :: "string \<Rightarrow> task_gen \<Rightarrow> string list run_result" where
  "program_names launch_dir g =
     res_bind (relpath (src_dir g) launch_dir) (\<lambda>r. Inr [gen_name g, path_join r (gen_name g)])"

definition in_launch_tree :: "string \<Rightarrow> task_gen \<Rightarrow> bool" where
  "in_launch_tree launch_dir g \<longleftrightarrow> prefix launch_dir (src_dir g) \<or> prefix launch_dir (bld_dir g)"

fun find_program_in :: "string \<Rightarrow> string \<Rightarrow> task_gen list \<Rightarrow> string list \<Rightarrow> task_gen run_result" where
  "find_program_in launch_dir name [] found = Inl (No_such_program name found)"
| "find_program_in launch_dir name (g # gs) found =
     (if \<not> is_ns3_program g then find_program_in launch_dir name gs found
      else if \<not> in_launch_tree launch_dir g then find_program_in launch_dir name gs found
      else res_bind (program_names launch_dir g) (\<lambda>names.
        if name \<in> set names then Inr g else find_program_in launch_dir name gs (found @ names)))"

definition find_program :: "string \<Rightarrow> string \<Rightarrow> task_gen list \<Rightarrow> task_gen run_result" where
  "find_program launch_dir name gens = find_program_in launch_dir name gens []"

section \<open>The environment of the process\<close>

type_synonym environ = "(string, string) dict"

record build =
  task_gens :: "task_gen list"
  module_path :: "string list"
  executable_path :: "string list"
  python_module_dir :: string
  pyviz_dir :: string
  valgrind_programs :: "string list"
  python_programs :: "string list"

definition path_variable :: "string \<Rightarrow> string" where
  "path_variable platform =
     (if platform = ''linux2'' \<or> platform = ''linux'' then ''LD_LIBRARY_PATH''
      else if platform = ''darwin'' then ''DYLD_LIBRARY_PATH''
      else if platform = ''win32'' then ''PATH''
      else if platform = ''cygwin'' then ''PATH''
      else if prefix ''freebsd'' platform then ''LD_LIBRARY_PATH''
      else ''LD_LIBRARY_PATH'')"

definition pathsep :: "string \<Rightarrow> string" where
  "pathsep platform = (if platform = ''win32'' then '';'' else '':'')"

definition prepend_path :: "string \<Rightarrow> string \<Rightarrow> string list \<Rightarrow> environ \<Rightarrow> environ" where
  "prepend_path sep var parts env =
     (case map_of env var of
        Some old \<Rightarrow> AList.update var (py_join sep (parts @ [old])) env
      | None \<Rightarrow> AList.update var (py_join sep parts) env)"

definition get_proc_env :: "string \<Rightarrow> build \<Rightarrow> environ \<Rightarrow> environ option \<Rightarrow> environ" where
  "get_proc_env platform b os_environ os_env =
     (let sep = pathsep platform;
          env = (case os_env of None \<Rightarrow> os_environ | Some e \<Rightarrow> fold (\<lambda>(k, v). AList.update k v) e os_environ)
      in prepend_path sep ''PATH'' (executable_path b)
        (prepend_path sep ''PYTHONPATH'' [python_module_dir b, pyviz_dir b]
          (prepend_path sep (path_variable platform) (module_path b) env)))"

section \<open>Running\<close>

text \<open>
  What the operating system is asked to start.  What a process does is a parameter: its exit code and
  what it writes to the standard error.
\<close>

record started =
  argv :: "string list"
  proc_env :: environ
  proc_cwd :: "string option"

type_synonym execution = "started \<Rightarrow> int \<times> string"

text \<open>The loop over the text of the standard error goes over its characters.\<close>

definition leak_in :: "string \<Rightarrow> bool" where
  "leak_in stderrdata = list_ex (\<lambda>line. has_infix ''== LEAK SUMMARY'' line) (map (\<lambda>c. [c]) stderrdata)"

text \<open>\<open>signals\<close> are the attributes of the module \<^verbatim>\<open>signal\<close> with their values.\<close>

definition is_signal_name :: "string \<Rightarrow> bool" where
  "is_signal_name name \<longleftrightarrow> 3 < length name \<and> take 3 name = ''SIG'' \<and> name ! 3 \<noteq> CHR ''_''"

definition signal_name :: "(string \<times> int) list \<Rightarrow> int \<Rightarrow> string option" where
  "signal_name signals retval =
     (if retval < 0 then map_option fst (find (\<lambda>(name, val). is_signal_name name \<and> val = - retval) signals) else None)"

definition check_retval :: "(string \<times> int) list \<Rightarrow> string list \<Rightarrow> int \<Rightarrow> int run_result" where
  "check_retval signals av retval =
     (if retval = 0 then Inr 0
      else case signal_name signals retval of
             Some signame \<Rightarrow> Inl (Signalled av signame)
           | None \<Rightarrow> Inl (Exited av retval))"

text \<open>The process that is started, if any, and the result.\<close>

definition is_set :: "string option \<Rightarrow> bool" where
  "is_set t \<longleftrightarrow> t \<noteq> None \<and> t \<noteq> Some []"

definition run_argv ::
    "string \<Rightarrow> (string \<times> int) list \<Rightarrow> execution \<Rightarrow> run_options \<Rightarrow> build \<Rightarrow> environ \<Rightarrow>
      string list \<Rightarrow> environ option \<Rightarrow> string option \<Rightarrow> bool \<Rightarrow> started option \<times> int run_result" where
  "run_argv platform signals exec opts b os_environ av os_env cwd force_no_valgrind =
     (let env = get_proc_env platform b os_environ os_env in
      if valgrind opts \<and> is_set (command_template opts) then (None, Inl (Conflicting_options ''--command-template'' ''--valgrind''))
      else if gdb opts \<and> is_set (command_template opts) then (None, Inl (Conflicting_options ''--command-template'' ''--gdb''))
      else if gdb opts \<and> valgrind opts then (None, Inl (Conflicting_options ''--valgrind'' ''--gdb''))
      else if gdb opts then
        let p = \<lparr>argv = [''gdb'', ''--args''] @ av, proc_env = env, proc_cwd = cwd\<rparr> in (Some p, Inr (fst (exec p)))
      else if valgrind opts \<and> \<not> force_no_valgrind then
        (case valgrind_programs b of
           [] \<Rightarrow> (None, Inl No_valgrind)
         | vg # _ \<Rightarrow>
             let p = \<lparr>argv = [vg, ''--leak-check=full'', ''--show-reachable=yes'', ''--error-exitcode=1''] @ av,
                      proc_env = env, proc_cwd = cwd\<rparr>;
                 (code, stderrdata) = exec p;
                 retval = (if code = 0 \<and> leak_in stderrdata then 1 else code)
             in (Some p, check_retval signals (argv p) retval))
      else
        let p = \<lparr>argv = av, proc_env = env, proc_cwd = cwd\<rparr>
        in (Some p, check_retval signals av (fst (exec p))))"

text \<open>Program and arguments of a run.\<close>

definition strip_cc :: "string \<Rightarrow> string" where
  "strip_cc name = (if suffix ''.cc'' name then take (length name - 3) name else name)"

definition get_run_program :: "string \<Rightarrow> build \<Rightarrow> string \<Rightarrow> string option \<Rightarrow> (string \<times> string list) run_result" where
  "get_run_program launch_dir b program_string template =
     (if template = None \<or> template = Some ''%s'' then
        res_bind (lift_error (shlex_split program_string)) (\<lambda>av.
          (case av of
             [] \<Rightarrow> Inl (Raised IndexError)
           | prog # args \<Rightarrow>
               res_bind (find_program launch_dir (strip_cc prog) (task_gens b)) (\<lambda>g.
                 Inr (strip_cc prog, program_path g # args))))
      else
        res_bind (find_program launch_dir (strip_cc program_string) (task_gens b)) (\<lambda>g.
        res_bind (py_percent (the template) (program_path g)) (\<lambda>tmpl.
        res_bind (lift_error (shlex_split (double_backslashes tmpl))) (\<lambda>execvec. Inr (strip_cc program_string, execvec)))))"

definition visual_argument :: string where
  "visual_argument = ''--SimulatorImplementationType=ns3::VisualSimulatorImpl''"

definition run_cwd :: "run_options \<Rightarrow> string \<Rightarrow> string option \<Rightarrow> string option" where
  "run_cwd opts default_cwd cwd =
     (case cwd of Some d \<Rightarrow> Some d
      | None \<Rightarrow> if is_set (cwd_launch opts) then cwd_launch opts else Some default_cwd)"

definition run_program ::
    "string \<Rightarrow> (string \<times> int) list \<Rightarrow> execution \<Rightarrow> string \<Rightarrow> string \<Rightarrow> run_options \<Rightarrow> build \<Rightarrow> environ \<Rightarrow>
      string \<Rightarrow> string option \<Rightarrow> string option \<Rightarrow> bool \<Rightarrow> started option \<times> int run_result" where
  "run_program platform signals exec launch_dir default_cwd opts b os_environ program_string template cwd visualize =
     (case get_run_program launch_dir b program_string template of
        Inl e \<Rightarrow> (None, Inl e)
      | Inr (_, execvec) \<Rightarrow>
          run_argv platform signals exec opts b os_environ (execvec @ (if visualize then [visual_argument] else []))
            None (run_cwd opts default_cwd cwd) False)"

definition run_python_program ::
    "string \<Rightarrow> (string \<times> int) list \<Rightarrow> execution \<Rightarrow> string \<Rightarrow> run_options \<Rightarrow> build \<Rightarrow> environ \<Rightarrow>
      string \<Rightarrow> bool \<Rightarrow> started option \<times> int run_result" where
  "run_python_program platform signals exec default_cwd opts b os_environ program_string visualize =
     (case shlex_split program_string of
        Inl e \<Rightarrow> (None, Inl (Raised e))
      | Inr execvec \<Rightarrow>
          (case python_programs b of
             [] \<Rightarrow> (None, Inl (Raised IndexError))
           | python # _ \<Rightarrow>
               run_argv platform signals exec opts b os_environ
                 (python # execvec @ (if visualize then [visual_argument] else []))
                 None (run_cwd opts default_cwd None) False))"

text \<open>\<^verbatim>\<open>uniquify_list\<close>: \<open>seen\<close> is the set the comprehension adds to as it goes.\<close>

fun uniquify_from :: "'a set \<Rightarrow> 'a list \<Rightarrow> 'a list" where
  "uniquify_from seen [] = []"
| "uniquify_from seen (x # xs) = (if x \<notin> seen then x # uniquify_from (insert x seen) xs else uniquify_from seen xs)"

definition uniquify_list :: "'a list \<Rightarrow> 'a list" where
  "uniquify_list seq = uniquify_from {} seq"

section \<open>Finding programs\<close>

lemma common_parts_take: "take (common_parts xs ys) xs = take (common_parts xs ys) ys \<and> common_parts xs ys \<le> length xs \<and> common_parts xs ys \<le> length ys"
  by (induction xs ys rule: common_parts.induct) auto

text \<open>Following a path of parts from a directory.\<close>

definition follow :: "string list \<Rightarrow> string list \<Rightarrow> string list" where
  "follow start ps = foldl (\<lambda>d p. if p = ''..'' then butlast d else d @ [p]) start ps"

lemma follow_up: "follow start (replicate k ''..'') = take (length start - k) start"
proof (induction k arbitrary: start)
  case (Suc k)
  then show ?case by (simp add: follow_def butlast_conv_take)
qed (simp add: follow_def)

lemma follow_down: "''..'' \<notin> set ps \<Longrightarrow> follow start ps = start @ ps"
  by (induction ps arbitrary: start) (auto simp: follow_def)

lemma common_parts_snoc:
  "common_parts (xs @ [x]) ys \<le> Suc (common_parts xs ys) \<and> common_parts xs ys \<le> common_parts (xs @ [x]) ys"
proof (induction xs arbitrary: ys)
  case Nil
  then show ?case by (cases ys) auto
next
  case (Cons a xs)
  then show ?case by (cases ys) auto
qed

lemma relpath_parts_step:
  assumes "start' = butlast start \<or> start' = start @ [p]"
  shows "length (relpath_parts start path) \<le> Suc (length (relpath_parts start' path))"
proof -
  have len: "length (relpath_parts xs path) = (length xs - common_parts xs path) + (length path - common_parts xs path)" for xs
    by (simp add: relpath_parts_def Let_def)
  have "common_parts start' path \<le> common_parts start path" if "start' = butlast start"
    using common_parts_snoc [of "butlast start" "last start" path] that by (cases "start = []") auto
  with assms common_parts_take [of start path] common_parts_take [of start' path] common_parts_snoc [of start p path]
  show ?thesis unfolding len by (cases start rule: rev_cases) auto
qed

text \<open>The relative path leads from the start to the path, and goes up no further than it must.\<close>

theorem relpath_leads:
  assumes "''..'' \<notin> set path"
  shows "follow start (relpath_parts start path) = path \<and>
    (\<forall>ps. follow start ps = path \<longrightarrow> length (relpath_parts start path) \<le> length ps)"
proof
  let ?i = "common_parts start path"
  note i = common_parts_take [of start path]
  have "''..'' \<notin> set (drop ?i path)" using assms by (meson in_set_dropD)
  moreover have "follow start (relpath_parts start path) = follow (follow start (replicate (length start - ?i) ''..'')) (drop ?i path)"
    by (simp add: relpath_parts_def Let_def follow_def)
  moreover have "take ?i path @ drop ?i path = path" by simp
  ultimately show "follow start (relpath_parts start path) = path"
    using i by (simp add: follow_up follow_down)
  show "\<forall>ps. follow start ps = path \<longrightarrow> length (relpath_parts start path) \<le> length ps"
  proof (intro allI impI)
    fix ps
    assume "follow start ps = path"
    then show "length (relpath_parts start path) \<le> length ps"
    proof (induction ps arbitrary: start)
      case Nil
      have "common_parts path path = length path" by (induction path) auto
      with Nil show ?case by (simp add: follow_def relpath_parts_def Let_def)
    next
      case (Cons p ps)
      let ?start = "if p = ''..'' then butlast start else start @ [p]"
      have "length (relpath_parts ?start path) \<le> length ps" using Cons by (simp add: follow_def)
      moreover have "length (relpath_parts start path) \<le> Suc (length (relpath_parts ?start path))"
        by (rule relpath_parts_step [of _ _ p]) auto
      ultimately show ?case by simp
    qed
  qed
qed

theorem relpath_leads_witness: "follow [''a'', ''b''] (relpath_parts [''a'', ''b''] [''a'', ''c'']) = [''a'', ''c'']"
  using relpath_leads [of "[''a'', ''c'']" "[''a'', ''b'']"] by simp

text \<open>
  \<open>find_program\<close> gives the first program below the launch directory that has the name, alone or with its path from there;
  when there is none, the error lists the names of all programs there.
\<close>

definition runnable :: "string \<Rightarrow> task_gen \<Rightarrow> bool" where
  "runnable launch_dir g \<longleftrightarrow> is_ns3_program g \<and> in_launch_tree launch_dir g"

definition names_of :: "string \<Rightarrow> task_gen \<Rightarrow> string list" where
  "names_of launch_dir g = [gen_name g,
     path_join (join_parts (relpath_parts (py_split CHR ''/'' launch_dir) (py_split CHR ''/'' (src_dir g)))) (gen_name g)]"

lemma program_names_ok: "src_dir g \<noteq> [] \<Longrightarrow> program_names launch_dir g = Inr (names_of launch_dir g)"
  by (simp add: program_names_def relpath_def names_of_def)

lemma find_program_in_result:
  "\<forall>g \<in> set gens. src_dir g \<noteq> [] \<Longrightarrow> find_program_in launch_dir name gens found =
     (case find (\<lambda>g. runnable launch_dir g \<and> name \<in> set (names_of launch_dir g)) gens of
        Some g \<Rightarrow> Inr g
      | None \<Rightarrow> Inl (No_such_program name (found @ concat (map (names_of launch_dir) (filter (runnable launch_dir) gens)))))"
proof (induction gens arbitrary: found)
  case (Cons g gens)
  then have "program_names launch_dir g = Inr (names_of launch_dir g)" by (simp add: program_names_ok)
  moreover have "\<forall>g \<in> set gens. src_dir g \<noteq> []" using Cons.prems by simp
  note Cons.IH [OF this]
  ultimately show ?case
    by (cases "runnable launch_dir g"; cases "name \<in> set (names_of launch_dir g)") (auto simp: runnable_def cong: option.case_cong)
qed simp

theorem find_program_first:
  assumes "\<forall>g \<in> set gens. src_dir g \<noteq> []"
  shows "find_program launch_dir name gens =
     (case find (\<lambda>g. runnable launch_dir g \<and> name \<in> set (names_of launch_dir g)) gens of
        Some g \<Rightarrow> Inr g
      | None \<Rightarrow> Inl (No_such_program name (concat (map (names_of launch_dir) (filter (runnable launch_dir) gens)))))"
  unfolding find_program_def find_program_in_result [OF assms, of launch_dir name "[]"] append_Nil by (rule refl)

definition hello :: task_gen where
  "hello = \<lparr>gen_name = ''hello'', is_ns3_program = True, src_dir = ''/n/x'', bld_dir = ''/n/b/x'', program_path = ''/n/b/x/hello''\<rparr>"

theorem find_program_first_witness: "find_program ''/n'' ''x/hello'' [hello] = Inr hello"
  using find_program_first [of "[hello]" "''/n''" "''x/hello''"]
  by (simp add: hello_def runnable_def in_launch_tree_def names_of_def relpath_parts_def join_parts_def path_join_def Let_def)

text \<open>The test for the tree compares texts: the programs of a directory whose name begins like the launch directory's count as below it.\<close>

lemma neighbour_in_tree: "prefix launch_dir (src_dir g) \<Longrightarrow> in_launch_tree launch_dir (g\<lparr>src_dir := src_dir g @ tail\<rparr>)"
  by (simp add: in_launch_tree_def)

section \<open>The environment\<close>

lemma prepend_path_map:
  "map_of (prepend_path sep var parts env) = (map_of env)(var \<mapsto>
     (case map_of env var of None \<Rightarrow> py_join sep parts | Some old \<Rightarrow> py_join sep (parts @ [old])))"
  by (simp add: prepend_path_def split: option.split)

definition joined :: "string \<Rightarrow> string list \<Rightarrow> string option \<Rightarrow> string" where
  "joined sep parts old = (case old of None \<Rightarrow> py_join sep parts | Some v \<Rightarrow> py_join sep (parts @ [v]))"

lemma path_variable_cases: "path_variable platform \<in> {''LD_LIBRARY_PATH'', ''DYLD_LIBRARY_PATH'', ''PATH''}"
  by (simp add: path_variable_def)

text \<open>
  The process gets the environment it would have anyway, with the settings of the caller over it, and three variables
  extended in front: the library path by the modules, the Python path by the bindings and the visualizer, and \<^verbatim>\<open>PATH\<close> by the
  directories of programs.  Where libraries are found by \<^verbatim>\<open>PATH\<close>, it gets the programs and then the modules.
\<close>

theorem process_environment:
  "map_of (get_proc_env platform b os_environ os_env) =
     (let sep = pathsep platform;
          env = (case os_env of None \<Rightarrow> map_of os_environ | Some e \<Rightarrow> map_of os_environ ++ map_of (rev e));
          libs = joined sep (module_path b) (env (path_variable platform));
          path = (if path_variable platform = ''PATH'' then Some libs else env ''PATH'')
      in env(path_variable platform \<mapsto> libs,
             ''PYTHONPATH'' \<mapsto> joined sep [python_module_dir b, pyviz_dir b] (env ''PYTHONPATH''),
             ''PATH'' \<mapsto> joined sep (executable_path b) path))"
proof -
  have upd: "map_of (fold (\<lambda>(k, v). AList.update k v) e env) = map_of env ++ map_of (rev e)" for e :: environ and env :: environ
    by (induction e arbitrary: env) (auto simp: map_add_def fun_eq_iff split: option.split)
  define env where "env = (case os_env of None \<Rightarrow> os_environ | Some e \<Rightarrow> fold (\<lambda>(k, v). AList.update k v) e os_environ)"
  have env: "map_of env = (case os_env of None \<Rightarrow> map_of os_environ | Some e \<Rightarrow> map_of os_environ ++ map_of (rev e))"
    by (simp add: env_def upd split: option.split)
  have "''PYTHONPATH'' \<noteq> path_variable platform" using path_variable_cases [of platform] by auto
  then show ?thesis
    unfolding get_proc_env_def Let_def env_def [symmetric] prepend_path_map env [symmetric] joined_def
    by (auto simp: fun_eq_iff)
qed

section \<open>What is started and what becomes of it\<close>

lemma leak_never_seen: "leak_in s = False"
proof -
  have "\<not> has_infix ''== LEAK SUMMARY'' [c]" for c
    by (simp add: has_infix_def)
  then show ?thesis by (auto simp: leak_in_def list_ex_iff)
qed

text \<open>The command that is run, when the options do not exclude each other.\<close>

definition wrapped :: "run_options \<Rightarrow> bool \<Rightarrow> build \<Rightarrow> string list \<Rightarrow> string list run_result" where
  "wrapped opts force_no_valgrind b av =
     (if (valgrind opts \<or> gdb opts) \<and> is_set (command_template opts) \<or> gdb opts \<and> valgrind opts
      then Inl (if gdb opts \<and> \<not> valgrind opts then Conflicting_options ''--command-template'' ''--gdb''
                else if is_set (command_template opts) then Conflicting_options ''--command-template'' ''--valgrind''
                else Conflicting_options ''--valgrind'' ''--gdb'')
      else if gdb opts then Inr ([''gdb'', ''--args''] @ av)
      else if valgrind opts \<and> \<not> force_no_valgrind then
        (case valgrind_programs b of [] \<Rightarrow> Inl No_valgrind
         | vg # _ \<Rightarrow> Inr ([vg, ''--leak-check=full'', ''--show-reachable=yes'', ''--error-exitcode=1''] @ av))
      else Inr av)"

text \<open>
  At most one process is started, with the arguments wrapped as the options say.  Its exit code is the result only if it is 0
  or the program runs under gdb, and anything else an error; the standard error that valgrind's leak summary is looked for in plays
  no part.
\<close>

theorem run_argv_starts:
  "run_argv platform signals exec opts b os_environ av os_env cwd force_no_valgrind =
     (case wrapped opts force_no_valgrind b av of
        Inl e \<Rightarrow> (None, Inl e)
      | Inr cmd \<Rightarrow>
          let p = \<lparr>argv = cmd, proc_env = get_proc_env platform b os_environ os_env, proc_cwd = cwd\<rparr>; code = fst (exec p)
          in (Some p, if gdb opts then Inr code else check_retval signals cmd code))"
  unfolding run_argv_def wrapped_def Let_def leak_never_seen
  by (auto split: list.split prod.split)

text \<open>
  A run without a template splits its text into words, takes the first for the program, without its ending \<^verbatim>\<open>.cc\<close>, and starts
  the program found with the other words; with a template other than \<^verbatim>\<open>%s\<close> the whole text names the program.
\<close>

theorem run_program_starts:
  assumes "\<forall>g \<in> set (task_gens b). src_dir g \<noteq> []" "command_template opts = None" "\<not> gdb opts" "\<not> valgrind opts"
    and "program_string = py_join '' '' (map quote_word (name # args))"
    and "find (\<lambda>g. runnable launch_dir g \<and> strip_cc name \<in> set (names_of launch_dir g)) (task_gens b) = Some g"
  shows "run_program platform signals exec launch_dir default_cwd opts b os_environ program_string
      (Some (get_command_template opts [])) None visualize =
    (let p = \<lparr>argv = program_path g # args @ (if visualize then [visual_argument] else []),
              proc_env = get_proc_env platform b os_environ None,
              proc_cwd = Some (if is_set (cwd_launch opts) then the (cwd_launch opts) else default_cwd)\<rparr>
     in (Some p, check_retval signals (argv p) (fst (exec p))))"
proof -
  have split: "shlex_split program_string = Inr (name # args)"
    unfolding assms(5) by (rule lex_quoted_words)
  have "find_program launch_dir (strip_cc name) (task_gens b) = Inr g"
    unfolding find_program_def find_program_in_result [OF assms(1)] by (simp only: assms(6) option.case)
  with split have "get_run_program launch_dir b program_string (Some ''%s'') = Inr (strip_cc name, program_path g # args)"
    by (simp add: get_run_program_def lift_error_def)
  moreover have "get_command_template opts [] = ''%s''" by (simp add: get_command_template_def assms(2))
  ultimately show ?thesis
    using assms(2-4) by (simp add: run_program_def run_argv_def run_cwd_def is_set_def Let_def split: option.split)
qed

section \<open>Duplicates\<close>

text \<open>\<^verbatim>\<open>uniquify_list\<close> keeps the first occurrence of every item, as the other function of that name does.\<close>

lemma uniquify_from_eq: "uniquify_from seen xs = filter (\<lambda>x. x \<notin> seen) (first_occurrences xs)"
proof (induction xs arbitrary: seen)
  case (Cons x xs)
  then show ?case by (auto simp: first_occurrences_Cons intro!: filter_cong)
qed (simp add: first_occurrences_def)

theorem uniquify_list_same: "uniquify_list xs = uniquify ko True True xs \<and> uniquify_list xs = rev (remdups (rev xs))"
  by (simp add: uniquify_list_def uniquify_from_eq uniquify_def uniquify_fast_eq first_occurrences_def)

definition hello_build :: build where
  "hello_build = \<lparr>task_gens = [hello], module_path = [''/n/b''], executable_path = [''/n/b/x''], python_module_dir = ''/n/p'',
     pyviz_dir = ''/n/v'', valgrind_programs = [], python_programs = []\<rparr>"

theorem run_program_starts_witness:
  "snd (run_program ''linux'' [] (\<lambda>p. (if argv p = [''/n/b/x/hello'', ''--n=1''] then 0 else 1, [])) ''/n'' ''/n''
     \<lparr>command_template = None, valgrind = False, gdb = False, cwd_launch = None\<rparr> hello_build []
     (quote_word ''hello.cc'' @ '' '' @ quote_word ''--n=1'') (Some ''%s'') None False) = Inr 0"
proof -
  let ?opts = "\<lparr>command_template = None, valgrind = False, gdb = False, cwd_launch = None\<rparr>"
  have "find (\<lambda>g. runnable ''/n'' g \<and> strip_cc ''hello.cc'' \<in> set (names_of ''/n'' g)) (task_gens hello_build) = Some hello"
    by (simp add: hello_build_def hello_def runnable_def in_launch_tree_def names_of_def strip_cc_def suffix_def)
  then show ?thesis
    using run_program_starts [of hello_build ?opts "quote_word ''hello.cc'' @ '' '' @ quote_word ''--n=1''" "''hello.cc''" "[''--n=1'']" "''/n''"
      hello "''linux''" "[]" "\<lambda>p. (if argv p = [''/n/b/x/hello'', ''--n=1''] then 0 else 1, [])" "''/n''" "[]" False]
    by (simp add: hello_build_def hello_def get_command_template_def check_retval_def Let_def)
qed

lemma neighbour_found:
  "find_program ''/n'' ''hello'' [hello\<lparr>src_dir := ''/n-old/x'', bld_dir := ''/n-old/b/x'', program_path := ''/n-old/b/x/hello''\<rparr>] =
     Inr (hello\<lparr>src_dir := ''/n-old/x'', bld_dir := ''/n-old/b/x'', program_path := ''/n-old/b/x/hello''\<rparr>)"
  by (simp add: find_program_def in_launch_tree_def hello_def program_names_def relpath_def)

end
