(* ===== verification/Waf_Command.thy ===== *)
theory Waf_Command
  imports Shell_Run Shlex
begin

text \<open>
  The waf task that runs a command line (\<^verbatim>\<open>waf-tools/command.py\<close>): the line is split and parsed as a pipeline, the variables in
  its words are substituted, and the pipeline is run.  What Python's \<^verbatim>\<open>eval\<close> makes of an expression is a parameter.
\<close>

section \<open>References in a word\<close>

text \<open>
  The regular expression \<^verbatim>\<open>(\$\$)|(\$\{(\w+)(.*?)\})\<close> at the head of a text, for ASCII letters: two dollars, or a
  variable with the code up to the first closing brace of the line.
\<close>

datatype arg_match = Dollar_match string | Subst_match string string string

definition match_arg :: "string \<Rightarrow> arg_match option" where
  "match_arg s =
     (case s of
        c # d # rest \<Rightarrow>
          if c \<noteq> CHR ''$'' then None
          else if d = CHR ''$'' then Some (Dollar_match rest)
          else if d = CHR 0x7B then
            (let var = takeWhile is_word_char rest; after = dropWhile is_word_char rest;
                 code = takeWhile (\<lambda>x. x \<noteq> CHR 0x7D \<and> x \<noteq> NL) after in
             case dropWhile (\<lambda>x. x \<noteq> CHR 0x7D \<and> x \<noteq> NL) after of
               b # rest' \<Rightarrow> if var \<noteq> [] \<and> b = CHR 0x7D then Some (Subst_match var code rest') else None
             | [] \<Rightarrow> None)
          else None
      | _ \<Rightarrow> None)"

lemma match_arg_shorter:
  "match_arg s = Some (Dollar_match rest) \<Longrightarrow> length rest < length s"
  "match_arg s = Some (Subst_match var code rest) \<Longrightarrow> length rest < length s"
proof -
  show "match_arg s = Some (Dollar_match rest) \<Longrightarrow> length rest < length s"
    by (auto simp: match_arg_def Let_def split: list.splits if_splits)
  show "length rest < length s" if m: "match_arg s = Some (Subst_match var code rest)"
  proof -
    from m obtain r b where s: "s = CHR ''$'' # CHR 0x7B # r"
        "dropWhile (\<lambda>x. x \<noteq> CHR 0x7D \<and> x \<noteq> NL) (dropWhile is_word_char r) = b # rest"
      by (auto simp: match_arg_def Let_def split: list.splits if_splits)
    have "length (b # rest) \<le> length r" unfolding s(2) [symmetric] by (meson length_dropWhile_le order_trans)
    with s(1) show ?thesis by simp
  qed
qed

section \<open>Substitution\<close>

text \<open>
  A node of the build tree with its path as a source and as a file of the build; the values an expression can have:
  a node, the inputs or the outputs of the task, another list of texts, a text, or anything else.
\<close>

record tree_node =
  srcpath :: string
  bld_abspath :: string

datatype py_value = Node_value tree_node | Inputs | Outputs | List_value "string list" | Text string | Other_value

record command_task =
  task_inputs :: "tree_node list"
  task_outputs :: "tree_node list"
  command_line :: "string + string list"

definition replacement :: "command_task \<Rightarrow> string \<Rightarrow> py_value \<Rightarrow> string result" where
  "replacement t var v =
     (case v of
        Node_value n \<Rightarrow>
          if var = ''TGT'' then Inr (bld_abspath n)
          else if var = ''SRC'' then Inr (srcpath n)
          else Inl ValueError
      | Inputs \<Rightarrow> (case task_inputs t of [n] \<Rightarrow> Inr (srcpath n) | _ \<Rightarrow> Inl ValueError)
      | Outputs \<Rightarrow> (case task_outputs t of [n] \<Rightarrow> Inr (bld_abspath n) | _ \<Rightarrow> Inl ValueError)
      | List_value l \<Rightarrow> (case l of [x] \<Rightarrow> Inr x | _ \<Rightarrow> Inl AssertionError)
      | Text s \<Rightarrow> Inr s
      | Other_value \<Rightarrow> Inl TypeError)"

function subst_arg :: "(string \<Rightarrow> py_value result) \<Rightarrow> command_task \<Rightarrow> string \<Rightarrow> string result" where
  "subst_arg eval t s =
     (case match_arg s of
        Some (Dollar_match rest) \<Rightarrow> res_bind (subst_arg eval t rest) (\<lambda>r. Inr (CHR ''$'' # r))
      | Some (Subst_match var code rest) \<Rightarrow>
          res_bind (eval (var @ code)) (\<lambda>v. res_bind (replacement t var v) (\<lambda>x.
          res_bind (subst_arg eval t rest) (\<lambda>r. Inr (x @ r))))
      | None \<Rightarrow> (case s of [] \<Rightarrow> Inr [] | c # cs \<Rightarrow> res_bind (subst_arg eval t cs) (\<lambda>r. Inr (c # r))))"
  by pat_completeness auto

termination
  by (relation "measure (\<lambda>(eval, t, s). length s)") (auto dest: match_arg_shorter)

declare subst_arg.simps [simp del]

section \<open>The pipeline\<close>

definition subst_redirect :: "(string \<Rightarrow> string result) \<Rightarrow> redirect option \<Rightarrow> redirect option result" where
  "subst_redirect f r = (case r of Some (RFile p) \<Rightarrow> res_bind (f p) (\<lambda>q. Inr (Some (RFile q))) | _ \<Rightarrow> Inr r)"

fun subst_list :: "(string \<Rightarrow> string result) \<Rightarrow> string list \<Rightarrow> string list result" where
  "subst_list f [] = Inr []"
| "subst_list f (x # xs) = res_bind (f x) (\<lambda>y. res_bind (subst_list f xs) (\<lambda>ys. Inr (y # ys)))"

fun subst_env :: "(string \<Rightarrow> string result) \<Rightarrow> (string, string) dict \<Rightarrow> (string, string) dict result" where
  "subst_env f [] = Inr []"
| "subst_env f ((k, x) # d) = res_bind (f x) (\<lambda>y. res_bind (subst_env f d) (\<lambda>e. Inr ((k, y) # e)))"

definition subst_command :: "(string \<Rightarrow> string result) \<Rightarrow> command \<Rightarrow> command result" where
  "subst_command f c =
     res_bind (subst_redirect f (stdin c)) (\<lambda>i.
     res_bind (subst_redirect f (stdout c)) (\<lambda>out.
     res_bind (subst_redirect f (stderr c)) (\<lambda>err.
     res_bind (subst_list f (argv c)) (\<lambda>av.
     res_bind (case env_vars c of None \<Rightarrow> Inr None | Some d \<Rightarrow> res_bind (subst_env f d) (\<lambda>e. Inr (Some e))) (\<lambda>env.
     Inr (c\<lparr>stdin := i, stdout := out, stderr := err, argv := av, env_vars := env\<rparr>))))))"

definition subst_node :: "(string \<Rightarrow> string result) \<Rightarrow> node \<Rightarrow> node result" where
  "subst_node f n =
     (case n of
        NCommand c \<Rightarrow> res_bind (subst_command f c) (\<lambda>c. Inr (NCommand c))
      | NChdir d \<Rightarrow> (case d of None \<Rightarrow> Inl TypeError | Some p \<Rightarrow> res_bind (f p) (\<lambda>q. Inr (NChdir (Some q))))
      | _ \<Rightarrow> Inr n)"

fun subst_pipeline :: "(string \<Rightarrow> string result) \<Rightarrow> node list \<Rightarrow> node list result" where
  "subst_pipeline f [] = Inr []"
| "subst_pipeline f (n # ns) = res_bind (subst_node f n) (\<lambda>m. res_bind (subst_pipeline f ns) (\<lambda>ms. Inr (m # ms)))"

text \<open>\<^verbatim>\<open>Pipeline.parse\<close> takes a list of words as it is and splits a text.\<close>

definition command_tokens :: "command_task \<Rightarrow> string list result" where
  "command_tokens t = (case command_line t of Inl s \<Rightarrow> shlex_split s | Inr ws \<Rightarrow> Inr ws)"

definition command_pipeline :: "(string \<Rightarrow> py_value result) \<Rightarrow> command_task \<Rightarrow> node list result" where
  "command_pipeline eval t =
     res_bind (command_tokens t) (\<lambda>ws. res_bind (parse ws) (subst_pipeline (subst_arg eval t)))"

definition run_command ::
    "world \<Rightarrow> bool \<Rightarrow> (string \<Rightarrow> py_value result) \<Rightarrow> command_task \<Rightarrow> int option result \<times> runner" where
  "run_command w verbose eval t =
     (case command_pipeline eval t of
        Inl e \<Rightarrow> (Inl e, runner_init)
      | Inr pl \<Rightarrow> run w verbose pl)"

text \<open>What the task is displayed as; \<open>srcs\<close> and \<open>tgts\<close> are the build paths of its nodes.\<close>

definition command_str :: "string list \<Rightarrow> string list \<Rightarrow> command_task \<Rightarrow> string result" where
  "command_str srcs tgts t =
     res_bind (command_tokens t) (\<lambda>ws. res_bind (parse ws) (\<lambda>pl.
       Inr (''command ('' @ get_abbreviated_command pl @ ''): '' @ py_join '' '' srcs @
            (if task_outputs t \<noteq> [] then '' -> '' else []) @ py_join '' '' tgts)))"

section \<open>What a word becomes\<close>

text \<open>A word as its author means it: plain text without a dollar, a dollar, or a variable with code.\<close>

datatype arg_part = Plain string | Dollar | Variable string string

fun part_text :: "arg_part \<Rightarrow> string" where
  "part_text (Plain s) = s"
| "part_text Dollar = ''$$''"
| "part_text (Variable var code) = [CHR ''$'', CHR 0x7B] @ var @ code @ [CHR 0x7D]"

definition part_ok :: "arg_part \<Rightarrow> bool" where
  "part_ok p = (case p of
     Plain s \<Rightarrow> CHR ''$'' \<notin> set s
   | Dollar \<Rightarrow> True
   | Variable var code \<Rightarrow> var \<noteq> [] \<and> list_all is_word_char var \<and> (code = [] \<or> \<not> is_word_char (hd code)) \<and>
       CHR 0x7D \<notin> set code \<and> NL \<notin> set code)"

fun part_value :: "(string \<Rightarrow> py_value result) \<Rightarrow> command_task \<Rightarrow> arg_part \<Rightarrow> string result" where
  "part_value eval t (Plain s) = Inr s"
| "part_value eval t Dollar = Inr ''$''"
| "part_value eval t (Variable var code) = res_bind (eval (var @ code)) (replacement t var)"

fun parts_value :: "(string \<Rightarrow> py_value result) \<Rightarrow> command_task \<Rightarrow> arg_part list \<Rightarrow> string result" where
  "parts_value eval t [] = Inr []"
| "parts_value eval t (p # ps) = res_bind (part_value eval t p) (\<lambda>x. res_bind (parts_value eval t ps) (\<lambda>r. Inr (x @ r)))"

lemma braces_not_words [simp]: "\<not> is_word_char (CHR 0x7D)" "\<not> is_word_char (CHR ''$'')"
  by (simp_all add: is_word_char_def)

lemma match_variable:
  assumes "part_ok (Variable var code)"
  shows "match_arg (part_text (Variable var code) @ rest) = Some (Subst_match var code rest)"
proof -
  let ?tail = "code @ CHR 0x7D # rest"
  have all: "\<And>x. x \<in> set var \<Longrightarrow> is_word_char x" using assms by (simp add: part_ok_def list_all_iff)
  have stop: "takeWhile is_word_char ?tail = [] \<and> dropWhile is_word_char ?tail = ?tail"
    using assms by (cases code) (auto simp: part_ok_def)
  have "takeWhile is_word_char (var @ ?tail) = var" "dropWhile is_word_char (var @ ?tail) = ?tail"
    using all stop by (simp_all add: takeWhile_append dropWhile_append)
  moreover have "takeWhile (\<lambda>x. x \<noteq> CHR 0x7D \<and> x \<noteq> NL) ?tail = code"
      "dropWhile (\<lambda>x. x \<noteq> CHR 0x7D \<and> x \<noteq> NL) ?tail = CHR 0x7D # rest"
    using assms by (auto simp: part_ok_def takeWhile_append dropWhile_append)
  ultimately show ?thesis using assms by (simp add: match_arg_def part_ok_def)
qed

text \<open>
  Substitution replaces in every word the variables by their values and the double dollars by one, from left to right, and
  fails with the first value that fails.
\<close>

theorem subst_arg_parts:
  assumes "list_all part_ok ps"
  shows "subst_arg eval t (concat (map part_text ps)) = parts_value eval t ps"
  using assms
proof (induction ps)
  case Nil
  then show ?case by (simp add: subst_arg.simps match_arg_def)
next
  case (Cons p ps)
  let ?rest = "concat (map part_text ps)"
  have IH: "subst_arg eval t ?rest = parts_value eval t ps" using Cons by simp
  show ?case
  proof (cases p)
    case (Plain s)
    then have "CHR ''$'' \<notin> set s" using Cons.prems by (simp add: part_ok_def)
    then have "subst_arg eval t (s @ ?rest) = res_bind (subst_arg eval t ?rest) (\<lambda>r. Inr (s @ r))"
    proof (induction s)
      case (Cons c s)
      then have "match_arg (c # s @ ?rest) = None" by (auto simp: match_arg_def split: list.split)
      with Cons show ?case
        by (simp add: subst_arg.simps [of eval t "c # s @ ?rest"]) (cases "subst_arg eval t ?rest"; simp)
    qed (cases "subst_arg eval t ?rest"; simp)
    with Plain IH show ?thesis by simp
  next
    case Dollar
    have "match_arg (''$$'' @ ?rest) = Some (Dollar_match ?rest)" by (simp add: match_arg_def)
    with Dollar IH show ?thesis by (simp add: subst_arg.simps [of eval t "CHR ''$'' # CHR ''$'' # ?rest"])
  next
    case (Variable var code)
    have m: "match_arg (part_text (Variable var code) @ ?rest) = Some (Subst_match var code ?rest)"
      using Cons.prems Variable by (intro match_variable) simp
    have "subst_arg eval t (part_text (Variable var code) @ ?rest) =
        res_bind (eval (var @ code)) (\<lambda>v. res_bind (replacement t var v) (\<lambda>x. res_bind (subst_arg eval t ?rest) (\<lambda>r. Inr (x @ r))))"
      by (subst subst_arg.simps) (simp only: m option.case arg_match.case)
    with Variable IH show ?thesis by (cases "eval (var @ code)") simp_all
  qed
qed

theorem subst_arg_parts_witness:
  "subst_arg (\<lambda>e. if e = ''SRC[0].name'' then Inr (Text ''a b'') else Inl NameError) \<lparr>task_inputs = [], task_outputs = [], command_line = Inl []\<rparr>
     (''x='' @ part_text (Variable ''SRC'' ''[0].name'') @ ''$$'') = Inr ''x=a b$''"
  using subst_arg_parts [of "[Plain ''x='', Variable ''SRC'' ''[0].name'', Dollar]"
      "\<lambda>e. if e = ''SRC[0].name'' then Inr (Text ''a b'') else Inl NameError" "\<lparr>task_inputs = [], task_outputs = [], command_line = Inl []\<rparr>"]
  by (simp add: part_ok_def is_word_char_def replacement_def)

section \<open>Substitution and the structure of the line\<close>

text \<open>How a substituted pipeline relates to the one parsed: node by node, word by word.\<close>

definition redirect_subst :: "(string \<Rightarrow> string result) \<Rightarrow> redirect option \<Rightarrow> redirect option \<Rightarrow> bool" where
  "redirect_subst f r r' \<longleftrightarrow> (case r of Some (RFile p) \<Rightarrow> (\<exists>q. f p = Inr q \<and> r' = Some (RFile q)) | _ \<Rightarrow> r' = r)"

definition env_subst :: "(string \<Rightarrow> string result) \<Rightarrow> (string, string) dict option \<Rightarrow> (string, string) dict option \<Rightarrow> bool" where
  "env_subst f e e' \<longleftrightarrow> (case e of None \<Rightarrow> e' = None
     | Some d \<Rightarrow> (\<exists>d'. e' = Some d' \<and> map (\<lambda>(k, x). (k, f x)) d = map (\<lambda>(k, y). (k, Inr y)) d'))"

definition command_subst :: "(string \<Rightarrow> string result) \<Rightarrow> command \<Rightarrow> command \<Rightarrow> bool" where
  "command_subst f c c' \<longleftrightarrow> name c' = name c \<and> map f (argv c) = map Inr (argv c') \<and>
     redirect_subst f (stdin c) (stdin c') \<and> redirect_subst f (stdout c) (stdout c') \<and> redirect_subst f (stderr c) (stderr c') \<and>
     env_subst f (env_vars c) (env_vars c')"

definition node_subst :: "(string \<Rightarrow> string result) \<Rightarrow> node \<Rightarrow> node \<Rightarrow> bool" where
  "node_subst f n m \<longleftrightarrow> (case n of
     NCommand c \<Rightarrow> (\<exists>c'. m = NCommand c' \<and> command_subst f c c')
   | NChdir d \<Rightarrow> (\<exists>p q. d = Some p \<and> f p = Inr q \<and> m = NChdir (Some q))
   | _ \<Rightarrow> m = n)"

lemma subst_list_iff: "subst_list f xs = Inr ys \<longleftrightarrow> map f xs = map Inr ys"
  by (induction xs arbitrary: ys) (auto simp: res_simps)

lemma subst_env_iff: "subst_env f d = Inr e \<longleftrightarrow> map (\<lambda>(k, x). (k, f x)) d = map (\<lambda>(k, y). (k, Inr y)) e"
proof (induction d arbitrary: e)
  case (Cons a d)
  obtain k x where "a = (k, x)" by (cases a)
  with Cons show ?case by (cases e) (auto simp: res_simps)
qed auto

lemma subst_redirect_iff: "subst_redirect f r = Inr r' \<longleftrightarrow> redirect_subst f r r'"
  by (auto simp: subst_redirect_def redirect_subst_def res_simps split: option.split redirect.split)

lemma subst_command_iff: "subst_command f c = Inr c' \<longleftrightarrow> command_subst f c c'"
proof -
  have env: "(case env_vars c of None \<Rightarrow> Inr None | Some d \<Rightarrow> res_bind (subst_env f d) (\<lambda>e. Inr (Some e))) = Inr env \<longleftrightarrow>
      env_subst f (env_vars c) env" for env
    by (cases "env_vars c") (auto simp: res_simps subst_env_iff env_subst_def)
  show ?thesis
    unfolding subst_command_def res_bind_Inr_iff subst_list_iff subst_redirect_iff env
    by (cases c'; cases c) (auto simp: command_subst_def)
qed

lemma subst_node_iff: "subst_node f n = Inr m \<longleftrightarrow> node_subst f n m"
  by (cases n) (auto simp: subst_node_def node_subst_def subst_command_iff res_simps split: option.split)

text \<open>
  Substitution comes after parsing: it succeeds exactly when it does for every word, and then each word is replaced in its place.
  Blanks or operators in a value stay inside their word, so that no value changes the commands, operators or redirections of
  the line.
\<close>

theorem substitution_wordwise:
  "subst_pipeline f pl = Inr pl' \<longleftrightarrow> list_all2 (node_subst f) pl pl'"
proof (induction pl arbitrary: pl')
  case (Cons n pl)
  then show ?case by (cases pl') (auto simp: res_simps subst_node_iff)
qed (auto simp: list_all2_Nil)

section \<open>The exit code of a task\<close>

definition renamed :: "node \<Rightarrow> node" where
  "renamed n = (case n of NCommand c \<Rightarrow> NCommand (c\<lparr>name := hd (argv c)\<rparr>) | _ \<Rightarrow> n)"

lemma renamed_ops [simp]:
  "renamed (NChdir d) = NChdir d" "renamed NPipe = NPipe" "renamed NAnd = NAnd" "renamed NOr = NOr"
  "renamed (NCommand c) = NCommand (c\<lparr>name := hd (argv c)\<rparr>)"
  "renamed n = NPipe \<longleftrightarrow> n = NPipe" "renamed n = NAnd \<longleftrightarrow> n = NAnd" "renamed n = NOr \<longleftrightarrow> n = NOr"
  by (auto simp: renamed_def split: node.splits)

lemma start_command_name: "start_command w v (c\<lparr>name := x\<rparr>) = start_command w v c"
proof -
  have "words_shown (c\<lparr>name := x\<rparr>) = words_shown c" by (simp add: words_shown_def split: option.split list.split)
  moreover have "open_stdin w v (c\<lparr>name := x\<rparr>) = open_stdin w v c" by (rule ext) (simp add: open_stdin_def)
  moreover have "open_stdout w v (c\<lparr>name := x\<rparr>) = open_stdout w v c" by (rule ext) (simp add: open_stdout_def)
  moreover have "open_stderr w v (c\<lparr>name := x\<rparr>) = open_stderr w v c" by (rule ext) (simp add: open_stderr_def)
  moreover have "argv (c\<lparr>name := x\<rparr>) = argv c" "env_vars (c\<lparr>name := x\<rparr>) = env_vars c" by simp_all
  ultimately show ?thesis by (simp only: start_command_def)
qed

lemma run_loop_renamed: "run_loop w v (map renamed pl) = run_loop w v pl"
proof (induction pl rule: segments.induct)
  case (1 d op rest)
  then show ?case by (cases d) auto
next
  case (3 c op rest)
  then show ?case by (cases op) (auto simp: start_command_name cong: if_cong)
qed (auto simp: start_command_name)

lemma node_subst_op: "node_subst f n m \<Longrightarrow> (n = NPipe \<longleftrightarrow> m = NPipe) \<and> (n = NAnd \<longleftrightarrow> m = NAnd) \<and> (n = NOr \<longleftrightarrow> m = NOr)"
  by (cases n) (auto simp: node_subst_def)

lemma command_subst_ok:
  assumes "command_subst f c c'" "command_ok c"
  shows "command_ok (c'\<lparr>name := hd (argv c')\<rparr>) \<and> piped_out c' = piped_out c"
proof -
  have "argv c' \<noteq> []" using assms by (auto simp: command_subst_def command_ok_def)
  with assms show ?thesis
    by (auto simp: command_subst_def command_ok_def piped_out_def redirect_subst_def env_subst_def split: option.splits redirect.splits)
qed

lemma wf_substituted:
  "list_all2 (node_subst f) pl pl' \<Longrightarrow> wf_pipeline pl \<Longrightarrow> wf_pipeline (map renamed pl') \<and> segments (map renamed pl') = segments pl"
proof (induction pl arbitrary: pl' rule: wf_pipeline.induct)
  case (1 c)
  then obtain c' where "pl' = [NCommand c']" "command_subst f c c'" by (auto simp: list_all2_Cons1 node_subst_def)
  with 1 command_subst_ok [of f c c'] show ?case by (simp add: piped_out_def)
next
  case (2 d)
  then show ?case by (auto simp: list_all2_Cons1 node_subst_def)
next
  case (3 c op rest)
  from 3(2) obtain c' op' rest' where pl': "pl' = NCommand c' # op' # rest'" "command_subst f c c'" "node_subst f op op'"
      "list_all2 (node_subst f) rest rest'"
    by (auto simp: list_all2_Cons1 node_subst_def [of f "NCommand c"])
  note op = node_subst_op [OF pl'(3)]
  have "op' = op" using op 3(3) by auto
  have ops: "op \<in> {NPipe, NAnd, NOr}" using 3(3) by auto
  have "command_ok c" using 3(3) by simp
  note ok = command_subst_ok [OF pl'(2) this]
  have "wf_pipeline (map renamed rest') \<and> segments (map renamed rest') = segments rest" using 3(1) 3(3) pl'(4) by simp
  with ok ops 3(3) show ?case unfolding pl'(1) \<open>op' = op\<close> by (auto simp: piped_out_def)
next
  case (4 d op rest)
  from 4(2) obtain d' op' rest' where pl': "pl' = NChdir d' # op' # rest'" "node_subst f op op'" "list_all2 (node_subst f) rest rest'"
    by (auto simp: list_all2_Cons1 node_subst_def [of f "NChdir d"])
  have "op' = NAnd" using node_subst_op [OF pl'(2)] 4(3) by simp
  with 4 pl' show ?case by simp
qed auto

text \<open>C16. 
  The task runs the commands of its line, and its result is that of the line as it was parsed: when files can be
  opened and processes started, the exit code depends on those of the processes and on the operators alone.
\<close>

theorem task_exit_code:
  assumes "willing w" "command_tokens t = Inr ws" "parse ws = Inr pl" "runnable pl" "subst_pipeline (subst_arg eval t) pl = Inr pl'"
  shows "fst (run_command w False eval t) = Inr (Some (chain (statuses (exit_code w) 0 (segments pl))))"
proof -
  let ?f = "subst_arg eval t"
  have rel: "list_all2 (node_subst ?f) pl pl'"
    using assms(5) by (induction pl arbitrary: pl') (auto simp: res_simps subst_node_iff)
  have wf: "wf_pipeline (map renamed pl')" "segments (map renamed pl') = segments pl"
    using wf_substituted [OF rel] assms(4) by (auto simp: runnable_def)
  have "pl \<noteq> []" using assms(4) by (auto simp: runnable_def)
  then have ne: "pl' \<noteq> []" using rel by auto
  with \<open>pl \<noteq> []\<close> have "node_subst ?f (last pl) (last pl')"
    using rel list_all2_lengthD [OF rel] by (simp add: list_all2_conv_all_nth last_conv_nth)
  moreover have "NChdir None \<notin> set pl'"
  proof
    assume "NChdir None \<in> set pl'"
    then obtain n where "node_subst ?f n (NChdir None)" using rel by (auto simp: list_all2_conv_all_nth in_set_conv_nth)
    then show False by (cases n) (auto simp: node_subst_def)
  qed
  then have "NChdir None \<notin> set (map renamed pl')" by (auto simp: renamed_def split: node.splits)
  ultimately have run: "runnable (map renamed pl')"
    using wf(1) assms(4) unfolding runnable_def
    by (auto simp: last_map ne node_subst_def split: node.splits)
  have between: "between runner_init 0 0" by (simp add: between_def runner_init_def)
  obtain u where "run_loop w False (map renamed pl') runner_init =
      (Inr (Some (chain (statuses_from (exit_code w) 0 0 (segments (map renamed pl'))))), u)"
    using run_loop_chain [OF assms(1) run between] by blast
  then have "fst (run w False pl') = Inr (Some (chain (statuses (exit_code w) 0 (segments pl))))"
    unfolding run_def run_loop_renamed wf(2) by (cases "segments pl") (auto simp: statuses_from_def)
  moreover have "command_pipeline eval t = Inr pl'" using assms(2,3,5) by (simp add: command_pipeline_def)
  ultimately show ?thesis by (simp add: run_command_def)
qed

definition copy_task :: command_task where
  "copy_task = \<lparr>task_inputs = [\<lparr>srcpath = ''a b'', bld_abspath = ''/b/a b''\<rparr>], task_outputs = [],
     command_line = Inr [''cat'', ''<'', [CHR ''$'', CHR 0x7B] @ ''SRC'' @ [CHR 0x7D], ''&&'', ''ls'']\<rparr>"

theorem task_exit_code_witness:
  "fst (run_command (calm_world\<lparr>exit_code := (\<lambda>n. if n = 1 then 2 else 0)\<rparr>) False (\<lambda>e. Inr Inputs) copy_task) = Inr (Some 2)"
proof -
  let ?w = "calm_world\<lparr>exit_code := (\<lambda>n. if n = 1 then 2 else 0)\<rparr>"
  define c where "c = (new_command ''cat'')\<lparr>stdin := Some (RFile ([CHR ''$'', CHR 0x7B] @ ''SRC'' @ [CHR 0x7D]))\<rparr>"
  define d where "d = new_command ''ls''"
  have tokens: "command_tokens copy_task = Inr [''cat'', ''<'', [CHR ''$'', CHR 0x7B] @ ''SRC'' @ [CHR 0x7D], ''&&'', ''ls'']"
    by (simp add: command_tokens_def copy_task_def)
  have parsed: "parse [''cat'', ''<'', [CHR ''$'', CHR 0x7B] @ ''SRC'' @ [CHR 0x7D], ''&&'', ''ls''] = Inr [NCommand c, NAnd, NCommand d]"
    unfolding c_def d_def by code_simp
  have plain: "subst_arg eval t s = Inr s" if "CHR ''$'' \<notin> set s" for eval t s
    using that
  proof (induction s)
    case (Cons x s)
    then have "match_arg (x # s) = None" by (auto simp: match_arg_def split: list.split)
    with Cons show ?case by (simp add: subst_arg.simps [of eval t "x # s"])
  qed (simp add: subst_arg.simps match_arg_def)
  have m: "match_arg ([CHR ''$'', CHR 0x7B] @ ''SRC'' @ [CHR 0x7D]) = Some (Subst_match ''SRC'' [] [])"
    by (simp add: match_arg_def is_word_char_def)
  have "subst_arg (\<lambda>e. Inr Inputs) copy_task ([CHR ''$'', CHR 0x7B] @ ''SRC'' @ [CHR 0x7D]) = Inr ''a b''"
    by (subst subst_arg.simps) (simp only: m option.case arg_match.case, simp add: replacement_def copy_task_def plain)
  then have "subst_pipeline (subst_arg (\<lambda>e. Inr Inputs) copy_task) [NCommand c, NAnd, NCommand d] =
      Inr [NCommand (c\<lparr>stdin := Some (RFile ''a b'')\<rparr>), NAnd, NCommand d]"
    by (simp add: subst_node_def subst_command_def subst_redirect_def c_def d_def new_command_def plain)
  moreover have "runnable [NCommand c, NAnd, NCommand d]"
    by (simp add: runnable_def c_def d_def command_ok_def new_command_def piped_out_def)
  moreover have "willing ?w" by (simp add: willing_def calm_world_def)
  ultimately show ?thesis
    using task_exit_code [OF _ tokens parsed] by (simp add: pipe_status_def c_def d_def)
qed

end
