(* ===== verification/Compiler_Flags.thy ===== *)
theory Compiler_Flags
  imports Py_Prelude
begin

text \<open>
  Flags of the C and C++ compilers by build profile (\<^verbatim>\<open>waf-tools/cflags.py\<close>): what each family of compilers is given for the
  levels of warnings, optimisation and debugging, and what configuring adds to the environment.
\<close>

section \<open>Families of compilers\<close>

datatype compiler = Gcc | Icc | Msvc

definition warnings_table :: "compiler \<Rightarrow> string list list" where
  "warnings_table c = (case c of
     Gcc \<Rightarrow> [[''-Wall''], [''-Werror''], [''-Wextra'']]
   | Icc \<Rightarrow> [[], [], [''-Wall'']]
   | Msvc \<Rightarrow> [[''/W2''], [''/WX''], [''/Wall'']])"

text \<open>The loop over \<^verbatim>\<open>range(level)\<close>, left at the end of the table.\<close>

fun collect_warnings :: "string list list \<Rightarrow> nat list \<Rightarrow> string list \<Rightarrow> string list" where
  "collect_warnings table [] warnings = warnings"
| "collect_warnings table (l # ls) warnings =
     (if l < length table then collect_warnings table ls (warnings @ table ! l) else warnings)"

definition get_warnings_flags :: "compiler \<Rightarrow> nat \<Rightarrow> string list" where
  "get_warnings_flags c level = collect_warnings (warnings_table c) [0..<level] []"

text \<open>A level that no branch handles gives \<^verbatim>\<open>None\<close>.\<close>

definition get_optimization_flags :: "compiler \<Rightarrow> nat \<Rightarrow> string list option" where
  "get_optimization_flags c level =
     (if c = Msvc then
        (if level = 0 then Some [''/Od''] else if level = 1 then Some [] else if level = 2 then Some [''/O2'']
         else if level = 3 then Some [''/Ox''] else None)
      else
        (if level = 0 then Some [''-O0''] else if level = 1 then Some [''-O''] else if level = 2 then Some [''-O2'']
         else if level = 3 then Some [''-O3''] else None))"

definition get_debug_flags :: "compiler \<Rightarrow> nat \<Rightarrow> string list \<times> string list" where
  "get_debug_flags c level =
     (if c = Msvc then
        (if level = 0 then ([], [''NDEBUG'']) else if level = 1 then ([''/ZI'', ''/RTC1''], [])
         else ([''/ZI'', ''/RTC1''], [''_DEBUG'']))
      else
        (if level = 0 then ([''-g0''], [''NDEBUG'']) else if level = 1 then ([''-g''], [])
         else ([''-ggdb'', ''-g3''], [''_DEBUG''])))"

definition compiler_mapping :: "(string, compiler) dict" where
  "compiler_mapping = [(''gcc'', Gcc), (''g++'', Gcc), (''msvc'', Msvc), (''icc'', Icc), (''icpc'', Icc),
     (''clang'', Gcc), (''clang++'', Gcc)]"

definition profiles :: "(string, nat \<times> nat \<times> nat) dict" where
  "profiles = [(''default'', (2, 1, 1)), (''debug'', (0, 2, 3)), (''release'', (3, 1, 0))]"

definition default_profile :: string where
  "default_profile = ''default''"

section \<open>Configuring\<close>

text \<open>
  The environment that waf keeps: the two compilers, and the variables that are lists of flags; an absent variable is the
  empty list.  \<open>warned\<close> says whether the message about an unknown compiler was given.
\<close>

record flags_env =
  cc :: "string option"
  cxx :: "string option"
  flags :: "string \<Rightarrow> string list"
  warned :: bool

definition append_value :: "string \<Rightarrow> string list \<Rightarrow> flags_env \<Rightarrow> flags_env" where
  "append_value var fs env = env\<lparr>flags := (flags env)(var := flags env var @ fs)\<rparr>"

definition lookup_compiler :: "string option \<Rightarrow> compiler option" where
  "lookup_compiler name = (case name of None \<Rightarrow> None | Some n \<Rightarrow> map_of compiler_mapping n)"

definition find_compiler :: "flags_env \<Rightarrow> compiler option" where
  "find_compiler env = (case lookup_compiler (cc env) of Some c \<Rightarrow> Some c | None \<Rightarrow> lookup_compiler (cxx env))"

text \<open>An empty name counts as none.\<close>

definition named :: "string option \<Rightarrow> bool" where
  "named n \<longleftrightarrow> n \<noteq> None \<and> n \<noteq> Some []"

definition add_flags :: "string \<Rightarrow> string \<Rightarrow> string list \<Rightarrow> string list \<Rightarrow> string list \<Rightarrow> string list \<Rightarrow> flags_env \<Rightarrow> flags_env" where
  "add_flags var defs optimizations debug warnings debug_defs env =
     append_value defs debug_defs (append_value var warnings (append_value var debug (append_value var optimizations env)))"

definition configure_flags :: "string \<Rightarrow> bool \<Rightarrow> flags_env \<Rightarrow> flags_env result" where
  "configure_flags build_profile disable_werror env =
     (if \<not> (named (cc env) \<or> named (cxx env)) then Inl PlainException
      else case find_compiler env of
        None \<Rightarrow> Inr (env\<lparr>warned := True\<rparr>)
      | Some c \<Rightarrow>
          (case map_of profiles build_profile of
             None \<Rightarrow> Inl KeyError
           | Some (opt_level, warn_level, dbg_level) \<Rightarrow>
               (case get_optimization_flags c opt_level of
                  None \<Rightarrow> Inl TypeError
                | Some optimizations \<Rightarrow>
                    let (debug, debug_defs) = get_debug_flags c dbg_level;
                        warnings = get_warnings_flags c warn_level;
                        warnings = (if disable_werror then remove1 ''-Werror'' warnings else warnings);
                        env1 = (if named (cc env) \<and> flags env ''CCFLAGS'' = []
                                then add_flags ''CCFLAGS'' ''CCDEFINES'' optimizations debug warnings debug_defs env else env);
                        env2 = (if named (cxx env) \<and> flags env1 ''CXXFLAGS'' = []
                                then add_flags ''CXXFLAGS'' ''CXXDEFINES'' optimizations debug warnings debug_defs env1 else env1)
                    in Inr env2)))"

section \<open>What is added\<close>

lemma collect_warnings_take:
  "collect_warnings table [0..<level] acc = acc @ concat (take level table)"
proof -
  have "collect_warnings table [k..<level] acc = acc @ concat (take (level - k) (drop k table))" for k
  proof (induction "level - k" arbitrary: k acc)
    case (Suc n)
    then have up: "[k..<level] = k # [Suc k..<level]" and d: "level - k = Suc (level - Suc k)" by (simp_all add: upt_conv_Cons)
    show ?case
    proof (cases "k < length table")
      case True
      then have "take (level - k) (drop k table) = table ! k # take (level - Suc k) (drop (Suc k) table)"
        by (simp add: d Cons_nth_drop_Suc [symmetric])
      with Suc True up show ?thesis by simp
    qed (simp add: up)
  qed simp
  from this [of 0] show ?thesis by simp
qed

text \<open>The flags of a level are those of the lower levels with more after them, up to the end of the table.\<close>

theorem warnings_cumulative:
  "get_warnings_flags c level = concat (take level (warnings_table c)) \<and>
   get_warnings_flags c (level + k) = get_warnings_flags c level @ concat (take k (drop level (warnings_table c)))"
  by (simp add: get_warnings_flags_def collect_warnings_take take_add)

text \<open>
  A known profile always configures.  With a compiler that is known, each language that has a compiler and no flags yet
  gets the flags of the profile, in the order optimisation, debugging, warnings, and nothing else changes; flags that were set
  are kept as they are.
\<close>

definition profile_flags :: "compiler \<Rightarrow> nat \<times> nat \<times> nat \<Rightarrow> bool \<Rightarrow> string list" where
  "profile_flags c = (\<lambda>(opt_level, warn_level, dbg_level) disable_werror.
     the (get_optimization_flags c opt_level) @ fst (get_debug_flags c dbg_level) @
     (if disable_werror then remove1 ''-Werror'' (get_warnings_flags c warn_level) else get_warnings_flags c warn_level))"

theorem configure_adds:
  assumes "find_compiler env = Some c" "map_of profiles build_profile = Some levels" "named (cc env) \<or> named (cxx env)"
  shows "\<exists>env'. configure_flags build_profile disable_werror env = Inr env' \<and> cc env' = cc env \<and> cxx env' = cxx env \<and>
    (\<forall>var. flags env' var = flags env var @
      (if var = ''CCFLAGS'' \<and> named (cc env) \<and> flags env ''CCFLAGS'' = [] \<or> var = ''CXXFLAGS'' \<and> named (cxx env) \<and> flags env ''CXXFLAGS'' = []
       then profile_flags c levels disable_werror
       else if var = ''CCDEFINES'' \<and> named (cc env) \<and> flags env ''CCFLAGS'' = [] \<or> var = ''CXXDEFINES'' \<and> named (cxx env) \<and> flags env ''CXXFLAGS'' = []
       then snd (get_debug_flags c (snd (snd levels))) else []))"
proof -
  obtain ol wl dl where levels: "levels = (ol, wl, dl)" by (cases levels)
  have "ol = 0 \<or> ol = 2 \<or> ol = 3" using assms(2) by (auto simp: profiles_def levels split: if_splits)
  then have "\<exists>opt. get_optimization_flags c ol = Some opt"
    by (cases "c = Msvc") (auto simp: get_optimization_flags_def)
  then obtain opt where opt: "get_optimization_flags c ol = Some opt" by blast
  obtain dbg defs where dbg: "get_debug_flags c dl = (dbg, defs)" by fastforce
  show ?thesis
    using assms(2,3)
    by (cases "named (cc env) \<and> flags env ''CCFLAGS'' = []"; cases "named (cxx env) \<and> flags env ''CXXFLAGS'' = []")
      (auto simp: configure_flags_def assms(1) levels opt dbg Let_def profile_flags_def add_flags_def append_value_def)
qed

theorem configure_adds_witness:
  "\<exists>env'. configure_flags ''debug'' True \<lparr>cc = None, cxx = Some ''g++'', flags = (\<lambda>v. []), warned = False\<rparr> = Inr env' \<and>
     flags env' ''CXXFLAGS'' = [''-O0'', ''-ggdb'', ''-g3'', ''-Wall'']"
proof -
  let ?env = "\<lparr>cc = None, cxx = Some ''g++'', flags = (\<lambda>v. []), warned = False\<rparr>"
  have "find_compiler ?env = Some Gcc" "map_of profiles ''debug'' = Some (0, 2, 3)" "named (cxx ?env)"
    by (simp_all add: find_compiler_def lookup_compiler_def compiler_mapping_def profiles_def named_def)
  from configure_adds [OF this(1,2) disjI2 [OF this(3)], of True] show ?thesis
    by (auto simp: profile_flags_def get_optimization_flags_def get_debug_flags_def get_warnings_flags_def collect_warnings_take
        warnings_table_def numeral_eq_Suc named_def)
qed

text \<open>
  Of all families and profiles, only the compilers of the gcc family in the profile \<^verbatim>\<open>debug\<close> turn warnings into errors by
  \<^verbatim>\<open>-Werror\<close>, and the option to disable that works there; for \<^verbatim>\<open>msvc\<close> the flag is \<^verbatim>\<open>/WX\<close>, and the option does nothing.
\<close>

theorem werror_flags:
  assumes "map_of profiles build_profile = Some levels"
  shows "(''-Werror'' \<in> set (profile_flags c levels disable_werror) \<longleftrightarrow> c = Gcc \<and> build_profile = ''debug'' \<and> \<not> disable_werror) \<and>
    (''/WX'' \<in> set (profile_flags c levels disable_werror) \<longleftrightarrow> c = Msvc \<and> build_profile = ''debug'')"
  using assms
  by (cases c; cases disable_werror)
    (auto simp: profiles_def profile_flags_def get_optimization_flags_def get_debug_flags_def get_warnings_flags_def
       collect_warnings_take warnings_table_def numeral_eq_Suc split: if_splits)

theorem werror_flags_witness: "''/WX'' \<in> set (profile_flags Msvc (0, 2, 3) True)"
  using werror_flags [of "''debug''" "(0, 2, 3)" Msvc True] by (simp add: profiles_def)

end
