(* ===== verification/Waf_Misc.thy ===== *)
theory Waf_Misc
  imports Waf_Run
begin

text \<open>
  Further tasks of the build: the substitution of variables in \<^verbatim>\<open>.in\<close> files and the tasks that run commands for their output
  (\<^verbatim>\<open>waf-tools/misc.py\<close>), and the database of compile commands (\<^verbatim>\<open>waf-tools/clang_compilation_database.py\<close>).
\<close>

section \<open>Substitution in files\<close>

text \<open>The letters of \<^verbatim>\<open>\w\<close>, for ASCII texts.\<close>

definition word_letter :: "char \<Rightarrow> bool" where
  "word_letter c \<longleftrightarrow> (let n = (of_char c :: nat) in
     (97 \<le> n \<and> n \<le> 122) \<or> (65 \<le> n \<and> n \<le> 90) \<or> (48 \<le> n \<and> n \<le> 57) \<or> n = 95)"

abbreviation AT :: char where "AT \<equiv> CHR 0x40"
abbreviation PC :: char where "PC \<equiv> CHR 0x25"

text \<open>The regular expression \<^verbatim>\<open>@(\w+)@\<close> at the head of a text: the name and the rest.\<close>

definition match_at :: "string \<Rightarrow> (string \<times> string) option" where
  "match_at s =
     (case s of
        c # cs \<Rightarrow>
          (case dropWhile word_letter cs of
             d # rest \<Rightarrow> if c = AT \<and> d = AT \<and> takeWhile word_letter cs \<noteq> [] then Some (takeWhile word_letter cs, rest) else None
           | [] \<Rightarrow> None)
      | [] \<Rightarrow> None)"

lemma match_at_shorter: "match_at s = Some (name, rest) \<Longrightarrow> length rest < length s"
proof -
  assume m: "match_at s = Some (name, rest)"
  then obtain c d cs where s: "s = c # cs" "dropWhile word_letter cs = d # rest"
    by (cases s) (auto simp: match_at_def split: list.splits if_splits)
  have "length (d # rest) \<le> length cs" unfolding s(2) [symmetric] by (rule length_dropWhile_le)
  with s(1) show ?thesis by simp
qed

function sub_at :: "(string \<Rightarrow> string) \<Rightarrow> string \<Rightarrow> string" where
  "sub_at f s =
     (case match_at s of
        Some (name, rest) \<Rightarrow> f name @ sub_at f rest
      | None \<Rightarrow> (case s of [] \<Rightarrow> [] | c # cs \<Rightarrow> c # sub_at f cs))"
  by pat_completeness auto

termination
  by (relation "measure (\<lambda>(f, s). length s)") (auto dest: match_at_shorter)

function names_at :: "string \<Rightarrow> string list" where
  "names_at s =
     (case match_at s of
        Some (name, rest) \<Rightarrow> name # names_at rest
      | None \<Rightarrow> (case s of [] \<Rightarrow> [] | c # cs \<Rightarrow> names_at cs))"
  by pat_completeness auto

termination
  by (relation "measure length") (auto dest: match_at_shorter)

declare sub_at.simps [simp del] names_at.simps [simp del]

definition double_percents :: "string \<Rightarrow> string" where
  "double_percents s = concat (map (\<lambda>c. if c = PC then [PC, PC] else [c]) s)"

lemma dropWhile_rest: "dropWhile P xs = a # b # rest \<Longrightarrow> length rest < length xs"
  using length_dropWhile_le [of P xs] by simp

text \<open>
  \<^verbatim>\<open>s % di\<close> for a dictionary: \<^verbatim>\<open>%(name)s\<close> is the value of the name and \<^verbatim>\<open>%%\<close> a percent sign; no other
  conversion occurs in the texts formatted here, and the model gives a \<^verbatim>\<open>ValueError\<close> for one.
\<close>

function format_dict :: "(string \<Rightarrow> string option) \<Rightarrow> string \<Rightarrow> string result" where
  "format_dict di [] = Inr []"
| "format_dict di (c # cs) =
     (if c \<noteq> PC then res_bind (format_dict di cs) (\<lambda>r. Inr (c # r))
      else (case cs of
        [] \<Rightarrow> Inl ValueError
      | d # ds \<Rightarrow>
          if d = PC then res_bind (format_dict di ds) (\<lambda>r. Inr (PC # r))
          else if d = CHR ''('' then
            (case dropWhile (\<lambda>x. x \<noteq> CHR '')'') ds of
               _ # k # rest \<Rightarrow>
                 if k = CHR ''s'' then
                   (case di (takeWhile (\<lambda>x. x \<noteq> CHR '')'') ds) of
                      None \<Rightarrow> Inl KeyError
                    | Some v \<Rightarrow> res_bind (format_dict di rest) (\<lambda>r. Inr (v @ r)))
                 else Inl ValueError
             | _ \<Rightarrow> Inl ValueError)
          else Inl ValueError))"
  by pat_completeness auto

termination
  by (relation "measure (\<lambda>(di, s). length s)") (auto dest: dropWhile_rest)

declare format_dict.simps(2) [simp del]

definition subst_text :: "(string \<Rightarrow> string option) \<Rightarrow> string \<Rightarrow> string result" where
  "subst_text di code = format_dict di (sub_at (\<lambda>name. [PC, CHR ''(''] @ name @ '')s'') (double_percents code))"

definition upper_char :: "char \<Rightarrow> char" where
  "upper_char c = (let n = (of_char c :: nat) in if 97 \<le> n \<and> n \<le> 122 then char_of (n - 32) else c)"

text \<open>
  \<^verbatim>\<open>subst_func\<close>: the dictionary is that of the task, or of its generator, which are one object when the generator has none; if it is empty
  the names of the file are looked up in the environment and added to it.  The result is the text and the dictionary left behind.
\<close>

definition flat_value :: "(string \<Rightarrow> string) \<Rightarrow> string \<Rightarrow> string" where
  "flat_value get_flat name = (if get_flat name \<noteq> [] then get_flat name else get_flat (map upper_char name))"

definition fill_names :: "(string \<Rightarrow> string) \<Rightarrow> string list \<Rightarrow> (string, string) dict \<Rightarrow> (string, string) dict" where
  "fill_names get_flat names di = fold (\<lambda>i. AList.update i (flat_value get_flat i)) names di"

definition subst_func :: "(string \<Rightarrow> string) \<Rightarrow> string \<Rightarrow> (string, string) dict \<Rightarrow> string result \<times> (string, string) dict" where
  "subst_func get_flat code di =
     (let di1 = (if di = [] then fill_names get_flat (names_at (double_percents code)) di else di)
      in (subst_text (map_of di1) code, di1))"

text \<open>The tasks of one generator, in the order they run.\<close>

fun subst_files :: "(string \<Rightarrow> string) \<Rightarrow> string list \<Rightarrow> (string, string) dict \<Rightarrow> string result list" where
  "subst_files get_flat [] di = []"
| "subst_files get_flat (code # codes) di =
     (let (r, di1) = subst_func get_flat code di in r # subst_files get_flat codes di1)"

section \<open>What substitution gives\<close>

text \<open>Substitution as it is meant: every name between two signs is replaced by its value.\<close>

function substituted :: "(string \<Rightarrow> string option) \<Rightarrow> string \<Rightarrow> string result" where
  "substituted di s =
     (case match_at s of
        Some (name, rest) \<Rightarrow>
          (case di name of None \<Rightarrow> Inl KeyError | Some v \<Rightarrow> res_bind (substituted di rest) (\<lambda>r. Inr (v @ r)))
      | None \<Rightarrow> (case s of [] \<Rightarrow> Inr [] | c # cs \<Rightarrow> res_bind (substituted di cs) (\<lambda>r. Inr (c # r))))"
  by pat_completeness auto

termination
  by (relation "measure (\<lambda>(di, s). length s)") (auto dest: match_at_shorter)

declare substituted.simps [simp del]

lemma letters_not [simp]: "\<not> word_letter PC" "\<not> word_letter AT" "\<not> word_letter (CHR '')'')"
  by (simp_all add: word_letter_def)

lemma double_percents_simps [simp]:
  "double_percents [] = []" "double_percents (c # cs) = (if c = PC then [PC, PC] else [c]) @ double_percents cs"
  by (simp_all add: double_percents_def)

lemma letters_doubled:
  "takeWhile word_letter (double_percents s) = takeWhile word_letter s \<and>
   dropWhile word_letter (double_percents s) = double_percents (dropWhile word_letter s)"
  by (induction s) auto

lemma match_at_percent [simp]: "match_at (PC # s) = None" "match_at [] = None"
  by (simp_all add: match_at_def split: list.split)

lemma match_at_doubled: "match_at (double_percents s) = map_option (\<lambda>(name, rest). (name, double_percents rest)) (match_at s)"
proof (cases s)
  case (Cons c cs)
  show ?thesis
  proof (cases "c = PC")
    case False
    define ds where "ds = dropWhile word_letter cs"
    have d: "dropWhile word_letter (double_percents cs) = double_percents ds" "takeWhile word_letter (double_percents cs) = takeWhile word_letter cs"
      by (simp_all add: ds_def letters_doubled)
    have "match_at (c # double_percents cs) = map_option (\<lambda>(name, rest). (name, double_percents rest)) (match_at (c # cs))"
      unfolding match_at_def list.case d ds_def [symmetric] by (cases ds) auto
    with False Cons show ?thesis by simp
  qed (simp add: Cons)
qed simp

lemma match_at_name: "match_at s = Some (name, rest) \<Longrightarrow> name \<noteq> [] \<and> (\<forall>c \<in> set name. word_letter c)"
  by (cases s) (auto simp: match_at_def split: list.splits if_splits dest: set_takeWhileD)

lemma format_reference:
  assumes "\<forall>c \<in> set name. word_letter c"
  shows "format_dict di ([PC, CHR ''(''] @ name @ '')s'' @ rest) =
    (case di name of None \<Rightarrow> Inl KeyError | Some v \<Rightarrow> res_bind (format_dict di rest) (\<lambda>r. Inr (v @ r)))"
proof -
  have "CHR '')'' \<notin> set name" using assms letters_not(3) by blast
  then have "takeWhile (\<lambda>x. x \<noteq> CHR '')'') (name @ '')s'' @ rest) = name" "dropWhile (\<lambda>x. x \<noteq> CHR '')'') (name @ '')s'' @ rest) = '')s'' @ rest"
    by (induction name) auto
  then show ?thesis by (simp add: format_dict.simps(2) cong: option.case_cong)
qed

lemma subst_text_eq: "subst_text di code = substituted di code"
  unfolding subst_text_def
proof (induction code rule: substituted.induct [of _ di])
  case (1 di s)
  let ?f = "\<lambda>name. [PC, CHR ''(''] @ name @ '')s''"
  show ?case
  proof (cases "match_at s")
    case None
    show ?thesis
    proof (cases s)
      case (Cons c cs)
      have IH: "format_dict di (sub_at ?f (double_percents cs)) = substituted di cs" by (rule 1(1) [OF None Cons])
      have "format_dict di (sub_at ?f (double_percents s)) = res_bind (format_dict di (sub_at ?f (double_percents cs))) (\<lambda>r. Inr (c # r))"
      proof (cases "c = PC")
        case True
        then show ?thesis
          by (simp add: Cons sub_at.simps [of _ "PC # _"] format_dict.simps(2))
      next
        case False
        have "match_at (c # double_percents cs) = None" using match_at_doubled [of s] None False by (simp add: Cons)
        with False show ?thesis by (simp add: Cons sub_at.simps [of _ "c # _"] format_dict.simps(2))
      qed
      moreover have "match_at (c # cs) = None" using None Cons by simp
      ultimately show ?thesis unfolding IH Cons by (simp add: substituted.simps [of di "c # cs"])
    qed (simp add: sub_at.simps substituted.simps)
  next
    case (Some p)
    then obtain name rest where m: "match_at s = Some (name, rest)" by (cases p) auto
    have IH: "format_dict di (sub_at ?f (double_percents rest)) = substituted di rest" if "di name = Some v" for v
      using 1(2) [OF m refl that] by simp
    have "sub_at ?f (double_percents s) = ?f name @ sub_at ?f (double_percents rest)"
      by (subst sub_at.simps) (simp add: match_at_doubled m)
    then have "format_dict di (sub_at ?f (double_percents s)) =
        (case di name of None \<Rightarrow> Inl KeyError | Some v \<Rightarrow> res_bind (format_dict di (sub_at ?f (double_percents rest))) (\<lambda>r. Inr (v @ r)))"
      using format_reference [OF conjunct2 [OF match_at_name [OF m]], of di "sub_at ?f (double_percents rest)"] by (simp only: append_assoc)
    with IH show ?thesis by (simp add: substituted.simps [of di s] m split: option.split)
  qed
qed

text \<open>C17. 
  The detour over a format string, with the percent signs of the file doubled first, gives what direct substitution gives, for
  every text and every dictionary, errors included.
\<close>

theorem subst_text_direct: "subst_text di code = substituted di code"
  by (rule subst_text_eq)

lemma names_at_doubled: "names_at (double_percents s) = names_at s"
proof (induction s rule: names_at.induct)
  case (1 s)
  show ?case
  proof (cases "match_at s")
    case None
    show ?thesis
    proof (cases s)
      case (Cons c cs)
      have IH: "names_at (double_percents cs) = names_at cs" by (rule 1(1) [OF None Cons])
      show ?thesis
      proof (cases "c = PC")
        case True
        with None IH Cons show ?thesis by (simp add: names_at.simps [of "PC # _"])
      next
        case False
        have "match_at (c # double_percents cs) = None" using match_at_doubled [of s] None False by (simp add: Cons)
        with False None IH Cons show ?thesis by (simp add: names_at.simps [of "c # _"])
      qed
    qed (simp add: names_at.simps)
  next
    case (Some p)
    then obtain name rest where m: "match_at s = Some (name, rest)" by (cases p) auto
    with 1(2) [OF m] show ?thesis
      by (subst names_at.simps, subst (2) names_at.simps) (simp add: match_at_doubled)
  qed
qed

lemma substituted_known:
  "\<forall>name \<in> set (names_at s). di name = Some (f name) \<Longrightarrow> substituted di s = Inr (sub_at f s)"
proof (induction s rule: names_at.induct)
  case (1 s)
  show ?case
  proof (cases "match_at s")
    case None
    show ?thesis
    proof (cases s)
      case (Cons c cs)
      have "\<forall>name \<in> set (names_at cs). di name = Some (f name)" using 1(3) None Cons by (subst (asm) names_at.simps) simp
      from 1(1) [OF None Cons this] have "substituted di cs = Inr (sub_at f cs)" .
      moreover have "match_at (c # cs) = None" using None Cons by simp
      ultimately show ?thesis unfolding Cons by (simp add: substituted.simps [of di "c # cs"] sub_at.simps [of f "c # cs"])
    qed (simp add: substituted.simps sub_at.simps)
  next
    case (Some p)
    then obtain name rest where m: "match_at s = Some (name, rest)" by (cases p) auto
    have "\<forall>n \<in> set (name # names_at rest). di n = Some (f n)" using 1(3) m by (subst (asm) names_at.simps) simp
    with 1(2) [OF m refl] m show ?thesis by (simp add: substituted.simps [of di s] sub_at.simps [of f s])
  qed
qed

lemma substituted_unknown:
  "\<exists>name \<in> set (names_at s). di name = None \<Longrightarrow> substituted di s = Inl KeyError"
proof (induction s rule: names_at.induct)
  case (1 s)
  show ?case
  proof (cases "match_at s")
    case None
    show ?thesis
    proof (cases s)
      case (Cons c cs)
      have "\<exists>name \<in> set (names_at cs). di name = None" using 1(3) None Cons by (subst (asm) names_at.simps) simp
      from 1(1) [OF None Cons this] have "substituted di cs = Inl KeyError" .
      moreover have "match_at (c # cs) = None" using None Cons by simp
      ultimately show ?thesis unfolding Cons by (simp add: substituted.simps [of di "c # cs"])
    next
      case Nil
      with 1(3) show ?thesis by (simp add: names_at.simps)
    qed
  next
    case (Some p)
    then obtain name rest where m: "match_at s = Some (name, rest)" by (cases p) auto
    have "\<exists>n \<in> set (name # names_at rest). di n = None" using 1(3) m by (subst (asm) names_at.simps) simp
    then have "di name = None \<or> substituted di rest = Inl KeyError" using 1(2) [OF m refl] by auto
    with m show ?thesis by (auto simp: substituted.simps [of di s] split: option.split)
  qed
qed

lemma fill_names_map:
  "map_of (fill_names get_flat names di) = (\<lambda>i. if i \<in> set names then Some (flat_value get_flat i) else map_of di i)"
  unfolding fill_names_def by (induction names arbitrary: di) auto

text \<open>
  A generator without a dictionary of its own: the first file gets for every name the value the environment has for it or for
  its upper case.  The names of that file stay in the dictionary, so that for the files after it no others are known.
\<close>

theorem files_share_dictionary:
  assumes "names_at first \<noteq> []"
  shows "subst_files get_flat (first # rest) [] =
    Inr (sub_at (flat_value get_flat) first) #
    map (\<lambda>code. if set (names_at code) \<subseteq> set (names_at first) then Inr (sub_at (flat_value get_flat) code) else Inl KeyError) rest"
proof -
  define di where "di = fill_names get_flat (names_at first) []"
  have di: "map_of di = (\<lambda>i. if i \<in> set (names_at first) then Some (flat_value get_flat i) else None)"
    by (simp add: di_def fill_names_map fun_eq_iff)
  have ne: "di \<noteq> []"
  proof
    assume "di = []"
    then have "map_of di (hd (names_at first)) = None" by simp
    with assms show False by (simp add: di split: if_splits)
  qed
  have one: "subst_text (map_of di) code =
      (if set (names_at code) \<subseteq> set (names_at first) then Inr (sub_at (flat_value get_flat) code) else Inl KeyError)" for code
  proof (cases "set (names_at code) \<subseteq> set (names_at first)")
    case True
    then have "\<forall>name \<in> set (names_at code). map_of di name = Some (flat_value get_flat name)" by (auto simp: di)
    from substituted_known [OF this] True show ?thesis by (simp add: subst_text_eq)
  next
    case False
    then have "\<exists>name \<in> set (names_at code). map_of di name = None" by (auto simp: di)
    from substituted_unknown [OF this] False show ?thesis by (simp add: subst_text_eq)
  qed
  have later: "subst_files get_flat codes di = map (\<lambda>code. subst_text (map_of di) code) codes" for codes
    by (induction codes) (simp_all add: subst_func_def ne Let_def)
  show ?thesis by (simp add: subst_func_def names_at_doubled di_def [symmetric] later one Let_def)
qed

theorem files_share_dictionary_witness:
  "subst_files (\<lambda>n. if n = ''A'' then ''x%'' else []) [''1@a@'', ''2@b@''] [] = [Inr ''1x%'', Inl KeyError]"
proof -
  have n: "names_at ''1@a@'' = [''a'']" "names_at ''2@b@'' = [''b'']"
    by (simp_all add: names_at.simps match_at_def word_letter_def)
  have "sub_at f ''1@a@'' = ''1'' @ f ''a''" for f
    by (simp add: sub_at.simps match_at_def word_letter_def)
  moreover have "upper_char CHR ''a'' = CHR ''A''" by code_simp
  ultimately show ?thesis
    using files_share_dictionary [of "''1@a@''" "\<lambda>n. if n = ''A'' then ''x%'' else []" "[''2@b@'']"] n
    by (simp add: flat_value_def)
qed

section \<open>Commands run for their output\<close>

text \<open>A node of the tree with its paths; \<^verbatim>\<open>find_resource\<close>, \<^verbatim>\<open>find_or_declare\<close> and \<^verbatim>\<open>find_dir\<close> are waf's.\<close>

record file_node =
  node_abspath :: string
  node_srcpath :: string
  node_bldpath :: string

record finder =
  find_resource :: "string \<Rightarrow> file_node option"
  find_or_declare :: "string \<Rightarrow> file_node option"
  find_dir :: "string \<Rightarrow> file_node option"

text \<open>An argument of the command: a word, or a file or directory with its name and the template it is put into.\<close>

datatype cmd_arg =
    Word_arg string
  | Input_file string string
  | Output_file string string
  | Input_dir string string
  | Output_dir string string

text \<open>
  \<^verbatim>\<open>find_node\<close>.  When the node is missing, the message of the error has one conversion for two arguments, so that
  building it raises a \<^verbatim>\<open>TypeError\<close>.
\<close>

definition find_node :: "finder \<Rightarrow> cmd_arg \<Rightarrow> file_node option result" where
  "find_node fd arg =
     (case arg of
        Word_arg w \<Rightarrow> Inr None
      | Input_file name _ \<Rightarrow> (case find_resource fd name of None \<Rightarrow> Inl TypeError | n \<Rightarrow> Inr n)
      | Output_file name _ \<Rightarrow> (case find_or_declare fd name of None \<Rightarrow> Inl TypeError | n \<Rightarrow> Inr n)
      | Input_dir name _ \<Rightarrow> (case find_dir fd name of None \<Rightarrow> Inl TypeError | n \<Rightarrow> Inr n)
      | Output_dir name _ \<Rightarrow> (case find_dir fd name of None \<Rightarrow> Inl TypeError | n \<Rightarrow> Inr n))"

definition fill_template :: "string \<Rightarrow> string \<Rightarrow> string result" where
  "fill_template template path =
     (case py_percent template path of Inr s \<Rightarrow> Inr s | Inl (Raised e) \<Rightarrow> Inl e | Inl _ \<Rightarrow> Inl ValueError)"

definition get_path :: "bool \<Rightarrow> cmd_arg \<Rightarrow> file_node \<Rightarrow> string result" where
  "get_path absolute arg n =
     (case arg of
        Word_arg w \<Rightarrow> Inr w
      | Input_file _ template \<Rightarrow> fill_template template (if absolute then node_abspath n else node_srcpath n)
      | Output_file _ template \<Rightarrow> fill_template template (if absolute then node_abspath n else node_bldpath n)
      | Input_dir _ template \<Rightarrow> fill_template template (node_abspath n)
      | Output_dir _ template \<Rightarrow> fill_template template (node_abspath n))"

record output_gen =
  gen_command :: "string option"
  command_is_external :: bool
  gen_argv :: "cmd_arg list"
  gen_stdin :: "string option"
  gen_stdout :: "string option"
  gen_stderr :: "string option"
  hidden_inputs :: "string list"
  hidden_outputs :: "string list"
  no_inputs :: bool
  no_outputs :: bool
  gen_cwd :: "string option"

record output_task =
  task_command :: "string + file_node"
  task_args :: "(cmd_arg \<times> file_node option) list"
  task_stdin :: "file_node option"
  task_stdout :: "file_node option"
  task_stderr :: "file_node option"
  task_cwd :: "string option"
  task_in :: "file_node list"
  task_out :: "file_node list"

definition find_args :: "finder \<Rightarrow> cmd_arg list \<Rightarrow> (cmd_arg \<times> file_node option) list result" where
  "find_args fd args = for_each (\<lambda>arg found. res_bind (find_node fd arg) (\<lambda>n. Inr (found @ [(arg, n)]))) args []"

definition input_nodes :: "(cmd_arg \<times> file_node option) list \<Rightarrow> file_node list" where
  "input_nodes args = concat (map (\<lambda>(arg, n). case (arg, n) of (Input_file _ _, Some m) \<Rightarrow> [m] | _ \<Rightarrow> []) args)"

definition output_nodes :: "(cmd_arg \<times> file_node option) list \<Rightarrow> file_node list" where
  "output_nodes args = concat (map (\<lambda>(arg, n). case (arg, n) of (Output_file _ _, Some m) \<Rightarrow> [m] | _ \<Rightarrow> []) args)"

text \<open>An optional name, looked up; \<^verbatim>\<open>WafError\<close> is \<open>PlainException\<close> here.\<close>

definition find_optional :: "(string \<Rightarrow> file_node option) \<Rightarrow> string option \<Rightarrow> file_node option result" where
  "find_optional look name =
     (case name of None \<Rightarrow> Inr None
      | Some s \<Rightarrow> (case look s of None \<Rightarrow> Inl PlainException | Some n \<Rightarrow> Inr (Some n)))"

definition find_hidden :: "(string \<Rightarrow> file_node option) \<Rightarrow> string list \<Rightarrow> file_node list result" where
  "find_hidden look names =
     for_each (\<lambda>s found. case look s of None \<Rightarrow> Inl PlainException | Some n \<Rightarrow> Inr (found @ [n])) names []"

definition find_command :: "finder \<Rightarrow> output_gen \<Rightarrow> (string + file_node) result" where
  "find_command fd g =
     (case gen_command g of
        None \<Rightarrow> Inl PlainException
      | Some c \<Rightarrow>
          if command_is_external g then Inr (Inl c)
          else (case find_resource fd c of None \<Rightarrow> Inl AssertionError | Some n \<Rightarrow> Inr (Inr n)))"

definition apply_cmd_output :: "finder \<Rightarrow> string \<Rightarrow> output_gen \<Rightarrow> output_task result" where
  "apply_cmd_output fd variant_dir g =
     res_bind (find_command fd g) (\<lambda>cmd.
     res_bind (find_args fd (gen_argv g)) (\<lambda>args.
     res_bind (find_optional (find_or_declare fd) (gen_stdout g)) (\<lambda>out.
     res_bind (find_optional (find_or_declare fd) (gen_stderr g)) (\<lambda>err.
     res_bind (find_optional (find_resource fd) (gen_stdin g)) (\<lambda>inp.
     res_bind (find_hidden (find_resource fd) (hidden_inputs g)) (\<lambda>hin.
     res_bind (find_hidden (find_or_declare fd) (hidden_outputs g)) (\<lambda>hout.
       let inputs = input_nodes args @ (case inp of None \<Rightarrow> [] | Some n \<Rightarrow> [n]) @ hin;
           outputs = output_nodes args @ (case out of None \<Rightarrow> [] | Some n \<Rightarrow> [n]) @ (case err of None \<Rightarrow> [] | Some n \<Rightarrow> [n]) @ hout
       in if inputs = [] \<and> \<not> no_inputs g then Inl PlainException
          else if outputs = [] \<and> \<not> no_outputs g then Inl PlainException
          else Inr \<lparr>task_command = cmd, task_args = args, task_stdin = inp, task_stdout = out, task_stderr = err,
                    task_cwd = Some variant_dir, task_in = inputs, task_out = outputs\<rparr>)))))))"

text \<open>\<^verbatim>\<open>command_output.run\<close>: the process it starts, as arguments, files for the three streams, and directory.\<close>

definition stream_path :: "output_task \<Rightarrow> file_node \<Rightarrow> string result" where
  "stream_path t n = fill_template ''%s'' (if task_cwd t = None then node_bldpath n else node_abspath n)"

definition optional_path :: "output_task \<Rightarrow> file_node option \<Rightarrow> string option result" where
  "optional_path t n = (case n of None \<Rightarrow> Inr None | Some m \<Rightarrow> res_bind (stream_path t m) (\<lambda>p. Inr (Some p)))"

record output_process =
  out_argv :: "string list"
  out_stdin :: "string option"
  out_stdout :: "string option"
  out_stderr :: "string option"
  out_cwd :: "string option"

definition arg_text :: "output_task \<Rightarrow> cmd_arg \<times> file_node option \<Rightarrow> string result" where
  "arg_text t = (\<lambda>(arg, n). case arg of
       Word_arg w \<Rightarrow> Inr w
     | _ \<Rightarrow> (case n of None \<Rightarrow> Inl AttributeError | Some m \<Rightarrow> get_path (task_cwd t \<noteq> None) arg m))"

definition run_command_output :: "output_task \<Rightarrow> output_process result" where
  "run_command_output t =
     res_bind (case task_command t of Inl c \<Rightarrow> Inr c | Inr n \<Rightarrow> stream_path t n) (\<lambda>cmd.
     res_bind (for_each (\<lambda>a av. res_bind (arg_text t a) (\<lambda>w. Inr (av @ [w]))) (task_args t) [cmd]) (\<lambda>av.
     res_bind (optional_path t (task_stdin t)) (\<lambda>i.
     res_bind (optional_path t (task_stdout t)) (\<lambda>ou.
     res_bind (optional_path t (task_stderr t)) (\<lambda>e.
     Inr \<lparr>out_argv = av, out_stdin = i, out_stdout = ou, out_stderr = e, out_cwd = task_cwd t\<rparr>)))))"

section \<open>The database of compile commands\<close>

definition safe_char :: "char \<Rightarrow> bool" where
  "safe_char c \<longleftrightarrow> word_letter c \<or> c \<in> set ''@%+=:,./-''"

definition shlex_quote :: "string \<Rightarrow> string" where
  "shlex_quote s =
     (if s = [] then [SQ, SQ]
      else if list_all safe_char s then s
      else [SQ] @ concat (map (\<lambda>c. if c = SQ then [SQ, QUOT, SQ, QUOT, SQ] else [c]) s) @ [SQ])"

record db_entry =
  db_directory :: string
  db_command :: string
  db_file :: string

text \<open>
  A compile task: its last command, if it ran, its directory, if it has one, and the absolute path of its first input.
\<close>

record compile_task =
  last_cmd :: "string list option"
  compile_cwd :: "string option"
  first_input :: string

definition task_directory :: "string \<Rightarrow> compile_task \<Rightarrow> string" where
  "task_directory variant_dir t = (case compile_cwd t of None \<Rightarrow> variant_dir | Some d \<Rightarrow> d)"

definition task_file :: "string \<Rightarrow> compile_task \<Rightarrow> string" where
  "task_file variant_dir t =
     join_parts (relpath_parts (py_split CHR ''/'' (task_directory variant_dir t)) (py_split CHR ''/'' (first_input t)))"

definition add_task :: "string \<Rightarrow> compile_task \<Rightarrow> (string, db_entry) dict \<Rightarrow> (string, db_entry) dict" where
  "add_task variant_dir t db =
     (case last_cmd t of
        None \<Rightarrow> db
      | Some cmd \<Rightarrow>
          AList.update (task_file variant_dir t)
            \<lparr>db_directory = task_directory variant_dir t, db_command = py_join '' '' (map shlex_quote cmd),
             db_file = task_file variant_dir t\<rparr> db)"

definition write_compilation_database :: "db_entry list option \<Rightarrow> string \<Rightarrow> compile_task list \<Rightarrow> db_entry list" where
  "write_compilation_database old variant_dir tasks =
     (let root = (case old of None \<Rightarrow> [] | Some es \<Rightarrow> es);
          db = fold (\<lambda>x. AList.update (db_file x) x) root []
      in map snd (fold (add_task variant_dir) tasks db))"

section \<open>What the tasks do\<close>

lemma fill_plain: "fill_template ''%s'' path = Inr path"
  by (simp add: fill_template_def py_percent_def)

lemma res_bind_assoc: "res_bind (res_bind m f) g = res_bind m (\<lambda>a. res_bind (f a) g)"
  by (cases m) simp_all

lemma find_args_nodes:
  assumes "find_args fd xs = Inr args"
  shows "map fst args = xs \<and> (\<forall>(arg, n) \<in> set args. find_node fd arg = Inr n)"
proof -
  have m: "map (\<lambda>arg. res_bind (find_node fd arg) (\<lambda>n. Inr (arg, n))) xs = map Inr args"
    using assms for_each_collect [of "\<lambda>arg. res_bind (find_node fd arg) (\<lambda>n. Inr (arg, n))" xs "[]" args]
    unfolding find_args_def by (simp add: res_bind_assoc)
  have len: "length xs = length args" using map_eq_imp_length_eq [OF m] .
  have nth: "res_bind (find_node fd (xs ! i)) (\<lambda>n. Inr (xs ! i, n)) = Inr (args ! i)" if "i < length args" for i
    using arg_cong [OF m, of "\<lambda>l. l ! i"] that len by simp
  have each: "fst (args ! i) = xs ! i \<and> find_node fd (fst (args ! i)) = Inr (snd (args ! i))" if "i < length args" for i
  proof -
    from nth [OF that] obtain n where "find_node fd (xs ! i) = Inr n" "(xs ! i, n) = args ! i" by (auto simp: res_simps)
    then show ?thesis by (metis fst_conv snd_conv)
  qed
  have "map fst args = xs" using len each by (intro nth_equalityI) simp_all
  moreover have "\<forall>(arg, n) \<in> set args. find_node fd arg = Inr n" using each by (fastforce simp: in_set_conv_nth)
  ultimately show ?thesis ..
qed

lemma found_node: "find_node fd arg = Inr n \<Longrightarrow> (\<exists>w. arg = Word_arg w) \<or> n \<noteq> None"
  by (cases arg) (auto simp: find_node_def split: option.splits dest: sym)

text \<open>
  A task that is made runs its command in the directory of the build variant, whatever directory its generator asked for, and
  names every file by its absolute path, with the arguments in order.
\<close>

theorem output_task_run:
  assumes "apply_cmd_output fd variant_dir g = Inr t" "run_command_output t = Inr p"
  shows "out_cwd p = Some variant_dir \<and>
    out_stdin p = map_option node_abspath (task_stdin t) \<and> out_stdout p = map_option node_abspath (task_stdout t) \<and>
    out_stderr p = map_option node_abspath (task_stderr t) \<and> map fst (task_args t) = gen_argv g \<and>
    map Inr (tl (out_argv p)) = map (\<lambda>(arg, n). case arg of Word_arg w \<Rightarrow> Inr w | _ \<Rightarrow> get_path True arg (the n)) (task_args t) \<and>
    apply_cmd_output fd variant_dir (g\<lparr>gen_cwd := d\<rparr>) = Inr t"
proof -
  have cwd: "task_cwd t = Some variant_dir"
    using assms(1) by (auto simp: apply_cmd_output_def res_simps Let_def split: if_splits)
  obtain args where args: "find_args fd (gen_argv g) = Inr args" "task_args t = args"
    using assms(1) by (auto simp: apply_cmd_output_def res_simps Let_def split: if_splits)
  note found = find_args_nodes [OF args(1)]
  have path: "optional_path t n = Inr (map_option node_abspath n)" for n
    by (cases n) (simp_all add: optional_path_def stream_path_def cwd fill_plain)
  obtain cmd where av: "for_each (\<lambda>a av. res_bind (arg_text t a) (\<lambda>w. Inr (av @ [w]))) args [cmd] = Inr (out_argv p)"
    and rest: "out_cwd p = task_cwd t" "out_stdin p = map_option node_abspath (task_stdin t)"
      "out_stdout p = map_option node_abspath (task_stdout t)" "out_stderr p = map_option node_abspath (task_stderr t)"
    using assms(2) by (auto simp: run_command_output_def res_simps path args(2))
  from av obtain ys where ys: "map (arg_text t) args = map Inr ys" "out_argv p = cmd # ys"
    by (auto simp: for_each_collect)
  have "arg_text t a = (\<lambda>(arg, n). case arg of Word_arg w \<Rightarrow> Inr w | _ \<Rightarrow> get_path True arg (the n)) a" if "a \<in> set args" for a
  proof -
    obtain arg n where a: "a = (arg, n)" by (cases a)
    have "find_node fd arg = Inr n" using found that a by auto
    from found_node [OF this] show ?thesis by (cases arg) (auto simp: a arg_text_def cwd split: option.split)
  qed
  then have "map Inr ys = map (\<lambda>(arg, n). case arg of Word_arg w \<Rightarrow> Inr w | _ \<Rightarrow> get_path True arg (the n)) args"
    unfolding ys(1) [symmetric] by (intro map_cong) auto
  moreover have "apply_cmd_output fd variant_dir (g\<lparr>gen_cwd := d\<rparr>) = Inr t"
    using assms(1) by (simp add: apply_cmd_output_def find_command_def Let_def cong: if_cong option.case_cong)
  ultimately show ?thesis using rest cwd found ys(2) args(2) by simp
qed

definition sort_gen :: output_gen where
  "sort_gen = \<lparr>gen_command = Some ''sort'', command_is_external = True, gen_argv = [Word_arg ''-n'', Input_file ''a'' ''%s''],
     gen_stdin = None, gen_stdout = Some ''b'', gen_stderr = None, hidden_inputs = [], hidden_outputs = [],
     no_inputs = False, no_outputs = False, gen_cwd = None\<rparr>"

definition flat_tree :: finder where
  "flat_tree = (let n = (\<lambda>s. Some \<lparr>node_abspath = ''/t/'' @ s, node_srcpath = s, node_bldpath = s\<rparr>)
     in \<lparr>find_resource = n, find_or_declare = n, find_dir = n\<rparr>)"

theorem output_task_run_witness:
  "\<exists>t p. apply_cmd_output flat_tree ''/t'' sort_gen = Inr t \<and> run_command_output t = Inr p \<and>
     out_cwd p = Some ''/t'' \<and> out_stdout p = Some ''/t/b'' \<and> tl (out_argv p) = [''-n'', ''/t/a'']"
proof -
  let ?n = "\<lambda>s. \<lparr>node_abspath = ''/t/'' @ s, node_srcpath = s, node_bldpath = s\<rparr>"
  define t where "t = \<lparr>task_command = Inl ''sort'', task_args = [(Word_arg ''-n'', None), (Input_file ''a'' ''%s'', Some (?n ''a''))],
     task_stdin = None, task_stdout = Some (?n ''b''), task_stderr = None, task_cwd = Some ''/t'', task_in = [?n ''a''], task_out = [?n ''b'']\<rparr>"
  have t: "apply_cmd_output flat_tree ''/t'' sort_gen = Inr t"
    by (simp add: apply_cmd_output_def sort_gen_def flat_tree_def find_command_def find_args_def find_node_def find_optional_def
        find_hidden_def input_nodes_def output_nodes_def Let_def t_def)
  obtain p where p: "run_command_output t = Inr p"
    by (simp add: run_command_output_def t_def arg_text_def get_path_def fill_plain optional_path_def stream_path_def)
  from output_task_run [OF t p] t p show ?thesis
    by (auto simp: t_def get_path_def fill_plain)
qed

section \<open>What the database holds\<close>

lemma safe_not_special: "safe_char c \<Longrightarrow> \<not> is_blank c \<and> c \<noteq> QUOT \<and> c \<noteq> SQ \<and> c \<noteq> BS"
  by (auto simp: safe_char_def word_letter_def is_blank_def Let_def)

lemma lex_safe: "list_all safe_char w \<Longrightarrow> lex_words In_word tok (w @ rest) = lex_words In_word (tok @ w) rest"
  by (induction w arbitrary: tok) (auto dest: safe_not_special)

lemma lex_quote: "lex_words Between tok (shlex_quote w @ rest) = lex_words In_word w rest"
proof (cases "w \<noteq> [] \<and> list_all safe_char w")
  case True
  then obtain c v where "w = c # v" "safe_char c" "list_all safe_char v" by (cases w) auto
  with safe_not_special [of c] lex_safe [of v "[c]" rest] show ?thesis by (simp add: shlex_quote_def)
next
  case False
  have "quote_char = (\<lambda>c. if c = SQ then [SQ, QUOT, SQ, QUOT, SQ] else [c])" by (rule ext) (simp add: quote_char_def)
  with False have "shlex_quote w = quote_word w"
    by (auto simp: shlex_quote_def quote_word_def)
  then show ?thesis by (simp add: lex_quoted_word)
qed

lemma quoted_command_splits: "shlex_split (py_join '' '' (map shlex_quote ws)) = Inr ws"
proof -
  have "lex_words Between tok (py_join '' '' (map shlex_quote ws)) = Inr ws" for tok
  proof (induction ws arbitrary: tok)
    case (Cons w ws)
    show ?case
    proof (cases ws)
      case Nil
      with lex_quote [of tok w "[]"] show ?thesis by simp
    next
      case (Cons v vs)
      with lex_quote [of tok w "'' '' @ py_join '' '' (map shlex_quote ws)"] Cons.IH show ?thesis by simp
    qed
  qed simp
  then show ?thesis by (simp add: shlex_split_def)
qed

text \<open>The entries that are written one after the other: the old ones, then those of the tasks that ran.\<close>

definition written_entries :: "db_entry list option \<Rightarrow> string \<Rightarrow> compile_task list \<Rightarrow> db_entry list" where
  "written_entries old variant_dir tasks = (case old of None \<Rightarrow> [] | Some es \<Rightarrow> es) @
     concat (map (\<lambda>t. case last_cmd t of None \<Rightarrow> []
       | Some cmd \<Rightarrow> [\<lparr>db_directory = task_directory variant_dir t, db_command = py_join '' '' (map shlex_quote cmd),
           db_file = task_file variant_dir t\<rparr>]) tasks)"

lemma database_fold:
  "write_compilation_database old variant_dir tasks =
     map snd (fold (\<lambda>x. AList.update (db_file x) x) (written_entries old variant_dir tasks) [])"
proof -
  have "fold (add_task variant_dir) tasks db = fold (\<lambda>x. AList.update (db_file x) x)
      (concat (map (\<lambda>t. case last_cmd t of None \<Rightarrow> []
        | Some cmd \<Rightarrow> [\<lparr>db_directory = task_directory variant_dir t, db_command = py_join '' '' (map shlex_quote cmd),
            db_file = task_file variant_dir t\<rparr>]) tasks)) db" for db
    by (induction tasks arbitrary: db) (auto simp: add_task_def split: option.split)
  then show ?thesis by (simp add: write_compilation_database_def written_entries_def Let_def)
qed

definition store_entry :: "db_entry \<Rightarrow> (string, db_entry) dict \<Rightarrow> (string, db_entry) dict" where
  "store_entry x = AList.update (db_file x) x"

lemma store_entry_map: "map_of (store_entry x d) = (map_of d)(db_file x \<mapsto> x)"
  by (simp add: store_entry_def)

lemma store_entries:
  "distinct (map fst (fold store_entry es []))"
  "map_of (fold store_entry es []) k = Some e \<longleftrightarrow> (\<exists>xs ys. es = xs @ e # ys \<and> db_file e = k \<and> k \<notin> db_file ` set ys)"
proof -
  show "distinct (map fst (fold store_entry es []))"
    by (induction es rule: rev_induct) (simp_all add: store_entry_def distinct_update)
  show "map_of (fold store_entry es []) k = Some e \<longleftrightarrow> (\<exists>xs ys. es = xs @ e # ys \<and> db_file e = k \<and> k \<notin> db_file ` set ys)"
  proof (induction es rule: rev_induct)
    case (snoc x es)
    have split: "(\<exists>xs ys. es @ [x] = xs @ e # ys \<and> P ys) \<longleftrightarrow> (e = x \<and> P []) \<or> (\<exists>xs ys. es = xs @ e # ys \<and> P (ys @ [x]))" for P
    proof
      assume "\<exists>xs ys. es @ [x] = xs @ e # ys \<and> P ys"
      then obtain xs ys where "es @ [x] = xs @ e # ys" "P ys" by blast
      then show "(e = x \<and> P []) \<or> (\<exists>xs ys. es = xs @ e # ys \<and> P (ys @ [x]))"
        by (cases ys rule: rev_cases) auto
    next
      assume "(e = x \<and> P []) \<or> (\<exists>xs ys. es = xs @ e # ys \<and> P (ys @ [x]))"
      then show "\<exists>xs ys. es @ [x] = xs @ e # ys \<and> P ys"
      proof
        assume "\<exists>xs ys. es = xs @ e # ys \<and> P (ys @ [x])"
        then obtain xs ys where "es @ [x] = xs @ e # (ys @ [x])" "P (ys @ [x])" by auto
        then show ?thesis by blast
      qed auto
    qed
    show ?case
      unfolding split [of "\<lambda>ys. db_file e = k \<and> k \<notin> db_file ` set ys"]
      by (cases "k = db_file x") (auto simp: store_entry_map snoc)
  qed simp
qed

text \<open>
  The database written has one entry for every file: the last one made for it, by a task that ran or else from the old
  database; and the command of a task's entry splits into the words that were run.
\<close>

theorem database_entries:
  "distinct (map db_file (write_compilation_database old variant_dir tasks)) \<and>
   (e \<in> set (write_compilation_database old variant_dir tasks) \<longleftrightarrow>
      (\<exists>xs ys. written_entries old variant_dir tasks = xs @ e # ys \<and> db_file e \<notin> db_file ` set ys)) \<and>
   shlex_split (py_join '' '' (map shlex_quote cmd)) = Inr cmd"
proof -
  let ?es = "written_entries old variant_dir tasks"
  let ?db = "fold store_entry ?es []"
  have db: "write_compilation_database old variant_dir tasks = map snd ?db"
    unfolding database_fold store_entry_def ..
  note d = store_entries(1) [of ?es]
  have key: "k = db_file x" if "(k, x) \<in> set ?db" for k x
    using map_of_is_SomeI [OF d that] store_entries(2) [of ?es k x] by blast
  have keys: "map db_file (map snd ?db) = map fst ?db" using key by auto
  have "distinct (map db_file (map snd ?db))" unfolding keys by (rule d)
  moreover have "e \<in> set (map snd ?db) \<longleftrightarrow> map_of ?db (db_file e) = Some e"
  proof
    assume "e \<in> set (map snd ?db)"
    then obtain k where "(k, e) \<in> set ?db" by auto
    with key [OF this] show "map_of ?db (db_file e) = Some e" using map_of_is_SomeI [OF d] by blast
  next
    assume "map_of ?db (db_file e) = Some e"
    from map_of_SomeD [OF this] show "e \<in> set (map snd ?db)" by force
  qed
  ultimately show ?thesis
    unfolding db store_entries(2) [of ?es "db_file e" e] by (simp only: quoted_command_splits simp_thms)
qed

end
