(* ===== verification/Bind_Types.thy ===== *)
theory Bind_Types
  imports Py_Prelude
begin

text \<open>
  Smart pointers in the bindings: the \<^verbatim>\<open>SmartPointerTransformation\<close> of \<^verbatim>\<open>ns3modulegen_core_customizations.py\<close>, by which
  pybindgen treats \<^verbatim>\<open>Ptr<Foo>\<close> as a pointer to \<^verbatim>\<open>Foo\<close> that shares ownership.
\<close>

section \<open>Names of pointer types\<close>

text \<open>
  The regular expression \<^verbatim>\<open>(ns3::|::ns3::|)Ptr<([^>]+)>\s*$\<close>, matched at the beginning of a name: the part in angle brackets.
\<close>

definition ptr_match :: "string \<Rightarrow> string option" where
  "ptr_match name =
     (let rest = (if prefix ''ns3::'' name then drop 5 name else if prefix ''::ns3::'' name then drop 7 name else name);
          s = drop 4 rest; inner = takeWhile (\<lambda>c. c \<noteq> CHR ''>'') s
      in if prefix ''Ptr<'' rest \<and> inner \<noteq> [] then
           (case dropWhile (\<lambda>c. c \<noteq> CHR ''>'') s of
              [] \<Rightarrow> None
            | _ # tail \<Rightarrow> if list_all is_space tail then Some inner else None)
         else None)"

definition cut_prefix :: "string \<Rightarrow> string \<Rightarrow> bool \<times> string" where
  "cut_prefix p s = (if prefix p s then (True, drop (length p) s) else (False, s))"

definition cut_suffix :: "string \<Rightarrow> string \<Rightarrow> bool \<times> string" where
  "cut_suffix p s = (if suffix p s then (True, take (length s - length p) s) else (False, s))"

definition get_untransformed_type_traits :: "string \<Rightarrow> string option \<times> bool" where
  "get_untransformed_type_traits name =
     (case ptr_match name of
        None \<Rightarrow> (None, False)
      | Some inside \<Rightarrow>
          let (c1, n1) = cut_prefix ''const '' (py_strip inside); (c2, n2) = cut_suffix '' const'' n1
          in (Some (snd (cut_prefix ''::'' (n2 @ '' *''))), c1 \<or> c2))"

definition get_untransformed_name :: "string \<Rightarrow> string option" where
  "get_untransformed_name name = fst (get_untransformed_type_traits name)"

text \<open>
  Creating the handler of a pointer type: which handler class is called with which arguments, and the type its transformation is
  set to.  \<^verbatim>\<open>None[:-2]\<close> raises.
\<close>

datatype handler_class = Parameter_class | Return_class | Other_class

record type_handler =
  handler_kind :: handler_class
  handler_args :: "string list"
  handler_kwargs :: "(string, string) dict"
  untransformed_ctype :: string

definition correct_ctype :: "string \<Rightarrow> bool \<Rightarrow> string" where
  "correct_ctype orig is_const =
     ''ns3::Ptr< '' @ slice_to orig (- 2) @ (if is_const then '' const >'' else '' >'')"

definition create_type_handler ::
    "handler_class \<Rightarrow> string list \<Rightarrow> (string, string) dict \<Rightarrow> type_handler result" where
  "create_type_handler c args kwargs =
     (if c = Other_class then Inl AssertionError
      else
        let kwargs = AList.update (if c = Parameter_class then ''transfer_ownership'' else ''caller_owns_return'') ''False'' kwargs in
        (case args of
           [] \<Rightarrow> Inl IndexError
         | name # rest \<Rightarrow>
             (case get_untransformed_type_traits name of
                (None, _) \<Rightarrow> Inl TypeError
              | (Some orig, is_const) \<Rightarrow>
                  Inr \<lparr>handler_kind = c, handler_args = correct_ctype orig is_const # rest, handler_kwargs = kwargs,
                       untransformed_ctype = orig\<rparr>)))"

text \<open>The expressions that convert between a pointer and a smart pointer.\<close>

definition untransform :: "type_handler \<Rightarrow> string \<Rightarrow> string" where
  "untransform h expression =
     ''const_cast<'' @ untransformed_ctype h @ ''> (ns3::PeekPointer ('' @ expression @ ''))''"

definition transform :: "type_handler \<Rightarrow> string \<Rightarrow> string result" where
  "transform h expression =
     res_bind (py_nth (untransformed_ctype h) (- 1)) (\<lambda>c.
       if c \<noteq> CHR ''*'' then Inl AssertionError
       else Inr (''ns3::Ptr< '' @ slice_to (untransformed_ctype h) (- 1) @ ''> ('' @ expression @ '')''))"

section \<open>The spellings of a pointer type\<close>

text \<open>
  A class name without template brackets, and the ways to write a pointer to it: qualified or not, spaces inside and behind, \<^verbatim>\<open>const\<close>
  before or after.
\<close>

definition plain_class :: "string \<Rightarrow> bool" where
  "plain_class c \<longleftrightarrow> c \<noteq> [] \<and> CHR ''>'' \<notin> set c \<and> \<not> is_space (hd c) \<and> \<not> is_space (last c) \<and>
     \<not> prefix ''const '' c \<and> c \<noteq> ''const'' \<and> \<not> suffix '' const'' c \<and>
     \<not> prefix ''::'' c"

datatype const_mark = No_const | Const_before | Const_after

fun marked :: "const_mark \<Rightarrow> string \<Rightarrow> string" where
  "marked No_const c = c"
| "marked Const_before c = ''const '' @ c"
| "marked Const_after c = c @ '' const''"

definition spelling :: "string \<Rightarrow> string \<Rightarrow> string \<Rightarrow> string \<Rightarrow> string" where
  "spelling qualifier before inner after = qualifier @ ''Ptr<'' @ before @ inner @ after @ ''>''"

lemma ptr_match_spelling:
  assumes "q \<in> {[], ''ns3::'', ''::ns3::''}" "CHR ''>'' \<notin> set inner" "inner \<noteq> []"
    and "list_all is_space tail"
  shows "ptr_match (q @ ''Ptr<'' @ inner @ CHR ''>'' # tail) = Some inner"
proof -
  have "takeWhile (\<lambda>c. c \<noteq> CHR ''>'') (inner @ CHR ''>'' # tail) = inner"
      "dropWhile (\<lambda>c. c \<noteq> CHR ''>'') (inner @ CHR ''>'' # tail) = CHR ''>'' # tail"
    using assms(2) by (simp_all add: takeWhile_append dropWhile_append takeWhile_eq_all_conv)
  then show ?thesis using assms by (auto simp: ptr_match_def Let_def)
qed

lemma strip_spaces:
  assumes "inner \<noteq> []" "\<not> is_space (hd inner)" "\<not> is_space (last inner)" "list_all is_space a" "list_all is_space b"
  shows "py_strip (a @ inner @ b) = inner"
proof -
  have "dropWhile is_space (a @ inner @ b) = inner @ b"
    using assms(1,2,4) by (cases inner) (simp_all add: dropWhile_append list_all_iff)
  moreover have "dropWhile is_space (rev b @ rev inner) = rev inner"
    using assms(1,3,5) by (cases inner rule: rev_cases) (simp_all add: dropWhile_append list_all_iff)
  ultimately show ?thesis by (simp add: py_strip_def)
qed

lemma suffix_qualified:
  assumes "\<not> suffix (x # p) c" "x \<notin> set g"
  shows "\<not> suffix (x # p) (g @ c)"
proof
  assume "suffix (x # p) (g @ c)"
  with assms(1) obtain g' where g': "x # p = g' @ c" "suffix g' g" by (auto simp: suffix_append)
  with assms(1) have "g' \<noteq> []" by auto
  with g'(1) have "x \<in> set g'" by (cases g') auto
  with g'(2) assms(2) show False by (auto dest: set_mono_suffix)
qed

lemma prefix_before_const:
  assumes "\<not> prefix ''const '' c" "c \<noteq> ''const''" "c \<noteq> []"
  shows "\<not> prefix ''const '' (c @ '' const'')"
proof (cases "6 \<le> length c")
  case True
  then show ?thesis
    using assms(1) by (metis prefix_length_prefix prefixI length_Cons list.size(3) eval_nat_numeral(2,3) semiring_norm(26-28) numeral_1_eq_Suc_0 One_nat_def)
next
  case False
  show ?thesis
  proof
    assume p: "prefix ''const '' (c @ '' const'')"
    then obtain zs where "c @ '' const'' = ''const '' @ zs" unfolding prefix_def by blast
    then have "c = take (length c) (''const '' @ zs)" by (metis append_eq_conv_conj)
    then have "c = take (length c) ''const ''"
      using False unfolding take_append by (simp del: take_Cons_numeral)
    moreover have "0 < length c" using assms(3) by simp
    then have "length c = 1 \<or> length c = 2 \<or> length c = 3 \<or> length c = 4 \<or> length c = 5" using False by linarith
    ultimately have "c \<in> {''c'', ''co'', ''con'', ''cons'', ''const''}" by auto
    with p assms(2) show False by auto
  qed
qed

lemma traits_marked:
  assumes "plain_class c" "g \<in> {[], ''::''}" "py_strip inside = marked k (g @ c)" "ptr_match name = Some inside"
  shows "get_untransformed_type_traits name = (Some (c @ '' *''), k \<noteq> No_const)"
proof -
  have c: "c \<noteq> []" "\<not> prefix ''const '' c" "c \<noteq> ''const''" "\<not> suffix '' const'' c" "\<not> prefix ''::'' c"
    using assms(1) by (simp_all add: plain_class_def)
  have suf: "\<not> suffix '' const'' (g @ c)" using assms(2) by (intro suffix_qualified [OF c(4)]) auto
  have pre: "\<not> prefix ''const '' (g @ c)" using assms(2) c(2) by auto
  have pre_after: "\<not> prefix ''const '' (g @ c @ '' const'')"
    using assms(2) prefix_before_const [OF c(2,3,1)] by auto
  have colons: "cut_prefix ''::'' (g @ c @ '' *'') = (g \<noteq> [], c @ '' *'')"
    using assms(2) c(1,5) by (cases c; cases "tl c") (auto simp: cut_prefix_def)
  show ?thesis
  proof (cases k)
    case No_const
    then show ?thesis
      using assms(3,4) suf pre colons
      by (simp add: get_untransformed_type_traits_def cut_prefix_def [of "''const ''"] cut_suffix_def)
  next
    case Const_before
    then show ?thesis
      using assms(3,4) suf colons
      by (simp add: get_untransformed_type_traits_def cut_prefix_def [of "''const ''"] cut_suffix_def)
  next
    case Const_after
    have "cut_suffix '' const'' (g @ c @ '' const'') = (True, g @ c)"
      by (simp add: cut_suffix_def suffix_def)
    with Const_after show ?thesis
      using assms(3,4) pre_after colons
      by (simp add: get_untransformed_type_traits_def cut_prefix_def [of "''const ''"])
  qed
qed

lemma not_space_angle: "list_all is_space x \<Longrightarrow> CHR ''>'' \<notin> set x"
  by (induction x) (auto simp: is_space_def)

lemma hd_last_marked:
  assumes "plain_class c" "g \<in> {[], ''::''}"
  shows "marked k (g @ c) \<noteq> []" "\<not> is_space (hd (marked k (g @ c)))" "\<not> is_space (last (marked k (g @ c)))"
    "CHR ''>'' \<notin> set (marked k (g @ c))"
  using assms by (cases k; auto simp: plain_class_def is_space_def)+

text \<open>C39. 
  However a pointer to a class is spelled, its type is the class's pointer; and the type the handler is then created with is always
  the same, qualified and with \<^verbatim>\<open>const\<close> behind, which is spelled so that it is recognised again.
\<close>

theorem smart_pointer_spellings:
  assumes "plain_class c" "q \<in> {[], ''ns3::'', ''::ns3::''}" "g \<in> {[], ''::''}" "list_all is_space before"
    and "list_all is_space after" "list_all is_space tail"
    and "name = q @ ''Ptr<'' @ before @ marked k (g @ c) @ after @ CHR ''>'' # tail"
  shows "get_untransformed_type_traits name = (Some (c @ '' *''), k \<noteq> No_const) \<and>
    (\<exists>h. create_type_handler Parameter_class (name # rest) kwargs = Inr h \<and>
       handler_args h = (''ns3::Ptr< '' @ c @ (if k = No_const then '' >'' else '' const >'')) # rest \<and>
       untransformed_ctype h = c @ '' *'' \<and>
       map_of (handler_kwargs h) ''transfer_ownership'' = Some ''False'' \<and>
       get_untransformed_type_traits (hd (handler_args h)) = (Some (c @ '' *''), k \<noteq> No_const))"
proof -
  have traits: "get_untransformed_type_traits (q @ ''Ptr<'' @ a @ marked m (g' @ c) @ b @ CHR ''>'' # t) =
      (Some (c @ '' *''), m \<noteq> No_const)"
    if "q \<in> {[], ''ns3::'', ''::ns3::''}" "g' \<in> {[], ''::''}" "list_all is_space a" "list_all is_space b" "list_all is_space t"
    for q g' a b t m
  proof (rule traits_marked [OF assms(1) that(2)])
    note m = hd_last_marked [OF assms(1) that(2), of m]
    show "py_strip (a @ marked m (g' @ c) @ b) = marked m (g' @ c)" by (rule strip_spaces [OF m(1-3) that(3,4)])
    have angle: "CHR ''>'' \<notin> set (a @ marked m (g' @ c) @ b)" using m(4) that(3,4) by (simp add: not_space_angle)
    have "a @ marked m (g' @ c) @ b \<noteq> []" using m(1) by simp
    from ptr_match_spelling [OF that(1) angle this that(5)]
    show "ptr_match (q @ ''Ptr<'' @ a @ marked m (g' @ c) @ b @ CHR ''>'' # t) = Some (a @ marked m (g' @ c) @ b)"
      by (simp only: append.assoc)
  qed
  have "py_clip (c @ '' *'') (- 2) = length c" by (simp add: py_clip_def)
  then have ctype: "correct_ctype (c @ '' *'') b = ''ns3::Ptr< '' @ c @ (if b then '' const >'' else '' >'')" for b
    by (simp add: correct_ctype_def slice_to_def)
  have "get_untransformed_type_traits (''ns3::Ptr< '' @ c @ (if k = No_const then '' >'' else '' const >'')) =
      (Some (c @ '' *''), k \<noteq> No_const)"
    using traits [of "''ns3::''" "[]" "'' ''" "'' ''" "[]" No_const] traits [of "''ns3::''" "[]" "'' ''" "'' ''" "[]" Const_after]
    by (cases "k = No_const") (simp_all add: is_space_def)
  then show ?thesis
    using traits [OF assms(2-6), of k] assms(7) ctype
    by (cases "k = No_const") (simp_all add: create_type_handler_def)
qed

theorem smart_pointer_spellings_witness:
  "get_untransformed_name ''::ns3::Ptr<const ns3::Packet> '' = Some ''ns3::Packet *''"
  using smart_pointer_spellings [of "''ns3::Packet''" "''::ns3::''" "[]" "[]" "[]" "'' ''" "''::ns3::Ptr<const ns3::Packet> ''" Const_before "[]" "[]"]
  by (simp add: get_untransformed_name_def plain_class_def is_space_def suffix_def)


text \<open>A handler that was created converts every expression: its type always ends in a star.\<close>

lemma cut_colons_star: "\<exists>n. snd (cut_prefix ''::'' (n2 @ '' *'')) = n @ '' *''"
proof (cases "prefix ''::'' (n2 @ '' *'')")
  case True
  then have "prefix ''::'' n2"
    by (cases n2; cases "tl n2") auto
  then show ?thesis using True by (auto simp: cut_prefix_def prefix_def)
qed (auto simp: cut_prefix_def)

theorem created_handler_transforms:
  assumes "create_type_handler c args kwargs = Inr h"
  shows "transform h expression = Inr (''ns3::Ptr< '' @ slice_to (untransformed_ctype h) (- 1) @ ''> ('' @ expression @ '')'')"
proof -
  from assms obtain name b where "get_untransformed_type_traits name = (Some (untransformed_ctype h), b)"
    by (auto simp: create_type_handler_def Let_def split: if_splits list.splits prod.splits option.splits)
  then have "\<exists>n2. snd (cut_prefix ''::'' (n2 @ '' *'')) = untransformed_ctype h"
    unfolding get_untransformed_type_traits_def Let_def by (auto split: option.splits prod.splits)
  then obtain n where "untransformed_ctype h = n @ '' *''" using cut_colons_star by metis
  then show ?thesis by (simp add: transform_def)
qed

theorem created_handler_transforms_witness:
  "\<exists>h. create_type_handler Return_class [''Ptr<Node>''] [] = Inr h \<and> transform h ''x'' = Inr ''ns3::Ptr< Node > (x)''"
proof -
  have "ptr_match ''Ptr<Node>'' = Some ''Node''" by (simp add: ptr_match_def)
  moreover have "py_strip ''Node'' = ''Node''" using strip_spaces [of "''Node''" "[]" "[]"] by (simp add: is_space_def)
  ultimately have "get_untransformed_type_traits ''Ptr<Node>'' = (Some ''Node *'', False)"
    by (simp add: get_untransformed_type_traits_def cut_prefix_def cut_suffix_def suffix_def)
  then obtain h where h: "create_type_handler Return_class [''Ptr<Node>''] [] = Inr h" "untransformed_ctype h = ''Node *''"
    by (simp add: create_type_handler_def)
  show ?thesis
    using created_handler_transforms [OF h(1), of "''x''"] h by (simp add: slice_to_def py_clip_def)
qed

end
