(* ===== verification/Bind_Paths.thy ===== *)
theory Bind_Paths
  imports Py_Prelude
begin

text \<open>
  How the scanner of the Python bindings finds the name of an ns-3 header in a path: \<^verbatim>\<open>get_ns3_relative_path\<close> of
  \<^verbatim>\<open>ns3modulescan-modular.py\<close>, and the older one of \<^verbatim>\<open>ns3modulescan.py\<close>.
\<close>

section \<open>Paths of headers\<close>

text \<open>\<^verbatim>\<open>os.path.split\<close> and \<^verbatim>\<open>os.path.join(*l)\<close> on POSIX.\<close>

definition path_split :: "string \<Rightarrow> string \<times> string" where
  "path_split p =
     (let tail = basename p; head = take (length p - length tail) p
      in (if list_all (\<lambda>c. c = SLASH) head then head else rev (dropWhile (\<lambda>c. c = SLASH) (rev head)), tail))"

definition join_all :: "string list \<Rightarrow> string result" where
  "join_all l = (case l of [] \<Rightarrow> Inl TypeError | p # ps \<Rightarrow> Inr (foldl path_join p ps))"

lemma path_split_head: "\<exists>s. p = fst (path_split p) @ s"
proof -
  have "\<exists>s. h = rev (dropWhile (\<lambda>c. c = SLASH) (rev h)) @ s" for h :: string
    by (metis rev_append rev_rev_ident takeWhile_dropWhile_id)
  then show ?thesis
    unfolding path_split_def Let_def
    by (cases "list_all (\<lambda>c. c = SLASH) (take (length p - length (basename p)) p)")
      (auto, metis append_take_drop_id, metis append.assoc append_take_drop_id)
qed

lemma path_split_shorter: "fst (path_split p) \<noteq> p \<Longrightarrow> length (fst (path_split p)) < length p"
  using path_split_head [of p] by (metis append_Nil2 length_append less_add_same_cancel1 length_greater_0_conv)

text \<open>
  The loop of \<^verbatim>\<open>get_ns3_relative_path\<close>, from the current head and the components found so far: as it is now, and as it was in
  \<^verbatim>\<open>ns3modulescan.py\<close>, without the test that ends it at the root.
\<close>

function relative_loop :: "string \<Rightarrow> string list \<Rightarrow> string result" where
  "relative_loop head l =
     (if head = [] then Inl AssertionError
      else let (new_head, tail) = path_split head in
        if new_head = head then Inl ValueError
        else if tail = ''ns3'' then join_all l
        else relative_loop new_head (tail # l))"
  by pat_completeness auto
termination
  by (relation "measure (\<lambda>(head, l). length head)") (simp, metis fst_conv in_measure path_split_shorter case_prod_conv)

declare relative_loop.simps [simp del]

definition get_ns3_relative_path :: "string \<Rightarrow> string option result" where
  "get_ns3_relative_path path = (if path = [] then Inr None else res_bind (relative_loop path []) (\<lambda>p. Inr (Some p)))"

partial_function (option) old_relative_loop :: "string \<Rightarrow> string list \<Rightarrow> string result option" where
  "old_relative_loop head l =
     (if head = [] then Some (Inl AssertionError)
      else let (new_head, tail) = path_split head in
        if tail = ''ns3'' then Some (join_all l)
        else old_relative_loop new_head (tail # l))"

definition old_ns3_relative_path :: "string \<Rightarrow> string result option" where
  "old_ns3_relative_path path = old_relative_loop path []"


subsection \<open>Where a header lies\<close>

text \<open>An absolute path of proper components, and the components behind the last \<^verbatim>\<open>ns3\<close>.\<close>

definition components :: "string list \<Rightarrow> bool" where
  "components ps \<longleftrightarrow> (\<forall>p \<in> set ps. p \<noteq> [] \<and> SLASH \<notin> set p)"

definition abs_path :: "string list \<Rightarrow> string" where
  "abs_path ps = concat (map (\<lambda>p. SLASH # p) ps)"

definition below_ns3 :: "string list \<Rightarrow> string list" where
  "below_ns3 ps = rev (takeWhile (\<lambda>p. p \<noteq> ''ns3'') (rev ps))"

lemma abs_path_simps [simp]: "abs_path [] = []" "abs_path (ps @ [p]) = abs_path ps @ SLASH # p" "abs_path ps = [] \<longleftrightarrow> ps = []"
  by (simp_all add: abs_path_def)

lemma components_snoc [simp]: "components (ps @ [p]) \<longleftrightarrow> components ps \<and> p \<noteq> [] \<and> SLASH \<notin> set p"
  by (auto simp: components_def)

lemma below_ns3_snoc: "below_ns3 (ps @ [p]) = (if p = ''ns3'' then [] else below_ns3 ps @ [p])"
  by (simp add: below_ns3_def)

lemma basename_below [simp]: "SLASH \<notin> set p \<Longrightarrow> basename (h @ SLASH # p) = p"
  by (simp add: basename_def takeWhile_append takeWhile_eq_all_conv)

lemma path_split_at:
  assumes "SLASH \<notin> set p"
  shows "path_split (h @ SLASH # p) =
    (if list_all (\<lambda>c. c = SLASH) h then h @ [SLASH] else rev (dropWhile (\<lambda>c. c = SLASH) (rev h)), p)"
  using assms by (simp add: path_split_def)

lemma path_split_below:
  assumes "components ps" "SLASH \<notin> set p"
  shows "path_split (abs_path ps @ SLASH # p) = (if ps = [] then [SLASH] else abs_path ps, p)"
proof (cases ps rule: rev_cases)
  case Nil
  then show ?thesis using assms(2) path_split_at [of p "[]"] by simp
next
  case (snoc qs q)
  with assms(1) have q: "q \<noteq> []" "SLASH \<notin> set q" by simp_all
  then have "last q \<noteq> SLASH" by (metis last_in_set)
  then have "dropWhile (\<lambda>c. c = SLASH) (rev q @ cs) = rev q @ cs" for cs
    using q(1) by (cases q rule: rev_cases) simp_all
  moreover have "\<not> list_all (\<lambda>c. c = SLASH) (abs_path ps)"
    using snoc q by (cases q) auto
  ultimately show ?thesis
    using snoc by (simp only: path_split_at [OF assms(2)]) simp
qed

lemma relative_loop_root: "relative_loop [SLASH] l = Inl ValueError"
  by (simp add: relative_loop.simps path_split_def basename_def)

lemma relative_loop_abs:
  assumes "components ps" "ps \<noteq> []"
  shows "relative_loop (abs_path ps) l = (if ''ns3'' \<in> set ps then join_all (below_ns3 ps @ l) else Inl ValueError)"
  using assms
proof (induction ps arbitrary: l rule: rev_induct)
  case (snoc p ps)
  then have split: "path_split (abs_path (ps @ [p])) = (if ps = [] then [SLASH] else abs_path ps, p)"
    by (simp add: path_split_below)
  have "(if ps = [] then [SLASH] else abs_path ps) \<noteq> abs_path (ps @ [p])"
    using snoc.prems(1) by auto
  with split snoc show ?case
    by (subst relative_loop.simps) (auto simp: relative_loop_root below_ns3_snoc)
qed simp

lemma foldl_path_join: "components ps \<Longrightarrow> p \<noteq> [] \<Longrightarrow> last p \<noteq> SLASH \<Longrightarrow> foldl path_join p ps = py_join [SLASH] (p # ps)"
proof (induction ps arbitrary: p)
  case (Cons q ps)
  then have q: "q \<noteq> []" "SLASH \<notin> set q" "components ps" by (auto simp: components_def)
  then have "last (p @ SLASH # q) \<noteq> SLASH" by (metis last_ConsR last_appendR last_in_set list.distinct(1))
  moreover have "path_join p q = p @ SLASH # q" using q Cons.prems by (cases q) (auto simp: path_join_def)
  ultimately show ?case using Cons.IH [of "p @ SLASH # q"] q by (cases ps) simp_all
qed simp

lemma join_components:
  assumes "components ps" "ps \<noteq> []"
  shows "join_all ps = Inr (py_join [SLASH] ps)"
proof (cases ps)
  case (Cons p qs)
  with assms have p: "components qs" "p \<noteq> []" "SLASH \<notin> set p" by (auto simp: components_def)
  then have "last p \<noteq> SLASH" by (metis last_in_set)
  with p(1,2) have "foldl path_join p qs = py_join [SLASH] (p # qs)" by (intro foldl_path_join)
  with Cons show ?thesis by (simp add: join_all_def)
qed (use assms in simp)

lemma components_below: "components ps \<Longrightarrow> components (below_ns3 ps)"
  by (auto simp: components_def below_ns3_def dest!: set_takeWhileD)

text \<open>The name of a header is what lies below the last \<^verbatim>\<open>ns3\<close> of its path, and a header without one is not of ns-3.\<close>

theorem header_path:
  assumes "components ps" "ps \<noteq> []"
  shows "get_ns3_relative_path (abs_path ps) =
    (if ''ns3'' \<notin> set ps then Inl ValueError
     else if below_ns3 ps = [] then Inl TypeError
     else Inr (Some (py_join [SLASH] (below_ns3 ps))))"
  using assms relative_loop_abs [OF assms, of "[]"] join_components [OF components_below [OF assms(1)]]
  by (auto simp: get_ns3_relative_path_def join_all_def)

theorem header_path_witness:
  "get_ns3_relative_path ''/ns-3/build/ns3/csma/csma.h'' = Inr (Some ''csma/csma.h'') \<and>
   get_ns3_relative_path ''/usr/include/x.h'' = Inl ValueError"
  using header_path [of "[''ns-3'', ''build'', ''ns3'', ''csma'', ''csma.h'']"] header_path [of "[''usr'', ''include'', ''x.h'']"]
  by (simp add: components_def abs_path_def below_ns3_def)

subsection \<open>The test that was missing\<close>

lemma fixed_point_tail: "fst (path_split p) = p \<Longrightarrow> snd (path_split p) = []"
proof -
  assume fixed: "fst (path_split p) = p"
  have "length (fst (path_split p)) \<le> length p - length (basename p)"
    unfolding path_split_def Let_def by (auto intro: order_trans [OF length_dropWhile_le])
  with fixed have "basename p = [] \<or> p = []" by (cases "basename p") (cases p; auto)+
  then show ?thesis by (auto simp: path_split_def Let_def basename_def)
qed

lemma old_loop_stuck:
  assumes "fst (path_split head) = head" "head \<noteq> []"
  shows "old_relative_loop head l = None"
proof -
  have "fst (path_split h) = h \<longrightarrow> h = []" if "old_relative_loop h l = Some r" for h l r
  proof (rule old_relative_loop.raw_induct [of "\<lambda>h l r. fst (path_split h) = h \<longrightarrow> h = []", OF _ that])
    fix loop and h :: string and l :: "string list" and r :: "string result"
    assume "\<And>h l r. loop h l = Some r \<Longrightarrow> fst (path_split h) = h \<longrightarrow> h = []"
      and "(if h = [] then Some (Inl AssertionError)
            else let (new_head, tail) = path_split h in
              if tail = ''ns3'' then Some (join_all l) else loop new_head (tail # l)) = Some r"
    then show "fst (path_split h) = h \<longrightarrow> h = []"
      using fixed_point_tail [of h] by (auto split: if_splits prod.splits)
  qed
  with assms show ?thesis by fastforce
qed

lemma join_all_errors: "join_all l \<noteq> Inl ValueError"
  by (simp add: join_all_def split: list.split)

lemma old_loop_new:
  "old_relative_loop head l = (if relative_loop head l = Inl ValueError then None else Some (relative_loop head l))"
proof (induction head l rule: relative_loop.induct)
  case (1 head l)
  show ?case
  proof (cases "head = [] \<or> fst (path_split head) = head")
    case True
    then show ?thesis
      by (cases "head = []") (auto simp: old_loop_stuck relative_loop.simps [of head] relative_loop.simps [of "[]"]
          old_relative_loop.simps [of "[]"] split: prod.split)
  next
    case False
    with 1 show ?thesis
      by (subst old_relative_loop.simps, subst (1 2) relative_loop.simps)
        (auto simp: join_all_errors split: prod.split)
  qed
qed

text \<open>C40. 
  The path function of \<^verbatim>\<open>ns3modulescan.py\<close> gives what the present one gives, except that where this one finds that a header is
  not of ns-3, it never returns; and an empty path has no component \<^verbatim>\<open>ns3\<close> for it.
\<close>

theorem old_path_never_returns:
  "old_ns3_relative_path path =
     (case get_ns3_relative_path path of
        Inl ValueError \<Rightarrow> None
      | Inl e \<Rightarrow> Some (Inl e)
      | Inr None \<Rightarrow> Some (Inl AssertionError)
      | Inr (Some p) \<Rightarrow> Some (Inr p))"
proof (cases "path = []")
  case True
  then show ?thesis
    by (simp add: old_ns3_relative_path_def get_ns3_relative_path_def old_relative_loop.simps [of "[]"])
next
  case False
  then show ?thesis
    by (cases "relative_loop path []")
      (auto simp: old_ns3_relative_path_def get_ns3_relative_path_def old_loop_new split: py_error.split)
qed

end
