(* ===== verification/Bind_Scan.thy ===== *)
theory Bind_Scan
  imports Bind_Paths
begin

text \<open>
  The scanner of the Python bindings, \<^verbatim>\<open>ns3modulescan-modular.py\<close>: the hook that is asked for every declaration pygccxml finds
  and answers with the annotations by which pybindgen wraps it, the table of annotations it takes from
  \<^verbatim>\<open>ns3modulescan.py\<close>, the list of callback classes and the files of a scan.  Declarations are records of what the hook
  asks of them; what pygccxml knows of templates and of the places of other declarations is an argument.
\<close>

section \<open>Annotations\<close>

text \<open>Values of annotations; only the annotations of parameters are nested.\<close>

type_synonym param_annotations = "(string, (string, string) dict) dict"

datatype annotation = None_value | True_value | Text_value string | Params param_annotations

type_synonym annotations = "(string, annotation) dict"

definition dict_update :: "('k, 'v) dict \<Rightarrow> ('k, 'v) dict \<Rightarrow> ('k, 'v) dict" where
  "dict_update d e = foldl (\<lambda>d (k, v). AList.update k v d) d e"

definition type_annotations :: "(string, annotations) dict" where
  "type_annotations = [
     (''::ns3::AttributeChecker'',
        [(''automatic_type_narrowing'', Text_value ''true''), (''allow_subclassing'', Text_value ''false'')]),
     (''::ns3::AttributeValue'',
        [(''automatic_type_narrowing'', Text_value ''true''), (''allow_subclassing'', Text_value ''false'')]),
     (''::ns3::CommandLine'',
        [(''allow_subclassing'', Text_value ''true'')]),
     (''::ns3::NscTcpL4Protocol'',
        [(''ignore'', Text_value ''true'')]),
     (''ns3::RandomVariable::RandomVariable(ns3::RandomVariableBase const & variable) [constructor]'',
        [(''ignore'', None_value)]),
     (''ns3::RandomVariableBase * ns3::RandomVariable::Peek() const [member function]'',
        [(''ignore'', None_value)]),
     (''void ns3::RandomVariable::GetSeed(uint32_t * seed) const [member function]'',
        [(''params'', Params [(''seed'', [(''direction'', ''out''), (''array_length'', ''6'')])])]),
     (''bool ns3::TypeId::LookupAttributeByName(std::string name, ns3::TypeId::AttributeInformation * info) const [member function]'',
        [(''params'', Params [(''info'', [(''transfer_ownership'', ''false'')])])]),
     (''static bool ns3::TypeId::LookupByNameFailSafe(std::string name, ns3::TypeId * tid) [member function]'',
        [(''ignore'', None_value)]),
     (''bool ns3::TraceSourceAccessor::ConnectWithoutContext(ns3::ObjectBase * obj, ns3::CallbackBase const & cb) const [member function]'',
        [(''params'', Params [(''obj'', [(''transfer_ownership'', ''false'')])])]),
     (''bool ns3::TraceSourceAccessor::Connect(ns3::ObjectBase * obj, std::string context, ns3::CallbackBase const & cb) const [member function]'',
        [(''params'', Params [(''obj'', [(''transfer_ownership'', ''false'')])])]),
     (''bool ns3::TraceSourceAccessor::DisconnectWithoutContext(ns3::ObjectBase * obj, ns3::CallbackBase const & cb) const [member function]'',
        [(''params'', Params [(''obj'', [(''transfer_ownership'', ''false'')])])]),
     (''bool ns3::TraceSourceAccessor::Disconnect(ns3::ObjectBase * obj, std::string context, ns3::CallbackBase const & cb) const [member function]'',
        [(''params'', Params [(''obj'', [(''transfer_ownership'', ''false'')])])]),
     (''bool ns3::AttributeAccessor::Set(ns3::ObjectBase * object, ns3::AttributeValue const & value) const [member function]'',
        [(''params'', Params [(''object'', [(''transfer_ownership'', ''false'')])])]),
     (''ns3::EmpiricalVariable::EmpiricalVariable(ns3::RandomVariableBase const & variable) [constructor]'',
        [(''ignore'', None_value)]),
     (''static ns3::AttributeList * ns3::AttributeList::GetGlobal() [member function]'',
        [(''caller_owns_return'', Text_value ''false'')]),
     (''void ns3::CommandLine::Parse(int argc, char * * argv) const [member function]'',
        [(''ignore'', None_value)]),
     (''extern void ns3::PythonCompleteConstruct(ns3::Ptr<ns3::Object> object, ns3::TypeId typeId, ns3::AttributeList const & attributes) [free function]'',
        [(''ignore'', None_value)]),
     (''ns3::Ptr<ns3::Ipv4RoutingProtocol> ns3::Ipv4ListRouting::GetRoutingProtocol(uint32_t index, int16_t & priority) const [member function]'',
        [(''params'', Params [(''priority'', [(''direction'', ''out'')])])]),
     (''ns3::Ipv4RoutingTableEntry * ns3::GlobalRouter::GetInjectedRoute(uint32_t i) [member function]'',
        [(''params'', Params [(''return'', [(''caller_owns_return'', ''false'')])])]),
     (''ns3::Ipv4RoutingTableEntry * ns3::Ipv4GlobalRouting::GetRoute(uint32_t i) const [member function]'',
        [(''params'', Params [(''return'', [(''caller_owns_return'', ''false'')])])]),
     (''::ns3::TestCase'',
        [(''ignore'', Text_value ''true'')]),
     (''::ns3::TestRunner'',
        [(''ignore'', Text_value ''true'')]),
     (''::ns3::TestSuite'',
        [(''ignore'', Text_value ''true'')])]"

section \<open>The hook\<close>

text \<open>
  Declarations of pygccxml, by the classes the hook distinguishes.  Functions, methods and constructors are the \<^verbatim>\<open>calldef_t\<close> that
  have an entry in the table; there are others, such as operators.  Of its arguments only the default values matter.
\<close>

datatype decl_kind = Class_decl | Enum_decl | Free_function | Member_function | Constructor | Other_calldef | Other_decl

definition is_calldef :: "decl_kind \<Rightarrow> bool" where
  "is_calldef k \<longleftrightarrow> k \<in> {Free_function, Member_function, Constructor, Other_calldef}"

record cxx_declaration =
  kind :: decl_kind
  file_name :: string
  decl_name :: string
  parent_name :: string
  decl_string :: string
  decl_text :: string

text \<open>
  What the scanner asks of pygccxml: \<^verbatim>\<open>templates.args\<close>, \<^verbatim>\<open>templates.is_instantiation\<close>, the parameters given by
  \<^verbatim>\<open>templates.split\<close>, and the file of a declaration found by name, if the declaration found has one.
\<close>

record template_library =
  template_args :: "string \<Rightarrow> string list"
  is_instantiation :: "string \<Rightarrow> bool"
  template_parameters :: "string \<Rightarrow> string list"
  location_of :: "string \<Rightarrow> string option"

text \<open>
  The state a call of the hook works on: the table, which is shared by all calls, the two dictionaries it is to fill, and the
  default values of the arguments of the declaration.
\<close>

record hook_state =
  annotation_table :: "(string, annotations) dict"
  global_annotations :: annotations
  parameter_annotations :: param_annotations
  default_values :: "string option list"

definition annotate :: "string \<Rightarrow> annotation \<Rightarrow> hook_state \<Rightarrow> hook_state" where
  "annotate k v s = s\<lparr>global_annotations := AList.update k v (global_annotations s)\<rparr>"

definition annotate_methods :: "template_library \<Rightarrow> cxx_declaration \<Rightarrow> hook_state \<Rightarrow> hook_state" where
  "annotate_methods lib d s0 =
     (let method = (\<lambda>parent. kind d = Member_function \<and> parent_name d = parent);
          s1 = (if method ''Object'' \<and> decl_name d = ''GetObject'' \<and> template_args lib (decl_text d) = [''ns3::Object'']
                then annotate ''template_instance_names'' (Text_value ''ns3::Object=>GetObject'') s0 else s0);
          s2 = (if method ''Simulator'' \<and> prefix ''Schedule'' (decl_name d) then annotate ''ignore'' None_value s1 else s1)
      in if method ''Simulator'' \<and> decl_name d = ''Run'' then annotate ''ignore'' True_value s2 else s2)"

definition fix_default :: "string option \<Rightarrow> string option" where
  "fix_default v =
     (if v = Some ''ns3::MilliSeconds( )'' then Some ''ns3::MilliSeconds(0)''
      else if v = Some ''ns3::Seconds( )'' then Some ''ns3::Seconds(0)''
      else v)"

text \<open>\<^verbatim>\<open>s.replace('-', '_')\<close>\<close>

definition underscored :: "string \<Rightarrow> string" where
  "underscored s = map (\<lambda>c. if c = CHR ''-'' then CHR ''_'' else c) s"

text \<open>
  The module of a class: that of its header, unless it is the instance of a template with a parameter of the module that is
  scanned.  Parameters without a place, or outside of ns-3, are passed over.
\<close>

type_synonym headers = "(string, string) dict"

definition header_module :: "headers \<Rightarrow> string option \<Rightarrow> string result" where
  "header_module headers h =
     (case h of
        None \<Rightarrow> Inl KeyError
      | Some p \<Rightarrow> (case map_of headers p of None \<Rightarrow> Inl KeyError | Some m \<Rightarrow> Inr m))"

fun parameter_modules :: "template_library \<Rightarrow> headers \<Rightarrow> string list \<Rightarrow> string list result" where
  "parameter_modules lib headers [] = Inr []"
| "parameter_modules lib headers (p # ps) =
     (case location_of lib p of
        None \<Rightarrow> parameter_modules lib headers ps
      | Some f \<Rightarrow>
          (case get_ns3_relative_path f of
             Inl e \<Rightarrow> if e = ValueError then parameter_modules lib headers ps else Inl e
           | Inr h \<Rightarrow> res_bind (header_module headers h) (\<lambda>m. res_bind (parameter_modules lib headers ps) (\<lambda>ms. Inr (m # ms)))))"

definition class_module :: "template_library \<Rightarrow> headers \<Rightarrow> string \<Rightarrow> cxx_declaration \<Rightarrow> string \<Rightarrow> string result" where
  "class_module lib headers scanned d m =
     (if is_instantiation lib (decl_string d)
      then res_bind (parameter_modules lib headers (template_parameters lib (decl_name d)))
             (\<lambda>ms. Inr (if scanned \<in> set ms then scanned else m))
      else Inr m)"

definition annotate_class :: "template_library \<Rightarrow> headers \<Rightarrow> string \<Rightarrow> cxx_declaration \<Rightarrow> string \<Rightarrow> (hook_state, unit) io" where
  "annotate_class lib headers scanned d m s =
     (case class_module lib headers scanned d m of
        Inl e \<Rightarrow> (Inl e, s)
      | Inr m' \<Rightarrow>
          let s = (if m' \<noteq> scanned then annotate ''import_from_module'' (Text_value (''ns.'' @ underscored m')) s else s) in
          (Inr (),
           if prefix ''::ns3::SimpleRefCount<'' (decl_string d) then
             annotate ''automatic_type_narrowing'' (Text_value ''true'')
               (annotate ''peekref_method'' (Text_value ''GetReferenceCount'')
                 (annotate ''decref_method'' (Text_value ''Unref'')
                   (annotate ''incref_method'' (Text_value ''Ref'') s)))
           else if prefix ''::ns3::Callback<'' (decl_string d) \<or> prefix ''::ns3::TracedCallback<'' (decl_string d) \<or>
             prefix ''::ns3::Ptr<'' (decl_string d) then annotate ''ignore'' None_value s
           else case map_of (annotation_table s) (decl_string d) of
               None \<Rightarrow> s
             | Some a \<Rightarrow> s\<lparr>global_annotations := dict_update (global_annotations s) a\<rparr>))"

text \<open>
  Functions, methods and constructors have an entry under their text.  The annotations of parameters are taken out of it, in a
  loop over a copy of its items; the entry is the object in the table, which is left without them.
\<close>

definition take_params :: "string \<Rightarrow> string \<times> annotation \<Rightarrow> (hook_state, unit) io" where
  "take_params text = (\<lambda>(k, v) s.
     (if k = ''params'' then
        (case v of
           Params p \<Rightarrow>
             (Inr (), s\<lparr>parameter_annotations := dict_update (parameter_annotations s) p,
                        annotation_table := AList.map_entry text (AList.delete ''params'') (annotation_table s)\<rparr>)
         | Text_value t \<Rightarrow> (Inl ValueError, s)
         | _ \<Rightarrow> (Inl TypeError, s))
      else (Inr (), s)))"

definition annotate_function :: "cxx_declaration \<Rightarrow> (hook_state, unit) io" where
  "annotate_function d s =
     (case map_of (annotation_table s) (decl_text d) of
        None \<Rightarrow> (Inr (), s)
      | Some items \<Rightarrow>
          io_bind (io_for (take_params (decl_text d)) items)
            (\<lambda>_. io_modify (\<lambda>s. s\<lparr>global_annotations :=
               dict_update (global_annotations s) (the (map_of (annotation_table s) (decl_text d)))\<rparr>)) s)"

definition pygen_comment :: "string \<Rightarrow> string \<Rightarrow> cxx_declaration \<Rightarrow> string" where
  "pygen_comment header m d = header @ '' (module '' @ repr_plain m @ ''): '' @ decl_text d"

definition annotate_declaration ::
    "template_library \<Rightarrow> headers \<Rightarrow> string \<Rightarrow> cxx_declaration \<Rightarrow> string \<Rightarrow> string \<Rightarrow> (hook_state, unit) io" where
  "annotate_declaration lib headers scanned d header m s0 =
     (let s1 = annotate_methods lib d (annotate ''pygen_comment'' (Text_value (pygen_comment header m d)) s0);
          s = (if is_calldef (kind d) then s1\<lparr>default_values := map fix_default (default_values s1)\<rparr> else s1)
      in case kind d of
           Class_decl \<Rightarrow> annotate_class lib headers scanned d m s
         | Enum_decl \<Rightarrow> (Inr (), if m \<noteq> scanned then annotate ''import_from_module'' (Text_value (''ns.'' @ m)) s else s)
         | Free_function \<Rightarrow>
             if m \<noteq> scanned \<or> decl_name d = ''PeekPointer'' then (Inr (), annotate ''ignore'' None_value s)
             else annotate_function d s
         | Member_function \<Rightarrow> annotate_function d s
         | Constructor \<Rightarrow> annotate_function d s
         | _ \<Rightarrow> (Inr (), s))"

definition pre_scan_hook ::
    "template_library \<Rightarrow> headers \<Rightarrow> string \<Rightarrow> cxx_declaration \<Rightarrow> (hook_state, unit) io" where
  "pre_scan_hook lib headers scanned d s =
     (case get_ns3_relative_path (file_name d) of
        Inl e \<Rightarrow> (if e = ValueError then Inr () else Inl e, s)
      | Inr None \<Rightarrow> (Inr (), s)
      | Inr (Some header) \<Rightarrow>
          if header = [] then (Inr (), s)
          else case map_of headers header of
              None \<Rightarrow> (Inl KeyError, s)
            | Some m \<Rightarrow> annotate_declaration lib headers scanned d header m s)"

section \<open>What the hook answers\<close>

lemma map_of_dict_update: "map_of (dict_update d e) k = (case map_of (rev e) k of None \<Rightarrow> map_of d k | Some v \<Rightarrow> Some v)"
  unfolding dict_update_def by (induction e arbitrary: d) (auto split: option.split simp: map_add_def)

lemma map_of_dict_update_distinct:
  "distinct (dict_keys e) \<Longrightarrow> map_of (dict_update d e) k = (case map_of e k of None \<Rightarrow> map_of d k | Some v \<Rightarrow> Some v)"
proof -
  assume "distinct (dict_keys e)"
  then have "map_of (rev e) = map_of e"
    by (intro map_of_inject_set [THEN iffD2]) (simp_all add: rev_map [symmetric])
  then show ?thesis by (simp add: map_of_dict_update)
qed

lemma dict_update_empty [simp]: "dict_update d [] = d"
  by (simp add: dict_update_def)

text \<open>Tables whose entries are dictionaries, with annotations of parameters under \<^verbatim>\<open>params\<close>.\<close>

definition entry_ok :: "annotations \<Rightarrow> bool" where
  "entry_ok a \<longleftrightarrow> distinct (dict_keys a) \<and> (case map_of a ''params'' of None \<Rightarrow> True | Some (Params p) \<Rightarrow> True | _ \<Rightarrow> False)"

definition table_ok :: "(string, annotations) dict \<Rightarrow> bool" where
  "table_ok tbl \<longleftrightarrow> list_all (\<lambda>(k, a). entry_ok a) tbl"

lemma table_okD: "table_ok tbl \<Longrightarrow> map_of tbl k = Some a \<Longrightarrow> entry_ok a"
  by (auto simp: table_ok_def list_all_iff dest!: map_of_SomeD)

lemma entry_ok_delete: "entry_ok a \<Longrightarrow> entry_ok (AList.delete k a)"
  by (auto simp: entry_ok_def distinct_delete split: option.split)

lemma table_ok_map_entry: "table_ok tbl \<Longrightarrow> table_ok (AList.map_entry k (AList.delete j) tbl)"
  by (induction tbl) (auto simp: table_ok_def entry_ok_delete)

lemma type_annotations_ok: "table_ok type_annotations"
  by (simp add: table_ok_def entry_ok_def type_annotations_def)

definition params_of :: "annotations \<Rightarrow> param_annotations" where
  "params_of a = (case map_of a ''params'' of Some (Params p) \<Rightarrow> p | _ \<Rightarrow> [])"

definition without_params :: "string \<Rightarrow> hook_state \<Rightarrow> (string, annotations) dict" where
  "without_params text s =
     (if \<exists>a. map_of (annotation_table s) text = Some a \<and> ''params'' \<in> set (dict_keys a)
      then AList.map_entry text (AList.delete ''params'') (annotation_table s) else annotation_table s)"

lemma take_params_loop:
  "distinct (dict_keys items) \<Longrightarrow> io_for (take_params text) items s =
     (case map_of items ''params'' of None \<Rightarrow> (Inr (), s) | Some v \<Rightarrow> take_params text (''params'', v) s)"
proof (induction items)
  case (Cons e items)
  obtain k v where e: "e = (k, v)" by fastforce
  show ?case
  proof (cases "k = ''params''")
    case True
    with Cons.prems e have "map_of items ''params'' = None" by (simp add: map_of_eq_None_iff)
    moreover have "io_for (take_params text) items t = (Inr (), t)" if "map_of items ''params'' = None" for t
      using that by (induction items) (auto simp: take_params_def io_bind_def split: if_splits)
    ultimately show ?thesis
      using e True by (auto simp: io_bind_def split: prod.split sum.split)
  next
    case False
    with Cons e show ?thesis by (simp add: io_bind_def take_params_def)
  qed
qed simp

lemma annotate_function_eq:
  assumes "table_ok (annotation_table s)"
  shows "annotate_function d s =
    (Inr (), case map_of (annotation_table s) (decl_text d) of
       None \<Rightarrow> s
     | Some a \<Rightarrow> s\<lparr>annotation_table := without_params (decl_text d) s,
         parameter_annotations := dict_update (parameter_annotations s) (params_of a),
         global_annotations := dict_update (global_annotations s) (AList.delete ''params'' a)\<rparr>)"
proof (cases "map_of (annotation_table s) (decl_text d)")
  case None
  then show ?thesis by (simp add: annotate_function_def)
next
  case (Some a)
  with assms have ok: "distinct (dict_keys a)"
      "case map_of a ''params'' of None \<Rightarrow> True | Some (Params p) \<Rightarrow> True | _ \<Rightarrow> False"
    by (auto dest: table_okD simp: entry_ok_def)
  show ?thesis
  proof (cases "map_of a ''params''")
    case None
    then have "''params'' \<notin> set (dict_keys a)" by (simp add: map_of_eq_None_iff)
    then show ?thesis
      using Some None ok(1)
      by (simp add: annotate_function_def take_params_loop io_bind_def without_params_def params_of_def delete_idem)
  next
    case (Some v)
    with ok(2) obtain p where "v = Params p" by (auto split: annotation.splits)
    moreover from Some have "''params'' \<in> set (dict_keys a)" by (metis map_of_eq_None_keys option.distinct(1))
    ultimately have
      "io_for (take_params (decl_text d)) a s = take_params (decl_text d) (''params'', Params p) s"
      "without_params (decl_text d) s = AList.map_entry (decl_text d) (AList.delete ''params'') (annotation_table s)"
      "params_of a = p"
      using Some \<open>map_of (annotation_table s) (decl_text d) = Some a\<close> ok(1)
      by (simp_all add: take_params_loop without_params_def params_of_def)
    then show ?thesis
      using \<open>map_of (annotation_table s) (decl_text d) = Some a\<close>
      by (simp add: annotate_function_def io_bind_def take_params_def map_of_map_entry)
  qed
qed

text \<open>What the parts of the hook leave alone.\<close>

lemma annotate_fields [simp]:
  "annotation_table (annotate k v s) = annotation_table s"
  "parameter_annotations (annotate k v s) = parameter_annotations s"
  "default_values (annotate k v s) = default_values s"
  "global_annotations (annotate k v s) = AList.update k v (global_annotations s)"
  by (simp_all add: annotate_def)

lemma annotate_methods_fields [simp]:
  "annotation_table (annotate_methods lib d s) = annotation_table s"
  "parameter_annotations (annotate_methods lib d s) = parameter_annotations s"
  "default_values (annotate_methods lib d s) = default_values s"
  by (simp_all add: annotate_methods_def Let_def)

lemma annotate_class_fields:
  "annotation_table (snd (annotate_class lib headers scanned d m s)) = annotation_table s"
  "parameter_annotations (snd (annotate_class lib headers scanned d m s)) = parameter_annotations s"
  "default_values (snd (annotate_class lib headers scanned d m s)) = default_values s"
  by (simp_all add: annotate_class_def Let_def split: sum.split option.split)

text \<open>The functions whose entry in the table is used: those declared in an ns-3 header, free functions only of the module scanned.\<close>

definition header_of :: "headers \<Rightarrow> cxx_declaration \<Rightarrow> (string \<times> string) option" where
  "header_of headers d =
     (case get_ns3_relative_path (file_name d) of
        Inr (Some h) \<Rightarrow> if h = [] then None else map_option (Pair h) (map_of headers h)
      | _ \<Rightarrow> None)"

definition uses_entry :: "headers \<Rightarrow> string \<Rightarrow> cxx_declaration \<Rightarrow> bool" where
  "uses_entry headers scanned d \<longleftrightarrow>
     (case header_of headers d of
        None \<Rightarrow> False
      | Some (h, m) \<Rightarrow>
          kind d \<in> {Member_function, Constructor} \<or> kind d = Free_function \<and> m = scanned \<and> decl_name d \<noteq> ''PeekPointer'')"

lemma pre_scan_hook_header:
  "header_of headers d = Some (h, m) \<Longrightarrow>
     pre_scan_hook lib headers scanned d s = annotate_declaration lib headers scanned d h m s"
  by (auto simp: header_of_def pre_scan_hook_def split: sum.splits option.splits if_splits)

lemma pre_scan_hook_no_header:
  "header_of headers d = None \<Longrightarrow> snd (pre_scan_hook lib headers scanned d s) = s"
  by (auto simp: header_of_def pre_scan_hook_def split: sum.splits option.splits if_splits)

lemma hook_tables:
  assumes "table_ok (annotation_table s)"
  shows "annotation_table (snd (pre_scan_hook lib headers scanned d s)) =
      (if uses_entry headers scanned d then without_params (decl_text d) s else annotation_table s)" (is ?table)
    and "parameter_annotations (snd (pre_scan_hook lib headers scanned d s)) =
      (if uses_entry headers scanned d
       then dict_update (parameter_annotations s)
              (case map_of (annotation_table s) (decl_text d) of None \<Rightarrow> [] | Some a \<Rightarrow> params_of a)
       else parameter_annotations s)" (is ?params)
proof -
  have entry: "annotation_table (snd (annotate_function d t)) = without_params (decl_text d) s"
      "parameter_annotations (snd (annotate_function d t)) = dict_update (parameter_annotations s)
         (case map_of (annotation_table s) (decl_text d) of None \<Rightarrow> [] | Some a \<Rightarrow> params_of a)"
    if "annotation_table t = annotation_table s" "parameter_annotations t = parameter_annotations s" for t
    using that assms by (simp_all add: annotate_function_eq without_params_def split: option.split)
  have "?table \<and> ?params"
  proof (cases "header_of headers d")
    case None
    then show ?thesis by (simp add: pre_scan_hook_no_header uses_entry_def)
  next
    case (Some hm)
    then obtain h m where "header_of headers d = Some (h, m)" by (cases hm) simp
    then show ?thesis
      by (cases "kind d")
        (simp_all add: pre_scan_hook_header uses_entry_def annotate_declaration_def Let_def annotate_class_fields entry
          is_calldef_def del: map_of_eq_None_keys)
  qed
  then show ?table ?params by simp_all
qed

text \<open>A scan calls the hook for one declaration after the other, each with dictionaries of its own, filled from its comments.\<close>

fun scan_all ::
    "template_library \<Rightarrow> headers \<Rightarrow> string \<Rightarrow> (cxx_declaration \<times> hook_state) list \<Rightarrow>
      (string, annotations) dict \<Rightarrow> (unit result \<times> hook_state) list" where
  "scan_all lib headers scanned [] tbl = []"
| "scan_all lib headers scanned ((d, s) # ds) tbl =
     (let r = pre_scan_hook lib headers scanned d (s\<lparr>annotation_table := tbl\<rparr>)
      in r # scan_all lib headers scanned ds (annotation_table (snd r)))"


section \<open>Annotations of parameters are given once\<close>

lemma map_of_without_params:
  "map_of (without_params text s) k =
     (if k = text then map_option (AList.delete ''params'') (map_of (annotation_table s) k) else map_of (annotation_table s) k)"
  by (auto simp: without_params_def map_of_map_entry delete_idem option.map_comp split: option.split)

lemma table_ok_without_params: "table_ok (annotation_table s) \<Longrightarrow> table_ok (without_params text s)"
  by (simp add: without_params_def table_ok_map_entry)

lemma params_of_delete [simp]: "params_of (AList.delete ''params'' a) = []"
  by (simp add: params_of_def)

lemma delete_twice [simp]: "map_option (AList.delete k) (map_option (AList.delete k) x) = map_option (AList.delete k) x"
  by (cases x) (simp_all add: delete_idem)

definition uses :: "headers \<Rightarrow> string \<Rightarrow> string \<Rightarrow> (cxx_declaration \<times> hook_state) list \<Rightarrow> bool" where
  "uses headers scanned text ds \<longleftrightarrow> (\<exists>(d, s) \<in> set ds. uses_entry headers scanned d \<and> decl_text d = text)"

lemma length_scan_all [simp]: "length (scan_all lib headers scanned ds tbl) = length ds"
  by (induction ds arbitrary: tbl) (auto simp: Let_def)

lemma scan_all_params:
  assumes "table_ok tbl" "i < length ds" "ds ! i = (d, s)"
  shows "parameter_annotations (snd (scan_all lib headers scanned ds tbl ! i)) =
    (if uses_entry headers scanned d \<and> \<not> uses headers scanned (decl_text d) (take i ds)
     then dict_update (parameter_annotations s) (case map_of tbl (decl_text d) of None \<Rightarrow> [] | Some a \<Rightarrow> params_of a)
     else parameter_annotations s)"
  using assms
proof (induction ds arbitrary: tbl i)
  case (Cons e ds)
  obtain d' s' where e: "e = (d', s')" by fastforce
  let ?s = "s'\<lparr>annotation_table := tbl\<rparr>"
  let ?tbl = "annotation_table (snd (pre_scan_hook lib headers scanned d' ?s))"
  have ok: "table_ok (annotation_table ?s)" using Cons.prems(1) by simp
  show ?case
  proof (cases i)
    case 0
    then show ?thesis
      using Cons.prems e hook_tables(2) [OF ok, of lib headers scanned d'] by (simp add: uses_def Let_def)
  next
    case (Suc j)
    have "table_ok ?tbl"
      using Cons.prems(1) hook_tables(1) [OF ok, of lib headers scanned d'] table_ok_without_params [OF ok] by simp
    from Cons.IH [OF this] Suc Cons.prems(2,3) e show ?thesis
      using hook_tables(1) [OF ok, of lib headers scanned d']
      by (auto simp: uses_def Let_def map_of_without_params split: option.split)
  qed
qed simp

text \<open>
  Of several declarations with the same text, only the first that uses its entry of the table is given the annotations of its
  parameters: they are taken out of the table for all that follow.
\<close>

theorem params_given_once:
  assumes "i < length ds" "ds ! i = (d, s)"
  shows "parameter_annotations (snd (scan_all lib headers scanned ds type_annotations ! i)) =
    (if uses_entry headers scanned d \<and> \<not> uses headers scanned (decl_text d) (take i ds)
     then dict_update (parameter_annotations s)
            (case map_of type_annotations (decl_text d) of None \<Rightarrow> [] | Some a \<Rightarrow> params_of a)
     else parameter_annotations s)"
  by (rule scan_all_params [OF type_annotations_ok assms])

section \<open>Modules that bindings are imported from\<close>

lemma map_of_annotate_methods:
  "k \<noteq> ''template_instance_names'' \<Longrightarrow> k \<noteq> ''ignore'' \<Longrightarrow>
     map_of (global_annotations (annotate_methods lib d s)) k = map_of (global_annotations s) k"
  by (simp add: annotate_methods_def Let_def)

lemma map_of_table_update:
  "table_ok tbl \<Longrightarrow> map_of tbl k = Some a \<Longrightarrow> map_of a j = None \<Longrightarrow> map_of (dict_update d a) j = map_of d j"
  by (drule (1) table_okD) (simp add: entry_ok_def map_of_dict_update_distinct)

lemma annotate_class_import:
  assumes "table_ok (annotation_table s)"
    and "\<forall>a. map_of (annotation_table s) (decl_string d) = Some a \<longrightarrow> map_of a ''import_from_module'' = None"
    and "class_module lib headers scanned d m = Inr m'"
  shows "fst (annotate_class lib headers scanned d m s) = Inr ()"
    and "map_of (global_annotations (snd (annotate_class lib headers scanned d m s))) ''import_from_module'' =
      (if m' = scanned then map_of (global_annotations s) ''import_from_module''
       else Some (Text_value (''ns.'' @ underscored m')))"
proof -
  define t where "t = (if m' \<noteq> scanned then annotate ''import_from_module'' (Text_value (''ns.'' @ underscored m')) s else s)"
  have table: "annotation_table t = annotation_table s" by (simp add: t_def)
  show "fst (annotate_class lib headers scanned d m s) = Inr ()"
    using assms(3) by (simp add: annotate_class_def Let_def)
  have "map_of (dict_update (global_annotations t) a) ''import_from_module'' = map_of (global_annotations t) ''import_from_module''"
    if "map_of (annotation_table s) (decl_string d) = Some a" for a
    using that assms(1,2) by (intro map_of_table_update) auto
  then have "map_of (global_annotations (snd (annotate_class lib headers scanned d m s))) ''import_from_module'' =
      map_of (global_annotations t) ''import_from_module''"
    using assms(3) by (simp add: annotate_class_def t_def [symmetric] table split: option.split)
  then show "map_of (global_annotations (snd (annotate_class lib headers scanned d m s))) ''import_from_module'' =
      (if m' = scanned then map_of (global_annotations s) ''import_from_module''
       else Some (Text_value (''ns.'' @ underscored m')))"
    by (simp add: t_def)
qed

text \<open>
  A class is imported from the module of its header, unless that module or that of a parameter of the template it is an instance
  of is the one scanned; an enumeration from the module of its header.  The name of the module is made a name of Python
  for the class only.
\<close>

theorem import_annotation:
  assumes "table_ok (annotation_table s)" "header_of headers d = Some (h, m)"
    and "\<forall>a. map_of (annotation_table s) (decl_string d) = Some a \<longrightarrow> map_of a ''import_from_module'' = None"
    and "map_of (global_annotations s) ''import_from_module'' = None"
    and "kind d = Class_decl \<and> class_module lib headers scanned d m = Inr m' \<or> kind d = Enum_decl \<and> m' = m"
  shows "fst (pre_scan_hook lib headers scanned d s) = Inr () \<and>
    map_of (global_annotations (snd (pre_scan_hook lib headers scanned d s))) ''import_from_module'' =
      (if m' = scanned then None
       else Some (Text_value (''ns.'' @ (if kind d = Class_decl then underscored m' else m'))))"
  using assms(5)
proof
  assume "kind d = Class_decl \<and> class_module lib headers scanned d m = Inr m'"
  then show ?thesis
    using assms(1-4)
    by (simp add: pre_scan_hook_header annotate_declaration_def Let_def is_calldef_def annotate_class_import map_of_annotate_methods)
next
  assume "kind d = Enum_decl \<and> m' = m"
  then show ?thesis
    using assms(2,4)
    by (simp add: pre_scan_hook_header annotate_declaration_def Let_def is_calldef_def map_of_annotate_methods)
qed


section \<open>Declarations that are not wrapped\<close>

text \<open>What is marked to be ignored.\<close>

definition left_out :: "headers \<Rightarrow> string \<Rightarrow> (string, annotations) dict \<Rightarrow> cxx_declaration \<Rightarrow> bool" where
  "left_out headers scanned tbl d \<longleftrightarrow>
     (let listed = (\<lambda>name. case map_of tbl name of None \<Rightarrow> False | Some a \<Rightarrow> map_of a ''ignore'' \<noteq> None) in
      case header_of headers d of
        None \<Rightarrow> False
      | Some (h, m) \<Rightarrow>
          (case kind d of
             Class_decl \<Rightarrow>
               prefix ''::ns3::Callback<'' (decl_string d) \<or> prefix ''::ns3::TracedCallback<'' (decl_string d) \<or>
               prefix ''::ns3::Ptr<'' (decl_string d) \<or>
               listed (decl_string d) \<and> \<not> prefix ''::ns3::SimpleRefCount<'' (decl_string d)
           | Free_function \<Rightarrow> m \<noteq> scanned \<or> decl_name d = ''PeekPointer'' \<or> listed (decl_text d)
           | Member_function \<Rightarrow>
               parent_name d = ''Simulator'' \<and> (prefix ''Schedule'' (decl_name d) \<or> decl_name d = ''Run'') \<or> listed (decl_text d)
           | Constructor \<Rightarrow> listed (decl_text d)
           | _ \<Rightarrow> False))"

lemma annotate_methods_ignore:
  "map_of (global_annotations (annotate_methods lib d s)) ''ignore'' = None \<longleftrightarrow>
     map_of (global_annotations s) ''ignore'' = None \<and>
     \<not> (kind d = Member_function \<and> parent_name d = ''Simulator'' \<and> (prefix ''Schedule'' (decl_name d) \<or> decl_name d = ''Run''))"
  by (auto simp: annotate_methods_def Let_def)

lemma annotate_function_ignore:
  assumes "table_ok (annotation_table s)"
  shows "map_of (global_annotations (snd (annotate_function d s))) ''ignore'' = None \<longleftrightarrow>
    map_of (global_annotations s) ''ignore'' = None \<and>
    (\<forall>a. map_of (annotation_table s) (decl_text d) = Some a \<longrightarrow> map_of a ''ignore'' = None)"
proof (cases "map_of (annotation_table s) (decl_text d)")
  case (Some a)
  with assms have "distinct (dict_keys (AList.delete ''params'' a))"
    by (auto dest: table_okD simp: entry_ok_def distinct_delete)
  with Some assms show ?thesis
    by (auto simp: annotate_function_eq map_of_dict_update_distinct split: option.splits)
qed (use assms in \<open>simp add: annotate_function_eq\<close>)

lemma annotate_class_ignore:
  assumes "table_ok (annotation_table s)" "class_module lib headers scanned d m = Inr m'"
  shows "map_of (global_annotations (snd (annotate_class lib headers scanned d m s))) ''ignore'' = None \<longleftrightarrow>
    map_of (global_annotations s) ''ignore'' = None \<and>
    (prefix ''::ns3::SimpleRefCount<'' (decl_string d) \<or>
     \<not> prefix ''::ns3::Callback<'' (decl_string d) \<and> \<not> prefix ''::ns3::TracedCallback<'' (decl_string d) \<and>
     \<not> prefix ''::ns3::Ptr<'' (decl_string d) \<and>
     (\<forall>a. map_of (annotation_table s) (decl_string d) = Some a \<longrightarrow> map_of a ''ignore'' = None))"
proof -
  define t where "t = (if m' \<noteq> scanned then annotate ''import_from_module'' (Text_value (''ns.'' @ underscored m')) s else s)"
  have t: "annotation_table t = annotation_table s"
      "map_of (global_annotations t) ''ignore'' = map_of (global_annotations s) ''ignore''"
    by (simp_all add: t_def)
  have "map_of (dict_update (global_annotations t) a) ''ignore'' = None \<longleftrightarrow>
      map_of (global_annotations s) ''ignore'' = None \<and> map_of a ''ignore'' = None"
    if "map_of (annotation_table s) (decl_string d) = Some a" for a
    using table_okD [OF assms(1) that] t(2)
    by (auto simp: entry_ok_def map_of_dict_update_distinct split: option.splits)
  then show ?thesis
    using assms(2) t by (simp add: annotate_class_def t_def [symmetric] split: option.split)
qed

lemma class_prefixes:
  "prefix ''::ns3::SimpleRefCount<'' s \<Longrightarrow>
     \<not> prefix ''::ns3::Callback<'' s \<and> \<not> prefix ''::ns3::TracedCallback<'' s \<and> \<not> prefix ''::ns3::Ptr<'' s"
  by (auto simp: prefix_def)

text \<open>C13. 
  The hook marks as ignored: the methods of \<^verbatim>\<open>Simulator\<close> that are wrapped by hand, callbacks and smart pointers, free functions of
  other modules, and what the table lists; nothing else, and nothing outside of ns-3.
\<close>

theorem ignored_exactly:
  assumes "table_ok (annotation_table s)" "map_of (global_annotations s) ''ignore'' = None"
    and "fst (pre_scan_hook lib headers scanned d s) = Inr ()"
  shows "map_of (global_annotations (snd (pre_scan_hook lib headers scanned d s))) ''ignore'' \<noteq> None \<longleftrightarrow>
    left_out headers scanned (annotation_table s) d"
proof (cases "header_of headers d")
  case None
  then show ?thesis using assms(2) by (simp add: pre_scan_hook_no_header left_out_def)
next
  case (Some hm)
  obtain h m where hm: "header_of headers d = Some (h, m)" using Some by (cases hm) simp
  show ?thesis
  proof (cases "kind d = Class_decl")
    case True
    with assms(3) hm obtain m' where "class_module lib headers scanned d m = Inr m'"
      by (auto simp: pre_scan_hook_header annotate_declaration_def Let_def annotate_class_def split: sum.splits)
    with True hm assms(1,2) show ?thesis
      by (auto simp: pre_scan_hook_header annotate_declaration_def Let_def is_calldef_def annotate_class_ignore
          annotate_methods_ignore left_out_def class_prefixes split: option.split)
  next
    case False
    with hm assms(1,2) show ?thesis
      by (cases "kind d")
        (auto simp: pre_scan_hook_header annotate_declaration_def Let_def is_calldef_def annotate_function_ignore
          annotate_methods_ignore left_out_def simp del: not_None_eq split: option.split)
  qed
qed


section \<open>Examples\<close>

definition no_templates :: template_library where
  "no_templates = \<lparr>template_args = (\<lambda>_. []), is_instantiation = (\<lambda>_. False), template_parameters = (\<lambda>_. []),
                   location_of = (\<lambda>_. None)\<rparr>"

definition get_routing :: cxx_declaration where
  "get_routing =
     \<lparr>kind = Member_function, file_name = ''/b/ns3/list.h'', decl_name = ''GetRoutingProtocol'', parent_name = ''Ipv4ListRouting'',
      decl_string = [], decl_text = ''ns3::Ptr<ns3::Ipv4RoutingProtocol> ns3::Ipv4ListRouting::GetRoutingProtocol(uint32_t index, int16_t & priority) const [member function]''\<rparr>"

definition fresh_state :: hook_state where
  "fresh_state = \<lparr>annotation_table = type_annotations, global_annotations = [], parameter_annotations = [], default_values = []\<rparr>"

lemma list_header: "get_ns3_relative_path ''/b/ns3/list.h'' = Inr (Some ''list.h'')"
  using relative_loop_abs [of "[''b'', ''ns3'', ''list.h'']" "[]"]
  by (simp add: get_ns3_relative_path_def components_def abs_path_def below_ns3_def join_all_def)

lemma header_of_list: "file_name d = ''/b/ns3/list.h'' \<Longrightarrow> header_of [(''list.h'', m)] d = Some (''list.h'', m)"
  by (simp add: header_of_def list_header)

theorem params_given_once_witness:
  "map (\<lambda>r. parameter_annotations (snd r))
     (scan_all no_templates [(''list.h'', ''internet'')] ''internet'' [(get_routing, fresh_state), (get_routing, fresh_state)] type_annotations) =
   [[(''priority'', [(''direction'', ''out'')])], []]"
proof -
  let ?ds = "[(get_routing, fresh_state), (get_routing, fresh_state)]"
  have uses: "uses_entry [(''list.h'', ''internet'')] ''internet'' get_routing"
    using header_of_list [of get_routing "''internet''"] by (simp add: uses_entry_def get_routing_def)
  have entry: "map_of type_annotations (decl_text get_routing) = Some [(''params'', Params [(''priority'', [(''direction'', ''out'')])])]"
    by (simp add: type_annotations_def get_routing_def)
  define rs where "rs = scan_all no_templates [(''list.h'', ''internet'')] ''internet'' ?ds type_annotations"
  have "length rs = 2" unfolding rs_def by (simp only: length_scan_all) simp
  then obtain r r' where rs: "rs = [r, r']" by (auto simp: length_Suc_conv numeral_2_eq_2)
  have "parameter_annotations (snd (rs ! 0)) = [(''priority'', [(''direction'', ''out'')])]"
    unfolding rs_def using uses entry
    by (subst params_given_once [of 0 ?ds get_routing fresh_state])
      (simp_all add: uses_def fresh_state_def params_of_def dict_update_def)
  moreover have "parameter_annotations (snd (rs ! 1)) = []"
    unfolding rs_def using uses entry
    by (subst params_given_once [of 1 ?ds get_routing fresh_state]) (simp_all add: uses_def fresh_state_def)
  ultimately show ?thesis unfolding rs_def [symmetric] rs by simp
qed

definition trace_class :: "decl_kind \<Rightarrow> cxx_declaration" where
  "trace_class k =
     \<lparr>kind = k, file_name = ''/b/ns3/list.h'', decl_name = ''Trace'', parent_name = [], decl_string = ''::ns3::Trace'', decl_text = ''T''\<rparr>"

theorem import_annotation_witness:
  "map (\<lambda>k. map_of (global_annotations (snd (pre_scan_hook no_templates [(''list.h'', ''fd-net-device'')] ''csma'' (trace_class k) fresh_state)))
       ''import_from_module'') [Class_decl, Enum_decl] =
   [Some (Text_value ''ns.fd_net_device''), Some (Text_value ''ns.fd-net-device'')]"
proof -
  have none: "map_of type_annotations ''::ns3::Trace'' = None" by (simp add: type_annotations_def)
  show ?thesis
    using import_annotation [of fresh_state "[(''list.h'', ''fd-net-device'')]" "trace_class Class_decl" "''list.h''" "''fd-net-device''"
        no_templates "''csma''" "''fd-net-device''"]
      import_annotation [of fresh_state "[(''list.h'', ''fd-net-device'')]" "trace_class Enum_decl" "''list.h''" "''fd-net-device''"
        no_templates "''csma''" "''fd-net-device''"]
      type_annotations_ok none
    by (simp add: fresh_state_def trace_class_def header_of_list class_module_def no_templates_def underscored_def)
qed

theorem ignored_exactly_witness:
  "map_of (global_annotations (snd (pre_scan_hook no_templates [(''list.h'', ''core'')] ''core''
      (get_routing\<lparr>decl_name := ''ScheduleNow'', parent_name := ''Simulator'', decl_text := ''S''\<rparr>) fresh_state))) ''ignore'' \<noteq> None"
proof -
  let ?d = "get_routing\<lparr>decl_name := ''ScheduleNow'', parent_name := ''Simulator'', decl_text := ''S''\<rparr>"
  have header: "header_of [(''list.h'', ''core'')] ?d = Some (''list.h'', ''core'')"
    by (rule header_of_list) (simp add: get_routing_def)
  have "kind ?d = Member_function" by (simp add: get_routing_def)
  with header have "fst (pre_scan_hook no_templates [(''list.h'', ''core'')] ''core'' ?d fresh_state) = Inr ()"
    by (simp add: pre_scan_hook_header annotate_declaration_def Let_def is_calldef_def annotate_function_eq type_annotations_ok
        fresh_state_def)
  then show ?thesis
    using ignored_exactly [of fresh_state no_templates "[(''list.h'', ''core'')]" "''core''" ?d] header type_annotations_ok
      \<open>kind ?d = Member_function\<close>
    by (simp add: fresh_state_def left_out_def)
qed

section \<open>The list of callback classes\<close>

text \<open>
  A class of the module, with the name and the declaration string pygccxml gives it.  The list is written as Python text, line by
  line; the file keeps what was written before an assertion fails.
\<close>

record cxx_class =
  class_name :: string
  class_string :: string

definition write_text :: "string \<Rightarrow> (string, unit) io" where
  "write_text t = io_modify (\<lambda>s. s @ t)"

definition repr_list :: "string list \<Rightarrow> string" where
  "repr_list xs = ''['' @ py_join '', '' (map repr_plain xs) @ '']''"

definition scan_callback_classes :: "template_library \<Rightarrow> cxx_class list \<Rightarrow> (string, unit) io" where
  "scan_callback_classes lib classes =
     io_bind (write_text (''callback_classes = ['' @ [NL])) (\<lambda>_.
     io_bind (io_for (\<lambda>c.
         if \<not> prefix ''Callback<'' (class_name c) then io_return ()
         else if \<not> is_instantiation lib (class_string c) then io_raise AssertionError
         else write_text (''    '' @ repr_list (template_parameters lib (class_string c)) @ '','' @ [NL])) classes) (\<lambda>_.
     write_text ('']'' @ [NL])))"

text \<open>Reading such a list back, as Python does when the generator imports the file, for strings without quotes.\<close>

fun quoted_items :: "string list \<Rightarrow> string list option" where
  "quoted_items (a # item # b # rest) =
     (if b = [] \<and> rest = [] then Some [item]
      else if b = '', '' then map_option (\<lambda>items. item # items) (quoted_items (b # rest))
      else None)"
| "quoted_items _ = None"

definition read_row :: "string \<Rightarrow> string list option" where
  "read_row line =
     (if prefix ''    ['' line \<and> suffix ''],'' line then
        let inner = take (length line - 7) (drop 5 line) in if inner = [] then Some [] else quoted_items (py_split SQ inner)
      else None)"

fun read_rows :: "string list \<Rightarrow> string list list option" where
  "read_rows [] = None"
| "read_rows (line # ls) =
     (if line = '']'' \<and> ls = [[]] then Some []
      else case read_row line of None \<Rightarrow> None | Some row \<Rightarrow> map_option (\<lambda>rows. row # rows) (read_rows ls))"

definition read_callback_classes :: "string \<Rightarrow> string list list option" where
  "read_callback_classes file =
     (case py_split NL file of
        [] \<Rightarrow> None
      | line # ls \<Rightarrow> if line = ''callback_classes = ['' then read_rows ls else None)"

definition plain_name :: "string \<Rightarrow> bool" where
  "plain_name n \<longleftrightarrow> SQ \<notin> set n \<and> NL \<notin> set n"

lemma py_split_append_sep: "c \<notin> set s \<Longrightarrow> py_split c (s @ c # rest) = s # py_split c rest"
  by (induction s) (auto split: list.splits)

lemma quoted_items_join:
  assumes "\<forall>x \<in> set (x # xs). plain_name x"
  shows "\<exists>parts. py_split SQ (py_join '', '' (map repr_plain (x # xs))) = [] # parts \<and>
    (\<forall>a. quoted_items (a # parts) = Some (x # xs))"
  using assms
proof (induction xs arbitrary: x)
  case Nil
  then have "py_split SQ (x @ [SQ]) = [x, []]" using py_split_append_sep [of SQ x "[]"] by (simp add: plain_name_def)
  then show ?case by (simp add: repr_plain_def)
next
  case (Cons y ys)
  have "\<forall>x \<in> set (y # ys). plain_name x" using Cons.prems by simp
  from Cons.IH [OF this] obtain parts where parts: "py_split SQ (py_join '', '' (map repr_plain (y # ys))) = [] # parts"
      "\<forall>a. quoted_items (a # parts) = Some (y # ys)" by blast
  then have "\<exists>t. py_join '', '' (map repr_plain (y # ys)) = SQ # t \<and> py_split SQ t = parts"
    by (cases ys) (auto simp: repr_plain_def)
  then obtain t where t: "py_join '', '' (map repr_plain (y # ys)) = SQ # t" "py_split SQ t = parts" by blast
  have "py_split SQ (x @ SQ # '', '' @ SQ # t) = x # '', '' # parts"
    using Cons.prems t(2) py_split_append_sep [of SQ x "'', '' @ SQ # t"] py_split_append_sep [of SQ "'', ''" t]
    by (simp add: plain_name_def)
  then have "py_split SQ (py_join '', '' (map repr_plain (x # y # ys))) = [] # x # '', '' # parts"
    using t(1) by (simp add: repr_plain_def)
  moreover have "quoted_items (a # x # '', '' # parts) = Some (x # y # ys)" for a
    using parts(2) by simp
  ultimately show ?case by blast
qed


lemma read_row_repr:
  assumes "\<forall>x \<in> set xs. plain_name x"
  shows "read_row (''    '' @ repr_list xs @ '','') = Some xs"
proof -
  let ?inner = "py_join '', '' (map repr_plain xs)"
  have line: "''    '' @ repr_list xs @ '','' = ''    ['' @ ?inner @ ''],''" by (simp add: repr_list_def)
  have "take (length (''    ['' @ ?inner @ ''],'') - 7) (drop 5 (''    ['' @ ?inner @ ''],'')) = ?inner" by simp
  moreover have "suffix ''],'' (''    ['' @ ?inner @ ''],'')" by (metis append.assoc suffixI)
  ultimately have row: "read_row (''    '' @ repr_list xs @ '','') =
      (if ?inner = [] then Some [] else quoted_items (py_split SQ ?inner))"
    unfolding read_row_def line Let_def by (simp only: prefixI if_True conj_absorb simp_thms)
  show ?thesis
  proof (cases xs)
    case Nil
    with row show ?thesis by simp
  next
    case (Cons x ys)
    then have "?inner \<noteq> []" by (cases ys) (simp_all add: repr_plain_def)
    moreover have "quoted_items (py_split SQ ?inner) = Some xs"
      using quoted_items_join [of x ys] assms Cons by auto
    ultimately show ?thesis using row by simp
  qed
qed

lemma set_py_join: "c \<in> set (py_join sep xs) \<Longrightarrow> c \<in> set sep \<or> (\<exists>x \<in> set xs. c \<in> set x)"
  by (induction sep xs rule: py_join.induct) auto

lemma NL_repr_list: "\<forall>x \<in> set xs. plain_name x \<Longrightarrow> NL \<notin> set (repr_list xs)"
proof -
  assume plain: "\<forall>x \<in> set xs. plain_name x"
  have "NL \<notin> set (py_join '', '' (map repr_plain xs))"
    using plain by (auto simp: repr_plain_def plain_name_def dest!: set_py_join)
  then show ?thesis by (simp add: repr_list_def)
qed

text \<open>The classes the list is made of.\<close>

definition callback_parameters :: "template_library \<Rightarrow> cxx_class list \<Rightarrow> string list list" where
  "callback_parameters lib classes =
     map (\<lambda>c. template_parameters lib (class_string c)) (filter (\<lambda>c. prefix ''Callback<'' (class_name c)) classes)"

lemma write_rows:
  assumes "\<forall>c \<in> set classes. prefix ''Callback<'' (class_name c) \<longrightarrow> is_instantiation lib (class_string c)"
  shows "io_for (\<lambda>c.
      if \<not> prefix ''Callback<'' (class_name c) then io_return ()
      else if \<not> is_instantiation lib (class_string c) then io_raise AssertionError
      else write_text (''    '' @ repr_list (template_parameters lib (class_string c)) @ '','' @ [NL])) classes t =
    (Inr (), t @ concat (map (\<lambda>row. ''    '' @ repr_list row @ '','' @ [NL]) (callback_parameters lib classes)))"
  using assms
  by (induction classes arbitrary: t) (simp_all add: callback_parameters_def io_bind_def write_text_def)

lemma split_rows:
  assumes "\<forall>row \<in> set rows. \<forall>x \<in> set row. plain_name x"
  shows "read_rows (py_split NL (concat (map (\<lambda>row. ''    '' @ repr_list row @ '','' @ [NL]) rows) @ '']'' @ [NL])) = Some rows"
  using assms
proof (induction rows)
  case Nil
  then show ?case by simp
next
  case (Cons row rows)
  let ?line = "''    '' @ repr_list row @ '',''"
  let ?rest = "concat (map (\<lambda>row. ''    '' @ repr_list row @ '','' @ [NL]) rows) @ '']'' @ [NL]"
  have "NL \<notin> set ?line" using NL_repr_list Cons.prems by simp
  then have "py_split NL (?line @ NL # ?rest) = ?line # py_split NL ?rest" by (rule py_split_append_sep)
  moreover have "read_row ?line = Some row" using Cons.prems by (intro read_row_repr) simp
  moreover have "read_rows (py_split NL ?rest) = Some rows" using Cons by simp
  ultimately have "read_rows (py_split NL (?line @ NL # ?rest)) = Some (row # rows)" by simp
  then show ?case by simp
qed

lemma scanned_list_read:
  assumes "\<forall>c \<in> set classes. prefix ''Callback<'' (class_name c) \<longrightarrow> is_instantiation lib (class_string c)"
    and "\<forall>c \<in> set classes. \<forall>x \<in> set (template_parameters lib (class_string c)). plain_name x"
  shows "\<exists>file. scan_callback_classes lib classes [] = (Inr (), file) \<and>
    read_callback_classes file = Some (callback_parameters lib classes)"
proof -
  let ?rows = "concat (map (\<lambda>row. ''    '' @ repr_list row @ '','' @ [NL]) (callback_parameters lib classes))"
  let ?file = "''callback_classes = ['' @ NL # ?rows @ '']'' @ [NL]"
  have "scan_callback_classes lib classes [] = (Inr (), ?file)"
    using write_rows [OF assms(1), of "''callback_classes = ['' @ [NL]"]
    by (simp add: scan_callback_classes_def io_bind_def write_text_def)
  moreover have "read_rows (py_split NL (?rows @ '']'' @ [NL])) = Some (callback_parameters lib classes)"
    using assms(2) by (intro split_rows) (auto simp: callback_parameters_def)
  then have "read_callback_classes ?file = Some (callback_parameters lib classes)"
    unfolding read_callback_classes_def by (subst py_split_append_sep) simp_all
  ultimately show ?thesis by blast
qed

text \<open>C38. 
  The generator reads from the list exactly what the scanner saw: the template parameters of the classes whose name starts like a
  callback's, in the order of the module.
\<close>

theorem callback_list_read_back:
  assumes "\<forall>c \<in> set classes. prefix ''Callback<'' (class_name c) \<longrightarrow> is_instantiation lib (class_string c)"
    and "\<forall>c \<in> set classes. \<forall>x \<in> set (template_parameters lib (class_string c)). plain_name x"
  shows "\<exists>file. scan_callback_classes lib classes [] = (Inr (), file) \<and>
    read_callback_classes file = Some (callback_parameters lib classes)"
  by (rule scanned_list_read [OF assms])

theorem callback_list_read_back_witness:
  "\<exists>file. scan_callback_classes
      \<lparr>template_args = (\<lambda>_. []), is_instantiation = (\<lambda>_. True), template_parameters = (\<lambda>_. [''void'', ''ns3::empty'']), location_of = (\<lambda>_. None)\<rparr>
      [\<lparr>class_name = ''Callback<void, ns3::empty>'', class_string = ''C''\<rparr>] [] = (Inr (), file) \<and>
    read_callback_classes file = Some [[''void'', ''ns3::empty'']]"
  using callback_list_read_back [of "[\<lparr>class_name = ''Callback<void, ns3::empty>'', class_string = ''C''\<rparr>]"
      "\<lparr>template_args = (\<lambda>_. []), is_instantiation = (\<lambda>_. True), template_parameters = (\<lambda>_. [''void'', ''ns3::empty'']), location_of = (\<lambda>_. None)\<rparr>"]
  by (simp add: callback_parameters_def plain_name_def)


section \<open>The files of a scan\<close>

text \<open>Files with whether they may be written and their text, and directories.\<close>

record scan_files =
  files :: "(string, bool \<times> string) dict"
  dirs :: "string list"

definition unlink :: "string \<Rightarrow> (scan_files, unit) io" where
  "unlink p s =
     (if map_of (files s) p = None then (Inl OSError, s) else (Inr (), s\<lparr>files := AList.delete p (files s)\<rparr>))"

definition makedirs :: "(string \<Rightarrow> bool) \<Rightarrow> string \<Rightarrow> (scan_files, unit) io" where
  "makedirs may_create p s =
     (if p \<in> set (dirs s) \<or> \<not> may_create p then (Inl OSError, s) else (Inr (), s\<lparr>dirs := p # dirs s\<rparr>))"

definition open_write :: "string \<Rightarrow> (scan_files, unit) io" where
  "open_write p s =
     (if fst (path_split p) \<notin> set (dirs s) \<or> (\<exists>t. map_of (files s) p = Some (False, t)) then (Inl OSError, s)
      else (Inr (), s\<lparr>files := AList.update p (True, []) (files s)\<rparr>))"

definition append_file :: "string \<Rightarrow> string \<Rightarrow> (scan_files, unit) io" where
  "append_file p t = io_modify (\<lambda>s. s\<lparr>files := AList.map_entry p (\<lambda>(w, t0). (w, t0 @ t)) (files s)\<rparr>)"

definition make_readonly :: "string \<Rightarrow> (scan_files, unit) io" where
  "make_readonly p = io_modify (\<lambda>s. s\<lparr>files := AList.map_entry p (\<lambda>(w, t). (False, t)) (files s)\<rparr>)"

text \<open>\<^verbatim>\<open>try: ... except OSError: pass\<close>\<close>

definition ignore_os_error :: "(scan_files, unit) io \<Rightarrow> (scan_files, unit) io" where
  "ignore_os_error m s = (case m s of (Inl e, t) \<Rightarrow> (if e = OSError then Inr () else Inl e, t) | r \<Rightarrow> r)"

definition raise_or :: "unit result \<Rightarrow> (scan_files, unit) io" where
  "raise_or r s = (r, s)"

text \<open>
  A scan: what pybindgen writes for the types, with the classes of the module or an exception, and what it writes for the rest.  The
  parser gets the name of the Python module and the header to scan.
\<close>

record module_parser =
  types_scanned :: "string \<Rightarrow> string \<Rightarrow> string \<times> cxx_class list result"
  rest_scanned :: "string \<Rightarrow> string \<Rightarrow> string \<times> unit result"

definition scan_header :: "string \<Rightarrow> string \<Rightarrow> string \<Rightarrow> scan_files \<Rightarrow> string" where
  "scan_header top_builddir module_name output s =
     (let h = path_join (fst (path_split output)) ''scan-header.h'' in
      if map_of (files s) h \<noteq> None \<or> h \<in> set (dirs s) then h
      else path_join (path_join top_builddir ''ns3'') (module_name @ ''-module.h''))"

definition callbacks_path :: "string \<Rightarrow> string" where
  "callbacks_path output = path_join (fst (path_split output)) ''callbacks_list.py''"

definition ns3_module_scan ::
    "(string \<Rightarrow> bool) \<Rightarrow> module_parser \<Rightarrow> template_library \<Rightarrow> string \<Rightarrow> string \<Rightarrow> string \<Rightarrow> (scan_files, unit) io" where
  "ns3_module_scan may_create p lib top_builddir module_name output =
     io_bind (ignore_os_error (unlink output)) (\<lambda>_.
     io_bind (ignore_os_error (makedirs may_create (fst (path_split output)))) (\<lambda>_.
     io_bind (open_write output) (\<lambda>_ s.
       (let name = ''ns.'' @ underscored module_name; header = scan_header top_builddir module_name output s;
            (text, classes) = types_scanned p name header; (rest, ended) = rest_scanned p name header
        in io_bind (append_file output text) (\<lambda>_.
           case classes of
             Inl e \<Rightarrow> io_raise e
           | Inr cs \<Rightarrow>
               let (r, list) = scan_callback_classes lib cs [] in
               io_bind (open_write (callbacks_path output)) (\<lambda>_.
               io_bind (append_file (callbacks_path output) list) (\<lambda>_.
               io_bind (raise_or r) (\<lambda>_.
               io_bind (append_file output rest) (\<lambda>_.
               io_bind (raise_or ended) (\<lambda>_.
               make_readonly output)))))) s))))"


definition parses :: "module_parser \<Rightarrow> template_library \<Rightarrow> bool" where
  "parses p lib \<longleftrightarrow>
     (\<forall>name h. snd (rest_scanned p name h) = Inr () \<and>
        (\<exists>cs. snd (types_scanned p name h) = Inr cs \<and> fst (scan_callback_classes lib cs []) = Inr ()))"

definition can_scan :: "(string \<Rightarrow> bool) \<Rightarrow> string \<Rightarrow> scan_files \<Rightarrow> bool" where
  "can_scan may_create output s \<longleftrightarrow>
     (fst (path_split output) \<in> set (dirs s) \<or> may_create (fst (path_split output))) \<and>
     (\<forall>t. map_of (files s) (callbacks_path output) \<noteq> Some (False, t))"

lemma path_head_cases:
  "list_all (\<lambda>c. c = SLASH) (fst (path_split p)) \<or> fst (path_split p) \<noteq> [] \<and> last (fst (path_split p)) \<noteq> SLASH"
proof (cases "list_all (\<lambda>c. c = SLASH) (take (length p - length (basename p)) p)")
  case True
  then show ?thesis by (simp add: path_split_def Let_def)
next
  case False
  define d where "d = dropWhile (\<lambda>c. c = SLASH) (rev (take (length p - length (basename p)) p))"
  have "d \<noteq> []" using False by (auto simp: d_def list_all_iff)
  then have "hd d \<noteq> SLASH" unfolding d_def by (rule hd_dropWhile)
  moreover have "fst (path_split p) = rev d" using False by (simp add: path_split_def Let_def d_def)
  ultimately show ?thesis using \<open>d \<noteq> []\<close> by (cases d) auto
qed

lemma dirname_join_head:
  assumes "SLASH \<notin> set b" "list_all (\<lambda>c. c = SLASH) h \<or> h \<noteq> [] \<and> last h \<noteq> SLASH"
  shows "fst (path_split (path_join h b)) = h"
proof (cases "list_all (\<lambda>c. c = SLASH) h")
  case True
  then have join: "path_join h b = h @ b"
    using assms(1) by (cases h rule: rev_cases; cases b) (auto simp: path_join_def)
  have "takeWhile (\<lambda>c. c \<noteq> SLASH) (rev b) = rev b" using assms(1) by (simp add: takeWhile_eq_all_conv) blast
  moreover have "takeWhile (\<lambda>c. c \<noteq> SLASH) (rev b @ rev h) = rev b"
    using True assms(1) by (cases h rule: rev_cases) (auto simp: takeWhile_append takeWhile_eq_all_conv)
  ultimately have "basename (h @ b) = b" by (simp add: basename_def)
  then show ?thesis using True join by (simp add: path_split_def)
next
  case False
  with assms(2) have h: "h \<noteq> []" "last h \<noteq> SLASH" by auto
  with assms(1) have join: "path_join h b = h @ SLASH # b" by (cases b) (auto simp: path_join_def)
  have "dropWhile (\<lambda>c. c = SLASH) (rev h) = rev h" using h by (cases h rule: rev_cases) simp_all
  then show ?thesis using False join by (simp add: path_split_at [OF assms(1)])
qed

lemma dirname_join:
  "SLASH \<notin> set b \<Longrightarrow> fst (path_split (path_join (fst (path_split p)) b)) = fst (path_split p)"
  by (rule dirname_join_head [OF _ path_head_cases])

lemma dirname_callbacks: "fst (path_split (callbacks_path output)) = fst (path_split output)"
  by (simp add: callbacks_path_def dirname_join)

lemma scan_succeeds:
  assumes "parses p lib" "can_scan may_create output s" "output \<noteq> callbacks_path output"
  shows "fst (ns3_module_scan may_create p lib top_builddir module_name output s) = Inr ()"
    and "\<exists>t. map_of (files (snd (ns3_module_scan may_create p lib top_builddir module_name output s))) output = Some (False, t)"
    and "can_scan may_create output (snd (ns3_module_scan may_create p lib top_builddir module_name output s))"
proof -
  let ?d = "fst (path_split output)" and ?c = "callbacks_path output" and ?name = "''ns.'' @ underscored module_name"
  obtain s1 where s1: "ignore_os_error (unlink output) s = (Inr (), s1)" "map_of (files s1) output = None"
      "dirs s1 = dirs s" "map_of (files s1) ?c = map_of (files s) ?c"
    using assms(3) by (cases "map_of (files s) output = None") (auto simp: ignore_os_error_def unlink_def)
  obtain s2 where s2: "ignore_os_error (makedirs may_create ?d) s1 = (Inr (), s2)" "files s2 = files s1" "?d \<in> set (dirs s2)"
    using assms(2) s1(3)
    by (cases "?d \<in> set (dirs s1)") (auto simp: ignore_os_error_def makedirs_def can_scan_def)
  define s3 where "s3 = s2\<lparr>files := AList.update output (True, []) (files s2)\<rparr>"
  have s3: "open_write output s2 = (Inr (), s3)" using s1(2) s2 by (simp add: open_write_def s3_def)
  let ?h = "scan_header top_builddir module_name output s3"
  obtain t cs where types: "types_scanned p ?name ?h = (t, Inr cs)" and classes: "fst (scan_callback_classes lib cs []) = Inr ()"
    using assms(1) unfolding parses_def by (metis prod.collapse)
  obtain l where list: "scan_callback_classes lib cs [] = (Inr (), l)" using classes by (metis prod.collapse)
  obtain t' where rest: "rest_scanned p ?name ?h = (t', Inr ())"
    using assms(1) unfolding parses_def by (metis prod.collapse)
  define s4 where "s4 = snd (append_file output t s3)"
  have c4: "map_of (files s4) ?c = map_of (files s) ?c" "?d \<in> set (dirs s4)"
    using assms(3) s1(4) s2 by (simp_all add: s4_def s3_def append_file_def map_of_map_entry)
  define s5 where "s5 = s4\<lparr>files := AList.update ?c (True, []) (files s4)\<rparr>"
  have s5: "open_write ?c s4 = (Inr (), s5)"
    using c4 assms(2) by (simp add: open_write_def s5_def dirname_callbacks can_scan_def)
  define s6 where "s6 = snd (make_readonly output (snd (append_file output t' (snd (append_file ?c l s5)))))"
  have run: "ns3_module_scan may_create p lib top_builddir module_name output s = (Inr (), s6)"
    using s1(1) s2(1) s3 s5 types rest list
    by (simp add: ns3_module_scan_def io_bind_def s4_def s6_def append_file_def make_readonly_def raise_or_def)
  have "map_of (files s6) output = Some (False, t @ t')" "\<exists>x. map_of (files s6) ?c = Some (True, x)" "?d \<in> set (dirs s6)"
    using assms(3) s2(3)
    by (auto simp: s6_def s5_def s4_def s3_def append_file_def make_readonly_def map_of_map_entry)
  then show "fst (ns3_module_scan may_create p lib top_builddir module_name output s) = Inr ()"
    "\<exists>t. map_of (files (snd (ns3_module_scan may_create p lib top_builddir module_name output s))) output = Some (False, t)"
    "can_scan may_create output (snd (ns3_module_scan may_create p lib top_builddir module_name output s))"
    using run by (auto simp: can_scan_def)
qed

text \<open>
  A scan leaves its output read-only, and the next scan of the module, which removes it first, still succeeds; without
  removing it the output could not be opened.
\<close>

theorem scan_repeatable:
  assumes "parses p lib" "parses p' lib'" "can_scan may_create output s" "output \<noteq> callbacks_path output"
    and "s' = snd (ns3_module_scan may_create p lib top_builddir module_name output s)"
  shows "fst (ns3_module_scan may_create p' lib' top_builddir module_name output s') = Inr () \<and>
    fst (open_write output s') = Inl OSError"
  using scan_succeeds(2) [OF assms(1,3,4)] scan_succeeds(3) [OF assms(1,3,4)] scan_succeeds(1) [OF assms(2) _ assms(4)] assms(5)
  by (auto simp: open_write_def)

definition one_class_parser :: module_parser where
  "one_class_parser = \<lparr>types_scanned = (\<lambda>_ _. (''types'', Inr [])), rest_scanned = (\<lambda>_ _. (''rest'', Inr ()))\<rparr>"

theorem scan_repeatable_witness:
  "\<exists>s'. fst (ns3_module_scan (\<lambda>_. True) one_class_parser no_templates ''/b'' ''csma'' ''/m/api.py'' s') = Inr () \<and>
     fst (open_write ''/m/api.py'' s') = Inl OSError"
proof -
  have p: "parses one_class_parser no_templates"
    by (simp add: parses_def one_class_parser_def scan_callback_classes_def io_bind_def write_text_def)
  have "path_split ''/m/api.py'' = (''/m'', ''api.py'')" by (simp add: path_split_def basename_def)
  then have "''/m/api.py'' \<noteq> callbacks_path ''/m/api.py''" by (simp add: callbacks_path_def path_join_def)
  moreover have "can_scan (\<lambda>_. True) ''/m/api.py'' \<lparr>files = [], dirs = [''/m'']\<rparr>" by (simp add: can_scan_def)
  ultimately show ?thesis
    using scan_repeatable [OF p p, of "\<lambda>_. True" "''/m/api.py''" "\<lparr>files = [], dirs = [''/m'']\<rparr>"] by blast
qed

end
