(* ===== verification/Bind_Callbacks.thy ===== *)
theory Bind_Callbacks
  imports Py_Prelude
begin

text \<open>
  Callbacks in the bindings: \<^verbatim>\<open>register_callback_classes\<close>, \<^verbatim>\<open>generate_callback_classes\<close> and the code for parameters that are
  callbacks, of \<^verbatim>\<open>ns3modulegen_core_customizations.py\<close>.  For every list of template parameters found by the scanner there is
  a C++ class that calls a Python function, and a handler that makes an object of it from an argument.
\<close>

section \<open>Code that is generated\<close>

text \<open>
  What is asked of pybindgen's sinks and of the wrapper of a call: declarations of variables, whose names pybindgen may change,
  parameters to parse, checks, code, and the arguments of the call.
\<close>

datatype wrapper_op =
    Declare string string "string option"
  | Parse_param string "string list" string bool
  | Error_check string string
  | Code string
  | Indent
  | Unindent
  | Cleanup string
  | Call_param string

datatype gen_error = Raised py_error | Code_generation_error string | Not_supported string

type_synonym 'a gen_result = "gen_error + 'a"

text \<open>The name a variable gets, from the operations so far and the name asked for.\<close>

type_synonym naming = "wrapper_op list \<Rightarrow> string \<Rightarrow> string"

definition declare_variable :: "naming \<Rightarrow> string \<Rightarrow> string \<Rightarrow> string option \<Rightarrow> wrapper_op list \<Rightarrow> string \<times> wrapper_op list" where
  "declare_variable naming type name init ops = (naming ops name, ops @ [Declare type (naming ops name) init])"

section \<open>Handlers\<close>

record callback_handler =
  handler_ctype :: string
  impl_name :: string
  template_args :: "string list"
  disabled :: bool

definition callback_name :: "string list \<Rightarrow> string" where
  "callback_name targs = ''ns3::Callback< '' @ py_join '', '' targs @ '' >''"

definition impl_class :: "nat \<Rightarrow> string" where
  "impl_class n = ''PythonCallbackImpl'' @ show_nat n"

definition register_callback_classes :: "string list list \<Rightarrow> callback_handler list" where
  "register_callback_classes callbacks =
     map (\<lambda>(n, targs). \<lparr>handler_ctype = callback_name targs, impl_name = impl_class n, template_args = targs, disabled = False\<rparr>)
       (enumerate 0 callbacks)"

text \<open>A parameter of a function that is a callback; \<^verbatim>\<open>default_value\<close> is C++ text.\<close>

definition not_callable_error :: "string \<Rightarrow> string" where
  "not_callable_error name =
     ''PyErr_SetString(PyExc_TypeError, '' @ [QUOT] @ ''parameter '' @ [SQ] @ name @ [SQ] @ '' must be callbale'' @ [QUOT] @ '');''"

definition convert_python_to_c ::
    "naming \<Rightarrow> callback_handler \<Rightarrow> string \<Rightarrow> string option \<Rightarrow> wrapper_op list \<Rightarrow> wrapper_op list gen_result" where
  "convert_python_to_c naming h name default_value ops =
     (if disabled h then Inl (Code_generation_error ''wrapper could not be generated'')
      else Inr (
        let callback = ''ns3::Callback<'' @ py_join '', '' (template_args h) @ ''>'' in
        case default_value of
          None \<Rightarrow>
            let (py_callback, ops) = declare_variable naming ''PyObject*'' name None ops;
                ops = ops @ [Parse_param ''O'' [''&'' @ py_callback] name False,
                             Error_check (''!PyCallable_Check('' @ py_callback @ '')'') (not_callable_error name)];
                (callback_impl, ops) =
                  declare_variable naming (''ns3::Ptr<'' @ impl_name h @ ''>'') (name @ ''_cb_impl'') None ops
            in ops @ [Code (callback_impl @ '' = ns3::Create<'' @ impl_name h @ ''> ('' @ py_callback @ '');''),
                      Call_param (callback @ '' ('' @ callback_impl @ '')'')]
        | Some v \<Rightarrow>
            let (py_callback, ops) = declare_variable naming ''PyObject*'' name (Some ''NULL'') ops;
                ops = ops @ [Parse_param ''O'' [''&'' @ py_callback] name True];
                (val, ops) = declare_variable naming callback (name @ ''_value'') (Some v) ops
            in ops @ [Code (''if ('' @ py_callback @ '') {''), Indent,
                      Error_check (''!PyCallable_Check('' @ py_callback @ '')'') (not_callable_error name),
                      Code (val @ '' = '' @ callback @ '' (ns3::Create<'' @ impl_name h @ ''> ('' @ py_callback @ ''));''),
                      Unindent, Code ''}'', Call_param val]))"

definition convert_c_to_python :: "unit gen_result" where
  "convert_c_to_python =
     Inl (Not_supported (''Reverse wrappers for ns3::Callback<...> types (python using callbacks defined in C++) not implemented.''))"

text \<open>The call of the Python function by a generated class.\<close>

definition generate_python_call :: "naming \<Rightarrow> string list \<Rightarrow> wrapper_op list \<Rightarrow> wrapper_op list gen_result" where
  "generate_python_call naming build_params ops =
     (case build_params of
        [] \<Rightarrow> Inl (Raised IndexError)
      | [] # _ \<Rightarrow> Inl (Raised IndexError)
      | (c # cs) # ps \<Rightarrow>
          let build_params = (if c = QUOT then (''(char *) '' @ c # cs) # ps else (c # cs) # ps);
              (args, ops) = declare_variable naming ''PyObject*'' ''args'' None ops
          in Inr (ops @ [Code (args @ '' = Py_BuildValue('' @ py_join '', '' build_params @ '');''),
                         Cleanup (''Py_DECREF('' @ args @ '');''),
                         Code (''py_retval = PyObject_CallObject(m_callback, '' @ args @ '');''),
                         Error_check ''py_retval == NULL'' [],
                         Cleanup ''Py_DECREF(py_retval);'']))"

section \<open>Other parameters\<close>

text \<open>
  \<^verbatim>\<open>ArgvParam\<close> of the module \<^verbatim>\<open>core\<close>, which makes \<^verbatim>\<open>int argc, char *argv[]\<close> of a list of strings, and \<^verbatim>\<open>IosOpenmodeParam\<close>,
  for modes of files.
\<close>

definition lines_of :: "string list \<Rightarrow> string" where
  "lines_of ls = concat (map (\<lambda>l. l @ [NL]) ls)"

definition argv_convert_python_to_c :: "naming \<Rightarrow> string \<Rightarrow> wrapper_op list \<Rightarrow> wrapper_op list" where
  "argv_convert_python_to_c naming name ops =
     (let (py_name, ops) = declare_variable naming ''PyObject*'' (''py_'' @ name) None ops;
          (argc_var, ops) = declare_variable naming ''int'' ''argc'' None ops;
          (var, ops) = declare_variable naming ''char**'' name None ops;
          (idx, ops) = declare_variable naming ''Py_ssize_t'' ''idx'' None ops
      in ops @
        [Parse_param ''O!'' [''&PyList_Type'', ''&'' @ py_name] name False,
         Code (var @ '' = (char **) malloc(sizeof(char*)*PyList_Size('' @ py_name @ ''));''),
         Cleanup (''free('' @ var @ '');''),
         Code (lines_of [[], ''for ('' @ idx @ '' = 0; '' @ idx @ '' < PyList_Size('' @ py_name @ ''); '' @ idx @ ''++)'', ''{'']),
         Indent,
         Code (lines_of [[], ''PyObject *item = PyList_GET_ITEM('' @ py_name @ '', '' @ idx @ '');'']),
         Error_check
           (lines_of [[], ''#if PY_VERSION_HEX >= 0x03000000'', ''!PyUnicode_Check(item)'', ''#else'', ''!PyString_Check(item)'', ''#endif''])
           (''PyErr_SetString(PyExc_TypeError, '' @ [QUOT] @ ''argument '' @ name @ '' must be a list of strings'' @ [QUOT] @ '');''),
         Code (lines_of [''#if PY_VERSION_HEX >= 0x03000000'',
           var @ ''['' @ idx @ ''] = const_cast<char *> (PyUnicode_AsUTF8(item));'', ''#else'',
           var @ ''['' @ idx @ ''] = PyString_AsString(item);'', ''#endif'']),
         Unindent,
         Code ''}'',
         Code (argc_var @ '' = PyList_Size('' @ py_name @ '');''),
         Call_param argc_var, Call_param var])"

definition openmode_convert_python_to_c :: "naming \<Rightarrow> string \<Rightarrow> string option \<Rightarrow> wrapper_op list \<Rightarrow> wrapper_op list" where
  "openmode_convert_python_to_c naming name default_value ops =
     (let (var, ops) = declare_variable naming ''std::ios_base::openmode'' name default_value ops
      in ops @ [Parse_param ''i'' [''&'' @ var] name (default_value \<noteq> None \<and> default_value \<noteq> Some []), Call_param var])"

text \<open>Blocks that are opened are closed again, and nothing is closed that was not opened.\<close>

fun depth_after :: "wrapper_op list \<Rightarrow> nat \<Rightarrow> nat option" where
  "depth_after [] d = Some d"
| "depth_after (Indent # ops) d = depth_after ops (Suc d)"
| "depth_after (Unindent # ops) d = (case d of 0 \<Rightarrow> None | Suc d' \<Rightarrow> depth_after ops d')"
| "depth_after (_ # ops) d = depth_after ops d"

lemma depth_append: "depth_after (xs @ ys) d = (case depth_after xs d of None \<Rightarrow> None | Some d' \<Rightarrow> depth_after ys d')"
  by (induction xs d rule: depth_after.induct) (auto split: nat.split)

theorem conversions_close_blocks:
  assumes "depth_after ops d = Some e"
  shows "depth_after (argv_convert_python_to_c naming name ops) d = Some e"
    and "depth_after (openmode_convert_python_to_c naming name v ops) d = Some e"
    and "convert_python_to_c naming h name v ops = Inr ops' \<Longrightarrow> depth_after ops' d = Some e"
    and "generate_python_call naming params ops = Inr ops' \<Longrightarrow> depth_after ops' d = Some e"
  using assms
  by (auto simp: argv_convert_python_to_c_def openmode_convert_python_to_c_def convert_python_to_c_def generate_python_call_def
      declare_variable_def Let_def depth_append split: if_splits option.splits list.splits)

section \<open>Classes\<close>

text \<open>
  What pybindgen knows of types: the type of a text without its modifiers and whether \<^verbatim>\<open>const\<close> was among them; whether a value of
  the type can be returned, or passed; the class of a parameter if it has a helper class, and whether objects of the helper class
  cannot be constructed.
\<close>

record type_library =
  ctype_of :: "string \<Rightarrow> string \<times> bool"
  return_known :: "string \<Rightarrow> bool \<Rightarrow> bool"
  param_known :: "string \<Rightarrow> bool \<Rightarrow> bool"
  helper_of :: "string \<Rightarrow> string option"
  not_constructible :: "string \<Rightarrow> bool"

text \<open>The sink of a class; \<open>Call_operator\<close> is the method \<^verbatim>\<open>operator()\<close>, with its return type and its arguments.\<close>

datatype sink_op = Line string | Sink_indent | Sink_unindent | Call_operator string "(string \<times> string) list"

record generation =
  handlers :: "callback_handler list"
  disabled_helpers :: "string list"
  flushed :: "sink_op list list"

definition class_text :: "string \<Rightarrow> string list \<Rightarrow> string" where
  "class_text c targs = concat (map (\<lambda>l. l @ [NL])
     [[],
      ''class '' @ c @ '' : public ns3::CallbackImpl<'' @ py_join '', '' targs @ ''>'',
      ''{'',
      ''public:'',
      ''    PyObject *m_callback;'',
      ''    '' @ c @ ''(PyObject *callback)'',
      ''    {'',
      ''        Py_INCREF(callback);'',
      ''        m_callback = callback;'',
      ''    }'',
      ''    virtual ~'' @ c @ ''()'',
      ''    {'',
      ''        PyGILState_STATE __py_gil_state;'',
      ''        __py_gil_state = (PyEval_ThreadsInitialized() ? PyGILState_Ensure() : (PyGILState_STATE) 0);'',
      ''        Py_DECREF(m_callback);'',
      ''        m_callback = NULL;'',
      ''        PyGILState_Release(__py_gil_state);'',
      ''    }'',
      [],
      ''    virtual bool IsEqual(ns3::Ptr<const ns3::CallbackImplBase> other_base) const'',
      ''    {'',
      ''        const '' @ c @ '' *other = dynamic_cast<const '' @ c @ ''*> (ns3::PeekPointer (other_base));'',
      ''        if (other != NULL)'',
      ''            return (other->m_callback == m_callback);'',
      ''        else'',
      ''            return false;'',
      ''    }'',
      []])"

text \<open>
  The arguments of a callback, whether all of their types are known, and the helper classes found not to be usable on the way.
\<close>

fun build_arguments :: "type_library \<Rightarrow> nat \<Rightarrow> string list \<Rightarrow> string list \<Rightarrow> bool \<times> (string \<times> string) list \<times> string list" where
  "build_arguments lib n [] helpers = (True, [], helpers)"
| "build_arguments lib n (arg # args) helpers =
     (let (ctype, const) = ctype_of lib arg in
      if param_known lib ctype const then
        let helpers = (case helper_of lib ctype of
                None \<Rightarrow> helpers
              | Some c \<Rightarrow> if c \<notin> set helpers \<and> not_constructible lib c then c # helpers else helpers);
            (ok, params, helpers) = build_arguments lib (Suc n) args helpers
        in (ok, (ctype, ''arg'' @ show_nat n) # params, helpers)
      else let (ok, params, helpers) = build_arguments lib (Suc n) args helpers in (False, params, helpers))"

definition callback_arguments :: "string list \<Rightarrow> string list" where
  "callback_arguments targs = filter (\<lambda>arg. arg \<noteq> ''ns3::empty'') (drop 1 targs)"

definition disable_handler :: "string \<Rightarrow> callback_handler list \<Rightarrow> callback_handler list" where
  "disable_handler c hs = map (\<lambda>h. if handler_ctype h = c then h\<lparr>disabled := True\<rparr> else h) hs"

definition generate_callback_class :: "type_library \<Rightarrow> nat \<times> string list \<Rightarrow> (generation, unit) io" where
  "generate_callback_class lib = (\<lambda>(n, targs) s.
     (case targs of
        [] \<Rightarrow> (Inl IndexError, s)
      | callback_return # _ \<Rightarrow>
          let (return_type, const) = ctype_of lib callback_return in
          if \<not> return_known lib return_type const then (Inr (), s)
          else
            let (ok, params, helpers) = build_arguments lib 1 (callback_arguments targs) (disabled_helpers s);
                s = s\<lparr>disabled_helpers := helpers\<rparr>
            in if \<not> ok then (Inr (), s\<lparr>handlers := disable_handler (callback_name targs) (handlers s)\<rparr>)
               else (Inr (), s\<lparr>flushed := flushed s @
                 [[Line (class_text (impl_class n) targs), Sink_indent, Call_operator return_type params, Sink_unindent,
                   Line (''};'' @ [NL])]]\<rparr>)))"

definition generate_callback_classes :: "type_library \<Rightarrow> string list list \<Rightarrow> (generation, unit) io" where
  "generate_callback_classes lib callbacks = io_for (generate_callback_class lib) (enumerate 0 callbacks)"


section \<open>Which classes there are\<close>

definition return_ok :: "type_library \<Rightarrow> string list \<Rightarrow> bool" where
  "return_ok lib targs = (case ctype_of lib (hd targs) of (t, c) \<Rightarrow> return_known lib t c)"

definition arguments_ok :: "type_library \<Rightarrow> string list \<Rightarrow> bool" where
  "arguments_ok lib targs = list_all (\<lambda>a. case ctype_of lib a of (t, c) \<Rightarrow> param_known lib t c) (callback_arguments targs)"

text \<open>The code of the class of a callback.\<close>

definition class_code :: "type_library \<Rightarrow> nat \<times> string list \<Rightarrow> sink_op list" where
  "class_code lib = (\<lambda>(n, targs).
     [Line (class_text (impl_class n) targs), Sink_indent,
      Call_operator (fst (ctype_of lib (hd targs)))
        (map (\<lambda>(i, a). (fst (ctype_of lib a), ''arg'' @ show_nat i)) (enumerate 1 (callback_arguments targs))),
      Sink_unindent, Line (''};'' @ [NL])])"

lemma build_arguments_ok:
  "fst (build_arguments lib n args helpers) = list_all (\<lambda>a. case ctype_of lib a of (t, c) \<Rightarrow> param_known lib t c) args"
  by (induction args arbitrary: n helpers) (simp_all add: Let_def case_prod_beta)

lemma build_arguments_params:
  "list_all (\<lambda>a. case ctype_of lib a of (t, c) \<Rightarrow> param_known lib t c) args \<Longrightarrow>
     fst (snd (build_arguments lib n args helpers)) = map (\<lambda>(i, a). (fst (ctype_of lib a), ''arg'' @ show_nat i)) (enumerate n args)"
  by (induction args arbitrary: n helpers) (simp_all add: Let_def case_prod_beta)

lemma generate_callback_class_eq:
  assumes "targs \<noteq> []"
  shows "\<exists>helpers. generate_callback_class lib (n, targs) s =
    (Inr (), s\<lparr>disabled_helpers := helpers,
      handlers := (if return_ok lib targs \<and> \<not> arguments_ok lib targs
                   then disable_handler (callback_name targs) (handlers s) else handlers s),
      flushed := (if return_ok lib targs \<and> arguments_ok lib targs then flushed s @ [class_code lib (n, targs)] else flushed s)\<rparr>)"
proof -
  obtain r rs where targs: "targs = r # rs" using assms by (cases targs) auto
  obtain t c where t: "ctype_of lib r = (t, c)" by fastforce
  obtain ok params helpers where b: "build_arguments lib 1 (callback_arguments targs) (disabled_helpers s) = (ok, params, helpers)"
    by (metis prod_cases3)
  then have ok: "ok \<longleftrightarrow> arguments_ok lib targs"
    using build_arguments_ok [of lib 1 "callback_arguments targs" "disabled_helpers s"] by (simp add: arguments_ok_def)
  have params: "arguments_ok lib targs \<Longrightarrow>
      params = map (\<lambda>(i, a). (fst (ctype_of lib a), ''arg'' @ show_nat i)) (enumerate 1 (callback_arguments targs))"
    using build_arguments_params [of lib "callback_arguments targs" 1 "disabled_helpers s"] b by (simp add: arguments_ok_def)
  show ?thesis
  proof (cases "return_known lib t c")
    case True
    then show ?thesis
      using targs t b ok params
      by (intro exI [of _ helpers]) (simp add: generate_callback_class_def return_ok_def class_code_def del: build_arguments.simps)
  next
    case False
    then show ?thesis
      using targs t by (intro exI [of _ "disabled_helpers s"]) (simp add: generate_callback_class_def return_ok_def)
  qed
qed

definition unusable :: "type_library \<Rightarrow> (nat \<times> string list) list \<Rightarrow> string \<Rightarrow> bool" where
  "unusable lib cs name \<longleftrightarrow> (\<exists>(n, t) \<in> set cs. return_ok lib t \<and> \<not> arguments_ok lib t \<and> callback_name t = name)"

lemma generate_loop:
  assumes "\<forall>(n, t) \<in> set cs. t \<noteq> []"
  shows "\<exists>helpers. io_for (generate_callback_class lib) cs s =
    (Inr (), s\<lparr>disabled_helpers := helpers,
      handlers := map (\<lambda>h. if unusable lib cs (handler_ctype h) then h\<lparr>disabled := True\<rparr> else h) (handlers s),
      flushed := flushed s @ map (class_code lib) (filter (\<lambda>(n, t). return_ok lib t \<and> arguments_ok lib t) cs)\<rparr>)"
  using assms
proof (induction cs arbitrary: s)
  case Nil
  then show ?case by (intro exI [of _ "disabled_helpers s"]) (simp add: unusable_def)
next
  case (Cons e cs)
  obtain n t where e: "e = (n, t)" by fastforce
  with Cons.prems have "t \<noteq> []" by simp
  from generate_callback_class_eq [OF this, of lib n s]
  obtain helpers where step: "generate_callback_class lib e s =
    (Inr (), s\<lparr>disabled_helpers := helpers,
      handlers := (if return_ok lib t \<and> \<not> arguments_ok lib t
                   then disable_handler (callback_name t) (handlers s) else handlers s),
      flushed := (if return_ok lib t \<and> arguments_ok lib t then flushed s @ [class_code lib (n, t)] else flushed s)\<rparr>)"
      (is "_ = (Inr (), ?s)")
    using e by auto
  from Cons.IH [of ?s] Cons.prems obtain helpers' where rest: "io_for (generate_callback_class lib) cs ?s =
    (Inr (), ?s\<lparr>disabled_helpers := helpers',
      handlers := map (\<lambda>h. if unusable lib cs (handler_ctype h) then h\<lparr>disabled := True\<rparr> else h) (handlers ?s),
      flushed := flushed ?s @ map (class_code lib) (filter (\<lambda>(n, t). return_ok lib t \<and> arguments_ok lib t) cs)\<rparr>)"
    by auto
  have "map (\<lambda>h. if unusable lib cs (handler_ctype h) then h\<lparr>disabled := True\<rparr> else h) (handlers ?s) =
      map (\<lambda>h. if unusable lib (e # cs) (handler_ctype h) then h\<lparr>disabled := True\<rparr> else h) (handlers s)"
    using e by (auto simp: unusable_def disable_handler_def)
  then show ?case
    using step rest e by (intro exI [of _ helpers']) (auto simp: io_bind_def)
qed

lemma generated_classes:
  assumes "\<forall>t \<in> set callbacks. t \<noteq> []" "inj_on callback_name (set callbacks)" "n < length callbacks"
    and "s = snd (generate_callback_classes lib callbacks
      \<lparr>handlers = register_callback_classes callbacks, disabled_helpers = [], flushed = []\<rparr>)"
  shows "handlers s ! n =
      \<lparr>handler_ctype = callback_name (callbacks ! n), impl_name = impl_class n, template_args = callbacks ! n,
       disabled = (return_ok lib (callbacks ! n) \<and> \<not> arguments_ok lib (callbacks ! n))\<rparr> \<and>
    flushed s = map (class_code lib) (filter (\<lambda>(n, t). return_ok lib t \<and> arguments_ok lib t) (enumerate 0 callbacks))"
proof -
  let ?cs = "enumerate 0 callbacks"
  have "\<forall>(n, t) \<in> set ?cs. t \<noteq> []" using assms(1) by (auto dest: in_set_enumerate_eq [THEN iffD1])
  from generate_loop [OF this, of lib "\<lparr>handlers = register_callback_classes callbacks, disabled_helpers = [], flushed = []\<rparr>"]
  have s: "handlers s = map (\<lambda>h. if unusable lib ?cs (handler_ctype h) then h\<lparr>disabled := True\<rparr> else h) (register_callback_classes callbacks)"
      "flushed s = map (class_code lib) (filter (\<lambda>(n, t). return_ok lib t \<and> arguments_ok lib t) ?cs)"
    using assms(4) by (auto simp: generate_callback_classes_def)
  have n: "(n, callbacks ! n) \<in> set ?cs" "callbacks ! n \<in> set callbacks"
    using assms(3) by (simp_all add: in_set_enumerate_eq)
  have "unusable lib ?cs (callback_name (callbacks ! n)) \<longleftrightarrow> return_ok lib (callbacks ! n) \<and> \<not> arguments_ok lib (callbacks ! n)"
    using n assms(2) by (auto simp: unusable_def in_set_enumerate_eq dest: inj_onD [OF assms(2)])
  then show ?thesis
    using assms(3) s by (simp add: register_callback_classes_def nth_enumerate_eq)
qed


text \<open>C14. 
  After registration and generation, handler and class of a callback have the same number.  The class is there if all types are
  known.  The handler is disabled only if a type of an argument is unknown; if just the type of the result is, parameters of the
  callback's type are still wrapped, by code that refers to a class that was never written.
\<close>

theorem callback_classes_generated:
  assumes "\<forall>t \<in> set callbacks. t \<noteq> []" "inj_on callback_name (set callbacks)" "n < length callbacks"
    and "s = snd (generate_callback_classes lib callbacks
      \<lparr>handlers = register_callback_classes callbacks, disabled_helpers = [], flushed = []\<rparr>)"
  shows "handlers s ! n =
      \<lparr>handler_ctype = callback_name (callbacks ! n), impl_name = impl_class n, template_args = callbacks ! n,
       disabled = (return_ok lib (callbacks ! n) \<and> \<not> arguments_ok lib (callbacks ! n))\<rparr> \<and>
    flushed s = map (class_code lib) (filter (\<lambda>(n, t). return_ok lib t \<and> arguments_ok lib t) (enumerate 0 callbacks))"
  by (rule generated_classes [OF assms])

text \<open>A library that knows \<^verbatim>\<open>void\<close> and \<^verbatim>\<open>int\<close>, the latter also as an argument.\<close>

definition small_library :: type_library where
  "small_library = \<lparr>ctype_of = (\<lambda>t. (t, False)), return_known = (\<lambda>t _. t \<in> {''void'', ''int''}),
                    param_known = (\<lambda>t _. t = ''int''), helper_of = (\<lambda>_. None), not_constructible = (\<lambda>_. False)\<rparr>"

theorem callback_classes_generated_witness:
  "\<exists>s. s = snd (generate_callback_classes small_library [[''void'', ''int''], [''X'', ''int''], [''void'', ''X'']]
      \<lparr>handlers = register_callback_classes [[''void'', ''int''], [''X'', ''int''], [''void'', ''X'']], disabled_helpers = [], flushed = []\<rparr>) \<and>
    map disabled [handlers s ! 0, handlers s ! 1, handlers s ! 2] = [False, False, True] \<and>
    flushed s = [class_code small_library (0, [''void'', ''int''])]"
proof -
  let ?cbs = "[[''void'', ''int''], [''X'', ''int''], [''void'', ''X'']]"
  define s where "s = snd (generate_callback_classes small_library ?cbs
    \<lparr>handlers = register_callback_classes ?cbs, disabled_helpers = [], flushed = []\<rparr>)"
  have ok: "\<forall>t \<in> set ?cbs. t \<noteq> []" "inj_on callback_name (set ?cbs)" by (simp_all add: callback_name_def)
  note known = return_ok_def arguments_ok_def callback_arguments_def small_library_def
  have "disabled (handlers s ! 0) = False" "disabled (handlers s ! 1) = False" "disabled (handlers s ! 2) = True"
    using callback_classes_generated [OF ok, of 0 s small_library] callback_classes_generated [OF ok, of 1 s small_library]
      callback_classes_generated [OF ok, of 2 s small_library] s_def
    by (simp_all add: known)
  moreover have "flushed s = [class_code small_library (0, [''void'', ''int''])]"
    using callback_classes_generated [OF ok, of 0 s small_library] s_def by (simp add: known)
  ultimately show ?thesis using s_def by auto
qed

end
