(* ===== verification/Bind_Gen.thy ===== *)
theory Bind_Gen
  imports Bind_Callbacks
begin

text \<open>
  The generator of the Python bindings: what \<^verbatim>\<open>ns3modulegen_core_customizations.py\<close> does to the classes of a module, the
  customisations of single modules (\<^verbatim>\<open>modulegen_customizations.py\<close> in \<^verbatim>\<open>src/*/bindings\<close>), and the main program with its
  error handler (\<^verbatim>\<open>ns3modulegen-modular.py\<close>).
\<close>

section \<open>Objects\<close>

text \<open>Creating an object: a reason why the class cannot be constructed is a text, empty when there is none.\<close>

record cpp_class =
  full_name :: string
  cannot_be_constructed :: string
  incomplete_type :: bool

definition instance_creation ::
    "cpp_class \<Rightarrow> string \<Rightarrow> string \<Rightarrow> string \<Rightarrow> string list \<Rightarrow> string list gen_result" where
  "instance_creation c lvalue parameters construct_type_name code =
     (if lvalue = [] \<or> prefix ''None'' lvalue then Inl (Raised AssertionError)
      else if cannot_be_constructed c \<noteq> [] then Inl (Raised TypeError)
      else if incomplete_type c then
        Inl (Code_generation_error (full_name c @ '' cannot be constructed (incomplete type)''))
      else Inr (code @ [lvalue @ '' = new '' @ construct_type_name @ ''('' @ parameters @ '');'', lvalue @ ''->Ref ();'']))"

definition post_instance_creation :: "string \<Rightarrow> string list \<Rightarrow> string list" where
  "post_instance_creation lvalue code = code @ [''ns3::CompleteConstruct('' @ lvalue @ '');'']"

text \<open>The helper class of a class derived from \<^verbatim>\<open>Object\<close>: its custom methods and what follows it.\<close>

record helper_class =
  helper_name :: string
  helped_class :: string
  custom_methods :: "string list"
  post_generation :: "string list"

definition helper_class_hook :: "helper_class \<Rightarrow> helper_class" where
  "helper_class_hook h =
     h\<lparr>custom_methods := custom_methods h @ [concat (map (\<lambda>l. NL # l)
         [''static ns3::TypeId GetTypeId (void)'',
          ''{'',
          ''  static ns3::TypeId tid = ns3::TypeId ('' @ [QUOT] @ helper_name h @ [QUOT] @ '')'',
          ''    .SetParent< '' @ helped_class h @ '' > ()'',
          ''    ;'',
          ''  return tid;'',
          ''}''])],
       post_generation := post_generation h @ [''NS_OBJECT_ENSURE_REGISTERED ('' @ helper_name h @ '');'']\<rparr>"

section \<open>Default values of attributes\<close>

record method_param =
  is_class_ref :: bool
  param_class :: string
  default_value :: "string option"
  default_value_type :: "string option"

definition fix_attribute :: "method_param \<Rightarrow> method_param" where
  "fix_attribute p =
     (if is_class_ref p \<and> param_class p = ''AttributeValue'' \<and> default_value p \<noteq> None \<and> default_value_type p = None
      then p\<lparr>default_value_type := Some ''ns3::EmptyAttributeValue''\<rparr> else p)"

definition attribute_customizations :: "method_param list list list \<Rightarrow> method_param list list list" where
  "attribute_customizations classes = map (map (map fix_attribute)) classes"

section \<open>Modules\<close>

text \<open>
  A module of pybindgen: the types registered under their full names, the lists of classes and enumerations that are written, the
  members added to classes, included headers, other names for types and the code run after initialisation.  Removing a class from
  the list leaves its name registered.  Members are wrappers written by hand, with their flags, methods and constructors with
  the texts of their parameters, and the reason why a class has no constructor.
\<close>

datatype member =
    Custom_wrapper string string "string list"
  | Method string "string list"
  | Constructor "string list"
  | Not_constructed string
  | Enum string "(string \<times> string) list"

record gen_module =
  registered :: "string list"
  classes :: "string list"
  enums :: "string list"
  members :: "(string \<times> member) list"
  include_lines :: "string list"
  type_aliases :: "(string \<times> string) list"
  after_init :: "string list"

definition lookup_type :: "string \<Rightarrow> (gen_module, unit) io" where
  "lookup_type name m = (if name \<in> set (registered m) then (Inr (), m) else (Inl KeyError, m))"

definition remove_class :: "string \<Rightarrow> (gen_module, unit) io" where
  "remove_class name =
     io_bind (lookup_type name) (\<lambda>_ m.
       if name \<in> set (classes m) then (Inr (), m\<lparr>classes := remove1 name (classes m)\<rparr>) else (Inl ValueError, m))"

definition remove_enum :: "string \<Rightarrow> (gen_module, unit) io" where
  "remove_enum name =
     io_bind (lookup_type name) (\<lambda>_ m.
       if name \<in> set (enums m) then (Inr (), m\<lparr>enums := remove1 name (enums m)\<rparr>) else (Inl ValueError, m))"

definition add_include :: "string \<Rightarrow> (gen_module, unit) io" where
  "add_include h = io_modify (\<lambda>m. m\<lparr>include_lines := include_lines m @ [h]\<rparr>)"

definition write_after_init :: "string \<Rightarrow> (gen_module, unit) io" where
  "write_after_init line = io_modify (\<lambda>m. m\<lparr>after_init := after_init m @ [line]\<rparr>)"

definition in_ns3 :: "string \<Rightarrow> string" where
  "in_ns3 name = ''ns3::'' @ name"

text \<open>\<^verbatim>\<open>if name in root_module: ...\<close> and the two ways to pass over what is missing.\<close>

definition if_registered :: "string \<Rightarrow> (gen_module, unit) io \<Rightarrow> (gen_module, unit) io" where
  "if_registered name op m = (if name \<in> set (registered m) then op m else (Inr (), m))"

definition ignoring :: "(py_error \<Rightarrow> bool) \<Rightarrow> (gen_module, unit) io \<Rightarrow> (gen_module, unit) io" where
  "ignoring ignored op m = (case op m of (Inl e, m') \<Rightarrow> (if ignored e then Inr () else Inl e, m') | r \<Rightarrow> r)"

definition add_member :: "string \<Rightarrow> member \<Rightarrow> (gen_module, unit) io" where
  "add_member c x = io_modify (\<lambda>m. m\<lparr>members := members m @ [(c, x)]\<rparr>)"

definition unless_enabled :: "string list \<Rightarrow> string \<Rightarrow> (gen_module, unit) io \<Rightarrow> (gen_module, unit) io" where
  "unless_enabled features f op = (if f \<in> set features then io_return () else op)"

text \<open>Flags of the wrappers written by hand, and the constants for modes of files.\<close>

definition add_wrapper :: "string \<Rightarrow> bool \<Rightarrow> string \<times> string \<Rightarrow> (gen_module, unit) io" where
  "add_wrapper c static = (\<lambda>(method, wrapper).
     add_member c (Custom_wrapper method wrapper
       ([''METH_VARARGS'', ''METH_KEYWORDS''] @ (if static then [''METH_STATIC''] else []))))"

definition simulator_customizations :: "(gen_module, unit) io" where
  "simulator_customizations =
     io_bind (lookup_type ''ns3::Simulator'') (\<lambda>_. io_for (add_wrapper ''ns3::Simulator'' True)
       [(''Schedule'', ''_wrap_Simulator_Schedule''), (''ScheduleNow'', ''_wrap_Simulator_ScheduleNow''),
        (''ScheduleWithContext'', ''_wrap_Simulator_ScheduleWithContext''),
        (''ScheduleDestroy'', ''_wrap_Simulator_ScheduleDestroy''), (''Run'', ''_wrap_Simulator_Run'')])"

definition commandline_customizations :: "(gen_module, unit) io" where
  "commandline_customizations =
     io_bind (lookup_type ''ns3::CommandLine'') (\<lambda>_.
     io_bind (add_member ''ns3::CommandLine'' (Method ''Parse'' [''ArgvParam argv''])) (\<lambda>_.
     add_wrapper ''ns3::CommandLine'' False (''AddValue'', ''_wrap_CommandLine_AddValue'')))"

definition typeid_customizations :: "(gen_module, unit) io" where
  "typeid_customizations =
     io_bind (lookup_type ''ns3::TypeId'')
       (\<lambda>_. add_wrapper ''ns3::TypeId'' True (''LookupByNameFailSafe'', ''_wrap_TypeId_LookupByNameFailSafe''))"

definition upper_string :: "string \<Rightarrow> string" where
  "upper_string s =
     map (\<lambda>c. if (97 :: nat) \<le> of_char c \<and> (of_char c :: nat) \<le> 122 then char_of ((of_char c :: nat) - 32) else c) s"

definition mode_constant :: "string \<Rightarrow> string" where
  "mode_constant flag =
     ''PyModule_AddIntConstant(m, (char *) '' @ [QUOT] @ ''STD_IOS_'' @ upper_string flag @ [QUOT] @ '', std::ios::'' @ flag @ '');''"

definition add_std_ios_openmode :: "(gen_module, unit) io" where
  "add_std_ios_openmode =
     io_for (\<lambda>flag. write_after_init (mode_constant flag)) [''in'', ''out'', ''ate'', ''app'', ''trunc'', ''binary'']"

definition add_class :: "string \<Rightarrow> (gen_module, unit) io" where
  "add_class name = io_modify (\<lambda>m. m\<lparr>registered := registered m @ [name], classes := classes m @ [name]\<rparr>)"

definition add_alias :: "string \<times> string \<Rightarrow> (gen_module, unit) io" where
  "add_alias a = io_modify (\<lambda>m. m\<lparr>type_aliases := type_aliases m @ [a]\<rparr>)"

definition add_std_ofstream :: "(gen_module, unit) io" where
  "add_std_ofstream =
     io_bind (add_include ''<fstream>'') (\<lambda>_.
     io_bind (add_class ''::std::ostream'') (\<lambda>_.
     io_bind (add_member ''::std::ostream'' (Not_constructed ''abstract base class'')) (\<lambda>_.
     io_bind (add_class ''::std::ofstream'') (\<lambda>_.
     io_bind (io_for (\<lambda>(c, x). add_member c x)
       [(''::std::ofstream'', Enum ''openmode''
          [(''app'', ''std::ios_base::app''), (''ate'', ''std::ios_base::ate''), (''binary'', ''std::ios_base::binary''),
           (''in'', ''std::ios_base::in''), (''out'', ''std::ios_base::out''), (''trunc'', ''std::ios_base::trunc'')]),
        (''::std::ofstream'', Constructor [''const char * filename'', ''::std::ofstream::openmode mode = std::ios_base::out'']),
        (''::std::ofstream'', Method ''close'' [])]) (\<lambda>_.
     io_bind (io_for add_alias [(''std::_Ios_Openmode'', ''int''), (''std::ios::openmode'', ''int'')])
       (\<lambda>_. add_std_ios_openmode))))))"

section \<open>Customisations of modules\<close>

definition core_post_register_types :: "string list \<Rightarrow> (gen_module, unit) io" where
  "core_post_register_types features =
     io_bind simulator_customizations (\<lambda>_.
     io_bind commandline_customizations (\<lambda>_.
     io_bind typeid_customizations (\<lambda>_.
     io_bind add_std_ofstream (\<lambda>_.
     io_bind (unless_enabled features ''Threading'' (io_for (\<lambda>c. remove_class (in_ns3 c))
       [''SystemThread'', ''SystemMutex'', ''SystemCondition'', ''CriticalSection'',
        ''SimpleRefCount< ns3::SystemThread, ns3::empty, ns3::DefaultDeleter<ns3::SystemThread> >''])) (\<lambda>_.
     io_bind (unless_enabled features ''RealTime''
       (io_bind (io_for (\<lambda>c. remove_class (in_ns3 c)) [''WallClockSynchronizer'', ''RealtimeSimulatorImpl''])
         (\<lambda>_. remove_enum ''ns3::RealtimeSimulatorImpl::SynchronizationMode''))) (\<lambda>_.
     write_after_init ''PyEval_InitThreads();''))))))"

definition tap_bridge_post_register_types :: "string list \<Rightarrow> (gen_module, unit) io" where
  "tap_bridge_post_register_types features =
     unless_enabled features ''TapBridge''
       (io_bind (io_for (\<lambda>c. remove_class (in_ns3 c)) [''TapBridge'', ''TapBridgeHelper'', ''TapBridgeFdReader''])
         (\<lambda>_. remove_enum ''ns3::TapBridge::Mode''))"

definition remove_if_registered :: "string \<Rightarrow> (gen_module, unit) io" where
  "remove_if_registered name = if_registered name (remove_class name)"

definition fd_net_device_post_register_types :: "string list \<Rightarrow> (gen_module, unit) io" where
  "fd_net_device_post_register_types features =
     io_bind (unless_enabled features ''EmuFdNetDevice'' (remove_if_registered ''ns3::EmuFdNetDeviceHelper'')) (\<lambda>_.
     io_bind (unless_enabled features ''TapFdNetDevice'' (remove_if_registered ''ns3::TapFdNetDeviceHelper'')) (\<lambda>_.
     io_bind (unless_enabled features ''PlanetLabFdNetDevice'' (remove_if_registered ''ns3::PlanetLabFdNetDeviceHelper'')) (\<lambda>_.
     unless_enabled features ''FdNetDevice''
       (io_bind (io_for (\<lambda>c. remove_if_registered (in_ns3 c)) [''FdNetDevice'', ''FdNetDeviceHelper'', ''FdNetDeviceFdReader''])
         (\<lambda>_. if_registered ''ns3::FdNetDeviceHelper::EncapsulationMode''
           (remove_enum ''ns3::FdNetDeviceHelper::EncapsulationMode''))))))"

definition lte_post_register_types :: "string list \<Rightarrow> (gen_module, unit) io" where
  "lte_post_register_types features =
     unless_enabled features ''EmuFdNetDevice'' (remove_if_registered ''ns3::EmuEpcHelper'')"

definition stats_post_register_types :: "string list \<Rightarrow> (gen_module, unit) io" where
  "stats_post_register_types features =
     unless_enabled features ''SQLiteStats'' (io_for (\<lambda>c. ignoring (\<lambda>_. True) (remove_class (in_ns3 c)))
       [''SimpleRefCount< ns3::SQLiteOutput, ns3::empty, ns3::DefaultDeleter<ns3::SQLiteOutput> >'', ''SQLiteOutput'',
        ''SqliteDataOutput'', ''DefaultDeleter< ns3::SQLiteOutput >''])"

definition config_store_post_register_types :: "string list \<Rightarrow> (gen_module, unit) io" where
  "config_store_post_register_types features =
     unless_enabled features ''GtkConfigStore'' (ignoring (\<lambda>e. e = KeyError) (remove_class ''ns3::GtkConfigStore''))"


lemma if_ignoring: "fst (ignoring (\<lambda>_. True) op m) = Inr ()"
  by (simp add: ignoring_def split: prod.split sum.split)

text \<open>What removing several classes comes to.\<close>

lemma remove_class_eq:
  "remove_class name m =
     (if name \<notin> set (registered m) then (Inl KeyError, m)
      else if name \<notin> set (classes m) then (Inl ValueError, m)
      else (Inr (), m\<lparr>classes := remove1 name (classes m)\<rparr>))"
  by (simp add: remove_class_def lookup_type_def io_bind_def)

lemma remove_classes:
  assumes "distinct names" "distinct (classes m)"
  shows "if set names \<subseteq> set (registered m) \<inter> set (classes m)
    then io_for remove_class names m = (Inr (), m\<lparr>classes := filter (\<lambda>c. c \<notin> set names) (classes m)\<rparr>)
    else \<exists>e m'. io_for remove_class names m = (Inl e, m')"
  using assms
proof (induction names arbitrary: m)
  case (Cons name names)
  let ?m = "m\<lparr>classes := remove1 name (classes m)\<rparr>"
  have rest: "distinct names" "distinct (classes ?m)" "name \<notin> set names" using Cons.prems by simp_all
  show ?case
  proof (cases "name \<in> set (registered m) \<inter> set (classes m)")
    case True
    have "filter (\<lambda>c. c \<notin> set names) (remove1 name (classes m)) = filter (\<lambda>c. c \<notin> set (name # names)) (classes m)"
      using Cons.prems(2) by (auto simp: distinct_remove1_removeAll removeAll_filter_not_eq intro!: filter_cong)
    moreover have "set names \<subseteq> set (remove1 name (classes m)) \<longleftrightarrow> set names \<subseteq> set (classes m)"
      using rest(3) Cons.prems(2) by auto
    moreover have "remove_class name m = (Inr (), ?m)" using True by (simp add: remove_class_eq)
    then have "io_for remove_class (name # names) m = io_for remove_class names ?m" by simp
    ultimately show ?thesis
      using True Cons.IH [OF rest(1,2)] by simp
  next
    case False
    then obtain e where "remove_class name m = (Inl e, m)"
      by (cases "name \<in> set (registered m)") (simp_all add: remove_class_eq)
    with False show ?thesis by auto
  qed
qed simp

text \<open>
  Customisations of the single modules against the features of a build.  Those of \<^verbatim>\<open>core\<close> and \<^verbatim>\<open>tap-bridge\<close> need every
  class they remove; the others accept that a class is not there.
\<close>

lemma io_for_map: "io_for (\<lambda>c. f (g c)) xs = io_for f (map g xs)"
  by (induction xs) simp_all

definition tap_classes :: "string list" where
  "tap_classes = [''ns3::TapBridge'', ''ns3::TapBridgeHelper'', ''ns3::TapBridgeFdReader'']"

theorem tap_bridge_needs_classes:
  assumes "''TapBridge'' \<notin> set features" "distinct (classes m)"
  shows "fst (tap_bridge_post_register_types features m) = Inr () \<longleftrightarrow>
    set tap_classes \<subseteq> set (registered m) \<inter> set (classes m) \<and>
    ''ns3::TapBridge::Mode'' \<in> set (registered m) \<inter> set (enums m)"
proof -
  have names: "map in_ns3 [''TapBridge'', ''TapBridgeHelper'', ''TapBridgeFdReader''] = tap_classes" "distinct tap_classes"
    by (simp_all add: in_ns3_def tap_classes_def)
  have run: "tap_bridge_post_register_types features m =
      io_bind (io_for remove_class tap_classes) (\<lambda>_. remove_enum ''ns3::TapBridge::Mode'') m"
    using assms(1) names(1) by (simp only: tap_bridge_post_register_types_def unless_enabled_def io_for_map if_False)
  note removed = remove_classes [OF names(2) assms(2)]
  show ?thesis
  proof (cases "set tap_classes \<subseteq> set (registered m) \<inter> set (classes m)")
    case True
    with removed run show ?thesis by (simp add: remove_enum_def lookup_type_def io_bind_def)
  next
    case False
    with removed obtain e m' where "io_for remove_class tap_classes m = (Inl e, m')" by (simp only: if_False) blast
    with run have "tap_bridge_post_register_types features m = (Inl e, m')" by simp
    with False show ?thesis by auto
  qed
qed


theorem tap_bridge_needs_classes_witness:
  "fst (tap_bridge_post_register_types [''RealTime'']
     \<lparr>registered = [''ns3::TapBridge''], classes = [''ns3::TapBridge''], enums = [], members = [], include_lines = [], type_aliases = [], after_init = []\<rparr>)
   \<noteq> Inr ()"
  using tap_bridge_needs_classes [of "[''RealTime'']"
      "\<lparr>registered = [''ns3::TapBridge''], classes = [''ns3::TapBridge''], enums = [], members = [], include_lines = [], type_aliases = [], after_init = []\<rparr>"]
  by (simp add: tap_classes_def)

section \<open>Errors in wrappers\<close>

text \<open>
  The handler of errors looks for the call in the definitions of the module among the stack frames kept with a wrapper, which are
  pairs of file and line.  It reverses the list in place.  The result is the place of the warning, if one is found.
\<close>

definition handle_error :: "string \<Rightarrow> (string \<times> nat) list option \<Rightarrow> (string \<times> nat) option \<times> (string \<times> nat) list option" where
  "handle_error apidefs_file stack =
     (case stack of
        None \<Rightarrow> (None, None)
      | Some frames \<Rightarrow> (find (\<lambda>l. fst l = apidefs_file) (rev frames), Some (rev frames)))"

text \<open>
  The first error of a wrapper is reported at its innermost frame in the definitions, the second one at its outermost, and so on in
  turn.
\<close>

theorem errors_alternate:
  assumes "frames = before @ (apidefs, l) # middle @ (apidefs, l') # after"
    and "apidefs \<notin> fst ` set before" "apidefs \<notin> fst ` set after"
  shows "fst (handle_error apidefs (Some frames)) = Some (apidefs, l') \<and>
    fst (handle_error apidefs (snd (handle_error apidefs (Some frames)))) = Some (apidefs, l) \<and>
    snd (handle_error apidefs (snd (handle_error apidefs (Some frames)))) = Some frames"
proof -
  have found: "find (\<lambda>l. fst l = apidefs) (xs @ (apidefs, k) # ys) = Some (apidefs, k)" if "apidefs \<notin> fst ` set xs" for xs k ys
    using that by (induction xs) auto
  have "rev frames = rev after @ (apidefs, l') # rev (before @ (apidefs, l) # middle)" using assms(1) by simp
  then have "find (\<lambda>l. fst l = apidefs) (rev frames) = Some (apidefs, l')" using found [of "rev after"] assms(3) by simp
  moreover have "find (\<lambda>l. fst l = apidefs) frames = Some (apidefs, l)" using found [OF assms(2)] assms(1) by simp
  ultimately show ?thesis by (simp add: handle_error_def)
qed

theorem errors_alternate_witness:
  "fst (handle_error ''api.py'' (snd (handle_error ''api.py'' (Some [(''api.py'', 10), (''api.py'', 20)])))) = Some (''api.py'', 10)"
  using errors_alternate [of "[(''api.py'', 10), (''api.py'', 20)]" "[]" "''api.py''" 10 "[]" 20 "[]"] by simp

section \<open>The main program\<close>

text \<open>
  What importing gives: the hooks of the customisations of the module, the list of callback classes, and the definitions; an
  \<^verbatim>\<open>ImportError\<close> is passed over for the first two.
\<close>

datatype gen_step =
    Module_init string string | Std_ios_openmode | Register_types | Post_register_types
  | Register_callback_classes "string list list" | Register_methods | Post_register_methods
  | Object_customizations | Attribute_customizations | Generate_callback_classes "string list list"
  | Register_functions | Post_register_functions | Generate string

record imported_modules =
  api_definitions :: "string \<Rightarrow> unit result"
  customization_hooks :: "string list result"
  callbacks_list :: "string list list result"

record gen_run =
  sys_path :: "string list"
  gen_steps :: "gen_step list"

definition or_default :: "'a \<Rightarrow> 'a result \<Rightarrow> 'a result" where
  "or_default d r = (case r of Inl e \<Rightarrow> if e = ImportError then Inr d else Inl e | Inr x \<Rightarrow> Inr x)"

definition import_all :: "imported_modules \<Rightarrow> string \<Rightarrow> (string list \<times> string list list) result" where
  "import_all i target =
     res_bind (api_definitions i (''modulegen__'' @ target)) (\<lambda>_.
     res_bind (or_default [] (customization_hooks i)) (\<lambda>hooks.
     res_bind (or_default [] (callbacks_list i)) (\<lambda>callbacks. Inr (hooks, callbacks))))"

definition gen_program :: "string \<Rightarrow> string \<Rightarrow> string \<Rightarrow> string list \<Rightarrow> string list list \<Rightarrow> gen_step list" where
  "gen_program extension_name module_name output_file hooks callbacks =
     (let post = (\<lambda>hook step. if hook \<in> set hooks then [step] else []) in
      [Module_init extension_name ([QUOT] @ ''ns3/'' @ module_name @ ''-module.h'' @ [QUOT]), Std_ios_openmode, Register_types] @
      post ''post_register_types'' Post_register_types @
      [Register_callback_classes callbacks, Register_methods] @
      post ''post_register_methods'' Post_register_methods @
      [Object_customizations, Attribute_customizations, Generate_callback_classes callbacks, Register_functions] @
      post ''post_register_functions'' Post_register_functions @
      [Generate output_file])"

definition run_step :: "(gen_step \<Rightarrow> unit result) \<Rightarrow> gen_step \<Rightarrow> (gen_run, unit) io" where
  "run_step outcome st s = (outcome st, s\<lparr>gen_steps := gen_steps s @ [st]\<rparr>)"

text \<open>\<^verbatim>\<open>sys.path\<close> has the directory of the bindings in front while the imports are made, also when one raises.\<close>

definition gen_main :: "imported_modules \<Rightarrow> (gen_step \<Rightarrow> unit result) \<Rightarrow> string list \<Rightarrow> (gen_run, unit) io" where
  "gen_main i outcome av s =
     (case av of
        [_, module_abs_src_path, target, extension_name, output_file] \<Rightarrow>
          let s1 = s\<lparr>sys_path := path_join module_abs_src_path ''bindings'' # sys_path s\<rparr>;
              imported = import_all i target;
              s2 = s1\<lparr>sys_path := drop 1 (sys_path s1)\<rparr>
          in (case imported of
                Inl e \<Rightarrow> (Inl e, s2)
              | Inr (hooks, callbacks) \<Rightarrow>
                  io_for (run_step outcome) (gen_program extension_name (basename module_abs_src_path) output_file hooks callbacks) s2)
      | _ \<Rightarrow> (Inl ValueError, s))"

lemma run_steps:
  "snd (io_for (run_step outcome) ps s) = s\<lparr>gen_steps := gen_steps s @ (takeWhile (\<lambda>p. outcome p = Inr ()) ps @
     take 1 (dropWhile (\<lambda>p. outcome p = Inr ()) ps))\<rparr>"
proof (induction ps arbitrary: s)
  case (Cons p ps)
  show ?case
  proof (cases "outcome p")
    case (Inl e)
    then show ?thesis by (simp add: io_bind_def run_step_def)
  next
    case (Inr u)
    then show ?thesis using Cons by (simp add: io_bind_def run_step_def)
  qed
qed simp

lemma run_steps_result:
  "fst (io_for (run_step outcome) ps s) = Inr () \<longleftrightarrow> list_all (\<lambda>p. outcome p = Inr ()) ps"
proof (induction ps arbitrary: s)
  case (Cons p ps)
  show ?case
  proof (cases "outcome p")
    case (Inl e)
    then show ?thesis by (simp add: io_bind_def run_step_def)
  next
    case (Inr u)
    then show ?thesis using Cons by (simp add: io_bind_def run_step_def)
  qed
qed simp

lemma import_all_iff:
  "import_all i target = Inr (hooks, callbacks) \<longleftrightarrow>
     api_definitions i (''modulegen__'' @ target) = Inr () \<and>
     (customization_hooks i = Inr hooks \<or> customization_hooks i = Inl ImportError \<and> hooks = []) \<and>
     (callbacks_list i = Inr callbacks \<or> callbacks_list i = Inl ImportError \<and> callbacks = [])"
  by (auto simp: import_all_def or_default_def res_simps split: sum.splits if_splits)

lemma generator_result:
  assumes "import_all i target = Inr (hooks, callbacks)"
  shows "gen_main i outcome [prog, src, target, ext, output_file] s =
    io_for (run_step outcome) (gen_program ext (basename src) output_file hooks callbacks) s"
  using assms by (simp add: gen_main_def)

lemma generator_import_error:
  "import_all i target = Inl e \<Longrightarrow> gen_main i outcome [prog, src, target, ext, output_file] s = (Inl e, s)"
  by (simp add: gen_main_def)

lemma run_steps_all:
  "list_all (\<lambda>p. outcome p = Inr ()) ps \<Longrightarrow> gen_steps (snd (io_for (run_step outcome) ps s)) = gen_steps s @ ps"
  by (induction ps arbitrary: s) (auto simp: io_bind_def run_step_def)

lemma generator_outcome:
  "sys_path (snd (gen_main i outcome av s)) = sys_path s \<and>
   (fst (gen_main i outcome av s) = Inr () \<longleftrightarrow>
     (\<exists>prog src target ext output_file hooks callbacks.
        av = [prog, src, target, ext, output_file] \<and>
        (api_definitions i (''modulegen__'' @ target) = Inr () \<and>
        (customization_hooks i = Inr hooks \<or> customization_hooks i = Inl ImportError \<and> hooks = []) \<and>
        (callbacks_list i = Inr callbacks \<or> callbacks_list i = Inl ImportError \<and> callbacks = [])) \<and>
        list_all (\<lambda>p. outcome p = Inr ()) (gen_program ext (basename src) output_file hooks callbacks) \<and>
        gen_steps (snd (gen_main i outcome av s)) = gen_steps s @ gen_program ext (basename src) output_file hooks callbacks))"
proof (cases "\<exists>prog src target ext output_file. av = [prog, src, target, ext, output_file]")
  case False
  then have "gen_main i outcome av s = (Inl ValueError, s)"
    by (auto simp: gen_main_def split: list.split)
  with False show ?thesis by auto
next
  case True
  then obtain prog src target ext output_file where av: "av = [prog, src, target, ext, output_file]" by blast
  show ?thesis
  proof (cases "import_all i target")
    case (Inl e)
    then have "gen_main i outcome av s = (Inl e, s)" using av generator_import_error by simp
    moreover have "\<nexists>hooks callbacks. import_all i target = Inr (hooks, callbacks)" using Inl by simp
    ultimately show ?thesis using av unfolding import_all_iff by auto
  next
    case (Inr hc)
    obtain hooks callbacks where hc: "import_all i target = Inr (hooks, callbacks)" using Inr by (cases hc) simp
    have main: "gen_main i outcome av s =
        io_for (run_step outcome) (gen_program ext (basename src) output_file hooks callbacks) s"
      using av generator_result [OF hc] by simp
    have same: "hooks' = hooks \<and> callbacks' = callbacks" if "import_all i target = Inr (hooks', callbacks')" for hooks' callbacks'
      using that hc by simp
    let ?ok = "list_all (\<lambda>p. outcome p = Inr ()) (gen_program ext (basename src) output_file hooks callbacks)"
    have "fst (gen_main i outcome av s) = Inr () \<longleftrightarrow> ?ok" unfolding main by (rule run_steps_result)
    moreover have "?ok \<Longrightarrow> gen_steps (snd (gen_main i outcome av s)) =
        gen_steps s @ gen_program ext (basename src) output_file hooks callbacks"
      unfolding main by (rule run_steps_all)
    moreover have "sys_path (snd (gen_main i outcome av s)) = sys_path s" unfolding main run_steps by simp
    ultimately show ?thesis
      using av hc same unfolding import_all_iff [symmetric] by blast
  qed
qed

text \<open>
  The generator leaves \<^verbatim>\<open>sys.path\<close> as it was, whatever happens.  It succeeds exactly when it has its four arguments, nothing but
  missing customisations and callbacks goes wrong in the imports, and every step succeeds; then the steps are those of
  its program, with the same callbacks registered before the methods and generated after them.
\<close>

theorem generator_runs:
  "sys_path (snd (gen_main i outcome av s)) = sys_path s \<and>
   (fst (gen_main i outcome av s) = Inr () \<longleftrightarrow>
     (\<exists>prog src target ext output_file hooks callbacks.
        av = [prog, src, target, ext, output_file] \<and>
        (api_definitions i (''modulegen__'' @ target) = Inr () \<and>
        (customization_hooks i = Inr hooks \<or> customization_hooks i = Inl ImportError \<and> hooks = []) \<and>
        (callbacks_list i = Inr callbacks \<or> callbacks_list i = Inl ImportError \<and> callbacks = [])) \<and>
        list_all (\<lambda>p. outcome p = Inr ()) (gen_program ext (basename src) output_file hooks callbacks) \<and>
        gen_steps (snd (gen_main i outcome av s)) = gen_steps s @ gen_program ext (basename src) output_file hooks callbacks))"
  by (rule generator_outcome)

end
