(* ===== verification/Bind_Pipeline.thy ===== *)
theory Bind_Pipeline
  imports Bind_Scan Bind_Gen
begin

text \<open>
  The scanner (\<^verbatim>\<open>Bind_Scan\<close>) and the generator (\<^verbatim>\<open>Bind_Gen\<close>, \<^verbatim>\<open>Bind_Callbacks\<close>) of the Python bindings together: what becomes of the
  callback classes of a module.
\<close>

section \<open>From the scan of a module to its callback classes\<close>

text \<open>C12. 
  The parts of the binding generator together: a callback class pygccxml finds in a module, whose list the scanner writes and the
  generator imports, gets its C++ class when the types of its parameters are known, and the handler of its parameters refers to that
  class; the generator registers the handlers and generates the classes for this list.
\<close>

theorem scanned_callbacks_generated:
  assumes "\<forall>c \<in> set found. prefix ''Callback<'' (class_name c) \<longrightarrow> is_instantiation lib (class_string c)"
    and "\<forall>c \<in> set found. \<forall>x \<in> set (template_parameters lib (class_string c)). plain_name x"
    and "\<forall>c \<in> set found. template_parameters lib (class_string c) \<noteq> []"
    and "callbacks_list i = (case read_callback_classes (snd (scan_callback_classes lib found [])) of
           None \<Rightarrow> Inl ValueError | Some rows \<Rightarrow> Inr rows)"
    and "fst (gen_main i outcome av start) = Inr ()"
    and "callbacks = callback_parameters lib found" "inj_on callback_name (set callbacks)"
    and "gen = snd (generate_callback_classes types callbacks
      \<lparr>handlers = register_callback_classes callbacks, disabled_helpers = [], flushed = []\<rparr>)"
    and "c \<in> set found" "prefix ''Callback<'' (class_name c)" "parameters = template_parameters lib (class_string c)"
    and "return_ok types parameters" "arguments_ok types parameters"
  shows "{Register_callback_classes callbacks, Generate_callback_classes callbacks} \<subseteq> set (gen_steps (snd (gen_main i outcome av start))) \<and>
    (\<exists>n < length callbacks. callbacks ! n = parameters \<and>
       class_code types (n, parameters) \<in> set (flushed gen) \<and>
       impl_name (handlers gen ! n) = impl_class n \<and> \<not> disabled (handlers gen ! n))"
proof -
  obtain written where "scan_callback_classes lib found [] = (Inr (), written)"
      "read_callback_classes written = Some (callback_parameters lib found)"
    using scanned_list_read [OF assms(1,2)] by blast
  then have "callbacks_list i = Inr callbacks" using assms(4,6) by simp
  then have steps: "{Register_callback_classes callbacks, Generate_callback_classes callbacks} \<subseteq>
      set (gen_steps (snd (gen_main i outcome av start)))"
    using generator_outcome [of i outcome av start] assms(5) by (auto simp: gen_program_def)
  have "\<forall>t \<in> set callbacks. t \<noteq> []" using assms(3,6) by (auto simp: callback_parameters_def)
  note generated = generated_classes [OF this assms(7) _ assms(8)]
  have "parameters \<in> set callbacks" using assms(6,9,10,11) by (auto simp: callback_parameters_def)
  then obtain n where n: "n < length callbacks" "callbacks ! n = parameters" by (auto simp: in_set_conv_nth)
  then have "(n, parameters) \<in> set (filter (\<lambda>(n, t). return_ok types t \<and> arguments_ok types t) (enumerate 0 callbacks))"
    using assms(12,13) by (auto simp: in_set_enumerate_eq)
  then have "class_code types (n, parameters) \<in> set (flushed gen)" using generated [OF n(1)] by auto
  then show ?thesis
    using steps n generated [OF n(1)] assms(13) by auto
qed

text \<open>A module with one callback, and a generator all of whose steps succeed.\<close>

definition one_callback :: template_library where
  "one_callback = \<lparr>Bind_Scan.template_library.template_args = (\<lambda>_. []), is_instantiation = (\<lambda>_. True),
                   template_parameters = (\<lambda>_. [''void'', ''int'']), location_of = (\<lambda>_. None)\<rparr>"

theorem scanned_callbacks_generated_witness:
  "\<exists>n < 1. class_code small_library (n, [''void'', ''int'']) \<in> set (flushed (snd (generate_callback_classes small_library [[''void'', ''int'']]
      \<lparr>handlers = register_callback_classes [[''void'', ''int'']], disabled_helpers = [], flushed = []\<rparr>)))"
proof -
  let ?c = "\<lparr>class_name = ''Callback<void, int>'', class_string = ''C''\<rparr>"
  let ?i = "\<lparr>api_definitions = (\<lambda>_. Inr ()), customization_hooks = Inl ImportError, callbacks_list =
    (case read_callback_classes (snd (scan_callback_classes one_callback [?c] [])) of None \<Rightarrow> Inl ValueError | Some rows \<Rightarrow> Inr rows)\<rparr>"
  let ?run = "\<lparr>sys_path = [], gen_steps = []\<rparr>"
  have inst: "\<forall>c \<in> set [?c]. prefix ''Callback<'' (class_name c) \<longrightarrow> is_instantiation one_callback (class_string c)"
    and plain: "\<forall>c \<in> set [?c]. \<forall>x \<in> set (template_parameters one_callback (class_string c)). plain_name x"
    and some: "\<forall>c \<in> set [?c]. template_parameters one_callback (class_string c) \<noteq> []"
    by (simp_all add: one_callback_def plain_name_def)
  have "callbacks_list ?i = Inr [[''void'', ''int'']]"
    using scanned_list_read [OF inst plain] by (auto simp: callback_parameters_def one_callback_def)
  then have imported: "import_all ?i ''t'' = Inr ([], [[''void'', ''int'']])" by (simp add: import_all_def or_default_def)
  have ok: "fst (gen_main ?i (\<lambda>_. Inr ()) [''p'', ''src'', ''t'', ''e'', ''o''] ?run) = Inr ()"
    unfolding generator_result [OF imported] by (simp add: run_steps_result list_all_iff)
  have rows: "[[''void'', ''int'']] = callback_parameters one_callback [?c]"
    and params: "[''void'', ''int''] = template_parameters one_callback (class_string ?c)"
    by (simp_all add: callback_parameters_def one_callback_def)
  have types: "return_ok small_library [''void'', ''int'']" "arguments_ok small_library [''void'', ''int'']"
    by (simp_all add: return_ok_def arguments_ok_def callback_arguments_def small_library_def)
  have found: "?c \<in> set [?c]" "prefix ''Callback<'' (class_name ?c)" by simp_all
  have inj: "inj_on callback_name (set [[''void'', ''int'']])" by simp
  have "callbacks_list ?i = (case read_callback_classes (snd (scan_callback_classes one_callback [?c] [])) of
      None \<Rightarrow> Inl ValueError | Some rows \<Rightarrow> Inr rows)" by simp
  from scanned_callbacks_generated [OF inst plain some this ok rows inj refl found params types]
  obtain n where "n < length [[''void'', ''int'']]"
      "class_code small_library (n, [''void'', ''int'']) \<in> set (flushed (snd (generate_callback_classes small_library [[''void'', ''int'']]
        \<lparr>handlers = register_callback_classes [[''void'', ''int'']], disabled_helpers = [], flushed = []\<rparr>)))"
    by blast
  then show ?thesis by (intro exI [of _ n]) simp
qed

end
