(* ===== verification/Spec2Isabelle.thy ===== *)
theory Spec2Isabelle
  imports Topsort Find_Cycles Shell_Parse Shell_Run Style_Patch Style_Check Rad_Util Rad_Numbers
    Rad_Arith Test_Report Test_Main Flow_Stats Grid_Data Grid_Read
    Grid_Frame Viz_Simulation Viz_View Viz_Topology Viz_Links
    Viz_Windows Viz_Mouse Viz_Console Port_Tests Module_Create Version_Info Waf_Run Ns3rc Waf_Command Compiler_Flags Waf_Misc
    Bind_Types Bind_Pipeline
begin

text \<open>
  A model of the Python programs of an ns-3 source tree (a fork of the network simulator for
  maritime channels), with the theorems that say what they do.  The simulator itself is C++ and
  its Python bindings are generated; the Python that people wrote and rely on is the tooling
  around it, and that is the subject here.

  \<^bold>\<open>The programs and how they fit together.\<close>

    \<^item> \<^verbatim>\<open>test.py\<close> is the test driver of the repository: it asks the C++ test-runner for the suites,
      reads the lists of examples, turns both into jobs, lets a pool of threads run them, collects
      the results, and reports them as text, HTML, XML, a summary and an exit code.
    \<^item> \<^verbatim>\<open>waf-tools/shellcmd.py\<close> parses shell command lines of the build and runs the pipelines; \<^verbatim>\<open>waf-tools/command.py\<close>
      makes tasks of such lines after substituting variables.  \<^verbatim>\<open>wutils.py\<close> is behind \<^verbatim>\<open>waf --run\<close>: it finds a program
      among the tasks, prepares its environment and runs it, under gdb or valgrind if asked.
    \<^item> \<^verbatim>\<open>utils.py\<close> reads the user's \<^verbatim>\<open>.ns3rc\<close>; \<^verbatim>\<open>waf-tools/cflags.py\<close> chooses the flags of the compilers,
      \<^verbatim>\<open>waf-tools/misc.py\<close> fills templates and keeps the output of commands, and
      \<^verbatim>\<open>waf-tools/clang_compilation_database.py\<close> writes down how every file was compiled.
    \<^item> \<^verbatim>\<open>utils/check-style.py\<close> runs an indenter over the files of a change, at several levels of
      strictness, and edits the resulting patches so that white space at line ends is left alone.
    \<^item> \<^verbatim>\<open>utils/grid.py\<close> reads a file of ranges and events on time lines and shows them in a window.
    \<^item> \<^verbatim>\<open>utils/create-module.py\<close> writes the skeleton of a new module from templates.
    \<^item> \<^verbatim>\<open>waf-tools/versioning.py\<close> takes the version of a build from git, or from a file stored before.
    \<^item> \<^verbatim>\<open>visualizer/core.py\<close> with its companions shows a running simulation in a window: the simulator runs in a
      thread of its own, period by period, and a GTK window shows nodes, links and packets; its plugins add the links of
      stations to their access points and windows with statistics, routes and packets.
    \<^item> \<^verbatim>\<open>bindings/python/topsort.py\<close> orders the classes for the generator of the Python bindings and
      finds the cycles that prevent an order.
    \<^item> \<^verbatim>\<open>bindings/python/ns3modulescan-modular.py\<close> scans the headers of a module and writes its definitions for Python, with
      the annotations pybindgen needs, and \<^verbatim>\<open>ns3modulegen-modular.py\<close> makes C++ wrappers of them, with
      \<^verbatim>\<open>ns3modulegen_core_customizations.py\<close> and the \<^verbatim>\<open>modulegen_customizations.py\<close> of the modules.
    \<^item> \<^verbatim>\<open>bindings/python/rad_util.py\<close> is the library of small algorithms beside it.

  \<^bold>\<open>Conventions.\<close>  \<^verbatim>\<open>Py_Prelude\<close> holds what all parts share.  An exception is a value: a function that
  may raise returns \<^verbatim>\<open>'a result\<close>, a sum of \<^verbatim>\<open>py_error\<close> and the value; an operation on a state that
  may raise is an \<^verbatim>\<open>io\<close>, which also says in which state it raises.  Python integers are \<^verbatim>\<open>int\<close>
  (\<^verbatim>\<open>nat\<close> where only counts occur), floats are rationals or reals where the code only compares and
  scales them, strings are character lists, dictionaries are association lists in insertion order
  (an iteration order is an argument where the result depends on it: locale \<^verbatim>\<open>key_order\<close>), files are
  lists of lines.  A loop is recursion with a termination proof; where the code may really loop
  forever the result is \<^verbatim>\<open>None\<close>, and a theorem says exactly when.  What other programs do (the test
  processes, the shell, the indenter, \<^verbatim>\<open>diff\<close> and \<^verbatim>\<open>patch\<close>, \<^verbatim>\<open>fnmatch\<close>, \<^verbatim>\<open>eval\<close> of the conditions, which may raise, the XML
  parser, the file system) is an argument of the definitions that ask for it.

  \<^bold>\<open>Theories.\<close>

    \<^item> \<^verbatim>\<open>Topsort\<close> and \<^verbatim>\<open>Find_Cycles\<close>: \<^verbatim>\<open>topsort\<close>, \<^verbatim>\<open>topsort_levels\<close> and \<^verbatim>\<open>find_cycles\<close> of \<^verbatim>\<open>topsort.py\<close>.
      Shown: the sort is a permutation that respects the pairs exactly when there is no cycle, and
      otherwise the error names nodes on or behind one; the levels are the depths; both agree; the
      cycle search ends, yields only simple cycles, each once up to rotation, and all of them.
    \<^item> \<^verbatim>\<open>Shell_Parse\<close>: the node classes and \<^verbatim>\<open>Pipeline.parse\<close> of \<^verbatim>\<open>shellcmd.py\<close>.  Shown: what is parsed is
      well-formed, and printing and parsing again gives the same pipeline.  \<^verbatim>\<open>Shell_Run\<close>:
      \<^verbatim>\<open>Pipeline.run\<close> with its files, pipes and processes as a trace of events.  Shown: the exit code is
      that of a chain of segments, equal to a shell's on lines with one kind of operator and not in
      general; every file is closed and every process waited for; verbose runs with \<^verbatim>\<open>&&\<close> fail.
    \<^item> \<^verbatim>\<open>Style_Patch\<close>: the patch classes, their parser and \<^verbatim>\<open>remove_trailing_whitespace_changes\<close> of
      \<^verbatim>\<open>check-style.py\<close>.  Shown: patches survive writing and parsing; the pass changes nothing but line
      ends, and what it does to aligned chunks.  \<^verbatim>\<open>Style_Check\<close>: levels, indenting, \<^verbatim>\<open>run_as_main\<close>.
      Shown: the exit code is 0 exactly when nothing would change; in debug mode always.
    \<^item> \<^verbatim>\<open>Rad_Util\<close> (lists, dictionaries, arguments), \<^verbatim>\<open>Rad_Numbers\<close> (binary numbers, Gray codes),
      \<^verbatim>\<open>Rad_Arith\<close> (divisors, fractions, quantiles, ranges, grids, polygons, units): the functions of
      \<^verbatim>\<open>rad_util.py\<close> with their functional behaviour, errors included, and the ends of their loops.
    \<^item> \<^verbatim>\<open>Test_Report\<close>: \<^verbatim>\<open>read_test\<close>, \<^verbatim>\<open>node_to_text\<close>, \<^verbatim>\<open>translate_to_text\<close>, \<^verbatim>\<open>translate_to_html\<close>.
      \<^verbatim>\<open>Test_Jobs\<close>: the configuration, \<^verbatim>\<open>make_paths\<close>, the lists of examples, the class \<^verbatim>\<open>Job\<close> and
      \<^verbatim>\<open>run_job_synchronously\<close>.  \<^verbatim>\<open>Test_Dispatch\<close>: the first half of \<^verbatim>\<open>run_tests\<close>, from the options to
      the queue of jobs.  \<^verbatim>\<open>Test_Workers\<close>: the worker threads, the two queues and the interrupt flag
      as a step relation, up to the state in which the main thread has joined the workers; the interface it offers is the locale \<^verbatim>\<open>ranked_steps\<close> (an invariant and a
      rank), from which the bound on the length of runs follows.  \<^verbatim>\<open>Test_Summary\<close>: the second half of
      \<^verbatim>\<open>run_tests\<close>, from the results to the exit code.  Shown: the queue has one job per suite and
      example selected and one break per worker; runs end within five steps per job and worker and
      one interrupt, with a result for every job; results and summary do not depend on the schedule;
      an interrupt starts nothing; when the exit code is 0; what the reports list.
      \<^verbatim>\<open>Test_Setup\<close>: \<^verbatim>\<open>read_waf_config\<close>, the build with waf, the build status, and \<^verbatim>\<open>--kinds\<close> and
      \<^verbatim>\<open>--list\<close>.  Shown: the directories waf wrote are read back unless a path has an equals sign in it, every line of the
      cache is executed at most once, lists are complete and sorted and end with status 0 whatever the test-runner does.
      \<^verbatim>\<open>Test_Main\<close>: the program from start to exit status, composed of the other theories.  Shown: status 0
      means that every job dispatched passes when it is run; without an interrupt the code is exactly that; with a
      worker or nothing to run every run is bounded, joins all workers and ends the program, and otherwise no run ends it.

    \<^item> \<^verbatim>\<open>Viz_Simulation\<close>: \<^verbatim>\<open>SimulationThread\<close>, the callbacks that share its lock, the update timer, play, speed and
      quit, as the interleaving of two threads; \<^verbatim>\<open>Step_Systems\<close> has the interfaces both thread models use.
      Shown: mutual exclusion, the bounds on simulated time, that the simulation thread stops and closing the
      window returns, that messages are shown once; two races: two timers at once, and samples lost.
      \<^verbatim>\<open>Viz_View\<close>: the window of samples, averages, arrows, selection, panning, dragging, scaling.  Shown: the
      averages are sums over the last samples, the arrows are those of the pairs, what an empty packet
      breaks, which nodes are watched, and that drags and pans follow the pointer and clean up.
      \<^verbatim>\<open>Viz_Scene\<close>: images, the look of nodes, traits of devices, plugins, divisions and labels of the axes.  Shown: the
      items on the canvas show the state of the node, images keep their proportions, plugins are loaded once, an axis has
      from four to nine ticks.  \<^verbatim>\<open>Viz_Topology\<close>: \<^verbatim>\<open>scan_topology\<close>.  Shown: every node has its view and every wired
      device its links, those between two nodes twice.  \<^verbatim>\<open>Viz_Links\<close>: the lists of links nodes keep, wired links, and
      \<^verbatim>\<open>wifi_intrastructure_link.py\<close> with its monitor.  Shown: a link is in the lists of its ends, is drawn where they
      are, and a station is linked to the access point of its BSSID after a sample; an unknown BSSID stops the sample.
      \<^verbatim>\<open>Viz_Windows\<close>: the windows of the plugins \<^verbatim>\<open>interface_statistics\<close>, \<^verbatim>\<open>ipv4_routing_table\<close>, \<^verbatim>\<open>olsr\<close> and
      \<^verbatim>\<open>show_last_packets\<close> and the update of the view that goes through them.  Shown: the rates and rows of the tables,
      that the filter of packets is the one sent, and that a window that raises ends the update of all after it.
      \<^verbatim>\<open>Viz_Mouse\<close>: buttons, the wheel, centring and following, tooltips, snapshots and the hooks at the start.  Shown: clicks
      select, the zoom stays in its limits, a node followed is in the window, tooltips name every device, a snapshot is
      exactly the window, the bounds set last are kept.  \<^verbatim>\<open>Viz_Console\<close>: the console of \<^verbatim>\<open>ipython_view.py\<close>.  Shown: what
      completion adds and when it loses the word, that history goes back and forth, which coloured text is shown wrongly,
      that typing never leaves the command line and what was shown stays protected.

    \<^item> \<^verbatim>\<open>Grid_Data\<close>: ranges, events, time lines and colours of \<^verbatim>\<open>grid.py\<close>; the lists of named objects
      that are searched or extended share the locale \<^verbatim>\<open>registry\<close>, interpreted for the three of them.
      Shown: what a window selects of the ranges and of the events, the bounds, the default colours.
      \<^verbatim>\<open>Grid_Read\<close>: the regular expressions and \<^verbatim>\<open>read_data\<close>.  Shown: printed entries are recognised,
      and a file is grouped by names, sorted and complete.  \<^verbatim>\<open>Grid_Scale\<close>: the numbers of Python 2 (integers, whose
      division rounds, and floats) and \<^verbatim>\<open>ScaleRenderer\<close>.  Shown: for integer and float bounds, under Python 2
      and 3, at most twenty ticks at the multiples of their distance, and the one span that fails.  \<^verbatim>\<open>Grid_View\<close>: \<^verbatim>\<open>TopLegendRenderer\<close>, \<^verbatim>\<open>TimelinesRenderer\<close>,
      \<^verbatim>\<open>GraphicRenderer\<close> and \<^verbatim>\<open>GtkGraphicRenderer\<close>, whose handlers are \<^verbatim>\<open>io\<close> operations on the record \<^verbatim>\<open>widget\<close>.
      Shown: the range stays within the data, drags follow the pointer whether its ends are integers or floats, zooming in and out is the identity, the legend
      does not overlap, when the rows fit; and the drags that fail.  \<^verbatim>\<open>Grid_Frame\<close>: \<^verbatim>\<open>GraphicRenderer.draw\<close> as the list of
      its calls to the drawing library, the buffer, \<^verbatim>\<open>expose\<close>, \<^verbatim>\<open>MainWindow\<close> and \<^verbatim>\<open>main\<close>; what the window relies on in the
      handlers is the locale \<^verbatim>\<open>redrawing\<close>, interpreted for the six of them.  Shown: what is painted is the graphic as it
      is now, the grey areas and the selection tile the window, the program gets from its file to a painted window; and
      that the pictures written are empty.

    \<^item> \<^verbatim>\<open>Port_Tests\<close>: \<^verbatim>\<open>utils/tests\<close>, the scripts that try the options of \<^verbatim>\<open>test.py\<close> and waf.  Shown: every case is run once and
      counted, trees are configured before, and the option that is not tried.

    \<^item> \<^verbatim>\<open>Flow_Stats\<close>: the script \<^verbatim>\<open>flowmon-parse-results.py\<close> on the element tree of a file.  Shown: every flow
      element becomes a flow with its numbers, those the classifier lists have addresses, losses are shares, and when the
      report comes out.

    \<^item> \<^verbatim>\<open>Module_Templates\<close>: the templates of \<^verbatim>\<open>create-module.py\<close> and \<^verbatim>\<open>str.format\<close>, with a check that each template only
      uses fields it is given.  \<^verbatim>\<open>Module_Create\<close>: the functions that write a module on a file system that may refuse, and
      \<^verbatim>\<open>main\<close>.  Shown: a module is made completely or undone, where names put it, and the exit code.
    \<^item> \<^verbatim>\<open>Version_Info\<close>: the two regular expressions, the task and the configuration of \<^verbatim>\<open>versioning.py\<close>.  Shown: the
      fields are those of the tag git describes, they are stored completely or not at all, and found again without git.
    \<^item> \<^verbatim>\<open>Shlex\<close>: \<^verbatim>\<open>shlex.split\<close> and the quoting that undoes it.  \<^verbatim>\<open>Waf_Run\<close>: \<^verbatim>\<open>wutils.py\<close>, on a world that may refuse to
      start a process.  Shown: which process starts, with which environment, and what becomes of its exit code; which
      program a name means; where relative paths lead.  \<^verbatim>\<open>Ns3rc\<close>: the readers of \<^verbatim>\<open>utils.py\<close>.  Shown: a list is found
      over several lines, an unclosed one is not, and a name inside another name is taken for it.
    \<^item> \<^verbatim>\<open>Waf_Command\<close>: \<^verbatim>\<open>command.py\<close> on top of \<^verbatim>\<open>Shell_Parse\<close> and \<^verbatim>\<open>Shell_Run\<close>.  Shown: words are substituted after the line
      is parsed, so values never change its shape or its exit code.  \<^verbatim>\<open>Compiler_Flags\<close>: \<^verbatim>\<open>cflags.py\<close>.  Shown: warnings are
      cumulative, what is added for whom, and that \<^verbatim>\<open>--disable-werror\<close> removes one flag.  \<^verbatim>\<open>Waf_Misc\<close>: \<^verbatim>\<open>subst_func\<close>,
      the command-output tasks and the compilation database.  Shown: the way over a format string is direct
      substitution, files of a generator share a dictionary, what a command-output task reads, writes and runs, and
      that the database has one entry per file, the last.

    \<^item> \<^verbatim>\<open>Bind_Paths\<close> and \<^verbatim>\<open>Bind_Scan\<close>: the scanner of the bindings.  What pygccxml knows of declarations and what pybindgen
      writes are arguments.  Shown: where the name of a header is found in a path and where the older function never returns; which
      declarations are ignored, where classes are imported from, that annotations of parameters are given once; that
      the list of callbacks is read back; that a module can be scanned again.  \<^verbatim>\<open>Bind_Types\<close>: smart pointers.  Shown: all
      spellings are one type.  \<^verbatim>\<open>Bind_Callbacks\<close>: classes and handlers of callbacks.  Shown: their numbers agree, and which
      handlers have no class.  \<^verbatim>\<open>Bind_Gen\<close>: customisations of modules, the error handler, the main program.  Shown: the
      order of its steps, that the search path is restored, which features must be known, where errors are reported.
      \<^verbatim>\<open>Bind_Pipeline\<close> puts scanner and generator together for the callbacks of a module.

  \<^bold>\<open>Bounds.\<close>  No fuel is used.  The termination measures are in the theories: the number of parents
  left for the sort, the weight of the stack of paths for the cycle search, the gap to the end for
  ranges, the part left of a binary search, the rank of the pool, the gap to the span for the ticks of a scale.

  \<^bold>\<open>Not modelled.\<close>  The C++ simulator and its generated bindings, and the monolithic
  \<^verbatim>\<open>ns3modulegen.py\<close> that the modular scripts replaced; the build scripts (\<^verbatim>\<open>wscript\<close>);
  the search for boost and the relocation of builds, which are internals of waf; of \<^verbatim>\<open>utils/grid.py\<close> the pens and fills inside the legend
  and the rows; of the visualizer the layout of its windows, the painting and the
  start of IPython; of \<^verbatim>\<open>create-module.py\<close> the texts of its help; of \<^verbatim>\<open>test.py\<close> the parsing of the
  options by \<^verbatim>\<open>optparse\<close>, what \<^verbatim>\<open>exec\<close> does with a line of the cache, and most of what is printed in verbose mode; of
  \<^verbatim>\<open>rad_util.py\<close> the formatting of times and tracebacks, which only calls the library.
\<close>

end
